(* ===== verification/Prelude.thy ===== *)
theory Prelude
  imports Main "HOL-Library.Word" "HOL-Library.Monad_Syntax"
begin

text \<open>
  Shared vocabulary of the development: machine words and pointers, the
  convention for calls that do not return, the heap allocator as a parameter,
  and the generic facts on lists, options and words that the component theories
  use.

  Conventions used by every theory.
  \<^item> A C pointer or \<open>uint32_t\<close> is a \<open>32 word\<close>; \<open>NULL\<close> is 0. A C \<open>int\<close> that is a
    return code or an identifier is an \<open>int\<close>; where the source relies on the
    wrap-around of a width the word type is used.
  \<^item> A function of the kernel that takes a state \<open>s\<close> and returns a code becomes a
    function into \<open>(int \<times> state) option\<close>. \<open>None\<close> is the outcome in which the C
    call does not return to its caller: a \<open>panic\<close>, a failed \<open>ASSERT\<close>, the
    dereference of an address at which no live object is stored, or a loop that
    never ends.
\<close>

unbundle bit_operations_syntax

type_synonym u32 = "32 word"
type_synonym ptr = "32 word"

abbreviation NULL :: ptr where
  "NULL \<equiv> 0"

named_theorems heap_simps \<open>unfolding of heap accessors\<close>
named_theorems frame_intros \<open>what an operation leaves alone\<close>

subsection \<open>Calls that do not return\<close>

text \<open>\<open>ASSERT(b)\<close> of \<open>contracts.h\<close>, and \<open>if (!b) panic(...)\<close>.\<close>

definition c_assert :: "bool \<Rightarrow> unit option" where
  "c_assert b = (if b then Some () else None)"

lemma c_assert_simps [simp]:
  "c_assert True = Some ()"
  "c_assert False = None"
  by (simp_all add: c_assert_def)

lemma c_assert_eq_Some [simp]: "c_assert b = Some u \<longleftrightarrow> b"
  by (simp add: c_assert_def)

lemma c_assert_bind [simp]:
  "b \<Longrightarrow> Option.bind (c_assert b) f = f ()"
  "\<not> b \<Longrightarrow> Option.bind (c_assert b) f = None"
  by (simp_all add: c_assert_def)

subsection \<open>The allocator\<close>

text \<open>
  \<open>malloc\<close> and \<open>memalign\<close> come from the 410 C library, which is not part of the
  repository. They are a parameter: the \<open>k\<close>-th call of a run answers
  \<open>al k live\<close>, where \<open>live\<close> says which addresses of the requested type are in
  use. The documented behaviour is that the answer is 0 or an address that is
  not in use.
\<close>

type_synonym allocator = "nat \<Rightarrow> (ptr \<Rightarrow> bool) \<Rightarrow> ptr"

definition malloc_ok :: "allocator \<Rightarrow> bool" where
  "malloc_ok al \<longleftrightarrow> (\<forall>k P. al k P \<noteq> NULL \<longrightarrow> \<not> P (al k P))"

lemma malloc_okD: "malloc_ok al \<Longrightarrow> al k P \<noteq> NULL \<Longrightarrow> \<not> P (al k P)"
  unfolding malloc_ok_def by blast

text \<open>A concrete allocator for evaluation: the first unused address of a pool.\<close>

definition pool_alloc :: "ptr list \<Rightarrow> allocator" where
  "pool_alloc pool k live = (case List.find (\<lambda>p. p \<noteq> NULL \<and> \<not> live p) pool of
     None \<Rightarrow> NULL | Some p \<Rightarrow> p)"

lemma pool_alloc_ok: "malloc_ok (pool_alloc pool)"
  by (auto simp: malloc_ok_def pool_alloc_def find_Some_iff split: option.splits)

subsection \<open>First and last element with a default\<close>

definition hd0 :: "'a list \<Rightarrow> 'a \<Rightarrow> 'a" where
  "hd0 xs d = (case xs of [] \<Rightarrow> d | x # _ \<Rightarrow> x)"

definition last0 :: "'a list \<Rightarrow> 'a \<Rightarrow> 'a" where
  "last0 xs d = (if xs = [] then d else last xs)"

lemma hd0_simps [simp]:
  "hd0 [] d = d"
  "hd0 (x # xs) d = x"
  by (simp_all add: hd0_def)

lemma last0_simps [simp]:
  "last0 [] d = d"
  "last0 (xs @ [x]) d = x"
  "last0 (x # xs) d = last0 xs x"
  by (simp_all add: last0_def)

lemma hd0_append [simp]: "hd0 (xs @ ys) d = hd0 xs (hd0 ys d)"
  by (cases xs) simp_all

lemma last0_append [simp]: "last0 (xs @ ys) d = last0 ys (last0 xs d)"
  by (induction xs arbitrary: d) simp_all

lemma hd0_nonempty: "xs \<noteq> [] \<Longrightarrow> hd0 xs d = hd xs"
  by (cases xs) simp_all

lemma last0_nonempty: "xs \<noteq> [] \<Longrightarrow> last0 xs d = last xs"
  by (simp add: last0_def)

lemma hd0_in_set: "xs \<noteq> [] \<Longrightarrow> hd0 xs d \<in> set xs"
  by (cases xs) simp_all

lemma last0_in_set: "xs \<noteq> [] \<Longrightarrow> last0 xs d \<in> set xs"
  by (simp add: last0_def)

lemma last0_cases: "last0 xs d = d \<or> last0 xs d \<in> set xs"
  by (simp add: last0_def)

lemma hd0_cases: "hd0 xs d = d \<or> hd0 xs d \<in> set xs"
  by (cases xs) simp_all

subsection \<open>Counting addresses\<close>

text \<open>
  A list of pairwise different non-null addresses is shorter than the address
  space, so a \<open>uint32_t\<close> counter of its elements does not wrap around.
\<close>

lemma distinct_ptrs_length:
  fixes ns :: "ptr list"
  assumes "distinct ns" "NULL \<notin> set ns"
  shows "length ns < 2 ^ 32"
proof -
  have "length ns = card (set ns)" using assms(1) by (simp add: distinct_card)
  also have "\<dots> < card (insert NULL (set ns))" using assms(2) by simp
  also have "\<dots> \<le> card (UNIV :: ptr set)" by (rule card_mono) simp_all
  also have "\<dots> = 2 ^ 32" by (simp add: card_word)
  finally show ?thesis .
qed

lemma unat_Suc_of_bound:
  fixes w :: u32
  assumes "unat w = n" "Suc n < 2 ^ 32"
  shows "unat (w + 1) = Suc n"
  using assms by (simp add: unat_word_ariths)

lemma unat_pred:
  fixes w :: u32
  assumes "unat w = Suc n"
  shows "unat (w - 1) = n"
proof -
  have "w \<noteq> 0" using assms by auto
  then show ?thesis using assms by (simp add: unat_minus_one)
qed

text \<open>Every \<open>uint32_t\<close> is below the size of the address space.\<close>

lemma unat_u32_bound: "unat (w :: u32) < 2 ^ 32"
  using unsigned_less [of w] by simp

lemma unat_minus_one_u32: "unat (- 1 :: u32) = 2 ^ 32 - 1"
  by (simp add: unsigned_minus_1_eq_mask mask_eq_exp_minus_1)

subsection \<open>Refinement of an abstract data type\<close>

text \<open>
  A component is used through a sequence of calls. \<open>run_ops\<close> performs the calls
  on the detailed model, collecting the answers, and does not return if one of
  them does not; \<open>run_spec\<close> performs them on an abstract specification, which is
  total. A \<open>data_refinement\<close> is a component of which each single call simulates
  the call of its specification; then so does every sequence of calls.
\<close>

primrec run_ops :: "('s \<Rightarrow> 'op \<Rightarrow> ('o \<times> 's) option) \<Rightarrow> 's \<Rightarrow> 'op list \<Rightarrow> ('o list \<times> 's) option" where
  "run_ops step s [] = Some ([], s)"
| "run_ops step s (q # qs) = do {
     (r, s1) \<leftarrow> step s q;
     (rs, s2) \<leftarrow> run_ops step s1 qs;
     Some (r # rs, s2)
   }"

primrec run_spec :: "('a \<Rightarrow> 'op \<Rightarrow> 'o \<times> 'a) \<Rightarrow> 'a \<Rightarrow> 'op list \<Rightarrow> 'o list \<times> 'a" where
  "run_spec spec a [] = ([], a)"
| "run_spec spec a (q # qs) =
     (let (r, a1) = spec a q; (rs, a2) = run_spec spec a1 qs in (r # rs, a2))"

lemma run_spec_append:
  "run_spec spec a (ps @ qs) = (let (rs, a1) = run_spec spec a ps; (rs', a2) = run_spec spec a1 qs in (rs @ rs', a2))"
  by (induction ps arbitrary: a) (simp_all add: split_beta Let_def)

locale data_refinement =
  fixes step :: "'s \<Rightarrow> 'op \<Rightarrow> ('o \<times> 's) option"
    and spec :: "'a \<Rightarrow> 'op \<Rightarrow> 'o \<times> 'a"
    and rel :: "'s \<Rightarrow> 'a \<Rightarrow> bool"
  assumes simulates: "rel s a \<Longrightarrow> \<exists>s'. step s q = Some (fst (spec a q), s') \<and> rel s' (snd (spec a q))"
begin

lemma run_simulates:
  "rel s a \<Longrightarrow> \<exists>s'. run_ops step s qs = Some (fst (run_spec spec a qs), s') \<and>
    rel s' (snd (run_spec spec a qs))"
proof (induction qs arbitrary: s a)
  case (Cons q qs)
  obtain s1 where 1: "step s q = Some (fst (spec a q), s1)" "rel s1 (snd (spec a q))"
    using simulates [OF Cons.prems] by blast
  obtain s2 where "run_ops step s1 qs = Some (fst (run_spec spec (snd (spec a q)) qs), s2)"
    "rel s2 (snd (run_spec spec (snd (spec a q)) qs))"
    using Cons.IH [OF 1(2)] by blast
  with 1 show ?case by (simp add: split_beta)
qed simp

lemma run_returns: "rel s a \<Longrightarrow> run_ops step s qs \<noteq> None"
  using run_simulates by force

end

subsection \<open>Components that always return\<close>

text \<open>A component of which every call returns and keeps the invariant, in every sequence of calls.\<close>

locale total_calls =
  fixes step :: "'s \<Rightarrow> 'op \<Rightarrow> ('o \<times> 's) option"
    and inv :: "'s \<Rightarrow> bool"
  assumes returns: "inv s \<Longrightarrow> \<exists>r s'. step s q = Some (r, s') \<and> inv s'"
begin

lemma run_total: "inv s \<Longrightarrow> \<exists>rs s'. run_ops step s qs = Some (rs, s') \<and> inv s'"
proof (induction qs arbitrary: s)
  case (Cons q qs)
  obtain r s1 where 1: "step s q = Some (r, s1)" "inv s1" using returns [OF Cons.prems] by blast
  then obtain rs s2 where "run_ops step s1 qs = Some (rs, s2)" "inv s2" using Cons.IH by blast
  with 1 show ?case by simp
qed simp

end

subsection \<open>Invariants of step relations\<close>

text \<open>A property of states that every step keeps holds in every reachable state.\<close>

locale step_invariant =
  fixes step :: "'s \<Rightarrow> 's \<Rightarrow> bool"
    and inv :: "'s \<Rightarrow> bool"
  assumes preserved: "step s s' \<Longrightarrow> inv s \<Longrightarrow> inv s'"
begin

lemma reachable: "step\<^sup>*\<^sup>* s s' \<Longrightarrow> inv s \<Longrightarrow> inv s'"
  by (induction rule: rtranclp_induct) (auto intro: preserved)

end

end
