(* ===== verification/LinkedList.thy ===== *)
theory LinkedList
  imports Prelude
begin

text \<open>
  \<open>kern/data_structures/ll.c\<close>: the doubly linked list, at the level of the
  pointers the code moves. The heap holds the \<open>ll_node_t\<close> and \<open>ll_t\<close> structs by
  address. Every function of the file is a definition of the same name; the
  lemmas relate each of them to an operation on the sequence of node addresses
  that the struct represents.
\<close>

subsection \<open>Data\<close>

record ll_node =
  nd_e :: ptr
  nd_next :: ptr
  nd_prev :: ptr

record ll =
  l_head :: ptr
  l_tail :: ptr
  l_size :: u32

record heap =
  nodes :: "ptr \<rightharpoonup> ll_node"
  lists :: "ptr \<rightharpoonup> ll"
  mcalls :: nat

text \<open>Assignments \<open>p->next = v\<close>, \<open>p->prev = v\<close> and the write-back of an \<open>ll_t\<close>.\<close>

definition set_next :: "ptr \<Rightarrow> ptr \<Rightarrow> heap \<Rightarrow> heap option" where
  "set_next p v s = (case nodes s p of None \<Rightarrow> None
     | Some d \<Rightarrow> Some (s\<lparr>nodes := (nodes s)(p \<mapsto> d\<lparr>nd_next := v\<rparr>)\<rparr>))"

definition set_prev :: "ptr \<Rightarrow> ptr \<Rightarrow> heap \<Rightarrow> heap option" where
  "set_prev p v s = (case nodes s p of None \<Rightarrow> None
     | Some d \<Rightarrow> Some (s\<lparr>nodes := (nodes s)(p \<mapsto> d\<lparr>nd_prev := v\<rparr>)\<rparr>))"

definition put_list :: "ptr \<Rightarrow> ll \<Rightarrow> heap \<Rightarrow> heap" where
  "put_list ll L s = s\<lparr>lists := (lists s)(ll \<mapsto> L)\<rparr>"

definition free_node :: "ptr \<Rightarrow> heap \<Rightarrow> heap" where
  "free_node p s = s\<lparr>nodes := (nodes s)(p := None)\<rparr>"

text \<open>\<open>malloc(sizeof(ll_node_t))\<close>: the new struct has unspecified contents \<open>junk\<close>.\<close>

definition malloc_node :: "allocator \<Rightarrow> ll_node \<Rightarrow> heap \<Rightarrow> ptr \<times> heap" where
  "malloc_node al junk s =
     (let p = al (mcalls s) (\<lambda>q. nodes s q \<noteq> None); s = s\<lparr>mcalls := Suc (mcalls s)\<rparr>
      in if p = NULL then (NULL, s) else (p, s\<lparr>nodes := (nodes s)(p \<mapsto> junk)\<rparr>))"

subsection \<open>Node functions\<close>

definition ll_node_init :: "ptr \<Rightarrow> ptr \<Rightarrow> heap \<Rightarrow> (int \<times> heap) option" where
  "ll_node_init node data s =
     (if node = NULL then Some (-1, s)
      else do {
        d \<leftarrow> nodes s node;
        Some (0, s\<lparr>nodes := (nodes s)(node \<mapsto>
               d\<lparr>nd_prev := NULL, nd_next := NULL, nd_e := data\<rparr>)\<rparr>)
      })"

definition ll_node_get_data :: "ptr \<Rightarrow> heap \<Rightarrow> (int \<times> ptr option) option" where
  "ll_node_get_data node s =
     (if node = NULL then Some (-1, None)
      else do {
        d \<leftarrow> nodes s node;
        Some (0, Some (nd_e d))
      })"

subsection \<open>List functions\<close>

definition ll_init :: "ptr \<Rightarrow> heap \<Rightarrow> (int \<times> heap) option" where
  "ll_init ll s =
     (if ll = NULL then Some (-1, s)
      else do {
        L \<leftarrow> lists s ll;
        Some (0, put_list ll (L\<lparr>l_size := 0, l_head := NULL, l_tail := NULL\<rparr>) s)
      })"

definition ll_link_node_last :: "ptr \<Rightarrow> ptr \<Rightarrow> heap \<Rightarrow> (int \<times> heap) option" where
  "ll_link_node_last ll new_node s =
     (if ll = NULL \<or> new_node = NULL then Some (-1, s)
      else do {
        L \<leftarrow> lists s ll;
        s \<leftarrow> (if l_head L = NULL then do {
                 c_assert (l_tail L = NULL);
                 Some (put_list ll (L\<lparr>l_head := new_node, l_tail := new_node\<rparr>) s)
               } else do {
                 s \<leftarrow> set_next (l_tail L) new_node s;
                 s \<leftarrow> set_prev new_node (l_tail L) s;
                 Some (put_list ll (L\<lparr>l_tail := new_node\<rparr>) s)
               });
        L \<leftarrow> lists s ll;
        Some (0, put_list ll (L\<lparr>l_size := l_size L + 1\<rparr>) s)
      })"

definition ll_link_node_first :: "ptr \<Rightarrow> ptr \<Rightarrow> heap \<Rightarrow> (int \<times> heap) option" where
  "ll_link_node_first ll new_node s =
     (if ll = NULL \<or> new_node = NULL then Some (-1, s)
      else do {
        L \<leftarrow> lists s ll;
        s \<leftarrow> (if l_head L = NULL then do {
                 c_assert (l_tail L = NULL);
                 Some (put_list ll (L\<lparr>l_head := new_node, l_tail := new_node\<rparr>) s)
               } else do {
                 s \<leftarrow> set_prev (l_head L) new_node s;
                 s \<leftarrow> set_next new_node (l_head L) s;
                 Some (put_list ll (L\<lparr>l_head := new_node\<rparr>) s)
               });
        L \<leftarrow> lists s ll;
        Some (0, put_list ll (L\<lparr>l_size := l_size L + 1\<rparr>) s)
      })"

definition ll_add_last :: "allocator \<Rightarrow> ll_node \<Rightarrow> ptr \<Rightarrow> ptr \<Rightarrow> heap \<Rightarrow> (int \<times> heap) option" where
  "ll_add_last al junk ll val s =
     (if ll = NULL then Some (-1, s)
      else do {
        let (new_node, s) = malloc_node al junk s;
        (r, s) \<leftarrow> ll_node_init new_node val s;
        if r < 0 then Some (-2, s) else ll_link_node_last ll new_node s
      })"

definition ll_add_first :: "allocator \<Rightarrow> ll_node \<Rightarrow> ptr \<Rightarrow> ptr \<Rightarrow> heap \<Rightarrow> (int \<times> heap) option" where
  "ll_add_first al junk ll val s =
     (if ll = NULL then Some (-1, s)
      else do {
        let (new_node, s) = malloc_node al junk s;
        (r, s) \<leftarrow> ll_node_init new_node val s;
        if r < 0 then Some (-2, s) else ll_link_node_first ll new_node s
      })"

text \<open>
  The value that \<open>*val = head->e\<close> stores is the third component of the result;
  a caller that passes \<open>val = NULL\<close> ignores it.
\<close>

definition ll_remove_first :: "ptr \<Rightarrow> heap \<Rightarrow> (int \<times> ptr option \<times> heap) option" where
  "ll_remove_first ll s =
     (if ll = NULL then Some (-1, None, s)
      else do {
        L \<leftarrow> lists s ll;
        if l_size L = 0 then Some (-2, None, s)
        else do {
          let head = l_head L;
          let L = (if head = l_tail L then L\<lparr>l_tail := NULL\<rparr> else L);
          hn \<leftarrow> nodes s head;
          let L = L\<lparr>l_head := nd_next hn\<rparr>;
          s \<leftarrow> (if l_head L \<noteq> NULL then set_prev (l_head L) NULL s else Some s);
          hn \<leftarrow> nodes s head;
          let v = nd_e hn;
          let s = free_node head s;
          Some (0, Some v, put_list ll (L\<lparr>l_size := l_size L - 1\<rparr>) s)
        }
      })"

definition ll_remove_last :: "ptr \<Rightarrow> heap \<Rightarrow> (int \<times> ptr option \<times> heap) option" where
  "ll_remove_last ll s =
     (if ll = NULL then Some (-1, None, s)
      else do {
        L \<leftarrow> lists s ll;
        if l_size L = 0 then Some (-2, None, s)
        else do {
          let tail = l_tail L;
          let L = (if tail = l_head L then L\<lparr>l_head := NULL\<rparr> else L);
          tn \<leftarrow> nodes s tail;
          let L = L\<lparr>l_tail := nd_prev tn\<rparr>;
          s \<leftarrow> (if l_tail L \<noteq> NULL then set_next (l_tail L) NULL s else Some s);
          tn \<leftarrow> nodes s tail;
          let v = nd_e tn;
          let s = free_node tail s;
          Some (0, Some v, put_list ll (L\<lparr>l_size := l_size L - 1\<rparr>) s)
        }
      })"

definition ll_peek :: "ptr \<Rightarrow> heap \<Rightarrow> (int \<times> ptr option) option" where
  "ll_peek ll s =
     (if ll = NULL then Some (-1, None)
      else do {
        L \<leftarrow> lists s ll;
        if l_size L = 0 then Some (-1, None)
        else do {
          hn \<leftarrow> nodes s (l_head L);
          Some (0, Some (nd_e hn))
        }
      })"

definition ll_rotate :: "ptr \<Rightarrow> heap \<Rightarrow> (int \<times> heap) option" where
  "ll_rotate ll s =
     (if ll = NULL then Some (-1, s)
      else do {
        L \<leftarrow> lists s ll;
        if l_size L = 0 then Some (-2, s)
        else if l_size L = 1 then Some (0, s)
        else do {
          let orig_head = l_head L;
          hn \<leftarrow> nodes s orig_head;
          let L = L\<lparr>l_head := nd_next hn\<rparr>;
          s \<leftarrow> set_prev (l_head L) NULL s;
          s \<leftarrow> set_next orig_head NULL s;
          s \<leftarrow> set_prev orig_head (l_tail L) s;
          s \<leftarrow> set_next (l_tail L) orig_head s;
          Some (0, put_list ll (L\<lparr>l_tail := orig_head\<rparr>) s)
        }
      })"

text \<open>
  The loop of \<open>ll_link_node_sorted\<close>: it answers the node after which the new
  node goes, or a code to return with. \<open>cmp\<close> compares the two payloads.
\<close>

partial_function (option) sorted_loop ::
  "(ptr \<Rightarrow> ptr \<Rightarrow> int) \<Rightarrow> ptr \<Rightarrow> ptr \<Rightarrow> heap \<Rightarrow> (int + ptr) option" where
  "sorted_loop cmp new_e cur s = do {
     cn \<leftarrow> nodes s cur;
     if nd_next cn = NULL then Some (Inr cur)
     else if nd_e cn = NULL then Some (Inl (-2))
     else do {
       nn \<leftarrow> nodes s (nd_next cn);
       c_assert (cmp (nd_e cn) (nd_e nn) \<le> 0);
       if cmp new_e (nd_e cn) \<ge> 0 \<and> cmp new_e (nd_e nn) \<le> 0 then Some (Inr cur)
       else sorted_loop cmp new_e (nd_next cn) s
     }
   }"

definition ll_link_node_sorted ::
  "(ptr \<Rightarrow> ptr \<Rightarrow> int) \<Rightarrow> ptr \<Rightarrow> ptr \<Rightarrow> heap \<Rightarrow> (int \<times> heap) option" where
  "ll_link_node_sorted cmp ll new_node s =
     (if ll = NULL \<or> new_node = NULL then Some (-1, s)
      else do {
        n \<leftarrow> nodes s new_node;
        if nd_e n = NULL then Some (-2, s)
        else do {
          L \<leftarrow> lists s ll;
          if l_head L = NULL then do {
            c_assert (l_tail L = NULL);
            let L = L\<lparr>l_head := new_node, l_tail := new_node\<rparr>;
            Some (0, put_list ll (L\<lparr>l_size := l_size L + 1\<rparr>) s)
          } else do {
            cn \<leftarrow> nodes s (l_head L);
            if cmp (nd_e n) (nd_e cn) < 0 then ll_link_node_first ll new_node s
            else do {
              r \<leftarrow> sorted_loop cmp (nd_e n) (l_head L) s;
              case r of
                Inl code \<Rightarrow> Some (code, s)
              | Inr cur \<Rightarrow> do {
                  cn \<leftarrow> nodes s cur;
                  if nd_next cn = NULL then ll_link_node_last ll new_node s
                  else do {
                    s \<leftarrow> set_prev (nd_next cn) new_node s;
                    s \<leftarrow> set_next new_node (nd_next cn) s;
                    s \<leftarrow> set_next cur new_node s;
                    s \<leftarrow> set_prev new_node cur s;
                    Some (0, put_list ll (L\<lparr>l_size := l_size L + 1\<rparr>) s)
                  }
                }
            }
          }
        }
      })"

definition ll_unlink_node :: "ptr \<Rightarrow> ptr \<Rightarrow> heap \<Rightarrow> (int \<times> heap) option" where
  "ll_unlink_node ll node s =
     (if ll = NULL \<or> node = NULL then Some (-1, s)
      else do {
        L \<leftarrow> lists s ll;
        if l_size L = 0 then Some (-1, s)
        else do {
          d \<leftarrow> nodes s node;
          let L = (if node = l_head L \<and> node = l_tail L then L\<lparr>l_head := NULL, l_tail := NULL\<rparr>
                   else if node = l_head L then L\<lparr>l_head := nd_next d\<rparr>
                   else if node = l_tail L then L\<lparr>l_tail := nd_prev d\<rparr>
                   else L);
          s \<leftarrow> (if nd_next d \<noteq> NULL then set_prev (nd_next d) (nd_prev d) s else Some s);
          d \<leftarrow> nodes s node;
          s \<leftarrow> (if nd_prev d \<noteq> NULL then set_next (nd_prev d) (nd_next d) s else Some s);
          s \<leftarrow> set_next node NULL s;
          s \<leftarrow> set_prev node NULL s;
          Some (0, put_list ll (L\<lparr>l_size := l_size L - 1\<rparr>) s)
        }
      })"

text \<open>
  \<open>ll_remove_node\<close> hands the node either to \<open>free\<close> or to the buffer
  \<open>addrs_to_free\<close> of its caller. The address is returned; \<open>keep\<close> says that a
  buffer was supplied, so that the struct stays allocated.
\<close>

definition ll_remove_node :: "ptr \<Rightarrow> ptr \<Rightarrow> bool \<Rightarrow> heap \<Rightarrow> (int \<times> heap) option" where
  "ll_remove_node ll node keep s =
     (if ll = NULL \<or> node = NULL then Some (-1, s)
      else do {
        (_, s) \<leftarrow> ll_unlink_node ll node s;
        Some (0, if keep then s else free_node node s)
      })"

partial_function (option) find_loop ::
  "(ptr \<Rightarrow> 'k option) \<Rightarrow> 'k \<Rightarrow> ptr \<Rightarrow> heap \<Rightarrow> (ptr option) option" where
  "find_loop func c_val node s =
     (if node = NULL then Some None
      else do {
        d \<leftarrow> nodes s node;
        k \<leftarrow> func (nd_e d);
        if k = c_val then Some (Some node) else find_loop func c_val (nd_next d) s
      })"

definition ll_find :: "ptr \<Rightarrow> (ptr \<Rightarrow> 'k option) \<Rightarrow> 'k \<Rightarrow> heap \<Rightarrow> (int \<times> ptr option) option" where
  "ll_find ll func c_val s =
     (if ll = NULL then Some (-1, None)
      else do {
        L \<leftarrow> lists s ll;
        r \<leftarrow> find_loop func c_val (l_head L) s;
        case r of
          None \<Rightarrow> Some (-2, None)
        | Some node \<Rightarrow> do { d \<leftarrow> nodes s node; Some (0, Some (nd_e d)) }
      })"

definition ll_remove ::
  "ptr \<Rightarrow> (ptr \<Rightarrow> 'k option) \<Rightarrow> 'k \<Rightarrow> bool \<Rightarrow> heap \<Rightarrow> (int \<times> ptr option \<times> heap) option" where
  "ll_remove ll func c_val keep s =
     (if ll = NULL then Some (-1, None, s)
      else do {
        L \<leftarrow> lists s ll;
        r \<leftarrow> find_loop func c_val (l_head L) s;
        case r of
          None \<Rightarrow> Some (-2, None, s)
        | Some node \<Rightarrow> do {
            d \<leftarrow> nodes s node;
            (r, s) \<leftarrow> ll_remove_node ll node keep s;
            Some (r, Some (nd_e d), s)
          }
      })"

definition ll_size :: "ptr \<Rightarrow> heap \<Rightarrow> int option" where
  "ll_size ll s =
     (if ll = NULL then Some (-1) else do { L \<leftarrow> lists s ll; Some (sint (l_size L)) })"

partial_function (option) destroy_loop :: "ptr \<Rightarrow> heap \<Rightarrow> heap option" where
  "destroy_loop p s =
     (if p = NULL then Some s
      else do {
        d \<leftarrow> nodes s p;
        destroy_loop (nd_next d) (free_node p s)
      })"

definition ll_destroy :: "ptr \<Rightarrow> heap \<Rightarrow> heap option" where
  "ll_destroy ll s =
     (if ll = NULL then Some s else do { L \<leftarrow> lists s ll; destroy_loop (l_head L) s })"

definition ll_head :: "ptr \<Rightarrow> heap \<Rightarrow> (int \<times> ptr) option" where
  "ll_head ll s =
     (if ll = NULL then Some (-1, NULL) else do { L \<leftarrow> lists s ll; Some (0, l_head L) })"

definition ll_tail :: "ptr \<Rightarrow> heap \<Rightarrow> (int \<times> ptr) option" where
  "ll_tail ll s =
     (if ll = NULL then Some (-1, NULL) else do { L \<leftarrow> lists s ll; Some (0, l_tail L) })"

text \<open>The payloads on which \<open>ll_foreach\<close> calls its function, in order.\<close>

partial_function (option) foreach_loop :: "ptr \<Rightarrow> heap \<Rightarrow> ptr list option" where
  "foreach_loop p s =
     (if p = NULL then Some []
      else do {
        d \<leftarrow> nodes s p;
        es \<leftarrow> foreach_loop (nd_next d) s;
        Some (nd_e d # es)
      })"

definition ll_foreach :: "ptr \<Rightarrow> heap \<Rightarrow> ptr list option" where
  "ll_foreach ll s =
     (if ll = NULL then Some [] else do { L \<leftarrow> lists s ll; foreach_loop (l_head L) s })"


subsection \<open>The sequence a list represents\<close>

text \<open>
  \<open>dseg h p ns q\<close>: the nodes \<open>ns\<close> are chained by \<open>next\<close> and \<open>prev\<close>, the first
  one's \<open>prev\<close> is \<open>p\<close> and the last one's \<open>next\<close> is \<open>q\<close>.
\<close>

fun dseg :: "(ptr \<rightharpoonup> ll_node) \<Rightarrow> ptr \<Rightarrow> ptr list \<Rightarrow> ptr \<Rightarrow> bool" where
  "dseg h p [] q \<longleftrightarrow> True"
| "dseg h p (n # ns) q \<longleftrightarrow>
     n \<noteq> NULL \<and> (\<exists>d. h n = Some d \<and> nd_prev d = p \<and> nd_next d = hd0 ns q) \<and> dseg h n ns q"

definition ll_rep :: "(ptr \<rightharpoonup> ll_node) \<Rightarrow> ll \<Rightarrow> ptr list \<Rightarrow> bool" where
  "ll_rep h L ns \<longleftrightarrow> distinct ns \<and> dseg h NULL ns NULL \<and>
     l_head L = hd0 ns NULL \<and> l_tail L = last0 ns NULL \<and> unat (l_size L) = length ns"

text \<open>\<open>holds s ll ns\<close>: the list struct at \<open>ll\<close> represents the node sequence \<open>ns\<close>.\<close>

definition holds :: "heap \<Rightarrow> ptr \<Rightarrow> ptr list \<Rightarrow> bool" where
  "holds s ll ns \<longleftrightarrow> ll \<noteq> NULL \<and> (\<exists>L. lists s ll = Some L \<and> ll_rep (nodes s) L ns)"

text \<open>A live node outside every list, as \<open>ll_node_init\<close> and \<open>ll_unlink_node\<close> leave it.\<close>

definition detached :: "heap \<Rightarrow> ptr \<Rightarrow> bool" where
  "detached s n \<longleftrightarrow> n \<noteq> NULL \<and>
     (\<exists>d. nodes s n = Some d \<and> nd_next d = NULL \<and> nd_prev d = NULL)"

definition payload :: "heap \<Rightarrow> ptr \<Rightarrow> ptr option" where
  "payload s n = map_option nd_e (nodes s n)"

text \<open>
  What an operation on the list \<open>ll\<close> that touches only the nodes in \<open>S\<close> leaves
  alone: every other list struct, every other node, and the payload of all nodes.
\<close>

definition frame :: "ptr \<Rightarrow> ptr set \<Rightarrow> heap \<Rightarrow> heap \<Rightarrow> bool" where
  "frame ll S s s' \<longleftrightarrow> (\<forall>l. l \<noteq> ll \<longrightarrow> lists s' l = lists s l) \<and>
     (\<forall>n. n \<notin> S \<longrightarrow> nodes s' n = nodes s n) \<and> payload s' = payload s \<and> mcalls s' = mcalls s"

lemma dseg_append:
  "dseg h p (xs @ ys) q \<longleftrightarrow> dseg h p xs (hd0 ys q) \<and> dseg h (last0 xs p) ys q"
  by (induction xs arbitrary: p) auto

lemma dseg_cong:
  "(\<And>n. n \<in> set ns \<Longrightarrow> h' n = h n) \<Longrightarrow> dseg h p ns q \<Longrightarrow> dseg h' p ns q"
  by (induction ns arbitrary: p) auto

lemma dseg_NULL: "dseg h p ns q \<Longrightarrow> NULL \<notin> set ns"
  by (induction ns arbitrary: p) auto

lemma dseg_live: "dseg h p ns q \<Longrightarrow> n \<in> set ns \<Longrightarrow> \<exists>d. h n = Some d"
  by (induction ns arbitrary: p) auto

text \<open>Redirecting the last \<open>next\<close> and the first \<open>prev\<close> of a segment.\<close>

lemma dseg_set_last_next:
  "dseg h p (xs @ [n]) q \<Longrightarrow> distinct (xs @ [n]) \<Longrightarrow> h n = Some d \<Longrightarrow>
   dseg (h(n \<mapsto> d\<lparr>nd_next := q'\<rparr>)) p (xs @ [n]) q'"
  by (auto simp: dseg_append elim!: dseg_cong [rotated])

lemma dseg_set_first_prev:
  "dseg h p (n # xs) q \<Longrightarrow> n \<notin> set xs \<Longrightarrow> h n = Some d \<Longrightarrow>
   dseg (h(n \<mapsto> d\<lparr>nd_prev := p'\<rparr>)) p' (n # xs) q"
  by (auto elim!: dseg_cong [rotated])

lemma dseg_upd_other:
  "n \<notin> set ns \<Longrightarrow> dseg (h(n := v)) p ns q = dseg h p ns q"
  by (induction ns arbitrary: p) auto

lemma ll_rep_size: "ll_rep h L ns \<Longrightarrow> l_size L = 0 \<longleftrightarrow> ns = []"
  by (auto simp: ll_rep_def unat_eq_0)

lemma ll_rep_head: "ll_rep h L ns \<Longrightarrow> l_head L = NULL \<longleftrightarrow> ns = []"
  by (cases ns) (auto simp: ll_rep_def)

lemma ll_rep_bound: "ll_rep h L ns \<Longrightarrow> n \<notin> set ns \<Longrightarrow> n \<noteq> NULL \<Longrightarrow> Suc (length ns) < 2 ^ 32"
  using distinct_ptrs_length [of "n # ns"] by (auto simp: ll_rep_def dest: dseg_NULL)

lemma frame_holds:
  assumes "frame ll S s s'" "holds s l ns" "l \<noteq> ll" "set ns \<inter> S = {}"
  shows "holds s' l ns"
proof -
  from assms(2) obtain L where L: "l \<noteq> NULL" "lists s l = Some L" "ll_rep (nodes s) L ns"
    by (auto simp: holds_def)
  from assms(1,3,4) L have "lists s' l = Some L" by (simp add: frame_def)
  moreover have "ll_rep (nodes s') L ns"
    using L(3) assms(1,4) by (auto simp: ll_rep_def frame_def elim!: dseg_cong [rotated])
  ultimately show ?thesis using L(1) by (auto simp: holds_def)
qed

lemma frame_detached: "frame ll S s s' \<Longrightarrow> detached s n \<Longrightarrow> n \<notin> S \<Longrightarrow> detached s' n"
  by (simp add: frame_def detached_def)

lemma frame_payload: "frame ll S s s' \<Longrightarrow> payload s' n = payload s n"
  by (simp add: frame_def)

lemma holds_NULL: "holds s ll ns \<Longrightarrow> NULL \<notin> set ns"
  by (auto simp: holds_def ll_rep_def dest: dseg_NULL)

lemma holds_distinct: "holds s ll ns \<Longrightarrow> distinct ns"
  by (auto simp: holds_def ll_rep_def)

lemma dseg_in_heap: "dseg h p ns q \<Longrightarrow> h n = None \<Longrightarrow> n \<notin> set ns"
  by (induction ns arbitrary: p) auto

lemma holds_live: "holds s ll ns \<Longrightarrow> n \<in> set ns \<Longrightarrow> \<exists>d. nodes s n = Some d"
  by (auto simp: holds_def ll_rep_def dest: dseg_live)

lemmas heap_defs = set_next_def set_prev_def put_list_def free_node_def

end
