(* ===== verification/LinkedListCorrect.thy ===== *)
theory LinkedListCorrect
  imports LinkedList
begin

text \<open>
  What each function of \<open>ll.c\<close> does to the node sequence that its list represents,
  and which parts of the heap it leaves alone. The interface that the other
  components rely on is the locale \<open>node_lists\<close>.
\<close>

subsection \<open>Each operation on the sequence\<close>

lemma ll_node_init_detached:
  assumes "n \<noteq> NULL" "nodes s n = Some d"
  shows "\<exists>s'. ll_node_init n v s = Some (0, s') \<and> detached s' n \<and> payload s' n = Some v \<and>
    lists s' = lists s \<and> mcalls s' = mcalls s \<and> (\<forall>m. m \<noteq> n \<longrightarrow> nodes s' m = nodes s m)"
  using assms by (simp add: ll_node_init_def detached_def payload_def)

lemma ll_link_node_last_holds:
  assumes "holds s ll ns" "detached s n" "n \<notin> set ns"
  shows "\<exists>s'. ll_link_node_last ll n s = Some (0, s') \<and> holds s' ll (ns @ [n]) \<and>
    frame ll (insert n (set ns)) s s'"
proof -
  from assms(1) obtain L where L: "ll \<noteq> NULL" "lists s ll = Some L" "ll_rep (nodes s) L ns"
    by (auto simp: holds_def)
  from assms(2) obtain d where d: "n \<noteq> NULL" "nodes s n = Some d" "nd_next d = NULL" "nd_prev d = NULL"
    by (auto simp: detached_def)
  have size: "unat (l_size L + 1) = Suc (length ns)"
    using L(3) ll_rep_bound [OF L(3) assms(3) d(1)]
    by (intro unat_Suc_of_bound) (auto simp: ll_rep_def)
  show ?thesis
  proof (cases ns rule: rev_cases)
    case Nil
    then show ?thesis using L d size
      by (auto simp: ll_link_node_last_def heap_defs ll_rep_def holds_def frame_def payload_def)
  next
    case (snoc xs t)
    from L(3) snoc have seg: "dseg (nodes s) NULL (xs @ [t]) NULL" "distinct (xs @ [t])"
      by (simp_all add: ll_rep_def)
    then obtain dt where dt: "nodes s t = Some dt" and tn: "t \<noteq> n"
      using assms(3) snoc by (auto simp: dseg_append)
    let ?h = "(nodes s)(t \<mapsto> dt\<lparr>nd_next := n\<rparr>)"
    have "dseg ?h NULL (xs @ [t]) n" using dseg_set_last_next [OF seg dt] .
    then have "dseg (?h(n \<mapsto> d\<lparr>nd_prev := t\<rparr>)) NULL ((xs @ [t]) @ [n]) NULL"
      using assms(3) snoc d by (subst dseg_append) (simp add: dseg_upd_other)
    moreover have "l_head L \<noteq> NULL" "l_tail L = t" "l_head L = hd0 (ns @ [n]) NULL"
      using L(3) snoc dseg_NULL [OF seg(1)] by (cases xs; auto simp: ll_rep_def)+
    ultimately show ?thesis using L(1,2) d(1,2) dt tn size snoc assms(3) seg(2)
      by (simp add: ll_link_node_last_def heap_defs ll_rep_def holds_def frame_def payload_def fun_eq_iff)
  qed
qed


lemma ll_link_node_first_holds:
  assumes "holds s ll ns" "detached s n" "n \<notin> set ns"
  shows "\<exists>s'. ll_link_node_first ll n s = Some (0, s') \<and> holds s' ll (n # ns) \<and>
    frame ll (insert n (set ns)) s s'"
proof -
  from assms(1) obtain L where L: "ll \<noteq> NULL" "lists s ll = Some L" "ll_rep (nodes s) L ns"
    by (auto simp: holds_def)
  from assms(2) obtain d where d: "n \<noteq> NULL" "nodes s n = Some d" "nd_next d = NULL" "nd_prev d = NULL"
    by (auto simp: detached_def)
  have size: "unat (l_size L + 1) = Suc (length ns)"
    using L(3) ll_rep_bound [OF L(3) assms(3) d(1)]
    by (intro unat_Suc_of_bound) (auto simp: ll_rep_def)
  show ?thesis
  proof (cases ns)
    case Nil
    then show ?thesis using L d size
      by (auto simp: ll_link_node_first_def heap_defs ll_rep_def holds_def frame_def payload_def)
  next
    case (Cons t xs)
    from L(3) Cons have seg: "dseg (nodes s) NULL (t # xs) NULL" "distinct (t # xs)"
      by (simp_all add: ll_rep_def)
    then obtain dt where dt: "nodes s t = Some dt" and tn: "t \<noteq> n"
      using assms(3) Cons by auto
    let ?h = "(nodes s)(t \<mapsto> dt\<lparr>nd_prev := n\<rparr>)"
    have "dseg ?h n (t # xs) NULL" using dseg_set_first_prev [OF seg(1) _ dt] seg(2) by simp
    then have "dseg (?h(n \<mapsto> d\<lparr>nd_next := t\<rparr>)) NULL (n # t # xs) NULL"
      using assms(3) Cons d by (subst dseg.simps) (simp add: dseg_upd_other tn)
    moreover have "l_head L = t" "t \<noteq> NULL" "l_tail L = last0 ns NULL"
      using L(3) Cons seg(1) by (auto simp: ll_rep_def)
    ultimately show ?thesis using L(1,2) d(1,2) dt tn size Cons assms(3) seg(2)
      by (simp add: ll_link_node_first_def heap_defs ll_rep_def holds_def frame_def payload_def fun_eq_iff)
  qed
qed

text \<open>Taking a node out of the middle of a segment.\<close>

definition bridge_prev :: "(ptr \<rightharpoonup> ll_node) \<Rightarrow> ptr list \<Rightarrow> ptr \<Rightarrow> (ptr \<rightharpoonup> ll_node)" where
  "bridge_prev h ys p = (case ys of [] \<Rightarrow> h | y # _ \<Rightarrow> h(y \<mapsto> (the (h y))\<lparr>nd_prev := p\<rparr>))"

definition bridge_next :: "(ptr \<rightharpoonup> ll_node) \<Rightarrow> ptr list \<Rightarrow> ptr \<Rightarrow> (ptr \<rightharpoonup> ll_node)" where
  "bridge_next h xs q = (if xs = [] then h else h(last xs \<mapsto> (the (h (last xs)))\<lparr>nd_next := q\<rparr>))"

lemma bridge_prev_other: "m \<notin> set ys \<Longrightarrow> bridge_prev h ys p m = h m"
  by (auto simp: bridge_prev_def split: list.splits)

lemma bridge_next_other: "m \<notin> set xs \<Longrightarrow> bridge_next h xs p m = h m"
  by (auto simp: bridge_next_def)

lemma dseg_bridge:
  assumes "dseg h p xs a" "dseg h b ys q" "distinct (xs @ ys)"
  shows "dseg (bridge_next (bridge_prev h ys (last0 xs p)) xs (hd0 ys q)) p (xs @ ys) q"
proof -
  let ?h1 = "bridge_prev h ys (last0 xs p)"
  have ys: "dseg ?h1 (last0 xs p) ys q"
    using assms(2,3) by (cases ys) (auto simp: bridge_prev_def dseg_upd_other)
  have xs: "dseg ?h1 p xs a"
    by (rule dseg_cong [OF _ assms(1)]) (use assms(3) in \<open>auto intro!: bridge_prev_other\<close>)
  have "dseg (bridge_next ?h1 xs (hd0 ys q)) p xs (hd0 ys q)"
  proof (cases xs rule: rev_cases)
    case (snoc zs z)
    with xs obtain d where "?h1 z = Some d" by (auto simp: dseg_append)
    with xs snoc assms(3) dseg_set_last_next [of ?h1 p zs z a d "hd0 ys q"]
    show ?thesis by (simp add: bridge_next_def)
  qed simp
  moreover have "dseg (bridge_next ?h1 xs (hd0 ys q)) (last0 xs p) ys q"
    by (rule dseg_cong [OF _ ys]) (use assms(3) in \<open>auto intro!: bridge_next_other\<close>)
  ultimately show ?thesis by (simp add: dseg_append)
qed

lemma payload_bridge:
  "dseg h p xs a \<Longrightarrow> dseg h b ys q \<Longrightarrow> distinct (xs @ ys) \<Longrightarrow>
   map_option nd_e (bridge_next (bridge_prev h ys r) xs t m) = map_option nd_e (h m)"
  by (cases xs rule: rev_cases; cases ys)
     (auto simp: bridge_next_def bridge_prev_def dseg_append)

lemma ll_unlink_node_holds:
  assumes "holds s ll (xs @ n # ys)"
  shows "\<exists>s'. ll_unlink_node ll n s = Some (0, s') \<and> holds s' ll (xs @ ys) \<and> detached s' n \<and>
    frame ll (set (xs @ n # ys)) s s'"
proof -
  from assms obtain L where L: "ll \<noteq> NULL" "lists s ll = Some L" "ll_rep (nodes s) L (xs @ n # ys)"
    by (auto simp: holds_def)
  then have dist: "distinct (xs @ n # ys)" and sz: "unat (l_size L) = Suc (length (xs @ ys))"
    and nn: "n \<noteq> NULL" by (auto simp: ll_rep_def dseg_append)
  from L(3) have sx: "dseg (nodes s) NULL xs n" and sy: "dseg (nodes s) n ys NULL"
    by (auto simp: ll_rep_def dseg_append)
  from L(3) obtain d where d: "nodes s n = Some d" "nd_prev d = last0 xs NULL" "nd_next d = hd0 ys NULL"
    by (auto simp: ll_rep_def dseg_append)
  let ?h = "bridge_next (bridge_prev (nodes s) ys (last0 xs NULL)) xs (hd0 ys NULL)"
  let ?L = "L\<lparr>l_head := hd0 (xs @ ys) NULL, l_tail := last0 (xs @ ys) NULL, l_size := l_size L - 1\<rparr>"
  let ?s = "s\<lparr>nodes := ?h(n \<mapsto> d\<lparr>nd_next := NULL, nd_prev := NULL\<rparr>), lists := (lists s)(ll \<mapsto> ?L)\<rparr>"
  have rep: "dseg (?h(n \<mapsto> d\<lparr>nd_next := NULL, nd_prev := NULL\<rparr>)) NULL (xs @ ys) NULL"
    using dseg_bridge [OF sx sy] dist by (simp add: dseg_upd_other)
  have n_other: "?h n = Some d"
    using dist d by (simp add: bridge_next_other bridge_prev_other)
  have "unat (l_size L - 1) = length (xs @ ys)" using unat_pred [OF sz] .
  with rep dist have h: "holds ?s ll (xs @ ys)" using L(1) by (simp add: holds_def ll_rep_def)
  have pl: "map_option nd_e (?h m) = map_option nd_e (nodes s m)" for m
    using payload_bridge [OF sx sy] dist by simp
  have "frame ll (set (xs @ n # ys)) s ?s"
    using pl n_other d(1) by (auto simp: frame_def payload_def bridge_next_other bridge_prev_other fun_eq_iff)
  moreover have "ll_unlink_node ll n s = Some (0, ?s)"
  proof -
    have ne: "l_size L \<noteq> 0" using sz by auto
    have head: "l_head L = hd0 (xs @ [n]) NULL" and tail: "l_tail L = last0 (n # ys) NULL"
      using L(3) by (simp_all add: ll_rep_def)
    have tail_ne: "ys \<noteq> [] \<Longrightarrow> l_tail L \<noteq> n"
      using tail dist last0_in_set [of ys n] by auto
    show ?thesis
    proof (cases xs rule: rev_cases)
      case Nil
      then show ?thesis using L(1,2) nn ne head tail d dist sy tail_ne
        by (cases L; cases ys) (auto simp: ll_unlink_node_def heap_defs bridge_prev_def bridge_next_def)
    next
      case (snoc zs z)
      then have z: "z \<noteq> n" "z \<noteq> NULL" "z \<notin> set ys" "l_head L \<noteq> n" "\<exists>dz. nodes s z = Some dz"
        using dist dseg_NULL [OF sx] sx head by (cases zs; auto simp: dseg_append)+
      have "hd0 xs n = l_head L" "hd0 (xs @ ys) NULL = l_head L"
        using head snoc by (cases zs; simp)+
      with z show ?thesis using L(1,2) nn ne tail d dist sy snoc tail_ne
        by (cases L; cases ys) (auto simp: ll_unlink_node_def heap_defs bridge_prev_def bridge_next_def)
    qed
  qed
  ultimately show ?thesis using h nn by (auto simp: detached_def)
qed


text \<open>As \<^const>\<open>frame\<close>, for an operation that frees the node \<open>n\<close>.\<close>

definition frame_free :: "ptr \<Rightarrow> ptr set \<Rightarrow> ptr \<Rightarrow> heap \<Rightarrow> heap \<Rightarrow> bool" where
  "frame_free ll S n s s' \<longleftrightarrow> (\<forall>l. l \<noteq> ll \<longrightarrow> lists s' l = lists s l) \<and>
     (\<forall>m. m \<notin> S \<longrightarrow> nodes s' m = nodes s m) \<and> payload s' = (payload s)(n := None) \<and>
     mcalls s' = mcalls s"

lemma ll_remove_first_holds:
  assumes "holds s ll (n # ns)"
  shows "\<exists>s' v. ll_remove_first ll s = Some (0, Some v, s') \<and> payload s n = Some v \<and>
    holds s' ll ns \<and> frame_free ll (set (n # ns)) n s s'"
proof -
  from assms obtain L where L: "ll \<noteq> NULL" "lists s ll = Some L" "ll_rep (nodes s) L (n # ns)"
    by (auto simp: holds_def)
  from L(3) obtain d where d: "n \<noteq> NULL" "nodes s n = Some d" "nd_next d = hd0 ns NULL"
    and seg: "dseg (nodes s) n ns NULL" "distinct (n # ns)" by (auto simp: ll_rep_def)
  have sz: "unat (l_size L) = Suc (length ns)" "unat (l_size L - 1) = length ns" "l_size L \<noteq> 0"
    using L(3) unat_pred [of "l_size L"] by (auto simp: ll_rep_def)
  have hd: "l_head L = n" "l_tail L = last0 ns n" using L(3) by (simp_all add: ll_rep_def)
  show ?thesis
  proof (cases ns)
    case Nil
    then show ?thesis using L(1,2) d sz hd
      by (simp add: ll_remove_first_def heap_defs holds_def ll_rep_def frame_free_def payload_def fun_eq_iff)
  next
    case (Cons t xs)
    with seg obtain dt where dt: "nodes s t = Some dt" "t \<noteq> NULL" "t \<noteq> n" by auto
    have "dseg ((nodes s)(t \<mapsto> dt\<lparr>nd_prev := NULL\<rparr>)) NULL (t # xs) NULL"
      using dseg_set_first_prev [of "nodes s" n t xs NULL dt NULL] seg Cons dt by simp
    then have "dseg ((nodes s)(t \<mapsto> dt\<lparr>nd_prev := NULL\<rparr>, n := None)) NULL ns NULL"
      using Cons seg(2) by (subst dseg_upd_other) auto
    moreover have "l_tail L \<noteq> n" using hd(2) last0_in_set [of ns n] Cons seg(2) by auto
    ultimately show ?thesis using L(1,2) d sz hd dt seg(2) Cons
      by (simp add: ll_remove_first_def heap_defs holds_def ll_rep_def frame_free_def payload_def fun_eq_iff)
  qed
qed

lemma ll_remove_last_holds:
  assumes "holds s ll (ns @ [n])"
  shows "\<exists>s' v. ll_remove_last ll s = Some (0, Some v, s') \<and> payload s n = Some v \<and>
    holds s' ll ns \<and> frame_free ll (set (ns @ [n])) n s s'"
proof -
  from assms obtain L where L: "ll \<noteq> NULL" "lists s ll = Some L" "ll_rep (nodes s) L (ns @ [n])"
    by (auto simp: holds_def)
  from L(3) obtain d where d: "n \<noteq> NULL" "nodes s n = Some d" "nd_prev d = last0 ns NULL"
    and seg: "dseg (nodes s) NULL ns n" "distinct (ns @ [n])" by (auto simp: ll_rep_def dseg_append)
  have sz: "unat (l_size L) = Suc (length ns)" "unat (l_size L - 1) = length ns" "l_size L \<noteq> 0"
    using L(3) unat_pred [of "l_size L"] by (auto simp: ll_rep_def)
  have hd: "l_tail L = n" "l_head L = hd0 ns n" using L(3) by (simp_all add: ll_rep_def)
  show ?thesis
  proof (cases ns rule: rev_cases)
    case Nil
    then show ?thesis using L(1,2) d sz hd
      by (simp add: ll_remove_last_def heap_defs holds_def ll_rep_def frame_free_def payload_def fun_eq_iff)
  next
    case (snoc xs t)
    with seg obtain dt where dt: "nodes s t = Some dt" "t \<noteq> NULL" "t \<noteq> n" by (auto simp: dseg_append)
    have "dseg ((nodes s)(t \<mapsto> dt\<lparr>nd_next := NULL\<rparr>)) NULL (xs @ [t]) NULL"
      using dseg_set_last_next [of "nodes s" NULL xs t n dt NULL] seg snoc dt by simp
    then have "dseg ((nodes s)(t \<mapsto> dt\<lparr>nd_next := NULL\<rparr>, n := None)) NULL ns NULL"
      using snoc seg(2) by (subst dseg_upd_other) auto
    moreover have "l_head L \<noteq> n" using hd(2) hd0_in_set [of ns n] snoc seg(2) by auto
    moreover have "hd0 ns NULL = l_head L" using hd snoc by (cases xs) simp_all
    ultimately show ?thesis using L(1,2) d sz hd dt seg(2) snoc
      by (simp add: ll_remove_last_def heap_defs holds_def ll_rep_def frame_free_def payload_def fun_eq_iff)
  qed
qed

lemma ll_remove_empty:
  assumes "holds s ll []"
  shows "ll_remove_first ll s = Some (-2, None, s)" "ll_remove_last ll s = Some (-2, None, s)"
  using assms by (auto simp: ll_remove_first_def ll_remove_last_def holds_def ll_rep_def unat_eq_0)

lemma ll_peek_holds:
  "holds s ll (n # ns) \<Longrightarrow> ll_peek ll s = Some (0, payload s n)"
  "holds s ll [] \<Longrightarrow> ll_peek ll s = Some (-1, None)"
  by (auto simp: ll_peek_def holds_def ll_rep_def payload_def unat_eq_0 dest!: arg_cong [of _ _ unat])

lemma ll_rotate_holds:
  assumes "holds s ll (n # ns)"
  shows "\<exists>s'. ll_rotate ll s = Some (0, s') \<and> holds s' ll (ns @ [n]) \<and> frame ll (set (n # ns)) s s'"
proof (cases ns rule: rev_cases)
  case Nil
  with assms have "ll_rotate ll s = Some (0, s)"
    by (auto simp: ll_rotate_def holds_def ll_rep_def word_unat_eq_iff)
  with assms Nil show ?thesis by (simp add: frame_def)
next
  case (snoc xs t)
  from assms obtain L where L: "ll \<noteq> NULL" "lists s ll = Some L" "ll_rep (nodes s) L (n # ns)"
    by (auto simp: holds_def)
  from L(3) obtain d where d: "n \<noteq> NULL" "nodes s n = Some d" "nd_next d = hd0 ns NULL"
    and seg: "dseg (nodes s) n ns NULL" "distinct (n # ns)" by (auto simp: ll_rep_def)
  have sz: "unat (l_size L) = Suc (Suc (length xs))" using L(3) snoc by (simp add: ll_rep_def)
  then have sz': "l_size L \<noteq> 0" "l_size L \<noteq> 1" by auto
  have hd: "l_head L = n" "l_tail L = t" using L(3) snoc by (simp_all add: ll_rep_def)
  let ?h = "bridge_prev (nodes s) ns NULL"
  have b: "dseg ?h NULL ns NULL" "?h n = Some d"
    using dseg_bridge [of "nodes s" NULL "[]" n n ns NULL] seg d
    by (simp_all add: bridge_next_def bridge_prev_other)
  then obtain dt where dt: "?h t = Some dt" using snoc by (auto dest!: dseg_live)
  have tn: "t \<noteq> n" using snoc seg(2) by auto
  let ?h2 = "?h(n \<mapsto> d\<lparr>nd_next := NULL, nd_prev := t\<rparr>, t \<mapsto> dt\<lparr>nd_next := n\<rparr>)"
  have "dseg (?h(t \<mapsto> dt\<lparr>nd_next := n\<rparr>)) NULL ns n"
    using dseg_set_last_next [of ?h NULL xs t NULL dt n] b(1) snoc seg(2) dt by simp
  then have "dseg ?h2 NULL ns n" using seg(2) tn by (subst fun_upd_twist) (auto simp: dseg_upd_other)
  then have "dseg ?h2 NULL (ns @ [n]) NULL" using snoc d(1) tn by (simp add: dseg_append)
  then have rep: "ll_rep ?h2 (L\<lparr>l_head := hd0 ns NULL, l_tail := n\<rparr>) (ns @ [n])"
    using seg(2) sz snoc by (cases xs) (auto simp: ll_rep_def)
  obtain m ms where ns: "ns = m # ms" using snoc by (metis neq_Nil_conv snoc_eq_iff_butlast)
  with seg obtain dm where m: "ns = m # ms" "nodes s m = Some dm" "m \<noteq> n" by auto
  let ?s = "s\<lparr>nodes := ?h2, lists := (lists s)(ll \<mapsto> L\<lparr>l_head := hd0 ns NULL, l_tail := n\<rparr>)\<rparr>"
  have "ll_rotate ll s = Some (0, ?s)"
    using L(1,2) sz' hd d m dt tn by (simp add: ll_rotate_def heap_defs bridge_prev_def)
  moreover have "t \<in> set (m # ms)" using snoc m(1) by (metis in_set_conv_decomp)
  then have "frame ll (set (n # ns)) s ?s"
    using dt d m tn by (auto simp: frame_def payload_def bridge_prev_def fun_eq_iff split: if_splits)
  ultimately show ?thesis using rep L(1) by (auto simp: holds_def)
qed


subsection \<open>Loops over a list\<close>

text \<open>
  The payload of a live node. The loops below run on a list whose nodes carry
  the payloads \<open>data s\<close>, and they all end.
\<close>

definition data :: "heap \<Rightarrow> ptr \<Rightarrow> ptr" where
  "data s n = (case nodes s n of None \<Rightarrow> NULL | Some d \<Rightarrow> nd_e d)"

lemma payload_data: "nodes s n = Some d \<Longrightarrow> payload s n = Some (data s n)"
  by (simp add: payload_def data_def)

lemma find_loop_dseg:
  assumes "dseg (nodes s) p ns NULL" "\<forall>n \<in> set ns. func (data s n) \<noteq> None"
  shows "find_loop func c (hd0 ns NULL) s = Some (List.find (\<lambda>n. func (data s n) = Some c) ns)"
  using assms
proof (induction ns arbitrary: p)
  case Nil
  then show ?case by (simp add: find_loop.simps)
next
  case (Cons n ns)
  from Cons.prems(1) obtain d where d: "n \<noteq> NULL" "nodes s n = Some d" "nd_next d = hd0 ns NULL"
    and tl: "dseg (nodes s) n ns NULL" by auto
  from Cons.prems(2) d(2) obtain k where k: "func (nd_e d) = Some k" by (auto simp: data_def)
  have "find_loop func c (hd0 ns NULL) s = Some (List.find (\<lambda>n. func (data s n) = Some c) ns)"
    using Cons.IH [OF tl] Cons.prems(2) by simp
  with d k show ?case by (subst find_loop.simps) (simp add: data_def)
qed

lemma find_loop_rep:
  "ll_rep (nodes s) L ns \<Longrightarrow> \<forall>n \<in> set ns. func (data s n) \<noteq> None \<Longrightarrow>
   find_loop func c (l_head L) s = Some (List.find (\<lambda>n. func (data s n) = Some c) ns)"
  unfolding ll_rep_def by (metis find_loop_dseg)

lemma ll_find_holds:
  assumes "holds s ll ns" "\<forall>n \<in> set ns. func (data s n) \<noteq> None"
  shows "ll_find ll func c s = Some (case List.find (\<lambda>n. func (data s n) = Some c) ns of
    None \<Rightarrow> (-2, None) | Some n \<Rightarrow> (0, Some (data s n)))"
proof -
  from assms(1) obtain L where L: "ll \<noteq> NULL" "lists s ll = Some L" "ll_rep (nodes s) L ns"
    by (auto simp: holds_def)
  then have "find_loop func c (l_head L) s = Some (List.find (\<lambda>n. func (data s n) = Some c) ns)"
    using find_loop_rep [OF _ assms(2)] by blast
  moreover have "\<exists>d. nodes s n = Some d" if "List.find (\<lambda>n. func (data s n) = Some c) ns = Some n" for n
    using that holds_live [OF assms(1)] by (auto simp: find_Some_iff)
  ultimately show ?thesis using L(1,2)
    by (cases "List.find (\<lambda>n. func (data s n) = Some c) ns") (auto simp: ll_find_def, simp add: data_def)
qed

lemma ll_remove_holds:
  assumes "holds s ll (xs @ n # ys)" "\<forall>m \<in> set (xs @ n # ys). func (data s m) \<noteq> None"
    and "func (data s n) = Some c" "\<And>m. m \<in> set xs \<Longrightarrow> func (data s m) \<noteq> Some c"
  shows "\<exists>s'. ll_remove ll func c False s = Some (0, Some (data s n), s') \<and> holds s' ll (xs @ ys) \<and>
    nodes s' n = None \<and> frame_free ll (set (xs @ n # ys)) n s s'"
proof -
  from assms(1) obtain L where L: "ll \<noteq> NULL" "lists s ll = Some L" "ll_rep (nodes s) L (xs @ n # ys)"
    by (auto simp: holds_def)
  from assms(1) obtain d where d: "nodes s n = Some d" "n \<noteq> NULL"
    using holds_live [OF assms(1)] holds_NULL [OF assms(1)] by fastforce
  have "List.find (\<lambda>m. func (data s m) = Some c) (xs @ n # ys) = Some n"
    using assms(3,4) by (induction xs) auto
  then have "find_loop func c (l_head L) s = Some (Some n)"
    using find_loop_rep [OF L(3) assms(2)] by simp
  moreover obtain s1 where s1: "ll_unlink_node ll n s = Some (0, s1)" "holds s1 ll (xs @ ys)"
    "frame ll (set (xs @ n # ys)) s s1"
    using ll_unlink_node_holds [OF assms(1)] by blast
  moreover have "holds (free_node n s1) ll (xs @ ys)"
    using s1(2) holds_distinct [OF assms(1)] by (auto simp: holds_def free_node_def ll_rep_def dseg_upd_other)
  ultimately show ?thesis using L(1,2) d
    by (auto simp: ll_remove_def ll_remove_node_def free_node_def data_def frame_free_def frame_def
        payload_def fun_eq_iff)
qed

lemma ll_remove_missing:
  assumes "holds s ll ns" "\<forall>m \<in> set ns. func (data s m) \<noteq> None"
    and "\<And>m. m \<in> set ns \<Longrightarrow> func (data s m) \<noteq> Some c"
  shows "ll_remove ll func c keep s = Some (-2, None, s)"
proof -
  from assms(1) obtain L where L: "ll \<noteq> NULL" "lists s ll = Some L" "ll_rep (nodes s) L ns"
    by (auto simp: holds_def)
  have "List.find (\<lambda>m. func (data s m) = Some c) ns = None"
    using assms(3) by (auto simp: find_None_iff)
  then have "find_loop func c (l_head L) s = Some None"
    using find_loop_rep [OF L(3) assms(2)] by simp
  with L(1,2) show ?thesis by (simp add: ll_remove_def)
qed

lemma foreach_loop_dseg:
  "dseg (nodes s) p ns NULL \<Longrightarrow> foreach_loop (hd0 ns NULL) s = Some (map (data s) ns)"
proof (induction ns arbitrary: p)
  case Nil
  then show ?case by (simp add: foreach_loop.simps)
next
  case (Cons n ns)
  from Cons.prems obtain d where d: "n \<noteq> NULL" "nodes s n = Some d" "nd_next d = hd0 ns NULL"
    and tl: "dseg (nodes s) n ns NULL" by auto
  with Cons.IH [OF tl] show ?case by (subst foreach_loop.simps) (simp add: data_def)
qed

lemma ll_foreach_holds: "holds s ll ns \<Longrightarrow> ll_foreach ll s = Some (map (data s) ns)"
  by (auto simp: holds_def ll_foreach_def ll_rep_def foreach_loop_dseg)

lemma destroy_loop_dseg:
  "dseg (nodes s) p ns NULL \<Longrightarrow> distinct ns \<Longrightarrow>
   destroy_loop (hd0 ns NULL) s = Some (s\<lparr>nodes := (\<lambda>n. if n \<in> set ns then None else nodes s n)\<rparr>)"
proof (induction ns arbitrary: p s)
  case Nil
  then show ?case by (simp add: destroy_loop.simps)
next
  case (Cons n ns)
  from Cons.prems obtain d where d: "n \<noteq> NULL" "nodes s n = Some d" "nd_next d = hd0 ns NULL"
    and tl: "dseg (nodes s) n ns NULL" and n: "n \<notin> set ns" "distinct ns" by auto
  have "dseg (nodes (free_node n s)) n ns NULL" using tl n by (simp add: free_node_def dseg_upd_other)
  from Cons.IH [OF this n(2)] d show ?case
    by (subst destroy_loop.simps) (simp add: free_node_def fun_eq_iff)
qed

lemma ll_destroy_holds:
  "holds s ll ns \<Longrightarrow>
   ll_destroy ll s = Some (s\<lparr>nodes := (\<lambda>n. if n \<in> set ns then None else nodes s n)\<rparr>)"
  by (auto simp: holds_def ll_destroy_def ll_rep_def destroy_loop_dseg)

text \<open>Sorted insertion, for a comparison that compares an integer key of the payloads.\<close>

definition key_cmp :: "(ptr \<Rightarrow> nat) \<Rightarrow> ptr \<Rightarrow> ptr \<Rightarrow> int" where
  "key_cmp key a b = (if key a < key b then -1 else if key a > key b then 1 else 0)"

lemma key_cmp_simps [simp]:
  "key_cmp key a b < 0 \<longleftrightarrow> key a < key b"
  "key_cmp key a b \<le> 0 \<longleftrightarrow> key a \<le> key b"
  "0 \<le> key_cmp key a b \<longleftrightarrow> key b \<le> key a"
  by (auto simp: key_cmp_def)

abbreviation sorted_by :: "(ptr \<Rightarrow> nat) \<Rightarrow> heap \<Rightarrow> ptr list \<Rightarrow> bool" where
  "sorted_by key s ns \<equiv> sorted (map (\<lambda>n. key (data s n)) ns)"

lemma sorted_loop_dseg:
  assumes "dseg (nodes s) p (c # cs) NULL" "sorted_by key s (c # cs)"
    and "\<And>n. n \<in> set (c # cs) \<Longrightarrow> data s n \<noteq> NULL" "key (data s c) \<le> key e"
  shows "\<exists>xs c' ys. sorted_loop (key_cmp key) e c s = Some (Inr c') \<and> c # cs = xs @ c' # ys \<and>
    (\<forall>x \<in> set (xs @ [c']). key (data s x) \<le> key e) \<and> (\<forall>y \<in> set ys. key e \<le> key (data s y))"
  using assms
proof (induction cs arbitrary: p c)
  case Nil
  then have "sorted_loop (key_cmp key) e c s = Some (Inr c)" by (subst sorted_loop.simps) auto
  with Nil show ?case by (intro exI [of _ "[]"] exI [of _ c]) simp
next
  case (Cons b bs)
  from Cons.prems(1) obtain d db where d: "nodes s c = Some d" "nd_next d = b" "b \<noteq> NULL"
    "nodes s b = Some db" and tl: "dseg (nodes s) c (b # bs) NULL" by auto
  have e: "nd_e d = data s c" "nd_e db = data s b" using d by (simp_all add: data_def)
  have le: "key (data s c) \<le> key (data s b)" and nz: "data s c \<noteq> NULL"
    using Cons.prems(2,3) by simp_all
  show ?case
  proof (cases "key e \<le> key (data s b)")
    case True
    with d e le nz Cons.prems(4) have "sorted_loop (key_cmp key) e c s = Some (Inr c)"
      by (subst sorted_loop.simps) simp
    moreover have "\<forall>y \<in> set (b # bs). key e \<le> key (data s y)"
      using Cons.prems(2) True by fastforce
    ultimately show ?thesis using Cons.prems(4) 
      by (rule_tac exI [of _ "[]"], rule_tac exI [of _ c], rule_tac exI [of _ "b # bs"]) simp
  next
    case False
    then have "key (data s b) \<le> key e" by simp
    from Cons.IH [OF tl _ _ this] Cons.prems(2,3) obtain xs c' ys
      where IH: "sorted_loop (key_cmp key) e b s = Some (Inr c')" "b # bs = xs @ c' # ys"
        "\<forall>x \<in> set (xs @ [c']). key (data s x) \<le> key e" "\<forall>y \<in> set ys. key e \<le> key (data s y)"
      by (auto simp del: sorted_loop.simps)
    have "sorted_loop (key_cmp key) e c s = sorted_loop (key_cmp key) e b s"
      using d e le nz False by (subst sorted_loop.simps) simp
    with IH Cons.prems(4) show ?thesis 
      by (rule_tac exI [of _ "c # xs"], rule_tac exI [of _ c'], rule_tac exI [of _ ys]) simp
  qed
qed


lemma dseg_insert:
  assumes "dseg h p (zs @ c # y # ws) q" "distinct (zs @ c # y # ws)" "n \<notin> set (zs @ c # y # ws)"
    and "n \<noteq> NULL" "h c = Some dc" "h y = Some dy"
  shows "dseg (h(y \<mapsto> dy\<lparr>nd_prev := n\<rparr>, c \<mapsto> dc\<lparr>nd_next := n\<rparr>, n \<mapsto> dn\<lparr>nd_next := y, nd_prev := c\<rparr>))
    p (zs @ c # n # y # ws) q"
proof -
  have l: "dseg h p (zs @ [c]) y" and r: "dseg h c (y # ws) q"
    using assms(1) by (simp_all add: dseg_append)
  let ?h1 = "h(y \<mapsto> dy\<lparr>nd_prev := n\<rparr>)" and ?h2 = "h(c \<mapsto> dc\<lparr>nd_next := n\<rparr>)"
  let ?h = "h(y \<mapsto> dy\<lparr>nd_prev := n\<rparr>, c \<mapsto> dc\<lparr>nd_next := n\<rparr>, n \<mapsto> dn\<lparr>nd_next := y, nd_prev := c\<rparr>)"
  have "dseg ?h1 n (y # ws) q" using dseg_set_first_prev [OF r _ assms(6)] assms(2) by simp
  then have "dseg ?h n (y # ws) q" by (rule dseg_cong [rotated]) (use assms(2,3) in auto)
  moreover have "dseg ?h2 p (zs @ [c]) n" using dseg_set_last_next [OF l _ assms(5)] assms(2) by simp
  then have "dseg ?h p (zs @ [c]) n" by (rule dseg_cong [rotated]) (use assms(2,3) in auto)
  ultimately have "dseg ?h p ((zs @ [c]) @ [n] @ (y # ws)) q"
    using assms(4) by (simp only: dseg_append) simp
  then show ?thesis by simp
qed

lemma ll_link_node_sorted_holds:
  assumes "holds s ll ns" "detached s n" "n \<notin> set ns" "sorted_by key s ns"
    and nz: "\<And>m. m \<in> set (n # ns) \<Longrightarrow> data s m \<noteq> NULL"
  shows "\<exists>s' xs ys. ns = xs @ ys \<and> ll_link_node_sorted (key_cmp key) ll n s = Some (0, s') \<and>
    holds s' ll (xs @ n # ys) \<and> sorted_by key s (xs @ n # ys) \<and> frame ll (insert n (set ns)) s s'"
proof -
  from assms(1) obtain L where L: "ll \<noteq> NULL" "lists s ll = Some L" "ll_rep (nodes s) L ns"
    by (auto simp: holds_def)
  from assms(2) obtain d where d: "n \<noteq> NULL" "nodes s n = Some d" "nd_next d = NULL" "nd_prev d = NULL"
    by (auto simp: detached_def)
  have e: "nd_e d = data s n" "nd_e d \<noteq> NULL" using d nz [of n] by (simp_all add: data_def)
  show ?thesis
  proof (cases ns)
    case Nil
    obtain s' where "ll_link_node_last ll n s = Some (0, s')" "holds s' ll [n]" "frame ll {n} s s'"
      using ll_link_node_last_holds [OF assms(1-3)] Nil by auto
    moreover have "ll_link_node_sorted (key_cmp key) ll n s = ll_link_node_last ll n s"
      using L d e Nil ll_rep_head [OF L(3)]
      by (auto simp: ll_link_node_sorted_def ll_link_node_last_def put_list_def ll_rep_def)
    ultimately show ?thesis using Nil by auto
  next
    case (Cons c cs)
    then have hd: "l_head L = c" "c \<noteq> NULL" and seg: "dseg (nodes s) NULL (c # cs) NULL" "distinct (c # cs)"
      and sz: "unat (l_size L) = length ns" using L(3) by (auto simp: ll_rep_def)
    then obtain dc where dc: "nodes s c = Some dc" "nd_e dc = data s c" by (auto simp: data_def)
    show ?thesis
    proof (cases "key (data s n) < key (data s c)")
      case True
      obtain s' where "ll_link_node_first ll n s = Some (0, s')" "holds s' ll (n # ns)"
        "frame ll (insert n (set ns)) s s'" using ll_link_node_first_holds [OF assms(1-3)] by auto
      moreover have "ll_link_node_sorted (key_cmp key) ll n s = ll_link_node_first ll n s"
        using True L d e hd dc by (simp add: ll_link_node_sorted_def)
      moreover have "sorted_by key s (n # ns)" using True assms(4) Cons by fastforce
      ultimately show ?thesis by (metis append_Nil)
    next
      case False
      then obtain xs c' ys where loop: "sorted_loop (key_cmp key) (data s n) c s = Some (Inr c')"
        and split: "ns = xs @ c' # ys"
        and le: "\<forall>x \<in> set (xs @ [c']). key (data s x) \<le> key (data s n)"
        and ge: "\<forall>y \<in> set ys. key (data s n) \<le> key (data s y)"
        using sorted_loop_dseg [OF seg(1), of key "data s n"] assms(4) nz Cons by fastforce
      have sort: "sorted_by key s (xs @ c' # n # ys)"
        using assms(4) le ge by (auto simp: split sorted_append)
      obtain dc' where dc': "nodes s c' = Some dc'" "nd_next dc' = hd0 ys NULL"
        using L(3) unfolding split by (auto simp: ll_rep_def dseg_append)
      have run: "ll_link_node_sorted (key_cmp key) ll n s = (case ys of [] \<Rightarrow> ll_link_node_last ll n s
        | y # _ \<Rightarrow> do {
            s \<leftarrow> set_prev y n s; s \<leftarrow> set_next n y s; s \<leftarrow> set_next c' n s; s \<leftarrow> set_prev n c' s;
            Some (0, put_list ll (L\<lparr>l_size := l_size L + 1\<rparr>) s) })"
        using False L(1,2) d e hd dc loop dc' holds_NULL [OF assms(1)] split
        by (cases ys) (auto simp: ll_link_node_sorted_def)
      show ?thesis
      proof (cases ys)
        case Nil
        obtain s' where "ll_link_node_last ll n s = Some (0, s')" "holds s' ll (ns @ [n])"
          "frame ll (insert n (set ns)) s s'" using ll_link_node_last_holds [OF assms(1-3)] by blast
        then show ?thesis using run sort split Nil
          by (intro exI [of _ s'] exI [of _ ns] exI [of _ "[]"]) simp
      next
        case (Cons y ws)
        then obtain dy where dy: "nodes s y = Some dy" using holds_live [OF assms(1)] split by fastforce
        have ne: "n \<noteq> y" "n \<noteq> c'" "c' \<noteq> y" using assms(3) split Cons holds_distinct [OF assms(1)] by auto
        let ?h = "(nodes s)(y \<mapsto> dy\<lparr>nd_prev := n\<rparr>, c' \<mapsto> dc'\<lparr>nd_next := n\<rparr>, n \<mapsto> d\<lparr>nd_next := y, nd_prev := c'\<rparr>)"
        let ?s = "s\<lparr>nodes := ?h, lists := (lists s)(ll \<mapsto> L\<lparr>l_size := l_size L + 1\<rparr>)\<rparr>"
        have "ll_link_node_sorted (key_cmp key) ll n s = Some (0, ?s)"
          using run Cons dy d dc' ne by (simp add: heap_defs fun_upd_twist)
        moreover have "dseg ?h NULL (xs @ c' # n # ys) NULL"
          using dseg_insert [OF _ _ _ d(1) dc'(1) dy, of NULL xs ws NULL d] L(3) split Cons assms(3)
          by (simp add: ll_rep_def)
        then have "holds ?s ll (xs @ c' # n # ys)"
          using L split Cons assms(3) unat_Suc_of_bound [OF sz ll_rep_bound [OF L(3) assms(3) d(1)]]
          by (auto simp: holds_def ll_rep_def)
        moreover have "frame ll (insert n (set ns)) s ?s"
          using dy d dc' ne split Cons by (auto simp: frame_def payload_def fun_eq_iff)
        ultimately show ?thesis using sort split by (intro exI [of _ ?s] exI [of _ "xs @ [c']"] exI [of _ ys]) simp
      qed
    qed
  qed
qed

subsection \<open>Adding a value\<close>

definition frame_new :: "ptr \<Rightarrow> ptr set \<Rightarrow> ptr \<Rightarrow> ptr \<Rightarrow> heap \<Rightarrow> heap \<Rightarrow> bool" where
  "frame_new ll S n v s s' \<longleftrightarrow> nodes s n = None \<and> (\<forall>l. l \<noteq> ll \<longrightarrow> lists s' l = lists s l) \<and>
     (\<forall>m. m \<notin> insert n S \<longrightarrow> nodes s' m = nodes s m) \<and> payload s' = (payload s)(n \<mapsto> v)"

lemma malloc_node_cases:
  assumes "malloc_ok al"
  obtains (null) "malloc_node al junk s = (NULL, s\<lparr>mcalls := Suc (mcalls s)\<rparr>)"
  | (new) n where "n \<noteq> NULL" "nodes s n = None"
    "malloc_node al junk s = (n, s\<lparr>mcalls := Suc (mcalls s), nodes := (nodes s)(n \<mapsto> junk)\<rparr>)"
proof (cases "al (mcalls s) (\<lambda>q. nodes s q \<noteq> None) = NULL")
  case True
  then show ?thesis by (intro null) (simp add: malloc_node_def)
next
  case False
  then show ?thesis using malloc_okD [OF assms False]
    by (intro new [of "al (mcalls s) (\<lambda>q. nodes s q \<noteq> None)"]) (simp_all add: malloc_node_def Let_def)
qed

lemma new_node_detached:
  assumes "malloc_node al junk s = (n, s\<lparr>mcalls := k, nodes := (nodes s)(n \<mapsto> junk)\<rparr>)"
    and "n \<noteq> NULL" "nodes s n = None" "holds s ll ns"
  shows "\<exists>s'. ll_node_init n v (snd (malloc_node al junk s)) = Some (0, s') \<and> holds s' ll ns \<and>
    detached s' n \<and> n \<notin> set ns \<and> frame_new ll {} n v s s'"
proof -
  have "n \<notin> set ns" using assms(3) holds_live [OF assms(4)] by fastforce
  moreover from this have "dseg ((nodes s)(n \<mapsto> d)) p ns q = dseg (nodes s) p ns q" for d p q
    by (rule dseg_upd_other)
  ultimately show ?thesis using assms
    by (auto simp: ll_node_init_def holds_def detached_def ll_rep_def frame_new_def payload_def fun_eq_iff)
qed

lemma ll_add_last_holds:
  assumes "malloc_ok al" "holds s ll ns"
  shows "(\<exists>s'. ll_add_last al junk ll v s = Some (-2, s') \<and> nodes s' = nodes s \<and> lists s' = lists s) \<or>
    (\<exists>n s'. ll_add_last al junk ll v s = Some (0, s') \<and> holds s' ll (ns @ [n]) \<and>
       frame_new ll (set ns) n v s s')"
  using assms(1)
proof (cases rule: malloc_node_cases [where junk = junk and s = s])
  case null
  then show ?thesis using assms(2) by (auto simp: ll_add_last_def ll_node_init_def holds_def)
next
  case (new n)
  from new_node_detached [OF new(3,1,2) assms(2), of v] obtain s1 where s1:
    "ll_node_init n v (snd (malloc_node al junk s)) = Some (0, s1)" "holds s1 ll ns" "detached s1 n"
    "n \<notin> set ns" "frame_new ll {} n v s s1" by blast
  from ll_link_node_last_holds [OF s1(2-4)] obtain s2 where s2:
    "ll_link_node_last ll n s1 = Some (0, s2)" "holds s2 ll (ns @ [n])" "frame ll (insert n (set ns)) s1 s2"
    by blast
  have "ll_add_last al junk ll v s = Some (0, s2)"
    using s1(1) s2(1) new(3) assms(2) by (simp add: ll_add_last_def holds_def)
  moreover have "frame_new ll (set ns) n v s s2" using s1(5) s2(3) by (auto simp: frame_new_def frame_def)
  ultimately show ?thesis using s2(2) by blast
qed

lemma ll_add_first_holds:
  assumes "malloc_ok al" "holds s ll ns"
  shows "(\<exists>s'. ll_add_first al junk ll v s = Some (-2, s') \<and> nodes s' = nodes s \<and> lists s' = lists s) \<or>
    (\<exists>n s'. ll_add_first al junk ll v s = Some (0, s') \<and> holds s' ll (n # ns) \<and>
       frame_new ll (set ns) n v s s')"
  using assms(1)
proof (cases rule: malloc_node_cases [where junk = junk and s = s])
  case null
  then show ?thesis using assms(2) by (auto simp: ll_add_first_def ll_node_init_def holds_def)
next
  case (new n)
  from new_node_detached [OF new(3,1,2) assms(2), of v] obtain s1 where s1:
    "ll_node_init n v (snd (malloc_node al junk s)) = Some (0, s1)" "holds s1 ll ns" "detached s1 n"
    "n \<notin> set ns" "frame_new ll {} n v s s1" by blast
  from ll_link_node_first_holds [OF s1(2-4)] obtain s2 where s2:
    "ll_link_node_first ll n s1 = Some (0, s2)" "holds s2 ll (n # ns)" "frame ll (insert n (set ns)) s1 s2"
    by blast
  have "ll_add_first al junk ll v s = Some (0, s2)"
    using s1(1) s2(1) new(3) assms(2) by (simp add: ll_add_first_def holds_def)
  moreover have "frame_new ll (set ns) n v s s2" using s1(5) s2(3) by (auto simp: frame_new_def frame_def)
  ultimately show ?thesis using s2(2) by blast
qed


subsection \<open>The interface of the list module\<close>

text \<open>
  The laws a client relies on when it moves nodes between lists: unlinking takes
  the node out and leaves it detached, linking puts it last, and both leave every
  list alone that shares no node with the list they work on.
\<close>

locale node_lists =
  fixes has_seq :: "'s \<Rightarrow> ptr \<Rightarrow> ptr list \<Rightarrow> bool"
    and loose :: "'s \<Rightarrow> ptr \<Rightarrow> bool"
    and untouched :: "ptr \<Rightarrow> ptr set \<Rightarrow> 's \<Rightarrow> 's \<Rightarrow> bool"
    and unlink :: "ptr \<Rightarrow> ptr \<Rightarrow> 's \<Rightarrow> (int \<times> 's) option"
    and link_last :: "ptr \<Rightarrow> ptr \<Rightarrow> 's \<Rightarrow> (int \<times> 's) option"
  assumes unlink_law: "has_seq s l (xs @ n # ys) \<Longrightarrow> \<exists>s'. unlink l n s = Some (0, s') \<and>
      has_seq s' l (xs @ ys) \<and> loose s' n \<and> untouched l (set (xs @ n # ys)) s s'"
    and link_last_law: "has_seq s l ns \<Longrightarrow> loose s n \<Longrightarrow> n \<notin> set ns \<Longrightarrow>
      \<exists>s'. link_last l n s = Some (0, s') \<and> has_seq s' l (ns @ [n]) \<and> untouched l (insert n (set ns)) s s'"
    and untouched_law: "untouched l S s s' \<Longrightarrow> has_seq s k ns \<Longrightarrow> k \<noteq> l \<Longrightarrow> set ns \<inter> S = {} \<Longrightarrow>
      has_seq s' k ns"
    and distinct_law: "has_seq s l ns \<Longrightarrow> distinct ns"
begin

text \<open>Moving a node from the list \<open>a\<close> to the end of the list \<open>b\<close>.\<close>

definition transfer :: "ptr \<Rightarrow> ptr \<Rightarrow> ptr \<Rightarrow> 's \<Rightarrow> (int \<times> 's) option" where
  "transfer a b n s = do { (r, s) \<leftarrow> unlink a n s; if r < 0 then Some (-5, s) else link_last b n s }"

lemma transfer_moves:
  assumes "has_seq s a (xs @ n # ys)" "has_seq s b ns" "a \<noteq> b" "set (xs @ n # ys) \<inter> set ns = {}"
  shows "\<exists>s'. transfer a b n s = Some (0, s') \<and> has_seq s' a (xs @ ys) \<and> has_seq s' b (ns @ [n])"
proof -
  obtain s1 where s1: "unlink a n s = Some (0, s1)" "has_seq s1 a (xs @ ys)" "loose s1 n"
    "untouched a (set (xs @ n # ys)) s s1" using unlink_law [OF assms(1)] by blast
  have b1: "has_seq s1 b ns" using untouched_law [OF s1(4) assms(2)] assms(3,4) by blast
  obtain s2 where s2: "link_last b n s1 = Some (0, s2)" "has_seq s2 b (ns @ [n])"
    "untouched b (insert n (set ns)) s1 s2" using link_last_law [OF b1 s1(3)] assms(4) by auto
  have "n \<notin> set (xs @ ys)" using distinct_law [OF assms(1)] by auto
  then have "has_seq s2 a (xs @ ys)" using untouched_law [OF s2(3) s1(2)] assms(3,4) by auto
  with s1(1) s2(1,2) show ?thesis by (simp add: transfer_def)
qed

end

interpretation kll: node_lists holds detached frame ll_unlink_node ll_link_node_last
proof
  show "\<exists>s'. ll_unlink_node l n s = Some (0, s') \<and> holds s' l (xs @ ys) \<and> detached s' n \<and>
      frame l (set (xs @ n # ys)) s s'" if "holds s l (xs @ n # ys)" for s l xs n ys
    using ll_unlink_node_holds [OF that] .
  show "\<exists>s'. ll_link_node_last l n s = Some (0, s') \<and> holds s' l (ns @ [n]) \<and>
      frame l (insert n (set ns)) s s'"
    if "holds s l ns" "detached s n" "n \<notin> set ns" for s l ns n
    using ll_link_node_last_holds [OF that] .
  show "holds s' k ns" if "frame l S s s'" "holds s k ns" "k \<noteq> l" "set ns \<inter> S = {}" for l S s s' k ns
    using frame_holds [OF that] .
  show "distinct ns" if "holds s l ns" for s l ns using holds_distinct [OF that] .
qed

subsection \<open>Properties\<close>

text \<open>A heap with the list 100 of the nodes 10, 20 and the list 200 of the node 30.\<close>

definition ex_heap :: heap where
  "ex_heap = \<lparr>nodes = [10 \<mapsto> \<lparr>nd_e = 1, nd_next = 20, nd_prev = 0\<rparr>,
      20 \<mapsto> \<lparr>nd_e = 2, nd_next = 0, nd_prev = 10\<rparr>,
      30 \<mapsto> \<lparr>nd_e = 3, nd_next = 0, nd_prev = 0\<rparr>,
      40 \<mapsto> \<lparr>nd_e = 2, nd_next = 0, nd_prev = 0\<rparr>],
    lists = [100 \<mapsto> \<lparr>l_head = 10, l_tail = 20, l_size = 2\<rparr>,
      200 \<mapsto> \<lparr>l_head = 30, l_tail = 30, l_size = 1\<rparr>],
    mcalls = 0\<rparr>"

lemma ex_heap_holds: "holds ex_heap 100 [10, 20]" "holds ex_heap 200 [30]" "detached ex_heap 40"
  by (simp_all add: ex_heap_def holds_def ll_rep_def detached_def)

lemma ex_heap_data: "data ex_heap 10 = 1" "data ex_heap 20 = 2" "data ex_heap 40 = 2"
  by (simp_all add: ex_heap_def data_def)

text \<open>
  Moving a node between two lists of the kernel, as every state change of a
  thread does: \<open>ll_unlink_node\<close> on the list that holds it, then
  \<open>ll_link_node_last\<close> on the other list. Both calls return 0; afterwards the first
  list has lost exactly this node and the second has it at its end.
\<close>

theorem ll_move_node:
  assumes "holds s a (xs @ n # ys)" "holds s b ns" "a \<noteq> b" "set (xs @ n # ys) \<inter> set ns = {}"
  shows "\<exists>s1 s2. ll_unlink_node a n s = Some (0, s1) \<and> ll_link_node_last b n s1 = Some (0, s2) \<and>
    holds s2 a (xs @ ys) \<and> holds s2 b (ns @ [n])"
  using kll.transfer_moves [OF assms] kll.unlink_law [OF assms(1)] by (auto simp: kll.transfer_def)

theorem ll_move_node_witness:
  "\<exists>s1 s2. ll_unlink_node 100 20 ex_heap = Some (0, s1) \<and> ll_link_node_last 200 20 s1 = Some (0, s2) \<and>
    holds s2 100 [10] \<and> holds s2 200 [30, 20]"
  using ll_move_node [of ex_heap 100 "[10]" 20 "[]" 200 "[30]"] ex_heap_holds by simp

text \<open>
  C13: Sorted insertion (\<open>ll_link_node_sorted\<close>, used for the sleeping pool) into a
  list sorted by a key of its payloads terminates, returns 0, inserts the node at
  one place of the sequence, and the resulting sequence is sorted; no other list
  and no payload changes.
\<close>

theorem ll_sorted_insert:
  assumes "holds s ll ns" "detached s n" "n \<notin> set ns" "sorted_by key s ns"
    and "\<And>m. m \<in> set (n # ns) \<Longrightarrow> data s m \<noteq> NULL"
  shows "\<exists>s' xs ys. ns = xs @ ys \<and> ll_link_node_sorted (key_cmp key) ll n s = Some (0, s') \<and>
    holds s' ll (xs @ n # ys) \<and> sorted_by key s (xs @ n # ys) \<and> frame ll (insert n (set ns)) s s'"
  using ll_link_node_sorted_holds [OF assms] .

theorem ll_sorted_insert_witness:
  "\<exists>s' xs ys. [10, 20] = xs @ ys \<and> ll_link_node_sorted (key_cmp unat) 100 40 ex_heap = Some (0, s') \<and>
    holds s' 100 (xs @ 40 # ys) \<and> sorted_by unat ex_heap (xs @ 40 # ys)"
  using ll_sorted_insert [of ex_heap 100 "[10, 20]" 40 unat] ex_heap_holds ex_heap_data by fastforce

text \<open>
  \<open>ll_rotate\<close>, the step of the round-robin scheduler, moves the first node to
  the end and changes nothing else.
\<close>

theorem ll_rotate_sequence:
  assumes "holds s ll (n # ns)"
  shows "\<exists>s'. ll_rotate ll s = Some (0, s') \<and> holds s' ll (rotate1 (n # ns)) \<and> frame ll (set (n # ns)) s s'"
  using ll_rotate_holds [OF assms] by simp

theorem ll_rotate_sequence_witness:
  "\<exists>s'. ll_rotate 100 ex_heap = Some (0, s') \<and> holds s' 100 [20, 10]"
  using ll_rotate_sequence [of ex_heap 100 10 "[20]"] ex_heap_holds by auto

text \<open>
  \<open>ll_add_last\<close> on a list either fails with -2 because \<open>malloc\<close> returned NULL,
  and then no node and no list changes, or appends one fresh node that carries
  the value. For every behaviour of the allocator that hands out unused memory.
\<close>

theorem ll_add_last_sequence:
  assumes "malloc_ok al" "holds s ll ns"
  shows "(\<exists>s'. ll_add_last al junk ll v s = Some (-2, s') \<and> nodes s' = nodes s \<and> lists s' = lists s) \<or>
    (\<exists>n s'. ll_add_last al junk ll v s = Some (0, s') \<and> holds s' ll (ns @ [n]) \<and>
       nodes s n = None \<and> payload s' = (payload s)(n \<mapsto> v) \<and> (\<forall>l. l \<noteq> ll \<longrightarrow> lists s' l = lists s l))"
  using ll_add_last_holds [OF assms, of junk v] by (auto simp: frame_new_def)

theorem ll_add_last_sequence_witness:
  "(\<exists>s'. ll_add_last (pool_alloc [10, 50]) \<lparr>nd_e = 0, nd_next = 7, nd_prev = 7\<rparr> 100 9 ex_heap = Some (-2, s')) \<or>
    (\<exists>n s'. ll_add_last (pool_alloc [10, 50]) \<lparr>nd_e = 0, nd_next = 7, nd_prev = 7\<rparr> 100 9 ex_heap = Some (0, s') \<and>
      holds s' 100 [10, 20, n])"
  using ll_add_last_sequence [OF pool_alloc_ok ex_heap_holds(1)] by fastforce

end
