(* ===== verification/QueueStack.thy ===== *)
theory QueueStack
  imports LinkedListCorrect
begin

text \<open>
  \<open>kern/data_structures/queue.c\<close> and \<open>stack.c\<close>: the two containers the kernel
  builds on \<open>ll.c\<close>. A \<open>queue_t\<close> and a \<open>stack_t\<close> are structs with one field, the
  address of a list; an argument that may be NULL is an option. The heap is the
  heap of \<open>LinkedList\<close>. Both are instances of the locale \<open>value_container\<close>,
  which differ in the end at which a value is put.
\<close>

subsection \<open>Model\<close>

record queue =
  q_ll :: ptr

record stack =
  stk_ll :: ptr

text \<open>\<open>malloc(sizeof(ll_t))\<close>.\<close>

definition malloc_list :: "allocator \<Rightarrow> ll \<Rightarrow> heap \<Rightarrow> ptr \<times> heap" where
  "malloc_list al junk s =
     (let p = al (mcalls s) (\<lambda>q. lists s q \<noteq> None); s = s\<lparr>mcalls := Suc (mcalls s)\<rparr>
      in if p = NULL then (NULL, s) else (p, put_list p junk s))"

definition queue_init :: "allocator \<Rightarrow> ll \<Rightarrow> queue option \<Rightarrow> heap \<Rightarrow> (int \<times> queue option \<times> heap) option" where
  "queue_init al junk q s = (case q of
     None \<Rightarrow> Some (-1, None, s)
   | Some q \<Rightarrow> do {
       let (ll_new, s) = malloc_list al junk s;
       let q = q\<lparr>q_ll := ll_new\<rparr>;
       (r, s) \<leftarrow> ll_init (q_ll q) s;
       Some (r, Some q, s)
     })"

definition queue_enq :: "allocator \<Rightarrow> ll_node \<Rightarrow> queue option \<Rightarrow> ptr \<Rightarrow> heap \<Rightarrow> (int \<times> heap) option" where
  "queue_enq al junk q value s = (case q of
     None \<Rightarrow> Some (-1, s) | Some q \<Rightarrow> ll_add_last al junk (q_ll q) value s)"

definition queue_deq :: "queue option \<Rightarrow> heap \<Rightarrow> (int \<times> ptr option \<times> heap) option" where
  "queue_deq q s = (case q of
     None \<Rightarrow> Some (-1, None, s) | Some q \<Rightarrow> ll_remove_first (q_ll q) s)"

definition queue_destroy :: "queue option \<Rightarrow> heap \<Rightarrow> heap option" where
  "queue_destroy q s = (case q of
     None \<Rightarrow> Some s
   | Some q \<Rightarrow> do {
       s \<leftarrow> ll_destroy (q_ll q) s;
       Some (s\<lparr>lists := (lists s)(q_ll q := None)\<rparr>)
     })"

definition queue_peek :: "queue option \<Rightarrow> heap \<Rightarrow> (int \<times> ptr option) option" where
  "queue_peek q s = (case q of None \<Rightarrow> Some (-1, None) | Some q \<Rightarrow> ll_peek (q_ll q) s)"

definition queue_size :: "queue option \<Rightarrow> heap \<Rightarrow> int option" where
  "queue_size q s = (case q of None \<Rightarrow> Some (-1) | Some q \<Rightarrow> ll_size (q_ll q) s)"

definition stack_init :: "allocator \<Rightarrow> ll \<Rightarrow> stack option \<Rightarrow> heap \<Rightarrow> (int \<times> stack option \<times> heap) option" where
  "stack_init al junk stk s = (case stk of
     None \<Rightarrow> Some (-1, None, s)
   | Some k \<Rightarrow> do {
       let (ll_new, s) = malloc_list al junk s;
       let k = k\<lparr>stk_ll := ll_new\<rparr>;
       (r, s) \<leftarrow> ll_init (stk_ll k) s;
       Some (r, Some k, s)
     })"

definition stack_push :: "allocator \<Rightarrow> ll_node \<Rightarrow> stack option \<Rightarrow> ptr \<Rightarrow> heap \<Rightarrow> (int \<times> heap) option" where
  "stack_push al junk stk value s = (case stk of
     None \<Rightarrow> Some (-1, s) | Some k \<Rightarrow> ll_add_first al junk (stk_ll k) value s)"

definition stack_pop :: "stack option \<Rightarrow> heap \<Rightarrow> (int \<times> ptr option \<times> heap) option" where
  "stack_pop stk s = (case stk of
     None \<Rightarrow> Some (-1, None, s) | Some k \<Rightarrow> ll_remove_first (stk_ll k) s)"

text \<open>
  \<open>stack_destroy\<close> frees the \<open>stack_t\<close> it was given and not the list struct, which
  stays allocated; the answer is the stack that is left, none.
\<close>

definition stack_destroy :: "stack option \<Rightarrow> heap \<Rightarrow> (stack option \<times> heap) option" where
  "stack_destroy stk s = (case stk of
     None \<Rightarrow> Some (None, s)
   | Some k \<Rightarrow> do { s \<leftarrow> ll_destroy (stk_ll k) s; Some (None, s) })"

definition stack_peek :: "stack option \<Rightarrow> heap \<Rightarrow> (int \<times> ptr option) option" where
  "stack_peek stk s = (case stk of None \<Rightarrow> Some (-1, None) | Some k \<Rightarrow> ll_peek (stk_ll k) s)"

definition stack_size :: "stack option \<Rightarrow> heap \<Rightarrow> int option" where
  "stack_size stk s = (case stk of None \<Rightarrow> Some (-1) | Some k \<Rightarrow> ll_size (stk_ll k) s)"

subsection \<open>The values a list stands for\<close>

definition values_of :: "heap \<Rightarrow> ptr \<Rightarrow> ptr list \<Rightarrow> bool" where
  "values_of s ll vs \<longleftrightarrow> (\<exists>ns. holds s ll ns \<and> map (payload s) ns = map Some vs)"

lemma payload_map_cong:
  assumes "payload s' = (payload s)(n := x)" "n \<notin> set ns"
  shows "map (payload s') ns = map (payload s) ns"
  using assms by (induction ns) auto

lemma frame_new_values:
  assumes "frame_new ll S n v s s'" "holds s ll ns" "map (payload s) ns = map Some vs"
  shows "map (payload s') ns = map Some vs \<and> payload s' n = Some v"
proof -
  have "n \<notin> set ns" using assms(1) holds_live [OF assms(2)] by (fastforce simp: frame_new_def)
  with assms show ?thesis using payload_map_cong [of s' s n "Some v" ns] by (simp add: frame_new_def)
qed

lemma payload_cong: "nodes s' = nodes s \<Longrightarrow> payload s' = payload s"
  by (simp add: payload_def fun_eq_iff)

lemma heap_eq_values:
  "nodes s' = nodes s \<Longrightarrow> lists s' = lists s \<Longrightarrow> values_of s ll vs \<Longrightarrow> values_of s' ll vs"
  by (auto simp: values_of_def holds_def payload_cong [of s' s])

lemma ll_add_last_values:
  assumes "malloc_ok al" "values_of s ll vs"
  shows "\<exists>r s'. ll_add_last al junk ll v s = Some (r, s') \<and>
    (r = 0 \<and> values_of s' ll (vs @ [v]) \<or> r = -2 \<and> values_of s' ll vs)"
proof -
  obtain ns where ns: "holds s ll ns" "map (payload s) ns = map Some vs"
    using assms(2) by (auto simp: values_of_def)
  from ll_add_last_holds [OF assms(1) ns(1), of junk v] show ?thesis
  proof (elim disjE exE conjE)
    fix s' assume "ll_add_last al junk ll v s = Some (-2, s')" "nodes s' = nodes s" "lists s' = lists s"
    then show ?thesis using heap_eq_values assms(2) by auto
  next
    fix n s' assume *: "ll_add_last al junk ll v s = Some (0, s')" "holds s' ll (ns @ [n])"
      "frame_new ll (set ns) n v s s'"
    have "map (payload s') (ns @ [n]) = map Some (vs @ [v])"
      using frame_new_values [OF *(3) ns] by simp
    then have "values_of s' ll (vs @ [v])" using *(2) values_of_def by blast
    with * show ?thesis by simp
  qed
qed

lemma ll_add_first_values:
  assumes "malloc_ok al" "values_of s ll vs"
  shows "\<exists>r s'. ll_add_first al junk ll v s = Some (r, s') \<and>
    (r = 0 \<and> values_of s' ll (v # vs) \<or> r = -2 \<and> values_of s' ll vs)"
proof -
  obtain ns where ns: "holds s ll ns" "map (payload s) ns = map Some vs"
    using assms(2) by (auto simp: values_of_def)
  from ll_add_first_holds [OF assms(1) ns(1), of junk v] show ?thesis
  proof (elim disjE exE conjE)
    fix s' assume "ll_add_first al junk ll v s = Some (-2, s')" "nodes s' = nodes s" "lists s' = lists s"
    then show ?thesis using heap_eq_values assms(2) by auto
  next
    fix n s' assume *: "ll_add_first al junk ll v s = Some (0, s')" "holds s' ll (n # ns)"
      "frame_new ll (set ns) n v s s'"
    have "map (payload s') (n # ns) = map Some (v # vs)"
      using frame_new_values [OF *(3) ns] by simp
    then have "values_of s' ll (v # vs)" using *(2) values_of_def by blast
    with * show ?thesis by simp
  qed
qed

lemma ll_remove_first_values:
  "values_of s ll (v # vs) \<Longrightarrow> \<exists>s'. ll_remove_first ll s = Some (0, Some v, s') \<and> values_of s' ll vs"
  "values_of s ll [] \<Longrightarrow> ll_remove_first ll s = Some (-2, None, s)"
proof -
  assume "values_of s ll (v # vs)"
  then obtain n ns where ns: "holds s ll (n # ns)" "payload s n = Some v" "map (payload s) ns = map Some vs"
    by (auto simp: values_of_def map_eq_Cons_conv)
  have "n \<notin> set ns" using holds_distinct [OF ns(1)] by simp
  with ll_remove_first_holds [OF ns(1)] ns(2,3)
  show "\<exists>s'. ll_remove_first ll s = Some (0, Some v, s') \<and> values_of s' ll vs"
    by (fastforce simp: values_of_def frame_free_def dest: payload_map_cong)
next
  assume "values_of s ll []"
  then show "ll_remove_first ll s = Some (-2, None, s)" by (auto simp: values_of_def ll_remove_empty)
qed

subsection \<open>The interface of the two containers\<close>

text \<open>Calls in sequence: put all values, stopping at the first failure; take \<open>k\<close> values.\<close>

primrec put_all :: "('v \<Rightarrow> 's \<Rightarrow> (int \<times> 's) option) \<Rightarrow> 'v list \<Rightarrow> 's \<Rightarrow> (int \<times> 's) option" where
  "put_all put [] s = Some (0, s)"
| "put_all put (v # vs) s = do {
     (r, s) \<leftarrow> put v s;
     if r < 0 then Some (r, s) else put_all put vs s
   }"

primrec take_all :: "('s \<Rightarrow> (int \<times> 'v option \<times> 's) option) \<Rightarrow> nat \<Rightarrow> 's \<Rightarrow> ('v option list \<times> 's) option" where
  "take_all get 0 s = Some ([], s)"
| "take_all get (Suc k) s = do {
     (_, v, s) \<leftarrow> get s;
     (vs, s) \<leftarrow> take_all get k s;
     Some (v # vs, s)
   }"

locale value_container =
  fixes rep :: "'s \<Rightarrow> 'v list \<Rightarrow> bool"
    and ins :: "'v \<Rightarrow> 'v list \<Rightarrow> 'v list"
    and put :: "'v \<Rightarrow> 's \<Rightarrow> (int \<times> 's) option"
    and get :: "'s \<Rightarrow> (int \<times> 'v option \<times> 's) option"
  assumes put_law: "rep s vs \<Longrightarrow> \<exists>r s'. put v s = Some (r, s') \<and>
      (r = 0 \<and> rep s' (ins v vs) \<or> r = -2 \<and> rep s' vs)"
    and get_law: "rep s (v # vs) \<Longrightarrow> \<exists>s'. get s = Some (0, Some v, s') \<and> rep s' vs"
    and get_empty: "rep s [] \<Longrightarrow> get s = Some (-2, None, s)"
begin

lemma put_all_returns:
  "rep s us \<Longrightarrow> \<exists>r s'. put_all put vs s = Some (r, s') \<and> (r = 0 \<longrightarrow> rep s' (fold ins vs us)) \<and> (r = 0 \<or> r = -2)"
proof (induction vs arbitrary: s us)
  case (Cons v vs)
  from put_law [OF Cons.prems, of v] obtain r s1 where
    s1: "put v s = Some (r, s1)" "r = 0 \<and> rep s1 (ins v us) \<or> r = -2" by blast
  then show ?case using Cons.IH by auto
qed simp

lemma take_all_returns:
  "rep s vs \<Longrightarrow> \<exists>s'. take_all get (length vs) s = Some (map Some vs, s') \<and> rep s' []"
proof (induction vs arbitrary: s)
  case (Cons v vs)
  from get_law [OF Cons.prems] Cons.IH show ?case by fastforce
qed auto

lemma put_then_take:
  assumes "rep s []" "put_all put vs s = Some (0, s1)"
  shows "\<exists>s2. take_all get (length (fold ins vs [])) s1 = Some (map Some (fold ins vs []), s2) \<and>
    get s2 = Some (-2, None, s2)"
  using put_all_returns [OF assms(1), of vs] take_all_returns [of s1 "fold ins vs []"] get_empty assms(2)
  by fastforce

end

text \<open>
  Both containers fulfil it for every allocator that hands out unused memory,
  which is part of what the state represents.
\<close>

definition qrep :: "allocator \<Rightarrow> ptr \<Rightarrow> heap \<Rightarrow> ptr list \<Rightarrow> bool" where
  "qrep al ll s vs \<longleftrightarrow> malloc_ok al \<and> values_of s ll vs"

lemma fold_snoc: "fold (\<lambda>v vs. vs @ [v]) xs ys = ys @ xs"
  by (induction xs arbitrary: ys) simp_all

interpretation kqueue: value_container "qrep al (q_ll q)" "\<lambda>v vs. vs @ [v]"
  "queue_enq al junk (Some q)" "queue_deq (Some q)" for al junk q
  by unfold_locales
    (auto simp: qrep_def queue_enq_def queue_deq_def ll_add_last_values dest: ll_remove_first_values)

interpretation kstack: value_container "qrep al (stk_ll k)" "(#)"
  "stack_push al junk (Some k)" "stack_pop (Some k)" for al junk k
  by unfold_locales
    (auto simp: qrep_def stack_push_def stack_pop_def ll_add_first_values dest: ll_remove_first_values)

lemma malloc_list_init:
  assumes "malloc_ok al" "malloc_list al junk s = (p, s1)"
  shows "(p = NULL \<longrightarrow> ll_init p s1 = Some (-1, s1)) \<and>
    (p \<noteq> NULL \<longrightarrow> (\<exists>s'. ll_init p s1 = Some (0, s') \<and> values_of s' p [] \<and> lists s p = None \<and> nodes s' = nodes s))"
  using assms malloc_okD [OF assms(1), of "mcalls s" "\<lambda>q. lists s q \<noteq> None"]
  by (auto simp: malloc_list_def ll_init_def put_list_def values_of_def holds_def ll_rep_def Let_def
      split: if_splits)

subsection \<open>Properties\<close>

text \<open>
  First in, first out. On a queue that \<open>queue_init\<close> has set up, if a sequence
  of \<open>queue_enq\<close> calls succeeds, then as many \<open>queue_deq\<close> calls return exactly the
  values put, in the order of the puts, and the queue is empty again: the next
  \<open>queue_deq\<close> returns -2. The exit statuses of a process's children pass through
  such a queue.
\<close>

theorem queue_fifo:
  assumes "malloc_ok al" "queue_init al junkl (Some q0) s0 = Some (0, Some q, s)"
    and "put_all (queue_enq al junk (Some q)) vs s = Some (0, s1)"
  shows "\<exists>s2. take_all (queue_deq (Some q)) (length vs) s1 = Some (map Some vs, s2) \<and>
    queue_deq (Some q) s2 = Some (-2, None, s2)"
proof -
  have "qrep al (q_ll q) s []"
    using assms(1,2) malloc_list_init [OF assms(1), of junkl s0]
    by (cases "malloc_list al junkl s0") (auto simp: queue_init_def qrep_def split: bind_splits)
  then show ?thesis
    using kqueue.put_then_take [OF _ assms(3)] by (simp add: fold_snoc)
qed

text \<open>An empty heap, on which the containers are set up.\<close>

definition empty_heap :: heap where
  "empty_heap = \<lparr>nodes = (\<lambda>_. None), lists = (\<lambda>_. None), mcalls = 0\<rparr>"

lemmas qs_eval = empty_heap_def queue_init_def queue_enq_def stack_init_def stack_push_def
  ll_add_last_def ll_add_first_def ll_node_init_def ll_link_node_last_def ll_link_node_first_def
  malloc_list_def malloc_node_def ll_init_def heap_defs pool_alloc_def

theorem queue_fifo_witness:
  "\<exists>q s s1 s2. queue_init (pool_alloc [100, 200]) \<lparr>l_head = 3, l_tail = 3, l_size = 3\<rparr> (Some \<lparr>q_ll = 9\<rparr>) empty_heap =
      Some (0, Some q, s) \<and>
    put_all (queue_enq (pool_alloc [100, 200]) \<lparr>nd_e = 7, nd_next = 7, nd_prev = 7\<rparr> (Some q)) [1, 2] s = Some (0, s1) \<and>
    take_all (queue_deq (Some q)) (length [1 :: ptr, 2]) s1 = Some (map Some [1, 2], s2) \<and>
    queue_deq (Some q) s2 = Some (-2, None, s2)"
proof -
  let ?al = "pool_alloc [100, 200]" and ?j = "\<lparr>nd_e = 7, nd_next = 7, nd_prev = 7\<rparr>" and ?q = "\<lparr>q_ll = 100\<rparr>"
  have "\<exists>s s1. queue_init ?al \<lparr>l_head = 3, l_tail = 3, l_size = 3\<rparr> (Some \<lparr>q_ll = 9\<rparr>) empty_heap = Some (0, Some ?q, s) \<and>
      put_all (queue_enq ?al ?j (Some ?q)) [1, 2] s = Some (0, s1)"
    by (simp add: qs_eval)
  then obtain s s1 where 1: "queue_init ?al \<lparr>l_head = 3, l_tail = 3, l_size = 3\<rparr> (Some \<lparr>q_ll = 9\<rparr>) empty_heap = Some (0, Some ?q, s)"
    and 2: "put_all (queue_enq ?al ?j (Some ?q)) [1, 2] s = Some (0, s1)" by blast
  show ?thesis using queue_fifo [OF pool_alloc_ok 1 2] 1 2 by blast
qed

text \<open>
  Last in, first out: the same for \<open>stack_push\<close> and \<open>stack_pop\<close>, which return
  the values in the reverse order.
\<close>

theorem stack_lifo:
  assumes "malloc_ok al" "stack_init al junkl (Some k0) s0 = Some (0, Some k, s)"
    and "put_all (stack_push al junk (Some k)) vs s = Some (0, s1)"
  shows "\<exists>s2. take_all (stack_pop (Some k)) (length vs) s1 = Some (map Some (rev vs), s2) \<and>
    stack_pop (Some k) s2 = Some (-2, None, s2)"
proof -
  have "qrep al (stk_ll k) s []"
    using assms(1,2) malloc_list_init [OF assms(1), of junkl s0]
    by (cases "malloc_list al junkl s0") (auto simp: stack_init_def qrep_def split: bind_splits)
  then show ?thesis
    using kstack.put_then_take [OF _ assms(3)]
    by (simp add: fold_Cons_rev)
qed

theorem stack_lifo_witness:
  "\<exists>k s s1 s2. stack_init (pool_alloc [100, 200]) \<lparr>l_head = 3, l_tail = 3, l_size = 3\<rparr> (Some \<lparr>stk_ll = 9\<rparr>) empty_heap =
      Some (0, Some k, s) \<and>
    put_all (stack_push (pool_alloc [100, 200]) \<lparr>nd_e = 7, nd_next = 7, nd_prev = 7\<rparr> (Some k)) [1, 2] s = Some (0, s1) \<and>
    take_all (stack_pop (Some k)) (length [1 :: ptr, 2]) s1 = Some (map Some (rev [1, 2]), s2) \<and>
    stack_pop (Some k) s2 = Some (-2, None, s2)"
proof -
  let ?al = "pool_alloc [100, 200]" and ?j = "\<lparr>nd_e = 7, nd_next = 7, nd_prev = 7\<rparr>" and ?k = "\<lparr>stk_ll = 100\<rparr>"
  have "\<exists>s s1. stack_init ?al \<lparr>l_head = 3, l_tail = 3, l_size = 3\<rparr> (Some \<lparr>stk_ll = 9\<rparr>) empty_heap = Some (0, Some ?k, s) \<and>
      put_all (stack_push ?al ?j (Some ?k)) [1, 2] s = Some (0, s1)"
    by (simp add: qs_eval)
  then obtain s s1 where 1: "stack_init ?al \<lparr>l_head = 3, l_tail = 3, l_size = 3\<rparr> (Some \<lparr>stk_ll = 9\<rparr>) empty_heap = Some (0, Some ?k, s)"
    and 2: "put_all (stack_push ?al ?j (Some ?k)) [1, 2] s = Some (0, s1)" by blast
  show ?thesis using stack_lifo [OF pool_alloc_ok 1 2] 1 2 by blast
qed

text \<open>
  Destroying the containers. \<open>queue_destroy\<close> gives back every node and the
  list struct. \<open>stack_destroy\<close> gives back every node but calls \<open>free\<close> on the
  \<open>stack_t\<close> instead of on its list struct, which stays allocated for ever.
\<close>

theorem destroy_leaks:
  assumes "values_of s ll vs"
  shows "\<exists>s1 s2 ns. queue_destroy (Some \<lparr>q_ll = ll\<rparr>) s = Some s1 \<and>
      stack_destroy (Some \<lparr>stk_ll = ll\<rparr>) s = Some (None, s2) \<and>
      holds s ll ns \<and> nodes s1 = nodes s |` (- set ns) \<and> nodes s2 = nodes s |` (- set ns) \<and>
      lists s1 ll = None \<and> lists s2 ll \<noteq> None"
  using assms
  by (auto simp: values_of_def queue_destroy_def stack_destroy_def ll_destroy_holds restrict_map_def fun_eq_iff)
    (auto simp: holds_def)

theorem destroy_leaks_witness:
  "\<exists>s1 s2 ns. queue_destroy (Some \<lparr>q_ll = 100\<rparr>) ex_heap = Some s1 \<and>
      stack_destroy (Some \<lparr>stk_ll = 100\<rparr>) ex_heap = Some (None, s2) \<and>
      holds ex_heap 100 ns \<and> nodes s1 = nodes ex_heap |` (- set ns) \<and> nodes s2 = nodes ex_heap |` (- set ns) \<and>
      lists s1 100 = None \<and> lists s2 100 \<noteq> None"
proof (rule destroy_leaks)
  have "map (payload ex_heap) [10, 20] = map Some [1, 2]" by (simp add: payload_def ex_heap_def)
  then show "values_of ex_heap 100 [1, 2]" using ex_heap_holds(1) values_of_def by blast
qed

end
