(* ===== verification/Locks.thy ===== *)
theory Locks
  imports Prelude
begin

text \<open>
  \<open>kern/locks\<close>: \<open>mutex.c\<close>, \<open>sched_mutex.c\<close>, \<open>sem.c\<close> and \<open>rwlock.c\<close>.

  Every lock is modelled twice. The functions of the C files are functions on the
  structs, with \<open>started\<close> for \<open>sched.started\<close> and \<open>tid\<close> for the current thread;
  \<open>None\<close> is a call that does not return unless another thread acts. The
  interleaving of threads is a step relation: for the mutex its steps are the
  single memory accesses of \<open>mutex_lock\<close> and \<open>mutex_unlock\<close>; the sections of a
  semaphore and of a readers/writers lock that its mutex protects are one step
  each, which the mutual exclusion of the mutex justifies.
\<close>

subsection \<open>Mutexes\<close>

record mutex =
  m_lock :: int
  m_owner :: int

definition mutex_init :: "mutex option \<Rightarrow> int \<times> mutex option" where
  "mutex_init mp = (case mp of
     None \<Rightarrow> (-1, None) | Some m \<Rightarrow> (0, Some (m\<lparr>m_lock := 1, m_owner := -1\<rparr>)))"

definition mutex_destroy :: "mutex \<Rightarrow> mutex" where
  "mutex_destroy m = m\<lparr>m_lock := -1\<rparr>"

text \<open>\<open>xchng(&mp->lock, v)\<close>: the old value and the new struct.\<close>

definition xchng :: "mutex \<Rightarrow> int \<Rightarrow> int \<times> mutex" where
  "xchng m v = (m_lock m, m\<lparr>m_lock := v\<rparr>)"

text \<open>
  The loop leaves at its first iteration when the lock is free; when it is taken,
  the calling thread yields until another thread has released it.
\<close>

definition mutex_lock :: "bool \<Rightarrow> int \<Rightarrow> mutex \<Rightarrow> mutex option" where
  "mutex_lock started cur_tid m =
     (if \<not> started then Some m
      else let (old, m) = xchng m 0
           in if old \<noteq> 0 then Some (m\<lparr>m_owner := cur_tid\<rparr>) else None)"

definition mutex_unlock :: "bool \<Rightarrow> mutex \<Rightarrow> mutex" where
  "mutex_unlock started m =
     (if \<not> started then m else snd (xchng (m\<lparr>m_owner := -1\<rparr>) 1))"

text \<open>A mutex that nobody holds, as \<open>mutex_init\<close> and \<open>mutex_unlock\<close> leave it.\<close>

abbreviation free_mutex :: mutex where
  "free_mutex \<equiv> \<lparr>m_lock = 1, m_owner = -1\<rparr>"

lemma mutex_lock_free [simp]:
  "mutex_lock True tid free_mutex = Some \<lparr>m_lock = 0, m_owner = tid\<rparr>"
  "mutex_unlock True \<lparr>m_lock = 0, m_owner = tid\<rparr> = free_mutex"
  by (simp_all add: mutex_lock_def mutex_unlock_def xchng_def)

lemma mutex_lock_not_started [simp]:
  "mutex_lock False tid m = Some m" "mutex_unlock False m = m"
  by (simp_all add: mutex_lock_def mutex_unlock_def)

text \<open>
  The threads that use one mutex. A thread is outside, in the loop of
  \<open>mutex_lock\<close> (about to exchange, or yielding to the owner), past the exchange but
  not yet registered as the owner, in its critical section, or inside
  \<open>mutex_unlock\<close> after it has reset the owner.
\<close>

datatype mpc = Idle | Spin | Yielding | Locked | Critical | Disowned

record mutex_sys =
  sy_m :: mutex
  sy_pc :: "int \<Rightarrow> mpc"

inductive mutex_step :: "mutex_sys \<Rightarrow> mutex_sys \<Rightarrow> bool" where
  enter: "sy_pc s t = Idle \<Longrightarrow> mutex_step s (s\<lparr>sy_pc := (sy_pc s)(t := Spin)\<rparr>)"
| acquire: "sy_pc s t = Spin \<Longrightarrow> xchng (sy_m s) 0 = (old, m) \<Longrightarrow> old \<noteq> 0 \<Longrightarrow>
    mutex_step s (s\<lparr>sy_m := m, sy_pc := (sy_pc s)(t := Locked)\<rparr>)"
| refuse: "sy_pc s t = Spin \<Longrightarrow> xchng (sy_m s) 0 = (old, m) \<Longrightarrow> old = 0 \<Longrightarrow>
    mutex_step s (s\<lparr>sy_m := m, sy_pc := (sy_pc s)(t := Yielding)\<rparr>)"
| retry: "sy_pc s t = Yielding \<Longrightarrow> mutex_step s (s\<lparr>sy_pc := (sy_pc s)(t := Spin)\<rparr>)"
| own: "sy_pc s t = Locked \<Longrightarrow>
    mutex_step s (s\<lparr>sy_m := (sy_m s)\<lparr>m_owner := t\<rparr>, sy_pc := (sy_pc s)(t := Critical)\<rparr>)"
| disown: "sy_pc s t = Critical \<Longrightarrow>
    mutex_step s (s\<lparr>sy_m := (sy_m s)\<lparr>m_owner := -1\<rparr>, sy_pc := (sy_pc s)(t := Disowned)\<rparr>)"
| release: "sy_pc s t = Disowned \<Longrightarrow>
    mutex_step s (s\<lparr>sy_m := snd (xchng (sy_m s) 1), sy_pc := (sy_pc s)(t := Idle)\<rparr>)"

inductive_cases mutex_stepE: "mutex_step s s'"

definition mutex_start :: mutex_sys where
  "mutex_start = \<lparr>sy_m = free_mutex, sy_pc = (\<lambda>_. Idle)\<rparr>"

definition holder :: "mutex_sys \<Rightarrow> int \<Rightarrow> bool" where
  "holder s t \<longleftrightarrow> sy_pc s t \<in> {Locked, Critical, Disowned}"

text \<open>\<open>held_by s h\<close>: the thread \<open>h\<close>, if any, is the only one past the exchange.\<close>

definition held_by :: "mutex_sys \<Rightarrow> int option \<Rightarrow> bool" where
  "held_by s h \<longleftrightarrow> (m_lock (sy_m s) = 0 \<longleftrightarrow> h \<noteq> None) \<and> (\<forall>t. holder s t \<longleftrightarrow> h = Some t) \<and>
     (m_owner (sy_m s) \<noteq> -1 \<longrightarrow> sy_pc s (m_owner (sy_m s)) = Critical)"

lemma held_by_start: "held_by mutex_start None"
  by (simp add: held_by_def mutex_start_def holder_def)

lemma held_by_same:
  assumes "held_by s h" "m_lock (sy_m s') = m_lock (sy_m s)" "holder s' = holder s"
    and "m_owner (sy_m s') \<noteq> -1 \<longrightarrow> sy_pc s' (m_owner (sy_m s')) = Critical"
  shows "\<exists>h'. held_by s' h'"
  using assms by (auto simp: held_by_def)

lemma held_by_owner: "held_by s h \<Longrightarrow> m_owner (sy_m s) \<noteq> -1 \<longrightarrow> sy_pc s (m_owner (sy_m s)) = Critical"
  by (simp add: held_by_def)

lemma held_by_step:
  assumes "mutex_step s s'" "held_by s h"
  shows "\<exists>h'. held_by s' h'"
  using assms
proof (cases rule: mutex_step.cases)
  case (acquire t old m)
  then have "held_by s' (Some t)" using assms(2) by (auto simp: held_by_def holder_def xchng_def)
  then show ?thesis ..
next
  case (release t)
  then have "holder s t" by (simp add: holder_def)
  then have only: "holder s u \<longleftrightarrow> u = t" for u using assms(2) by (auto simp: held_by_def)
  have "\<not> holder s' u" for u using only [of u] release by (cases "u = t") (simp_all add: holder_def)
  moreover have "m_owner (sy_m s) = -1"
  proof (rule ccontr)
    assume "m_owner (sy_m s) \<noteq> -1"
    then have crit: "sy_pc s (m_owner (sy_m s)) = Critical" using assms(2) by (simp add: held_by_def)
    then have "holder s (m_owner (sy_m s))" by (simp add: holder_def)
    then have "m_owner (sy_m s) = t" by (simp only: only)
    with crit release(2) show False by simp
  qed
  ultimately have "held_by s' None" using release(1) by (simp add: held_by_def xchng_def)
  then show ?thesis ..
next
  case (own t)
  then show ?thesis using held_by_owner [OF assms(2)]
    by (intro held_by_same [OF assms(2)]) (auto simp: holder_def fun_eq_iff xchng_def)
next
  case (disown t)
  then show ?thesis using held_by_owner [OF assms(2)]
    by (intro held_by_same [OF assms(2)]) (auto simp: holder_def fun_eq_iff xchng_def)
next
  case (enter t)
  then show ?thesis using held_by_owner [OF assms(2)]
    by (intro held_by_same [OF assms(2)]) (auto simp: holder_def fun_eq_iff xchng_def)
next
  case (retry t)
  then show ?thesis using held_by_owner [OF assms(2)]
    by (intro held_by_same [OF assms(2)]) (auto simp: holder_def fun_eq_iff xchng_def)
next
  case (refuse t old m)
  then show ?thesis using held_by_owner [OF assms(2)]
    by (intro held_by_same [OF assms(2)]) (auto simp: holder_def fun_eq_iff xchng_def)
qed

interpretation mutex: step_invariant mutex_step "\<lambda>s. \<exists>h. held_by s h"
  by unfold_locales (use held_by_step in blast)

text \<open>The steps of one thread alone are the functions \<open>mutex_lock\<close> and \<open>mutex_unlock\<close>.\<close>

lemma mutex_lock_steps:
  assumes "sy_pc s t = Idle" "mutex_lock True t (sy_m s) = Some m"
  shows "mutex_step\<^sup>*\<^sup>* s (s\<lparr>sy_m := m, sy_pc := (sy_pc s)(t := Critical)\<rparr>)"
proof -
  let ?s1 = "s\<lparr>sy_pc := (sy_pc s)(t := Spin)\<rparr>"
  let ?s2 = "?s1\<lparr>sy_m := snd (xchng (sy_m s) 0), sy_pc := (sy_pc ?s1)(t := Locked)\<rparr>"
  have old: "m_lock (sy_m s) \<noteq> 0" "m = (snd (xchng (sy_m s) 0))\<lparr>m_owner := t\<rparr>"
    using assms(2) by (auto simp: mutex_lock_def xchng_def split: if_splits)
  have "mutex_step s ?s1" using assms(1) by (rule mutex_step.enter)
  moreover have "mutex_step ?s1 ?s2"
    by (rule mutex_step.acquire [where old = "m_lock (sy_m s)"]) (use old in \<open>simp_all add: xchng_def\<close>)
  moreover have "mutex_step ?s2 (?s2\<lparr>sy_m := (sy_m ?s2)\<lparr>m_owner := t\<rparr>, sy_pc := (sy_pc ?s2)(t := Critical)\<rparr>)"
    by (rule mutex_step.own) simp
  ultimately show ?thesis using old by (auto intro!: converse_rtranclp_into_rtranclp)
qed

lemma mutex_unlock_steps:
  assumes "sy_pc s t = Critical"
  shows "mutex_step\<^sup>*\<^sup>* s (s\<lparr>sy_m := mutex_unlock True (sy_m s), sy_pc := (sy_pc s)(t := Idle)\<rparr>)"
proof -
  let ?s1 = "s\<lparr>sy_m := (sy_m s)\<lparr>m_owner := -1\<rparr>, sy_pc := (sy_pc s)(t := Disowned)\<rparr>"
  have "mutex_step s ?s1" using assms by (rule mutex_step.disown)
  moreover have "mutex_step ?s1 (?s1\<lparr>sy_m := snd (xchng (sy_m ?s1) 1), sy_pc := (sy_pc ?s1)(t := Idle)\<rparr>)"
    by (rule mutex_step.release) simp
  ultimately show ?thesis by (auto simp: mutex_unlock_def intro!: converse_rtranclp_into_rtranclp)
qed

subsection \<open>The scheduler lock\<close>

text \<open>
  \<open>sched_mutex_t\<close> holds the address of its scheduler; \<open>started\<close> gives the field of
  the scheduler at an address, and the state is the interrupt flag of the processor.
\<close>

record sched_mutex =
  sm_sched :: ptr

definition sched_mutex_init :: "sched_mutex option \<Rightarrow> ptr \<Rightarrow> int \<times> sched_mutex option" where
  "sched_mutex_init mp sched = (case mp of
     None \<Rightarrow> (-1, None)
   | Some m \<Rightarrow> if sched = NULL then (-1, Some m) else (0, Some (m\<lparr>sm_sched := sched\<rparr>)))"

definition sched_mutex_lock :: "(ptr \<Rightarrow> bool) \<Rightarrow> sched_mutex option \<Rightarrow> bool \<Rightarrow> bool" where
  "sched_mutex_lock started mp interrupts = (case mp of
     None \<Rightarrow> interrupts
   | Some m \<Rightarrow> if sm_sched m = NULL then interrupts
               else if started (sm_sched m) then False else interrupts)"

definition sched_mutex_unlock :: "(ptr \<Rightarrow> bool) \<Rightarrow> sched_mutex option \<Rightarrow> bool \<Rightarrow> bool" where
  "sched_mutex_unlock started mp interrupts = (case mp of
     None \<Rightarrow> interrupts
   | Some m \<Rightarrow> if sm_sched m = NULL then interrupts
               else if started (sm_sched m) then True else interrupts)"

definition sched_mutex_destroy :: "sched_mutex \<Rightarrow> sched_mutex" where
  "sched_mutex_destroy m = m\<lparr>sm_sched := NULL\<rparr>"

subsection \<open>Properties of the mutex\<close>

text \<open>
  C10: Mutual exclusion, for any number of threads and any interleaving of the
  memory accesses of \<open>mutex_lock\<close> and \<open>mutex_unlock\<close>: two threads are never in
  the critical section together; while one is, the lock word is 0; and the owner
  that a waiting thread yields to is always the thread in the critical section.
\<close>

theorem mutex_mutual_exclusion:
  assumes "mutex_step\<^sup>*\<^sup>* mutex_start s"
  shows "(sy_pc s t = Critical \<and> sy_pc s u = Critical \<longrightarrow> t = u) \<and>
    (sy_pc s t = Critical \<longrightarrow> m_lock (sy_m s) = 0) \<and>
    (m_owner (sy_m s) \<noteq> -1 \<longrightarrow> sy_pc s (m_owner (sy_m s)) = Critical)"
proof -
  obtain h where "held_by s h" using mutex.reachable [OF assms] held_by_start by blast
  moreover have "sy_pc s v = Critical \<Longrightarrow> holder s v" for v by (simp add: holder_def)
  ultimately show ?thesis by (auto simp: held_by_def)
qed

theorem mutex_mutual_exclusion_witness:
  "\<exists>s. mutex_step\<^sup>*\<^sup>* mutex_start s \<and> sy_pc s 7 = Critical \<and>
    (\<forall>u. sy_pc s 7 = Critical \<and> sy_pc s u = Critical \<longrightarrow> 7 = u)"
proof -
  let ?s = "mutex_start\<lparr>sy_m := \<lparr>m_lock = 0, m_owner = 7\<rparr>, sy_pc := (sy_pc mutex_start)(7 := Critical)\<rparr>"
  have r: "mutex_step\<^sup>*\<^sup>* mutex_start ?s"
    by (rule mutex_lock_steps) (simp_all add: mutex_start_def)
  have "sy_pc ?s 7 = Critical" by simp
  moreover have "\<forall>u. sy_pc ?s 7 = Critical \<and> sy_pc ?s u = Critical \<longrightarrow> 7 = u"
    using mutex_mutual_exclusion [OF r] by (intro allI) (rule conjunct1)
  ultimately show ?thesis by (intro exI [of _ ?s] conjI r)
qed

text \<open>
  The atomic functions that the other components call agree with the
  interleaved steps: a thread for which \<open>mutex_lock\<close> returns can reach its
  critical section by its own steps, leaving exactly the mutex that
  \<open>mutex_lock\<close> computes, and \<open>mutex_unlock\<close> takes it out again.
\<close>

theorem mutex_functions_are_steps:
  assumes "sy_pc s t = Idle" "mutex_lock True t (sy_m s) = Some m"
  shows "mutex_step\<^sup>*\<^sup>* s (s\<lparr>sy_m := m, sy_pc := (sy_pc s)(t := Critical)\<rparr>) \<and>
    mutex_step\<^sup>*\<^sup>* (s\<lparr>sy_m := m, sy_pc := (sy_pc s)(t := Critical)\<rparr>)
      (s\<lparr>sy_m := mutex_unlock True m, sy_pc := (sy_pc s)(t := Idle)\<rparr>)"
  using mutex_lock_steps [OF assms]
    mutex_unlock_steps [of "s\<lparr>sy_m := m, sy_pc := (sy_pc s)(t := Critical)\<rparr>" t] by simp

theorem mutex_functions_are_steps_witness:
  "mutex_step\<^sup>*\<^sup>* mutex_start
    (mutex_start\<lparr>sy_m := \<lparr>m_lock = 0, m_owner = 3\<rparr>, sy_pc := (sy_pc mutex_start)(3 := Critical)\<rparr>)"
  by (rule mutex_functions_are_steps [THEN conjunct1]) (simp_all add: mutex_start_def)

end
