(* ===== verification/SemRwlock.thy ===== *)
theory SemRwlock
  imports Locks
begin

text \<open>
  \<open>kern/locks/sem.c\<close> and \<open>kern/locks/rwlock.c\<close>. The queue of a semaphore is the
  sequence of the threads whose \<open>thr_metadata_t\<close> it holds (\<open>QueueStack\<close> shows that
  \<open>queue_t\<close> is such a sequence). A condition variable is the sequence of the
  threads that wait on it.
\<close>

subsection \<open>Semaphores\<close>

record sem =
  s_count :: int
  s_m :: mutex
  s_q :: "int list"

text \<open>\<open>mem\<close>: whether the allocation inside \<open>queue_init\<close> succeeds.\<close>

definition sem_init :: "bool \<Rightarrow> sem option \<Rightarrow> int \<Rightarrow> int \<times> sem option" where
  "sem_init mem sem count = (case sem of
     None \<Rightarrow> (-1, None)
   | Some s \<Rightarrow>
       if count < 0 then (-1, Some s)
       else let s = s\<lparr>s_count := count\<rparr> in
       if \<not> mem then (-1, Some s)
       else let s = s\<lparr>s_q := []\<rparr> in
       case mutex_init (Some (s_m s)) of
         (r, Some m) \<Rightarrow> if r < 0 then (-1, Some s) else (0, Some (s\<lparr>s_m := m\<rparr>))
       | (_, None) \<Rightarrow> (-1, Some s))"

text \<open>
  \<open>sem_wait\<close> up to the point at which the thread holds a resource (answer
  \<open>False\<close>) or starts to deschedule itself until its \<open>reject\<close> flag is set (answer
  \<open>True\<close>). \<open>mem\<close> says whether \<open>queue_enq\<close> finds memory for its node; its return code
  is ignored by the source.
\<close>

definition sem_wait :: "bool \<Rightarrow> bool \<Rightarrow> int \<Rightarrow> sem option \<Rightarrow> (bool \<times> sem option) option" where
  "sem_wait started mem tid sem = (case sem of
     None \<Rightarrow> Some (False, None)
   | Some s \<Rightarrow> do {
       m \<leftarrow> mutex_lock started tid (s_m s);
       let s = s\<lparr>s_m := m, s_count := s_count s - 1\<rparr>;
       if s_count s < 0 then do {
         let s = (if mem then s\<lparr>s_q := s_q s @ [tid]\<rparr> else s);
         Some (True, Some (s\<lparr>s_m := mutex_unlock started (s_m s)\<rparr>))
       } else Some (False, Some (s\<lparr>s_m := mutex_unlock started (s_m s)\<rparr>))
     })"

text \<open>The answer is the thread whose \<open>reject\<close> flag is set and that is made runnable, if any.\<close>

definition sem_signal :: "bool \<Rightarrow> int \<Rightarrow> sem option \<Rightarrow> (int option \<times> sem option) option" where
  "sem_signal started tid sem = (case sem of
     None \<Rightarrow> Some (None, None)
   | Some s \<Rightarrow> do {
       m \<leftarrow> mutex_lock started tid (s_m s);
       let s = s\<lparr>s_m := m, s_count := s_count s + 1\<rparr>;
       let (w, s) = (if s_count s \<le> 0 then
                       (case s_q s of
                          [] \<Rightarrow> (None, s)
                        | t # q \<Rightarrow> (Some t, s\<lparr>s_q := q\<rparr>))
                     else (None, s));
       Some (w, Some (s\<lparr>s_m := mutex_unlock started (s_m s)\<rparr>))
     })"

definition sem_destroy :: "bool \<Rightarrow> int \<Rightarrow> sem option \<Rightarrow> sem option option" where
  "sem_destroy started tid sem = (case sem of
     None \<Rightarrow> Some None
   | Some s \<Rightarrow> do {
       m \<leftarrow> mutex_lock started tid (s_m s);
       let s = s\<lparr>s_m := m, s_q := [], s_count := -1\<rparr>;
       let s = s\<lparr>s_m := mutex_unlock started (s_m s)\<rparr>;
       Some (Some (s\<lparr>s_m := mutex_destroy (s_m s)\<rparr>))
     })"

definition sem_get_value :: "bool \<Rightarrow> int \<Rightarrow> sem option \<Rightarrow> bool \<Rightarrow> (int \<times> int option \<times> sem option) option" where
  "sem_get_value started tid sem sval = (case sem of
     None \<Rightarrow> Some (-1, None, None)
   | Some s \<Rightarrow>
       if \<not> sval then Some (-1, None, Some s)
       else do {
         m \<leftarrow> mutex_lock started tid (s_m s);
         Some (0, Some (s_count s), Some (s\<lparr>s_m := mutex_unlock started m\<rparr>))
       })"

text \<open>
  The threads around one semaphore: how many waits have been granted and how many
  signals sent is counted beside the struct. A wait whose enqueueing fails for lack
  of memory is excluded here and treated below.
\<close>

datatype sthread = Outside | Asleep | Inside

record sem_sys =
  ss_sem :: sem
  ss_st :: "int \<Rightarrow> sthread"
  ss_granted :: nat
  ss_signals :: nat

inductive sem_step :: "sem_sys \<Rightarrow> sem_sys \<Rightarrow> bool" where
  wait_ok: "ss_st s t = Outside \<Longrightarrow> sem_wait True True t (Some (ss_sem s)) = Some (False, Some x) \<Longrightarrow>
    sem_step s (s\<lparr>ss_sem := x, ss_st := (ss_st s)(t := Inside), ss_granted := Suc (ss_granted s)\<rparr>)"
| wait_block: "ss_st s t = Outside \<Longrightarrow> sem_wait True True t (Some (ss_sem s)) = Some (True, Some x) \<Longrightarrow>
    sem_step s (s\<lparr>ss_sem := x, ss_st := (ss_st s)(t := Asleep)\<rparr>)"
| signal_none: "sem_signal True t (Some (ss_sem s)) = Some (None, Some x) \<Longrightarrow>
    sem_step s (s\<lparr>ss_sem := x, ss_signals := Suc (ss_signals s)\<rparr>)"
| signal_wake: "sem_signal True t (Some (ss_sem s)) = Some (Some u, Some x) \<Longrightarrow>
    sem_step s (s\<lparr>ss_sem := x, ss_st := (ss_st s)(u := Inside), ss_granted := Suc (ss_granted s),
      ss_signals := Suc (ss_signals s)\<rparr>)"
| leave: "ss_st s t = Inside \<Longrightarrow> sem_step s (s\<lparr>ss_st := (ss_st s)(t := Outside)\<rparr>)"

definition sem_start :: "int \<Rightarrow> sem_sys" where
  "sem_start n = \<lparr>ss_sem = \<lparr>s_count = n, s_m = free_mutex, s_q = []\<rparr>, ss_st = (\<lambda>_. Outside),
     ss_granted = 0, ss_signals = 0\<rparr>"

definition sem_inv :: "int \<Rightarrow> sem_sys \<Rightarrow> bool" where
  "sem_inv n s \<longleftrightarrow> s_m (ss_sem s) = free_mutex \<and> distinct (s_q (ss_sem s)) \<and>
     (\<forall>t. t \<in> set (s_q (ss_sem s)) \<longleftrightarrow> ss_st s t = Asleep) \<and>
     int (length (s_q (ss_sem s))) = max 0 (- s_count (ss_sem s)) \<and>
     int (ss_granted s) = n + int (ss_signals s) - max 0 (s_count (ss_sem s))"

lemma sem_init_start: "0 \<le> n \<Longrightarrow> sem_init True (Some s0) n = (0, Some s) \<Longrightarrow>
    s = ss_sem (sem_start n)"
  by (auto simp: sem_init_def mutex_init_def sem_start_def)

lemma sem_wait_cases:
  assumes "s_m x = free_mutex" "sem_wait True mem t (Some x) = Some (b, Some y)"
  shows "s_m y = free_mutex \<and> s_count y = s_count x - 1 \<and> (b \<longleftrightarrow> s_count x \<le> 0) \<and>
    s_q y = (if b \<and> mem then s_q x @ [t] else s_q x)"
  using assms by (auto simp: sem_wait_def Let_def split: if_splits)

lemma sem_signal_cases:
  assumes "s_m x = free_mutex" "sem_signal True t (Some x) = Some (w, Some y)"
  shows "s_m y = free_mutex \<and> s_count y = s_count x + 1 \<and>
    (case w of None \<Rightarrow> s_q y = s_q x \<and> (0 \<le> s_count x \<or> s_q x = [])
     | Some u \<Rightarrow> s_count x < 0 \<and> s_q x = u # s_q y)"
  using assms by (auto simp: sem_signal_def Let_def split: if_splits list.splits)

lemma sem_inv_step:
  assumes "sem_step s s'" "sem_inv n s"
  shows "sem_inv n s'"
  using assms(1)
proof cases
  case (wait_ok t x)
  then show ?thesis using sem_wait_cases [OF _ wait_ok(3)] assms(2) by (auto simp: sem_inv_def)
next
  case (wait_block t x)
  then show ?thesis using sem_wait_cases [OF _ wait_block(3)] assms(2) by (auto simp: sem_inv_def)
next
  case (signal_none t x)
  then show ?thesis using sem_signal_cases [OF _ signal_none(2)] assms(2) by (auto simp: sem_inv_def)
next
  case (signal_wake t u x)
  then show ?thesis using sem_signal_cases [OF _ signal_wake(2)] assms(2) by (auto simp: sem_inv_def)
next
  case (leave t)
  then show ?thesis using assms(2) by (auto simp: sem_inv_def)
qed

interpretation sem: step_invariant sem_step "sem_inv n" for n
  by unfold_locales (rule sem_inv_step)

lemma sem_inv_start: "0 \<le> n \<Longrightarrow> sem_inv n (sem_start n)"
  by (simp add: sem_start_def sem_inv_def)

subsection \<open>Readers/writers locks\<close>

text \<open>
  \<open>cond_wait\<close>, \<open>cond_signal\<close> and \<open>cond_broadcast\<close> are not part of \<open>kern\<close>; the file
  uses them with their usual meaning, which is written out here: a waiting thread
  releases the mutex and is runnable again once it has been signalled.
\<close>

record rwlock =
  rw_m :: mutex
  rw_cv :: "int list"
  rw_count :: int
  rw_writer_locked :: bool

datatype rwlock_type = RWLOCK_READ | RWLOCK_WRITE

definition rwlock_init :: "rwlock option \<Rightarrow> int \<times> rwlock option" where
  "rwlock_init rwlock = (case rwlock of
     None \<Rightarrow> (-1, None)
   | Some l \<Rightarrow> (case mutex_init (Some (rw_m l)) of
       (r, Some m) \<Rightarrow> if r < 0 then (-1, Some l)
         else (0, Some (l\<lparr>rw_m := m, rw_cv := [], rw_count := 0, rw_writer_locked := False\<rparr>))
     | (_, None) \<Rightarrow> (-1, Some l)))"

text \<open>
  One pass of \<open>rwlock_lock\<close> under the mutex: the thread enters (answer \<open>True\<close>) or
  waits on the condition variable (answer \<open>False\<close>) and repeats the pass when woken.
\<close>

definition rwlock_lock :: "bool \<Rightarrow> int \<Rightarrow> rwlock option \<Rightarrow> rwlock_type \<Rightarrow> (bool \<times> rwlock option) option" where
  "rwlock_lock started tid rwlock type = (case rwlock of
     None \<Rightarrow> Some (True, None)
   | Some l \<Rightarrow> do {
       m \<leftarrow> mutex_lock started tid (rw_m l);
       let l = l\<lparr>rw_m := m\<rparr>;
       c_assert (\<not> rw_count l < 0);
       let (entered, l) = (case type of
           RWLOCK_READ \<Rightarrow>
             if rw_writer_locked l then (False, l\<lparr>rw_cv := rw_cv l @ [tid]\<rparr>)
             else (True, l\<lparr>rw_count := rw_count l + 1\<rparr>)
         | RWLOCK_WRITE \<Rightarrow>
             if rw_writer_locked l \<or> rw_count l > 0 then (False, l\<lparr>rw_cv := rw_cv l @ [tid]\<rparr>)
             else (True, l\<lparr>rw_writer_locked := True\<rparr>));
       Some (entered, Some (l\<lparr>rw_m := mutex_unlock started (rw_m l)\<rparr>))
     })"

text \<open>The answer lists the threads that the call wakes.\<close>

definition rwlock_unlock :: "bool \<Rightarrow> int \<Rightarrow> rwlock option \<Rightarrow> (int list \<times> rwlock option) option" where
  "rwlock_unlock started tid rwlock = (case rwlock of
     None \<Rightarrow> Some ([], None)
   | Some l \<Rightarrow> do {
       m \<leftarrow> mutex_lock started tid (rw_m l);
       let l = l\<lparr>rw_m := m\<rparr>;
       c_assert (\<not> (rw_count l \<le> 0 \<and> \<not> rw_writer_locked l));
       let (woken, l) =
         (if rw_writer_locked l then (rw_cv l, l\<lparr>rw_writer_locked := False, rw_cv := []\<rparr>)
          else let l = l\<lparr>rw_count := rw_count l - 1\<rparr> in
               if rw_count l = 0 then (take 1 (rw_cv l), l\<lparr>rw_cv := drop 1 (rw_cv l)\<rparr>) else ([], l));
       Some (woken, Some (l\<lparr>rw_m := mutex_unlock started (rw_m l)\<rparr>))
     })"

definition rwlock_destroy :: "bool \<Rightarrow> int \<Rightarrow> rwlock option \<Rightarrow> rwlock option option" where
  "rwlock_destroy started tid rwlock = (case rwlock of
     None \<Rightarrow> Some None
   | Some l \<Rightarrow> do {
       m \<leftarrow> mutex_lock started tid (rw_m l);
       let l = l\<lparr>rw_m := mutex_unlock started m, rw_count := -1, rw_cv := []\<rparr>;
       Some (Some (l\<lparr>rw_m := mutex_destroy (rw_m l)\<rparr>))
     })"

definition rwlock_downgrade :: "bool \<Rightarrow> int \<Rightarrow> rwlock option \<Rightarrow> (int list \<times> rwlock option) option" where
  "rwlock_downgrade started tid rwlock = (case rwlock of
     None \<Rightarrow> Some ([], None)
   | Some l \<Rightarrow> do {
       m \<leftarrow> mutex_lock started tid (rw_m l);
       let l = l\<lparr>rw_m := m\<rparr>;
       c_assert (rw_writer_locked l);
       let woken = rw_cv l;
       let l = l\<lparr>rw_writer_locked := False, rw_count := rw_count l + 1, rw_cv := []\<rparr>;
       Some (woken, Some (l\<lparr>rw_m := mutex_unlock started (rw_m l)\<rparr>))
     })"

text \<open>
  The threads around one lock, by what they hold. A thread may only unlock or
  downgrade what it holds; a refused thread may try again at any time.
\<close>

datatype rwheld = Nothing | Reading | Writing

record rw_sys =
  rs_lock :: rwlock
  rs_held :: "int \<Rightarrow> rwheld"

inductive rw_step :: "rw_sys \<Rightarrow> rw_sys \<Rightarrow> bool" where
  do_read: "rs_held s t = Nothing \<Longrightarrow> rwlock_lock True t (Some (rs_lock s)) RWLOCK_READ = Some (e, Some l) \<Longrightarrow>
    rw_step s \<lparr>rs_lock = l, rs_held = (if e then (rs_held s)(t := Reading) else rs_held s)\<rparr>"
| do_write: "rs_held s t = Nothing \<Longrightarrow> rwlock_lock True t (Some (rs_lock s)) RWLOCK_WRITE = Some (e, Some l) \<Longrightarrow>
    rw_step s \<lparr>rs_lock = l, rs_held = (if e then (rs_held s)(t := Writing) else rs_held s)\<rparr>"
| do_unlock: "rs_held s t \<noteq> Nothing \<Longrightarrow> rwlock_unlock True t (Some (rs_lock s)) = Some (w, Some l) \<Longrightarrow>
    rw_step s \<lparr>rs_lock = l, rs_held = (rs_held s)(t := Nothing)\<rparr>"
| do_downgrade: "rs_held s t = Writing \<Longrightarrow> rwlock_downgrade True t (Some (rs_lock s)) = Some (w, Some l) \<Longrightarrow>
    rw_step s \<lparr>rs_lock = l, rs_held = (rs_held s)(t := Reading)\<rparr>"

definition rw_start :: rw_sys where
  "rw_start = \<lparr>rs_lock = \<lparr>rw_m = free_mutex, rw_cv = [], rw_count = 0, rw_writer_locked = False\<rparr>,
     rs_held = (\<lambda>_. Nothing)\<rparr>"

definition readers :: "rw_sys \<Rightarrow> int set" where
  "readers s = {t. rs_held s t = Reading}"

definition rw_inv :: "rw_sys \<Rightarrow> bool" where
  "rw_inv s \<longleftrightarrow> rw_m (rs_lock s) = free_mutex \<and> finite (readers s) \<and>
     rw_count (rs_lock s) = int (card (readers s)) \<and>
     (if rw_writer_locked (rs_lock s) then \<exists>t. rs_held s t = Writing \<and> (\<forall>u. u \<noteq> t \<longrightarrow> rs_held s u = Nothing)
      else \<forall>t. rs_held s t \<noteq> Writing)"

lemma readers_upd:
  "readers \<lparr>rs_lock = l, rs_held = (rs_held s)(t := h)\<rparr> =
     (if h = Reading then insert t (readers s) else readers s - {t})"
  by (auto simp: readers_def)

lemma readers_same: "readers \<lparr>rs_lock = l, rs_held = rs_held s\<rparr> = readers s"
  by (simp add: readers_def)

lemma rw_inv_step:
  assumes "rw_step s s'" "rw_inv s"
  shows "rw_inv s'"
  using assms(1)
proof cases
  case (do_read t e l)
  have "t \<notin> readers s" using do_read(2) by (simp add: readers_def)
  then show ?thesis using do_read assms(2)
    by (auto simp: rw_inv_def rwlock_lock_def Let_def readers_upd readers_same split: if_splits)
next
  case (do_write t e l)
  have "readers s = {} \<Longrightarrow> rs_held s u = Nothing \<or> rs_held s u = Writing" for u
    by (cases "rs_held s u") (auto simp: readers_def)
  moreover have "t \<notin> readers s" using do_write(2) by (simp add: readers_def)
  ultimately show ?thesis using do_write assms(2)
    by (auto simp: rw_inv_def rwlock_lock_def Let_def readers_upd readers_same split: if_splits)
next
  case (do_unlock t w l)
  show ?thesis
  proof (cases "rw_writer_locked (rs_lock s)")
    case True
    then obtain u where u: "rs_held s u = Writing" "\<And>v. v \<noteq> u \<Longrightarrow> rs_held s v = Nothing"
      using assms(2) by (auto simp: rw_inv_def)
    then have "u = t" using do_unlock(2) by metis
    then have "readers s = {}" "readers s' = {}" "\<forall>v. rs_held s' v \<noteq> Writing"
      using u do_unlock(1) by (auto simp: readers_def) (metis rwheld.distinct)+
    then show ?thesis using True do_unlock assms(2) by (auto simp: rw_inv_def rwlock_unlock_def Let_def)
  next
    case False
    then have t: "t \<in> readers s" "rw_count (rs_lock s) = int (card (readers s))" "finite (readers s)"
      using assms(2) do_unlock(2) by (cases "rs_held s t"; auto simp: rw_inv_def readers_def)+
    then have "readers s' = readers s - {t}" "0 < card (readers s)" "readers s \<noteq> {}"
      using do_unlock(1) readers_upd [of l s t Nothing] by (auto simp: card_gt_0_iff)
    then show ?thesis using False do_unlock assms(2) t
      by (auto simp: rw_inv_def rwlock_unlock_def Let_def split: if_splits)
  qed
next
  case (do_downgrade t w l)
  then have wl: "rw_writer_locked (rs_lock s)" using assms(2) by (auto simp: rw_inv_def split: if_splits)
  then obtain u where u: "rs_held s u = Writing" "\<And>v. v \<noteq> u \<Longrightarrow> rs_held s v = Nothing"
    using assms(2) by (auto simp: rw_inv_def)
  then have "u = t" using do_downgrade(2) by (metis rwheld.distinct)
  then have "readers s = {}" "readers s' = {t}" "\<forall>v. rs_held s' v \<noteq> Writing"
    using u do_downgrade(1) by (auto simp: readers_def) (metis rwheld.distinct)+
  then show ?thesis using wl do_downgrade assms(2) by (auto simp: rw_inv_def rwlock_downgrade_def Let_def)
qed

interpretation rwl: step_invariant rw_step rw_inv
  by unfold_locales (rule rw_inv_step)

lemma rw_inv_start: "rw_inv rw_start"
  by (simp add: rw_start_def rw_inv_def readers_def)

subsection \<open>Properties\<close>



text \<open>
  A lost wake-up. \<open>sem_wait\<close> ignores the return code of \<open>queue_enq\<close>. If the
  queue finds no memory for its node, the thread goes to sleep without being
  registered, and the \<open>sem_signal\<close> that should wake it wakes nobody, although it
  sees that a thread is waiting.
\<close>

theorem sem_wait_lost_wakeup:
  assumes "s_m x = free_mutex" "s_count x \<le> 0" "s_q x = []"
  shows "\<exists>y z. sem_wait True False t (Some x) = Some (True, Some y) \<and> s_count y < 0 \<and>
    sem_signal True u (Some y) = Some (None, Some z)"
  using assms by (auto simp: sem_wait_def sem_signal_def Let_def)

theorem sem_wait_lost_wakeup_witness:
  "\<exists>y z. sem_wait True False 5 (Some \<lparr>s_count = 0, s_m = free_mutex, s_q = []\<rparr>) = Some (True, Some y) \<and>
    s_count y < 0 \<and> sem_signal True 6 (Some y) = Some (None, Some z)"
  using sem_wait_lost_wakeup [of "\<lparr>s_count = 0, s_m = free_mutex, s_q = []\<rparr>" 5 6] by simp

text \<open>
  The readers/writers lock: in every reachable state the count is the number
  of threads that read, a writer excludes every reader and every other writer, and
  no thread that unlocks or downgrades what it holds runs into a panic.
\<close>

theorem rwlock_exclusion:
  assumes "rw_step\<^sup>*\<^sup>* rw_start s"
  shows "rw_count (rs_lock s) = int (card (readers s)) \<and>
    (rs_held s t = Writing \<and> u \<noteq> t \<longrightarrow> rs_held s u = Nothing) \<and>
    (rs_held s t \<noteq> Nothing \<longrightarrow> (\<exists>w l. rwlock_unlock True t (Some (rs_lock s)) = Some (w, Some l)))"
proof -
  have inv: "rw_inv s" using rwl.reachable [OF assms rw_inv_start] .
  have "rs_held s t = Writing \<Longrightarrow> u \<noteq> t \<Longrightarrow> rs_held s u = Nothing"
    using inv by (auto simp: rw_inv_def split: if_splits) (metis rwheld.distinct(3))
  moreover have "\<exists>w l. rwlock_unlock True t (Some (rs_lock s)) = Some (w, Some l)" if "rs_held s t \<noteq> Nothing"
  proof (cases "rw_writer_locked (rs_lock s)")
    case False
    with inv that have "t \<in> readers s" "finite (readers s)" by (cases "rs_held s t"; auto simp: rw_inv_def readers_def)+
    then have "readers s \<noteq> {}" by blast
    with False inv show ?thesis by (simp add: rw_inv_def rwlock_unlock_def Let_def)
  qed (use inv in \<open>simp add: rw_inv_def rwlock_unlock_def Let_def\<close>)
  ultimately show ?thesis using inv by (auto simp: rw_inv_def)
qed

theorem rwlock_exclusion_witness:
  "\<exists>s. rw_step\<^sup>*\<^sup>* rw_start s \<and> rs_held s 3 = Writing \<and> rs_held s 4 = Nothing"
proof -
  let ?l = "\<lparr>rw_m = free_mutex, rw_cv = [], rw_count = 0, rw_writer_locked = True\<rparr>"
  let ?s = "\<lparr>rs_lock = ?l, rs_held = (if True then (rs_held rw_start)(3 := Writing) else rs_held rw_start)\<rparr>"
  have "rw_step rw_start ?s"
    by (rule rw_step.do_write) (simp_all add: rw_start_def rwlock_lock_def Let_def)
  then have r: "rw_step\<^sup>*\<^sup>* rw_start ?s" by blast
  show ?thesis using rwlock_exclusion [OF r, of 3 4] r by (intro exI [of _ ?s]) simp
qed

text \<open>
  The lock does not give priority to writers, as its header claims: while a
  writer waits for the readers to leave, another reader is let in.
\<close>

theorem rwlock_reader_overtakes_writer:
  assumes "rw_m l = free_mutex" "0 < rw_count l" "\<not> rw_writer_locked l"
  shows "\<exists>l1 l2. rwlock_lock True w (Some l) RWLOCK_WRITE = Some (False, Some l1) \<and> w \<in> set (rw_cv l1) \<and>
    rwlock_lock True r (Some l1) RWLOCK_READ = Some (True, Some l2) \<and> w \<in> set (rw_cv l2)"
  using assms by (simp add: rwlock_lock_def Let_def)

theorem rwlock_reader_overtakes_writer_witness:
  "\<exists>l1 l2. rwlock_lock True 8 (Some \<lparr>rw_m = free_mutex, rw_cv = [], rw_count = 1, rw_writer_locked = False\<rparr>) RWLOCK_WRITE =
      Some (False, Some l1) \<and> 8 \<in> set (rw_cv l1) \<and>
    rwlock_lock True 9 (Some l1) RWLOCK_READ = Some (True, Some l2) \<and> 8 \<in> set (rw_cv l2)"
  by (rule rwlock_reader_overtakes_writer) simp_all

end
