(* ===== verification/PageDirectory.thy ===== *)
theory PageDirectory
  imports Prelude
begin

unbundle bit_operations_syntax

text \<open>
  \<open>kern/virtual_mem_mgmt/page_directory.c\<close>. The memory holds the page tables, which
  page directories share in the kernel's part of the address space, and the contents
  of the physical pages. A directory is owned by one \<open>page_directory_t\<close> and is a
  field of its record; so are its two lists, by \<open>LinkedListCorrect\<close> the sequences of
  their elements. Reading a page table that is not allocated is an error (\<open>None\<close>).

  \<open>ums\<close> is \<open>USER_MEM_START\<close> of the kernel's configuration. The pointer arguments that
  the code checks against NULL are options; \<open>mapping_tasks\<close>, which \<open>pd_begin_mapping\<close>
  also checks, is never NULL after \<open>pd_init\<close>.
\<close>

type_synonym page_data = "8 word list"

record mapping_task =
  t_v_addr :: u32
  t_pte :: u32
  t_resource :: ptr

record pd_frame_metadata =
  md_p_addr :: u32
  md_num_pages :: u32

record page_directory =
  directory :: "u32 list"
  num_pages :: u32
  p_addr_list :: "pd_frame_metadata list"
  mapping_tasks :: "mapping_task list"
  batch_enabled :: bool

record vmem =
  pts :: "ptr \<rightharpoonup> u32 list"
  phys :: "u32 \<Rightarrow> page_data"
  vm_mcalls :: nat

record kernel_pages =
  kernel_pde :: "u32 list"
  is_kernel_initialized :: bool

subsection \<open>Entries\<close>

definition PAGE_SHIFT :: nat where "PAGE_SHIFT = 12"

definition NTH_BIT :: "u32 \<Rightarrow> nat \<Rightarrow> u32" where
  "NTH_BIT v n = drop_bit n v AND 1"

definition ADD_FLAGS :: "u32 \<Rightarrow> u32 \<Rightarrow> u32" where
  "ADD_FLAGS v f = v OR f"

definition REMOVE_FLAGS :: "u32 \<Rightarrow> u32" where
  "REMOVE_FLAGS v = v AND NOT 0xFFF"

definition EXTRACT_FLAGS :: "u32 \<Rightarrow> u32" where
  "EXTRACT_FLAGS v = v AND 0xFFF"

definition IS_PAGE_ALIGNED :: "u32 \<Rightarrow> bool" where
  "IS_PAGE_ALIGNED a \<longleftrightarrow> a mod 4096 = 0"

definition NEW_FLAGS :: "u32 \<Rightarrow> u32 \<Rightarrow> u32 \<Rightarrow> u32 \<Rightarrow> u32" where
  "NEW_FLAGS p rw md glb = push_bit 0 p OR push_bit 1 rw OR push_bit 2 md OR push_bit 8 glb"

definition entry_present :: "u32 \<Rightarrow> bool" where
  "entry_present v \<longleftrightarrow> NTH_BIT v 0 \<noteq> 0"

definition entry_permissions :: "u32 \<Rightarrow> u32 \<times> u32" where
  "entry_permissions v = (NTH_BIT v 2, NTH_BIT v 1)"

definition get_page_address :: "u32 \<Rightarrow> u32 \<Rightarrow> u32" where
  "get_page_address pd_i pt_i = push_bit 22 pd_i OR push_bit 12 pt_i"

text \<open>The indices that every function computes from a virtual address.\<close>

definition pde_i :: "u32 \<Rightarrow> nat" where
  "pde_i v_addr = unat (drop_bit (12 + 10) v_addr AND 0x3FF)"

definition pte_i :: "u32 \<Rightarrow> nat" where
  "pte_i v_addr = unat (drop_bit 12 v_addr AND 0x3FF)"

definition NUM_KERNEL_PTE :: "u32 \<Rightarrow> nat" where
  "NUM_KERNEL_PTE ums = unat (drop_bit PAGE_SHIFT ums)"

definition NUM_KERNEL_PDE :: "u32 \<Rightarrow> nat" where
  "NUM_KERNEL_PDE ums = NUM_KERNEL_PTE ums div 1024"

subsection \<open>Memory accesses\<close>

definition arr_get :: "'a list \<Rightarrow> nat \<Rightarrow> 'a option" where
  "arr_get xs i = (if i < length xs then Some (xs ! i) else None)"

definition arr_set :: "'a list \<Rightarrow> nat \<Rightarrow> 'a \<Rightarrow> 'a list option" where
  "arr_set xs i v = (if i < length xs then Some (xs[i := v]) else None)"

text \<open>\<open>pt[i]\<close> and \<open>pt[i] = v\<close> for a page table at address \<open>pt\<close>.\<close>

definition pt_get :: "ptr \<Rightarrow> nat \<Rightarrow> vmem \<Rightarrow> u32 option" where
  "pt_get pt i m = do { t \<leftarrow> pts m pt; arr_get t i }"

definition pt_set :: "ptr \<Rightarrow> nat \<Rightarrow> u32 \<Rightarrow> vmem \<Rightarrow> vmem option" where
  "pt_set pt i v m = do { t \<leftarrow> pts m pt; t \<leftarrow> arr_set t i v; Some (m\<lparr>pts := (pts m)(pt \<mapsto> t)\<rparr>) }"

text \<open>\<open>memalign(PAGE_SIZE, PT_SIZE)\<close> followed by \<open>memset(..., 0, PAGE_SIZE)\<close> when it succeeds.\<close>

definition new_page_table :: "allocator \<Rightarrow> vmem \<Rightarrow> ptr \<times> vmem" where
  "new_page_table al m =
     (let p = al (vm_mcalls m) (\<lambda>q. pts m q \<noteq> None); m = m\<lparr>vm_mcalls := Suc (vm_mcalls m)\<rparr>
      in if p = NULL then (NULL, m) else (p, m\<lparr>pts := (pts m)(p \<mapsto> replicate 1024 0)\<rparr>))"

definition free_page_table :: "ptr \<Rightarrow> vmem \<Rightarrow> vmem" where
  "free_page_table p m = (if p = NULL then m else m\<lparr>pts := (pts m)(p := None)\<rparr>)"

text \<open>A \<open>malloc\<close> of an object whose address does not matter, and whether it succeeds.\<close>

definition malloc_obj :: "allocator \<Rightarrow> vmem \<Rightarrow> bool \<times> vmem" where
  "malloc_obj al m = (al (vm_mcalls m) (\<lambda>_. False) \<noteq> NULL, m\<lparr>vm_mcalls := Suc (vm_mcalls m)\<rparr>)"

subsection \<open>Lookup\<close>

definition pd_get_mapping :: "page_directory option \<Rightarrow> u32 \<Rightarrow> vmem \<Rightarrow> (int \<times> u32 option) option" where
  "pd_get_mapping pd v_addr m = (case pd of None \<Rightarrow> Some (-1, None) | Some pd \<Rightarrow> do {
     pde \<leftarrow> arr_get (directory pd) (pde_i v_addr);
     if \<not> entry_present pde then Some (-2, None)
     else do {
       pte \<leftarrow> pt_get (REMOVE_FLAGS pde) (pte_i v_addr) m;
       if \<not> entry_present pte then Some (-3, None) else Some (0, Some pte)
     }
   })"

definition pd_get_permissions :: "page_directory option \<Rightarrow> u32 \<Rightarrow> vmem \<Rightarrow> (int \<times> (u32 \<times> u32) option) option" where
  "pd_get_permissions pd v_addr m = (case pd of None \<Rightarrow> Some (-1, None) | Some pd \<Rightarrow> do {
     pde \<leftarrow> arr_get (directory pd) (pde_i v_addr);
     if \<not> entry_present pde then Some (-2, None)
     else do {
       pte \<leftarrow> pt_get (REMOVE_FLAGS pde) (pte_i v_addr) m;
       if \<not> entry_present pte then Some (-3, None)
       else let (pd_priv, pd_access) = entry_permissions pde;
                (pt_priv, pt_access) = entry_permissions pte;
                combined_priv = (if pd_priv \<noteq> 0 \<and> pt_priv \<noteq> 0 then 1 else 0);
                combined_access = (if combined_priv \<noteq> 0 then (if pd_access \<noteq> 0 \<and> pt_access \<noteq> 0 then 1 else 0) else 1)
            in Some (0, Some (combined_priv, combined_access))
     }
   })"

text \<open>
  \<open>priv\<close> and \<open>access\<close> are not initialised before the call; \<open>junk\<close> is what the stack
  holds there, and it is what the functions test when the lookup fails.
\<close>

definition pd_is_user_read_write :: "u32 \<times> u32 \<Rightarrow> page_directory option \<Rightarrow> u32 \<Rightarrow> vmem \<Rightarrow> bool option" where
  "pd_is_user_read_write junk pd v_addr m = do {
     (_, res) \<leftarrow> pd_get_permissions pd v_addr m;
     let (priv, access) = (case res of None \<Rightarrow> junk | Some pa \<Rightarrow> pa);
     Some (priv = 1 \<and> access = 1)
   }"

definition pd_is_user_readable :: "u32 \<times> u32 \<Rightarrow> page_directory option \<Rightarrow> u32 \<Rightarrow> vmem \<Rightarrow> bool option" where
  "pd_is_user_readable junk pd v_addr m = do {
     (_, res) \<leftarrow> pd_get_permissions pd v_addr m;
     let priv = (case res of None \<Rightarrow> fst junk | Some pa \<Rightarrow> fst pa);
     Some (priv = 1)
   }"

subsection \<open>Mappings, single and in batches\<close>

definition pd_begin_mapping :: "page_directory option \<Rightarrow> int \<times> page_directory option" where
  "pd_begin_mapping pd = (case pd of None \<Rightarrow> (-1, None) | Some pd \<Rightarrow>
     if batch_enabled pd then (-2, Some pd) else (0, Some (pd\<lparr>batch_enabled := True\<rparr>)))"

fun abort_tasks :: "mapping_task list \<Rightarrow> vmem \<Rightarrow> vmem" where
  "abort_tasks [] m = m"
| "abort_tasks (t # ts) m = abort_tasks ts (if t_resource t \<noteq> NULL then free_page_table (t_resource t) m else m)"

definition pd_abort_mapping :: "page_directory \<Rightarrow> vmem \<Rightarrow> page_directory \<times> vmem" where
  "pd_abort_mapping pd m = (pd\<lparr>mapping_tasks := [], batch_enabled := False\<rparr>, abort_tasks (mapping_tasks pd) m)"

fun commit_tasks :: "u32 list \<Rightarrow> mapping_task list \<Rightarrow> vmem \<Rightarrow> vmem option" where
  "commit_tasks dir [] m = Some m"
| "commit_tasks dir (t # ts) m = do {
     pde_value \<leftarrow> arr_get dir (pde_i (t_v_addr t));
     m \<leftarrow> pt_set (REMOVE_FLAGS pde_value) (pte_i (t_v_addr t)) (t_pte t) m;
     commit_tasks dir ts m
   }"

definition pd_commit_mapping :: "page_directory \<Rightarrow> vmem \<Rightarrow> (page_directory \<times> vmem) option" where
  "pd_commit_mapping pd m = do {
     m \<leftarrow> commit_tasks (directory pd) (mapping_tasks pd) m;
     Some (pd\<lparr>mapping_tasks := [], batch_enabled := False\<rparr>, m)
   }"

text \<open>
  The end of \<open>pd_create_mapping\<close> and \<open>pd_remove_mapping\<close>: queue a task or write the
  entry. Both calls of \<open>malloc\<close>, for the task and in \<open>ll_add_last\<close>, may fail.
\<close>

definition queue_or_write :: "allocator \<Rightarrow> u32 \<Rightarrow> u32 \<Rightarrow> ptr \<Rightarrow> ptr \<Rightarrow> page_directory \<Rightarrow> vmem \<Rightarrow>
    (int \<times> page_directory \<times> vmem) option" where
  "queue_or_write al v_addr pte page_table resource pd m =
     (if batch_enabled pd then
        let (ok, m) = malloc_obj al m
        in if \<not> ok then Some (-3, pd, m)
           else let (ok, m) = malloc_obj al m
                in if \<not> ok then Some (-4, pd, free_page_table resource m)
                   else Some (0, pd\<lparr>mapping_tasks := mapping_tasks pd @
                          [\<lparr>t_v_addr = v_addr, t_pte = pte, t_resource = resource\<rparr>]\<rparr>, m)
      else do {
        m \<leftarrow> pt_set page_table (pte_i v_addr) pte m;
        Some (0, pd, m)
      })"

definition pd_create_mapping :: "allocator \<Rightarrow> page_directory \<Rightarrow> u32 \<Rightarrow> u32 \<Rightarrow> u32 \<Rightarrow> u32 \<Rightarrow> vmem \<Rightarrow>
    (int \<times> page_directory \<times> vmem) option" where
  "pd_create_mapping al pd v_addr p_addr pte_flags pde_flags m =
     (if \<not> IS_PAGE_ALIGNED v_addr \<or> \<not> IS_PAGE_ALIGNED p_addr then Some (-1, pd, m)
      else do {
        let pte_value = ADD_FLAGS p_addr pte_flags;
        pde \<leftarrow> arr_get (directory pd) (pde_i v_addr);
        if \<not> entry_present pde then do {
          let (pt, m) = new_page_table al m;
          if pt = NULL then Some (-2, pd, m)
          else do {
            let pde_value = ADD_FLAGS pt pde_flags;
            dir \<leftarrow> arr_set (directory pd) (pde_i v_addr) pde_value;
            queue_or_write al v_addr pte_value (REMOVE_FLAGS pde_value) pt (pd\<lparr>directory := dir\<rparr>) m
          }
        } else queue_or_write al v_addr pte_value (REMOVE_FLAGS pde) NULL pd m
      })"

definition pd_remove_mapping :: "allocator \<Rightarrow> page_directory option \<Rightarrow> u32 \<Rightarrow> vmem \<Rightarrow>
    (int \<times> page_directory option \<times> vmem) option" where
  "pd_remove_mapping al pd v_addr m = (case pd of None \<Rightarrow> Some (-1, None, m) | Some pd \<Rightarrow>
     if \<not> IS_PAGE_ALIGNED v_addr then Some (-1, Some pd, m)
     else do {
       pde \<leftarrow> arr_get (directory pd) (pde_i v_addr);
       if \<not> entry_present pde then Some (-2, Some pd, m)
       else do {
         let page_table = REMOVE_FLAGS pde;
         pte \<leftarrow> pt_get page_table (pte_i v_addr) m;
         if \<not> entry_present pte then Some (-3, Some pd, m)
         else do {
           (r, pd, m) \<leftarrow> queue_or_write al v_addr 0 page_table NULL pd m;
           Some (r, Some pd, m)
         }
       }
     })"

subsection \<open>Initialisation\<close>

fun init_kernel_loop :: "allocator \<Rightarrow> u32 \<Rightarrow> u32 \<Rightarrow> nat list \<Rightarrow> page_directory \<Rightarrow> vmem \<Rightarrow>
    (int \<times> page_directory \<times> vmem) option" where
  "init_kernel_loop al pte_flags pde_flags [] pd m = Some (0, pd, m)"
| "init_kernel_loop al pte_flags pde_flags (i # is) pd m = do {
     let direct_addr = push_bit PAGE_SHIFT (word_of_nat i);
     (r, pd, m) \<leftarrow> pd_create_mapping al pd direct_addr direct_addr pte_flags pde_flags m;
     if r < 0 then Some (-1, pd, m) else init_kernel_loop al pte_flags pde_flags is pd m
   }"

definition pd_init_kernel :: "allocator \<Rightarrow> u32 \<Rightarrow> kernel_pages \<Rightarrow> vmem \<Rightarrow> (int \<times> kernel_pages \<times> vmem) option" where
  "pd_init_kernel al ums k m = do {
     c_assert (\<not> is_kernel_initialized k);
     let pd_temp = \<lparr>directory = kernel_pde k, num_pages = 0, p_addr_list = [], mapping_tasks = [], batch_enabled = False\<rparr>;
     let pte_flags = NEW_FLAGS 1 1 0 1;
     let pde_flags = NEW_FLAGS 1 1 0 0;
     (r, pd, m) \<leftarrow> init_kernel_loop al pte_flags pde_flags [1..<NUM_KERNEL_PTE ums] pd_temp m;
     let k = k\<lparr>kernel_pde := directory pd\<rparr>;
     if r < 0 then Some (-1, k, m) else Some (0, k\<lparr>is_kernel_initialized := True\<rparr>, m)
   }"

text \<open>\<open>memcpy\<close> of the first entries of \<open>src\<close> over those of \<open>dst\<close>.\<close>

definition copy_prefix :: "nat \<Rightarrow> 'a list \<Rightarrow> 'a list \<Rightarrow> 'a list option" where
  "copy_prefix n src dst =
     (if n \<le> length src \<and> n \<le> length dst then Some (take n src @ drop n dst) else None)"

definition initialize_kernel :: "u32 \<Rightarrow> kernel_pages \<Rightarrow> page_directory option \<Rightarrow> (int \<times> page_directory option) option" where
  "initialize_kernel ums k pd = (case pd of None \<Rightarrow> Some (-1, None) | Some pd \<Rightarrow> do {
     c_assert (is_kernel_initialized k);
     dir \<leftarrow> copy_prefix (NUM_KERNEL_PDE ums) (kernel_pde k) (directory pd);
     Some (0, Some (pd\<lparr>directory := dir\<rparr>))
   })"

text \<open>The four allocations of \<open>pd_init\<close>: the directory and the two list headers; \<open>ll_init\<close> does not allocate.\<close>

definition pd_init :: "allocator \<Rightarrow> u32 \<Rightarrow> kernel_pages \<Rightarrow> page_directory \<Rightarrow> vmem \<Rightarrow>
    (int \<times> page_directory \<times> vmem) option" where
  "pd_init al ums k pd m = do {
     let (ok, m) = malloc_obj al m;
     if \<not> ok then Some (-1, pd, m)
     else do {
       let pd = pd\<lparr>directory := replicate 1024 0\<rparr>;
       (r, pd') \<leftarrow> initialize_kernel ums k (Some pd);
       pd \<leftarrow> pd';
       if r < 0 then Some (-2, pd, m)
       else do {
         let pd = pd\<lparr>num_pages := 0, batch_enabled := False\<rparr>;
         let (ok, m) = malloc_obj al m;
         if \<not> ok then Some (-3, pd, m)
         else do {
           let (ok, m) = malloc_obj al m;
           if \<not> ok then Some (-4, pd, m)
           else Some (0, pd\<lparr>p_addr_list := [], mapping_tasks := []\<rparr>, m)
         }
       }
     }
   }"

subsection \<open>Copying an address space\<close>

text \<open>
  \<open>p_copy\<close> runs in the address space it copies from: reading and writing \<open>v_addr\<close>
  accesses the physical page that the entry at index \<open>i\<close> of the table \<open>pt\<close> names at
  that moment.
\<close>

definition p_copy :: "allocator \<Rightarrow> ptr \<Rightarrow> nat \<Rightarrow> u32 \<Rightarrow> u32 \<Rightarrow> vmem \<Rightarrow> (int \<times> vmem) option" where
  "p_copy al pt i v_addr p_addr m =
     (if v_addr = NULL then Some (-1, m)
      else do {
        let (ok, m) = malloc_obj al m;
        if \<not> ok then Some (-2, m)
        else do {
          original_pte \<leftarrow> pt_get pt i m;
          let flags = EXTRACT_FLAGS original_pte;
          let buffer = phys m (REMOVE_FLAGS original_pte);
          let new_pte = ADD_FLAGS p_addr flags;
          m \<leftarrow> pt_set pt i new_pte m;
          let m = m\<lparr>phys := (phys m)(REMOVE_FLAGS new_pte := buffer)\<rparr>;
          m \<leftarrow> pt_set pt i original_pte m;
          Some (0, m)
        }
      })"

fun pt_copy_loop :: "allocator \<Rightarrow> ptr \<Rightarrow> ptr \<Rightarrow> nat \<Rightarrow> nat list \<Rightarrow> u32 \<Rightarrow> vmem \<Rightarrow> (int \<times> u32 \<times> vmem) option" where
  "pt_copy_loop al pt_dest pt_src pd_i [] p_addr m = Some (0, p_addr, m)"
| "pt_copy_loop al pt_dest pt_src pd_i (i # is) p_addr m = do {
     entry \<leftarrow> pt_get pt_src i m;
     let flags = entry AND 0xFFF;
     if entry_present entry then do {
       let v_addr = get_page_address (word_of_nat pd_i) (word_of_nat i);
       (r, m) \<leftarrow> p_copy al pt_src i v_addr p_addr m;
       if r < 0 then Some (-1, p_addr + 4096, m)
       else do {
         m \<leftarrow> pt_set pt_dest i (ADD_FLAGS p_addr flags) m;
         pt_copy_loop al pt_dest pt_src pd_i is (p_addr + 4096) m
       }
     } else pt_copy_loop al pt_dest pt_src pd_i is p_addr m
   }"

definition pt_copy :: "allocator \<Rightarrow> ptr \<Rightarrow> ptr \<Rightarrow> nat \<Rightarrow> u32 \<Rightarrow> vmem \<Rightarrow> (int \<times> u32 \<times> vmem) option" where
  "pt_copy al pt_dest pt_src pd_i p_addr m = pt_copy_loop al pt_dest pt_src pd_i [0..<1024] p_addr m"

text \<open>The roll back of \<open>pd_deep_copy\<close>: free the page tables of the entries below \<open>i\<close>, from the top.\<close>

fun rollback_free :: "u32 list \<Rightarrow> nat list \<Rightarrow> vmem \<Rightarrow> vmem option" where
  "rollback_free dir [] m = Some m"
| "rollback_free dir (j # js) m = do {
     e \<leftarrow> arr_get dir j;
     rollback_free dir js (if entry_present e then free_page_table (REMOVE_FLAGS e) m else m)
   }"

fun deep_copy_loop :: "allocator \<Rightarrow> nat \<Rightarrow> u32 list \<Rightarrow> nat list \<Rightarrow> u32 list \<Rightarrow> u32 \<Rightarrow> page_directory \<Rightarrow> vmem \<Rightarrow>
    (int \<times> page_directory \<times> vmem) option" where
  "deep_copy_loop al nk src [] backup p_addr dest m = Some (0, dest, m)"
| "deep_copy_loop al nk src (i # is) backup p_addr dest m = do {
     entry \<leftarrow> arr_get src i;
     if entry_present entry then do {
       let (new_pt, m) = new_page_table al m;
       if new_pt = NULL then do {
         m \<leftarrow> rollback_free (directory dest) (rev [nk..<i]) m;
         let dir = take nk (directory dest) @ take (i - nk) (drop nk backup) @ drop i (directory dest);
         Some (-2, dest\<lparr>directory := dir\<rparr>, m)
       } else do {
         let flags = EXTRACT_FLAGS entry;
         old \<leftarrow> arr_get (directory dest) i;
         backup \<leftarrow> arr_set backup i old;
         dir \<leftarrow> arr_set (directory dest) i (new_pt OR flags);
         (_, p_addr, m) \<leftarrow> pt_copy al new_pt (REMOVE_FLAGS entry) i p_addr m;
         deep_copy_loop al nk src is backup p_addr (dest\<lparr>directory := dir\<rparr>) m
       }
     } else deep_copy_loop al nk src is backup p_addr dest m
   }"

text \<open>\<open>backup\<close> is the array \<open>backup_directory\<close>, which is not initialised.\<close>

definition pd_deep_copy :: "allocator \<Rightarrow> u32 list \<Rightarrow> u32 \<Rightarrow> page_directory option \<Rightarrow> page_directory option \<Rightarrow> u32 \<Rightarrow> vmem \<Rightarrow>
    (int \<times> page_directory option \<times> vmem) option" where
  "pd_deep_copy al backup ums pd_dest pd_src p_addr_start m = (case (pd_dest, pd_src) of
     (Some dest, Some src) \<Rightarrow> do {
       (r, dest, m) \<leftarrow> deep_copy_loop al (NUM_KERNEL_PDE ums) (directory src) [NUM_KERNEL_PDE ums..<1024]
                         backup p_addr_start dest m;
       Some (r, Some dest, m)
     }
   | _ \<Rightarrow> Some (-1, pd_dest, m))"

subsection \<open>The frames of a directory\<close>

definition pd_alloc_frame :: "allocator \<Rightarrow> page_directory option \<Rightarrow> u32 \<Rightarrow> u32 \<Rightarrow> vmem \<Rightarrow>
    int \<times> page_directory option \<times> vmem" where
  "pd_alloc_frame al pd p_addr n m = (case pd of None \<Rightarrow> (-1, None, m) | Some pd \<Rightarrow>
     (let pd = pd\<lparr>num_pages := num_pages pd + n\<rparr>; (ok, m) = malloc_obj al m
      in if \<not> ok then (-2, Some pd, m)
         else let (ok, m) = malloc_obj al m
              in if \<not> ok then (-3, Some pd, m)
                 else (0, Some (pd\<lparr>p_addr_list := \<lparr>md_p_addr = p_addr, md_num_pages = n\<rparr> # p_addr_list pd\<rparr>), m)))"

definition pd_dealloc_frame :: "page_directory option \<Rightarrow> u32 \<Rightarrow> int \<times> u32 option \<times> page_directory option" where
  "pd_dealloc_frame pd p_addr = (case pd of None \<Rightarrow> (-1, None, None) | Some pd \<Rightarrow>
     (case List.find (\<lambda>md. md_p_addr md = p_addr) (p_addr_list pd) of
        None \<Rightarrow> (-2, None, Some pd)
      | Some md \<Rightarrow> (0, Some (md_num_pages md), Some (pd\<lparr>p_addr_list := remove1 md (p_addr_list pd),
                        num_pages := num_pages pd - md_num_pages md\<rparr>))))"

definition pd_num_frames :: "page_directory option \<Rightarrow> int" where
  "pd_num_frames pd = (case pd of None \<Rightarrow> -1 | Some pd \<Rightarrow> int (length (p_addr_list pd)))"

text \<open>The arrays are written from index 0; the answer holds what has been written.\<close>

fun dealloc_all_loop :: "pd_frame_metadata list \<Rightarrow> u32 list \<Rightarrow> u32 list \<Rightarrow> u32 list \<times> u32 list" where
  "dealloc_all_loop [] addrs sizes = (addrs, sizes)"
| "dealloc_all_loop (md # mds) addrs sizes = dealloc_all_loop mds (addrs @ [md_p_addr md]) (sizes @ [md_num_pages md])"

definition pd_dealloc_all_frames :: "page_directory option \<Rightarrow> bool \<Rightarrow> int \<times> (u32 list \<times> u32 list) option \<times> page_directory option" where
  "pd_dealloc_all_frames pd addr_list = (case pd of None \<Rightarrow> (-1, None, None) | Some pd \<Rightarrow>
     if \<not> addr_list then (-1, None, Some pd)
     else (0, Some (dealloc_all_loop (p_addr_list pd) [] []), Some (pd\<lparr>p_addr_list := [], num_pages := 0\<rparr>)))"

fun clear_loop :: "nat list \<Rightarrow> u32 list \<Rightarrow> vmem \<Rightarrow> (u32 list \<times> vmem) option" where
  "clear_loop [] dir m = Some (dir, m)"
| "clear_loop (i # is) dir m = do {
     entry \<leftarrow> arr_get dir i;
     if entry_present entry then clear_loop is (dir[i := 0]) (free_page_table (REMOVE_FLAGS entry) m)
     else clear_loop is dir m
   }"

definition pd_clear_user_space :: "u32 \<Rightarrow> page_directory \<Rightarrow> vmem \<Rightarrow> (int \<times> page_directory \<times> vmem) option" where
  "pd_clear_user_space ums pd m = do {
     (dir, m) \<leftarrow> clear_loop [NUM_KERNEL_PDE ums..<1024] (directory pd) m;
     Some (0, pd\<lparr>directory := dir\<rparr>, m)
   }"

fun destroy_loop :: "nat list \<Rightarrow> u32 list \<Rightarrow> vmem \<Rightarrow> vmem option" where
  "destroy_loop [] dir m = Some m"
| "destroy_loop (i # is) dir m = do {
     entry \<leftarrow> arr_get dir i;
     destroy_loop is dir (if entry_present entry then free_page_table (REMOVE_FLAGS entry) m else m)
   }"

definition pd_destroy :: "u32 \<Rightarrow> page_directory \<Rightarrow> vmem \<Rightarrow> (page_directory \<times> vmem) option" where
  "pd_destroy ums pd m = do {
     c_assert (p_addr_list pd = []);
     m \<leftarrow> destroy_loop [NUM_KERNEL_PDE ums..<1024] (directory pd) m;
     Some (pd\<lparr>directory := []\<rparr>, m)
   }"

end
