(* ===== verification/MemSection.thy ===== *)
theory MemSection
  imports Prelude
begin

text \<open>
  \<open>kern/virtual_mem_mgmt/mem_section.c\<close>: memory sections, the ranges of a program
  that the loader gives to the virtual memory manager. Addresses are 32-bit words
  and the end \<open>v_addr_start + (len - 1)\<close> is inclusive; the arithmetic wraps around.
  An array with its length is a list, NULL is \<open>None\<close>.
\<close>

subsection \<open>Model\<close>

record mem_section =
  ms_start :: u32
  ms_len :: u32
  ms_pde_f :: u32
  ms_pte_f :: u32

definition ms_init :: "mem_section option \<Rightarrow> u32 \<Rightarrow> u32 \<Rightarrow> u32 \<Rightarrow> u32 \<Rightarrow> int \<times> mem_section option" where
  "ms_init ms addr len pde_flags pte_flags = (case ms of
     None \<Rightarrow> (-1, None)
   | Some m \<Rightarrow> (0, Some (m\<lparr>ms_start := addr, ms_len := len, ms_pde_f := pde_flags, ms_pte_f := pte_flags\<rparr>)))"

text \<open>\<open>secs[s].v_addr_start + (secs[s].len - 1)\<close>\<close>

definition ms_end :: "mem_section \<Rightarrow> u32" where
  "ms_end m = ms_start m + (ms_len m - 1)"

primrec bounding_loop :: "mem_section list \<Rightarrow> u32 \<Rightarrow> u32 \<Rightarrow> u32 \<times> u32" where
  "bounding_loop [] low high = (low, high)"
| "bounding_loop (m # ms) low high =
     (if ms_len m = 0 then bounding_loop ms low high
      else bounding_loop ms (if ms_start m < low then ms_start m else low)
                            (if ms_end m > high then ms_end m else high))"

text \<open>The two values stored through \<open>addr_low\<close> and \<open>addr_high\<close> are the answer's second part.\<close>

definition ms_get_bounding_addr :: "mem_section list option \<Rightarrow> int \<times> (u32 \<times> u32) option" where
  "ms_get_bounding_addr secs = (case secs of
     None \<Rightarrow> (-1, None)
   | Some ms \<Rightarrow>
       if ms = [] then (-1, None)
       else let (low, high) = bounding_loop ms 0xFFFFFFFF 0x0
            in if low > high then (-1, None) else (0, Some (low, high)))"

definition ms_hit :: "u32 \<Rightarrow> u32 \<Rightarrow> mem_section \<Rightarrow> bool" where
  "ms_hit addr_low addr_high m \<longleftrightarrow>
     ms_start m \<le> addr_low \<and> addr_low \<le> ms_end m \<or> ms_start m \<le> addr_high \<and> addr_high \<le> ms_end m"

definition ms_get_bounding_section ::
  "mem_section list option \<Rightarrow> u32 \<Rightarrow> u32 \<Rightarrow> int \<times> mem_section option" where
  "ms_get_bounding_section secs addr_low addr_high = (case secs of
     None \<Rightarrow> (-1, None)
   | Some ms \<Rightarrow>
       if ms = [] \<or> addr_low > addr_high then (-1, None)
       else case List.find (ms_hit addr_low addr_high) ms of
              Some m \<Rightarrow> (0, Some m)
            | None \<Rightarrow> (1, None))"

subsection \<open>The addresses a section covers\<close>

text \<open>A section is proper if it is not empty and does not wrap around the address space.\<close>

definition ms_proper :: "mem_section \<Rightarrow> bool" where
  "ms_proper m \<longleftrightarrow> ms_len m \<noteq> 0 \<and> ms_start m \<le> ms_end m"

definition ms_addrs :: "mem_section \<Rightarrow> u32 set" where
  "ms_addrs m = {a. unat (ms_start m) \<le> unat a \<and> unat a < unat (ms_start m) + unat (ms_len m)}"

lemma ms_end_nat:
  assumes "ms_proper m"
  shows "unat (ms_end m) = unat (ms_start m) + (unat (ms_len m) - 1)"
  using assms by (simp add: ms_proper_def ms_end_def unat_plus_simple unat_minus_one)

lemma ms_addrs_interval:
  assumes "ms_proper m"
  shows "ms_addrs m = {ms_start m .. ms_end m}"
proof -
  have "0 < unat (ms_len m)" using assms by (simp add: ms_proper_def unat_gt_0)
  then show ?thesis using ms_end_nat [OF assms] by (auto simp: ms_addrs_def word_le_nat_alt)
qed

lemma ms_addrs_empty: "ms_len m = 0 \<Longrightarrow> ms_addrs m = {}"
  by (simp add: ms_addrs_def)

lemma bounding_loop_mono:
  "bounding_loop ms low high = (l, h) \<Longrightarrow> l \<le> low \<and> high \<le> h"
proof (induction ms arbitrary: low high)
  case (Cons m ms)
  then show ?case by (fastforce split: if_splits dest: order.trans less_imp_le)
qed simp

lemma bounding_loop_bounds:
  "bounding_loop ms low high = (l, h) \<Longrightarrow> m \<in> set ms \<Longrightarrow> ms_len m \<noteq> 0 \<Longrightarrow>
   l \<le> ms_start m \<and> ms_end m \<le> h"
proof (induction ms arbitrary: low high)
  case (Cons m' ms)
  let ?low = "if ms_start m' < low then ms_start m' else low"
  let ?high = "if ms_end m' > high then ms_end m' else high"
  show ?case
  proof (cases "m = m'")
    case True
    then have "l \<le> ?low \<and> ?high \<le> h"
      using Cons.prems by (intro bounding_loop_mono [of ms]) simp
    then show ?thesis using True by (auto split: if_splits)
  next
    case False
    then show ?thesis using Cons by (cases "ms_len m' = 0") auto
  qed
qed simp

lemma bounding_loop_attained:
  "bounding_loop ms low high = (l, h) \<Longrightarrow>
   (l = low \<or> (\<exists>m \<in> set ms. ms_len m \<noteq> 0 \<and> l = ms_start m)) \<and>
   (h = high \<or> (\<exists>m \<in> set ms. ms_len m \<noteq> 0 \<and> h = ms_end m))"
proof (induction ms arbitrary: low high)
  case (Cons m ms)
  show ?case
  proof (cases "ms_len m = 0")
    case True
    then show ?thesis using Cons by auto
  next
    case False
    then show ?thesis using Cons.IH [OF Cons.prems [simplified False bounding_loop.simps if_False]] by auto
  qed
qed simp

subsection \<open>Properties\<close>

text \<open>
  \<open>ms_get_bounding_addr\<close> on an array with a non-empty section, of which no
  non-empty one wraps around, returns 0 and the exact hull: every address of every
  section lies between the two bounds, and both bounds are addresses of sections.
  Empty sections are ignored.
\<close>

theorem ms_bounding_addr_hull:
  assumes "m0 \<in> set ms" "ms_len m0 \<noteq> 0" "\<And>m. m \<in> set ms \<Longrightarrow> ms_len m \<noteq> 0 \<Longrightarrow> ms_proper m"
  shows "\<exists>low high. ms_get_bounding_addr (Some ms) = (0, Some (low, high)) \<and>
    (\<forall>m \<in> set ms. ms_addrs m \<subseteq> {low..high}) \<and>
    low \<in> (\<Union>m \<in> set ms. ms_addrs m) \<and> high \<in> (\<Union>m \<in> set ms. ms_addrs m)"
proof -
  obtain low high where lh: "bounding_loop ms 0xFFFFFFFF 0 = (low, high)" by fastforce
  have b: "low \<le> ms_start m \<and> ms_end m \<le> high" if "m \<in> set ms" "ms_len m \<noteq> 0" for m
    using bounding_loop_bounds [OF lh that] .
  have p0: "ms_start m0 \<le> ms_end m0" using assms by (simp add: ms_proper_def)
  with b [OF assms(1,2)] have le: "low \<le> high" by (meson order.trans)
  have sub: "ms_addrs m \<subseteq> {low..high}" if "m \<in> set ms" for m
    using b [OF that] assms(3) [OF that] ms_addrs_interval [of m] ms_addrs_empty [of m]
    by (cases "ms_len m = 0") (auto intro: order.trans)
  have top: "low = 0xFFFFFFFF \<Longrightarrow> low = ms_start m0" "high = 0 \<Longrightarrow> high = ms_end m0"
  proof -
    assume "low = 0xFFFFFFFF"
    moreover have "(0xFFFFFFFF :: u32) = - 1" by simp
    then have "ms_start m0 \<le> 0xFFFFFFFF" using word_order.extremum [of "ms_start m0"] by (simp only:)
    ultimately show "low = ms_start m0" using b [OF assms(1,2)] by (intro order.antisym) simp_all
  next
    assume "high = 0"
    then show "high = ms_end m0" using b [OF assms(1,2)] by simp
  qed
  have "(\<exists>m \<in> set ms. ms_len m \<noteq> 0 \<and> low = ms_start m)" "(\<exists>m \<in> set ms. ms_len m \<noteq> 0 \<and> high = ms_end m)"
    using bounding_loop_attained [OF lh] top assms(1,2) by blast+
  moreover have "ms_start m \<in> ms_addrs m \<and> ms_end m \<in> ms_addrs m" if "m \<in> set ms" "ms_len m \<noteq> 0" for m
    using assms(3) [OF that] ms_addrs_interval [of m] by (simp add: ms_proper_def)
  ultimately have "low \<in> (\<Union>m \<in> set ms. ms_addrs m)" "high \<in> (\<Union>m \<in> set ms. ms_addrs m)" by blast+
  moreover have "ms_get_bounding_addr (Some ms) = (0, Some (low, high))"
    using assms(1) lh le by (auto simp: ms_get_bounding_addr_def)
  ultimately show ?thesis using sub by blast
qed

theorem ms_bounding_addr_hull_witness:
  "\<exists>low high. ms_get_bounding_addr (Some [\<lparr>ms_start = 0x2000, ms_len = 0x10, ms_pde_f = 7, ms_pte_f = 7\<rparr>,
      \<lparr>ms_start = 0x9000, ms_len = 0, ms_pde_f = 7, ms_pte_f = 7\<rparr>]) = (0, Some (low, high)) \<and>
    low \<in> ms_addrs \<lparr>ms_start = 0x2000, ms_len = 0x10, ms_pde_f = 7, ms_pte_f = 7\<rparr>"
  using ms_bounding_addr_hull [of "\<lparr>ms_start = 0x2000, ms_len = 0x10, ms_pde_f = 7, ms_pte_f = 7\<rparr>"
      "[\<lparr>ms_start = 0x2000, ms_len = 0x10, ms_pde_f = 7, ms_pte_f = 7\<rparr>,
        \<lparr>ms_start = 0x9000, ms_len = 0, ms_pde_f = 7, ms_pte_f = 7\<rparr>]"]
  by (fastforce simp: ms_proper_def ms_end_def ms_addrs_empty)

text \<open>
  \<open>ms_get_bounding_section\<close> on proper sections answers the first section of
  the array that contains one of the two end points of the address range, and 1
  exactly when no section contains either of them.
\<close>

theorem ms_bounding_section_first:
  assumes "ms \<noteq> []" "low \<le> high" "\<And>m. m \<in> set ms \<Longrightarrow> ms_proper m"
  shows "(\<exists>xs m ys. ms = xs @ m # ys \<and> ms_get_bounding_section (Some ms) low high = (0, Some m) \<and>
      (low \<in> ms_addrs m \<or> high \<in> ms_addrs m) \<and> (\<forall>x \<in> set xs. low \<notin> ms_addrs x \<and> high \<notin> ms_addrs x)) \<or>
    ms_get_bounding_section (Some ms) low high = (1, None) \<and> (\<forall>x \<in> set ms. low \<notin> ms_addrs x \<and> high \<notin> ms_addrs x)"
proof -
  have hit: "ms_hit low high m \<longleftrightarrow> low \<in> ms_addrs m \<or> high \<in> ms_addrs m" if "m \<in> set ms" for m
    using ms_addrs_interval [OF assms(3) [OF that]] by (auto simp: ms_hit_def)
  show ?thesis
  proof (cases "List.find (ms_hit low high) ms")
    case None
    then have "ms_get_bounding_section (Some ms) low high = (1, None)"
      using assms(1,2) by (simp add: ms_get_bounding_section_def leD)
    moreover have "\<forall>x \<in> set ms. \<not> ms_hit low high x" using None by (simp add: find_None_iff)
    ultimately show ?thesis using hit by blast
  next
    case (Some m)
    then obtain i where i: "i < length ms" "ms_hit low high (ms ! i)" "m = ms ! i" "\<forall>j<i. \<not> ms_hit low high (ms ! j)"
      by (auto simp: find_Some_iff)
    have "x \<in> set (take i ms) \<Longrightarrow> \<not> ms_hit low high x" for x using i by (auto simp: in_set_conv_nth)
    then have "\<forall>x \<in> set (take i ms). low \<notin> ms_addrs x \<and> high \<notin> ms_addrs x"
      using hit by (auto dest: in_set_takeD)
    moreover have "ms_get_bounding_section (Some ms) low high = (0, Some m)"
      using Some assms(1,2) by (simp add: ms_get_bounding_section_def leD)
    moreover have "ms = take i ms @ m # drop (Suc i) ms" using i by (simp add: id_take_nth_drop)
    moreover have "low \<in> ms_addrs m \<or> high \<in> ms_addrs m" using i hit by auto
    ultimately show ?thesis by blast
  qed
qed

theorem ms_bounding_section_first_witness:
  "(\<exists>m. ms_get_bounding_section (Some [\<lparr>ms_start = 0x2000, ms_len = 0x10, ms_pde_f = 7, ms_pte_f = 7\<rparr>]) 0x2000 0x2FFF = (0, Some m)) \<or>
    ms_get_bounding_section (Some [\<lparr>ms_start = 0x2000, ms_len = 0x10, ms_pde_f = 7, ms_pte_f = 7\<rparr>]) 0x2000 0x2FFF = (1, None)"
  using ms_bounding_section_first [where low = "0x2000" and high = "0x2FFF" and
      ms = "[\<lparr>ms_start = 0x2000, ms_len = 0x10, ms_pde_f = 7, ms_pte_f = 7\<rparr>]"]
  by (auto simp: ms_proper_def ms_end_def)

text \<open>
  Two limits of \<open>ms_get_bounding_section\<close>. It does not find a section that
  lies strictly inside the range, although its comment promises a section that
  contains a part of the range: for a page with a section of 16 bytes in its
  middle the answer is 1. And a section of length 0 at address 0 matches every
  range, because its inclusive end wraps around to the top of the address space.
\<close>

theorem ms_bounding_section_limits:
  "ms_get_bounding_section (Some [\<lparr>ms_start = 0x2100, ms_len = 0x10, ms_pde_f = d, ms_pte_f = t\<rparr>]) 0x2000 0x2FFF = (1, None) \<and>
   (\<forall>a. ms_get_bounding_section (Some (\<lparr>ms_start = 0, ms_len = 0, ms_pde_f = d, ms_pte_f = t\<rparr> # ms)) a a =
     (0, Some \<lparr>ms_start = 0, ms_len = 0, ms_pde_f = d, ms_pte_f = t\<rparr>))"
  by (simp add: ms_get_bounding_section_def ms_hit_def ms_end_def)

end
