(* ===== verification/CircBuffer.thy ===== *)
theory CircBuffer
  imports Prelude
begin

text \<open>
  \<open>kern/data_structures/circ_buffer.c\<close>: the circular buffer behind the keyboard
  and behind the reaper's list of addresses to free. Indices and counters keep
  their width of 32 bits. \<open>contents\<close> is the sequence of values the struct
  stands for; the interface is the locale \<open>bounded_fifo\<close>.
\<close>

subsection \<open>Model\<close>

record circ_buf =
  cb_i_r :: u32
  cb_i_w :: u32
  cb_buf :: "u32 list"
  cb_len :: u32
  cb_n :: u32

text \<open>
  \<open>mem\<close> is the array that \<open>malloc(len * sizeof(void *))\<close> returned, with its
  unspecified contents, or \<open>None\<close> for NULL.
\<close>

definition circ_buf_init :: "u32 list option \<Rightarrow> u32 \<Rightarrow> circ_buf option \<Rightarrow> int \<times> circ_buf option" where
  "circ_buf_init mem len cb = (case cb of
     None \<Rightarrow> (-1, None)
   | Some c \<Rightarrow>
       if len = 0 then (-1, Some c)
       else let c = c\<lparr>cb_i_r := 0, cb_i_w := 0, cb_n := 0\<rparr>
            in case mem of
                 None \<Rightarrow> (-2, Some (c\<lparr>cb_buf := []\<rparr>))
               | Some b \<Rightarrow> (0, Some (c\<lparr>cb_buf := b, cb_len := len\<rparr>)))"

definition circ_buf_destroy :: "circ_buf option \<Rightarrow> circ_buf option" where
  "circ_buf_destroy cb = (case cb of None \<Rightarrow> None | Some c \<Rightarrow> Some (c\<lparr>cb_buf := []\<rparr>))"

text \<open>\<open>% circ_buf->len\<close> faults on a buffer of length 0.\<close>

definition circ_buf_write :: "circ_buf option \<Rightarrow> u32 \<Rightarrow> (int \<times> circ_buf option) option" where
  "circ_buf_write cb v = (case cb of
     None \<Rightarrow> Some (-1, None)
   | Some c \<Rightarrow>
       if cb_len c = 0 then None
       else let next_i_w = (cb_i_w c + 1) mod cb_len c in
       if cb_n c + 1 = cb_len c then Some (-1, Some c)
       else if unat (cb_i_w c) < length (cb_buf c) then
         Some (0, Some (c\<lparr>cb_buf := (cb_buf c)[unat (cb_i_w c) := v], cb_i_w := next_i_w,
                          cb_n := cb_n c + 1\<rparr>))
       else None)"

text \<open>
  \<open>want\<close> says whether the argument \<open>v\<close> is not NULL; the value that \<open>*v = ...\<close>
  stores is the second component of the result.
\<close>

definition circ_buf_read :: "bool \<Rightarrow> circ_buf option \<Rightarrow> (int \<times> u32 option \<times> circ_buf option) option" where
  "circ_buf_read want cb = (case cb of
     None \<Rightarrow> Some (-1, None, None)
   | Some c \<Rightarrow>
       if cb_n c = 0 then Some (-2, None, Some c)
       else do {
         v \<leftarrow> (if want then if unat (cb_i_r c) < length (cb_buf c)
                              then Some (Some (cb_buf c ! unat (cb_i_r c))) else None
              else Some None);
         c_assert (cb_len c \<noteq> 0);
         Some (0, v, Some (c\<lparr>cb_i_r := (cb_i_r c + 1) mod cb_len c, cb_n := cb_n c - 1\<rparr>))
       })"

definition circ_buf_delete_front :: "circ_buf option \<Rightarrow> (int \<times> circ_buf option) option" where
  "circ_buf_delete_front cb = (case cb of
     None \<Rightarrow> Some (-1, None)
   | Some c \<Rightarrow>
       if cb_n c = 0 then Some (-2, Some c)
       else if cb_len c = 0 then None
       else Some (0, Some (c\<lparr>cb_i_w := (cb_i_w c - 1) mod cb_len c, cb_n := cb_n c - 1\<rparr>)))"

definition circ_buf_count :: "circ_buf option \<Rightarrow> int \<times> u32 option" where
  "circ_buf_count cb = (case cb of None \<Rightarrow> (-1, None) | Some c \<Rightarrow> (0, Some (cb_n c)))"

definition circ_buf_size :: "circ_buf option \<Rightarrow> bool \<Rightarrow> int \<times> u32 option" where
  "circ_buf_size cb want = (case cb of
     None \<Rightarrow> (-1, None)
   | Some c \<Rightarrow> if want then (0, Some (cb_len c)) else (-1, None))"

subsection \<open>The sequence of values and the invariant\<close>

definition slot :: "circ_buf \<Rightarrow> nat \<Rightarrow> nat" where
  "slot c k = (unat (cb_i_r c) + k) mod unat (cb_len c)"

definition contents :: "circ_buf \<Rightarrow> u32 list" where
  "contents c = map (\<lambda>k. cb_buf c ! slot c k) [0..<unat (cb_n c)]"

definition circ_ok :: "circ_buf \<Rightarrow> bool" where
  "circ_ok c \<longleftrightarrow> cb_len c \<noteq> 0 \<and> length (cb_buf c) = unat (cb_len c) \<and>
     cb_i_r c < cb_len c \<and> cb_n c < cb_len c \<and> unat (cb_i_w c) = slot c (unat (cb_n c))"

lemma slot_less: "cb_len c \<noteq> 0 \<Longrightarrow> slot c k < unat (cb_len c)"
  by (simp add: slot_def unat_gt_0)

lemma slot_update [simp]:
  "slot (c\<lparr>cb_buf := b\<rparr>) = slot c"
  "slot (c\<lparr>cb_i_w := i\<rparr>) = slot c"
  "slot (c\<lparr>cb_n := m\<rparr>) = slot c"
  by (simp_all add: slot_def fun_eq_iff)

lemma length_contents [simp]: "length (contents c) = unat (cb_n c)"
  by (simp add: contents_def)

lemma slot_inj:
  assumes "slot c j = slot c k" "j < unat (cb_len c)" "k < unat (cb_len c)"
  shows "j = k"
proof -
  have "j \<le> k \<Longrightarrow> slot c k = slot c j \<Longrightarrow> k < unat (cb_len c) \<Longrightarrow> j = k" for j k
    using mod_eq_dvd_iff_nat [of "unat (cb_i_r c) + j" "unat (cb_i_r c) + k" "unat (cb_len c)"]
    by (auto simp: slot_def dest: dvd_imp_le)
  with assms show ?thesis by (metis nat_le_linear)
qed

lemma contents_nth: "k < unat (cb_n c) \<Longrightarrow> contents c ! k = cb_buf c ! slot c k"
  by (simp add: contents_def)

lemma unat_mod_Suc:
  fixes w m :: u32
  assumes "w < m"
  shows "unat ((w + 1) mod m) = Suc (unat w) mod unat m"
proof -
  have "unat m < 2 ^ 32" using unat_u32_bound [of m] by simp
  with assms have "Suc (unat w) < 2 ^ 32" by (simp add: word_less_nat_alt)
  then have "unat (w + 1) = Suc (unat w)" by (rule unat_Suc_of_bound [OF refl])
  then show ?thesis by (simp add: unat_mod)
qed

lemma circ_okD:
  assumes "circ_ok c"
  shows "cb_len c \<noteq> 0" "length (cb_buf c) = unat (cb_len c)" "unat (cb_i_r c) < unat (cb_len c)"
    "unat (cb_n c) < unat (cb_len c)" "unat (cb_i_w c) = slot c (unat (cb_n c))"
    "unat (cb_i_w c) < unat (cb_len c)"
  using assms slot_less [of c] by (auto simp: circ_ok_def word_less_nat_alt)

lemma unat_times_4: "unat len < 2 ^ 30 \<Longrightarrow> unat (len * 4 :: u32) = unat len * 4"
  by (simp add: unat_word_ariths)

lemma circ_buf_init_ok:
  assumes "circ_buf_init mem len (Some c) = (0, Some c')" "\<And>b. mem = Some b \<Longrightarrow> length b = unat (len * 4) div 4"
    "unat len < 2 ^ 30"
  shows "circ_ok c' \<and> contents c' = [] \<and> cb_len c' = len"
  using assms unat_times_4 [OF assms(3)] by (auto simp: circ_buf_init_def circ_ok_def contents_def slot_def word_gt_0 Let_def
      split: if_splits option.splits)

lemma circ_buf_write_full:
  assumes "circ_ok c" "Suc (length (contents c)) = unat (cb_len c)"
  shows "circ_buf_write (Some c) v = Some (-1, Some c)"
proof -
  have "unat (cb_n c + 1) = Suc (unat (cb_n c))"
    by (rule unat_Suc_of_bound) (use assms unat_u32_bound [of "cb_len c"] in simp_all)
  then have "cb_n c + 1 = cb_len c" using assms(2) by (simp add: word_unat_eq_iff)
  then show ?thesis using circ_okD(1) [OF assms(1)] by (simp add: circ_buf_write_def)
qed

lemma circ_buf_write_ok:
  assumes "circ_ok c" "Suc (length (contents c)) < unat (cb_len c)"
  shows "\<exists>c'. circ_buf_write (Some c) v = Some (0, Some c') \<and> circ_ok c' \<and>
    contents c' = contents c @ [v] \<and> cb_len c' = cb_len c"
proof -
  note ok = circ_okD [OF assms(1)]
  have n1: "unat (cb_n c + 1) = Suc (unat (cb_n c))"
    by (rule unat_Suc_of_bound) (use assms(2) unat_u32_bound [of "cb_len c"] in simp_all)
  then have ne: "cb_n c + 1 \<noteq> cb_len c" using assms(2) by auto
  let ?c = "c\<lparr>cb_buf := (cb_buf c)[unat (cb_i_w c) := v], cb_i_w := (cb_i_w c + 1) mod cb_len c,
    cb_n := cb_n c + 1\<rparr>"
  have iw: "unat ((cb_i_w c + 1) mod cb_len c) = slot c (Suc (unat (cb_n c)))"
    using unat_mod_Suc [of "cb_i_w c" "cb_len c"] ok
    by (simp add: word_less_nat_alt slot_def mod_Suc_eq)
  have "circ_ok ?c"
    using assms ok n1 iw by (simp add: circ_ok_def word_less_nat_alt)
  moreover have "contents ?c = contents c @ [v]"
  proof (rule nth_equalityI)
    fix k assume "k < length (contents ?c)"
    then have k: "k < Suc (unat (cb_n c))" using n1 by simp
    have other: "slot c k \<noteq> unat (cb_i_w c)" if "k < unat (cb_n c)"
      using slot_inj [of c k "unat (cb_n c)"] ok that by auto
    show "contents ?c ! k = (contents c @ [v]) ! k"
      using k n1 ok other by (auto simp: contents_nth nth_append less_Suc_eq)
  qed (simp add: n1)
  moreover have "circ_buf_write (Some c) v = Some (0, Some ?c)"
    using ne ok by (simp add: circ_buf_write_def)
  ultimately show ?thesis by auto
qed

lemma circ_buf_read_ok:
  assumes "circ_ok c" "contents c = v # vs"
  shows "\<exists>c'. circ_buf_read want (Some c) = Some (0, if want then Some v else None, Some c') \<and> circ_ok c' \<and> contents c' = vs \<and>
    cb_len c' = cb_len c"
proof -
  note ok = circ_okD [OF assms(1)]
  have n: "unat (cb_n c) = Suc (length vs)" using assms(2) length_contents [of c] by simp
  have n1: "unat (cb_n c - 1) = length vs" by (rule unat_pred [OF n])
  let ?c = "c\<lparr>cb_i_r := (cb_i_r c + 1) mod cb_len c, cb_n := cb_n c - 1\<rparr>"
  have ir: "unat ((cb_i_r c + 1) mod cb_len c) = Suc (unat (cb_i_r c)) mod unat (cb_len c)"
    using ok by (intro unat_mod_Suc) (simp add: word_less_nat_alt)
  have slot: "slot (c\<lparr>cb_i_r := (cb_i_r c + 1) mod cb_len c\<rparr>) k = slot c (Suc k)" for k
    by (simp add: slot_def ir mod_add_left_eq)
  have "circ_ok ?c"
    using ok n n1 slot slot_less [OF ok(1), of "Suc 0"]
    by (auto simp: circ_ok_def word_less_nat_alt ir slot_def)
  moreover have "contents ?c = vs"
  proof (rule nth_equalityI)
    fix k assume "k < length (contents ?c)"
    then have k: "k < length vs" using n1 by simp
    then have "contents c ! Suc k = vs ! k" using assms(2) by simp
    with k n n1 show "contents ?c ! k = vs ! k" by (simp add: contents_nth slot)
  qed (simp add: n1)
  moreover have "cb_buf c ! unat (cb_i_r c) = v"
    using assms(2) contents_nth [of 0 c] n ok by (simp add: slot_def)
  then have "circ_buf_read want (Some c) = Some (0, if want then Some v else None, Some ?c)"
    using ok n by (auto simp: circ_buf_read_def)
  ultimately show ?thesis by auto
qed

lemma circ_buf_read_empty: "contents c = [] \<Longrightarrow> circ_buf_read want (Some c) = Some (-2, None, Some c)"
  using length_contents [of c] by (simp add: circ_buf_read_def unat_eq_0)

text \<open>
  \<open>(i_w - 1) % len\<close> is computed on unsigned words. At \<open>i_w = 0\<close> it is
  \<open>(2 ^ 32 - 1) % len\<close>, which is \<open>len - 1\<close> exactly when \<open>len\<close> divides \<open>2 ^ 32\<close>.
\<close>

lemma unat_mod_pred:
  fixes w m :: u32
  assumes "w < m" "unat m dvd 2 ^ 32"
  shows "unat ((w - 1) mod m) = (unat w + (unat m - 1)) mod unat m"
proof (cases "w = 0")
  case True
  have m: "0 < unat m" using assms(1) True by (simp add: unat_gt_0)
  obtain q where q: "2 ^ 32 = unat m * q" using assms(2) by (auto simp: dvd_def)
  have "(2 ^ 32 - 1) mod unat m = unat m - 1"
  proof -
    have q0: "0 < q" using q by (cases q) auto
    have "2 ^ 32 - 1 = unat m * (q - 1) + (unat m - 1)"
      using q q0 m by (cases q) (simp_all add: algebra_simps)
    then show ?thesis using m by (metis mod_mult_self4 mod_less diff_less zero_less_one mult.commute add.commute)
  qed
  moreover note unat_minus_one_u32
  ultimately show ?thesis using True m by (simp add: unat_mod)
next
  case False
  then have "unat (w - 1) = unat w - 1" "0 < unat w" by (simp_all add: unat_minus_one unat_gt_0)
  with assms(1) show ?thesis by (simp add: unat_mod word_less_nat_alt mod_if)
qed

lemma circ_buf_delete_front_ok:
  assumes "circ_ok c" "contents c = vs @ [v]" "unat (cb_len c) dvd 2 ^ 32"
  shows "\<exists>c'. circ_buf_delete_front (Some c) = Some (0, Some c') \<and> circ_ok c' \<and> contents c' = vs \<and>
    cb_len c' = cb_len c"
proof -
  note ok = circ_okD [OF assms(1)]
  have n: "unat (cb_n c) = Suc (length vs)" using assms(2) length_contents [of c] by simp
  have n1: "unat (cb_n c - 1) = length vs" by (rule unat_pred [OF n])
  let ?c = "c\<lparr>cb_i_w := (cb_i_w c - 1) mod cb_len c, cb_n := cb_n c - 1\<rparr>"
  have "unat ((cb_i_w c - 1) mod cb_len c) = (unat (cb_i_w c) + (unat (cb_len c) - 1)) mod unat (cb_len c)"
    by (rule unat_mod_pred) (use ok assms(3) in \<open>simp_all add: word_less_nat_alt\<close>)
  also have "\<dots> = (unat (cb_i_r c) + Suc (length vs) + (unat (cb_len c) - 1)) mod unat (cb_len c)"
    by (simp add: ok(5) slot_def n mod_add_left_eq)
  also have "\<dots> = (unat (cb_i_r c) + length vs + unat (cb_len c)) mod unat (cb_len c)"
    using ok(4) by (intro arg_cong [of _ _ "\<lambda>x. x mod unat (cb_len c)"]) simp
  also have "\<dots> = slot c (length vs)" by (simp add: slot_def)
  finally have "circ_ok ?c"
    using ok n n1 by (simp add: circ_ok_def word_less_nat_alt)
  moreover have "contents ?c = vs"
  proof (rule nth_equalityI)
    fix k assume "k < length (contents ?c)"
    then have k: "k < length vs" using n1 by simp
    then have "contents c ! k = vs ! k" using assms(2) by (simp add: nth_append)
    with k n n1 show "contents ?c ! k = vs ! k" by (simp add: contents_nth)
  qed (simp add: n1)
  ultimately show ?thesis using n ok by (auto simp: circ_buf_delete_front_def)
qed


subsection \<open>The interface: a bounded first-in first-out queue\<close>

text \<open>
  The calls a client makes, their answers, and the specification: a capacity and
  a sequence of values. A buffer initialised with length \<open>len\<close> has capacity
  \<open>len - 1\<close>, because \<open>circ_buf_write\<close> refuses the write that would make \<open>n\<close>
  equal to \<open>len\<close>.
\<close>

datatype cb_op = Write u32 | Read | Delete_front | Count

fun fifo_spec :: "nat \<times> u32 list \<Rightarrow> cb_op \<Rightarrow> (int \<times> u32 option) \<times> (nat \<times> u32 list)" where
  "fifo_spec (k, xs) (Write v) =
     (if length xs < k then ((0, None), (k, xs @ [v])) else ((-1, None), (k, xs)))"
| "fifo_spec (k, xs) Read =
     (case xs of [] \<Rightarrow> ((-2, None), (k, xs)) | x # ys \<Rightarrow> ((0, Some x), (k, ys)))"
| "fifo_spec (k, xs) Delete_front =
     (if xs = [] then ((-2, None), (k, xs)) else ((0, None), (k, butlast xs)))"
| "fifo_spec (k, xs) Count = ((0, Some (of_nat (length xs))), (k, xs))"

fun circ_step :: "circ_buf option \<Rightarrow> cb_op \<Rightarrow> ((int \<times> u32 option) \<times> circ_buf option) option" where
  "circ_step cb (Write v) = map_option (\<lambda>(r, cb'). ((r, None), cb')) (circ_buf_write cb v)"
| "circ_step cb Read = map_option (\<lambda>(r, v, cb'). ((r, v), cb')) (circ_buf_read True cb)"
| "circ_step cb Delete_front = map_option (\<lambda>(r, cb'). ((r, None), cb')) (circ_buf_delete_front cb)"
| "circ_step cb Count = Some (circ_buf_count cb, cb)"

fun fifo_rel :: "circ_buf option \<Rightarrow> nat \<times> u32 list \<Rightarrow> bool" where
  "fifo_rel None a = False"
| "fifo_rel (Some c) (k, xs) \<longleftrightarrow>
     circ_ok c \<and> Suc k = unat (cb_len c) \<and> unat (cb_len c) dvd 2 ^ 32 \<and> contents c = xs"

lemma circ_step_simulates:
  assumes "fifo_rel cb a"
  shows "\<exists>cb'. circ_step cb q = Some (fst (fifo_spec a q), cb') \<and> fifo_rel cb' (snd (fifo_spec a q))"
proof -
  obtain c k where cb: "cb = Some c" and a: "a = (k, contents c)"
    and ok: "circ_ok c" "Suc k = unat (cb_len c)" "unat (cb_len c) dvd 2 ^ 32"
    using assms by (cases cb; cases a) auto
  show ?thesis
  proof (cases q)
    case (Write v)
    have "length (contents c) \<le> k" using circ_okD(4) [OF ok(1)] ok(2) by simp
    then consider "Suc (length (contents c)) < unat (cb_len c)" | "Suc (length (contents c)) = unat (cb_len c)"
      using ok(2) by linarith
    then show ?thesis
    proof cases
      case 1
      then show ?thesis using circ_buf_write_ok [OF ok(1) 1, of v] ok cb a Write by auto
    next
      case 2
      then show ?thesis using circ_buf_write_full [OF ok(1) 2, of v] ok cb a Write by auto
    qed
  next
    case Read
    then show ?thesis
      using circ_buf_read_ok [OF ok(1), where want = True] circ_buf_read_empty [of c True] ok cb a
      by (cases "contents c") fastforce+
  next
    case Delete_front
    show ?thesis
    proof (cases "contents c" rule: rev_cases)
      case Nil
      then have "cb_n c = 0" using length_contents [of c] by (simp add: unat_eq_0)
      then show ?thesis using Nil ok cb a Delete_front by (simp add: circ_buf_delete_front_def)
    next
      case (snoc vs v)
      then show ?thesis
        using circ_buf_delete_front_ok [OF ok(1) snoc ok(3)] ok cb a Delete_front by auto
    qed
  next
    case Count
    then show ?thesis using ok cb a by (simp add: circ_buf_count_def)
  qed
qed

interpretation cb: data_refinement circ_step fifo_spec fifo_rel
  by unfold_locales (rule circ_step_simulates)

subsection \<open>Properties\<close>



text \<open>
  Without the restriction on the length the removal of the newest value is
  wrong: on a buffer of length 3 that has wrapped around, \<open>circ_buf_delete_front\<close>
  returns 0 but leaves the write index at 0 instead of 2, because
  \<open>(0 - 1) % 3\<close> is computed on unsigned words; the value written next is then
  stored in a place that is not the end of the sequence.
\<close>

theorem circ_buf_delete_front_wraps_wrongly:
  "\<exists>c c1 c2. circ_ok c \<and> contents c = [10, 20] \<and>
     circ_buf_delete_front (Some c) = Some (0, Some c1) \<and>
     circ_buf_write (Some c1) 30 = Some (0, Some c2) \<and> contents c2 = [10, 20]"
proof -
  let ?c = "\<lparr>cb_i_r = 1, cb_i_w = 0, cb_buf = [7, 10, 20], cb_len = 3, cb_n = 2\<rparr>"
  let ?c1 = "\<lparr>cb_i_r = 1, cb_i_w = 0, cb_buf = [7, 10, 20], cb_len = 3, cb_n = 1\<rparr>"
  let ?c2 = "\<lparr>cb_i_r = 1, cb_i_w = 1, cb_buf = [30, 10, 20], cb_len = 3, cb_n = 2\<rparr>"
  have "circ_ok ?c" "contents ?c = [10, 20]" "contents ?c2 = [10, 20]"
    by (simp_all add: circ_ok_def contents_def slot_def upt_rec)
  moreover have "circ_buf_delete_front (Some ?c) = Some (0, Some ?c1)"
    "circ_buf_write (Some ?c1) 30 = Some (0, Some ?c2)"
    by (simp_all add: circ_buf_delete_front_def circ_buf_write_def)
  ultimately show ?thesis by blast
qed

end
