(* ===== verification/HashTable.thy ===== *)
theory HashTable
  imports CircBuffer
begin

text \<open>
  \<open>kern/data_structures/ht.c\<close>: the hash table with separate chaining behind the
  frame manager and the thread pool. A bucket is an \<open>ll_t\<close> that the table owns; by
  the results of \<open>LinkedListCorrect\<close> it is represented by the sequence of its
  cells, each with the addresses of its \<open>ll_node_t\<close> and of its \<open>ht_entry_t\<close> and
  the two fields of the entry. A key is the 32 bits of a \<open>key_t\<close>. The table
  refines a finite map: \<open>ht_map\<close> is the map it stands for.
\<close>

subsection \<open>Model\<close>

record ht_cell =
  c_node :: ptr
  c_entry :: ptr
  c_key :: u32
  c_val :: ptr

record ht =
  ht_size :: u32
  ht_max_size :: u32
  ht_hash :: "u32 \<Rightarrow> u32"
  ht_arr :: "ht_cell list list"

text \<open>
  \<open>mem\<close> says whether the \<open>malloc\<close> of the bucket array succeeds. The array has
  \<open>max_size * sizeof(ll_t)\<close> bytes, computed on 32 bits; if the product wraps around,
  the loop runs past its end.
\<close>

definition ht_init :: "bool \<Rightarrow> ht option \<Rightarrow> u32 \<Rightarrow> (u32 \<Rightarrow> u32) option \<Rightarrow> (int \<times> ht option) option" where
  "ht_init mem t max_size hash = (case (t, hash) of
     (Some t, Some h) \<Rightarrow>
       if max_size = 0 then Some (-1, Some t)
       else if \<not> mem then Some (-2, Some (t\<lparr>ht_arr := []\<rparr>))
       else do {
         c_assert (12 * unat max_size < 2 ^ 32);
         Some (0, Some (t\<lparr>ht_arr := replicate (unat max_size) [], ht_size := 0,
                          ht_max_size := max_size, ht_hash := h\<rparr>))
       }
   | _ \<Rightarrow> Some (-1, t))"

text \<open>
  \<open>t->hash(key) % t->max_size\<close>: the \<open>int\<close> that the hash function returns is
  converted to \<open>uint32_t\<close> before the division, which faults on a table of size 0.
\<close>

definition ht_idx :: "ht \<Rightarrow> u32 \<Rightarrow> nat" where
  "ht_idx t key = unat (ht_hash t key mod ht_max_size t)"

definition ht_bucket :: "ht \<Rightarrow> u32 \<Rightarrow> ht_cell list option" where
  "ht_bucket t key = (if ht_max_size t = 0 \<or> length (ht_arr t) \<le> ht_idx t key then None
     else Some (ht_arr t ! ht_idx t key))"

definition ht_set_bucket :: "ht \<Rightarrow> u32 \<Rightarrow> ht_cell list \<Rightarrow> ht" where
  "ht_set_bucket t key b = t\<lparr>ht_arr := (ht_arr t)[ht_idx t key := b]\<rparr>"

text \<open>\<open>valp\<close> says whether the result argument is not NULL.\<close>

definition ht_get :: "ht option \<Rightarrow> u32 \<Rightarrow> bool \<Rightarrow> (int \<times> ptr option) option" where
  "ht_get t key valp = (case t of
     None \<Rightarrow> Some (-1, None)
   | Some t \<Rightarrow>
       if \<not> valp then Some (-1, None)
       else do {
         b \<leftarrow> ht_bucket t key;
         case List.find (\<lambda>c. c_key c = key) b of
           None \<Rightarrow> Some (-2, None)
         | Some c \<Rightarrow> Some (0, Some (c_val c))
       })"

text \<open>
  \<open>ll_remove\<close> unlinks the first cell with the key. With a buffer \<open>addrs\<close>, the
  addresses of the node and of the entry are written to it instead of being freed.
\<close>

definition ht_remove ::
  "ht option \<Rightarrow> u32 \<Rightarrow> circ_buf option \<Rightarrow> (int \<times> ptr option \<times> ht option \<times> circ_buf option) option" where
  "ht_remove t key addrs = (case t of
     None \<Rightarrow> Some (-1, None, None, addrs)
   | Some t \<Rightarrow> do {
       b \<leftarrow> ht_bucket t key;
       case List.extract (\<lambda>c. c_key c = key) b of
         None \<Rightarrow> Some (-2, None, Some t, addrs)
       | Some (xs, c, ys) \<Rightarrow> do {
           addrs \<leftarrow> (if addrs = None then Some None
                     else do {
                       (_, a) \<leftarrow> circ_buf_write addrs (c_node c);
                       (_, a) \<leftarrow> circ_buf_write a (c_entry c);
                       Some a
                     });
           let t = ht_set_bucket t key (xs @ ys);
           Some (0, Some (c_val c), Some (t\<lparr>ht_size := ht_size t - 1\<rparr>), addrs)
         }
     })"

text \<open>
  \<open>new_e\<close> and \<open>new_node\<close> are the answers of the two \<open>malloc\<close> calls, for the entry
  and for the list node inside \<open>ll_add_last\<close>; 0 is a failure.
\<close>

definition ht_put :: "ptr \<Rightarrow> ptr \<Rightarrow> ht option \<Rightarrow> u32 \<Rightarrow> ptr \<Rightarrow> (int \<times> ht option) option" where
  "ht_put new_e new_node t key val = (case t of
     None \<Rightarrow> Some (-1, None)
   | Some t \<Rightarrow> do {
       (r, _) \<leftarrow> ht_get (Some t) key True;
       if r \<noteq> -2 then Some (-4, Some t)
       else if new_e = NULL then Some (-2, Some t)
       else do {
         b \<leftarrow> ht_bucket t key;
         if new_node = NULL then Some (-3, Some t)
         else do {
           let t = ht_set_bucket t key (b @ [\<lparr>c_node = new_node, c_entry = new_e, c_key = key, c_val = val\<rparr>]);
           Some (0, Some (t\<lparr>ht_size := ht_size t + 1\<rparr>))
         }
       }
     })"

text \<open>
  \<open>ht_put_entry\<close> links a prepared entry with a prepared node (of which the payload
  is the entry): the cell is the argument; \<open>c_node\<close> may be NULL.
\<close>

definition ht_put_entry :: "ht option \<Rightarrow> ht_cell option \<Rightarrow> (int \<times> ht option) option" where
  "ht_put_entry t entry = (case (t, entry) of
     (Some t, Some e) \<Rightarrow> do {
       (r, _) \<leftarrow> ht_get (Some t) (c_key e) True;
       if r \<noteq> -2 then Some (-4, Some t)
       else do {
         b \<leftarrow> ht_bucket t (c_key e);
         if c_node e = NULL then Some (-3, Some t)
         else do {
           let t = ht_set_bucket t (c_key e) (b @ [e]);
           Some (0, Some (t\<lparr>ht_size := ht_size t + 1\<rparr>))
         }
       }
     }
   | _ \<Rightarrow> Some (-1, t))"

text \<open>
  \<open>ht_destroy\<close> frees the node of every cell and the array, in this order; the answer
  lists the nodes given to \<open>free\<close>. The entries are not freed.
\<close>

definition ht_destroy :: "ht option \<Rightarrow> ptr list \<times> ht option" where
  "ht_destroy t = (case t of
     None \<Rightarrow> ([], None)
   | Some t \<Rightarrow> (map c_node (concat (take (unat (ht_max_size t)) (ht_arr t))), Some (t\<lparr>ht_arr := []\<rparr>)))"

subsection \<open>The map a table stands for\<close>

definition ht_map :: "ht \<Rightarrow> u32 \<rightharpoonup> ptr" where
  "ht_map t key = map_option c_val (List.find (\<lambda>c. c_key c = key) (ht_arr t ! ht_idx t key))"

definition ht_ok :: "ht \<Rightarrow> bool" where
  "ht_ok t \<longleftrightarrow> ht_max_size t \<noteq> 0 \<and> length (ht_arr t) = unat (ht_max_size t) \<and>
     (\<forall>i < length (ht_arr t). distinct (map c_key (ht_arr t ! i)) \<and>
        (\<forall>c \<in> set (ht_arr t ! i). ht_idx t (c_key c) = i)) \<and>
     ht_size t = of_nat (length (concat (ht_arr t)))"

lemma ht_idx_less: "ht_ok t \<Longrightarrow> ht_idx t key < length (ht_arr t)"
  by (simp add: ht_ok_def ht_idx_def unat_mod unat_gt_0)

lemma ht_bucket_ok: "ht_ok t \<Longrightarrow> ht_bucket t key = Some (ht_arr t ! ht_idx t key)"
  using ht_idx_less [of t key] by (auto simp: ht_bucket_def ht_ok_def)

lemma ht_okD:
  assumes "ht_ok t" "i < length (ht_arr t)"
  shows "distinct (map c_key (ht_arr t ! i))" "\<And>c. c \<in> set (ht_arr t ! i) \<Longrightarrow> ht_idx t (c_key c) = i"
  using assms by (auto simp: ht_ok_def)

lemma ht_idx_set_bucket [simp]:
  "ht_idx (ht_set_bucket t key b) = ht_idx t"
  "ht_idx (t\<lparr>ht_size := n\<rparr>) = ht_idx t"
  "ht_size (ht_set_bucket t key b) = ht_size t"
  by (simp_all add: ht_idx_def ht_set_bucket_def fun_eq_iff)

lemma length_concat_update:
  "i < length xss \<Longrightarrow> length (concat (xss[i := b])) + length (xss ! i) = length (concat xss) + length b"
  by (induction xss arbitrary: i) (auto split: nat.splits)

text \<open>Replacing one bucket, the way every update of the table works.\<close>

lemma ht_replace_bucket:
  assumes "ht_ok t" "distinct (map c_key b)" "\<And>c. c \<in> set b \<Longrightarrow> ht_idx t (c_key c) = ht_idx t key"
    and "n + of_nat (length (ht_arr t ! ht_idx t key)) = ht_size t + of_nat (length b)"
  shows "ht_ok (ht_set_bucket t key b\<lparr>ht_size := n\<rparr>)"
    and "ht_map (ht_set_bucket t key b\<lparr>ht_size := n\<rparr>) k =
      (if ht_idx t k = ht_idx t key then map_option c_val (List.find (\<lambda>c. c_key c = k) b) else ht_map t k)"
proof -
  have i: "ht_idx t key < length (ht_arr t)" by (rule ht_idx_less [OF assms(1)])
  have "of_nat (length (concat ((ht_arr t)[ht_idx t key := b]))) + of_nat (length (ht_arr t ! ht_idx t key)) =
      (of_nat (length (concat (ht_arr t))) + of_nat (length b) :: u32)"
    using arg_cong [OF length_concat_update [OF i, of b], of "of_nat :: nat \<Rightarrow> u32"] by simp
  then have "n = of_nat (length (concat ((ht_arr t)[ht_idx t key := b])))"
    using assms(1,4) by (simp add: ht_ok_def) (metis add_right_cancel)
  then show "ht_ok (ht_set_bucket t key b\<lparr>ht_size := n\<rparr>)"
    using assms(1-3) i by (auto simp: ht_ok_def ht_set_bucket_def nth_list_update ht_idx_def)
  show "ht_map (ht_set_bucket t key b\<lparr>ht_size := n\<rparr>) k =
      (if ht_idx t k = ht_idx t key then map_option c_val (List.find (\<lambda>c. c_key c = k) b) else ht_map t k)"
    using i by (simp add: ht_map_def ht_set_bucket_def ht_idx_def)
qed

lemma find_key_iff: "List.find (\<lambda>c. c_key c = k) b = None \<longleftrightarrow> k \<notin> c_key ` set b"
  by (auto simp: find_None_iff)

lemma find_append: "List.find P (xs @ ys) = (case List.find P xs of None \<Rightarrow> List.find P ys | Some x \<Rightarrow> Some x)"
  by (induction xs) auto

subsection \<open>What each operation does to the map\<close>

lemma ht_init_ok:
  assumes "ht_init mem (Some t0) m (Some h) = Some (0, Some t)"
  shows "ht_ok t" "ht_map t = Map.empty" "ht_hash t = h"
proof -
  have t: "t = t0\<lparr>ht_arr := replicate (unat m) [], ht_size := 0, ht_max_size := m, ht_hash := h\<rparr>" "m \<noteq> 0"
    using assms by (auto simp: ht_init_def split: if_splits bind_splits)
  then show "ht_ok t" "ht_hash t = h" by (simp_all add: ht_ok_def)
  show "ht_map t = Map.empty"
    using ht_idx_less [OF \<open>ht_ok t\<close>] t(1) by (simp add: ht_map_def fun_eq_iff)
qed

lemma ht_get_map:
  "ht_ok t \<Longrightarrow> ht_get (Some t) key True =
     Some (case ht_map t key of None \<Rightarrow> (-2, None) | Some v \<Rightarrow> (0, Some v))"
  by (simp add: ht_get_def ht_bucket_ok ht_map_def split: option.splits)

lemma ht_insert_ok:
  assumes "ht_ok t" "ht_map t (c_key e) = None"
  defines "t' \<equiv> ht_set_bucket t (c_key e) (ht_arr t ! ht_idx t (c_key e) @ [e])\<lparr>ht_size := ht_size t + 1\<rparr>"
  shows "ht_ok t' \<and> ht_map t' = (ht_map t)(c_key e \<mapsto> c_val e) \<and> ht_hash t' = ht_hash t"
proof -
  let ?b = "ht_arr t ! ht_idx t (c_key e)"
  have fresh: "c_key e \<notin> c_key ` set ?b" using assms(2) by (simp add: ht_map_def find_key_iff)
  note old = ht_okD [OF assms(1) ht_idx_less [OF assms(1), of "c_key e"]]
  have d: "distinct (map c_key (?b @ [e]))" using old(1) fresh by simp
  have i: "\<And>c. c \<in> set (?b @ [e]) \<Longrightarrow> ht_idx t (c_key c) = ht_idx t (c_key e)" using old(2) by auto
  have n: "ht_size t + 1 + of_nat (length ?b) = ht_size t + of_nat (length (?b @ [e]))" by simp
  have "ht_ok t'" unfolding t'_def by (rule ht_replace_bucket(1) [OF assms(1) d i n])
  have map: "ht_map t' k = (if ht_idx t k = ht_idx t (c_key e)
      then map_option c_val (List.find (\<lambda>c. c_key c = k) (?b @ [e])) else ht_map t k)" for k
    unfolding t'_def by (rule ht_replace_bucket(2) [OF assms(1) d i n])
  have "ht_map t' = (ht_map t)(c_key e \<mapsto> c_val e)"
  proof
    fix k show "ht_map t' k = ((ht_map t)(c_key e \<mapsto> c_val e)) k"
      unfolding map using assms(2) by (auto simp: ht_map_def find_append split: option.splits)
  qed
  with \<open>ht_ok t'\<close> show ?thesis by (simp add: t'_def ht_set_bucket_def)
qed

lemma ht_put_map:
  assumes "ht_ok t"
  shows "ht_map t key \<noteq> None \<Longrightarrow> ht_put e n (Some t) key v = Some (-4, Some t)"
    and "ht_map t key = None \<Longrightarrow> e \<noteq> NULL \<Longrightarrow> n \<noteq> NULL \<Longrightarrow>
      \<exists>t'. ht_put e n (Some t) key v = Some (0, Some t') \<and> ht_ok t' \<and> ht_map t' = (ht_map t)(key \<mapsto> v) \<and>
        ht_hash t' = ht_hash t"
    and "ht_map t key = None \<Longrightarrow> e = NULL \<Longrightarrow> ht_put e n (Some t) key v = Some (-2, Some t)"
    and "ht_map t key = None \<Longrightarrow> e \<noteq> NULL \<Longrightarrow> n = NULL \<Longrightarrow> ht_put e n (Some t) key v = Some (-3, Some t)"
  using ht_insert_ok [OF assms, of "\<lparr>c_node = n, c_entry = e, c_key = key, c_val = v\<rparr>"]
  by (auto simp: ht_put_def ht_get_map [OF assms] ht_bucket_ok [OF assms] split: option.splits)

lemma ht_put_entry_map:
  assumes "ht_ok t"
  shows "ht_map t (c_key e) \<noteq> None \<Longrightarrow> ht_put_entry (Some t) (Some e) = Some (-4, Some t)"
    and "ht_map t (c_key e) = None \<Longrightarrow> c_node e \<noteq> NULL \<Longrightarrow>
      \<exists>t'. ht_put_entry (Some t) (Some e) = Some (0, Some t') \<and> ht_ok t' \<and>
        ht_map t' = (ht_map t)(c_key e \<mapsto> c_val e) \<and> ht_hash t' = ht_hash t"
    and "ht_map t (c_key e) = None \<Longrightarrow> c_node e = NULL \<Longrightarrow> ht_put_entry (Some t) (Some e) = Some (-3, Some t)"
  using ht_insert_ok [OF assms, of e]
  by (auto simp: ht_put_entry_def ht_get_map [OF assms] ht_bucket_ok [OF assms] split: option.splits)

lemma ht_delete_ok:
  assumes "ht_ok t" "ht_arr t ! ht_idx t key = xs @ c # ys" "c_key c = key"
  defines "t' \<equiv> ht_set_bucket t key (xs @ ys)\<lparr>ht_size := ht_size t - 1\<rparr>"
  shows "ht_ok t' \<and> ht_map t' = (ht_map t)(key := None) \<and> ht_hash t' = ht_hash t"
proof -
  note old = ht_okD [OF assms(1) ht_idx_less [OF assms(1), of key], unfolded assms(2)]
  have key: "key \<notin> c_key ` set (xs @ ys)" using old(1) assms(3) by auto
  have "ht_ok t'" and map: "\<And>k. ht_map t' k = (if ht_idx t k = ht_idx t key
      then map_option c_val (List.find (\<lambda>c. c_key c = k) (xs @ ys)) else ht_map t k)"
    unfolding t'_def using ht_replace_bucket [OF assms(1), of "xs @ ys" key "ht_size t - 1"] old
    by (auto simp: assms(2) algebra_simps)
  moreover have "ht_map t' = (ht_map t)(key := None)"
  proof
    fix k show "ht_map t' k = ((ht_map t)(key := None)) k"
    proof (cases "k = key")
      case True
      then show ?thesis using key by (auto simp: map find_key_iff)
    next
      case False
      then show ?thesis
        unfolding map using assms(2,3) by (auto simp: ht_map_def find_append split: option.splits)
    qed
  qed
  ultimately show ?thesis by (simp add: t'_def ht_set_bucket_def)
qed

lemma ht_extract_cases:
  assumes "ht_ok t"
  obtains (missing) "ht_map t key = None" "List.extract (\<lambda>c. c_key c = key) (ht_arr t ! ht_idx t key) = None"
  | (found) xs c ys where "ht_map t key = Some (c_val c)" "c_key c = key"
    "ht_arr t ! ht_idx t key = xs @ c # ys"
    "List.extract (\<lambda>c. c_key c = key) (ht_arr t ! ht_idx t key) = Some (xs, c, ys)"
proof (cases "List.extract (\<lambda>c. c_key c = key) (ht_arr t ! ht_idx t key)")
  case None
  then show ?thesis by (intro missing) (auto simp: ht_map_def extract_None_iff find_key_iff)
next
  case (Some r)
  then obtain xs c ys where r: "r = (xs, c, ys)" by (cases r)
  from Some r have "ht_arr t ! ht_idx t key = xs @ c # ys" "c_key c = key" "key \<notin> c_key ` set xs"
    by (auto simp: extract_Some_iff)
  moreover from this have "ht_map t key = Some (c_val c)"
    by (auto simp: ht_map_def find_append find_key_iff [THEN iffD2])
  ultimately show ?thesis using found Some r by blast
qed

lemma ht_remove_map:
  assumes "ht_ok t"
  shows "ht_map t key = None \<Longrightarrow> ht_remove (Some t) key None = Some (-2, None, Some t, None)"
    and "ht_map t key = Some v \<Longrightarrow>
      \<exists>t'. ht_remove (Some t) key None = Some (0, Some v, Some t', None) \<and> ht_ok t' \<and>
        ht_map t' = (ht_map t)(key := None) \<and> ht_hash t' = ht_hash t"
  using ht_delete_ok [OF assms]
  by (cases rule: ht_extract_cases [OF assms, of key];
      fastforce simp: ht_remove_def ht_bucket_ok [OF assms])+

lemma ht_remove_map_addrs:
  assumes "ht_ok t" "ht_map t key = Some v" "circ_ok cb" "length (contents cb) + 2 < unat (cb_len cb)"
  shows "\<exists>t' n e cb'. ht_remove (Some t) key (Some cb) = Some (0, Some v, Some t', Some cb') \<and> ht_ok t' \<and>
    ht_map t' = (ht_map t)(key := None) \<and> ht_hash t' = ht_hash t \<and> circ_ok cb' \<and>
    contents cb' = contents cb @ [n, e] \<and> cb_len cb' = cb_len cb"
  using assms(1)
proof (cases rule: ht_extract_cases [where key = key])
  case (found xs c ys)
  obtain c1 where c1: "circ_buf_write (Some cb) (c_node c) = Some (0, Some c1)" "circ_ok c1"
    "contents c1 = contents cb @ [c_node c]" "cb_len c1 = cb_len cb"
    using circ_buf_write_ok [OF assms(3), of "c_node c"] assms(4) by auto
  obtain c2 where c2: "circ_buf_write (Some c1) (c_entry c) = Some (0, Some c2)" "circ_ok c2"
    "contents c2 = contents c1 @ [c_entry c]" "cb_len c2 = cb_len c1"
    using circ_buf_write_ok [OF c1(2), of "c_entry c"] assms(4) c1(3,4) by auto
  show ?thesis
    using ht_delete_ok [OF assms(1) found(3,2)] found assms(2) c1 c2
    by (auto simp: ht_remove_def ht_bucket_ok [OF assms(1)])
qed (use assms(2) in simp)

subsection \<open>The interface: a finite map\<close>

datatype ht_op = Get u32 | Put ptr ptr u32 ptr | Remove u32

fun ht_step :: "ht option \<Rightarrow> ht_op \<Rightarrow> ((int \<times> ptr option) \<times> ht option) option" where
  "ht_step t (Get k) = map_option (\<lambda>a. (a, t)) (ht_get t k True)"
| "ht_step t (Put e n k v) = map_option (\<lambda>(r, t'). ((r, None), t')) (ht_put e n t k v)"
| "ht_step t (Remove k) = map_option (\<lambda>(r, v, t', _). ((r, v), t')) (ht_remove t k None)"

fun map_spec :: "(u32 \<rightharpoonup> ptr) \<Rightarrow> ht_op \<Rightarrow> (int \<times> ptr option) \<times> (u32 \<rightharpoonup> ptr)" where
  "map_spec m (Get k) = ((case m k of None \<Rightarrow> (-2, None) | Some v \<Rightarrow> (0, Some v)), m)"
| "map_spec m (Put e n k v) =
     (if m k \<noteq> None then ((-4, None), m)
      else if e = NULL then ((-2, None), m)
      else if n = NULL then ((-3, None), m)
      else ((0, None), m(k \<mapsto> v)))"
| "map_spec m (Remove k) = (case m k of None \<Rightarrow> ((-2, None), m) | Some v \<Rightarrow> ((0, Some v), m(k := None)))"

definition ht_rel :: "ht option \<Rightarrow> (u32 \<rightharpoonup> ptr) \<Rightarrow> bool" where
  "ht_rel t m \<longleftrightarrow> (\<exists>t0. t = Some t0 \<and> ht_ok t0 \<and> ht_map t0 = m)"

interpretation ht: data_refinement ht_step map_spec ht_rel
proof
  fix t m q assume "ht_rel t m"
  then obtain t0 where t: "t = Some t0" "ht_ok t0" "m = ht_map t0" by (auto simp: ht_rel_def)
  show "\<exists>s'. ht_step t q = Some (fst (map_spec m q), s') \<and> ht_rel s' (snd (map_spec m q))"
  proof (cases q)
    case (Get k)
    then show ?thesis using t by (simp add: ht_get_map ht_rel_def)
  next
    case (Put e n k v)
    show ?thesis using ht_put_map [OF t(2), of k e n v] t Put
      by (cases "ht_map t0 k = None"; cases "e = NULL"; cases "n = NULL") (auto simp: ht_rel_def)
  next
    case (Remove k)
    show ?thesis using ht_remove_map [OF t(2), of k] t Remove
      by (cases "ht_map t0 k") (auto simp: ht_rel_def)
  qed
qed

subsection \<open>Properties\<close>

text \<open>
  C11: The hash table is a finite map. After \<open>ht_init\<close> with any number of buckets
  and any hash function, every sequence of \<open>ht_get\<close>, \<open>ht_put\<close> and \<open>ht_remove\<close>
  returns and answers as the map does, error codes included: -2 for a missing key,
  -4 for a key that is present, -2 or -3 when one of the two allocations of a
  \<open>ht_put\<close> fails, which then changes nothing.
\<close>

theorem ht_refines_map:
  assumes "ht_init True (Some t0) m (Some h) = Some (0, Some t)"
  shows "\<exists>t'. run_ops ht_step (Some t) ops = Some (fst (run_spec map_spec Map.empty ops), t') \<and>
    ht_rel t' (snd (run_spec map_spec Map.empty ops))"
  by (rule ht.run_simulates) (simp add: ht_rel_def ht_init_ok [OF assms])

lemma ex_table_init:
  "ht_init True (Some \<lparr>ht_size = 9, ht_max_size = 9, ht_hash = (\<lambda>_. 0), ht_arr = []\<rparr>) 2 (Some (\<lambda>k. k)) =
    Some (0, Some \<lparr>ht_size = 0, ht_max_size = 2, ht_hash = (\<lambda>k. k), ht_arr = [[], []]\<rparr>)"
proof -
  have "replicate 2 [] = [[], []]" by (simp add: numeral_2_eq_2)
  then show ?thesis by (simp add: ht_init_def)
qed

theorem ht_refines_map_witness:
  "\<exists>t'. run_ops ht_step (Some \<lparr>ht_size = 0, ht_max_size = 2, ht_hash = (\<lambda>k. k), ht_arr = [[], []]\<rparr>)
      [Put 100 200 1 7, Put 110 210 3 8, Put 120 220 1 9, Remove 1, Get 1, Get 3] =
    Some ([(0, None), (0, None), (-4, None), (0, Some 7), (-2, None), (0, Some 8)], t') \<and>
    ht_rel t' [3 \<mapsto> 8]"
  using ht_refines_map [OF ex_table_init, of
      "[Put 100 200 1 7, Put 110 210 3 8, Put 120 220 1 9, Remove 1, Get 1, Get 3]"]
  by (simp add: fun_upd_twist)

end
