(* ===== verification/FrameManager.thy ===== *)
theory FrameManager
  imports HashTable Locks
begin

text \<open>
  \<open>kern/virtual_mem_mgmt/frame_manager.c\<close>: the binary buddy allocator of physical
  frames. The state holds the struct \<open>frame_manager_t\<close> (three hash tables and the
  bins of free frames) and the heap objects it owns: \<open>frames\<close> maps the address of a
  \<open>frame_t\<close> to its fields and \<open>fnodes\<close> the address of an \<open>ll_node_t\<close> to the frame
  it carries. A bin is the sequence of its nodes; by \<open>LinkedListCorrect\<close> the list
  operations act on that sequence as written here, and unlinking a node that is not
  in the list is an error (\<open>None\<close>).

  \<open>env\<close> carries the scheduler's state that the mutex functions read. The NULL check
  on the address of the frame manager, which is a global of the kernel, is left out.
\<close>

definition PAGE_SIZE :: u32 where
  "PAGE_SIZE = 4096"

definition TWO_POW :: "nat \<Rightarrow> u32" where
  "TWO_POW i = push_bit i 1"

datatype frame_status = FRAME_ALLOC | FRAME_DEALLOC | FRAME_PARENT

record frame =
  f_addr :: u32
  f_num_pages :: u32
  f_status :: frame_status
  f_i :: nat
  f_buddy :: ptr
  f_parent :: ptr

record frame_manager =
  fm_m :: mutex
  fm_allocated :: ht
  fm_deallocated :: ht
  fm_parents :: ht
  fm_bins :: "ptr list list"
  fm_num_bins :: u32
  frames :: "ptr \<rightharpoonup> frame"
  fnodes :: "ptr \<rightharpoonup> ptr"
  fm_mcalls :: nat

record kenv =
  k_started :: bool
  k_tid :: int

subsection \<open>Heap and list primitives\<close>

definition malloc_frame :: "allocator \<Rightarrow> frame \<Rightarrow> frame_manager \<Rightarrow> ptr \<times> frame_manager" where
  "malloc_frame al junk fm =
     (let p = al (fm_mcalls fm) (\<lambda>q. frames fm q \<noteq> None); fm = fm\<lparr>fm_mcalls := Suc (fm_mcalls fm)\<rparr>
      in if p = NULL then (NULL, fm) else (p, fm\<lparr>frames := (frames fm)(p \<mapsto> junk)\<rparr>))"

definition malloc_fnode :: "allocator \<Rightarrow> frame_manager \<Rightarrow> ptr \<times> frame_manager" where
  "malloc_fnode al fm =
     (let p = al (fm_mcalls fm) (\<lambda>q. fnodes fm q \<noteq> None); fm = fm\<lparr>fm_mcalls := Suc (fm_mcalls fm)\<rparr>
      in if p = NULL then (NULL, fm) else (p, fm\<lparr>fnodes := (fnodes fm)(p \<mapsto> NULL)\<rparr>))"

definition frame_init :: "ptr \<Rightarrow> u32 \<Rightarrow> u32 \<Rightarrow> frame_status \<Rightarrow> nat \<Rightarrow> ptr \<Rightarrow> ptr \<Rightarrow> frame_manager \<Rightarrow>
    int \<times> frame_manager" where
  "frame_init frame addr num_pages status i buddy parent fm =
     (if frame = NULL then (-1, fm)
      else (0, fm\<lparr>frames := (frames fm)(frame \<mapsto> \<lparr>f_addr = addr, f_num_pages = num_pages,
             f_status = status, f_i = i, f_buddy = buddy, f_parent = parent\<rparr>)\<rparr>))"

text \<open>\<open>ll_node_init(node, frame)\<close>, of which the callers ignore the return code.\<close>

definition fnode_init :: "ptr \<Rightarrow> ptr \<Rightarrow> frame_manager \<Rightarrow> frame_manager" where
  "fnode_init node frame fm =
     (if node = NULL then fm else fm\<lparr>fnodes := (fnodes fm)(node \<mapsto> frame)\<rparr>)"

definition set_status :: "ptr \<Rightarrow> frame_status \<Rightarrow> frame_manager \<Rightarrow> frame_manager option" where
  "set_status p st fm = (case frames fm p of
     None \<Rightarrow> None | Some fr \<Rightarrow> Some (fm\<lparr>frames := (frames fm)(p \<mapsto> fr\<lparr>f_status := st\<rparr>)\<rparr>))"

definition get_bin :: "nat \<Rightarrow> frame_manager \<Rightarrow> ptr list option" where
  "get_bin i fm = (if i < length (fm_bins fm) then Some (fm_bins fm ! i) else None)"

definition bin_link_last :: "nat \<Rightarrow> ptr \<Rightarrow> frame_manager \<Rightarrow> frame_manager option" where
  "bin_link_last i node fm = do {
     b \<leftarrow> get_bin i fm;
     Some (if node = NULL then fm else fm\<lparr>fm_bins := (fm_bins fm)[i := b @ [node]]\<rparr>)
   }"

definition bin_unlink :: "nat \<Rightarrow> ptr \<Rightarrow> frame_manager \<Rightarrow> frame_manager option" where
  "bin_unlink i node fm = do {
     b \<leftarrow> get_bin i fm;
     c_assert (node \<in> set b);
     Some (fm\<lparr>fm_bins := (fm_bins fm)[i := remove1 node b]\<rparr>)
   }"

text \<open>
  \<open>ht_remove(t, key, &node, NULL)\<close> and \<open>ht_put(t, key, node)\<close>. The addresses of
  the table's own cells are not tracked: any answer of the allocator is allowed for
  them.
\<close>

definition tbl_remove :: "ht \<Rightarrow> u32 \<Rightarrow> (int \<times> ptr option \<times> ht) option" where
  "tbl_remove t key = do {
     (r, v, t', _) \<leftarrow> ht_remove (Some t) key None;
     t' \<leftarrow> t';
     Some (r, v, t')
   }"

definition tbl_put :: "allocator \<Rightarrow> nat \<Rightarrow> ht \<Rightarrow> u32 \<Rightarrow> ptr \<Rightarrow> (int \<times> ht) option" where
  "tbl_put al k t key v = do {
     (r, t') \<leftarrow> ht_put (al k (\<lambda>_. False)) (al (Suc k) (\<lambda>_. False)) (Some t) key v;
     t' \<leftarrow> t';
     Some (r, t')
   }"

definition put_deallocated :: "allocator \<Rightarrow> u32 \<Rightarrow> ptr \<Rightarrow> frame_manager \<Rightarrow> (int \<times> frame_manager) option" where
  "put_deallocated al key v fm = do {
     (r, t) \<leftarrow> tbl_put al (fm_mcalls fm) (fm_deallocated fm) key v;
     Some (r, fm\<lparr>fm_deallocated := t, fm_mcalls := fm_mcalls fm + 2\<rparr>)
   }"

definition put_allocated :: "allocator \<Rightarrow> u32 \<Rightarrow> ptr \<Rightarrow> frame_manager \<Rightarrow> (int \<times> frame_manager) option" where
  "put_allocated al key v fm = do {
     (r, t) \<leftarrow> tbl_put al (fm_mcalls fm) (fm_allocated fm) key v;
     Some (r, fm\<lparr>fm_allocated := t, fm_mcalls := fm_mcalls fm + 2\<rparr>)
   }"

definition put_parents :: "allocator \<Rightarrow> u32 \<Rightarrow> ptr \<Rightarrow> frame_manager \<Rightarrow> (int \<times> frame_manager) option" where
  "put_parents al key v fm = do {
     (r, t) \<leftarrow> tbl_put al (fm_mcalls fm) (fm_parents fm) key v;
     Some (r, fm\<lparr>fm_parents := t, fm_mcalls := fm_mcalls fm + 2\<rparr>)
   }"

definition remove_deallocated :: "u32 \<Rightarrow> frame_manager \<Rightarrow> (int \<times> ptr option \<times> frame_manager) option" where
  "remove_deallocated key fm = do {
     (r, v, t) \<leftarrow> tbl_remove (fm_deallocated fm) key;
     Some (r, v, fm\<lparr>fm_deallocated := t\<rparr>)
   }"

definition remove_allocated :: "u32 \<Rightarrow> frame_manager \<Rightarrow> (int \<times> ptr option \<times> frame_manager) option" where
  "remove_allocated key fm = do {
     (r, v, t) \<leftarrow> tbl_remove (fm_allocated fm) key;
     Some (r, v, fm\<lparr>fm_allocated := t\<rparr>)
   }"

definition remove_parents :: "u32 \<Rightarrow> frame_manager \<Rightarrow> (int \<times> ptr option \<times> frame_manager) option" where
  "remove_parents key fm = do {
     (r, v, t) \<leftarrow> tbl_remove (fm_parents fm) key;
     Some (r, v, fm\<lparr>fm_parents := t\<rparr>)
   }"

definition free_frame :: "ptr \<Rightarrow> frame_manager \<Rightarrow> frame_manager" where
  "free_frame p fm = fm\<lparr>frames := (frames fm)(p := None)\<rparr>"

definition free_fnode :: "ptr \<Rightarrow> frame_manager \<Rightarrow> frame_manager" where
  "free_fnode p fm = fm\<lparr>fnodes := (fnodes fm)(p := None)\<rparr>"

subsection \<open>Hash functions and keys\<close>

definition address_hash :: "u32 \<Rightarrow> u32" where
  "address_hash addr = addr"

text \<open>\<open>(int)addr >> PAGE_SHIFT\<close> is an arithmetic shift.\<close>

definition address_shift_hash :: "u32 \<Rightarrow> u32" where
  "address_shift_hash addr = signed_drop_bit 12 addr"

text \<open>\<open>frame->addr | frame->i\<close>\<close>

definition parent_key :: "frame \<Rightarrow> u32" where
  "parent_key fr = f_addr fr OR of_nat (f_i fr)"

subsection \<open>Coalescing\<close>

text \<open>The \<open>else\<close> branch of \<open>request_join\<close>: the frame becomes a free block.\<close>

definition join_leaf :: "allocator \<Rightarrow> ptr \<Rightarrow> frame \<Rightarrow> frame_manager \<Rightarrow> (int \<times> frame_manager) option" where
  "join_leaf al frame fr fm = do {
     (r, node, fm) \<leftarrow> remove_parents (parent_key fr) fm;
     c_assert (\<not> r < 0);
     node \<leftarrow> node;
     (r, fm) \<leftarrow> put_deallocated al (f_addr fr) node fm;
     c_assert (\<not> r < 0);
     fm \<leftarrow> set_status frame FRAME_DEALLOC fm;
     fm \<leftarrow> bin_link_last (f_i fr) node fm;
     Some (0, fm)
   }"

partial_function (option) request_join :: "allocator \<Rightarrow> ptr \<Rightarrow> frame_manager \<Rightarrow> (int \<times> frame_manager) option" where
  "request_join al frame fm =
     (if frame = NULL then Some (-1, fm)
      else do {
        fr \<leftarrow> frames fm frame;
        c_assert (f_status fr = FRAME_PARENT);
        buddy \<leftarrow> (if f_buddy fr = NULL then Some None else map_option Some (frames fm (f_buddy fr)));
        case buddy of
          Some bf \<Rightarrow>
            if f_status bf = FRAME_DEALLOC then do {
              c_assert (f_parent fr = f_parent bf \<and> f_parent fr \<noteq> NULL);
              let parent_frame = f_parent fr;
              (r, curr_node, fm) \<leftarrow> remove_parents (parent_key fr) fm;
              c_assert (\<not> r < 0);
              curr_node \<leftarrow> curr_node;
              (r, buddy_node, fm) \<leftarrow> remove_deallocated (f_addr bf) fm;
              c_assert (\<not> r < 0);
              buddy_node \<leftarrow> buddy_node;
              fm \<leftarrow> bin_unlink (f_i fr) buddy_node fm;
              let fm = free_fnode curr_node (free_fnode buddy_node
                         (free_frame frame (free_frame (f_buddy fr) fm)));
              (r, fm) \<leftarrow> request_join al parent_frame fm;
              c_assert (\<not> r < 0);
              Some (0, fm)
            } else join_leaf al frame fr fm
        | None \<Rightarrow> join_leaf al frame fr fm
      })"


subsection \<open>Splitting\<close>

text \<open>
  The part of \<open>request_split\<close> that creates the two halves of the block at
  \<open>parent_frame\<close> and registers them, and the part after the recursive call as a
  whole: split the first block of bin \<open>i\<close>.
\<close>

definition split_children :: "allocator \<Rightarrow> frame \<Rightarrow> nat \<Rightarrow> ptr \<Rightarrow> frame \<Rightarrow> frame_manager \<Rightarrow>
    (int \<times> frame_manager) option" where
  "split_children al junk i parent_frame pf fm = do {
     let (left_frame, fm) = malloc_frame al junk fm;
     let (right_frame, fm) = malloc_frame al junk fm;
     let (_, fm) = frame_init left_frame (f_addr pf) (f_num_pages pf div 2) FRAME_DEALLOC (i - 1)
                     right_frame parent_frame fm;
     let (_, fm) = frame_init right_frame (f_addr pf + (f_num_pages pf div 2) * PAGE_SIZE)
                     (f_num_pages pf div 2) FRAME_DEALLOC (i - 1) left_frame parent_frame fm;
     let (left_node, fm) = malloc_fnode al fm;
     let (right_node, fm) = malloc_fnode al fm;
     let fm = fnode_init left_node left_frame fm;
     fm \<leftarrow> bin_link_last (i - 1) left_node fm;
     let fm = fnode_init right_node right_frame fm;
     fm \<leftarrow> bin_link_last (i - 1) right_node fm;
     lf \<leftarrow> frames fm left_frame;
     (_, fm) \<leftarrow> put_deallocated al (f_addr lf) left_node fm;
     rf \<leftarrow> frames fm right_frame;
     (_, fm) \<leftarrow> put_deallocated al (f_addr rf) right_node fm;
     Some (0, fm)
   }"

definition split_block :: "allocator \<Rightarrow> frame \<Rightarrow> nat \<Rightarrow> frame_manager \<Rightarrow> (int \<times> frame_manager) option" where
  "split_block al junk i fm = do {
     b \<leftarrow> get_bin i fm;
     c_assert (b \<noteq> []);
     let parent_node = hd b;
     fm \<leftarrow> bin_unlink i parent_node fm;
     parent_frame \<leftarrow> fnodes fm parent_node;
     pf \<leftarrow> frames fm parent_frame;
     c_assert (f_status pf = FRAME_DEALLOC);
     (_, _, fm) \<leftarrow> remove_deallocated (f_addr pf) fm;
     (_, fm) \<leftarrow> put_parents al (parent_key pf) parent_node fm;
     fm \<leftarrow> set_status parent_frame FRAME_PARENT fm;
     split_children al junk i parent_frame pf fm
   }"

function request_split :: "allocator \<Rightarrow> frame \<Rightarrow> nat \<Rightarrow> frame_manager \<Rightarrow> (int \<times> frame_manager) option" where
  "request_split al junk i fm =
     (if i \<ge> unat (fm_num_bins fm) \<or> i = 0 then Some (-1, fm)
      else do {
        b \<leftarrow> get_bin i fm;
        (r, fm) \<leftarrow> (if b = [] then request_split al junk (i + 1) fm else Some (0, fm));
        if r < 0 then Some (-2, fm) else split_block al junk i fm
      })"
  by pat_completeness auto
termination
  by (relation "measure (\<lambda>(al, junk, i, fm). unat (fm_num_bins fm) - i)") auto

declare request_split.simps [simp del]

subsection \<open>Allocation and deallocation\<close>

text \<open>The loop that finds the bin of the smallest block with \<open>num_pages\<close> pages.\<close>

fun find_bin :: "u32 \<Rightarrow> nat \<Rightarrow> nat" where
  "find_bin num_pages 0 = 0"
| "find_bin num_pages (Suc j) =
     (if num_pages \<le> TWO_POW (Suc j) \<and> num_pages > TWO_POW j then Suc j else find_bin num_pages j)"

definition fm_lock :: "kenv \<Rightarrow> frame_manager \<Rightarrow> frame_manager option" where
  "fm_lock env fm = do {
     m \<leftarrow> mutex_lock (k_started env) (k_tid env) (fm_m fm);
     Some (fm\<lparr>fm_m := m\<rparr>)
   }"

definition fm_unlock :: "kenv \<Rightarrow> frame_manager \<Rightarrow> frame_manager" where
  "fm_unlock env fm = fm\<lparr>fm_m := mutex_unlock (k_started env) (fm_m fm)\<rparr>"

text \<open>The part of \<open>fm_alloc\<close> that takes the first block of bin \<open>j\<close>; the answer is \<open>*p_addr\<close>.\<close>

definition take_block :: "allocator \<Rightarrow> nat \<Rightarrow> frame_manager \<Rightarrow> (u32 \<times> frame_manager) option" where
  "take_block al j fm = do {
     b \<leftarrow> get_bin j fm;
     c_assert (b \<noteq> []);
     let node = hd b;
     fm \<leftarrow> bin_unlink j node fm;
     frame \<leftarrow> fnodes fm node;
     fr \<leftarrow> frames fm frame;
     c_assert (f_status fr = FRAME_DEALLOC);
     (_, _, fm) \<leftarrow> remove_deallocated (f_addr fr) fm;
     (_, fm) \<leftarrow> put_allocated al (f_addr fr) node fm;
     fm \<leftarrow> set_status frame FRAME_ALLOC fm;
     Some (f_addr fr, fm)
   }"

definition fm_alloc :: "allocator \<Rightarrow> frame \<Rightarrow> kenv \<Rightarrow> u32 \<Rightarrow> frame_manager \<Rightarrow>
    (int \<times> u32 option \<times> frame_manager) option" where
  "fm_alloc al junk env num_pages fm = do {
     fm \<leftarrow> fm_lock env fm;
     if num_pages > TWO_POW (unat (fm_num_bins fm) - 1) then Some (-1, None, fm_unlock env fm)
     else if num_pages = 0 then Some (-1, None, fm_unlock env fm)
     else do {
       let j = find_bin num_pages (unat (fm_num_bins fm) - 1);
       b \<leftarrow> get_bin j fm;
       (r, fm) \<leftarrow> (if b = [] then request_split al junk (j + 1) fm else Some (0, fm));
       if r < 0 then Some (-2, None, fm_unlock env fm)
       else do {
         (a, fm) \<leftarrow> take_block al j fm;
         Some (0, Some a, fm_unlock env fm)
       }
     }
   }"

text \<open>\<open>fm_dealloc\<close> between \<open>mutex_lock\<close> and \<open>mutex_unlock\<close>, and as a whole.\<close>

definition release_leaf :: "allocator \<Rightarrow> ptr \<Rightarrow> frame \<Rightarrow> ptr \<Rightarrow> frame_manager \<Rightarrow> (int \<times> frame_manager) option" where
  "release_leaf al frame fr node fm = do {
     (_, fm) \<leftarrow> put_deallocated al (f_addr fr) node fm;
     fm \<leftarrow> bin_link_last (f_i fr) node fm;
     fm \<leftarrow> set_status frame FRAME_DEALLOC fm;
     Some (0, fm)
   }"

definition release_block :: "allocator \<Rightarrow> u32 \<Rightarrow> frame_manager \<Rightarrow> (int \<times> frame_manager) option" where
  "release_block al p_addr fm = do {
     (r, node, fm) \<leftarrow> remove_allocated p_addr fm;
     if r < 0 then Some (-2, fm)
     else do {
       node \<leftarrow> node;
       frame \<leftarrow> fnodes fm node;
       fr \<leftarrow> frames fm frame;
       c_assert (f_status fr = FRAME_ALLOC);
       let buddy_frame = f_buddy fr;
       bf \<leftarrow> (if buddy_frame = NULL then Some None else map_option Some (frames fm buddy_frame));
       c_assert (case bf of None \<Rightarrow> True | Some bf \<Rightarrow> f_parent bf = f_parent fr \<and> f_i bf = f_i fr \<and>
                   f_num_pages bf = f_num_pages fr \<and> f_buddy bf = frame);
       case bf of
         Some bf \<Rightarrow>
           if f_status bf = FRAME_DEALLOC then do {
             let parent_frame = f_parent fr;
             (r, buddy_node, fm) \<leftarrow> remove_deallocated (f_addr bf) fm;
             c_assert (\<not> r < 0);
             buddy_node \<leftarrow> buddy_node;
             fm \<leftarrow> bin_unlink (f_i bf) buddy_node fm;
             let fm = free_fnode node (free_fnode buddy_node (free_frame buddy_frame (free_frame frame fm)));
             (_, fm) \<leftarrow> request_join al parent_frame fm;
             Some (0, fm)
           } else release_leaf al frame fr node fm
       | None \<Rightarrow> release_leaf al frame fr node fm
     }
   }"

definition fm_dealloc :: "allocator \<Rightarrow> kenv \<Rightarrow> u32 \<Rightarrow> frame_manager \<Rightarrow> (int \<times> frame_manager) option" where
  "fm_dealloc al env p_addr fm = do {
     fm \<leftarrow> fm_lock env fm;
     (r, fm) \<leftarrow> release_block al p_addr fm;
     Some (r, fm_unlock env fm)
   }"

subsection \<open>Initialisation\<close>

text \<open>
  \<open>fm_init_user_space\<close>: the inner loop on one bin and the outer loop over the bins,
  from the largest down. \<open>ums\<close> is \<open>USER_MEM_START\<close> of the kernel's configuration.
\<close>

definition add_block :: "allocator \<Rightarrow> frame \<Rightarrow> nat \<Rightarrow> u32 \<Rightarrow> frame_manager \<Rightarrow> frame_manager option" where
  "add_block al junk i p_addr fm = do {
     let (new_frame, fm) = malloc_frame al junk fm;
     let (_, fm) = frame_init new_frame p_addr (TWO_POW i) FRAME_DEALLOC i NULL NULL fm;
     let (node, fm) = malloc_fnode al fm;
     let fm = fnode_init node new_frame fm;
     fm \<leftarrow> bin_link_last i node fm;
     (_, fm) \<leftarrow> put_deallocated al p_addr node fm;
     Some fm
   }"

partial_function (option) init_bin_loop ::
  "allocator \<Rightarrow> frame \<Rightarrow> nat \<Rightarrow> u32 \<Rightarrow> u32 \<Rightarrow> frame_manager \<Rightarrow> (u32 \<times> u32 \<times> frame_manager) option" where
  "init_bin_loop al junk i pages_remaining p_addr fm =
     (if pages_remaining \<ge> TWO_POW i then do {
        fm \<leftarrow> add_block al junk i p_addr fm;
        init_bin_loop al junk i (pages_remaining - TWO_POW i) (p_addr + PAGE_SIZE * TWO_POW i) fm
      } else Some (pages_remaining, p_addr, fm))"

fun init_loop :: "allocator \<Rightarrow> frame \<Rightarrow> nat \<Rightarrow> u32 \<Rightarrow> u32 \<Rightarrow> frame_manager \<Rightarrow> frame_manager option" where
  "init_loop al junk 0 pages_remaining p_addr fm = Some fm"
| "init_loop al junk (Suc i) pages_remaining p_addr fm = do {
     (pages_remaining, p_addr, fm) \<leftarrow> init_bin_loop al junk i pages_remaining p_addr fm;
     init_loop al junk i pages_remaining p_addr fm
   }"

definition fm_init_user_space :: "allocator \<Rightarrow> frame \<Rightarrow> kenv \<Rightarrow> u32 \<Rightarrow> u32 \<Rightarrow> frame_manager \<Rightarrow>
    (int \<times> frame_manager) option" where
  "fm_init_user_space al junk env ums num_pages fm =
     (if num_pages = 0 then Some (-1, fm)
      else do {
        fm \<leftarrow> fm_lock env fm;
        fm \<leftarrow> init_loop al junk (unat (fm_num_bins fm)) num_pages ums fm;
        Some (0, fm_unlock env fm)
      })"

text \<open>
  \<open>fm_init\<close>. \<open>n\<close> is the answer of \<open>machine_phys_frames()\<close>, taken as unsigned. The
  three tables and the bins are allocated at boot; the model covers the boots in
  which these allocations succeed.
\<close>

definition fresh_table :: "(u32 \<Rightarrow> u32) \<Rightarrow> ht option" where
  "fresh_table h = do {
     (_, t) \<leftarrow> ht_init True (Some \<lparr>ht_size = 0, ht_max_size = 0, ht_hash = h, ht_arr = []\<rparr>) 64 (Some h);
     t
   }"

definition fm_init :: "allocator \<Rightarrow> frame \<Rightarrow> kenv \<Rightarrow> u32 \<Rightarrow> u32 \<Rightarrow> u32 \<Rightarrow> frame_manager \<Rightarrow>
    (int \<times> frame_manager) option" where
  "fm_init al junk env ums n num_bins fm = do {
     let i = ums div PAGE_SIZE;
     let n_addressable = (0xFFFFFFFF - ums + 1) div PAGE_SIZE;
     if n < i then Some (-1, fm)
     else do {
       let num_frames = min (n - i) n_addressable;
       let (r, m) = mutex_init (Some (fm_m fm));
       if r < 0 then Some (-1, fm)
       else do {
         m \<leftarrow> m;
         a \<leftarrow> fresh_table address_shift_hash;
         d \<leftarrow> fresh_table address_shift_hash;
         p \<leftarrow> fresh_table address_hash;
         let fm = fm\<lparr>fm_m := m, fm_allocated := a, fm_deallocated := d, fm_parents := p,
                     fm_bins := replicate (unat num_bins) [], fm_num_bins := num_bins\<rparr>;
         (r, fm) \<leftarrow> fm_init_user_space al junk env ums num_frames fm;
         c_assert (\<not> r < 0);
         Some (0, fm)
       }
     }
   }"

end
