(* ===== verification/VirtualMem.thy ===== *)
theory VirtualMem
  imports PageDirectory MemSection FrameManager
begin

text \<open>
  \<open>kern/virtual_mem_mgmt/virtual_mem_mgmt.c\<close>: user memory as pages of a directory on
  frames of the frame manager. The global frame manager \<open>fm\<close>, the directory and the
  memory are the state. \<open>vctx\<close> holds what the functions below need: the allocators of
  the directories and of the frame manager, the contents of fresh memory, and the
  scheduler's state that the mutex of the frame manager reads. Flushing the TLB has no
  effect in the model, in which every access reads the tables.
\<close>

record vctx =
  c_al :: allocator
  c_fal :: allocator
  c_junk :: frame
  c_env :: kenv

definition PAGE_ALIGN_DOWN :: "u32 \<Rightarrow> u32" where
  "PAGE_ALIGN_DOWN addr = PAGE_SIZE * (addr div PAGE_SIZE)"

definition PAGE_ALIGN_UP :: "u32 \<Rightarrow> u32" where
  "PAGE_ALIGN_UP addr = PAGE_SIZE * ((addr + PAGE_SIZE - 1) div PAGE_SIZE)"

definition USER_RO :: u32 where "USER_RO = NEW_FLAGS 1 0 1 0"

definition USER_WR :: u32 where "USER_WR = NEW_FLAGS 1 1 1 0"

definition PDE_FLAG_DEFAULT :: u32 where "PDE_FLAG_DEFAULT = NEW_FLAGS 1 0 1 0"

definition PTE_FLAG_DEFAULT :: u32 where "PTE_FLAG_DEFAULT = NEW_FLAGS 1 0 1 0"

definition ADD_USER_START_FLAG :: "u32 \<Rightarrow> u32" where "ADD_USER_START_FLAG flags = flags OR push_bit 9 1"

definition ADD_USER_END_FLAG :: "u32 \<Rightarrow> u32" where "ADD_USER_END_FLAG flags = flags OR push_bit 10 1"

definition IS_USER_START :: "u32 \<Rightarrow> bool" where "IS_USER_START pte \<longleftrightarrow> drop_bit 9 pte AND 1 \<noteq> 0"

definition IS_USER_END :: "u32 \<Rightarrow> bool" where "IS_USER_END pte \<longleftrightarrow> drop_bit 10 pte AND 1 \<noteq> 0"

subsection \<open>Writing user memory\<close>

text \<open>
  \<open>memset((void *)v_addr, 0, n)\<close> at a page aligned address of the current directory:
  page by page; an address that is not mapped faults in the kernel (\<open>None\<close>).
\<close>

function memset_zero :: "page_directory \<Rightarrow> u32 \<Rightarrow> nat \<Rightarrow> vmem \<Rightarrow> vmem option" where
  "memset_zero pd v_addr n m =
     (if n = 0 then Some m
      else do {
        (r, pte) \<leftarrow> pd_get_mapping (Some pd) v_addr m;
        pte \<leftarrow> pte;
        let f = REMOVE_FLAGS pte;
        let k = min n 4096;
        memset_zero pd (v_addr + PAGE_SIZE) (n - k) (m\<lparr>phys := (phys m)(f := replicate k 0 @ drop k (phys m f))\<rparr>)
      })"
  by pat_completeness auto
termination
  by (relation "measure (\<lambda>(pd, v, n, m). n)") auto

declare memset_zero.simps [simp del]

subsection \<open>Operations\<close>

definition vmm_deep_copy :: "vctx \<Rightarrow> u32 list \<Rightarrow> u32 \<Rightarrow> page_directory option \<Rightarrow> page_directory option \<Rightarrow> vmem \<Rightarrow> frame_manager \<Rightarrow>
    (int \<times> page_directory option \<times> vmem \<times> frame_manager) option" where
  "vmm_deep_copy c backup ums cur_pd pd_dest m fm = (case pd_dest of None \<Rightarrow> Some (-1, None, m, fm) | Some dest \<Rightarrow>
     case cur_pd of None \<Rightarrow> Some (-2, pd_dest, m, fm) | Some pd_src \<Rightarrow> do {
       (r, a, fm) \<leftarrow> fm_alloc (c_fal c) (c_junk c) (c_env c) (num_pages pd_src) fm;
       if r < 0 then Some (-3, pd_dest, m, fm)
       else do {
         p_addr_start \<leftarrow> a;
         let (r, dest, m) = pd_alloc_frame (c_al c) (Some dest) p_addr_start (num_pages pd_src) m;
         if r < 0 then do {
           (_, fm) \<leftarrow> fm_dealloc (c_fal c) (c_env c) p_addr_start fm;
           Some (-4, dest, m, fm)
         } else do {
           (r, dest, m) \<leftarrow> pd_deep_copy (c_al c) backup ums dest (Some pd_src) p_addr_start m;
           if r < 0 then do {
             (_, fm) \<leftarrow> fm_dealloc (c_fal c) (c_env c) p_addr_start fm;
             let (_, _, dest) = pd_dealloc_frame dest p_addr_start;
             Some (-5, dest, m, fm)
           } else Some (0, dest, m, fm)
         }
       }
     })"

text \<open>Abort the batch and give the frames back: the error paths of the two mapping loops.\<close>

definition undo_mapping :: "vctx \<Rightarrow> int \<Rightarrow> u32 \<Rightarrow> page_directory \<Rightarrow> vmem \<Rightarrow> frame_manager \<Rightarrow>
    (int \<times> page_directory option \<times> vmem \<times> frame_manager) option" where
  "undo_mapping c e p_addr_start pd m fm = do {
     let (pd, m) = pd_abort_mapping pd m;
     (_, fm) \<leftarrow> fm_dealloc (c_fal c) (c_env c) p_addr_start fm;
     let (_, _, pd) = pd_dealloc_frame (Some pd) p_addr_start;
     Some (e, pd, m, fm)
   }"

fun map_sections_loop :: "allocator \<Rightarrow> mem_section list \<Rightarrow> nat \<Rightarrow> u32 \<Rightarrow> u32 \<Rightarrow> page_directory \<Rightarrow> vmem \<Rightarrow>
    (int \<times> page_directory \<times> vmem) option" where
  "map_sections_loop al secs 0 cur_addr p_addr pd m = Some (0, pd, m)"
| "map_sections_loop al secs (Suc n) cur_addr p_addr pd m = do {
     let (r, ms) = ms_get_bounding_section (Some secs) cur_addr (cur_addr + (PAGE_SIZE - 1));
     if r < 0 then Some (-3, pd, m)
     else do {
       let (pte_f, pde_f) = (case ms of None \<Rightarrow> (PTE_FLAG_DEFAULT, PDE_FLAG_DEFAULT) | Some ms \<Rightarrow> (ms_pte_f ms, ms_pde_f ms));
       (r, pd, m) \<leftarrow> pd_create_mapping al pd cur_addr p_addr pte_f pde_f m;
       if r < 0 then Some (-4, pd, m)
       else map_sections_loop al secs n (cur_addr + PAGE_SIZE) (p_addr + PAGE_SIZE) pd m
     }
   }"

text \<open>\<open>junk\<close> is what \<open>v_addr_low\<close> and \<open>v_addr_high\<close> hold when \<open>ms_get_bounding_addr\<close> fails.\<close>

definition vmm_map_sections :: "vctx \<Rightarrow> u32 \<times> u32 \<Rightarrow> page_directory option \<Rightarrow> mem_section list option \<Rightarrow> vmem \<Rightarrow> frame_manager \<Rightarrow>
    (int \<times> page_directory option \<times> vmem \<times> frame_manager) option" where
  "vmm_map_sections c junk pd secs m fm = (case (pd, secs) of
     (Some pd, Some secs) \<Rightarrow>
       if secs = [] then Some (-1, Some pd, m, fm)
       else do {
         let (low, high) = (case snd (ms_get_bounding_addr (Some secs)) of None \<Rightarrow> junk | Some lh \<Rightarrow> lh);
         let v_addr_low = PAGE_ALIGN_DOWN low;
         let v_addr_high = PAGE_ALIGN_UP high - 1;
         let num_pages = ((v_addr_high - v_addr_low) + 1) div PAGE_SIZE;
         if num_pages = 0 then Some (0, Some pd, m, fm)
         else do {
           (r, a, fm) \<leftarrow> fm_alloc (c_fal c) (c_junk c) (c_env c) num_pages fm;
           if r < 0 then Some (-2, Some pd, m, fm)
           else do {
             p_addr \<leftarrow> a;
             let (r, pd', m) = pd_alloc_frame (c_al c) (Some pd) p_addr num_pages m;
             pd \<leftarrow> pd';
             if r < 0 then do {
               (_, fm) \<leftarrow> fm_dealloc (c_fal c) (c_env c) p_addr fm;
               Some (-3, Some pd, m, fm)
             } else do {
               let (r, pd') = pd_begin_mapping (Some pd);
               pd \<leftarrow> pd';
               if r < 0 then do {
                 (_, fm) \<leftarrow> fm_dealloc (c_fal c) (c_env c) p_addr fm;
                 let (_, _, pd) = pd_dealloc_frame (Some pd) p_addr;
                 Some (-3, pd, m, fm)
               } else do {
                 (r, pd, m) \<leftarrow> map_sections_loop (c_al c) secs (unat num_pages) v_addr_low p_addr pd m;
                 if r < 0 then undo_mapping c r p_addr pd m fm
                 else do {
                   (pd, m) \<leftarrow> pd_commit_mapping pd m;
                   m \<leftarrow> memset_zero pd v_addr_low (unat (num_pages * PAGE_SIZE div 4)) m;
                   Some (0, Some pd, m, fm)
                 }
               }
             }
           }
         }
       }
   | _ \<Rightarrow> Some (-1, pd, m, fm))"

text \<open>The loops of \<open>vmm_new_user_page\<close>: is one of the pages mapped, and map them all.\<close>

fun any_mapped :: "page_directory \<Rightarrow> nat \<Rightarrow> u32 \<Rightarrow> vmem \<Rightarrow> bool option" where
  "any_mapped pd 0 v_addr m = Some False"
| "any_mapped pd (Suc n) v_addr m = do {
     (r, _) \<leftarrow> pd_get_mapping (Some pd) v_addr m;
     if r = 0 then Some True else any_mapped pd n (v_addr + PAGE_SIZE) m
   }"

definition user_flags :: "u32 \<Rightarrow> u32 \<Rightarrow> u32" where
  "user_flags np i =
     (let pte_f = USER_WR;
          pte_f = (if i = 0 then ADD_USER_START_FLAG pte_f else pte_f)
      in if i = np - 1 then ADD_USER_END_FLAG pte_f else pte_f)"

fun new_pages_loop :: "allocator \<Rightarrow> u32 \<Rightarrow> nat list \<Rightarrow> u32 \<Rightarrow> u32 \<Rightarrow> page_directory \<Rightarrow> vmem \<Rightarrow>
    (int \<times> page_directory \<times> vmem) option" where
  "new_pages_loop al np [] v_addr p_addr pd m = Some (0, pd, m)"
| "new_pages_loop al np (i # is) v_addr p_addr pd m = do {
     (r, pd, m) \<leftarrow> pd_create_mapping al pd v_addr p_addr (user_flags np (word_of_nat i)) USER_WR m;
     if r < 0 then Some (r, pd, m)
     else new_pages_loop al np is (v_addr + PAGE_SIZE) (p_addr + PAGE_SIZE) pd m
   }"

definition vmm_new_user_page :: "vctx \<Rightarrow> page_directory option \<Rightarrow> u32 \<Rightarrow> u32 \<Rightarrow> vmem \<Rightarrow> frame_manager \<Rightarrow>
    (int \<times> page_directory option \<times> vmem \<times> frame_manager) option" where
  "vmm_new_user_page c pd base np m fm = (case pd of None \<Rightarrow> Some (-1, None, m, fm) | Some pd \<Rightarrow>
     if np = 0 \<or> np > 0xFFFF then Some (-1, Some pd, m, fm)
     else if base + np * PAGE_SIZE - 1 < base then Some (-2, Some pd, m, fm)
     else do {
       overlap \<leftarrow> any_mapped pd (unat np) base m;
       if overlap then Some (-3, Some pd, m, fm)
       else do {
         (r, a, fm) \<leftarrow> fm_alloc (c_fal c) (c_junk c) (c_env c) np fm;
         if r < 0 then Some (-2, Some pd, m, fm)
         else do {
           p_addr \<leftarrow> a;
           let (r, pd', m) = pd_alloc_frame (c_al c) (Some pd) p_addr np m;
           pd \<leftarrow> pd';
           if r < 0 then do {
             (_, fm) \<leftarrow> fm_dealloc (c_fal c) (c_env c) p_addr fm;
             Some (-3, Some pd, m, fm)
           } else do {
             let (r, pd') = pd_begin_mapping (Some pd);
             pd \<leftarrow> pd';
             if r < 0 then do {
               (_, fm) \<leftarrow> fm_dealloc (c_fal c) (c_env c) p_addr fm;
               let (_, _, pd) = pd_dealloc_frame (Some pd) p_addr;
               Some (-4, pd, m, fm)
             } else do {
               (r, pd, m) \<leftarrow> new_pages_loop (c_al c) np [0..<unat np] base p_addr pd m;
               if r < 0 then undo_mapping c (-4) p_addr pd m fm
               else do {
                 (pd, m) \<leftarrow> pd_commit_mapping pd m;
                 m \<leftarrow> memset_zero pd base (unat (np * PAGE_SIZE)) m;
                 Some (0, Some pd, m, fm)
               }
             }
           }
         }
       }
     })"

text \<open>
  The \<open>do\<close>-\<open>while\<close> of \<open>vmm_remove_user_page\<close>; \<open>pte\<close> keeps its last value when the
  lookup fails. The code 0 says that the loop has ended, -4 that a removal failed.
\<close>

partial_function (option) remove_pages_loop :: "allocator \<Rightarrow> u32 \<Rightarrow> u32 \<Rightarrow> page_directory \<Rightarrow> vmem \<Rightarrow>
    (int \<times> page_directory \<times> vmem) option" where
  "remove_pages_loop al v_addr pte pd m = do {
     c_assert (\<not> v_addr - PAGE_SIZE > v_addr);
     (_, e) \<leftarrow> pd_get_mapping (Some pd) v_addr m;
     let pte = (case e of None \<Rightarrow> pte | Some e \<Rightarrow> e);
     (r, pd', m) \<leftarrow> pd_remove_mapping al (Some pd) v_addr m;
     pd \<leftarrow> pd';
     if r < 0 then Some (-4, pd, m)
     else if IS_USER_END pte then Some (0, pd, m)
     else remove_pages_loop al (v_addr + PAGE_SIZE) pte pd m
   }"

definition vmm_remove_user_page :: "vctx \<Rightarrow> u32 \<Rightarrow> page_directory option \<Rightarrow> u32 \<Rightarrow> vmem \<Rightarrow> frame_manager \<Rightarrow>
    (int \<times> page_directory option \<times> vmem \<times> frame_manager) option" where
  "vmm_remove_user_page c ums pd base m fm = (case pd of None \<Rightarrow> Some (-1, None, m, fm) | Some pd \<Rightarrow>
     if base < ums \<or> \<not> IS_PAGE_ALIGNED base then Some (-1, Some pd, m, fm)
     else do {
       (r, e) \<leftarrow> pd_get_mapping (Some pd) base m;
       if r < 0 then Some (-2, Some pd, m, fm)
       else do {
         pte \<leftarrow> e;
         if \<not> IS_USER_START pte then Some (-3, Some pd, m, fm)
         else do {
           let p_addr_base = REMOVE_FLAGS pte;
           pd \<leftarrow> snd (pd_begin_mapping (Some pd));
           (r, pd, m) \<leftarrow> remove_pages_loop (c_al c) base 0 pd m;
           if r < 0 then (let (pd, m) = pd_abort_mapping pd m in Some (-4, Some pd, m, fm))
           else do {
             let (r, frame_size, pd') = pd_dealloc_frame (Some pd) p_addr_base;
             pd \<leftarrow> pd';
             if r < 0 then (let (pd, m) = pd_abort_mapping pd m in Some (-5, Some pd, m, fm))
             else do {
               frame_size \<leftarrow> frame_size;
               (r, fm) \<leftarrow> fm_dealloc (c_fal c) (c_env c) p_addr_base fm;
               if r < 0 then do {
                 let (_, pd', m) = pd_alloc_frame (c_al c) (Some pd) p_addr_base frame_size m;
                 pd \<leftarrow> pd';
                 let (pd, m) = pd_abort_mapping pd m;
                 Some (-6, Some pd, m, fm)
               } else do {
                 (pd, m) \<leftarrow> pd_commit_mapping pd m;
                 Some (0, Some pd, m, fm)
               }
             }
           }
         }
       }
     })"

fun dealloc_frames :: "vctx \<Rightarrow> u32 list \<Rightarrow> frame_manager \<Rightarrow> frame_manager option" where
  "dealloc_frames c [] fm = Some fm"
| "dealloc_frames c (a # as) fm = do {
     (_, fm) \<leftarrow> fm_dealloc (c_fal c) (c_env c) a fm;
     dealloc_frames c as fm
   }"

definition vmm_clear_user_space :: "vctx \<Rightarrow> u32 \<Rightarrow> page_directory \<Rightarrow> vmem \<Rightarrow> frame_manager \<Rightarrow>
    (int \<times> page_directory \<times> vmem \<times> frame_manager) option" where
  "vmm_clear_user_space c ums pd m fm = do {
     let (_, lists, pd') = pd_dealloc_all_frames (Some pd) True;
     (addrs, _) \<leftarrow> lists;
     pd \<leftarrow> pd';
     fm \<leftarrow> dealloc_frames c addrs fm;
     (_, pd, m) \<leftarrow> pd_clear_user_space ums pd m;
     Some (0, pd, m, fm)
   }"

end
