(* ===== verification/PageDirectoryCorrect.thy ===== *)
theory PageDirectoryCorrect
  imports PageDirectory
begin

text \<open>
  A page directory is a partial function from virtual pages to page table entries.
  \<open>pd_view\<close> reads it off the two levels of tables; the operations act on it as the
  update of a function, also when they are batched.
\<close>

subsection \<open>Addresses and entries\<close>

lemma and_low_mask:
  "(w :: u32) AND 0x3FF = take_bit 10 w" "w AND 0xFFF = take_bit 12 w" "w AND 1 = take_bit 1 w"
  by (simp_all add: take_bit_eq_mask mask_numeral)

lemma pde_i_eq: "pde_i v = unat v div 2 ^ 22"
proof -
  have "unat v div 2 ^ 22 < 2 ^ 10" using unat_u32_bound [of v] by simp
  then show ?thesis
    by (simp add: pde_i_def and_low_mask(1) drop_bit_eq_div take_bit_eq_mod unat_div unat_mod)
qed

lemma pte_i_eq: "pte_i v = unat v div 2 ^ 12 mod 2 ^ 10"
  by (simp add: pte_i_def and_low_mask(1) drop_bit_eq_div take_bit_eq_mod unat_div unat_mod)

lemma pde_i_less: "pde_i v < 1024"
  using unat_u32_bound [of v] by (simp add: pde_i_eq)

lemma pte_i_less: "pte_i v < 1024"
  by (simp add: pte_i_eq)

lemma page_index_eq: "pde_i v = pde_i w \<and> pte_i v = pte_i w \<longleftrightarrow> unat v div 4096 = unat w div 4096"
proof -
  have i: "pde_i x = unat x div 4096 div 1024" "pte_i x = unat x div 4096 mod 1024" for x
    by (simp_all add: pde_i_eq pte_i_eq div_mult2_eq [symmetric])
  show ?thesis unfolding i by (metis div_mult_mod_eq)
qed

lemma aligned_bits: "IS_PAGE_ALIGNED a \<longleftrightarrow> (\<forall>n < 12. \<not> bit a n)"
proof -
  have "IS_PAGE_ALIGNED a \<longleftrightarrow> take_bit 12 a = 0" by (simp add: IS_PAGE_ALIGNED_def take_bit_eq_mod)
  also have "\<dots> \<longleftrightarrow> (\<forall>n < 12. \<not> bit a n)" by (auto simp: bit_eq_iff bit_take_bit_iff)
  finally show ?thesis .
qed

lemma present_bit: "entry_present e \<longleftrightarrow> bit e 0"
  by (simp add: entry_present_def NTH_BIT_def and_one_eq bit_0 even_iff_mod_2_eq_zero)

text \<open>Flags are the twelve low bits of an entry.\<close>

definition flag_bits :: "u32 \<Rightarrow> bool" where
  "flag_bits f \<longleftrightarrow> (\<forall>n \<ge> 12. \<not> bit f n)"

lemma remove_flags_bits: "REMOVE_FLAGS e = e AND NOT (mask 12)" "EXTRACT_FLAGS e = e AND mask 12"
  by (simp_all add: REMOVE_FLAGS_def EXTRACT_FLAGS_def mask_numeral)

lemma add_flags:
  assumes "IS_PAGE_ALIGNED p" "flag_bits f"
  shows "REMOVE_FLAGS (ADD_FLAGS p f) = p" "EXTRACT_FLAGS (ADD_FLAGS p f) = f"
proof -
  have b: "\<And>n. n < 12 \<Longrightarrow> \<not> bit p n" "\<And>n. 12 \<le> n \<Longrightarrow> \<not> bit f n" using assms by (simp_all add: aligned_bits flag_bits_def)
  show "REMOVE_FLAGS (ADD_FLAGS p f) = p" unfolding remove_flags_bits ADD_FLAGS_def
  proof (rule bit_eqI)
    fix n show "bit ((p OR f) AND NOT (mask 12)) n \<longleftrightarrow> bit p n"
      using b [of n] bit_imp_le_length [of p n] by (cases "n < 12") (auto simp: bit_simps)
  qed
  show "EXTRACT_FLAGS (ADD_FLAGS p f) = f" unfolding remove_flags_bits ADD_FLAGS_def
  proof (rule bit_eqI)
    fix n show "bit ((p OR f) AND mask 12) n \<longleftrightarrow> bit f n"
      using b [of n] by (cases "n < 12") (auto simp: bit_simps)
  qed
qed

lemma extract_flag_bits: "flag_bits (EXTRACT_FLAGS e)" "IS_PAGE_ALIGNED (REMOVE_FLAGS e)"
  by (auto simp: flag_bits_def aligned_bits remove_flags_bits bit_simps)

lemma add_flags_present: "IS_PAGE_ALIGNED p \<Longrightarrow> entry_present (ADD_FLAGS p f) = entry_present f"
  by (simp add: present_bit ADD_FLAGS_def aligned_bits bit_simps)

lemma extract_flags_present [simp]: "entry_present (EXTRACT_FLAGS e) = entry_present e"
  by (simp add: present_bit remove_flags_bits bit_simps)

lemma not_present_0 [simp]: "\<not> entry_present 0"
  by (simp add: present_bit)

lemma zero_flags [simp]: "REMOVE_FLAGS 0 = 0"
  by (simp add: REMOVE_FLAGS_def)

subsection \<open>The mapping\<close>

definition pd_view :: "u32 list \<Rightarrow> vmem \<Rightarrow> nat \<Rightarrow> nat \<Rightarrow> u32 option" where
  "pd_view dir m i j = (if entry_present (dir ! i) then
     (case pts m (REMOVE_FLAGS (dir ! i)) of None \<Rightarrow> None | Some t \<Rightarrow> if entry_present (t ! j) then Some (t ! j) else None)
   else None)"

definition pd_ok :: "u32 list \<Rightarrow> vmem \<Rightarrow> bool" where
  "pd_ok dir m \<longleftrightarrow> length dir = 1024 \<and>
     (\<forall>i < 1024. entry_present (dir ! i) \<longrightarrow> (\<exists>t. pts m (REMOVE_FLAGS (dir ! i)) = Some t \<and> length t = 1024)) \<and>
     (\<forall>i < 1024. \<forall>j < 1024. entry_present (dir ! i) \<longrightarrow> entry_present (dir ! j) \<longrightarrow>
        REMOVE_FLAGS (dir ! i) = REMOVE_FLAGS (dir ! j) \<longrightarrow> i = j)"

text \<open>The tables of a directory, from entry \<open>lo\<close> on.\<close>

definition pd_tables :: "nat \<Rightarrow> u32 list \<Rightarrow> ptr set" where
  "pd_tables lo dir = {REMOVE_FLAGS (dir ! i) | i. lo \<le> i \<and> i < 1024 \<and> entry_present (dir ! i)}"

definition pd_lookup :: "page_directory \<Rightarrow> vmem \<Rightarrow> u32 \<Rightarrow> u32 option" where
  "pd_lookup pd m v = pd_view (directory pd) m (pde_i v) (pte_i v)"

lemma pd_okD:
  assumes "pd_ok dir m"
  shows "length dir = 1024"
    "\<And>i. i < 1024 \<Longrightarrow> entry_present (dir ! i) \<Longrightarrow> \<exists>t. pts m (REMOVE_FLAGS (dir ! i)) = Some t \<and> length t = 1024"
    "\<And>i j. i < 1024 \<Longrightarrow> j < 1024 \<Longrightarrow> entry_present (dir ! i) \<Longrightarrow> entry_present (dir ! j) \<Longrightarrow>
       REMOVE_FLAGS (dir ! i) = REMOVE_FLAGS (dir ! j) \<Longrightarrow> i = j"
  using assms unfolding pd_ok_def by blast+

lemma arr_get_dir: "pd_ok dir m \<Longrightarrow> arr_get dir (pde_i v) = Some (dir ! pde_i v)"
  using pd_okD(1) pde_i_less by (simp add: arr_get_def)

lemma pt_get_ok:
  assumes "pd_ok dir m" "entry_present (dir ! pde_i v)"
  obtains t where "pts m (REMOVE_FLAGS (dir ! pde_i v)) = Some t" "length t = 1024"
    "pt_get (REMOVE_FLAGS (dir ! pde_i v)) (pte_i v) m = Some (t ! pte_i v)"
    "\<And>e. pt_set (REMOVE_FLAGS (dir ! pde_i v)) (pte_i v) e m =
       Some (m\<lparr>pts := (pts m)(REMOVE_FLAGS (dir ! pde_i v) \<mapsto> t[pte_i v := e])\<rparr>)"
proof -
  obtain t where t: "pts m (REMOVE_FLAGS (dir ! pde_i v)) = Some t" "length t = 1024"
    using pd_okD(2) [OF assms(1) pde_i_less assms(2)] by blast
  then show thesis using pte_i_less [of v] by (intro that [of t]) (simp_all add: pt_get_def pt_set_def arr_get_def arr_set_def)
qed

text \<open>The functional behaviour of \<open>pd_get_mapping\<close>.\<close>

lemma pd_get_mapping_ok:
  assumes "pd_ok (directory pd) m"
  shows "pd_get_mapping (Some pd) v m = Some (case pd_lookup pd m v of
     Some e \<Rightarrow> (0, Some e) | None \<Rightarrow> (if entry_present (directory pd ! pde_i v) then -3 else -2, None))"
proof (cases "entry_present (directory pd ! pde_i v)")
  case False
  then show ?thesis using arr_get_dir [OF assms] by (simp add: pd_get_mapping_def pd_lookup_def pd_view_def)
next
  case True
  obtain t where "pts m (REMOVE_FLAGS (directory pd ! pde_i v)) = Some t"
    "pt_get (REMOVE_FLAGS (directory pd ! pde_i v)) (pte_i v) m = Some (t ! pte_i v)"
    by (rule pt_get_ok [OF assms True]) blast
  then show ?thesis using True arr_get_dir [OF assms] by (simp add: pd_get_mapping_def pd_lookup_def pd_view_def)
qed

subsection \<open>Writing one entry\<close>

definition upd_view :: "nat \<Rightarrow> nat \<Rightarrow> u32 \<Rightarrow> (nat \<Rightarrow> nat \<Rightarrow> u32 option) \<Rightarrow> (nat \<Rightarrow> nat \<Rightarrow> u32 option)" where
  "upd_view i j e f = f(i := (f i)(j := if entry_present e then Some e else None))"

lemma write_entry:
  assumes ok: "pd_ok dir m" and i: "i < 1024" "entry_present (dir ! i)" "pts m (REMOVE_FLAGS (dir ! i)) = Some t"
    and j: "j < 1024"
    and m': "pts m' = (pts m)(REMOVE_FLAGS (dir ! i) \<mapsto> t[j := e])"
  shows "pd_ok dir m'" "\<And>i' j'. i' < 1024 \<Longrightarrow> pd_view dir m' i' j' = upd_view i j e (pd_view dir m) i' j'"
proof -
  have t: "length t = 1024" using pd_okD(2) [OF ok i(1,2)] i(3) by auto
  show "pd_ok dir m'" using ok t unfolding pd_ok_def m' by (auto simp: i(3))
  fix i' j' :: nat assume i': "i' < 1024"
  show "pd_view dir m' i' j' = upd_view i j e (pd_view dir m) i' j'"
  proof (cases "i' = i")
    case True
    then show ?thesis using i t j by (auto simp: pd_view_def upd_view_def m')
  next
    case False
    then have "REMOVE_FLAGS (dir ! i') \<noteq> REMOVE_FLAGS (dir ! i)" if "entry_present (dir ! i')"
      using pd_okD(3) [OF ok i' i(1) that i(2)] by blast
    then show ?thesis using False by (simp add: pd_view_def upd_view_def m')
  qed
qed

lemma write_elsewhere:
  assumes "x \<notin> pd_tables 0 dir" "pts m' = (pts m)(x := y)" "pd_ok dir m"
  shows "pd_ok dir m'" "\<And>i j. i < 1024 \<Longrightarrow> pd_view dir m' i j = pd_view dir m i j"
proof -
  have ne: "REMOVE_FLAGS (dir ! i) \<noteq> x" if "i < 1024" "entry_present (dir ! i)" for i
    using assms(1) that by (auto simp: pd_tables_def)
  then show "pd_ok dir m'" using assms(3) unfolding pd_ok_def assms(2) by simp
  fix i j :: nat assume "i < 1024"
  then show "pd_view dir m' i j = pd_view dir m i j" using ne assms(2) by (simp add: pd_view_def)
qed

text \<open>A fresh, empty page table is hung into the directory.\<close>

definition paged :: "allocator \<Rightarrow> bool" where
  "paged al \<longleftrightarrow> malloc_ok al \<and> (\<forall>k P. IS_PAGE_ALIGNED (al k P))"

lemma new_table:
  assumes ok: "pd_ok dir m" and i: "i < 1024" "\<not> entry_present (dir ! i)"
    and p: "pts m p = None" "IS_PAGE_ALIGNED p" and f: "flag_bits f" "entry_present f"
    and m': "pts m' = (pts m)(p \<mapsto> replicate 1024 0)"
  shows "pd_ok (dir[i := ADD_FLAGS p f]) m'"
    "\<And>i' j'. i' < 1024 \<Longrightarrow> j' < 1024 \<Longrightarrow> pd_view (dir[i := ADD_FLAGS p f]) m' i' j' = pd_view dir m i' j'"
    "pd_tables lo (dir[i := ADD_FLAGS p f]) \<subseteq> insert p (pd_tables lo dir)"
proof -
  note D = pd_okD [OF ok]
  let ?d = "dir[i := ADD_FLAGS p f]"
  have e: "entry_present (ADD_FLAGS p f)" "REMOVE_FLAGS (ADD_FLAGS p f) = p"
    using add_flags_present [OF p(2)] add_flags(1) [OF p(2) f(1)] f(2) by simp_all
  have old: "REMOVE_FLAGS (dir ! i') \<noteq> p" if "i' < 1024" "entry_present (dir ! i')" for i'
    using D(2) [OF that] p(1) by auto
  have nth: "?d ! i' = (if i' = i then ADD_FLAGS p f else dir ! i')" if "i' < 1024" for i'
    using D(1) i(1) that by (simp add: nth_list_update)
  show "pd_ok ?d m'" unfolding pd_ok_def
  proof (intro conjI allI impI)
    show "length ?d = 1024" using D(1) by simp
    fix a assume a: "a < 1024" "entry_present (?d ! a)"
    show "\<exists>t. pts m' (REMOVE_FLAGS (?d ! a)) = Some t \<and> length t = 1024"
      using a D(2) [OF a(1)] nth [OF a(1)] e old [OF a(1)] by (auto simp: m')
    fix b assume b: "b < 1024" "entry_present (?d ! b)" "REMOVE_FLAGS (?d ! a) = REMOVE_FLAGS (?d ! b)"
    show "a = b"
    proof (cases "a = i \<or> b = i")
      case True
      then show ?thesis using a b nth [OF a(1)] nth [OF b(1)] e old [OF a(1)] old [OF b(1)] by (auto split: if_splits)
    next
      case False
      show ?thesis by (rule D(3) [OF a(1) b(1)]) (use False a b nth [OF a(1)] nth [OF b(1)] in simp_all)
    qed
  qed
  fix i' j' :: nat assume i': "i' < 1024" "j' < 1024"
  show "pd_view ?d m' i' j' = pd_view dir m i' j'"
    using nth [OF i'(1)] i' i e old [OF i'(1)] by (auto simp: pd_view_def m')
next
  have "(dir[i := ADD_FLAGS p f]) ! k = (if k = i then ADD_FLAGS p f else dir ! k)" if "k < 1024" for k
    using pd_okD(1) [OF ok] i(1) that by (simp add: nth_list_update)
  then show "pd_tables lo (dir[i := ADD_FLAGS p f]) \<subseteq> insert p (pd_tables lo dir)"
    using add_flags(1) [OF p(2) f(1)] by (auto simp: pd_tables_def split: if_splits)
qed

subsection \<open>\<open>pd_create_mapping\<close>\<close>

text \<open>The arguments that the callers pass: page aligned addresses and the flags of a present directory entry.\<close>

definition map_args :: "u32 \<Rightarrow> u32 \<Rightarrow> u32 \<Rightarrow> bool" where
  "map_args v p pde_flags \<longleftrightarrow> IS_PAGE_ALIGNED v \<and> IS_PAGE_ALIGNED p \<and> flag_bits pde_flags \<and> entry_present pde_flags"

lemma new_page_table_cases:
  assumes "paged al"
  obtains "new_page_table al m = (NULL, m\<lparr>vm_mcalls := Suc (vm_mcalls m)\<rparr>)"
  | p where "p \<noteq> NULL" "pts m p = None" "IS_PAGE_ALIGNED p"
    "new_page_table al m = (p, m\<lparr>vm_mcalls := Suc (vm_mcalls m), pts := (pts m)(p \<mapsto> replicate 1024 0)\<rparr>)"
  using assms malloc_okD [of al "vm_mcalls m" "\<lambda>q. pts m q \<noteq> None"] unfolding paged_def new_page_table_def Let_def
  by (cases "al (vm_mcalls m) (\<lambda>q. pts m q \<noteq> None) = NULL") auto

text \<open>
  The first half of \<open>pd_create_mapping\<close>: afterwards there is a page table for \<open>v\<close>, and
  nothing else has changed. \<open>x\<close> is the table, \<open>res\<close> the new table if there is one.
\<close>

definition has_table :: "page_directory \<Rightarrow> vmem \<Rightarrow> u32 \<Rightarrow> ptr \<Rightarrow> page_directory \<Rightarrow> vmem \<Rightarrow> bool" where
  "has_table pd m v res pd1 m1 \<longleftrightarrow> pd_ok (directory pd1) m1 \<and> entry_present (directory pd1 ! pde_i v) \<and>
     (\<forall>i j. i < 1024 \<longrightarrow> j < 1024 \<longrightarrow> pd_view (directory pd1) m1 i j = pd_view (directory pd) m i j) \<and>
     (\<forall>i. i < 1024 \<longrightarrow> entry_present (directory pd ! i) \<longrightarrow> directory pd1 ! i = directory pd ! i) \<and>
     pd1 = pd\<lparr>directory := directory pd1\<rparr> \<and> phys m1 = phys m \<and>
     (if res = NULL then pts m1 = pts m \<and> directory pd1 = directory pd
      else pts m res = None \<and> pts m1 = (pts m)(res \<mapsto> replicate 1024 0) \<and> res = REMOVE_FLAGS (directory pd1 ! pde_i v) \<and>
        \<not> entry_present (directory pd ! pde_i v))"

lemma create_prepares:
  assumes ok: "pd_ok (directory pd) m" and al: "paged al" and args: "map_args v p g"
  obtains m1 where "pd_create_mapping al pd v p f g m = Some (-2, pd, m1)" "pts m1 = pts m" "phys m1 = phys m"
  | res pd1 m1 where "has_table pd m v res pd1 m1"
    "pd_create_mapping al pd v p f g m =
       queue_or_write al v (ADD_FLAGS p f) (REMOVE_FLAGS (directory pd1 ! pde_i v)) res pd1 m1"
proof (cases "entry_present (directory pd ! pde_i v)")
  case True
  have "has_table pd m v NULL pd m" using ok True by (simp add: has_table_def)
  then show thesis
    using that(2) [of NULL pd m] True args arr_get_dir [OF ok] by (simp add: pd_create_mapping_def map_args_def)
next
  case False
  show thesis
  proof (rule new_page_table_cases [OF al, of m])
    assume "new_page_table al m = (NULL, m\<lparr>vm_mcalls := Suc (vm_mcalls m)\<rparr>)"
    then show thesis
      using that(1) False args arr_get_dir [OF ok] by (simp add: pd_create_mapping_def map_args_def)
  next
    let ?i = "pde_i v"
    fix q assume q: "q \<noteq> NULL" "pts m q = None" "IS_PAGE_ALIGNED q"
      "new_page_table al m = (q, m\<lparr>vm_mcalls := Suc (vm_mcalls m), pts := (pts m)(q \<mapsto> replicate 1024 0)\<rparr>)"
    let ?d = "(directory pd)[?i := ADD_FLAGS q g]"
    let ?pd = "pd\<lparr>directory := ?d\<rparr>" and ?m = "m\<lparr>vm_mcalls := Suc (vm_mcalls m), pts := (pts m)(q \<mapsto> replicate 1024 0)\<rparr>"
    have g: "flag_bits g" "entry_present g" using args by (simp_all add: map_args_def)
    note N = new_table [OF ok pde_i_less False q(2,3) g, of ?m]
    have i: "?i < length (directory pd)" using pd_okD(1) [OF ok] pde_i_less by simp
    have e: "entry_present (ADD_FLAGS q g)" "REMOVE_FLAGS (ADD_FLAGS q g) = q"
      using add_flags_present [OF q(3)] add_flags(1) [OF q(3) g(1)] g(2) by simp_all
    have "has_table pd m v q ?pd ?m"
      unfolding has_table_def using N(1,2) i e q(1,2) False by (auto simp: nth_list_update)
    moreover have "pd_create_mapping al pd v p f g m =
        queue_or_write al v (ADD_FLAGS p f) (REMOVE_FLAGS (directory ?pd ! ?i)) q ?pd ?m"
      using False args arr_get_dir [OF ok] q(1,4) i by (simp add: pd_create_mapping_def map_args_def arr_set_def Let_def)
    ultimately show thesis by (rule that(2))
  qed
qed

text \<open>Unbatched: the entry is written.\<close>

lemma create_writes:
  assumes ok: "pd_ok (directory pd) m" and al: "paged al" and args: "map_args v p g" and nb: "\<not> batch_enabled pd"
  obtains m1 where "pd_create_mapping al pd v p f g m = Some (-2, pd, m1)" "pts m1 = pts m" "phys m1 = phys m"
  | res pd1 m1 t m' where "has_table pd m v res pd1 m1" "pts m1 (REMOVE_FLAGS (directory pd1 ! pde_i v)) = Some t"
    "pd_create_mapping al pd v p f g m = Some (0, pd1, m')"
    "m' = m1\<lparr>pts := (pts m1)(REMOVE_FLAGS (directory pd1 ! pde_i v) \<mapsto> t[pte_i v := ADD_FLAGS p f])\<rparr>"
    "pd_ok (directory pd1) m'"
    "\<And>i j. i < 1024 \<Longrightarrow> j < 1024 \<Longrightarrow> pd_view (directory pd1) m' i j =
       upd_view (pde_i v) (pte_i v) (ADD_FLAGS p f) (pd_view (directory pd) m) i j"
proof (rule create_prepares [OF ok al args, of f])
  fix m1 assume "pd_create_mapping al pd v p f g m = Some (-2, pd, m1)" "pts m1 = pts m" "phys m1 = phys m"
  then show thesis by (rule that(1))
next
  fix res pd1 m1 assume h: "has_table pd m v res pd1 m1" and run: "pd_create_mapping al pd v p f g m =
       queue_or_write al v (ADD_FLAGS p f) (REMOVE_FLAGS (directory pd1 ! pde_i v)) res pd1 m1"
  have H: "pd_ok (directory pd1) m1" "entry_present (directory pd1 ! pde_i v)"
    "\<And>i j. i < 1024 \<Longrightarrow> j < 1024 \<Longrightarrow> pd_view (directory pd1) m1 i j = pd_view (directory pd) m i j"
    "batch_enabled pd1 = batch_enabled pd"
    using h unfolding has_table_def by (blast, blast, blast, metis page_directory.ext_inject page_directory.surjective page_directory.update_convs(1))
  obtain t where t: "pts m1 (REMOVE_FLAGS (directory pd1 ! pde_i v)) = Some t"
    "\<And>e. pt_set (REMOVE_FLAGS (directory pd1 ! pde_i v)) (pte_i v) e m1 =
       Some (m1\<lparr>pts := (pts m1)(REMOVE_FLAGS (directory pd1 ! pde_i v) \<mapsto> t[pte_i v := e])\<rparr>)"
    by (rule pt_get_ok [OF H(1,2)]) blast
  let ?m = "m1\<lparr>pts := (pts m1)(REMOVE_FLAGS (directory pd1 ! pde_i v) \<mapsto> t[pte_i v := ADD_FLAGS p f])\<rparr>"
  note w = write_entry [OF H(1) pde_i_less H(2) t(1) pte_i_less [of v], where e = "ADD_FLAGS p f" and m' = ?m]
  have "pd_view (directory pd1) ?m i j = upd_view (pde_i v) (pte_i v) (ADD_FLAGS p f) (pd_view (directory pd) m) i j"
    if ij: "i < 1024" "j < 1024" for i j
    using w(2) [OF _ ij(1), of j] H(3) [OF ij] by (auto simp: upd_view_def)
  then show thesis
    using that(2) [OF h t(1)] run t(2) nb H(4) w(1) by (simp add: queue_or_write_def)
qed

lemma upd_view_lookup:
  "upd_view (pde_i v) (pte_i v) e f (pde_i w) (pte_i w) =
     (if unat w div 4096 = unat v div 4096 then (if entry_present e then Some e else None) else f (pde_i w) (pte_i w))"
  using page_index_eq [of w v] by (auto simp: upd_view_def)

subsection \<open>Batches\<close>

text \<open>A sequence of mappings as the callers create them, up to the first failure.\<close>

fun create_all :: "allocator \<Rightarrow> page_directory \<Rightarrow> (u32 \<times> u32 \<times> u32 \<times> u32) list \<Rightarrow> vmem \<Rightarrow> (int \<times> page_directory \<times> vmem) option" where
  "create_all al pd [] m = Some (0, pd, m)"
| "create_all al pd ((v, p, f, g) # rs) m = do {
     (r, pd, m) \<leftarrow> pd_create_mapping al pd v p f g m;
     if r < 0 then Some (r, pd, m) else create_all al pd rs m
   }"

definition upd_all :: "(u32 \<times> u32 \<times> u32 \<times> u32) list \<Rightarrow> (nat \<Rightarrow> nat \<Rightarrow> u32 option) \<Rightarrow> (nat \<Rightarrow> nat \<Rightarrow> u32 option)" where
  "upd_all rs f = fold (\<lambda>(v, p, fl, _). upd_view (pde_i v) (pte_i v) (ADD_FLAGS p fl)) rs f"

definition same_view :: "(nat \<Rightarrow> nat \<Rightarrow> u32 option) \<Rightarrow> (nat \<Rightarrow> nat \<Rightarrow> u32 option) \<Rightarrow> bool" where
  "same_view f f' \<longleftrightarrow> (\<forall>i j. i < 1024 \<longrightarrow> j < 1024 \<longrightarrow> f i j = f' i j)"

lemma same_view_upd: "same_view f f' \<Longrightarrow> same_view (upd_view i j e f) (upd_view i j e f')"
  by (simp add: same_view_def upd_view_def)

lemma same_view_trans: "same_view f g \<Longrightarrow> same_view g h \<Longrightarrow> same_view f h"
  by (simp add: same_view_def)

lemma same_view_upd_all: "same_view f f' \<Longrightarrow> same_view (upd_all rs f) (upd_all rs f')"
  unfolding upd_all_def by (induction rs arbitrary: f f') (auto intro: same_view_upd)

text \<open>The same for functions of the virtual address.\<close>

definition map_page :: "u32 \<Rightarrow> u32 \<Rightarrow> (u32 \<Rightarrow> u32 option) \<Rightarrow> (u32 \<Rightarrow> u32 option)" where
  "map_page v e g = (\<lambda>w. if unat w div 4096 = unat v div 4096 then (if entry_present e then Some e else None) else g w)"

definition map_all :: "(u32 \<times> u32 \<times> u32 \<times> u32) list \<Rightarrow> (u32 \<Rightarrow> u32 option) \<Rightarrow> (u32 \<Rightarrow> u32 option)" where
  "map_all rs g = fold (\<lambda>(v, p, f, _). map_page v (ADD_FLAGS p f)) rs g"

lemma upd_all_lookup: "(\<lambda>w. upd_all rs f (pde_i w) (pte_i w)) = map_all rs (\<lambda>w. f (pde_i w) (pte_i w))"
  unfolding upd_all_def map_all_def
proof (induction rs arbitrary: f)
  case (Cons q rs)
  obtain v p fl g where q: "q = (v, p, fl, g)" by (cases q)
  have "(\<lambda>w. upd_view (pde_i v) (pte_i v) (ADD_FLAGS p fl) f (pde_i w) (pte_i w)) =
      map_page v (ADD_FLAGS p fl) (\<lambda>w. f (pde_i w) (pte_i w))"
    by (rule ext) (simp only: upd_view_lookup map_page_def)
  then show ?case using Cons.IH [of "upd_view (pde_i v) (pte_i v) (ADD_FLAGS p fl) f"] q by simp
qed simp

text \<open>The tasks that a batch of mappings leaves behind, and that their tables exist.\<close>

definition task_of :: "u32 \<times> u32 \<times> u32 \<times> u32 \<Rightarrow> mapping_task \<Rightarrow> bool" where
  "task_of r t \<longleftrightarrow> t_v_addr t = fst r \<and> t_pte t = ADD_FLAGS (fst (snd r)) (fst (snd (snd r)))"

definition tasks_ready :: "u32 list \<Rightarrow> mapping_task list \<Rightarrow> bool" where
  "tasks_ready dir ts \<longleftrightarrow> (\<forall>t \<in> set ts. entry_present (dir ! pde_i (t_v_addr t)))"

lemma queue_or_write_batch:
  assumes "batch_enabled pd"
  shows "queue_or_write al v e pt res pd m =
    Some (if al (vm_mcalls m) (\<lambda>_. False) = NULL then (-3, pd, m\<lparr>vm_mcalls := Suc (vm_mcalls m)\<rparr>)
      else if al (Suc (vm_mcalls m)) (\<lambda>_. False) = NULL then (-4, pd, free_page_table res (m\<lparr>vm_mcalls := Suc (Suc (vm_mcalls m))\<rparr>))
      else (0, pd\<lparr>mapping_tasks := mapping_tasks pd @ [\<lparr>t_v_addr = v, t_pte = e, t_resource = res\<rparr>]\<rparr>,
            m\<lparr>vm_mcalls := Suc (Suc (vm_mcalls m))\<rparr>))"
  using assms by (simp add: queue_or_write_def malloc_obj_def Let_def)

lemma create_queues:
  assumes ok: "pd_ok (directory pd) m" and al: "paged al" and args: "map_args v p g" and b: "batch_enabled pd"
    and rdy: "tasks_ready (directory pd) (mapping_tasks pd)"
  obtains r pd' m' where "pd_create_mapping al pd v p f g m = Some (r, pd', m')" "r < 0"
  | pd' m' t where "pd_create_mapping al pd v p f g m = Some (0, pd', m')" "pd_ok (directory pd') m'" "batch_enabled pd'"
    "same_view (pd_view (directory pd') m') (pd_view (directory pd) m)"
    "mapping_tasks pd' = mapping_tasks pd @ [t]" "task_of (v, p, f, g) t" "tasks_ready (directory pd') (mapping_tasks pd')"
proof (rule create_prepares [OF ok al args, of f])
  fix m1 assume "pd_create_mapping al pd v p f g m = Some (-2, pd, m1)"
  then show thesis by (rule that(1)) simp
next
  fix res pd1 m1 assume h: "has_table pd m v res pd1 m1" and run: "pd_create_mapping al pd v p f g m =
       queue_or_write al v (ADD_FLAGS p f) (REMOVE_FLAGS (directory pd1 ! pde_i v)) res pd1 m1"
  have pd1: "pd1 = pd\<lparr>directory := directory pd1\<rparr>" using h unfolding has_table_def by blast
  have f1: "batch_enabled pd1" "mapping_tasks pd1 = mapping_tasks pd" by (subst pd1, simp add: b)+
  show thesis
  proof (cases "al (vm_mcalls m1) (\<lambda>_. False) = NULL \<or> al (Suc (vm_mcalls m1)) (\<lambda>_. False) = NULL")
    case True
    then obtain r pd' m' where "pd_create_mapping al pd v p f g m = Some (r, pd', m')" "r < 0"
      unfolding run queue_or_write_batch [OF f1(1)] by (cases "al (vm_mcalls m1) (\<lambda>_. False) = NULL") simp_all
    then show thesis by (rule that(1))
  next
    case False
    let ?t = "\<lparr>t_v_addr = v, t_pte = ADD_FLAGS p f, t_resource = res\<rparr>"
    let ?pd = "pd1\<lparr>mapping_tasks := mapping_tasks pd1 @ [?t]\<rparr>" and ?m = "m1\<lparr>vm_mcalls := Suc (Suc (vm_mcalls m1))\<rparr>"
    have v: "pd_view (directory pd1) ?m = pd_view (directory pd1) m1" by (simp add: pd_view_def fun_eq_iff)
    have ok1: "pd_ok (directory ?pd) ?m" using h by (simp add: has_table_def pd_ok_def)
    have sv: "same_view (pd_view (directory ?pd) ?m) (pd_view (directory pd) m)"
      using h v by (simp add: has_table_def same_view_def)
    have td: "tasks_ready (directory ?pd) (mapping_tasks ?pd)"
      using h rdy f1(2) pde_i_less unfolding tasks_ready_def has_table_def by auto
    have tk: "task_of (v, p, f, g) ?t" by (simp add: task_of_def)
    have "pd_create_mapping al pd v p f g m = Some (0, ?pd, ?m)"
      using run False by (simp add: queue_or_write_batch [OF f1(1)])
    then show thesis by (rule that(2) [OF _ ok1 _ sv _ tk td]) (use f1 in simp_all)
  qed
qed

lemma create_all_queues:
  assumes al: "paged al"
  shows "pd_ok (directory pd) m \<Longrightarrow> \<forall>(v, p, f, g) \<in> set rs. map_args v p g \<Longrightarrow> batch_enabled pd \<Longrightarrow>
    tasks_ready (directory pd) (mapping_tasks pd) \<Longrightarrow>
    \<exists>r pd' m'. create_all al pd rs m = Some (r, pd', m') \<and> (r < 0 \<or> r = 0 \<and> pd_ok (directory pd') m' \<and>
      same_view (pd_view (directory pd') m') (pd_view (directory pd) m) \<and>
      (\<exists>ts. mapping_tasks pd' = mapping_tasks pd @ ts \<and> list_all2 task_of rs ts) \<and>
      tasks_ready (directory pd') (mapping_tasks pd'))"
proof (induction rs arbitrary: pd m)
  case Nil
  then show ?case by (simp add: same_view_def)
next
  case (Cons q rs)
  obtain v p f g where q: "q = (v, p, f, g)" by (cases q)
  have args: "map_args v p g" "\<forall>(v, p, f, g) \<in> set rs. map_args v p g" using Cons.prems(2) q by auto
  show ?case
  proof (rule create_queues [OF Cons.prems(1) al args(1) Cons.prems(3,4), of f])
    fix r pd' m' assume "pd_create_mapping al pd v p f g m = Some (r, pd', m')" "r < 0"
    then show ?thesis using q by simp
  next
    fix pd1 m1 t assume s: "pd_create_mapping al pd v p f g m = Some (0, pd1, m1)" "pd_ok (directory pd1) m1" "batch_enabled pd1"
      "same_view (pd_view (directory pd1) m1) (pd_view (directory pd) m)"
      "mapping_tasks pd1 = mapping_tasks pd @ [t]" "task_of (v, p, f, g) t" "tasks_ready (directory pd1) (mapping_tasks pd1)"
    obtain r pd' m' where r: "create_all al pd1 rs m1 = Some (r, pd', m')" "r < 0 \<or> r = 0 \<and> pd_ok (directory pd') m' \<and>
      same_view (pd_view (directory pd') m') (pd_view (directory pd1) m1) \<and>
      (\<exists>ts. mapping_tasks pd' = mapping_tasks pd1 @ ts \<and> list_all2 task_of rs ts) \<and>
      tasks_ready (directory pd') (mapping_tasks pd')" using Cons.IH [OF s(2) args(2) s(3,7)] by blast
    have run: "create_all al pd (q # rs) m = Some (r, pd', m')" using s(1) r(1) q by simp
    from r(2) show ?thesis
    proof (elim disjE conjE exE)
      assume "r < 0" with run show ?thesis by blast
    next
      fix ts assume 0: "r = 0" "pd_ok (directory pd') m'" "same_view (pd_view (directory pd') m') (pd_view (directory pd1) m1)"
        "mapping_tasks pd' = mapping_tasks pd1 @ ts" "list_all2 task_of rs ts" "tasks_ready (directory pd') (mapping_tasks pd')"
      have "mapping_tasks pd' = mapping_tasks pd @ (t # ts) \<and> list_all2 task_of (q # rs) (t # ts)" using 0(4,5) s(5,6) q by simp
      then have "\<exists>ts. mapping_tasks pd' = mapping_tasks pd @ ts \<and> list_all2 task_of (q # rs) ts" by (rule exI)
      then show ?thesis
        by (intro exI [of _ r] exI [of _ pd'] exI [of _ m'] conjI disjI2 run 0(1,2,6) same_view_trans [OF 0(3) s(4)])
    qed
  qed
qed

lemma commit_tasks_ok:
  "pd_ok dir m \<Longrightarrow> tasks_ready dir ts \<Longrightarrow> list_all2 task_of rs ts \<Longrightarrow>
   \<exists>m'. commit_tasks dir ts m = Some m' \<and> pd_ok dir m' \<and> same_view (pd_view dir m') (upd_all rs (pd_view dir m))"
proof (induction ts arbitrary: m rs)
  case Nil
  then show ?case by (simp add: same_view_def upd_all_def)
next
  case (Cons t ts)
  obtain v p f g rs' where rs: "rs = (v, p, f, g) # rs'" "list_all2 task_of rs' ts"
    and t: "t_v_addr t = v" "t_pte t = ADD_FLAGS p f"
  proof -
    obtain q rs' where "rs = q # rs'" "task_of q t" "list_all2 task_of rs' ts" using Cons.prems(3) by (auto simp: list_all2_Cons2)
    then show thesis using that [of "fst q" "fst (snd q)" "fst (snd (snd q))" "snd (snd (snd q))" rs'] by (simp add: task_of_def [of q])
  qed
  have rdy: "entry_present (dir ! pde_i v)" "tasks_ready dir ts" using Cons.prems(2) t by (simp_all add: tasks_ready_def)
  obtain e where e: "pts m (REMOVE_FLAGS (dir ! pde_i v)) = Some e"
    "\<And>x. pt_set (REMOVE_FLAGS (dir ! pde_i v)) (pte_i v) x m =
       Some (m\<lparr>pts := (pts m)(REMOVE_FLAGS (dir ! pde_i v) \<mapsto> e[pte_i v := x])\<rparr>)"
    by (rule pt_get_ok [OF Cons.prems(1) rdy(1)]) blast
  let ?m = "m\<lparr>pts := (pts m)(REMOVE_FLAGS (dir ! pde_i v) \<mapsto> e[pte_i v := ADD_FLAGS p f])\<rparr>"
  note w = write_entry [OF Cons.prems(1) pde_i_less rdy(1) e(1) pte_i_less [of v], where e = "ADD_FLAGS p f" and m' = ?m]
  have ok: "pd_ok dir ?m" by (rule w(1)) simp
  have sv: "same_view (pd_view dir ?m) (upd_view (pde_i v) (pte_i v) (ADD_FLAGS p f) (pd_view dir m))"
    unfolding same_view_def using w(2) by simp
  obtain m' where m': "commit_tasks dir ts ?m = Some m'" "pd_ok dir m'" "same_view (pd_view dir m') (upd_all rs' (pd_view dir ?m))"
    using Cons.IH [OF ok rdy(2) rs(2)] by blast
  have "same_view (pd_view dir m') (upd_all rs (pd_view dir m))"
    using same_view_trans [OF m'(3) same_view_upd_all [OF sv, of rs']] by (simp add: upd_all_def rs(1))
  then show ?case using m'(1,2) arr_get_dir [OF Cons.prems(1)] e(2) t by auto
qed

lemma abort_tasks_pts: "(\<And>t. t \<in> set ts \<Longrightarrow> t_resource t = NULL) \<Longrightarrow> abort_tasks ts m = m"
  by (induction ts) simp_all

lemma abort_frees: "t \<in> set ts \<Longrightarrow> t_resource t \<noteq> NULL \<Longrightarrow> pts (abort_tasks ts m) (t_resource t) = None"
proof (induction ts arbitrary: m)
  case (Cons u ts)
  have keep: "pts m x = None \<Longrightarrow> pts (abort_tasks ts m) x = None" for m x
    by (induction ts arbitrary: m) (auto simp: free_page_table_def)
  show ?case using Cons keep by (auto simp: free_page_table_def)
qed simp

subsection \<open>\<open>pd_remove_mapping\<close> and permissions\<close>

lemma remove_unbatched:
  assumes ok: "pd_ok (directory pd) m" and v: "IS_PAGE_ALIGNED v" and nb: "\<not> batch_enabled pd"
    and e: "pd_lookup pd m v = Some e"
  obtains m' where "pd_remove_mapping al (Some pd) v m = Some (0, Some pd, m')" "pd_ok (directory pd) m'"
    "\<And>w. pd_lookup pd m' w = (if unat w div 4096 = unat v div 4096 then None else pd_lookup pd m w)"
proof -
  have pr: "entry_present (directory pd ! pde_i v)" using e by (auto simp: pd_lookup_def pd_view_def split: if_splits)
  obtain t where t: "pts m (REMOVE_FLAGS (directory pd ! pde_i v)) = Some t"
    "pt_get (REMOVE_FLAGS (directory pd ! pde_i v)) (pte_i v) m = Some (t ! pte_i v)"
    "\<And>e. pt_set (REMOVE_FLAGS (directory pd ! pde_i v)) (pte_i v) e m =
       Some (m\<lparr>pts := (pts m)(REMOVE_FLAGS (directory pd ! pde_i v) \<mapsto> t[pte_i v := e])\<rparr>)"
    by (rule pt_get_ok [OF ok pr]) blast
  let ?m = "m\<lparr>pts := (pts m)(REMOVE_FLAGS (directory pd ! pde_i v) \<mapsto> t[pte_i v := 0])\<rparr>"
  have pt: "entry_present (t ! pte_i v)" using e t(1) pr by (auto simp: pd_lookup_def pd_view_def split: if_splits)
  note w = write_entry [OF ok pde_i_less pr t(1) pte_i_less [of v], where e = 0 and m' = ?m]
  have "pd_remove_mapping al (Some pd) v m = Some (0, Some pd, ?m)"
    using v pr pt nb arr_get_dir [OF ok] t(2,3) by (simp add: pd_remove_mapping_def queue_or_write_def)
  moreover have "pd_ok (directory pd) ?m" by (rule w(1)) simp
  moreover have "pd_lookup pd ?m w = (if unat w div 4096 = unat v div 4096 then None else pd_lookup pd m w)" for w
    using w(2) [OF _ pde_i_less [of w], of "pte_i w"] upd_view_lookup [of v 0 "pd_view (directory pd) m" w] by (simp add: pd_lookup_def)
  ultimately show thesis by (rule that)
qed

lemma remove_empty_entry:
  assumes ok: "pd_ok (directory pd) m" and v: "IS_PAGE_ALIGNED v"
    and pr: "entry_present (directory pd ! pde_i v)" and e: "pd_lookup pd m v = None"
  shows "pd_remove_mapping al (Some pd) v m = Some (-3, Some pd, m)"
proof -
  obtain t where t: "pts m (REMOVE_FLAGS (directory pd ! pde_i v)) = Some t"
    "pt_get (REMOVE_FLAGS (directory pd ! pde_i v)) (pte_i v) m = Some (t ! pte_i v)"
    by (rule pt_get_ok [OF ok pr]) blast
  have "\<not> entry_present (t ! pte_i v)" using e t(1) pr by (auto simp: pd_lookup_def pd_view_def split: if_splits)
  then show ?thesis using v pr arr_get_dir [OF ok] t(2) by (simp add: pd_remove_mapping_def)
qed

lemma remove_unmapped:
  assumes ok: "pd_ok (directory pd) m" and v: "IS_PAGE_ALIGNED v" and e: "pd_lookup pd m v = None"
  shows "\<exists>r. (r = -2 \<or> r = -3) \<and> pd_remove_mapping al (Some pd) v m = Some (r, Some pd, m)"
proof (cases "entry_present (directory pd ! pde_i v)")
  case False
  then show ?thesis using v arr_get_dir [OF ok] by (simp add: pd_remove_mapping_def)
next
  case True
  then show ?thesis using remove_empty_entry [OF ok v True e] by blast
qed

lemma permissions_mapped:
  assumes ok: "pd_ok (directory pd) m" and e: "pd_lookup pd m v = Some e"
  shows "pd_get_permissions (Some pd) v m = Some (0, Some
    (of_bool (bit (directory pd ! pde_i v) 2 \<and> bit e 2),
     of_bool (bit (directory pd ! pde_i v) 2 \<and> bit e 2 \<longrightarrow> bit (directory pd ! pde_i v) 1 \<and> bit e 1)))"
proof -
  have pr: "entry_present (directory pd ! pde_i v)" using e by (auto simp: pd_lookup_def pd_view_def split: if_splits)
  obtain t where t: "pts m (REMOVE_FLAGS (directory pd ! pde_i v)) = Some t"
    "pt_get (REMOVE_FLAGS (directory pd ! pde_i v)) (pte_i v) m = Some (t ! pte_i v)"
    by (rule pt_get_ok [OF ok pr]) blast
  have pt: "entry_present (t ! pte_i v)" "e = t ! pte_i v" using e t(1) pr by (auto simp: pd_lookup_def pd_view_def split: if_splits)
  have "NTH_BIT x n = of_bool (bit x n)" for x n
    by (simp add: NTH_BIT_def and_one_eq bit_iff_odd_drop_bit mod_2_eq_odd)
  then show ?thesis
    using pr pt arr_get_dir [OF ok] t(2) by (auto simp: pd_get_permissions_def entry_permissions_def Let_def)
qed

lemma permissions_unmapped:
  assumes ok: "pd_ok (directory pd) m" and e: "pd_lookup pd m v = None"
  shows "\<exists>r < 0. pd_get_permissions (Some pd) v m = Some (r, None)"
proof (cases "entry_present (directory pd ! pde_i v)")
  case False
  then show ?thesis using arr_get_dir [OF ok] by (simp add: pd_get_permissions_def)
next
  case True
  obtain t where t: "pts m (REMOVE_FLAGS (directory pd ! pde_i v)) = Some t"
    "pt_get (REMOVE_FLAGS (directory pd ! pde_i v)) (pte_i v) m = Some (t ! pte_i v)"
    by (rule pt_get_ok [OF ok True]) blast
  have "\<not> entry_present (t ! pte_i v)" using e t(1) True by (auto simp: pd_lookup_def pd_view_def split: if_splits)
  then show ?thesis using True arr_get_dir [OF ok] t(2) by (simp add: pd_get_permissions_def)
qed

lemma create_refines:
  assumes "pd_ok (directory pd) m" "paged al" "map_args v p pde_flags" "\<not> batch_enabled pd"
  shows "\<exists>r pd' m'. pd_create_mapping al pd v p pte_flags pde_flags m = Some (r, pd', m') \<and> r \<in> {0, -2} \<and>
    pd_ok (directory pd') m' \<and>
    (\<forall>w. pd_lookup pd' m' w = (if r = 0 \<and> unat w div 4096 = unat v div 4096
       then (if entry_present pte_flags then Some (ADD_FLAGS p pte_flags) else None) else pd_lookup pd m w)) \<and>
    (\<forall>pd2. pd_ok (directory pd2) m \<longrightarrow>
       \<not> (entry_present (directory pd ! pde_i v) \<and> REMOVE_FLAGS (directory pd ! pde_i v) \<in> pd_tables 0 (directory pd2)) \<longrightarrow>
       pd_ok (directory pd2) m' \<and> (\<forall>w. pd_lookup pd2 m' w = pd_lookup pd2 m w))"
proof (rule create_writes [OF assms, of pte_flags])
  fix m1 assume r: "pd_create_mapping al pd v p pte_flags pde_flags m = Some (-2, pd, m1)" "pts m1 = pts m"
  have "pd_ok d m1 = pd_ok d m" "pd_view d m1 = pd_view d m" for d using r(2) by (simp_all add: pd_ok_def pd_view_def fun_eq_iff)
  then show ?thesis using r(1) assms(1) by (simp add: pd_lookup_def)
next
  let ?e = "ADD_FLAGS p pte_flags"
  fix res pd1 m1 t m' assume h: "has_table pd m v res pd1 m1"
    and t: "pts m1 (REMOVE_FLAGS (directory pd1 ! pde_i v)) = Some t"
    and r: "pd_create_mapping al pd v p pte_flags pde_flags m = Some (0, pd1, m')"
    and m': "m' = m1\<lparr>pts := (pts m1)(REMOVE_FLAGS (directory pd1 ! pde_i v) \<mapsto> t[pte_i v := ?e])\<rparr>"
    and ok: "pd_ok (directory pd1) m'"
    and view: "\<And>i j. i < 1024 \<Longrightarrow> j < 1024 \<Longrightarrow> pd_view (directory pd1) m' i j =
       upd_view (pde_i v) (pte_i v) ?e (pd_view (directory pd) m) i j"
  let ?x = "REMOVE_FLAGS (directory pd1 ! pde_i v)"
  have "entry_present ?e = entry_present pte_flags" using assms(3) by (simp add: map_args_def add_flags_present)
  then have look: "pd_lookup pd1 m' w = (if unat w div 4096 = unat v div 4096
       then (if entry_present pte_flags then Some ?e else None) else pd_lookup pd m w)" for w
    using view [OF pde_i_less [of w] pte_i_less [of w]] upd_view_lookup [of v ?e "pd_view (directory pd) m" w]
    by (simp add: pd_lookup_def)
  have iso: "pd_ok (directory pd2) m' \<and> (\<forall>w. pd_lookup pd2 m' w = pd_lookup pd2 m w)"
    if ok2: "pd_ok (directory pd2) m"
      and dj: "\<not> (entry_present (directory pd ! pde_i v) \<and> REMOVE_FLAGS (directory pd ! pde_i v) \<in> pd_tables 0 (directory pd2))" for pd2
  proof -
    have x: "?x \<notin> pd_tables 0 (directory pd2)"
    proof (cases "res = NULL")
      case True
      then have "directory pd1 = directory pd" "entry_present (directory pd ! pde_i v)" using h by (auto simp: has_table_def)
      then show ?thesis using dj by simp
    next
      case False
      then have "pts m ?x = None" using h by (auto simp: has_table_def)
      then show ?thesis using pd_okD(2) [OF ok2] by (fastforce simp: pd_tables_def)
    qed
    have "pts m1 = (pts m)(?x := pts m1 ?x)" using h by (auto simp: has_table_def split: if_splits)
    then have "pts m' = (pts m)(?x := Some (t[pte_i v := ?e]))" using m' by (metis fun_upd_upd vmem.select_convs(1) vmem.surjective vmem.update_convs(1))
    from write_elsewhere [OF x this ok2] show ?thesis using pde_i_less by (simp add: pd_lookup_def)
  qed
  show ?thesis
  proof (intro exI conjI)
    show "pd_create_mapping al pd v p pte_flags pde_flags m = Some (0, pd1, m')" by (rule r)
  qed (use ok look iso in auto)
qed

lemma batch_commit:
  assumes "pd_ok (directory pd) m" "paged al" "\<not> batch_enabled pd" "mapping_tasks pd = []"
    and "\<forall>(v, p, f, g) \<in> set rs. map_args v p g"
    and "pd_begin_mapping (Some pd) = (0, Some pd1)"
  shows "\<exists>r pd2 m2. create_all al pd1 rs m = Some (r, pd2, m2) \<and>
    (r = 0 \<longrightarrow> (\<forall>w. pd_lookup pd2 m2 w = pd_lookup pd m w) \<and>
      (\<exists>pd3 m3. pd_commit_mapping pd2 m2 = Some (pd3, m3) \<and> pd_ok (directory pd3) m3 \<and>
        \<not> batch_enabled pd3 \<and> mapping_tasks pd3 = [] \<and>
        (\<forall>w. pd_lookup pd3 m3 w = map_all rs (pd_lookup pd m) w)))"
proof -
  have pd1: "pd1 = pd\<lparr>batch_enabled := True\<rparr>" using assms(3,6) by (simp add: pd_begin_mapping_def)
  have 1: "pd_ok (directory pd1) m" "batch_enabled pd1" "tasks_ready (directory pd1) (mapping_tasks pd1)" "mapping_tasks pd1 = []"
    using assms(1,4) by (simp_all add: pd1 tasks_ready_def)
  obtain r pd2 m2 where c: "create_all al pd1 rs m = Some (r, pd2, m2)" "r < 0 \<or> r = 0 \<and> pd_ok (directory pd2) m2 \<and>
      same_view (pd_view (directory pd2) m2) (pd_view (directory pd1) m) \<and>
      (\<exists>ts. mapping_tasks pd2 = mapping_tasks pd1 @ ts \<and> list_all2 task_of rs ts) \<and>
      tasks_ready (directory pd2) (mapping_tasks pd2)"
    using create_all_queues [OF assms(2) 1(1) assms(5) 1(2,3)] by blast
  show ?thesis
  proof (rule exI [of _ r], rule exI [of _ pd2], rule exI [of _ m2], rule conjI [OF c(1)], intro impI, rule conjI)
    assume r0: "r = 0"
    with c(2) obtain ts where s: "pd_ok (directory pd2) m2" "same_view (pd_view (directory pd2) m2) (pd_view (directory pd1) m)"
      "mapping_tasks pd2 = ts" "list_all2 task_of rs ts" "tasks_ready (directory pd2) ts" using 1(4) by auto
    then show "\<forall>w. pd_lookup pd2 m2 w = pd_lookup pd m w"
      using pde_i_less pte_i_less by (simp add: pd_lookup_def same_view_def pd1)
  next
    assume r0: "r = 0"
    with c(2) obtain ts where s: "pd_ok (directory pd2) m2" "same_view (pd_view (directory pd2) m2) (pd_view (directory pd1) m)"
      "mapping_tasks pd2 = ts" "list_all2 task_of rs ts" "tasks_ready (directory pd2) ts" using 1(4) by auto
    obtain m3 where m3: "commit_tasks (directory pd2) ts m2 = Some m3" "pd_ok (directory pd2) m3"
      "same_view (pd_view (directory pd2) m3) (upd_all rs (pd_view (directory pd2) m2))"
      using commit_tasks_ok [OF s(1,5,4)] by blast
    let ?pd3 = "pd2\<lparr>mapping_tasks := [], batch_enabled := False\<rparr>"
    have sv: "same_view (pd_view (directory pd2) m3) (upd_all rs (pd_view (directory pd) m))"
      using same_view_trans [OF m3(3) same_view_upd_all [OF s(2)]] by (simp add: pd1)
    have "pd_lookup ?pd3 m3 w = map_all rs (pd_lookup pd m) w" for w
      using sv pde_i_less [of w] pte_i_less [of w] fun_cong [OF upd_all_lookup [of rs "pd_view (directory pd) m"], of w]
      by (simp add: same_view_def pd_lookup_def [abs_def])
    then show "\<exists>pd3 m3. pd_commit_mapping pd2 m2 = Some (pd3, m3) \<and> pd_ok (directory pd3) m3 \<and>
        \<not> batch_enabled pd3 \<and> mapping_tasks pd3 = [] \<and>
        (\<forall>w. pd_lookup pd3 m3 w = map_all rs (pd_lookup pd m) w)"
      using m3 s(3) by (intro exI [of _ ?pd3] exI [of _ m3]) (simp add: pd_commit_mapping_def)
  qed
qed

subsection \<open>Properties\<close>

definition one_page :: allocator where
  "one_page k live = (if live 0x5000 then NULL else 0x5000)"

lemma one_page_paged: "paged one_page"
  by (simp add: paged_def malloc_ok_def one_page_def IS_PAGE_ALIGNED_def)

definition empty_pd :: page_directory where
  "empty_pd = \<lparr>directory = replicate 1024 0, num_pages = 0, p_addr_list = [], mapping_tasks = [], batch_enabled = False\<rparr>"

definition empty_vm :: vmem where
  "empty_vm = \<lparr>pts = Map.empty, phys = (\<lambda>_. []), vm_mcalls = 0\<rparr>"

lemma empty_pd_ok: "pd_ok (directory empty_pd) m" "\<not> batch_enabled empty_pd" "mapping_tasks empty_pd = []"
  by (simp_all add: empty_pd_def pd_ok_def)

lemma flags_7: "flag_bits 7" "entry_present 7"
proof -
  have "flag_bits (mask 3)" by (auto simp: flag_bits_def bit_simps)
  then show "flag_bits 7" by (simp add: mask_numeral)
  show "entry_present 7" by (simp add: present_bit bit_0)
qed

lemma map_args_example: "map_args 0x1000000 0x2000000 7"
  using flags_7 by (simp add: map_args_def IS_PAGE_ALIGNED_def)

text \<open>
  C9: A page directory is a function from virtual pages to entries, and
  \<open>pd_create_mapping\<close> outside a batch is its update at one page. The call returns 0
  or, when there is no memory for a page table, -2; after 0 the page of \<open>v\<close> is mapped
  to the frame \<open>p\<close> with the flags given, after -2 nothing has changed, and in both
  cases every other page is mapped as before. No other address space is affected:
  every directory that does not use the page table of \<open>v\<close> keeps all its mappings.
\<close>

theorem pd_create_mapping_refines:
  assumes "pd_ok (directory pd) m" "paged al" "map_args v p pde_flags" "\<not> batch_enabled pd"
  shows "\<exists>r pd' m'. pd_create_mapping al pd v p pte_flags pde_flags m = Some (r, pd', m') \<and> r \<in> {0, -2} \<and>
    pd_ok (directory pd') m' \<and>
    (\<forall>w. pd_lookup pd' m' w = (if r = 0 \<and> unat w div 4096 = unat v div 4096
       then (if entry_present pte_flags then Some (ADD_FLAGS p pte_flags) else None) else pd_lookup pd m w)) \<and>
    (\<forall>pd2. pd_ok (directory pd2) m \<longrightarrow>
       \<not> (entry_present (directory pd ! pde_i v) \<and> REMOVE_FLAGS (directory pd ! pde_i v) \<in> pd_tables 0 (directory pd2)) \<longrightarrow>
       pd_ok (directory pd2) m' \<and> (\<forall>w. pd_lookup pd2 m' w = pd_lookup pd2 m w))"
  by (rule create_refines [OF assms])

theorem pd_create_mapping_refines_witness:
  "\<exists>r pd' m'. pd_create_mapping one_page empty_pd 0x1000000 0x2000000 7 7 empty_vm = Some (r, pd', m') \<and> r \<in> {0, -2} \<and>
     pd_lookup pd' m' 0x1000004 = (if r = 0 then Some (ADD_FLAGS 0x2000000 7) else None)"
proof -
  have "pd_lookup empty_pd empty_vm 0x1000004 = None"
    using pde_i_less [of "0x1000004"] by (simp add: pd_lookup_def pd_view_def empty_pd_def)
  then show ?thesis
    using pd_create_mapping_refines [OF empty_pd_ok(1) one_page_paged map_args_example empty_pd_ok(2), where m = empty_vm and pte_flags = 7]
      flags_7(2) by fastforce
qed

text \<open>
  C29: A batch of mappings is atomic. Between \<open>pd_begin_mapping\<close> and
  \<open>pd_commit_mapping\<close> no address changes its mapping; when all calls have returned 0,
  the commit does not fail and has the effect of the single updates in their order,
  as if they had been made one after the other, and the batch is over.
\<close>

theorem pd_batch_commit:
  assumes "pd_ok (directory pd) m" "paged al" "\<not> batch_enabled pd" "mapping_tasks pd = []"
    and "\<forall>(v, p, f, g) \<in> set rs. map_args v p g"
    and "pd_begin_mapping (Some pd) = (0, Some pd1)"
  shows "\<exists>r pd2 m2. create_all al pd1 rs m = Some (r, pd2, m2) \<and>
    (r = 0 \<longrightarrow> (\<forall>w. pd_lookup pd2 m2 w = pd_lookup pd m w) \<and>
      (\<exists>pd3 m3. pd_commit_mapping pd2 m2 = Some (pd3, m3) \<and> pd_ok (directory pd3) m3 \<and>
        \<not> batch_enabled pd3 \<and> mapping_tasks pd3 = [] \<and>
        (\<forall>w. pd_lookup pd3 m3 w = map_all rs (pd_lookup pd m) w)))"
  by (rule batch_commit [OF assms])

theorem pd_batch_commit_witness:
  "\<exists>r pd2 m2. create_all one_page (empty_pd\<lparr>batch_enabled := True\<rparr>) [(0x1000000, 0x2000000, 7, 7)] empty_vm = Some (r, pd2, m2) \<and>
    (r = 0 \<longrightarrow> pd_commit_mapping pd2 m2 \<noteq> None)"
proof -
  have b: "pd_begin_mapping (Some empty_pd) = (0, Some (empty_pd\<lparr>batch_enabled := True\<rparr>))"
    using empty_pd_ok(2) by (simp add: pd_begin_mapping_def)
  have a: "\<forall>(v, p, f, g) \<in> set [(0x1000000, 0x2000000, 7, 7)]. map_args v p g" using map_args_example by simp
  from pd_batch_commit [OF empty_pd_ok(1) one_page_paged empty_pd_ok(2,3) a b, of empty_vm] show ?thesis by fastforce
qed

text \<open>
  Aborting a batch leaves a dangling page table. If the first mapping of a batch
  had to create a page table, \<open>pd_abort_mapping\<close> frees that table but leaves the
  directory entry present: every later lookup of a page under that entry reads freed
  memory.
\<close>

theorem pd_abort_leaves_dangling_table:
  assumes "pd_ok (directory pd) m" "paged al" "map_args v p g" "batch_enabled pd" "mapping_tasks pd = []"
    and "\<not> entry_present (directory pd ! pde_i v)"
    and "pd_create_mapping al pd v p f g m = Some (0, pd1, m1)" "pd_abort_mapping pd1 m1 = (pd2, m2)"
    and "unat w div 2 ^ 22 = unat v div 2 ^ 22"
  shows "entry_present (directory pd2 ! pde_i w) \<and> pts m2 (REMOVE_FLAGS (directory pd2 ! pde_i w)) = None \<and>
    pd_get_mapping (Some pd2) w m2 = None"
proof (rule create_prepares [OF assms(1-3), of f])
  fix m1 assume "pd_create_mapping al pd v p f g m = Some (-2, pd, m1)"
  then show ?thesis using assms(7) by simp
next
  fix res pd0 m0 assume h: "has_table pd m v res pd0 m0" and run: "pd_create_mapping al pd v p f g m =
       queue_or_write al v (ADD_FLAGS p f) (REMOVE_FLAGS (directory pd0 ! pde_i v)) res pd0 m0"
  have pd0: "pd0 = pd\<lparr>directory := directory pd0\<rparr>" using h unfolding has_table_def by blast
  have f0: "batch_enabled pd0" "mapping_tasks pd0 = []" by (subst pd0, simp add: assms(4,5))+
  have res: "res \<noteq> NULL" "res = REMOVE_FLAGS (directory pd0 ! pde_i v)" "entry_present (directory pd0 ! pde_i v)"
    "length (directory pd0) = 1024"
    using h assms(6) unfolding has_table_def by (auto simp: pd_ok_def split: if_splits)
  let ?t = "\<lparr>t_v_addr = v, t_pte = ADD_FLAGS p f, t_resource = res\<rparr>"
  have pd1: "pd1 = pd0\<lparr>mapping_tasks := [?t]\<rparr>"
    using assms(7) run f0 queue_or_write_batch [OF f0(1), of al v "ADD_FLAGS p f" _ res m0] by (simp split: if_splits)
  have w: "pde_i w = pde_i v" using assms(9) by (simp add: pde_i_eq)
  have p2: "directory pd2 = directory pd0" "m2 = abort_tasks [?t] m1" using assms(8) pd1 by (auto simp: pd_abort_mapping_def)
  have "pts m2 res = None" unfolding p2(2) using abort_frees [of ?t "[?t]" m1] res(1) by simp
  then show ?thesis using res w p2(1) pde_i_less [of v] by (simp add: pd_get_mapping_def arr_get_def pt_get_def)
qed

theorem pd_abort_leaves_dangling_table_witness:
  "\<exists>pd1 m1. pd_create_mapping one_page (empty_pd\<lparr>batch_enabled := True\<rparr>) 0x1000000 0x2000000 7 7 empty_vm = Some (0, pd1, m1) \<and>
     pd_get_mapping (Some (fst (pd_abort_mapping pd1 m1))) 0x1000000 (snd (pd_abort_mapping pd1 m1)) = None"
proof -
  let ?pd = "empty_pd\<lparr>batch_enabled := True\<rparr>"
  have np: "\<not> entry_present (directory ?pd ! pde_i 0x1000000)" using pde_i_less [of "0x1000000"] by (simp add: empty_pd_def)
  have ok: "pd_ok (directory ?pd) empty_vm" using empty_pd_ok(1) by simp
  have b: "batch_enabled ?pd" "mapping_tasks ?pd = []" by (simp_all add: empty_pd_def)
  have "directory ?pd ! pde_i 0x1000000 = 0" "length (directory ?pd) = 1024" using pde_i_less [of "0x1000000"] by (simp_all add: empty_pd_def)
  then obtain pd1 m1 where c: "pd_create_mapping one_page ?pd 0x1000000 0x2000000 7 7 empty_vm = Some (0, pd1, m1)"
    using pde_i_less [of "0x1000000"]
    by (auto simp: pd_create_mapping_def IS_PAGE_ALIGNED_def arr_get_def arr_set_def new_page_table_def one_page_def empty_vm_def
        queue_or_write_def malloc_obj_def Let_def b)
  show ?thesis
    using pd_abort_leaves_dangling_table [OF ok one_page_paged map_args_example b np c surjective_pairing, of "0x1000000"] c by auto
qed

text \<open>
  Mapping an unmapped page and removing the mapping again restores the address
  space: \<open>pd_remove_mapping\<close> returns 0, every address is mapped as it was before
  \<open>pd_create_mapping\<close>, and removing once more returns -3 and changes nothing.
\<close>

theorem pd_create_remove_roundtrip:
  assumes "pd_ok (directory pd) m" "paged al" "map_args v p pde_flags" "\<not> batch_enabled pd" "entry_present pte_flags"
    and "pd_lookup pd m v = None" "pd_create_mapping al pd v p pte_flags pde_flags m = Some (0, pd1, m1)"
  shows "\<exists>m2. pd_remove_mapping al (Some pd1) v m1 = Some (0, Some pd1, m2) \<and> (\<forall>w. pd_lookup pd1 m2 w = pd_lookup pd m w) \<and>
    pd_remove_mapping al (Some pd1) v m2 = Some (-3, Some pd1, m2)"
proof -
  have c: "pd_ok (directory pd1) m1" "\<And>w. pd_lookup pd1 m1 w =
      (if unat w div 4096 = unat v div 4096 then Some (ADD_FLAGS p pte_flags) else pd_lookup pd m w)"
    using create_refines [OF assms(1-4), of pte_flags] assms(5,7) by auto
  have v: "IS_PAGE_ALIGNED v" using assms(3) by (simp add: map_args_def)
  have nb: "\<not> batch_enabled pd1"
    by (rule create_writes [OF assms(1-4), of pte_flags]) (use assms(4,7) in \<open>auto simp: has_table_def intro: page_directory.cases_scheme dest: arg_cong [of _ _ batch_enabled]\<close>)
  have e: "pd_lookup pd1 m1 v = Some (ADD_FLAGS p pte_flags)" using c(2) by simp
  obtain m2 where m2: "pd_remove_mapping al (Some pd1) v m1 = Some (0, Some pd1, m2)" "pd_ok (directory pd1) m2"
    "\<And>w. pd_lookup pd1 m2 w = (if unat w div 4096 = unat v div 4096 then None else pd_lookup pd1 m1 w)"
    by (rule remove_unbatched [OF c(1) v nb e, of al]) blast
  have same: "pd_lookup pd m w = None" if "unat w div 4096 = unat v div 4096" for w
    using assms(6) that page_index_eq [of w v] by (simp add: pd_lookup_def)
  have "pd_lookup pd1 m2 v = None" using m2(3) by simp
  moreover have "entry_present (directory pd1 ! pde_i v)" using e by (auto simp: pd_lookup_def pd_view_def split: if_splits)
  ultimately have "pd_remove_mapping al (Some pd1) v m2 = Some (-3, Some pd1, m2)" by (rule remove_empty_entry [OF m2(2) v, rotated])
  then show ?thesis using m2(1,3) c(2) same by auto
qed

theorem pd_create_remove_roundtrip_witness:
  "\<exists>pd1 m1 m2. pd_create_mapping one_page empty_pd 0x1000000 0x2000000 7 7 empty_vm = Some (0, pd1, m1) \<and>
     pd_remove_mapping one_page (Some pd1) 0x1000000 m1 = Some (0, Some pd1, m2)"
proof -
  have d: "directory empty_pd ! pde_i 0x1000000 = 0" "length (directory empty_pd) = 1024"
    using pde_i_less [of "0x1000000"] by (simp_all add: empty_pd_def)
  have r5: "REMOVE_FLAGS (ADD_FLAGS 0x5000 7) = 0x5000" by (rule add_flags(1)) (simp_all add: IS_PAGE_ALIGNED_def flags_7)
  obtain pd1 m1 where c: "pd_create_mapping one_page empty_pd 0x1000000 0x2000000 7 7 empty_vm = Some (0, pd1, m1)"
    using pde_i_less [of "0x1000000"] pte_i_less [of "0x1000000"] d empty_pd_ok(2)
    by (auto simp: pd_create_mapping_def IS_PAGE_ALIGNED_def arr_get_def arr_set_def new_page_table_def one_page_def empty_vm_def
        queue_or_write_def pt_set_def r5 Let_def)
  have "pd_lookup empty_pd empty_vm 0x1000000 = None" using d by (simp add: pd_lookup_def pd_view_def)
  then show ?thesis
    using pd_create_remove_roundtrip [OF empty_pd_ok(1) one_page_paged map_args_example empty_pd_ok(2) flags_7(2) _ c] c by blast
qed

text \<open>
  The access checks of the system calls. For a mapped page, \<open>pd_is_user_read_write\<close>
  holds exactly when the directory entry and the table entry both have the user and
  the write bit, and \<open>pd_is_user_readable\<close> when both have the user bit. For a page that
  is not mapped the answers come from uninitialised variables: whatever the stack
  holds decides, and an unmapped page can pass as writable user memory.
\<close>

theorem pd_user_access_checks:
  assumes "pd_ok (directory pd) m"
  shows "(case pd_lookup pd m v of
     Some e \<Rightarrow>
       pd_is_user_read_write junk (Some pd) v m = Some (bit (directory pd ! pde_i v) 2 \<and> bit e 2 \<and> bit (directory pd ! pde_i v) 1 \<and> bit e 1) \<and>
       pd_is_user_readable junk (Some pd) v m = Some (bit (directory pd ! pde_i v) 2 \<and> bit e 2)
   | None \<Rightarrow>
       pd_is_user_read_write junk (Some pd) v m = Some (junk = (1, 1)) \<and>
       pd_is_user_readable junk (Some pd) v m = Some (fst junk = 1))"
proof (cases "pd_lookup pd m v")
  case None
  then show ?thesis
    using permissions_unmapped [OF assms None] by (cases junk) (auto simp: pd_is_user_read_write_def pd_is_user_readable_def)
next
  case (Some e)
  then show ?thesis
    using permissions_mapped [OF assms Some] by (auto simp: pd_is_user_read_write_def pd_is_user_readable_def)
qed

theorem pd_user_access_checks_witness:
  "pd_is_user_read_write (1, 1) (Some empty_pd) 0x1000000 empty_vm = Some True"
proof -
  have "pd_lookup empty_pd empty_vm 0x1000000 = None"
    using pde_i_less [of "0x1000000"] by (simp add: pd_lookup_def pd_view_def empty_pd_def)
  then show ?thesis using pd_user_access_checks [OF empty_pd_ok(1), where m = empty_vm and v = "0x1000000" and junk = "(1, 1)"] by simp
qed

end
