(* ===== verification/FrameManagerInv.thy ===== *)
theory FrameManagerInv
  imports FrameManager
begin

text \<open>
  The invariant of the buddy allocator and the five transitions from which its
  operations are composed: change the status of a leaf, turn a parent without
  children into a free leaf, split a leaf, merge two buddies, add a block at boot.

  The frames form a forest of binary trees. A leaf is an allocated or free block, an
  inner node a block that was split. Between the two halves of a coalescing step one
  parent \<open>h\<close> has lost its children; it counts as a leaf.
\<close>

subsection \<open>Blocks of memory\<close>

text \<open>The bytes a frame stands for.\<close>

definition frange :: "frame \<Rightarrow> nat set" where
  "frange fr = {unat (f_addr fr) ..< unat (f_addr fr) + 2 ^ f_i fr * 4096}"

definition frame_wf :: "nat \<Rightarrow> frame \<Rightarrow> bool" where
  "frame_wf nb fr \<longleftrightarrow> f_i fr < nb \<and> unat (f_num_pages fr) = 2 ^ f_i fr \<and>
     unat (f_addr fr) mod 4096 = 0 \<and> unat (f_addr fr) + 2 ^ f_i fr * 4096 \<le> 2 ^ 32"

lemma frange_ne: "unat (f_addr fr) \<in> frange fr"
  by (simp add: frange_def)

lemma frange_status [simp]: "frange (fr\<lparr>f_status := st\<rparr>) = frange fr"
  by (simp add: frange_def)

lemma frame_wf_status [simp]: "frame_wf nb (fr\<lparr>f_status := st\<rparr>) = frame_wf nb fr"
  by (simp add: frame_wf_def)

lemma frame_wf_level:
  assumes "frame_wf nb fr"
  shows "f_i fr \<le> 20"
proof (rule ccontr)
  assume "\<not> f_i fr \<le> 20"
  then have "(2 :: nat) ^ 21 \<le> 2 ^ f_i fr" by (intro power_increasing) simp_all
  then have "2 ^ 21 * 4096 \<le> 2 ^ f_i fr * (4096 :: nat)" by simp
  with assms show False by (simp add: frame_wf_def)
qed

subsection \<open>The forest\<close>

definition leaf :: "ptr option \<Rightarrow> ptr \<Rightarrow> frame \<Rightarrow> bool" where
  "leaf h f fr \<longleftrightarrow> f_status fr \<noteq> FRAME_PARENT \<or> h = Some f"

text \<open>\<open>below h fr g gr\<close>: the block \<open>fr\<close> lies inside the split block \<open>gr\<close> at \<open>g\<close>.\<close>

definition below :: "ptr option \<Rightarrow> frame \<Rightarrow> ptr \<Rightarrow> frame \<Rightarrow> bool" where
  "below h fr g gr \<longleftrightarrow> frange fr \<subseteq> frange gr \<and> f_i fr < f_i gr \<and> \<not> leaf h g gr"

definition laminar :: "ptr option \<Rightarrow> (ptr \<rightharpoonup> frame) \<Rightarrow> bool" where
  "laminar h F \<longleftrightarrow> (\<forall>f g fr gr. F f = Some fr \<longrightarrow> F g = Some gr \<longrightarrow> f \<noteq> g \<longrightarrow>
     frange fr \<inter> frange gr = {} \<or> below h fr g gr \<or> below h gr f fr)"

text \<open>A frame with a buddy is one half of its parent, which has been split.\<close>

definition halves :: "ptr option \<Rightarrow> (ptr \<rightharpoonup> frame) \<Rightarrow> ptr \<Rightarrow> frame \<Rightarrow> bool" where
  "halves h F f fr \<longleftrightarrow> (\<exists>br pr. F (f_buddy fr) = Some br \<and> f_buddy fr \<noteq> f \<and> f_buddy br = f \<and>
     f_i br = f_i fr \<and> f_parent br = f_parent fr \<and> f_parent fr \<noteq> NULL \<and>
     F (f_parent fr) = Some pr \<and> \<not> leaf h (f_parent fr) pr \<and> f_i pr = Suc (f_i fr) \<and>
     frange fr \<union> frange br = frange pr)"

definition links :: "ptr option \<Rightarrow> (ptr \<rightharpoonup> frame) \<Rightarrow> bool" where
  "links h F \<longleftrightarrow> (\<forall>f fr. F f = Some fr \<longrightarrow> f \<noteq> NULL \<and>
     (if f_buddy fr = NULL then f_parent fr = NULL else halves h F f fr))"

definition heap_ok :: "nat \<Rightarrow> ptr option \<Rightarrow> (ptr \<rightharpoonup> frame) \<Rightarrow> bool" where
  "heap_ok nb h F \<longleftrightarrow> (\<forall>f fr. F f = Some fr \<longrightarrow> frame_wf nb fr) \<and> links h F \<and> laminar h F \<and>
     (case h of None \<Rightarrow> True | Some p \<Rightarrow> \<exists>pr. F p = Some pr \<and> f_status pr = FRAME_PARENT)"

text \<open>The memory that the leaves cover.\<close>

definition covered :: "ptr option \<Rightarrow> (ptr \<rightharpoonup> frame) \<Rightarrow> nat set" where
  "covered h F = (\<Union>{frange fr | f fr. F f = Some fr \<and> leaf h f fr})"

lemma laminarD:
  "laminar h F \<Longrightarrow> F f = Some fr \<Longrightarrow> F g = Some gr \<Longrightarrow> f \<noteq> g \<Longrightarrow>
   frange fr \<inter> frange gr = {} \<or> below h fr g gr \<or> below h gr f fr"
  unfolding laminar_def by blast

lemma laminar_leaves:
  assumes "laminar h F" "F f = Some fr" "F g = Some gr" "f \<noteq> g" "leaf h f fr" "leaf h g gr"
  shows "frange fr \<inter> frange gr = {}"
  using laminarD [OF assms(1-4)] assms(5,6) by (auto simp: below_def)

lemma laminar_level:
  assumes "laminar h F" "F f = Some fr" "F g = Some gr" "f \<noteq> g" "f_i fr = f_i gr"
  shows "frange fr \<inter> frange gr = {}"
  using laminarD [OF assms(1-4)] assms(5) by (auto simp: below_def)

text \<open>Two frames at the same address are on different levels, and not both leaves.\<close>

lemma same_address_frames:
  assumes "laminar h F" "F f = Some fr" "F g = Some gr" "f_addr fr = f_addr gr"
    and "f_i fr = f_i gr \<or> leaf h f fr \<and> leaf h g gr"
  shows "f = g"
  using laminar_level [OF assms(1-3)] laminar_leaves [OF assms(1-3)] assms(4,5)
    frange_ne [of fr] frange_ne [of gr] by fastforce

lemma linksD:
  "links h F \<Longrightarrow> F f = Some fr \<Longrightarrow> f \<noteq> NULL"
  "links h F \<Longrightarrow> F f = Some fr \<Longrightarrow> f_buddy fr = NULL \<Longrightarrow> f_parent fr = NULL"
  "links h F \<Longrightarrow> F f = Some fr \<Longrightarrow> f_buddy fr \<noteq> NULL \<Longrightarrow> halves h F f fr"
  unfolding links_def by auto

text \<open>Nothing lies below a leaf.\<close>

lemma leaf_children:
  assumes "links h F" "F f = Some fr" "leaf h f fr" "F g = Some gr"
  shows "f_parent gr \<noteq> f"
proof (cases "f_buddy gr = NULL")
  case True
  then show ?thesis using linksD(1) [OF assms(1,2)] linksD(2) [OF assms(1,4)] by simp
next
  case False
  then show ?thesis using linksD(3) [OF assms(1,4)] assms(2,3) by (auto simp: halves_def)
qed

text \<open>Changing a frame that no frame has as its buddy or parent, or only its status, keeps the links.\<close>

lemma halves_cong:
  assumes "halves h F f fr" "\<And>g. g = f_parent fr \<Longrightarrow> h' = Some g \<Longrightarrow> h = Some g"
    and "\<And>br. F (f_buddy fr) = Some br \<Longrightarrow> \<exists>br'. F' (f_buddy fr) = Some br' \<and> f_buddy br' = f_buddy br \<and>
        f_i br' = f_i br \<and> f_parent br' = f_parent br \<and> frange br' = frange br"
    and "\<And>pr. F (f_parent fr) = Some pr \<Longrightarrow> f_status pr = FRAME_PARENT \<Longrightarrow> h \<noteq> Some (f_parent fr) \<Longrightarrow> F' (f_parent fr) = Some pr"
  shows "halves h' F' f fr"
  using assms unfolding halves_def leaf_def by (metis (no_types, lifting))

subsection \<open>Transitions of the forest\<close>

lemma covered_iff: "x \<in> covered h F \<longleftrightarrow> (\<exists>f fr. F f = Some fr \<and> leaf h f fr \<and> x \<in> frange fr)"
  unfolding covered_def by blast

lemma coveredI: "F f = Some fr \<Longrightarrow> leaf h f fr \<Longrightarrow> x \<in> frange fr \<Longrightarrow> x \<in> covered h F"
  unfolding covered_iff by blast

lemma halves_fields:
  assumes "halves h F f fr" "f_buddy fr' = f_buddy fr" "f_parent fr' = f_parent fr" "f_i fr' = f_i fr"
    "frange fr' = frange fr"
  shows "halves h F f fr'"
  using assms(1) unfolding halves_def assms(2-5) .

lemma retype_lookup:
  assumes "F f = Some fr" "(F(f \<mapsto> fr\<lparr>f_status := st\<rparr>)) g = Some gr"
  obtains gr0 where "F g = Some gr0" "f_buddy gr = f_buddy gr0" "f_parent gr = f_parent gr0"
    "f_i gr = f_i gr0" "frange gr = frange gr0" "g \<noteq> f \<longrightarrow> gr = gr0"
  using assms by (cases "g = f") auto

lemma heap_retype:
  assumes "heap_ok nb h F" "F f = Some fr" "leaf h f fr" "st \<noteq> FRAME_PARENT" "h = None \<or> h = Some f"
  shows "heap_ok nb None (F(f \<mapsto> fr\<lparr>f_status := st\<rparr>))"
    and "covered None (F(f \<mapsto> fr\<lparr>f_status := st\<rparr>)) = covered h F"
proof -
  let ?F = "F(f \<mapsto> fr\<lparr>f_status := st\<rparr>)"
  have l: "links h F" "laminar h F" using assms(1) by (simp_all add: heap_ok_def)
  have lf: "leaf None g gr = leaf h g gr" if "g \<noteq> f" for g gr using that assms(5) by (auto simp: leaf_def)
  have "links None ?F"
    unfolding links_def
  proof (intro allI impI)
    fix g gr assume "?F g = Some gr"
    then obtain gr0 where g: "F g = Some gr0" and same: "f_buddy gr = f_buddy gr0" "f_parent gr = f_parent gr0"
      "f_i gr = f_i gr0" "frange gr = frange gr0" by (rule retype_lookup [where F = F and f = f, OF assms(2)])
    have "halves None ?F g gr" if b: "f_buddy gr0 \<noteq> NULL"
    proof (rule halves_fields [OF _ same])
      have p: "f_parent gr0 \<noteq> f" by (rule leaf_children [OF l(1) assms(2,3) g])
      show "halves None ?F g gr0"
        by (rule halves_cong [OF linksD(3) [OF l(1) g b]]) (use assms(2) p in auto)
    qed
    then show "g \<noteq> NULL \<and> (if f_buddy gr = NULL then f_parent gr = NULL else halves None ?F g gr)"
      using linksD(1,2) [OF l(1) g] same by simp
  qed
  moreover have "laminar None ?F"
    unfolding laminar_def
  proof (intro allI impI)
    fix a b ar br assume ab: "?F a = Some ar" "?F b = Some br" "a \<noteq> b"
    obtain ar0 where a: "F a = Some ar0" "f_buddy ar = f_buddy ar0" "f_parent ar = f_parent ar0"
      "f_i ar = f_i ar0" "frange ar = frange ar0" "a \<noteq> f \<longrightarrow> ar = ar0"
      by (rule retype_lookup [where F = F and f = f, OF assms(2) ab(1)])
    obtain br0 where b: "F b = Some br0" "f_buddy br = f_buddy br0" "f_parent br = f_parent br0"
      "f_i br = f_i br0" "frange br = frange br0" "b \<noteq> f \<longrightarrow> br = br0"
      by (rule retype_lookup [where F = F and f = f, OF assms(2) ab(2)])
    have "\<not> leaf h a ar0 \<Longrightarrow> \<not> leaf None a ar" using a lf [of a ar] assms(2,3) by (cases "a = f") auto
    moreover have "\<not> leaf h b br0 \<Longrightarrow> \<not> leaf None b br" using b lf [of b br] assms(2,3) by (cases "b = f") auto
    ultimately show "frange ar \<inter> frange br = {} \<or> below None ar b br \<or> below None br a ar"
      using laminarD [OF l(2) a(1) b(1) ab(3)] a(4,5) b(4,5) unfolding below_def by auto
  qed
  moreover have "frame_wf nb gr" if "?F g = Some gr" for g gr
    using that assms(1,2) by (cases "g = f") (auto simp: heap_ok_def)
  ultimately show "heap_ok nb None ?F" by (simp add: heap_ok_def)
  show "covered None ?F = covered h F"
  proof (intro set_eqI iffI)
    fix x assume "x \<in> covered None ?F"
    then obtain g gr where g: "?F g = Some gr" "leaf None g gr" "x \<in> frange gr" unfolding covered_iff by blast
    show "x \<in> covered h F"
      using g assms(2,3) lf [of g gr] by (cases "g = f") (auto intro: coveredI)
  next
    fix x assume "x \<in> covered h F"
    then obtain g gr where g: "F g = Some gr" "leaf h g gr" "x \<in> frange gr" unfolding covered_iff by blast
    show "x \<in> covered None ?F"
    proof (cases "g = f")
      case True
      then show ?thesis using g assms(2,4) by (intro coveredI [of _ f "fr\<lparr>f_status := st\<rparr>"]) (auto simp: leaf_def)
    next
      case False
      then show ?thesis using g lf by (intro coveredI [of _ g gr]) auto
    qed
  qed
qed

text \<open>Splitting: the arithmetic of the two halves.\<close>

definition half :: "bool \<Rightarrow> frame \<Rightarrow> nat \<Rightarrow> ptr \<Rightarrow> ptr \<Rightarrow> frame" where
  "half right pr j buddy p =
     \<lparr>f_addr = (if right then f_addr pr + (f_num_pages pr div 2) * PAGE_SIZE else f_addr pr),
      f_num_pages = f_num_pages pr div 2, f_status = FRAME_DEALLOC, f_i = j, f_buddy = buddy, f_parent = p\<rparr>"

lemma half_simps [simp]:
  "f_status (half right pr j b p) = FRAME_DEALLOC" "f_i (half right pr j b p) = j"
  "f_buddy (half right pr j b p) = b" "f_parent (half right pr j b p) = p"
  by (simp_all add: half_def)

lemma half_arith:
  assumes "frame_wf nb pr" "f_i pr = Suc j"
  shows "unat (f_num_pages pr div 2) = 2 ^ j"
    and "unat (f_addr pr + (f_num_pages pr div 2) * PAGE_SIZE) = unat (f_addr pr) + 2 ^ j * 4096"
proof -
  have wf: "unat (f_num_pages pr) = 2 ^ Suc j" "unat (f_addr pr) + 2 ^ Suc j * 4096 \<le> 2 ^ 32"
    using assms by (simp_all add: frame_wf_def)
  show np: "unat (f_num_pages pr div 2) = 2 ^ j" using wf(1) by (simp add: unat_div)
  have pos: "0 < (2 :: nat) ^ j" by simp
  have lt: "unat (f_addr pr) + 2 ^ j * 4096 < 2 ^ 32" using wf(2) pos unfolding power_Suc by linarith
  have "unat ((f_num_pages pr div 2) * PAGE_SIZE) = 2 ^ j * 4096"
    using np lt by (simp add: PAGE_SIZE_def unat_word_ariths)
  then show "unat (f_addr pr + (f_num_pages pr div 2) * PAGE_SIZE) = unat (f_addr pr) + 2 ^ j * 4096"
    using lt by (simp add: unat_word_ariths)
qed

lemma half_wf:
  assumes "frame_wf nb pr" "f_i pr = Suc j"
  shows "frame_wf nb (half right pr j b p)"
    and "frange (half False pr j b p) \<union> frange (half True pr j b' p) = frange pr"
    and "frange (half False pr j b p) \<inter> frange (half True pr j b' p) = {}"
  using half_arith [OF assms] assms by (auto simp: half_def frame_wf_def frange_def)

lemma heap_split:
  assumes ok: "heap_ok nb None F" and p: "F p = Some pr" "f_status pr \<noteq> FRAME_PARENT" "f_i pr = Suc j"
    and new: "F l = None" "F r = None" "l \<noteq> r" "l \<noteq> NULL" "r \<noteq> NULL"
  defines "F' \<equiv> F(p \<mapsto> pr\<lparr>f_status := FRAME_PARENT\<rparr>, l \<mapsto> half False pr j r p, r \<mapsto> half True pr j l p)"
  shows "heap_ok nb None F'" and "covered None F' = covered None F"
proof -
  let ?lr = "half False pr j r p" and ?rr = "half True pr j l p"
  have l: "links None F" "laminar None F" using ok by (simp_all add: heap_ok_def)
  have wf: "frame_wf nb pr" using ok p(1) by (auto simp: heap_ok_def)
  note hw = half_wf [OF wf p(3)]
  have union: "frange ?lr \<union> frange ?rr = frange pr" and disj: "frange ?lr \<inter> frange ?rr = {}"
    by (rule hw(2), rule hw(3))
  have ne: "p \<noteq> l" "p \<noteq> r" "p \<noteq> NULL" using new p linksD(1) [OF l(1) p(1)] by auto
  have F'_p: "F' p = Some (pr\<lparr>f_status := FRAME_PARENT\<rparr>)" and F'_l: "F' l = Some ?lr" and F'_r: "F' r = Some ?rr"
    using ne new by (simp_all add: F'_def)
  have F'_o: "F' g = F g" if "g \<noteq> p" "g \<noteq> l" "g \<noteq> r" for g using that by (simp add: F'_def)
  have cases: "g = l \<and> gr = ?lr \<or> g = r \<and> gr = ?rr \<or> g = p \<and> gr = pr\<lparr>f_status := FRAME_PARENT\<rparr> \<or>
      g \<noteq> p \<and> g \<noteq> l \<and> g \<noteq> r \<and> F g = Some gr" if "F' g = Some gr" for g gr
    using that F'_p F'_l F'_r F'_o [of g] by (cases "g = p"; cases "g = l"; cases "g = r") auto
  have lp: "leaf None p pr" using p by (simp add: leaf_def)
  have old: "frange gr \<inter> frange pr = {} \<or> below None pr g gr" if "F g = Some gr" "g \<noteq> p" for g gr
    using laminarD [OF l(2) that(1) p(1) that(2)] lp by (auto simp: below_def)
  have sub: "frange ?lr \<subseteq> frange pr" "frange ?rr \<subseteq> frange pr" using union by auto
  have part: "frange gr \<inter> frange x = {} \<or> below None x g gr"
    if "F g = Some gr" "g \<noteq> p" "frange x \<subseteq> frange pr" "f_i x \<le> f_i pr" for g gr x
    using old [OF that(1,2)] that(3,4) unfolding below_def by fastforce
  have "links None F'"
    unfolding links_def
  proof (intro allI impI)
    fix g gr assume g: "F' g = Some gr"
    have np: "\<not> leaf None p (pr\<lparr>f_status := FRAME_PARENT\<rparr>)" by (simp add: leaf_def)
    have keep: "halves None F' g gr0" if g0: "F g = Some gr0" "f_buddy gr0 \<noteq> NULL" for gr0
    proof (rule halves_cong [OF linksD(3) [OF l(1) g0]])
      fix br assume br: "F (f_buddy gr0) = Some br"
      then have "f_buddy gr0 \<noteq> l" "f_buddy gr0 \<noteq> r" using new(1,2) by auto
      with br show "\<exists>br'. F' (f_buddy gr0) = Some br' \<and> f_buddy br' = f_buddy br \<and> f_i br' = f_i br \<and>
          f_parent br' = f_parent br \<and> frange br' = frange br"
        using F'_p F'_o [of "f_buddy gr0"] p(1) by (cases "f_buddy gr0 = p") auto
    next
      fix qr assume q: "F (f_parent gr0) = Some qr" "f_status qr = FRAME_PARENT"
      then have "f_parent gr0 \<noteq> p" "f_parent gr0 \<noteq> l" "f_parent gr0 \<noteq> r" using p new by auto
      then show "F' (f_parent gr0) = Some qr" using F'_o q(1) by simp
    qed simp
    have "halves None F' l ?lr" "halves None F' r ?rr"
      using F'_p F'_l F'_r ne new np union p(3) by (auto simp: halves_def)
    with cases [OF g] keep g show "g \<noteq> NULL \<and> (if f_buddy gr = NULL then f_parent gr = NULL else halves None F' g gr)"
      using new(3,4,5) ne linksD(1,2) [OF l(1)] p(1)
      by (auto intro: halves_fields [where fr = pr])
  qed
  moreover have "laminar None F'"
    unfolding laminar_def
  proof (intro allI impI)
    fix a b ar br assume ab: "F' a = Some ar" "F' b = Some br" "a \<noteq> b"
    have below_p: "below None ?lr p (pr\<lparr>f_status := FRAME_PARENT\<rparr>)" "below None ?rr p (pr\<lparr>f_status := FRAME_PARENT\<rparr>)"
      using sub p(3) by (auto simp: below_def leaf_def)
    have pp: "below None (pr\<lparr>f_status := FRAME_PARENT\<rparr>) g gr = below None pr g gr" for g gr by (simp add: below_def)
    have half_i: "f_i ?lr \<le> f_i pr" "f_i ?rr \<le> f_i pr" "f_i (pr\<lparr>f_status := FRAME_PARENT\<rparr>) \<le> f_i pr" using p(3) by simp_all
    have psub: "frange (pr\<lparr>f_status := FRAME_PARENT\<rparr>) \<subseteq> frange pr" by simp
    show "frange ar \<inter> frange br = {} \<or> below None ar b br \<or> below None br a ar"
      using cases [OF ab(1)] cases [OF ab(2)] ab(3) below_p disj
        part [OF _ _ sub(1) half_i(1)] part [OF _ _ sub(2) half_i(2)] part [OF _ _ psub half_i(3)]
        laminarD [OF l(2), of a ar b br]
      by (elim disjE conjE) (simp_all add: Int_commute, blast+)
  qed
  moreover have "frame_wf nb gr" if "F' g = Some gr" for g gr
    using cases [OF that] hw(1) wf ok by (auto simp: heap_ok_def)
  ultimately show "heap_ok nb None F'" by (simp add: heap_ok_def)
  show "covered None F' = covered None F"
  proof (intro set_eqI iffI)
    fix x assume "x \<in> covered None F'"
    then obtain g gr where g: "F' g = Some gr" "leaf None g gr" "x \<in> frange gr" unfolding covered_iff by blast
    from cases [OF g(1)] show "x \<in> covered None F"
      using g(2,3) sub p(1) lp coveredI [of F p pr None x] coveredI [of F g gr None x] by (auto simp: leaf_def)
  next
    fix x assume "x \<in> covered None F"
    then obtain g gr where g: "F g = Some gr" "leaf None g gr" "x \<in> frange gr" unfolding covered_iff by blast
    show "x \<in> covered None F'"
    proof (cases "g = p")
      case True
      then have "x \<in> frange ?lr \<or> x \<in> frange ?rr" using g p(1) union by auto
      then show ?thesis using F'_l F'_r by (auto intro: coveredI simp: leaf_def)
    next
      case False
      moreover have "g \<noteq> l" "g \<noteq> r" using g(1) new(1,2) by auto
      ultimately have "F' g = Some gr" using F'_o [of g] g(1) by simp
      then show ?thesis using g by (auto intro: coveredI)
    qed
  qed
qed

text \<open>Merging: a split block has exactly two halves, and nothing else lies below it once they are gone.\<close>

lemma halvesE:
  assumes "links h F" "F f = Some fr" "f_buddy fr \<noteq> NULL"
  obtains br pr where "F (f_buddy fr) = Some br" "f_buddy fr \<noteq> f" "f_buddy br = f" "f_i br = f_i fr"
    "f_parent br = f_parent fr" "f_parent fr \<noteq> NULL" "F (f_parent fr) = Some pr"
    "f_status pr = FRAME_PARENT" "h \<noteq> Some (f_parent fr)" "f_i pr = Suc (f_i fr)"
    "frange fr \<union> frange br = frange pr"
  using linksD(3) [OF assms] unfolding halves_def leaf_def by blast

lemma only_halves:
  assumes ok: "heap_ok nb h F" and f: "F f = Some fr" "f_buddy fr \<noteq> NULL" and leaves: "leaf h f fr"
    and b: "F (f_buddy fr) = Some br" "leaf h (f_buddy fr) br" and pr: "F (f_parent fr) = Some pr"
    and g: "F g = Some gr" "g \<noteq> f" "g \<noteq> f_buddy fr"
    and inside: "frange gr \<subseteq> frange pr" "f_i gr < f_i pr"
  shows False
proof -
  have l: "links h F" "laminar h F" using ok by (simp_all add: heap_ok_def)
  obtain br' pr' where h: "F (f_buddy fr) = Some br'" "f_i br' = f_i fr" "F (f_parent fr) = Some pr'"
    "f_i pr' = Suc (f_i fr)" "frange fr \<union> frange br' = frange pr'"
    using halvesE [OF l(1) f] by metis
  have eq: "br' = br" "pr' = pr" using h b pr by simp_all
  have "frange gr \<inter> frange fr = {}"
    using laminarD [OF l(2) g(1) f(1) g(2)] leaves inside(2) h(4) eq by (auto simp: below_def)
  moreover have "frange gr \<inter> frange br = {}"
    using laminarD [OF l(2) g(1) b(1) g(3)] b(2) inside(2) h(2,4) eq by (auto simp: below_def)
  ultimately show False using inside(1) h(5) eq frange_ne [of gr] by blast
qed

lemma heap_merge:
  assumes ok: "heap_ok nb h F" and hf: "h = None \<or> h = Some f"
    and f: "F f = Some fr" "leaf h f fr" "f_buddy fr \<noteq> NULL"
    and b: "F (f_buddy fr) = Some br" "f_status br \<noteq> FRAME_PARENT"
  defines "F' \<equiv> F(f := None, f_buddy fr := None)"
  shows "heap_ok nb (Some (f_parent fr)) F'" and "covered (Some (f_parent fr)) F' = covered h F"
proof -
  let ?b = "f_buddy fr" and ?p = "f_parent fr"
  have l: "links h F" "laminar h F" using ok by (simp_all add: heap_ok_def)
  obtain br' pr where h: "F ?b = Some br'" "?b \<noteq> f" "f_buddy br' = f" "f_i br' = f_i fr" "f_parent br' = ?p"
    "?p \<noteq> NULL" "F ?p = Some pr" "f_status pr = FRAME_PARENT" "h \<noteq> Some ?p" "f_i pr = Suc (f_i fr)"
    "frange fr \<union> frange br' = frange pr" by (rule halvesE [OF l(1) f(1,3)])
  have br': "br' = br" using h(1) b(1) by simp
  have lb: "leaf h ?b br" using b(2) by (simp add: leaf_def)
  have p: "?p \<noteq> f" "?p \<noteq> ?b" using leaf_children [OF l(1) f(1,2) f(1)] leaf_children [OF l(1) b(1) lb f(1)] by auto
  have F': "F' g = Some gr \<longleftrightarrow> F g = Some gr \<and> g \<noteq> f \<and> g \<noteq> ?b" for g gr by (auto simp: F'_def)
  have lf: "leaf (Some ?p) g gr \<longleftrightarrow> leaf h g gr" if "g \<noteq> f" "g \<noteq> ?p" for g gr
    using that hf by (auto simp: leaf_def)
  have only: False if "F g = Some gr" "g \<noteq> f" "g \<noteq> ?b" "frange gr \<subseteq> frange pr" "f_i gr < f_i pr" for g gr
    by (rule only_halves [OF ok f(1,3,2) b(1) lb h(7) that])
  have "links (Some ?p) F'"
    unfolding links_def
  proof (intro allI impI)
    fix g gr assume "F' g = Some gr"
    then have g: "F g = Some gr" "g \<noteq> f" "g \<noteq> ?b" by (simp_all add: F')
    have "halves (Some ?p) F' g gr" if nb: "f_buddy gr \<noteq> NULL"
    proof -
      obtain cr qr where q: "F (f_buddy gr) = Some cr" "f_buddy gr \<noteq> g" "f_buddy cr = g" "f_i cr = f_i gr"
        "f_parent cr = f_parent gr" "f_parent gr \<noteq> NULL" "F (f_parent gr) = Some qr" "f_status qr = FRAME_PARENT"
        "h \<noteq> Some (f_parent gr)" "f_i qr = Suc (f_i gr)" "frange gr \<union> frange cr = frange qr"
        by (rule halvesE [OF l(1) g(1) nb])
      have "cr = fr" if "f_buddy gr = f" using q(1) f(1) unfolding that by simp
      then have "f_buddy gr \<noteq> f" using q(3) g(3) by blast
      moreover have "cr = br" if "f_buddy gr = ?b" using q(1) b(1) unfolding that by simp
      then have "f_buddy gr \<noteq> ?b" using q(3) g(2) h(3) unfolding br' by blast
      moreover have "f_parent gr \<noteq> f" "f_parent gr \<noteq> ?b"
        using leaf_children [OF l(1) f(1,2) g(1)] leaf_children [OF l(1) b(1) lb g(1)] by auto
      moreover have "f_parent gr \<noteq> ?p"
      proof
        assume "f_parent gr = ?p"
        then have "qr = pr" using q(7) h(7) by simp
        then show False using only [OF g] q(10,11) by auto
      qed
      ultimately show ?thesis unfolding halves_def using q
        by (intro exI [of _ cr] exI [of _ qr]) (simp add: F' leaf_def)
    qed
    then show "g \<noteq> NULL \<and> (if f_buddy gr = NULL then f_parent gr = NULL else halves (Some ?p) F' g gr)"
      using linksD(1,2) [OF l(1) g(1)] by simp
  qed
  moreover have "laminar (Some ?p) F'"
    unfolding laminar_def
  proof (intro allI impI)
    fix x y xr yr assume "F' x = Some xr" "F' y = Some yr" and xy: "x \<noteq> y"
    then have x: "F x = Some xr" "x \<noteq> f" "x \<noteq> ?b" and y: "F y = Some yr" "y \<noteq> f" "y \<noteq> ?b" by (simp_all add: F')
    have below: "below (Some ?p) ar c cr"
      if "below h ar c cr" "F a = Some ar" "a \<noteq> f" "a \<noteq> ?b" "F c = Some cr" "c \<noteq> f" for a ar c cr
    proof -
      have "c \<noteq> ?p" using only [OF that(2,3,4)] that(1,5) h(7) by (auto simp: below_def)
      then show ?thesis using that(1,6) lf [of c cr] by (simp add: below_def)
    qed
    show "frange xr \<inter> frange yr = {} \<or> below (Some ?p) xr y yr \<or> below (Some ?p) yr x xr"
      using laminarD [OF l(2) x(1) y(1) xy] below [of xr y yr x] below [of yr x xr y] x y by argo
  qed
  ultimately show "heap_ok nb (Some ?p) F'" using ok h(7,8) p by (auto simp: heap_ok_def F')
  show "covered (Some ?p) F' = covered h F"
  proof (intro set_eqI iffI)
    fix x assume "x \<in> covered (Some ?p) F'"
    then obtain g gr where g: "F g = Some gr" "g \<noteq> f" "g \<noteq> ?b" "leaf (Some ?p) g gr" "x \<in> frange gr"
      unfolding covered_iff F' by blast
    show "x \<in> covered h F"
    proof (cases "g = ?p")
      case True
      then have "gr = pr" using g(1) h(7) by simp
      then have "x \<in> frange fr \<or> x \<in> frange br" using g(5) h(11) unfolding br' by blast
      then show ?thesis using f(1,2) b(1) lb by (auto intro: coveredI)
    next
      case False
      then show ?thesis using g lf by (auto intro: coveredI)
    qed
  next
    fix x assume "x \<in> covered h F"
    then obtain g gr where g: "F g = Some gr" "leaf h g gr" "x \<in> frange gr" unfolding covered_iff by blast
    show "x \<in> covered (Some ?p) F'"
    proof (cases "g = f \<or> g = ?b")
      case True
      then have "gr = fr \<or> gr = br" using g(1) f(1) b(1) by fastforce
      then have "x \<in> frange pr" using g(3) h(11) unfolding br' by blast
      then show ?thesis using h(7) p by (intro coveredI [of _ ?p pr]) (simp_all add: F' leaf_def)
    next
      case False
      moreover have "g \<noteq> ?p"
      proof
        assume gp: "g = ?p"
        then have "gr = pr" using g(1) h(7) by simp
        then show False using g(2) h(8,9) gp by (simp add: leaf_def)
      qed
      ultimately show ?thesis using g lf [of g gr] by (intro coveredI [of _ g gr]) (simp_all add: F')
    qed
  qed
qed

text \<open>Adding a block that overlaps no other, as at boot.\<close>

lemma heap_add:
  assumes ok: "heap_ok nb None F" and new: "F f = None" "f \<noteq> NULL" "frame_wf nb fr"
    "f_buddy fr = NULL" "f_parent fr = NULL" "f_status fr \<noteq> FRAME_PARENT"
    and disj: "\<And>g gr. F g = Some gr \<Longrightarrow> frange gr \<inter> frange fr = {}"
  shows "heap_ok nb None (F(f \<mapsto> fr))" and "covered None (F(f \<mapsto> fr)) = covered None F \<union> frange fr"
proof -
  let ?F = "F(f \<mapsto> fr)"
  have l: "links None F" "laminar None F" using ok by (simp_all add: heap_ok_def)
  have "links None ?F"
    unfolding links_def
  proof (intro allI impI)
    fix g gr assume g: "?F g = Some gr"
    have "halves None ?F g gr" if "F g = Some gr" "f_buddy gr \<noteq> NULL"
      by (rule halves_cong [OF linksD(3) [OF l(1) that]]) (use new(1) in auto)
    then show "g \<noteq> NULL \<and> (if f_buddy gr = NULL then f_parent gr = NULL else halves None ?F g gr)"
      using g new linksD(1,2) [OF l(1), of g gr] by (cases "g = f") auto
  qed
  moreover have "laminar None ?F"
    unfolding laminar_def
  proof (intro allI impI)
    fix a b ar br assume ab: "?F a = Some ar" "?F b = Some br" "a \<noteq> b"
    show "frange ar \<inter> frange br = {} \<or> below None ar b br \<or> below None br a ar"
      using ab disj laminarD [OF l(2), of a ar b br] by (cases "a = f"; cases "b = f") (auto simp: Int_commute)
  qed
  moreover have "frame_wf nb gr" if "?F g = Some gr" for g gr
    using that ok new(3) by (cases "g = f") (auto simp: heap_ok_def)
  ultimately show "heap_ok nb None ?F" by (simp add: heap_ok_def)
  show "covered None ?F = covered None F \<union> frange fr"
  proof (intro set_eqI iffI)
    fix x assume "x \<in> covered None ?F"
    then show "x \<in> covered None F \<union> frange fr" by (auto simp: covered_iff split: if_splits)
  next
    fix x assume "x \<in> covered None F \<union> frange fr"
    then show "x \<in> covered None ?F"
    proof
      assume "x \<in> covered None F"
      then obtain g gr where g: "F g = Some gr" "leaf None g gr" "x \<in> frange gr" unfolding covered_iff by blast
      moreover have "g \<noteq> f" using g(1) new(1) by auto
      ultimately show ?thesis by (intro coveredI [of _ g gr]) simp_all
    qed (use new(6) in \<open>auto intro: coveredI simp: leaf_def\<close>)
  qed
qed

end
