(* ===== verification/FrameManagerReg.thy ===== *)
theory FrameManagerReg
  imports FrameManagerInv
begin

text \<open>
  The registers of the frame manager. Every frame has one list node; the three hash
  tables and the bins hold exactly the nodes of the frames with the status they are
  for. \<open>fm_inv\<close> is the invariant of the whole component. The lemmas say what the
  transitions of the forest do to the registers, and that a key that is inserted is
  not in use.
\<close>

subsection \<open>Nodes\<close>

definition nodes_ok :: "(ptr \<rightharpoonup> frame) \<Rightarrow> (ptr \<rightharpoonup> ptr) \<Rightarrow> bool" where
  "nodes_ok F N \<longleftrightarrow> N NULL = None \<and> (\<forall>n f. N n = Some f \<longrightarrow> F f \<noteq> None) \<and>
     (\<forall>f. F f \<noteq> None \<longrightarrow> (\<exists>n. N n = Some f)) \<and> (\<forall>n m f. N n = Some f \<longrightarrow> N m = Some f \<longrightarrow> n = m)"

text \<open>
  \<open>F \<circ>\<^sub>m N\<close> gives the frame that a node carries. The three kinds of change of the heap
  act on it at one node.
\<close>

lemma nodes_okD:
  assumes "nodes_ok F N"
  shows "N NULL = None" "\<And>n f. N n = Some f \<Longrightarrow> F f \<noteq> None" "\<And>f fr. F f = Some fr \<Longrightarrow> \<exists>n. N n = Some f"
    "\<And>n m f. N n = Some f \<Longrightarrow> N m = Some f \<Longrightarrow> n = m"
  using assms unfolding nodes_ok_def by auto

lemma node_frame: "nodes_ok F N \<Longrightarrow> N n = Some f \<Longrightarrow> \<exists>fr. F f = Some fr \<and> (F \<circ>\<^sub>m N) n = Some fr"
  using nodes_okD(2) by (fastforce simp: map_comp_def)

lemma node_unique: "nodes_ok F N \<Longrightarrow> N n = Some f \<Longrightarrow> N m = Some f \<longleftrightarrow> m = n"
  using nodes_okD(4) by blast

lemma comp_retype:
  assumes "nodes_ok F N" "N n = Some f"
  shows "(F(f \<mapsto> fr')) \<circ>\<^sub>m N = (F \<circ>\<^sub>m N)(n \<mapsto> fr')"
proof
  fix m show "((F(f \<mapsto> fr')) \<circ>\<^sub>m N) m = ((F \<circ>\<^sub>m N)(n \<mapsto> fr')) m"
    using node_unique [OF assms, of m] assms(2) by (cases "m = n") (auto simp: map_comp_def split: option.split)
qed

lemma comp_new:
  assumes "nodes_ok F N" "F f = None"
  shows "(F(f \<mapsto> fr)) \<circ>\<^sub>m (N(n \<mapsto> f)) = (F \<circ>\<^sub>m N)(n \<mapsto> fr)"
proof
  fix m show "((F(f \<mapsto> fr)) \<circ>\<^sub>m (N(n \<mapsto> f))) m = ((F \<circ>\<^sub>m N)(n \<mapsto> fr)) m"
    using nodes_okD(2) [OF assms(1), of m f] assms(2) by (cases "m = n") (auto simp: map_comp_def split: option.split)
qed

lemma comp_free:
  assumes "nodes_ok F N" "N n = Some f"
  shows "(F(f := None)) \<circ>\<^sub>m (N(n := None)) = (F \<circ>\<^sub>m N)(n := None)"
proof
  fix m show "((F(f := None)) \<circ>\<^sub>m (N(n := None))) m = ((F \<circ>\<^sub>m N)(n := None)) m"
    using node_unique [OF assms, of m] by (cases "m = n") (auto simp: map_comp_def split: option.split)
qed

lemma nodes_ok_retype: "nodes_ok F N \<Longrightarrow> F f = Some fr \<Longrightarrow> nodes_ok (F(f \<mapsto> fr')) N"
  by (simp add: nodes_ok_def)

lemma nodes_ok_new:
  assumes "nodes_ok F N" "N n = None" "F f = None" "n \<noteq> NULL"
  shows "nodes_ok (F(f \<mapsto> fr)) (N(n \<mapsto> f))"
proof -
  have "N m \<noteq> Some f" for m using nodes_okD(2) [OF assms(1)] assms(3) by blast
  moreover have "\<exists>m. (N(n \<mapsto> f)) m = Some g" if Fg: "F g \<noteq> None" for g
  proof -
    obtain gr where "F g = Some gr" using Fg by blast
    then obtain m where "N m = Some g" using nodes_okD(3) [OF assms(1)] by blast
    with assms(2) show ?thesis by (intro exI [of _ m]) auto
  qed
  moreover have "\<exists>m. (N(n \<mapsto> f)) m = Some f" by (intro exI [of _ n]) simp
  ultimately show ?thesis
    using nodes_okD [OF assms(1)] assms(4) unfolding nodes_ok_def by (auto split: if_splits)
qed

lemma nodes_ok_free:
  assumes "nodes_ok F N" "N n = Some f"
  shows "nodes_ok (F(f := None)) (N(n := None))"
proof -
  have "\<exists>m. (N(n := None)) m = Some g" if Fg: "F g \<noteq> None" and ne: "g \<noteq> f" for g
  proof -
    obtain gr where "F g = Some gr" using Fg by blast
    then obtain m where "N m = Some g" using nodes_okD(3) [OF assms(1)] by blast
    with ne assms(2) show ?thesis by (intro exI [of _ m]) auto
  qed
  moreover have "n \<noteq> NULL" using nodes_okD(1) [OF assms(1)] assms(2) by auto
  ultimately show ?thesis
    using nodes_okD [OF assms(1)] node_unique [OF assms] unfolding nodes_ok_def by (auto split: if_splits)
qed

subsection \<open>Tables and bins\<close>

definition tmap_ok :: "frame_status \<Rightarrow> (frame \<Rightarrow> u32) \<Rightarrow> (u32 \<rightharpoonup> ptr) \<Rightarrow> (ptr \<rightharpoonup> frame) \<Rightarrow> bool" where
  "tmap_ok st key T L \<longleftrightarrow> (\<forall>k n. T k = Some n \<longleftrightarrow> (\<exists>fr. L n = Some fr \<and> f_status fr = st \<and> key fr = k))"

definition bin_ok :: "nat \<Rightarrow> ptr list \<Rightarrow> (ptr \<rightharpoonup> frame) \<Rightarrow> bool" where
  "bin_ok j B L \<longleftrightarrow> distinct B \<and>
     (\<forall>n. n \<in> set B \<longleftrightarrow> (\<exists>fr. L n = Some fr \<and> f_status fr = FRAME_DEALLOC \<and> f_i fr = j))"

definition has_status :: "frame_status \<Rightarrow> frame option \<Rightarrow> bool" where
  "has_status st x \<longleftrightarrow> (\<exists>fr. x = Some fr \<and> f_status fr = st)"

lemma has_status_simps [simp]: "\<not> has_status st None" "has_status st (Some fr) \<longleftrightarrow> f_status fr = st"
  by (simp_all add: has_status_def)

lemma tmapD: "tmap_ok st key T L \<Longrightarrow> T k = Some n \<longleftrightarrow> (\<exists>fr. L n = Some fr \<and> f_status fr = st \<and> key fr = k)"
  unfolding tmap_ok_def by blast

lemma tmap_lookup: "tmap_ok st key T L \<Longrightarrow> L n = Some fr \<Longrightarrow> f_status fr = st \<Longrightarrow> T (key fr) = Some n"
  by (simp add: tmapD)

lemma tmap_keep:
  "tmap_ok st key T L \<Longrightarrow> \<not> has_status st (L n) \<Longrightarrow> \<not> has_status st x \<Longrightarrow> tmap_ok st key T (L(n := x))"
  unfolding tmap_ok_def has_status_def by (auto split: if_splits)

lemma tmap_del:
  assumes "tmap_ok st key T L" "L n = Some fr" "f_status fr = st" "\<not> has_status st x"
  shows "tmap_ok st key (T(key fr := None)) (L(n := x))"
proof -
  have "T (key fr) = Some n" by (rule tmap_lookup [OF assms(1-3)])
  then show ?thesis using assms(1,2,4) unfolding tmap_ok_def has_status_def
    by (auto split: if_splits) (metis option.inject)+
qed

lemma tmap_put:
  assumes "tmap_ok st key T L" "\<not> has_status st (L n)" "f_status fr = st" "T (key fr) = None"
  shows "tmap_ok st key (T(key fr \<mapsto> n)) (L(n \<mapsto> fr))"
proof -
  have "\<not> (\<exists>gr. L m = Some gr \<and> f_status gr = st \<and> key gr = key fr)" for m
    using tmapD [OF assms(1), of "key fr" m] assms(4) by simp
  then show ?thesis using assms(1-3) unfolding tmap_ok_def has_status_def by (auto split: if_splits)
qed

lemma bin_keep:
  assumes "bin_ok j B L"
    and "\<And>fr. L n = Some fr \<Longrightarrow> f_status fr = FRAME_DEALLOC \<Longrightarrow> f_i fr \<noteq> j"
    and "\<And>fr. x = Some fr \<Longrightarrow> f_status fr = FRAME_DEALLOC \<Longrightarrow> f_i fr \<noteq> j"
  shows "bin_ok j B (L(n := x))"
  using assms unfolding bin_ok_def by auto

lemma bin_del:
  assumes "bin_ok j B L" "\<not> has_status FRAME_DEALLOC x"
  shows "bin_ok j (remove1 n B) (L(n := x))"
  using assms unfolding bin_ok_def has_status_def by auto

lemma bin_put:
  assumes "bin_ok j B L" "\<not> has_status FRAME_DEALLOC (L n)" "f_status fr = FRAME_DEALLOC" "f_i fr = j"
  shows "bin_ok j (B @ [n]) (L(n \<mapsto> fr))"
  using assms unfolding bin_ok_def has_status_def by auto

subsection \<open>The invariant\<close>

definition fm_inv :: "ptr option \<Rightarrow> nat set \<Rightarrow> frame_manager \<Rightarrow> bool" where
  "fm_inv h M fm \<longleftrightarrow>
     heap_ok (unat (fm_num_bins fm)) h (frames fm) \<and> nodes_ok (frames fm) (fnodes fm) \<and>
     ht_ok (fm_allocated fm) \<and> ht_ok (fm_deallocated fm) \<and> ht_ok (fm_parents fm) \<and>
     tmap_ok FRAME_ALLOC f_addr (ht_map (fm_allocated fm)) (frames fm \<circ>\<^sub>m fnodes fm) \<and>
     tmap_ok FRAME_DEALLOC f_addr (ht_map (fm_deallocated fm)) (frames fm \<circ>\<^sub>m fnodes fm) \<and>
     tmap_ok FRAME_PARENT parent_key (ht_map (fm_parents fm)) (frames fm \<circ>\<^sub>m fnodes fm) \<and>
     length (fm_bins fm) = unat (fm_num_bins fm) \<and>
     (\<forall>j < unat (fm_num_bins fm). bin_ok j (fm_bins fm ! j) (frames fm \<circ>\<^sub>m fnodes fm)) \<and>
     covered h (frames fm) = M"

lemma fm_invD:
  assumes "fm_inv h M fm"
  shows "heap_ok (unat (fm_num_bins fm)) h (frames fm)" "nodes_ok (frames fm) (fnodes fm)"
    "ht_ok (fm_allocated fm)" "ht_ok (fm_deallocated fm)" "ht_ok (fm_parents fm)"
    "tmap_ok FRAME_ALLOC f_addr (ht_map (fm_allocated fm)) (frames fm \<circ>\<^sub>m fnodes fm)"
    "tmap_ok FRAME_DEALLOC f_addr (ht_map (fm_deallocated fm)) (frames fm \<circ>\<^sub>m fnodes fm)"
    "tmap_ok FRAME_PARENT parent_key (ht_map (fm_parents fm)) (frames fm \<circ>\<^sub>m fnodes fm)"
    "length (fm_bins fm) = unat (fm_num_bins fm)"
    "\<And>j. j < unat (fm_num_bins fm) \<Longrightarrow> bin_ok j (fm_bins fm ! j) (frames fm \<circ>\<^sub>m fnodes fm)"
    "covered h (frames fm) = M"
    "links h (frames fm)" "laminar h (frames fm)"
  using assms unfolding fm_inv_def heap_ok_def by blast+

subsection \<open>Keys\<close>

text \<open>The key of a parent determines its address and its level.\<close>

lemma parent_key_parts:
  assumes "frame_wf nb fr"
  shows "take_bit 12 (parent_key fr) = of_nat (f_i fr)" "drop_bit 12 (parent_key fr) = drop_bit 12 (f_addr fr)"
proof -
  have i: "f_i fr < 4096" using frame_wf_level [OF assms] by simp
  have "unat (take_bit 12 (f_addr fr)) = 0"
    using assms by (simp add: frame_wf_def take_bit_eq_mod unat_mod)
  then have a: "take_bit 12 (f_addr fr) = 0" by (simp add: unat_eq_0)
  have t: "take_bit 12 (of_nat (f_i fr) :: u32) = of_nat (f_i fr)"
    using i by (simp add: take_bit_of_nat take_bit_nat_eq_self)
  moreover have "drop_bit 12 (of_nat (f_i fr) :: u32) = 0"
    using t by (simp only: take_bit_eq_self_iff_drop_bit_eq_0)
  ultimately show "take_bit 12 (parent_key fr) = of_nat (f_i fr)" "drop_bit 12 (parent_key fr) = drop_bit 12 (f_addr fr)"
    by (simp_all add: parent_key_def take_bit_or drop_bit_or a)
qed

lemma parent_key_inj:
  assumes "frame_wf nb fr" "frame_wf nb' gr" "parent_key fr = parent_key gr"
  shows "f_addr fr = f_addr gr \<and> f_i fr = f_i gr"
proof
  have t: "take_bit 12 (f_addr x) = 0" if "frame_wf m x" for m x
  proof -
    have "unat (take_bit 12 (f_addr x)) = 0" using that by (simp add: frame_wf_def take_bit_eq_mod unat_mod)
    then show ?thesis by (simp add: unat_eq_0)
  qed
  have "drop_bit 12 (f_addr fr) = drop_bit 12 (f_addr gr)"
    using parent_key_parts(2) [OF assms(1)] parent_key_parts(2) [OF assms(2)] assms(3) by simp
  then show "f_addr fr = f_addr gr"
    using bits_ident [of 12 "f_addr fr"] bits_ident [of 12 "f_addr gr"] t [OF assms(1)] t [OF assms(2)] by simp
  have "(of_nat (f_i fr) :: u32) = of_nat (f_i gr)"
    using parent_key_parts(1) [OF assms(1)] parent_key_parts(1) [OF assms(2)] assms(3) by simp
  then have "unat (of_nat (f_i fr) :: u32) = unat (of_nat (f_i gr) :: u32)" by simp
  then show "f_i fr = f_i gr"
    using frame_wf_level [OF assms(1)] frame_wf_level [OF assms(2)] by (simp add: unat_of_nat take_bit_nat_eq_self)
qed

text \<open>Two nodes whose frames have the same key in a table are the same node.\<close>

lemma node_of_leaf_address:
  assumes "laminar h F" "nodes_ok F N" "N n = Some f" "F f = Some fr" "N m = Some g" "F g = Some gr"
    and "leaf h f fr" "leaf h g gr" "f_addr fr = f_addr gr"
  shows "n = m"
  using same_address_frames [OF assms(1,4,6,9)] node_unique [OF assms(2,3), of m] assms(5,7,8) by auto

lemma leaf_key_fresh:
  assumes "tmap_ok st f_addr T (F \<circ>\<^sub>m N)" "laminar h F" "F f = Some fr" "leaf h f fr"
    and "f_status fr \<noteq> st" "st \<noteq> FRAME_PARENT"
  shows "T (f_addr fr) = None"
proof (rule ccontr)
  assume "T (f_addr fr) \<noteq> None"
  then obtain n gr where "(F \<circ>\<^sub>m N) n = Some gr" "f_status gr = st" "f_addr gr = f_addr fr"
    using tmapD [OF assms(1)] by fastforce
  then obtain g where g: "F g = Some gr" by (auto simp: map_comp_def split: option.splits)
  have "f = g"
    using same_address_frames [OF assms(2,3) g] assms(4,6) \<open>f_addr gr = f_addr fr\<close> \<open>f_status gr = st\<close>
    by (auto simp: leaf_def)
  then show False using g assms(3,5) \<open>f_status gr = st\<close> by simp
qed

lemma leaf_key_new:
  assumes "tmap_ok st f_addr T (F \<circ>\<^sub>m N)" "laminar h (F(f \<mapsto> fr))" "F f = None" "leaf h f fr" "st \<noteq> FRAME_PARENT"
  shows "T (f_addr fr) = None"
proof (rule ccontr)
  assume "T (f_addr fr) \<noteq> None"
  then obtain n gr where gr: "(F \<circ>\<^sub>m N) n = Some gr" "f_status gr = st" "f_addr gr = f_addr fr"
    using tmapD [OF assms(1)] by fastforce
  then obtain g where g: "F g = Some gr" by (auto simp: map_comp_def split: option.splits)
  then have "g \<noteq> f" using assms(3) by auto
  then show False
    using same_address_frames [OF assms(2), of f fr g gr] g gr assms(4,5) by (auto simp: leaf_def)
qed

lemma parent_key_fresh:
  assumes "tmap_ok FRAME_PARENT parent_key T (F \<circ>\<^sub>m N)" "heap_ok nb h F" "F f = Some fr"
    and "f_status fr \<noteq> FRAME_PARENT"
  shows "T (parent_key fr) = None"
proof (rule ccontr)
  assume "T (parent_key fr) \<noteq> None"
  then obtain n gr where gr: "(F \<circ>\<^sub>m N) n = Some gr" "f_status gr = FRAME_PARENT" "parent_key gr = parent_key fr"
    using tmapD [OF assms(1)] by fastforce
  then obtain g where g: "F g = Some gr" by (auto simp: map_comp_def split: option.splits)
  have ok: "frame_wf nb gr" "frame_wf nb fr" "laminar h F" using assms(2,3) g by (auto simp: heap_ok_def)
  have "f_addr gr = f_addr fr \<and> f_i gr = f_i fr" by (rule parent_key_inj [OF ok(1,2) gr(3)])
  then have "f = g" using same_address_frames [OF ok(3) assms(3) g] by simp
  then show False using g assms(3,4) gr(2) by simp
qed

subsection \<open>How many objects there are\<close>

text \<open>
  The frames of one level do not overlap, so there are at most \<open>2 ^ 20\<close> of them on
  each of at most 21 levels. The allocator is assumed to have room for that many.
\<close>

lemma heap_card:
  assumes "heap_ok nb h F"
  shows "finite (dom F)" "card (dom F) \<le> 21 * 2 ^ 20"
proof -
  let ?g = "\<lambda>f. (f_i (the (F f)), unat (f_addr (the (F f))) div 4096)"
  have wf: "frame_wf nb fr" if "F f = Some fr" for f fr using assms that by (auto simp: heap_ok_def)
  have sub: "?g ` dom F \<subseteq> {..<21} \<times> {..<2 ^ 20}"
  proof
    fix x assume "x \<in> ?g ` dom F"
    then obtain f fr where f: "F f = Some fr" "x = (f_i fr, unat (f_addr fr) div 4096)" by auto
    have "unat (f_addr fr) < 2 ^ 32" by (rule unat_u32_bound)
    then show "x \<in> {..<21} \<times> {..<2 ^ 20}" using frame_wf_level [OF wf [OF f(1)]] f(2) by auto
  qed
  have inj: "inj_on ?g (dom F)"
  proof (rule inj_onI)
    fix a b assume "a \<in> dom F" "b \<in> dom F" and eq: "?g a = ?g b"
    then obtain ar br where ab: "F a = Some ar" "F b = Some br" by auto
    have "unat (f_addr ar) = unat (f_addr br)"
      using eq ab wf [OF ab(1)] wf [OF ab(2)] by (auto simp: frame_wf_def)
    then have "f_addr ar = f_addr br" by (simp add: word_unat_eq_iff)
    then show "a = b" using same_address_frames [OF _ ab] assms eq ab by (auto simp: heap_ok_def)
  qed
  have fin: "finite ({..<21 :: nat} \<times> {..<2 ^ 20 :: nat})" by blast
  show "finite (dom F)" using inj_on_finite [OF inj sub fin] .
  have "card (dom F) \<le> card ({..<21 :: nat} \<times> {..<2 ^ 20 :: nat})" by (rule card_inj_on_le [OF inj sub fin])
  also have "\<dots> = 21 * 2 ^ 20" by (simp add: card_cartesian_product)
  finally show "card (dom F) \<le> 21 * 2 ^ 20" .
qed

lemma node_card:
  assumes "nodes_ok F N" "finite (dom F)"
  shows "finite (dom N)" "card (dom N) \<le> card (dom F)"
proof -
  have inj: "inj_on (\<lambda>n. the (N n)) (dom N)"
    using nodes_okD(4) [OF assms(1)] by (auto simp: inj_on_def)
  have sub: "(\<lambda>n. the (N n)) ` dom N \<subseteq> dom F" using nodes_okD(2) [OF assms(1)] by auto
  show "finite (dom N)" using inj_on_finite [OF inj sub assms(2)] .
  show "card (dom N) \<le> card (dom F)" by (rule card_inj_on_le [OF inj sub assms(2)])
qed

definition malloc_room :: "allocator \<Rightarrow> bool" where
  "malloc_room al \<longleftrightarrow> malloc_ok al \<and> (\<forall>k P. card {p. P p} < 2 ^ 26 \<longrightarrow> al k P \<noteq> NULL)"

lemma malloc_roomD:
  assumes "malloc_room al" "card {p. P p} < 2 ^ 26"
  shows "al k P \<noteq> NULL \<and> \<not> P (al k P)"
  using assms malloc_okD [of al k P] unfolding malloc_room_def by blast

end
