(* ===== verification/FrameManagerSplit.thy ===== *)
theory FrameManagerSplit
  imports FrameManagerReg
begin

text \<open>
  Allocation: taking a free block and splitting larger ones until there is a block of
  the size wanted, for every allocator with room for the objects that are needed.
\<close>

subsection \<open>The tables\<close>

lemma tbl_remove_found:
  assumes "ht_ok t" "ht_map t k = Some v"
  shows "\<exists>t'. tbl_remove t k = Some (0, Some v, t') \<and> ht_ok t' \<and> ht_map t' = (ht_map t)(k := None)"
  using ht_remove_map(2) [OF assms] by (auto simp: tbl_remove_def)

lemma tbl_remove_missing: "ht_ok t \<Longrightarrow> ht_map t k = None \<Longrightarrow> tbl_remove t k = Some (-2, None, t)"
  by (simp add: tbl_remove_def ht_remove_map(1))

lemma tbl_put_ok:
  assumes "malloc_room al" "ht_ok t" "ht_map t k = None"
  shows "\<exists>t'. tbl_put al c t k v = Some (0, t') \<and> ht_ok t' \<and> ht_map t' = (ht_map t)(k \<mapsto> v)"
proof -
  have "al c (\<lambda>_. False) \<noteq> NULL" for c using malloc_roomD [OF assms(1), of "\<lambda>_. False"] by simp
  then show ?thesis using ht_put_map(2) [OF assms(2,3), of "al c (\<lambda>_. False)" "al (Suc c) (\<lambda>_. False)" v]
    by (auto simp: tbl_put_def)
qed

subsection \<open>Taking a block\<close>

text \<open>What a client sees: the blocks that are allocated.\<close>

definition alloc_blocks :: "frame_manager \<Rightarrow> (u32 \<times> nat) set" where
  "alloc_blocks fm = {(f_addr fr, f_i fr) | f fr. frames fm f = Some fr \<and> f_status fr = FRAME_ALLOC}"

definition block_bytes :: "u32 \<times> nat \<Rightarrow> nat set" where
  "block_bytes b = {unat (fst b) ..< unat (fst b) + 2 ^ snd b * 4096}"

lemma alloc_blocks_iff:
  "(a, j) \<in> alloc_blocks fm \<longleftrightarrow> (\<exists>f fr. frames fm f = Some fr \<and> f_status fr = FRAME_ALLOC \<and> f_addr fr = a \<and> f_i fr = j)"
  by (auto simp: alloc_blocks_def)

text \<open>The node at hand: its frame, in the heap and in the composed map.\<close>

lemma bin_node:
  assumes inv: "fm_inv h M fm" and j: "j < unat (fm_num_bins fm)" and n: "n \<in> set (fm_bins fm ! j)"
  obtains f fr where "fnodes fm n = Some f" "frames fm f = Some fr" "(frames fm \<circ>\<^sub>m fnodes fm) n = Some fr"
    "f_status fr = FRAME_DEALLOC" "f_i fr = j" "n \<noteq> NULL"
proof -
  have "bin_ok j (fm_bins fm ! j) (frames fm \<circ>\<^sub>m fnodes fm)" by (rule fm_invD(10) [OF inv j])
  with n obtain fr where fr: "(frames fm \<circ>\<^sub>m fnodes fm) n = Some fr" "f_status fr = FRAME_DEALLOC" "f_i fr = j"
    by (auto simp: bin_ok_def)
  then obtain f where "fnodes fm n = Some f" "frames fm f = Some fr" by (auto simp: map_comp_def split: option.splits)
  moreover have "n \<noteq> NULL" using nodes_okD(1) [OF fm_invD(2) [OF inv]] \<open>fnodes fm n = Some f\<close> by auto
  ultimately show thesis using that fr by blast
qed

lemma leaf_free: "f_status fr = FRAME_DEALLOC \<Longrightarrow> leaf h f fr"
  "f_status fr = FRAME_ALLOC \<Longrightarrow> leaf h f fr"
  by (simp_all add: leaf_def)

text \<open>Changing the status of a leaf \<open>f\<close> with node \<open>n\<close>, and the registers with it.\<close>

lemma fm_inv_alloc:
  assumes inv: "fm_inv None M fm" and n: "fnodes fm n = Some f" "frames fm f = Some fr"
    and fr: "f_status fr = FRAME_DEALLOC" "f_i fr = j"
    and d: "ht_ok d" "ht_map d = (ht_map (fm_deallocated fm))(f_addr fr := None)"
    and a: "ht_ok a" "ht_map a = (ht_map (fm_allocated fm))(f_addr fr \<mapsto> n)"
  shows "fm_inv None M (fm\<lparr>fm_bins := (fm_bins fm)[j := remove1 n (fm_bins fm ! j)],
    fm_deallocated := d, fm_allocated := a, fm_mcalls := c,
    frames := (frames fm)(f \<mapsto> fr\<lparr>f_status := FRAME_ALLOC\<rparr>)\<rparr>)"
proof -
  note I = fm_invD [OF inv]
  let ?L = "frames fm \<circ>\<^sub>m fnodes fm" and ?fr = "fr\<lparr>f_status := FRAME_ALLOC\<rparr>"
  have L: "?L n = Some fr" using n by (simp add: map_comp_def)
  have L': "(frames fm)(f \<mapsto> ?fr) \<circ>\<^sub>m fnodes fm = ?L(n \<mapsto> ?fr)" by (rule comp_retype [OF I(2) n(1)])
  have j: "j < unat (fm_num_bins fm)" using I(1) n(2) fr(2) by (auto simp: heap_ok_def frame_wf_def)
  note H = heap_retype [OF I(1) n(2) leaf_free(1) [OF fr(1)], of FRAME_ALLOC]
  have "ht_map (fm_allocated fm) (f_addr fr) = None"
    by (rule leaf_key_fresh [OF I(6,13) n(2) leaf_free(1) [OF fr(1)]]) (simp_all add: fr)
  then have "tmap_ok FRAME_ALLOC f_addr (ht_map a) (?L(n \<mapsto> ?fr))"
    using tmap_put [OF I(6), of n ?fr] L fr by (simp add: a)
  moreover have "tmap_ok FRAME_DEALLOC f_addr (ht_map d) (?L(n \<mapsto> ?fr))"
    using tmap_del [OF I(7) L fr(1), of "Some ?fr"] by (simp add: d)
  moreover have "tmap_ok FRAME_PARENT parent_key (ht_map (fm_parents fm)) (?L(n \<mapsto> ?fr))"
    using tmap_keep [OF I(8), of n "Some ?fr"] L fr by simp
  moreover have "bin_ok k ((fm_bins fm)[j := remove1 n (fm_bins fm ! j)] ! k) (?L(n \<mapsto> ?fr))"
    if k: "k < unat (fm_num_bins fm)" for k
    using bin_del [OF I(10) [OF k], of "Some ?fr" n] bin_keep [OF I(10) [OF k], of n "Some ?fr"] L fr I(9) j
    by (cases "k = j") simp_all
  ultimately show ?thesis
    using H I(3-5,9,11) nodes_ok_retype [OF I(2) n(2)] d(1) a(1) by (simp add: fm_inv_def L')
qed

lemma take_block_ok:
  assumes inv: "fm_inv None M fm" and al: "malloc_room al"
    and j: "j < unat (fm_num_bins fm)" "fm_bins fm ! j = n # b"
  shows "\<exists>f fr fm'. take_block al j fm = Some (f_addr fr, fm') \<and> fm_inv None M fm' \<and>
    fnodes fm n = Some f \<and> frames fm f = Some fr \<and> f_status fr = FRAME_DEALLOC \<and> f_i fr = j \<and>
    frames fm' = (frames fm)(f \<mapsto> fr\<lparr>f_status := FRAME_ALLOC\<rparr>) \<and>
    fm_num_bins fm' = fm_num_bins fm \<and> fm_m fm' = fm_m fm"
proof -
  note I = fm_invD [OF inv]
  obtain f fr where n: "fnodes fm n = Some f" "frames fm f = Some fr" "(frames fm \<circ>\<^sub>m fnodes fm) n = Some fr"
    "f_status fr = FRAME_DEALLOC" "f_i fr = j" "n \<noteq> NULL"
    by (rule bin_node [OF inv j(1), of n]) (use j(2) in auto)
  have "ht_map (fm_deallocated fm) (f_addr fr) = Some n" by (rule tmap_lookup [OF I(7) n(3,4)])
  then obtain d where d: "tbl_remove (fm_deallocated fm) (f_addr fr) = Some (0, Some n, d)" "ht_ok d"
    "ht_map d = (ht_map (fm_deallocated fm))(f_addr fr := None)" using tbl_remove_found [OF I(4)] by blast
  have "ht_map (fm_allocated fm) (f_addr fr) = None"
    by (rule leaf_key_fresh [OF I(6,13) n(2) leaf_free(1) [OF n(4)]]) (simp_all add: n)
  then obtain a where a: "tbl_put al (fm_mcalls fm) (fm_allocated fm) (f_addr fr) n = Some (0, a)" "ht_ok a"
    "ht_map a = (ht_map (fm_allocated fm))(f_addr fr \<mapsto> n)" using tbl_put_ok [OF al I(3)] by blast
  have "fm_inv None M (fm\<lparr>fm_bins := (fm_bins fm)[j := remove1 n (fm_bins fm ! j)],
    fm_deallocated := d, fm_allocated := a, fm_mcalls := fm_mcalls fm + 2,
    frames := (frames fm)(f \<mapsto> fr\<lparr>f_status := FRAME_ALLOC\<rparr>)\<rparr>)"
    by (rule fm_inv_alloc [OF inv n(1,2,4,5) d(2,3) a(2,3)])
  then show ?thesis
    using n(1,2,4,5) d(1) a(1) j I(9)
    by (simp add: take_block_def get_bin_def bin_unlink_def remove_deallocated_def put_allocated_def set_status_def)
qed

subsection \<open>Splitting a block\<close>

lemma malloc_frame_ok:
  assumes "malloc_room al" "card (dom (frames fm)) \<le> 2 ^ 25"
  obtains p fm' where "malloc_frame al junk fm = (p, fm')" "p \<noteq> NULL" "frames fm p = None"
    "fm' = fm\<lparr>fm_mcalls := Suc (fm_mcalls fm), frames := (frames fm)(p \<mapsto> junk)\<rparr>"
proof -
  let ?p = "al (fm_mcalls fm) (\<lambda>q. frames fm q \<noteq> None)"
  have "card {q. frames fm q \<noteq> None} < 2 ^ 26" using assms(2) by (simp add: dom_def)
  then have "?p \<noteq> NULL \<and> \<not> frames fm ?p \<noteq> None" by (rule malloc_roomD [OF assms(1)])
  then show thesis by (intro that [of ?p]) (simp_all add: malloc_frame_def Let_def)
qed

lemma malloc_fnode_ok:
  assumes "malloc_room al" "card (dom (fnodes fm)) \<le> 2 ^ 25"
  obtains p fm' where "malloc_fnode al fm = (p, fm')" "p \<noteq> NULL" "fnodes fm p = None"
    "fm' = fm\<lparr>fm_mcalls := Suc (fm_mcalls fm), fnodes := (fnodes fm)(p \<mapsto> NULL)\<rparr>"
proof -
  let ?p = "al (fm_mcalls fm) (\<lambda>q. fnodes fm q \<noteq> None)"
  have "card {q. fnodes fm q \<noteq> None} < 2 ^ 26" using assms(2) by (simp add: dom_def)
  then have "?p \<noteq> NULL \<and> \<not> fnodes fm ?p \<noteq> None" by (rule malloc_roomD [OF assms(1)])
  then show thesis by (intro that [of ?p]) (simp_all add: malloc_fnode_def Let_def)
qed

lemma card_dom_upd: "card (dom (m(k \<mapsto> v))) \<le> Suc (card (dom m))" for m :: "'a :: finite \<rightharpoonup> 'b"
  by (simp add: card_insert_if)

text \<open>The state after the two halves of the block \<open>p\<close> have been registered.\<close>

definition after_split :: "nat \<Rightarrow> ptr \<Rightarrow> frame \<Rightarrow> ptr \<Rightarrow> ptr \<Rightarrow> ptr \<Rightarrow> ptr \<Rightarrow> ht \<Rightarrow> nat \<Rightarrow> frame_manager \<Rightarrow> frame_manager" where
  "after_split j p pr l r ln rn d c fm = fm\<lparr>
     frames := (frames fm)(l \<mapsto> half False pr j r p, r \<mapsto> half True pr j l p),
     fnodes := (fnodes fm)(ln \<mapsto> l, rn \<mapsto> r),
     fm_bins := (fm_bins fm)[j := fm_bins fm ! j @ [ln, rn]],
     fm_deallocated := d, fm_mcalls := c\<rparr>"

lemma half_addr: "f_addr (half False pr j b p) = f_addr pr"
  "f_addr (half True pr j b p) = f_addr pr + (f_num_pages pr div 2) * PAGE_SIZE"
  by (simp_all add: half_def)

lemma split_children_ok:
  assumes al: "malloc_room al" and i: "i = Suc j" "j < length (fm_bins fm)"
    and card: "card (dom (frames fm)) \<le> 2 ^ 25 - 2" "card (dom (fnodes fm)) \<le> 2 ^ 25 - 2"
    and d: "ht_ok (fm_deallocated fm)" "ht_map (fm_deallocated fm) (f_addr pr) = None"
      "ht_map (fm_deallocated fm) (f_addr pr + (f_num_pages pr div 2) * PAGE_SIZE) = None"
    and ne: "(f_num_pages pr div 2) * PAGE_SIZE \<noteq> 0" and p: "frames fm p = Some pr'"
  obtains l r ln rn dt c where "split_children al junk i p pr fm = Some (0, after_split j p pr l r ln rn dt c fm)"
    "l \<noteq> NULL" "r \<noteq> NULL" "l \<noteq> r" "frames fm l = None" "frames fm r = None"
    "ln \<noteq> NULL" "rn \<noteq> NULL" "ln \<noteq> rn" "fnodes fm ln = None" "fnodes fm rn = None" "ht_ok dt"
    "ht_map dt = (ht_map (fm_deallocated fm))(f_addr pr \<mapsto> ln,
      f_addr pr + (f_num_pages pr div 2) * PAGE_SIZE \<mapsto> rn)"
proof -
  obtain l fm1 where m1: "malloc_frame al junk fm = (l, fm1)" "l \<noteq> NULL" "frames fm l = None"
    "fm1 = fm\<lparr>fm_mcalls := Suc (fm_mcalls fm), frames := (frames fm)(l \<mapsto> junk)\<rparr>"
    by (rule malloc_frame_ok [OF al, of fm junk]) (use card(1) in auto)
  have "card (dom (frames fm1)) \<le> 2 ^ 25" using card_dom_upd [of "frames fm" l junk] card(1) m1(4) by simp
  then obtain r fm2 where m2: "malloc_frame al junk fm1 = (r, fm2)" "r \<noteq> NULL" "frames fm1 r = None"
    "fm2 = fm1\<lparr>fm_mcalls := Suc (fm_mcalls fm1), frames := (frames fm1)(r \<mapsto> junk)\<rparr>"
    by (rule malloc_frame_ok [OF al, of fm1 junk])
  have lr: "l \<noteq> r" "frames fm r = None" using m2(3) m1(4) by (auto split: if_splits)
  define fm3 where "fm3 = fm2\<lparr>frames := (frames fm2)(l \<mapsto> half False pr j r p, r \<mapsto> half True pr j l p)\<rparr>"
  have "card (dom (fnodes fm3)) \<le> 2 ^ 25" using card(2) by (simp add: fm3_def m2(4) m1(4))
  then obtain ln fm4 where n1: "malloc_fnode al fm3 = (ln, fm4)" "ln \<noteq> NULL" "fnodes fm3 ln = None"
    "fm4 = fm3\<lparr>fm_mcalls := Suc (fm_mcalls fm3), fnodes := (fnodes fm3)(ln \<mapsto> NULL)\<rparr>"
    by (rule malloc_fnode_ok [OF al, of fm3])
  have fn: "fnodes fm3 = fnodes fm" "fm_bins fm3 = fm_bins fm" by (simp_all add: fm3_def m2(4) m1(4))
  have "card (dom (fnodes fm4)) \<le> 2 ^ 25" using card_dom_upd [of "fnodes fm" ln NULL] card(2) n1(4) fn by simp
  then obtain rn fm5 where n2: "malloc_fnode al fm4 = (rn, fm5)" "rn \<noteq> NULL" "fnodes fm4 rn = None"
    "fm5 = fm4\<lparr>fm_mcalls := Suc (fm_mcalls fm4), fnodes := (fnodes fm4)(rn \<mapsto> NULL)\<rparr>"
    by (rule malloc_fnode_ok [OF al, of fm4])
  have nn: "ln \<noteq> rn" "fnodes fm rn = None" "fnodes fm ln = None" using n2(3) n1(3,4) fn by (auto split: if_splits)
  define fm6 where "fm6 = fm5\<lparr>fnodes := (fnodes fm5)(ln \<mapsto> l, rn \<mapsto> r),
    fm_bins := (fm_bins fm)[j := fm_bins fm ! j @ [ln, rn]]\<rparr>"
  have d6: "fm_deallocated fm6 = fm_deallocated fm"
    by (simp add: fm6_def n2(4) n1(4) fm3_def m2(4) m1(4))
  have fr6: "frames fm6 = (frames fm3)" by (simp add: fm6_def n2(4) n1(4))
  obtain d1 where d1: "tbl_put al (fm_mcalls fm6) (fm_deallocated fm6) (f_addr pr) ln = Some (0, d1)" "ht_ok d1"
    "ht_map d1 = (ht_map (fm_deallocated fm))(f_addr pr \<mapsto> ln)"
    using tbl_put_ok [OF al d(1,2)] unfolding d6 by blast
  have "ht_map d1 (f_addr pr + (f_num_pages pr div 2) * PAGE_SIZE) = None" using d(3) ne by (simp add: d1(3))
  then obtain d2 where d2: "tbl_put al (fm_mcalls fm6 + 2) d1 (f_addr pr + (f_num_pages pr div 2) * PAGE_SIZE) rn = Some (0, d2)"
    "ht_ok d2" "ht_map d2 = (ht_map d1)(f_addr pr + (f_num_pages pr div 2) * PAGE_SIZE \<mapsto> rn)"
    using tbl_put_ok [OF al d1(2)] by blast
  have init: "frame_init r (f_addr pr + (f_num_pages pr div 2) * PAGE_SIZE) (f_num_pages pr div 2) FRAME_DEALLOC j l p
      (snd (frame_init l (f_addr pr) (f_num_pages pr div 2) FRAME_DEALLOC j r p fm2)) = (0, fm3)"
    using m1(2) m2(2) by (simp add: frame_init_def fm3_def half_def)
  define fm5' where "fm5' = fm5\<lparr>fnodes := (fnodes fm5)(ln \<mapsto> l), fm_bins := (fm_bins fm)[j := fm_bins fm ! j @ [ln]]\<rparr>"
  have b5: "fm_bins fm5 = fm_bins fm" using fn(2) by (simp add: n2(4) n1(4))
  have s1: "bin_link_last j ln (fnode_init ln l fm5) = Some fm5'"
    using n1(2) i b5 by (simp add: bin_link_last_def fnode_init_def get_bin_def fm5'_def)
  have s2: "bin_link_last j rn (fnode_init rn r fm5') = Some fm6"
    using n2(2) i b5 nn(1) by (simp add: bin_link_last_def fnode_init_def get_bin_def fm5'_def fm6_def)
  have look: "frames fm6 l = Some (half False pr j r p)"
    "frames (fm6\<lparr>fm_deallocated := d1, fm_mcalls := fm_mcalls fm6 + 2\<rparr>) r = Some (half True pr j l p)"
    using lr by (simp_all add: fr6 fm3_def)
  have p1: "put_deallocated al (f_addr pr) ln fm6 = Some (0, fm6\<lparr>fm_deallocated := d1, fm_mcalls := fm_mcalls fm6 + 2\<rparr>)"
    by (simp add: put_deallocated_def d1(1))
  have p2: "put_deallocated al (f_addr pr + (f_num_pages pr div 2) * PAGE_SIZE) rn
      (fm6\<lparr>fm_deallocated := d1, fm_mcalls := fm_mcalls fm6 + 2\<rparr>) =
      Some (0, fm6\<lparr>fm_deallocated := d2, fm_mcalls := fm_mcalls fm6 + 2 + 2\<rparr>)"
    using d2(1) by (simp add: put_deallocated_def)
  have "split_children al junk i p pr fm =
      Some (0, fm6\<lparr>fm_deallocated := d2, fm_mcalls := fm_mcalls fm6 + 2 + 2\<rparr>)"
    using init unfolding split_children_def m1(1) i(1) diff_Suc_1
    by (cases "frame_init l (f_addr pr) (f_num_pages pr div 2) FRAME_DEALLOC j r p fm2")
      (simp only: Let_def prod.case snd_conv m2(1) n1(1) n2(1) s1 s2 look p1 p2 half_addr bind.bind_lunit)
  moreover have "fm6\<lparr>fm_deallocated := d2, fm_mcalls := fm_mcalls fm6 + 2 + 2\<rparr> =
      after_split j p pr l r ln rn d2 (fm_mcalls fm6 + 2 + 2) fm"
    using lr nn by (simp add: after_split_def fm6_def n2(4) n1(4) fm3_def m2(4) m1(4) fun_upd_twist)
  ultimately have res: "split_children al junk i p pr fm =
      Some (0, after_split j p pr l r ln rn d2 (fm_mcalls fm6 + 2 + 2) fm)" by (simp only:)
  show thesis
    by (rule that [OF res m1(2) m2(2) lr(1) m1(3) lr(2) n1(2) n2(2) nn(1) nn(3) nn(2) d2(2) d2(3) [unfolded d1(3)]])
qed

text \<open>No free block starts inside another leaf.\<close>

lemma inside_leaf_fresh:
  assumes "tmap_ok FRAME_DEALLOC f_addr T (F \<circ>\<^sub>m N)" "laminar None F" "F p = Some pr" "leaf None p pr"
    and "unat x \<in> frange pr" "x \<noteq> f_addr pr"
  shows "T x = None"
proof (rule ccontr)
  assume "T x \<noteq> None"
  then obtain n gr where gr: "(F \<circ>\<^sub>m N) n = Some gr" "f_status gr = FRAME_DEALLOC" "f_addr gr = x"
    using tmapD [OF assms(1)] by fastforce
  then obtain g where g: "F g = Some gr" by (auto simp: map_comp_def split: option.splits)
  have "g \<noteq> p" using g gr(3) assms(3,6) by auto
  then have "frange gr \<inter> frange pr = {}"
    using laminar_leaves [OF assms(2) g assms(3)] assms(4) leaf_free(1) [OF gr(2)] by simp
  then show False using frange_ne [of gr] gr(3) assms(5) by auto
qed

lemma right_half_addr:
  assumes "frame_wf nb pr" "f_i pr = Suc j"
  shows "unat (f_addr pr + (f_num_pages pr div 2) * PAGE_SIZE) \<in> frange pr"
    and "f_addr pr + (f_num_pages pr div 2) * PAGE_SIZE \<noteq> f_addr pr"
    and "(f_num_pages pr div 2) * PAGE_SIZE \<noteq> 0"
proof -
  note a = half_arith(2) [OF assms]
  then show "unat (f_addr pr + (f_num_pages pr div 2) * PAGE_SIZE) \<in> frange pr" using assms(2) by (simp add: frange_def)
  show ne: "f_addr pr + (f_num_pages pr div 2) * PAGE_SIZE \<noteq> f_addr pr"
  proof
    assume "f_addr pr + (f_num_pages pr div 2) * PAGE_SIZE = f_addr pr"
    with a show False by simp
  qed
  then show "(f_num_pages pr div 2) * PAGE_SIZE \<noteq> 0" by auto
qed

lemma fm_inv_split:
  assumes inv: "fm_inv None M fm" and n: "fnodes fm pn = Some p" "frames fm p = Some pr"
    and pr: "f_status pr = FRAME_DEALLOC" "f_i pr = Suc j"
    and new: "l \<noteq> NULL" "r \<noteq> NULL" "l \<noteq> r" "frames fm l = None" "frames fm r = None"
      "ln \<noteq> NULL" "rn \<noteq> NULL" "ln \<noteq> rn" "fnodes fm ln = None" "fnodes fm rn = None"
    and d: "ht_ok d" "ht_map d = (ht_map (fm_deallocated fm))(f_addr pr := None, f_addr pr \<mapsto> ln,
      f_addr pr + (f_num_pages pr div 2) * PAGE_SIZE \<mapsto> rn)"
    and q: "ht_ok q" "ht_map q = (ht_map (fm_parents fm))(parent_key pr \<mapsto> pn)"
  shows "fm_inv None M (after_split j p pr l r ln rn d c
    (fm\<lparr>fm_bins := (fm_bins fm)[Suc j := remove1 pn (fm_bins fm ! Suc j)], fm_deallocated := x, fm_parents := q,
        fm_mcalls := y, frames := (frames fm)(p \<mapsto> pr\<lparr>f_status := FRAME_PARENT\<rparr>)\<rparr>))"
proof -
  note I = fm_invD [OF inv]
  let ?L = "frames fm \<circ>\<^sub>m fnodes fm" and ?pr = "pr\<lparr>f_status := FRAME_PARENT\<rparr>"
  let ?lr = "half False pr j r p" and ?rr = "half True pr j l p"
  let ?ra = "f_addr pr + (f_num_pages pr div 2) * PAGE_SIZE"
  have wf: "frame_wf (unat (fm_num_bins fm)) pr" using I(1) n(2) by (auto simp: heap_ok_def)
  note ra = right_half_addr [OF wf pr(2)]
  have L: "?L pn = Some pr" using n by (simp add: map_comp_def)
  have Lln: "?L ln = None" "?L rn = None" using new(9,10) by (simp_all add: map_comp_def)
  have ne: "pn \<noteq> ln" "pn \<noteq> rn" "p \<noteq> l" "p \<noteq> r" using n new by auto
  let ?F1 = "(frames fm)(p \<mapsto> ?pr)"
  have N1: "nodes_ok ?F1 (fnodes fm)" by (rule nodes_ok_retype [OF I(2) n(2)])
  have N2: "nodes_ok (?F1(l \<mapsto> ?lr)) ((fnodes fm)(ln \<mapsto> l))"
    by (rule nodes_ok_new [OF N1]) (use new ne in auto)
  have N3: "nodes_ok (?F1(l \<mapsto> ?lr, r \<mapsto> ?rr)) ((fnodes fm)(ln \<mapsto> l, rn \<mapsto> r))"
    by (rule nodes_ok_new [OF N2]) (use new ne in auto)
  have C: "?F1(l \<mapsto> ?lr, r \<mapsto> ?rr) \<circ>\<^sub>m (fnodes fm)(ln \<mapsto> l, rn \<mapsto> r) = ?L(pn \<mapsto> ?pr, ln \<mapsto> ?lr, rn \<mapsto> ?rr)"
    using comp_new [OF N2, of r ?rr rn] comp_new [OF N1, of l ?lr ln] comp_retype [OF I(2) n(1), of ?pr] new ne
    by simp
  have Lr: "(?L(pn \<mapsto> ?pr)) ln = None" "(?L(pn \<mapsto> ?pr, ln \<mapsto> ?lr)) rn = None" using Lln ne new(8) by simp_all
  have D1: "tmap_ok FRAME_DEALLOC f_addr ((ht_map (fm_deallocated fm))(f_addr pr := None)) (?L(pn \<mapsto> ?pr))"
    using tmap_del [OF I(7) L pr(1), of "Some ?pr"] by simp
  have D2: "tmap_ok FRAME_DEALLOC f_addr ((ht_map (fm_deallocated fm))(f_addr pr := None, f_addr pr \<mapsto> ln))
      (?L(pn \<mapsto> ?pr, ln \<mapsto> ?lr))"
    using tmap_put [OF D1, of ln ?lr] Lr by (simp add: half_addr)
  have "ht_map (fm_deallocated fm) ?ra = None"
    by (rule inside_leaf_fresh [OF I(7,13) n(2) leaf_free(1) [OF pr(1)] ra(1,2)])
  then have D3: "tmap_ok FRAME_DEALLOC f_addr (ht_map d) (?L(pn \<mapsto> ?pr, ln \<mapsto> ?lr, rn \<mapsto> ?rr))"
    using tmap_put [OF D2, of rn ?rr] Lr ra(2) by (simp add: half_addr d(2))
  have A: "tmap_ok FRAME_ALLOC f_addr (ht_map (fm_allocated fm)) (?L(pn \<mapsto> ?pr, ln \<mapsto> ?lr, rn \<mapsto> ?rr))"
    by (intro tmap_keep I(6)) (use L Lr pr in simp_all)
  have "ht_map (fm_parents fm) (parent_key pr) = None"
    by (rule parent_key_fresh [OF I(8,1) n(2)]) (simp add: pr)
  then have P1: "tmap_ok FRAME_PARENT parent_key (ht_map q) (?L(pn \<mapsto> ?pr))"
    using tmap_put [OF I(8), of pn ?pr] L pr by (simp add: parent_key_def q(2))
  have P2: "tmap_ok FRAME_PARENT parent_key (ht_map q) (?L(pn \<mapsto> ?pr, ln \<mapsto> ?lr))"
    by (rule tmap_keep [OF P1]) (use Lr(1) in simp_all)
  have P: "tmap_ok FRAME_PARENT parent_key (ht_map q) (?L(pn \<mapsto> ?pr, ln \<mapsto> ?lr, rn \<mapsto> ?rr))"
    by (rule tmap_keep [OF P2]) (use Lr(2) in simp_all)
  have j: "Suc j < unat (fm_num_bins fm)" using wf pr(2) by (simp add: frame_wf_def)
  let ?bins = "((fm_bins fm)[Suc j := remove1 pn (fm_bins fm ! Suc j)])[j := fm_bins fm ! j @ [ln, rn]]"
  have B: "bin_ok k (?bins ! k) (?L(pn \<mapsto> ?pr, ln \<mapsto> ?lr, rn \<mapsto> ?rr))" if k: "k < unat (fm_num_bins fm)" for k
  proof (cases "k = j")
    case True
    have 1: "bin_ok j (fm_bins fm ! j) (?L(pn \<mapsto> ?pr))"
      using bin_keep [OF I(10) [OF k], of pn "Some ?pr"] L pr True by simp
    have 2: "bin_ok j (fm_bins fm ! j @ [ln]) (?L(pn \<mapsto> ?pr, ln \<mapsto> ?lr))"
      by (rule bin_put [OF 1]) (use Lr(1) in simp_all)
    have "bin_ok j ((fm_bins fm ! j @ [ln]) @ [rn]) (?L(pn \<mapsto> ?pr, ln \<mapsto> ?lr, rn \<mapsto> ?rr))"
      by (rule bin_put [OF 2]) (use Lr(2) in simp_all)
    then show ?thesis using True I(9) j by simp
  next
    case False
    have 1: "bin_ok k ((fm_bins fm)[Suc j := remove1 pn (fm_bins fm ! Suc j)] ! k) (?L(pn \<mapsto> ?pr))"
      using bin_keep [OF I(10) [OF k], of pn "Some ?pr"] bin_del [OF I(10) [OF k], of "Some ?pr" pn] L pr I(9) j
      by (cases "k = Suc j") simp_all
    have 2: "bin_ok k ((fm_bins fm)[Suc j := remove1 pn (fm_bins fm ! Suc j)] ! k) (?L(pn \<mapsto> ?pr, ln \<mapsto> ?lr))"
      by (rule bin_keep [OF 1]) (use False Lr(1) in auto)
    have "bin_ok k ((fm_bins fm)[Suc j := remove1 pn (fm_bins fm ! Suc j)] ! k) (?L(pn \<mapsto> ?pr, ln \<mapsto> ?lr, rn \<mapsto> ?rr))"
      by (rule bin_keep [OF 2]) (use False Lr(2) in auto)
    then show ?thesis using False by simp
  qed
  note H = heap_split [OF I(1) n(2) _ pr(2) new(4,5,3,1,2)]
  show ?thesis
    using H I(3,9,11) N3 C A D3 P B d(1) q(1) pr(1) by (simp add: fm_inv_def after_split_def)
qed

lemma split_block_ok:
  assumes inv: "fm_inv None M fm" and al: "malloc_room al"
    and i: "i < unat (fm_num_bins fm)" "i = Suc j" "fm_bins fm ! i = pn # b"
  obtains p pr l r ln rn fm' where "split_block al junk i fm = Some (0, fm')" "fm_inv None M fm'"
    "fnodes fm pn = Some p" "frames fm p = Some pr" "f_status pr = FRAME_DEALLOC" "f_i pr = i"
    "frames fm l = None" "frames fm r = None" "l \<noteq> r" "l \<noteq> NULL" "r \<noteq> NULL"
    "frames fm' = (frames fm)(p \<mapsto> pr\<lparr>f_status := FRAME_PARENT\<rparr>, l \<mapsto> half False pr j r p, r \<mapsto> half True pr j l p)"
    "fm_bins fm' ! j = fm_bins fm ! j @ [ln, rn]" "fnodes fm' ln = Some l"
    "fm_num_bins fm' = fm_num_bins fm" "fm_m fm' = fm_m fm" "\<forall>k < j. fm_bins fm' ! k = fm_bins fm ! k"
proof -
  note I = fm_invD [OF inv]
  obtain p pr where n: "fnodes fm pn = Some p" "frames fm p = Some pr" "(frames fm \<circ>\<^sub>m fnodes fm) pn = Some pr"
    "f_status pr = FRAME_DEALLOC" "f_i pr = i" "pn \<noteq> NULL"
    by (rule bin_node [OF inv i(1), of pn]) (use i(3) in auto)
  have wf: "frame_wf (unat (fm_num_bins fm)) pr" using I(1) n(2) by (auto simp: heap_ok_def)
  have fi: "f_i pr = Suc j" using n(5) i(2) by simp
  note ra = right_half_addr [OF wf fi]
  let ?ra = "f_addr pr + (f_num_pages pr div 2) * PAGE_SIZE"
  have "ht_map (fm_deallocated fm) (f_addr pr) = Some pn" by (rule tmap_lookup [OF I(7) n(3,4)])
  then obtain d where d: "tbl_remove (fm_deallocated fm) (f_addr pr) = Some (0, Some pn, d)" "ht_ok d"
    "ht_map d = (ht_map (fm_deallocated fm))(f_addr pr := None)" using tbl_remove_found [OF I(4)] by blast
  have "ht_map (fm_parents fm) (parent_key pr) = None"
    by (rule parent_key_fresh [OF I(8,1) n(2)]) (simp add: n)
  then obtain q where q: "tbl_put al (fm_mcalls fm) (fm_parents fm) (parent_key pr) pn = Some (0, q)" "ht_ok q"
    "ht_map q = (ht_map (fm_parents fm))(parent_key pr \<mapsto> pn)" using tbl_put_ok [OF al I(5)] by blast
  let ?fm1 = "fm\<lparr>fm_bins := (fm_bins fm)[Suc j := remove1 pn (fm_bins fm ! Suc j)], fm_deallocated := d, fm_parents := q,
        fm_mcalls := fm_mcalls fm + 2, frames := (frames fm)(p \<mapsto> pr\<lparr>f_status := FRAME_PARENT\<rparr>)\<rparr>"
  have "split_block al junk i fm = split_children al junk i p pr ?fm1"
    using i n d(1) q(1) I(9)
    by (simp add: split_block_def get_bin_def bin_unlink_def remove_deallocated_def put_parents_def set_status_def)
  note run = this
  have hc: "card (dom (frames fm)) \<le> 21 * 2 ^ 20" "card (dom (fnodes fm)) \<le> 21 * 2 ^ 20"
    using heap_card [OF I(1)] node_card [OF I(2)] by simp_all
  have c: "card (dom (frames ?fm1)) \<le> 2 ^ 25 - 2" "card (dom (fnodes ?fm1)) \<le> 2 ^ 25 - 2"
    using hc n(2) by (simp_all add: insert_absorb domI)
  have "ht_map (fm_deallocated fm) ?ra = None"
    by (rule inside_leaf_fresh [OF I(7,13) n(2) leaf_free(1) [OF n(4)] ra(1,2)])
  then have d1: "ht_ok (fm_deallocated ?fm1)" "ht_map (fm_deallocated ?fm1) (f_addr pr) = None"
    "ht_map (fm_deallocated ?fm1) ?ra = None" using d(2,3) by simp_all
  have len: "j < length (fm_bins ?fm1)" "frames ?fm1 p = Some (pr\<lparr>f_status := FRAME_PARENT\<rparr>)"
    using i I(9) by simp_all
  obtain l r ln rn dt c where s: "split_children al junk i p pr ?fm1 = Some (0, after_split j p pr l r ln rn dt c ?fm1)"
    "l \<noteq> NULL" "r \<noteq> NULL" "l \<noteq> r" "frames ?fm1 l = None" "frames ?fm1 r = None"
    "ln \<noteq> NULL" "rn \<noteq> NULL" "ln \<noteq> rn" "fnodes ?fm1 ln = None" "fnodes ?fm1 rn = None" "ht_ok dt"
    "ht_map dt = (ht_map (fm_deallocated ?fm1))(f_addr pr \<mapsto> ln, ?ra \<mapsto> rn)"
    by (rule split_children_ok [OF al i(2) len(1) c d1 ra(3) len(2), of junk])
  have fresh: "frames fm l = None" "frames fm r = None" "fnodes fm ln = None" "fnodes fm rn = None"
    using s(5,6,10,11) by (auto split: if_splits)
  let ?fm2 = "after_split j p pr l r ln rn dt c ?fm1"
  have "fm_inv None M ?fm2"
    by (rule fm_inv_split [OF inv n(1,2,4) fi s(2,3,4) fresh(1,2) s(7,8,9) fresh(3,4) s(12) _ q(2,3)])
      (simp add: s(13) d(3))
  moreover have "split_block al junk i fm = Some (0, ?fm2)" using run s(1) by (rule trans)
  moreover have "frames ?fm2 = (frames fm)(p \<mapsto> pr\<lparr>f_status := FRAME_PARENT\<rparr>, l \<mapsto> half False pr j r p, r \<mapsto> half True pr j l p)"
    "fnodes ?fm2 ln = Some l" "fm_num_bins ?fm2 = fm_num_bins fm" "fm_m ?fm2 = fm_m fm"
    "\<forall>k < j. fm_bins ?fm2 ! k = fm_bins fm ! k"
    using s(9) by (simp_all add: after_split_def)
  moreover have "fm_bins ?fm2 ! j = fm_bins fm ! j @ [ln, rn]" using i I(9) by (simp add: after_split_def)
  ultimately show thesis using that n(1,2,4,5) s(2-4) fresh(1,2) by blast
qed

subsection \<open>No two free buddies\<close>

text \<open>
  Coalescing is complete: two buddies are never both free. While a block is being
  split, the halves \<open>x\<close> and its buddy are the one exception.
\<close>

definition coalesced :: "ptr \<Rightarrow> (ptr \<rightharpoonup> frame) \<Rightarrow> bool" where
  "coalesced x F \<longleftrightarrow> (\<forall>f fr br. F f = Some fr \<longrightarrow> f_status fr = FRAME_DEALLOC \<longrightarrow> f_buddy fr \<noteq> NULL \<longrightarrow>
     F (f_buddy fr) = Some br \<longrightarrow> f_status br = FRAME_DEALLOC \<longrightarrow> f = x \<or> f_buddy fr = x)"

lemma coalescedD:
  "coalesced x F \<Longrightarrow> F f = Some fr \<Longrightarrow> f_status fr = FRAME_DEALLOC \<Longrightarrow> f_buddy fr \<noteq> NULL \<Longrightarrow>
   F (f_buddy fr) = Some br \<Longrightarrow> f_status br = FRAME_DEALLOC \<Longrightarrow> f = x \<or> f_buddy fr = x"
  unfolding coalesced_def by blast

text \<open>If the exception stops being free, there is none; nor does a block that is not free add one.\<close>

lemma coalesced_retype:
  assumes "coalesced x F" "F x = Some fr" "st \<noteq> FRAME_DEALLOC"
  shows "coalesced NULL (F(x \<mapsto> fr\<lparr>f_status := st\<rparr>))"
  unfolding coalesced_def
proof (intro allI impI)
  fix f gr br assume f: "(F(x \<mapsto> fr\<lparr>f_status := st\<rparr>)) f = Some gr" "f_status gr = FRAME_DEALLOC" "f_buddy gr \<noteq> NULL"
    "(F(x \<mapsto> fr\<lparr>f_status := st\<rparr>)) (f_buddy gr) = Some br" "f_status br = FRAME_DEALLOC"
  then have "f \<noteq> x" "f_buddy gr \<noteq> x" using assms(3) by auto
  then show "f = NULL \<or> f_buddy gr = NULL" using coalescedD [OF assms(1), of f gr br] f by auto
qed

lemma coalesced_any: "coalesced NULL F \<Longrightarrow> F NULL = None \<Longrightarrow> coalesced x F"
  unfolding coalesced_def by (metis option.distinct(1))

text \<open>A block becomes free whose buddy is not: nothing to coalesce.\<close>

lemma coalesced_free:
  assumes "coalesced NULL F" "links h F" "F f = Some fr"
    and "\<And>br. f_buddy fr \<noteq> NULL \<Longrightarrow> F (f_buddy fr) = Some br \<Longrightarrow> f_status br \<noteq> FRAME_DEALLOC"
  shows "coalesced NULL (F(f \<mapsto> fr\<lparr>f_status := FRAME_DEALLOC\<rparr>))"
  unfolding coalesced_def
proof (intro allI impI)
  let ?F = "F(f \<mapsto> fr\<lparr>f_status := FRAME_DEALLOC\<rparr>)"
  fix g gr br assume g: "?F g = Some gr" "f_status gr = FRAME_DEALLOC" "f_buddy gr \<noteq> NULL"
    "?F (f_buddy gr) = Some br" "f_status br = FRAME_DEALLOC"
  have nb: "f_buddy fr \<noteq> f" if "f_buddy fr \<noteq> NULL" using linksD(3) [OF assms(2,3) that] by (auto simp: halves_def)
  show "g = NULL \<or> f_buddy gr = NULL"
  proof (cases "g = f")
    case True
    then show ?thesis using g nb assms(4) by auto
  next
    case False
    then have Fg: "F g = Some gr" using g(1) by simp
    show ?thesis
    proof (cases "f_buddy gr = f")
      case True
      have "f_buddy fr = g" using linksD(3) [OF assms(2) Fg g(3)] True assms(3) by (auto simp: halves_def)
      moreover have "g \<noteq> NULL" by (rule linksD(1) [OF assms(2) Fg])
      ultimately show ?thesis using assms(4) [of gr] Fg g(2) by simp
    next
      case False
      then show ?thesis using coalescedD [OF assms(1) Fg] g by auto
    qed
  qed
qed

lemma coalesced_less: "coalesced NULL F \<Longrightarrow> coalesced NULL (F(f := None, b := None))"
  unfolding coalesced_def by (auto split: if_splits)

lemma coalesced_split:
  assumes "coalesced x F" "links None F" "F x = Some pr" "f_status pr = FRAME_DEALLOC"
    and "F l = None" "F r = None" "l \<noteq> r"
  shows "coalesced l (F(x \<mapsto> pr\<lparr>f_status := FRAME_PARENT\<rparr>, l \<mapsto> half False pr j r x, r \<mapsto> half True pr j l x))"
  unfolding coalesced_def
proof (intro allI impI)
  let ?F = "F(x \<mapsto> pr\<lparr>f_status := FRAME_PARENT\<rparr>, l \<mapsto> half False pr j r x, r \<mapsto> half True pr j l x)"
  fix g gr br assume g: "?F g = Some gr" "f_status gr = FRAME_DEALLOC" "f_buddy gr \<noteq> NULL"
    "?F (f_buddy gr) = Some br" "f_status br = FRAME_DEALLOC"
  show "g = l \<or> f_buddy gr = l"
  proof (cases "g = l \<or> g = r")
    case True
    then show ?thesis using g(1) by auto
  next
    case False
    then have Fg: "F g = Some gr" "g \<noteq> x" using g(1,2) assms(5,6) by (auto split: if_splits)
    obtain br' where b: "F (f_buddy gr) = Some br'" using linksD(3) [OF assms(2) Fg(1) g(3)] by (auto simp: halves_def)
    then have "f_buddy gr \<noteq> l" "f_buddy gr \<noteq> r" using assms(5,6) by auto
    moreover have "f_buddy gr \<noteq> x" using g(4,5) calculation assms(5,6) by auto
    ultimately have "F (f_buddy gr) = Some br" using g(4) by simp
    then show ?thesis using coalescedD [OF assms(1) Fg(1) g(2,3) _ g(5)] Fg(2) \<open>f_buddy gr \<noteq> x\<close> by blast
  qed
qed

subsection \<open>\<open>request_split\<close>\<close>

lemma alloc_blocks_cong:
  assumes "\<And>g gr. f_status gr = FRAME_ALLOC \<Longrightarrow> frames fm' g = Some gr \<longleftrightarrow> frames fm g = Some gr"
  shows "alloc_blocks fm' = alloc_blocks fm"
  using assms unfolding alloc_blocks_def by blast

lemma alloc_blocks_split:
  assumes "frames fm' = (frames fm)(p \<mapsto> pr\<lparr>f_status := FRAME_PARENT\<rparr>, l \<mapsto> half False pr j r p, r \<mapsto> half True pr j l p)"
    and "frames fm p = Some pr" "f_status pr = FRAME_DEALLOC" "frames fm l = None" "frames fm r = None"
  shows "alloc_blocks fm' = alloc_blocks fm"
  by (rule alloc_blocks_cong) (use assms in \<open>auto split: if_splits\<close>)

lemma split_bin_coalesced:
  assumes inv: "fm_inv None M fm" and al: "malloc_room al" and i: "i < unat (fm_num_bins fm)" "i = Suc j"
    and b: "fm_bins fm ! i = pn # b" "fm_bins fm ! j = []" "\<And>p. fnodes fm pn = Some p \<Longrightarrow> coalesced p (frames fm)"
  shows "\<exists>fm' ln rn l. split_block al junk i fm = Some (0, fm') \<and> fm_inv None M fm' \<and>
    alloc_blocks fm' = alloc_blocks fm \<and> fm_num_bins fm' = fm_num_bins fm \<and> fm_m fm' = fm_m fm \<and>
    (\<forall>k < j. fm_bins fm' ! k = fm_bins fm ! k) \<and>
    fm_bins fm' ! j = [ln, rn] \<and> fnodes fm' ln = Some l \<and> coalesced l (frames fm')"
proof -
  note l = fm_invD(12) [OF inv]
  obtain p pr l r ln rn fm' where s: "split_block al junk i fm = Some (0, fm')" "fm_inv None M fm'"
    "fnodes fm pn = Some p" "frames fm p = Some pr" "f_status pr = FRAME_DEALLOC" "f_i pr = i"
    "frames fm l = None" "frames fm r = None" "l \<noteq> r" "l \<noteq> NULL" "r \<noteq> NULL"
    "frames fm' = (frames fm)(p \<mapsto> pr\<lparr>f_status := FRAME_PARENT\<rparr>, l \<mapsto> half False pr j r p, r \<mapsto> half True pr j l p)"
    "fm_bins fm' ! j = fm_bins fm ! j @ [ln, rn]" "fnodes fm' ln = Some l"
    "fm_num_bins fm' = fm_num_bins fm" "fm_m fm' = fm_m fm" "\<forall>k < j. fm_bins fm' ! k = fm_bins fm ! k"
    by (rule split_block_ok [OF inv al i b(1)])
  have "coalesced l (frames fm')"
    unfolding s(12) by (rule coalesced_split [OF b(3) [OF s(3)] l s(4,5,7,8,9)])
  moreover have "alloc_blocks fm' = alloc_blocks fm" by (rule alloc_blocks_split [OF s(12,4,5,7,8)])
  ultimately show ?thesis using s(1,2,13,14,15,16,17) b(2) by auto
qed

lemma request_split_ok:
  assumes inv: "fm_inv None M fm" and al: "malloc_room al" and co: "coalesced NULL (frames fm)"
  shows "i = Suc j \<Longrightarrow> j < unat (fm_num_bins fm) \<Longrightarrow> fm_bins fm ! j = [] \<Longrightarrow>
    (\<exists>r < 0. request_split al junk i fm = Some (r, fm) \<and> (\<forall>k \<ge> i. k < unat (fm_num_bins fm) \<longrightarrow> fm_bins fm ! k = [])) \<or>
    (\<exists>fm' ln rn l. request_split al junk i fm = Some (0, fm') \<and> fm_inv None M fm' \<and>
      alloc_blocks fm' = alloc_blocks fm \<and> fm_num_bins fm' = fm_num_bins fm \<and> fm_m fm' = fm_m fm \<and>
      (\<forall>k < j. fm_bins fm' ! k = fm_bins fm ! k) \<and>
      fm_bins fm' ! j = [ln, rn] \<and> fnodes fm' ln = Some l \<and> coalesced l (frames fm'))"
proof (induction "unat (fm_num_bins fm) - i" arbitrary: i j)
  case 0
  then have "request_split al junk i fm = Some (-1, fm)" by (simp add: request_split.simps)
  then show ?case using 0 by auto
next
  case (Suc n)
  note I = fm_invD [OF inv]
  have i: "i < unat (fm_num_bins fm)" "i \<noteq> 0" using Suc.hyps(2) Suc.prems(1) by simp_all
  have N: "frames fm NULL = None" using linksD(1) [OF I(12)] by fastforce
  have bin: "get_bin i fm = Some (fm_bins fm ! i)" using i I(9) by (simp add: get_bin_def)
  show ?case
  proof (cases "fm_bins fm ! i")
    case (Cons pn b)
    have "request_split al junk i fm = split_block al junk i fm"
      using i bin Cons by (simp add: request_split.simps)
    then show ?thesis
      using split_bin_coalesced [OF inv al i(1) Suc.prems(1) Cons Suc.prems(3) coalesced_any [OF co N]] by auto
  next
    case Nil
    have unf: "request_split al junk i fm = do { (r, fm) \<leftarrow> request_split al junk (i + 1) fm;
        if r < 0 then Some (-2, fm) else split_block al junk i fm }"
      using i bin Nil by (subst request_split.simps) simp
    have n: "n = unat (fm_num_bins fm) - (i + 1)" using Suc.hyps(2) by simp
    have i1: "i + 1 = Suc i" by simp
    from Suc.hyps(1) [OF n i1 i(1) Nil] show ?thesis
    proof (elim disjE exE conjE)
      fix r assume r: "r < (0 :: int)" "request_split al junk (i + 1) fm = Some (r, fm)"
        "\<forall>k \<ge> i + 1. k < unat (fm_num_bins fm) \<longrightarrow> fm_bins fm ! k = []"
      then have "\<forall>k \<ge> i. k < unat (fm_num_bins fm) \<longrightarrow> fm_bins fm ! k = []"
        using Nil by (metis Suc_eq_plus1 Suc_leI le_neq_implies_less)
      then show ?thesis using unf r by auto
    next
      fix fm1 ln rn l assume s: "request_split al junk (i + 1) fm = Some (0, fm1)" "fm_inv None M fm1"
        "alloc_blocks fm1 = alloc_blocks fm" "fm_num_bins fm1 = fm_num_bins fm" "fm_m fm1 = fm_m fm"
        "\<forall>k < i. fm_bins fm1 ! k = fm_bins fm ! k"
        "fm_bins fm1 ! i = [ln, rn]" "fnodes fm1 ln = Some l" "coalesced l (frames fm1)"
      have i1: "i < unat (fm_num_bins fm1)" "fm_bins fm1 ! j = []" using i s(4,6) Suc.prems by simp_all
      have co1: "coalesced p (frames fm1)" if "fnodes fm1 ln = Some p" for p using that s(8,9) by simp
      obtain fm2 ln2 rn2 l2 where t: "split_block al junk i fm1 = Some (0, fm2)" "fm_inv None M fm2"
        "alloc_blocks fm2 = alloc_blocks fm1" "fm_num_bins fm2 = fm_num_bins fm1" "fm_m fm2 = fm_m fm1"
        "\<forall>k < j. fm_bins fm2 ! k = fm_bins fm1 ! k"
        "fm_bins fm2 ! j = [ln2, rn2]" "fnodes fm2 ln2 = Some l2" "coalesced l2 (frames fm2)"
        using split_bin_coalesced [OF s(2) al i1(1) Suc.prems(1) s(7) i1(2) co1, of junk] by blast
      have "request_split al junk i fm = Some (0, fm2)" using unf s(1) t(1) by simp
      moreover have "\<forall>k < j. fm_bins fm2 ! k = fm_bins fm ! k" using t(6) s(6) Suc.prems(1) by simp
      ultimately show ?thesis using t s(3-5) by auto
    qed
  qed
qed

end
