(* ===== verification/FrameManagerCorrect.thy ===== *)
theory FrameManagerCorrect
  imports FrameManagerSplit
begin

text \<open>
  Every operation of the frame manager keeps the invariant \<open>fm_good\<close>, never panics
  and always returns, for every allocator with room for the objects it needs. The
  client's view is the set of allocated blocks: an address and the number of pages
  as a power of two.
\<close>

subsection \<open>Freeing a block\<close>

text \<open>A leaf \<open>f\<close> that is allocated, or a parent that has lost its children, becomes free.\<close>

definition del_if :: "bool \<Rightarrow> u32 \<Rightarrow> (u32 \<rightharpoonup> ptr) \<Rightarrow> (u32 \<rightharpoonup> ptr)" where
  "del_if b k T = (if b then T(k := None) else T)"

lemma tmap_del_if:
  assumes "tmap_ok st key T L" "L n = Some fr" "\<not> has_status st x"
  shows "tmap_ok st key (del_if (f_status fr = st) (key fr) T) (L(n := x))"
  using tmap_del [OF assms(1,2) _ assms(3)] tmap_keep [OF assms(1) _ assms(3)] assms(2)
  by (simp add: del_if_def)

lemma fm_inv_free:
  assumes inv: "fm_inv h M fm" and h: "h = None \<or> h = Some f"
    and n: "fnodes fm n = Some f" "frames fm f = Some fr" and fr: "f_status fr \<noteq> FRAME_DEALLOC" "leaf h f fr"
    and a: "ht_ok a" "ht_map a = del_if (f_status fr = FRAME_ALLOC) (f_addr fr) (ht_map (fm_allocated fm))"
    and q: "ht_ok q" "ht_map q = del_if (f_status fr = FRAME_PARENT) (parent_key fr) (ht_map (fm_parents fm))"
    and d: "ht_ok d" "ht_map d = (ht_map (fm_deallocated fm))(f_addr fr \<mapsto> n)"
    and fm': "frames fm' = (frames fm)(f \<mapsto> fr\<lparr>f_status := FRAME_DEALLOC\<rparr>)" "fnodes fm' = fnodes fm"
      "fm_allocated fm' = a" "fm_parents fm' = q" "fm_deallocated fm' = d" "fm_num_bins fm' = fm_num_bins fm"
      "fm_bins fm' = (fm_bins fm)[f_i fr := fm_bins fm ! f_i fr @ [n]]"
  shows "fm_inv None M fm'"
proof -
  note I = fm_invD [OF inv]
  let ?L = "frames fm \<circ>\<^sub>m fnodes fm" and ?fr = "fr\<lparr>f_status := FRAME_DEALLOC\<rparr>"
  have L: "?L n = Some fr" using n by (simp add: map_comp_def)
  have L': "frames fm' \<circ>\<^sub>m fnodes fm' = ?L(n \<mapsto> ?fr)" unfolding fm' by (rule comp_retype [OF I(2) n(1)])
  have j: "f_i fr < unat (fm_num_bins fm)" using I(1) n(2) by (auto simp: heap_ok_def frame_wf_def)
  note H = heap_retype [OF I(1) n(2) fr(2) _ h, of FRAME_DEALLOC]
  have A: "tmap_ok FRAME_ALLOC f_addr (ht_map a) (?L(n \<mapsto> ?fr))"
    unfolding a(2) by (rule tmap_del_if [OF I(6) L]) simp
  have P: "tmap_ok FRAME_PARENT parent_key (ht_map q) (?L(n \<mapsto> ?fr))"
    unfolding q(2) by (rule tmap_del_if [OF I(8) L]) simp
  have "ht_map (fm_deallocated fm) (f_addr fr) = None"
    by (rule leaf_key_fresh [OF I(7,13) n(2) fr(2,1)]) simp
  then have D: "tmap_ok FRAME_DEALLOC f_addr (ht_map d) (?L(n \<mapsto> ?fr))"
    using tmap_put [OF I(7), of n ?fr] L fr by (simp add: d)
  have B: "bin_ok k (fm_bins fm' ! k) (?L(n \<mapsto> ?fr))" if k: "k < unat (fm_num_bins fm)" for k
  proof (cases "k = f_i fr")
    case True
    have "bin_ok k (fm_bins fm ! k @ [n]) (?L(n \<mapsto> ?fr))"
      by (rule bin_put [OF I(10) [OF k]]) (use L fr(1) True in auto)
    then show ?thesis using True j I(9) by (simp add: fm')
  next
    case False
    have "bin_ok k (fm_bins fm ! k) (?L(n \<mapsto> ?fr))"
      by (rule bin_keep [OF I(10) [OF k]]) (use L fr(1) False in auto)
    then show ?thesis using False by (simp add: fm')
  qed
  show ?thesis
    using H I(9,11) nodes_ok_retype [OF I(2) n(2)] A P D B a(1) q(1) d(1) L'
    by (simp add: fm_inv_def fm')
qed

text \<open>Two buddies are merged: the frames and nodes of both are gone, their parent has no children.\<close>

lemma fm_inv_merge:
  assumes inv: "fm_inv h M fm" and h: "h = None \<or> h = Some f"
    and n: "fnodes fm n = Some f" "frames fm f = Some fr" and fr: "f_status fr \<noteq> FRAME_DEALLOC" "leaf h f fr"
    and b: "f_buddy fr \<noteq> NULL" "fnodes fm bn = Some (f_buddy fr)" "frames fm (f_buddy fr) = Some br"
      "f_status br = FRAME_DEALLOC"
    and a: "ht_ok a" "ht_map a = del_if (f_status fr = FRAME_ALLOC) (f_addr fr) (ht_map (fm_allocated fm))"
    and q: "ht_ok q" "ht_map q = del_if (f_status fr = FRAME_PARENT) (parent_key fr) (ht_map (fm_parents fm))"
    and d: "ht_ok d" "ht_map d = (ht_map (fm_deallocated fm))(f_addr br := None)"
    and fm': "frames fm' = (frames fm)(f := None, f_buddy fr := None)"
      "fnodes fm' = (fnodes fm)(n := None, bn := None)"
      "fm_allocated fm' = a" "fm_parents fm' = q" "fm_deallocated fm' = d" "fm_num_bins fm' = fm_num_bins fm"
      "fm_bins fm' = (fm_bins fm)[f_i fr := remove1 bn (fm_bins fm ! f_i fr)]"
  shows "fm_inv (Some (f_parent fr)) M fm'"
proof -
  note I = fm_invD [OF inv]
  let ?L = "frames fm \<circ>\<^sub>m fnodes fm"
  have hv: "f_buddy fr \<noteq> f" "f_i br = f_i fr"
    using linksD(3) [OF I(12) n(2) b(1)] b(3) by (auto simp: halves_def)
  have nb: "n \<noteq> bn" using n(1) b(2) hv(1) by auto
  have L: "?L n = Some fr" "?L bn = Some br" using n b by (simp_all add: map_comp_def)
  have N1: "nodes_ok ((frames fm)(f := None)) ((fnodes fm)(n := None))" by (rule nodes_ok_free [OF I(2) n(1)])
  have b1: "((fnodes fm)(n := None)) bn = Some (f_buddy fr)" using b(2) nb by simp
  have N2: "nodes_ok (frames fm') (fnodes fm')" unfolding fm' by (rule nodes_ok_free [OF N1 b1])
  have L': "frames fm' \<circ>\<^sub>m fnodes fm' = ?L(n := None, bn := None)"
    unfolding fm' comp_free [OF N1 b1] comp_free [OF I(2) n(1)] ..
  have L1: "(?L(n := None)) bn = Some br" using L(2) nb by simp
  have A: "tmap_ok FRAME_ALLOC f_addr (ht_map a) (?L(n := None, bn := None))"
    unfolding a(2) by (rule tmap_keep [OF tmap_del_if [OF I(6) L(1)]]) (use L1 b(4) in simp_all)
  have P: "tmap_ok FRAME_PARENT parent_key (ht_map q) (?L(n := None, bn := None))"
    unfolding q(2) by (rule tmap_keep [OF tmap_del_if [OF I(8) L(1)]]) (use L1 b(4) in simp_all)
  have D1: "tmap_ok FRAME_DEALLOC f_addr (ht_map (fm_deallocated fm)) (?L(n := None))"
    by (rule tmap_keep [OF I(7)]) (use L(1) fr(1) in simp_all)
  have D: "tmap_ok FRAME_DEALLOC f_addr (ht_map d) (?L(n := None, bn := None))"
    unfolding d(2) by (rule tmap_del [OF D1 L1 b(4)]) simp
  have j: "f_i fr < unat (fm_num_bins fm)" using I(1) n(2) by (auto simp: heap_ok_def frame_wf_def)
  have B: "bin_ok k (fm_bins fm' ! k) (?L(n := None, bn := None))" if k: "k < unat (fm_num_bins fm)" for k
  proof -
    have 1: "bin_ok k (fm_bins fm ! k) (?L(n := None))" by (rule bin_keep [OF I(10) [OF k]]) (use L(1) fr(1) in auto)
    show ?thesis
      using bin_del [OF 1, of None bn] bin_keep [OF 1, of bn None] L1 hv(2) j I(9)
      by (cases "k = f_i fr") (simp_all add: fm')
  qed
  have b4: "f_status br \<noteq> FRAME_PARENT" using b(4) by simp
  note H = heap_merge [OF I(1) h n(2) fr(2) b(1,3) b4]
  show ?thesis using H I(9,11) N2 A P D B a(1) q(1) d(1) L' by (simp add: fm_inv_def fm')
qed

subsection \<open>\<open>request_join\<close>\<close>

lemma alloc_blocks_drop:
  assumes "frames fm' = (frames fm)(p := None, b := None)"
    and "\<And>fr. frames fm p = Some fr \<Longrightarrow> f_status fr \<noteq> FRAME_ALLOC" "\<And>fr. frames fm b = Some fr \<Longrightarrow> f_status fr \<noteq> FRAME_ALLOC"
  shows "alloc_blocks fm' = alloc_blocks fm"
  by (rule alloc_blocks_cong) (use assms in \<open>auto split: if_splits\<close>)

lemma alloc_blocks_retype:
  assumes "frames fm' = (frames fm)(p \<mapsto> fr\<lparr>f_status := st\<rparr>)"
    and "frames fm p = Some fr" "f_status fr \<noteq> FRAME_ALLOC" "st \<noteq> FRAME_ALLOC"
  shows "alloc_blocks fm' = alloc_blocks fm"
  by (rule alloc_blocks_cong) (use assms in \<open>auto split: if_splits\<close>)

text \<open>The state \<open>fm'\<close> is a good successor of \<open>fm\<close> for a client that has the blocks \<open>B\<close>.\<close>

definition joined :: "nat set \<Rightarrow> (u32 \<times> nat) set \<Rightarrow> frame_manager \<Rightarrow> frame_manager \<Rightarrow> bool" where
  "joined M B fm fm' \<longleftrightarrow> fm_inv None M fm' \<and> coalesced NULL (frames fm') \<and> alloc_blocks fm' = B \<and>
     fm_num_bins fm' = fm_num_bins fm \<and> fm_m fm' = fm_m fm"

lemma held_frame:
  assumes "fm_inv (Some p) M fm"
  obtains n pr where "p \<noteq> NULL" "frames fm p = Some pr" "fnodes fm n = Some p" "f_status pr = FRAME_PARENT"
    "n \<noteq> NULL" "ht_map (fm_parents fm) (parent_key pr) = Some n"
proof -
  note I = fm_invD [OF assms]
  obtain pr where pr: "frames fm p = Some pr" "f_status pr = FRAME_PARENT" using I(1) by (auto simp: heap_ok_def)
  obtain n where n: "fnodes fm n = Some p" using nodes_okD(3) [OF I(2) pr(1)] by blast
  have "(frames fm \<circ>\<^sub>m fnodes fm) n = Some pr" using n pr(1) by (simp add: map_comp_def)
  then have "ht_map (fm_parents fm) (parent_key pr) = Some n" by (rule tmap_lookup [OF I(8) _ pr(2)])
  moreover have "n \<noteq> NULL" using nodes_okD(1) [OF I(2)] n by auto
  ultimately show thesis using that linksD(1) [OF I(12) pr(1)] pr n by blast
qed

text \<open>The buddy that is free, with its node in the table and in its bin.\<close>

lemma free_buddy:
  assumes inv: "fm_inv h M fm" and f: "frames fm f = Some fr" "f_buddy fr \<noteq> NULL"
    and b: "frames fm (f_buddy fr) = Some br" "f_status br = FRAME_DEALLOC"
  obtains bn where "fnodes fm bn = Some (f_buddy fr)" "ht_map (fm_deallocated fm) (f_addr br) = Some bn"
    "bn \<in> set (fm_bins fm ! f_i fr)" "f_i br = f_i fr" "f_parent br = f_parent fr" "f_parent fr \<noteq> NULL"
    "f_i fr < length (fm_bins fm)" "f_buddy br = f" "f_buddy fr \<noteq> f"
proof -
  note I = fm_invD [OF inv]
  obtain br' pr where h: "frames fm (f_buddy fr) = Some br'" "f_buddy fr \<noteq> f" "f_buddy br' = f" "f_i br' = f_i fr"
    "f_parent br' = f_parent fr" "f_parent fr \<noteq> NULL" "frames fm (f_parent fr) = Some pr"
    "f_status pr = FRAME_PARENT" "h \<noteq> Some (f_parent fr)" "f_i pr = Suc (f_i fr)"
    "frange fr \<union> frange br' = frange pr" by (rule halvesE [OF I(12) f])
  have br: "br' = br" using h(1) b(1) by simp
  obtain bn where bn: "fnodes fm bn = Some (f_buddy fr)" using nodes_okD(3) [OF I(2) b(1)] by blast
  have L: "(frames fm \<circ>\<^sub>m fnodes fm) bn = Some br" using bn b(1) by (simp add: map_comp_def)
  have j: "f_i fr < unat (fm_num_bins fm)" using I(1) f(1) by (auto simp: heap_ok_def frame_wf_def)
  have "bn \<in> set (fm_bins fm ! f_i fr)" using I(10) [OF j] L b(2) h(4) br by (auto simp: bin_ok_def)
  moreover have "ht_map (fm_deallocated fm) (f_addr br) = Some bn" by (rule tmap_lookup [OF I(7) L b(2)])
  ultimately show thesis using that bn h br j I(9) by simp
qed

lemma join_leaf_ok:
  assumes inv: "fm_inv (Some p) M fm" and al: "malloc_room al" and co: "coalesced NULL (frames fm)"
    and p: "frames fm p = Some pr"
    and nb: "\<And>br. f_buddy pr \<noteq> NULL \<Longrightarrow> frames fm (f_buddy pr) = Some br \<Longrightarrow> f_status br \<noteq> FRAME_DEALLOC"
  shows "\<exists>fm'. join_leaf al p pr fm = Some (0, fm') \<and> joined M (alloc_blocks fm) fm fm'"
proof -
  note I = fm_invD [OF inv]
  obtain n pr' where "p \<noteq> NULL" "frames fm p = Some pr'" and n: "fnodes fm n = Some p" "f_status pr' = FRAME_PARENT"
    "n \<noteq> NULL" "ht_map (fm_parents fm) (parent_key pr') = Some n" by (rule held_frame [OF inv])
  then have pr': "pr' = pr" using p by simp
  have lf: "leaf (Some p) p pr" "f_status pr \<noteq> FRAME_DEALLOC" "f_status pr \<noteq> FRAME_ALLOC" using n(2) pr' by (simp_all add: leaf_def)
  obtain q where q: "tbl_remove (fm_parents fm) (parent_key pr) = Some (0, Some n, q)" "ht_ok q"
    "ht_map q = (ht_map (fm_parents fm))(parent_key pr := None)" using tbl_remove_found [OF I(5)] n(4) pr' by blast
  have "ht_map (fm_deallocated fm) (f_addr pr) = None"
    by (rule leaf_key_fresh [OF I(7,13) p lf(1,2)]) simp
  then obtain d where d: "tbl_put al (fm_mcalls fm) (fm_deallocated fm) (f_addr pr) n = Some (0, d)" "ht_ok d"
    "ht_map d = (ht_map (fm_deallocated fm))(f_addr pr \<mapsto> n)" using tbl_put_ok [OF al I(4)] by blast
  have j: "f_i pr < length (fm_bins fm)" using I(1,9) p by (auto simp: heap_ok_def frame_wf_def)
  let ?fm = "fm\<lparr>fm_parents := q, fm_deallocated := d, fm_mcalls := fm_mcalls fm + 2,
    frames := (frames fm)(p \<mapsto> pr\<lparr>f_status := FRAME_DEALLOC\<rparr>),
    fm_bins := (fm_bins fm)[f_i pr := fm_bins fm ! f_i pr @ [n]]\<rparr>"
  have "join_leaf al p pr fm = Some (0, ?fm)"
    using q(1) d(1) p n(3) j
    by (simp add: join_leaf_def remove_parents_def put_deallocated_def set_status_def bin_link_last_def get_bin_def c_assert_def)
  moreover have "fm_inv None M ?fm"
    by (rule fm_inv_free [OF inv _ n(1) p lf(2,1) I(3) _ q(2) _ d(2,3)])
      (use q(3) lf n(2) pr' in \<open>simp_all add: del_if_def\<close>)
  moreover have "coalesced NULL (frames ?fm)" using coalesced_free [OF co I(12) p nb] by simp
  moreover have "alloc_blocks ?fm = alloc_blocks fm"
    by (rule alloc_blocks_retype [where fr = pr and p = p and st = FRAME_DEALLOC]) (use p lf in simp_all)
  ultimately show ?thesis by (auto simp: joined_def)
qed

lemma request_join_ok:
  assumes al: "malloc_room al"
  shows "fm_inv (Some p) M fm \<Longrightarrow> coalesced NULL (frames fm) \<Longrightarrow>
    \<exists>fm'. request_join al p fm = Some (0, fm') \<and> joined M (alloc_blocks fm) fm fm'"
proof (induction "card (dom (frames fm))" arbitrary: p fm rule: less_induct)
  case less
  note inv = less.prems(1) and co = less.prems(2)
  note I = fm_invD [OF inv]
  obtain n pr where n: "p \<noteq> NULL" "frames fm p = Some pr" "fnodes fm n = Some p" "f_status pr = FRAME_PARENT"
    "n \<noteq> NULL" "ht_map (fm_parents fm) (parent_key pr) = Some n" by (rule held_frame [OF inv])
  show ?case
  proof (cases "\<exists>br. f_buddy pr \<noteq> NULL \<and> frames fm (f_buddy pr) = Some br \<and> f_status br = FRAME_DEALLOC")
    case False
    have b: "\<exists>br. frames fm (f_buddy pr) = Some br" if "f_buddy pr \<noteq> NULL"
      using linksD(3) [OF I(12) n(2) that] by (auto simp: halves_def)
    have "request_join al p fm = join_leaf al p pr fm"
    proof (cases "f_buddy pr = NULL")
      case True
      then show ?thesis using n by (subst request_join.simps) (simp add: c_assert_def)
    next
      case ne: False
      obtain br where "frames fm (f_buddy pr) = Some br" using b [OF ne] by blast
      moreover have "f_status br \<noteq> FRAME_DEALLOC" using False ne calculation by blast
      ultimately show ?thesis using n ne by (subst request_join.simps) (simp add: c_assert_def)
    qed
    then show ?thesis using join_leaf_ok [OF inv al co n(2)] False by auto
  next
    case True
    then obtain br where b: "f_buddy pr \<noteq> NULL" "frames fm (f_buddy pr) = Some br" "f_status br = FRAME_DEALLOC" by blast
    obtain bn where bn: "fnodes fm bn = Some (f_buddy pr)" "ht_map (fm_deallocated fm) (f_addr br) = Some bn"
      "bn \<in> set (fm_bins fm ! f_i pr)" "f_i br = f_i pr" "f_parent br = f_parent pr" "f_parent pr \<noteq> NULL"
      "f_i pr < length (fm_bins fm)" "f_buddy br = p" "f_buddy pr \<noteq> p" by (rule free_buddy [OF inv n(2) b])
    obtain q where q: "tbl_remove (fm_parents fm) (parent_key pr) = Some (0, Some n, q)" "ht_ok q"
      "ht_map q = (ht_map (fm_parents fm))(parent_key pr := None)" using tbl_remove_found [OF I(5) n(6)] by blast
    obtain d where d: "tbl_remove (fm_deallocated fm) (f_addr br) = Some (0, Some bn, d)" "ht_ok d"
      "ht_map d = (ht_map (fm_deallocated fm))(f_addr br := None)" using tbl_remove_found [OF I(4) bn(2)] by blast
    let ?fm = "fm\<lparr>fm_parents := q, fm_deallocated := d,
      fm_bins := (fm_bins fm)[f_i pr := remove1 bn (fm_bins fm ! f_i pr)],
      frames := (frames fm)(f_buddy pr := None, p := None), fnodes := (fnodes fm)(bn := None, n := None)\<rparr>"
    have nb: "n \<noteq> bn" using n(3) bn(1,9) by auto
    have "fm_inv (Some (f_parent pr)) M ?fm"
      by (rule fm_inv_merge [OF inv _ n(3,2) _ _ b(1) bn(1) b(2,3) I(3) _ q(2) _ d(2,3)])
        (use q(3) n(4) nb bn(9) in \<open>simp_all add: del_if_def leaf_def fun_upd_twist\<close>)
    moreover have "coalesced NULL (frames ?fm)" using coalesced_less [OF co] by simp
    moreover have "card (dom (frames ?fm)) < card (dom (frames fm))"
      by (rule psubset_card_mono) (use heap_card(1) [OF I(1)] n(2) in auto)
    ultimately obtain fm' where j: "request_join al (f_parent pr) ?fm = Some (0, fm')"
      "joined M (alloc_blocks ?fm) ?fm fm'" using less.hyps by blast
    have "alloc_blocks ?fm = alloc_blocks fm"
      by (rule alloc_blocks_drop [where p = "f_buddy pr" and b = p]) (use b n in simp_all)
    then have "joined M (alloc_blocks fm) fm fm'" using j(2) by (simp add: joined_def)
    moreover have "request_join al p fm = Some (0, fm')"
      using n b bn q(1) d(1) j(1)
      by (subst request_join.simps)
        (simp add: c_assert_def remove_parents_def remove_deallocated_def bin_unlink_def get_bin_def
          free_frame_def free_fnode_def Let_def)
    ultimately show ?thesis by blast
  qed
qed

subsection \<open>The client's view\<close>

definition fm_good :: "nat set \<Rightarrow> frame_manager \<Rightarrow> bool" where
  "fm_good M fm \<longleftrightarrow> fm_inv None M fm \<and> coalesced NULL (frames fm) \<and> fm_m fm = free_mutex \<and>
     0 < unat (fm_num_bins fm) \<and> unat (fm_num_bins fm) \<le> 32"

definition has_free :: "nat \<Rightarrow> frame_manager \<Rightarrow> bool" where
  "has_free j fm \<longleftrightarrow> (\<exists>f fr. frames fm f = Some fr \<and> f_status fr = FRAME_DEALLOC \<and> j \<le> f_i fr)"

lemma fm_goodD:
  assumes "fm_good M fm"
  shows "fm_inv None M fm" "coalesced NULL (frames fm)" "fm_m fm = free_mutex" "0 < unat (fm_num_bins fm)"
    "unat (fm_num_bins fm) \<le> 32"
  using assms by (simp_all only: fm_good_def)

lemma fm_inv_mutex [simp]: "fm_inv h M (fm\<lparr>fm_m := m\<rparr>) = fm_inv h M fm"
  by (simp add: fm_inv_def)

lemma alloc_blocks_mutex [simp]: "alloc_blocks (fm\<lparr>fm_m := m\<rparr>) = alloc_blocks fm"
  by (simp add: alloc_blocks_def)

lemma has_free_mutex [simp]: "has_free j (fm\<lparr>fm_m := m\<rparr>) = has_free j fm"
  by (simp add: has_free_def)

text \<open>Locking and unlocking a mutex that nobody holds.\<close>

lemma fm_lock_free:
  assumes "fm_m fm = free_mutex"
  obtains m where "fm_lock env fm = Some (fm\<lparr>fm_m := m\<rparr>)"
    "\<And>fm'. fm_m fm' = m \<Longrightarrow> fm_unlock env fm' = fm'\<lparr>fm_m := free_mutex\<rparr>"
proof (cases "k_started env")
  case True
  show thesis by (rule that [of "\<lparr>m_lock = 0, m_owner = k_tid env\<rparr>"]) (use True assms in \<open>simp_all add: fm_lock_def fm_unlock_def\<close>)
next
  case False
  show thesis by (rule that [of free_mutex]) (use False assms in \<open>simp_all add: fm_lock_def fm_unlock_def\<close>)
qed

lemma alloc_block_frame:
  assumes "b \<in> alloc_blocks fm"
  obtains f fr where "frames fm f = Some fr" "f_status fr = FRAME_ALLOC" "b = (f_addr fr, f_i fr)" "block_bytes b = frange fr"
  using assms by (auto simp: alloc_blocks_def block_bytes_def frange_def)

lemma alloc_blocks_disjoint:
  assumes "fm_inv None M fm" "b \<in> alloc_blocks fm" "c \<in> alloc_blocks fm" "b \<noteq> c"
  shows "block_bytes b \<inter> block_bytes c = {}"
proof -
  obtain f fr where f: "frames fm f = Some fr" "f_status fr = FRAME_ALLOC" "b = (f_addr fr, f_i fr)" "block_bytes b = frange fr"
    by (rule alloc_block_frame [OF assms(2)])
  obtain g gr where g: "frames fm g = Some gr" "f_status gr = FRAME_ALLOC" "c = (f_addr gr, f_i gr)" "block_bytes c = frange gr"
    by (rule alloc_block_frame [OF assms(3)])
  have "f \<noteq> g" using f g assms(4) by auto
  then show ?thesis
    using laminar_leaves [OF fm_invD(13) [OF assms(1)] f(1) g(1)] f(2,4) g(2,4) by (simp add: leaf_free)
qed

lemma alloc_block_memory:
  assumes "fm_inv None M fm" "b \<in> alloc_blocks fm"
  shows "block_bytes b \<subseteq> M"
proof -
  obtain f fr where f: "frames fm f = Some fr" "f_status fr = FRAME_ALLOC" "block_bytes b = frange fr"
    by (rule alloc_block_frame [OF assms(2)])
  have "leaf None f fr" by (rule leaf_free(2) [OF f(2)])
  then have "frange fr \<subseteq> covered None (frames fm)" using f(1) unfolding covered_def by blast
  then show ?thesis using fm_invD(11) [OF assms(1)] f(3) by simp
qed

lemma free_block_disjoint:
  assumes "fm_inv None M fm" "frames fm f = Some fr" "f_status fr = FRAME_DEALLOC" "b \<in> alloc_blocks fm"
  shows "block_bytes (f_addr fr, f_i fr) \<inter> block_bytes b = {}"
proof -
  obtain g gr where g: "frames fm g = Some gr" "f_status gr = FRAME_ALLOC" "block_bytes b = frange gr"
    by (rule alloc_block_frame [OF assms(4)])
  have "f \<noteq> g" using assms(2,3) g by auto
  then have "frange fr \<inter> frange gr = {}"
    using laminar_leaves [OF fm_invD(13) [OF assms(1)] assms(2) g(1)] assms(3) g(2) by (simp add: leaf_free)
  then show ?thesis using g(3) by (simp add: block_bytes_def frange_def)
qed

lemma block_address_unique:
  assumes "fm_inv None M fm" "(a, i) \<in> alloc_blocks fm" "(a, j) \<in> alloc_blocks fm"
  shows "i = j"
proof (rule ccontr)
  assume "i \<noteq> j"
  then have "block_bytes (a, i) \<inter> block_bytes (a, j) = {}" using alloc_blocks_disjoint [OF assms] by simp
  then show False by (auto simp: block_bytes_def)
qed

lemma has_free_bins:
  assumes inv: "fm_inv None M fm"
  shows "has_free j fm \<longleftrightarrow> (\<exists>k \<ge> j. k < unat (fm_num_bins fm) \<and> fm_bins fm ! k \<noteq> [])"
proof
  assume "has_free j fm"
  then obtain f fr where f: "frames fm f = Some fr" "f_status fr = FRAME_DEALLOC" "j \<le> f_i fr" by (auto simp: has_free_def)
  note I = fm_invD [OF inv]
  have k: "f_i fr < unat (fm_num_bins fm)" using I(1) f(1) by (auto simp: heap_ok_def frame_wf_def)
  obtain n where "fnodes fm n = Some f" using nodes_okD(3) [OF I(2) f(1)] by blast
  then have "n \<in> set (fm_bins fm ! f_i fr)"
    using I(10) [OF k] f by (auto simp: bin_ok_def map_comp_def)
  then show "\<exists>k \<ge> j. k < unat (fm_num_bins fm) \<and> fm_bins fm ! k \<noteq> []" using k f(3) by (intro exI [of _ "f_i fr"]) auto
next
  assume "\<exists>k \<ge> j. k < unat (fm_num_bins fm) \<and> fm_bins fm ! k \<noteq> []"
  then obtain k n where k: "j \<le> k" "k < unat (fm_num_bins fm)" "n \<in> set (fm_bins fm ! k)" by fastforce
  show "has_free j fm" by (rule bin_node [OF inv k(2,3)]) (use k(1) in \<open>auto simp: has_free_def\<close>)
qed

subsection \<open>\<open>fm_alloc\<close>\<close>

lemma unat_TWO_POW: "j < 32 \<Longrightarrow> unat (TWO_POW j) = 2 ^ j"
proof -
  assume "j < 32"
  then have "(2 :: nat) ^ j < 2 ^ 32" by (simp only: power_strict_increasing_iff)
  then have "unat (word_of_nat (2 ^ j) :: u32) = 2 ^ j"
    by (simp only: unat_of_nat len_bit0 len_num1 take_bit_nat_eq_self mult_1_right mult.commute) (simp add: take_bit_nat_eq_self)
  then show "unat (TWO_POW j) = 2 ^ j" by (simp add: TWO_POW_def push_bit_eq_mult)
qed

lemma find_bin_ok:
  assumes "0 < unat np" "unat np \<le> 2 ^ n" "n < 32"
  shows "find_bin np n \<le> n \<and> unat np \<le> 2 ^ find_bin np n \<and> 2 ^ find_bin np n < 2 * unat np"
  using assms
proof (induction n)
  case (Suc n)
  have w: "np \<le> TWO_POW (Suc n)" "np > TWO_POW n \<longleftrightarrow> unat np > 2 ^ n"
    using Suc.prems by (simp_all add: word_le_nat_alt word_less_nat_alt unat_TWO_POW)
  show ?case
  proof (cases "unat np > 2 ^ n")
    case True
    then show ?thesis using w Suc.prems by simp
  next
    case False
    then have "find_bin np n \<le> n \<and> unat np \<le> 2 ^ find_bin np n \<and> 2 ^ find_bin np n < 2 * unat np"
      using Suc by simp
    then show ?thesis using w False by simp
  qed
qed simp

lemma alloc_blocks_take:
  assumes "frames fm' = (frames fm)(f \<mapsto> fr\<lparr>f_status := FRAME_ALLOC\<rparr>)" "frames fm f = Some fr" "f_status fr = FRAME_DEALLOC"
  shows "alloc_blocks fm' = insert (f_addr fr, f_i fr) (alloc_blocks fm)"
  using assms unfolding alloc_blocks_def by (auto split: if_splits) (metis frame_status.distinct(1) option.inject)+

text \<open>Taking the first block of a bin, when at most its buddy pair is uncoalesced.\<close>

lemma take_block_joined:
  assumes inv: "fm_inv None M fm" and al: "malloc_room al" and j: "j < unat (fm_num_bins fm)" "fm_bins fm ! j = n # b"
    and co: "\<And>f. fnodes fm n = Some f \<Longrightarrow> coalesced f (frames fm)"
  obtains a fm' where "take_block al j fm = Some (a, fm')" "joined M (insert (a, j) (alloc_blocks fm)) fm fm'"
    "\<And>c. c \<in> alloc_blocks fm \<Longrightarrow> block_bytes (a, j) \<inter> block_bytes c = {}"
proof -
  obtain f fr fm' where t: "take_block al j fm = Some (f_addr fr, fm')" "fm_inv None M fm'"
    "fnodes fm n = Some f" "frames fm f = Some fr" "f_status fr = FRAME_DEALLOC" "f_i fr = j"
    "frames fm' = (frames fm)(f \<mapsto> fr\<lparr>f_status := FRAME_ALLOC\<rparr>)"
    "fm_num_bins fm' = fm_num_bins fm" "fm_m fm' = fm_m fm"
    using take_block_ok [OF inv al j] by blast
  have "coalesced NULL (frames fm')" unfolding t(7) by (rule coalesced_retype [OF co [OF t(3)] t(4)]) simp
  then have J: "joined M (insert (f_addr fr, j) (alloc_blocks fm)) fm fm'"
    using t(2,8,9) alloc_blocks_take [OF t(7,4,5)] t(6) by (simp add: joined_def)
  show thesis using that [OF t(1) J] free_block_disjoint [OF inv t(4,5)] t(6) by blast
qed

lemma level_unique:
  assumes "x \<le> 2 ^ i" "2 ^ i < 2 * x" "x \<le> 2 ^ j" "2 ^ j < 2 * (x :: nat)"
  shows "i = j"
proof -
  have "(2 :: nat) ^ i < 2 ^ Suc j" "(2 :: nat) ^ j < 2 ^ Suc i" using assms by simp_all
  then have "i < Suc j" "j < Suc i" by (simp_all only: power_strict_increasing_iff)
  then show ?thesis by simp
qed

lemma request_split_fail:
  assumes "length (fm_bins fm) = unat (fm_num_bins fm)"
  shows "0 < i \<Longrightarrow> (\<And>k. i \<le> k \<Longrightarrow> k < unat (fm_num_bins fm) \<Longrightarrow> fm_bins fm ! k = []) \<Longrightarrow>
    \<exists>c < 0. request_split al junk i fm = Some (c, fm)"
proof (induction "unat (fm_num_bins fm) - i" arbitrary: i)
  case 0
  then show ?case by (subst request_split.simps) simp
next
  case (Suc n)
  have i: "i < unat (fm_num_bins fm)" "i \<noteq> 0" "n = unat (fm_num_bins fm) - (i + 1)" using Suc by linarith+
  obtain c where "c < 0" "request_split al junk (i + 1) fm = Some (c, fm)"
    using Suc.hyps(1) [OF i(3)] Suc.prems by auto
  then show ?case using i Suc.prems(2) [of i] assms
    by (subst request_split.simps) (simp add: get_bin_def)
qed

text \<open>The body of \<open>fm_alloc\<close> after its guards, under the lock.\<close>

lemma alloc_body_fail:
  assumes inv: "fm_inv None M fm" and j: "j < unat (fm_num_bins fm)" and free: "\<not> has_free j fm"
  shows "fm_bins fm ! j = [] \<and> (\<exists>c < 0. request_split al junk (j + 1) fm = Some (c, fm))"
proof -
  have e: "fm_bins fm ! k = []" if "j \<le> k" "k < unat (fm_num_bins fm)" for k
    using that has_free_bins [OF inv] free by blast
  then show ?thesis using request_split_fail [OF fm_invD(9) [OF inv], of "j + 1"] j by simp
qed

lemma alloc_body_ok:
  assumes inv: "fm_inv None M fm" and co: "coalesced NULL (frames fm)" and al: "malloc_room al"
    and j: "j < unat (fm_num_bins fm)" and free: "has_free j fm"
  obtains fm1 a fm' where
    "(if fm_bins fm ! j = [] then request_split al junk (j + 1) fm else Some (0, fm)) = Some (0, fm1)"
    "take_block al j fm1 = Some (a, fm')" "joined M (insert (a, j) (alloc_blocks fm)) fm fm'"
    "\<And>c. c \<in> alloc_blocks fm \<Longrightarrow> block_bytes (a, j) \<inter> block_bytes c = {}"
proof (cases "fm_bins fm ! j")
  case (Cons n b)
  have N: "frames fm NULL = None" using linksD(1) [OF fm_invD(12) [OF inv]] by fastforce
  obtain a fm' where "take_block al j fm = Some (a, fm')" "joined M (insert (a, j) (alloc_blocks fm)) fm fm'"
    "\<And>c. c \<in> alloc_blocks fm \<Longrightarrow> block_bytes (a, j) \<inter> block_bytes c = {}"
    by (rule take_block_joined [OF inv al j Cons coalesced_any [OF co N]]) blast
  then show thesis using Cons by (intro that [of fm]) simp_all
next
  case Nil
  obtain k where "j \<le> k" "k < unat (fm_num_bins fm)" "fm_bins fm ! k \<noteq> []" using free has_free_bins [OF inv] by blast
  moreover from this have "j + 1 \<le> k" using Nil by (cases "k = j") simp_all
  ultimately obtain fm1 ln rn l where s: "request_split al junk (j + 1) fm = Some (0, fm1)" "fm_inv None M fm1"
    "alloc_blocks fm1 = alloc_blocks fm" "fm_num_bins fm1 = fm_num_bins fm" "fm_m fm1 = fm_m fm"
    "fm_bins fm1 ! j = [ln, rn]" "fnodes fm1 ln = Some l" "coalesced l (frames fm1)"
    using request_split_ok [OF inv al co, of "j + 1" j junk] j Nil by auto
  have j1: "j < unat (fm_num_bins fm1)" using j s(4) by simp
  have co1: "coalesced f (frames fm1)" if "fnodes fm1 ln = Some f" for f using that s(7,8) by simp
  obtain a fm' where t: "take_block al j fm1 = Some (a, fm')" "joined M (insert (a, j) (alloc_blocks fm1)) fm1 fm'"
    "\<And>c. c \<in> alloc_blocks fm1 \<Longrightarrow> block_bytes (a, j) \<inter> block_bytes c = {}"
    by (rule take_block_joined [OF s(2) al j1 s(6) co1]) blast+
  have "joined M (insert (a, j) (alloc_blocks fm)) fm fm'" using t(2) s(3-5) by (simp add: joined_def)
  then show thesis using t Nil s(1,3) by (intro that [of fm1]) simp_all
qed

lemma fm_alloc_guard:
  assumes good: "fm_good M fm" and np: "unat np = 0 \<or> 2 ^ (unat (fm_num_bins fm) - 1) < unat np"
  shows "fm_alloc al junk env np fm = Some (-1, None, fm)"
proof -
  note G = fm_goodD [OF good]
  obtain m where m: "fm_lock env fm = Some (fm\<lparr>fm_m := m\<rparr>)"
    "\<And>fm'. fm_m fm' = m \<Longrightarrow> fm_unlock env fm' = fm'\<lparr>fm_m := free_mutex\<rparr>" by (rule fm_lock_free [OF G(3), of env]) blast
  have "TWO_POW (unat (fm_num_bins fm) - 1) < np \<or> np = 0"
    using np G(4,5) by (auto simp: word_less_nat_alt unat_TWO_POW unat_eq_0)
  then show ?thesis using m G(3) by (auto simp: fm_alloc_def)
qed

lemma fm_alloc_body:
  assumes good: "fm_good M fm" and np: "0 < unat np" "unat np \<le> 2 ^ (unat (fm_num_bins fm) - 1)"
    and j: "unat np \<le> 2 ^ j" "2 ^ j < 2 * unat np"
  obtains m where "j < unat (fm_num_bins fm)"
    "fm_alloc al junk env np fm = do {
       (r, fm) \<leftarrow> (if fm_bins fm ! j = [] then request_split al junk (j + 1) (fm\<lparr>fm_m := m\<rparr>) else Some (0, fm\<lparr>fm_m := m\<rparr>));
       if r < 0 then Some (-2, None, fm_unlock env fm)
       else do { (a, fm) \<leftarrow> take_block al j fm; Some (0, Some a, fm_unlock env fm) } }"
    "\<And>fm'. fm_m fm' = m \<Longrightarrow> fm_unlock env fm' = fm'\<lparr>fm_m := free_mutex\<rparr>"
proof -
  note G = fm_goodD [OF good]
  obtain m where m: "fm_lock env fm = Some (fm\<lparr>fm_m := m\<rparr>)"
    "\<And>fm'. fm_m fm' = m \<Longrightarrow> fm_unlock env fm' = fm'\<lparr>fm_m := free_mutex\<rparr>" by (rule fm_lock_free [OF G(3), of env]) blast
  have g: "\<not> TWO_POW (unat (fm_num_bins fm) - 1) < np" "np \<noteq> 0"
    using np G(4,5) by (auto simp: word_less_nat_alt unat_TWO_POW)
  have f: "find_bin np (unat (fm_num_bins fm) - 1) \<le> unat (fm_num_bins fm) - 1 \<and>
      unat np \<le> 2 ^ find_bin np (unat (fm_num_bins fm) - 1) \<and> 2 ^ find_bin np (unat (fm_num_bins fm) - 1) < 2 * unat np"
    by (rule find_bin_ok) (use np G(4,5) in simp_all)
  then have fj: "find_bin np (unat (fm_num_bins fm) - 1) = j" using level_unique j by blast
  then have jl: "j < unat (fm_num_bins fm)" using f G(4) by linarith
  then show thesis
    using that [OF jl _ m(2)] m(1) g fj fm_invD(9) [OF G(1)] by (simp add: fm_alloc_def get_bin_def)
qed

lemma fm_good_unlock:
  assumes "joined M B (fm\<lparr>fm_m := m\<rparr>) fm'" "fm_good M fm"
  shows "fm_good M (fm'\<lparr>fm_m := free_mutex\<rparr>)" "alloc_blocks (fm'\<lparr>fm_m := free_mutex\<rparr>) = B" "fm_m fm' = m"
    "fm_num_bins fm' = fm_num_bins fm"
  using assms by (simp_all add: joined_def fm_good_def)

lemma fm_alloc_fail:
  assumes good: "fm_good M fm" and np: "0 < unat np" "unat np \<le> 2 ^ (unat (fm_num_bins fm) - 1)"
    and j: "unat np \<le> 2 ^ j" "2 ^ j < 2 * unat np" and free: "\<not> has_free j fm"
  shows "fm_alloc al junk env np fm = Some (-2, None, fm)"
proof -
  note G = fm_goodD [OF good]
  obtain m where b: "j < unat (fm_num_bins fm)"
    "fm_alloc al junk env np fm = do {
       (r, fm) \<leftarrow> (if fm_bins fm ! j = [] then request_split al junk (j + 1) (fm\<lparr>fm_m := m\<rparr>) else Some (0, fm\<lparr>fm_m := m\<rparr>));
       if r < 0 then Some (-2, None, fm_unlock env fm)
       else do { (a, fm) \<leftarrow> take_block al j fm; Some (0, Some a, fm_unlock env fm) } }"
    "\<And>fm'. fm_m fm' = m \<Longrightarrow> fm_unlock env fm' = fm'\<lparr>fm_m := free_mutex\<rparr>"
    by (rule fm_alloc_body [OF good np j, of al junk env]) blast
  have "fm_bins (fm\<lparr>fm_m := m\<rparr>) ! j = [] \<and> (\<exists>c < 0. request_split al junk (j + 1) (fm\<lparr>fm_m := m\<rparr>) = Some (c, fm\<lparr>fm_m := m\<rparr>))"
    by (rule alloc_body_fail [of M]) (use G(1) b(1) free in simp_all)
  then show ?thesis using b(2,3) G(3) by auto
qed

lemma fm_alloc_succeed:
  assumes good: "fm_good M fm" and al: "malloc_room al"
    and np: "0 < unat np" "unat np \<le> 2 ^ (unat (fm_num_bins fm) - 1)"
    and j: "unat np \<le> 2 ^ j" "2 ^ j < 2 * unat np" and free: "has_free j fm"
  shows "\<exists>a fm'. fm_alloc al junk env np fm = Some (0, Some a, fm') \<and> fm_good M fm' \<and>
    fm_num_bins fm' = fm_num_bins fm \<and> alloc_blocks fm' = insert (a, j) (alloc_blocks fm) \<and>
    (\<forall>c \<in> alloc_blocks fm. block_bytes (a, j) \<inter> block_bytes c = {})"
proof -
  note G = fm_goodD [OF good]
  obtain m where b: "j < unat (fm_num_bins fm)"
    "fm_alloc al junk env np fm = do {
       (r, fm) \<leftarrow> (if fm_bins fm ! j = [] then request_split al junk (j + 1) (fm\<lparr>fm_m := m\<rparr>) else Some (0, fm\<lparr>fm_m := m\<rparr>));
       if r < 0 then Some (-2, None, fm_unlock env fm)
       else do { (a, fm) \<leftarrow> take_block al j fm; Some (0, Some a, fm_unlock env fm) } }"
    "\<And>fm'. fm_m fm' = m \<Longrightarrow> fm_unlock env fm' = fm'\<lparr>fm_m := free_mutex\<rparr>"
    by (rule fm_alloc_body [OF good np j, of al junk env]) blast
  let ?fm = "fm\<lparr>fm_m := m\<rparr>"
  have I: "fm_inv None M ?fm" "coalesced NULL (frames ?fm)" "j < unat (fm_num_bins ?fm)" "has_free j ?fm"
    using G(1,2) b(1) free by simp_all
  obtain fm1 a fm' where s:
    "(if fm_bins ?fm ! j = [] then request_split al junk (j + 1) ?fm else Some (0, ?fm)) = Some (0, fm1)"
    "take_block al j fm1 = Some (a, fm')" "joined M (insert (a, j) (alloc_blocks ?fm)) ?fm fm'"
    "\<And>c. c \<in> alloc_blocks ?fm \<Longrightarrow> block_bytes (a, j) \<inter> block_bytes c = {}"
    by (rule alloc_body_ok [OF I(1,2) al I(3,4), of junk]) blast
  note u = fm_good_unlock [OF s(3) good]
  have "fm_alloc al junk env np fm = Some (0, Some a, fm'\<lparr>fm_m := free_mutex\<rparr>)"
    using b(2) s(1,2) b(3) [OF u(3)] by simp
  then show ?thesis using u(1,2,4) s(4) by auto
qed

subsection \<open>\<open>fm_dealloc\<close>\<close>

lemma alloc_blocks_remove:
  assumes inv: "fm_inv None M fm" and f: "frames fm f = Some fr" "f_status fr = FRAME_ALLOC"
    and others: "\<And>g gr. f_status gr = FRAME_ALLOC \<Longrightarrow> frames fm' g = Some gr \<longleftrightarrow> g \<noteq> f \<and> frames fm g = Some gr"
  shows "alloc_blocks fm' = alloc_blocks fm - {(f_addr fr, f_i fr)}"
proof -
  have "f_addr gr \<noteq> f_addr fr" if "frames fm g = Some gr" "f_status gr = FRAME_ALLOC" "g \<noteq> f" for g gr
    using same_address_frames [OF fm_invD(13) [OF inv] f(1) that(1)] f(2) that(2,3) by (auto simp: leaf_free)
  then show ?thesis using f others unfolding alloc_blocks_def by auto (metis option.inject)+
qed

lemma allocated_frame:
  assumes inv: "fm_inv None M fm" and a: "(a, j) \<in> alloc_blocks fm"
  obtains n f fr where "ht_map (fm_allocated fm) a = Some n" "fnodes fm n = Some f" "frames fm f = Some fr"
    "f_status fr = FRAME_ALLOC" "f_addr fr = a" "f_i fr = j" "n \<noteq> NULL" "f \<noteq> NULL"
proof -
  note I = fm_invD [OF inv]
  obtain f fr where f: "frames fm f = Some fr" "f_status fr = FRAME_ALLOC" "f_addr fr = a" "f_i fr = j"
    using a by (auto simp: alloc_blocks_iff)
  obtain n where n: "fnodes fm n = Some f" using nodes_okD(3) [OF I(2) f(1)] by blast
  have "(frames fm \<circ>\<^sub>m fnodes fm) n = Some fr" using n f(1) by (simp add: map_comp_def)
  then have "ht_map (fm_allocated fm) (f_addr fr) = Some n" by (rule tmap_lookup [OF I(6) _ f(2)])
  moreover have "n \<noteq> NULL" using nodes_okD(1) [OF I(2)] n by auto
  ultimately show thesis using that f n linksD(1) [OF I(12) f(1)] by blast
qed

lemma not_allocated:
  assumes "fm_inv None M fm" "\<And>j. (a, j) \<notin> alloc_blocks fm"
  shows "ht_map (fm_allocated fm) a = None"
proof (rule ccontr)
  assume "ht_map (fm_allocated fm) a \<noteq> None"
  then obtain n fr where "(frames fm \<circ>\<^sub>m fnodes fm) n = Some fr" "f_status fr = FRAME_ALLOC" "f_addr fr = a"
    using tmapD [OF fm_invD(6) [OF assms(1)]] by fastforce
  then have "(a, f_i fr) \<in> alloc_blocks fm" by (auto simp: alloc_blocks_iff map_comp_def split: option.splits)
  then show False using assms(2) by blast
qed

text \<open>The block's buddy is not free: the block goes into its bin.\<close>

lemma release_leaf_ok:
  assumes inv: "fm_inv None M fm" and al: "malloc_room al" and co: "coalesced NULL (frames fm)"
    and f: "fnodes fm n = Some f" "frames fm f = Some fr" "f_status fr = FRAME_ALLOC" "n \<noteq> NULL"
    and nb: "\<And>br. f_buddy fr \<noteq> NULL \<Longrightarrow> frames fm (f_buddy fr) = Some br \<Longrightarrow> f_status br \<noteq> FRAME_DEALLOC"
    and t: "ht_ok t" "ht_map t = (ht_map (fm_allocated fm))(f_addr fr := None)"
  shows "\<exists>fm'. release_leaf al f fr n (fm\<lparr>fm_allocated := t\<rparr>) = Some (0, fm') \<and>
    joined M (alloc_blocks fm - {(f_addr fr, f_i fr)}) fm fm'"
proof -
  note I = fm_invD [OF inv]
  have lf: "leaf None f fr" "f_status fr \<noteq> FRAME_DEALLOC" using f(3) by (simp_all add: leaf_def)
  have "ht_map (fm_deallocated fm) (f_addr fr) = None"
    by (rule leaf_key_fresh [OF I(7,13) f(2) lf]) simp
  then obtain d where d: "tbl_put al (fm_mcalls fm) (fm_deallocated fm) (f_addr fr) n = Some (0, d)" "ht_ok d"
    "ht_map d = (ht_map (fm_deallocated fm))(f_addr fr \<mapsto> n)" using tbl_put_ok [OF al I(4)] by blast
  have j: "f_i fr < length (fm_bins fm)" using I(1,9) f(2) by (auto simp: heap_ok_def frame_wf_def)
  let ?fm = "fm\<lparr>fm_allocated := t, fm_deallocated := d, fm_mcalls := fm_mcalls fm + 2,
    fm_bins := (fm_bins fm)[f_i fr := fm_bins fm ! f_i fr @ [n]],
    frames := (frames fm)(f \<mapsto> fr\<lparr>f_status := FRAME_DEALLOC\<rparr>)\<rparr>"
  have "release_leaf al f fr n (fm\<lparr>fm_allocated := t\<rparr>) = Some (0, ?fm)"
    using d(1) f j by (simp add: release_leaf_def put_deallocated_def set_status_def bin_link_last_def get_bin_def)
  moreover have "fm_inv None M ?fm"
    by (rule fm_inv_free [OF inv _ f(1,2) lf(2,1) t(1) _ I(5) _ d(2,3)])
      (use t(2) f(3) in \<open>simp_all add: del_if_def\<close>)
  moreover have "coalesced NULL (frames ?fm)" using coalesced_free [OF co I(12) f(2) nb] by simp
  moreover have "alloc_blocks ?fm = alloc_blocks fm - {(f_addr fr, f_i fr)}"
    by (rule alloc_blocks_remove [OF inv f(2,3)]) (auto split: if_splits)
  ultimately show ?thesis by (auto simp: joined_def)
qed

text \<open>The buddy is free: both are merged, and their parent is joined further.\<close>

lemma release_merge_ok:
  assumes inv: "fm_inv None M fm" and al: "malloc_room al" and co: "coalesced NULL (frames fm)"
    and f: "fnodes fm n = Some f" "frames fm f = Some fr" "f_status fr = FRAME_ALLOC"
    and b: "f_buddy fr \<noteq> NULL" "fnodes fm bn = Some (f_buddy fr)" "frames fm (f_buddy fr) = Some br"
      "f_status br = FRAME_DEALLOC" "f_buddy fr \<noteq> f"
    and t: "ht_ok t" "ht_map t = (ht_map (fm_allocated fm))(f_addr fr := None)"
    and d: "ht_ok d" "ht_map d = (ht_map (fm_deallocated fm))(f_addr br := None)"
  shows "\<exists>fm'. request_join al (f_parent fr) (fm\<lparr>fm_allocated := t, fm_deallocated := d,
      fm_bins := (fm_bins fm)[f_i fr := remove1 bn (fm_bins fm ! f_i fr)],
      frames := (frames fm)(f := None, f_buddy fr := None), fnodes := (fnodes fm)(bn := None, n := None)\<rparr>) = Some (0, fm') \<and>
    joined M (alloc_blocks fm - {(f_addr fr, f_i fr)}) fm fm'"
proof -
  note I = fm_invD [OF inv]
  let ?fm = "fm\<lparr>fm_allocated := t, fm_deallocated := d,
      fm_bins := (fm_bins fm)[f_i fr := remove1 bn (fm_bins fm ! f_i fr)],
      frames := (frames fm)(f := None, f_buddy fr := None), fnodes := (fnodes fm)(bn := None, n := None)\<rparr>"
  have nb: "n \<noteq> bn" using f(1) b(2,5) by auto
  have "fm_inv (Some (f_parent fr)) M ?fm"
    by (rule fm_inv_merge [OF inv _ f(1,2) _ _ b(1,2,3,4) t(1) _ I(5) _ d(1,2)])
      (use t(2) f(3) nb in \<open>simp_all add: del_if_def leaf_def fun_upd_twist\<close>)
  moreover have "coalesced NULL (frames ?fm)" using coalesced_less [OF co] by simp
  ultimately obtain fm' where j: "request_join al (f_parent fr) ?fm = Some (0, fm')" "joined M (alloc_blocks ?fm) ?fm fm'"
    using request_join_ok [OF al] by blast
  have "alloc_blocks ?fm = alloc_blocks fm - {(f_addr fr, f_i fr)}"
    by (rule alloc_blocks_remove [OF inv f(2,3)]) (use b in \<open>auto split: if_splits\<close>)
  then have "joined M (alloc_blocks fm - {(f_addr fr, f_i fr)}) fm fm'" using j(2) by (simp add: joined_def)
  then show ?thesis using j(1) by blast
qed

lemma buddy_facts:
  assumes inv: "fm_inv None M fm" and f: "frames fm f = Some fr" "f_buddy fr \<noteq> NULL"
  obtains br where "frames fm (f_buddy fr) = Some br" "f_parent br = f_parent fr" "f_i br = f_i fr"
    "f_num_pages br = f_num_pages fr" "f_buddy br = f"
proof -
  note I = fm_invD [OF inv]
  obtain br where h: "frames fm (f_buddy fr) = Some br" "f_buddy br = f" "f_i br = f_i fr" "f_parent br = f_parent fr"
    by (rule halvesE [OF I(12) f])
  have "unat (f_num_pages br) = unat (f_num_pages fr)"
    using I(1) f(1) h(1,3) by (simp add: heap_ok_def frame_wf_def)
  then show thesis using that h by (simp add: word_unat_eq_iff)
qed

lemma release_block_ok:
  assumes inv: "fm_inv None M fm" and al: "malloc_room al" and co: "coalesced NULL (frames fm)"
    and a: "(a, j) \<in> alloc_blocks fm"
  shows "\<exists>fm'. release_block al a fm = Some (0, fm') \<and> joined M (alloc_blocks fm - {(a, j)}) fm fm'"
proof -
  note I = fm_invD [OF inv]
  obtain n f fr where f: "ht_map (fm_allocated fm) a = Some n" "fnodes fm n = Some f" "frames fm f = Some fr"
    "f_status fr = FRAME_ALLOC" "f_addr fr = a" "f_i fr = j" "n \<noteq> NULL" "f \<noteq> NULL"
    by (rule allocated_frame [OF inv a])
  obtain t where t: "tbl_remove (fm_allocated fm) a = Some (0, Some n, t)" "ht_ok t"
    "ht_map t = (ht_map (fm_allocated fm))(f_addr fr := None)" using tbl_remove_found [OF I(3) f(1)] f(5) by blast
  show ?thesis
  proof (cases "\<exists>br. f_buddy fr \<noteq> NULL \<and> frames fm (f_buddy fr) = Some br \<and> f_status br = FRAME_DEALLOC")
    case False
    have "release_block al a fm = release_leaf al f fr n (fm\<lparr>fm_allocated := t\<rparr>)"
    proof (cases "f_buddy fr = NULL")
      case True
      then show ?thesis using f t(1) by (simp add: release_block_def remove_allocated_def)
    next
      case ne: False
      obtain br where "frames fm (f_buddy fr) = Some br" "f_parent br = f_parent fr" "f_i br = f_i fr"
        "f_num_pages br = f_num_pages fr" "f_buddy br = f" by (rule buddy_facts [OF inv f(3) ne])
      then show ?thesis using f t(1) ne False by (simp add: release_block_def remove_allocated_def)
    qed
    moreover have "\<exists>fm'. release_leaf al f fr n (fm\<lparr>fm_allocated := t\<rparr>) = Some (0, fm') \<and>
      joined M (alloc_blocks fm - {(f_addr fr, f_i fr)}) fm fm'"
      by (rule release_leaf_ok [OF inv al co f(2,3,4,7) _ t(2,3)]) (use False in blast)
    ultimately show ?thesis using f(5,6) by simp
  next
    case True
    then obtain br where b: "f_buddy fr \<noteq> NULL" "frames fm (f_buddy fr) = Some br" "f_status br = FRAME_DEALLOC" by blast
    obtain bn where bn: "fnodes fm bn = Some (f_buddy fr)" "ht_map (fm_deallocated fm) (f_addr br) = Some bn"
      "bn \<in> set (fm_bins fm ! f_i fr)" "f_i br = f_i fr" "f_parent br = f_parent fr" "f_parent fr \<noteq> NULL"
      "f_i fr < length (fm_bins fm)" "f_buddy br = f" "f_buddy fr \<noteq> f" by (rule free_buddy [OF inv f(3) b])
    obtain br' where "frames fm (f_buddy fr) = Some br'" "f_num_pages br' = f_num_pages fr"
      by (rule buddy_facts [OF inv f(3) b(1)])
    then have np: "f_num_pages br = f_num_pages fr" using b(2) by simp
    obtain d where d: "tbl_remove (fm_deallocated fm) (f_addr br) = Some (0, Some bn, d)" "ht_ok d"
      "ht_map d = (ht_map (fm_deallocated fm))(f_addr br := None)" using tbl_remove_found [OF I(4) bn(2)] by blast
    obtain fm' where j: "request_join al (f_parent fr) (fm\<lparr>fm_allocated := t, fm_deallocated := d,
      fm_bins := (fm_bins fm)[f_i fr := remove1 bn (fm_bins fm ! f_i fr)],
      frames := (frames fm)(f := None, f_buddy fr := None), fnodes := (fnodes fm)(bn := None, n := None)\<rparr>) = Some (0, fm')"
      "joined M (alloc_blocks fm - {(f_addr fr, f_i fr)}) fm fm'"
      using release_merge_ok [OF inv al co f(2,3,4) b(1) bn(1) b(2,3) bn(9) t(2,3) d(2,3)] by blast
    have "release_block al a fm = Some (0, fm')"
      using f t(1) b bn d(1) np j(1)
      by (simp add: release_block_def remove_allocated_def remove_deallocated_def bin_unlink_def get_bin_def
          free_frame_def free_fnode_def Let_def)
    then show ?thesis using j(2) f(5,6) by blast
  qed
qed

lemma fm_dealloc_ok:
  assumes good: "fm_good M fm" and al: "malloc_room al" and a: "(a, j) \<in> alloc_blocks fm"
  shows "\<exists>fm'. fm_dealloc al env a fm = Some (0, fm') \<and> fm_good M fm' \<and> fm_num_bins fm' = fm_num_bins fm \<and>
    alloc_blocks fm' = alloc_blocks fm - {(a, j)}"
proof -
  note G = fm_goodD [OF good]
  obtain m where m: "fm_lock env fm = Some (fm\<lparr>fm_m := m\<rparr>)"
    "\<And>fm'. fm_m fm' = m \<Longrightarrow> fm_unlock env fm' = fm'\<lparr>fm_m := free_mutex\<rparr>" by (rule fm_lock_free [OF G(3), of env]) blast
  obtain fm' where r: "release_block al a (fm\<lparr>fm_m := m\<rparr>) = Some (0, fm')"
    "joined M (alloc_blocks fm - {(a, j)}) (fm\<lparr>fm_m := m\<rparr>) fm'"
    using release_block_ok [of M "fm\<lparr>fm_m := m\<rparr>" al a j] G(1,2) al a by auto
  note u = fm_good_unlock [OF r(2) good]
  have "fm_dealloc al env a fm = Some (0, fm'\<lparr>fm_m := free_mutex\<rparr>)"
    using m(1) r(1) m(2) [OF u(3)] by (simp add: fm_dealloc_def)
  then show ?thesis using u by auto
qed

lemma fm_dealloc_unknown:
  assumes good: "fm_good M fm" and a: "\<And>j. (a, j) \<notin> alloc_blocks fm"
  shows "fm_dealloc al env a fm = Some (-2, fm)"
proof -
  note G = fm_goodD [OF good]
  obtain m where m: "fm_lock env fm = Some (fm\<lparr>fm_m := m\<rparr>)"
    "\<And>fm'. fm_m fm' = m \<Longrightarrow> fm_unlock env fm' = fm'\<lparr>fm_m := free_mutex\<rparr>" by (rule fm_lock_free [OF G(3), of env]) blast
  have "tbl_remove (fm_allocated fm) a = Some (-2, None, fm_allocated fm)"
    by (rule tbl_remove_missing [OF fm_invD(3) [OF G(1)] not_allocated [OF G(1) a]])
  then show ?thesis using m G(3) by (simp add: fm_dealloc_def release_block_def remove_allocated_def)
qed

end
