(* ===== verification/FrameManagerInit.thy ===== *)
theory FrameManagerInit
  imports FrameManagerCorrect
begin

text \<open>
  The boot of the frame manager: the loops of \<open>fm_init_user_space\<close> end, cover the
  user's memory with free blocks of decreasing size, and establish \<open>fm_good\<close>.
\<close>

subsection \<open>One more block\<close>

definition top_frame :: "u32 \<Rightarrow> nat \<Rightarrow> frame" where
  "top_frame a i = \<lparr>f_addr = a, f_num_pages = TWO_POW i, f_status = FRAME_DEALLOC, f_i = i, f_buddy = NULL, f_parent = NULL\<rparr>"

lemma top_frame_simps [simp]: "f_addr (top_frame a i) = a" "f_status (top_frame a i) = FRAME_DEALLOC" "f_i (top_frame a i) = i"
  "f_buddy (top_frame a i) = NULL" "f_parent (top_frame a i) = NULL"
  by (simp_all add: top_frame_def)

lemma fm_inv_add:
  assumes inv: "fm_inv None M fm" and i: "i < unat (fm_num_bins fm)"
    and a: "frame_wf (unat (fm_num_bins fm)) (top_frame a i)" "M \<inter> frange (top_frame a i) = {}"
    and new: "f \<noteq> NULL" "frames fm f = None" "n \<noteq> NULL" "fnodes fm n = None"
    and roots: "\<And>g gr. frames fm g = Some gr \<Longrightarrow> f_status gr = FRAME_DEALLOC"
    and d: "ht_ok d" "ht_map d = (ht_map (fm_deallocated fm))(a \<mapsto> n)"
    and fm': "frames fm' = (frames fm)(f \<mapsto> top_frame a i)" "fnodes fm' = (fnodes fm)(n \<mapsto> f)"
      "fm_allocated fm' = fm_allocated fm" "fm_parents fm' = fm_parents fm" "fm_deallocated fm' = d"
      "fm_num_bins fm' = fm_num_bins fm" "fm_bins fm' = (fm_bins fm)[i := fm_bins fm ! i @ [n]]"
    and free: "ht_map (fm_deallocated fm) a = None"
  shows "fm_inv None (M \<union> frange (top_frame a i)) fm'"
proof -
  note I = fm_invD [OF inv]
  let ?L = "frames fm \<circ>\<^sub>m fnodes fm" and ?fr = "top_frame a i"
  have L: "?L n = None" using new(4) by (simp add: map_comp_def)
  have L': "frames fm' \<circ>\<^sub>m fnodes fm' = ?L(n \<mapsto> ?fr)" unfolding fm' by (rule comp_new [OF I(2) new(2)])
  have disj: "frange gr \<inter> frange ?fr = {}" if g: "frames fm g = Some gr" for g gr
  proof -
    have "frange gr \<subseteq> M" using g roots [OF g] I(11) leaf_free(1) [of gr] by (fastforce simp: covered_def)
    then show ?thesis using a(2) by blast
  qed
  have H: "heap_ok (unat (fm_num_bins fm)) None (frames fm')" "covered None (frames fm') = M \<union> frange ?fr"
    unfolding fm' using heap_add [OF I(1) new(2,1) a(1)] disj I(11) by simp_all
  have N: "nodes_ok (frames fm') (fnodes fm')" unfolding fm' by (rule nodes_ok_new [OF I(2) new(4,2,3)])
  have D: "tmap_ok FRAME_DEALLOC f_addr (ht_map d) (?L(n \<mapsto> ?fr))"
    using tmap_put [OF I(7), of n ?fr] L free by (simp add: d)
  have A: "tmap_ok FRAME_ALLOC f_addr (ht_map (fm_allocated fm)) (?L(n \<mapsto> ?fr))"
    by (rule tmap_keep [OF I(6)]) (use L in simp_all)
  have P: "tmap_ok FRAME_PARENT parent_key (ht_map (fm_parents fm)) (?L(n \<mapsto> ?fr))"
    by (rule tmap_keep [OF I(8)]) (use L in simp_all)
  have B: "bin_ok k (fm_bins fm' ! k) (?L(n \<mapsto> ?fr))" if k: "k < unat (fm_num_bins fm)" for k
  proof (cases "k = i")
    case True
    have "bin_ok k (fm_bins fm ! k @ [n]) (?L(n \<mapsto> ?fr))"
      by (rule bin_put [OF I(10) [OF k]]) (use L True in auto)
    then show ?thesis using True i I(9) by (simp add: fm')
  next
    case False
    have "bin_ok k (fm_bins fm ! k) (?L(n \<mapsto> ?fr))"
      by (rule bin_keep [OF I(10) [OF k]]) (use L False in auto)
    then show ?thesis using False by (simp add: fm')
  qed
  show ?thesis using H N D A P B I(3,5,9) d(1) L' by (simp add: fm_inv_def fm')
qed

text \<open>
  During the boot every frame is a free block of its own, and the blocks cover the
  memory from \<open>lo\<close> to the next address \<open>p\<close>.
\<close>

definition booting :: "nat \<Rightarrow> nat \<Rightarrow> frame_manager \<Rightarrow> bool" where
  "booting lo p fm \<longleftrightarrow> fm_inv None {lo ..< p} fm \<and> p mod 4096 = 0 \<and> lo \<le> p \<and>
     (\<forall>g gr. frames fm g = Some gr \<longrightarrow> f_status gr = FRAME_DEALLOC \<and> f_buddy gr = NULL)"

lemma top_frame_range:
  assumes "i < nb" "i < 32" "unat a = p" "p mod 4096 = 0" "p + 2 ^ i * 4096 \<le> 2 ^ 32"
  shows "frange (top_frame a i) = {p ..< p + 2 ^ i * 4096}" "frame_wf nb (top_frame a i)"
  using assms by (simp_all add: frange_def frame_wf_def top_frame_def unat_TWO_POW)

lemma add_block_ok:
  assumes b: "booting lo p fm" and al: "malloc_room al" and i: "i < unat (fm_num_bins fm)" "i < 32"
    and a: "unat a = p" "p + 2 ^ i * 4096 \<le> 2 ^ 32"
  shows "\<exists>fm'. add_block al junk i a fm = Some fm' \<and> booting lo (p + 2 ^ i * 4096) fm' \<and>
    fm_num_bins fm' = fm_num_bins fm \<and> fm_m fm' = fm_m fm"
proof -
  have B: "fm_inv None {lo ..< p} fm" "p mod 4096 = 0" "lo \<le> p"
    "\<And>g gr. frames fm g = Some gr \<Longrightarrow> f_status gr = FRAME_DEALLOC"
    "\<And>g gr. frames fm g = Some gr \<Longrightarrow> f_buddy gr = NULL" using b by (auto simp: booting_def)
  note I = fm_invD [OF B(1)]
  note tf = top_frame_range [OF i a(1) B(2) a(2)]
  have hc: "card (dom (frames fm)) \<le> 2 ^ 25" "card (dom (fnodes fm)) \<le> 2 ^ 25"
    using heap_card [OF I(1)] node_card [OF I(2)] by simp_all
  obtain f fm1 where m1: "malloc_frame al junk fm = (f, fm1)" "f \<noteq> NULL" "frames fm f = None"
    "fm1 = fm\<lparr>fm_mcalls := Suc (fm_mcalls fm), frames := (frames fm)(f \<mapsto> junk)\<rparr>"
    by (rule malloc_frame_ok [OF al hc(1)])
  let ?fm2 = "fm1\<lparr>frames := (frames fm1)(f \<mapsto> top_frame a i)\<rparr>"
  have "card (dom (fnodes ?fm2)) \<le> 2 ^ 25" using hc(2) m1(4) by simp
  then obtain n fm3 where m2: "malloc_fnode al ?fm2 = (n, fm3)" "n \<noteq> NULL" "fnodes ?fm2 n = None"
    "fm3 = ?fm2\<lparr>fm_mcalls := Suc (fm_mcalls ?fm2), fnodes := (fnodes ?fm2)(n \<mapsto> NULL)\<rparr>"
    by (rule malloc_fnode_ok [OF al])
  have fn: "fnodes fm n = None" using m2(3) m1(4) by simp
  have free: "ht_map (fm_deallocated fm) a = None"
  proof (rule ccontr)
    assume "ht_map (fm_deallocated fm) a \<noteq> None"
    then obtain m gr where "(frames fm \<circ>\<^sub>m fnodes fm) m = Some gr" "f_addr gr = a" using tmapD [OF I(7)] by fastforce
    then obtain g where g: "frames fm g = Some gr" by (auto simp: map_comp_def split: option.splits)
    then have "unat (f_addr gr) \<in> {lo ..< p}"
      using I(11) coveredI [of "frames fm" g gr None] leaf_free(1) [OF B(4) [OF g]] frange_ne [of gr] by blast
    then show False using \<open>f_addr gr = a\<close> a(1) by simp
  qed
  obtain d where d: "tbl_put al (fm_mcalls fm + 2) (fm_deallocated fm) a n = Some (0, d)" "ht_ok d"
    "ht_map d = (ht_map (fm_deallocated fm))(a \<mapsto> n)" using tbl_put_ok [OF al I(4) free] by blast
  let ?fm = "fm\<lparr>fm_mcalls := fm_mcalls fm + 4, frames := (frames fm)(f \<mapsto> top_frame a i), fnodes := (fnodes fm)(n \<mapsto> f),
    fm_bins := (fm_bins fm)[i := fm_bins fm ! i @ [n]], fm_deallocated := d\<rparr>"
  have init: "frame_init f a (TWO_POW i) FRAME_DEALLOC i NULL NULL fm1 = (0, ?fm2)"
    using m1(2) by (simp add: frame_init_def top_frame_def)
  have link: "bin_link_last i n (fnode_init n f fm3) = Some (fm3\<lparr>fnodes := (fnodes fm)(n \<mapsto> f),
      fm_bins := (fm_bins fm)[i := fm_bins fm ! i @ [n]]\<rparr>)"
    using m2(2,4) m1(4) i(1) I(9) by (simp add: bin_link_last_def fnode_init_def get_bin_def)
  have "add_block al junk i a fm = Some ?fm"
    unfolding add_block_def Let_def m1(1) prod.case init m2(1) link bind.bind_lunit put_deallocated_def
    using d(1) by (simp add: m2(4) m1(4))
  moreover have "fm_inv None ({lo ..< p} \<union> frange (top_frame a i)) ?fm"
    by (rule fm_inv_add [OF B(1) i(1) tf(2) _ m1(2,3) m2(2) fn B(4) d(2,3) _ _ _ _ _ _ _ free]) (auto simp: tf(1))
  moreover have "{lo ..< p} \<union> frange (top_frame a i) = {lo ..< p + 2 ^ i * 4096}" using B(3) tf(1) by auto
  moreover have "(p + 2 ^ i * 4096) mod 4096 = 0" using B(2) by simp
  ultimately show ?thesis using B(3-5) by (auto simp: booting_def split: if_splits)
qed

subsection \<open>The loops\<close>

lemma page_step:
  assumes "unat (r :: u32) \<ge> 2 ^ i" "i < 32" "p + unat r * 4096 \<le> 2 ^ 32"
  shows "word_of_nat p + PAGE_SIZE * TWO_POW i = (word_of_nat (p + 2 ^ i * 4096) :: u32)"
    "unat (r - TWO_POW i) = unat r - 2 ^ i"
proof -
  have "TWO_POW i = (word_of_nat (2 ^ i) :: u32)" by (simp add: TWO_POW_def push_bit_eq_mult)
  then show "word_of_nat p + PAGE_SIZE * TWO_POW i = (word_of_nat (p + 2 ^ i * 4096) :: u32)"
    by (simp add: PAGE_SIZE_def mult.commute)
  show "unat (r - TWO_POW i) = unat r - 2 ^ i"
    using assms(1,2) by (simp add: unat_sub word_le_nat_alt unat_TWO_POW)
qed

lemma init_bin_loop_ok:
  assumes al: "malloc_room al" and i: "i < 32"
  shows "booting lo p fm \<Longrightarrow> i < unat (fm_num_bins fm) \<Longrightarrow> p + unat r * 4096 = e \<Longrightarrow> e \<le> 2 ^ 32 \<Longrightarrow>
    \<exists>r' p' fm'. init_bin_loop al junk i r (word_of_nat p) fm = Some (r', word_of_nat p', fm') \<and> booting lo p' fm' \<and>
      unat r' < 2 ^ i \<and> p' + unat r' * 4096 = e \<and> fm_num_bins fm' = fm_num_bins fm \<and> fm_m fm' = fm_m fm"
proof (induction "unat r" arbitrary: r p fm rule: less_induct)
  case less
  show ?case
  proof (cases "TWO_POW i \<le> r")
    case False
    then have "unat r < 2 ^ i" using i by (simp add: word_le_nat_alt unat_TWO_POW)
    then show ?thesis using False less.prems by (subst init_bin_loop.simps) auto
  next
    case True
    then have r: "2 ^ i \<le> unat r" using i by (simp add: word_le_nat_alt unat_TWO_POW)
    have room: "p + 2 ^ i * 4096 \<le> e" using r less.prems(3) mult_le_mono1 [OF r, of 4096] by linarith
    have "p < 2 ^ 32" using room less.prems(4) zero_less_power [of "2 :: nat" i] by linarith
    then have up: "unat (word_of_nat p :: u32) = p" by (simp add: unat_of_nat take_bit_nat_eq_self)
    have e32: "p + 2 ^ i * 4096 \<le> 2 ^ 32" "p + unat r * 4096 \<le> 2 ^ 32" using room less.prems(3,4) by linarith+
    note st = page_step [OF r i e32(2)]
    obtain fm1 where a: "add_block al junk i (word_of_nat p) fm = Some fm1" "booting lo (p + 2 ^ i * 4096) fm1"
      "fm_num_bins fm1 = fm_num_bins fm" "fm_m fm1 = fm_m fm"
      using add_block_ok [OF less.prems(1) al less.prems(2) i up e32(1), of junk] by blast
    have pos: "0 < (2 :: nat) ^ i" by simp
    have pre: "unat (r - TWO_POW i) < unat r"
      unfolding st(2) using r pos by linarith
    have pre2: "i < unat (fm_num_bins fm1)" "p + 2 ^ i * 4096 + unat (r - TWO_POW i) * 4096 = e"
      using st(2) r a(3) less.prems(2,3) by (simp_all add: diff_mult_distrib)
    obtain r' p' fm' where l: "init_bin_loop al junk i (r - TWO_POW i) (word_of_nat (p + 2 ^ i * 4096)) fm1 = Some (r', word_of_nat p', fm')"
      "booting lo p' fm'" "unat r' < 2 ^ i" "p' + unat r' * 4096 = e" "fm_num_bins fm' = fm_num_bins fm1" "fm_m fm' = fm_m fm1"
      using less.hyps [OF pre a(2) pre2 less.prems(4)] by blast
    have "init_bin_loop al junk i r (word_of_nat p) fm = Some (r', word_of_nat p', fm')"
      using True a(1) l(1) st(1) by (subst init_bin_loop.simps) (simp only: if_True bind.bind_lunit)
    then show ?thesis using l a(3,4) by auto
  qed
qed

lemma init_loop_ok:
  assumes al: "malloc_room al"
  shows "booting lo p fm \<Longrightarrow> k \<le> unat (fm_num_bins fm) \<Longrightarrow> k \<le> 32 \<Longrightarrow> (k = 0 \<Longrightarrow> unat r = 0) \<Longrightarrow>
    p + unat r * 4096 = e \<Longrightarrow> e \<le> 2 ^ 32 \<Longrightarrow>
    \<exists>fm'. init_loop al junk k r (word_of_nat p) fm = Some fm' \<and> booting lo e fm' \<and>
      fm_num_bins fm' = fm_num_bins fm \<and> fm_m fm' = fm_m fm"
proof (induction k arbitrary: r p fm)
  case (Suc k)
  have k: "k < 32" "k < unat (fm_num_bins fm)" using Suc.prems by simp_all
  obtain r' p' fm1 where l: "init_bin_loop al junk k r (word_of_nat p) fm = Some (r', word_of_nat p', fm1)"
    "booting lo p' fm1" "unat r' < 2 ^ k" "p' + unat r' * 4096 = e" "fm_num_bins fm1 = fm_num_bins fm" "fm_m fm1 = fm_m fm"
    using init_bin_loop_ok [OF al k(1) Suc.prems(1) k(2) Suc.prems(5,6), of junk] by blast
  have "k \<le> unat (fm_num_bins fm1)" "k \<le> 32" "k = 0 \<Longrightarrow> unat r' = 0" using k l(3,5) by simp_all
  from Suc.IH [OF l(2) this l(4) Suc.prems(6)] show ?case using l(1,5,6) by auto
qed simp

subsection \<open>\<open>fm_init\<close>\<close>

lemma fresh_table_ok: "\<exists>t. fresh_table h = Some t \<and> ht_ok t \<and> ht_map t = Map.empty"
proof -
  let ?t0 = "\<lparr>ht_size = 0, ht_max_size = 0, ht_hash = h, ht_arr = []\<rparr> :: ht"
  obtain t where t: "ht_init True (Some ?t0) 64 (Some h) = Some (0, Some t)" by (simp add: ht_init_def)
  then show ?thesis using ht_init_ok [OF t] by (simp add: fresh_table_def)
qed

lemma booting_good:
  assumes "booting lo p fm" "fm_m fm = free_mutex" "0 < unat (fm_num_bins fm)" "unat (fm_num_bins fm) \<le> 32"
  shows "fm_good {lo ..< p} fm" "alloc_blocks fm = {}"
  using assms by (auto simp: booting_def fm_good_def coalesced_def alloc_blocks_def)

lemma booting_start:
  assumes "frames fm = Map.empty" "fnodes fm = Map.empty" "fm_bins fm = replicate (unat (fm_num_bins fm)) []"
    and "ht_ok (fm_allocated fm)" "ht_ok (fm_deallocated fm)" "ht_ok (fm_parents fm)"
      "ht_map (fm_allocated fm) = Map.empty" "ht_map (fm_deallocated fm) = Map.empty" "ht_map (fm_parents fm) = Map.empty"
    and "lo mod 4096 = 0"
  shows "booting lo lo fm"
  using assms by (simp add: booting_def fm_inv_def heap_ok_def links_def laminar_def nodes_ok_def tmap_ok_def bin_ok_def covered_def)

lemma fm_init_user_space_ok:
  assumes b: "booting (unat ums) (unat ums) fm" and al: "malloc_room al" and m: "fm_m fm = free_mutex"
    and nb: "0 < unat (fm_num_bins fm)" "unat (fm_num_bins fm) \<le> 32"
    and n: "0 < unat n" "unat ums + unat n * 4096 \<le> 2 ^ 32"
  shows "\<exists>fm'. fm_init_user_space al junk env ums n fm = Some (0, fm') \<and>
    fm_good {unat ums ..< unat ums + unat n * 4096} fm' \<and> alloc_blocks fm' = {} \<and> fm_num_bins fm' = fm_num_bins fm"
proof -
  obtain k where k: "fm_lock env fm = Some (fm\<lparr>fm_m := k\<rparr>)"
    "\<And>fm'. fm_m fm' = k \<Longrightarrow> fm_unlock env fm' = fm'\<lparr>fm_m := free_mutex\<rparr>" by (rule fm_lock_free [OF m, of env]) blast
  have "booting (unat ums) (unat ums) (fm\<lparr>fm_m := k\<rparr>)" using b by (simp add: booting_def)
  from init_loop_ok [OF al this, of "unat (fm_num_bins fm)" n _ junk] nb n
  obtain fm' where l: "init_loop al junk (unat (fm_num_bins fm)) n ums (fm\<lparr>fm_m := k\<rparr>) = Some fm'"
    "booting (unat ums) (unat ums + unat n * 4096) fm'" "fm_num_bins fm' = fm_num_bins fm" "fm_m fm' = k" by auto
  have "booting (unat ums) (unat ums + unat n * 4096) (fm'\<lparr>fm_m := free_mutex\<rparr>)" using l(2) by (simp add: booting_def)
  note g = booting_good [OF this]
  have "n \<noteq> 0" using n(1) by auto
  then have "fm_init_user_space al junk env ums n fm = Some (0, fm'\<lparr>fm_m := free_mutex\<rparr>)"
    using k(1) l(1) k(2) [OF l(4)] by (simp add: fm_init_user_space_def)
  then show ?thesis using g l(3) nb by simp
qed

definition user_frames :: "u32 \<Rightarrow> u32 \<Rightarrow> nat" where
  "user_frames ums n = min (unat n - unat ums div 4096) ((2 ^ 32 - unat ums) div 4096)"

lemma fm_init_ok:
  assumes al: "malloc_room al" and boot: "frames fm = Map.empty" "fnodes fm = Map.empty"
    and ums: "ums \<noteq> 0" "unat ums mod 4096 = 0" and n: "unat ums div 4096 < unat n"
    and nb: "0 < unat nb" "unat nb \<le> 32"
  shows "\<exists>fm'. fm_init al junk env ums n nb fm = Some (0, fm') \<and>
    fm_good {unat ums ..< unat ums + user_frames ums n * 4096} fm' \<and> alloc_blocks fm' = {} \<and> fm_num_bins fm' = nb"
proof -
  obtain h1 h2 h3 where h: "fresh_table address_shift_hash = Some h1" "ht_ok h1" "ht_map h1 = Map.empty"
    "fresh_table address_hash = Some h3" "ht_ok h3" "ht_map h3 = Map.empty" using fresh_table_ok by metis
  let ?i = "ums div PAGE_SIZE" and ?na = "(0xFFFFFFFF - ums + 1) div PAGE_SIZE"
  let ?n = "min (n - ?i) ?na"
  have ui: "unat ?i = unat ums div 4096" by (simp add: PAGE_SIZE_def unat_div)
  have lt: "unat ums < 2 ^ 32" "0 < unat ums" using unat_u32_bound [of ums] ums(1) by (simp_all add: unat_gt_0)
  have "unat (0xFFFFFFFF - ums) = 2 ^ 32 - 1 - unat ums" using lt(1) by (subst unat_sub) (simp_all add: word_le_nat_alt)
  then have "unat (0xFFFFFFFF - ums + 1) = Suc (2 ^ 32 - 1 - unat ums)" by (rule unat_Suc_of_bound) (use lt in simp)
  then have "unat (0xFFFFFFFF - ums + 1) = 2 ^ 32 - unat ums" using lt(1) by simp
  then have una: "unat ?na = (2 ^ 32 - unat ums) div 4096" by (simp add: PAGE_SIZE_def unat_div)
  have ilt: "\<not> n < ?i" using n ui by (simp add: word_less_nat_alt)
  have usub: "unat (n - ?i) = unat n - unat ums div 4096" using ilt ui by (simp add: unat_sub not_less)
  have un: "unat ?n = user_frames ums n"
    unfolding user_frames_def usub [symmetric] una [symmetric] by (simp add: min_def word_le_nat_alt)
  let ?fm = "fm\<lparr>fm_m := free_mutex, fm_allocated := h1, fm_deallocated := h1, fm_parents := h3,
    fm_bins := replicate (unat nb) [], fm_num_bins := nb\<rparr>"
  have st: "booting (unat ums) (unat ums) ?fm" by (rule booting_start) (use boot h ums in simp_all)
  have "0 < user_frames ums n" "unat ums + user_frames ums n * 4096 \<le> 2 ^ 32"
    using n ums(2) lt by (auto simp: user_frames_def min_def)
  then obtain fm' where f: "fm_init_user_space al junk env ums ?n ?fm = Some (0, fm')"
    "fm_good {unat ums ..< unat ums + unat ?n * 4096} fm'" "alloc_blocks fm' = {}" "fm_num_bins fm' = nb"
    using fm_init_user_space_ok [OF st al, of ?n junk env] nb un by auto
  have mm: "(fm_m fm)\<lparr>m_lock := 1, m_owner := -1\<rparr> = free_mutex" by simp
  have "fm_init al junk env ums n nb fm = Some (0, fm')"
    using ilt f(1) by (simp add: fm_init_def mutex_init_def h(1,4) Let_def mm)
  then show ?thesis using f un by auto
qed

subsection \<open>Sequences of calls\<close>

datatype fm_op = Fm_alloc u32 | Fm_dealloc u32

definition fm_step :: "allocator \<Rightarrow> frame \<Rightarrow> kenv \<Rightarrow> frame_manager \<Rightarrow> fm_op \<Rightarrow> ((int \<times> u32 option) \<times> frame_manager) option" where
  "fm_step al junk env fm q = (case q of
     Fm_alloc np \<Rightarrow> map_option (\<lambda>(r, a, fm). ((r, a), fm)) (fm_alloc al junk env np fm)
   | Fm_dealloc p \<Rightarrow> map_option (\<lambda>(r, fm). ((r, None), fm)) (fm_dealloc al env p fm))"

lemma size_class:
  fixes np :: u32
  assumes "fm_good M fm" "0 < unat np" "unat np \<le> 2 ^ (unat (fm_num_bins fm) - 1)"
  obtains j where "unat np \<le> 2 ^ j" "2 ^ j < 2 * unat np"
proof -
  have "unat (fm_num_bins fm) - 1 < 32" using fm_goodD(4,5) [OF assms(1)] by linarith
  from find_bin_ok [OF assms(2,3) this] show thesis using that by blast
qed

lemma fm_step_returns:
  assumes "malloc_room al" "fm_good M fm"
  shows "\<exists>r fm'. fm_step al junk env fm q = Some (r, fm') \<and> fm_good M fm'"
proof (cases q)
  case (Fm_dealloc a)
  show ?thesis
  proof (cases "\<exists>j. (a, j) \<in> alloc_blocks fm")
    case True
    then show ?thesis using fm_dealloc_ok [OF assms(2,1)] Fm_dealloc by (fastforce simp: fm_step_def)
  next
    case False
    then show ?thesis using fm_dealloc_unknown [OF assms(2), of a al env] assms(2) Fm_dealloc by (simp add: fm_step_def)
  qed
next
  case (Fm_alloc np)
  show ?thesis
  proof (cases "unat np = 0 \<or> 2 ^ (unat (fm_num_bins fm) - 1) < unat np")
    case True
    then show ?thesis using fm_alloc_guard [OF assms(2) True, of al junk env] assms(2) Fm_alloc by (simp add: fm_step_def)
  next
    case False
    then have np: "0 < unat np" "unat np \<le> 2 ^ (unat (fm_num_bins fm) - 1)" by auto
    obtain j where j: "unat np \<le> 2 ^ j" "2 ^ j < 2 * unat np" by (rule size_class [OF assms(2) np])
    show ?thesis
    proof (cases "has_free j fm")
      case True
      then show ?thesis using fm_alloc_succeed [OF assms(2,1) np j True, of junk env] Fm_alloc by (auto simp: fm_step_def)
    next
      case False
      then show ?thesis using fm_alloc_fail [OF assms(2) np j False, of al junk env] assms(2) Fm_alloc by (simp add: fm_step_def)
    qed
  qed
qed

interpretation fmt: total_calls "fm_step al junk env" "\<lambda>fm. malloc_room al \<and> fm_good M fm" for al junk env M
  by unfold_locales (use fm_step_returns in blast)

text \<open>An allocator that hands out the highest unused address.\<close>

primrec scan_down :: "nat \<Rightarrow> (ptr \<Rightarrow> bool) \<Rightarrow> ptr" where
  "scan_down 0 live = NULL"
| "scan_down (Suc n) live = (if live (word_of_nat (Suc n)) then scan_down n live else word_of_nat (Suc n))"

definition top_alloc :: allocator where
  "top_alloc k live = scan_down (2 ^ 32 - 1) live"

lemma scan_down_free: "scan_down n live \<noteq> NULL \<Longrightarrow> \<not> live (scan_down n live)"
  by (induction n) (auto split: if_splits)

lemma scan_down_full: "n < 2 ^ 32 \<Longrightarrow> scan_down n live = NULL \<Longrightarrow> 0 < i \<Longrightarrow> i \<le> n \<Longrightarrow> live (word_of_nat i)"
proof (induction n)
  case (Suc n)
  have "unat (word_of_nat (Suc n) :: u32) = Suc n" using Suc.prems(1) by (simp only: unat_of_nat) (simp add: take_bit_nat_eq_self)
  then have "(word_of_nat (Suc n) :: u32) \<noteq> NULL" by auto
  with Suc show ?case by (cases "i = Suc n") (auto split: if_splits)
qed simp

lemma top_alloc_room: "malloc_room top_alloc"
  unfolding malloc_room_def malloc_ok_def
proof (intro conjI allI impI)
  fix k live assume "top_alloc k live \<noteq> NULL"
  then show "\<not> live (top_alloc k live)" unfolding top_alloc_def by (rule scan_down_free)
next
  fix k and live :: "ptr \<Rightarrow> bool" assume c: "card {p. live p} < 2 ^ 26"
  show "top_alloc k live \<noteq> NULL"
  proof
    assume t: "top_alloc k live = NULL"
    have "live p" if "p \<noteq> NULL" for p
    proof -
      have "0 < unat p" "unat p \<le> 2 ^ 32 - 1" using that unat_u32_bound [of p] by (simp_all add: unat_gt_0)
      then have "live (word_of_nat (unat p))"
        using scan_down_full [of "2 ^ 32 - 1" live "unat p"] t unfolding top_alloc_def by auto
      then show ?thesis by simp
    qed
    then have "UNIV - {NULL} \<subseteq> {p. live p}" by auto
    then have "card (UNIV - {NULL :: ptr}) \<le> card {p. live p}" by (intro card_mono) simp_all
    then show False using c by (simp add: card_Diff_singleton card_word)
  qed
qed

subsection \<open>Properties\<close>

text \<open>
  Booting the frame manager succeeds on every machine with at least one frame
  above \<open>USER_MEM_START\<close>: \<open>fm_init\<close> returns 0 (its loops end and none of its
  assertions fails), nothing is allocated, and the free blocks cover exactly the
  user memory that the machine has and that 32 bits can address, in a state with
  the invariant of the component.
\<close>

theorem fm_init_covers_user_memory:
  assumes "malloc_room al" "frames fm = Map.empty" "fnodes fm = Map.empty"
    and "ums \<noteq> 0" "unat ums mod 4096 = 0" "unat ums div 4096 < unat n" "0 < unat nb" "unat nb \<le> 32"
  shows "\<exists>fm'. fm_init al junk env ums n nb fm = Some (0, fm') \<and> alloc_blocks fm' = {} \<and> fm_num_bins fm' = nb \<and>
    fm_good {unat ums ..< unat ums + min (unat n - unat ums div 4096) ((2 ^ 32 - unat ums) div 4096) * 4096} fm'"
  using fm_init_ok [OF assms, of junk env] unfolding user_frames_def by blast

definition fm_unset :: frame_manager where
  "fm_unset = \<lparr>fm_m = \<lparr>m_lock = 0, m_owner = 0\<rparr>, fm_allocated = \<lparr>ht_size = 0, ht_max_size = 0, ht_hash = address_hash, ht_arr = []\<rparr>,
     fm_deallocated = \<lparr>ht_size = 0, ht_max_size = 0, ht_hash = address_hash, ht_arr = []\<rparr>,
     fm_parents = \<lparr>ht_size = 0, ht_max_size = 0, ht_hash = address_hash, ht_arr = []\<rparr>,
     fm_bins = [], fm_num_bins = 0, frames = Map.empty, fnodes = Map.empty, fm_mcalls = 0\<rparr>"

lemma fm_unset_empty: "frames fm_unset = Map.empty" "fnodes fm_unset = Map.empty"
  by (simp_all add: fm_unset_def)

theorem fm_init_covers_user_memory_witness:
  "\<exists>fm'. fm_init top_alloc (top_frame 0 0) \<lparr>k_started = False, k_tid = -1\<rparr> 0x1000000 8192 15 fm_unset = Some (0, fm') \<and>
    alloc_blocks fm' = {} \<and> fm_num_bins fm' = 15 \<and> fm_good {0x1000000 ..< 0x2000000} fm'"
  using fm_init_covers_user_memory [OF top_alloc_room fm_unset_empty,
      where ums = "0x1000000" and n = 8192 and nb = 15 and junk = "top_frame 0 0" and env = "\<lparr>k_started = False, k_tid = -1\<rparr>"]
  by simp

text \<open>A booted manager to state the other properties at.\<close>

lemma booted:
  obtains fm where "fm_good {0x1000000 ..< 0x2000000} fm" "alloc_blocks fm = {}" "fm_num_bins fm = 15"
    "fm_init top_alloc (top_frame 0 0) \<lparr>k_started = False, k_tid = -1\<rparr> 0x1000000 8192 15 fm_unset = Some (0, fm)"
  using fm_init_ok [OF top_alloc_room fm_unset_empty,
      where ums = "0x1000000" and n = 8192 and nb = 15 and junk = "top_frame 0 0" and env = "\<lparr>k_started = False, k_tid = -1\<rparr>"]
  by (auto simp: user_frames_def)

text \<open>
  C14: \<open>fm_alloc\<close> is correct on every branch. A request for 0 pages or for more than
  the largest block returns -1. Otherwise the size class is the least power of two
  \<open>2 ^ j\<close> that is large enough; the call returns -2 exactly when there is no free
  block of that size or larger, and otherwise returns 0 and the address of a block
  that lies in the managed memory and overlaps no block that was allocated before.
  Failing calls leave the manager as it was. No assertion fails, the recursion of
  \<open>request_split\<close> ends, and the invariant is kept.
\<close>

theorem fm_alloc_correct:
  assumes "fm_good M fm" "malloc_room al"
  shows "if unat np = 0 \<or> 2 ^ (unat (fm_num_bins fm) - 1) < unat np then fm_alloc al junk env np fm = Some (-1, None, fm)
    else \<exists>j. unat np \<le> 2 ^ j \<and> 2 ^ j < 2 * unat np \<and>
      (if \<not> has_free j fm then fm_alloc al junk env np fm = Some (-2, None, fm)
       else \<exists>a fm'. fm_alloc al junk env np fm = Some (0, Some a, fm') \<and> fm_good M fm' \<and>
         block_bytes (a, j) \<subseteq> M \<and> (\<forall>b \<in> alloc_blocks fm. block_bytes (a, j) \<inter> block_bytes b = {}) \<and>
         alloc_blocks fm' = insert (a, j) (alloc_blocks fm))"
proof (cases "unat np = 0 \<or> 2 ^ (unat (fm_num_bins fm) - 1) < unat np")
  case True
  then show ?thesis using fm_alloc_guard [OF assms(1) True] by simp
next
  case False
  then have np: "0 < unat np" "unat np \<le> 2 ^ (unat (fm_num_bins fm) - 1)" by auto
  obtain j where j: "unat np \<le> 2 ^ j" "2 ^ j < 2 * unat np" by (rule size_class [OF assms(1) np])
  have "if \<not> has_free j fm then fm_alloc al junk env np fm = Some (-2, None, fm)
       else \<exists>a fm'. fm_alloc al junk env np fm = Some (0, Some a, fm') \<and> fm_good M fm' \<and>
         block_bytes (a, j) \<subseteq> M \<and> (\<forall>b \<in> alloc_blocks fm. block_bytes (a, j) \<inter> block_bytes b = {}) \<and>
         alloc_blocks fm' = insert (a, j) (alloc_blocks fm)"
  proof (cases "has_free j fm")
    case True
    obtain a fm' where s: "fm_alloc al junk env np fm = Some (0, Some a, fm')" "fm_good M fm'"
      "alloc_blocks fm' = insert (a, j) (alloc_blocks fm)" "\<forall>c \<in> alloc_blocks fm. block_bytes (a, j) \<inter> block_bytes c = {}"
      using fm_alloc_succeed [OF assms np j True, of junk env] by blast
    have "block_bytes (a, j) \<subseteq> M" by (rule alloc_block_memory [OF fm_goodD(1) [OF s(2)]]) (simp add: s(3))
    then show ?thesis using s True by auto
  next
    case False
    then show ?thesis using fm_alloc_fail [OF assms(1) np j] by simp
  qed
  then show ?thesis using False j by auto
qed

theorem fm_alloc_correct_witness:
  "\<exists>fm. fm_good {0x1000000 ..< 0x2000000} fm \<and>
    (\<exists>j. 3 \<le> (2 :: nat) ^ j \<and> (2 :: nat) ^ j < 6 \<and>
      (if \<not> has_free j fm then fm_alloc top_alloc (top_frame 0 0) \<lparr>k_started = True, k_tid = 1\<rparr> 3 fm = Some (-2, None, fm)
       else \<exists>a fm'. fm_alloc top_alloc (top_frame 0 0) \<lparr>k_started = True, k_tid = 1\<rparr> 3 fm = Some (0, Some a, fm') \<and>
         block_bytes (a, j) \<subseteq> {0x1000000 ..< 0x2000000} \<and> alloc_blocks fm' = {(a, j)}))"
proof (rule booted)
  fix fm assume g: "fm_good {0x1000000 ..< 0x2000000} fm" "alloc_blocks fm = {}" "fm_num_bins fm = 15"
  have np: "\<not> (unat (3 :: u32) = 0 \<or> 2 ^ (unat (fm_num_bins fm) - 1) < unat (3 :: u32))" by (simp add: g(3))
  obtain j where j: "unat (3 :: u32) \<le> 2 ^ j" "2 ^ j < 2 * unat (3 :: u32)"
    "if \<not> has_free j fm then fm_alloc top_alloc (top_frame 0 0) \<lparr>k_started = True, k_tid = 1\<rparr> 3 fm = Some (-2, None, fm)
       else \<exists>a fm'. fm_alloc top_alloc (top_frame 0 0) \<lparr>k_started = True, k_tid = 1\<rparr> 3 fm = Some (0, Some a, fm') \<and>
         fm_good {0x1000000 ..< 0x2000000} fm' \<and> block_bytes (a, j) \<subseteq> {0x1000000 ..< 0x2000000} \<and>
         (\<forall>b \<in> alloc_blocks fm. block_bytes (a, j) \<inter> block_bytes b = {}) \<and> alloc_blocks fm' = insert (a, j) (alloc_blocks fm)"
    using fm_alloc_correct [OF g(1) top_alloc_room, of 3 "top_frame 0 0" "\<lparr>k_started = True, k_tid = 1\<rparr>", unfolded if_not_P [OF np]]
    by (elim exE conjE) (rule that)
  have "3 \<le> (2 :: nat) ^ j" "(2 :: nat) ^ j < 6" using j(1,2) by simp_all
  moreover have "if \<not> has_free j fm then fm_alloc top_alloc (top_frame 0 0) \<lparr>k_started = True, k_tid = 1\<rparr> 3 fm = Some (-2, None, fm)
       else \<exists>a fm'. fm_alloc top_alloc (top_frame 0 0) \<lparr>k_started = True, k_tid = 1\<rparr> 3 fm = Some (0, Some a, fm') \<and>
         block_bytes (a, j) \<subseteq> {0x1000000 ..< 0x2000000} \<and> alloc_blocks fm' = {(a, j)}"
    using j(3) unfolding g(2) by (cases "has_free j fm") (simp_all only: if_True if_False not_True_eq_False not_False_eq_True, blast)
  ultimately show ?thesis using g(1) by blast
qed

text \<open>
  C27: \<open>fm_dealloc\<close> is correct on every branch. Given the address of an allocated
  block it returns 0 and exactly that block stops being allocated, whatever has to
  be joined with it on the way up; given any other address it returns -2 and
  changes nothing. In both cases it returns, no assertion fails, and the invariant,
  in which no two free blocks are buddies, is kept.
\<close>

theorem fm_dealloc_correct:
  assumes "fm_good M fm" "malloc_room al"
  shows "if \<exists>j. (a, j) \<in> alloc_blocks fm
    then \<exists>fm'. fm_dealloc al env a fm = Some (0, fm') \<and> fm_good M fm' \<and>
      alloc_blocks fm' = {b \<in> alloc_blocks fm. fst b \<noteq> a}
    else fm_dealloc al env a fm = Some (-2, fm)"
proof (cases "\<exists>j. (a, j) \<in> alloc_blocks fm")
  case True
  then obtain j where j: "(a, j) \<in> alloc_blocks fm" by blast
  have u: "k = j" if "(a, k) \<in> alloc_blocks fm" for k by (rule block_address_unique [OF fm_goodD(1) [OF assms(1)] that j])
  have "alloc_blocks fm - {(a, j)} = {b \<in> alloc_blocks fm. fst b \<noteq> a}" by (auto dest: u)
  then show ?thesis using fm_dealloc_ok [OF assms j, of env] True by auto
next
  case False
  then show ?thesis using fm_dealloc_unknown [OF assms(1)] by simp
qed

theorem fm_dealloc_correct_witness:
  "\<exists>fm. fm_good {0x1000000 ..< 0x2000000} fm \<and>
     fm_dealloc top_alloc \<lparr>k_started = True, k_tid = 1\<rparr> 0x1000000 fm = Some (-2, fm)"
proof (rule booted)
  fix fm assume g: "fm_good {0x1000000 ..< 0x2000000} fm" "alloc_blocks fm = {}"
  show ?thesis
    using fm_dealloc_correct [OF g(1) top_alloc_room, where a = "0x1000000" and env = "\<lparr>k_started = True, k_tid = 1\<rparr>"] g
    by (intro exI [of _ fm]) simp
qed



end
