(* ===== verification/VirtualMemCorrect.thy ===== *)
theory VirtualMemCorrect
  imports VirtualMem PageDirectoryCorrect FrameManagerInit
begin

text \<open>
  The virtual memory manager on top of the frame manager and the page directory: what
  \<open>vmm_new_user_page\<close> and \<open>vmm_remove_user_page\<close> do to the address space, to the frames
  and to the contents of memory.
\<close>

subsection \<open>Flags and addresses\<close>

lemma USER_WR_eq: "USER_WR = 7"
  by (simp add: USER_WR_def NEW_FLAGS_def)

lemma USER_WR_ok: "flag_bits USER_WR" "entry_present USER_WR"
  using flags_7 by (simp_all add: USER_WR_eq)

lemma flag_bits_or: "flag_bits f \<Longrightarrow> flag_bits g \<Longrightarrow> flag_bits (f OR g)"
  by (simp add: flag_bits_def bit_simps)

lemma flag_bits_one: "k < 12 \<Longrightarrow> flag_bits (push_bit k 1)"
  by (auto simp: flag_bits_def bit_simps)

lemma user_flags_ok: "flag_bits (user_flags np i)" "entry_present (user_flags np i)"
proof -
  have "entry_present f \<Longrightarrow> entry_present (f OR g)" for f g by (simp add: present_bit bit_simps)
  then show "flag_bits (user_flags np i)" "entry_present (user_flags np i)"
    using USER_WR_ok flag_bits_or flag_bits_one [of 9] flag_bits_one [of 10]
    by (simp_all add: user_flags_def ADD_USER_START_FLAG_def ADD_USER_END_FLAG_def Let_def)
qed

lemma aligned_unat: "IS_PAGE_ALIGNED a \<longleftrightarrow> unat a mod 4096 = 0"
proof -
  have "IS_PAGE_ALIGNED a \<longleftrightarrow> unat (a mod 4096) = 0" by (simp add: IS_PAGE_ALIGNED_def unat_eq_0)
  then show ?thesis by (simp add: unat_mod)
qed

lemma aligned_next: "IS_PAGE_ALIGNED a \<Longrightarrow> IS_PAGE_ALIGNED (a + PAGE_SIZE)"
proof -
  have "(2 :: nat) ^ 32 mod 4096 = 0" by simp
  moreover assume "IS_PAGE_ALIGNED a"
  moreover have "unat (a + PAGE_SIZE) = (unat a + 4096) mod 2 ^ 32" by (simp add: PAGE_SIZE_def unat_word_ariths)
  ultimately show ?thesis by (simp add: aligned_unat mod_mod_cancel)
qed

lemma aligned_offset: "IS_PAGE_ALIGNED a \<Longrightarrow> IS_PAGE_ALIGNED (a + word_of_nat k * PAGE_SIZE)"
proof (induction k)
  case (Suc k)
  have "a + word_of_nat (Suc k) * PAGE_SIZE = a + word_of_nat k * PAGE_SIZE + PAGE_SIZE" by (simp add: algebra_simps)
  then show ?case using aligned_next [OF Suc.IH [OF Suc.prems]] by (simp only:)
qed simp

lemma next_page:
  assumes "unat a + 4096 < 2 ^ 32"
  shows "unat (a + PAGE_SIZE) = unat a + 4096"
  using assms by (simp add: PAGE_SIZE_def unat_word_ariths)

subsection \<open>The loops as batches\<close>

fun user_reqs :: "u32 \<Rightarrow> nat list \<Rightarrow> u32 \<Rightarrow> u32 \<Rightarrow> (u32 \<times> u32 \<times> u32 \<times> u32) list" where
  "user_reqs np [] v p = []"
| "user_reqs np (i # is) v p =
     (v, p, user_flags np (word_of_nat i), USER_WR) # user_reqs np is (v + PAGE_SIZE) (p + PAGE_SIZE)"

lemma new_pages_loop_batch: "new_pages_loop al np is v p pd m = create_all al pd (user_reqs np is v p) m"
  by (induction "is" arbitrary: v p pd m) (simp_all cong: if_cong)

lemma user_reqs_args:
  "IS_PAGE_ALIGNED v \<Longrightarrow> IS_PAGE_ALIGNED p \<Longrightarrow> \<forall>(v, p, f, g) \<in> set (user_reqs np is v p). map_args v p g"
  using USER_WR_ok by (induction np "is" v p rule: user_reqs.induct) (auto simp: map_args_def aligned_next)

lemma any_mapped_iff:
  assumes "pd_ok (directory pd) m"
  shows "any_mapped pd n v m = Some (\<exists>k < n. pd_lookup pd m (v + word_of_nat k * PAGE_SIZE) \<noteq> None)"
proof (induction n arbitrary: v)
  case (Suc n)
  have shift: "(\<exists>k < Suc n. P k) \<longleftrightarrow> P 0 \<or> (\<exists>k < n. P (Suc k))" for P :: "nat \<Rightarrow> bool" by (auto simp: less_Suc_eq_0_disj)
  have "v + word_of_nat (Suc k) * PAGE_SIZE = v + PAGE_SIZE + word_of_nat k * PAGE_SIZE" for k by (simp add: algebra_simps)
  then show ?case using Suc.IH pd_get_mapping_ok [OF assms, of v]
    by (auto simp: shift add.assoc distrib_right split: option.splits if_splits)
qed simp

text \<open>What a run of consecutive mappings maps.\<close>

lemma in_page:
  assumes "IS_PAGE_ALIGNED v"
  shows "unat w div 4096 = unat v div 4096 \<longleftrightarrow> unat v \<le> unat w \<and> unat w < unat v + 4096"
proof -
  obtain q where q: "unat v = q * 4096" using assms by (auto simp: aligned_unat elim: mod_eqE)
  show ?thesis unfolding q by (auto simp: div_nat_eqI)
qed

definition req_entry :: "u32 \<times> u32 \<times> u32 \<times> u32 \<Rightarrow> u32 option" where
  "req_entry r = (let e = ADD_FLAGS (fst (snd r)) (fst (snd (snd r))) in if entry_present e then Some e else None)"

lemma map_consecutive:
  assumes "\<And>k. k < length rs \<Longrightarrow> fst (rs ! k) = v + word_of_nat k * PAGE_SIZE"
  shows "IS_PAGE_ALIGNED v \<Longrightarrow> unat v + 4096 * length rs \<le> 2 ^ 32 \<Longrightarrow>
    map_all rs g w = (if unat v \<le> unat w \<and> unat w < unat v + 4096 * length rs
       then req_entry (rs ! ((unat w - unat v) div 4096)) else g w)"
  using assms
proof (induction rs arbitrary: v g)
  case Nil
  then show ?case by (auto simp: map_all_def)
next
  case (Cons q rs)
  have q: "fst q = v" using Cons.prems(3) [of 0] by simp
  let ?g = "map_page v (ADD_FLAGS (fst (snd q)) (fst (snd (snd q)))) g"
  have head: "?g w = (if unat v \<le> unat w \<and> unat w < unat v + 4096 then req_entry q else g w)"
    using in_page [OF Cons.prems(1), of w] by (simp add: map_page_def req_entry_def)
  have unf: "map_all (q # rs) g w = map_all rs ?g w" using q by (simp add: map_all_def split_beta)
  show ?case
  proof (cases "rs = []")
    case True
    have k: "(unat w - unat v) div 4096 = 0" if "unat w < unat v + 4096" using that by simp
    show ?thesis unfolding unf unfolding True using head k
      by (cases "unat v \<le> unat w \<and> unat w < unat v + 4096") (auto simp: map_all_def)
  next
    case False
    then have lt: "unat v + 4096 < 2 ^ 32" using Cons.prems(2) by (cases rs) simp_all
    note nx = next_page [OF lt]
    have "fst (rs ! k) = v + PAGE_SIZE + word_of_nat k * PAGE_SIZE" if "k < length rs" for k
      using Cons.prems(3) [of "Suc k"] that by (simp add: algebra_simps)
    then have IH: "map_all rs ?g w = (if unat v + 4096 \<le> unat w \<and> unat w < unat v + 4096 + 4096 * length rs
        then req_entry (rs ! ((unat w - (unat v + 4096)) div 4096)) else ?g w)"
      using Cons.IH [OF aligned_next [OF Cons.prems(1)], of ?g] Cons.prems(2) unfolding nx by simp
    show ?thesis
    proof (cases "unat v + 4096 \<le> unat w")
      case True
      then have k: "(unat w - unat v) div 4096 = Suc ((unat w - (unat v + 4096)) div 4096)"
        using le_div_geq [of 4096 "unat w - unat v"] by simp
      show ?thesis unfolding unf IH k using True head by auto
    next
      case False
      then show ?thesis unfolding unf IH using head by auto
    qed
  qed
qed

lemma user_reqs_nth:
  "length (user_reqs np is v p) = length is"
  "k < length is \<Longrightarrow> user_reqs np is v p ! k =
     (v + word_of_nat k * PAGE_SIZE, p + word_of_nat k * PAGE_SIZE, user_flags np (word_of_nat (is ! k)), USER_WR)"
proof (induction np "is" v p arbitrary: k rule: user_reqs.induct)
  case (2 np i "is" v p)
  { case 1 show ?case using 2(1) by simp }
  { case 2 then show ?case using "2.IH"(2) [of "k - 1"] by (cases k) (simp_all add: algebra_simps) }
qed simp_all

lemma map_user_reqs:
  assumes "IS_PAGE_ALIGNED p" "IS_PAGE_ALIGNED v" "unat v + 4096 * n \<le> 2 ^ 32"
  shows "map_all (user_reqs np [0..<n] v p) g w =
      (if unat v \<le> unat w \<and> unat w < unat v + 4096 * n
       then Some (ADD_FLAGS (p + word_of_nat ((unat w - unat v) div 4096) * PAGE_SIZE)
              (user_flags np (word_of_nat ((unat w - unat v) div 4096)))) else g w)"
proof -
  let ?rs = "user_reqs np [0..<n] v p" and ?k = "(unat w - unat v) div 4096"
  have len: "length ?rs = n" by (simp add: user_reqs_nth)
  have "map_all ?rs g w = (if unat v \<le> unat w \<and> unat w < unat v + 4096 * n then req_entry (?rs ! ?k) else g w)"
    using map_consecutive [of ?rs v g w] assms(2,3) by (simp add: user_reqs_nth)
  moreover have "req_entry (?rs ! ?k) = Some (ADD_FLAGS (p + word_of_nat ?k * PAGE_SIZE) (user_flags np (word_of_nat ?k)))"
    if "unat w < unat v + 4096 * n" "unat v \<le> unat w"
  proof -
    have k: "?k < n" using that by (simp add: div_less_iff_less_mult less_diff_conv2 mult.commute add.commute)
    have "entry_present (ADD_FLAGS (p + word_of_nat ?k * PAGE_SIZE) (user_flags np (word_of_nat ?k)))"
      using add_flags_present [OF aligned_offset [OF assms(1)]] user_flags_ok(2) by simp
    then show ?thesis using user_reqs_nth(2) [of ?k "[0..<n]" np v p] k by (simp add: req_entry_def)
  qed
  ultimately show ?thesis by simp
qed

subsection \<open>What a batch leaves alone\<close>

lemma queue_or_write_fields:
  "batch_enabled pd \<Longrightarrow> queue_or_write al v e pt res pd m = Some (r, pd', m') \<Longrightarrow>
   phys m' = phys m \<and> p_addr_list pd' = p_addr_list pd \<and> num_pages pd' = num_pages pd \<and> batch_enabled pd'"
  by (simp only: queue_or_write_batch) (auto simp: free_page_table_def split: if_splits)

lemma create_fields:
  assumes "pd_create_mapping al pd v p f g m = Some (r, pd', m')" "batch_enabled pd"
  shows "phys m' = phys m \<and> p_addr_list pd' = p_addr_list pd \<and> num_pages pd' = num_pages pd \<and> batch_enabled pd'"
proof -
  have "phys (snd (new_page_table al m)) = phys m" by (simp add: new_page_table_def Let_def)
  then show ?thesis
    using assms unfolding pd_create_mapping_def Let_def
    by (auto simp: split_beta split: if_splits bind_splits dest!: queue_or_write_fields [rotated])
qed

lemma create_codes: "pd_create_mapping al pd v p f g m = Some (r, pd', m') \<Longrightarrow> r \<le> 0"
  unfolding pd_create_mapping_def queue_or_write_def Let_def
  by (auto simp: split_beta Let_def split: if_splits bind_splits)

lemma create_all_codes: "create_all al pd rs m = Some (r, pd', m') \<Longrightarrow> r \<le> 0"
proof (induction rs arbitrary: pd m)
  case (Cons q rs)
  then show ?case by (cases q) (fastforce split: bind_splits if_splits)
qed simp

lemma create_all_fields:
  "create_all al pd rs m = Some (r, pd', m') \<Longrightarrow> batch_enabled pd \<Longrightarrow>
   phys m' = phys m \<and> p_addr_list pd' = p_addr_list pd \<and> num_pages pd' = num_pages pd \<and> batch_enabled pd'"
proof (induction rs arbitrary: pd m)
  case (Cons q rs)
  obtain v p f g where q: "q = (v, p, f, g)" by (cases q)
  then obtain r1 pd1 m1 where c: "pd_create_mapping al pd v p f g m = Some (r1, pd1, m1)"
    "(if r1 < 0 then Some (r1, pd1, m1) else create_all al pd1 rs m1) = Some (r, pd', m')"
    using Cons.prems(1) by (auto split: bind_splits)
  show ?case
    using create_fields [OF c(1) Cons.prems(2)] Cons.IH [of pd1 m1] c(2) by (auto split: if_splits)
qed simp

lemma commit_tasks_phys: "commit_tasks dir ts m = Some m' \<Longrightarrow> phys m' = phys m"
  by (induction dir ts m rule: commit_tasks.induct) (auto simp: pt_set_def split: bind_splits)

lemma commit_fields:
  "pd_commit_mapping pd m = Some (pd', m') \<Longrightarrow>
   phys m' = phys m \<and> p_addr_list pd' = p_addr_list pd \<and> num_pages pd' = num_pages pd"
  by (auto simp: pd_commit_mapping_def commit_tasks_phys split: bind_splits)

subsection \<open>\<open>memset\<close>\<close>

lemma lookup_phys [simp]: "pd_lookup pd (m\<lparr>phys := x\<rparr>) = pd_lookup pd m"
  by (simp add: fun_eq_iff pd_lookup_def pd_view_def)

lemma pd_ok_phys [simp]: "pd_ok d (m\<lparr>phys := x\<rparr>) = pd_ok d m"
  by (simp add: pd_ok_def)

lemma memset_pages:
  assumes "\<And>f. length (phys m f) = 4096"
  shows "pd_ok (directory pd) m \<Longrightarrow> (\<And>k. k < n \<Longrightarrow> pd_lookup pd m (v + word_of_nat k * PAGE_SIZE) = Some (e k)) \<Longrightarrow>
    memset_zero pd v (n * 4096) m =
      Some (m\<lparr>phys := (\<lambda>f. if \<exists>k < n. f = REMOVE_FLAGS (e k) then replicate 4096 0 else phys m f)\<rparr>)"
  using assms
proof (induction n arbitrary: v m e)
  case 0
  then show ?case by (subst memset_zero.simps) simp
next
  case (Suc n)
  let ?f = "REMOVE_FLAGS (e 0)"
  let ?m = "m\<lparr>phys := (phys m)(?f := replicate 4096 0)\<rparr>"
  have "pd_lookup pd m v = Some (e 0)" using Suc.prems(2) [of 0] by simp
  then have g: "pd_get_mapping (Some pd) v m = Some (0, Some (e 0))" using pd_get_mapping_ok [OF Suc.prems(1), of v] by simp
  have nx: "v + PAGE_SIZE + word_of_nat k * PAGE_SIZE = v + word_of_nat (Suc k) * PAGE_SIZE" for k by (simp add: algebra_simps)
  have IH: "memset_zero pd (v + PAGE_SIZE) (n * 4096) ?m =
      Some (?m\<lparr>phys := (\<lambda>f. if \<exists>k < n. f = REMOVE_FLAGS (e (Suc k)) then replicate 4096 0 else phys ?m f)\<rparr>)"
    by (rule Suc.IH) (use Suc.prems in \<open>auto simp: nx simp del: of_nat_Suc\<close>)
  have "memset_zero pd v (Suc n * 4096) m = memset_zero pd (v + PAGE_SIZE) (n * 4096) ?m"
    using g Suc.prems(3) by (subst memset_zero.simps) simp
  moreover have "(\<lambda>f. if \<exists>k < n. f = REMOVE_FLAGS (e (Suc k)) then replicate 4096 0 else phys ?m f) =
      (\<lambda>f. if \<exists>k < Suc n. f = REMOVE_FLAGS (e k) then replicate 4096 0 else phys m f)"
    by (auto simp: fun_eq_iff less_Suc_eq_0_disj)
  ultimately show ?case using IH by simp
qed

subsection \<open>Frames\<close>

text \<open>One call of \<open>fm_alloc\<close>, success or failure.\<close>

lemma fm_alloc_returns:
  assumes good: "fm_good M fm" and al: "malloc_room al"
  obtains r where "fm_alloc al junk env np fm = Some (r, None, fm)" "r < 0"
  | a j fm' where "fm_alloc al junk env np fm = Some (0, Some a, fm')" "fm_good M fm'" "unat np \<le> 2 ^ j" "2 ^ j < 2 * unat np"
    "alloc_blocks fm' = insert (a, j) (alloc_blocks fm)" "(a, j) \<notin> alloc_blocks fm" "IS_PAGE_ALIGNED a" "block_bytes (a, j) \<subseteq> M"
    "\<forall>c \<in> alloc_blocks fm. block_bytes (a, j) \<inter> block_bytes c = {}" "unat a + 2 ^ j * 4096 \<le> 2 ^ 32"
proof (cases "unat np = 0 \<or> 2 ^ (unat (fm_num_bins fm) - 1) < unat np")
  case True
  then show thesis using that(1) fm_alloc_guard [OF good True, of al junk env] by simp
next
  case False
  then have np: "0 < unat np" "unat np \<le> 2 ^ (unat (fm_num_bins fm) - 1)" by auto
  obtain j where j: "unat np \<le> 2 ^ j" "2 ^ j < 2 * unat np" by (rule size_class [OF good np])
  show thesis
  proof (cases "has_free j fm")
    case False
    then show thesis using that(1) fm_alloc_fail [OF good np j False, of al junk env] by simp
  next
    case True
    obtain a fm' where s: "fm_alloc al junk env np fm = Some (0, Some a, fm')" "fm_good M fm'"
      "alloc_blocks fm' = insert (a, j) (alloc_blocks fm)" "\<forall>c \<in> alloc_blocks fm. block_bytes (a, j) \<inter> block_bytes c = {}"
      using fm_alloc_succeed [OF good al np j True, of junk env] by blast
    have b: "(a, j) \<in> alloc_blocks fm'" using s(3) by simp
    obtain f fr where f: "frames fm' f = Some fr" "f_addr fr = a" "f_i fr = j" using b by (auto simp: alloc_blocks_iff)
    have "unat a mod 4096 = 0" "unat a + 2 ^ j * 4096 \<le> 2 ^ 32"
      using fm_invD(1) [OF fm_goodD(1) [OF s(2)]] f by (auto simp: heap_ok_def frame_wf_def)
    moreover have "(a, j) \<notin> alloc_blocks fm"
    proof
      assume "(a, j) \<in> alloc_blocks fm"
      then have "block_bytes (a, j) = {}" using s(4) by blast
      then show False by (simp add: block_bytes_def)
    qed
    ultimately show thesis
      using that(2) [OF s(1,2) j s(3)] s(4) alloc_block_memory [OF fm_goodD(1) [OF s(2)] b] by (simp add: aligned_unat)
  qed
qed

lemma fm_give_back:
  assumes "fm_good M fm'" "malloc_room al" "alloc_blocks fm' = insert (a, j) B" "(a, j) \<notin> B"
  obtains fm'' where "fm_dealloc al env a fm' = Some (0, fm'')" "fm_good M fm''" "alloc_blocks fm'' = B"
proof -
  have "(a, j) \<in> alloc_blocks fm'" using assms(3) by simp
  from fm_dealloc_ok [OF assms(1,2) this, of env] show thesis using that assms(3,4) by auto
qed

subsection \<open>\<open>vmm_new_user_page\<close>\<close>

lemma unat_offset:
  assumes "unat a + n * 4096 \<le> 2 ^ 32" "k < n"
  shows "unat (a + word_of_nat k * PAGE_SIZE) = unat a + k * 4096"
proof -
  have "k * 4096 < n * 4096" using assms(2) by simp
  then have lt: "unat a + k * 4096 < 2 ^ 32" using assms(1) by linarith
  then have "k < 2 ^ 32" by simp
  then have "unat (word_of_nat k :: u32) = k" by (simp add: unat_of_nat take_bit_nat_eq_self)
  then have "unat (word_of_nat k * PAGE_SIZE) = k * 4096" using lt by (simp add: PAGE_SIZE_def unat_word_ariths)
  then show ?thesis using lt by (simp add: unat_word_ariths)
qed

text \<open>The address space and the memory after \<open>n\<close> pages at \<open>base\<close> have been mapped to the block at \<open>a\<close>.\<close>

definition user_pages_at :: "u32 \<Rightarrow> u32 \<Rightarrow> u32 \<Rightarrow> page_directory \<Rightarrow> vmem \<Rightarrow> page_directory \<Rightarrow> vmem \<Rightarrow> bool" where
  "user_pages_at base np a pd m pd' m' \<longleftrightarrow> pd_ok (directory pd') m' \<and> \<not> batch_enabled pd' \<and> mapping_tasks pd' = [] \<and>
     (\<forall>w. pd_lookup pd' m' w = (if unat base \<le> unat w \<and> unat w < unat base + unat np * 4096
        then Some (ADD_FLAGS (a + word_of_nat ((unat w - unat base) div 4096) * PAGE_SIZE)
               (user_flags np (word_of_nat ((unat w - unat base) div 4096))))
        else pd_lookup pd m w)) \<and>
     (\<forall>f. phys m' f = (if \<exists>k < unat np. f = a + word_of_nat k * PAGE_SIZE then replicate 4096 0 else phys m f))"

lemma map_user_pages:
  assumes ok: "pd_ok (directory pd) m" "\<not> batch_enabled pd" "mapping_tasks pd = []" and al: "paged al"
    and pg: "\<And>f. length (phys m f) = 4096" and b: "IS_PAGE_ALIGNED base" "unat base + unat np * 4096 \<le> 2 ^ 32"
    and a: "IS_PAGE_ALIGNED a" and pd1: "pd1 = pd\<lparr>batch_enabled := True\<rparr>"
  obtains r pd2 m2 where "new_pages_loop al np [0..<unat np] base a pd1 m = Some (r, pd2, m2)" "r < 0"
  | pd2 m2 pd3 m3 m4 where "new_pages_loop al np [0..<unat np] base a pd1 m = Some (0, pd2, m2)"
    "pd_commit_mapping pd2 m2 = Some (pd3, m3)" "memset_zero pd3 base (unat np * 4096) m3 = Some m4"
    "user_pages_at base np a pd m pd3 m4" "p_addr_list pd3 = p_addr_list pd"
proof -
  let ?rs = "user_reqs np [0..<unat np] base a"
  have bg: "pd_begin_mapping (Some pd) = (0, Some pd1)" using ok(2) pd1 by (simp add: pd_begin_mapping_def)
  have b1: "batch_enabled pd1" by (simp add: pd1)
  note loop = new_pages_loop_batch [of al np "[0..<unat np]" base a pd1 m]
  obtain r pd2 m2 where c: "create_all al pd1 ?rs m = Some (r, pd2, m2)" "r = 0 \<longrightarrow>
      (\<exists>pd3 m3. pd_commit_mapping pd2 m2 = Some (pd3, m3) \<and> pd_ok (directory pd3) m3 \<and>
        \<not> batch_enabled pd3 \<and> mapping_tasks pd3 = [] \<and> (\<forall>w. pd_lookup pd3 m3 w = map_all ?rs (pd_lookup pd m) w))"
    using batch_commit [OF ok(1) al ok(2,3) user_reqs_args [OF b(1) a, of np "[0..<unat np]"] bg] by blast
  have r: "r \<le> 0" using create_all_codes [OF c(1)] .
  show thesis
  proof (cases "r = 0")
    case False
    then show thesis using that(1) loop c(1) r by simp
  next
    case True
    then obtain pd3 m3 where d: "pd_commit_mapping pd2 m2 = Some (pd3, m3)" "pd_ok (directory pd3) m3" "\<not> batch_enabled pd3"
      "mapping_tasks pd3 = []" "\<And>w. pd_lookup pd3 m3 w = map_all ?rs (pd_lookup pd m) w" using c(2) by blast
    have f: "phys m3 = phys m" "p_addr_list pd3 = p_addr_list pd"
      using create_all_fields [OF c(1) b1] commit_fields [OF d(1)] by (simp_all add: pd1)
    have lk: "pd_lookup pd3 m3 w = (if unat base \<le> unat w \<and> unat w < unat base + unat np * 4096
        then Some (ADD_FLAGS (a + word_of_nat ((unat w - unat base) div 4096) * PAGE_SIZE)
               (user_flags np (word_of_nat ((unat w - unat base) div 4096)))) else pd_lookup pd m w)" for w
      using d(5) map_user_reqs [OF a b(1), of "unat np" np "pd_lookup pd m" w] b(2) by (simp add: mult.commute)
    let ?e = "\<lambda>k. ADD_FLAGS (a + word_of_nat k * PAGE_SIZE) (user_flags np (word_of_nat k))"
    have e: "pd_lookup pd3 m3 (base + word_of_nat k * PAGE_SIZE) = Some (?e k)" if "k < unat np" for k
      using lk [of "base + word_of_nat k * PAGE_SIZE"] unat_offset [OF b(2) that] that by simp
    have rf: "REMOVE_FLAGS (?e k) = a + word_of_nat k * PAGE_SIZE" for k
      by (rule add_flags(1) [OF aligned_offset [OF a] user_flags_ok(1)])
    have pg3: "length (phys m3 f) = 4096" for f using pg f(1) by simp
    let ?m4 = "m3\<lparr>phys := (\<lambda>f. if \<exists>k < unat np. f = REMOVE_FLAGS (?e k) then replicate 4096 0 else phys m3 f)\<rparr>"
    have ms: "memset_zero pd3 base (unat np * 4096) m3 = Some ?m4" by (rule memset_pages [OF pg3 d(2) e])
    have "user_pages_at base np a pd m pd3 ?m4"
      unfolding user_pages_at_def using d(2,3,4) lk f(1) by (auto simp: rf)
    then show thesis using that(2) [OF _ d(1) ms _ f(2)] loop c(1) True by simp
  qed
qed

lemma undo_ok:
  assumes "fm_good M fm" "malloc_room (c_fal c)" "alloc_blocks fm = insert (a, j) B" "(a, j) \<notin> B"
  shows "\<exists>pd' m' fm'. undo_mapping c e a pd m fm = Some (e, Some pd', m', fm') \<and> fm_good M fm' \<and> alloc_blocks fm' = B"
proof (rule fm_give_back [OF assms, of "c_env c"])
  fix fm' assume g: "fm_dealloc (c_fal c) (c_env c) a fm = Some (0, fm')" "fm_good M fm'" "alloc_blocks fm' = B"
  obtain pd1 m1 where ab: "pd_abort_mapping pd m = (pd1, m1)" by (cases "pd_abort_mapping pd m")
  have "\<exists>r s pd'. pd_dealloc_frame (Some pd1) a = (r, s, Some pd')" by (simp add: pd_dealloc_frame_def split: option.split)
  then obtain r s pd' where "pd_dealloc_frame (Some pd1) a = (r, s, Some pd')" by blast
  then show ?thesis using g ab by (simp add: undo_mapping_def)
qed

lemma lookup_mcalls [simp]: "pd_lookup pd (m\<lparr>vm_mcalls := x\<rparr>) = pd_lookup pd m"
  by (simp add: fun_eq_iff pd_lookup_def pd_view_def)

lemma pd_ok_mcalls [simp]: "pd_ok d (m\<lparr>vm_mcalls := x\<rparr>) = pd_ok d m"
  by (simp add: pd_ok_def)

lemma lookup_directory: "directory pd' = directory pd \<Longrightarrow> pd_lookup pd' m = pd_lookup pd m"
  by (simp add: fun_eq_iff pd_lookup_def)

lemma user_pages_at_cong:
  assumes "user_pages_at base np a pd m pd' m'" "directory pd = directory pd0" "pts m = pts m0" "phys m = phys m0"
  shows "user_pages_at base np a pd0 m0 pd' m'"
proof -
  have l: "pd_lookup pd m = pd_lookup pd0 m0" using assms(2,3) by (simp add: fun_eq_iff pd_lookup_def pd_view_def)
  show ?thesis using assms(1) unfolding user_pages_at_def assms(4) l .
qed

text \<open>The guard against wrap around, and the amount of memory, in numbers.\<close>

lemma size_arith:
  assumes "0 < unat np" "unat np \<le> 0xFFFF"
  shows "unat (np * PAGE_SIZE) = unat np * 4096"
    and "base + np * PAGE_SIZE - 1 < base \<longleftrightarrow> 2 ^ 32 < unat base + unat np * 4096"
proof -
  show n: "unat (np * PAGE_SIZE) = unat np * 4096" using assms(2) by (simp add: PAGE_SIZE_def unat_word_ariths)
  let ?n = "np * PAGE_SIZE - 1"
  have "np * PAGE_SIZE \<noteq> 0" using n assms(1) by auto
  then have n1: "unat ?n = unat np * 4096 - 1" using n by (simp add: unat_minus_one)
  have e: "base + np * PAGE_SIZE - 1 = base + ?n" by simp
  have "base + ?n < base \<longleftrightarrow> 2 ^ 32 \<le> unat base + unat ?n"
    using unat_u32_bound [of base] unat_u32_bound [of ?n]
    by (auto simp: word_less_nat_alt unat_word_ariths mod_if)
  then show "base + np * PAGE_SIZE - 1 < base \<longleftrightarrow> 2 ^ 32 < unat base + unat np * 4096"
    unfolding e n1 using assms(1) by linarith
qed

lemma pd_alloc_frame_cases:
  obtains e m' where "pd_alloc_frame al (Some pd) a np m = (e, Some (pd\<lparr>num_pages := num_pages pd + np\<rparr>), m')" "e < 0"
    "pts m' = pts m" "phys m' = phys m"
  | m' where "pd_alloc_frame al (Some pd) a np m = (0, Some (pd\<lparr>num_pages := num_pages pd + np,
        p_addr_list := \<lparr>md_p_addr = a, md_num_pages = np\<rparr> # p_addr_list pd\<rparr>), m')" "pts m' = pts m" "phys m' = phys m"
  by (cases "al (vm_mcalls m) (\<lambda>_. False) = NULL"; cases "al (Suc (vm_mcalls m)) (\<lambda>_. False) = NULL")
    (auto simp: pd_alloc_frame_def malloc_obj_def Let_def)

lemma pd_ok_pts: "pts m' = pts m \<Longrightarrow> pd_ok d m' = pd_ok d m"
  by (simp add: pd_ok_def)

text \<open>What the caller learns from the return code.\<close>

definition new_pages_result :: "int \<Rightarrow> u32 \<Rightarrow> u32 \<Rightarrow> page_directory \<Rightarrow> vmem \<Rightarrow> frame_manager \<Rightarrow> page_directory \<Rightarrow> vmem \<Rightarrow> frame_manager \<Rightarrow> bool" where
  "new_pages_result r base np pd m fm pd' m' fm' \<longleftrightarrow>
     (if r = 0 then \<exists>a j. unat np \<le> 2 ^ j \<and> 2 ^ j < 2 * unat np \<and> alloc_blocks fm' = insert (a, j) (alloc_blocks fm) \<and>
        (\<forall>b \<in> alloc_blocks fm. block_bytes (a, j) \<inter> block_bytes b = {}) \<and>
        user_pages_at base np a pd m pd' m' \<and> p_addr_list pd' = \<lparr>md_p_addr = a, md_num_pages = np\<rparr> # p_addr_list pd
      else r < 0 \<and> alloc_blocks fm' = alloc_blocks fm)"

lemma new_user_page_ok:
  assumes ok: "pd_ok (directory pd) m" "\<not> batch_enabled pd" "mapping_tasks pd = []" and al: "paged (c_al c)"
    and pg: "\<And>f. length (phys m f) = 4096" and b: "IS_PAGE_ALIGNED base" "unat base + unat np * 4096 \<le> 2 ^ 32"
    and np: "0 < unat np" "unat np \<le> 0xFFFF" and fm: "fm_good M fm" "malloc_room (c_fal c)"
    and free: "\<And>k. k < unat np \<Longrightarrow> pd_lookup pd m (base + word_of_nat k * PAGE_SIZE) = None"
  shows "\<exists>r pd' m' fm'. vmm_new_user_page c (Some pd) base np m fm = Some (r, Some pd', m', fm') \<and> fm_good M fm' \<and>
    new_pages_result r base np pd m fm pd' m' fm'"
proof -
  note ar = size_arith [OF np]
  have g: "\<not> (np = 0 \<or> 0xFFFF < np)" "\<not> base + np * PAGE_SIZE - 1 < base"
    using np ar(2) [of base] b(2) by (auto simp: word_less_nat_alt)
  have am: "any_mapped pd (unat np) base m = Some False" using any_mapped_iff [OF ok(1), of "unat np" base] free by auto
  let ?run = "vmm_new_user_page c (Some pd) base np m fm"
  show ?thesis
  proof (rule fm_alloc_returns [OF fm, of "c_junk c" "c_env c" np])
    fix r assume "fm_alloc (c_fal c) (c_junk c) (c_env c) np fm = Some (r, None, fm)" "r < 0"
    then have "?run = Some (-2, Some pd, m, fm)" using g am by (simp add: vmm_new_user_page_def)
    then show ?thesis using fm(1) by (intro exI conjI) (assumption, auto simp: new_pages_result_def)
  next
    fix a j fm1 assume f: "fm_alloc (c_fal c) (c_junk c) (c_env c) np fm = Some (0, Some a, fm1)" "fm_good M fm1"
      "unat np \<le> 2 ^ j" "2 ^ j < 2 * unat np" "alloc_blocks fm1 = insert (a, j) (alloc_blocks fm)" "(a, j) \<notin> alloc_blocks fm"
      "IS_PAGE_ALIGNED a" "\<forall>c \<in> alloc_blocks fm. block_bytes (a, j) \<inter> block_bytes c = {}"
    show ?thesis
    proof (rule pd_alloc_frame_cases [of "c_al c" pd a np m])
      fix e m1 assume p: "pd_alloc_frame (c_al c) (Some pd) a np m = (e, Some (pd\<lparr>num_pages := num_pages pd + np\<rparr>), m1)" "e < 0"
      obtain fm2 where d: "fm_dealloc (c_fal c) (c_env c) a fm1 = Some (0, fm2)" "fm_good M fm2" "alloc_blocks fm2 = alloc_blocks fm"
        by (rule fm_give_back [OF f(2) fm(2) f(5,6)])
      have "?run = Some (-3, Some (pd\<lparr>num_pages := num_pages pd + np\<rparr>), m1, fm2)"
        using g am f(1) p d(1) by (simp add: vmm_new_user_page_def)
      then show ?thesis using d(2,3) by (intro exI conjI) (assumption, auto simp: new_pages_result_def)
    next
      let ?pd = "pd\<lparr>num_pages := num_pages pd + np, p_addr_list := \<lparr>md_p_addr = a, md_num_pages = np\<rparr> # p_addr_list pd\<rparr>"
      fix m1 assume p: "pd_alloc_frame (c_al c) (Some pd) a np m = (0, Some ?pd, m1)" "pts m1 = pts m" "phys m1 = phys m"
      have pre: "pd_ok (directory ?pd) m1" "\<not> batch_enabled ?pd" "mapping_tasks ?pd = []" "\<And>f. length (phys m1 f) = 4096"
        using ok pd_ok_pts [OF p(2)] pg p(3) by simp_all
      let ?pd1 = "?pd\<lparr>batch_enabled := True\<rparr>"
      have bg: "pd_begin_mapping (Some ?pd) = (0, Some ?pd1)" using ok(2) by (simp add: pd_begin_mapping_def)
      show ?thesis
      proof (rule map_user_pages [OF pre(1-3) al pre(4) b f(7) refl])
        fix r pd2 m2 assume l: "new_pages_loop (c_al c) np [0..<unat np] base a ?pd1 m1 = Some (r, pd2, m2)" "r < 0"
        obtain pd3 m3 fm3 where u: "undo_mapping c (-4) a pd2 m2 fm1 = Some (-4, Some pd3, m3, fm3)" "fm_good M fm3"
          "alloc_blocks fm3 = alloc_blocks fm" using undo_ok [OF f(2) fm(2) f(5,6)] by blast
        have "?run = Some (-4, Some pd3, m3, fm3)"
          using g am f(1) p(1) bg l u(1) by (simp add: vmm_new_user_page_def)
        then show ?thesis using u(2,3) by (intro exI conjI) (assumption, auto simp: new_pages_result_def)
      next
        fix pd2 m2 pd3 m3 m4 assume l: "new_pages_loop (c_al c) np [0..<unat np] base a ?pd1 m1 = Some (0, pd2, m2)"
          "pd_commit_mapping pd2 m2 = Some (pd3, m3)" "memset_zero pd3 base (unat np * 4096) m3 = Some m4"
          "user_pages_at base np a ?pd m1 pd3 m4" "p_addr_list pd3 = p_addr_list ?pd"
        have "?run = Some (0, Some pd3, m4, fm1)"
          using g am f(1) p(1) bg l(1-3) ar(1) by (simp add: vmm_new_user_page_def)
        moreover have "user_pages_at base np a pd m pd3 m4" by (rule user_pages_at_cong [OF l(4)]) (simp_all add: p)
        ultimately show ?thesis
          using f(2-5,8) l(5) unfolding new_pages_result_def by (intro exI conjI) (assumption, auto)
      qed
    qed
  qed
qed

subsection \<open>\<open>vmm_remove_user_page\<close>\<close>

text \<open>A run of \<open>n\<close> pages that \<open>vmm_new_user_page\<close> has marked: the last one carries the end flag, no other.\<close>

definition user_run :: "u32 \<Rightarrow> nat \<Rightarrow> (nat \<Rightarrow> u32) \<Rightarrow> page_directory \<Rightarrow> vmem \<Rightarrow> bool" where
  "user_run base n e pd m \<longleftrightarrow> 0 < n \<and> IS_PAGE_ALIGNED base \<and> 4096 \<le> unat base \<and> unat base + n * 4096 \<le> 2 ^ 32 \<and>
     (\<forall>k < n. pd_lookup pd m (base + word_of_nat k * PAGE_SIZE) = Some (e k) \<and> (IS_USER_END (e k) \<longleftrightarrow> k = n - 1))"

definition clear_reqs :: "u32 \<Rightarrow> nat \<Rightarrow> (u32 \<times> u32 \<times> u32 \<times> u32) list" where
  "clear_reqs base n = map (\<lambda>k. (base + word_of_nat k * PAGE_SIZE, 0, 0, 0)) [0..<n]"

lemma clear_reqs_Suc: "clear_reqs base (Suc n) = (base, 0, 0, 0) # clear_reqs (base + PAGE_SIZE) n"
proof -
  have "[0..<Suc n] = 0 # map Suc [0..<n]" by (simp add: map_Suc_upt upt_conv_Cons del: upt_Suc)
  then show ?thesis by (simp add: clear_reqs_def o_def algebra_simps del: upt_Suc)
qed

lemma remove_queues:
  assumes ok: "pd_ok (directory pd) m" and b: "batch_enabled pd" and v: "IS_PAGE_ALIGNED v" and e: "pd_lookup pd m v = Some x"
  obtains r m' where "pd_remove_mapping al (Some pd) v m = Some (r, Some pd, m')" "r < 0" "pts m' = pts m" "phys m' = phys m"
  | t m' where "pd_remove_mapping al (Some pd) v m = Some (0, Some (pd\<lparr>mapping_tasks := mapping_tasks pd @ [t]\<rparr>), m')"
    "pts m' = pts m" "phys m' = phys m" "task_of (v, 0, 0, 0) t" "t_resource t = NULL" "entry_present (directory pd ! pde_i v)"
proof -
  have pr: "entry_present (directory pd ! pde_i v)" using e by (auto simp: pd_lookup_def pd_view_def split: if_splits)
  obtain y where y: "pts m (REMOVE_FLAGS (directory pd ! pde_i v)) = Some y"
    "pt_get (REMOVE_FLAGS (directory pd ! pde_i v)) (pte_i v) m = Some (y ! pte_i v)"
    by (rule pt_get_ok [OF ok pr]) blast
  have pt: "entry_present (y ! pte_i v)" using e y(1) pr by (auto simp: pd_lookup_def pd_view_def split: if_splits)
  let ?q = "queue_or_write al v 0 (REMOVE_FLAGS (directory pd ! pde_i v)) NULL pd m"
  have run: "pd_remove_mapping al (Some pd) v m = do { (r, pd, m) \<leftarrow> ?q; Some (r, Some pd, m) }"
    using v pr pt arr_get_dir [OF ok] y(2) by (simp add: pd_remove_mapping_def)
  let ?t = "\<lparr>t_v_addr = v, t_pte = 0, t_resource = NULL\<rparr>"
  have tk: "task_of (v, 0, 0, 0) ?t" by (simp add: task_of_def ADD_FLAGS_def)
  show thesis
    using that(1) that(2) [of ?t] run pr tk unfolding queue_or_write_batch [OF b]
    by (cases "al (vm_mcalls m) (\<lambda>_. False) = NULL"; cases "al (Suc (vm_mcalls m)) (\<lambda>_. False) = NULL")
      (auto simp: free_page_table_def)
qed

lemma remove_loop_ok:
  assumes ok: "pd_ok (directory pd) m"
  shows "batch_enabled pd \<Longrightarrow> user_run base n e pd m \<Longrightarrow>
    \<exists>r ts m'. remove_pages_loop al base pte pd m = Some (r, pd\<lparr>mapping_tasks := mapping_tasks pd @ ts\<rparr>, m') \<and>
      pts m' = pts m \<and> phys m' = phys m \<and> (\<forall>t \<in> set ts. t_resource t = NULL \<and> entry_present (directory pd ! pde_i (t_v_addr t))) \<and>
      (r = -4 \<or> r = 0 \<and> list_all2 task_of (clear_reqs base n) ts)"
  using ok
proof (induction n arbitrary: base pte pd m e)
  case 0
  then show ?case by (simp add: user_run_def)
next
  case (Suc n)
  have R: "IS_PAGE_ALIGNED base" "4096 \<le> unat base" "unat base + Suc n * 4096 \<le> 2 ^ 32"
    "\<And>k. k < Suc n \<Longrightarrow> pd_lookup pd m (base + word_of_nat k * PAGE_SIZE) = Some (e k)"
    "\<And>k. k < Suc n \<Longrightarrow> IS_USER_END (e k) \<longleftrightarrow> k = n" using Suc.prems(2) by (simp_all add: user_run_def)
  have e0: "pd_lookup pd m base = Some (e 0)" using R(4) [of 0] by simp
  then have get: "pd_get_mapping (Some pd) base m = Some (0, Some (e 0))" using pd_get_mapping_ok [OF Suc.prems(3), of base] by simp
  have "unat (base - PAGE_SIZE) = unat base - 4096" using R(2) by (simp add: PAGE_SIZE_def unat_sub word_le_nat_alt)
  then have ge: "\<not> base < base - PAGE_SIZE" by (simp add: word_less_nat_alt)
  show ?case
  proof (rule remove_queues [OF Suc.prems(3,1) R(1) e0, of al])
    fix r m' assume q: "pd_remove_mapping al (Some pd) base m = Some (r, Some pd, m')" "r < 0" "pts m' = pts m" "phys m' = phys m"
    have "remove_pages_loop al base pte pd m = Some (-4, pd, m')"
      using ge get q(1,2) by (subst remove_pages_loop.simps) simp
    then show ?thesis using q(3,4) by (intro exI [of _ "-4"] exI [of _ "[]"] exI [of _ m']) simp
  next
    fix t m1 assume q: "pd_remove_mapping al (Some pd) base m = Some (0, Some (pd\<lparr>mapping_tasks := mapping_tasks pd @ [t]\<rparr>), m1)"
      "pts m1 = pts m" "phys m1 = phys m" "task_of (base, 0, 0, 0) t" "t_resource t = NULL" "entry_present (directory pd ! pde_i base)"
    let ?pd = "pd\<lparr>mapping_tasks := mapping_tasks pd @ [t]\<rparr>"
    have tv: "t_v_addr t = base" using q(4) by (simp add: task_of_def)
    have step: "remove_pages_loop al base pte pd m =
        (if IS_USER_END (e 0) then Some (0, ?pd, m1) else remove_pages_loop al (base + PAGE_SIZE) (e 0) ?pd m1)"
      using ge get q(1) by (subst remove_pages_loop.simps) simp
    show ?thesis
    proof (cases n)
      case 0
      then show ?thesis using step R(5) [of 0] q tv
        by (intro exI [of _ 0] exI [of _ "[t]"] exI [of _ m1]) (simp add: clear_reqs_def)
    next
      case n: (Suc n')
      have lt: "unat base + 4096 < 2 ^ 32" using R(3) n by simp
      have ok1: "pd_ok (directory ?pd) m1" using Suc.prems(3) pd_ok_pts [OF q(2)] by simp
      have lk: "pd_lookup ?pd m1 w = pd_lookup pd m w" for w using q(2) by (simp add: pd_lookup_def pd_view_def)
      have sh: "base + PAGE_SIZE + word_of_nat k * PAGE_SIZE = base + word_of_nat (Suc k) * PAGE_SIZE" for k by (simp add: algebra_simps)
      have "user_run (base + PAGE_SIZE) n (\<lambda>k. e (Suc k)) ?pd m1"
        unfolding user_run_def sh lk next_page [OF lt] using n R aligned_next [OF R(1)] by (auto simp del: of_nat_Suc)
      from Suc.IH [OF _ this ok1, of "e 0"] Suc.prems(1) obtain r ts m' where
        l: "remove_pages_loop al (base + PAGE_SIZE) (e 0) ?pd m1 = Some (r, ?pd\<lparr>mapping_tasks := mapping_tasks ?pd @ ts\<rparr>, m')"
        "pts m' = pts m1" "phys m' = phys m1" "\<forall>t \<in> set ts. t_resource t = NULL \<and> entry_present (directory ?pd ! pde_i (t_v_addr t))"
        "r = -4 \<or> r = 0 \<and> list_all2 task_of (clear_reqs (base + PAGE_SIZE) n) ts" by auto
      show ?thesis
        using step R(5) [of 0] n l q tv
        by (intro exI [of _ r] exI [of _ "t # ts"] exI [of _ m']) (simp add: clear_reqs_Suc)
    qed
  qed
qed

lemma map_clear_reqs:
  assumes "IS_PAGE_ALIGNED base" "unat base + n * 4096 \<le> 2 ^ 32"
  shows "map_all (clear_reqs base n) g w = (if unat base \<le> unat w \<and> unat w < unat base + n * 4096 then None else g w)"
proof -
  have nth: "clear_reqs base n ! k = (base + word_of_nat k * PAGE_SIZE, 0, 0, 0)" if "k < n" for k
    using that by (simp add: clear_reqs_def)
  have "map_all (clear_reqs base n) g w = (if unat base \<le> unat w \<and> unat w < unat base + 4096 * n
      then req_entry (clear_reqs base n ! ((unat w - unat base) div 4096)) else g w)"
    using map_consecutive [of "clear_reqs base n" base g w] assms nth by (simp add: clear_reqs_def mult.commute)
  moreover have "(unat w - unat base) div 4096 < n" if "unat base \<le> unat w" "unat w < unat base + 4096 * n"
    using that by (simp add: div_less_iff_less_mult less_diff_conv2 mult.commute add.commute)
  ultimately show ?thesis using nth by (auto simp: req_entry_def ADD_FLAGS_def mult.commute)
qed

lemma remove_user_page_ok:
  assumes ok: "pd_ok (directory pd) m" "\<not> batch_enabled pd" "mapping_tasks pd = []"
    and run: "user_run base n e pd m" "IS_USER_START (e 0)" and ums: "unat ums \<le> unat base"
    and fm: "fm_good M fm" "malloc_room (c_fal c)" and a: "(REMOVE_FLAGS (e 0), j) \<in> alloc_blocks fm"
    and md: "\<exists>md \<in> set (p_addr_list pd). md_p_addr md = REMOVE_FLAGS (e 0)"
  shows "\<exists>r pd' m' fm'. vmm_remove_user_page c ums (Some pd) base m fm = Some (r, Some pd', m', fm') \<and> fm_good M fm' \<and>
    pd_ok (directory pd') m' \<and> \<not> batch_enabled pd' \<and> mapping_tasks pd' = [] \<and>
    (if r = 0 then alloc_blocks fm' = alloc_blocks fm - {(REMOVE_FLAGS (e 0), j)} \<and>
       (\<forall>w. pd_lookup pd' m' w = (if unat base \<le> unat w \<and> unat w < unat base + n * 4096 then None else pd_lookup pd m w))
     else r = -4 \<and> fm' = fm \<and> (\<forall>w. pd_lookup pd' m' w = pd_lookup pd m w))"
proof -
  let ?a = "REMOVE_FLAGS (e 0)" and ?run = "vmm_remove_user_page c ums (Some pd) base m fm"
  have R: "IS_PAGE_ALIGNED base" "unat base + n * 4096 \<le> 2 ^ 32" "pd_lookup pd m base = Some (e 0)"
    using run(1) unfolding user_run_def by (auto dest!: spec [of _ 0])
  have get: "pd_get_mapping (Some pd) base m = Some (0, Some (e 0))" using pd_get_mapping_ok [OF ok(1), of base] R(3) by simp
  have g: "\<not> base < ums" using ums by (simp add: word_less_nat_alt)
  let ?pd = "pd\<lparr>batch_enabled := True\<rparr>"
  have bg: "snd (pd_begin_mapping (Some pd)) = Some ?pd" using ok(2) by (simp add: pd_begin_mapping_def)
  have ok1: "pd_ok (directory ?pd) m" "user_run base n e ?pd m" using ok(1) run(1) by (simp_all add: user_run_def pd_lookup_def)
  obtain r ts m1 where l: "remove_pages_loop (c_al c) base 0 ?pd m = Some (r, ?pd\<lparr>mapping_tasks := ts\<rparr>, m1)"
      "pts m1 = pts m" "\<forall>t \<in> set ts. t_resource t = NULL \<and> entry_present (directory pd ! pde_i (t_v_addr t))"
      "r = -4 \<or> r = 0 \<and> list_all2 task_of (clear_reqs base n) ts"
    using remove_loop_ok [OF ok1(1) _ ok1(2), of "c_al c" 0] ok(3) by auto
  have lk1: "pd_lookup pd' m1 w = pd_lookup pd m w" if "directory pd' = directory pd" for pd' w
    using that l(2) by (simp add: pd_lookup_def pd_view_def)
  have ok2: "pd_ok (directory pd) m1" using ok(1) pd_ok_pts [OF l(2)] by simp
  show ?thesis
  proof (cases "r = 0")
    case False
    then have r: "r = -4" using l(4) by simp
    have ab: "pd_abort_mapping (?pd\<lparr>mapping_tasks := ts\<rparr>) m1 = (?pd\<lparr>mapping_tasks := [], batch_enabled := False\<rparr>, m1)"
      using l(3) by (simp add: pd_abort_mapping_def abort_tasks_pts)
    have "?run = Some (-4, Some (?pd\<lparr>mapping_tasks := [], batch_enabled := False\<rparr>), m1, fm)"
      using g R(1) get run(2) bg l(1) r ab by (simp add: vmm_remove_user_page_def)
    then show ?thesis using fm(1) ok2 lk1 by simp
  next
    case True
    obtain x where x: "List.find (\<lambda>md. md_p_addr md = ?a) (p_addr_list pd) = Some x"
      using md by (cases "List.find (\<lambda>md. md_p_addr md = ?a) (p_addr_list pd)") (auto simp: find_None_iff)
    let ?pd2 = "?pd\<lparr>mapping_tasks := ts, p_addr_list := remove1 x (p_addr_list pd), num_pages := num_pages pd - md_num_pages x\<rparr>"
    have df: "pd_dealloc_frame (Some (?pd\<lparr>mapping_tasks := ts\<rparr>)) ?a = (0, Some (md_num_pages x), Some ?pd2)"
      using x by (simp add: pd_dealloc_frame_def)
    obtain fm1 where f: "fm_dealloc (c_fal c) (c_env c) ?a fm = Some (0, fm1)" "fm_good M fm1"
      "alloc_blocks fm1 = alloc_blocks fm - {(?a, j)}" using fm_dealloc_ok [OF fm a, of "c_env c"] by blast
    have rdy: "tasks_ready (directory pd) ts" "list_all2 task_of (clear_reqs base n) ts" using l(3,4) True by (simp_all add: tasks_ready_def)
    obtain m3 where m3: "commit_tasks (directory pd) ts m1 = Some m3" "pd_ok (directory pd) m3"
      "same_view (pd_view (directory pd) m3) (upd_all (clear_reqs base n) (pd_view (directory pd) m1))"
      using commit_tasks_ok [OF ok2 rdy] by blast
    let ?pd3 = "?pd2\<lparr>mapping_tasks := [], batch_enabled := False\<rparr>"
    have "?run = Some (0, Some ?pd3, m3, fm1)"
      using g R(1) get run(2) bg l(1) True df f(1) m3(1) by (simp add: vmm_remove_user_page_def pd_commit_mapping_def)
    moreover have "pd_lookup ?pd3 m3 w = (if unat base \<le> unat w \<and> unat w < unat base + n * 4096 then None else pd_lookup pd m w)" for w
    proof -
      have "pd_lookup ?pd3 m3 w = map_all (clear_reqs base n) (pd_lookup pd m1) w"
        using m3(3) pde_i_less [of w] pte_i_less [of w]
          fun_cong [OF upd_all_lookup [of "clear_reqs base n" "pd_view (directory pd) m1"], of w]
        by (simp add: same_view_def pd_lookup_def [abs_def])
      then show ?thesis using map_clear_reqs [OF R(1,2), of "pd_lookup pd m1" w] lk1 by simp
    qed
    ultimately show ?thesis using f(2,3) m3(2) by simp
  qed
qed

subsection \<open>Properties\<close>


definition example_ctx :: vctx where
  "example_ctx = \<lparr>c_al = one_page, c_fal = top_alloc, c_junk = top_frame 0 0, c_env = \<lparr>k_started = True, k_tid = 1\<rparr>\<rparr>"

definition zero_vm :: vmem where
  "zero_vm = \<lparr>pts = Map.empty, phys = (\<lambda>_. replicate 4096 0), vm_mcalls = 0\<rparr>"

lemma example_ok: "paged (c_al example_ctx)" "malloc_room (c_fal example_ctx)" "length (phys zero_vm f) = 4096"
  "IS_PAGE_ALIGNED 0x1000000"
  by (simp_all add: example_ctx_def one_page_paged top_alloc_room zero_vm_def IS_PAGE_ALIGNED_def)


text \<open>
  C28: \<open>vmm_remove_user_page\<close> undoes \<open>vmm_new_user_page\<close>. For the first page of a run of
  pages that was created there, whose block the frame manager and the directory know,
  the call returns 0 or -4: after 0 exactly the pages of the run are unmapped and
  exactly their block is free again; -4 is the case of no memory for the batch, after
  which no mapping has changed. The loop ends at the end mark and none of its checks
  panics.
\<close>

theorem vmm_remove_user_page_correct:
  assumes "pd_ok (directory pd) m" "\<not> batch_enabled pd" "mapping_tasks pd = []"
    and "user_run base n e pd m" "IS_USER_START (e 0)" "unat ums \<le> unat base"
    and "fm_good M fm" "malloc_room (c_fal c)" "(REMOVE_FLAGS (e 0), j) \<in> alloc_blocks fm"
    and "\<exists>md \<in> set (p_addr_list pd). md_p_addr md = REMOVE_FLAGS (e 0)"
  shows "\<exists>r pd' m' fm'. vmm_remove_user_page c ums (Some pd) base m fm = Some (r, Some pd', m', fm') \<and> fm_good M fm' \<and>
    pd_ok (directory pd') m' \<and>
    (if r = 0 then alloc_blocks fm' = alloc_blocks fm - {(REMOVE_FLAGS (e 0), j)} \<and>
       (\<forall>w. pd_lookup pd' m' w = (if unat base \<le> unat w \<and> unat w < unat base + n * 4096 then None else pd_lookup pd m w))
     else r = -4 \<and> fm' = fm \<and> (\<forall>w. pd_lookup pd' m' w = pd_lookup pd m w))"
  using remove_user_page_ok [OF assms] by blast

lemma booted_block:
  obtains fm a where "fm_good {0x1000000 ..< 0x2000000} fm" "(a, 0) \<in> alloc_blocks fm" "IS_PAGE_ALIGNED a"
proof (rule booted)
  fix fm assume g: "fm_good {0x1000000 ..< 0x2000000} fm" "alloc_blocks fm = {}" "fm_num_bins fm = 15"
  have "0x1000000 \<in> covered None (frames fm)" using fm_invD(11) [OF fm_goodD(1) [OF g(1)]] by simp
  then obtain f fr where f: "frames fm f = Some fr" "f_status fr \<noteq> FRAME_PARENT" by (auto simp: covered_iff leaf_def)
  moreover have "f_status fr \<noteq> FRAME_ALLOC" using g(2) f(1) by (auto simp: alloc_blocks_def)
  ultimately have "has_free 0 fm" unfolding has_free_def by (metis frame_status.exhaust le0)
  then obtain a fm' where s: "fm_good {0x1000000 ..< 0x2000000} fm'" "alloc_blocks fm' = insert (a, 0) (alloc_blocks fm)"
    using fm_alloc_succeed [OF g(1) top_alloc_room, of 1 0 "top_frame 0 0" "c_env example_ctx"] g(3) by auto
  then have b: "(a, 0) \<in> alloc_blocks fm'" by simp
  then obtain f fr where "frames fm' f = Some fr" "f_addr fr = a" by (auto simp: alloc_blocks_iff)
  then have "IS_PAGE_ALIGNED a"
    using fm_invD(1) [OF fm_goodD(1) [OF s(1)]] by (auto simp: heap_ok_def frame_wf_def aligned_unat)
  then show thesis using that s(1) b by blast
qed

lemma user_mark_bits: "IS_USER_START x \<longleftrightarrow> bit x 9" "IS_USER_END x \<longleftrightarrow> bit x 10"
  by (simp_all add: IS_USER_START_def IS_USER_END_def and_one_eq bit_iff_odd_drop_bit even_iff_mod_2_eq_zero)

theorem vmm_remove_user_page_correct_witness:
  "\<exists>fm pd m r pd' m' fm'. pd_lookup pd m 0x1000000 \<noteq> None \<and>
     vmm_remove_user_page example_ctx 0x1000000 (Some pd) 0x1000000 m fm = Some (r, Some pd', m', fm') \<and>
     (r = 0 \<longrightarrow> pd_lookup pd' m' 0x1000000 = None)"
proof (rule booted_block)
  fix fm a assume g: "fm_good {0x1000000 ..< 0x2000000} fm" "(a, 0) \<in> alloc_blocks fm" "IS_PAGE_ALIGNED a"
  let ?d = "(replicate 1024 0)[4 := ADD_FLAGS 0x5000 7]" and ?e = "ADD_FLAGS a (user_flags 1 0)"
  let ?mz = "zero_vm\<lparr>pts := [0x5000 \<mapsto> replicate 1024 0]\<rparr>" and ?m = "zero_vm\<lparr>pts := [0x5000 \<mapsto> (replicate 1024 0)[0 := ?e]]\<rparr>"
  let ?pd = "empty_pd\<lparr>directory := ?d, p_addr_list := [\<lparr>md_p_addr = a, md_num_pages = 1\<rparr>]\<rparr>"
  have e: "directory empty_pd = replicate 1024 0" by (simp add: empty_pd_def)
  have 5: "IS_PAGE_ALIGNED 0x5000" "zero_vm\<lparr>pts := Map.empty\<rparr> = zero_vm" by (simp_all add: IS_PAGE_ALIGNED_def zero_vm_def)
  have ok0: "pd_ok ?d ?mz"
    by (rule new_table(1) [OF empty_pd_ok(1) [of zero_vm, unfolded e] _ _ _ 5(1) flags_7]) (simp_all add: zero_vm_def)
  have d4: "?d ! 4 = ADD_FLAGS 0x5000 7" "entry_present (?d ! 4)" "REMOVE_FLAGS (?d ! 4) = 0x5000"
    using add_flags_present [OF 5(1)] add_flags(1) [OF 5(1) flags_7(1)] flags_7(2) by simp_all
  have ok: "pd_ok ?d ?m" by (rule write_entry(1) [OF ok0 _ d4(2), where t = "replicate 1024 0" and j = 0 and e = ?e]) (simp_all only: d4(3), simp_all)
  have ix: "pde_i 0x1000000 = 4" "pte_i 0x1000000 = 0" by (simp_all add: pde_i_eq pte_i_eq)
  have pe: "entry_present ?e" using add_flags_present [OF g(3)] user_flags_ok(2) by simp
  have lk: "pd_lookup ?pd ?m 0x1000000 = Some ?e" using ix d4 pe by (simp add: pd_lookup_def pd_view_def)
  have an: "\<not> bit a n" if "n < 12" for n using g(3) that by (simp add: aligned_bits)
  have marks: "IS_USER_START ?e" "IS_USER_END ?e"
    by (simp_all add: user_mark_bits ADD_FLAGS_def user_flags_def ADD_USER_START_FLAG_def ADD_USER_END_FLAG_def bit_simps Let_def)
  have run: "user_run 0x1000000 1 (\<lambda>_. ?e) ?pd ?m"
    using lk marks(2) example_ok(4) by (simp add: user_run_def)
  have rf: "REMOVE_FLAGS ?e = a" by (rule add_flags(1) [OF g(3) user_flags_ok(1)])
  have pd: "pd_ok (directory ?pd) ?m" "\<not> batch_enabled ?pd" "mapping_tasks ?pd = []" using ok empty_pd_ok(2,3) by simp_all
  have "\<exists>r pd' m' fm'. vmm_remove_user_page example_ctx 0x1000000 (Some ?pd) 0x1000000 ?m fm = Some (r, Some pd', m', fm') \<and>
      (r = 0 \<longrightarrow> pd_lookup pd' m' 0x1000000 = None)"
    using vmm_remove_user_page_correct [OF pd run marks(1) _ g(1) example_ok(2), where ums = "0x1000000" and j = 0] g(2)
    by (fastforce simp: rf split: if_splits)
  then show ?thesis using lk by blast
qed

end
