(* ===== verification/Console.thy ===== *)
theory Console
  imports Prelude
begin

text \<open>
  \<open>kern/console.c\<close>: the console driver. The state is the video memory as a sequence of
  bytes, the two registers of the hardware cursor, and the global colour. The size of
  the screen and the colours come from \<open>video_defines.h\<close>, which is not part of the
  repository: they are the parameter \<open>v\<close>. The contracts \<open>REQUIRES\<close> and \<open>ENSURES\<close> are
  comments of the model; writing outside the video memory is an error (\<open>None\<close>).
\<close>

type_synonym u8 = "8 word"

record video =
  CONSOLE_WIDTH :: int
  CONSOLE_HEIGHT :: int
  C_DEFAULT_TERMINAL_COLOR :: u8

record console =
  con_mem :: "u8 list"
  crtc_lsb :: u8
  crtc_msb :: u8
  g_terminal_color :: int

abbreviation C_DEFAULT_TERMINAL_CHAR :: u8 where "C_DEFAULT_TERMINAL_CHAR \<equiv> 32"

definition C_CONSOLE_SIZE :: "video \<Rightarrow> int" where
  "C_CONSOLE_SIZE v = CONSOLE_WIDTH v * CONSOLE_HEIGHT v"

definition C_HIDDEN_OFFSET :: "video \<Rightarrow> int" where
  "C_HIDDEN_OFFSET v = CONSOLE_WIDTH v * CONSOLE_HEIGHT v"

subsection \<open>Positions\<close>

definition in_bounds :: "video \<Rightarrow> int \<Rightarrow> int \<Rightarrow> int" where
  "in_bounds v row col =
     (if row < 0 \<or> row \<ge> CONSOLE_HEIGHT v \<or> col < 0 \<or> col \<ge> CONSOLE_WIDTH v then -1 else 0)"

definition get_hpos_status :: "video \<Rightarrow> int \<Rightarrow> int" where
  "get_hpos_status v hpos =
     (if hpos \<ge> C_HIDDEN_OFFSET v \<and> hpos < C_CONSOLE_SIZE v + C_HIDDEN_OFFSET v then 1
      else if hpos \<ge> 0 \<and> hpos < C_CONSOLE_SIZE v then 0
      else -1)"

definition is_valid_lpos :: "video \<Rightarrow> int \<Rightarrow> int" where
  "is_valid_lpos v lpos = (if 0 \<le> lpos \<and> lpos < C_CONSOLE_SIZE v then 0 else 1)"

definition is_valid_hpos :: "video \<Rightarrow> int \<Rightarrow> int" where
  "is_valid_hpos v hpos = (if get_hpos_status v hpos \<noteq> -1 then 1 else 0)"

definition get_hardware_cursor :: "console \<Rightarrow> int" where
  "get_hardware_cursor c = uint (crtc_msb c) * 256 + uint (crtc_lsb c)"

definition set_hardware_cursor :: "int \<Rightarrow> console \<Rightarrow> console" where
  "set_hardware_cursor hpos c = c\<lparr>crtc_lsb := word_of_int hpos, crtc_msb := word_of_int (hpos div 256)\<rparr>"

definition lpos_to_row_col :: "video \<Rightarrow> int \<Rightarrow> int \<times> int" where
  "lpos_to_row_col v lpos = (lpos div CONSOLE_WIDTH v, lpos mod CONSOLE_WIDTH v)"

definition row_col_to_lpos :: "video \<Rightarrow> int \<Rightarrow> int \<Rightarrow> int" where
  "row_col_to_lpos v row col = row * CONSOLE_WIDTH v + col"

definition hardware_to_logical :: "video \<Rightarrow> int \<Rightarrow> int" where
  "hardware_to_logical v hpos =
     (let st = get_hpos_status v hpos
      in if st = 0 then hpos else if st = 1 then hpos - C_HIDDEN_OFFSET v else -1)"

definition logical_to_hardware :: "video \<Rightarrow> int \<Rightarrow> int \<Rightarrow> int" where
  "logical_to_hardware v lpos hidden =
     (if hidden = 0 then lpos else if hidden = 1 then lpos + C_HIDDEN_OFFSET v else -1)"

subsection \<open>Video memory\<close>

text \<open>Offsets into the video memory.\<close>

definition get_console_char :: "video \<Rightarrow> int \<Rightarrow> int \<Rightarrow> int" where
  "get_console_char v row col = 2 * (row * CONSOLE_WIDTH v + col)"

definition get_console_color :: "video \<Rightarrow> int \<Rightarrow> int \<Rightarrow> int" where
  "get_console_color v row col = 2 * (row * CONSOLE_WIDTH v + col) + 1"

definition poke :: "int \<Rightarrow> u8 \<Rightarrow> console \<Rightarrow> console option" where
  "poke a b c = (if 0 \<le> a \<and> nat a < length (con_mem c) then Some (c\<lparr>con_mem := (con_mem c)[nat a := b]\<rparr>) else None)"

definition set_cell :: "video \<Rightarrow> int \<Rightarrow> int \<Rightarrow> u8 \<Rightarrow> u8 \<Rightarrow> console \<Rightarrow> console option" where
  "set_cell v row col ch color c = do {
     c \<leftarrow> poke (get_console_char v row col) ch c;
     poke (get_console_color v row col) color c
   }"

text \<open>\<open>memmove(dest, src, n)\<close> inside the video memory.\<close>

definition move_mem :: "int \<Rightarrow> int \<Rightarrow> int \<Rightarrow> console \<Rightarrow> console option" where
  "move_mem dest src n c =
     (if 0 \<le> dest \<and> 0 \<le> src \<and> 0 \<le> n \<and> nat (dest + n) \<le> length (con_mem c) \<and> nat (src + n) \<le> length (con_mem c)
      then Some (c\<lparr>con_mem := take (nat dest) (con_mem c) @ take (nat n) (drop (nat src) (con_mem c)) @
             drop (nat (dest + n)) (con_mem c)\<rparr>)
      else None)"

fun clear_cells :: "video \<Rightarrow> (int \<times> int) list \<Rightarrow> console \<Rightarrow> console option" where
  "clear_cells v [] c = Some c"
| "clear_cells v ((row, col) # rcs) c = do {
     c \<leftarrow> set_cell v row col C_DEFAULT_TERMINAL_CHAR (C_DEFAULT_TERMINAL_COLOR v) c;
     clear_cells v rcs c
   }"

definition scroll_console :: "video \<Rightarrow> console \<Rightarrow> console option" where
  "scroll_console v c = do {
     let n = CONSOLE_WIDTH v * (CONSOLE_HEIGHT v - 1) * 2;
     c \<leftarrow> move_mem (get_console_char v 0 0) (get_console_char v 1 0) n c;
     clear_cells v (map (\<lambda>i. (CONSOLE_HEIGHT v - 1, i)) [0..CONSOLE_WIDTH v - 1]) c
   }"

subsection \<open>Cursor and colour\<close>

definition set_cursor :: "video \<Rightarrow> int \<Rightarrow> int \<Rightarrow> console \<Rightarrow> int \<times> console" where
  "set_cursor v row col c =
     (if in_bounds v row col \<noteq> 0 then (-1, c)
      else let lpos = row_col_to_lpos v row col;
               hidden = get_hpos_status v (get_hardware_cursor c);
               hpos = logical_to_hardware v lpos hidden
           in if hpos = -1 then (-2, c) else (0, set_hardware_cursor hpos c))"

text \<open>The answer holds what is stored through \<open>row\<close> and \<open>col\<close>, which are not NULL.\<close>

definition get_cursor :: "video \<Rightarrow> console \<Rightarrow> int \<times> (int \<times> int) option" where
  "get_cursor v c =
     (let lpos = hardware_to_logical v (get_hardware_cursor c)
      in if lpos = -1 then (-1, None) else (0, Some (lpos_to_row_col v lpos)))"

definition hide_cursor :: "video \<Rightarrow> console \<Rightarrow> console" where
  "hide_cursor v c =
     (let hpos = get_hardware_cursor c
      in if get_hpos_status v hpos = 0 then set_hardware_cursor (hpos + C_HIDDEN_OFFSET v) c else c)"

definition show_cursor :: "video \<Rightarrow> console \<Rightarrow> console" where
  "show_cursor v c =
     (let hpos = get_hardware_cursor c
      in if get_hpos_status v hpos = 1 then set_hardware_cursor (hpos - C_HIDDEN_OFFSET v) c else c)"

definition set_term_color :: "int \<Rightarrow> console \<Rightarrow> int \<times> console" where
  "set_term_color color c = (0, c\<lparr>g_terminal_color := color\<rparr>)"

definition get_term_color :: "console \<Rightarrow> int" where
  "get_term_color c = g_terminal_color c"

subsection \<open>Output\<close>

definition draw_char :: "video \<Rightarrow> int \<Rightarrow> int \<Rightarrow> u8 \<Rightarrow> u8 \<Rightarrow> console \<Rightarrow> console option" where
  "draw_char v row col ch color c =
     (if in_bounds v row col = 0 then set_cell v row col ch color c else Some c)"

definition get_char :: "video \<Rightarrow> int \<Rightarrow> int \<Rightarrow> console \<Rightarrow> u8 option" where
  "get_char v row col c = do {
     c_assert (in_bounds v row col = 0);
     c_assert (nat (get_console_char v row col) < length (con_mem c));
     Some (con_mem c ! nat (get_console_char v row col))
   }"

text \<open>\<open>junk\<close> is what \<open>row\<close> and \<open>col\<close> hold when \<open>get_cursor\<close> fails.\<close>

definition putbyte :: "video \<Rightarrow> int \<times> int \<Rightarrow> u8 \<Rightarrow> console \<Rightarrow> (int \<times> console) option" where
  "putbyte v junk ch c = do {
     let (row, col) = (case snd (get_cursor v c) of None \<Rightarrow> junk | Some rc \<Rightarrow> rc);
     let color = get_term_color c;
     c \<leftarrow> (if ch = 10 then
             if row + 1 = CONSOLE_HEIGHT v then do {
               c \<leftarrow> scroll_console v c;
               Some (snd (set_cursor v row 0 c))
             } else Some (snd (set_cursor v (row + 1) 0 c))
           else if ch = 13 then Some (snd (set_cursor v row 0 c))
           else if ch = 8 then
             if col = 0 then
               if row \<noteq> 0 then do {
                 c \<leftarrow> draw_char v (row - 1) (CONSOLE_WIDTH v - 1) C_DEFAULT_TERMINAL_CHAR (C_DEFAULT_TERMINAL_COLOR v) c;
                 Some (snd (set_cursor v (row - 1) (CONSOLE_WIDTH v - 1) c))
               } else Some c
             else do {
               c \<leftarrow> draw_char v row (col - 1) C_DEFAULT_TERMINAL_CHAR (C_DEFAULT_TERMINAL_COLOR v) c;
               Some (snd (set_cursor v row (col - 1) c))
             }
           else do {
             c \<leftarrow> draw_char v row col ch (word_of_int color) c;
             if col = CONSOLE_WIDTH v - 1 then
               if row = CONSOLE_HEIGHT v - 1 then scroll_console v (snd (set_cursor v row 0 c))
               else Some (snd (set_cursor v (row + 1) 0 c))
             else Some (snd (set_cursor v row (col + 1) c))
           });
     Some (uint ch, c)
   }"

fun putbyte_loop :: "video \<Rightarrow> int \<times> int \<Rightarrow> u8 list \<Rightarrow> console \<Rightarrow> console option" where
  "putbyte_loop v junk [] c = Some c"
| "putbyte_loop v junk (ch # s) c = do {
     (_, c) \<leftarrow> putbyte v junk ch c;
     putbyte_loop v junk s c
   }"

text \<open>The loop reads \<open>s[0]\<close> to \<open>s[len - 1]\<close>; a string that is shorter is read out of bounds.\<close>

definition putbytes :: "video \<Rightarrow> int \<times> int \<Rightarrow> u8 list option \<Rightarrow> int \<Rightarrow> console \<Rightarrow> console option" where
  "putbytes v junk s len c = (case s of None \<Rightarrow> Some c | Some s \<Rightarrow>
     if len = 0 then Some c
     else do {
       c_assert (len \<le> int (length s));
       putbyte_loop v junk (take (nat len) s) c
     })"

definition clear_console :: "video \<Rightarrow> console \<Rightarrow> console option" where
  "clear_console v c = do {
     c \<leftarrow> clear_cells v [(row, col). row \<leftarrow> [0..CONSOLE_HEIGHT v - 1], col \<leftarrow> [0..CONSOLE_WIDTH v - 1]] c;
     Some (snd (set_cursor v 0 0 c))
   }"

end
