(* ===== verification/ConsoleCorrect.thy ===== *)
theory ConsoleCorrect
  imports Console
begin

text \<open>
  The console is a terminal: a grid of cells, a cursor in the grid, and a flag that says
  whether the cursor is shown. The driver keeps the cursor and the flag in one hardware
  register and the grid in the bytes of the video memory.
\<close>

subsection \<open>The invariant and the view\<close>

definition video_ok :: "video \<Rightarrow> bool" where
  "video_ok v \<longleftrightarrow> 0 < CONSOLE_WIDTH v \<and> 0 < CONSOLE_HEIGHT v \<and> 2 * (CONSOLE_WIDTH v * CONSOLE_HEIGHT v) \<le> 65536"

definition con_ok :: "video \<Rightarrow> console \<Rightarrow> bool" where
  "con_ok v c \<longleftrightarrow> video_ok v \<and> length (con_mem c) = nat (2 * (CONSOLE_WIDTH v * CONSOLE_HEIGHT v)) \<and>
     get_hpos_status v (get_hardware_cursor c) \<noteq> -1"

definition con_hidden :: "video \<Rightarrow> console \<Rightarrow> bool" where
  "con_hidden v c \<longleftrightarrow> get_hpos_status v (get_hardware_cursor c) = 1"

definition con_cursor :: "video \<Rightarrow> console \<Rightarrow> int \<times> int" where
  "con_cursor v c = lpos_to_row_col v (hardware_to_logical v (get_hardware_cursor c))"

definition con_cell :: "video \<Rightarrow> console \<Rightarrow> int \<Rightarrow> int \<Rightarrow> u8 \<times> u8" where
  "con_cell v c row col =
     (con_mem c ! nat (get_console_char v row col), con_mem c ! nat (get_console_color v row col))"

definition on_screen :: "video \<Rightarrow> int \<Rightarrow> int \<Rightarrow> bool" where
  "on_screen v row col \<longleftrightarrow> 0 \<le> row \<and> row < CONSOLE_HEIGHT v \<and> 0 \<le> col \<and> col < CONSOLE_WIDTH v"

lemma in_bounds_iff: "in_bounds v row col = 0 \<longleftrightarrow> on_screen v row col" "in_bounds v row col \<noteq> 0 \<longleftrightarrow> \<not> on_screen v row col"
  by (auto simp: in_bounds_def on_screen_def)

subsection \<open>Positions\<close>

lemma lpos_range:
  assumes "on_screen v r k"
  shows "0 \<le> r * CONSOLE_WIDTH v + k" "r * CONSOLE_WIDTH v + k < CONSOLE_WIDTH v * CONSOLE_HEIGHT v"
proof -
  have b: "0 \<le> r" "r \<le> CONSOLE_HEIGHT v - 1" "0 \<le> k" "k < CONSOLE_WIDTH v" using assms by (auto simp: on_screen_def)
  then show "0 \<le> r * CONSOLE_WIDTH v + k" by simp
  have "r * CONSOLE_WIDTH v \<le> (CONSOLE_HEIGHT v - 1) * CONSOLE_WIDTH v" using b by (intro mult_right_mono) simp_all
  then show "r * CONSOLE_WIDTH v + k < CONSOLE_WIDTH v * CONSOLE_HEIGHT v" using b by (simp add: algebra_simps)
qed

lemma lpos_row_col: "on_screen v r k \<Longrightarrow> lpos_to_row_col v (r * CONSOLE_WIDTH v + k) = (r, k)"
  by (simp add: lpos_to_row_col_def on_screen_def)

lemma lpos_inj:
  assumes "on_screen v r k" "on_screen v r' k'" "r * CONSOLE_WIDTH v + k = r' * CONSOLE_WIDTH v + k'"
  shows "r = r' \<and> k = k'"
proof -
  have "(r, k) = (r', k')" unfolding lpos_row_col [OF assms(1), symmetric] lpos_row_col [OF assms(2), symmetric] assms(3) ..
  then show ?thesis by blast
qed

lemma lpos_on_screen:
  assumes "video_ok v" "0 \<le> p" "p < CONSOLE_WIDTH v * CONSOLE_HEIGHT v" "lpos_to_row_col v p = (r, k)"
  shows "on_screen v r k" "r * CONSOLE_WIDTH v + k = p"
proof -
  have w: "0 < CONSOLE_WIDTH v" using assms(1) by (simp add: video_ok_def)
  have e: "r = p div CONSOLE_WIDTH v" "k = p mod CONSOLE_WIDTH v" using assms(4) by (simp_all add: lpos_to_row_col_def)
  show "r * CONSOLE_WIDTH v + k = p" by (simp add: e)
  have "r < CONSOLE_HEIGHT v"
  proof (rule ccontr)
    assume "\<not> r < CONSOLE_HEIGHT v"
    then have "CONSOLE_HEIGHT v * CONSOLE_WIDTH v \<le> r * CONSOLE_WIDTH v" using w by (intro mult_right_mono) simp_all
    moreover have "r * CONSOLE_WIDTH v \<le> p" using e w pos_mod_sign [of "CONSOLE_WIDTH v" p] \<open>r * CONSOLE_WIDTH v + k = p\<close> by linarith
    ultimately have "CONSOLE_HEIGHT v * CONSOLE_WIDTH v \<le> p" by linarith
    then show False using assms(3) by (simp add: mult.commute)
  qed
  then show "on_screen v r k" using e w assms(2) by (simp add: on_screen_def pos_imp_zdiv_nonneg_iff)
qed

lemma hardware_roundtrip:
  assumes "0 \<le> h" "h < 65536"
  shows "get_hardware_cursor (set_hardware_cursor h c) = h"
proof -
  have "h div 256 < 256" using assms(2) by simp
  then show ?thesis using assms
    by (simp add: get_hardware_cursor_def set_hardware_cursor_def uint_word_of_int take_bit_eq_mod)
qed

lemma status_cases:
  assumes "video_ok v"
  shows "0 \<le> h \<Longrightarrow> h < CONSOLE_WIDTH v * CONSOLE_HEIGHT v \<Longrightarrow> get_hpos_status v h = 0"
    "0 \<le> h \<Longrightarrow> h < CONSOLE_WIDTH v * CONSOLE_HEIGHT v \<Longrightarrow> get_hpos_status v (h + CONSOLE_WIDTH v * CONSOLE_HEIGHT v) = 1"
  by (simp_all add: get_hpos_status_def C_HIDDEN_OFFSET_def C_CONSOLE_SIZE_def mult.commute)

text \<open>The two ways in which the register encodes the cursor.\<close>

lemma con_ok_cursor:
  assumes "con_ok v c"
  obtains r k where "con_cursor v c = (r, k)" "on_screen v r k" "get_cursor v c = (0, Some (r, k))"
    "get_hardware_cursor c = r * CONSOLE_WIDTH v + k + (if con_hidden v c then CONSOLE_WIDTH v * CONSOLE_HEIGHT v else 0)"
proof -
  let ?h = "get_hardware_cursor c" and ?s = "CONSOLE_WIDTH v * CONSOLE_HEIGHT v"
  have v: "video_ok v" "get_hpos_status v ?h \<noteq> -1" using assms by (simp_all add: con_ok_def)
  define p where "p = hardware_to_logical v ?h"
  have p: "0 \<le> p" "p < ?s" "?h = p + (if con_hidden v c then ?s else 0)"
    using v(2) unfolding p_def con_hidden_def
    by (auto simp: hardware_to_logical_def get_hpos_status_def C_HIDDEN_OFFSET_def C_CONSOLE_SIZE_def split: if_splits)
  obtain r k where rk: "lpos_to_row_col v p = (r, k)" by (cases "lpos_to_row_col v p")
  note os = lpos_on_screen [OF v(1) p(1,2) rk]
  have "get_cursor v c = (0, Some (r, k))" using p(1) rk by (simp add: get_cursor_def p_def [symmetric] Let_def)
  moreover have "con_cursor v c = (r, k)" unfolding con_cursor_def p_def [symmetric] by (rule rk)
  ultimately show thesis using that os p(3) by simp
qed

lemma set_cursor_ok:
  assumes ok: "con_ok v c" and rk: "on_screen v r k"
  obtains c' where "set_cursor v r k c = (0, c')" "con_ok v c'" "con_cursor v c' = (r, k)" "con_hidden v c' = con_hidden v c"
    "con_mem c' = con_mem c" "g_terminal_color c' = g_terminal_color c"
proof -
  let ?s = "CONSOLE_WIDTH v * CONSOLE_HEIGHT v" and ?p = "r * CONSOLE_WIDTH v + k"
  let ?h = "?p + (if con_hidden v c then ?s else 0)"
  have v: "video_ok v" using ok by (simp add: con_ok_def)
  note p = lpos_range [OF rk]
  have h: "0 \<le> ?h" "?h < 65536" using p v unfolding video_ok_def by (cases "con_hidden v c"; simp; linarith)+
  let ?c = "set_hardware_cursor ?h c"
  note rt = hardware_roundtrip [OF h, of c]
  have st: "get_hpos_status v ?h = (if con_hidden v c then 1 else 0)" using status_cases [OF v p] by simp
  have "get_hpos_status v (get_hardware_cursor c) = (if con_hidden v c then 1 else 0)"
    using ok by (auto simp: con_hidden_def con_ok_def get_hpos_status_def split: if_splits)
  then have "logical_to_hardware v ?p (get_hpos_status v (get_hardware_cursor c)) = ?h"
    by (simp add: logical_to_hardware_def C_HIDDEN_OFFSET_def)
  then have "set_cursor v r k c = (0, ?c)"
    using rk h(1) by (simp add: set_cursor_def in_bounds_iff row_col_to_lpos_def Let_def)
  moreover have "con_mem ?c = con_mem c" "g_terminal_color ?c = g_terminal_color c" by (simp_all add: set_hardware_cursor_def)
  moreover have "con_hidden v ?c = con_hidden v c" unfolding con_hidden_def [of v ?c] rt st by simp
  moreover have "con_ok v ?c" using ok st rt calculation(2) by (simp add: con_ok_def)
  moreover have "hardware_to_logical v ?h = ?p" using st by (simp add: hardware_to_logical_def Let_def C_HIDDEN_OFFSET_def)
  ultimately show thesis using that [of ?c] lpos_row_col [OF rk] rt by (simp add: con_cursor_def)
qed

subsection \<open>Cells\<close>

lemma cell_index:
  assumes "con_ok v c" "on_screen v r k"
  shows "0 \<le> get_console_char v r k" "nat (get_console_char v r k) < length (con_mem c)"
    "0 \<le> get_console_color v r k" "nat (get_console_color v r k) < length (con_mem c)"
  using assms(1) lpos_range [OF assms(2)] by (auto simp: con_ok_def get_console_char_def get_console_color_def)

lemma set_cell_ok:
  assumes ok: "con_ok v c" and rk: "on_screen v r k"
  obtains c' where "set_cell v r k ch col c = Some c'" "con_ok v c'" "con_cursor v c' = con_cursor v c"
    "con_hidden v c' = con_hidden v c" "g_terminal_color c' = g_terminal_color c"
    "\<And>r' k'. on_screen v r' k' \<Longrightarrow> con_cell v c' r' k' = (if r' = r \<and> k' = k then (ch, col) else con_cell v c r' k')"
proof -
  note i = cell_index [OF ok rk]
  let ?a = "nat (get_console_char v r k)" and ?b = "nat (get_console_color v r k)"
  let ?c = "c\<lparr>con_mem := ((con_mem c)[?a := ch])[?b := col]\<rparr>"
  have h: "get_hardware_cursor ?c = get_hardware_cursor c" by (simp add: get_hardware_cursor_def)
  have "con_cell v ?c r' k' = (if r' = r \<and> k' = k then (ch, col) else con_cell v c r' k')" if o': "on_screen v r' k'" for r' k'
  proof -
    note j = cell_index [OF ok o']
    have ab: "?a \<noteq> ?b" "nat (get_console_char v r' k') \<noteq> ?b" "nat (get_console_color v r' k') \<noteq> ?a"
      using i(1,3) j(1,3) unfolding get_console_char_def get_console_color_def by presburger+
    have e: "r' * CONSOLE_WIDTH v + k' = r * CONSOLE_WIDTH v + k \<longleftrightarrow> r' = r \<and> k' = k" using lpos_inj [OF o' rk] by blast
    have "nat (get_console_char v r' k') = ?a \<longleftrightarrow> r' * CONSOLE_WIDTH v + k' = r * CONSOLE_WIDTH v + k"
      "nat (get_console_color v r' k') = ?b \<longleftrightarrow> r' * CONSOLE_WIDTH v + k' = r * CONSOLE_WIDTH v + k"
      using i(1,3) j(1,3) by (simp_all add: get_console_char_def get_console_color_def eq_nat_nat_iff) linarith+
    note inj = this [unfolded e]
    show ?thesis
    proof (cases "r' = r \<and> k' = k")
      case True
      then show ?thesis using i(2,4) ab(1) by (simp add: con_cell_def)
    next
      case False
      then have "nat (get_console_char v r' k') \<noteq> ?a" "nat (get_console_color v r' k') \<noteq> ?b" using inj by simp_all
      then show ?thesis unfolding if_not_P [OF False] using ab(2,3) unfolding con_cell_def by (simp add: nth_list_update_neq)
    qed
  qed
  moreover have "set_cell v r k ch col c = Some ?c" using i by (simp add: set_cell_def poke_def)
  moreover have "con_ok v ?c" "con_cursor v ?c = con_cursor v c" "con_hidden v ?c = con_hidden v c"
    using ok h by (simp_all add: con_ok_def con_cursor_def con_hidden_def)
  ultimately show thesis by (intro that [of ?c]) simp_all
qed

lemma clear_cells_ok:
  assumes "\<And>r k. (r, k) \<in> set rcs \<Longrightarrow> on_screen v r k"
  shows "con_ok v c \<Longrightarrow> \<exists>c'. clear_cells v rcs c = Some c' \<and> con_ok v c' \<and> con_cursor v c' = con_cursor v c \<and>
    con_hidden v c' = con_hidden v c \<and> g_terminal_color c' = g_terminal_color c \<and>
    (\<forall>r k. on_screen v r k \<longrightarrow> con_cell v c' r k =
      (if (r, k) \<in> set rcs then (C_DEFAULT_TERMINAL_CHAR, C_DEFAULT_TERMINAL_COLOR v) else con_cell v c r k))"
  using assms
proof (induction rcs arbitrary: c)
  case (Cons rc rcs)
  obtain r k where rc: "rc = (r, k)" by (cases rc)
  have rk: "on_screen v r k" using Cons.prems(2) rc by simp
  obtain c1 where 1: "set_cell v r k C_DEFAULT_TERMINAL_CHAR (C_DEFAULT_TERMINAL_COLOR v) c = Some c1" "con_ok v c1"
    "con_cursor v c1 = con_cursor v c" "con_hidden v c1 = con_hidden v c" "g_terminal_color c1 = g_terminal_color c"
    "\<And>r' k'. on_screen v r' k' \<Longrightarrow> con_cell v c1 r' k' =
      (if r' = r \<and> k' = k then (C_DEFAULT_TERMINAL_CHAR, C_DEFAULT_TERMINAL_COLOR v) else con_cell v c r' k')"
    by (rule set_cell_ok [OF Cons.prems(1) rk, of C_DEFAULT_TERMINAL_CHAR "C_DEFAULT_TERMINAL_COLOR v"]) blast
  obtain c2 where 2: "clear_cells v rcs c1 = Some c2" "con_ok v c2" "con_cursor v c2 = con_cursor v c1"
    "con_hidden v c2 = con_hidden v c1" "g_terminal_color c2 = g_terminal_color c1"
    "\<forall>r k. on_screen v r k \<longrightarrow> con_cell v c2 r k =
      (if (r, k) \<in> set rcs then (C_DEFAULT_TERMINAL_CHAR, C_DEFAULT_TERMINAL_COLOR v) else con_cell v c1 r k)"
    using Cons.IH [OF 1(2)] Cons.prems(2) by auto
  show ?case using 1 2 rc by auto
qed simp

lemma scroll_ok:
  assumes ok: "con_ok v c"
  obtains c' where "scroll_console v c = Some c'" "con_ok v c'" "con_cursor v c' = con_cursor v c"
    "con_hidden v c' = con_hidden v c" "g_terminal_color c' = g_terminal_color c"
    "\<And>r k. on_screen v r k \<Longrightarrow> con_cell v c' r k =
      (if r = CONSOLE_HEIGHT v - 1 then (C_DEFAULT_TERMINAL_CHAR, C_DEFAULT_TERMINAL_COLOR v) else con_cell v c (r + 1) k)"
proof -
  let ?w = "CONSOLE_WIDTH v" and ?h = "CONSOLE_HEIGHT v"
  let ?n = "?w * (?h - 1) * 2"
  have v: "0 < ?w" "0 < ?h" "length (con_mem c) = nat (2 * (?w * ?h))" using ok by (simp_all add: con_ok_def video_ok_def)
  have n: "0 \<le> ?n" "2 * ?w + ?n = 2 * (?w * ?h)" using v by (simp_all add: algebra_simps)
  let ?m = "take (nat ?n) (drop (nat (2 * ?w)) (con_mem c)) @ drop (nat ?n) (con_mem c)"
  let ?c = "c\<lparr>con_mem := ?m\<rparr>"
  have mv: "move_mem (get_console_char v 0 0) (get_console_char v 1 0) ?n c = Some ?c"
    using v n by (simp add: move_mem_def get_console_char_def)
  have len: "length ?m = length (con_mem c)" using v n by (auto simp: nat_diff_distrib)
  have ok1: "con_ok v ?c" "con_cursor v ?c = con_cursor v c" "con_hidden v ?c = con_hidden v c"
    using ok len by (simp_all add: con_ok_def con_cursor_def con_hidden_def get_hardware_cursor_def)
  have mem: "?m ! i = con_mem c ! (i + nat (2 * ?w))" if "i < nat ?n" for i
    using that v n by (simp add: nth_append add.commute)
  have cell: "con_cell v ?c r k = con_cell v c (r + 1) k" if o': "on_screen v r k" "r \<noteq> ?h - 1" for r k
  proof -
    have "on_screen v (r + 1) k" using o' by (auto simp: on_screen_def)
    note p = lpos_range [OF this] lpos_range(1) [OF o'(1)]
    have a: "get_console_char v (r + 1) k = get_console_char v r k + 2 * ?w"
      "get_console_color v (r + 1) k = get_console_color v r k + 2 * ?w"
      by (simp_all add: get_console_char_def get_console_color_def algebra_simps)
    have b: "0 \<le> get_console_char v r k" "get_console_char v r k < ?n" "0 \<le> get_console_color v r k" "get_console_color v r k < ?n"
      using p n(2) by (simp_all add: get_console_char_def get_console_color_def algebra_simps)
    show ?thesis unfolding con_cell_def a using b v(1) mem by (simp add: nat_add_distrib)
  qed
  have os: "on_screen v r k" if "(r, k) \<in> set (map (\<lambda>i. (?h - 1, i)) [0..?w - 1])" for r k
    using that v by (auto simp: on_screen_def)
  obtain c2 where 2: "clear_cells v (map (\<lambda>i. (?h - 1, i)) [0..?w - 1]) ?c = Some c2" "con_ok v c2" "con_cursor v c2 = con_cursor v ?c"
    "con_hidden v c2 = con_hidden v ?c" "g_terminal_color c2 = g_terminal_color ?c"
    "\<And>r k. on_screen v r k \<Longrightarrow> con_cell v c2 r k = (if (r, k) \<in> set (map (\<lambda>i. (?h - 1, i)) [0..?w - 1])
       then (C_DEFAULT_TERMINAL_CHAR, C_DEFAULT_TERMINAL_COLOR v) else con_cell v ?c r k)"
    using clear_cells_ok [OF os ok1(1)] by blast
  have "scroll_console v c = Some c2" using mv 2(1) by (simp add: scroll_console_def)
  moreover have "con_cell v c2 r k = (if r = ?h - 1 then (C_DEFAULT_TERMINAL_CHAR, C_DEFAULT_TERMINAL_COLOR v) else con_cell v c (r + 1) k)"
    if "on_screen v r k" for r k
    using 2(6) [OF that] cell [OF that] that by (auto simp: on_screen_def)
  ultimately show thesis using that 2(2-5) ok1(2,3) by simp
qed

subsection \<open>The terminal\<close>

text \<open>The specification: cursor and grid, without registers, offsets or bytes.\<close>

type_synonym grid = "int \<Rightarrow> int \<Rightarrow> u8 \<times> u8"

definition blank :: "video \<Rightarrow> u8 \<times> u8" where
  "blank v = (C_DEFAULT_TERMINAL_CHAR, C_DEFAULT_TERMINAL_COLOR v)"

definition set_grid :: "int \<Rightarrow> int \<Rightarrow> u8 \<times> u8 \<Rightarrow> grid \<Rightarrow> grid" where
  "set_grid r k x f = (\<lambda>r' k'. if r' = r \<and> k' = k then x else f r' k')"

definition scroll_up :: "video \<Rightarrow> grid \<Rightarrow> grid" where
  "scroll_up v f = (\<lambda>r k. if r = CONSOLE_HEIGHT v - 1 then blank v else f (r + 1) k)"

definition term_newline :: "video \<Rightarrow> int \<Rightarrow> grid \<Rightarrow> (int \<times> int) \<times> grid" where
  "term_newline v r f = (if r = CONSOLE_HEIGHT v - 1 then ((r, 0), scroll_up v f) else ((r + 1, 0), f))"

definition term_put :: "video \<Rightarrow> u8 \<Rightarrow> u8 \<Rightarrow> (int \<times> int) \<times> grid \<Rightarrow> (int \<times> int) \<times> grid" where
  "term_put v color ch t = (case t of ((r, k), f) \<Rightarrow>
     if ch = 10 then term_newline v r f
     else if ch = 13 then ((r, 0), f)
     else if ch = 8 then
       if r = 0 \<and> k = 0 then ((r, k), f)
       else let (r, k) = (if k = 0 then (r - 1, CONSOLE_WIDTH v - 1) else (r, k - 1)) in ((r, k), set_grid r k (blank v) f)
     else let f = set_grid r k (ch, color) f
          in if k = CONSOLE_WIDTH v - 1 then term_newline v r f else ((r, k + 1), f))"

text \<open>The console \<open>c\<close> shows the terminal \<open>t\<close>.\<close>

definition shows_term :: "video \<Rightarrow> console \<Rightarrow> (int \<times> int) \<times> grid \<Rightarrow> bool" where
  "shows_term v c t \<longleftrightarrow> con_ok v c \<and> con_cursor v c = fst t \<and> (\<forall>r k. on_screen v r k \<longrightarrow> con_cell v c r k = snd t r k)"

definition same_mode :: "video \<Rightarrow> console \<Rightarrow> console \<Rightarrow> bool" where
  "same_mode v c c' \<longleftrightarrow> con_hidden v c' = con_hidden v c \<and> g_terminal_color c' = g_terminal_color c"

lemma same_mode_refl: "same_mode v c c"
  by (simp add: same_mode_def)

lemma same_mode_trans: "same_mode v c d \<Longrightarrow> same_mode v d e \<Longrightarrow> same_mode v c e"
  by (simp add: same_mode_def)

lemma shows_move:
  assumes "shows_term v c ((r0, k0), f)" "on_screen v r k"
  shows "shows_term v (snd (set_cursor v r k c)) ((r, k), f) \<and> same_mode v c (snd (set_cursor v r k c))"
proof -
  have ok: "con_ok v c" using assms(1) by (simp add: shows_term_def)
  obtain c' where c: "set_cursor v r k c = (0, c')" "con_ok v c'" "con_cursor v c' = (r, k)" "con_hidden v c' = con_hidden v c"
    "con_mem c' = con_mem c" "g_terminal_color c' = g_terminal_color c" by (rule set_cursor_ok [OF ok assms(2)])
  then show ?thesis using assms(1) by (simp add: shows_term_def same_mode_def con_cell_def)
qed

lemma shows_draw:
  assumes "shows_term v c (rk, f)" "on_screen v r k"
  shows "\<exists>c'. draw_char v r k ch col c = Some c' \<and> shows_term v c' (rk, set_grid r k (ch, col) f) \<and> same_mode v c c'"
proof -
  have ok: "con_ok v c" using assms(1) by (simp add: shows_term_def)
  obtain c' where c: "set_cell v r k ch col c = Some c'" "con_ok v c'" "con_cursor v c' = con_cursor v c"
    "con_hidden v c' = con_hidden v c" "g_terminal_color c' = g_terminal_color c"
    "\<And>r' k'. on_screen v r' k' \<Longrightarrow> con_cell v c' r' k' = (if r' = r \<and> k' = k then (ch, col) else con_cell v c r' k')"
    by (rule set_cell_ok [OF ok assms(2), of ch col]) blast
  then show ?thesis using assms by (auto simp: draw_char_def in_bounds_iff shows_term_def same_mode_def set_grid_def)
qed

lemma shows_scroll:
  assumes "shows_term v c (rk, f)"
  shows "\<exists>c'. scroll_console v c = Some c' \<and> shows_term v c' (rk, scroll_up v f) \<and> same_mode v c c'"
proof -
  have ok: "con_ok v c" using assms by (simp add: shows_term_def)
  obtain c' where c: "scroll_console v c = Some c'" "con_ok v c'" "con_cursor v c' = con_cursor v c"
    "con_hidden v c' = con_hidden v c" "g_terminal_color c' = g_terminal_color c"
    "\<And>r k. on_screen v r k \<Longrightarrow> con_cell v c' r k =
      (if r = CONSOLE_HEIGHT v - 1 then (C_DEFAULT_TERMINAL_CHAR, C_DEFAULT_TERMINAL_COLOR v) else con_cell v c (r + 1) k)"
    by (rule scroll_ok [OF ok]) blast
  have "con_cell v c' r k = scroll_up v f r k" if "on_screen v r k" for r k
    using c(6) [OF that] that assms by (auto simp: scroll_up_def blank_def shows_term_def on_screen_def)
  then show ?thesis using c(1-5) assms by (auto simp: shows_term_def same_mode_def)
qed

lemma shows_cursor:
  assumes "shows_term v c ((r, k), f)"
  shows "on_screen v r k" "snd (get_cursor v c) = Some (r, k)"
proof -
  have "con_ok v c" using assms by (simp add: shows_term_def)
  then obtain r' k' where "con_cursor v c = (r', k')" "on_screen v r' k'" "get_cursor v c = (0, Some (r', k'))"
    by (rule con_ok_cursor)
  then show "on_screen v r k" "snd (get_cursor v c) = Some (r, k)" using assms by (simp_all add: shows_term_def)
qed

lemma putbyte_ok:
  assumes t: "shows_term v c t"
  shows "\<exists>c'. putbyte v junk ch c = Some (uint ch, c') \<and>
    shows_term v c' (term_put v (word_of_int (g_terminal_color c)) ch t) \<and> same_mode v c c'"
proof -
  obtain r k f where tf: "t = ((r, k), f)" by (metis surj_pair)
  note t' = t [unfolded tf]
  note cur = shows_cursor [OF t']
  let ?w = "CONSOLE_WIDTH v" and ?h = "CONSOLE_HEIGHT v"
  have b: "0 \<le> r" "r < ?h" "0 \<le> k" "k < ?w" using cur(1) by (simp_all add: on_screen_def)
  note mv = shows_move [OF t'] and unf = putbyte_def Let_def cur(2) get_term_color_def term_put_def tf
  have nl: "r + 1 = ?h \<longleftrightarrow> r = ?h - 1" by linarith
  consider "ch = 10" | "ch = 13" | "ch = 8" | "ch \<noteq> 10" "ch \<noteq> 13" "ch \<noteq> 8" by blast
  then show ?thesis
  proof cases
    case 1
    show ?thesis
    proof (cases "r = ?h - 1")
      case True
      obtain c1 where s: "scroll_console v c = Some c1" "shows_term v c1 ((r, k), scroll_up v f)" "same_mode v c c1"
        using shows_scroll [OF t'] by blast
      have "on_screen v r 0" using b by (simp add: on_screen_def)
      then show ?thesis using 1 True nl s shows_move [OF s(2), of r 0] same_mode_trans [OF s(3)]
        by (simp add: unf term_newline_def)
    next
      case False
      then have "on_screen v (r + 1) 0" using b by (simp add: on_screen_def)
      then show ?thesis using 1 False nl mv by (simp add: unf term_newline_def)
    qed
  next
    case 2
    have "on_screen v r 0" using b by (simp add: on_screen_def)
    then show ?thesis using 2 mv by (simp add: unf)
  next
    case 3
    show ?thesis
    proof (cases "r = 0 \<and> k = 0")
      case True
      then show ?thesis using 3 t' same_mode_refl by (simp add: unf)
    next
      case False
      define r' k' where rk': "r' = (if k = 0 then r - 1 else r)" "k' = (if k = 0 then ?w - 1 else k - 1)"
      have os: "on_screen v r' k'" using b False by (auto simp: rk' on_screen_def)
      obtain c1 where d: "draw_char v r' k' C_DEFAULT_TERMINAL_CHAR (C_DEFAULT_TERMINAL_COLOR v) c = Some c1"
        "shows_term v c1 ((r, k), set_grid r' k' (blank v) f)" "same_mode v c c1"
        using shows_draw [OF t' os] by (auto simp: blank_def)
      note m = shows_move [OF d(2) os]
      have "putbyte v junk ch c = Some (uint ch, snd (set_cursor v r' k' c1))"
        using 3 False d(1) by (cases "k = 0") (simp_all add: unf rk')
      moreover have "term_put v (word_of_int (g_terminal_color c)) ch t = ((r', k'), set_grid r' k' (blank v) f)"
        using 3 False by (cases "k = 0") (simp_all add: unf rk')
      ultimately show ?thesis using m same_mode_trans [OF d(3)] by auto
    qed
  next
    case 4
    let ?f = "set_grid r k (ch, word_of_int (g_terminal_color c)) f"
    obtain c1 where d: "draw_char v r k ch (word_of_int (g_terminal_color c)) c = Some c1"
      "shows_term v c1 ((r, k), ?f)" "same_mode v c c1" using shows_draw [OF t' cur(1)] by blast
    show ?thesis
    proof (cases "k = ?w - 1")
      case False
      then have "on_screen v r (k + 1)" using b by (simp add: on_screen_def)
      note m = shows_move [OF d(2) this]
      then show ?thesis using 4 False d(1) same_mode_trans [OF d(3)] by (simp add: unf)
    next
      case kw: True
      show ?thesis
      proof (cases "r = ?h - 1")
        case False
        then have "on_screen v (r + 1) 0" using b by (simp add: on_screen_def)
        note m = shows_move [OF d(2) this]
        then show ?thesis using 4 False kw d(1) same_mode_trans [OF d(3)] by (simp add: unf term_newline_def)
      next
        case True
        have "on_screen v r 0" using b by (simp add: on_screen_def)
        note m = shows_move [OF d(2) this]
        obtain c2 where s: "scroll_console v (snd (set_cursor v r 0 c1)) = Some c2" "shows_term v c2 ((r, 0), scroll_up v ?f)"
          "same_mode v (snd (set_cursor v r 0 c1)) c2" using shows_scroll m by blast
        then show ?thesis using 4 True kw d(1) m same_mode_trans [OF d(3)] same_mode_trans by (simp add: unf term_newline_def) blast
      qed
    qed
  qed
qed

lemma putbyte_loop_ok:
  "shows_term v c t \<Longrightarrow> \<exists>c'. putbyte_loop v junk s c = Some c' \<and>
    shows_term v c' (fold (term_put v (word_of_int (g_terminal_color c))) s t) \<and> same_mode v c c'"
proof (induction s arbitrary: c t)
  case Nil
  then show ?case by (simp add: same_mode_refl)
next
  case (Cons ch s)
  let ?col = "word_of_int (g_terminal_color c) :: u8"
  obtain c1 where 1: "putbyte v junk ch c = Some (uint ch, c1)" "shows_term v c1 (term_put v ?col ch t)" "same_mode v c c1"
    using putbyte_ok [OF Cons.prems] by blast
  have "g_terminal_color c1 = g_terminal_color c" using 1(3) by (simp add: same_mode_def)
  then obtain c2 where "putbyte_loop v junk s c1 = Some c2" "shows_term v c2 (fold (term_put v ?col) s (term_put v ?col ch t))" "same_mode v c1 c2"
    using Cons.IH [OF 1(2)] by auto
  then show ?case using 1 same_mode_trans by auto
qed

lemma set_get_cursor: "set_hardware_cursor (get_hardware_cursor c) (set_hardware_cursor x c) = c"
proof -
  have "word_of_int (uint (crtc_msb c) * 256 + uint (crtc_lsb c)) = crtc_lsb c"
  proof (rule word_uint_eqI)
    have "uint (crtc_lsb c) < 256" using uint_lt2p [of "crtc_lsb c"] by simp
    then show "uint (word_of_int (uint (crtc_msb c) * 256 + uint (crtc_lsb c)) :: u8) = uint (crtc_lsb c)"
      by (simp only: uint_word_of_int) (simp add: take_bit_eq_mod)
  qed
  moreover have "(uint (crtc_msb c) * 256 + uint (crtc_lsb c)) div 256 = uint (crtc_msb c)"
    using uint_lt2p [of "crtc_lsb c"] by simp
  ultimately show ?thesis by (simp add: set_hardware_cursor_def get_hardware_cursor_def)
qed

lemma hidden_cursor:
  assumes v: "video_ok v" and p: "0 \<le> p" "p < CONSOLE_WIDTH v * CONSOLE_HEIGHT v"
  defines "s \<equiv> CONSOLE_WIDTH v * CONSOLE_HEIGHT v"
  shows "get_cursor v (set_hardware_cursor p c) = (0, Some (lpos_to_row_col v p))" "\<not> con_hidden v (set_hardware_cursor p c)"
    "get_cursor v (set_hardware_cursor (p + s) c) = (0, Some (lpos_to_row_col v p))" "con_hidden v (set_hardware_cursor (p + s) c)"
proof -
  have h: "p < 65536" "0 \<le> p + s" "p + s < 65536" using v p unfolding s_def video_ok_def by linarith+
  note r1 = hardware_roundtrip [OF p(1) h(1), of c] and r2 = hardware_roundtrip [OF h(2,3), of c]
  note st = status_cases [OF v p, folded s_def]
  have l: "hardware_to_logical v p = p" "hardware_to_logical v (p + s) = p"
    using st by (simp_all add: hardware_to_logical_def Let_def C_HIDDEN_OFFSET_def s_def)
  show "get_cursor v (set_hardware_cursor p c) = (0, Some (lpos_to_row_col v p))"
    "get_cursor v (set_hardware_cursor (p + s) c) = (0, Some (lpos_to_row_col v p))"
    using p(1) by (simp_all add: get_cursor_def r1 r2 l Let_def)
  show "\<not> con_hidden v (set_hardware_cursor p c)" "con_hidden v (set_hardware_cursor (p + s) c)"
    using st by (simp_all add: con_hidden_def r1 r2)
qed

subsection \<open>Properties\<close>

text \<open>
  C12: The console driver implements a terminal. From every console that shows a
  terminal \<open>t\<close>, printing a string never writes outside the video memory and leads to a
  console that shows \<open>t\<close> after the string: characters are put at the cursor, lines wrap,
  the screen scrolls at the last row, newline, carriage return and backspace move the
  cursor. Whether the cursor is hidden, and the colour, do not change.
\<close>

theorem putbytes_refines_terminal:
  assumes "shows_term v c t" "len \<le> int (length s)"
  shows "\<exists>c'. putbytes v junk (Some s) len c = Some c' \<and>
    shows_term v c' (fold (term_put v (word_of_int (g_terminal_color c))) (take (nat len) s) t) \<and>
    con_hidden v c' = con_hidden v c \<and> g_terminal_color c' = g_terminal_color c"
proof (cases "len = 0")
  case True
  then show ?thesis using assms(1) by (simp add: putbytes_def)
next
  case False
  then show ?thesis
    using putbyte_loop_ok [OF assms(1), of junk "take (nat len) s"] assms(2) by (auto simp: putbytes_def same_mode_def)
qed

definition small_video :: video where
  "small_video = \<lparr>CONSOLE_WIDTH = 2, CONSOLE_HEIGHT = 2, C_DEFAULT_TERMINAL_COLOR = 7\<rparr>"

definition small_console :: console where
  "small_console = \<lparr>con_mem = [65, 7, 66, 7, 67, 7, 68, 7], crtc_lsb = 7, crtc_msb = 0, g_terminal_color = 7\<rparr>"

lemma small_console_shows:
  "shows_term small_video small_console ((1, 1), con_cell small_video small_console)"
  by (simp add: shows_term_def con_ok_def video_ok_def con_cursor_def hardware_to_logical_def lpos_to_row_col_def Let_def
      get_hardware_cursor_def get_hpos_status_def C_HIDDEN_OFFSET_def C_CONSOLE_SIZE_def small_video_def small_console_def)

theorem putbytes_refines_terminal_witness:
  "\<exists>c'. putbytes small_video (0, 0) (Some [69, 70]) 2 small_console = Some c' \<and>
     shows_term small_video c' (fold (term_put small_video 7) [69, 70] ((1, 1), con_cell small_video small_console))"
  using putbytes_refines_terminal [OF small_console_shows, of 2 "[69, 70]" "(0, 0)"] by (auto simp: small_console_def)

text \<open>
  The hidden cursor. Hiding and showing the cursor are inverse to each other and do
  not move it: the logical position that \<open>get_cursor\<close> reports is the same before and
  after, and after \<open>set_cursor\<close> to a position on the screen \<open>get_cursor\<close> reports that
  position whether or not the cursor is hidden.
\<close>

theorem cursor_hide_show_roundtrip:
  assumes "con_ok v c"
  shows "con_hidden v (hide_cursor v c) \<and> \<not> con_hidden v (show_cursor v c) \<and>
    get_cursor v (hide_cursor v c) = get_cursor v c \<and> get_cursor v (show_cursor v c) = get_cursor v c \<and>
    (\<not> con_hidden v c \<longrightarrow> show_cursor v (hide_cursor v c) = c) \<and> (con_hidden v c \<longrightarrow> hide_cursor v (show_cursor v c) = c) \<and>
    (\<forall>r k. on_screen v r k \<longrightarrow> get_cursor v (snd (set_cursor v r k c)) = (0, Some (r, k)))"
proof -
  let ?s = "CONSOLE_WIDTH v * CONSOLE_HEIGHT v"
  have v: "video_ok v" using assms by (simp add: con_ok_def)
  obtain r k where rk: "on_screen v r k" "get_cursor v c = (0, Some (r, k))"
    "get_hardware_cursor c = r * CONSOLE_WIDTH v + k + (if con_hidden v c then ?s else 0)" by (rule con_ok_cursor [OF assms]) blast
  let ?p = "r * CONSOLE_WIDTH v + k"
  note p = lpos_range [OF rk(1)] and lp = lpos_row_col [OF rk(1)]
  note hc = hidden_cursor [OF v p, of c]
  note st = status_cases [OF v p]
  have set: "get_cursor v (snd (set_cursor v r' k' c)) = (0, Some (r', k'))" if os: "on_screen v r' k'" for r' k'
  proof -
    obtain c' where c': "set_cursor v r' k' c = (0, c')" "con_ok v c'" "con_cursor v c' = (r', k')" by (rule set_cursor_ok [OF assms os])
    obtain a b where "con_cursor v c' = (a, b)" "get_cursor v c' = (0, Some (a, b))" by (rule con_ok_cursor [OF c'(2)]) blast
    then show ?thesis using c' by simp
  qed
  show ?thesis
  proof (cases "con_hidden v c")
    case False
    then have h: "get_hardware_cursor c = ?p" using rk(3) by simp
    have rt: "get_hardware_cursor (set_hardware_cursor (?p + ?s) c) = ?p + ?s"
      by (rule hardware_roundtrip) (use p v in \<open>unfold video_ok_def, linarith+\<close>)
    have "hide_cursor v c = set_hardware_cursor (?p + ?s) c" "show_cursor v c = c"
      using h st by (simp_all add: hide_cursor_def show_cursor_def Let_def C_HIDDEN_OFFSET_def)
    moreover have "show_cursor v (set_hardware_cursor (?p + ?s) c) = c"
      using st(2) set_get_cursor [of c "?p + ?s"] h by (simp add: show_cursor_def Let_def C_HIDDEN_OFFSET_def rt)
    ultimately show ?thesis using hc rk(2) lp False set by simp
  next
    case True
    then have h: "get_hardware_cursor c = ?p + ?s" using rk(3) by simp
    have rt: "get_hardware_cursor (set_hardware_cursor ?p c) = ?p"
      by (rule hardware_roundtrip) (use p v in \<open>unfold video_ok_def, linarith+\<close>)
    have "show_cursor v c = set_hardware_cursor ?p c" "hide_cursor v c = c"
      using h st by (simp_all add: hide_cursor_def show_cursor_def Let_def C_HIDDEN_OFFSET_def)
    moreover have "hide_cursor v (set_hardware_cursor ?p c) = c"
      using st(1) set_get_cursor [of c ?p] h by (simp add: hide_cursor_def Let_def C_HIDDEN_OFFSET_def rt)
    ultimately show ?thesis using hc rk(2) lp True set by simp
  qed
qed

theorem cursor_hide_show_roundtrip_witness:
  "get_cursor small_video (hide_cursor small_video small_console) = (0, Some (1, 1)) \<and>
   hide_cursor small_video (show_cursor small_video small_console) = small_console"
proof -
  have ok: "con_ok small_video small_console" using small_console_shows by (simp add: shows_term_def)
  have h: "con_hidden small_video small_console" "get_cursor small_video small_console = (0, Some (1, 1))"
    by (simp_all add: con_hidden_def get_cursor_def hardware_to_logical_def lpos_to_row_col_def Let_def
      get_hardware_cursor_def get_hpos_status_def C_HIDDEN_OFFSET_def C_CONSOLE_SIZE_def small_video_def small_console_def)
  show ?thesis using cursor_hide_show_roundtrip [OF ok] h by simp
qed

end
