(* ===== verification/Keyboard.thy ===== *)
theory Keyboard
  imports CircBuffer SemRwlock ConsoleCorrect
begin

text \<open>
  \<open>kern/keyboard.c\<close>: the line discipline between the keyboard interrupt handler, which
  writes characters, and \<open>readline\<close>, which reads lines. The state is the circular buffer
  of characters, a mutex, and a semaphore that counts the complete lines; echoing goes
  to the console. The specification is a text, a count of lines, the sequence of waiting
  readers and a terminal; the interface is a \<open>data_refinement\<close>.
\<close>

subsection \<open>Model\<close>

record keyboard =
  kb_buf :: "circ_buf option"
  kb_m :: mutex
  kb_sem :: sem

text \<open>\<open>junk\<close> is what the local variables of \<open>putbyte\<close> hold before they are set.\<close>

definition print_to_console :: "video \<Rightarrow> int \<times> int \<Rightarrow> keyboard option \<Rightarrow> u8 \<Rightarrow> console \<Rightarrow> console option" where
  "print_to_console v junk k c con = (case k of None \<Rightarrow> Some con | Some k \<Rightarrow>
     let (r, count) = circ_buf_count (kb_buf k) in
     if r < 0 then Some con
     else if c = 8 then
       if count = Some 0 then Some con else map_option snd (putbyte v junk c con)
     else map_option snd (putbyte v junk c con))"

text \<open>
  A \<open>char\<close> is signed: the cast to \<open>unsigned int\<close> extends its sign. The return code of
  \<open>circ_buf_count\<close> is not looked at; without a buffer the test would read the
  uninitialised \<open>count\<close>.
\<close>

definition write_to_buffer :: "keyboard \<Rightarrow> u8 \<Rightarrow> (int \<times> keyboard) option" where
  "write_to_buffer k c =
     (if c = 8 then do {
        count \<leftarrow> snd (circ_buf_count (kb_buf k));
        if count = 0 then Some (0, k)
        else do {
          (r, b) \<leftarrow> circ_buf_delete_front (kb_buf k);
          Some (if r < 0 then -2 else 0, k\<lparr>kb_buf := b\<rparr>)
        }
      } else do {
        (r, b) \<leftarrow> circ_buf_write (kb_buf k) (scast c);
        Some (if r < 0 then -3 else 0, k\<lparr>kb_buf := b\<rparr>)
      })"

text \<open>
  The allocations of \<open>keyboard_init\<close>: \<open>cbuf\<close> is the struct that \<open>malloc\<close> returns with
  unspecified contents, or \<open>None\<close>; \<open>arr\<close> the array allocated by \<open>circ_buf_init\<close>; \<open>mem\<close>
  whether the semaphore's queue finds memory.
\<close>

definition keyboard_init ::
  "circ_buf option \<Rightarrow> u32 list option \<Rightarrow> bool \<Rightarrow> keyboard option \<Rightarrow> u32 \<Rightarrow> int \<times> keyboard option" where
  "keyboard_init cbuf arr mem k len = (case k of None \<Rightarrow> (-1, None) | Some k \<Rightarrow>
     if len = 0 then (-1, Some k)
     else let (r, cbuf) = circ_buf_init arr len cbuf in
     if r < 0 then (-2, Some k)
     else let (r, s) = sem_init mem (Some (kb_sem k)) 0; k = k\<lparr>kb_sem := (case s of None \<Rightarrow> kb_sem k | Some s \<Rightarrow> s)\<rparr> in
     if r < 0 then (-3, Some k)
     else let (r, m) = mutex_init (Some (kb_m k)); k = k\<lparr>kb_m := (case m of None \<Rightarrow> kb_m k | Some m \<Rightarrow> m)\<rparr> in
     if r < 0 then (-4, Some k)
     else (0, Some (k\<lparr>kb_buf := cbuf\<rparr>)))"

text \<open>After the call the buffer is freed, which \<open>kb_buf = None\<close> stands for.\<close>

definition keyboard_destroy :: "bool \<Rightarrow> int \<Rightarrow> keyboard \<Rightarrow> keyboard option" where
  "keyboard_destroy started tid k = do {
     let k = k\<lparr>kb_buf := circ_buf_destroy (kb_buf k)\<rparr>;
     let k = k\<lparr>kb_m := mutex_destroy (kb_m k)\<rparr>;
     s \<leftarrow> sem_destroy started tid (Some (kb_sem k));
     s \<leftarrow> s;
     Some (k\<lparr>kb_sem := s, kb_buf := None\<rparr>)
   }"

text \<open>
  Run by the thread \<open>tid\<close>. The answer has the return code and the thread that
  \<open>sem_signal\<close> has made runnable, if any.
\<close>

definition keyboard_write ::
  "bool \<Rightarrow> video \<Rightarrow> int \<times> int \<Rightarrow> int \<Rightarrow> keyboard option \<Rightarrow> u32 \<Rightarrow> console \<Rightarrow>
     ((int \<times> int option) \<times> keyboard option \<times> console) option" where
  "keyboard_write started v junk tid k val con = (case k of None \<Rightarrow> Some ((-1, None), None, con) | Some k \<Rightarrow> do {
     m \<leftarrow> mutex_lock started tid (kb_m k);
     let k = k\<lparr>kb_m := m\<rparr>;
     (r, num_resources, s) \<leftarrow> sem_get_value started tid (Some (kb_sem k)) True;
     s \<leftarrow> s;
     let k = k\<lparr>kb_sem := s\<rparr>;
     if r < 0 then Some ((-3, None), Some (k\<lparr>kb_m := mutex_unlock started (kb_m k)\<rparr>), con)
     else do {
       num_resources \<leftarrow> num_resources;
       con \<leftarrow> (if num_resources < 0 then print_to_console v junk (Some k) (ucast val) con else Some con);
       (r, k) \<leftarrow> write_to_buffer k (ucast val);
       if r < 0 then Some ((-4, None), Some (k\<lparr>kb_m := mutex_unlock started (kb_m k)\<rparr>), con)
       else do {
         (w, s) \<leftarrow> (if (ucast val :: u8) = 10 then sem_signal started tid (Some (kb_sem k))
                     else Some (None, Some (kb_sem k)));
         s \<leftarrow> s;
         let k = k\<lparr>kb_sem := s\<rparr>;
         Some ((0, w), Some (k\<lparr>kb_m := mutex_unlock started (kb_m k)\<rparr>), con)
       }
     }
   })"

text \<open>
  The loop of \<open>keyboard_read\<close>: \<open>n\<close> iterations are left, and \<open>temp\<close> is what has been
  stored in \<open>temp_buf\<close>, so that \<open>i\<close> is its length.
\<close>

fun read_loop :: "nat \<Rightarrow> u8 list \<Rightarrow> circ_buf option \<Rightarrow> (int \<times> u8 list \<times> circ_buf option) option" where
  "read_loop 0 temp b = Some (0, temp, b)"
| "read_loop (Suc n) temp b = do {
     (r, val, b) \<leftarrow> circ_buf_read True b;
     if r < 0 then Some (-2, temp, b)
     else do {
       val \<leftarrow> val;
       if (ucast val :: u8) = 10 then Some (0, if temp = [] then [ucast val] else temp, b)
       else read_loop n (temp @ [ucast val]) b
     }
   }"

text \<open>
  \<open>keyboard_read\<close> sleeps inside \<open>sem_wait\<close> when no line is available (\<open>Waiting\<close>); what
  it does once it is past \<open>sem_wait\<close> is \<open>keyboard_read_line\<close>, which a woken reader goes
  on with. \<open>Returned\<close> has the return code and the caller's buffer.
\<close>

datatype read_out = Waiting | Returned int "u8 list option"

definition keyboard_read_line ::
  "bool \<Rightarrow> int \<Rightarrow> keyboard \<Rightarrow> int \<Rightarrow> u8 list \<Rightarrow> (read_out \<times> keyboard option) option" where
  "keyboard_read_line started tid k len buf = do {
     m \<leftarrow> mutex_lock started tid (kb_m k);
     let k = k\<lparr>kb_m := m\<rparr>;
     (r, temp_buf, b) \<leftarrow> read_loop (nat len) [] (kb_buf k);
     let k = k\<lparr>kb_buf := b\<rparr>;
     if r < 0 then Some (Returned (-2) (Some buf), Some (k\<lparr>kb_m := mutex_unlock started (kb_m k)\<rparr>))
     else do {
       c_assert (length temp_buf \<le> length buf);
       Some (Returned (int (length temp_buf)) (Some (temp_buf @ drop (length temp_buf) buf)),
             Some (k\<lparr>kb_m := mutex_unlock started (kb_m k)\<rparr>))
     }
   }"

definition keyboard_read ::
  "bool \<Rightarrow> bool \<Rightarrow> int \<Rightarrow> keyboard option \<Rightarrow> int \<Rightarrow> u8 list option \<Rightarrow> (read_out \<times> keyboard option) option" where
  "keyboard_read started mem tid k len buf = (case (k, buf) of
     (Some k, Some b) \<Rightarrow>
       if len \<le> 0 then Some (Returned (-1) buf, Some k)
       else do {
         (blocked, s) \<leftarrow> sem_wait started mem tid (Some (kb_sem k));
         s \<leftarrow> s;
         let k = k\<lparr>kb_sem := s\<rparr>;
         if blocked then Some (Waiting, Some k) else keyboard_read_line started tid k len b
       }
   | _ \<Rightarrow> Some (Returned (-1) buf, k))"

definition keyboard_buffer_size :: "keyboard option \<Rightarrow> bool \<Rightarrow> int \<times> u32 option" where
  "keyboard_buffer_size k want = (case k of None \<Rightarrow> (-1, None)
   | Some k \<Rightarrow> if want then circ_buf_size (kb_buf k) True else (-1, None))"

end
