(* ===== verification/KeyboardCorrect.thy ===== *)
theory KeyboardCorrect
  imports Keyboard
begin

text \<open>
  What the keyboard promises: typed text is edited in place, complete lines are handed
  to the readers in the order of their waiting, and what is typed while a reader waits
  appears on the terminal.
\<close>

subsection \<open>The specification\<close>

text \<open>
  \<open>ed_cap\<close> characters fit in the text; \<open>ed_lines\<close> counts the lines that nobody has asked
  for, or, when negative, the readers that wait, whose sequence is \<open>ed_wait\<close>.
\<close>

record editor =
  ed_cap :: nat
  ed_text :: "u8 list"
  ed_lines :: int
  ed_wait :: "int list"
  ed_term :: "(int \<times> int) \<times> grid"

datatype kb_op = Key int u32 | Readline int "u8 list" | Resume int "u8 list"
datatype kb_ans = Wrote int "int option" | Read_ans read_out

definition ed_echo :: "video \<Rightarrow> u8 \<Rightarrow> u8 \<Rightarrow> editor \<Rightarrow> editor" where
  "ed_echo v color c e =
     (if ed_lines e < 0 \<and> \<not> (c = 8 \<and> ed_text e = []) then e\<lparr>ed_term := term_put v color c (ed_term e)\<rparr> else e)"

definition ed_signal :: "editor \<Rightarrow> int option \<times> editor" where
  "ed_signal e = (let e' = e\<lparr>ed_lines := ed_lines e + 1\<rparr> in
     if ed_lines e < 0 then (case ed_wait e of [] \<Rightarrow> (None, e') | t # q \<Rightarrow> (Some t, e'\<lparr>ed_wait := q\<rparr>))
     else (None, e'))"

definition ed_key :: "video \<Rightarrow> u8 \<Rightarrow> u8 \<Rightarrow> editor \<Rightarrow> kb_ans \<times> editor" where
  "ed_key v color c e = (let e = ed_echo v color c e in
     if c = 8 then (Wrote 0 None, e\<lparr>ed_text := butlast (ed_text e)\<rparr>)
     else if length (ed_text e) < ed_cap e then
       let e = e\<lparr>ed_text := ed_text e @ [c]\<rparr>; (w, e) = (if c = 10 then ed_signal e else (None, e))
       in (Wrote 0 w, e)
     else (Wrote (-4) None, e))"

text \<open>At most \<open>n\<close> characters up to the end of the line, \<open>None\<close> if the text ends first; and the rest.\<close>

definition ed_line :: "nat \<Rightarrow> u8 list \<Rightarrow> u8 list option \<times> u8 list" where
  "ed_line n xs = (let l = takeWhile (\<lambda>c. c \<noteq> 10) xs in
     if n \<le> length l then (Some (take n l), drop n xs)
     else if length xs = length l then (None, [])
     else (Some (if l = [] then [10] else l), drop (Suc (length l)) xs))"

definition ed_read_line :: "u8 list \<Rightarrow> editor \<Rightarrow> kb_ans \<times> editor" where
  "ed_read_line buf e = (let (l, rest) = ed_line (length buf) (ed_text e) in
     (Read_ans (case l of None \<Rightarrow> Returned (-2) (Some buf)
                | Some l \<Rightarrow> Returned (int (length l)) (Some (l @ drop (length l) buf))), e\<lparr>ed_text := rest\<rparr>))"

fun kb_spec :: "video \<Rightarrow> u8 \<Rightarrow> editor \<Rightarrow> kb_op \<Rightarrow> kb_ans \<times> editor" where
  "kb_spec v color e (Key tid val) = ed_key v color (ucast val) e"
| "kb_spec v color e (Readline tid buf) =
     (if buf = [] then (Read_ans (Returned (-1) (Some buf)), e)
      else let e' = e\<lparr>ed_lines := ed_lines e - 1\<rparr> in
      if ed_lines e \<le> 0 then (Read_ans Waiting, e'\<lparr>ed_wait := ed_wait e @ [tid]\<rparr>)
      else ed_read_line buf e')"
| "kb_spec v color e (Resume tid buf) = ed_read_line buf e"

text \<open>The calls of the model. The buffer of a reader has the length it passes.\<close>

fun kb_step :: "video \<Rightarrow> int \<times> int \<Rightarrow> keyboard option \<times> console \<Rightarrow> kb_op \<Rightarrow> (kb_ans \<times> keyboard option \<times> console) option" where
  "kb_step v junk (k, con) (Key tid val) =
     map_option (\<lambda>((r, w), k, con). (Wrote r w, k, con)) (keyboard_write True v junk tid k val con)"
| "kb_step v junk (k, con) (Readline tid buf) =
     map_option (\<lambda>(out, k). (Read_ans out, k, con)) (keyboard_read True True tid k (int (length buf)) (Some buf))"
| "kb_step v junk (k, con) (Resume tid buf) = do {
     k \<leftarrow> k;
     (out, k) \<leftarrow> keyboard_read_line True tid k (int (length buf)) buf;
     Some (Read_ans out, k, con)
   }"

definition kb_text :: "keyboard \<Rightarrow> nat \<Rightarrow> u8 list \<Rightarrow> bool" where
  "kb_text k cap xs \<longleftrightarrow> kb_m k = free_mutex \<and> fifo_rel (kb_buf k) (cap, map scast xs)"

definition kb_rel :: "video \<Rightarrow> u8 \<Rightarrow> keyboard option \<times> console \<Rightarrow> editor \<Rightarrow> bool" where
  "kb_rel v color s e \<longleftrightarrow> (\<exists>k. fst s = Some k \<and> kb_text k (ed_cap e) (ed_text e) \<and>
     kb_sem k = \<lparr>s_count = ed_lines e, s_m = free_mutex, s_q = ed_wait e\<rparr> \<and>
     shows_term v (snd s) (ed_term e) \<and> word_of_int (g_terminal_color (snd s)) = color)"

subsection \<open>The buffer holds the text\<close>

lemma char_roundtrip: "(ucast (scast (c :: u8) :: u32) :: u8) = c"
  by (rule bit_word_eqI) (auto simp: bit_simps)

lemma fifo_calls:
  assumes "fifo_rel b (cap, xs)"
  shows "\<exists>b'. circ_buf_write b x = Some (if length xs < cap then 0 else -1, b') \<and>
      fifo_rel b' (cap, if length xs < cap then xs @ [x] else xs)"
    and "xs \<noteq> [] \<Longrightarrow> \<exists>b'. circ_buf_delete_front b = Some (0, b') \<and> fifo_rel b' (cap, butlast xs)"
    and "xs = y # ys \<Longrightarrow> \<exists>b'. circ_buf_read True b = Some (0, Some y, b') \<and> fifo_rel b' (cap, ys)"
    and "xs = [] \<Longrightarrow> circ_buf_read True b = Some (-2, None, b)"
    and "circ_buf_count b = (0, Some (of_nat (length xs)))" "(of_nat (length xs) :: u32) = 0 \<longleftrightarrow> xs = []"
proof -
  show "\<exists>b'. circ_buf_write b x = Some (if length xs < cap then 0 else -1, b') \<and>
      fifo_rel b' (cap, if length xs < cap then xs @ [x] else xs)"
    using circ_step_simulates [OF assms, of "Write x"] by (auto split: if_splits)
  show "xs \<noteq> [] \<Longrightarrow> \<exists>b'. circ_buf_delete_front b = Some (0, b') \<and> fifo_rel b' (cap, butlast xs)"
    using circ_step_simulates [OF assms, of Delete_front] by auto
  show "xs = y # ys \<Longrightarrow> \<exists>b'. circ_buf_read True b = Some (0, Some y, b') \<and> fifo_rel b' (cap, ys)"
    using circ_step_simulates [OF assms, of Read] by auto
  obtain c where c: "b = Some c" "circ_ok c" "contents c = xs" using assms by (cases b) auto
  show "xs = [] \<Longrightarrow> circ_buf_read True b = Some (-2, None, b)" using c circ_buf_read_empty [of c True] by simp
  show "circ_buf_count b = (0, Some (of_nat (length xs)))" using c by (auto simp: circ_buf_count_def)
  show "(of_nat (length xs) :: u32) = 0 \<longleftrightarrow> xs = []" using c length_contents [of c] by (simp flip: length_0_conv add: unat_eq_0)
qed

lemma read_loop_ok:
  assumes "fifo_rel b (cap, map scast xs)"
  shows "\<exists>b' tmp. read_loop n temp b = Some (if fst (ed_line n xs) = None then -2 else 0, tmp, b') \<and>
    fifo_rel b' (cap, map scast (snd (ed_line n xs))) \<and>
    (\<forall>l. fst (ed_line n xs) = Some l \<longrightarrow> tmp = (if temp \<noteq> [] \<and> n \<noteq> 0 \<and> hd0 xs 0 = 10 then temp else temp @ l))"
  using assms
proof (induction n arbitrary: temp b xs)
  case 0
  then show ?case by (simp add: ed_line_def)
next
  case (Suc n)
  show ?case
  proof (cases xs)
    case Nil
    then show ?thesis using fifo_calls(4) [OF Suc.prems] Suc.prems by (simp add: ed_line_def)
  next
    case (Cons c cs)
    obtain b1 where 1: "circ_buf_read True b = Some (0, Some (scast c), b1)" "fifo_rel b1 (cap, map scast cs)"
      using fifo_calls(3) [OF Suc.prems] Cons by auto
    show ?thesis
    proof (cases "c = 10")
      case True
      then show ?thesis using 1 Cons by (simp add: ed_line_def char_roundtrip)
    next
      case False
      have e: "ed_line (Suc n) (c # cs) = map_prod (map_option (\<lambda>l. if hd0 cs 0 = 10 \<and> n \<noteq> 0 then [c] else c # l)) id (ed_line n cs)"
        using False by (cases cs) (auto simp: ed_line_def Let_def)
      show ?thesis using Suc.IH [OF 1(2), of "temp @ [c]"] False 1(1) Cons
        by (auto simp: char_roundtrip e)
    qed
  qed
qed

subsection \<open>Every call simulates the specification\<close>

lemma print_ok:
  assumes "fifo_rel (kb_buf k) (cap, map scast xs)" "shows_term v con t"
  shows "\<exists>con'. print_to_console v junk (Some k) c con = Some con' \<and> g_terminal_color con' = g_terminal_color con \<and>
    shows_term v con' (if c = 8 \<and> xs = [] then t else term_put v (word_of_int (g_terminal_color con)) c t)"
  using fifo_calls(5,6) [OF assms(1)] putbyte_ok [OF assms(2), of junk c] assms(2)
  by (auto simp: print_to_console_def same_mode_def)

lemma write_ok:
  assumes "fifo_rel (kb_buf k) (cap, map scast xs)"
  shows "\<exists>b. write_to_buffer k c = Some (if c \<noteq> 8 \<and> \<not> length xs < cap then -3 else 0, k\<lparr>kb_buf := b\<rparr>) \<and>
    fifo_rel b (cap, map scast (if c = 8 then butlast xs else if length xs < cap then xs @ [c] else xs))"
proof -
  note f = fifo_calls [OF assms]
  show ?thesis
  proof (cases "c = 8")
    case True
    show ?thesis
    proof (cases "xs = []")
      case True
      then show ?thesis using \<open>c = 8\<close> f(5) assms by (auto simp: write_to_buffer_def intro!: exI [of _ "kb_buf k"])
    next
      case False
      then show ?thesis using \<open>c = 8\<close> f(2,5,6) by (auto simp: write_to_buffer_def map_butlast)
    qed
  next
    case False
    then show ?thesis using f(1) [of "scast c"] by (auto simp: write_to_buffer_def)
  qed
qed

lemma signal_ok:
  "sem_signal True tid (Some \<lparr>s_count = ed_lines e, s_m = free_mutex, s_q = ed_wait e\<rparr>) =
    Some (fst (ed_signal e), Some \<lparr>s_count = ed_lines (snd (ed_signal e)), s_m = free_mutex, s_q = ed_wait (snd (ed_signal e))\<rparr>)"
  by (auto simp: sem_signal_def ed_signal_def Let_def split: list.split)

lemma ed_signal_same [simp]:
  "ed_cap (snd (ed_signal e)) = ed_cap e" "ed_text (snd (ed_signal e)) = ed_text e" "ed_term (snd (ed_signal e)) = ed_term e"
  by (auto simp: ed_signal_def Let_def split: list.split)

lemma ed_echo_same [simp]:
  "ed_cap (ed_echo v col c e) = ed_cap e" "ed_text (ed_echo v col c e) = ed_text e"
  "ed_lines (ed_echo v col c e) = ed_lines e" "ed_wait (ed_echo v col c e) = ed_wait e"
  by (simp_all add: ed_echo_def)

lemma echo_ok:
  assumes "kb_rel v col (Some k, con) e"
  shows "\<exists>con'. (if ed_lines e < 0 then print_to_console v junk (Some (k\<lparr>kb_m := m\<rparr>)) c con else Some con) = Some con' \<and>
    kb_rel v col (Some k, con') (ed_echo v col c e)"
proof -
  have "fifo_rel (kb_buf (k\<lparr>kb_m := m\<rparr>)) (ed_cap e, map scast (ed_text e))" "shows_term v con (ed_term e)"
    using assms by (simp_all add: kb_rel_def kb_text_def)
  from print_ok [OF this, of junk c] show ?thesis using assms by (auto simp: kb_rel_def ed_echo_def)
qed

lemma key_simulates:
  assumes "kb_rel v col (k, con) e"
  shows "\<exists>r w s'. keyboard_write True v junk tid k val con = Some ((r, w), s') \<and>
     fst (ed_key v col (ucast val) e) = Wrote r w \<and> kb_rel v col s' (snd (ed_key v col (ucast val) e))"
proof -
  obtain k0 where k: "k = Some k0" using assms by (auto simp: kb_rel_def)
  let ?locked = "k0\<lparr>kb_m := \<lparr>m_lock = 0, m_owner = tid\<rparr>\<rparr>" and ?c = "ucast val :: u8"
  let ?e = "ed_echo v col ?c e"
  obtain con' where con: "(if ed_lines e < 0 then print_to_console v junk (Some ?locked) ?c con else Some con) = Some con'"
    and e: "kb_rel v col (Some k0, con') ?e"
    using echo_ok [OF assms [unfolded k]] by blast
  have k0: "kb_m k0 = free_mutex" "kb_sem k0 = \<lparr>s_count = ed_lines e, s_m = free_mutex, s_q = ed_wait e\<rparr>"
    "fifo_rel (kb_buf ?locked) (ed_cap e, map scast (ed_text e))"
    and t: "shows_term v con' (ed_term ?e)" "word_of_int (g_terminal_color con') = col"
    using e by (simp_all add: kb_rel_def kb_text_def)
  obtain b where b: "write_to_buffer ?locked ?c = Some (if ?c \<noteq> 8 \<and> \<not> length (ed_text e) < ed_cap e then -3 else 0, ?locked\<lparr>kb_buf := b\<rparr>)"
    "fifo_rel b (ed_cap e, map scast (if ?c = 8 then butlast (ed_text e) else if length (ed_text e) < ed_cap e then ed_text e @ [?c] else ed_text e))"
    using write_ok [OF k0(3), of ?c] by blast
  note call = keyboard_write_def k Let_def sem_get_value_def ed_key_def kb_rel_def kb_text_def
  have same: "k0\<lparr>kb_m := m, kb_sem := \<lparr>s_count = ed_lines e, s_m = free_mutex, s_q = ed_wait e\<rparr>\<rparr> = k0\<lparr>kb_m := m\<rparr>" for m
    by (simp flip: k0(2))
  show ?thesis
    using b con t k0(1,2) signal_ok [of tid "?e\<lparr>ed_text := ed_text ?e @ [?c]\<rparr>"]
    by (auto simp: call split_beta same)
qed

lemma ed_line_length: "fst (ed_line n xs) = Some l \<Longrightarrow> length l \<le> n"
  by (auto simp: ed_line_def Let_def split: if_splits)

lemma read_line_simulates:
  assumes "kb_rel v col (Some k, con) e"
  shows "\<exists>out k'. keyboard_read_line True tid k (int (length buf)) buf = Some (out, k') \<and>
    fst (ed_read_line buf e) = Read_ans out \<and> kb_rel v col (k', con) (snd (ed_read_line buf e))"
proof -
  let ?l = "ed_line (length buf) (ed_text e)"
  have "fifo_rel (kb_buf k) (ed_cap e, map scast (ed_text e))" and m: "kb_m k = free_mutex"
    using assms by (simp_all add: kb_rel_def kb_text_def)
  from read_loop_ok [OF this(1), of "length buf" "[]"] obtain b tmp where
    "read_loop (length buf) [] (kb_buf k) = Some (if fst ?l = None then -2 else 0, tmp, b)"
    "fifo_rel b (ed_cap e, map scast (snd ?l))" "\<And>l. fst ?l = Some l \<Longrightarrow> tmp = l"
    by auto
  then show ?thesis using assms m ed_line_length [of "length buf" "ed_text e"]
    by (cases "fst ?l") (auto simp: keyboard_read_line_def ed_read_line_def kb_rel_def kb_text_def split_beta Let_def)
qed

lemma kb_step_simulates:
  assumes "kb_rel v col s e"
  shows "\<exists>s'. kb_step v junk s q = Some (fst (kb_spec v col e q), s') \<and> kb_rel v col s' (snd (kb_spec v col e q))"
proof -
  obtain k con where s: "s = (Some k, con)" using assms by (cases s) (auto simp: kb_rel_def)
  note rel = assms [unfolded s]
  have sem: "kb_sem k = \<lparr>s_count = ed_lines e, s_m = free_mutex, s_q = ed_wait e\<rparr>" using rel by (simp add: kb_rel_def)
  show ?thesis
  proof (cases q)
    case (Key tid val)
    then show ?thesis using key_simulates [OF rel, of junk tid val] s by auto
  next
    case (Readline tid buf)
    let ?e = "e\<lparr>ed_lines := ed_lines e - 1\<rparr>"
    let ?k = "k\<lparr>kb_sem := \<lparr>s_count = ed_lines e - 1, s_m = free_mutex, s_q = ed_wait e\<rparr>\<rparr>"
    have r: "kb_rel v col (Some ?k, con) ?e" using rel by (simp add: kb_rel_def kb_text_def)
    show ?thesis
    proof (cases "buf = [] \<or> ed_lines e \<le> 0")
      case True
      then show ?thesis using rel s Readline sem
        by (auto simp: keyboard_read_def sem_wait_def Let_def kb_rel_def kb_text_def)
    next
      case False
      then show ?thesis using read_line_simulates [OF r, of tid buf] s Readline sem
        by (auto simp: keyboard_read_def sem_wait_def Let_def)
    qed
  next
    case (Resume tid buf)
    then show ?thesis using read_line_simulates [OF rel, of tid buf] s by auto
  qed
qed

interpretation kbd: data_refinement "kb_step v junk" "kb_spec v col" "kb_rel v col" for v junk col
  by unfold_locales (rule kb_step_simulates)

text \<open>\<open>keyboard_init\<close> establishes the relation.\<close>

definition new_editor :: "u32 \<Rightarrow> (int \<times> int) \<times> grid \<Rightarrow> editor" where
  "new_editor len t = \<lparr>ed_cap = unat len - 1, ed_text = [], ed_lines = 0, ed_wait = [], ed_term = t\<rparr>"

lemma keyboard_init_ok:
  assumes "keyboard_init cbuf (Some arr) mem (Some k0) len = (0, Some k)"
    and "length arr = unat (len * 4) div 4" "unat len < 2 ^ 30" "unat len dvd 2 ^ 32" "shows_term v con t"
  shows "kb_rel v (word_of_int (g_terminal_color con)) (Some k, con) (new_editor len t)"
proof -
  obtain c0 c where c: "circ_buf_init (Some arr) len (Some c0) = (0, Some c)" "kb_buf k = Some c" "kb_m k = free_mutex"
    "kb_sem k = \<lparr>s_count = 0, s_m = free_mutex, s_q = []\<rparr>"
    using assms(1) by (auto simp: keyboard_init_def circ_buf_init_def mutex_init_def sem_init_def Let_def split: if_splits option.splits)
  have "circ_ok c \<and> contents c = [] \<and> cb_len c = len"
    by (rule circ_buf_init_ok [OF c(1)]) (use assms(2,3) in simp_all)
  moreover from this have "0 < unat len" using circ_okD(1) [of c] by (simp add: unat_gt_0)
  ultimately show ?thesis using c assms(4,5) by (simp add: kb_rel_def kb_text_def new_editor_def)
qed

subsection \<open>Typing a line\<close>

text \<open>The text after typing \<open>cs\<close>, whether it fits all the time, and what of it is echoed.\<close>

definition typed :: "u8 list \<Rightarrow> u8 \<Rightarrow> u8 list" where
  "typed xs c = (if c = 8 then butlast xs else xs @ [c])"

fun fits :: "nat \<Rightarrow> u8 list \<Rightarrow> u8 list \<Rightarrow> bool" where
  "fits cap xs [] = True"
| "fits cap xs (c # cs) \<longleftrightarrow> (c = 8 \<or> length xs < cap) \<and> fits cap (typed xs c) cs"

fun echoed :: "u8 list \<Rightarrow> u8 list \<Rightarrow> u8 list" where
  "echoed xs [] = []"
| "echoed xs (c # cs) = (if c = 8 \<and> xs = [] then [] else [c]) @ echoed (typed xs c) cs"

lemma typing:
  assumes "ed_lines e < 0" "\<forall>x\<in>set vals. (ucast x :: u8) \<noteq> 10" "fits (ed_cap e) (ed_text e) (map ucast vals)"
  shows "run_spec (kb_spec v col) e (map (Key h) vals) =
    (replicate (length vals) (Wrote 0 None),
     e\<lparr>ed_text := foldl typed (ed_text e) (map ucast vals),
       ed_term := fold (term_put v col) (echoed (ed_text e) (map ucast vals)) (ed_term e)\<rparr>)"
  using assms
proof (induction vals arbitrary: e)
  case (Cons x vals)
  let ?c = "ucast x :: u8"
  let ?e = "e\<lparr>ed_text := typed (ed_text e) ?c,
    ed_term := fold (term_put v col) (if ?c = 8 \<and> ed_text e = [] then [] else [?c]) (ed_term e)\<rparr>"
  have "ed_key v col ?c e = (Wrote 0 None, ?e)"
    using Cons.prems by (auto simp: ed_key_def ed_echo_def typed_def Let_def)
  then show ?case using Cons.IH [of ?e] Cons.prems by simp
qed simp

lemma takeWhile_line: "10 \<notin> set xs \<Longrightarrow> takeWhile (\<lambda>c :: u8. c \<noteq> 10) (xs @ 10 # ys) = xs"
  by (induction xs) auto

lemma typed_no_newline: "10 \<notin> set xs \<Longrightarrow> 10 \<notin> set cs \<Longrightarrow> 10 \<notin> set (foldl typed xs cs)"
  by (induction cs arbitrary: xs) (auto simp: typed_def dest: in_set_butlastD)

lemma ed_line_whole:
  "10 \<notin> set xs \<Longrightarrow> length xs < n \<Longrightarrow> ed_line n (xs @ [10]) = (Some (if xs = [] then [10] else xs), [])"
  by (simp add: ed_line_def takeWhile_line Let_def)

lemma session_spec:
  assumes "\<forall>x\<in>set vals. (ucast x :: u8) \<noteq> 10"
    and "fits (unat len - 1) [] (map ucast vals)" "line = foldl typed [] (map ucast vals)"
    and "length line < unat len - 1" "length line < length buf" "l = (if line = [] then [10] else line)"
  shows "run_spec (kb_spec v col) (new_editor len t) (Readline rd buf # map (Key h) vals @ [Key h 10, Resume rd buf]) =
    (Read_ans Waiting # replicate (length vals) (Wrote 0 None) @
       [Wrote 0 (Some rd), Read_ans (Returned (int (length l)) (Some (l @ drop (length l) buf)))],
     new_editor len (fold (term_put v col) (echoed [] (map ucast vals) @ [10]) t))"
proof -
  let ?e = "(new_editor len t)\<lparr>ed_lines := -1, ed_wait := [rd]\<rparr>"
  have "buf \<noteq> []" using assms(5) by auto
  moreover have "10 \<notin> set line"
    unfolding assms(3) using assms(1) by (intro typed_no_newline) auto
  ultimately show ?thesis
    using typing [of ?e vals v col h] assms ed_line_whole [of line "length buf"]
    by (simp add: run_spec_append new_editor_def ed_key_def ed_echo_def ed_signal_def ed_read_line_def Let_def)
qed

subsection \<open>Properties\<close>


definition raw_keyboard :: keyboard where
  "raw_keyboard = \<lparr>kb_buf = None, kb_m = \<lparr>m_lock = 5, m_owner = 5\<rparr>,
     kb_sem = \<lparr>s_count = 5, s_m = \<lparr>m_lock = 5, m_owner = 5\<rparr>, s_q = []\<rparr>\<rparr>"

definition raw_buf :: circ_buf where
  "raw_buf = \<lparr>cb_i_r = 9, cb_i_w = 9, cb_buf = [], cb_len = 0, cb_n = 9\<rparr>"

definition ready_keyboard :: keyboard where
  "ready_keyboard = \<lparr>kb_buf = Some \<lparr>cb_i_r = 0, cb_i_w = 0, cb_buf = replicate 8 9, cb_len = 8, cb_n = 0\<rparr>,
     kb_m = free_mutex, kb_sem = \<lparr>s_count = 0, s_m = free_mutex, s_q = []\<rparr>\<rparr>"

lemma ready_keyboard_init:
  "keyboard_init (Some raw_buf) (Some (replicate 8 9)) True (Some raw_keyboard) 8 = (0, Some ready_keyboard)"
  "length (replicate 8 (9 :: u32)) = unat (8 * 4 :: u32) div 4" "unat (8 :: u32) < 2 ^ 30" "unat (8 :: u32) dvd 2 ^ 32"
  by (simp_all add: keyboard_init_def circ_buf_init_def sem_init_def mutex_init_def raw_buf_def raw_keyboard_def ready_keyboard_def)


text \<open>
  What is typed is what is read. A thread that calls \<open>keyboard_read\<close> on the new
  keyboard waits. A line is typed that fits in the buffer all the time, then a newline.
  Every write succeeds, only the newline wakes a thread, and it wakes the reader; the
  resumed reader returns the edited line without its newline (an empty line is returned
  as a newline), in the front of its buffer. The terminal shows the keys in the order
  of typing, without the backspaces that had nothing to delete. The keyboard is empty again.
\<close>

theorem keyboard_line_roundtrip:
  assumes "keyboard_init cbuf (Some arr) mem (Some k0) len = (0, Some k)"
    and "length arr = unat (len * 4) div 4" "unat len < 2 ^ 30" "unat len dvd 2 ^ 32" "shows_term v con t"
    and "\<forall>x\<in>set vals. (ucast x :: u8) \<noteq> 10" "fits (unat len - 1) [] (map ucast vals)"
    and "line = foldl typed [] (map ucast vals)" "length line < unat len - 1" "length line < length buf"
    and "l = (if line = [] then [10] else line)" "col = word_of_int (g_terminal_color con)"
  shows "\<exists>s. run_ops (kb_step v junk) (Some k, con) (Readline rd buf # map (Key h) vals @ [Key h 10, Resume rd buf]) =
      Some (Read_ans Waiting # replicate (length vals) (Wrote 0 None) @
        [Wrote 0 (Some rd), Read_ans (Returned (int (length l)) (Some (l @ drop (length l) buf)))], s) \<and>
    kb_rel v col s (new_editor len (fold (term_put v col) (echoed [] (map ucast vals) @ [10]) t))"
  using kbd.run_simulates [OF keyboard_init_ok [OF assms(1-5)], of junk "Readline rd buf # map (Key h) vals @ [Key h 10, Resume rd buf]"]
  unfolding session_spec [OF assms(6-11)] assms(12) fst_conv snd_conv .

theorem keyboard_line_roundtrip_witness:
  "\<exists>s. run_ops (kb_step small_video (0, 0)) (Some ready_keyboard, small_console)
      (Readline 4 [0, 0, 0] # map (Key 3) [8, 104, 111, 8, 105] @ [Key 3 10, Resume 4 [0, 0, 0]]) =
    Some (Read_ans Waiting # replicate 5 (Wrote 0 None) @ [Wrote 0 (Some 4), Read_ans (Returned 2 (Some [104, 105, 0]))], s) \<and>
    kb_rel small_video 7 s (new_editor 8 (fold (term_put small_video 7) [104, 111, 8, 105, 10] ((1, 1), con_cell small_video small_console)))"
proof -
  let ?vals = "[8, 104, 111, 8, 105] :: u32 list"
  have keys: "\<forall>x\<in>set ?vals. (ucast x :: u8) \<noteq> 10" "fits (unat (8 :: u32) - 1) [] (map ucast ?vals)"
    "[104, 105] = foldl typed [] (map ucast ?vals)" "echoed [] (map ucast ?vals) @ [10] = [104, 111, 8, 105, 10]"
    by (simp_all add: typed_def)
  have buf: "length [104, 105 :: u8] < unat (8 :: u32) - 1" "length [104, 105 :: u8] < length [0, 0, 0 :: u8]"
    "[104, 105] = (if [104, 105] = ([] :: u8 list) then [10] else [104, 105 :: u8])"
    "(7 :: u8) = word_of_int (g_terminal_color small_console)" "length ?vals = 5"
    by (simp_all add: small_console_def)
  have ret: "Returned (int (length [104, 105 :: u8])) (Some ([104, 105] @ drop (length [104, 105 :: u8]) [0, 0, 0])) = Returned 2 (Some [104, 105, 0])"
    by simp
  show ?thesis
    using keyboard_line_roundtrip [OF ready_keyboard_init small_console_shows keys(1-3) buf(1-4), of "(0, 0)" 4 3]
    unfolding keys(4) buf(5) ret .
qed

text \<open>
  The count of lines and the text drift apart in two ways. A newline can be deleted by
  a backspace while its line stays counted: the next reader does not wait and fails with
  -2. And a reader whose buffer is as long as the line leaves the newline behind but uses
  up the line: the next reader gets that newline as an empty line, and the one after it
  waits although a complete line is in the buffer.
\<close>

theorem keyboard_line_count_drifts:
  assumes "kb_rel v col (Some k, con) (new_editor len t)" "5 \<le> unat len"
  shows "(\<exists>s. run_ops (kb_step v junk) (Some k, con) [Key h 10, Key h 8, Readline rd [x]] =
      Some ([Wrote 0 None, Wrote 0 None, Read_ans (Returned (-2) (Some [x]))], s)) \<and>
    (\<exists>s e. run_ops (kb_step v junk) (Some k, con)
        [Key h 97, Key h 10, Key h 98, Key h 10, Readline rd [x], Readline rd [x, y], Readline rd [x, y]] =
      Some (map (Wrote 0) [None, None, None, None] @
        map Read_ans [Returned 1 (Some [97]), Returned 1 (Some [10, y]), Waiting], s) \<and>
      kb_rel v col s e \<and> ed_text e = [98, 10])"
proof (rule conjI)
  let ?erase = "[Key h 10, Key h 8, Readline rd [x]]"
    and ?short = "[Key h 97, Key h 10, Key h 98, Key h 10, Readline rd [x], Readline rd [x, y], Readline rd [x, y]]"
  note sim = kbd.run_simulates [OF assms(1), of junk]
  note spec = new_editor_def ed_key_def ed_echo_def ed_signal_def ed_read_line_def ed_line_def Let_def
  have "fst (run_spec (kb_spec v col) (new_editor len t) ?erase) = [Wrote 0 None, Wrote 0 None, Read_ans (Returned (-2) (Some [x]))]"
    using assms(2) by (simp add: spec)
  then show "\<exists>s. run_ops (kb_step v junk) (Some k, con) ?erase =
      Some ([Wrote 0 None, Wrote 0 None, Read_ans (Returned (-2) (Some [x]))], s)"
    using sim [of ?erase] by metis
  have "fst (run_spec (kb_spec v col) (new_editor len t) ?short) =
      map (Wrote 0) [None, None, None, None] @ map Read_ans [Returned 1 (Some [97]), Returned 1 (Some [10, y]), Waiting]"
    "ed_text (snd (run_spec (kb_spec v col) (new_editor len t) ?short)) = [98, 10]"
    using assms(2) by (simp_all add: spec)
  then show "\<exists>s e. run_ops (kb_step v junk) (Some k, con) ?short =
      Some (map (Wrote 0) [None, None, None, None] @
        map Read_ans [Returned 1 (Some [97]), Returned 1 (Some [10, y]), Waiting], s) \<and>
      kb_rel v col s e \<and> ed_text e = [98, 10]"
    using sim [of ?short] by metis
qed

theorem keyboard_line_count_drifts_witness:
  "\<exists>s. run_ops (kb_step small_video (0, 0)) (Some ready_keyboard, small_console) [Key 3 10, Key 3 8, Readline 4 [0]] =
    Some ([Wrote 0 None, Wrote 0 None, Read_ans (Returned (-2) (Some [0]))], s)"
  using keyboard_line_count_drifts [OF keyboard_init_ok [OF ready_keyboard_init small_console_shows], of "(0, 0)" 3 4 0] by (simp del: run_ops.simps)

end
