(* ===== verification/Pcb.thy ===== *)
theory Pcb
  imports VirtualMem SemRwlock
begin

text \<open>
  \<open>kern/scheduler/pcb.c\<close>: process control blocks. The status queue is the sequence of its
  entries, or \<open>None\<close> when \<open>queue_init\<close> found no memory for its list. A process is the owner of
  its page directory; the frame manager and the memory behind the directories are the rest
  of the state. \<open>started\<close> and \<open>tid\<close> are what the locks read of the scheduler. Loading a program
  (\<open>pcb_load_prog\<close>) is part of the theory of the loader.
\<close>

subsection \<open>Model\<close>

record pcb_metadata =
  mt_status :: int
  mt_original_tid :: int

record pcb =
  pid :: int
  ppid :: int
  original_tid :: int
  stack_top :: u32
  entry_point :: u32
  pcb_pd :: page_directory
  num_threads :: u32
  num_child_proc :: u32
  pcb_argc :: int
  pcb_argv :: ptr
  wait_sem :: sem
  status_queue :: "pcb_metadata list option"
  pcb_m :: mutex

text \<open>
  The return codes of the functions that \<open>pcb_init\<close> calls are not looked at. \<open>mem\<close> says whether
  the lists of the status queue and of the semaphore's queue are allocated.
\<close>

definition pcb_init :: "allocator \<Rightarrow> u32 \<Rightarrow> kernel_pages \<Rightarrow> bool \<times> bool \<Rightarrow> pcb option \<Rightarrow> vmem \<Rightarrow>
    (int \<times> pcb option \<times> vmem) option" where
  "pcb_init al ums k mem pcb m = (case pcb of None \<Rightarrow> Some (-1, None, m) | Some p \<Rightarrow> do {
     let p = p\<lparr>pid := -1, ppid := -1, original_tid := -1, num_child_proc := 0, num_threads := 0\<rparr>;
     (_, pd, m) \<leftarrow> pd_init al ums k (pcb_pd p) m;
     let p = p\<lparr>pcb_pd := pd\<rparr>;
     let p = p\<lparr>pcb_m := (case snd (mutex_init (Some (pcb_m p))) of None \<Rightarrow> pcb_m p | Some mu \<Rightarrow> mu)\<rparr>;
     let p = p\<lparr>status_queue := (if fst mem then Some [] else None)\<rparr>;
     let p = p\<lparr>wait_sem := (case snd (sem_init (snd mem) (Some (wait_sem p)) 0) of None \<Rightarrow> wait_sem p | Some s \<Rightarrow> s)\<rparr>;
     Some (0, Some p, m)
   })"

definition pcb_destroy_s :: "vctx \<Rightarrow> u32 \<Rightarrow> bool \<Rightarrow> int \<Rightarrow> pcb option \<Rightarrow> vmem \<Rightarrow> frame_manager \<Rightarrow>
    (int \<times> pcb option \<times> vmem \<times> frame_manager) option" where
  "pcb_destroy_s c ums started tid pcb m fm = (case pcb of None \<Rightarrow> Some (-1, None, m, fm) | Some p \<Rightarrow> do {
     mu \<leftarrow> mutex_lock started tid (pcb_m p);
     s \<leftarrow> sem_destroy started tid (Some (wait_sem p));
     s \<leftarrow> s;
     let p = p\<lparr>pcb_m := mu, wait_sem := s, status_queue := None\<rparr>;
     (_, pd, m, fm) \<leftarrow> vmm_clear_user_space c ums (pcb_pd p) m fm;
     (pd, m) \<leftarrow> pd_destroy ums pd m;
     let p = p\<lparr>pcb_pd := pd, pcb_m := mutex_unlock started (pcb_m p)\<rparr>;
     Some (0, Some (p\<lparr>pcb_m := mutex_destroy (pcb_m p)\<rparr>), m, fm)
   })"

text \<open>\<open>cur_pd\<close> is the directory of the running process, which \<open>vmm_deep_copy\<close> copies.\<close>

definition pcb_copy :: "vctx \<Rightarrow> u32 list \<Rightarrow> u32 \<Rightarrow> page_directory option \<Rightarrow> pcb option \<Rightarrow> pcb option \<Rightarrow> vmem \<Rightarrow> frame_manager \<Rightarrow>
    (int \<times> pcb option \<times> vmem \<times> frame_manager) option" where
  "pcb_copy c backup ums cur_pd dest source m fm = (case (source, dest) of
     (Some sp, Some dp) \<Rightarrow> do {
       let dp = dp\<lparr>ppid := pid sp\<rparr>;
       (r, pd, m, fm) \<leftarrow> vmm_deep_copy c backup ums cur_pd (Some (pcb_pd dp)) m fm;
       pd \<leftarrow> pd;
       let dp = dp\<lparr>pcb_pd := pd\<rparr>;
       if r < 0 then Some (-2, Some dp, m, fm) else Some (0, Some dp, m, fm)
     }
   | _ \<Rightarrow> Some (-1, dest, m, fm))"

text \<open>
  \<open>mem\<close>: whether the entry and the queue's node are allocated. The second component of the
  answer is the thread that \<open>sem_signal\<close> wakes. When the entry cannot be enqueued, the mutex
  of the process is released, although this function has not locked it.
\<close>

definition pcb_signal_status :: "bool \<Rightarrow> bool \<times> bool \<Rightarrow> int \<Rightarrow> pcb option \<Rightarrow> int \<Rightarrow> int \<Rightarrow>
    ((int \<times> int option) \<times> pcb option) option" where
  "pcb_signal_status started mem tid pcb status orig = (case pcb of None \<Rightarrow> Some ((-1, None), None) | Some p \<Rightarrow>
     if \<not> fst mem then Some ((-2, None), Some p)
     else let metadata = \<lparr>mt_status = status, mt_original_tid = orig\<rparr> in
     case status_queue p of
       Some q \<Rightarrow>
         if \<not> snd mem then Some ((-2, None), Some (p\<lparr>pcb_m := mutex_unlock started (pcb_m p)\<rparr>))
         else do {
           let p = p\<lparr>status_queue := Some (q @ [metadata])\<rparr>;
           (w, s) \<leftarrow> sem_signal started tid (Some (wait_sem p));
           s \<leftarrow> s;
           Some ((0, w), Some (p\<lparr>wait_sem := s\<rparr>))
         }
     | None \<Rightarrow> Some ((-2, None), Some (p\<lparr>pcb_m := mutex_unlock started (pcb_m p)\<rparr>)))"

text \<open>
  \<open>pcb_wait_on_status\<close> sleeps in \<open>sem_wait\<close> when no status is available (\<open>Wait_sleeps\<close>); a woken
  thread goes on with \<open>pcb_collect_status\<close>. The answer has the entry that is stored
  through the two pointers.
\<close>

datatype wait_out = Wait_sleeps | Wait_returns int "pcb_metadata option"

definition pcb_collect_status :: "bool \<Rightarrow> int \<Rightarrow> pcb \<Rightarrow> (wait_out \<times> pcb option) option" where
  "pcb_collect_status started tid p = do {
     mu \<leftarrow> mutex_lock started tid (pcb_m p);
     let p = p\<lparr>pcb_m := mu\<rparr>;
     case status_queue p of
       Some (x # q) \<Rightarrow>
         Some (Wait_returns 0 (Some x), Some (p\<lparr>status_queue := Some q, pcb_m := mutex_unlock started (pcb_m p)\<rparr>))
     | _ \<Rightarrow> Some (Wait_returns (-2) None, Some p)
   }"

definition pcb_wait_on_status :: "bool \<Rightarrow> bool \<Rightarrow> int \<Rightarrow> pcb option \<Rightarrow> (wait_out \<times> pcb option) option" where
  "pcb_wait_on_status started mem tid pcb = (case pcb of None \<Rightarrow> Some (Wait_returns (-1) None, None) | Some p \<Rightarrow>
     if num_child_proc p = 0 then Some (Wait_returns (-2) None, Some p)
     else do {
       (blocked, s) \<leftarrow> sem_wait started mem tid (Some (wait_sem p));
       s \<leftarrow> s;
       let p = p\<lparr>wait_sem := s\<rparr>;
       if blocked then Some (Wait_sleeps, Some p) else pcb_collect_status started tid p
     })"

definition pcb_get_ppid :: "pcb option \<Rightarrow> int" where
  "pcb_get_ppid pcb = (case pcb of None \<Rightarrow> -1 | Some p \<Rightarrow> ppid p)"

definition pcb_set_original_tid :: "pcb option \<Rightarrow> int \<Rightarrow> int \<times> pcb option" where
  "pcb_set_original_tid pcb tid = (case pcb of None \<Rightarrow> (-1, None) | Some p \<Rightarrow> (0, Some (p\<lparr>original_tid := tid\<rparr>)))"

definition pcb_get_original_tid :: "pcb option \<Rightarrow> bool \<Rightarrow> int \<times> int option" where
  "pcb_get_original_tid pcb want = (case pcb of None \<Rightarrow> (-1, None)
   | Some p \<Rightarrow> if want then (0, Some (original_tid p)) else (-1, None))"

text \<open>The four counters under the mutex of the process.\<close>

definition pcb_inc_children_s :: "bool \<Rightarrow> int \<Rightarrow> pcb option \<Rightarrow> (int \<times> pcb option) option" where
  "pcb_inc_children_s started tid pcb = (case pcb of None \<Rightarrow> Some (-1, None) | Some p \<Rightarrow> do {
     mu \<leftarrow> mutex_lock started tid (pcb_m p);
     let p = p\<lparr>num_child_proc := num_child_proc p + 1\<rparr>;
     Some (0, Some (p\<lparr>pcb_m := mutex_unlock started mu\<rparr>))
   })"

definition pcb_dec_children_s :: "bool \<Rightarrow> int \<Rightarrow> pcb option \<Rightarrow> (int \<times> pcb option) option" where
  "pcb_dec_children_s started tid pcb = (case pcb of None \<Rightarrow> Some (-1, None) | Some p \<Rightarrow> do {
     mu \<leftarrow> mutex_lock started tid (pcb_m p);
     let p = p\<lparr>num_child_proc := num_child_proc p - 1\<rparr>;
     Some (0, Some (p\<lparr>pcb_m := mutex_unlock started mu\<rparr>))
   })"

definition pcb_inc_threads_s :: "bool \<Rightarrow> int \<Rightarrow> pcb option \<Rightarrow> (int \<times> pcb option) option" where
  "pcb_inc_threads_s started tid pcb = (case pcb of None \<Rightarrow> Some (-1, None) | Some p \<Rightarrow> do {
     mu \<leftarrow> mutex_lock started tid (pcb_m p);
     let p = p\<lparr>num_threads := num_threads p + 1\<rparr>;
     Some (sint (num_threads p), Some (p\<lparr>pcb_m := mutex_unlock started mu\<rparr>))
   })"

definition pcb_dec_threads_s :: "bool \<Rightarrow> int \<Rightarrow> pcb option \<Rightarrow> (int \<times> pcb option) option" where
  "pcb_dec_threads_s started tid pcb = (case pcb of None \<Rightarrow> Some (-1, None) | Some p \<Rightarrow> do {
     mu \<leftarrow> mutex_lock started tid (pcb_m p);
     let p = p\<lparr>num_threads := num_threads p - 1\<rparr>;
     Some (sint (num_threads p), Some (p\<lparr>pcb_m := mutex_unlock started mu\<rparr>))
   })"

end
