(* ===== verification/Tcb.thy ===== *)
theory Tcb
  imports Pcb
begin

text \<open>
  \<open>kern/scheduler/tcb.c\<close>: thread control blocks. Of the kernel stack the model keeps the 18 words
  below its top, which are the context that is restored when the thread first runs:
  \<open>k_words ! i\<close> is \<open>k_stack_top[i - 18]\<close>. The selectors of the segments and the flags of user
  mode come from the hardware headers and are the parameter \<open>g\<close>.
\<close>

datatype tstatus = UNINIT | RUNNABLE | WAITING | ZOMBIE | RUNNING | SLEEPING

record segs =
  SEGSEL_USER_DS :: u32
  SEGSEL_USER_CS :: u32
  user_eflags :: u32

record tcb =
  t_tid :: int
  t_status :: tstatus
  t_exit_status :: int
  t_wakeup :: u32
  t_pcb :: ptr
  k_stack_bot :: ptr
  k_stack_top :: ptr
  orig_k_stack :: ptr
  tmp_k_stack :: ptr
  k_words :: "u32 list"
  swexn_handler :: ptr
  swexn_handler_arg :: ptr
  swexn_handler_esp :: ptr

text \<open>The indices of the saved registers, as in \<open>tcb.h\<close>.\<close>

abbreviation SS_IDX :: nat where "SS_IDX \<equiv> 17"
abbreviation ESP_IDX :: nat where "ESP_IDX \<equiv> 16"
abbreviation EFLAGS_IDX :: nat where "EFLAGS_IDX \<equiv> 15"
abbreviation CS_IDX :: nat where "CS_IDX \<equiv> 14"
abbreviation EIP_IDX :: nat where "EIP_IDX \<equiv> 13"
abbreviation ERRCODE_IDX :: nat where "ERRCODE_IDX \<equiv> 12"
abbreviation EAX_IDX :: nat where "EAX_IDX \<equiv> 11"
abbreviation ECX_IDX :: nat where "ECX_IDX \<equiv> 10"
abbreviation EDX_IDX :: nat where "EDX_IDX \<equiv> 9"
abbreviation EBX_IDX :: nat where "EBX_IDX \<equiv> 8"
abbreviation EBP_IDX :: nat where "EBP_IDX \<equiv> 6"
abbreviation ESI_IDX :: nat where "ESI_IDX \<equiv> 5"
abbreviation EDI_IDX :: nat where "EDI_IDX \<equiv> 4"
abbreviation GS_IDX :: nat where "GS_IDX \<equiv> 3"
abbreviation FS_IDX :: nat where "FS_IDX \<equiv> 2"
abbreviation ES_IDX :: nat where "ES_IDX \<equiv> 1"
abbreviation DS_IDX :: nat where "DS_IDX \<equiv> 0"

text \<open>\<open>regs == NULL ? dflt : regs[i]\<close>; a caller's array has \<open>REGS_SIZE\<close> elements.\<close>

definition reg :: "u32 list option \<Rightarrow> u32 \<Rightarrow> nat \<Rightarrow> u32" where
  "reg regs dflt i = (case regs of None \<Rightarrow> dflt | Some r \<Rightarrow> r ! i)"

definition load_kstack :: "segs \<Rightarrow> tcb \<Rightarrow> pcb \<Rightarrow> ptr \<Rightarrow> u32 list option \<Rightarrow> tcb" where
  "load_kstack g tcb p tp regs =
     (let w = [reg regs (SEGSEL_USER_DS g) GS_IDX, reg regs (SEGSEL_USER_DS g) FS_IDX,
               reg regs (SEGSEL_USER_DS g) ES_IDX, reg regs (SEGSEL_USER_DS g) DS_IDX,
               reg regs 0 EDI_IDX, reg regs 0 ESI_IDX, reg regs (stack_top p) EBP_IDX, 0,
               reg regs 0 EBX_IDX, reg regs 0 EDX_IDX, reg regs 0 ECX_IDX, 0, 0,
               reg regs (entry_point p) EIP_IDX, reg regs (SEGSEL_USER_CS g) CS_IDX,
               reg regs (user_eflags g) EFLAGS_IDX, reg regs (stack_top p) ESP_IDX,
               reg regs (SEGSEL_USER_DS g) SS_IDX]
      in tcb\<lparr>k_words := w, k_stack_top := tp, orig_k_stack := tp - 18 * 4, tmp_k_stack := tp - 18 * 4\<rparr>)"

text \<open>\<open>kst\<close> is the answer of \<open>malloc(8 * PAGE_SIZE)\<close>; a process is given with its address.\<close>

definition tcb_init :: "segs \<Rightarrow> ptr \<Rightarrow> tcb option \<Rightarrow> int \<Rightarrow> (ptr \<times> pcb) option \<Rightarrow> u32 list option \<Rightarrow> int \<times> tcb option" where
  "tcb_init g kst tcb tid pcb regs = (case (tcb, pcb) of
     (Some t, Some (pp, p)) \<Rightarrow>
       let t = t\<lparr>t_tid := tid, t_pcb := pp, t_status := RUNNABLE, k_stack_bot := kst\<rparr> in
       if kst = NULL then (-2, Some t)
       else let t = load_kstack g t p (kst + 8 * PAGE_SIZE) regs
            in (0, Some (t\<lparr>swexn_handler := NULL, swexn_handler_arg := NULL, swexn_handler_esp := NULL\<rparr>))
   | _ \<Rightarrow> (-1, tcb))"

definition tcb_get_init_stack :: "tcb option \<Rightarrow> bool \<Rightarrow> int \<times> ptr option" where
  "tcb_get_init_stack tcb want = (case tcb of None \<Rightarrow> (-1, None)
   | Some t \<Rightarrow> if want then (0, Some (orig_k_stack t)) else (-1, None))"

text \<open>The answer is the address given to \<open>free\<close>.\<close>

definition tcb_destroy :: "tcb \<Rightarrow> ptr" where
  "tcb_destroy t = k_stack_bot t"

definition tcb_get_pcb :: "tcb option \<Rightarrow> bool \<Rightarrow> int \<times> ptr option" where
  "tcb_get_pcb tcb want = (case tcb of None \<Rightarrow> (-1, None)
   | Some t \<Rightarrow> if want then (0, Some (t_pcb t)) else (-1, None))"

text \<open>The three values stored through the pointers are the second component.\<close>

definition tcb_deregister_swexn_handler :: "tcb option \<Rightarrow> int \<times> (ptr \<times> ptr \<times> ptr) option \<times> tcb option" where
  "tcb_deregister_swexn_handler tcb = (case tcb of None \<Rightarrow> (-1, None, None)
   | Some t \<Rightarrow> (0, Some (swexn_handler_esp t, swexn_handler t, swexn_handler_arg t),
       Some (t\<lparr>swexn_handler_esp := NULL, swexn_handler_arg := NULL, swexn_handler := NULL\<rparr>)))"

definition tcb_register_swexn_handler :: "tcb option \<Rightarrow> ptr \<Rightarrow> ptr \<Rightarrow> ptr \<Rightarrow> int \<times> tcb option" where
  "tcb_register_swexn_handler tcb esp3 eip arg = (case tcb of None \<Rightarrow> (-1, None)
   | Some t \<Rightarrow> (0, Some (t\<lparr>swexn_handler_esp := esp3, swexn_handler_arg := arg, swexn_handler := eip\<rparr>)))"

definition tcb_reload :: "segs \<Rightarrow> tcb option \<Rightarrow> pcb option \<Rightarrow> int \<times> tcb option" where
  "tcb_reload g tcb pcb = (case (tcb, pcb) of
     (Some t, Some p) \<Rightarrow>
       let t = load_kstack g t p (k_stack_top t) None;
           (_, _, t) = tcb_deregister_swexn_handler (Some t)
       in (0, t)
   | _ \<Rightarrow> (-1, tcb))"

text \<open>The comparison takes two addresses; \<open>m\<close> has the blocks by address.\<close>

definition wakeup_at :: "(ptr \<rightharpoonup> tcb) \<Rightarrow> ptr \<Rightarrow> u32" where
  "wakeup_at m p = (case m p of None \<Rightarrow> 0 | Some t \<Rightarrow> t_wakeup t)"

definition tcb_t_wakeup_cmp :: "(ptr \<rightharpoonup> tcb) \<Rightarrow> ptr \<Rightarrow> ptr \<Rightarrow> int" where
  "tcb_t_wakeup_cmp m a b =
     (let t1 = wakeup_at m a; t2 = wakeup_at m b in if t1 < t2 then -1 else if t1 > t2 then 1 else 0)"

definition tcb_get_exit_status :: "tcb option \<Rightarrow> int \<times> int option" where
  "tcb_get_exit_status tcb = (case tcb of None \<Rightarrow> (-1, None) | Some t \<Rightarrow> (0, Some (t_exit_status t)))"

end
