(* ===== verification/TcbPool.thy ===== *)
theory TcbPool
  imports Tcb LinkedList HashTable
begin

text \<open>
  \<open>kern/scheduler/tcb_pool.c\<close>: the threads of the kernel. A thread has one list node, which is
  registered in a hash table under its tid and linked into one of four lists. The lists are
  those of \<open>ll.c\<close> at the level of pointers, on one heap; the record holds the addresses of the
  four \<open>ll_t\<close> structs inside \<open>tcb_pool_t\<close>. The state of the scheduler that embeds the pool, the
  blocks of threads and processes by address, the interrupt flag and the two processor
  registers that a context switch loads are the rest of the state.
\<close>

subsection \<open>State\<close>

record tcb_pool =
  threads :: ht
  processes :: ht
  runnable_pool :: ptr
  waiting_pool :: ptr
  sleeping_pool :: ptr
  zombie_pool :: ptr
  zombies_sem :: sem

record sched =
  started :: bool
  num_ticks :: int
  next_tid :: int
  next_pid :: int
  init_pcb :: ptr
  idle_tcb :: ptr
  thr_pool :: tcb_pool
  cur_tcb :: ptr
  sched_lock :: sched_mutex
  intr :: bool
  esp0 :: ptr
  pdbr :: ptr
  s_heap :: heap
  tcbs :: "ptr \<rightharpoonup> tcb"
  pcbs :: "ptr \<rightharpoonup> pcb"
  sc_mcalls :: nat

definition sched_locked :: "sched \<Rightarrow> sched" where
  "sched_locked s = s\<lparr>intr := sched_mutex_lock (\<lambda>_. started s) (Some (sched_lock s)) (intr s)\<rparr>"

definition sched_unlocked :: "sched \<Rightarrow> sched" where
  "sched_unlocked s = s\<lparr>intr := sched_mutex_unlock (\<lambda>_. started s) (Some (sched_lock s)) (intr s)\<rparr>"

text \<open>The tid that the locks record as their owner: that of the current thread, or -1.\<close>

definition my_tid :: "sched \<Rightarrow> int" where
  "my_tid s = (case tcbs s (cur_tcb s) of None \<Rightarrow> -1 | Some t \<Rightarrow> t_tid t)"

definition set_tcb :: "ptr \<Rightarrow> (tcb \<Rightarrow> tcb) \<Rightarrow> sched \<Rightarrow> sched option" where
  "set_tcb p f s = do { t \<leftarrow> tcbs s p; Some (s\<lparr>tcbs := (tcbs s)(p \<mapsto> f t)\<rparr>) }"

definition tid_hash :: "u32 \<Rightarrow> u32" where
  "tid_hash key = key"

definition pid_hash :: "u32 \<Rightarrow> u32" where
  "pid_hash key = key"

subsection \<open>Initialisation and registration\<close>

text \<open>\<open>mem\<close>: whether the two bucket arrays and the list of the semaphore's queue are allocated.\<close>

definition tcb_pool_init :: "bool \<times> bool \<times> bool \<Rightarrow> sched \<Rightarrow> (int \<times> sched) option" where
  "tcb_pool_init mem s = do {
     let tp = thr_pool s;
     (r, t) \<leftarrow> ht_init (fst mem) (Some (threads tp)) 64 (Some tid_hash);
     t \<leftarrow> t;
     let tp = tp\<lparr>threads := t\<rparr>;
     if r < 0 then Some (-2, s\<lparr>thr_pool := tp\<rparr>)
     else do {
       (r, t) \<leftarrow> ht_init (fst (snd mem)) (Some (processes tp)) 64 (Some pid_hash);
       t \<leftarrow> t;
       let tp = tp\<lparr>processes := t\<rparr>;
       if r < 0 then Some (-2, s\<lparr>thr_pool := tp\<rparr>)
       else do {
         (_, h) \<leftarrow> ll_init (runnable_pool tp) (s_heap s);
         (_, h) \<leftarrow> ll_init (waiting_pool tp) h;
         (_, h) \<leftarrow> ll_init (sleeping_pool tp) h;
         (_, h) \<leftarrow> ll_init (zombie_pool tp) h;
         let (r, z) = sem_init (snd (snd mem)) (Some (zombies_sem tp)) 0;
         z \<leftarrow> z;
         let s = s\<lparr>thr_pool := tp\<lparr>zombies_sem := z\<rparr>, s_heap := h\<rparr>;
         Some (if r < 0 then -4 else 0, s)
       }
     }
   }"

text \<open>
  The three allocations before the lock is taken: the list node, the entry of the hash table
  and the node of its bucket. \<open>e_al\<close> answers for the entry and the bucket node. The error
  returns after the lock has been taken leave it taken.
\<close>

definition prepare_entry :: "allocator \<Rightarrow> ll_node \<Rightarrow> ptr \<times> ptr \<Rightarrow> ptr \<Rightarrow> int \<Rightarrow> sched \<Rightarrow> (int \<times> ht_cell option \<times> sched) option" where
  "prepare_entry al junk e_al obj key s = do {
     let (node, h) = malloc_node al junk (s_heap s);
     (r, h) \<leftarrow> ll_node_init node obj h;
     let s = s\<lparr>s_heap := h\<rparr>;
     if r < 0 then Some (-2, None, s)
     else if fst e_al = NULL then Some (-3, None, s)
     else if snd e_al = NULL then Some (-4, None, s)
     else Some (0, Some \<lparr>c_node = snd e_al, c_entry = fst e_al, c_key = word_of_int key, c_val = node\<rparr>, s)
   }"

definition tcb_pool_add_runnable_tcb_safe :: "allocator \<Rightarrow> ll_node \<Rightarrow> ptr \<times> ptr \<Rightarrow> ptr \<Rightarrow> sched \<Rightarrow> (int \<times> sched) option" where
  "tcb_pool_add_runnable_tcb_safe al junk e_al tcb s =
     (if tcb = NULL then Some (-1, s)
      else do {
        t \<leftarrow> tcbs s tcb;
        (r, cell, s) \<leftarrow> prepare_entry al junk e_al tcb (t_tid t) s;
        if r < 0 then Some (r, s)
        else do {
          cell \<leftarrow> cell;
          let s = sched_locked s;
          (r, ht) \<leftarrow> ht_put_entry (Some (threads (thr_pool s))) (Some cell);
          ht \<leftarrow> ht;
          let s = s\<lparr>thr_pool := (thr_pool s)\<lparr>threads := ht\<rparr>\<rparr>;
          if r < 0 then Some (-3, s)
          else do {
            (r, h) \<leftarrow> ll_link_node_last (runnable_pool (thr_pool s)) (c_val cell) (s_heap s);
            let s = s\<lparr>s_heap := h\<rparr>;
            if r < 0 then Some (-4, s) else Some (0, sched_unlocked s)
          }
        }
      })"

definition tcb_pool_add_pcb_safe :: "allocator \<Rightarrow> ll_node \<Rightarrow> ptr \<times> ptr \<Rightarrow> ptr \<Rightarrow> sched \<Rightarrow> (int \<times> sched) option" where
  "tcb_pool_add_pcb_safe al junk e_al pcb s =
     (if pcb = NULL then Some (-1, s)
      else do {
        p \<leftarrow> pcbs s pcb;
        (r, cell, s) \<leftarrow> prepare_entry al junk e_al pcb (pid p) s;
        if r < 0 then Some (r, s)
        else do {
          let s = sched_locked s;
          (r, ht) \<leftarrow> ht_put_entry (Some (processes (thr_pool s))) cell;
          ht \<leftarrow> ht;
          let s = s\<lparr>thr_pool := (thr_pool s)\<lparr>processes := ht\<rparr>\<rparr>;
          if r < 0 then Some (-3, s) else Some (0, sched_unlocked s)
        }
      })"

text \<open>With a buffer \<open>addrs\<close> the node is kept for a later \<open>free\<close>; without, it is freed.\<close>

definition discard_node :: "ptr \<Rightarrow> circ_buf option \<Rightarrow> sched \<Rightarrow> (circ_buf option \<times> sched) option" where
  "discard_node node addrs s =
     (if addrs = None then Some (None, s\<lparr>s_heap := free_node node (s_heap s)\<rparr>)
      else do { (_, a) \<leftarrow> circ_buf_write addrs node; Some (a, s) })"

definition tcb_pool_remove_pcb :: "int \<Rightarrow> circ_buf option \<Rightarrow> sched \<Rightarrow> (int \<times> circ_buf option \<times> sched) option" where
  "tcb_pool_remove_pcb the_pid addrs s = do {
     (r, node, ht, addrs) \<leftarrow> ht_remove (Some (processes (thr_pool s))) (word_of_int the_pid) addrs;
     ht \<leftarrow> ht;
     let s = s\<lparr>thr_pool := (thr_pool s)\<lparr>processes := ht\<rparr>\<rparr>;
     if r < 0 then Some (-2, addrs, s)
     else do {
       node \<leftarrow> node;
       if addrs = None then Some (0, None, s\<lparr>s_heap := free_node node (s_heap s)\<rparr>)
       else do {
         (r, a) \<leftarrow> circ_buf_write addrs node;
         Some (0, a, if r < 0 then s\<lparr>s_heap := free_node node (s_heap s)\<rparr> else s)
       }
     }
   }"

subsection \<open>Lookup\<close>

definition tcb_pool_get_next_tcb :: "sched \<Rightarrow> (int \<times> ptr option \<times> sched) option" where
  "tcb_pool_get_next_tcb s = do {
     (ret, h) \<leftarrow> ll_rotate (runnable_pool (thr_pool s)) (s_heap s);
     let s = s\<lparr>s_heap := h\<rparr>;
     if ret = -2 then Some (-2, None, s)
     else if ret < 0 then Some (-3, None, s)
     else do {
       (r, e) \<leftarrow> ll_peek (runnable_pool (thr_pool s)) (s_heap s);
       if r < 0 then Some (-4, None, s) else Some (0, e, s)
     }
   }"

text \<open>
  The common beginning of the operations: the node registered under a tid, and the block it
  carries; \<open>Inl\<close> is the code to return with.
\<close>

definition find_node :: "int \<Rightarrow> sched \<Rightarrow> (int + ptr \<times> ptr) option" where
  "find_node tid s = do {
     (r, node) \<leftarrow> ht_get (Some (threads (thr_pool s))) (word_of_int tid) True;
     if r < 0 then Some (Inl (-2))
     else do {
       node \<leftarrow> node;
       (r, e) \<leftarrow> ll_node_get_data node (s_heap s);
       if r < 0 then Some (Inl (-3)) else do { tcb \<leftarrow> e; Some (Inr (node, tcb)) }
     }
   }"

definition tcb_pool_find_tcb :: "int \<Rightarrow> sched \<Rightarrow> (int \<times> ptr option) option" where
  "tcb_pool_find_tcb tid s = do {
     f \<leftarrow> find_node tid s;
     case f of Inl e \<Rightarrow> Some (e, None) | Inr (_, tcb) \<Rightarrow> Some (0, Some tcb)
   }"

definition tcb_pool_find_pcb :: "int \<Rightarrow> sched \<Rightarrow> (int \<times> ptr option) option" where
  "tcb_pool_find_pcb the_pid s = do {
     (r, node) \<leftarrow> ht_get (Some (processes (thr_pool s))) (word_of_int the_pid) True;
     if r < 0 then Some (-2, None)
     else do {
       node \<leftarrow> node;
       (r, e) \<leftarrow> ll_node_get_data node (s_heap s);
       if r < 0 then Some (-3, None) else Some (0, e)
     }
   }"

subsection \<open>Moving a thread between the pools\<close>

text \<open>Unlink a node from one list (-5 on failure) and link it at the end of another (-6).\<close>

definition move_node :: "ptr \<Rightarrow> ptr \<Rightarrow> ptr \<Rightarrow> sched \<Rightarrow> (int \<times> sched) option" where
  "move_node src dst node s = do {
     (r, h) \<leftarrow> ll_unlink_node src node (s_heap s);
     let s = s\<lparr>s_heap := h\<rparr>;
     if r < 0 then Some (-5, s)
     else do {
       (r, h) \<leftarrow> ll_link_node_last dst node (s_heap s);
       Some (if r < 0 then -6 else 0, s\<lparr>s_heap := h\<rparr>)
     }
   }"

definition tcb_pool_make_sleeping :: "int \<Rightarrow> sched \<Rightarrow> (int \<times> sched) option" where
  "tcb_pool_make_sleeping tid s = do {
     f \<leftarrow> find_node tid s;
     case f of Inl e \<Rightarrow> Some (e, s) | Inr (node, tcb) \<Rightarrow> do {
       (r, h) \<leftarrow> ll_unlink_node (runnable_pool (thr_pool s)) node (s_heap s);
       let s = s\<lparr>s_heap := h\<rparr>;
       if r < 0 then Some (-5, s)
       else do {
         (r, h) \<leftarrow> ll_link_node_sorted (tcb_t_wakeup_cmp (tcbs s)) (sleeping_pool (thr_pool s)) node (s_heap s);
         Some (if r < 0 then -6 else 0, s\<lparr>s_heap := h\<rparr>)
       }
     }
   }"

definition tcb_pool_make_waiting :: "int \<Rightarrow> sched \<Rightarrow> (int \<times> sched) option" where
  "tcb_pool_make_waiting tid s = do {
     f \<leftarrow> find_node tid s;
     case f of Inl e \<Rightarrow> Some (e, s) | Inr (node, tcb) \<Rightarrow> do {
       t \<leftarrow> tcbs s tcb;
       if t_status t = WAITING then Some (-4, s)
       else move_node (runnable_pool (thr_pool s)) (waiting_pool (thr_pool s)) node s
     }
   }"

definition tcb_pool_make_runnable :: "int \<Rightarrow> sched \<Rightarrow> (int \<times> sched) option" where
  "tcb_pool_make_runnable tid s = do {
     f \<leftarrow> find_node tid s;
     case f of Inl e \<Rightarrow> Some (e, s) | Inr (node, tcb) \<Rightarrow> do {
       t \<leftarrow> tcbs s tcb;
       if t_status t = RUNNABLE then Some (-4, s)
       else if t_status t = WAITING then move_node (waiting_pool (thr_pool s)) (runnable_pool (thr_pool s)) node s
       else move_node (sleeping_pool (thr_pool s)) (runnable_pool (thr_pool s)) node s
     }
   }"

partial_function (option) tcb_pool_wakeup :: "u32 \<Rightarrow> sched \<Rightarrow> (int \<times> sched) option" where
  "tcb_pool_wakeup curr_time s = do {
     n \<leftarrow> ll_size (sleeping_pool (thr_pool s)) (s_heap s);
     if n > 0 then do {
       (r, e) \<leftarrow> ll_peek (sleeping_pool (thr_pool s)) (s_heap s);
       if r < 0 then Some (-1, s)
       else do {
         tcb \<leftarrow> e;
         t \<leftarrow> tcbs s tcb;
         if t_wakeup t = curr_time then do {
           (_, s) \<leftarrow> tcb_pool_make_runnable (t_tid t) s;
           tcb_pool_wakeup curr_time s
         } else Some (0, s)
       }
     } else Some (0, s)
   }"

definition unlink_from :: "ptr \<Rightarrow> ptr \<Rightarrow> sched \<Rightarrow> (int \<times> sched) option" where
  "unlink_from l node s = do {
     (r, h) \<leftarrow> ll_unlink_node l node (s_heap s);
     Some (if r < 0 then -5 else 0, s\<lparr>s_heap := h\<rparr>)
   }"

definition tcb_pool_remove_tcb :: "int \<Rightarrow> circ_buf option \<Rightarrow> sched \<Rightarrow> (int \<times> circ_buf option \<times> sched) option" where
  "tcb_pool_remove_tcb tid addrs s = do {
     (r, node, ht, addrs) \<leftarrow> ht_remove (Some (threads (thr_pool s))) (word_of_int tid) addrs;
     ht \<leftarrow> ht;
     let s = s\<lparr>thr_pool := (thr_pool s)\<lparr>threads := ht\<rparr>\<rparr>;
     if r < 0 then Some (-2, addrs, s)
     else do {
       node \<leftarrow> node;
       (r, e) \<leftarrow> ll_node_get_data node (s_heap s);
       if r < 0 then Some (-3, addrs, s)
       else do {
         tcb \<leftarrow> e;
         t \<leftarrow> tcbs s tcb;
         (r, s) \<leftarrow> (case t_status t of
             RUNNABLE \<Rightarrow> unlink_from (runnable_pool (thr_pool s)) node s
           | RUNNING \<Rightarrow> unlink_from (runnable_pool (thr_pool s)) node s
           | WAITING \<Rightarrow> unlink_from (waiting_pool (thr_pool s)) node s
           | ZOMBIE \<Rightarrow> unlink_from (zombie_pool (thr_pool s)) node s
           | _ \<Rightarrow> Some (-4, s));
         if r < 0 then Some (r, addrs, s)
         else do {
           (addrs, s) \<leftarrow> discard_node node addrs s;
           Some (0, addrs, s)
         }
       }
     }
   }"

end
