(* ===== verification/Scheduler.thy ===== *)
theory Scheduler
  imports TcbPool
begin

text \<open>
  \<open>kern/scheduler/scheduler.c\<close> and \<open>kern/dispatcher/dispatcher.c\<close>: the operations on the
  current thread, the choice of the next thread, and the context switch up to the loading of
  the stack pointer; from \<open>tcb_pool.c\<close> the two operations that signal the semaphore of the zombies,
  because signalling it wakes the reaper through the scheduler; and the timer handler of
  \<open>kern/handlers/peripheral_handlers.c\<close>. \<open>set_pdbr\<close> is recorded by the process whose directory
  is loaded.
\<close>

subsection \<open>Queries\<close>

definition scheduler_get_current_tid :: "sched \<Rightarrow> (int \<times> int option) option" where
  "scheduler_get_current_tid s =
     (if cur_tcb s = NULL then Some (-1, None) else do { t \<leftarrow> tcbs s (cur_tcb s); Some (0, Some (t_tid t)) })"

definition scheduler_get_idle_tcb :: "sched \<Rightarrow> int \<times> ptr" where
  "scheduler_get_idle_tcb s = (if idle_tcb s = NULL then (-2, NULL) else (0, idle_tcb s))"

definition scheduler_get_tcb_by_tid :: "int \<Rightarrow> sched \<Rightarrow> (int \<times> ptr option) option" where
  "scheduler_get_tcb_by_tid target_tid s = do {
     (r, e) \<leftarrow> tcb_pool_find_tcb target_tid s;
     Some (if r < 0 then (-2, None) else (0, e))
   }"

definition scheduler_check_is_runnable :: "int \<Rightarrow> sched \<Rightarrow> int option" where
  "scheduler_check_is_runnable target_tid s = do {
     (r, e) \<leftarrow> tcb_pool_find_tcb target_tid s;
     if r < 0 then Some (-2)
     else do { tcb \<leftarrow> e; t \<leftarrow> tcbs s tcb; Some (if t_status t = RUNNABLE then 1 else 0) }
   }"

definition scheduler_get_pcb_by_pid :: "int \<Rightarrow> sched \<Rightarrow> (int \<times> ptr option) option" where
  "scheduler_get_pcb_by_pid target_pid s = do {
     (r, e) \<leftarrow> tcb_pool_find_pcb target_pid s;
     Some (if r < 0 then (-2, None) else (0, e))
   }"

definition scheduler_get_init_pcb :: "sched \<Rightarrow> int \<times> ptr option" where
  "scheduler_get_init_pcb s = (if init_pcb s = NULL then (-2, None) else (0, Some (init_pcb s)))"

definition scheduler_get_current_pcb :: "sched \<Rightarrow> (int \<times> ptr) option" where
  "scheduler_get_current_pcb s = do { t \<leftarrow> tcbs s (cur_tcb s); Some (0, t_pcb t) }"

definition scheduler_get_current_tcb :: "sched \<Rightarrow> int \<times> ptr" where
  "scheduler_get_current_tcb s = (0, cur_tcb s)"

subsection \<open>The current thread changes its state\<close>

definition scheduler_deschedule_current :: "sched \<Rightarrow> (int \<times> sched) option" where
  "scheduler_deschedule_current s = do {
     t \<leftarrow> tcbs s (cur_tcb s);
     (r, s) \<leftarrow> tcb_pool_make_waiting (t_tid t) s;
     if r < 0 then Some (-3, s)
     else do { s \<leftarrow> set_tcb (cur_tcb s) (\<lambda>t. t\<lparr>t_status := WAITING\<rparr>) s; Some (0, s) }
   }"

text \<open>An operation between \<open>sched_mutex_lock\<close> and \<open>sched_mutex_unlock\<close>: the functions named \<open>_safe\<close>.\<close>

definition with_sched_lock :: "(sched \<Rightarrow> (int \<times> sched) option) \<Rightarrow> sched \<Rightarrow> (int \<times> sched) option" where
  "with_sched_lock f s = do { (r, s) \<leftarrow> f (sched_locked s); Some (r, sched_unlocked s) }"

definition scheduler_deschedule_current_safe :: "sched \<Rightarrow> (int \<times> sched) option" where
  "scheduler_deschedule_current_safe = with_sched_lock scheduler_deschedule_current"

definition scheduler_make_runnable :: "int \<Rightarrow> sched \<Rightarrow> (int \<times> sched) option" where
  "scheduler_make_runnable tid s = do {
     (r, s) \<leftarrow> tcb_pool_make_runnable tid s;
     if r < 0 then Some (-2, s)
     else do {
       (r, e) \<leftarrow> tcb_pool_find_tcb tid s;
       if r < 0 then Some (-3, s)
       else do { tcb \<leftarrow> e; s \<leftarrow> set_tcb tcb (\<lambda>t. t\<lparr>t_status := RUNNABLE\<rparr>) s; Some (0, s) }
     }
   }"

definition scheduler_make_runnable_safe :: "int \<Rightarrow> sched \<Rightarrow> (int \<times> sched) option" where
  "scheduler_make_runnable_safe tid = with_sched_lock (scheduler_make_runnable tid)"

text \<open>
  \<open>num_ticks + ticks\<close> is computed on a signed \<open>int\<close>; the source panics when the sum has
  wrapped around, and the model does not return when it does not fit.
\<close>

definition scheduler_make_current_sleeping :: "int \<Rightarrow> sched \<Rightarrow> (int \<times> sched) option" where
  "scheduler_make_current_sleeping ticks s =
     (if ticks < 0 then Some (-1, s)
      else if ticks = 0 then Some (0, s)
      else do {
        t \<leftarrow> tcbs s (cur_tcb s);
        if t_status t = SLEEPING then Some (-4, s)
        else do {
          s \<leftarrow> set_tcb (cur_tcb s) (\<lambda>t. t\<lparr>t_status := SLEEPING\<rparr>) s;
          c_assert (num_ticks s + ticks < 2 ^ 31);
          s \<leftarrow> set_tcb (cur_tcb s) (\<lambda>t. t\<lparr>t_wakeup := word_of_int (num_ticks s + ticks)\<rparr>) s;
          (r, s) \<leftarrow> tcb_pool_make_sleeping (t_tid t) s;
          Some (if r < 0 then -2 else 0, s)
        }
      })"

definition scheduler_make_current_sleeping_safe :: "int \<Rightarrow> sched \<Rightarrow> (int \<times> sched) option" where
  "scheduler_make_current_sleeping_safe ticks = with_sched_lock (scheduler_make_current_sleeping ticks)"

text \<open>
  \<open>tcb_pool_make_zombie\<close> signals the semaphore before it moves the node. \<open>sem_signal\<close> makes a
  waiting reaper runnable with \<open>thr_make_runnable\<close>, which takes and releases the scheduler lock.
\<close>

definition signal_reaper :: "sched \<Rightarrow> sched option" where
  "signal_reaper s = do {
     (w, z) \<leftarrow> sem_signal (started s) (my_tid s) (Some (zombies_sem (thr_pool s)));
     z \<leftarrow> z;
     let s = s\<lparr>thr_pool := (thr_pool s)\<lparr>zombies_sem := z\<rparr>\<rparr>;
     case w of None \<Rightarrow> Some s
     | Some t \<Rightarrow> do { (_, s) \<leftarrow> scheduler_make_runnable_safe t s; Some s }
   }"

definition tcb_pool_make_zombie :: "int \<Rightarrow> sched \<Rightarrow> (int \<times> sched) option" where
  "tcb_pool_make_zombie tid s = do {
     f \<leftarrow> find_node tid s;
     case f of Inl e \<Rightarrow> Some (e, s) | Inr (node, tcb) \<Rightarrow> do {
       s \<leftarrow> signal_reaper s;
       t \<leftarrow> tcbs s tcb;
       (r, s) \<leftarrow> (case t_status t of
           RUNNABLE \<Rightarrow> unlink_from (runnable_pool (thr_pool s)) node s
         | RUNNING \<Rightarrow> unlink_from (runnable_pool (thr_pool s)) node s
         | WAITING \<Rightarrow> unlink_from (waiting_pool (thr_pool s)) node s
         | _ \<Rightarrow> Some (-6, s));
       if r < 0 then Some (r, s)
       else do {
         s \<leftarrow> set_tcb tcb (\<lambda>t. t\<lparr>t_status := ZOMBIE\<rparr>) s;
         (r, h) \<leftarrow> ll_link_node_last (zombie_pool (thr_pool s)) node (s_heap s);
         Some (if r < 0 then -7 else 0, s\<lparr>s_heap := h\<rparr>)
       }
     }
   }"

definition scheduler_make_current_zombie :: "sched \<Rightarrow> (int \<times> sched) option" where
  "scheduler_make_current_zombie s = do {
     t \<leftarrow> tcbs s (cur_tcb s);
     (r, s) \<leftarrow> tcb_pool_make_zombie (t_tid t) s;
     if r < 0 then Some (-2, s) else Some (0, s\<lparr>cur_tcb := NULL\<rparr>)
   }"

definition scheduler_make_current_zombie_safe :: "sched \<Rightarrow> (int \<times> sched) option" where
  "scheduler_make_current_zombie_safe = with_sched_lock scheduler_make_current_zombie"

subsection \<open>Context switch\<close>

definition scheduler_defer_current_tcb :: "u32 \<Rightarrow> sched \<Rightarrow> (int \<times> sched) option" where
  "scheduler_defer_current_tcb old_esp s =
     (if cur_tcb s \<noteq> NULL then do {
        s \<leftarrow> set_tcb (cur_tcb s) (\<lambda>t. t\<lparr>tmp_k_stack := old_esp\<rparr>) s;
        s \<leftarrow> set_tcb (cur_tcb s) (\<lambda>t. if t_status t = RUNNING then t\<lparr>t_status := RUNNABLE\<rparr> else t) s;
        Some (0, s)
      } else Some (0, s))"

definition scheduler_wakeup :: "sched \<Rightarrow> (int \<times> sched) option" where
  "scheduler_wakeup s = tcb_pool_wakeup (word_of_int (num_ticks s)) s"

text \<open>The second component of the answer is \<open>*new_esp\<close>.\<close>

definition scheduler_set_running_tcb :: "ptr \<Rightarrow> sched \<Rightarrow> (int \<times> u32 option \<times> sched) option" where
  "scheduler_set_running_tcb tcb s =
     (if tcb = NULL then Some (-1, None, s)
      else do {
        let s = s\<lparr>cur_tcb := tcb\<rparr>;
        s \<leftarrow> set_tcb (cur_tcb s) (\<lambda>t. t\<lparr>t_status := RUNNING\<rparr>) s;
        t \<leftarrow> tcbs s tcb;
        Some (0, Some (tmp_k_stack t), s\<lparr>esp0 := orig_k_stack t, pdbr := t_pcb t\<rparr>)
      })"

definition scheduler_get_next_tcb :: "sched \<Rightarrow> (int \<times> ptr \<times> sched) option" where
  "scheduler_get_next_tcb s = do {
     (r, e, s) \<leftarrow> tcb_pool_get_next_tcb s;
     if r < 0 then Some (0, idle_tcb s, s) else do { tcb \<leftarrow> e; Some (0, tcb, s) }
   }"

definition context_switch :: "u32 \<Rightarrow> int \<Rightarrow> sched \<Rightarrow> (u32 \<times> sched) option" where
  "context_switch old_esp target_tid s = do {
     (r, s) \<leftarrow> scheduler_defer_current_tcb old_esp s;
     c_assert (\<not> r < 0);
     (next_tcb, s) \<leftarrow>
       (if target_tid < 0 then do {
          (r, e, s) \<leftarrow> scheduler_get_next_tcb s;
          c_assert (\<not> r < 0);
          Some (e, s)
        } else do {
          (r, e) \<leftarrow> scheduler_get_tcb_by_tid target_tid s;
          if r \<noteq> 0 then do {
            let (r, e) = scheduler_get_idle_tcb s;
            c_assert (\<not> r < 0);
            Some (e, s)
          } else do { e \<leftarrow> e; Some (e, s) }
        });
     (r, new_esp, s) \<leftarrow> scheduler_set_running_tcb next_tcb s;
     c_assert (\<not> r < 0);
     new_esp \<leftarrow> new_esp;
     Some (new_esp, s)
   }"

definition context_switch_safe :: "u32 \<Rightarrow> int \<Rightarrow> sched \<Rightarrow> (u32 \<times> sched) option" where
  "context_switch_safe old_esp target_tid s = do {
     (e, s) \<leftarrow> context_switch old_esp target_tid (sched_locked s);
     Some (e, sched_unlocked s)
   }"

text \<open>The timer handler; acknowledging the interrupt is output.\<close>

definition c_timer_handler :: "u32 \<Rightarrow> sched \<Rightarrow> (u32 \<times> sched) option" where
  "c_timer_handler old_esp s = do {
     c_assert (num_ticks s + 1 < 2 ^ 31);
     let s = s\<lparr>num_ticks := num_ticks s + 1\<rparr>;
     (_, s) \<leftarrow> scheduler_wakeup s;
     context_switch old_esp (-1) s
   }"

subsection \<open>New threads\<close>

definition malloc_tcb :: "allocator \<Rightarrow> tcb \<Rightarrow> sched \<Rightarrow> ptr \<times> sched" where
  "malloc_tcb al junk s =
     (let p = al (sc_mcalls s) (\<lambda>q. tcbs s q \<noteq> None); s = s\<lparr>sc_mcalls := Suc (sc_mcalls s)\<rparr>
      in if p = NULL then (NULL, s) else (p, s\<lparr>tcbs := (tcbs s)(p \<mapsto> junk)\<rparr>))"

text \<open>
  The answers of the other allocations: \<open>kst\<close> for the kernel stack and \<open>e_al\<close> for the entry of the
  hash table and its bucket node.
\<close>

record new_thread_mem =
  nt_tcb :: allocator
  nt_tcb_junk :: tcb
  nt_kst :: ptr
  nt_node :: allocator
  nt_node_junk :: ll_node
  nt_entry :: "ptr \<times> ptr"

definition init_new_tcb :: "segs \<Rightarrow> new_thread_mem \<Rightarrow> ptr \<Rightarrow> int \<Rightarrow> ptr \<Rightarrow> u32 list option \<Rightarrow> sched \<Rightarrow> (int \<times> sched) option" where
  "init_new_tcb g a new_tcb tid pp regs s = do {
     t \<leftarrow> tcbs s new_tcb;
     p \<leftarrow> pcbs s pp;
     let (r, t) = tcb_init g (nt_kst a) (Some t) tid (Some (pp, p)) regs;
     t \<leftarrow> t;
     Some (r, s\<lparr>tcbs := (tcbs s)(new_tcb \<mapsto> t)\<rparr>)
   }"

definition count_thread :: "ptr \<Rightarrow> sched \<Rightarrow> sched option" where
  "count_thread pp s = do {
     (_, p) \<leftarrow> pcb_inc_threads_s (started s) (my_tid s) (pcbs s pp);
     Some (s\<lparr>pcbs := (pcbs s)(pp := p)\<rparr>)
   }"

definition scheduler_add_new_thread :: "segs \<Rightarrow> new_thread_mem \<Rightarrow> u32 list option \<Rightarrow> sched \<Rightarrow> (int \<times> sched) option" where
  "scheduler_add_new_thread g a regs s = do {
     let tid = next_tid s;
     let s = s\<lparr>next_tid := next_tid s + 1\<rparr>;
     let (new_tcb, s) = malloc_tcb (nt_tcb a) (nt_tcb_junk a) s;
     if new_tcb = NULL then Some (-2, s)
     else do {
       t \<leftarrow> tcbs s (cur_tcb s);
       (r, s) \<leftarrow> init_new_tcb g a new_tcb tid (t_pcb t) regs s;
       if r < 0 then Some (-3, s)
       else do {
         s \<leftarrow> count_thread (t_pcb t) s;
         (r, s) \<leftarrow> tcb_pool_add_runnable_tcb_safe (nt_node a) (nt_node_junk a) (nt_entry a) new_tcb s;
         if r < 0 then Some (-3, s) else Some (tid, s)
       }
     }
   }"

text \<open>\<open>p_node\<close> and \<open>p_entry\<close>: the allocations of \<open>tcb_pool_add_pcb_safe\<close>.\<close>

definition scheduler_add_process :: "segs \<Rightarrow> new_thread_mem \<Rightarrow> allocator \<Rightarrow> ptr \<times> ptr \<Rightarrow> ptr \<Rightarrow> u32 list option \<Rightarrow> sched \<Rightarrow>
    (int \<times> sched) option" where
  "scheduler_add_process g a p_node p_entry pp regs s = do {
     p \<leftarrow> pcbs s pp;
     let s = s\<lparr>pcbs := (pcbs s)(pp \<mapsto> p\<lparr>pid := next_pid s\<rparr>), next_pid := next_pid s + 1\<rparr>;
     let tid = next_tid s;
     let s = s\<lparr>next_tid := next_tid s + 1\<rparr>;
     let (new_tcb, s) = malloc_tcb (nt_tcb a) (nt_tcb_junk a) s;
     if new_tcb = NULL then Some (-2, s)
     else do {
       (r, s) \<leftarrow> init_new_tcb g a new_tcb tid pp regs s;
       if r < 0 then Some (-3, s)
       else do {
         let s = s\<lparr>pcbs := (pcbs s)(pp := snd (pcb_set_original_tid (pcbs s pp) tid))\<rparr>;
         s \<leftarrow> count_thread pp s;
         (r, s) \<leftarrow> tcb_pool_add_pcb_safe p_node (nt_node_junk a) p_entry pp s;
         if r < 0 then Some (-4, s)
         else do {
           (r, s) \<leftarrow> tcb_pool_add_runnable_tcb_safe (nt_node a) (nt_node_junk a) (nt_entry a) new_tcb s;
           if r < 0 then Some (-3, s) else Some (tid, s)
         }
       }
     }
   }"

definition scheduler_add_init_process :: "segs \<Rightarrow> new_thread_mem \<Rightarrow> allocator \<Rightarrow> ptr \<times> ptr \<Rightarrow> ptr \<Rightarrow> sched \<Rightarrow>
    (int \<times> sched) option" where
  "scheduler_add_init_process g a p_node p_entry pp s =
     (if pp = NULL then Some (-1, s)
      else do {
        let s = s\<lparr>init_pcb := pp\<rparr>;
        (r, s) \<leftarrow> scheduler_add_process g a p_node p_entry pp None s;
        Some (if r < 0 then -2 else 0, s)
      })"

definition scheduler_add_idle_process :: "segs \<Rightarrow> new_thread_mem \<Rightarrow> ptr \<Rightarrow> sched \<Rightarrow> (int \<times> sched) option" where
  "scheduler_add_idle_process g a pp s = do {
     p \<leftarrow> pcbs s pp;
     let s = s\<lparr>pcbs := (pcbs s)(pp \<mapsto> p\<lparr>pid := next_pid s\<rparr>), next_pid := next_pid s + 1\<rparr>;
     let (tcb, s) = malloc_tcb (nt_tcb a) (nt_tcb_junk a) s;
     if tcb = NULL then Some (-2, s)
     else do {
       let tid = next_tid s;
       let s = s\<lparr>next_tid := next_tid s + 1\<rparr>;
       (_, s) \<leftarrow> init_new_tcb g a tcb tid pp None s;
       Some (tid, s\<lparr>idle_tcb := tcb\<rparr>)
     }
   }"

definition scheduler_start :: "sched \<Rightarrow> int \<times> sched" where
  "scheduler_start s = (0, s\<lparr>started := True, intr := True\<rparr>)"

end
