(* ===== verification/UserMem.thy ===== *)
theory UserMem
  imports VirtualMem
begin

text \<open>
  The memory that the kernel reaches through the page directory of the running process: bytes and
  words at virtual addresses. An access to an address that is not mapped faults inside the kernel, which
  the model shows as \<open>None\<close>. Words are stored with the low byte first.
\<close>

subsection \<open>Access\<close>

definition frame_of :: "page_directory \<Rightarrow> u32 \<Rightarrow> vmem \<Rightarrow> u32 option" where
  "frame_of pd a m = do { (_, pte) \<leftarrow> pd_get_mapping (Some pd) a m; pte \<leftarrow> pte; Some (REMOVE_FLAGS pte) }"

definition page_off :: "u32 \<Rightarrow> nat" where
  "page_off a = unat (a AND 0xFFF)"

definition get_byte :: "page_directory \<Rightarrow> u32 \<Rightarrow> vmem \<Rightarrow> 8 word option" where
  "get_byte pd a m = do {
     f \<leftarrow> frame_of pd a m;
     if page_off a < length (phys m f) then Some (phys m f ! page_off a) else None
   }"

definition set_byte :: "page_directory \<Rightarrow> u32 \<Rightarrow> 8 word \<Rightarrow> vmem \<Rightarrow> vmem option" where
  "set_byte pd a v m = do {
     f \<leftarrow> frame_of pd a m;
     if page_off a < length (phys m f) then Some (m\<lparr>phys := (phys m)(f := (phys m f)[page_off a := v])\<rparr>) else None
   }"

fun get_bytes :: "page_directory \<Rightarrow> u32 \<Rightarrow> nat \<Rightarrow> vmem \<Rightarrow> 8 word list option" where
  "get_bytes pd a 0 m = Some []"
| "get_bytes pd a (Suc n) m = do { b \<leftarrow> get_byte pd a m; bs \<leftarrow> get_bytes pd (a + 1) n m; Some (b # bs) }"

fun set_bytes :: "page_directory \<Rightarrow> u32 \<Rightarrow> 8 word list \<Rightarrow> vmem \<Rightarrow> vmem option" where
  "set_bytes pd a [] m = Some m"
| "set_bytes pd a (b # bs) m = do { m \<leftarrow> set_byte pd a b m; set_bytes pd (a + 1) bs m }"

definition bytes_of_word :: "u32 \<Rightarrow> 8 word list" where
  "bytes_of_word w = [ucast w, ucast (drop_bit 8 w), ucast (drop_bit 16 w), ucast (drop_bit 24 w)]"

definition word_of_bytes :: "8 word list \<Rightarrow> u32" where
  "word_of_bytes bs = foldr (\<lambda>b w. ucast b OR push_bit 8 w) bs 0"

definition get_word :: "page_directory \<Rightarrow> u32 \<Rightarrow> vmem \<Rightarrow> u32 option" where
  "get_word pd a m = map_option word_of_bytes (get_bytes pd a 4 m)"

definition set_word :: "page_directory \<Rightarrow> u32 \<Rightarrow> u32 \<Rightarrow> vmem \<Rightarrow> vmem option" where
  "set_word pd a w m = set_bytes pd a (bytes_of_word w) m"

fun get_words :: "page_directory \<Rightarrow> u32 \<Rightarrow> nat \<Rightarrow> vmem \<Rightarrow> u32 list option" where
  "get_words pd a 0 m = Some []"
| "get_words pd a (Suc n) m = do { w \<leftarrow> get_word pd a m; ws \<leftarrow> get_words pd (a + 4) n m; Some (w # ws) }"

fun set_words :: "page_directory \<Rightarrow> u32 \<Rightarrow> u32 list \<Rightarrow> vmem \<Rightarrow> vmem option" where
  "set_words pd a [] m = Some m"
| "set_words pd a (w # ws) m = do { m \<leftarrow> set_word pd a w m; set_words pd (a + 4) ws m }"

subsection \<open>Laws\<close>

text \<open>The contents of the frames do not move the mapping.\<close>

lemma pd_get_mapping_phys [simp]: "pd_get_mapping pd a (m\<lparr>phys := f\<rparr>) = pd_get_mapping pd a m"
  by (simp add: pd_get_mapping_def pt_get_def cong: if_cong split: option.split)

lemma frame_of_phys [simp]: "frame_of pd a (m\<lparr>phys := f\<rparr>) = frame_of pd a m"
  by (simp add: frame_of_def)

lemma word_of_bytes_of_word: "word_of_bytes (bytes_of_word w) = w"
proof (rule bit_word_eqI)
  fix n assume "n < LENGTH(32)"
  then show "bit (word_of_bytes (bytes_of_word w)) n = bit w n"
    by (cases "n < 8"; cases "n < 16"; cases "n < 24") (auto simp: word_of_bytes_def bytes_of_word_def bit_simps)
qed

lemma set_byte_result:
  assumes "set_byte pd a v m = Some m'"
  obtains f where "frame_of pd a m = Some f" "page_off a < length (phys m f)" "m' = m\<lparr>phys := (phys m)(f := (phys m f)[page_off a := v])\<rparr>"
  using assms by (auto simp: set_byte_def bind_eq_Some_conv split: if_splits)

lemma get_set_byte:
  assumes "set_byte pd a v m = Some m'"
  shows "get_byte pd b m' = (if frame_of pd b m = frame_of pd a m \<and> page_off b = page_off a then Some v else get_byte pd b m)"
  by (rule set_byte_result [OF assms], cases "frame_of pd b m") (auto simp: get_byte_def)

text \<open>Neighbouring bytes have different offsets in their pages, so a word that has been stored is read back.\<close>

lemma page_off_mod: "page_off a = unat a mod 4096"
proof -
  have "a AND 0xFFF = take_bit 12 a" by (simp add: take_bit_eq_mask mask_eq_exp_minus_1)
  then show ?thesis by (simp add: page_off_def take_bit_eq_mod unat_mod)
qed

lemma page_off_add: "page_off (a + word_of_nat k) = (page_off a + k) mod 4096"
proof -
  have "unat (a + word_of_nat k) = (unat a + k) mod 2 ^ 32" by (simp add: unat_word_ariths unat_of_nat mod_simps)
  then have "page_off (a + word_of_nat k) = (unat a + k) mod 2 ^ 32 mod 4096" by (simp add: page_off_mod)
  also have "\<dots> = (unat a + k) mod 4096" by (rule mod_mod_cancel) simp
  finally show ?thesis by (simp add: page_off_mod mod_simps)
qed

lemma page_off_neq:
  assumes "i < 4096" "j < 4096" "i \<noteq> j"
  shows "page_off (a + word_of_nat i) \<noteq> page_off (a + word_of_nat j)"
proof
  assume "page_off (a + word_of_nat i) = page_off (a + word_of_nat j)"
  then have "(page_off a + i) mod 4096 = (page_off a + j) mod 4096" by (simp add: page_off_add)
  then have "int ((page_off a + i) mod 4096) = int ((page_off a + j) mod 4096)" by (rule arg_cong)
  then have "(int (page_off a) + int i) mod 4096 = (int (page_off a) + int j) mod 4096" by (simp only: of_nat_mod of_nat_add of_nat_numeral)
  then have "4096 dvd int i - int j" by (simp add: mod_eq_dvd_iff)
  then show False using assms zdvd_imp_le [of 4096 "int i - int j"] zdvd_imp_le [of 4096 "int j - int i"] by (force simp: dvd_diff_commute)
qed

lemma set_bytes_other:
  assumes "set_bytes pd a bs m = Some m'" "\<And>i. i < length bs \<Longrightarrow> page_off b \<noteq> page_off (a + word_of_nat i)"
  shows "get_byte pd b m' = get_byte pd b m"
  using assms
proof (induction bs arbitrary: a m)
  case (Cons x xs)
  obtain m1 where m1: "set_byte pd a x m = Some m1" "set_bytes pd (a + 1) xs m1 = Some m'" using Cons.prems(1) by (auto simp: bind_eq_Some_conv)
  have "get_byte pd b m' = get_byte pd b m1"
    by (rule Cons.IH [OF m1(2)]) (use Cons.prems(2) [of "Suc _"] in \<open>simp add: add.assoc\<close>)
  also have "\<dots> = get_byte pd b m" using get_set_byte [OF m1(1), of b] Cons.prems(2) [of 0] by simp
  finally show ?case .
qed simp

lemma get_set_bytes:
  assumes "set_bytes pd a bs m = Some m'" "length bs \<le> 4096"
  shows "get_bytes pd a (length bs) m' = Some bs"
  using assms
proof (induction bs arbitrary: a m)
  case (Cons x xs)
  obtain m1 where m1: "set_byte pd a x m = Some m1" "set_bytes pd (a + 1) xs m1 = Some m'" using Cons.prems(1) by (auto simp: bind_eq_Some_conv)
  have "get_byte pd a m' = get_byte pd a m1"
  proof (rule set_bytes_other [OF m1(2)])
    show "page_off a \<noteq> page_off (a + 1 + word_of_nat i)" if "i < length xs" for i
      using page_off_neq [of 0 "Suc i" a] that Cons.prems(2) by (simp add: add.assoc)
  qed
  then have "get_byte pd a m' = Some x" using get_set_byte [OF m1(1), of a] by simp
  then show ?case using Cons.IH [OF m1(2)] Cons.prems(2) by simp
qed simp

lemma length_bytes_of_word: "length (bytes_of_word w) = 4"
  by (simp add: bytes_of_word_def)

lemma get_set_word: "set_word pd a w m = Some m' \<Longrightarrow> get_word pd a m' = Some w"
  using get_set_bytes [of pd a "bytes_of_word w" m m'] word_of_bytes_of_word [of w]
  by (simp add: set_word_def get_word_def length_bytes_of_word)

text \<open>A word that can be read can be written.\<close>

lemma set_byte_defined: "get_byte pd a m \<noteq> None \<Longrightarrow> \<exists>m'. set_byte pd a v m = Some m'"
  by (auto simp: get_byte_def set_byte_def bind_eq_Some_conv split: if_splits)

lemma set_bytes_defined:
  assumes "get_bytes pd a (length bs) m \<noteq> None" "length bs \<le> 4096"
  shows "\<exists>m'. set_bytes pd a bs m = Some m'"
  using assms
proof (induction bs arbitrary: a m)
  case (Cons x xs)
  obtain m1 where m1: "set_byte pd a x m = Some m1" using Cons.prems(1) set_byte_defined [of pd a m x] by (auto simp: bind_eq_Some_conv)
  have "get_bytes pd b n m \<noteq> None \<Longrightarrow> get_bytes pd b n m1 \<noteq> None" for b n
  proof (induction n arbitrary: b)
    case (Suc n)
    then show ?case using get_set_byte [OF m1, of b] Suc.IH [of "b + 1"] by (auto simp: bind_eq_Some_conv)
  qed simp
  then have "get_bytes pd (a + 1) (length xs) m1 \<noteq> None" using Cons.prems(1) by (auto simp: bind_eq_Some_conv)
  then show ?case using Cons.IH [of "a + 1" m1] Cons.prems(2) m1 by auto
qed simp

lemma set_word_defined: "get_word pd a m \<noteq> None \<Longrightarrow> \<exists>m'. set_word pd a w m = Some m'"
  using set_bytes_defined [of pd a "bytes_of_word w" m] length_bytes_of_word [of w] by (simp add: get_word_def set_word_def)

text \<open>Words in a row are bytes in a row.\<close>

definition bytes_of_words :: "u32 list \<Rightarrow> 8 word list" where
  "bytes_of_words ws = concat (map bytes_of_word ws)"

lemma set_bytes_append: "set_bytes pd a (xs @ ys) m = do { m \<leftarrow> set_bytes pd a xs m; set_bytes pd (a + word_of_nat (length xs)) ys m }"
proof (induction xs arbitrary: a m)
  case (Cons x xs)
  then show ?case by (cases "set_byte pd a x m") (simp_all add: ac_simps)
qed simp

lemma get_bytes_add: "get_bytes pd a (i + j) m = do { xs \<leftarrow> get_bytes pd a i m; ys \<leftarrow> get_bytes pd (a + word_of_nat i) j m; Some (xs @ ys) }"
proof (induction i arbitrary: a)
  case (Suc i)
  then show ?case by (simp add: ac_simps)
qed simp

lemma set_words_bytes: "set_words pd a ws m = set_bytes pd a (bytes_of_words ws) m"
proof (induction ws arbitrary: a m)
  case (Cons w ws)
  have "set_bytes pd a (bytes_of_words (w # ws)) m = do { m \<leftarrow> set_bytes pd a (bytes_of_word w) m; set_bytes pd (a + 4) (bytes_of_words ws) m }"
    using set_bytes_append [of pd a "bytes_of_word w" "bytes_of_words ws" m] by (simp add: bytes_of_words_def length_bytes_of_word)
  then show ?case using Cons by (cases "set_bytes pd a (bytes_of_word w) m") (simp_all add: set_word_def)
qed (simp add: bytes_of_words_def)

lemma length_bytes_of_words: "length (bytes_of_words ws) = 4 * length ws"
  by (induction ws) (simp_all add: bytes_of_words_def length_bytes_of_word)

text \<open>Storing just below a row of bytes leaves it as it is.\<close>

lemma get_bytes_other:
  assumes "\<And>i. i < n \<Longrightarrow> get_byte pd (a + word_of_nat i) m' = get_byte pd (a + word_of_nat i) m"
  shows "get_bytes pd a n m' = get_bytes pd a n m"
  using assms
proof (induction n arbitrary: a)
  case (Suc n)
  have "get_bytes pd (a + 1) n m' = get_bytes pd (a + 1) n m"
    by (rule Suc.IH) (use Suc.prems [of "Suc _"] in \<open>simp add: add.assoc\<close>)
  then show ?case using Suc.prems [of 0] by simp
qed simp

lemma store_below:
  assumes "set_bytes pd a ys m = Some m'" "length ys + n \<le> 4096"
  shows "get_bytes pd (a + word_of_nat (length ys)) n m' = get_bytes pd (a + word_of_nat (length ys)) n m"
proof (rule get_bytes_other)
  fix i assume i: "i < n"
  have e: "a + word_of_nat (length ys) + word_of_nat i = a + word_of_nat (length ys + i)" by (simp add: add.assoc)
  show "get_byte pd (a + word_of_nat (length ys) + word_of_nat i) m' = get_byte pd (a + word_of_nat (length ys) + word_of_nat i) m"
    unfolding e by (rule set_bytes_other [OF assms(1)], rule page_off_neq) (use i assms(2) in simp_all)
qed

lemma get_set_above:
  assumes "set_bytes pd a xs m = Some m'" "get_bytes pd (a + word_of_nat (length xs)) (length ys) m = Some ys" "length xs + length ys \<le> 4096"
  shows "get_bytes pd a (length (xs @ ys)) m' = Some (xs @ ys)"
  using get_set_bytes [OF assms(1)] store_below [OF assms(1), of "length ys"] assms(2,3) by (simp add: get_bytes_add)

end
