(* ===== verification/ThrHelpers.thy ===== *)
theory ThrHelpers
  imports Scheduler UserMem
begin

text \<open>
  \<open>kern/scheduler/thr_helpers.c\<close>: what a thread does inside the kernel to give up the processor, to
  sleep, to wake another thread and to vanish. \<open>restore_context\<close> leaves the calling thread and
  goes on at a saved context, so a call either returns a code to its thread or resumes
  the context at an address (\<open>Resumes\<close>). Console output is left out.
\<close>

datatype thr_out = Returns int | Resumes u32

definition thr_yield :: "u32 \<Rightarrow> int \<Rightarrow> sched \<Rightarrow> (thr_out \<times> sched) option" where
  "thr_yield old_esp tid s = do {
     ret \<leftarrow> (if tid \<ge> 0 then scheduler_check_is_runnable tid s else Some 1);
     if ret < 0 then Some (Returns (-2), s)
     else if ret = 0 then Some (Returns (-3), s)
     else do {
       (new_esp, s) \<leftarrow> context_switch_safe old_esp tid s;
       Some (Resumes new_esp, s)
     }
   }"

text \<open>A call after which the function ends with \<open>return 0\<close>: its own answer is not looked at.\<close>

definition returns_0 :: "thr_out \<Rightarrow> thr_out" where
  "returns_0 r = (case r of Returns _ \<Rightarrow> Returns 0 | Resumes e \<Rightarrow> Resumes e)"

text \<open>\<open>xchng(p, v)\<close> on user memory: the old word, and the memory with \<open>v\<close> in its place.\<close>

definition xchng_word :: "page_directory \<Rightarrow> u32 \<Rightarrow> u32 \<Rightarrow> vmem \<Rightarrow> (u32 \<times> vmem) option" where
  "xchng_word pd a v m = do { old \<leftarrow> get_word pd a m; m \<leftarrow> set_word pd a v m; Some (old, m) }"

definition thr_deschedule :: "u32 \<Rightarrow> u32 \<Rightarrow> vmem \<Rightarrow> sched \<Rightarrow> (thr_out \<times> vmem \<times> sched) option" where
  "thr_deschedule old_esp reject m s = do {
     let (r, my_tcb) = scheduler_get_current_tcb s;
     if r < 0 then Some (Returns (-2), m, s)
     else do {
       t \<leftarrow> tcbs s my_tcb;
       p \<leftarrow> pcbs s (t_pcb t);
       (r, _) \<leftarrow> pd_get_mapping (Some (pcb_pd p)) reject m;
       if r < 0 then Some (Returns (-3), m, s)
       else do {
         (old, m) \<leftarrow> xchng_word (pcb_pd p) reject 0 m;
         if old \<noteq> 0 then Some (Returns 0, m, s)
         else do {
           (r, s) \<leftarrow> scheduler_deschedule_current_safe s;
           if r < 0 then Some (Returns (-3), m, s)
           else do {
             (out, s) \<leftarrow> thr_yield old_esp (-1) s;
             Some (returns_0 out, m, s)
           }
         }
       }
     }
   }"

definition thr_make_runnable :: "int \<Rightarrow> sched \<Rightarrow> (int \<times> sched) option" where
  "thr_make_runnable tid s = do {
     (r, s) \<leftarrow> scheduler_make_runnable_safe tid s;
     Some (if r < 0 then -2 else 0, s)
   }"

definition thr_set_status :: "int \<Rightarrow> sched \<Rightarrow> sched option" where
  "thr_set_status status s =
     (let (r, cur) = scheduler_get_current_tcb s
      in if r < 0 then Some s else set_tcb cur (\<lambda>t. t\<lparr>t_exit_status := status\<rparr>) s)"

definition thr_sleep :: "u32 \<Rightarrow> int \<Rightarrow> sched \<Rightarrow> (thr_out \<times> sched) option" where
  "thr_sleep old_esp ticks s = do {
     (r, s) \<leftarrow> scheduler_make_current_sleeping_safe ticks s;
     if r < 0 then Some (Returns (-3), s)
     else do {
       (out, s) \<leftarrow> thr_yield old_esp (-1) s;
       Some (returns_0 out, s)
     }
   }"

definition thr_gettid :: "sched \<Rightarrow> int option" where
  "thr_gettid s = do {
     (r, tid) \<leftarrow> scheduler_get_current_tid s;
     if r < 0 then Some (-1) else tid
   }"

subsection \<open>Vanishing\<close>

text \<open>
  A function of \<open>pcb.c\<close> on the block at an address; NULL is passed on, a dangling address faults.
\<close>

definition on_pcb :: "(pcb option \<Rightarrow> ('r \<times> pcb option) option) \<Rightarrow> ptr \<Rightarrow> sched \<Rightarrow> ('r \<times> sched) option" where
  "on_pcb f pp s = do {
     p \<leftarrow> (if pp = NULL then Some None else map_option Some (pcbs s pp));
     (r, p) \<leftarrow> f p;
     Some (r, case p of None \<Rightarrow> s | Some p \<Rightarrow> s\<lparr>pcbs := (pcbs s)(pp \<mapsto> p)\<rparr>)
   }"

text \<open>\<open>pcb_signal_status\<close> wakes a waiting thread through the scheduler.\<close>

definition signal_status :: "bool \<times> bool \<Rightarrow> ptr \<Rightarrow> int \<Rightarrow> int \<Rightarrow> sched \<Rightarrow> sched option" where
  "signal_status mem pp status orig s = do {
     ((_, w), s) \<leftarrow> on_pcb (\<lambda>p. pcb_signal_status (started s) mem (my_tid s) p status orig) pp s;
     case w of None \<Rightarrow> Some s | Some t \<Rightarrow> do { (_, s) \<leftarrow> thr_make_runnable t s; Some s }
   }"

text \<open>
  The status is reported when the last thread of the process vanishes: to the parent, whose mutex is held
  meanwhile, or to the init process if the parent is gone. \<open>mem\<close>: the allocations of the report.
\<close>

definition last_thread_reports :: "bool \<times> bool \<Rightarrow> ptr \<Rightarrow> ptr \<Rightarrow> int \<Rightarrow> int \<Rightarrow> sched \<Rightarrow> sched option" where
  "last_thread_reports mem cur_pcb to_pcb status orig s = do {
     (n, s) \<leftarrow> on_pcb (pcb_dec_threads_s (started s) (my_tid s)) cur_pcb s;
     if n = 0 then signal_status mem to_pcb status orig s else Some s
   }"

definition report_to_init :: "bool \<times> bool \<Rightarrow> ptr \<Rightarrow> int \<Rightarrow> int \<Rightarrow> sched \<Rightarrow> sched option" where
  "report_to_init mem cur_pcb status orig s = do {
     init \<leftarrow> snd (scheduler_get_init_pcb s);
     (_, s) \<leftarrow> on_pcb (pcb_inc_children_s (started s) (my_tid s)) init s;
     last_thread_reports mem cur_pcb init status orig s
   }"

definition report_to_parent :: "bool \<times> bool \<Rightarrow> ptr \<Rightarrow> ptr \<Rightarrow> int \<Rightarrow> int \<Rightarrow> sched \<Rightarrow> sched option" where
  "report_to_parent mem cur_pcb parent status orig s = do {
     q \<leftarrow> pcbs s parent;
     mu \<leftarrow> mutex_lock (started s) (my_tid s) (pcb_m q);
     s \<leftarrow> last_thread_reports mem cur_pcb parent status orig (s\<lparr>pcbs := (pcbs s)(parent \<mapsto> q\<lparr>pcb_m := mu\<rparr>)\<rparr>);
     q \<leftarrow> pcbs s parent;
     Some (s\<lparr>pcbs := (pcbs s)(parent \<mapsto> q\<lparr>pcb_m := mutex_unlock (started s) (pcb_m q)\<rparr>)\<rparr>)
   }"

definition report_exit :: "bool \<times> bool \<Rightarrow> ptr \<Rightarrow> int \<Rightarrow> sched \<Rightarrow> sched option" where
  "report_exit mem cur_pcb exit_status s = do {
     p \<leftarrow> pcbs s cur_pcb;
     orig \<leftarrow> snd (pcb_get_original_tid (Some p) True);
     (r, parent_pcb) \<leftarrow> scheduler_get_pcb_by_pid (pcb_get_ppid (Some p)) s;
     if r < 0 then report_to_init mem cur_pcb exit_status orig s
     else do { parent \<leftarrow> parent_pcb; report_to_parent mem cur_pcb parent exit_status orig s }
   }"

definition thr_vanish :: "bool \<times> bool \<Rightarrow> sched \<Rightarrow> (u32 \<times> sched) option" where
  "thr_vanish mem s = do {
     let cur = snd (scheduler_get_current_tcb s);
     t \<leftarrow> tcbs s cur;
     cur_pcb \<leftarrow> snd (tcb_get_pcb (Some t) True);
     let (r, st) = tcb_get_exit_status (Some t);
     exit_status \<leftarrow> (if r < 0 then Some (-2) else st);
     s \<leftarrow> report_exit mem cur_pcb exit_status s;
     (_, s) \<leftarrow> scheduler_make_current_zombie_safe s;
     (out, s) \<leftarrow> thr_yield 0 (-1) s;
     case out of Returns _ \<Rightarrow> None | Resumes e \<Rightarrow> Some (e, s)
   }"

end
