(* ===== verification/SchedulerCorrect.thy ===== *)
theory SchedulerCorrect
  imports Scheduler LinkedListCorrect
begin

text \<open>
  The invariant of the scheduler: every registered thread is in exactly one of the four
  pools, and its status fits the pool; the sleeping pool is sorted by the time of waking and
  no sleeper is overdue; at most the current thread is running. The proofs use the
  linked lists through their laws on sequences of nodes and the hash table through its map.
\<close>

subsection \<open>The pools as sequences of nodes\<close>

datatype pool = Run | Wait | Sleep | Zomb

fun pool_at :: "tcb_pool \<Rightarrow> pool \<Rightarrow> ptr" where
  "pool_at tp Run = runnable_pool tp"
| "pool_at tp Wait = waiting_pool tp"
| "pool_at tp Sleep = sleeping_pool tp"
| "pool_at tp Zomb = zombie_pool tp"

type_synonym pools = "pool \<Rightarrow> ptr list"

definition on_pools :: "tcb_pool \<Rightarrow> heap \<Rightarrow> pools \<Rightarrow> bool" where
  "on_pools tp h Q \<longleftrightarrow> (\<forall>k. holds h (pool_at tp k) (Q k)) \<and> inj (pool_at tp) \<and>
     (\<forall>j k. j \<noteq> k \<longrightarrow> set (Q j) \<inter> set (Q k) = {})"

definition members :: "pools \<Rightarrow> ptr set" where
  "members Q = (\<Union>k. set (Q k))"

lemma membersI: "n \<in> set (Q k) \<Longrightarrow> n \<in> members Q"
  by (auto simp: members_def)

lemma data_payload: "data h n = (case payload h n of None \<Rightarrow> NULL | Some e \<Rightarrow> e)"
  by (simp add: data_def payload_def split: option.split)

lemma frame_data: "frame l S h h' \<Longrightarrow> data h' = data h"
  by (simp add: frame_def data_payload fun_eq_iff)

lemma on_poolsD:
  assumes "on_pools tp h Q"
  shows "holds h (pool_at tp k) (Q k)" "j \<noteq> k \<Longrightarrow> pool_at tp j \<noteq> pool_at tp k"
    "j \<noteq> k \<Longrightarrow> set (Q j) \<inter> set (Q k) = {}" "distinct (Q k)"
  using assms holds_distinct by (auto simp: on_pools_def dest: injD)

text \<open>An operation on the list of pool \<open>a\<close> that leaves the nodes of the others alone.\<close>

lemma on_pools_frame:
  assumes "on_pools tp h Q" "frame (pool_at tp a) S h h'" "holds h' (pool_at tp a) ns"
    and "\<And>k. k \<noteq> a \<Longrightarrow> set (Q k) \<inter> S = {}" "set ns \<subseteq> S"
  shows "on_pools tp h' (Q(a := ns))"
proof -
  have "holds h' (pool_at tp k) (Q k)" if "k \<noteq> a" for k
    using frame_holds [OF assms(2) on_poolsD(1) [OF assms(1)]] on_poolsD(2) [OF assms(1) that] assms(4) [OF that] by blast
  moreover have "set ns \<inter> set (Q k) = {}" if "k \<noteq> a" for k using assms(4) [OF that] assms(5) by auto
  ultimately show ?thesis using assms(1,3) by (auto simp: on_pools_def)
qed

lemma pool_unlink:
  assumes "on_pools tp h Q" "Q a = xs @ n # ys"
  obtains h' where "ll_unlink_node (pool_at tp a) n h = Some (0, h')" "on_pools tp h' (Q(a := xs @ ys))"
    "detached h' n" "data h' = data h"
proof -
  obtain h' where h': "ll_unlink_node (pool_at tp a) n h = Some (0, h')" "holds h' (pool_at tp a) (xs @ ys)"
    "detached h' n" "frame (pool_at tp a) (set (xs @ n # ys)) h h'"
    using ll_unlink_node_holds [of h "pool_at tp a" xs n ys] on_poolsD(1) [OF assms(1), of a] assms(2) by auto
  have "on_pools tp h' (Q(a := xs @ ys))"
    using on_pools_frame [OF assms(1) h'(4,2)] on_poolsD(3) [OF assms(1)] assms(2) by (metis (no_types, lifting) Un_subset_iff set_append set_subset_Cons subset_refl sup_ge1 sup_ge2 subset_trans)
  then show thesis using that h'(1,3) frame_data [OF h'(4)] by blast
qed

lemma pool_link_last:
  assumes "on_pools tp h Q" "detached h n" "n \<notin> members Q"
  obtains h' where "ll_link_node_last (pool_at tp b) n h = Some (0, h')" "on_pools tp h' (Q(b := Q b @ [n]))" "data h' = data h"
proof -
  have "n \<notin> set (Q b)" using assms(3) by (auto simp: members_def)
  then obtain h' where h': "ll_link_node_last (pool_at tp b) n h = Some (0, h')" "holds h' (pool_at tp b) (Q b @ [n])"
    "frame (pool_at tp b) (insert n (set (Q b))) h h'"
    using ll_link_node_last_holds [OF on_poolsD(1) [OF assms(1)] assms(2)] by blast
  have "on_pools tp h' (Q(b := Q b @ [n]))"
    by (rule on_pools_frame [OF assms(1) h'(3,2)]) (use on_poolsD(3) [OF assms(1)] assms(3) in \<open>auto simp: members_def\<close>)
  then show thesis using that h'(1) frame_data [OF h'(3)] by blast
qed

lemma members_linked: "set ns = insert n (set (Q b)) \<Longrightarrow> members (Q(b := ns)) = insert n (members Q)"
  by (auto simp: members_def split: if_splits)

lemma members_unlinked:
  assumes "on_pools tp h Q" "Q a = xs @ n # ys"
  shows "members (Q(a := xs @ ys)) = members Q - {n}"
proof -
  have "n \<notin> set (xs @ ys)" using on_poolsD(4) [OF assms(1), of a] assms(2) by auto
  moreover have "n \<notin> set (Q k)" if "k \<noteq> a" for k using on_poolsD(3) [OF assms(1) that] assms(2) by auto
  ultimately have "n \<notin> members (Q(a := xs @ ys))" by (auto simp: members_def split: if_splits)
  moreover have "members ((Q(a := xs @ ys))(a := Q a)) = insert n (members (Q(a := xs @ ys)))"
    by (rule members_linked) (simp add: assms(2))
  ultimately show ?thesis by simp
qed

subsection \<open>The invariant\<close>

text \<open>The block that a node carries, its status and its time of waking.\<close>

definition status_at :: "sched \<Rightarrow> ptr \<Rightarrow> tstatus" where
  "status_at s n = (case tcbs s (data (s_heap s) n) of None \<Rightarrow> UNINIT | Some t \<Rightarrow> t_status t)"

definition wake_at :: "sched \<Rightarrow> ptr \<Rightarrow> nat" where
  "wake_at s n = unat (wakeup_at (tcbs s) (data (s_heap s) n))"

text \<open>The node \<open>n\<close> carries a live block and is registered under its tid.\<close>

definition node_ok :: "sched \<Rightarrow> ptr \<Rightarrow> bool" where
  "node_ok s n \<longleftrightarrow> data (s_heap s) n \<noteq> NULL \<and> (\<exists>t. tcbs s (data (s_heap s) n) = Some t \<and> 0 \<le> t_tid t \<and>
     t_tid t < next_tid s \<and> ht_map (threads (thr_pool s)) (word_of_int (t_tid t)) = Some n)"

definition registered :: "sched \<Rightarrow> pools \<Rightarrow> bool" where
  "registered s Q \<longleftrightarrow> ht_ok (threads (thr_pool s)) \<and> next_tid s < 2 ^ 31 \<and> (\<forall>n\<in>members Q. node_ok s n) \<and>
     (\<forall>key n. ht_map (threads (thr_pool s)) key = Some n \<longrightarrow> n \<in> members Q \<and>
        (\<forall>t. tcbs s (data (s_heap s) n) = Some t \<longrightarrow> key = word_of_int (t_tid t)))"

text \<open>
  A thread that has been woken from sleep keeps the status \<open>SLEEPING\<close> in the runnable pool until it runs.
\<close>

fun fits_pool :: "pool \<Rightarrow> tstatus \<Rightarrow> bool" where
  "fits_pool Run st \<longleftrightarrow> st = RUNNABLE \<or> st = RUNNING \<or> st = SLEEPING"
| "fits_pool Wait st \<longleftrightarrow> st = WAITING"
| "fits_pool Sleep st \<longleftrightarrow> st = SLEEPING"
| "fits_pool Zomb st \<longleftrightarrow> st = ZOMBIE"

definition statuses_ok :: "sched \<Rightarrow> pools \<Rightarrow> bool" where
  "statuses_ok s Q \<longleftrightarrow> (\<forall>k. \<forall>n\<in>set (Q k). fits_pool k (status_at s n)) \<and>
     (\<forall>n\<in>members Q. status_at s n = RUNNING \<longrightarrow> data (s_heap s) n = cur_tcb s)"

text \<open>
  No sleeper is overdue: between two ticks of the timer (\<open>d = 1\<close>) the times of waking lie in the future, inside the
  timer handler (\<open>d = 0\<close>) the present is included.
\<close>

definition sleepers_ok :: "int \<Rightarrow> sched \<Rightarrow> ptr list \<Rightarrow> bool" where
  "sleepers_ok d s ss \<longleftrightarrow> sorted (map (wake_at s) ss) \<and> (\<forall>n\<in>set ss. num_ticks s + d \<le> int (wake_at s n))"

definition others_ok :: "sched \<Rightarrow> pools \<Rightarrow> bool" where
  "others_ok s Q \<longleftrightarrow> s_m (zombies_sem (thr_pool s)) = free_mutex \<and> 0 \<le> num_ticks s \<and> num_ticks s < 2 ^ 31 \<and> tcbs s NULL = None \<and> tcbs s (idle_tcb s) \<noteq> None \<and>
     idle_tcb s \<notin> data (s_heap s) ` members Q \<and> (cur_tcb s \<noteq> NULL \<longrightarrow> tcbs s (cur_tcb s) \<noteq> None)"

definition sched_at :: "int \<Rightarrow> sched \<Rightarrow> pools \<Rightarrow> bool" where
  "sched_at d s Q \<longleftrightarrow> on_pools (thr_pool s) (s_heap s) Q \<and> registered s Q \<and> statuses_ok s Q \<and>
     sleepers_ok d s (Q Sleep) \<and> others_ok s Q"

abbreviation sched_ok :: "sched \<Rightarrow> pools \<Rightarrow> bool" where
  "sched_ok \<equiv> sched_at 1"

lemma word_of_tid_inj: "0 \<le> a \<Longrightarrow> a < 2 ^ 31 \<Longrightarrow> 0 \<le> b \<Longrightarrow> b < 2 ^ 31 \<Longrightarrow>
    (word_of_int a :: u32) = word_of_int b \<longleftrightarrow> a = b"
  by (simp add: word_of_int_eq_iff take_bit_int_eq_self)

lemma node_live: "on_pools tp h Q \<Longrightarrow> n \<in> members Q \<Longrightarrow> n \<noteq> NULL \<and> payload h n = Some (data h n)"
proof -
  assume "on_pools tp h Q" "n \<in> members Q"
  then obtain k where k: "n \<in> set (Q k)" "holds h (pool_at tp k) (Q k)" by (auto simp: members_def on_pools_def)
  then obtain d where "nodes h n = Some d" using holds_live by blast
  moreover have "n \<noteq> NULL" using k by (auto simp: holds_def ll_rep_def dest: dseg_NULL)
  ultimately show ?thesis by (simp add: payload_data)
qed

lemma registeredE:
  assumes "registered s Q" "n \<in> members Q"
  obtains t where "data (s_heap s) n \<noteq> NULL" "tcbs s (data (s_heap s) n) = Some t" "0 \<le> t_tid t" "t_tid t < 2 ^ 31"
    "t_tid t < next_tid s" "ht_map (threads (thr_pool s)) (word_of_int (t_tid t)) = Some n"
proof -
  have "node_ok s n" "next_tid s < 2 ^ 31" using assms by (simp_all add: registered_def)
  then show thesis using that unfolding node_ok_def by force
qed

lemma registered_key:
  assumes "registered s Q" "ht_map (threads (thr_pool s)) key = Some n"
  shows "n \<in> members Q" "tcbs s (data (s_heap s) n) = Some t \<Longrightarrow> key = word_of_int (t_tid t)"
  using assms by (simp_all add: registered_def)

text \<open>Every member is found under its tid, and two members carry different blocks.\<close>

lemma find_member:
  assumes "on_pools (thr_pool s) (s_heap s) Q" "registered s Q" "n \<in> members Q" "tcbs s (data (s_heap s) n) = Some t"
  shows "find_node (t_tid t) s = Some (Inr (n, data (s_heap s) n))"
proof -
  have "ht_map (threads (thr_pool s)) (word_of_int (t_tid t)) = Some n"
    by (rule registeredE [OF assms(2,3)]) (use assms(4) in simp)
  moreover obtain d where "n \<noteq> NULL" "nodes (s_heap s) n = Some d" "nd_e d = data (s_heap s) n"
    using node_live [OF assms(1,3)] by (auto simp: payload_def)
  moreover have "ht_ok (threads (thr_pool s))" using assms(2) by (simp add: registered_def)
  ultimately show ?thesis by (simp add: find_node_def ht_get_map ll_node_get_data_def)
qed

lemma find_missing:
  assumes "registered s Q" "\<And>n t. n \<in> members Q \<Longrightarrow> tcbs s (data (s_heap s) n) = Some t \<Longrightarrow> t_tid t \<noteq> tid"
    "0 \<le> tid" "tid < 2 ^ 31"
  shows "find_node tid s = Some (Inl (-2))"
proof -
  have "ht_map (threads (thr_pool s)) (word_of_int tid) = None"
  proof (rule ccontr)
    assume "ht_map (threads (thr_pool s)) (word_of_int tid) \<noteq> None"
    then obtain n where n: "ht_map (threads (thr_pool s)) (word_of_int tid) = Some n" by blast
    note m = registered_key(1) [OF assms(1) n]
    obtain t where t: "tcbs s (data (s_heap s) n) = Some t" "0 \<le> t_tid t" "t_tid t < 2 ^ 31"
      by (rule registeredE [OF assms(1) m])
    have "(word_of_int tid :: u32) = word_of_int (t_tid t)" by (rule registered_key(2) [OF assms(1) n t(1)])
    then show False using word_of_tid_inj [OF assms(3,4) t(2,3)] assms(2) [OF m t(1)] by simp
  qed
  moreover have "ht_ok (threads (thr_pool s))" using assms(1) by (simp add: registered_def)
  ultimately show ?thesis by (simp add: find_node_def ht_get_map)
qed

lemma member_inj:
  assumes "registered s Q" "m \<in> members Q" "n \<in> members Q" "data (s_heap s) m = data (s_heap s) n"
  shows "m = n"
proof -
  obtain t where t: "tcbs s (data (s_heap s) m) = Some t" "ht_map (threads (thr_pool s)) (word_of_int (t_tid t)) = Some m"
    by (rule registeredE [OF assms(1,2)])
  obtain u where "tcbs s (data (s_heap s) n) = Some u" "ht_map (threads (thr_pool s)) (word_of_int (t_tid u)) = Some n"
    by (rule registeredE [OF assms(1,3)])
  with t assms(4) show ?thesis by simp
qed

subsection \<open>Changing the block of one thread\<close>

lemma sched_okD:
  assumes "sched_at d s Q"
  shows "on_pools (thr_pool s) (s_heap s) Q" "registered s Q" "statuses_ok s Q" "sleepers_ok d s (Q Sleep)" "others_ok s Q"
  using assms by (simp_all add: sched_at_def)

lemma at_updated:
  assumes "registered s Q" "n \<in> members Q" "m \<in> members Q"
    and "data (s_heap s') = data (s_heap s)" "tcbs s' = (tcbs s)(data (s_heap s) n \<mapsto> t')"
  shows "status_at s' m = (if m = n then t_status t' else status_at s m)"
    "wake_at s' m = (if m = n then unat (t_wakeup t') else wake_at s m)"
  using member_inj [OF assms(1,3,2)] assms(4,5) by (auto simp: status_at_def wake_at_def wakeup_at_def)

lemma registered_updated:
  assumes "registered s Q" "tcbs s p = Some t" "t_tid t' = t_tid t"
    and "data (s_heap s') = data (s_heap s)" "tcbs s' = (tcbs s)(p \<mapsto> t')"
    and "threads (thr_pool s') = threads (thr_pool s)" "next_tid s' = next_tid s" "members Q' = members Q"
  shows "registered s' Q'"
proof -
  have "node_ok s' m" if "m \<in> members Q" for m
  proof -
    have "node_ok s m" using assms(1) that by (simp add: registered_def)
    then show ?thesis using assms(2-7) by (auto simp: node_ok_def)
  qed
  moreover have "m \<in> members Q \<and> (\<forall>u. tcbs s' (data (s_heap s) m) = Some u \<longrightarrow> key = word_of_int (t_tid u))"
    if k: "ht_map (threads (thr_pool s)) key = Some m" for key m
    using registered_key [OF assms(1) k] assms(2,3,5) by (auto split: if_splits)
  moreover have "ht_ok (threads (thr_pool s))" "next_tid s < 2 ^ 31" using assms(1) by (simp_all add: registered_def)
  ultimately show ?thesis using assms(4,6-8) by (simp add: registered_def)
qed

text \<open>
  \<open>moved s s' n t'\<close>: from \<open>s\<close> to \<open>s'\<close> the lists of the pools have changed, the block of the node
  \<open>n\<close> has become \<open>t'\<close>, and nothing else that the invariant speaks about.
\<close>

definition moved :: "sched \<Rightarrow> sched \<Rightarrow> ptr \<Rightarrow> tcb \<Rightarrow> bool" where
  "moved s s' n t' \<longleftrightarrow> data (s_heap s') = data (s_heap s) \<and> tcbs s' = (tcbs s)(data (s_heap s) n \<mapsto> t') \<and>
     threads (thr_pool s') = threads (thr_pool s) \<and> s_m (zombies_sem (thr_pool s')) = s_m (zombies_sem (thr_pool s)) \<and>
     next_tid s' = next_tid s \<and> num_ticks s' = num_ticks s \<and>
     idle_tcb s' = idle_tcb s"

lemma sched_ok_moved:
  assumes ok: "sched_at d s Q" and n: "n \<in> members Q" "tcbs s (data (s_heap s) n) = Some t" "t_tid t' = t_tid t"
    and mv: "moved s s' n t'" "on_pools (thr_pool s') (s_heap s') Q'" "members Q' = members Q"
    and st: "\<And>k m. m \<in> set (Q' k) \<Longrightarrow> m \<noteq> n \<Longrightarrow> m \<in> set (Q k)" "\<And>k. n \<in> set (Q' k) \<Longrightarrow> fits_pool k (t_status t')"
    and run: "t_status t' = RUNNING \<Longrightarrow> data (s_heap s) n = cur_tcb s'"
      "\<And>m. m \<in> members Q \<Longrightarrow> m \<noteq> n \<Longrightarrow> status_at s m = RUNNING \<Longrightarrow> data (s_heap s) m = cur_tcb s'"
    and cur: "cur_tcb s' \<noteq> NULL \<Longrightarrow> tcbs s (cur_tcb s') \<noteq> None"
    and sl: "sleepers_ok d s' (Q' Sleep)"
  shows "sched_at d s' Q'"
proof -
  note D = sched_okD [OF ok]
  have m: "data (s_heap s') = data (s_heap s)" "tcbs s' = (tcbs s)(data (s_heap s) n \<mapsto> t')"
    "threads (thr_pool s') = threads (thr_pool s)" "next_tid s' = next_tid s" "num_ticks s' = num_ticks s" "idle_tcb s' = idle_tcb s"
    "s_m (zombies_sem (thr_pool s')) = s_m (zombies_sem (thr_pool s))"
    using mv(1) by (simp_all add: moved_def)
  have mem: "x \<in> set (Q' k) \<Longrightarrow> x \<in> members Q" for x k using mv(3) by (auto simp: members_def)
  note at = at_updated(1) [OF D(2) n(1) _ m(1,2)]
  have "fits_pool k (status_at s' x)" if "x \<in> set (Q' k)" for k x
    using at [OF mem [OF that]] st(1) [OF that] st(2) [of k] that D(3) by (auto simp: statuses_ok_def)
  moreover have "data (s_heap s') x = cur_tcb s'" if "x \<in> members Q'" "status_at s' x = RUNNING" for x
    using that at [of x] run m(1) mv(3) by (auto split: if_splits)
  ultimately have "statuses_ok s' Q'" by (simp add: statuses_ok_def)
  moreover have "registered s' Q'" by (rule registered_updated [OF D(2) n(2,3) m(1-4) mv(3)])
  moreover have "data (s_heap s) n \<noteq> NULL" by (rule registeredE [OF D(2) n(1)])
  then have "others_ok s' Q'" using D(5) m mv(3) cur by (auto simp: others_ok_def)
  ultimately show ?thesis using mv(2) sl by (simp add: sched_at_def)
qed

lemma sleepers_same:
  assumes "sleepers_ok d s ss" "\<And>n. n \<in> set ss' \<Longrightarrow> wake_at s' n = wake_at s n" "num_ticks s' = num_ticks s"
    and "sorted (map (wake_at s) ss) \<Longrightarrow> sorted (map (wake_at s) ss')" "set ss' \<subseteq> set ss"
  shows "sleepers_ok d s' ss'"
proof -
  have e: "map (wake_at s') ss' = map (wake_at s) ss'" using assms(2) by simp
  have "num_ticks s' + d \<le> int (wake_at s' n)" if "n \<in> set ss'" for n
    using assms(1,5) assms(2) [OF that] that unfolding assms(3) by (auto simp: sleepers_ok_def)
  then show ?thesis using assms(1,4) unfolding sleepers_ok_def e by blast
qed

text \<open>Moving a node to the end of another list.\<close>

lemma move_node_ok:
  assumes "on_pools (thr_pool s) (s_heap s) Q" "Q a = xs @ n # ys" "a \<noteq> b"
  obtains h where "move_node (pool_at (thr_pool s) a) (pool_at (thr_pool s) b) n s = Some (0, s\<lparr>s_heap := h\<rparr>)"
    "on_pools (thr_pool s) h (Q(a := xs @ ys, b := Q b @ [n]))" "data h = data (s_heap s)"
    "members (Q(a := xs @ ys, b := Q b @ [n])) = members Q"
proof -
  let ?Q = "Q(a := xs @ ys)"
  obtain h1 where h1: "ll_unlink_node (pool_at (thr_pool s) a) n (s_heap s) = Some (0, h1)" "on_pools (thr_pool s) h1 ?Q"
    "detached h1 n" "data h1 = data (s_heap s)" by (rule pool_unlink [OF assms(1,2)])
  note mu = members_unlinked [OF assms(1,2)]
  have "n \<notin> members ?Q" using mu by simp
  then obtain h2 where h2: "ll_link_node_last (pool_at (thr_pool s) b) n h1 = Some (0, h2)" "on_pools (thr_pool s) h2 (?Q(b := ?Q b @ [n]))"
    "data h2 = data h1" by (rule pool_link_last [OF h1(2,3)])
  have "?Q b = Q b" using assms(3) by simp
  moreover have "n \<in> members Q" by (rule membersI [of _ _ a]) (simp add: assms(2))
  moreover have "members (?Q(b := ?Q b @ [n])) = insert n (members ?Q)" by (rule members_linked) simp
  ultimately show thesis using that [of h2] h1(1,4) h2 mu by (auto simp: move_node_def)
qed

lemma moved_in:
  assumes "Q a = xs @ n # ys" "m \<in> set ((Q(a := xs @ ys, b := Q b @ [n])) k)" "m \<noteq> n"
  shows "m \<in> set (Q k)"
  using assms by (auto split: if_splits)

lemma moved_only:
  assumes "on_pools tp h Q" "Q a = xs @ n # ys" "a \<noteq> b" "n \<in> set ((Q(a := xs @ ys, b := Q b @ [n])) k)"
  shows "k = b"
  using assms(4) on_poolsD(3) [OF assms(1), of a k] on_poolsD(4) [OF assms(1), of a] assms(2,3) by (auto split: if_splits)

subsection \<open>Each operation keeps the invariant\<close>

text \<open>The thread at node \<open>n\<close> is the current one and runs.\<close>

definition runs :: "sched \<Rightarrow> pools \<Rightarrow> ptr \<Rightarrow> bool" where
  "runs s Q n \<longleftrightarrow> n \<in> set (Q Run) \<and> data (s_heap s) n = cur_tcb s \<and> status_at s n = RUNNING"

lemma find_node_upd [simp]: "find_node tid (s\<lparr>tcbs := f\<rparr>) = find_node tid s" "find_node tid (s\<lparr>num_ticks := k\<rparr>) = find_node tid s"
  by (simp_all add: find_node_def cong: if_cong)

lemma memberE:
  assumes "sched_at d s Q" "n \<in> set (Q k)"
  obtains t where "tcbs s (data (s_heap s) n) = Some t" "n \<in> members Q" "status_at s n = t_status t"
    "fits_pool k (t_status t)" "find_node (t_tid t) s = Some (Inr (n, data (s_heap s) n))" "data (s_heap s) n \<noteq> NULL"
proof -
  note D = sched_okD [OF assms(1)]
  have m: "n \<in> members Q" using assms(2) by (rule membersI)
  obtain t where t: "tcbs s (data (s_heap s) n) = Some t" "data (s_heap s) n \<noteq> NULL" by (rule registeredE [OF D(2) m])
  have "status_at s n = t_status t" using t by (simp add: status_at_def)
  moreover have "fits_pool k (status_at s n)" using D(3) assms(2) by (simp add: statuses_ok_def)
  ultimately show thesis using that t m find_member [OF D(1,2) m t(1)] by simp
qed

lemma running_unique:
  assumes "sched_at d s Q" "runs s Q n" "m \<in> members Q" "m \<noteq> n" "status_at s m = RUNNING"
  shows False
proof -
  note D = sched_okD [OF assms(1)]
  have "n \<in> members Q" using assms(2) by (auto simp: runs_def intro: membersI)
  moreover have "data (s_heap s) m = data (s_heap s) n" using D(3) assms(2,3,5) by (simp add: statuses_ok_def runs_def)
  ultimately show False using member_inj [OF D(2) assms(3)] assms(4) by blast
qed

lemma wake_same:
  assumes "data (s_heap s') = data (s_heap s)" "tcbs s' = (tcbs s)(p \<mapsto> t')" "tcbs s p = Some t" "t_wakeup t' = t_wakeup t"
  shows "wake_at s' = wake_at s"
  using assms by (auto simp: wake_at_def wakeup_at_def fun_eq_iff)

text \<open>A thread is moved to the end of another pool and gets a status that fits it.\<close>

lemma transfer_ok:
  assumes ok: "sched_at d s Q" and n: "Q a = xs @ n # ys" "a \<noteq> b" "b \<noteq> Sleep" "tcbs s (data (s_heap s) n) = Some t"
    and st: "fits_pool b st" "st \<noteq> RUNNING"
  obtains h where "move_node (pool_at (thr_pool s) a) (pool_at (thr_pool s) b) n s = Some (0, s\<lparr>s_heap := h\<rparr>)"
    "data h = data (s_heap s)"
    "sched_at d (s\<lparr>s_heap := h, tcbs := (tcbs s)(data (s_heap s) n \<mapsto> t\<lparr>t_status := st\<rparr>)\<rparr>) (Q(a := xs @ ys, b := Q b @ [n]))"
proof -
  note D = sched_okD [OF ok]
  let ?p = "data (s_heap s) n" and ?Q = "Q(a := xs @ ys, b := Q b @ [n])" and ?t = "t\<lparr>t_status := st\<rparr>"
  have m: "n \<in> members Q" by (rule membersI [of _ _ a]) (simp add: n(1))
  obtain h where h: "move_node (pool_at (thr_pool s) a) (pool_at (thr_pool s) b) n s = Some (0, s\<lparr>s_heap := h\<rparr>)"
    "on_pools (thr_pool s) h ?Q" "data h = data (s_heap s)" "members ?Q = members Q"
    by (rule move_node_ok [OF D(1) n(1,2)])
  let ?s = "s\<lparr>s_heap := h, tcbs := (tcbs s)(?p \<mapsto> ?t)\<rparr>"
  have mv: "moved s ?s n ?t" using h(3) by (simp add: moved_def)
  have w: "wake_at ?s = wake_at s" by (rule wake_same [where t' = ?t, OF _ _ n(4)]) (use h(3) in simp_all)
  have "sched_at d ?s ?Q"
  proof (rule sched_ok_moved [OF ok m n(4) _ mv])
    show "x \<in> set (?Q k) \<Longrightarrow> x \<noteq> n \<Longrightarrow> x \<in> set (Q k)" for k x
      using moved_in [of Q a xs n ys x b k] n(1) by blast
    show "fits_pool k (t_status ?t)" if "n \<in> set (?Q k)" for k
    proof -
      have "k = b" by (rule moved_only [of _ _ Q a xs n ys b k, OF D(1) n(1,2) that])
      then show ?thesis using st(1) by simp
    qed
    show "x \<in> members Q \<Longrightarrow> x \<noteq> n \<Longrightarrow> status_at s x = RUNNING \<Longrightarrow> data (s_heap s) x = cur_tcb ?s" for x
      using D(3) by (simp add: statuses_ok_def)
    show "sleepers_ok d ?s (?Q Sleep)"
      by (rule sleepers_same [OF D(4)]) (use w n in \<open>auto simp: sorted_append\<close>)
  qed (use h st(2) D(5) in \<open>simp_all add: others_ok_def\<close>)
  then show thesis using that h(1,3) by blast
qed

lemma deschedule_ok:
  assumes ok: "sched_at d s Q" and n: "runs s Q n" "Q Run = xs @ n # ys"
  obtains s' where "scheduler_deschedule_current s = Some (0, s')" "sched_at d s' (Q(Run := xs @ ys, Wait := Q Wait @ [n]))"
    "cur_tcb s' = cur_tcb s" "num_ticks s' = num_ticks s"
proof -
  let ?p = "data (s_heap s) n"
  have nr: "n \<in> set (Q Run)" "?p = cur_tcb s" "status_at s n = RUNNING" using n(1) by (simp_all add: runs_def)
  obtain t where t: "tcbs s ?p = Some t" "status_at s n = t_status t" "find_node (t_tid t) s = Some (Inr (n, ?p))"
    by (rule memberE [OF ok nr(1)]) blast
  obtain h where h: "move_node (pool_at (thr_pool s) Run) (pool_at (thr_pool s) Wait) n s = Some (0, s\<lparr>s_heap := h\<rparr>)"
    "sched_at d (s\<lparr>s_heap := h, tcbs := (tcbs s)(?p \<mapsto> t\<lparr>t_status := WAITING\<rparr>)\<rparr>) (Q(Run := xs @ ys, Wait := Q Wait @ [n]))"
    by (rule transfer_ok [OF ok n(2) _ _ t(1), of Wait WAITING]) simp_all
  have "scheduler_deschedule_current s = Some (0, s\<lparr>s_heap := h, tcbs := (tcbs s)(?p \<mapsto> t\<lparr>t_status := WAITING\<rparr>)\<rparr>)"
    using t nr h(1) by (simp add: scheduler_deschedule_current_def tcb_pool_make_waiting_def set_tcb_def)
  then show thesis using that h(2) by simp
qed

text \<open>The pools from which a thread can be made runnable.\<close>

lemma make_runnable_ok:
  assumes ok: "sched_at d s Q" and n: "Q a = xs @ n # ys" "a = Wait \<or> a = Sleep" "tcbs s (data (s_heap s) n) = Some t"
  obtains s' where "scheduler_make_runnable (t_tid t) s = Some (0, s')" "sched_at d s' (Q(a := xs @ ys, Run := Q Run @ [n]))"
    "cur_tcb s' = cur_tcb s" "num_ticks s' = num_ticks s" "data (s_heap s') = data (s_heap s)" "tcbs s' = (tcbs s)(data (s_heap s) n \<mapsto> t\<lparr>t_status := RUNNABLE\<rparr>)" "idle_tcb s' = idle_tcb s" "thr_pool s' = thr_pool s" "pcbs s' = pcbs s"
proof -
  note D = sched_okD [OF ok]
  let ?p = "data (s_heap s) n" and ?Q = "Q(a := xs @ ys, Run := Q Run @ [n])"
  have a: "a \<noteq> Run" "n \<in> set (Q a)" using n by auto
  obtain t' where t': "tcbs s ?p = Some t'" "fits_pool a (t_status t')" "find_node (t_tid t') s = Some (Inr (n, ?p))"
    by (rule memberE [OF ok a(2)]) blast
  obtain h where h: "move_node (pool_at (thr_pool s) a) (pool_at (thr_pool s) Run) n s = Some (0, s\<lparr>s_heap := h\<rparr>)"
    "data h = data (s_heap s)" "sched_at d (s\<lparr>s_heap := h, tcbs := (tcbs s)(?p \<mapsto> t\<lparr>t_status := RUNNABLE\<rparr>)\<rparr>) ?Q"
    by (rule transfer_ok [OF ok n(1) a(1) _ n(3), of RUNNABLE]) simp_all
  let ?s1 = "s\<lparr>s_heap := h\<rparr>"
  have mr: "tcb_pool_make_runnable (t_tid t) s = Some (0, ?s1)"
    using t' n(2,3) h(1) by (auto simp: tcb_pool_make_runnable_def)
  have "n \<in> set (?Q Run)" by simp
  then have "find_node (t_tid t) ?s1 = Some (Inr (n, ?p))"
    by (rule memberE [OF h(3)]) (use h(2) in simp)
  then have "scheduler_make_runnable (t_tid t) s = Some (0, s\<lparr>s_heap := h, tcbs := (tcbs s)(?p \<mapsto> t\<lparr>t_status := RUNNABLE\<rparr>)\<rparr>)"
    using mr n(3) by (simp add: scheduler_make_runnable_def tcb_pool_find_tcb_def set_tcb_def)
  then show thesis using that h(2,3) by simp
qed

lemma at_intr [simp]: "status_at (s\<lparr>intr := b\<rparr>) = status_at s" "wake_at (s\<lparr>intr := b\<rparr>) = wake_at s"
  by (simp_all add: status_at_def wake_at_def fun_eq_iff)

lemma sched_at_intr [simp]: "sched_at d (s\<lparr>intr := b\<rparr>) Q = sched_at d s Q"
  by (simp add: sched_at_def registered_def node_ok_def statuses_ok_def sleepers_ok_def others_ok_def)

lemma cmp_key: "tcb_t_wakeup_cmp m = key_cmp (\<lambda>p. unat (wakeup_at m p))"
  by (auto simp: fun_eq_iff tcb_t_wakeup_cmp_def key_cmp_def Let_def word_less_nat_alt)

lemma unat_word_of_tick: "0 \<le> k \<Longrightarrow> k < 2 ^ 31 \<Longrightarrow> unat (word_of_int k :: u32) = nat k"
  by (simp only: unat_eq_nat_uint uint_word_of_int len_bit0 len_num1 take_bit_eq_mod) simp

lemma sleeping_ok:
  assumes ok: "sched_ok s Q" and n: "runs s Q n" "Q Run = xs @ n # ys" and t: "0 < ticks" "num_ticks s + ticks < 2 ^ 31"
  obtains s' us vs where "scheduler_make_current_sleeping ticks s = Some (0, s')" "Q Sleep = us @ vs"
    "sched_ok s' (Q(Run := xs @ ys, Sleep := us @ n # vs))" "wake_at s' n = nat (num_ticks s + ticks)"
    "cur_tcb s' = cur_tcb s" "num_ticks s' = num_ticks s"
proof -
  note D = sched_okD [OF ok]
  let ?p = "data (s_heap s) n"
  have nr: "n \<in> set (Q Run)" "?p = cur_tcb s" "status_at s n = RUNNING" using n(1) by (simp_all add: runs_def)
  obtain u where u: "tcbs s ?p = Some u" "n \<in> members Q" "status_at s n = t_status u" "find_node (t_tid u) s = Some (Inr (n, ?p))"
    by (rule memberE [OF ok nr(1)]) blast
  define w where "w = (word_of_int (num_ticks s + ticks) :: u32)"
  let ?u = "u\<lparr>t_status := SLEEPING, t_wakeup := w\<rparr>"
  let ?s1 = "s\<lparr>tcbs := (tcbs s)(?p \<mapsto> ?u)\<rparr>" and ?Q1 = "Q(Run := xs @ ys)"
  have wn: "unat w = nat (num_ticks s + ticks)" "num_ticks s + 1 \<le> int (unat w)"
    using unat_word_of_tick [of "num_ticks s + ticks"] t D(5) unfolding w_def others_ok_def by auto
  obtain h1 where h1: "ll_unlink_node (pool_at (thr_pool s) Run) n (s_heap s) = Some (0, h1)" "on_pools (thr_pool s) h1 ?Q1"
    "detached h1 n" "data h1 = data (s_heap s)" by (rule pool_unlink [OF D(1) n(2)])
  have mu: "members ?Q1 = members Q - {n}" by (rule members_unlinked [OF D(1) n(2)])
  have at: "wake_at ?s1 m = (if m = n then unat w else wake_at s m)" if "m \<in> members Q" for m
    using at_updated(2) [OF D(2) u(2) that, of ?s1 ?u] by simp
  have ns: "n \<notin> set (Q Sleep)" using on_poolsD(3) [OF D(1), of Run Sleep] nr(1) by auto
  have srt: "sorted (map (wake_at ?s1) (Q Sleep))"
  proof -
    have e: "map (wake_at ?s1) (Q Sleep) = map (wake_at s) (Q Sleep)"
    proof (rule map_cong [OF refl])
      show "wake_at ?s1 m = wake_at s m" if "m \<in> set (Q Sleep)" for m
        using at membersI [of m Q Sleep] ns that by auto
    qed
    show ?thesis unfolding e using D(4) by (simp add: sleepers_ok_def)
  qed
  have nz: "data h1 m \<noteq> NULL" if "m \<in> set (n # Q Sleep)" for m
  proof -
    have "m \<in> members Q" using that u(2) membersI [of m Q Sleep] by auto
    then show ?thesis using h1(4) by (auto elim: registeredE [OF D(2)])
  qed
  have "holds h1 (sleeping_pool (thr_pool s)) (Q Sleep)" using on_poolsD(1) [OF h1(2), of Sleep] by simp
  from ll_link_node_sorted_holds [OF this h1(3) ns _ nz, where key = "\<lambda>p. unat (wakeup_at (tcbs ?s1) p)"] srt
  obtain h2 us vs where h2: "Q Sleep = us @ vs" "ll_link_node_sorted (tcb_t_wakeup_cmp (tcbs ?s1)) (sleeping_pool (thr_pool s)) n h1 = Some (0, h2)"
    "holds h2 (sleeping_pool (thr_pool s)) (us @ n # vs)" "sorted (map (wake_at ?s1) (us @ n # vs))"
    "frame (sleeping_pool (thr_pool s)) (insert n (set (Q Sleep))) h1 h2"
    unfolding cmp_key wake_at_def h1(4) by auto
  let ?Q = "?Q1(Sleep := us @ n # vs)" and ?s = "?s1\<lparr>s_heap := h2\<rparr>"
  have d2: "data h2 = data (s_heap s)" using frame_data [OF h2(5)] h1(4) by simp
  have op: "on_pools (thr_pool s) h2 ?Q"
  proof (rule on_pools_frame [OF h1(2), of Sleep "insert n (set (Q Sleep))"])
    show "set (?Q1 k) \<inter> insert n (set (Q Sleep)) = {}" if "k \<noteq> Sleep" for k
      using on_poolsD(3) [OF h1(2) that] mu membersI [of n ?Q1 k] by auto
  qed (use h2 in auto)
  have "members ?Q = insert n (members ?Q1)" by (rule members_linked) (simp add: h2(1))
  then have mem: "members ?Q = members Q" using mu u(2) by auto
  have "sched_ok ?s ?Q"
  proof (rule sched_ok_moved [OF ok u(2,1), where t' = ?u])
    show "moved s ?s n ?u" using d2 by (simp add: moved_def)
    show "x \<in> set (?Q k) \<Longrightarrow> x \<noteq> n \<Longrightarrow> x \<in> set (Q k)" for k x using n(2) h2(1) by (auto split: if_splits)
    show "fits_pool k (t_status ?u)" if "n \<in> set (?Q k)" for k by (cases k) (use that on_poolsD(3) [OF D(1), of Run k] nr(1) in auto)
    show "x \<in> members Q \<Longrightarrow> x \<noteq> n \<Longrightarrow> status_at s x = RUNNING \<Longrightarrow> data (s_heap s) x = cur_tcb ?s" for x
      using D(3) by (simp add: statuses_ok_def)
    have we: "wake_at ?s = wake_at ?s1" using d2 by (simp add: wake_at_def fun_eq_iff)
    have "num_ticks s + 1 \<le> int (wake_at ?s1 x)" if "x \<in> set (us @ n # vs)" for x
    proof (cases "x = n")
      case True
      then show ?thesis using at [OF u(2)] wn(2) by simp
    next
      case False
      then have "x \<in> set (Q Sleep)" using that h2(1) by auto
      then show ?thesis using at membersI [of x Q Sleep] False D(4) by (auto simp: sleepers_ok_def)
    qed
    then show "sleepers_ok 1 ?s (?Q Sleep)" using h2(4) unfolding sleepers_ok_def we by simp
  qed (use op mem D(5) nr u in \<open>simp_all add: others_ok_def\<close>)
  moreover have "scheduler_make_current_sleeping ticks s = Some (0, ?s)"
    using t u nr h1(1) h2(2) w_def
    by (simp add: scheduler_make_current_sleeping_def tcb_pool_make_sleeping_def set_tcb_def)
  moreover have "wake_at ?s n = nat (num_ticks s + ticks)" using at [OF u(2)] d2 wn(1) by (simp add: wake_at_def)
  ultimately show thesis using that h2(1) by simp
qed


subsection \<open>The timer wakes the sleepers that are due\<close>

text \<open>A pool has fewer than \<open>2 ^ 31\<close> members, because their tids differ; the size counter does not overflow.\<close>

lemma pool_small:
  assumes "sched_at d s Q"
  shows "length (Q k) < 2 ^ 31"
proof -
  note D = sched_okD [OF assms]
  define tid where "tid n = t_tid (the (tcbs s (data (s_heap s) n)))" for n
  have r: "tid n \<in> {0 ..< next_tid s} \<and> ht_map (threads (thr_pool s)) (word_of_int (tid n)) = Some n" if "n \<in> set (Q k)" for n
    by (rule registeredE [OF D(2) membersI [of n Q k, OF that]]) (simp add: tid_def)
  have "inj_on tid (set (Q k))" using r by (metis inj_onI option.inject)
  moreover have "tid ` set (Q k) \<subseteq> {0 ..< next_tid s}" using r by auto
  ultimately have "card (set (Q k)) \<le> card {0 ..< next_tid s}" by (metis card_inj_on_le finite_atLeastLessThan_int)
  moreover have "next_tid s < 2 ^ 31" using D(2) by (simp add: registered_def)
  ultimately show ?thesis using distinct_card [OF on_poolsD(4) [OF D(1), of k]] by simp
qed

lemma sint_of_small:
  assumes "unat (x :: u32) < 2 ^ 31"
  shows "sint x = int (unat x)"
proof -
  have "- (2 ^ 31) \<le> uint x" by (rule order_trans [OF _ uint_ge_0]) simp
  moreover have "nat (uint x) < 2 ^ 31" using assms by simp
  then have "uint x < int (2 ^ 31)" by (simp only: nat_less_iff [OF uint_ge_0])
  then have "uint x < 2 ^ 31" by simp
  ultimately have "signed_take_bit 31 (uint x) = uint x" by (rule signed_take_bit_int_eq_self)
  then show ?thesis by (simp add: sint_uint)
qed

lemma pool_size:
  assumes "sched_at d s Q"
  shows "ll_size (pool_at (thr_pool s) k) (s_heap s) = Some (int (length (Q k)))"
proof -
  obtain L where L: "pool_at (thr_pool s) k \<noteq> NULL" "lists (s_heap s) (pool_at (thr_pool s) k) = Some L" "unat (l_size L) = length (Q k)"
    using on_poolsD(1) [OF sched_okD(1) [OF assms], of k] by (auto simp: holds_def ll_rep_def)
  have "sint (l_size L) = int (length (Q k))"
    using pool_small [OF assms, of k] L(3) sint_of_small [of "l_size L"] by simp
  then show ?thesis using L by (simp add: ll_size_def)
qed

lemma pool_peek:
  assumes "sched_at d s Q" "Q k = n # ns"
  shows "ll_peek (pool_at (thr_pool s) k) (s_heap s) = Some (0, Some (data (s_heap s) n))"
proof -
  note D = sched_okD(1) [OF assms(1)]
  have "holds (s_heap s) (pool_at (thr_pool s) k) (n # ns)" using on_poolsD(1) [OF D, of k] assms(2) by simp
  moreover have "n \<in> members Q" by (rule membersI [of _ _ k]) (simp add: assms(2))
  ultimately show ?thesis using node_live [OF D] by (simp add: ll_peek_holds)
qed

text \<open>One woken thread: it goes to the end of the runnable pool and keeps its status.\<close>

lemma wake_one:
  assumes ok: "sched_at d s Q" and n: "Q Sleep = n # ss" "tcbs s (data (s_heap s) n) = Some t"
  obtains h where "tcb_pool_make_runnable (t_tid t) s = Some (0, s\<lparr>s_heap := h\<rparr>)" "data h = data (s_heap s)"
    "sched_at d (s\<lparr>s_heap := h\<rparr>) (Q(Sleep := ss, Run := Q Run @ [n]))"
proof -
  let ?p = "data (s_heap s) n"
  have "n \<in> set (Q Sleep)" by (simp add: n(1))
  then obtain u where "tcbs s ?p = Some u" "fits_pool Sleep (t_status u)" "find_node (t_tid u) s = Some (Inr (n, ?p))"
    by (rule memberE [OF ok]) blast
  then have t: "t_status t = SLEEPING" "find_node (t_tid t) s = Some (Inr (n, ?p))" using n(2) by auto
  obtain h where h: "move_node (pool_at (thr_pool s) Sleep) (pool_at (thr_pool s) Run) n s = Some (0, s\<lparr>s_heap := h\<rparr>)"
    "data h = data (s_heap s)" "sched_at d (s\<lparr>s_heap := h, tcbs := (tcbs s)(?p \<mapsto> t\<lparr>t_status := SLEEPING\<rparr>)\<rparr>) (Q(Sleep := [] @ ss, Run := Q Run @ [n]))"
    by (rule transfer_ok [OF ok, of Sleep "[]" n ss Run t SLEEPING]) (use n in simp_all)
  have "t\<lparr>t_status := SLEEPING\<rparr> = t" using t(1) by simp
  then have "(tcbs s)(?p \<mapsto> t\<lparr>t_status := SLEEPING\<rparr>) = tcbs s" using n(2) by auto
  then have "s\<lparr>s_heap := h, tcbs := (tcbs s)(?p \<mapsto> t\<lparr>t_status := SLEEPING\<rparr>)\<rparr> = s\<lparr>s_heap := h\<rparr>" by simp
  moreover have "tcb_pool_make_runnable (t_tid t) s = Some (0, s\<lparr>s_heap := h\<rparr>)"
    using h(1) t n(2) by (simp add: tcb_pool_make_runnable_def)
  ultimately show thesis using that h(2,3) by simp
qed

lemma wakeup_ok:
  assumes "sched_at 0 s Q"
  obtains h ds ss where "tcb_pool_wakeup (word_of_int (num_ticks s)) s = Some (0, s\<lparr>s_heap := h\<rparr>)" "Q Sleep = ds @ ss"
    "\<forall>n\<in>set ds. int (wake_at s n) = num_ticks s" "\<forall>n\<in>set ss. num_ticks s < int (wake_at s n)"
    "sched_at 1 (s\<lparr>s_heap := h\<rparr>) (Q(Run := Q Run @ ds, Sleep := ss))" "data h = data (s_heap s)"
proof -
  have "\<exists>h ds ss. tcb_pool_wakeup (word_of_int (num_ticks s)) s = Some (0, s\<lparr>s_heap := h\<rparr>) \<and> Q Sleep = ds @ ss \<and>
    (\<forall>n\<in>set ds. int (wake_at s n) = num_ticks s) \<and> (\<forall>n\<in>set ss. num_ticks s < int (wake_at s n)) \<and>
    sched_at 1 (s\<lparr>s_heap := h\<rparr>) (Q(Run := Q Run @ ds, Sleep := ss)) \<and> data h = data (s_heap s)"
    using assms
  proof (induction "Q Sleep" arbitrary: s Q)
    case Nil
    have "sched_at 1 s Q" using Nil by (simp add: sched_at_def sleepers_ok_def)
    moreover have "tcb_pool_wakeup (word_of_int (num_ticks s)) s = Some (0, s)"
      using pool_size [OF Nil.prems, of Sleep] Nil.hyps by (subst tcb_pool_wakeup.simps) simp
    ultimately show ?case using Nil.hyps by (intro exI [of _ "s_heap s"] exI [of _ "[]"]) (simp add: fun_upd_idem)
  next
    case (Cons n ss)
    note Q = Cons.hyps(2) [symmetric] and D = sched_okD [OF Cons.prems]
    have "n \<in> set (Q Sleep)" by (simp add: Q)
    then obtain t where t: "tcbs s (data (s_heap s) n) = Some t" by (rule memberE [OF Cons.prems]) blast
    have w: "wake_at s n = unat (t_wakeup t)" using t by (simp add: wake_at_def wakeup_at_def)
    have k: "0 \<le> num_ticks s" "num_ticks s < 2 ^ 31" using D(5) by (simp_all add: others_ok_def)
    have due: "t_wakeup t = word_of_int (num_ticks s) \<longleftrightarrow> int (wake_at s n) = num_ticks s"
      by (subst word_unat_eq_iff) (use unat_word_of_tick [OF k] w k(1) in linarith)
    have srt: "sorted (map (wake_at s) (n # ss))" "\<forall>m\<in>set (n # ss). num_ticks s \<le> int (wake_at s m)"
      using D(4) Q by (simp_all add: sleepers_ok_def)
    note step = tcb_pool_wakeup.simps [of "word_of_int (num_ticks s)" s]
    note sz = pool_size [OF Cons.prems, of Sleep] and pk = pool_peek [OF Cons.prems Q]
    show ?case
    proof (cases "int (wake_at s n) = num_ticks s")
      case True
      obtain h where h: "tcb_pool_make_runnable (t_tid t) s = Some (0, s\<lparr>s_heap := h\<rparr>)" "data h = data (s_heap s)"
        "sched_at 0 (s\<lparr>s_heap := h\<rparr>) (Q(Sleep := ss, Run := Q Run @ [n]))" by (rule wake_one [OF Cons.prems Q t])
      have wk: "wake_at (s\<lparr>s_heap := h\<rparr>) = wake_at s" using h(2) by (simp add: wake_at_def fun_eq_iff)
      from Cons.hyps(1) [OF _ h(3)] wk h(2) obtain h' ds rs where r:
        "tcb_pool_wakeup (word_of_int (num_ticks s)) (s\<lparr>s_heap := h\<rparr>) = Some (0, s\<lparr>s_heap := h'\<rparr>)" "ss = ds @ rs"
        "\<forall>m\<in>set ds. int (wake_at s m) = num_ticks s" "\<forall>m\<in>set rs. num_ticks s < int (wake_at s m)"
        "sched_at 1 (s\<lparr>s_heap := h'\<rparr>) ((Q(Sleep := ss, Run := Q Run @ [n]))(Run := Q Run @ n # ds, Sleep := rs))" "data h' = data (s_heap s)"
        by auto
      have "tcb_pool_wakeup (word_of_int (num_ticks s)) s = Some (0, s\<lparr>s_heap := h'\<rparr>)"
        using step sz pk t h(1) r(1) due True Q by simp
      moreover have "(Q(Sleep := ss, Run := Q Run @ [n]))(Run := Q Run @ n # ds, Sleep := rs) = Q(Run := Q Run @ n # ds, Sleep := rs)" by auto
      ultimately show ?thesis using r True Q by (intro exI [of _ h'] exI [of _ "n # ds"] exI [of _ rs]) simp
    next
      case False
      then have lt: "num_ticks s < int (wake_at s n)" using srt(2) by simp
      then have all: "\<forall>m\<in>set (n # ss). num_ticks s < int (wake_at s m)" using srt(1) by fastforce
      then have "sched_at 1 s Q" using Cons.prems Q by (simp add: sched_at_def sleepers_ok_def zless_imp_add1_zle)
      moreover have "tcb_pool_wakeup (word_of_int (num_ticks s)) s = Some (0, s)" using step sz pk t due False Q by simp
      ultimately show ?thesis using all Q
        by (intro exI [of _ "s_heap s"] exI [of _ "[]"] exI [of _ "n # ss"]) (simp add: fun_upd_idem)
    qed
  qed
  then show thesis using that by blast
qed


subsection \<open>Context switch\<close>

text \<open>
  The block at \<open>p\<close>, of a member or not, changes other fields than its tid and time of waking; the
  pools keep their members, and the current thread may change.
\<close>

lemma block_ok:
  assumes ok: "sched_at d s Q" and p: "tcbs s p = Some t" "t_tid t' = t_tid t" "t_wakeup t' = t_wakeup t"
    and s': "data (s_heap s') = data (s_heap s)" "tcbs s' = (tcbs s)(p \<mapsto> t')" "thr_pool s' = thr_pool s" "next_tid s' = next_tid s"
      "num_ticks s' = num_ticks s" "idle_tcb s' = idle_tcb s"
    and Q': "on_pools (thr_pool s) (s_heap s') Q'" "\<And>k. set (Q' k) = set (Q k)" "Q' Sleep = Q Sleep"
    and st: "\<And>k n. n \<in> set (Q k) \<Longrightarrow> data (s_heap s) n = p \<Longrightarrow> fits_pool k (t_status t')"
    and run: "\<And>n. n \<in> members Q \<Longrightarrow> status_at s' n = RUNNING \<Longrightarrow> data (s_heap s) n = cur_tcb s'"
    and cur: "cur_tcb s' \<noteq> NULL \<Longrightarrow> tcbs s (cur_tcb s') \<noteq> None"
  shows "sched_at d s' Q'"
proof -
  note D = sched_okD [OF ok]
  have mem: "members Q' = members Q" using Q'(2) by (simp add: members_def)
  have at: "status_at s' n = (if data (s_heap s) n = p then t_status t' else status_at s n)" for n
    using s'(1,2) by (simp add: status_at_def)
  have w: "wake_at s' = wake_at s" by (rule wake_same [OF s'(1,2) p(1,3)])
  have "registered s' Q'" by (rule registered_updated [OF D(2) p(1,2) s'(1,2) _ s'(4) mem]) (simp add: s'(3))
  moreover have "fits_pool k (status_at s' n)" if "n \<in> set (Q k)" for k n
    using at [of n] st [OF that] D(3) that by (simp add: statuses_ok_def)
  then have "statuses_ok s' Q'" unfolding statuses_ok_def mem Q'(2) s'(1) using run by blast
  moreover have "sleepers_ok d s' (Q' Sleep)" using D(4) w Q'(3) s'(5) by (simp add: sleepers_ok_def)
  moreover have "tcbs s NULL = None" using D(5) by (simp add: others_ok_def)
  then have "p \<noteq> NULL" using p(1) by auto
  then have "others_ok s' Q'" using D(5) s' mem cur by (simp add: others_ok_def)
  ultimately show ?thesis using Q'(1) s'(3) by (simp add: sched_at_def)
qed

definition deferred :: "tstatus \<Rightarrow> tstatus" where
  "deferred st = (if st = RUNNING then RUNNABLE else st)"

definition park :: "u32 \<Rightarrow> sched \<Rightarrow> ptr \<rightharpoonup> tcb" where
  "park esp s = (tcbs s)(cur_tcb s := map_option (\<lambda>t. t\<lparr>tmp_k_stack := esp, t_status := deferred (t_status t)\<rparr>) (tcbs s (cur_tcb s)))"

lemma park_live: "park esp s p = None \<longleftrightarrow> tcbs s p = None"
  by (simp add: park_def)

lemma defer_ok:
  fixes esp :: u32
  assumes ok: "sched_at d s Q"
  defines "s' \<equiv> s\<lparr>tcbs := park esp s\<rparr>"
  shows "scheduler_defer_current_tcb esp s = Some (0, s')" "sched_at d s' Q" "wake_at s' = wake_at s"
    "n \<in> members Q \<Longrightarrow> status_at s' n = deferred (status_at s n)"
proof -
  note D = sched_okD [OF ok]
  have st: "status_at s' n = deferred (status_at s n)" if "n \<in> members Q" for n
  proof (cases "data (s_heap s) n = cur_tcb s")
    case False
    then have "status_at s n \<noteq> RUNNING" using D(3) that by (auto simp: statuses_ok_def)
    with False show ?thesis by (simp add: s'_def status_at_def park_def deferred_def)
  qed (simp add: s'_def status_at_def park_def deferred_def split: option.split)
  then show "n \<in> members Q \<Longrightarrow> status_at s' n = deferred (status_at s n)" .
  have "scheduler_defer_current_tcb esp s = Some (0, s') \<and> sched_at d s' Q \<and> wake_at s' = wake_at s"
  proof (cases "cur_tcb s = NULL")
    case True
    have "tcbs s NULL = None" using D(5) by (simp add: others_ok_def)
    then have "park esp s = tcbs s" using True by (simp add: park_def fun_upd_idem)
    then show ?thesis using ok True by (simp add: s'_def scheduler_defer_current_tcb_def)
  next
    case False
    obtain t where t: "tcbs s (cur_tcb s) = Some t" using D(5) False by (auto simp: others_ok_def)
    let ?t = "t\<lparr>tmp_k_stack := esp, t_status := deferred (t_status t)\<rparr>"
    have f: "park esp s = (tcbs s)(cur_tcb s \<mapsto> ?t)" using t by (simp add: park_def)
    have "sched_at d s' Q"
    proof (rule block_ok [OF ok t, of ?t])
      show "fits_pool k (t_status ?t)" if "n \<in> set (Q k)" "data (s_heap s) n = cur_tcb s" for k n
      proof -
        have "fits_pool k (t_status t)" by (rule memberE [OF ok that(1)]) (use t that(2) in simp)
        then show ?thesis by (cases k) (auto simp: deferred_def)
      qed
      show "data (s_heap s) n = cur_tcb s'" if "n \<in> members Q" "status_at s' n = RUNNING" for n
        using st [OF that(1)] that(2) by (simp add: deferred_def split: if_splits)
    qed (use D t f in \<open>simp_all add: s'_def\<close>)
    moreover have "wake_at s' = wake_at s" by (rule wake_same [where t' = ?t, OF _ _ t]) (simp_all add: s'_def f)
    moreover have "scheduler_defer_current_tcb esp s = Some (0, s')"
      using False t by (simp add: s'_def f scheduler_defer_current_tcb_def set_tcb_def deferred_def)
    ultimately show ?thesis by simp
  qed
  then show "scheduler_defer_current_tcb esp s = Some (0, s')" "sched_at d s' Q" "wake_at s' = wake_at s" by simp_all
qed

text \<open>The thread that is switched to: a member of the runnable pool or the idle thread.\<close>

lemma set_running_ok:
  assumes ok: "sched_at d s Q" and p: "tcbs s p = Some t" "p \<noteq> NULL"
    and run: "\<And>k n. n \<in> set (Q k) \<Longrightarrow> data (s_heap s) n = p \<Longrightarrow> k = Run" "\<And>n. n \<in> members Q \<Longrightarrow> status_at s n \<noteq> RUNNING"
  obtains s' where "scheduler_set_running_tcb p s = Some (0, Some (tmp_k_stack t), s')" "sched_at d s' Q" "cur_tcb s' = p"
    "\<And>n. status_at s' n = (if data (s_heap s) n = p then RUNNING else status_at s n)" "wake_at s' = wake_at s"
    "s' = s\<lparr>cur_tcb := p, tcbs := (tcbs s)(p \<mapsto> t\<lparr>t_status := RUNNING\<rparr>), esp0 := orig_k_stack t, pdbr := t_pcb t\<rparr>"
proof -
  let ?t = "t\<lparr>t_status := RUNNING\<rparr>"
  let ?s = "s\<lparr>cur_tcb := p, tcbs := (tcbs s)(p \<mapsto> ?t), esp0 := orig_k_stack t, pdbr := t_pcb t\<rparr>"
  have at: "status_at ?s n = (if data (s_heap s) n = p then RUNNING else status_at s n)" for n by (simp add: status_at_def)
  have "sched_at d ?s Q"
  proof (rule block_ok [OF ok p(1), of ?t])
    show "fits_pool k (t_status ?t)" if "n \<in> set (Q k)" "data (s_heap s) n = p" for k n
      using run(1) [OF that] by simp
    show "data (s_heap s) n = cur_tcb ?s" if "n \<in> members Q" "status_at ?s n = RUNNING" for n
      using that(2) run(2) [OF that(1)] unfolding at by (simp split: if_splits)
  qed (use sched_okD [OF ok] p in simp_all)
  moreover have "wake_at ?s = wake_at s" by (rule wake_same [where t' = ?t, OF _ _ p(1)]) simp_all
  moreover have "scheduler_set_running_tcb p s = Some (0, Some (tmp_k_stack t), ?s)"
    using p by (simp add: scheduler_set_running_tcb_def set_tcb_def Let_def)
  ultimately show thesis using that [of ?s] at by simp
qed

lemma pool_rotate:
  assumes "on_pools tp h Q"
  shows "Q a = [] \<Longrightarrow> ll_rotate (pool_at tp a) h = Some (-2, h)"
    and "Q a = n # ns \<Longrightarrow> \<exists>h'. ll_rotate (pool_at tp a) h = Some (0, h') \<and> on_pools tp h' (Q(a := ns @ [n])) \<and> data h' = data h"
proof -
  note H = on_poolsD(1) [OF assms, of a]
  show "ll_rotate (pool_at tp a) h = Some (-2, h)" if "Q a = []"
    using H that by (auto simp: holds_def ll_rep_def ll_rotate_def unat_eq_0)
  assume n: "Q a = n # ns"
  then have "holds h (pool_at tp a) (n # ns)" using H by simp
  then obtain h' where h': "ll_rotate (pool_at tp a) h = Some (0, h')" "holds h' (pool_at tp a) (ns @ [n])" "frame (pool_at tp a) (set (n # ns)) h h'"
    using ll_rotate_holds by blast
  have "on_pools tp h' (Q(a := ns @ [n]))"
    by (rule on_pools_frame [OF assms h'(3,2)]) (use on_poolsD(3) [OF assms] n in \<open>force+\<close>)
  then show "\<exists>h'. ll_rotate (pool_at tp a) h = Some (0, h') \<and> on_pools tp h' (Q(a := ns @ [n])) \<and> data h' = data h"
    using h'(1) frame_data [OF h'(3)] by blast
qed

lemma sched_at_heap:
  assumes ok: "sched_at d s Q" and Q': "on_pools (thr_pool s) h Q'" "\<And>k. set (Q' k) = set (Q k)" "Q' Sleep = Q Sleep" "data h = data (s_heap s)"
  shows "sched_at d (s\<lparr>s_heap := h\<rparr>) Q'"
proof -
  have e: "status_at (s\<lparr>s_heap := h\<rparr>) = status_at s" "wake_at (s\<lparr>s_heap := h\<rparr>) = wake_at s"
    using Q'(4) by (simp_all add: status_at_def wake_at_def fun_eq_iff)
  have "members Q' = members Q" using Q'(2) by (simp add: members_def)
  with ok Q' e show ?thesis
    by (simp add: sched_at_def registered_def node_ok_def statuses_ok_def sleepers_ok_def others_ok_def)
qed

definition next_thread :: "sched \<Rightarrow> ptr list \<Rightarrow> ptr" where
  "next_thread s ns = (case rotate1 ns of [] \<Rightarrow> idle_tcb s | n # _ \<Rightarrow> data (s_heap s) n)"

lemma get_next_ok:
  assumes ok: "sched_at d s Q"
  obtains h where "scheduler_get_next_tcb s = Some (0, next_thread s (Q Run), s\<lparr>s_heap := h\<rparr>)"
    "sched_at d (s\<lparr>s_heap := h\<rparr>) (Q(Run := rotate1 (Q Run)))" "data h = data (s_heap s)"
proof (cases "Q Run")
  case Nil
  have "Q(Run := []) = Q" using Nil by (simp add: fun_upd_idem)
  then show thesis using that [of "s_heap s"] pool_rotate(1) [OF sched_okD(1) [OF ok] Nil] ok Nil
    by (simp add: scheduler_get_next_tcb_def tcb_pool_get_next_tcb_def next_thread_def)
next
  case (Cons n ns)
  obtain h where h: "ll_rotate (pool_at (thr_pool s) Run) (s_heap s) = Some (0, h)" "on_pools (thr_pool s) h (Q(Run := ns @ [n]))" "data h = data (s_heap s)"
    using pool_rotate(2) [OF sched_okD(1) [OF ok] Cons] by blast
  let ?Q = "Q(Run := ns @ [n])"
  have ok': "sched_at d (s\<lparr>s_heap := h\<rparr>) ?Q" by (rule sched_at_heap [OF ok h(2) _ _ h(3)]) (use Cons in auto)
  obtain m ms where m: "ns @ [n] = m # ms" by (cases ns) auto
  have "ll_peek (runnable_pool (thr_pool s)) h = Some (0, Some (data h m))" using pool_peek [OF ok', of Run m ms] m by simp
  then show thesis using that [of h] h ok' Cons m
    by (simp add: scheduler_get_next_tcb_def tcb_pool_get_next_tcb_def next_thread_def)
qed


text \<open>
  \<open>switch_to esp p s s'\<close>: what a context switch from the current thread to the one at \<open>p\<close> does to the blocks and the
  processor: the stack pointer of the old thread is kept in its block, and the kernel stack and page directory of the
  new one are loaded.
\<close>

definition switch_to :: "u32 \<Rightarrow> ptr \<Rightarrow> sched \<Rightarrow> sched \<Rightarrow> bool" where
  "switch_to esp p s s' \<longleftrightarrow> (\<exists>t h. park esp s p = Some t \<and> data h = data (s_heap s) \<and>
     s' = s\<lparr>s_heap := h, cur_tcb := p, tcbs := (park esp s)(p \<mapsto> t\<lparr>t_status := RUNNING\<rparr>), esp0 := orig_k_stack t, pdbr := t_pcb t\<rparr>)"

lemma switch_ok:
  assumes ok: "sched_at d s Q" and h: "sched_at d (s\<lparr>tcbs := park esp s, s_heap := h\<rparr>) Q'" "data h = data (s_heap s)" "members Q' = members Q"
    and p: "p = idle_tcb s \<or> (\<exists>n \<in> set (Q' Run). p = data (s_heap s) n)"
  obtains s' t where "park esp s p = Some t" "scheduler_set_running_tcb p (s\<lparr>tcbs := park esp s, s_heap := h\<rparr>) = Some (0, Some (tmp_k_stack t), s')"
    "sched_at d s' Q'" "switch_to esp p s s'" "wake_at s' = wake_at s" "p \<noteq> NULL"
    "\<forall>n\<in>members Q. status_at s' n = (if data (s_heap s) n = p then RUNNING else deferred (status_at s n))"
proof -
  note D = sched_okD [OF ok] and D' = sched_okD [OF h(1)]
  let ?s = "s\<lparr>tcbs := park esp s, s_heap := h\<rparr>"
  have pk: "tcbs ?s p \<noteq> None \<and> p \<noteq> NULL"
  proof (cases "p = idle_tcb s")
    case True
    then show ?thesis using D(5) by (auto simp: others_ok_def park_live)
  next
    case False
    then obtain n where "n \<in> set (Q' Run)" "p = data (s_heap s) n" using p by blast
    then show ?thesis using h(2) by (auto elim: memberE [OF h(1)])
  qed
  then obtain t where t: "park esp s p = Some t" by auto
  have same: "k = Run" if "n \<in> set (Q' k)" "data (s_heap ?s) n = p" for k n
  proof -
    have m: "n \<in> members Q'" using that(1) by (rule membersI)
    moreover have "idle_tcb s \<notin> data h ` members Q'" using D'(5) by (simp add: others_ok_def)
    moreover have "data h n = p" using that(2) by simp
    ultimately have "p \<noteq> idle_tcb s" by (metis imageI)
    then obtain r where r: "r \<in> set (Q' Run)" "p = data (s_heap s) r" using p by blast
    then have "n = r" using member_inj [OF D'(2) m membersI [of r Q' Run]] that(2) h(2) by simp
    then show ?thesis using on_poolsD(3) [OF D'(1), of k Run] that(1) r(1) by auto
  qed
  have st: "status_at ?s n = deferred (status_at s n)" if "n \<in> members Q" for n
    using defer_ok(4) [OF ok that, of esp] h(2) by (simp add: status_at_def)
  have w: "wake_at ?s = wake_at s" using defer_ok(3) [OF ok, of esp] h(2) by (simp add: wake_at_def fun_eq_iff)
  obtain s' where s': "scheduler_set_running_tcb p ?s = Some (0, Some (tmp_k_stack t), s')" "sched_at d s' Q'"
    "\<And>n. status_at s' n = (if data (s_heap ?s) n = p then RUNNING else status_at ?s n)" "wake_at s' = wake_at ?s"
    "s' = ?s\<lparr>cur_tcb := p, tcbs := (tcbs ?s)(p \<mapsto> t\<lparr>t_status := RUNNING\<rparr>), esp0 := orig_k_stack t, pdbr := t_pcb t\<rparr>"
  proof (rule set_running_ok [OF h(1), of p t])
    show "\<And>k n. n \<in> set (Q' k) \<Longrightarrow> data (s_heap ?s) n = p \<Longrightarrow> k = Run" by (rule same)
    show "\<And>n. n \<in> members Q' \<Longrightarrow> status_at ?s n \<noteq> RUNNING" using st h(3) by (simp add: deferred_def)
  qed (use t pk in simp_all)
  have "switch_to esp p s s'" unfolding switch_to_def using t h(2) s'(5) by (intro exI [of _ t] exI [of _ h]) simp
  then show thesis using that [OF t s'(1,2)] s'(3,4) w st pk h(2) by simp
qed

lemma context_switch_ok:
  assumes ok: "sched_at d s Q"
  defines "p \<equiv> next_thread s (Q Run)"
  obtains s' t where "park esp s p = Some t" "context_switch esp (-1) s = Some (tmp_k_stack t, s')"
    "sched_at d s' (Q(Run := rotate1 (Q Run)))" "switch_to esp p s s'" "wake_at s' = wake_at s"
    "\<forall>n\<in>members Q. status_at s' n = (if data (s_heap s) n = p then RUNNING else deferred (status_at s n))"
proof -
  note df = defer_ok [OF ok, where esp = esp]
  let ?s = "s\<lparr>tcbs := park esp s\<rparr>" and ?Q = "Q(Run := rotate1 (Q Run))"
  obtain h where h: "scheduler_get_next_tcb ?s = Some (0, next_thread ?s (Q Run), ?s\<lparr>s_heap := h\<rparr>)"
    "sched_at d (?s\<lparr>s_heap := h\<rparr>) ?Q" "data h = data (s_heap ?s)" by (rule get_next_ok [OF df(2)])
  have hd: "data h = data (s_heap s)" using h(3) by simp
  have nt: "next_thread ?s (Q Run) = p" by (simp add: p_def next_thread_def split: list.split)
  have mem: "members ?Q = members Q" by (auto simp: members_def split: if_splits)
  have p: "p = idle_tcb s \<or> (\<exists>n \<in> set (?Q Run). p = data (s_heap s) n)" unfolding p_def next_thread_def
    by (cases "rotate1 (Q Run)") auto
  obtain s' t where s': "park esp s p = Some t" "scheduler_set_running_tcb p (?s\<lparr>s_heap := h\<rparr>) = Some (0, Some (tmp_k_stack t), s')"
    "sched_at d s' ?Q" "switch_to esp p s s'" "wake_at s' = wake_at s" "p \<noteq> NULL"
    "\<forall>n\<in>members Q. status_at s' n = (if data (s_heap s) n = p then RUNNING else deferred (status_at s n))"
    by (rule switch_ok [OF ok h(2) hd mem p]) blast
  have "context_switch esp (-1) s = Some (tmp_k_stack t, s')" using df(1) h(1) nt s'(2) by (simp add: context_switch_def)
  then show thesis using that [OF s'(1) _ s'(3,4,5)] s'(7) by blast
qed

end
