(* ===== verification/KernelSteps.thy ===== *)
theory KernelSteps
  imports ThrHelpers SchedulerCorrect
begin

text \<open>
  The thread operations as the steps of the kernel: yielding, descheduling, sleeping, waking,
  vanishing and the tick of the timer. Every step returns, keeps the invariant of the
  scheduler and leaves one thread running, the idle thread if no other is runnable.
\<close>

subsection \<open>The scheduler lock\<close>

lemma sched_at_locked [simp]: "sched_at d (sched_locked s) Q = sched_at d s Q" "sched_at d (sched_unlocked s) Q = sched_at d s Q"
  by (simp_all add: sched_locked_def sched_unlocked_def)

lemma locked_same [simp]:
  "cur_tcb (sched_locked s) = cur_tcb s" "cur_tcb (sched_unlocked s) = cur_tcb s"
  "idle_tcb (sched_locked s) = idle_tcb s" "idle_tcb (sched_unlocked s) = idle_tcb s"
  "num_ticks (sched_locked s) = num_ticks s" "num_ticks (sched_unlocked s) = num_ticks s"
  "s_heap (sched_locked s) = s_heap s" "s_heap (sched_unlocked s) = s_heap s"
  "tcbs (sched_locked s) = tcbs s" "tcbs (sched_unlocked s) = tcbs s"
  "pcbs (sched_locked s) = pcbs s" "pcbs (sched_unlocked s) = pcbs s"
  "thr_pool (sched_locked s) = thr_pool s" "thr_pool (sched_unlocked s) = thr_pool s"
  "status_at (sched_locked s) = status_at s" "status_at (sched_unlocked s) = status_at s"
  "wake_at (sched_locked s) = wake_at s" "wake_at (sched_unlocked s) = wake_at s"
  "runs (sched_locked s) Q n = runs s Q n" "runs (sched_unlocked s) Q n = runs s Q n"
  by (simp_all add: sched_locked_def sched_unlocked_def runs_def)

lemma with_sched_lock_eq: "f (sched_locked s) = Some (r, s') \<Longrightarrow> with_sched_lock f s = Some (r, sched_unlocked s')"
  by (simp add: with_sched_lock_def)

subsection \<open>A running thread and the rest\<close>

text \<open>Between two steps a member of the runnable pool runs, or the idle thread.\<close>

definition scheduled :: "sched \<Rightarrow> pools \<Rightarrow> bool" where
  "scheduled s Q \<longleftrightarrow> sched_ok s Q \<and> (cur_tcb s = idle_tcb s \<or> (\<exists>n. runs s Q n))"

lemma switched_scheduled:
  assumes "sched_ok s' Q'" "switch_to esp p s s'" "p = idle_tcb s \<or> (\<exists>n \<in> set (Q' Run). p = data (s_heap s) n)"
  shows "scheduled s' Q'"
proof -
  obtain t h where s': "data h = data (s_heap s)" "s' = s\<lparr>s_heap := h, cur_tcb := p, tcbs := (park esp s)(p \<mapsto> t\<lparr>t_status := RUNNING\<rparr>), esp0 := orig_k_stack t, pdbr := t_pcb t\<rparr>"
    using assms(2) unfolding switch_to_def by blast
  have "runs s' Q' n" if "n \<in> set (Q' Run)" "p = data (s_heap s) n" for n
    using that s' by (simp add: runs_def status_at_def)
  moreover have "cur_tcb s' = p" "idle_tcb s' = idle_tcb s" using s'(2) by simp_all
  ultimately show ?thesis using assms(1,3) unfolding scheduled_def by auto
qed

lemma next_thread_cases: "next_thread s ns = idle_tcb s \<or> (\<exists>n \<in> set (rotate1 ns). next_thread s ns = data (s_heap s) n)"
  by (cases "rotate1 ns") (auto simp: next_thread_def)

lemma yield_any_ok:
  assumes ok: "sched_ok s Q"
  obtains e s' where "thr_yield esp (-1) s = Some (Resumes e, s')" "scheduled s' (Q(Run := rotate1 (Q Run)))"
    "cur_tcb s' = next_thread s (Q Run)" "num_ticks s' = num_ticks s" "idle_tcb s' = idle_tcb s" "data (s_heap s') = data (s_heap s)"
    "wake_at s' = wake_at s" "\<forall>n\<in>members Q. data (s_heap s) n \<noteq> cur_tcb s' \<longrightarrow> status_at s' n = deferred (status_at s n)"
proof -
  let ?s = "sched_locked s" and ?Q = "Q(Run := rotate1 (Q Run))"
  have nt: "next_thread ?s (Q Run) = next_thread s (Q Run)" by (simp add: next_thread_def split: list.split)
  have ok': "sched_ok ?s Q" using ok by simp
  obtain s1 and t :: tcb where s1: "context_switch esp (-1) ?s = Some (tmp_k_stack t, s1)" "sched_ok s1 ?Q"
    "switch_to esp (next_thread ?s (Q Run)) ?s s1" "wake_at s1 = wake_at ?s"
    "\<forall>n\<in>members Q. status_at s1 n = (if data (s_heap ?s) n = next_thread ?s (Q Run) then RUNNING else deferred (status_at ?s n))"
    by (rule context_switch_ok [OF ok', of esp]) blast
  have sch: "scheduled s1 ?Q"
    by (rule switched_scheduled [OF s1(2,3)]) (use next_thread_cases [of ?s "Q Run"] in simp)
  have c: "cur_tcb s1 = next_thread s (Q Run)" "num_ticks s1 = num_ticks s" "idle_tcb s1 = idle_tcb s" "data (s_heap s1) = data (s_heap s)"
    using s1(3) nt by (auto simp: switch_to_def)
  have "thr_yield esp (-1) s = Some (Resumes (tmp_k_stack t), sched_unlocked s1)"
    using s1(1) by (simp add: thr_yield_def context_switch_safe_def)
  moreover have "scheduled (sched_unlocked s1) ?Q" using sch by (simp add: scheduled_def)
  ultimately show thesis using that c s1(4,5) nt by simp
qed

subsection \<open>Finding a thread\<close>

lemma find_node_total:
  assumes "registered s Q" "on_pools (thr_pool s) (s_heap s) Q"
  obtains "find_node tid s = Some (Inl (-2))" "ht_map (threads (thr_pool s)) (word_of_int tid) = None"
    | n t where "n \<in> members Q" "find_node tid s = Some (Inr (n, data (s_heap s) n))" "tcbs s (data (s_heap s) n) = Some t" "find_node tid = find_node (t_tid t)"
      "ht_map (threads (thr_pool s)) (word_of_int tid) = Some n"
proof (cases "ht_map (threads (thr_pool s)) (word_of_int tid)")
  case None
  have "ht_ok (threads (thr_pool s))" using assms(1) by (simp add: registered_def)
  then show thesis using that(1) None by (simp add: find_node_def ht_get_map)
next
  case (Some n)
  note m = registered_key(1) [OF assms(1) Some]
  obtain t where t: "tcbs s (data (s_heap s) n) = Some t" by (rule registeredE [OF assms(1) m]) blast
  have "(word_of_int tid :: u32) = word_of_int (t_tid t)" by (rule registered_key(2) [OF assms(1) Some t])
  then have "find_node tid = find_node (t_tid t)" by (simp add: find_node_def fun_eq_iff)
  then show thesis using that(2) [OF m _ t _ Some] find_member [OF assms(2,1) m t] by simp
qed

lemma find_node_eq:
  assumes "sched_at d s Q"
  shows "find_node tid s = Some (case ht_map (threads (thr_pool s)) (word_of_int tid) of None \<Rightarrow> Inl (-2) | Some n \<Rightarrow> Inr (n, data (s_heap s) n))"
  by (rule find_node_total [OF sched_okD(2,1) [OF assms], of tid]) simp_all

text \<open>Yielding to a given thread.\<close>

lemma yield_to_ok:
  assumes ok: "scheduled s Q" and tid: "0 \<le> tid"
  obtains (refused) r where "thr_yield esp tid s = Some (Returns r, s)" "r < 0"
  | (switched) e s' n where "thr_yield esp tid s = Some (Resumes e, s')" "n \<in> set (Q Run)" "scheduled s' Q"
      "cur_tcb s' = data (s_heap s) n" "num_ticks s' = num_ticks s"
proof -
  have ok': "sched_ok s Q" using ok by (simp add: scheduled_def)
  note D = sched_okD [OF ok']
  show thesis
  proof (rule find_node_total [OF D(2,1), of tid])
    assume "find_node tid s = Some (Inl (-2))"
    then show thesis using refused tid by (simp add: thr_yield_def scheduler_check_is_runnable_def tcb_pool_find_tcb_def)
  next
    fix n t assume n: "n \<in> members Q" "find_node tid s = Some (Inr (n, data (s_heap s) n))" and tn: "tcbs s (data (s_heap s) n) = Some t"
    let ?p = "data (s_heap s) n"
    obtain k where k: "n \<in> set (Q k)" using n(1) by (auto simp: members_def)
    have "fits_pool k (t_status t)" by (rule memberE [OF ok' k]) (use tn in simp)
    note t = tn this
    have c: "scheduler_check_is_runnable tid s = Some (if t_status t = RUNNABLE then 1 else 0)"
      using n(2) t by (simp add: scheduler_check_is_runnable_def tcb_pool_find_tcb_def)
    show thesis
    proof (cases "t_status t = RUNNABLE")
      case False
      then show thesis using refused c tid by (simp add: thr_yield_def)
    next
      case True
      then have run: "n \<in> set (Q Run)" using k t(2) by (cases k) auto
      let ?s = "sched_locked s"
      have okl: "sched_ok ?s Q" using ok' by simp
      have "find_node tid ?s = Some (Inr (n, ?p))" using n(2) by (simp add: find_node_def sched_locked_def cong: if_cong)
      then have g: "scheduler_get_tcb_by_tid tid (?s\<lparr>tcbs := park esp ?s\<rparr>) = Some (0, Some ?p)"
        by (simp add: scheduler_get_tcb_by_tid_def tcb_pool_find_tcb_def)
      note df = defer_ok [OF okl, where esp = esp]
      have e: "?s\<lparr>tcbs := park esp ?s, s_heap := s_heap ?s\<rparr> = ?s\<lparr>tcbs := park esp ?s\<rparr>" by simp
      have dfe: "sched_ok (?s\<lparr>tcbs := park esp ?s, s_heap := s_heap ?s\<rparr>) Q" unfolding e by (rule df(2))
      have pr: "?p = idle_tcb ?s \<or> (\<exists>m \<in> set (Q Run). ?p = data (s_heap ?s) m)" using run by auto
      obtain s1 and u :: tcb where u: "scheduler_set_running_tcb ?p (?s\<lparr>tcbs := park esp ?s\<rparr>) = Some (0, Some (tmp_k_stack u), s1)"
        "sched_ok s1 Q" "switch_to esp ?p ?s s1"
        by (rule switch_ok [OF okl dfe refl refl pr, unfolded e]) blast
      have "context_switch esp tid ?s = Some (tmp_k_stack u, s1)" using df(1) g u(1) tid by (simp add: context_switch_def)
      then have "thr_yield esp tid s = Some (Resumes (tmp_k_stack u), sched_unlocked s1)"
        using c True by (simp add: thr_yield_def context_switch_safe_def)
      moreover have "scheduled (sched_unlocked s1) Q" using switched_scheduled [OF u(2,3) pr] by (simp add: scheduled_def)
      moreover have "cur_tcb s1 = ?p" "num_ticks s1 = num_ticks s" using u(3) by (auto simp: switch_to_def)
      ultimately show thesis using switched [of "tmp_k_stack u" "sched_unlocked s1" n] run by simp
    qed
  qed
qed

subsection \<open>The timer\<close>

lemma at_tick [simp]: "status_at (s\<lparr>num_ticks := k\<rparr>) = status_at s" "wake_at (s\<lparr>num_ticks := k\<rparr>) = wake_at s"
  by (simp_all add: status_at_def wake_at_def fun_eq_iff)

lemma tick_ok: "sched_ok s Q \<Longrightarrow> num_ticks s + 1 < 2 ^ 31 \<Longrightarrow> sched_at 0 (s\<lparr>num_ticks := num_ticks s + 1\<rparr>) Q"
  by (simp add: sched_at_def registered_def node_ok_def statuses_ok_def sleepers_ok_def others_ok_def)

text \<open>The sleepers that are due go to the end of the runnable pool in the order of their waking; then the pool is rotated.\<close>

lemma timer_ok:
  assumes ok: "sched_ok s Q" and t: "num_ticks s + 1 < 2 ^ 31"
  obtains e s' ds ss where "c_timer_handler esp s = Some (e, s')" "num_ticks s' = num_ticks s + 1" "Q Sleep = ds @ ss"
    "\<forall>n\<in>set ds. int (wake_at s n) = num_ticks s'" "\<forall>n\<in>set ss. num_ticks s' < int (wake_at s n)"
    "scheduled s' (Q(Run := rotate1 (Q Run @ ds), Sleep := ss))" "cur_tcb s' = next_thread s (Q Run @ ds)"
    "data (s_heap s') = data (s_heap s)" "wake_at s' = wake_at s" "idle_tcb s' = idle_tcb s"
proof -
  let ?s = "s\<lparr>num_ticks := num_ticks s + 1\<rparr>"
  have w: "wake_at ?s = wake_at s" by (simp add: wake_at_def fun_eq_iff)
  obtain h ds ss where h: "tcb_pool_wakeup (word_of_int (num_ticks ?s)) ?s = Some (0, ?s\<lparr>s_heap := h\<rparr>)" "Q Sleep = ds @ ss"
    "\<forall>n\<in>set ds. int (wake_at ?s n) = num_ticks ?s" "\<forall>n\<in>set ss. num_ticks ?s < int (wake_at ?s n)"
    "sched_ok (?s\<lparr>s_heap := h\<rparr>) (Q(Run := Q Run @ ds, Sleep := ss))" "data h = data (s_heap ?s)"
    by (rule wakeup_ok [OF tick_ok [OF ok t]])
  let ?s1 = "?s\<lparr>s_heap := h\<rparr>" and ?Q1 = "Q(Run := Q Run @ ds, Sleep := ss)"
  let ?p = "next_thread ?s1 (?Q1 Run)"
  obtain s' and u :: tcb where s': "context_switch esp (-1) ?s1 = Some (tmp_k_stack u, s')" "sched_ok s' (?Q1(Run := rotate1 (?Q1 Run)))"
    "switch_to esp ?p ?s1 s'" "wake_at s' = wake_at ?s1"
    by (rule context_switch_ok [OF h(5), of esp]) blast
  have p: "?p = next_thread s (Q Run @ ds)" using h(6) by (simp add: next_thread_def split: list.split)
  have q: "?Q1(Run := rotate1 (?Q1 Run)) = Q(Run := rotate1 (Q Run @ ds), Sleep := ss)" by auto
  have "c_timer_handler esp s = Some (tmp_k_stack u, s')"
    using t h(1) s'(1) by (simp add: c_timer_handler_def scheduler_wakeup_def)
  moreover have "scheduled s' (?Q1(Run := rotate1 (?Q1 Run)))"
    by (rule switched_scheduled [OF s'(2,3)]) (use next_thread_cases [of ?s1 "?Q1 Run"] in simp)
  moreover have "num_ticks s' = num_ticks s + 1" "cur_tcb s' = ?p" "data (s_heap s') = data (s_heap s)" "idle_tcb s' = idle_tcb s"
    using s'(3) h(6) by (auto simp: switch_to_def)
  moreover have "wake_at s' = wake_at s" using s'(4) h(6) by (simp add: wake_at_def fun_eq_iff)
  ultimately show thesis using that [of "tmp_k_stack u" s' ds ss] h(2-4) w p q by simp
qed

subsection \<open>Blocking\<close>

lemma split_run: "runs s Q n \<Longrightarrow> \<exists>xs ys. Q Run = xs @ n # ys"
  by (auto simp: runs_def dest: split_list)

lemma block_step:
  assumes ok: "sched_ok s Q" and n: "runs s Q n" "Q Run = xs @ n # ys"
  obtains e s1 s' where "scheduler_deschedule_current_safe s = Some (0, s1)" "thr_yield esp (-1) s1 = Some (Resumes e, s')"
    "scheduled s' (Q(Run := rotate1 (xs @ ys), Wait := Q Wait @ [n]))" "num_ticks s' = num_ticks s"
proof -
  let ?Q = "Q(Run := xs @ ys, Wait := Q Wait @ [n])"
  have ok': "sched_ok (sched_locked s) Q" and r: "runs (sched_locked s) Q n" using ok n(1) by simp_all
  obtain s1 where s1: "scheduler_deschedule_current (sched_locked s) = Some (0, s1)" "sched_ok s1 ?Q" "num_ticks s1 = num_ticks (sched_locked s)"
    by (rule deschedule_ok [OF ok' r n(2)]) blast
  have ok1: "sched_ok (sched_unlocked s1) ?Q" using s1(2) by simp
  have q: "?Q(Run := rotate1 (?Q Run)) = Q(Run := rotate1 (xs @ ys), Wait := Q Wait @ [n])" by auto
  obtain e s' where "thr_yield esp (-1) (sched_unlocked s1) = Some (Resumes e, s')" "scheduled s' (?Q(Run := rotate1 (?Q Run)))"
    "num_ticks s' = num_ticks (sched_unlocked s1)"
    by (rule yield_any_ok [OF ok1, of esp]) blast
  then show thesis using that [of "sched_unlocked s1"] s1(3) with_sched_lock_eq [of scheduler_deschedule_current, OF s1(1)] q
    unfolding scheduler_deschedule_current_safe_def by simp
qed

lemma sleep_step:
  assumes ok: "sched_ok s Q" and n: "runs s Q n" "Q Run = xs @ n # ys" and t: "0 < ticks" "num_ticks s + ticks < 2 ^ 31"
  obtains e s' us vs where "thr_sleep esp ticks s = Some (Resumes e, s')" "Q Sleep = us @ vs"
    "scheduled s' (Q(Run := rotate1 (xs @ ys), Sleep := us @ n # vs))" "num_ticks s' = num_ticks s"
    "int (wake_at s' n) = num_ticks s + ticks"
proof -
  have ok': "sched_ok (sched_locked s) Q" and r: "runs (sched_locked s) Q n" "num_ticks (sched_locked s) + ticks < 2 ^ 31"
    using ok n(1) t by simp_all
  obtain s1 us vs where s1: "scheduler_make_current_sleeping ticks (sched_locked s) = Some (0, s1)" "Q Sleep = us @ vs"
    "sched_ok s1 (Q(Run := xs @ ys, Sleep := us @ n # vs))" "wake_at s1 n = nat (num_ticks (sched_locked s) + ticks)" "num_ticks s1 = num_ticks (sched_locked s)"
    by (rule sleeping_ok [OF ok' r(1) n(2) t(1) r(2)]) blast
  let ?Q = "Q(Run := xs @ ys, Sleep := us @ n # vs)"
  have ok1: "sched_ok (sched_unlocked s1) ?Q" using s1(3) by simp
  have q: "?Q(Run := rotate1 (?Q Run)) = Q(Run := rotate1 (xs @ ys), Sleep := us @ n # vs)" by auto
  obtain e s' where s': "thr_yield esp (-1) (sched_unlocked s1) = Some (Resumes e, s')" "scheduled s' (?Q(Run := rotate1 (?Q Run)))"
    "num_ticks s' = num_ticks (sched_unlocked s1)" "wake_at s' = wake_at (sched_unlocked s1)"
    by (rule yield_any_ok [OF ok1, of esp]) blast
  have "0 \<le> num_ticks s" using sched_okD(5) [OF ok] by (simp add: others_ok_def)
  then have "int (wake_at s' n) = num_ticks s + ticks" using s'(4) s1(4) t(1) by simp
  moreover have "thr_sleep esp ticks s = Some (Resumes e, s')" using with_sched_lock_eq [of "scheduler_make_current_sleeping ticks", OF s1(1)] s'(1)
    by (simp add: thr_sleep_def scheduler_make_current_sleeping_safe_def returns_0_def)
  ultimately show thesis using that s1(2,5) s'(2,3) q by simp
qed

subsection \<open>Waking\<close>

text \<open>
  \<open>tcb_pool_make_runnable\<close> takes every thread that is neither runnable nor waiting for one of the sleeping pool. It is safe for
  a thread that is unknown, runnable or waiting.
\<close>

definition wakeable :: "int \<Rightarrow> sched \<Rightarrow> bool" where
  "wakeable tid s = (case find_node tid s of
     Some (Inr (_, p)) \<Rightarrow> (case tcbs s p of Some t \<Rightarrow> t_status t = WAITING \<or> t_status t = RUNNABLE | None \<Rightarrow> False)
   | _ \<Rightarrow> True)"

lemma wake_ok:
  assumes ok: "sched_at d s Q" and w: "wakeable tid s"
  obtains r s' Q' where "scheduler_make_runnable tid s = Some (r, s')" "sched_at d s' Q'" "cur_tcb s' = cur_tcb s" "num_ticks s' = num_ticks s"
    "idle_tcb s' = idle_tcb s" "\<forall>n. runs s Q n \<longrightarrow> runs s' Q' n"
    "\<forall>t. wakeable t s \<longrightarrow> wakeable t s'" "thr_pool s' = thr_pool s" "pcbs s' = pcbs s"
proof -
  note D = sched_okD [OF ok]
  have same: "\<exists>r. scheduler_make_runnable tid s = Some (r, s)" if "\<exists>r<0. tcb_pool_make_runnable tid s = Some (r, s)"
    using that by (auto simp: scheduler_make_runnable_def)
  show thesis
  proof (rule find_node_total [OF D(2,1), of tid])
    assume "find_node tid s = Some (Inl (-2))"
    then have "tcb_pool_make_runnable tid s = Some (-2, s)" by (simp add: tcb_pool_make_runnable_def)
    then show thesis using that [of _ s Q] same ok by fastforce
  next
    fix n t assume n: "n \<in> members Q" "find_node tid s = Some (Inr (n, data (s_heap s) n))" and tn: "tcbs s (data (s_heap s) n) = Some t"
      and same_tid: "find_node tid = find_node (t_tid t)"
    let ?p = "data (s_heap s) n"
    obtain k where k: "n \<in> set (Q k)" using n(1) by (auto simp: members_def)
    have "fits_pool k (t_status t) \<and> status_at s n = t_status t" by (rule memberE [OF ok k]) (use tn in simp)
    then have t: "tcbs s ?p = Some t" "fits_pool k (t_status t)" "status_at s n = t_status t" using tn by simp_all
    show thesis
    proof (cases "t_status t = RUNNABLE")
      case True
      then have "tcb_pool_make_runnable tid s = Some (-4, s)" using n(2) t(1) by (simp add: tcb_pool_make_runnable_def)
      then show thesis using that [of _ s Q] same ok by fastforce
    next
      case False
      then have wt: "t_status t = WAITING" using w n(2) t(1) by (simp add: wakeable_def)
      then have "n \<in> set (Q Wait)" using k t(2) by (cases k) auto
      then obtain xs ys where q: "Q Wait = xs @ n # ys" by (meson split_list)
      let ?Q = "Q(Wait := xs @ ys, Run := Q Run @ [n])"
      obtain s' where s': "scheduler_make_runnable (t_tid t) s = Some (0, s')" "sched_at d s' ?Q"
        "cur_tcb s' = cur_tcb s" "num_ticks s' = num_ticks s" "data (s_heap s') = data (s_heap s)" "tcbs s' = (tcbs s)(?p \<mapsto> t\<lparr>t_status := RUNNABLE\<rparr>)" "idle_tcb s' = idle_tcb s" "thr_pool s' = thr_pool s" "pcbs s' = pcbs s"
        by (rule make_runnable_ok [OF ok q _ t(1)]) auto
      have "wakeable x s'" if "wakeable x s" for x
      proof -
        have "find_node x s' = find_node x s" unfolding find_node_eq [OF ok] find_node_eq [OF s'(2)] s'(5,8) ..
        then show ?thesis using that by (auto simp: wakeable_def s'(6) split: option.splits sum.splits)
      qed
      have "scheduler_make_runnable tid s = scheduler_make_runnable (t_tid t) s"
        unfolding scheduler_make_runnable_def tcb_pool_make_runnable_def tcb_pool_find_tcb_def same_tid ..
      moreover note \<open>\<And>x. wakeable x s \<Longrightarrow> wakeable x s'\<close>
      moreover have "runs s' ?Q m" if "runs s Q m" for m
      proof -
        have m: "m \<in> set (Q Run)" "data (s_heap s) m = cur_tcb s" "status_at s m = RUNNING" using that by (simp_all add: runs_def)
        then have "m \<noteq> n" using t(3) wt by auto
        then have "status_at s' m = status_at s m" using at_updated(1) [OF D(2) n(1) membersI [of m Q Run] s'(5,6)] m(1) by simp
        then show ?thesis using m s'(3,5) by (simp add: runs_def)
      qed
      ultimately show thesis using that [of 0 s' ?Q] s' q by auto
    qed
  qed
qed

lemma wakeable_locked [simp]: "wakeable t (sched_locked s) = wakeable t s" "wakeable t (sched_unlocked s) = wakeable t s"
proof -
  have l: "find_node t (sched_locked s) = find_node t s" "find_node t (sched_unlocked s) = find_node t s"
    by (simp_all add: find_node_def sched_locked_def sched_unlocked_def cong: if_cong)
  show "wakeable t (sched_locked s) = wakeable t s" "wakeable t (sched_unlocked s) = wakeable t s"
    unfolding wakeable_def l locked_same by (rule refl)+
qed

lemma wake_safe_ok:
  assumes "sched_at d s Q" "wakeable tid s"
  obtains r s' Q' where "scheduler_make_runnable_safe tid s = Some (r, s')" "sched_at d s' Q'" "cur_tcb s' = cur_tcb s" "num_ticks s' = num_ticks s"
    "idle_tcb s' = idle_tcb s" "\<forall>n. runs s Q n \<longrightarrow> runs s' Q' n" "\<forall>t. wakeable t s \<longrightarrow> wakeable t s'" "thr_pool s' = thr_pool s" "pcbs s' = pcbs s"
proof -
  have "sched_at d (sched_locked s) Q" "wakeable tid (sched_locked s)" using assms by simp_all
  then obtain r s' Q' where s': "scheduler_make_runnable tid (sched_locked s) = Some (r, s')" "sched_at d s' Q'" "cur_tcb s' = cur_tcb (sched_locked s)"
    "num_ticks s' = num_ticks (sched_locked s)" "idle_tcb s' = idle_tcb (sched_locked s)" "\<forall>n. runs (sched_locked s) Q n \<longrightarrow> runs s' Q' n"
    "\<forall>t. wakeable t (sched_locked s) \<longrightarrow> wakeable t s'" "thr_pool s' = thr_pool (sched_locked s)" "pcbs s' = pcbs (sched_locked s)"
    by (rule wake_ok) blast
  then show thesis using that [of r "sched_unlocked s'" Q'] with_sched_lock_eq [of "scheduler_make_runnable tid", OF s'(1)]
    by (simp add: scheduler_make_runnable_safe_def)
qed

subsection \<open>Vanishing\<close>

text \<open>The thread that a signal on the semaphore of the zombies wakes.\<close>

definition reaper_wakeable :: "sched \<Rightarrow> bool" where
  "reaper_wakeable s \<longleftrightarrow> s_count (zombies_sem (thr_pool s)) < 0 \<longrightarrow>
     (case s_q (zombies_sem (thr_pool s)) of [] \<Rightarrow> True | t # _ \<Rightarrow> wakeable t s)"

lemma sched_at_sem:
  assumes "sched_at d s Q" "s_m z = free_mutex"
  shows "sched_at d (s\<lparr>thr_pool := (thr_pool s)\<lparr>zombies_sem := z\<rparr>\<rparr>) Q"
proof -
  let ?s = "s\<lparr>thr_pool := (thr_pool s)\<lparr>zombies_sem := z\<rparr>\<rparr>"
  have p: "pool_at (thr_pool ?s) = pool_at (thr_pool s)" by (rule ext) (case_tac x; simp)
  have e: "status_at ?s = status_at s" "wake_at ?s = wake_at s" by (simp_all add: status_at_def wake_at_def fun_eq_iff)
  have "on_pools (thr_pool ?s) (s_heap ?s) Q = on_pools (thr_pool s) (s_heap s) Q" unfolding on_pools_def p by simp
  with assms e show ?thesis by (simp add: sched_at_def registered_def node_ok_def statuses_ok_def sleepers_ok_def others_ok_def)
qed

lemma sem_signal_free:
  assumes "s_m z = free_mutex"
  obtains z' where "sem_signal st tid (Some z) = Some (if s_count z < 0 then (case s_q z of [] \<Rightarrow> None | t # _ \<Rightarrow> Some t) else None, Some z')" "s_m z' = free_mutex"
proof -
  have "\<exists>z'. sem_signal st tid (Some z) = Some (if s_count z < 0 then (case s_q z of [] \<Rightarrow> None | t # _ \<Rightarrow> Some t) else None, Some z') \<and> s_m z' = free_mutex"
    using assms by (cases st; cases "s_q z"; cases "s_count z < 0") (simp_all add: sem_signal_def Let_def)
  then show thesis using that by blast
qed

lemma signal_reaper_ok:
  assumes ok: "sched_at d s Q" and w: "reaper_wakeable s"
  obtains s' Q' where "signal_reaper s = Some s'" "sched_at d s' Q'" "cur_tcb s' = cur_tcb s" "num_ticks s' = num_ticks s"
    "idle_tcb s' = idle_tcb s" "\<forall>n. runs s Q n \<longrightarrow> runs s' Q' n"
proof -
  have "s_m (zombies_sem (thr_pool s)) = free_mutex" using sched_okD(5) [OF ok] by (simp add: others_ok_def)
  then obtain z where z: "sem_signal (started s) (my_tid s) (Some (zombies_sem (thr_pool s))) =
      Some (if s_count (zombies_sem (thr_pool s)) < 0 then (case s_q (zombies_sem (thr_pool s)) of [] \<Rightarrow> None | t # _ \<Rightarrow> Some t) else None, Some z)" "s_m z = free_mutex"
    by (rule sem_signal_free)
  let ?s = "s\<lparr>thr_pool := (thr_pool s)\<lparr>zombies_sem := z\<rparr>\<rparr>"
  have ok1: "sched_at d ?s Q" by (rule sched_at_sem [OF ok z(2)])
  have "status_at ?s = status_at s" by (simp add: status_at_def fun_eq_iff)
  then have r: "runs s Q n \<Longrightarrow> runs ?s Q n" for n by (simp add: runs_def)
  show thesis
  proof (cases "s_count (zombies_sem (thr_pool s)) < 0 \<and> s_q (zombies_sem (thr_pool s)) \<noteq> []")
    case False
    then have "signal_reaper s = Some ?s" using z(1) by (auto simp: signal_reaper_def split: list.splits)
    then show thesis using that ok1 r by simp
  next
    case True
    then obtain t q where t: "s_q (zombies_sem (thr_pool s)) = t # q" by (meson neq_Nil_conv)
    then have "wakeable t s" using w True by (simp add: reaper_wakeable_def)
    have f: "find_node t ?s = find_node t s" "tcbs ?s = tcbs s" by (simp_all add: find_node_def cong: if_cong)
    have "wakeable t ?s" using \<open>wakeable t s\<close> unfolding wakeable_def f .
    then obtain c s' Q' where s': "scheduler_make_runnable_safe t ?s = Some (c, s')" "sched_at d s' Q'" "cur_tcb s' = cur_tcb ?s" "num_ticks s' = num_ticks ?s"
      "idle_tcb s' = idle_tcb ?s" "\<forall>n. runs ?s Q n \<longrightarrow> runs s' Q' n" by (rule wake_safe_ok [OF ok1]) blast
    have "signal_reaper s = Some s'" using z(1) True t s'(1) by (simp add: signal_reaper_def)
    then show thesis using that s' r by simp
  qed
qed

lemma zombie_ok:
  assumes ok: "sched_at d s Q" and n: "runs s Q n" and w: "reaper_wakeable s"
  obtains s' Q' xs ys where "scheduler_make_current_zombie s = Some (0, s')" "Q' Run = xs @ n # ys"
    "sched_at d s' (Q'(Run := xs @ ys, Zomb := Q' Zomb @ [n]))" "cur_tcb s' = NULL" "num_ticks s' = num_ticks s"
proof -
  obtain s1 Q1 where s1: "signal_reaper s = Some s1" "sched_at d s1 Q1" "cur_tcb s1 = cur_tcb s" "num_ticks s1 = num_ticks s" "\<forall>n. runs s Q n \<longrightarrow> runs s1 Q1 n"
    by (rule signal_reaper_ok [OF ok w]) blast
  have n1: "runs s1 Q1 n" using s1(5) n by blast
  then obtain xs ys where q: "Q1 Run = xs @ n # ys" using split_run by blast
  let ?p = "data (s_heap s1) n" and ?Q = "Q1(Run := xs @ ys, Zomb := Q1 Zomb @ [n])"
  have nr: "n \<in> set (Q1 Run)" "?p = cur_tcb s1" "status_at s1 n = RUNNING" using n1 by (simp_all add: runs_def)
  obtain t where t: "tcbs s1 ?p = Some t" "t_status t = RUNNING" by (rule memberE [OF s1(2) nr(1)]) (use nr(3) in simp)
  obtain h where h: "move_node (pool_at (thr_pool s1) Run) (pool_at (thr_pool s1) Zomb) n s1 = Some (0, s1\<lparr>s_heap := h\<rparr>)" "data h = data (s_heap s1)"
    "sched_at d (s1\<lparr>s_heap := h, tcbs := (tcbs s1)(?p \<mapsto> t\<lparr>t_status := ZOMBIE\<rparr>)\<rparr>) ?Q"
    by (rule transfer_ok [OF s1(2) q _ _ t(1), of Zomb ZOMBIE]) simp_all
  let ?s = "s1\<lparr>s_heap := h, tcbs := (tcbs s1)(?p \<mapsto> t\<lparr>t_status := ZOMBIE\<rparr>), cur_tcb := NULL\<rparr>"
  obtain a b h1 where u: "ll_unlink_node (runnable_pool (thr_pool s1)) n (s_heap s1) = Some (a, h1)" "\<not> a < 0"
    "ll_link_node_last (zombie_pool (thr_pool s1)) n h1 = Some (b, h)" "\<not> b < 0"
    using h(1) by (auto simp: move_node_def Let_def bind_eq_Some_conv split: if_splits dest!: arg_cong [of _ _ s_heap])
  have nr0: "n \<in> set (Q Run)" "data (s_heap s) n = cur_tcb s" using n by (simp_all add: runs_def)
  obtain t0 where t0: "tcbs s (data (s_heap s) n) = Some t0" "find_node (t_tid t0) s = Some (Inr (n, data (s_heap s) n))" by (rule memberE [OF ok nr0(1)]) blast
  have z: "tcb_pool_make_zombie (t_tid t0) s = Some (0, s1\<lparr>s_heap := h, tcbs := (tcbs s1)(?p \<mapsto> t\<lparr>t_status := ZOMBIE\<rparr>)\<rparr>)"
    using t0(2) s1(1,3) nr0(2) nr(2) t u by (simp add: tcb_pool_make_zombie_def unlink_from_def set_tcb_def)
  have "scheduler_make_current_zombie s = Some (0, ?s)"
    using t0(1) z nr0(2) by (simp add: scheduler_make_current_zombie_def)
  moreover have "sched_at d ?s ?Q"
  proof -
    let ?s2 = "s1\<lparr>s_heap := h, tcbs := (tcbs s1)(?p \<mapsto> t\<lparr>t_status := ZOMBIE\<rparr>)\<rparr>"
    have "status_at ?s2 m \<noteq> RUNNING" if m: "m \<in> members ?Q" for m
    proof
      assume r: "status_at ?s2 m = RUNNING"
      then have "data h m = cur_tcb s1" using sched_okD(3) [OF h(3)] m by (simp add: statuses_ok_def)
      then have "status_at ?s2 m = ZOMBIE" using nr(2) h(2) by (simp add: status_at_def)
      with r show False by simp
    qed
    moreover have "status_at ?s = status_at ?s2" "wake_at ?s = wake_at ?s2" by (simp_all add: status_at_def wake_at_def fun_eq_iff)
    ultimately show ?thesis using h(3) by (simp add: sched_at_def registered_def node_ok_def statuses_ok_def sleepers_ok_def others_ok_def)
  qed
  ultimately show thesis using that [of ?s Q1 xs ys] q s1(4) by simp
qed

text \<open>
  The threads that wait for a child or, as the reaper does, for a zombie, can be woken: they are waiting or already runnable.
\<close>

definition parents_wakeable :: "sched \<Rightarrow> bool" where
  "parents_wakeable s \<longleftrightarrow> (\<forall>pp p. pcbs s pp = Some p \<longrightarrow> (\<forall>t\<in>set (s_q (wait_sem p)). wakeable t s))"

definition waiters_wakeable :: "sched \<Rightarrow> bool" where
  "waiters_wakeable s \<longleftrightarrow> (\<forall>t\<in>set (s_q (zombies_sem (thr_pool s))). wakeable t s) \<and> parents_wakeable s"

lemma pcbs_upd [simp]:
  "sched_at d (s\<lparr>pcbs := f\<rparr>) Q = sched_at d s Q" "wakeable t (s\<lparr>pcbs := f\<rparr>) = wakeable t s" "runs (s\<lparr>pcbs := f\<rparr>) Q n = runs s Q n"
proof -
  have e: "status_at (s\<lparr>pcbs := f\<rparr>) = status_at s" "wake_at (s\<lparr>pcbs := f\<rparr>) = wake_at s" by (simp_all add: status_at_def wake_at_def fun_eq_iff)
  show "sched_at d (s\<lparr>pcbs := f\<rparr>) Q = sched_at d s Q"
    by (simp add: sched_at_def registered_def node_ok_def statuses_ok_def sleepers_ok_def others_ok_def e)
  show "runs (s\<lparr>pcbs := f\<rparr>) Q n = runs s Q n" by (simp add: runs_def e)
  have f: "find_node t (s\<lparr>pcbs := f\<rparr>) = find_node t s" "tcbs (s\<lparr>pcbs := f\<rparr>) = tcbs s" by (simp_all add: find_node_def cong: if_cong)
  show "wakeable t (s\<lparr>pcbs := f\<rparr>) = wakeable t s" unfolding wakeable_def f ..
qed

text \<open>What reporting the end of a process to another one leaves of the scheduler.\<close>

definition keeps_running :: "sched \<Rightarrow> pools \<Rightarrow> sched \<Rightarrow> bool" where
  "keeps_running s Q s' \<longleftrightarrow> (\<exists>Q'. sched_ok s' Q' \<and> (\<forall>n. runs s Q n \<longrightarrow> runs s' Q' n)) \<and> cur_tcb s' = cur_tcb s \<and> idle_tcb s' = idle_tcb s \<and>
     num_ticks s' = num_ticks s \<and> thr_pool s' = thr_pool s \<and> (\<forall>t. wakeable t s \<longrightarrow> wakeable t s')"

lemma keeps_pcbs: "sched_ok s Q \<Longrightarrow> keeps_running s Q (s\<lparr>pcbs := f\<rparr>)"
  by (auto simp: keeps_running_def)

lemma keeps_trans:
  assumes "keeps_running s Q s'" "\<And>Q'. sched_ok s' Q' \<Longrightarrow> keeps_running s' Q' s''"
  shows "keeps_running s Q s''"
proof -
  obtain Q' where 1: "sched_ok s' Q'" "\<forall>n. runs s Q n \<longrightarrow> runs s' Q' n" using assms(1) by (auto simp: keeps_running_def)
  then show ?thesis using assms(1) assms(2) [OF 1(1)] by (auto simp: keeps_running_def)
qed

lemma keeps_ok: "keeps_running s Q s' \<Longrightarrow> \<exists>Q'. sched_ok s' Q'"
  by (auto simp: keeps_running_def)

lemma on_pcb_pcbs:
  assumes "on_pcb f pp s = Some (r, s')"
  obtains g where "s' = s\<lparr>pcbs := g\<rparr>"
proof -
  have "\<exists>g. s' = s\<lparr>pcbs := g\<rparr>" using assms
    by (auto simp: on_pcb_def bind_eq_Some_conv split: if_splits option.splits intro: exI [of _ "pcbs s"])
  then show thesis using that by blast
qed

lemma on_pcbE:
  assumes "on_pcb f pp s = Some (r, s')"
  obtains (null) p' where "f None = Some (r, p')" | (live) p p' where "pcbs s pp = Some p" "f (Some p) = Some (r, p')"
  using assms by (auto simp: on_pcb_def bind_eq_Some_conv split: if_splits)

lemma keeps_on_pcb: "on_pcb f pp s = Some (r, s') \<Longrightarrow> sched_ok s Q \<Longrightarrow> keeps_running s Q s'"
  using keeps_pcbs by (metis on_pcb_pcbs)

lemma keeps_wake:
  assumes "thr_make_runnable t s = Some (r, s')" "sched_ok s Q" "wakeable t s"
  shows "keeps_running s Q s'"
proof -
  obtain c s1 Q' where "scheduler_make_runnable_safe t s = Some (c, s1)" "sched_ok s1 Q'" "cur_tcb s1 = cur_tcb s" "num_ticks s1 = num_ticks s"
    "idle_tcb s1 = idle_tcb s" "\<forall>n. runs s Q n \<longrightarrow> runs s1 Q' n" "\<forall>t. wakeable t s \<longrightarrow> wakeable t s1" "thr_pool s1 = thr_pool s"
    by (rule wake_safe_ok [OF assms(2,3)]) blast
  moreover from this assms(1) have "s' = s1" by (simp add: thr_make_runnable_def)
  ultimately show ?thesis by (auto simp: keeps_running_def)
qed

text \<open>The thread that a signal wakes is one of the queue.\<close>

lemma signal_wakes:
  assumes "pcb_signal_status st mem tid (Some p) status orig = Some ((r, Some w), p')"
  shows "w \<in> set (s_q (wait_sem p))"
  using assms by (auto simp: pcb_signal_status_def sem_signal_def Let_def bind_eq_Some_conv split: option.splits if_splits list.splits)

lemma keeps_signal_status:
  assumes "signal_status mem pp st orig s = Some s'" "sched_ok s Q"
    and w: "parents_wakeable s"
  shows "keeps_running s Q s'"
proof -
  obtain r x s1 where s1: "on_pcb (\<lambda>p. pcb_signal_status (started s) mem (my_tid s) p st orig) pp s = Some ((r, x), s1)"
    "(case x of None \<Rightarrow> Some s1 | Some t \<Rightarrow> do { (_, s) \<leftarrow> thr_make_runnable t s1; Some s }) = Some s'"
    using assms(1) by (auto simp: signal_status_def bind_eq_Some_conv)
  have k: "keeps_running s Q s1" by (rule keeps_on_pcb [OF s1(1) assms(2)])
  show ?thesis
  proof (cases x)
    case None
    then show ?thesis using s1(2) k by simp
  next
    case (Some t)
    then obtain c where c: "thr_make_runnable t s1 = Some (c, s')" using s1(2) by (auto simp: bind_eq_Some_conv)
    have "wakeable t s"
    proof (rule on_pcbE [OF s1(1)])
      show "wakeable t s" if "pcb_signal_status (started s) mem (my_tid s) None st orig = Some ((r, x), p')" for p'
        using that Some by (simp add: pcb_signal_status_def)
      show "wakeable t s" if "pcbs s pp = Some p" "pcb_signal_status (started s) mem (my_tid s) (Some p) st orig = Some ((r, x), p')" for p p'
        using w that(1) signal_wakes that(2) Some unfolding parents_wakeable_def by blast
    qed
    then have "wakeable t s1" using k by (simp add: keeps_running_def)
    then show ?thesis using keeps_trans [OF k] keeps_wake [OF c] by blast
  qed
qed

lemma parents_on_pcb:
  assumes "on_pcb f pp s = Some (r, s')" "parents_wakeable s"
    and f: "\<And>p r p'. f (Some p) = Some (r, Some p') \<Longrightarrow> wait_sem p' = wait_sem p" "\<And>r p'. f None = Some (r, p') \<Longrightarrow> p' = None"
  shows "parents_wakeable s'"
proof -
  obtain q p' where q: "f q = Some (r, p')" "q = None \<or> q = pcbs s pp" "s' = (case p' of None \<Rightarrow> s | Some p \<Rightarrow> s\<lparr>pcbs := (pcbs s)(pp \<mapsto> p)\<rparr>)"
    using assms(1) by (auto simp: on_pcb_def bind_eq_Some_conv split: if_splits)
  show ?thesis
  proof (cases p')
    case None
    then show ?thesis using q(3) assms(2) by simp
  next
    case (Some p)
    obtain x where x: "pcbs s pp = Some x" "wait_sem p = wait_sem x"
    proof (cases q)
      case None
      then show thesis using q(1) Some f(2) by blast
    next
      case (Some y)
      then have "f (Some y) = Some (r, Some p)" "pcbs s pp = Some y" using q(1,2) \<open>p' = Some p\<close> by auto
      then show thesis using that f(1) by blast
    qed
    have "wakeable t s'" if "pcbs s' a = Some y" "t \<in> set (s_q (wait_sem y))" for a y t
      using assms(2) that x q(3) Some by (auto simp: parents_wakeable_def split: if_splits)
    then show ?thesis by (simp add: parents_wakeable_def)
  qed
qed

lemma keeps_last_reports:
  assumes "last_thread_reports mem cp tp st orig s = Some s'" "sched_ok s Q" "parents_wakeable s"
  shows "keeps_running s Q s'"
proof -
  obtain n s1 where s1: "on_pcb (pcb_dec_threads_s (started s) (my_tid s)) cp s = Some (n, s1)"
    "(if n = 0 then signal_status mem tp st orig s1 else Some s1) = Some s'"
    using assms(1) by (auto simp: last_thread_reports_def bind_eq_Some_conv)
  have k: "keeps_running s Q s1" by (rule keeps_on_pcb [OF s1(1) assms(2)])
  have "parents_wakeable s1"
    by (rule parents_on_pcb [OF s1(1) assms(3)]) (auto simp: pcb_dec_threads_s_def bind_eq_Some_conv Let_def)
  then show ?thesis using keeps_trans [OF k] keeps_signal_status s1(2) k by (metis option.inject)
qed

lemma keeps_report_exit:
  assumes "report_exit mem cp st s = Some s'" "sched_ok s Q" "parents_wakeable s"
  shows "keeps_running s Q s'"
proof -
  consider (init) orig where "report_to_init mem cp st orig s = Some s'" | (parent) pa orig where "report_to_parent mem cp pa st orig s = Some s'"
    using assms(1) by (auto simp: report_exit_def bind_eq_Some_conv split: if_splits)
  then show ?thesis
  proof cases
    case init
    then obtain ip c s1 where s1: "on_pcb (pcb_inc_children_s (started s) (my_tid s)) ip s = Some (c, s1)" "last_thread_reports mem cp ip st orig s1 = Some s'"
      by (auto simp: report_to_init_def bind_eq_Some_conv)
    have "parents_wakeable s1"
      by (rule parents_on_pcb [OF s1(1) assms(3)]) (auto simp: pcb_inc_children_s_def bind_eq_Some_conv Let_def)
    then show ?thesis using keeps_trans [OF keeps_on_pcb [OF s1(1) assms(2)]] keeps_last_reports [OF s1(2)] by blast
  next
    case parent
    then obtain q mu s2 where s2: "pcbs s pa = Some q" "last_thread_reports mem cp pa st orig (s\<lparr>pcbs := (pcbs s)(pa \<mapsto> q\<lparr>pcb_m := mu\<rparr>)\<rparr>) = Some s2"
      "\<exists>g. s' = s2\<lparr>pcbs := g\<rparr>"
      by (auto simp: report_to_parent_def bind_eq_Some_conv)
    let ?s1 = "s\<lparr>pcbs := (pcbs s)(pa \<mapsto> q\<lparr>pcb_m := mu\<rparr>)\<rparr>"
    have "parents_wakeable ?s1" using assms(3) s2(1) by (auto simp: parents_wakeable_def)
    then have "keeps_running s Q s2" using keeps_trans [OF keeps_pcbs [OF assms(2)]] keeps_last_reports [OF s2(2)] by blast
    then show ?thesis using keeps_trans keeps_pcbs s2(3) by blast
  qed
qed

lemma zombie_step:
  assumes ok: "sched_ok s Q" and n: "runs s Q n" and w: "\<forall>t\<in>set (s_q (zombies_sem (thr_pool s))). wakeable t s"
  obtains e s1 s' Q' where "scheduler_make_current_zombie_safe s = Some (0, s1)" "thr_yield esp (-1) s1 = Some (Resumes e, s')" "scheduled s' Q'"
    "n \<in> set (Q' Zomb)" "num_ticks s' = num_ticks s"
proof -
  have "sched_ok (sched_locked s) Q" "runs (sched_locked s) Q n" using ok n by simp_all
  moreover have "reaper_wakeable (sched_locked s)" using w by (auto simp: reaper_wakeable_def split: list.split)
  ultimately obtain s1 Q1 xs ys where s1: "scheduler_make_current_zombie (sched_locked s) = Some (0, s1)" "Q1 Run = xs @ n # ys"
    "sched_ok s1 (Q1(Run := xs @ ys, Zomb := Q1 Zomb @ [n]))" "num_ticks s1 = num_ticks (sched_locked s)"
    by (rule zombie_ok) blast
  let ?Q = "Q1(Run := xs @ ys, Zomb := Q1 Zomb @ [n])"
  have ok1: "sched_ok (sched_unlocked s1) ?Q" using s1(3) by simp
  obtain e s' where "thr_yield esp (-1) (sched_unlocked s1) = Some (Resumes e, s')" "scheduled s' (?Q(Run := rotate1 (?Q Run)))"
    "num_ticks s' = num_ticks (sched_unlocked s1)"
    by (rule yield_any_ok [OF ok1, of esp]) blast
  then show thesis using that [of "sched_unlocked s1" e s'] s1(4) with_sched_lock_eq [of scheduler_make_current_zombie, OF s1(1)]
    by (simp add: scheduler_make_current_zombie_safe_def)
qed

subsection \<open>The kernel as a transition system\<close>

text \<open>
  The tick of the timer, and the system calls of the current thread that concern the scheduler. The idle thread makes none. A thread that
  is woken has to be \<open>wakeable\<close>, directly or through the semaphores on which a vanishing thread reports.
\<close>

inductive kernel_step :: "sched \<Rightarrow> sched \<Rightarrow> bool" where
  tick: "c_timer_handler esp s = Some (e, s') \<Longrightarrow> kernel_step s s'"
| yield: "thr_yield esp tid s = Some (out, s') \<Longrightarrow> kernel_step s s'"
| block: "cur_tcb s \<noteq> idle_tcb s \<Longrightarrow> thr_deschedule esp reject m s = Some (out, m', s') \<Longrightarrow> kernel_step s s'"
| sleep: "cur_tcb s \<noteq> idle_tcb s \<Longrightarrow> thr_sleep esp ticks s = Some (out, s') \<Longrightarrow> kernel_step s s'"
| wake: "wakeable tid s \<Longrightarrow> thr_make_runnable tid s = Some (r, s') \<Longrightarrow> kernel_step s s'"
| vanish: "cur_tcb s \<noteq> idle_tcb s \<Longrightarrow> waiters_wakeable s \<Longrightarrow> thr_vanish mem s = Some (e, s') \<Longrightarrow> kernel_step s s'"

inductive_cases kernel_stepE: "kernel_step s s'"

definition sched_inv :: "sched \<Rightarrow> bool" where
  "sched_inv s \<longleftrightarrow> (\<exists>Q. scheduled s Q)"

lemma running_member: "scheduled s Q \<Longrightarrow> cur_tcb s \<noteq> idle_tcb s \<Longrightarrow> \<exists>n xs ys. runs s Q n \<and> Q Run = xs @ n # ys"
  using split_run by (fastforce simp: scheduled_def)

lemma inv_yield: "thr_yield esp tid s = Some (out, s') \<Longrightarrow> scheduled s Q \<Longrightarrow> sched_inv s'"
proof (cases "0 \<le> tid")
  case True
  assume y: "thr_yield esp tid s = Some (out, s')" and ok: "scheduled s Q"
  show ?thesis by (rule yield_to_ok [OF ok True, of esp]) (use y ok in \<open>auto simp: sched_inv_def\<close>)
next
  case False
  assume y: "thr_yield esp tid s = Some (out, s')" and ok: "scheduled s Q"
  have "thr_yield esp tid s = thr_yield esp (-1) s" using False by (simp add: thr_yield_def context_switch_safe_def context_switch_def)
  moreover have "sched_ok s Q" using ok by (simp add: scheduled_def)
  then obtain e s1 where "thr_yield esp (-1) s = Some (Resumes e, s1)" "scheduled s1 (Q(Run := rotate1 (Q Run)))" by (rule yield_any_ok) blast
  ultimately show ?thesis using y by (auto simp: sched_inv_def)
qed

lemma inv_tick: "c_timer_handler esp s = Some (e, s') \<Longrightarrow> scheduled s Q \<Longrightarrow> sched_inv s'"
proof -
  assume c: "c_timer_handler esp s = Some (e, s')" and "scheduled s Q"
  then have ok: "sched_ok s Q" by (simp add: scheduled_def)
  have t: "num_ticks s + 1 < 2 ^ 31" using c by (auto simp: c_timer_handler_def c_assert_def bind_eq_Some_conv split: if_splits)
  show ?thesis by (rule timer_ok [OF ok t, of esp]) (use c in \<open>auto simp: sched_inv_def\<close>)
qed

lemma inv_deschedule: "thr_deschedule esp reject m s = Some (out, m', s') \<Longrightarrow> scheduled s Q \<Longrightarrow> cur_tcb s \<noteq> idle_tcb s \<Longrightarrow> sched_inv s'"
proof -
  assume d: "thr_deschedule esp reject m s = Some (out, m', s')" and sch: "scheduled s Q" and i: "cur_tcb s \<noteq> idle_tcb s"
  obtain n xs ys where n: "runs s Q n" "Q Run = xs @ n # ys" using running_member [OF sch i] by blast
  have ok: "sched_ok s Q" using sch by (simp add: scheduled_def)
  obtain e s1 s2 where b: "scheduler_deschedule_current_safe s = Some (0, s1)" "thr_yield esp (-1) s1 = Some (Resumes e, s2)"
    "scheduled s2 (Q(Run := rotate1 (xs @ ys), Wait := Q Wait @ [n]))" by (rule block_step [OF ok n]) blast
  have "s' = s \<or> s' = s2" using d b(1,2)
    by (auto simp: thr_deschedule_def scheduler_get_current_tcb_def bind_eq_Some_conv split: if_splits)
  then show ?thesis using sch b(3) by (auto simp: sched_inv_def)
qed

lemma inv_sleep: "thr_sleep esp ticks s = Some (out, s') \<Longrightarrow> scheduled s Q \<Longrightarrow> cur_tcb s \<noteq> idle_tcb s \<Longrightarrow> sched_inv s'"
proof -
  assume d: "thr_sleep esp ticks s = Some (out, s')" and sch: "scheduled s Q" and i: "cur_tcb s \<noteq> idle_tcb s"
  obtain n xs ys where n: "runs s Q n" "Q Run = xs @ n # ys" using running_member [OF sch i] by blast
  have ok: "sched_ok s Q" using sch by (simp add: scheduled_def)
  have r: "n \<in> set (Q Run)" "data (s_heap s) n = cur_tcb s" "status_at s n = RUNNING" using n(1) by (simp_all add: runs_def)
  obtain u where u: "tcbs s (cur_tcb s) = Some u" "t_status u = RUNNING" by (rule memberE [OF ok r(1)]) (use r(2,3) in simp)
  consider "ticks < 0" | "ticks = 0" | "0 < ticks" by linarith
  then show ?thesis
  proof cases
    case 1
    then have "s' = sched_unlocked (sched_locked s)" using d
      by (simp add: thr_sleep_def scheduler_make_current_sleeping_safe_def with_sched_lock_def scheduler_make_current_sleeping_def)
    then show ?thesis using sch by (auto simp: sched_inv_def scheduled_def)
  next
    case 2
    let ?s = "sched_unlocked (sched_locked s)"
    have "\<exists>o'. thr_yield esp (-1) ?s = Some (o', s')" using d 2
      by (auto simp: thr_sleep_def scheduler_make_current_sleeping_safe_def with_sched_lock_def scheduler_make_current_sleeping_def bind_eq_Some_conv)
    moreover have "scheduled ?s Q" using sch by (simp add: scheduled_def)
    ultimately show ?thesis using inv_yield by blast
  next
    case 3
    have "num_ticks s + ticks < 2 ^ 31" using d 3 u
      by (auto simp: thr_sleep_def scheduler_make_current_sleeping_safe_def with_sched_lock_def scheduler_make_current_sleeping_def
          set_tcb_def c_assert_def bind_eq_Some_conv split: if_splits)
    then obtain e s2 us vs where "thr_sleep esp ticks s = Some (Resumes e, s2)" "scheduled s2 (Q(Run := rotate1 (xs @ ys), Sleep := us @ n # vs))"
      by (rule sleep_step [OF ok n 3]) blast
    then show ?thesis using d by (auto simp: sched_inv_def)
  qed
qed

lemma inv_wake: "thr_make_runnable tid s = Some (r, s') \<Longrightarrow> scheduled s Q \<Longrightarrow> wakeable tid s \<Longrightarrow> sched_inv s'"
proof -
  assume m: "thr_make_runnable tid s = Some (r, s')" and sch: "scheduled s Q" and w: "wakeable tid s"
  have "sched_ok s Q" using sch by (simp add: scheduled_def)
  then have "keeps_running s Q s'" by (rule keeps_wake [OF m _ w])
  then show ?thesis using sch unfolding keeps_running_def scheduled_def sched_inv_def by metis
qed

lemma not_returned: "(case out of Returns _ \<Rightarrow> None | Resumes e \<Rightarrow> Some (e, s)) = Some (e', s') \<Longrightarrow> (out = Resumes e' \<Longrightarrow> s = s' \<Longrightarrow> thesis) \<Longrightarrow> thesis"
  by (cases out) auto

lemma inv_vanish: "thr_vanish mem s = Some (e, s') \<Longrightarrow> scheduled s Q \<Longrightarrow> cur_tcb s \<noteq> idle_tcb s \<Longrightarrow> waiters_wakeable s \<Longrightarrow> sched_inv s'"
proof -
  assume v: "thr_vanish mem s = Some (e, s')" and sch: "scheduled s Q" and i: "cur_tcb s \<noteq> idle_tcb s" and w: "waiters_wakeable s"
  obtain n where n: "runs s Q n" using running_member [OF sch i] by blast
  have ok: "sched_ok s Q" using sch by (simp add: scheduled_def)
  obtain cp st s1 r s2 where s: "report_exit mem cp st s = Some s1" "scheduler_make_current_zombie_safe s1 = Some (r, s2)"
    "thr_yield 0 (-1) s2 = Some (Resumes e, s')"
    using v by (auto simp: thr_vanish_def Let_def bind_eq_Some_conv tcb_get_exit_status_def tcb_get_pcb_def elim!: not_returned)
  have "keeps_running s Q s1" by (rule keeps_report_exit [OF s(1) ok]) (use w in \<open>simp add: waiters_wakeable_def\<close>)
  then obtain Q1 where k: "sched_ok s1 Q1" "runs s1 Q1 n" "thr_pool s1 = thr_pool s" "\<forall>t. wakeable t s \<longrightarrow> wakeable t s1"
    using n by (auto simp: keeps_running_def)
  have "\<forall>t\<in>set (s_q (zombies_sem (thr_pool s1))). wakeable t s1" using w k(3,4) by (simp add: waiters_wakeable_def)
  then obtain e' s3 s4 Q' where "scheduler_make_current_zombie_safe s1 = Some (0, s3)" "thr_yield 0 (-1) s3 = Some (Resumes e', s4)" "scheduled s4 Q'"
    by (rule zombie_step [OF k(1,2), of 0]) blast
  then show ?thesis using s(2,3) by (auto simp: sched_inv_def)
qed

interpretation kst: step_invariant kernel_step sched_inv
proof
  fix s s' assume "kernel_step s s'" "sched_inv s"
  then show "sched_inv s'"
    by (auto simp: sched_inv_def [of s] elim!: kernel_stepE intro: inv_tick inv_yield inv_deschedule inv_sleep inv_wake inv_vanish)
qed

text \<open>The timer alone.\<close>

fun ticks :: "u32 list \<Rightarrow> sched \<Rightarrow> sched option" where
  "ticks [] s = Some s"
| "ticks (esp # es) s = do { (_, s) \<leftarrow> c_timer_handler esp s; ticks es s }"

lemma current_runs:
  assumes "scheduled s Q" "n \<in> set (Q Run)" "data (s_heap s) n = cur_tcb s"
  shows "runs s Q n"
proof -
  note D = sched_okD [of 1 s Q]
  have ok: "sched_ok s Q" using assms(1) by (simp add: scheduled_def)
  have m: "n \<in> members Q" using assms(2) by (rule membersI)
  moreover have "idle_tcb s \<notin> data (s_heap s) ` members Q" using D(5) [OF ok] by (simp add: others_ok_def)
  ultimately have "cur_tcb s \<noteq> idle_tcb s" using assms(3) by (metis imageI)
  then obtain r where r: "runs s Q r" using assms(1) by (auto simp: scheduled_def)
  then have "r \<in> members Q" "data (s_heap s) r = cur_tcb s" by (auto simp: runs_def intro: membersI)
  then have "r = n" using member_inj [OF D(2) [OF ok] _ m] assms(3) by simp
  then show ?thesis using r by simp
qed

lemma ticks_Cons:
  assumes "c_timer_handler esp s = Some (e, s1)" "ticks es s1 = Some s'"
  shows "ticks (esp # es) s = Some s'"
  using assms by simp

text \<open>
  The thread at position \<open>i > 0\<close> of the runnable pool runs after \<open>i\<close> ticks: sleepers that are woken
  meanwhile are put behind it.
\<close>

lemma round_robin:
  assumes "scheduled s Q" "Q Run = xs @ n # ys" "length es = length xs" "num_ticks s + int (length es) < 2 ^ 31" "xs \<noteq> []"
  shows "\<exists>s' Q'. ticks es s = Some s' \<and> scheduled s' Q' \<and> cur_tcb s' = data (s_heap s) n \<and> (\<exists>zs. Q' Run = n # zs) \<and>
    data (s_heap s') = data (s_heap s)"
  using assms
proof (induction xs arbitrary: s Q ys es)
  case (Cons x xs)
  then obtain esp es' where es: "es = esp # es'" "length es' = length xs" by (cases es) auto
  have ok: "sched_ok s Q" using Cons.prems(1) by (simp add: scheduled_def)
  have t: "num_ticks s + 1 < 2 ^ 31" using Cons.prems(4) es(1) by simp
  obtain e s1 ds ss where s1: "c_timer_handler esp s = Some (e, s1)" "num_ticks s1 = num_ticks s + 1"
    "scheduled s1 (Q(Run := rotate1 (Q Run @ ds), Sleep := ss))" "cur_tcb s1 = next_thread s (Q Run @ ds)" "data (s_heap s1) = data (s_heap s)"
    by (rule timer_ok [OF ok t, of esp]) blast
  let ?Q = "Q(Run := rotate1 (Q Run @ ds), Sleep := ss)"
  have q: "?Q Run = xs @ n # (ys @ ds @ [x])" using Cons.prems(2) by simp
  show ?case
  proof (cases "xs = []")
    case True
    then have "cur_tcb s1 = data (s_heap s) n" using s1(4) Cons.prems(2) by (simp add: next_thread_def)
    moreover have "ticks es s = Some s1" using True es s1(1) by simp
    moreover have "?Q Run = n # ys @ ds @ [x]" using q True by simp
    ultimately show ?thesis using s1(3,5) by blast
  next
    case False
    have "num_ticks s1 + int (length es') < 2 ^ 31" using Cons.prems(4) es(1) s1(2) by simp
    from Cons.IH [OF s1(3) q es(2) this False] obtain s' Q' where "ticks es' s1 = Some s'" "scheduled s' Q'"
      "cur_tcb s' = data (s_heap s1) n" "\<exists>zs. Q' Run = n # zs" "data (s_heap s') = data (s_heap s1)" by blast
    then show ?thesis using ticks_Cons [OF s1(1)] es(1) s1(5) by auto
  qed
qed simp

lemma stays_runnable:
  assumes "scheduled s Q" "n \<in> set (Q Run)" "num_ticks s + int (length es) < 2 ^ 31"
  shows "\<exists>s' Q'. ticks es s = Some s' \<and> scheduled s' Q' \<and> num_ticks s' = num_ticks s + int (length es) \<and> n \<in> set (Q' Run)"
  using assms
proof (induction es arbitrary: s Q)
  case (Cons esp es)
  have ok: "sched_ok s Q" using Cons.prems(1) by (simp add: scheduled_def)
  have t: "num_ticks s + 1 < 2 ^ 31" using Cons.prems(3) by simp
  obtain e s1 ds ss where s1: "c_timer_handler esp s = Some (e, s1)" "num_ticks s1 = num_ticks s + 1"
    "scheduled s1 (Q(Run := rotate1 (Q Run @ ds), Sleep := ss))"
    by (rule timer_ok [OF ok t, of esp]) blast
  have "n \<in> set ((Q(Run := rotate1 (Q Run @ ds), Sleep := ss)) Run)" using Cons.prems(2) by simp
  from Cons.IH [OF s1(3) this] Cons.prems(3) s1(2) show ?case using ticks_Cons [OF s1(1)] by (auto simp: algebra_simps)
qed auto

text \<open>
  A sleeping thread stays in the sleeping pool as long as its time has not come, and is in the runnable pool from then on.
\<close>

lemma sleep_exact:
  assumes "scheduled s Q" "n \<in> set (Q Sleep)" "num_ticks s + int (length es) < 2 ^ 31"
  shows "\<exists>s' Q'. ticks es s = Some s' \<and> scheduled s' Q' \<and> num_ticks s' = num_ticks s + int (length es) \<and>
    (if num_ticks s' < int (wake_at s n) then n \<in> set (Q' Sleep) else n \<in> set (Q' Run))"
  using assms
proof (induction es arbitrary: s Q)
  case Nil
  then have "num_ticks s < int (wake_at s n)" by (auto simp: scheduled_def sched_at_def sleepers_ok_def)
  then show ?case using Nil by auto
next
  case (Cons esp es)
  have ok: "sched_ok s Q" using Cons.prems(1) by (simp add: scheduled_def)
  have t: "num_ticks s + 1 < 2 ^ 31" using Cons.prems(3) by simp
  obtain e s1 ds ss where s1: "c_timer_handler esp s = Some (e, s1)" "num_ticks s1 = num_ticks s + 1" "Q Sleep = ds @ ss"
    "\<forall>n\<in>set ds. int (wake_at s n) = num_ticks s1" "scheduled s1 (Q(Run := rotate1 (Q Run @ ds), Sleep := ss))" "wake_at s1 = wake_at s"
    by (rule timer_ok [OF ok t, of esp]) blast
  let ?Q = "Q(Run := rotate1 (Q Run @ ds), Sleep := ss)"
  have k: "num_ticks s1 + int (length es) < 2 ^ 31" using Cons.prems(3) s1(2) by simp
  show ?case
  proof (cases "n \<in> set ss")
    case True
    then have "n \<in> set (?Q Sleep)" by simp
    from Cons.IH [OF s1(5) this k] obtain s' Q' where "ticks es s1 = Some s'" "scheduled s' Q'" "num_ticks s' = num_ticks s1 + int (length es)"
      "if num_ticks s' < int (wake_at s n) then n \<in> set (Q' Sleep) else n \<in> set (Q' Run)" unfolding s1(6) by blast
    then show ?thesis using ticks_Cons [OF s1(1)] s1(2) by (intro exI [of _ s'] exI [of _ Q']) (simp del: ticks.simps)
  next
    case False
    then have "n \<in> set ds" "n \<in> set (?Q Run)" using Cons.prems(2) s1(3) by auto
    moreover have "\<exists>s' Q'. ticks es s1 = Some s' \<and> scheduled s' Q' \<and> num_ticks s' = num_ticks s1 + int (length es) \<and> n \<in> set (Q' Run)"
      by (rule stays_runnable [OF s1(5) _ k]) (use calculation in simp)
    ultimately show ?thesis using ticks_Cons [OF s1(1)] s1(2,4) by fastforce
  qed
qed

end
