(* ===== verification/KernelProps.thy ===== *)
theory KernelProps
  imports KernelSteps
begin

text \<open>
  The properties of the scheduler over the steps of the kernel, with a small concrete state on which
  each of them is used.
\<close>

subsection \<open>A concrete kernel\<close>

text \<open>
  Three threads: the current one (tid 1), a runnable one (tid 2) and one that sleeps until the second tick (tid 3); the idle thread has tid 0.
\<close>

definition ex_tcb :: "int \<Rightarrow> tstatus \<Rightarrow> u32 \<Rightarrow> u32 \<Rightarrow> tcb" where
  "ex_tcb tid st w sp = \<lparr>t_tid = tid, t_status = st, t_exit_status = 0, t_wakeup = w, t_pcb = 5000, k_stack_bot = 0, k_stack_top = 0,
     orig_k_stack = sp, tmp_k_stack = sp, k_words = [], swexn_handler = 0, swexn_handler_arg = 0, swexn_handler_esp = 0\<rparr>"

definition ex_threads :: ht where
  "ex_threads = \<lparr>ht_size = 3, ht_max_size = 1, ht_hash = tid_hash,
     ht_arr = [[\<lparr>c_node = 6001, c_entry = 7001, c_key = 1, c_val = 10\<rparr>, \<lparr>c_node = 6002, c_entry = 7002, c_key = 2, c_val = 20\<rparr>,
       \<lparr>c_node = 6003, c_entry = 7003, c_key = 3, c_val = 30\<rparr>]]\<rparr>"

definition ex_pool :: tcb_pool where
  "ex_pool = \<lparr>threads = ex_threads, processes = ex_threads\<lparr>ht_size := 0, ht_arr := [[]]\<rparr>, runnable_pool = 100, waiting_pool = 104,
     sleeping_pool = 108, zombie_pool = 112, zombies_sem = \<lparr>s_count = 0, s_m = free_mutex, s_q = []\<rparr>\<rparr>"

definition ex_lists :: heap where
  "ex_lists = \<lparr>nodes = [10 \<mapsto> \<lparr>nd_e = 1000, nd_next = 20, nd_prev = 0\<rparr>, 20 \<mapsto> \<lparr>nd_e = 2000, nd_next = 0, nd_prev = 10\<rparr>,
      30 \<mapsto> \<lparr>nd_e = 3000, nd_next = 0, nd_prev = 0\<rparr>],
    lists = [100 \<mapsto> \<lparr>l_head = 10, l_tail = 20, l_size = 2\<rparr>, 104 \<mapsto> \<lparr>l_head = 0, l_tail = 0, l_size = 0\<rparr>,
      108 \<mapsto> \<lparr>l_head = 30, l_tail = 30, l_size = 1\<rparr>, 112 \<mapsto> \<lparr>l_head = 0, l_tail = 0, l_size = 0\<rparr>], mcalls = 0\<rparr>"

definition ex_kernel :: sched where
  "ex_kernel = \<lparr>started = True, num_ticks = 0, next_tid = 4, next_pid = 2, init_pcb = 5000, idle_tcb = 4000, thr_pool = ex_pool, cur_tcb = 1000,
     sched_lock = \<lparr>sm_sched = 8000\<rparr>, intr = True, esp0 = 0, pdbr = 5000, s_heap = ex_lists,
     tcbs = [1000 \<mapsto> ex_tcb 1 RUNNING 0 900, 2000 \<mapsto> ex_tcb 2 RUNNABLE 0 901, 3000 \<mapsto> ex_tcb 3 SLEEPING 2 902, 4000 \<mapsto> ex_tcb 0 RUNNABLE 0 903],
     pcbs = Map.empty, sc_mcalls = 0\<rparr>"

fun ex_pools :: pools where
  "ex_pools Run = [10, 20]"
| "ex_pools Sleep = [30]"
| "ex_pools _ = []"

lemma all_pools: "UNIV = {Run, Wait, Sleep, Zomb}"
proof -
  have "k \<in> {Run, Wait, Sleep, Zomb}" for k by (cases k) simp_all
  then show ?thesis by blast
qed

lemma ex_members: "members ex_pools = {10, 20, 30}"
  by (simp add: members_def all_pools insert_commute)

lemma ex_on_pools: "on_pools ex_pool ex_lists ex_pools"
  unfolding on_pools_def
proof (intro conjI allI impI)
  show "holds ex_lists (pool_at ex_pool k) (ex_pools k)" for k
    by (cases k) (simp_all add: ex_pool_def ex_lists_def holds_def ll_rep_def)
  show "inj (pool_at ex_pool)" by (rule injI) (case_tac x; case_tac y; simp add: ex_pool_def)
  show "set (ex_pools j) \<inter> set (ex_pools k) = {}" if "j \<noteq> k" for j k using that by (cases j; cases k) simp_all
qed

lemma ex_ht: "ht_ok ex_threads" "ht_map ex_threads key = (if key = 1 then Some 10 else if key = 2 then Some 20 else if key = 3 then Some 30 else None)"
  by (simp_all add: ex_threads_def ht_ok_def ht_map_def ht_idx_def)

lemma ex_data: "data ex_lists 10 = 1000" "data ex_lists 20 = 2000" "data ex_lists 30 = 3000"
  by (simp_all add: ex_lists_def data_def)

lemma ex_runs: "runs ex_kernel ex_pools 10"
proof -
  have "s_heap ex_kernel = ex_lists" by (simp add: ex_kernel_def)
  then show ?thesis by (simp add: runs_def status_at_def ex_data) (simp add: ex_kernel_def ex_tcb_def)
qed

lemma ex_scheduled: "scheduled ex_kernel ex_pools"
proof -
  have k: "thr_pool ex_kernel = ex_pool" "s_heap ex_kernel = ex_lists" "threads ex_pool = ex_threads" by (simp_all add: ex_kernel_def ex_pool_def)
  have "registered ex_kernel ex_pools"
    unfolding registered_def node_ok_def k ex_members using ex_ht by (auto simp: ex_kernel_def ex_data ex_tcb_def split: if_splits)
  moreover have st: "status_at ex_kernel 10 = RUNNING" "status_at ex_kernel 20 = RUNNABLE" "status_at ex_kernel 30 = SLEEPING" "wake_at ex_kernel 30 = 2"
    by (simp_all add: status_at_def wake_at_def wakeup_at_def k ex_data) (simp_all add: ex_kernel_def ex_tcb_def)
  have "statuses_ok ex_kernel ex_pools" unfolding statuses_ok_def ex_members
  proof (intro conjI allI)
    show "\<forall>n\<in>set (ex_pools j). fits_pool j (status_at ex_kernel n)" for j by (cases j) (simp_all add: st)
    show "\<forall>n\<in>{10, 20, 30}. status_at ex_kernel n = RUNNING \<longrightarrow> data (s_heap ex_kernel) n = cur_tcb ex_kernel"
      by (simp add: st k ex_data) (simp add: ex_kernel_def)
  qed
  moreover have "sleepers_ok 1 ex_kernel (ex_pools Sleep)" by (simp add: sleepers_ok_def st) (simp add: ex_kernel_def)
  moreover have "others_ok ex_kernel ex_pools" unfolding others_ok_def ex_members k by (simp add: ex_data) (simp add: ex_kernel_def ex_pool_def)
  ultimately have "sched_ok ex_kernel ex_pools" using ex_on_pools by (simp add: sched_at_def k)
  moreover have "runs ex_kernel ex_pools 10" by (rule ex_runs)
  ultimately show ?thesis by (auto simp: scheduled_def)
qed

subsection \<open>Properties\<close>





text \<open>
  C16: Round robin without starvation. The thread at position \<open>i > 0\<close> of the runnable pool runs after exactly \<open>i\<close> ticks of the timer,
  whichever sleepers are woken in between.
\<close>

theorem round_robin_runs:
  assumes "scheduled s Q" "i < length (Q Run)" "0 < i" "length es = i" "num_ticks s + int i < 2 ^ 31"
  shows "\<exists>s' Q'. ticks es s = Some s' \<and> scheduled s' Q' \<and> cur_tcb s' = data (s_heap s) (Q Run ! i) \<and> runs s' Q' (Q Run ! i)"
proof -
  let ?n = "Q Run ! i" and ?xs = "take i (Q Run)"
  have q: "Q Run = ?xs @ ?n # drop (Suc i) (Q Run)" using assms(2) by (simp add: id_take_nth_drop)
  have l: "length es = length ?xs" "num_ticks s + int (length es) < 2 ^ 31" "?xs \<noteq> []" using assms(2-5) by auto
  obtain s' Q' zs where r: "ticks es s = Some s'" "scheduled s' Q'" "cur_tcb s' = data (s_heap s) ?n" "Q' Run = ?n # zs" "data (s_heap s') = data (s_heap s)"
    using round_robin [OF assms(1) q l] by blast
  have "?n \<in> set (Q' Run)" by (simp add: r(4))
  then have "runs s' Q' ?n" by (rule current_runs [OF r(2)]) (simp add: r(3,5))
  then show ?thesis using r by blast
qed

theorem round_robin_runs_witness:
  "\<exists>s' Q'. ticks [950] ex_kernel = Some s' \<and> scheduled s' Q' \<and> cur_tcb s' = 2000"
proof -
  have "num_ticks ex_kernel + int 1 < 2 ^ 31" by (simp add: ex_kernel_def)
  then obtain s' Q' where r: "ticks [950] ex_kernel = Some s'" "scheduled s' Q'" "cur_tcb s' = data (s_heap ex_kernel) (ex_pools Run ! 1)"
    using round_robin_runs [OF ex_scheduled, of 1 "[950]"] by auto
  have "cur_tcb s' = 2000" using r(3) by (simp add: ex_kernel_def ex_data)
  then show ?thesis using r(1,2) by blast
qed

text \<open>
  C25: Sleepers wake exactly on time. After any number of ticks a sleeping thread is still in the sleeping pool if its time of waking lies in
  the future, and in the runnable pool otherwise; and \<open>thr_sleep\<close> with \<open>k\<close> ticks sets that time to \<open>k\<close> ticks from now.
\<close>

theorem sleepers_wake_on_time:
  assumes "scheduled s Q" "runs s Q n" "0 < k" "num_ticks s + k + int (length es) < 2 ^ 31"
  shows "\<exists>e s1 s' Q'. thr_sleep esp k s = Some (Resumes e, s1) \<and> ticks es s1 = Some s' \<and> scheduled s' Q' \<and>
    (if int (length es) < k then n \<in> set (Q' Sleep) else n \<in> set (Q' Run))"
proof -
  have ok: "sched_ok s Q" using assms(1) by (simp add: scheduled_def)
  obtain xs ys where q: "Q Run = xs @ n # ys" using split_run [OF assms(2)] by blast
  have "num_ticks s + k < 2 ^ 31" using assms(4) by simp
  then obtain e s1 us vs where s1: "thr_sleep esp k s = Some (Resumes e, s1)" "scheduled s1 (Q(Run := rotate1 (xs @ ys), Sleep := us @ n # vs))"
    "num_ticks s1 = num_ticks s" "int (wake_at s1 n) = num_ticks s + k"
    by (rule sleep_step [OF ok assms(2) q assms(3)]) blast
  have "num_ticks s1 + int (length es) < 2 ^ 31" using assms(3,4) s1(3) by simp
  from sleep_exact [OF s1(2) _ this, of n] obtain s' Q' where "ticks es s1 = Some s'" "scheduled s' Q'" "num_ticks s' = num_ticks s1 + int (length es)"
    "if num_ticks s' < int (wake_at s1 n) then n \<in> set (Q' Sleep) else n \<in> set (Q' Run)" by auto
  then show ?thesis using s1 by (intro exI [of _ e] exI [of _ s1] exI [of _ s'] exI [of _ Q']) simp
qed

theorem sleepers_wake_on_time_witness:
  "\<exists>e s1 s' Q'. thr_sleep 7 2 ex_kernel = Some (Resumes e, s1) \<and> ticks [1, 2] s1 = Some s' \<and> scheduled s' Q' \<and> 10 \<in> set (Q' Run)"
proof -
  have "runs ex_kernel ex_pools 10" "num_ticks ex_kernel + 2 + int (length [1 :: u32, 2]) < 2 ^ 31" using ex_runs by (simp_all add: ex_kernel_def)
  from sleepers_wake_on_time [OF ex_scheduled this(1) _ this(2), of 7] show ?thesis by simp
qed

text \<open>
  A context switch saves and restores. The stack pointer of the thread that is left is kept in its block; the stack pointer that is returned is
  the one kept in the block of the thread that is resumed; its kernel stack and page directory are loaded, and no other block changes.
\<close>

theorem context_switch_saves_and_restores:
  assumes "scheduled s Q"
  shows "\<exists>s' t. context_switch esp (-1) s = Some (tmp_k_stack t, s') \<and> park esp s (cur_tcb s') = Some t \<and>
    cur_tcb s' = next_thread s (Q Run) \<and> tcbs s' = (park esp s)(cur_tcb s' \<mapsto> t\<lparr>t_status := RUNNING\<rparr>) \<and>
    esp0 s' = orig_k_stack t \<and> pdbr s' = t_pcb t \<and> scheduled s' (Q(Run := rotate1 (Q Run)))"
proof -
  have ok: "sched_ok s Q" using assms by (simp add: scheduled_def)
  obtain s' t where s': "park esp s (next_thread s (Q Run)) = Some t" "context_switch esp (-1) s = Some (tmp_k_stack t, s')"
    "sched_ok s' (Q(Run := rotate1 (Q Run)))" "switch_to esp (next_thread s (Q Run)) s s'"
    by (rule context_switch_ok [OF ok, of esp]) blast
  have "scheduled s' (Q(Run := rotate1 (Q Run)))"
    by (rule switched_scheduled [OF s'(3,4)]) (use next_thread_cases [of s "Q Run"] in simp)
  moreover have "cur_tcb s' = next_thread s (Q Run)" "tcbs s' = (park esp s)(cur_tcb s' \<mapsto> t\<lparr>t_status := RUNNING\<rparr>)" "esp0 s' = orig_k_stack t" "pdbr s' = t_pcb t"
    using s'(1,4) by (auto simp: switch_to_def)
  ultimately show ?thesis using s'(1,2) by (metis (no_types))
qed

theorem context_switch_saves_and_restores_witness:
  "\<exists>s' t. context_switch 950 (-1) ex_kernel = Some (901, s') \<and> cur_tcb s' = 2000 \<and> tcbs s' 1000 = Some t \<and> tmp_k_stack t = 950 \<and> t_status t = RUNNABLE"
proof -
  obtain s' t where s': "context_switch 950 (-1) ex_kernel = Some (tmp_k_stack t, s')" "park 950 ex_kernel (cur_tcb s') = Some t"
    "cur_tcb s' = next_thread ex_kernel (ex_pools Run)" "tcbs s' = (park 950 ex_kernel)(cur_tcb s' \<mapsto> t\<lparr>t_status := RUNNING\<rparr>)"
    using context_switch_saves_and_restores [OF ex_scheduled, of 950] by blast
  have c: "cur_tcb s' = 2000" using s'(3) by (simp add: next_thread_def ex_kernel_def ex_data)
  then have "tmp_k_stack t = 901" using s'(2) by (simp add: park_def ex_kernel_def ex_tcb_def) (metis tcb.select_convs(9))
  then show ?thesis using s' c by (simp add: park_def) (simp add: ex_kernel_def ex_tcb_def deferred_def)
qed

text \<open>
  Waking a running thread breaks the scheduler. In a kernel that satisfies the invariant the current thread calls make_runnable with its own tid. The call
  reports success, but the thread is unlinked from the list of sleepers, in which it is not: the size of that list drops to 0 while thread 3 is still
  linked to it, so that no later tick wakes thread 3; and the runnable thread 2 can no longer be reached from the head of the runnable list.
\<close>

theorem make_runnable_self_loses_threads:
  "scheduled ex_kernel ex_pools \<and> cur_tcb ex_kernel = 1000 \<and> (\<exists>s'. thr_make_runnable 1 ex_kernel = Some (0, s') \<and> status_at s' 30 = SLEEPING \<and>
    (\<forall>now. tcb_pool_wakeup now s' = Some (0, s')) \<and> lists (s_heap s') 100 = Some \<lparr>l_head = 10, l_tail = 10, l_size = 3\<rparr> \<and>
    (\<exists>d. nodes (s_heap s') 10 = Some d \<and> nd_next d = NULL))"
proof -
  let ?h = "ex_lists\<lparr>nodes := (nodes ex_lists)(10 \<mapsto> \<lparr>nd_e = 1000, nd_next = 0, nd_prev = 20\<rparr>, 20 \<mapsto> \<lparr>nd_e = 2000, nd_next = 10, nd_prev = 0\<rparr>),
    lists := (lists ex_lists)(100 \<mapsto> \<lparr>l_head = 10, l_tail = 10, l_size = 3\<rparr>, 108 \<mapsto> \<lparr>l_head = 30, l_tail = 30, l_size = 0\<rparr>)\<rparr>"
  have "\<exists>h1. ll_unlink_node 108 10 ex_lists = Some (0, h1) \<and> ll_link_node_last 100 10 h1 = Some (0, ?h)"
    by (simp add: ll_unlink_node_def ll_link_node_last_def ex_lists_def put_list_def set_next_def set_prev_def fun_upd_twist)
  then have mv: "move_node 108 100 10 s = Some (0, s\<lparr>s_heap := ?h\<rparr>)" if "s_heap s = ex_lists" for s :: sched
    using that by (auto simp: move_node_def)
  let ?l = "sched_locked ex_kernel"
  let ?s = "?l\<lparr>s_heap := ?h, tcbs := (tcbs ex_kernel)(1000 \<mapsto> ex_tcb 1 RUNNABLE 0 900)\<rparr>"
  have k: "thr_pool ex_kernel = ex_pool" "s_heap ex_kernel = ex_lists" "threads ex_pool = ex_threads" "tcbs ex_kernel 1000 = Some (ex_tcb 1 RUNNING 0 900)"
    "sleeping_pool ex_pool = 108" "runnable_pool ex_pool = 100" "cur_tcb ex_kernel = 1000" "tcbs ex_kernel 3000 = Some (ex_tcb 3 SLEEPING 2 902)"
    by (simp_all add: ex_kernel_def ex_pool_def)
  have n: "ll_node_get_data 10 h = Some (0, Some 1000)" if "h = ex_lists \<or> h = ?h" for h
    using that by (auto simp: ll_node_get_data_def ex_lists_def)
  have f: "find_node 1 s = Some (Inr (10, 1000))" if "thr_pool s = ex_pool" "s_heap s = ex_lists \<or> s_heap s = ?h" for s
    unfolding find_node_def that(1) k using n [OF that(2)] by (simp add: ht_get_map [OF ex_ht(1)] ex_ht(2))
  have "tcb_pool_make_runnable 1 ?l = Some (0, ?l\<lparr>s_heap := ?h\<rparr>)"
    using f [of ?l] mv [of ?l] k by (simp add: tcb_pool_make_runnable_def ex_tcb_def)
  then have "scheduler_make_runnable 1 ?l = Some (0, ?s)"
    using f [of "?l\<lparr>s_heap := ?h\<rparr>"] k by (simp add: scheduler_make_runnable_def tcb_pool_find_tcb_def set_tcb_def ex_tcb_def)
  then have "thr_make_runnable 1 ex_kernel = Some (0, sched_unlocked ?s)"
    by (simp add: thr_make_runnable_def scheduler_make_runnable_safe_def with_sched_lock_def)
  moreover have "status_at (sched_unlocked ?s) 30 = SLEEPING" using k by (simp add: status_at_def data_def ex_lists_def ex_tcb_def)
  moreover have "tcb_pool_wakeup now (sched_unlocked ?s) = Some (0, sched_unlocked ?s)" for now
    by (subst tcb_pool_wakeup.simps) (simp add: k ll_size_def)
  ultimately show ?thesis using ex_scheduled k(7) by (intro conjI exI [of _ "sched_unlocked ?s"]) simp_all
qed

end
