(* ===== verification/ThreadHandlers.thy ===== *)
theory ThreadHandlers
  imports ThrHelpers PageDirectoryCorrect
begin

text \<open>
  \<open>kern/handlers/thr_mgmt_handlers.c\<close>: the system calls on threads. The flags of the processor come from a
  header outside the repository and are the parameter \<open>fl\<close>; \<open>ums\<close> is \<open>USER_MEM_START\<close>. A \<open>ureg_t\<close> is two
  words, the cause and the faulting address, before the saved registers in the order of \<open>tcb.h\<close>.
\<close>

subsection \<open>Wrappers of the thread helpers\<close>

definition syscall_gettid_c_handler :: "sched \<Rightarrow> int option" where
  "syscall_gettid_c_handler s = thr_gettid s"

definition syscall_yield_c_handler :: "u32 \<Rightarrow> int \<Rightarrow> sched \<Rightarrow> (thr_out \<times> sched) option" where
  "syscall_yield_c_handler old_esp tid s = thr_yield old_esp tid s"

definition syscall_deschedule_c_handler :: "u32 \<Rightarrow> u32 \<Rightarrow> vmem \<Rightarrow> sched \<Rightarrow> (thr_out \<times> vmem \<times> sched) option" where
  "syscall_deschedule_c_handler old_esp reject m s = thr_deschedule old_esp reject m s"

definition syscall_make_runnable_c_handler :: "int \<Rightarrow> sched \<Rightarrow> (int \<times> sched) option" where
  "syscall_make_runnable_c_handler tid s = thr_make_runnable tid s"

definition syscall_get_ticks_c_handler :: "sched \<Rightarrow> u32" where
  "syscall_get_ticks_c_handler s = word_of_int (num_ticks s)"

definition syscall_sleep_c_handler :: "u32 \<Rightarrow> int \<Rightarrow> sched \<Rightarrow> (thr_out \<times> sched) option" where
  "syscall_sleep_c_handler old_esp k s =
     (if k < 0 then Some (Returns (-1), s) else if k = 0 then Some (Returns 0, s) else thr_sleep old_esp k s)"

subsection \<open>Software exceptions\<close>

definition check_esp_safety :: "u32 \<Rightarrow> u32 \<Rightarrow> int" where
  "check_esp_safety ums esp = (if esp < ums then 1 else 0)"

definition check_eip_safety :: "u32 \<Rightarrow> u32 \<Rightarrow> int" where
  "check_eip_safety ums eip = (if eip < ums then 1 else 0)"

record eflags =
  EFL_RESV1 :: u32
  EFL_RESV2 :: u32
  EFL_RESV3 :: u32
  EFL_IF :: u32
  EFL_IOPL_RING1 :: u32
  EFL_IOPL_RING2 :: u32
  EFL_IOPL_RING3 :: u32

definition check_eflags_safety :: "eflags \<Rightarrow> u32 \<Rightarrow> int" where
  "check_eflags_safety fl e =
     (if e AND EFL_RESV1 fl = 0 \<or> e AND EFL_RESV2 fl \<noteq> 0 \<or> e AND EFL_RESV3 fl \<noteq> 0 then 1
      else if e AND EFL_IF fl = 0 then 2
      else if e AND EFL_IOPL_RING3 fl \<noteq> 0 then 3
      else if e AND EFL_IOPL_RING2 fl \<noteq> 0 then 3
      else if e AND EFL_IOPL_RING1 fl \<noteq> 0 then 3
      else 0)"

text \<open>\<open>rd i\<close> reads the register \<open>i\<close> of the struct; an unmapped struct faults in the kernel.\<close>

definition check_ureg_safety :: "segs \<Rightarrow> eflags \<Rightarrow> u32 \<Rightarrow> (nat \<Rightarrow> u32 option) \<Rightarrow> int option" where
  "check_ureg_safety g fl ums rd = do {
     ds \<leftarrow> rd DS_IDX;
     if ds \<noteq> SEGSEL_USER_DS g then Some 2 else do {
     ss \<leftarrow> rd SS_IDX;
     if ss \<noteq> SEGSEL_USER_DS g then Some 2 else do {
     cs \<leftarrow> rd CS_IDX;
     if cs \<noteq> SEGSEL_USER_CS g then Some 2 else do {
     eip \<leftarrow> rd EIP_IDX;
     if check_eip_safety ums eip \<noteq> 0 then Some 3 else do {
     esp \<leftarrow> rd ESP_IDX;
     if check_esp_safety ums esp \<noteq> 0 then Some 4 else do {
     e \<leftarrow> rd EFLAGS_IDX;
     if check_eflags_safety fl e \<noteq> 0 then Some 1 else Some 0 } } } } } }"

definition ureg_word :: "page_directory \<Rightarrow> vmem \<Rightarrow> u32 \<Rightarrow> nat \<Rightarrow> u32 option" where
  "ureg_word pd m ureg i = get_word pd (ureg + 8 + 4 * word_of_nat i) m"

definition put_tcb :: "ptr \<Rightarrow> tcb option \<Rightarrow> sched \<Rightarrow> sched" where
  "put_tcb p t s = s\<lparr>tcbs := (tcbs s)(p := t)\<rparr>"

definition syscall_swexn_c_handler :: "segs \<Rightarrow> eflags \<Rightarrow> u32 \<Rightarrow> vmem \<Rightarrow> u32 \<Rightarrow> u32 \<Rightarrow> u32 \<Rightarrow> u32 \<Rightarrow> sched \<Rightarrow> (thr_out \<times> sched) option" where
  "syscall_swexn_c_handler g fl ums m esp3 eip arg newureg s = do {
     let (r, cur) = scheduler_get_current_tcb s;
     if r < 0 then Some (Returns (-1), s)
     else do {
       t \<leftarrow> tcbs s cur;
       let (r, old, t) = tcb_deregister_swexn_handler (Some t);
       if r < 0 then Some (Returns (-2), s)
       else do {
         (old_esp3, old_eip, old_arg) \<leftarrow> old;
         let undo = (\<lambda>t. snd (tcb_register_swexn_handler t old_esp3 old_eip old_arg));
         let install = (esp3 \<noteq> NULL \<and> eip \<noteq> NULL);
         if install \<and> (check_esp_safety ums esp3 \<noteq> 0 \<or> check_eip_safety ums eip \<noteq> 0) then Some (Returns (-3), put_tcb cur (undo t) s)
         else do {
           let (r, t) = (if install then tcb_register_swexn_handler t esp3 eip arg else (0, t));
           if r < 0 then Some (Returns (-4), put_tcb cur (undo t) s)
           else if newureg \<noteq> NULL then do {
             u \<leftarrow> t;
             p \<leftarrow> pcbs s (t_pcb u);
             c \<leftarrow> check_ureg_safety g fl ums (ureg_word (pcb_pd p) m newureg);
             if c = 0 then Some (Resumes (newureg + 8), put_tcb cur t s)
             else Some (Returns (-5), put_tcb cur (undo t) s)
           }
           else Some (Returns 0, put_tcb cur t s)
         }
       }
     }
   }"

subsection \<open>What swexn and deschedule do\<close>

text \<open>A saved context that the processor resumes in user mode, with interrupts on and no privilege for input and output.\<close>

definition user_context :: "segs \<Rightarrow> eflags \<Rightarrow> u32 \<Rightarrow> (nat \<Rightarrow> u32 option) \<Rightarrow> bool" where
  "user_context g fl ums rd \<longleftrightarrow> rd DS_IDX = Some (SEGSEL_USER_DS g) \<and> rd SS_IDX = Some (SEGSEL_USER_DS g) \<and> rd CS_IDX = Some (SEGSEL_USER_CS g) \<and>
     (\<exists>eip esp e. rd EIP_IDX = Some eip \<and> ums \<le> eip \<and> rd ESP_IDX = Some esp \<and> ums \<le> esp \<and> rd EFLAGS_IDX = Some e \<and>
        e AND EFL_RESV1 fl \<noteq> 0 \<and> e AND EFL_RESV2 fl = 0 \<and> e AND EFL_RESV3 fl = 0 \<and> e AND EFL_IF fl \<noteq> 0 \<and>
        e AND EFL_IOPL_RING1 fl = 0 \<and> e AND EFL_IOPL_RING2 fl = 0 \<and> e AND EFL_IOPL_RING3 fl = 0)"

lemma check_ureg_safety_iff:
  assumes "\<forall>i < 18. rd i \<noteq> None"
  shows "\<exists>c. check_ureg_safety g fl ums rd = Some c \<and> (c = 0 \<longleftrightarrow> user_context g fl ums rd)"
proof -
  obtain ds ss cs eip esp e where r: "rd DS_IDX = Some ds" "rd SS_IDX = Some ss" "rd CS_IDX = Some cs" "rd EIP_IDX = Some eip" "rd ESP_IDX = Some esp" "rd EFLAGS_IDX = Some e"
    using assms [rule_format, of DS_IDX] assms [rule_format, of SS_IDX] assms [rule_format, of CS_IDX] assms [rule_format, of EIP_IDX]
      assms [rule_format, of ESP_IDX] assms [rule_format, of EFLAGS_IDX] by auto
  show ?thesis unfolding check_ureg_safety_def user_context_def r
    by (auto simp: check_eip_safety_def check_esp_safety_def check_eflags_safety_def not_less)
qed

definition new_handler :: "u32 \<Rightarrow> u32 \<Rightarrow> u32 \<Rightarrow> tcb \<Rightarrow> tcb" where
  "new_handler esp3 eip arg t =
     (if esp3 \<noteq> NULL \<and> eip \<noteq> NULL then t\<lparr>swexn_handler_esp := esp3, swexn_handler_arg := arg, swexn_handler := eip\<rparr>
      else t\<lparr>swexn_handler_esp := NULL, swexn_handler_arg := NULL, swexn_handler := NULL\<rparr>)"

lemma swexn_eq:
  assumes "tcbs s (cur_tcb s) = Some t" "pcbs s (t_pcb t) = Some p"
  shows "syscall_swexn_c_handler g fl ums m esp3 eip arg newureg s =
    (if (esp3 \<noteq> NULL \<and> eip \<noteq> NULL) \<and> (esp3 < ums \<or> eip < ums) then Some (Returns (-3), s)
     else if newureg = NULL then Some (Returns 0, put_tcb (cur_tcb s) (Some (new_handler esp3 eip arg t)) s)
     else do {
       c \<leftarrow> check_ureg_safety g fl ums (ureg_word (pcb_pd p) m newureg);
       Some (if c = 0 then (Resumes (newureg + 8), put_tcb (cur_tcb s) (Some (new_handler esp3 eip arg t)) s) else (Returns (-5), s))
     })"
proof -
  have undo: "put_tcb (cur_tcb s) (Some t) s = s" using assms(1) by (simp add: put_tcb_def fun_upd_idem)
  have "(if c = 0 then Some (a, x) else Some (b, y)) = Some (if c = 0 then (a, x) else (b, y))" for c :: int and a b :: thr_out and x y :: sched by simp
  then show ?thesis using assms undo
    by (cases "esp3 \<noteq> NULL \<and> eip \<noteq> NULL")
      (simp_all add: syscall_swexn_c_handler_def scheduler_get_current_tcb_def tcb_deregister_swexn_handler_def tcb_register_swexn_handler_def
        check_esp_safety_def check_eip_safety_def new_handler_def Let_def cong: if_cong, auto)
qed

text \<open>
  C19: \<open>swexn\<close> never lets a thread into kernel mode, and fails without effect. The call returns whenever the new register set, if there is one, is mapped.
  It resumes a new context only if that context runs in user mode with interrupts on, no input/output privilege, and code and stack in user memory;
  when it returns an error, the thread has the handler it had before; otherwise the handler is the new one, in user memory, or none.
\<close>

theorem swexn_correct:
  assumes "tcbs s (cur_tcb s) = Some t" "pcbs s (t_pcb t) = Some p" "newureg \<noteq> NULL \<Longrightarrow> \<forall>i < 18. ureg_word (pcb_pd p) m newureg i \<noteq> None"
  shows "\<exists>out s'. syscall_swexn_c_handler g fl ums m esp3 eip arg newureg s = Some (out, s') \<and>
    (case out of
       Resumes a \<Rightarrow> newureg \<noteq> NULL \<and> a = newureg + 8 \<and> user_context g fl ums (ureg_word (pcb_pd p) m newureg)
     | Returns r \<Rightarrow> r \<le> 0 \<and> (r = 0 \<longrightarrow> newureg = NULL)) \<and>
    (if \<exists>r < 0. out = Returns r then s' = s
     else if esp3 \<noteq> NULL \<and> eip \<noteq> NULL
     then ums \<le> esp3 \<and> ums \<le> eip \<and>
       s' = put_tcb (cur_tcb s) (Some (t\<lparr>swexn_handler_esp := esp3, swexn_handler_arg := arg, swexn_handler := eip\<rparr>)) s
     else s' = put_tcb (cur_tcb s) (Some (t\<lparr>swexn_handler_esp := NULL, swexn_handler_arg := NULL, swexn_handler := NULL\<rparr>)) s)"
proof -
  let ?rd = "ureg_word (pcb_pd p) m newureg"
  note eq = swexn_eq [OF assms(1,2)]
  show ?thesis
  proof (cases "newureg = NULL")
    case True
    then show ?thesis by (auto simp: eq new_handler_def not_less)
  next
    case False
    then obtain c where "check_ureg_safety g fl ums ?rd = Some c" "c = 0 \<longleftrightarrow> user_context g fl ums ?rd"
      using check_ureg_safety_iff assms(3) by blast
    then show ?thesis using False by (auto simp: eq new_handler_def not_less)
  qed
qed

text \<open>A concrete process all of whose pages are kernel pages filled with ones.\<close>

definition kernel_only_pd :: page_directory where
  "kernel_only_pd = \<lparr>directory = replicate 1024 0x1003, num_pages = 0, p_addr_list = [], mapping_tasks = [], batch_enabled = False\<rparr>"

definition ones_vm :: vmem where
  "ones_vm = \<lparr>pts = [0x1000 \<mapsto> replicate 1024 0x5003], phys = (\<lambda>_. replicate 4096 1), vm_mcalls = 0\<rparr>"

definition no_threads :: tcb_pool where
  "no_threads = (let t = \<lparr>ht_size = 0, ht_max_size = 1, ht_hash = tid_hash, ht_arr = [[]]\<rparr> in \<lparr>threads = t, processes = t, runnable_pool = 0, waiting_pool = 0,
     sleeping_pool = 0, zombie_pool = 0, zombies_sem = \<lparr>s_count = 0, s_m = free_mutex, s_q = []\<rparr>\<rparr>)"

definition one_thread :: sched where
  "one_thread = \<lparr>started = True, num_ticks = 0, next_tid = 1, next_pid = 1, init_pcb = 0, idle_tcb = 0, thr_pool = no_threads, cur_tcb = 1000,
     sched_lock = \<lparr>sm_sched = 0\<rparr>, intr = True, esp0 = 0, pdbr = 0, s_heap = \<lparr>nodes = Map.empty, lists = Map.empty, mcalls = 0\<rparr>,
     tcbs = [1000 \<mapsto> \<lparr>t_tid = 0, t_status = RUNNING, t_exit_status = 0, t_wakeup = 0, t_pcb = 2000, k_stack_bot = 0, k_stack_top = 0, orig_k_stack = 0,
       tmp_k_stack = 0, k_words = [], swexn_handler = 0, swexn_handler_arg = 0, swexn_handler_esp = 0\<rparr>],
     pcbs = [2000 \<mapsto> \<lparr>pid = 0, ppid = 0, original_tid = 0, stack_top = 0, entry_point = 0, pcb_pd = kernel_only_pd, num_threads = 1, num_child_proc = 0,
       pcb_argc = 0, pcb_argv = 0, wait_sem = \<lparr>s_count = 0, s_m = free_mutex, s_q = []\<rparr>, status_queue = Some [], pcb_m = free_mutex\<rparr>], sc_mcalls = 0\<rparr>"

lemma kernel_only: "pd_get_mapping (Some kernel_only_pd) a ones_vm = Some (0, Some 0x5003)"
  "pd_get_permissions (Some kernel_only_pd) a ones_vm = Some (0, Some (0, 1))"
  using pde_i_less [of a] pte_i_less [of a]
  by (simp_all add: pd_get_mapping_def pd_get_permissions_def kernel_only_pd_def ones_vm_def arr_get_def pt_get_def entry_present_def entry_permissions_def
      REMOVE_FLAGS_def NTH_BIT_def)

lemma kernel_only_word: "get_word kernel_only_pd a ones_vm = Some 0x01010101"
proof -
  have "get_byte kernel_only_pd b ones_vm = Some 1" for b
    using kernel_only(1) [of b] by (simp add: get_byte_def frame_of_def page_off_mod ones_vm_def)
  then show ?thesis by (simp add: get_word_def word_of_bytes_def numeral_eq_Suc)
qed

theorem swexn_correct_witness:
  "\<exists>out s'. syscall_swexn_c_handler \<lparr>SEGSEL_USER_DS = 0x2b, SEGSEL_USER_CS = 0x23, user_eflags = 0\<rparr>
      \<lparr>EFL_RESV1 = 2, EFL_RESV2 = 8, EFL_RESV3 = 0x20, EFL_IF = 0x200, EFL_IOPL_RING1 = 0x1000, EFL_IOPL_RING2 = 0x2000, EFL_IOPL_RING3 = 0x3000\<rparr>
      0x1000000 ones_vm 0x1000100 0x1000200 5 0x5000 one_thread = Some (out, s') \<and> (\<exists>r < 0. out = Returns r) \<and> s' = one_thread"
proof -
  let ?g = "\<lparr>SEGSEL_USER_DS = 0x2b, SEGSEL_USER_CS = 0x23, user_eflags = 0\<rparr> :: segs"
  let ?fl = "\<lparr>EFL_RESV1 = 2, EFL_RESV2 = 8, EFL_RESV3 = 0x20, EFL_IF = 0x200, EFL_IOPL_RING1 = 0x1000, EFL_IOPL_RING2 = 0x2000, EFL_IOPL_RING3 = 0x3000\<rparr> :: eflags"
  obtain t p where tp: "tcbs one_thread (cur_tcb one_thread) = Some t" "pcbs one_thread (t_pcb t) = Some p" "pcb_pd p = kernel_only_pd"
    by (simp add: one_thread_def)
  have w: "ureg_word (pcb_pd p) ones_vm 0x5000 i = Some 0x01010101" for i by (simp add: ureg_word_def tp(3) kernel_only_word)
  have "\<not> user_context ?g ?fl 0x1000000 (ureg_word (pcb_pd p) ones_vm 0x5000)" by (simp add: user_context_def w)
  moreover obtain out s' where o: "syscall_swexn_c_handler ?g ?fl 0x1000000 ones_vm 0x1000100 0x1000200 5 0x5000 one_thread = Some (out, s')"
    "case out of Resumes a \<Rightarrow> 0x5000 \<noteq> NULL \<and> a = 0x5000 + 8 \<and> user_context ?g ?fl 0x1000000 (ureg_word (pcb_pd p) ones_vm 0x5000)
     | Returns r \<Rightarrow> r \<le> 0 \<and> (r = 0 \<longrightarrow> 0x5000 = (NULL :: ptr))" "\<exists>r < 0. out = Returns r \<Longrightarrow> s' = one_thread"
    using swexn_correct [OF tp(1,2), of "0x5000" ones_vm ?g ?fl "0x1000000" "0x1000100" "0x1000200" 5] by (fastforce simp: w split: if_splits)
  ultimately have "\<exists>r < 0. out = Returns r" by (auto split: thr_out.splits)
  then show ?thesis using o by blast
qed

text \<open>
  \<open>deschedule\<close> writes kernel memory. The flag that it exchanges with 0 is only required to be mapped: for a word of a page that is reserved to the kernel the
  call stores 0 there on behalf of the user, and returns 0 if the word was not 0.
\<close>

theorem deschedule_clears_kernel_word:
  assumes "tcbs s (cur_tcb s) = Some t" "pcbs s (t_pcb t) = Some p" "pd_get_permissions (Some (pcb_pd p)) reject m = Some (0, Some (0, a))"
    and "get_word (pcb_pd p) reject m = Some w" "w \<noteq> 0"
  shows "\<exists>m'. syscall_deschedule_c_handler esp reject m s = Some (Returns 0, m', s) \<and> get_word (pcb_pd p) reject m' = Some 0"
proof -
  obtain m' where m': "set_word (pcb_pd p) reject 0 m = Some m'" using set_word_defined [of "pcb_pd p" reject m] assms(4) by auto
  have "\<exists>pte. pd_get_mapping (Some (pcb_pd p)) reject m = Some (0, Some pte)"
    using assms(3) by (auto simp: pd_get_mapping_def pd_get_permissions_def bind_eq_Some_conv split: if_splits)
  then have "syscall_deschedule_c_handler esp reject m s = Some (Returns 0, m', s)"
    using assms m' by (auto simp: syscall_deschedule_c_handler_def thr_deschedule_def scheduler_get_current_tcb_def xchng_word_def)
  then show ?thesis using get_set_word [OF m'] by blast
qed

theorem deschedule_clears_kernel_word_witness:
  "get_word kernel_only_pd 0x100000 ones_vm = Some 0x01010101 \<and>
   (\<exists>m'. syscall_deschedule_c_handler 0 0x100000 ones_vm one_thread = Some (Returns 0, m', one_thread) \<and> get_word kernel_only_pd 0x100000 m' = Some 0)"
proof -
  obtain t p where tp: "tcbs one_thread (cur_tcb one_thread) = Some t" "pcbs one_thread (t_pcb t) = Some p" "pcb_pd p = kernel_only_pd"
    by (simp add: one_thread_def)
  show ?thesis using deschedule_clears_kernel_word [OF tp(1,2), of "0x100000" ones_vm 1 "0x01010101" 0] by (simp add: tp(3) kernel_only(2) kernel_only_word)
qed

end
