(* ===== verification/ExceptionHandlers.thy ===== *)
theory ExceptionHandlers
  imports ThreadHandlers
begin

text \<open>
  \<open>kern/handlers/exception_handlers.c\<close>: a fault either runs the handler that the thread has installed with
  \<open>swexn\<close> or ends the thread. The saved context is the list of the words on the kernel stack from the saved stack pointer upwards; \<open>cr2\<close> is the value of
  that register. The dumps of registers are console output and left out. The codes of the causes come from the
  user library outside the repository and are a parameter.
\<close>

subsection \<open>Model\<close>

record ureg =
  u_cause :: u32
  u_cr2 :: u32
  u_regs :: "u32 list"

text \<open>The words of the struct in memory.\<close>

definition ureg_words :: "ureg \<Rightarrow> u32 list" where
  "ureg_words u = u_cause u # u_cr2 u # u_regs u"

definition REGS_SIZE :: nat where "REGS_SIZE = 18"

text \<open>
  Without an error code on the stack the five words from \<open>error_code\<close> on are moved up by one, to \<open>eip\<close> and the words after it.
\<close>

definition ureg_from_stack :: "u32 \<Rightarrow> u32 \<Rightarrow> u32 list option \<Rightarrow> bool \<Rightarrow> (int \<times> ureg option) option" where
  "ureg_from_stack cause cr2 stack generates_error_code = (case stack of
     None \<Rightarrow> Some (-1, None)
   | Some st \<Rightarrow> do {
       c_assert (REGS_SIZE \<le> length st);
       let regs = take REGS_SIZE st;
       let regs = (if generates_error_code then regs else take EIP_IDX regs @ take 5 (drop ERRCODE_IDX regs));
       Some (0, Some \<lparr>u_cause = cause, u_cr2 = cr2, u_regs = regs\<rparr>)
     })"

text \<open>The interrupt frame that is returned into: user mode at \<open>eip\<close> with the stack pointer \<open>esp\<close>.\<close>

definition user_frame :: "segs \<Rightarrow> bool \<Rightarrow> u32 \<Rightarrow> u32 \<Rightarrow> u32 list \<Rightarrow> u32 list" where
  "user_frame g generates_error_code esp eip st =
     (let o' = (if generates_error_code then 0 else 1)
      in st[ESP_IDX - o' := esp, SS_IDX - o' := SEGSEL_USER_DS g, EFLAGS_IDX - o' := user_eflags g, CS_IDX - o' := SEGSEL_USER_CS g, EIP_IDX - o' := eip])"

definition swexn_execute :: "segs \<Rightarrow> u32 \<Rightarrow> u32 \<Rightarrow> u32 list option \<Rightarrow> bool \<Rightarrow> vmem \<Rightarrow> sched \<Rightarrow> (int \<times> u32 list option \<times> vmem \<times> sched) option" where
  "swexn_execute g cause cr2 stack generates_error_code m s = do {
     (r, u) \<leftarrow> ureg_from_stack cause cr2 stack generates_error_code;
     if r < 0 then Some (-1, stack, m, s)
     else do {
       u \<leftarrow> u;
       let (r, cur) = scheduler_get_current_tcb s;
       if r < 0 then Some (-2, stack, m, s)
       else do {
         t \<leftarrow> tcbs s cur;
         let (r, h, t') = tcb_deregister_swexn_handler (Some t);
         if r < 0 then Some (-3, stack, m, s)
         else do {
           (esp3, eip, arg) \<leftarrow> h;
           let s = put_tcb cur t' s;
           if esp3 \<noteq> NULL \<and> eip \<noteq> NULL then do {
             p \<leftarrow> pcbs s (t_pcb t);
             let ureg_ptr = esp3 - 80;
             m \<leftarrow> set_words (pcb_pd p) ureg_ptr (ureg_words u) m;
             let arg_ptr = ureg_ptr - 4;
             m \<leftarrow> set_word (pcb_pd p) arg_ptr ureg_ptr m;
             m \<leftarrow> set_word (pcb_pd p) (arg_ptr - 4) arg m;
             m \<leftarrow> set_word (pcb_pd p) (arg_ptr - 8) NULL m;
             Some (0, map_option (user_frame g generates_error_code (arg_ptr - 8) eip) stack, m, s)
           } else Some (-4, stack, m, s)
         }
       }
     }
   }"

text \<open>What a handler does in the end: it returns into the saved context, or the thread vanishes and another context is resumed.\<close>

datatype fault_out = Into "u32 list option" | Vanished u32

definition dies :: "bool \<times> bool \<Rightarrow> u32 list option \<Rightarrow> vmem \<Rightarrow> sched \<Rightarrow> (fault_out \<times> vmem \<times> sched) option" where
  "dies mem stack m s = do {
     s \<leftarrow> thr_set_status (-2) s;
     (e, s) \<leftarrow> thr_vanish mem s;
     Some (Vanished e, m, s)
   }"

definition swexn_or_dies :: "segs \<Rightarrow> bool \<times> bool \<Rightarrow> u32 \<Rightarrow> u32 \<Rightarrow> bool \<Rightarrow> u32 list option \<Rightarrow> vmem \<Rightarrow> sched \<Rightarrow> (fault_out \<times> vmem \<times> sched) option" where
  "swexn_or_dies g mem cause cr2 generates_error_code stack m s = do {
     (r, stack', m, s) \<leftarrow> swexn_execute g cause cr2 stack generates_error_code m s;
     if r = 0 then Some (Into stack', m, s) else dies mem stack m s
   }"

record causes =
  SWEXN_CAUSE_PAGEFAULT :: u32
  SWEXN_CAUSE_DIVIDE :: u32
  SWEXN_CAUSE_DEBUG :: u32
  SWEXN_CAUSE_BREAKPOINT :: u32
  SWEXN_CAUSE_OVERFLOW :: u32
  SWEXN_CAUSE_BOUNDCHECK :: u32
  SWEXN_CAUSE_OPCODE :: u32
  SWEXN_CAUSE_NOFPU :: u32
  SWEXN_CAUSE_SEGFAULT :: u32
  SWEXN_CAUSE_STACKFAULT :: u32
  SWEXN_CAUSE_PROTFAULT :: u32
  SWEXN_CAUSE_FPUFAULT :: u32
  SWEXN_CAUSE_ALIGNFAULT :: u32
  SWEXN_CAUSE_SIMDFAULT :: u32

type_synonym fault_handler = "u32 \<Rightarrow> u32 list option \<Rightarrow> vmem \<Rightarrow> sched \<Rightarrow> (fault_out \<times> vmem \<times> sched) option"

definition page_fault_c_handler :: "segs \<Rightarrow> bool \<times> bool \<Rightarrow> causes \<Rightarrow> fault_handler" where
  "page_fault_c_handler g mem c cr2 = swexn_or_dies g mem (SWEXN_CAUSE_PAGEFAULT c) cr2 True"

text \<open>The double fault handler returns into the context that faulted.\<close>

definition double_fault_c_handler :: fault_handler where
  "double_fault_c_handler cr2 stack m s = Some (Into stack, m, s)"

definition division_error_c_handler :: "segs \<Rightarrow> bool \<times> bool \<Rightarrow> causes \<Rightarrow> fault_handler" where
  "division_error_c_handler g mem c cr2 = swexn_or_dies g mem (SWEXN_CAUSE_DIVIDE c) cr2 False"

definition debug_exception_c_handler :: "segs \<Rightarrow> bool \<times> bool \<Rightarrow> causes \<Rightarrow> fault_handler" where
  "debug_exception_c_handler g mem c cr2 = swexn_or_dies g mem (SWEXN_CAUSE_DEBUG c) cr2 False"

definition breakpoint_c_handler :: "segs \<Rightarrow> bool \<times> bool \<Rightarrow> causes \<Rightarrow> fault_handler" where
  "breakpoint_c_handler g mem c cr2 = swexn_or_dies g mem (SWEXN_CAUSE_BREAKPOINT c) cr2 False"

definition overflow_c_handler :: "segs \<Rightarrow> bool \<times> bool \<Rightarrow> causes \<Rightarrow> fault_handler" where
  "overflow_c_handler g mem c cr2 = swexn_or_dies g mem (SWEXN_CAUSE_OVERFLOW c) cr2 False"

definition bound_range_c_handler :: "segs \<Rightarrow> bool \<times> bool \<Rightarrow> causes \<Rightarrow> fault_handler" where
  "bound_range_c_handler g mem c cr2 = swexn_or_dies g mem (SWEXN_CAUSE_BOUNDCHECK c) cr2 False"

definition undef_op_c_handler :: "segs \<Rightarrow> bool \<times> bool \<Rightarrow> causes \<Rightarrow> fault_handler" where
  "undef_op_c_handler g mem c cr2 = swexn_or_dies g mem (SWEXN_CAUSE_OPCODE c) cr2 False"

definition no_math_c_handler :: "segs \<Rightarrow> bool \<times> bool \<Rightarrow> causes \<Rightarrow> fault_handler" where
  "no_math_c_handler g mem c cr2 = swexn_or_dies g mem (SWEXN_CAUSE_NOFPU c) cr2 False"

definition coprocessor_segment_overrun_c_handler :: "bool \<times> bool \<Rightarrow> fault_handler" where
  "coprocessor_segment_overrun_c_handler mem cr2 = dies mem"

definition invalid_tss_c_handler :: "bool \<times> bool \<Rightarrow> fault_handler" where
  "invalid_tss_c_handler mem cr2 = dies mem"

definition segment_not_present_c_handler :: "segs \<Rightarrow> bool \<times> bool \<Rightarrow> causes \<Rightarrow> fault_handler" where
  "segment_not_present_c_handler g mem c cr2 = swexn_or_dies g mem (SWEXN_CAUSE_SEGFAULT c) cr2 True"

definition ss_fault_c_handler :: "segs \<Rightarrow> bool \<times> bool \<Rightarrow> causes \<Rightarrow> fault_handler" where
  "ss_fault_c_handler g mem c cr2 = swexn_or_dies g mem (SWEXN_CAUSE_STACKFAULT c) cr2 True"

definition gp_fault_c_handler :: "segs \<Rightarrow> bool \<times> bool \<Rightarrow> causes \<Rightarrow> fault_handler" where
  "gp_fault_c_handler g mem c cr2 = swexn_or_dies g mem (SWEXN_CAUSE_PROTFAULT c) cr2 True"

definition math_fault_c_handler :: "segs \<Rightarrow> bool \<times> bool \<Rightarrow> causes \<Rightarrow> fault_handler" where
  "math_fault_c_handler g mem c cr2 = swexn_or_dies g mem (SWEXN_CAUSE_FPUFAULT c) cr2 False"

definition align_fault_c_handler :: "segs \<Rightarrow> bool \<times> bool \<Rightarrow> causes \<Rightarrow> fault_handler" where
  "align_fault_c_handler g mem c cr2 = swexn_or_dies g mem (SWEXN_CAUSE_ALIGNFAULT c) cr2 True"

text \<open>The machine check handler does not set a status.\<close>

definition machine_check_fault_c_handler :: "bool \<times> bool \<Rightarrow> fault_handler" where
  "machine_check_fault_c_handler mem cr2 stack m s = do { (e, s) \<leftarrow> thr_vanish mem s; Some (Vanished e, m, s) }"

definition simd_fault_c_handler :: "segs \<Rightarrow> bool \<times> bool \<Rightarrow> causes \<Rightarrow> fault_handler" where
  "simd_fault_c_handler g mem c cr2 = swexn_or_dies g mem (SWEXN_CAUSE_SIMDFAULT c) cr2 False"

subsection \<open>Delivery of an exception\<close>

text \<open>The registers that a handler finds: those that were saved, with the error code, or the instruction pointer in its place.\<close>

definition saved_regs :: "bool \<Rightarrow> u32 list \<Rightarrow> u32 list" where
  "saved_regs generates_error_code st =
     (if generates_error_code then take 18 st else take 12 st @ st ! 12 # take 5 (drop 12 st))"

lemma ureg_from_stack_eq:
  assumes "18 \<le> length st"
  shows "ureg_from_stack cause cr2 (Some st) gen = Some (0, Some \<lparr>u_cause = cause, u_cr2 = cr2, u_regs = saved_regs gen st\<rparr>)"
proof -
  have "take 13 st = take 12 st @ [st ! 12]" using take_Suc_conv_app_nth [of 12 st] assms by (simp add: numeral_eq_Suc)
  moreover have "take 5 (drop 12 (take 18 st)) = take 5 (drop 12 st)" by (simp add: drop_take)
  ultimately show ?thesis using assms by (simp add: ureg_from_stack_def saved_regs_def REGS_SIZE_def min_def)
qed

lemma length_saved_regs: "18 \<le> length st \<Longrightarrow> length (saved_regs gen st) = 18"
  by (simp add: saved_regs_def)

text \<open>Storing keeps what is mapped, so that words can be pushed below a row of bytes one after the other.\<close>

lemma set_bytes_keeps:
  assumes "set_bytes pd a bs m = Some m'" "get_bytes pd b n m \<noteq> None"
  shows "get_bytes pd b n m' \<noteq> None"
  using assms
proof (induction bs arbitrary: a m)
  case (Cons x xs)
  obtain m1 where m1: "set_byte pd a x m = Some m1" "set_bytes pd (a + 1) xs m1 = Some m'" using Cons.prems(1) by (auto simp: bind_eq_Some_conv)
  have "get_bytes pd c k m \<noteq> None \<Longrightarrow> get_bytes pd c k m1 \<noteq> None" for c k
  proof (induction k arbitrary: c)
    case (Suc k)
    then show ?case using get_set_byte [OF m1(1), of c] Suc.IH [of "c + 1"] by (auto simp: bind_eq_Some_conv)
  qed simp
  then show ?case using Cons.IH [OF m1(2)] Cons.prems(2) by simp
qed simp

lemma push_word:
  assumes "get_bytes pd a 4 m \<noteq> None" "get_bytes pd (a + 4) (length bs) m = Some bs" "4 + length bs \<le> 4096"
  shows "\<exists>m'. set_word pd a w m = Some m' \<and> get_bytes pd a (4 + length bs) m' = Some (bytes_of_word w @ bs) \<and>
    (\<forall>b n. get_bytes pd b n m \<noteq> None \<longrightarrow> get_bytes pd b n m' \<noteq> None)"
proof -
  have "get_bytes pd a (length (bytes_of_word w)) m \<noteq> None" using assms(1) by (simp add: length_bytes_of_word)
  then obtain m' where m': "set_bytes pd a (bytes_of_word w) m = Some m'" using set_bytes_defined [of pd a "bytes_of_word w" m] by (auto simp: length_bytes_of_word)
  have "get_bytes pd a (length (bytes_of_word w @ bs)) m' = Some (bytes_of_word w @ bs)"
    by (rule get_set_above [OF m']) (use assms in \<open>simp_all add: length_bytes_of_word\<close>)
  then show ?thesis using m' set_bytes_keeps [OF m'] by (auto simp: set_word_def length_bytes_of_word)
qed

definition handler_frame :: "u32 \<Rightarrow> u32 \<Rightarrow> u32 \<Rightarrow> u32 \<Rightarrow> bool \<Rightarrow> u32 list \<Rightarrow> u32 list" where
  "handler_frame cause cr2 esp3 arg gen st = [0, arg, esp3 - 80, cause, cr2] @ saved_regs gen st"

definition no_handler :: "tcb \<Rightarrow> tcb" where
  "no_handler t = t\<lparr>swexn_handler_esp := NULL, swexn_handler_arg := NULL, swexn_handler := NULL\<rparr>"

lemma push_frame:
  fixes a :: u32
  assumes "get_bytes pd (a + 12) (length bs) m = Some bs" "get_bytes pd a (12 + length bs) m \<noteq> None" "12 + length bs \<le> 4096"
  shows "\<exists>m1 m2 m3. set_word pd (a + 8) x m = Some m1 \<and> set_word pd (a + 4) y m1 = Some m2 \<and> set_word pd a z m2 = Some m3 \<and>
    get_bytes pd a (12 + length bs) m3 = Some (bytes_of_words [z, y, x] @ bs)"
proof -
  let ?n = "length bs"
  have k: "get_bytes pd a 4 m \<noteq> None" "get_bytes pd (a + 4) 4 m \<noteq> None" "get_bytes pd (a + 8) 4 m \<noteq> None"
    using assms(2) get_bytes_add [of pd a 4 "8 + ?n" m] get_bytes_add [of pd "a + 4" 4 "4 + ?n" m] get_bytes_add [of pd "a + 8" 4 ?n m]
    by (auto simp: bind_eq_Some_conv add.assoc)
  obtain m1 where m1: "set_word pd (a + 8) x m = Some m1" "get_bytes pd (a + 8) (4 + ?n) m1 = Some (bytes_of_word x @ bs)"
      "\<forall>b n. get_bytes pd b n m \<noteq> None \<longrightarrow> get_bytes pd b n m1 \<noteq> None"
    using push_word [of pd "a + 8" m bs x] k(3) assms(1,3) by (auto simp: add.assoc)
  let ?b1 = "bytes_of_word x @ bs"
  obtain m2 where m2: "set_word pd (a + 4) y m1 = Some m2" "get_bytes pd (a + 4) (4 + length ?b1) m2 = Some (bytes_of_word y @ ?b1)"
      "\<forall>b n. get_bytes pd b n m1 \<noteq> None \<longrightarrow> get_bytes pd b n m2 \<noteq> None"
    using push_word [of pd "a + 4" m1 ?b1 y] k(2) m1(2,3) assms(3) by (auto simp: add.assoc length_bytes_of_word)
  let ?b2 = "bytes_of_word y @ ?b1"
  obtain m3 where m3: "set_word pd a z m2 = Some m3" "get_bytes pd a (4 + length ?b2) m3 = Some (bytes_of_word z @ ?b2)"
    using push_word [of pd a m2 ?b2 z] k(1) m1(3) m2(2,3) assms(3) by (auto simp: add.assoc length_bytes_of_word)
  show ?thesis using m1(1) m2(1) m3 by (simp add: bytes_of_words_def length_bytes_of_word add.assoc)
qed

lemma swexn_execute_delivers:
  assumes "tcbs s (cur_tcb s) = Some t" "pcbs s (t_pcb t) = Some p" "swexn_handler_esp t \<noteq> NULL" "swexn_handler t \<noteq> NULL" "18 \<le> length st"
    and "get_bytes (pcb_pd p) (swexn_handler_esp t - 92) 92 m \<noteq> None"
  shows "\<exists>m'. swexn_execute g cause cr2 (Some st) gen m s =
      Some (0, Some (user_frame g gen (swexn_handler_esp t - 92) (swexn_handler t) st), m', put_tcb (cur_tcb s) (Some (no_handler t)) s) \<and>
    get_bytes (pcb_pd p) (swexn_handler_esp t - 92) 92 m' = Some (bytes_of_words (handler_frame cause cr2 (swexn_handler_esp t) (swexn_handler_arg t) gen st))"
proof -
  let ?pd = "pcb_pd p" and ?a = "swexn_handler_esp t - 92" and ?u = "cause # cr2 # saved_regs gen st"
  have l: "length (bytes_of_words ?u) = 80" using length_saved_regs [OF assms(5)] by (simp add: length_bytes_of_words)
  have a: "?a + 12 = swexn_handler_esp t - 80" "?a + 8 = swexn_handler_esp t - 84" "?a + 4 = swexn_handler_esp t - 88" by (simp_all add: algebra_simps)
  have "get_bytes ?pd (?a + 12) 80 m \<noteq> None" using assms(6) get_bytes_add [of ?pd ?a 12 80 m] by (auto simp: bind_eq_Some_conv)
  then obtain m0 where m0: "set_bytes ?pd (?a + 12) (bytes_of_words ?u) m = Some m0" using set_bytes_defined [of ?pd "?a + 12" "bytes_of_words ?u" m] l by auto
  have "get_bytes ?pd (?a + 12) 80 m0 = Some (bytes_of_words ?u)" using get_set_bytes [OF m0] l by simp
  moreover have "get_bytes ?pd ?a 92 m0 \<noteq> None" using set_bytes_keeps [OF m0 assms(6)] .
  ultimately obtain m1 m2 m3 where m: "set_word ?pd (?a + 8) (swexn_handler_esp t - 80) m0 = Some m1" "set_word ?pd (?a + 4) (swexn_handler_arg t) m1 = Some m2"
      "set_word ?pd ?a 0 m2 = Some m3" "get_bytes ?pd ?a 92 m3 = Some (bytes_of_words [0, swexn_handler_arg t, swexn_handler_esp t - 80] @ bytes_of_words ?u)"
    using push_frame [of ?pd ?a "bytes_of_words ?u" m0 "swexn_handler_esp t - 80" "swexn_handler_arg t" 0] l by auto
  show ?thesis
    using assms(1-4) m m0 ureg_from_stack_eq [OF assms(5), of cause cr2 gen]
    by (simp add: swexn_execute_def scheduler_get_current_tcb_def tcb_deregister_swexn_handler_def put_tcb_def set_words_bytes ureg_words_def a
        no_handler_def handler_frame_def bytes_of_words_def algebra_simps)
qed


text \<open>A thread whose handler runs on the pages of ones.\<close>

definition faulting_thread :: sched where
  "faulting_thread = one_thread\<lparr>tcbs := [1000 \<mapsto> \<lparr>t_tid = 0, t_status = RUNNING, t_exit_status = 0, t_wakeup = 0, t_pcb = 2000, k_stack_bot = 0, k_stack_top = 0,
     orig_k_stack = 0, tmp_k_stack = 0, k_words = [], swexn_handler = 0x1000200, swexn_handler_arg = 7, swexn_handler_esp = 0x1002000\<rparr>]\<rparr>"

lemma kernel_only_bytes: "get_bytes kernel_only_pd a n ones_vm \<noteq> None"
proof (induction n arbitrary: a)
  case (Suc n)
  have "get_byte kernel_only_pd a ones_vm = Some 1"
    using kernel_only(1) [of a] by (simp add: get_byte_def frame_of_def page_off_mod ones_vm_def)
  then show ?case using Suc [of "a + 1"] by (auto simp: bind_eq_Some_conv)
qed simp


end
