(* ===== verification/Loader.thy ===== *)
theory Loader
  imports Pcb UserMem
begin

text \<open>
  \<open>kern/loader/loader.c\<close> and \<open>pcb_load_prog\<close> of \<open>kern/scheduler/pcb.c\<close>. The table of the programs is generated by the
  build (\<open>toc\<close>, with the length of a program being that of its bytes), and the reader of ELF headers belongs to the course library
  (\<open>elf_lib\<close>): both are parameters. The program is written through the page directory of the process, which is the one in use.
  The arguments of the program are the strings at \<open>pcb->argv\<close>, without their final null characters.
\<close>

subsection \<open>Files\<close>

record toc_entry =
  execname :: "8 word list"
  execbytes :: "8 word list"

text \<open>
  \<open>eq\<close> is the comparison with \<open>filename\<close>, which is in kernel or user memory. A negative count is a huge one for \<open>memcpy\<close>, which then leaves
  the mapped memory.
\<close>

fun getbytes :: "toc_entry list \<Rightarrow> (8 word list \<Rightarrow> bool option) \<Rightarrow> page_directory \<Rightarrow> int \<Rightarrow> int \<Rightarrow> u32 \<Rightarrow> vmem \<Rightarrow> (int \<times> vmem) option" where
  "getbytes [] eq pd offset n buf m = Some (-1, m)"
| "getbytes (entry # toc) eq pd offset n buf m = do {
     hit \<leftarrow> eq (execname entry);
     if hit then do {
       c_assert (n + offset < 2 ^ 31 \<and> - (2 ^ 31) \<le> n + offset);
       let execlen = int (length (execbytes entry));
       let num_bytes = (if n + offset > execlen then execlen - offset else n);
       c_assert (0 \<le> offset \<and> 0 \<le> num_bytes);
       m \<leftarrow> set_bytes pd buf (take (nat num_bytes) (drop (nat offset) (execbytes entry))) m;
       Some (num_bytes, m)
     } else getbytes toc eq pd offset n buf m
   }"

text \<open>\<open>strcmp\<close> of a name with a string in user memory: is it equal? It stops at the first difference.\<close>

fun strcmp_user :: "page_directory \<Rightarrow> vmem \<Rightarrow> u32 \<Rightarrow> 8 word list \<Rightarrow> bool option" where
  "strcmp_user pd m a [] = do { b \<leftarrow> get_byte pd a m; Some (b = 0) }"
| "strcmp_user pd m a (x # xs) = do { b \<leftarrow> get_byte pd a m; if b = x then strcmp_user pd m (a + 1) xs else Some False }"

subsection \<open>Programs\<close>

record simple_elf =
  e_fname :: "8 word list"
  e_entry :: u32
  e_txtoff :: u32
  e_txtlen :: u32
  e_txtstart :: u32
  e_datoff :: u32
  e_datlen :: u32
  e_datstart :: u32
  e_rodatoff :: u32
  e_rodatlen :: u32
  e_rodatstart :: u32
  e_bsslen :: u32
  e_bssstart :: u32

text \<open>Whether \<open>elf_check_header\<close> succeeds, and the header that \<open>elf_load_helper\<close> reads if it succeeds.\<close>

record elf_lib =
  check_header :: "8 word list \<Rightarrow> bool"
  load_helper :: "8 word list \<Rightarrow> simple_elf option"

definition load_elf_exists :: "elf_lib \<Rightarrow> 8 word list \<Rightarrow> int" where
  "load_elf_exists lib filename = (if check_header lib filename \<and> load_helper lib filename \<noteq> None then 1 else 0)"

text \<open>A section that \<open>ms_init\<close> has not filled in yet; it sets every field.\<close>

definition no_section :: mem_section where
  "no_section = \<lparr>ms_start = 0, ms_len = 0, ms_pde_f = 0, ms_pte_f = 0\<rparr>"

definition fill_section :: "toc_entry list \<Rightarrow> 8 word list \<Rightarrow> u32 \<Rightarrow> u32 \<Rightarrow> u32 \<Rightarrow> page_directory \<Rightarrow> vmem \<Rightarrow> (bool \<times> vmem) option" where
  "fill_section toc fname off len start pd m = do {
     (r, m) \<leftarrow> getbytes toc (\<lambda>n. Some (n = fname)) pd (sint off) (sint len) start m;
     Some (word_of_int r = len, m)
   }"

definition load_elf_sections :: "toc_entry list \<Rightarrow> vctx \<Rightarrow> u32 \<times> u32 \<Rightarrow> simple_elf \<Rightarrow> pcb \<Rightarrow> vmem \<Rightarrow> frame_manager \<Rightarrow>
    (int \<times> pcb \<times> vmem \<times> frame_manager) option" where
  "load_elf_sections toc c junk elf p m fm = do {
     s0 \<leftarrow> snd (ms_init (Some no_section) (e_txtstart elf) (e_txtlen elf) USER_WR USER_RO);
     s1 \<leftarrow> snd (ms_init (Some no_section) (e_datstart elf) (e_datlen elf) USER_WR USER_WR);
     s2 \<leftarrow> snd (ms_init (Some no_section) (e_rodatstart elf) (e_rodatlen elf) USER_WR USER_RO);
     s3 \<leftarrow> snd (ms_init (Some no_section) (e_bssstart elf) (e_bsslen elf) USER_WR USER_WR);
     (r, pd, m, fm) \<leftarrow> vmm_map_sections c junk (Some (pcb_pd p)) (Some [s0, s1, s2, s3]) m fm;
     pd \<leftarrow> pd;
     let p = p\<lparr>pcb_pd := pd\<rparr>;
     if r < 0 then Some (-1, p, m, fm)
     else do {
       (ok, m) \<leftarrow> fill_section toc (e_fname elf) (e_txtoff elf) (e_txtlen elf) (e_txtstart elf) pd m;
       if \<not> ok then Some (-1, p, m, fm) else do {
       (ok, m) \<leftarrow> fill_section toc (e_fname elf) (e_datoff elf) (e_datlen elf) (e_datstart elf) pd m;
       if \<not> ok then Some (-1, p, m, fm) else do {
       (ok, m) \<leftarrow> fill_section toc (e_fname elf) (e_rodatoff elf) (e_rodatlen elf) (e_rodatstart elf) pd m;
       if \<not> ok then Some (-1, p, m, fm) else do {
       m \<leftarrow> set_bytes pd (e_bssstart elf) (replicate (unat (e_bsslen elf)) 0) m;
       Some (0, p\<lparr>entry_point := e_entry elf\<rparr>, m, fm) } } }
     }
   }"

subsection \<open>The user stack\<close>

definition USER_STACK_TOP :: u32 where "USER_STACK_TOP = 0xfffffff0"
definition USER_STACK_BOTTOM :: u32 where "USER_STACK_BOTTOM = 0xffffe000"
definition USER_STACK_SIZE :: u32 where "USER_STACK_SIZE = USER_STACK_TOP - USER_STACK_BOTTOM"

text \<open>The loop over the characters of an argument, which are written from the last to the first.\<close>

fun push_chars :: "page_directory \<Rightarrow> 8 word list \<Rightarrow> u32 \<Rightarrow> vmem \<Rightarrow> (u32 \<times> vmem) option" where
  "push_chars pd [] esp m = Some (esp, m)"
| "push_chars pd (x # xs) esp m = do {
     let esp = esp - 1;
     m \<leftarrow> set_byte pd esp x m;
     push_chars pd xs esp m
   }"

fun push_args :: "page_directory \<Rightarrow> 8 word list list \<Rightarrow> u32 \<Rightarrow> vmem \<Rightarrow> (u32 list \<times> u32 \<times> vmem) option" where
  "push_args pd [] esp m = Some ([], esp, m)"
| "push_args pd (arg # args) esp m = do {
     m \<leftarrow> set_byte pd esp 0 m;
     (esp, m) \<leftarrow> push_chars pd (rev arg) esp m;
     (new_argv, esp', m) \<leftarrow> push_args pd args (esp - 1) m;
     Some (esp # new_argv, esp', m)
   }"

fun push_addrs :: "page_directory \<Rightarrow> u32 list \<Rightarrow> u32 \<Rightarrow> vmem \<Rightarrow> (u32 \<times> vmem) option" where
  "push_addrs pd [] st m = Some (st, m)"
| "push_addrs pd (a # as) st m = do { m \<leftarrow> set_word pd st a m; push_addrs pd as (st - 4) m }"

definition load_user_stack :: "vctx \<Rightarrow> u32 \<times> u32 \<Rightarrow> 8 word list list \<Rightarrow> pcb option \<Rightarrow> vmem \<Rightarrow> frame_manager \<Rightarrow>
    (int \<times> pcb option \<times> vmem \<times> frame_manager) option" where
  "load_user_stack c junk argv pcb m fm = (case pcb of None \<Rightarrow> Some (-1, None, m, fm) | Some p \<Rightarrow> do {
     s \<leftarrow> snd (ms_init (Some no_section) USER_STACK_BOTTOM USER_STACK_SIZE USER_WR USER_WR);
     (r, pd, m, fm) \<leftarrow> vmm_map_sections c junk (Some (pcb_pd p)) (Some [s]) m fm;
     pd \<leftarrow> pd;
     let p = p\<lparr>pcb_pd := pd\<rparr>;
     if r < 0 then Some (-2, Some p, m, fm)
     else do {
       c_assert (pcb_argc p \<le> int (length argv));
       (new_argv, esp, m) \<leftarrow> push_args pd (take (nat (pcb_argc p)) argv) USER_STACK_TOP m;
       (st, m) \<leftarrow> push_addrs pd (rev new_argv) (esp - esp mod 4 - 4) m;
       let final_argv = st + 4;
       m \<leftarrow> set_word pd (st - 16) 0 m;
       m \<leftarrow> set_word pd (st - 12) (word_of_int (pcb_argc p)) m;
       m \<leftarrow> set_word pd (st - 8) final_argv m;
       m \<leftarrow> set_word pd (st - 4) USER_STACK_TOP m;
       m \<leftarrow> set_word pd st USER_STACK_BOTTOM m;
       Some (0, Some (p\<lparr>stack_top := st - 16\<rparr>), m, fm)
     }
   })"

text \<open>\<open>argv_ptr\<close> is the pointer and \<open>argv\<close> the strings behind it.\<close>

definition pcb_load_prog :: "elf_lib \<Rightarrow> toc_entry list \<Rightarrow> vctx \<Rightarrow> u32 \<times> u32 \<Rightarrow> pcb option \<Rightarrow> 8 word list option \<Rightarrow> int \<Rightarrow> ptr \<Rightarrow> 8 word list list \<Rightarrow> vmem \<Rightarrow>
    frame_manager \<Rightarrow> (int \<times> pcb option \<times> vmem \<times> frame_manager) option" where
  "pcb_load_prog lib toc c junk pcb filename argc argv_ptr argv m fm = (case (pcb, filename) of
     (Some p, Some f) \<Rightarrow>
       if \<not> check_header lib f then Some (-2, Some p, m, fm)
       else (case load_helper lib f of None \<Rightarrow> Some (-3, Some p, m, fm) | Some elf \<Rightarrow> do {
         (r, p, m, fm) \<leftarrow> load_elf_sections toc c junk elf p m fm;
         if r < 0 then Some (-4, Some p, m, fm)
         else do {
           (r, p, m, fm) \<leftarrow> load_user_stack c junk argv (Some (p\<lparr>pcb_argc := argc, pcb_argv := argv_ptr\<rparr>)) m fm;
           if r < 0 then Some (-5, p, m, fm) else Some (0, p, m, fm)
         }
       })
   | _ \<Rightarrow> Some (-1, pcb, m, fm))"

end
