(* ===== verification/MapSections.thy ===== *)
theory MapSections
  imports VirtualMemCorrect
begin

text \<open>
  \<open>vmm_map_sections\<close> of \<open>kern/virtual_mem_mgmt/virtual_mem_mgmt.c\<close>: the hull of the sections of a program is
  mapped, page by page, to one fresh block. The proof reuses the batches of \<open>VirtualMemCorrect\<close>.
\<close>

subsection \<open>The pages of the hull\<close>

text \<open>The bounds are those of the first and the last byte; the last byte is rounded up.\<close>

definition hull_pages :: "u32 \<Rightarrow> u32 \<Rightarrow> nat" where
  "hull_pages low high = (unat high + 4095) div 4096 - unat low div 4096"

lemma align_down_nat: "unat (PAGE_ALIGN_DOWN a) = 4096 * (unat a div 4096)"
proof -
  have "4096 * (unat a div 4096) \<le> unat a" by (rule times_div_less_eq_dividend)
  then have "4096 * (unat a div 4096) < 2 ^ 32" using unat_u32_bound [of a] by linarith
  then show ?thesis by (simp add: PAGE_ALIGN_DOWN_def PAGE_SIZE_def unat_word_ariths unat_div)
qed

lemma align_down_aligned: "IS_PAGE_ALIGNED (PAGE_ALIGN_DOWN a)"
  by (simp add: aligned_unat align_down_nat)

lemma align_up_word: "PAGE_ALIGN_UP a = word_of_nat (4096 * ((unat a + 4095) div 4096))"
proof -
  have s: "a + PAGE_SIZE - 1 = a + 4095" by (simp add: PAGE_SIZE_def)
  have b: "unat (a + 4095) = (unat a + 4095) mod 2 ^ 32" by (simp add: unat_word_ariths)
  show ?thesis
  proof (cases "unat a + 4095 < 2 ^ 32")
    case True
    then show ?thesis unfolding PAGE_ALIGN_UP_def s using b
      by (intro word_unat_eq_iff [THEN iffD2]) (simp add: PAGE_SIZE_def unat_word_ariths unat_div unat_of_nat take_bit_nat_eq_self)
  next
    case False
    have "unat a < 2 ^ 32" by (rule unat_u32_bound)
    then have "(unat a + 4095) mod 2 ^ 32 = unat a + 4095 - 2 ^ 32" using False by (simp add: mod_if)
    then have "(unat a + 4095) mod 2 ^ 32 < 4096" "(unat a + 4095) div 4096 = 2 ^ 20" using False \<open>unat a < 2 ^ 32\<close> by (simp, simp add: div_nat_eqI)
    then have "(a + 4095) div PAGE_SIZE = 0" using b by (intro word_unat_eq_iff [THEN iffD2]) (simp add: unat_div PAGE_SIZE_def)
    then show ?thesis unfolding PAGE_ALIGN_UP_def s using \<open>(unat a + 4095) div 4096 = 2 ^ 20\<close> by simp
  qed
qed

lemma hull_count:
  assumes "low \<le> high" "4096 \<le> unat low"
  shows "unat ((PAGE_ALIGN_UP high - 1 - PAGE_ALIGN_DOWN low + 1) div PAGE_SIZE) = hull_pages low high"
    and "unat (PAGE_ALIGN_DOWN low) + hull_pages low high * 4096 \<le> 2 ^ 32"
proof -
  let ?h = "(unat high + 4095) div 4096" and ?l = "unat low div 4096"
  have l: "?l \<le> ?h" using assms(1) by (intro div_le_mono) (simp add: word_le_nat_alt)
  have l1: "1 \<le> ?l" using div_le_mono [OF assms(2), of 4096] by simp
  have h: "?h \<le> 2 ^ 20" using unat_u32_bound [of high] div_le_mono [of "unat high + 4095" "2 ^ 32 + 4094" 4096] by simp
  have d: "PAGE_ALIGN_DOWN low = word_of_nat (4096 * ?l)" unfolding align_down_nat [symmetric] by simp
  have "PAGE_ALIGN_UP high - 1 - PAGE_ALIGN_DOWN low + 1 = word_of_nat (4096 * (?h - ?l))"
    unfolding align_up_word d using l by (simp add: of_nat_diff right_diff_distrib)
  then have "unat (PAGE_ALIGN_UP high - 1 - PAGE_ALIGN_DOWN low + 1) = unat (word_of_nat (4096 * (?h - ?l)) :: u32)" by (rule arg_cong)
  also have "\<dots> = 4096 * (?h - ?l)" using h l1 unfolding unat_of_nat by (intro mod_less) simp
  finally have "unat (PAGE_ALIGN_UP high - 1 - PAGE_ALIGN_DOWN low + 1) = 4096 * (?h - ?l)" .
  then show "unat ((PAGE_ALIGN_UP high - 1 - PAGE_ALIGN_DOWN low + 1) div PAGE_SIZE) = hull_pages low high"
    by (simp add: unat_div PAGE_SIZE_def hull_pages_def)
  show "unat (PAGE_ALIGN_DOWN low) + hull_pages low high * 4096 \<le> 2 ^ 32"
    unfolding align_down_nat hull_pages_def using h l by (simp add: diff_mult_distrib)
qed

subsection \<open>The loop\<close>

definition sec_flags :: "mem_section list \<Rightarrow> u32 \<Rightarrow> u32 \<times> u32" where
  "sec_flags secs v = (case List.find (ms_hit v (v + 0xFFF)) secs of
     None \<Rightarrow> (PTE_FLAG_DEFAULT, PDE_FLAG_DEFAULT) | Some ms \<Rightarrow> (ms_pte_f ms, ms_pde_f ms))"

definition flags_ok :: "mem_section \<Rightarrow> bool" where
  "flags_ok s \<longleftrightarrow> flag_bits (ms_pte_f s) \<and> entry_present (ms_pte_f s) \<and> flag_bits (ms_pde_f s) \<and> entry_present (ms_pde_f s)"

fun sec_reqs :: "mem_section list \<Rightarrow> nat \<Rightarrow> u32 \<Rightarrow> u32 \<Rightarrow> (u32 \<times> u32 \<times> u32 \<times> u32) list" where
  "sec_reqs secs 0 v p = []"
| "sec_reqs secs (Suc n) v p = (v, p, fst (sec_flags secs v), snd (sec_flags secs v)) # sec_reqs secs n (v + PAGE_SIZE) (p + PAGE_SIZE)"

lemma default_flags: "PTE_FLAG_DEFAULT = 5" "PDE_FLAG_DEFAULT = 5"
  by (simp_all add: PTE_FLAG_DEFAULT_def PDE_FLAG_DEFAULT_def NEW_FLAGS_def)

lemma flags_5: "flag_bits 5" "entry_present 5"
  using flag_bits_or [OF flag_bits_one [of 2] flag_bits_one [of 0]] by (simp_all add: entry_present_def NTH_BIT_def)

lemma sec_flags_ok:
  assumes "\<forall>s \<in> set secs. flags_ok s"
  shows "flag_bits (fst (sec_flags secs v))" "entry_present (fst (sec_flags secs v))" "flag_bits (snd (sec_flags secs v))" "entry_present (snd (sec_flags secs v))"
  using assms flags_5 by (auto simp: sec_flags_def default_flags flags_ok_def find_Some_iff split: option.split)

lemma last_of_page: "IS_PAGE_ALIGNED v \<Longrightarrow> \<not> v + 0xFFF < v"
proof -
  assume "IS_PAGE_ALIGNED v"
  then have "unat v mod 4096 = 0" by (simp add: aligned_unat)
  then obtain q where q: "unat v = 4096 * q" by auto
  then have "q < 2 ^ 20" using unat_u32_bound [of v] by simp
  then have "unat v + 4095 < 2 ^ 32" using q by simp
  then show ?thesis by (simp add: word_less_nat_alt unat_word_ariths)
qed

lemma map_sections_loop_batch:
  assumes "secs \<noteq> []"
  shows "IS_PAGE_ALIGNED v \<Longrightarrow> create_all al pd (sec_reqs secs n v p) m = Some (r, pd', m') \<Longrightarrow>
    map_sections_loop al secs n v p pd m = Some (if r < 0 then -4 else 0, pd', m')"
proof (induction n arbitrary: v p pd m)
  case (Suc n)
  have s: "ms_get_bounding_section (Some secs) v (v + (PAGE_SIZE - 1)) =
      (case List.find (ms_hit v (v + 0xFFF)) secs of Some m \<Rightarrow> (0, Some m) | None \<Rightarrow> (1, None))"
    using assms last_of_page [OF Suc.prems(1)] by (simp add: ms_get_bounding_section_def PAGE_SIZE_def)
  obtain f g where fg: "sec_flags secs v = (f, g)" by (cases "sec_flags secs v")
  have c: "map_sections_loop al secs (Suc n) v p pd m = do {
      (r, pd, m) \<leftarrow> pd_create_mapping al pd v p f g m;
      if r < 0 then Some (-4, pd, m) else map_sections_loop al secs n (v + PAGE_SIZE) (p + PAGE_SIZE) pd m }"
    using fg by (simp add: s sec_flags_def split: option.splits)
  obtain r1 pd1 m1 where k: "pd_create_mapping al pd v p f g m = Some (r1, pd1, m1)" using Suc.prems(2) fg by (auto simp: bind_eq_Some_conv)
  show ?case unfolding c using k Suc.prems fg Suc.IH [OF aligned_next [OF Suc.prems(1)]] by (auto split: if_splits)
qed simp

lemma sec_reqs_args:
  "\<forall>s \<in> set secs. flags_ok s \<Longrightarrow> IS_PAGE_ALIGNED v \<Longrightarrow> IS_PAGE_ALIGNED p \<Longrightarrow> \<forall>(v, p, f, g) \<in> set (sec_reqs secs n v p). map_args v p g"
  using sec_flags_ok(3,4) by (induction secs n v p rule: sec_reqs.induct) (simp_all add: map_args_def aligned_next split_beta)

lemma sec_reqs_nth:
  "length (sec_reqs secs n v p) = n"
  "k < n \<Longrightarrow> sec_reqs secs n v p ! k = (let w = v + word_of_nat k * PAGE_SIZE in (w, p + word_of_nat k * PAGE_SIZE, fst (sec_flags secs w), snd (sec_flags secs w)))"
proof (induction secs n v p arbitrary: k rule: sec_reqs.induct)
  case (2 secs n v p)
  { case 1 show ?case using 2(1) by simp }
  { case 2 then show ?case using "2.IH"(2) [of "k - 1"] by (cases k) (simp_all add: algebra_simps Let_def) }
qed simp_all

text \<open>The entry of the page that contains \<open>w\<close>, if the pages from \<open>v\<close> on are mapped to the frames from \<open>p\<close> on.\<close>

definition sec_entry :: "mem_section list \<Rightarrow> u32 \<Rightarrow> u32 \<Rightarrow> nat \<Rightarrow> u32" where
  "sec_entry secs v p k = ADD_FLAGS (p + word_of_nat k * PAGE_SIZE) (fst (sec_flags secs (v + word_of_nat k * PAGE_SIZE)))"

lemma map_sec_reqs:
  assumes "IS_PAGE_ALIGNED p" "IS_PAGE_ALIGNED v" "unat v + 4096 * n \<le> 2 ^ 32" "\<forall>s \<in> set secs. flags_ok s"
  shows "map_all (sec_reqs secs n v p) g w =
      (if unat v \<le> unat w \<and> unat w < unat v + 4096 * n then Some (sec_entry secs v p ((unat w - unat v) div 4096)) else g w)"
proof -
  let ?rs = "sec_reqs secs n v p" and ?k = "(unat w - unat v) div 4096"
  have "map_all ?rs g w = (if unat v \<le> unat w \<and> unat w < unat v + 4096 * n then req_entry (?rs ! ?k) else g w)"
    using map_consecutive [of ?rs v g w] assms(2,3) by (simp add: sec_reqs_nth Let_def)
  moreover have "req_entry (?rs ! ?k) = Some (sec_entry secs v p ?k)" if "unat w < unat v + 4096 * n" "unat v \<le> unat w"
  proof -
    have k: "?k < n" using that by (simp add: div_less_iff_less_mult less_diff_conv2 mult.commute add.commute)
    have "entry_present (sec_entry secs v p ?k)"
      using add_flags_present [OF aligned_offset [OF assms(1)]] sec_flags_ok(2) [OF assms(4)] by (simp add: sec_entry_def)
    then show ?thesis using sec_reqs_nth(2) [of ?k n secs v p] k by (simp add: req_entry_def sec_entry_def Let_def)
  qed
  ultimately show ?thesis by simp
qed

lemma sec_entry_frame: "IS_PAGE_ALIGNED p \<Longrightarrow> \<forall>s \<in> set secs. flags_ok s \<Longrightarrow> REMOVE_FLAGS (sec_entry secs v p k) = p + word_of_nat k * PAGE_SIZE"
  unfolding sec_entry_def by (rule add_flags(1) [OF aligned_offset sec_flags_ok(1)])

text \<open>Zeroing a number of bytes that need not be whole pages.\<close>

lemma memset_part:
  assumes "pd_ok (directory pd) m" "\<And>f. length (phys m f) = 4096" "\<And>k. k * 4096 < n \<Longrightarrow> pd_lookup pd m (v + word_of_nat k * PAGE_SIZE) = Some (e k)"
  shows "\<exists>ph. memset_zero pd v n m = Some (m\<lparr>phys := ph\<rparr>) \<and> (\<forall>f. length (ph f) = 4096) \<and>
    (\<forall>f. (\<forall>k. k * 4096 < n \<longrightarrow> f \<noteq> REMOVE_FLAGS (e k)) \<longrightarrow> ph f = phys m f)"
  using assms
proof (induction n arbitrary: v m e rule: less_induct)
  case (less n)
  show ?case
  proof (cases "n = 0")
    case True
    then show ?thesis using less.prems(2) by (subst memset_zero.simps) (auto intro!: exI [of _ "phys m"])
  next
    case False
    let ?f = "REMOVE_FLAGS (e 0)" and ?k = "min n 4096"
    let ?m = "m\<lparr>phys := (phys m)(?f := replicate ?k 0 @ drop ?k (phys m ?f))\<rparr>"
    have "pd_lookup pd m v = Some (e 0)" using less.prems(3) [of 0] False by simp
    then have g: "pd_get_mapping (Some pd) v m = Some (0, Some (e 0))" using pd_get_mapping_ok [OF less.prems(1), of v] by simp
    have nx: "v + PAGE_SIZE + word_of_nat k * PAGE_SIZE = v + word_of_nat (Suc k) * PAGE_SIZE" for k by (simp add: algebra_simps)
    have p: "pd_lookup pd ?m (v + PAGE_SIZE + word_of_nat k * PAGE_SIZE) = Some (e (Suc k))" if "k * 4096 < n - ?k" for k
      using less.prems(3) [of "Suc k"] that unfolding nx by (simp add: min_def split: if_splits)
    have "\<exists>ph. memset_zero pd (v + PAGE_SIZE) (n - ?k) ?m = Some (?m\<lparr>phys := ph\<rparr>) \<and> (\<forall>f. length (ph f) = 4096) \<and>
        (\<forall>f. (\<forall>k. k * 4096 < n - ?k \<longrightarrow> f \<noteq> REMOVE_FLAGS (e (Suc k))) \<longrightarrow> ph f = phys ?m f)"
      by (rule less.IH) (use False less.prems(1,2) p in auto)
    then obtain ph where ph: "memset_zero pd (v + PAGE_SIZE) (n - ?k) ?m = Some (?m\<lparr>phys := ph\<rparr>)" "\<forall>f. length (ph f) = 4096"
        "\<forall>f. (\<forall>k. k * 4096 < n - ?k \<longrightarrow> f \<noteq> REMOVE_FLAGS (e (Suc k))) \<longrightarrow> ph f = phys ?m f" by blast
    have "memset_zero pd v n m = Some (m\<lparr>phys := ph\<rparr>)" using g False ph(1) by (subst memset_zero.simps) simp
    moreover have "ph f = phys m f" if f: "\<forall>k. k * 4096 < n \<longrightarrow> f \<noteq> REMOVE_FLAGS (e k)" for f
    proof -
      have "f \<noteq> ?f" using f False by force
      moreover have "\<forall>k. k * 4096 < n - ?k \<longrightarrow> f \<noteq> REMOVE_FLAGS (e (Suc k))" using f by (auto simp: min_def split: if_splits)
      ultimately show ?thesis using ph(3) by simp
    qed
    ultimately show ?thesis using ph(2) by blast
  qed
qed

subsection \<open>\<open>vmm_map_sections\<close>\<close>

text \<open>The address space and the memory after the \<open>n\<close> pages at \<open>base\<close> have been mapped to the block at \<open>a\<close> with the flags of their sections.\<close>

definition sections_at :: "mem_section list \<Rightarrow> u32 \<Rightarrow> nat \<Rightarrow> u32 \<Rightarrow> page_directory \<Rightarrow> vmem \<Rightarrow> page_directory \<Rightarrow> vmem \<Rightarrow> bool" where
  "sections_at secs base n a pd m pd' m' \<longleftrightarrow> pd_ok (directory pd') m' \<and> \<not> batch_enabled pd' \<and> mapping_tasks pd' = [] \<and>
     IS_PAGE_ALIGNED a \<and> unat a + n * 4096 \<le> 2 ^ 32 \<and>
     (\<forall>w. pd_lookup pd' m' w = (if unat base \<le> unat w \<and> unat w < unat base + n * 4096
        then Some (sec_entry secs base a ((unat w - unat base) div 4096)) else pd_lookup pd m w)) \<and>
     (\<forall>f. length (phys m' f) = 4096) \<and> (\<forall>f. (\<forall>k < n. f \<noteq> a + word_of_nat k * PAGE_SIZE) \<longrightarrow> phys m' f = phys m f)"

lemma map_section_pages:
  assumes ok: "pd_ok (directory pd) m" "\<not> batch_enabled pd" "mapping_tasks pd = []" and al: "paged al"
    and pg: "\<And>f. length (phys m f) = 4096" and b: "IS_PAGE_ALIGNED base" "unat base + n * 4096 \<le> 2 ^ 32"
    and a: "IS_PAGE_ALIGNED a" "unat a + n * 4096 \<le> 2 ^ 32" and pd1: "pd1 = pd\<lparr>batch_enabled := True\<rparr>"
    and secs: "secs \<noteq> []" "\<forall>s \<in> set secs. flags_ok s"
  obtains r pd2 m2 where "map_sections_loop al secs n base a pd1 m = Some (r, pd2, m2)" "r < 0"
  | pd2 m2 pd3 m3 m4 where "map_sections_loop al secs n base a pd1 m = Some (0, pd2, m2)"
    "pd_commit_mapping pd2 m2 = Some (pd3, m3)" "memset_zero pd3 base (n * 1024) m3 = Some m4"
    "sections_at secs base n a pd m pd3 m4" "p_addr_list pd3 = p_addr_list pd"
proof -
  let ?rs = "sec_reqs secs n base a"
  have bg: "pd_begin_mapping (Some pd) = (0, Some pd1)" using ok(2) pd1 by (simp add: pd_begin_mapping_def)
  have b1: "batch_enabled pd1" by (simp add: pd1)
  obtain r pd2 m2 where c: "create_all al pd1 ?rs m = Some (r, pd2, m2)" "r = 0 \<longrightarrow>
      (\<exists>pd3 m3. pd_commit_mapping pd2 m2 = Some (pd3, m3) \<and> pd_ok (directory pd3) m3 \<and>
        \<not> batch_enabled pd3 \<and> mapping_tasks pd3 = [] \<and> (\<forall>w. pd_lookup pd3 m3 w = map_all ?rs (pd_lookup pd m) w))"
    using batch_commit [OF ok(1) al ok(2,3) sec_reqs_args [OF secs(2) b(1) a(1), of n] bg] by blast
  have r: "r \<le> 0" using create_all_codes [OF c(1)] .
  note loop = map_sections_loop_batch [OF secs(1) b(1) c(1)]
  show thesis
  proof (cases "r = 0")
    case False
    then show thesis using that(1) loop r by simp
  next
    case True
    then obtain pd3 m3 where d: "pd_commit_mapping pd2 m2 = Some (pd3, m3)" "pd_ok (directory pd3) m3" "\<not> batch_enabled pd3"
      "mapping_tasks pd3 = []" "\<And>w. pd_lookup pd3 m3 w = map_all ?rs (pd_lookup pd m) w" using c(2) by blast
    have f: "phys m3 = phys m" "p_addr_list pd3 = p_addr_list pd"
      using create_all_fields [OF c(1) b1] commit_fields [OF d(1)] by (simp_all add: pd1)
    have lk: "pd_lookup pd3 m3 w = (if unat base \<le> unat w \<and> unat w < unat base + n * 4096
        then Some (sec_entry secs base a ((unat w - unat base) div 4096)) else pd_lookup pd m w)" for w
      using d(5) map_sec_reqs [OF a(1) b(1) _ secs(2), of n "pd_lookup pd m" w] b(2) by (simp add: mult.commute)
    have e: "pd_lookup pd3 m3 (base + word_of_nat k * PAGE_SIZE) = Some (sec_entry secs base a k)" if "k * 4096 < n * 1024" for k
    proof -
      have "k < n" using that by simp
      then show ?thesis using lk [of "base + word_of_nat k * PAGE_SIZE"] unat_offset [OF b(2)] by simp
    qed
    have pg3: "length (phys m3 f) = 4096" for f using pg f(1) by simp
    obtain ph where ph: "memset_zero pd3 base (n * 1024) m3 = Some (m3\<lparr>phys := ph\<rparr>)" "\<forall>f. length (ph f) = 4096"
        "\<forall>f. (\<forall>k. k * 4096 < n * 1024 \<longrightarrow> f \<noteq> REMOVE_FLAGS (sec_entry secs base a k)) \<longrightarrow> ph f = phys m3 f"
      using memset_part [OF d(2) pg3 e] by blast
    have "ph f = phys m f" if "\<forall>k < n. f \<noteq> a + word_of_nat k * PAGE_SIZE" for f
      using ph(3) f(1) that sec_entry_frame [OF a(1) secs(2), of base] by auto
    then have "sections_at secs base n a pd m pd3 (m3\<lparr>phys := ph\<rparr>)"
      unfolding sections_at_def using d(2-4) lk ph(2) a by simp
    then show thesis using that(2) [OF _ d(1) ph(1) _ f(2)] loop True by simp
  qed
qed

lemma sections_at_cong:
  assumes "sections_at secs base n a pd m pd' m'" "directory pd = directory pd0" "pts m = pts m0" "phys m = phys m0"
  shows "sections_at secs base n a pd0 m0 pd' m'"
proof -
  have l: "pd_lookup pd m = pd_lookup pd0 m0" using assms(2,3) by (simp add: fun_eq_iff pd_lookup_def pd_view_def)
  show ?thesis using assms(1) unfolding sections_at_def assms(4) l .
qed

definition map_sections_result :: "int \<Rightarrow> mem_section list \<Rightarrow> u32 \<Rightarrow> nat \<Rightarrow> page_directory \<Rightarrow> vmem \<Rightarrow> frame_manager \<Rightarrow> page_directory \<Rightarrow> vmem \<Rightarrow> frame_manager \<Rightarrow> bool" where
  "map_sections_result r secs base n pd m fm pd' m' fm' \<longleftrightarrow>
     (if r = 0 then \<exists>a j. n \<le> 2 ^ j \<and> 2 ^ j < 2 * n \<and> alloc_blocks fm' = insert (a, j) (alloc_blocks fm) \<and>
        (\<forall>b \<in> alloc_blocks fm. block_bytes (a, j) \<inter> block_bytes b = {}) \<and>
        sections_at secs base n a pd m pd' m' \<and> p_addr_list pd' = \<lparr>md_p_addr = a, md_num_pages = word_of_nat n\<rparr> # p_addr_list pd
      else r < 0 \<and> alloc_blocks fm' = alloc_blocks fm)"

lemma map_sections_ok:
  assumes ok: "pd_ok (directory pd) m" "\<not> batch_enabled pd" "mapping_tasks pd = []" and al: "paged (c_al c)"
    and pg: "\<And>f. length (phys m f) = 4096" and secs: "secs \<noteq> []" "\<forall>s \<in> set secs. flags_ok s"
    and hull: "ms_get_bounding_addr (Some secs) = (0, Some (low, high))" "low \<le> high" "4096 \<le> unat low" "0 < hull_pages low high"
    and fm: "fm_good M fm" "malloc_room (c_fal c)"
  shows "\<exists>r pd' m' fm'. vmm_map_sections c junk (Some pd) (Some secs) m fm = Some (r, Some pd', m', fm') \<and> fm_good M fm' \<and>
    map_sections_result r secs (PAGE_ALIGN_DOWN low) (hull_pages low high) pd m fm pd' m' fm'"
proof -
  let ?base = "PAGE_ALIGN_DOWN low" and ?n = "hull_pages low high"
  define np where "np = (PAGE_ALIGN_UP high - 1 - ?base + 1) div PAGE_SIZE"
  have n: "unat np = ?n" unfolding np_def by (rule hull_count(1) [OF hull(2,3)])
  have np: "unat np = ?n" "np = word_of_nat ?n" "np \<noteq> 0" using n hull(4) by (auto simp flip: n)
  have b: "IS_PAGE_ALIGNED ?base" "unat ?base + ?n * 4096 \<le> 2 ^ 32" using align_down_aligned hull_count(2) [OF hull(2,3)] by auto
  have "0 < unat ?base" using hull(3) div_le_mono [OF hull(3), of 4096] by (simp add: align_down_nat)
  then have sz: "unat (np * PAGE_SIZE div 4) = ?n * 1024" using np(1) b(2) by (simp add: unat_div unat_word_ariths PAGE_SIZE_def)
  let ?run = "vmm_map_sections c junk (Some pd) (Some secs) m fm"
  have np2: "(PAGE_ALIGN_UP high - ?base) div PAGE_SIZE = np" by (simp add: np_def)
  note start = vmm_map_sections_def np2 Let_def
  show ?thesis
  proof (rule fm_alloc_returns [OF fm, of "c_junk c" "c_env c" np])
    fix r assume "fm_alloc (c_fal c) (c_junk c) (c_env c) np fm = Some (r, None, fm)" "r < 0"
    then have "?run = Some (-2, Some pd, m, fm)" using secs(1) hull(1) np(3) by (simp add: start)
    then show ?thesis using fm(1) by (intro exI conjI) (assumption, auto simp: map_sections_result_def)
  next
    fix a j fm1 assume f: "fm_alloc (c_fal c) (c_junk c) (c_env c) np fm = Some (0, Some a, fm1)" "fm_good M fm1"
      "unat np \<le> 2 ^ j" "2 ^ j < 2 * unat np" "alloc_blocks fm1 = insert (a, j) (alloc_blocks fm)" "(a, j) \<notin> alloc_blocks fm"
      "IS_PAGE_ALIGNED a" "\<forall>c \<in> alloc_blocks fm. block_bytes (a, j) \<inter> block_bytes c = {}" "unat a + 2 ^ j * 4096 \<le> 2 ^ 32"
    have a2: "unat a + ?n * 4096 \<le> 2 ^ 32" using f(3,9) np(1) mult_le_mono1 [of ?n "2 ^ j" 4096] by linarith
    show ?thesis
    proof (rule pd_alloc_frame_cases [of "c_al c" pd a np m])
      fix e m1 assume p: "pd_alloc_frame (c_al c) (Some pd) a np m = (e, Some (pd\<lparr>num_pages := num_pages pd + np\<rparr>), m1)" "e < 0"
      obtain fm2 where d: "fm_dealloc (c_fal c) (c_env c) a fm1 = Some (0, fm2)" "fm_good M fm2" "alloc_blocks fm2 = alloc_blocks fm"
        by (rule fm_give_back [OF f(2) fm(2) f(5,6)])
      have "?run = Some (-3, Some (pd\<lparr>num_pages := num_pages pd + np\<rparr>), m1, fm2)"
        using secs(1) hull(1) np(3) f(1) p d(1) by (simp add: start)
      then show ?thesis using d(2,3) by (intro exI conjI) (assumption, auto simp: map_sections_result_def)
    next
      let ?pd = "pd\<lparr>num_pages := num_pages pd + np, p_addr_list := \<lparr>md_p_addr = a, md_num_pages = np\<rparr> # p_addr_list pd\<rparr>"
      fix m1 assume p: "pd_alloc_frame (c_al c) (Some pd) a np m = (0, Some ?pd, m1)" "pts m1 = pts m" "phys m1 = phys m"
      have pre: "pd_ok (directory ?pd) m1" "\<not> batch_enabled ?pd" "mapping_tasks ?pd = []" "\<And>f. length (phys m1 f) = 4096"
        using ok pd_ok_pts [OF p(2)] pg p(3) by simp_all
      let ?pd1 = "?pd\<lparr>batch_enabled := True\<rparr>"
      have bg: "pd_begin_mapping (Some ?pd) = (0, Some ?pd1)" using ok(2) by (simp add: pd_begin_mapping_def)
      show ?thesis
      proof (rule map_section_pages [OF pre(1-3) al pre(4) b f(7) a2 refl secs])
        fix r pd2 m2 assume l: "map_sections_loop (c_al c) secs ?n ?base a ?pd1 m1 = Some (r, pd2, m2)" "r < 0"
        obtain pd3 m3 fm3 where u: "undo_mapping c r a pd2 m2 fm1 = Some (r, Some pd3, m3, fm3)" "fm_good M fm3"
          "alloc_blocks fm3 = alloc_blocks fm" using undo_ok [OF f(2) fm(2) f(5,6)] by blast
        have "?run = Some (r, Some pd3, m3, fm3)"
          using secs(1) hull(1) np f(1) p(1) bg l u(1) by (simp add: start)
        then show ?thesis using u(2,3) l(2) by (intro exI conjI) (assumption, auto simp: map_sections_result_def)
      next
        fix pd2 m2 pd3 m3 m4 assume l: "map_sections_loop (c_al c) secs ?n ?base a ?pd1 m1 = Some (0, pd2, m2)"
          "pd_commit_mapping pd2 m2 = Some (pd3, m3)" "memset_zero pd3 ?base (?n * 1024) m3 = Some m4"
          "sections_at secs ?base ?n a ?pd m1 pd3 m4" "p_addr_list pd3 = p_addr_list ?pd"
        have "?run = Some (0, Some pd3, m4, fm1)"
          using secs(1) hull(1) np(1,3) f(1) p(1) bg l(1-3) by (simp add: start sz)
        moreover have "sections_at secs ?base ?n a pd m pd3 m4" by (rule sections_at_cong [OF l(4)]) (simp_all add: p)
        ultimately show ?thesis
          using f(2-5,8) l(5) np(1,2) unfolding map_sections_result_def by (intro exI conjI) (assumption, auto)
      qed
    qed
  qed
qed

lemma hull_ordered: "ms_get_bounding_addr (Some secs) = (0, Some (low, high)) \<Longrightarrow> low \<le> high"
  by (auto simp: ms_get_bounding_addr_def Let_def not_less split: if_splits prod.splits)

lemma round_up: "(x + 4095) div 4096 * 4096 = (if x mod 4096 = 0 then x else x div 4096 * 4096 + 4096)" for x :: nat
proof -
  define q r where "q = x div 4096" and "r = x mod 4096"
  then have x: "x = 4096 * q + r" "r < 4096" by simp_all
  have "(x + 4095) div 4096 = q + (r + 4095) div 4096" unfolding x(1) by (simp add: add.assoc)
  moreover have "(r + 4095) div 4096 = (if r = 0 then 0 else 1)" using x(2) by (auto intro!: div_nat_eqI)
  ultimately show ?thesis unfolding q_def [symmetric] r_def [symmetric] using x(1) by simp
qed

text \<open>Which bytes of the hull its pages contain: all but a last byte that starts a page.\<close>

lemma hull_bytes:
  assumes "low \<le> high"
  shows "unat low \<le> unat w \<Longrightarrow> unat w < unat high \<Longrightarrow>
      unat (PAGE_ALIGN_DOWN low) \<le> unat w \<and> unat w < unat (PAGE_ALIGN_DOWN low) + hull_pages low high * 4096"
    and "unat high < unat (PAGE_ALIGN_DOWN low) + hull_pages low high * 4096 \<longleftrightarrow> unat high mod 4096 \<noteq> 0"
proof -
  have l: "unat low div 4096 \<le> (unat high + 4095) div 4096" using assms by (intro div_le_mono) (simp add: word_le_nat_alt)
  then have e: "unat (PAGE_ALIGN_DOWN low) + hull_pages low high * 4096 = (unat high + 4095) div 4096 * 4096"
    by (simp add: align_down_nat hull_pages_def diff_mult_distrib)
  have d: "unat high = unat high div 4096 * 4096 + unat high mod 4096" "unat high mod 4096 < 4096" by simp_all
  have "unat high \<le> (unat high + 4095) div 4096 * 4096" unfolding round_up using d by (simp only: split: if_split) linarith
  moreover have "4096 * (unat low div 4096) \<le> unat low" by (rule times_div_less_eq_dividend)
  ultimately show "unat low \<le> unat w \<Longrightarrow> unat w < unat high \<Longrightarrow>
      unat (PAGE_ALIGN_DOWN low) \<le> unat w \<and> unat w < unat (PAGE_ALIGN_DOWN low) + hull_pages low high * 4096"
    unfolding e unfolding align_down_nat by linarith
  show "unat high < unat (PAGE_ALIGN_DOWN low) + hull_pages low high * 4096 \<longleftrightarrow> unat high mod 4096 \<noteq> 0" unfolding e round_up using d by (simp only: split: if_split) linarith
qed


definition odd_section :: mem_section where
  "odd_section = \<lparr>ms_start = 0x1000000, ms_len = 0x2001, ms_pde_f = USER_WR, ms_pte_f = USER_WR\<rparr>"


end
