(* ===== verification/LoaderCorrect.thy ===== *)
theory LoaderCorrect
  imports Loader MapSections
begin

text \<open>
  The user stack that \<open>load_user_stack\<close> prepares. Freshly mapped pages are an array of bytes (\<open>bytes_are\<close>): a store changes one byte and no
  other, because no two of their addresses share a byte of physical memory. The loops of the loader then are updates of that array.
\<close>

subsection \<open>Mapped memory as an array\<close>

definition apart :: "page_directory \<Rightarrow> u32 \<Rightarrow> nat \<Rightarrow> vmem \<Rightarrow> bool" where
  "apart pd lo n m \<longleftrightarrow> (\<forall>i < n. \<forall>j < n. i \<noteq> j \<longrightarrow>
     frame_of pd (lo + word_of_nat i) m \<noteq> frame_of pd (lo + word_of_nat j) m \<or> page_off (lo + word_of_nat i) \<noteq> page_off (lo + word_of_nat j))"

definition bytes_are :: "page_directory \<Rightarrow> u32 \<Rightarrow> nat \<Rightarrow> vmem \<Rightarrow> (nat \<Rightarrow> 8 word) \<Rightarrow> bool" where
  "bytes_are pd lo n m f \<longleftrightarrow> apart pd lo n m \<and> (\<forall>i < n. get_byte pd (lo + word_of_nat i) m = Some (f i))"

lemma store_byte:
  assumes "bytes_are pd lo n m f" "i < n"
  obtains m' where "set_byte pd (lo + word_of_nat i) v m = Some m'" "bytes_are pd lo n m' (f(i := v))"
proof -
  let ?a = "\<lambda>i. lo + word_of_nat i :: u32"
  have ap: "apart pd lo n m" and g: "\<And>i. i < n \<Longrightarrow> get_byte pd (?a i) m = Some (f i)" using assms(1) by (auto simp: bytes_are_def)
  obtain m' where m': "set_byte pd (?a i) v m = Some m'" using set_byte_defined [of pd "?a i" m v] g [OF assms(2)] by auto
  have fr: "frame_of pd b m' = frame_of pd b m" for b by (rule set_byte_result [OF m']) simp
  have "get_byte pd (?a j) m' = Some ((f(i := v)) j)" if "j < n" for j
    using get_set_byte [OF m', of "?a j"] ap g [OF that] assms(2) that unfolding apart_def by (cases "j = i") auto
  moreover have "apart pd lo n m'" using ap by (simp add: apart_def fr)
  ultimately show thesis using that m' by (simp add: bytes_are_def)
qed

text \<open>\<open>put_at f i bs\<close>: the array with the bytes \<open>bs\<close> stored from index \<open>i\<close> on.\<close>

definition put_at :: "(nat \<Rightarrow> 8 word) \<Rightarrow> nat \<Rightarrow> 8 word list \<Rightarrow> (nat \<Rightarrow> 8 word)" where
  "put_at f i bs = (\<lambda>k. if i \<le> k \<and> k < i + length bs then bs ! (k - i) else f k)"

lemma put_at_Nil [simp]: "put_at f i [] = f"
  by (auto simp: put_at_def fun_eq_iff)

lemma put_at_Cons: "put_at f i (b # bs) = put_at (f(i := b)) (Suc i) bs"
  by (auto simp: put_at_def fun_eq_iff nth_Cons' not_le)

lemma put_at_below: "put_at (put_at f (i + length xs) ys) i xs = put_at f i (xs @ ys)"
  by (auto simp: put_at_def fun_eq_iff nth_append)

lemma next_byte: "(lo + word_of_nat i + 1 :: u32) = lo + word_of_nat (Suc i)"
  by simp

lemma store_bytes:
  assumes "bytes_are pd lo n m f" "i + length bs \<le> n"
  obtains m' where "set_bytes pd (lo + word_of_nat i) bs m = Some m'" "bytes_are pd lo n m' (put_at f i bs)"
  using assms
proof (induction bs arbitrary: i m f thesis)
  case (Cons b bs)
  have "i < n" using Cons.prems(3) by simp
  then obtain m1 where m1: "set_byte pd (lo + word_of_nat i) b m = Some m1" "bytes_are pd lo n m1 (f(i := b))" by (rule store_byte [OF Cons.prems(2)])
  obtain m' where m': "set_bytes pd (lo + word_of_nat (Suc i)) bs m1 = Some m'" "bytes_are pd lo n m' (put_at (f(i := b)) (Suc i) bs)"
    by (rule Cons.IH [OF _ m1(2), of "Suc i"]) (use Cons.prems(3) in \<open>simp_all del: of_nat_Suc\<close>)
  have "set_bytes pd (lo + word_of_nat i) (b # bs) m = Some m'" using m1(1) m'(1) by (simp only: set_bytes.simps Option.bind_lunit next_byte)
  then show ?case using Cons.prems(1) m'(2) by (simp add: put_at_Cons)
qed simp

lemma load_bytes:
  assumes "bytes_are pd lo n m f" "i + k \<le> n"
  shows "get_bytes pd (lo + word_of_nat i) k m = Some (map f [i..<i + k])"
  using assms(2)
proof (induction k arbitrary: i)
  case (Suc k)
  have "get_byte pd (lo + word_of_nat i) m = Some (f i)" using assms(1) Suc.prems by (simp add: bytes_are_def)
  moreover have "get_bytes pd (lo + word_of_nat i + 1) k m = Some (map f [Suc i..<Suc i + k])"
    unfolding next_byte by (rule Suc.IH) (use Suc.prems in simp)
  moreover have "[i..<i + Suc k] = i # [Suc i..<Suc i + k]" by (simp add: upt_conv_Cons del: upt_Suc)
  ultimately show ?case by (simp del: of_nat_Suc upt_Suc)
qed simp

definition holds_at :: "(nat \<Rightarrow> 8 word) \<Rightarrow> nat \<Rightarrow> 8 word list \<Rightarrow> bool" where
  "holds_at f i bs \<longleftrightarrow> map f [i..<i + length bs] = bs"

lemma holds_at_nth: "holds_at f i bs \<longleftrightarrow> (\<forall>k < length bs. f (i + k) = bs ! k)"
  unfolding holds_at_def list_eq_iff_nth_eq by simp

lemma holds_put [simp]: "holds_at (put_at f i bs) i bs"
  by (simp add: holds_at_nth put_at_def)

lemma holds_put_other: "holds_at f j bs \<Longrightarrow> j + length bs \<le> i \<or> i + length xs \<le> j \<Longrightarrow> holds_at (put_at f i xs) j bs"
  by (auto simp: holds_at_nth put_at_def)

lemma get_words_bytes: "get_bytes pd a (4 * length ws) m = Some (bytes_of_words ws) \<Longrightarrow> get_words pd a (length ws) m = Some ws"
proof (induction ws arbitrary: a)
  case (Cons w ws)
  have b: "bytes_of_words (w # ws) = bytes_of_word w @ bytes_of_words ws" by (simp add: bytes_of_words_def)
  obtain xs ys where x: "get_bytes pd a 4 m = Some xs" "get_bytes pd (a + 4) (4 * length ws) m = Some ys" "xs @ ys = bytes_of_word w @ bytes_of_words ws"
    using Cons.prems get_bytes_add [of pd a 4 "4 * length ws" m] unfolding b by (auto simp: bind_eq_Some_conv)
  have "length xs = 4" using x(1) by (auto simp: numeral_eq_Suc bind_eq_Some_conv)
  then have "xs = bytes_of_word w" "ys = bytes_of_words ws" using x(3) by (auto simp: append_eq_append_conv length_bytes_of_word)
  then show ?case using Cons.IH x word_of_bytes_of_word [of w] by (simp add: get_word_def)
qed simp

text \<open>The pages that \<open>vmm_map_sections\<close> has mapped are such an array.\<close>

lemma mapped_bytes:
  assumes "sections_at secs base n a pd m pd' m'" "\<forall>s \<in> set secs. flags_ok s" "IS_PAGE_ALIGNED base" "unat base + n * 4096 \<le> 2 ^ 32"
  shows "\<exists>f. bytes_are pd' base (n * 4096) m' f"
proof -
  note s = assms(1) [unfolded sections_at_def]
  have a: "IS_PAGE_ALIGNED a" "unat a + n * 4096 \<le> 2 ^ 32" and len: "\<forall>f. length (phys m' f) = 4096" using s by blast+
  have i: "unat (base + word_of_nat i) = unat base + i" if "i < n * 4096" for i
    using that assms(4) by (simp add: unat_word_ariths unat_of_nat)
  have fr: "frame_of pd' (base + word_of_nat i) m' = Some (a + word_of_nat (i div 4096) * PAGE_SIZE)" if "i < n * 4096" for i
  proof -
    have "pd_lookup pd' m' (base + word_of_nat i) = Some (sec_entry secs base a (i div 4096))" using s i [OF that] that by simp
    then show ?thesis using pd_get_mapping_ok [of pd' m' "base + word_of_nat i"] s sec_entry_frame [OF a(1) assms(2)] by (simp add: frame_of_def)
  qed
  have off: "page_off (base + word_of_nat i) = i mod 4096" for i
    using assms(3) unfolding page_off_add by (simp add: aligned_unat page_off_mod mod_add_left_eq [symmetric])
  have "apart pd' base (n * 4096) m'" unfolding apart_def
  proof (intro allI impI)
    fix i j assume ij: "i < n * 4096" "j < n * 4096" "i \<noteq> j"
    have k: "i div 4096 < n" "j div 4096 < n" using ij by (simp_all add: div_less_iff_less_mult)
    have "i div 4096 \<noteq> j div 4096 \<or> i mod 4096 \<noteq> j mod 4096" using ij(3) by (metis div_mult_mod_eq)
    moreover have "a + word_of_nat (i div 4096) * PAGE_SIZE \<noteq> a + word_of_nat (j div 4096) * PAGE_SIZE" if "i div 4096 \<noteq> j div 4096"
      using unat_offset [OF a(2) k(1)] unat_offset [OF a(2) k(2)] that by auto
    ultimately show "frame_of pd' (base + word_of_nat i) m' \<noteq> frame_of pd' (base + word_of_nat j) m' \<or> page_off (base + word_of_nat i) \<noteq> page_off (base + word_of_nat j)"
      unfolding off fr [OF ij(1)] fr [OF ij(2)] by auto
  qed
  moreover have "get_byte pd' (base + word_of_nat i) m' = Some (phys m' (a + word_of_nat (i div 4096) * PAGE_SIZE) ! (i mod 4096))" if "i < n * 4096" for i
    unfolding get_byte_def fr [OF that] off Option.bind_lunit using len by simp
  ultimately have "bytes_are pd' base (n * 4096) m' (\<lambda>i. phys m' (a + word_of_nat (i div 4096) * PAGE_SIZE) ! (i mod 4096))" unfolding bytes_are_def by blast
  then show ?thesis by blast
qed

subsection \<open>The loops of the loader\<close>

lemma idx_diff: "k \<le> i \<Longrightarrow> (lo + word_of_nat i - word_of_nat k :: u32) = lo + word_of_nat (i - k)"
  by (simp add: of_nat_diff)

lemma put_at_single: "put_at f i [x] = f(i := x)"
  by (simp add: put_at_Cons)

lemma push_chars_ok:
  assumes "bytes_are pd lo n m f" "length xs \<le> i" "i \<le> n"
  shows "\<exists>m'. push_chars pd xs (lo + word_of_nat i) m = Some (lo + word_of_nat (i - length xs), m') \<and> bytes_are pd lo n m' (put_at f (i - length xs) (rev xs))"
  using assms
proof (induction xs arbitrary: i m f)
  case (Cons x xs)
  have d: "(lo + word_of_nat i - 1 :: u32) = lo + word_of_nat (i - 1)" using idx_diff [of 1 i lo] Cons.prems(2) by simp
  have "i - 1 < n" using Cons.prems by simp
  then obtain m1 where m1: "set_byte pd (lo + word_of_nat (i - 1)) x m = Some m1" "bytes_are pd lo n m1 (f(i - 1 := x))" by (rule store_byte [OF Cons.prems(1)])
  obtain m' where m': "push_chars pd xs (lo + word_of_nat (i - 1)) m1 = Some (lo + word_of_nat (i - 1 - length xs), m')"
      "bytes_are pd lo n m' (put_at (f(i - 1 := x)) (i - 1 - length xs) (rev xs))"
    using Cons.IH [OF m1(2), of "i - 1"] Cons.prems(2,3) by fastforce
  have "put_at (f(i - 1 := x)) (i - 1 - length xs) (rev xs) = put_at f (i - 1 - length xs) (rev (x # xs))"
    using put_at_below [of f "i - 1 - length xs" "rev xs" "[x]"] Cons.prems(2) by (simp add: put_at_single)
  then show ?case using m1(1) m' by (simp add: d)
qed simp

definition args_size :: "8 word list list \<Rightarrow> nat" where
  "args_size args = sum_list (map (\<lambda>a. Suc (length a)) args)"

definition arg_at :: "u32 \<Rightarrow> (nat \<Rightarrow> 8 word) \<Rightarrow> nat \<Rightarrow> nat \<Rightarrow> 8 word list \<Rightarrow> u32 \<Rightarrow> bool" where
  "arg_at lo f e i arg a \<longleftrightarrow> (\<exists>q. a = lo + word_of_nat q \<and> e < q \<and> q + length arg \<le> i \<and> holds_at f q (arg @ [0]))"

lemma push_args_ok:
  assumes "bytes_are pd lo n m f" "args_size args \<le> i" "i < n"
  shows "\<exists>as m' f'. push_args pd args (lo + word_of_nat i) m = Some (as, lo + word_of_nat (i - args_size args), m') \<and> bytes_are pd lo n m' f' \<and>
    list_all2 (arg_at lo f' (i - args_size args) i) args as \<and> (\<forall>j. i < j \<longrightarrow> f' j = f j)"
  using assms
proof (induction args arbitrary: i m f)
  case Nil
  then show ?case by (auto simp: args_size_def)
next
  case (Cons arg args)
  let ?l = "length arg" and ?i = "i - Suc (length arg)"
  have sz: "args_size (arg # args) = Suc ?l + args_size args" by (simp add: args_size_def)
  have l: "?l \<le> i" "Suc ?l \<le> i" using Cons.prems(2) sz by simp_all
  have i': "args_size args \<le> ?i" "?i < n" using Cons.prems(2,3) sz by simp_all
  obtain m1 where m1: "set_byte pd (lo + word_of_nat i) 0 m = Some m1" "bytes_are pd lo n m1 (f(i := 0))" by (rule store_byte [OF Cons.prems(1,3)])
  let ?f2 = "put_at (f(i := 0)) (i - ?l) arg"
  obtain m2 where m2: "push_chars pd (rev arg) (lo + word_of_nat i) m1 = Some (lo + word_of_nat (i - ?l), m2)" "bytes_are pd lo n m2 ?f2"
    using push_chars_ok [OF m1(2), of "rev arg" i] l Cons.prems(3) by auto
  have d: "(lo + word_of_nat (i - ?l) - 1 :: u32) = lo + word_of_nat ?i" using idx_diff [of 1 "i - ?l" lo] l by simp
  obtain as m' f' where r: "push_args pd args (lo + word_of_nat ?i) m2 = Some (as, lo + word_of_nat (?i - args_size args), m')" "bytes_are pd lo n m' f'"
      "list_all2 (arg_at lo f' (?i - args_size args) ?i) args as" "\<forall>j. ?i < j \<longrightarrow> f' j = ?f2 j"
    using Cons.IH [OF m2(2), of ?i] i' by blast
  have "?f2 = put_at f (i - ?l) (arg @ [0])" using put_at_below [of f "i - ?l" arg "[0]"] l by (simp add: put_at_single)
  then have "holds_at ?f2 (i - ?l) (arg @ [0])" by simp
  then have "holds_at f' (i - ?l) (arg @ [0])" using r(4) l by (simp add: holds_at_nth)
  moreover have "f' j = f j" if "i < j" for j using r(4) that l by (simp add: put_at_def)
  moreover have "?i - args_size args < i - ?l" using l by simp
  ultimately have "arg_at lo f' (i - args_size (arg # args)) i arg (lo + word_of_nat (i - ?l))" "\<forall>j. i < j \<longrightarrow> f' j = f j"
    using l unfolding arg_at_def sz by (auto intro!: exI [of _ "i - ?l"])
  moreover have "list_all2 (arg_at lo f' (i - args_size (arg # args)) i) args as"
    using r(3) by (rule list_all2_mono) (auto simp: arg_at_def sz)
  ultimately have at: "list_all2 (arg_at lo f' (i - args_size (arg # args)) i) (arg # args) ((lo + word_of_nat (i - ?l)) # as)" "\<forall>j. i < j \<longrightarrow> f' j = f j"
    by (simp_all del: of_nat_diff)
  have e: "?i - args_size args = i - args_size (arg # args)" by (simp add: sz)
  have "push_args pd (arg # args) (lo + word_of_nat i) m = Some ((lo + word_of_nat (i - ?l)) # as, lo + word_of_nat (i - args_size (arg # args)), m')"
    by (simp only: push_args.simps m1(1) m2(1) d r(1) e Option.bind_lunit prod.case)
  then show ?case using at r(2) by blast
qed

lemma push_addrs_ok:
  assumes "bytes_are pd lo n m f" "4 * length as \<le> s" "s + 4 \<le> n"
  shows "\<exists>m'. push_addrs pd as (lo + word_of_nat s) m = Some (lo + word_of_nat (s - 4 * length as), m') \<and>
    bytes_are pd lo n m' (put_at f (s + 4 - 4 * length as) (bytes_of_words (rev as)))"
  using assms
proof (induction as arbitrary: s m f)
  case Nil
  then show ?case by (simp add: bytes_of_words_def)
next
  case (Cons a as)
  have "s + length (bytes_of_word a) \<le> n" using Cons.prems(3) by (simp add: length_bytes_of_word)
  then obtain m1 where m1: "set_bytes pd (lo + word_of_nat s) (bytes_of_word a) m = Some m1" "bytes_are pd lo n m1 (put_at f s (bytes_of_word a))"
    by (rule store_bytes [OF Cons.prems(1)])
  have d: "(lo + word_of_nat s - 4 :: u32) = lo + word_of_nat (s - 4)" using idx_diff [of 4 s lo] Cons.prems(2) by simp
  obtain m' where m': "push_addrs pd as (lo + word_of_nat (s - 4)) m1 = Some (lo + word_of_nat (s - 4 - 4 * length as), m')"
      "bytes_are pd lo n m' (put_at (put_at f s (bytes_of_word a)) (s - 4 + 4 - 4 * length as) (bytes_of_words (rev as)))"
    using Cons.IH [OF m1(2), of "s - 4"] Cons.prems(2,3) by fastforce
  have "put_at (put_at f s (bytes_of_word a)) (s - 4 * length as) (bytes_of_words (rev as)) = put_at f (s - 4 * length as) (bytes_of_words (rev (a # as)))"
    using put_at_below [of f "s - 4 * length as" "bytes_of_words (rev as)" "bytes_of_word a"] Cons.prems(2)
    by (simp add: length_bytes_of_words) (simp add: bytes_of_words_def)
  then show ?case using m1(1) m' Cons.prems(2) by (simp add: d set_word_def)
qed

subsection \<open>The whole stack\<close>

lemma stack_consts: "USER_STACK_TOP = USER_STACK_BOTTOM + word_of_nat 0x1FF0" "unat USER_STACK_BOTTOM = 0xFFFFE000"
  by (simp_all add: USER_STACK_TOP_def USER_STACK_BOTTOM_def)

lemma round_down: "e < 0x2000 \<Longrightarrow> 4 \<le> e \<Longrightarrow>
    (USER_STACK_BOTTOM + word_of_nat e) - (USER_STACK_BOTTOM + word_of_nat e) mod 4 - 4 = USER_STACK_BOTTOM + word_of_nat (4 * (e div 4) - 4)"
proof -
  assume e: "e < 0x2000" "4 \<le> e"
  have q: "1 \<le> e div 4" using div_le_mono [OF e(2), of 4] by simp
  let ?a = "USER_STACK_BOTTOM + word_of_nat e"
  have "unat ?a = 0xFFFFE000 + e" using e(1) by (simp add: unat_word_ariths unat_of_nat stack_consts(2))
  then have "unat (?a mod 4) = (0xFFFFE000 + e) mod 4" by (simp add: unat_mod)
  also have "\<dots> = e mod 4" by (simp add: mod_add_left_eq [symmetric])
  finally have u: "unat (?a mod 4) = e mod 4" .
  have "?a mod 4 = word_of_nat (e mod 4)" unfolding u [symmetric] by simp
  then have "?a - ?a mod 4 - 4 = ?a - word_of_nat (e mod 4 + 4)" by simp
  also have "\<dots> = USER_STACK_BOTTOM + word_of_nat (e - (e mod 4 + 4))"
    by (rule idx_diff) (use q div_mult_mod_eq [of e 4] in linarith)
  also have "e - (e mod 4 + 4) = 4 * (e div 4) - 4" by (metis diff_diff_add minus_mod_eq_mult_div)
  finally show ?thesis .
qed

definition stack_image :: "page_directory \<Rightarrow> vmem \<Rightarrow> u32 \<Rightarrow> 8 word list list \<Rightarrow> bool" where
  "stack_image pd m sp args \<longleftrightarrow> (\<exists>av ptrs.
     get_words pd sp 5 m = Some [0, word_of_nat (length args), av, USER_STACK_TOP, USER_STACK_BOTTOM] \<and>
     get_words pd av (length args) m = Some ptrs \<and>
     list_all2 (\<lambda>arg a. get_bytes pd a (length arg + 1) m = Some (arg @ [0])) args ptrs \<and> USER_STACK_BOTTOM \<le> sp)"

lemma stack_written:
  assumes "bytes_are pd USER_STACK_BOTTOM 0x2000 m f" "args_size args + 4 * length args + 24 \<le> 0x1FF0"
  shows "\<exists>new_argv esp m1 st m2 m3. push_args pd args USER_STACK_TOP m = Some (new_argv, esp, m1) \<and>
    push_addrs pd (rev new_argv) (esp - esp mod 4 - 4) m1 = Some (st, m2) \<and>
    set_words pd (st - 16) [0, word_of_nat (length args), st + 4, USER_STACK_TOP, USER_STACK_BOTTOM] m2 = Some m3 \<and>
    stack_image pd m3 (st - 16) args"
proof -
  let ?lo = USER_STACK_BOTTOM and ?n = "length args"
  define e where "e = 0x1FF0 - args_size args"
  obtain as m1 f1 where p: "push_args pd args (?lo + word_of_nat 0x1FF0) m = Some (as, ?lo + word_of_nat e, m1)" "bytes_are pd ?lo 0x2000 m1 f1"
      "list_all2 (arg_at ?lo f1 e 0x1FF0) args as"
    using push_args_ok [OF assms(1), of args "0x1FF0"] assms(2) by (auto simp: e_def)
  have la: "length as = ?n" using p(3) by (simp add: list_all2_lengthD)
  define s where "s = 4 * (e div 4) - 4"
  define t where "t = s - 4 * ?n"
  have "e \<le> 4 * (e div 4) + 3" by presburger
  then have s: "4 \<le> e" "e < 0x2000" "s + 4 \<le> e" "4 * ?n + 16 \<le> s" "t + 4 * ?n = s" "16 \<le> t" using assms(2) unfolding s_def t_def e_def by linarith+
  obtain m2 where a: "push_addrs pd (rev as) (?lo + word_of_nat s) m1 = Some (?lo + word_of_nat t, m2)"
      "bytes_are pd ?lo 0x2000 m2 (put_at f1 (t + 4) (bytes_of_words as))"
    using push_addrs_ok [OF p(2), of "rev as" s] s la by (auto simp: t_def)
  let ?st = "?lo + word_of_nat t" and ?f2 = "put_at f1 (t + 4) (bytes_of_words as)"
  let ?ws = "[0, word_of_nat ?n, ?st + 4, USER_STACK_TOP, ?lo]"
  have lw: "length (bytes_of_words ?ws) = 20" by (simp add: length_bytes_of_words)
  have d: "?st - 16 = ?lo + word_of_nat (t - 16)" using idx_diff [of 16 t ?lo] s(6) by simp
  obtain m3 where w: "set_bytes pd (?lo + word_of_nat (t - 16)) (bytes_of_words ?ws) m2 = Some m3"
      "bytes_are pd ?lo 0x2000 m3 (put_at ?f2 (t - 16) (bytes_of_words ?ws))"
    by (rule store_bytes [OF a(2), of "t - 16" "bytes_of_words ?ws"]) (use lw s in simp_all)
  let ?f3 = "put_at ?f2 (t - 16) (bytes_of_words ?ws)"
  have rd: "get_bytes pd (?lo + word_of_nat i) (length bs) m3 = Some bs" if "holds_at ?f3 i bs" "i + length bs \<le> 0x2000" for i bs
    using load_bytes [OF w(2) that(2)] that(1) by (simp add: holds_at_def)
  have "get_bytes pd (?lo + word_of_nat (t - 16)) 20 m3 = Some (bytes_of_words ?ws)" using rd [of "t - 16" "bytes_of_words ?ws"] s unfolding lw by simp
  then have "get_bytes pd (?lo + word_of_nat (t - 16)) (4 * length ?ws) m3 = Some (bytes_of_words ?ws)" by simp
  then have "get_words pd (?lo + word_of_nat (t - 16)) (length ?ws) m3 = Some ?ws" by (rule get_words_bytes)
  moreover have "length ?ws = 5" by simp
  ultimately have "get_words pd (?st - 16) 5 m3 = Some ?ws" unfolding d by (simp only:)
  moreover have "holds_at ?f3 (t + 4) (bytes_of_words as)" by (rule holds_put_other) (use s lw in simp_all)
  then have "get_words pd (?st + 4) ?n m3 = Some as"
    using get_words_bytes [of pd "?lo + word_of_nat (t + 4)" as m3] rd [of "t + 4" "bytes_of_words as"] s la
    by (simp add: length_bytes_of_words add.assoc)
  moreover have "list_all2 (\<lambda>arg a. get_bytes pd a (length arg + 1) m3 = Some (arg @ [0])) args as"
    using p(3)
  proof (rule list_all2_mono)
    fix arg a assume "arg_at ?lo f1 e 0x1FF0 arg a"
    then obtain q where q: "a = ?lo + word_of_nat q" "e < q" "q + length arg \<le> 0x1FF0" "holds_at f1 q (arg @ [0])" by (auto simp: arg_at_def)
    have "holds_at ?f2 q (arg @ [0])" by (rule holds_put_other [OF q(4)]) (use q(2) s la in \<open>simp add: length_bytes_of_words\<close>)
    then have "holds_at ?f3 q (arg @ [0])" by (rule holds_put_other) (use q(2) s lw in simp)
    then show "get_bytes pd a (length arg + 1) m3 = Some (arg @ [0])" using rd [of q "arg @ [0]"] q(1,3) by simp
  qed
  moreover have "?lo \<le> ?st - 16" unfolding d using s(2,3,5) by (simp add: word_le_nat_alt unat_word_ariths unat_of_nat stack_consts(2))
  ultimately have "stack_image pd m3 (?st - 16) args" unfolding stack_image_def by blast
  moreover have "set_words pd (?st - 16) ?ws m2 = Some m3" unfolding d set_words_bytes by (rule w(1))
  ultimately show ?thesis using p(1) a(1) round_down [OF s(2,1)] unfolding stack_consts(1) s_def by metis
qed

lemma stack_section:
  "snd (ms_init (Some no_section) USER_STACK_BOTTOM USER_STACK_SIZE USER_WR USER_WR) =
     Some \<lparr>ms_start = 0xFFFFE000, ms_len = 0x1FF0, ms_pde_f = USER_WR, ms_pte_f = USER_WR\<rparr>"
  "ms_get_bounding_addr (Some [\<lparr>ms_start = 0xFFFFE000, ms_len = 0x1FF0, ms_pde_f = USER_WR, ms_pte_f = USER_WR\<rparr>]) = (0, Some (0xFFFFE000, 0xFFFFFFEF))"
  "hull_pages 0xFFFFE000 0xFFFFFFEF = 2" "PAGE_ALIGN_DOWN 0xFFFFE000 = USER_STACK_BOTTOM" "IS_PAGE_ALIGNED USER_STACK_BOTTOM"
  by (simp_all add: ms_init_def no_section_def USER_STACK_BOTTOM_def USER_STACK_TOP_def USER_STACK_SIZE_def ms_get_bounding_addr_def ms_end_def hull_pages_def
      PAGE_ALIGN_DOWN_def PAGE_SIZE_def IS_PAGE_ALIGNED_def)

lemma set_words_eta: "set_words pd a [] = Some" "set_words pd a (w # ws) = (\<lambda>m. set_word pd a w m \<bind> set_words pd (a + 4) ws)"
  by (simp_all add: fun_eq_iff)

lemma five_words:
  "set_words pd (st - 16) [w0, w1, w2, w3, w4] m = do {
     m \<leftarrow> set_word pd (st - 16) w0 m; m \<leftarrow> set_word pd (st - 12) w1 m; m \<leftarrow> set_word pd (st - 8) w2 m;
     m \<leftarrow> set_word pd (st - 4) w3 m; m \<leftarrow> set_word pd st w4 m; Some m }"
  by (simp add: set_words_eta)

text \<open>
  C21: The stack of a new program. If the frames and tables for it are found, \<open>load_user_stack\<close> leaves the stack pointer at five words: a null return address,
  the number of arguments, the address of \<open>argv\<close>, and the bounds of the stack; \<open>argv\<close> holds the addresses of strings, and they are the
  arguments in their order, each with its null character. Otherwise it returns -2 and no frame is lost. The arguments are assumed to fit into the two pages.
\<close>

theorem load_user_stack_layout:
  assumes "pd_ok (directory (pcb_pd p)) m" "\<not> batch_enabled (pcb_pd p)" "mapping_tasks (pcb_pd p) = []" "paged (c_al c)"
    and "\<And>f. length (phys m f) = 4096" "fm_good M fm" "malloc_room (c_fal c)"
    and "pcb_argc p = int (length argv)" "args_size argv + 4 * length argv + 24 \<le> 0x1FF0"
  shows "\<exists>r p' m' fm'. load_user_stack c junk argv (Some p) m fm = Some (r, Some p', m', fm') \<and> fm_good M fm' \<and>
    (if r = 0 then stack_image (pcb_pd p') m' (stack_top p') argv else r = -2 \<and> alloc_blocks fm' = alloc_blocks fm)"
proof -
  let ?s = "\<lparr>ms_start = 0xFFFFE000, ms_len = 0x1FF0, ms_pde_f = USER_WR, ms_pte_f = USER_WR\<rparr> :: mem_section"
  have fl: "\<forall>s \<in> set [?s]. flags_ok s" using USER_WR_ok by (simp add: flags_ok_def)
  obtain r pd1 m1 fm1 where v: "vmm_map_sections c junk (Some (pcb_pd p)) (Some [?s]) m fm = Some (r, Some pd1, m1, fm1)" "fm_good M fm1"
      "map_sections_result r [?s] USER_STACK_BOTTOM 2 (pcb_pd p) m fm pd1 m1 fm1"
    using map_sections_ok [OF assms(1-5) _ fl stack_section(2) _ _ _ assms(6,7), of junk] by (auto simp: stack_section(3,4))
  show ?thesis
  proof (cases "r = 0")
    case False
    then have "load_user_stack c junk argv (Some p) m fm = Some (-2, Some (p\<lparr>pcb_pd := pd1\<rparr>), m1, fm1)" "alloc_blocks fm1 = alloc_blocks fm"
      using v(1,3) by (simp_all add: load_user_stack_def stack_section(1) map_sections_result_def)
    then show ?thesis using v(2) by auto
  next
    case True
    then obtain a where "sections_at [?s] USER_STACK_BOTTOM 2 a (pcb_pd p) m pd1 m1" using v(3) by (auto simp: map_sections_result_def)
    from mapped_bytes [OF this fl stack_section(5)] obtain f where "bytes_are pd1 USER_STACK_BOTTOM 0x2000 m1 f" by (auto simp: stack_consts(2))
    from stack_written [OF this assms(9)] obtain new_argv esp m2 st m3 m4 where w: "push_args pd1 argv USER_STACK_TOP m1 = Some (new_argv, esp, m2)"
        "push_addrs pd1 (rev new_argv) (esp - esp mod 4 - 4) m2 = Some (st, m3)"
        "set_words pd1 (st - 16) [0, word_of_nat (length argv), st + 4, USER_STACK_TOP, USER_STACK_BOTTOM] m3 = Some m4"
        "stack_image pd1 m4 (st - 16) argv" by blast
    have "load_user_stack c junk argv (Some p) m fm = do {
        m \<leftarrow> set_words pd1 (st - 16) [0, word_of_nat (length argv), st + 4, USER_STACK_TOP, USER_STACK_BOTTOM] m3;
        Some (0, Some (p\<lparr>pcb_pd := pd1, stack_top := st - 16\<rparr>), m, fm1) }"
      unfolding five_words using v(1) w(1,2) True assms(8) by (simp add: load_user_stack_def stack_section(1))
    then have "load_user_stack c junk argv (Some p) m fm = Some (0, Some (p\<lparr>pcb_pd := pd1, stack_top := st - 16\<rparr>), m4, fm1)"
      unfolding w(3) Option.bind_lunit .
    then show ?thesis using w(4) v(2) by simp
  qed
qed

text \<open>A process with the arguments \<open>ls\<close> and \<open>-a\<close>.\<close>

definition new_proc :: pcb where
  "new_proc = \<lparr>pid = 0, ppid = 0, original_tid = 0, stack_top = 0, entry_point = 0, pcb_pd = empty_pd, num_threads = 0, num_child_proc = 0,
     pcb_argc = 2, pcb_argv = 0, wait_sem = \<lparr>s_count = 0, s_m = free_mutex, s_q = []\<rparr>, status_queue = Some [], pcb_m = free_mutex\<rparr>"

theorem load_user_stack_layout_witness:
  "\<exists>fm r p' m' fm'. load_user_stack example_ctx (0, 0) [[108, 115], [45, 97]] (Some new_proc) zero_vm fm = Some (r, Some p', m', fm') \<and>
     (if r = 0 then \<exists>a. get_bytes (pcb_pd p') a 3 m' = Some [45, 97, 0] else r = -2)"
proof (rule booted)
  fix fm assume g: "fm_good {0x1000000 ..< 0x2000000} fm"
  let ?argv = "[[108, 115], [45, 97]] :: 8 word list list"
  have p: "pcb_pd new_proc = empty_pd" "pcb_argc new_proc = int (length ?argv)" "args_size ?argv + 4 * length ?argv + 24 \<le> 0x1FF0"
    by (simp_all add: new_proc_def args_size_def)
  obtain r p' m' fm' where l: "load_user_stack example_ctx (0, 0) ?argv (Some new_proc) zero_vm fm = Some (r, Some p', m', fm')"
      "if r = 0 then stack_image (pcb_pd p') m' (stack_top p') ?argv else r = -2"
    using load_user_stack_layout [of new_proc zero_vm example_ctx "{0x1000000 ..< 0x2000000}" fm ?argv "(0, 0)", unfolded p(1),
        OF empty_pd_ok(1,2,3) example_ok(1,3) g example_ok(2) p(2,3)] by (auto split: if_splits)
  have "\<exists>a. get_bytes (pcb_pd p') a 3 m' = Some [45, 97, 0]" if "stack_image (pcb_pd p') m' (stack_top p') ?argv"
    using that by (auto simp: stack_image_def list_all2_Cons1 numeral_eq_Suc)
  then show ?thesis using l by (metis (no_types, lifting))
qed

end
