(* ===== verification/SyscallHandlers.thy ===== *)
theory SyscallHandlers
  imports LoaderCorrect ThreadHandlers KeyboardCorrect
begin

text \<open>
  The system calls on memory (\<open>kern/handlers/mem_mgmt_handlers.c\<close>), on the console (\<open>console_io_handlers.c\<close>) and on files
  (\<open>misc_handlers.c\<close>), and the keyboard interrupt (\<open>c_keyboard_handler\<close> of \<open>peripheral_handlers.c\<close>). A handler works on
  the process of the running thread; \<open>ums\<close> is \<open>USER_MEM_START\<close>. \<open>syscall_halt_c_handler\<close> ends the simulation and \<open>syscall_misbehave_c_handler\<close> does
  nothing.
\<close>

subsection \<open>Memory\<close>

definition put_pcb :: "ptr \<Rightarrow> pcb \<Rightarrow> sched \<Rightarrow> sched" where
  "put_pcb pp p s = s\<lparr>pcbs := (pcbs s)(pp \<mapsto> p)\<rparr>"

definition syscall_new_pages_c_handler :: "vctx \<Rightarrow> u32 \<Rightarrow> u32 \<Rightarrow> int \<Rightarrow> vmem \<Rightarrow> frame_manager \<Rightarrow> sched \<Rightarrow> (int \<times> vmem \<times> frame_manager \<times> sched) option" where
  "syscall_new_pages_c_handler c ums base len m fm s =
     (if base < ums then Some (-1, m, fm, s)
      else if len \<le> 0 \<or> len mod 4096 \<noteq> 0 then Some (-1, m, fm, s)
      else do {
        (r, pp) \<leftarrow> scheduler_get_current_pcb s;
        if r < 0 then Some (-2, m, fm, s)
        else do {
          p \<leftarrow> pcbs s pp;
          (r, pd, m, fm) \<leftarrow> vmm_new_user_page c (Some (pcb_pd p)) base (word_of_int (len div 4096)) m fm;
          pd \<leftarrow> pd;
          Some (if r < 0 then -2 else 0, m, fm, put_pcb pp (p\<lparr>pcb_pd := pd\<rparr>) s)
        }
      })"

definition syscall_remove_pages_c_handler :: "vctx \<Rightarrow> u32 \<Rightarrow> u32 \<Rightarrow> vmem \<Rightarrow> frame_manager \<Rightarrow> sched \<Rightarrow> (int \<times> vmem \<times> frame_manager \<times> sched) option" where
  "syscall_remove_pages_c_handler c ums base m fm s = do {
     (r, pp) \<leftarrow> scheduler_get_current_pcb s;
     if r < 0 then Some (-2, m, fm, s)
     else do {
       p \<leftarrow> pcbs s pp;
       (r, pd, m, fm) \<leftarrow> vmm_remove_user_page c ums (Some (pcb_pd p)) base m fm;
       pd \<leftarrow> pd;
       Some (if r < 0 then -1 else 0, m, fm, put_pcb pp (p\<lparr>pcb_pd := pd\<rparr>) s)
     }
   }"

subsection \<open>Console\<close>

text \<open>
  The line that \<open>keyboard_read\<close> returns is copied to the user's buffer. A reader that has to wait for a line goes on with
  \<open>readline_resumes\<close> when it is woken. \<open>junk\<close> is the uninitialised \<open>max_len\<close>.
\<close>

definition copy_line :: "page_directory \<Rightarrow> u32 \<Rightarrow> read_out \<Rightarrow> vmem \<Rightarrow> vmem option" where
  "copy_line pd buf out m = (case out of
     Returned r (Some line) \<Rightarrow> if 0 < r then set_bytes pd buf (take (nat r) line) m else Some m
   | _ \<Rightarrow> Some m)"

definition syscall_readline_c_handler :: "u32 \<Rightarrow> bool \<Rightarrow> keyboard option \<Rightarrow> int \<Rightarrow> u32 \<Rightarrow> vmem \<Rightarrow> sched \<Rightarrow> (read_out \<times> keyboard option \<times> vmem) option" where
  "syscall_readline_c_handler junk mem k len buf m s = do {
     let max_len = (case snd (keyboard_buffer_size k True) of None \<Rightarrow> junk | Some n \<Rightarrow> n);
     if buf = NULL \<or> len < 0 \<or> max_len < word_of_int len then Some (Returned (-1) None, k, m)
     else do {
       (r, pp) \<leftarrow> scheduler_get_current_pcb s;
       if r < 0 then Some (Returned (-2) None, k, m)
       else do {
         p \<leftarrow> pcbs s pp;
         (r, perms) \<leftarrow> pd_get_permissions (Some (pcb_pd p)) buf m;
         if r < 0 then Some (Returned (-3) None, k, m)
         else do {
           (priv, access) \<leftarrow> perms;
           if priv \<noteq> 1 \<and> access \<noteq> 1 then Some (Returned (-4) None, k, m)
           else do {
             (out, k) \<leftarrow> keyboard_read (started s) mem (my_tid s) k len (Some (replicate (nat len) 0));
             m \<leftarrow> copy_line (pcb_pd p) buf out m;
             Some (out, k, m)
           }
         }
       }
     }
   }"

definition readline_resumes :: "keyboard \<Rightarrow> int \<Rightarrow> u32 \<Rightarrow> vmem \<Rightarrow> sched \<Rightarrow> (read_out \<times> keyboard option \<times> vmem) option" where
  "readline_resumes k len buf m s = do {
     (_, pp) \<leftarrow> scheduler_get_current_pcb s;
     p \<leftarrow> pcbs s pp;
     (out, k) \<leftarrow> keyboard_read_line (started s) (my_tid s) k len (replicate (nat len) 0);
     m \<leftarrow> copy_line (pcb_pd p) buf out m;
     Some (out, k, m)
   }"

text \<open>The characters are read from the user's buffer. \<open>lock\<close> is the global \<open>console_lock\<close>.\<close>

definition syscall_print_c_handler :: "video \<Rightarrow> int \<times> int \<Rightarrow> int \<Rightarrow> u32 \<Rightarrow> vmem \<Rightarrow> sched \<Rightarrow> mutex \<Rightarrow> console \<Rightarrow> (int \<times> mutex \<times> console) option" where
  "syscall_print_c_handler v junk len buf m s lock con =
     (if buf = NULL then Some (-1, lock, con)
      else if len \<ge> 512 \<or> len < 0 then Some (-2, lock, con)
      else do {
        lock \<leftarrow> mutex_lock (started s) (my_tid s) lock;
        (_, pp) \<leftarrow> scheduler_get_current_pcb s;
        p \<leftarrow> pcbs s pp;
        str \<leftarrow> get_bytes (pcb_pd p) buf (nat len) m;
        con \<leftarrow> putbytes v junk (Some str) len con;
        Some (0, mutex_unlock (started s) lock, con)
      })"

definition syscall_set_term_color_c_handler :: "int \<Rightarrow> console \<Rightarrow> int \<times> console" where
  "syscall_set_term_color_c_handler color con = set_term_color color con"

definition syscall_set_cursor_pos_c_handler :: "video \<Rightarrow> int \<Rightarrow> int \<Rightarrow> console \<Rightarrow> int \<times> console" where
  "syscall_set_cursor_pos_c_handler v row col con = set_cursor v row col con"

text \<open>The position is stored through the user's pointers.\<close>

definition syscall_get_cursor_pos_c_handler :: "video \<Rightarrow> u32 \<Rightarrow> u32 \<Rightarrow> vmem \<Rightarrow> sched \<Rightarrow> console \<Rightarrow> (int \<times> vmem) option" where
  "syscall_get_cursor_pos_c_handler v row col m s con = (if row = NULL \<or> col = NULL then Some (-1, m) else case get_cursor v con of
     (r, None) \<Rightarrow> Some (r, m)
   | (r, Some (i, j)) \<Rightarrow> do {
       (_, pp) \<leftarrow> scheduler_get_current_pcb s;
       p \<leftarrow> pcbs s pp;
       m \<leftarrow> set_word (pcb_pd p) row (word_of_int i) m;
       m \<leftarrow> set_word (pcb_pd p) col (word_of_int j) m;
       Some (r, m)
     })"

text \<open>
  \<open>kh\<close> stands for \<open>process_scancode\<close> and the macros on its result: has it data, is it the press of a key, and the character.
\<close>

definition c_keyboard_handler :: "(u8 \<Rightarrow> bool \<times> bool \<times> u32) \<Rightarrow> video \<Rightarrow> int \<times> int \<Rightarrow> u8 \<Rightarrow> sched \<Rightarrow> keyboard option \<Rightarrow> console \<Rightarrow>
    (int option \<times> keyboard option \<times> console) option" where
  "c_keyboard_handler kh v junk aug_char s k con = do {
     let (hasdata, ismake, ch) = kh aug_char;
     if hasdata \<and> ismake then do {
       ((_, w), k, con) \<leftarrow> keyboard_write (started s) v junk (my_tid s) k ch con;
       Some (w, k, con)
     } else Some (None, k, con)
   }"

subsection \<open>Files\<close>

definition syscall_readfile_c_handler :: "toc_entry list \<Rightarrow> u32 \<Rightarrow> u32 \<Rightarrow> int \<Rightarrow> int \<Rightarrow> vmem \<Rightarrow> sched \<Rightarrow> (int \<times> vmem) option" where
  "syscall_readfile_c_handler toc filename buf n offset m s =
     (if filename = NULL then Some (-1, m)
      else if n < 0 \<or> offset < 0 then Some (-2, m)
      else do {
        (_, pp) \<leftarrow> scheduler_get_current_pcb s;
        p \<leftarrow> pcbs s pp;
        getbytes toc (strcmp_user (pcb_pd p) m filename) (pcb_pd p) offset n buf m
      })"

subsection \<open>New pages\<close>

text \<open>The answers of \<open>vmm_new_user_page\<close> for any request at an aligned address.\<close>

lemma new_user_page_any:
  assumes "pd_ok (directory pd) m" "\<not> batch_enabled pd" "mapping_tasks pd = []" "paged (c_al c)"
    and "\<And>f. length (phys m f) = 4096" "IS_PAGE_ALIGNED base" "fm_good M fm" "malloc_room (c_fal c)"
  shows "\<exists>r pd' m' fm'. vmm_new_user_page c (Some pd) base np m fm = Some (r, Some pd', m', fm') \<and> fm_good M fm' \<and> r \<le> 0 \<and>
    (if r = 0 then unat base + unat np * 4096 \<le> 2 ^ 32 \<and> (\<forall>k < unat np. pd_lookup pd m (base + word_of_nat k * PAGE_SIZE) = None) \<and> 0 < unat np \<and>
       new_pages_result 0 base np pd m fm pd' m' fm'
     else alloc_blocks fm' = alloc_blocks fm)"
proof (cases "np = 0 \<or> 0xFFFF < np")
  case True
  then have "vmm_new_user_page c (Some pd) base np m fm = Some (-1, Some pd, m, fm)" by (simp add: vmm_new_user_page_def)
  then show ?thesis using assms(7) by simp
next
  case False
  then have np: "0 < unat np" "unat np \<le> 0xFFFF" by (auto simp: unat_gt_0 word_less_nat_alt)
  consider "2 ^ 32 < unat base + unat np * 4096" | "unat base + unat np * 4096 \<le> 2 ^ 32" "\<exists>k < unat np. pd_lookup pd m (base + word_of_nat k * PAGE_SIZE) \<noteq> None"
    | "unat base + unat np * 4096 \<le> 2 ^ 32" "\<forall>k < unat np. pd_lookup pd m (base + word_of_nat k * PAGE_SIZE) = None" by force
  then show ?thesis
  proof cases
    case 1
    then have "vmm_new_user_page c (Some pd) base np m fm = Some (-2, Some pd, m, fm)"
      using False size_arith(2) [OF np, of base] by (simp add: vmm_new_user_page_def)
    then show ?thesis using assms(7) by simp
  next
    case 2
    then have "vmm_new_user_page c (Some pd) base np m fm = Some (-3, Some pd, m, fm)"
      using False size_arith(2) [OF np, of base] any_mapped_iff [OF assms(1), of "unat np" base] by (simp add: vmm_new_user_page_def)
    then show ?thesis using assms(7) by simp
  next
    case 3
    then obtain r pd' m' fm' where v: "vmm_new_user_page c (Some pd) base np m fm = Some (r, Some pd', m', fm')" "fm_good M fm'"
        "new_pages_result r base np pd m fm pd' m' fm'"
      using new_user_page_ok [OF assms(1-6) _ np assms(7,8)] by blast
    show ?thesis
    proof (cases "r = 0")
      case True
      then show ?thesis using v 3 np by auto
    next
      case False
      then have "r < 0" "alloc_blocks fm' = alloc_blocks fm" using v(3) by (simp_all add: new_pages_result_def)
      then show ?thesis using v(1,2) by auto
    qed
  qed
qed


definition new_thread :: sched where
  "new_thread = one_thread\<lparr>pcbs := [2000 \<mapsto> new_proc]\<rparr>"

lemma new_thread_proc: "\<exists>t. tcbs new_thread (cur_tcb new_thread) = Some t \<and> pcbs new_thread (t_pcb t) = Some new_proc"
  by (simp add: new_thread_def one_thread_def)


subsection \<open>Files\<close>

lemma get_bytes_Cons: "get_bytes pd a (Suc n) m = Some (b # bs) \<longleftrightarrow> get_byte pd a m = Some b \<and> get_bytes pd (a + 1) n m = Some bs"
  by (auto simp: bind_eq_Some_conv)

lemma get_bytes_length: "get_bytes pd a n m = Some bs \<Longrightarrow> length bs = n"
  by (induction n arbitrary: a bs) (auto simp: bind_eq_Some_conv)

lemma get_bytes_prefix: "get_bytes pd a n m \<noteq> None \<Longrightarrow> k \<le> n \<Longrightarrow> get_bytes pd a k m \<noteq> None"
  using get_bytes_add [of pd a k "n - k" m] by (auto simp: bind_eq_Some_conv)

lemma strcmp_user_ok:
  assumes "get_bytes pd a (Suc (length name)) m = Some (name @ [0])" "0 \<notin> set name" "0 \<notin> set x"
  shows "strcmp_user pd m a x = Some (x = name)"
  using assms
proof (induction x arbitrary: a name)
  case Nil
  then show ?case by (cases name) (auto simp: bind_eq_Some_conv)
next
  case (Cons y ys)
  show ?case
  proof (cases name)
    case Nil
    then show ?thesis using Cons.prems by (auto simp: bind_eq_Some_conv)
  next
    case (Cons z zs)
    then have z: "get_byte pd a m = Some z" "get_bytes pd (a + 1) (Suc (length zs)) m = Some (zs @ [0])"
      using Cons.prems(1) by (simp_all only: list.size add_0_right add_Suc_right append_Cons get_bytes_Cons)
    show ?thesis using z(1) Cons Cons.IH [OF z(2)] Cons.prems(2,3) by auto
  qed
qed

text \<open>The program of a name, as the loop finds it.\<close>

definition find_prog :: "toc_entry list \<Rightarrow> 8 word list \<Rightarrow> 8 word list option" where
  "find_prog toc name = map_option execbytes (List.find (\<lambda>e. execname e = name) toc)"

lemma getbytes_find:
  assumes "\<forall>e \<in> set toc. eq (execname e) = Some (execname e = name)"
  shows "getbytes toc eq pd offset n buf m = (case find_prog toc name of None \<Rightarrow> Some (-1, m) | Some bs \<Rightarrow> do {
     c_assert (n + offset < 2 ^ 31 \<and> - (2 ^ 31) \<le> n + offset);
     let k = (if n + offset > int (length bs) then int (length bs) - offset else n);
     c_assert (0 \<le> offset \<and> 0 \<le> k);
     m \<leftarrow> set_bytes pd buf (take (nat k) (drop (nat offset) bs)) m;
     Some (k, m)
   })"
  using assms by (induction toc) (simp_all add: find_prog_def Let_def)


text \<open>A page of the program \<open>prog\<close>, whose name is one character, read at its second byte.\<close>

definition name_vm :: vmem where
  "name_vm = ones_vm\<lparr>phys := (\<lambda>_. (replicate 4096 1)[1 := 0])\<rparr>"

lemma name_byte: "get_byte kernel_only_pd a name_vm = Some (if page_off a = 1 then 0 else 1)"
proof -
  have "pd_get_mapping (Some kernel_only_pd) a name_vm = Some (0, Some 0x5003)"
    using kernel_only(1) [of a] by (simp add: name_vm_def)
  then show ?thesis by (simp add: get_byte_def frame_of_def name_vm_def page_off_mod nth_list_update)
qed


subsection \<open>What the console calls do not check\<close>

text \<open>A page of the kernel counts as readable and writable.\<close>

lemma kernel_access: "pd_get_permissions (Some pd) a m = Some (0, Some (priv, access)) \<Longrightarrow> priv = 1 \<or> access = 1"
  by (auto simp: pd_get_permissions_def bind_eq_Some_conv Let_def split: if_splits prod.splits)

text \<open>
  C37: \<open>readline\<close> and \<open>print\<close> reach kernel memory. The test of the privileges in \<open>readline\<close> refuses no buffer that is mapped, since it asks for a page that is neither
  the user's nor writable, and a page of the kernel counts as writable: the line that was typed is stored there. \<open>print\<close> tests nothing, and writes the
  contents of a page of the kernel to the console.
\<close>

theorem console_calls_reach_kernel_memory:
  assumes "tcbs s (cur_tcb s) = Some t" "pcbs s (t_pcb t) = Some p" "pd_get_permissions (Some (pcb_pd p)) buf m = Some (0, Some (0, a))"
    and "buf \<noteq> NULL" "0 < len" "len < 512" "get_bytes (pcb_pd p) buf (nat len) m = Some str"
    and "keyboard_buffer_size k True = (0, Some n)" "word_of_int len \<le> n"
    and "keyboard_read (started s) mem (my_tid s) k len (Some (replicate (nat len) 0)) = Some (Returned r (Some line), k')"
    and "0 < r" "r \<le> len" "nat r \<le> length line"
    and "mutex_lock (started s) (my_tid s) lock = Some lock'" "shows_term v con tm"
  shows "(\<exists>m'. syscall_readline_c_handler junk mem k len buf m s = Some (Returned r (Some line), k', m') \<and> get_bytes (pcb_pd p) buf (nat r) m' = Some (take (nat r) line)) \<and>
    (\<exists>con'. syscall_print_c_handler v cj len buf m s lock con = Some (0, mutex_unlock (started s) lock', con') \<and>
       shows_term v con' (fold (term_put v (word_of_int (g_terminal_color con))) str tm))"
proof -
  let ?pd = "pcb_pd p" and ?xs = "take (nat r) line"
  have l: "length ?xs = nat r" "nat r \<le> 4096" using assms(6,12,13) by simp_all
  have "get_bytes ?pd buf (nat r) m \<noteq> None" using get_bytes_prefix [of ?pd buf "nat len" m "nat r"] assms(7,12) by simp
  then obtain m' where m': "set_bytes ?pd buf ?xs m = Some m'" using set_bytes_defined [of ?pd buf ?xs m] l(2) unfolding l(1) by auto
  have "get_bytes ?pd buf (nat r) m' = Some ?xs" using get_set_bytes [OF m'] l(2) unfolding l(1) by simp
  moreover have "a = 1" using kernel_access [OF assms(3)] by simp
  then have "syscall_readline_c_handler junk mem k len buf m s = Some (Returned r (Some line), k', m')"
    using assms(1-5,8-12) m' by (simp add: syscall_readline_c_handler_def scheduler_get_current_pcb_def copy_line_def not_less)
  moreover obtain con' where con': "putbyte_loop v cj str con = Some con'" "shows_term v con' (fold (term_put v (word_of_int (g_terminal_color con))) str tm)"
    using putbyte_loop_ok [OF assms(15)] by blast
  have "length str = nat len" using get_bytes_length [OF assms(7)] .
  then have "syscall_print_c_handler v cj len buf m s lock con = Some (0, mutex_unlock (started s) lock', con')"
    using assms(1,2,4-7,14) con'(1) by (simp add: syscall_print_c_handler_def scheduler_get_current_pcb_def putbytes_def)
  ultimately show ?thesis using con'(2) by blast
qed

definition typed_a :: keyboard where
  "typed_a = \<lparr>kb_buf = Some \<lparr>cb_i_r = 0, cb_i_w = 2, cb_buf = [97, 10, 0, 0], cb_len = 4, cb_n = 2\<rparr>, kb_m = free_mutex,
     kb_sem = \<lparr>s_count = 1, s_m = free_mutex, s_q = []\<rparr>\<rparr>"

theorem console_calls_reach_kernel_memory_witness:
  "\<exists>k' m' con'. syscall_readline_c_handler 0 True (Some typed_a) 1 0x5000 ones_vm one_thread = Some (Returned 1 (Some [97]), k', m') \<and>
     get_bytes kernel_only_pd 0x5000 1 m' = Some [97] \<and>
     syscall_print_c_handler small_video (0, 0) 1 0x5000 ones_vm one_thread free_mutex small_console = Some (0, free_mutex, con')"
proof -
  obtain t p where tp: "tcbs one_thread (cur_tcb one_thread) = Some t" "pcbs one_thread (t_pcb t) = Some p" "pcb_pd p = kernel_only_pd"
    by (simp add: one_thread_def)
  have one: "get_bytes kernel_only_pd 0x5000 (nat 1) ones_vm = Some [1]"
    using kernel_only(1) [of "0x5000"] by (simp add: get_byte_def frame_of_def page_off_mod ones_vm_def)
  have s: "started one_thread" "my_tid one_thread = 0" by (simp_all add: one_thread_def my_tid_def)
  have sz: "keyboard_buffer_size (Some typed_a) True = (0, Some 4)" by (simp add: keyboard_buffer_size_def circ_buf_size_def typed_a_def)
  have rd: "\<exists>k'. keyboard_read (started one_thread) True (my_tid one_thread) (Some typed_a) 1 (Some (replicate (nat 1) 0)) = Some (Returned 1 (Some [97]), k')"
    by (simp add: s keyboard_read_def keyboard_read_line_def sem_wait_def mutex_lock_def mutex_unlock_def xchng_def typed_a_def circ_buf_read_def)
  have lk: "\<exists>l. mutex_lock (started one_thread) (my_tid one_thread) free_mutex = Some l \<and> mutex_unlock (started one_thread) l = free_mutex"
    by (simp add: s mutex_lock_def mutex_unlock_def xchng_def)
  then obtain l where l: "mutex_lock (started one_thread) (my_tid one_thread) free_mutex = Some l" "mutex_unlock (started one_thread) l = free_mutex" by blast
  from rd obtain k' where "keyboard_read (started one_thread) True (my_tid one_thread) (Some typed_a) 1 (Some (replicate (nat 1) 0)) = Some (Returned 1 (Some [97]), k')" by blast
  from console_calls_reach_kernel_memory [OF tp(1,2), unfolded tp(3), OF kernel_only(2) _ _ _ one sz _ this _ _ _ l(1) small_console_shows, of 0 "(0, 0)"]
  show ?thesis by (auto simp: l(2))
qed

end
