(* ===== verification/LifeCycle.thy ===== *)
theory LifeCycle
  imports SyscallHandlers
begin

text \<open>
  \<open>kern/handlers/life_cycle_handlers.c\<close>: the system calls that create, replace and end processes, and \<open>wait\<close>. The answers of the
  allocations are parameters, as are the segments \<open>g\<close>, the kernel's pages and the uninitialised contents of fresh memory.
\<close>

subsection \<open>Fork\<close>

record fork_mem =
  fk_pcb :: ptr
  fk_junk :: pcb
  fk_queues :: "bool \<times> bool"
  fk_backup :: "u32 list"
  fk_thread :: new_thread_mem
  fk_p_node :: allocator
  fk_p_entry :: "ptr \<times> ptr"

text \<open>The duplicate is entered into the scheduler's processes once it is a copy; freed, it is gone.\<close>

definition syscall_fork_c_handler :: "vctx \<Rightarrow> u32 \<Rightarrow> kernel_pages \<Rightarrow> segs \<Rightarrow> fork_mem \<Rightarrow> u32 list option \<Rightarrow> vmem \<Rightarrow> frame_manager \<Rightarrow> sched \<Rightarrow>
    (int \<times> vmem \<times> frame_manager \<times> sched) option" where
  "syscall_fork_c_handler c ums k g a saved_regs m fm s = do {
     (r, pp) \<leftarrow> scheduler_get_current_pcb s;
     if r < 0 then Some (-2, m, fm, s)
     else do {
       p \<leftarrow> pcbs s pp;
       mu \<leftarrow> mutex_lock (started s) (my_tid s) (pcb_m p);
       let p = p\<lparr>pcb_m := mutex_unlock (started s) mu\<rparr>;
       let s = put_pcb pp p s;
       if num_threads p > 1 then Some (-3, m, fm, s)
       else if fk_pcb a = NULL then Some (-4, m, fm, s)
       else do {
         (r, d, m) \<leftarrow> pcb_init (c_al c) ums k (fk_queues a) (Some (fk_junk a)) m;
         if r < 0 then Some (-5, m, fm, s)
         else do {
           (r, d, m, fm) \<leftarrow> pcb_copy c (fk_backup a) ums (Some (pcb_pd p)) d (Some p) m fm;
           d \<leftarrow> d;
           if r < 0 then do {
             (_, _, m, fm) \<leftarrow> pcb_destroy_s c ums (started s) (my_tid s) (Some d) m fm;
             Some (-6, m, fm, s)
           } else do {
             (tid, s) \<leftarrow> scheduler_add_process g (fk_thread a) (fk_p_node a) (fk_p_entry a) (fk_pcb a) saved_regs (put_pcb (fk_pcb a) d s);
             if tid < 0 then do {
               (_, _, m, fm) \<leftarrow> pcb_destroy_s c ums (started s) (my_tid s) (pcbs s (fk_pcb a)) m fm;
               Some (-7, m, fm, s\<lparr>pcbs := (pcbs s)(fk_pcb a := None)\<rparr>)
             } else do {
               (_, p) \<leftarrow> pcb_inc_children_s (started s) (my_tid s) (pcbs s pp);
               Some (tid, m, fm, s\<lparr>pcbs := (pcbs s)(pp := p)\<rparr>)
             }
           }
         }
       }
     }
   }"

definition syscall_thread_fork_c_handler :: "segs \<Rightarrow> new_thread_mem \<Rightarrow> u32 list option \<Rightarrow> sched \<Rightarrow> (int \<times> sched) option" where
  "syscall_thread_fork_c_handler g a saved_regs s = scheduler_add_new_thread g a saved_regs s"

subsection \<open>Exec\<close>

text \<open>\<open>strlen\<close> and the copy of a string in user memory.\<close>

partial_function (option) read_string :: "page_directory \<Rightarrow> vmem \<Rightarrow> u32 \<Rightarrow> 8 word list option" where
  "read_string pd m a = do {
     b \<leftarrow> get_byte pd a m;
     if b = 0 then Some [] else do { bs \<leftarrow> read_string pd m (a + 1); Some (b # bs) }
   }"

text \<open>The loop over \<open>argvec\<close>: an error code, or the number of arguments and the pointer at which it stops.\<close>

partial_function (option) count_args :: "page_directory \<Rightarrow> vmem \<Rightarrow> nat \<Rightarrow> u32 \<Rightarrow> (int + nat \<times> u32) option" where
  "count_args pd m argc argp = do {
     (r, _) \<leftarrow> pd_get_mapping (Some pd) argp m;
     if r \<noteq> 0 then Some (Inr (argc, argp))
     else do {
       arg \<leftarrow> get_word pd argp m;
       if arg = NULL then Some (Inr (argc, argp))
       else do {
         (r, _) \<leftarrow> pd_get_mapping (Some pd) arg m;
         if r < 0 then Some (Inl (-7)) else count_args pd m (argc + 1) (argp + 4)
       }
     }
   }"

fun copy_args :: "page_directory \<Rightarrow> vmem \<Rightarrow> nat \<Rightarrow> u32 \<Rightarrow> 8 word list list option" where
  "copy_args pd m 0 argp = Some []"
| "copy_args pd m (Suc n) argp = do {
     a \<leftarrow> get_word pd argp m;
     arg \<leftarrow> read_string pd m a;
     args \<leftarrow> copy_args pd m n (argp + 4);
     Some (arg # args)
   }"

text \<open>
  \<open>kmem i\<close>: whether the memory for the copy of argument \<open>i\<close> is found, which the code does not check; \<open>local_argv\<close> is the address of the copies on
  the kernel stack. A program that cannot be loaded is a panic.
\<close>

definition start_program :: "vctx \<Rightarrow> u32 \<Rightarrow> segs \<Rightarrow> elf_lib \<Rightarrow> toc_entry list \<Rightarrow> u32 \<times> u32 \<Rightarrow> ptr \<Rightarrow> 8 word list \<Rightarrow> 8 word list list \<Rightarrow>
    ptr \<Rightarrow> vmem \<Rightarrow> frame_manager \<Rightarrow> sched \<Rightarrow> (thr_out \<times> vmem \<times> frame_manager \<times> sched) option" where
  "start_program c ums g lib toc junk local_argv name args pp m fm s = do {
     p \<leftarrow> pcbs s pp;
     (r, pd, m, fm) \<leftarrow> vmm_clear_user_space c ums (pcb_pd p) m fm;
     let p = p\<lparr>pcb_pd := pd\<rparr>;
     if r < 0 then Some (Returns (-6), m, fm, put_pcb pp p s)
     else do {
       (r, p, m, fm) \<leftarrow> pcb_load_prog lib toc c junk (Some p) (Some name) (int (length args)) local_argv args m fm;
       c_assert (\<not> r < 0);
       p \<leftarrow> p;
       t \<leftarrow> tcbs s (cur_tcb s);
       let t = snd (tcb_reload g (Some t) (Some p));
       init_stack \<leftarrow> snd (tcb_get_init_stack t True);
       Some (Resumes init_stack, m, fm, (put_tcb (cur_tcb s) t (put_pcb pp p s))\<lparr>esp0 := init_stack\<rparr>)
     }
   }"

definition syscall_exec_c_handler :: "vctx \<Rightarrow> u32 \<Rightarrow> segs \<Rightarrow> elf_lib \<Rightarrow> toc_entry list \<Rightarrow> u32 \<times> u32 \<Rightarrow> (nat \<Rightarrow> bool) \<Rightarrow> ptr \<Rightarrow> u32 \<Rightarrow> u32 \<Rightarrow>
    vmem \<Rightarrow> frame_manager \<Rightarrow> sched \<Rightarrow> (thr_out \<times> vmem \<times> frame_manager \<times> sched) option" where
  "syscall_exec_c_handler c ums g lib toc junk kmem local_argv exec_name argvec m fm s =
     (if exec_name = NULL \<or> argvec = NULL then Some (Returns (-1), m, fm, s)
      else do {
        t \<leftarrow> tcbs s (cur_tcb s);
        pp \<leftarrow> snd (tcb_get_pcb (Some t) True);
        p \<leftarrow> pcbs s pp;
        name \<leftarrow> read_string (pcb_pd p) m exec_name;
        if load_elf_exists lib name = 0 then Some (Returns (-2), m, fm, s)
        else do {
          mu \<leftarrow> mutex_lock (started s) (my_tid s) (pcb_m p);
          let p = p\<lparr>pcb_m := mu\<rparr>;
          if num_threads p > 1 then Some (Returns (-3), m, fm, put_pcb pp p s)
          else do {
            let p = p\<lparr>pcb_m := mutex_unlock (started s) mu\<rparr>;
            let s = put_pcb pp p s;
            cnt \<leftarrow> count_args (pcb_pd p) m 0 argvec;
            case cnt of
              Inl e \<Rightarrow> Some (Returns e, m, fm, s)
            | Inr (argc, argp) \<Rightarrow> do {
                (r, _) \<leftarrow> pd_get_mapping (Some (pcb_pd p)) argp m;
                if r < 0 then Some (Returns (-8), m, fm, s)
                else do {
                  args \<leftarrow> copy_args (pcb_pd p) m argc argvec;
                  c_assert (\<forall>i < argc. kmem i);
                  start_program c ums g lib toc junk local_argv name args pp m fm s
                }
              }
          }
        }
      })"

subsection \<open>Exit and wait\<close>

definition syscall_set_status_c_handler :: "int \<Rightarrow> sched \<Rightarrow> sched option" where
  "syscall_set_status_c_handler status s = thr_set_status status s"

definition syscall_vanish_c_handler :: "bool \<times> bool \<Rightarrow> sched \<Rightarrow> (u32 \<times> sched) option" where
  "syscall_vanish_c_handler mem s = thr_vanish mem s"

text \<open>
  What happens once a status is there: it is stored through the user's pointer and the number of children drops. The answer \<open>None\<close> for the
  return value says that the caller sleeps; it goes on with \<open>wait_resumes\<close>.
\<close>

definition finish_wait :: "wait_out \<Rightarrow> pcb option \<Rightarrow> ptr \<Rightarrow> u32 \<Rightarrow> vmem \<Rightarrow> sched \<Rightarrow> (int option \<times> vmem \<times> sched) option" where
  "finish_wait out p pp status_ptr m s = (let s' = s\<lparr>pcbs := (pcbs s)(pp := p)\<rparr> in case out of
     Wait_sleeps \<Rightarrow> Some (None, m, s')
   | Wait_returns r None \<Rightarrow> Some (Some (-2), m, s')
   | Wait_returns r (Some x) \<Rightarrow> do {
       q \<leftarrow> p;
       m \<leftarrow> (if status_ptr = NULL then Some m else set_word (pcb_pd q) status_ptr (word_of_int (mt_status x)) m);
       (_, p) \<leftarrow> pcb_dec_children_s (started s) (my_tid s) (Some q);
       Some (Some (mt_original_tid x), m, s\<lparr>pcbs := (pcbs s)(pp := p)\<rparr>)
     })"

definition syscall_wait_c_handler :: "bool \<Rightarrow> u32 \<Rightarrow> vmem \<Rightarrow> sched \<Rightarrow> (int option \<times> vmem \<times> sched) option" where
  "syscall_wait_c_handler mem status_ptr m s = do {
     (r, pp) \<leftarrow> scheduler_get_current_pcb s;
     if r < 0 then Some (Some (-1), m, s)
     else do {
       (out, p) \<leftarrow> pcb_wait_on_status (started s) mem (my_tid s) (pcbs s pp);
       finish_wait out p pp status_ptr m s
     }
   }"

definition wait_resumes :: "u32 \<Rightarrow> vmem \<Rightarrow> sched \<Rightarrow> (int option \<times> vmem \<times> sched) option" where
  "wait_resumes status_ptr m s = do {
     (_, pp) \<leftarrow> scheduler_get_current_pcb s;
     p \<leftarrow> pcbs s pp;
     (out, p) \<leftarrow> pcb_collect_status (started s) (my_tid s) p;
     finish_wait out p pp status_ptr m s
   }"

subsection \<open>Exit statuses\<close>

text \<open>A process in whose queue the statuses \<open>q\<close> wait to be collected, while none of its threads waits and nobody holds its locks.\<close>

definition statuses :: "pcb \<Rightarrow> pcb_metadata list \<Rightarrow> bool" where
  "statuses p q \<longleftrightarrow> pcb_m p = free_mutex \<and> wait_sem p = \<lparr>s_count = int (length q), s_m = free_mutex, s_q = []\<rparr> \<and> status_queue p = Some q"

lemma report_status:
  assumes "statuses p q"
  shows "\<exists>p'. pcb_signal_status True (True, True) tid (Some p) st orig = Some ((0, None), Some p') \<and> statuses p' (q @ [\<lparr>mt_status = st, mt_original_tid = orig\<rparr>]) \<and>
    num_child_proc p' = num_child_proc p \<and> pcb_pd p' = pcb_pd p"
  using assms by (simp add: statuses_def pcb_signal_status_def sem_signal_def)

lemma wait_status:
  assumes "tcbs s (cur_tcb s) = Some t" "pcbs s (t_pcb t) = Some p" "started s" "statuses p (x # q)" "num_child_proc p \<noteq> 0"
    and "status_ptr \<noteq> NULL" "get_word (pcb_pd p) status_ptr m \<noteq> None"
  shows "\<exists>m' p'. syscall_wait_c_handler mem status_ptr m s = Some (Some (mt_original_tid x), m', put_pcb (t_pcb t) p' s) \<and> statuses p' q \<and>
    num_child_proc p' = num_child_proc p - 1 \<and> pcb_pd p' = pcb_pd p \<and> get_word (pcb_pd p) status_ptr m' = Some (word_of_int (mt_status x))"
proof -
  obtain m' where m': "set_word (pcb_pd p) status_ptr (word_of_int (mt_status x)) m = Some m'" using set_word_defined [OF assms(7)] by blast
  let ?p = "p\<lparr>wait_sem := \<lparr>s_count = int (length q), s_m = free_mutex, s_q = []\<rparr>, status_queue := Some q, num_child_proc := num_child_proc p - 1, pcb_m := free_mutex\<rparr>"
  have "syscall_wait_c_handler mem status_ptr m s = Some (Some (mt_original_tid x), m', put_pcb (t_pcb t) ?p s)"
    using assms(1-6) m' by (simp add: syscall_wait_c_handler_def scheduler_get_current_pcb_def pcb_wait_on_status_def statuses_def sem_wait_def pcb_collect_status_def
        finish_wait_def pcb_dec_children_s_def put_pcb_def)
  moreover have "statuses ?p q" by (simp add: statuses_def)
  ultimately show ?thesis using get_set_word [OF m'] by (intro exI conjI) (assumption | simp)+
qed

text \<open>The children report one after the other; the parent waits \<open>n\<close> times and looks at the status each time.\<close>

fun report_all :: "int \<Rightarrow> (int \<times> int) list \<Rightarrow> pcb \<Rightarrow> pcb option" where
  "report_all tid [] p = Some p"
| "report_all tid ((st, orig) # xs) p = do {
     (_, p) \<leftarrow> pcb_signal_status True (True, True) tid (Some p) st orig;
     p \<leftarrow> p;
     report_all tid xs p
   }"

fun wait_all :: "nat \<Rightarrow> u32 \<Rightarrow> vmem \<Rightarrow> sched \<Rightarrow> ((u32 \<times> int) list \<times> vmem \<times> sched) option" where
  "wait_all 0 status_ptr m s = Some ([], m, s)"
| "wait_all (Suc n) status_ptr m s = do {
     (r, m, s) \<leftarrow> syscall_wait_c_handler True status_ptr m s;
     r \<leftarrow> r;
     (_, pp) \<leftarrow> scheduler_get_current_pcb s;
     p \<leftarrow> pcbs s pp;
     st \<leftarrow> get_word (pcb_pd p) status_ptr m;
     (rs, m, s) \<leftarrow> wait_all n status_ptr m s;
     Some ((st, r) # rs, m, s)
   }"

lemma report_all_ok:
  "statuses p q \<Longrightarrow> \<exists>p'. report_all tid xs p = Some p' \<and> statuses p' (q @ map (\<lambda>(st, orig). \<lparr>mt_status = st, mt_original_tid = orig\<rparr>) xs) \<and>
    num_child_proc p' = num_child_proc p \<and> pcb_pd p' = pcb_pd p"
proof (induction xs arbitrary: p q)
  case (Cons x xs)
  obtain st orig where x: "x = (st, orig)" by (cases x)
  obtain p1 where p1: "pcb_signal_status True (True, True) tid (Some p) st orig = Some ((0, None), Some p1)" "statuses p1 (q @ [\<lparr>mt_status = st, mt_original_tid = orig\<rparr>])"
      "num_child_proc p1 = num_child_proc p" "pcb_pd p1 = pcb_pd p" using report_status [OF Cons.prems] by blast
  show ?case using Cons.IH [OF p1(2)] p1 by (simp add: x)
qed simp

lemma wait_all_ok:
  "tcbs s (cur_tcb s) = Some t \<Longrightarrow> pcbs s (t_pcb t) = Some p \<Longrightarrow> started s \<Longrightarrow> statuses p q \<Longrightarrow> length q \<le> unat (num_child_proc p) \<Longrightarrow>
   status_ptr \<noteq> NULL \<Longrightarrow> get_word (pcb_pd p) status_ptr m \<noteq> None \<Longrightarrow>
   \<exists>m' p'. wait_all (length q) status_ptr m s = Some (map (\<lambda>x. (word_of_int (mt_status x), mt_original_tid x)) q, m', put_pcb (t_pcb t) p' s) \<and> statuses p' [] \<and>
     num_child_proc p' = num_child_proc p - word_of_nat (length q)"
proof (induction q arbitrary: s p m)
  case Nil
  have "put_pcb (t_pcb t) p s = s" using Nil(2) by (simp add: put_pcb_def fun_upd_idem)
  then show ?case using Nil(4) by (intro exI [of _ m] exI [of _ p]) simp
next
  case (Cons x q)
  have n0: "num_child_proc p \<noteq> 0" using Cons.prems(5) by auto
  then have n: "num_child_proc p \<noteq> 0" "length q \<le> unat (num_child_proc p - 1)" using Cons.prems(5) unat_minus_one [OF n0] by auto
  obtain m1 p1 where w: "syscall_wait_c_handler True status_ptr m s = Some (Some (mt_original_tid x), m1, put_pcb (t_pcb t) p1 s)" "statuses p1 q"
      "num_child_proc p1 = num_child_proc p - 1" "pcb_pd p1 = pcb_pd p" "get_word (pcb_pd p) status_ptr m1 = Some (word_of_int (mt_status x))"
    using wait_status [OF Cons.prems(1-4) n(1) Cons.prems(6,7)] by blast
  let ?s = "put_pcb (t_pcb t) p1 s"
  have c: "tcbs ?s (cur_tcb ?s) = Some t" "pcbs ?s (t_pcb t) = Some p1" "started ?s" "put_pcb (t_pcb t) p2 ?s = put_pcb (t_pcb t) p2 s" for p2
    using Cons.prems(1,3) by (simp_all add: put_pcb_def)
  have "get_word (pcb_pd p1) status_ptr m1 \<noteq> None" using w(4,5) by simp
  then have "\<exists>m' p'. wait_all (length q) status_ptr m1 ?s = Some (map (\<lambda>x. (word_of_int (mt_status x), mt_original_tid x)) q, m', put_pcb (t_pcb t) p' ?s) \<and> statuses p' [] \<and>
      num_child_proc p' = num_child_proc p1 - word_of_nat (length q)"
    by (intro Cons.IH [OF c(1-3) w(2) _ Cons.prems(6)]) (use n(2) w(3) in simp_all)
  then obtain m2 p2 where r: "wait_all (length q) status_ptr m1 ?s = Some (map (\<lambda>x. (word_of_int (mt_status x), mt_original_tid x)) q, m2, put_pcb (t_pcb t) p2 s)"
      "statuses p2 []" "num_child_proc p2 = num_child_proc p1 - word_of_nat (length q)" unfolding c(4) by blast
  have "scheduler_get_current_pcb ?s = Some (0, t_pcb t)" using c(1) by (simp add: scheduler_get_current_pcb_def)
  then have "wait_all (length (x # q)) status_ptr m s = Some (map (\<lambda>x. (word_of_int (mt_status x), mt_original_tid x)) (x # q), m2, put_pcb (t_pcb t) p2 s)"
    using w(1,4,5) c(2) r(1) by simp
  moreover have "num_child_proc p2 = num_child_proc p - word_of_nat (length (x # q))" using r(3) w(3) by simp
  ultimately show ?case using r(2) by blast
qed


definition parent_of_two :: pcb where
  "parent_of_two = \<lparr>pid = 0, ppid = 0, original_tid = 0, stack_top = 0, entry_point = 0, pcb_pd = kernel_only_pd, num_threads = 2, num_child_proc = 2,
     pcb_argc = 0, pcb_argv = 0, wait_sem = \<lparr>s_count = 0, s_m = free_mutex, s_q = []\<rparr>, status_queue = Some [], pcb_m = free_mutex\<rparr>"


subsection \<open>Exec and the lock of the process\<close>

text \<open>
  \<open>exec\<close> keeps a lock. In a process with more than one thread it returns -3 while it still holds the mutex of the process: after that \<open>fork\<close>, and
  \<open>exec\<close> of the same program, by any thread of the process do not return.
\<close>

theorem exec_keeps_lock:
  assumes "tcbs s (cur_tcb s) = Some t" "pcbs s (t_pcb t) = Some p" "started s" "m_lock (pcb_m p) \<noteq> 0" "1 < num_threads p"
    and "exec_name \<noteq> NULL" "argvec \<noteq> NULL" "read_string (pcb_pd p) m exec_name = Some name" "load_elf_exists lib name \<noteq> 0"
  shows "\<exists>s'. syscall_exec_c_handler c ums g lib toc junk kmem local_argv exec_name argvec m fm s = Some (Returns (-3), m, fm, s') \<and>
    (\<forall>cur u. tcbs s cur = Some u \<and> t_pcb u = t_pcb t \<longrightarrow>
      syscall_fork_c_handler c ums k g a regs m fm (s'\<lparr>cur_tcb := cur\<rparr>) = None \<and>
      syscall_exec_c_handler c ums g lib toc junk kmem local_argv exec_name argvec m fm (s'\<lparr>cur_tcb := cur\<rparr>) = None)"
proof -
  let ?p = "p\<lparr>pcb_m := pcb_m p\<lparr>m_lock := 0, m_owner := my_tid s\<rparr>\<rparr>"
  let ?s = "put_pcb (t_pcb t) ?p s"
  have "syscall_exec_c_handler c ums g lib toc junk kmem local_argv exec_name argvec m fm s = Some (Returns (-3), m, fm, ?s)"
    using assms by (simp add: syscall_exec_c_handler_def tcb_get_pcb_def mutex_lock_def xchng_def)
  moreover have "syscall_fork_c_handler c ums k g a regs m fm (?s\<lparr>cur_tcb := cur\<rparr>) = None"
      "syscall_exec_c_handler c ums g lib toc junk kmem local_argv exec_name argvec m fm (?s\<lparr>cur_tcb := cur\<rparr>) = None"
    if "tcbs s cur = Some u" "t_pcb u = t_pcb t" for cur u
    using assms(3,6-9) that by (simp_all add: syscall_fork_c_handler_def syscall_exec_c_handler_def scheduler_get_current_pcb_def tcb_get_pcb_def put_pcb_def mutex_lock_def xchng_def)
  ultimately show ?thesis by blast
qed

definition one_program :: elf_lib where
  "one_program = \<lparr>check_header = (\<lambda>n. n = [1]), load_helper = (\<lambda>n. Some \<lparr>e_fname = n, e_entry = 0x1000000, e_txtoff = 0, e_txtlen = 1, e_txtstart = 0x1000000,
     e_datoff = 0, e_datlen = 0, e_datstart = 0, e_rodatoff = 0, e_rodatlen = 0, e_rodatstart = 0, e_bsslen = 0, e_bssstart = 0\<rparr>)\<rparr>"

theorem exec_keeps_lock_witness:
  "\<forall>c ums g junk kmem fm k a regs. \<exists>s'. syscall_exec_c_handler c ums g one_program [] junk kmem 0 0x1000 0x1000 name_vm fm (put_pcb 2000 parent_of_two one_thread) =
       Some (Returns (-3), name_vm, fm, s') \<and> syscall_fork_c_handler c ums k g a regs name_vm fm (s'\<lparr>cur_tcb := 1000\<rparr>) = None"
proof (intro allI)
  fix c :: vctx and ums and g :: segs and junk kmem fm k and a :: fork_mem and regs
  let ?s = "put_pcb 2000 parent_of_two one_thread"
  obtain t where t: "tcbs ?s (cur_tcb ?s) = Some t" "t_pcb t = 2000" "pcbs ?s (t_pcb t) = Some parent_of_two" "started ?s" "tcbs ?s 1000 = Some t"
    by (simp add: one_thread_def put_pcb_def)
  have p: "m_lock (pcb_m parent_of_two) \<noteq> 0" "1 < num_threads parent_of_two" "pcb_pd parent_of_two = kernel_only_pd" by (simp_all add: parent_of_two_def)
  have "get_byte kernel_only_pd 0x1000 name_vm = Some 1" "get_byte kernel_only_pd (0x1000 + 1) name_vm = Some 0" by (simp_all add: name_byte page_off_mod)
  then have n: "read_string kernel_only_pd name_vm 0x1000 = Some [1]" by (simp add: read_string.simps [of _ _ "0x1000"] read_string.simps [of _ _ "0x1001"])
  have x: "load_elf_exists one_program [1] \<noteq> 0" "(0x1000 :: u32) \<noteq> NULL" by (simp_all add: load_elf_exists_def one_program_def)
  show "\<exists>s'. syscall_exec_c_handler c ums g one_program [] junk kmem 0 0x1000 0x1000 name_vm fm ?s = Some (Returns (-3), name_vm, fm, s') \<and>
      syscall_fork_c_handler c ums k g a regs name_vm fm (s'\<lparr>cur_tcb := 1000\<rparr>) = None"
    using exec_keeps_lock [OF t(1,3,4) p(1,2) x(2,2) _ x(1), unfolded p(3), OF n, of c ums g "[]" junk kmem 0 fm k a regs] t(5) by blast
qed

end
