(* ===== verification/UserList.thy ===== *)
theory UserList
  imports Prelude
begin

text \<open>
  \<open>user/libthread/ll.c\<close>: the singly linked list that the thread library uses as the pool of its threads
  and as the queue of waiting threads. Nodes live in a heap; an access to an address at which no
  node is allocated does not return (\<open>None\<close>). The first half translates the functions, the second
  shows that adding, dequeueing and searching are those of a sequence, and that \<open>ll_remove\<close>
  is not.

  The names carry the suffix \<open>_u\<close> (user space) because the kernel has functions of the same names.
\<close>

subsection \<open>The data structure\<close>

record unode =
  un_e :: u32
  un_next :: ptr

record ulist =
  ul_head :: ptr
  ul_tail :: ptr
  ul_size :: u32

text \<open>The nodes and the number of calls of \<open>malloc\<close> so far.\<close>

record uheap =
  uh_nodes :: "ptr \<rightharpoonup> unode"
  uh_calls :: nat

definition ll_init_u :: "ulist option \<Rightarrow> int \<times> ulist option" where
  "ll_init_u ll = (case ll of
     None \<Rightarrow> (-1, None)
   | Some l \<Rightarrow> (0, Some (l\<lparr>ul_size := 0, ul_head := NULL, ul_tail := NULL\<rparr>)))"

definition ll_add_u :: "allocator \<Rightarrow> ulist option \<Rightarrow> u32 \<Rightarrow> uheap \<Rightarrow> (int \<times> ulist option \<times> uheap) option" where
  "ll_add_u al ll value h = (case ll of
     None \<Rightarrow> Some (-1, None, h)
   | Some l \<Rightarrow> do {
       let new_node = al (uh_calls h) (\<lambda>p. uh_nodes h p \<noteq> None);
       let h = h\<lparr>uh_calls := Suc (uh_calls h)\<rparr>;
       if new_node = NULL then Some (-2, Some l, h)
       else do {
         let h = h\<lparr>uh_nodes := (uh_nodes h)(new_node \<mapsto> \<lparr>un_e = value, un_next = NULL\<rparr>)\<rparr>;
         (l, h) \<leftarrow> (if ul_head l = NULL then do {
             c_assert (ul_tail l = NULL);
             Some (l\<lparr>ul_head := new_node, ul_tail := new_node\<rparr>, h)
           } else do {
             t \<leftarrow> uh_nodes h (ul_tail l);
             Some (l\<lparr>ul_tail := new_node\<rparr>,
               h\<lparr>uh_nodes := (uh_nodes h)(ul_tail l \<mapsto> t\<lparr>un_next := new_node\<rparr>)\<rparr>)
           });
         Some (0, Some (l\<lparr>ul_size := ul_size l + 1\<rparr>), h)
       }
     })"

text \<open>The second component of the answer is what \<open>*val\<close> receives.\<close>

definition ll_deq_u :: "ulist option \<Rightarrow> uheap \<Rightarrow> (int \<times> u32 option \<times> ulist option \<times> uheap) option" where
  "ll_deq_u ll h = (case ll of
     None \<Rightarrow> Some (-1, None, None, h)
   | Some l \<Rightarrow>
       let head = ul_head l in
       if ul_size l = 0 then Some (-1, None, Some l, h)
       else do {
         let l = (if head = ul_tail l then l\<lparr>ul_tail := NULL\<rparr> else l);
         n \<leftarrow> uh_nodes h head;
         let l = l\<lparr>ul_head := un_next n\<rparr>;
         let h = h\<lparr>uh_nodes := (uh_nodes h)(head := None)\<rparr>;
         Some (0, Some (un_e n), Some (l\<lparr>ul_size := ul_size l - 1\<rparr>), h)
       })"

text \<open>\<open>while (node != NULL && node->next != NULL && node->next->e != data) node = node->next;\<close>\<close>

partial_function (option) remove_loop_u :: "u32 \<Rightarrow> ptr \<Rightarrow> uheap \<Rightarrow> ptr option" where
  "remove_loop_u data node h =
     (if node = NULL then Some node
      else do {
        n \<leftarrow> uh_nodes h node;
        if un_next n = NULL then Some node
        else do {
          m \<leftarrow> uh_nodes h (un_next n);
          if un_e m = data then Some node else remove_loop_u data (un_next n) h
        }
      })"

definition ll_remove_u :: "ulist option \<Rightarrow> u32 \<Rightarrow> uheap \<Rightarrow> (int \<times> ulist option \<times> uheap) option" where
  "ll_remove_u ll data h = (case ll of
     None \<Rightarrow> Some (-1, None, h)
   | Some l \<Rightarrow> do {
       node \<leftarrow> remove_loop_u data (ul_head l) h;
       if node = NULL then Some (-1, Some l, h)
       else do {
         n \<leftarrow> uh_nodes h node;
         if un_e n = data then
           Some (0, Some (l\<lparr>ul_head := NULL, ul_tail := NULL, ul_size := ul_size l - 1\<rparr>),
             h\<lparr>uh_nodes := (uh_nodes h)(node := None)\<rparr>)
         else if un_next n = NULL then Some (-1, Some l, h)
         else do {
           m \<leftarrow> uh_nodes h (un_next n);
           Some (0, Some (l\<lparr>ul_size := ul_size l - 1\<rparr>),
             h\<lparr>uh_nodes := (uh_nodes h)(node \<mapsto> n\<lparr>un_next := un_next m\<rparr>, un_next n := None)\<rparr>)
         }
       }
     })"

partial_function (option) destroy_loop_u :: "ptr \<Rightarrow> uheap \<Rightarrow> uheap option" where
  "destroy_loop_u p h =
     (if p = NULL then Some h
      else do {
        n \<leftarrow> uh_nodes h p;
        destroy_loop_u (un_next n) (h\<lparr>uh_nodes := (uh_nodes h)(p := None)\<rparr>)
      })"

definition ll_destroy_u :: "ulist option \<Rightarrow> uheap \<Rightarrow> uheap option" where
  "ll_destroy_u ll h = (case ll of None \<Rightarrow> Some h | Some l \<Rightarrow> destroy_loop_u (ul_head l) h)"

text \<open>
  The search applies a function of the caller to the stored values; the answer of a function
  that does not return is \<open>None\<close>.
\<close>

partial_function (option) find_loop_u :: "(u32 \<Rightarrow> u32 option) \<Rightarrow> u32 \<Rightarrow> ptr \<Rightarrow> uheap \<Rightarrow> (int \<times> u32 option) option" where
  "find_loop_u func c_val node h =
     (if node = NULL then Some (-1, None)
      else do {
        n \<leftarrow> uh_nodes h node;
        v \<leftarrow> func (un_e n);
        if v = c_val then Some (0, Some (un_e n))
        else find_loop_u func c_val (un_next n) h
      })"

definition ll_find_u :: "ulist option \<Rightarrow> (u32 \<Rightarrow> u32 option) option \<Rightarrow> u32 \<Rightarrow> uheap \<Rightarrow> (int \<times> u32 option) option" where
  "ll_find_u ll func c_val h = (case (ll, func) of
     (Some l, Some f) \<Rightarrow> find_loop_u f c_val (ul_head l) h
   | _ \<Rightarrow> Some (-1, None))"

subsection \<open>Lists as sequences\<close>

text \<open>\<open>useg h p q ns\<close>: from \<open>p\<close> the heap links the nodes \<open>ns\<close>, the last of which points to \<open>q\<close>.\<close>

primrec useg :: "uheap \<Rightarrow> ptr \<Rightarrow> ptr \<Rightarrow> ptr list \<Rightarrow> bool" where
  "useg h p q [] \<longleftrightarrow> p = q"
| "useg h p q (n # ns) \<longleftrightarrow> p = n \<and> n \<noteq> NULL \<and>
     (\<exists>d. uh_nodes h n = Some d \<and> useg h (un_next d) q ns)"

definition uval :: "uheap \<Rightarrow> ptr \<Rightarrow> u32" where
  "uval h p = (case uh_nodes h p of Some d \<Rightarrow> un_e d | None \<Rightarrow> 0)"

text \<open>\<open>ul_holds l h vs\<close>: the list stores the values \<open>vs\<close>, in that order.\<close>

definition ul_nodes :: "ulist \<Rightarrow> uheap \<Rightarrow> ptr list \<Rightarrow> bool" where
  "ul_nodes l h ns \<longleftrightarrow> useg h (ul_head l) NULL ns \<and> distinct ns \<and>
     ul_tail l = last0 ns NULL \<and> unat (ul_size l) = length ns"

definition ul_holds :: "ulist \<Rightarrow> uheap \<Rightarrow> u32 list \<Rightarrow> bool" where
  "ul_holds l h vs \<longleftrightarrow> (\<exists>ns. ul_nodes l h ns \<and> vs = map (uval h) ns)"

lemma useg_append: "useg h p q (xs @ ys) \<longleftrightarrow> (\<exists>r. useg h p r xs \<and> useg h r q ys)"
  by (induction xs arbitrary: p) auto

lemma useg_live: "useg h p q ns \<Longrightarrow> n \<in> set ns \<Longrightarrow> n \<noteq> NULL \<and> uh_nodes h n \<noteq> None"
  by (induction ns arbitrary: p) auto

lemma useg_NULL: "useg h NULL NULL ns \<longleftrightarrow> ns = []"
  by (cases ns) auto

lemma useg_cong:
  "(\<And>n. n \<in> set ns \<Longrightarrow> uh_nodes h' n = uh_nodes h n) \<Longrightarrow> useg h' p q ns = useg h p q ns"
  by (induction ns arbitrary: p) auto

lemma uval_cong: "uh_nodes h' n = uh_nodes h n \<Longrightarrow> uval h' n = uval h n"
  by (simp add: uval_def)

lemma useg_head: "useg h p NULL ns \<Longrightarrow> p = hd0 ns NULL"
  by (cases ns) auto

lemma ul_nodes_bound:
  assumes "ul_nodes l h ns"
  shows "length ns < 2 ^ 32"
proof (rule distinct_ptrs_length)
  show "distinct ns" using assms by (simp add: ul_nodes_def)
  show "NULL \<notin> set ns" using assms useg_live [of h "ul_head l" NULL ns NULL] by (auto simp: ul_nodes_def)
qed

lemma ul_nodes_size_0: "ul_nodes l h ns \<Longrightarrow> ul_size l = 0 \<longleftrightarrow> ns = []"
  by (auto simp: ul_nodes_def unat_eq_0)

subsubsection \<open>Adding and dequeueing\<close>

text \<open>Appending a node: the old last node, if any, is linked to the new one.\<close>

lemma useg_link_last:
  assumes "useg h p NULL (xs @ [t])" "distinct (xs @ [t])" "m \<notin> set (xs @ [t])" "m \<noteq> NULL"
    and "uh_nodes h t = Some d"
    and "uh_nodes h' = (uh_nodes h)(m \<mapsto> \<lparr>un_e = v, un_next = NULL\<rparr>, t \<mapsto> d\<lparr>un_next := m\<rparr>)"
  shows "useg h' p NULL (xs @ [t, m])"
proof -
  have "useg h p t xs" "un_next d = NULL" "t \<noteq> NULL" using assms(1,5) by (auto simp: useg_append)
  moreover have "useg h' p t xs = useg h p t xs" by (rule useg_cong) (use assms in auto)
  ultimately show ?thesis using assms by (auto simp: useg_append)
qed

lemma ll_add_u_ok:
  assumes "malloc_ok al" "ul_nodes l h ns"
  shows "\<exists>r l' h'. ll_add_u al (Some l) v h = Some (r, Some l', h') \<and>
    (if r = 0 then \<exists>m. m \<notin> set ns \<and> ul_nodes l' h' (ns @ [m]) \<and> map (uval h') (ns @ [m]) = map (uval h) ns @ [v]
     else r = -2 \<and> l' = l \<and> uh_nodes h' = uh_nodes h)"
proof -
  define m where "m = al (uh_calls h) (\<lambda>p. uh_nodes h p \<noteq> None)"
  show ?thesis
  proof (cases "m = NULL")
    case True
    then show ?thesis by (simp add: ll_add_u_def m_def)
  next
    case False
    have new: "uh_nodes h m = None" using malloc_okD [OF assms(1), of "uh_calls h" "\<lambda>p. uh_nodes h p \<noteq> None"] False
      by (simp add: m_def)
    have m: "m \<notin> set ns" using new useg_live assms(2) unfolding ul_nodes_def by blast
    have len: "length (ns @ [m]) < 2 ^ 32"
      using assms(2) m False useg_live [of h "ul_head l" NULL ns NULL]
      by (intro distinct_ptrs_length) (auto simp: ul_nodes_def)
    have size: "unat (ul_size l + 1) = Suc (length ns)"
      using assms(2) len by (intro unat_Suc_of_bound) (simp_all add: ul_nodes_def)
    let ?h = "h\<lparr>uh_calls := Suc (uh_calls h), uh_nodes := (uh_nodes h)(m \<mapsto> \<lparr>un_e = v, un_next = NULL\<rparr>)\<rparr>"
    show ?thesis
    proof (cases ns rule: rev_cases)
      case Nil
      with assms(2) have "ul_head l = NULL" "ul_tail l = NULL" by (simp_all add: ul_nodes_def)
      then have "ll_add_u al (Some l) v h = Some (0, Some (l\<lparr>ul_head := m, ul_tail := m, ul_size := ul_size l + 1\<rparr>), ?h)"
        using False by (simp add: ll_add_u_def m_def [symmetric] Let_def del: not_None_eq)
      moreover have "ul_nodes (l\<lparr>ul_head := m, ul_tail := m, ul_size := ul_size l + 1\<rparr>) ?h [m]"
        using size Nil False by (simp add: ul_nodes_def)
      ultimately show ?thesis using Nil by (auto simp: uval_def)
    next
      case (snoc xs t)
      have seg: "useg h (ul_head l) NULL (xs @ [t])" "distinct (xs @ [t])" "ul_tail l = t"
        using assms(2) snoc by (simp_all add: ul_nodes_def)
      then obtain d where d: "uh_nodes h t = Some d" "t \<noteq> NULL" by (auto simp: useg_append)
      have "t \<noteq> m" using m snoc by auto
      have "ul_head l \<noteq> NULL" using seg(1) by (cases xs) auto
      let ?l' = "l\<lparr>ul_tail := m, ul_size := ul_size l + 1\<rparr>"
      let ?h' = "?h\<lparr>uh_nodes := (uh_nodes ?h)(t \<mapsto> d\<lparr>un_next := m\<rparr>)\<rparr>"
      have run: "ll_add_u al (Some l) v h = Some (0, Some ?l', ?h')"
        using False \<open>ul_head l \<noteq> NULL\<close> seg(3) d \<open>t \<noteq> m\<close> by (simp add: ll_add_u_def m_def [symmetric] Let_def del: not_None_eq)
      have "useg ?h' (ul_head l) NULL (xs @ [t, m])"
        by (rule useg_link_last [OF seg(1,2) _ False d(1), where v = v]) (use m snoc in auto)
      then have "ul_nodes ?l' ?h' (ns @ [m])"
        using size m snoc seg \<open>t \<noteq> m\<close> by (simp add: ul_nodes_def)
      moreover have "map (uval ?h') (ns @ [m]) = map (uval h) ns @ [v]"
        using m snoc d \<open>t \<noteq> m\<close> by (auto simp: uval_def)
      ultimately show ?thesis using run m by auto
    qed
  qed
qed

lemma ll_deq_u_ok:
  assumes "ul_nodes l h (n # ns)"
  shows "\<exists>l' h'. ll_deq_u (Some l) h = Some (0, Some (uval h n), Some l', h') \<and> ul_nodes l' h' ns \<and>
    map (uval h') ns = map (uval h) ns \<and> uh_nodes h' = (uh_nodes h)(n := None)"
proof -
  from assms obtain d where d: "ul_head l = n" "n \<noteq> NULL" "uh_nodes h n = Some d" "useg h (un_next d) NULL ns" "n \<notin> set ns"
    by (auto simp: ul_nodes_def)
  have tail: "ul_tail l = last0 ns n" using assms by (simp add: ul_nodes_def)
  have size: "unat (ul_size l) = Suc (length ns)" using assms by (simp add: ul_nodes_def)
  let ?h = "h\<lparr>uh_nodes := (uh_nodes h)(n := None)\<rparr>"
  let ?l = "l\<lparr>ul_tail := last0 ns NULL, ul_head := un_next d, ul_size := ul_size l - 1\<rparr>"
  have "n = ul_tail l \<longleftrightarrow> ns = []" using tail d(5) last0_in_set [of ns n] by (cases "ns = []") auto
  then have "(if n = ul_tail l then l\<lparr>ul_tail := NULL\<rparr> else l) = l\<lparr>ul_tail := last0 ns NULL\<rparr>"
    using tail by (cases ns) simp_all
  moreover have "ul_size l \<noteq> 0" using size by auto
  ultimately have "ll_deq_u (Some l) h = Some (0, Some (uval h n), Some ?l, ?h)"
    using d by (simp add: ll_deq_u_def Let_def uval_def)
  moreover have "useg ?h (un_next d) NULL ns = useg h (un_next d) NULL ns" by (rule useg_cong) (use d in auto)
  then have "ul_nodes ?l ?h ns" using d assms unat_pred [OF size] by (simp add: ul_nodes_def)
  moreover have "map (uval ?h) ns = map (uval h) ns" using d by (auto simp: uval_def)
  ultimately show ?thesis by auto
qed

lemma ll_deq_u_empty: "ul_nodes l h [] \<Longrightarrow> ll_deq_u (Some l) h = Some (-1, None, Some l, h)"
  by (simp add: ll_deq_u_def ul_nodes_def unat_eq_0 Let_def)

subsubsection \<open>Searching and destroying\<close>

lemma find_loop_u_ok:
  assumes "useg h p NULL ns" "\<And>n. n \<in> set ns \<Longrightarrow> f (uval h n) = Some (g (uval h n))"
  shows "find_loop_u f c p h = Some (case List.find (\<lambda>v. g v = c) (map (uval h) ns) of
     None \<Rightarrow> (-1, None) | Some v \<Rightarrow> (0, Some v))"
  using assms
proof (induction ns arbitrary: p)
  case Nil
  then show ?case by (simp add: find_loop_u.simps)
next
  case (Cons n ns)
  from Cons.prems(1) obtain d where d: "p = n" "n \<noteq> NULL" "uh_nodes h n = Some d" "useg h (un_next d) NULL ns" by auto
  have "f (un_e d) = Some (g (un_e d))" using Cons.prems(2) [of n] d by (simp add: uval_def)
  moreover have "find_loop_u f c (un_next d) h = Some (case List.find (\<lambda>v. g v = c) (map (uval h) ns) of
     None \<Rightarrow> (-1, None) | Some v \<Rightarrow> (0, Some v))"
    by (rule Cons.IH [OF d(4)]) (rule Cons.prems(2), simp)
  ultimately show ?case using d by (subst find_loop_u.simps) (simp add: uval_def)
qed

lemma destroy_loop_u_ok:
  assumes "useg h p NULL ns" "distinct ns"
  shows "\<exists>h'. destroy_loop_u p h = Some h' \<and> uh_nodes h' = uh_nodes h |` (- set ns)"
  using assms
proof (induction ns arbitrary: p h)
  case Nil
  then show ?case by (auto simp: destroy_loop_u.simps)
next
  case (Cons n ns)
  from Cons.prems(1) obtain d where d: "p = n" "n \<noteq> NULL" "uh_nodes h n = Some d" "useg h (un_next d) NULL ns" by auto
  let ?h = "h\<lparr>uh_nodes := (uh_nodes h)(n := None)\<rparr>"
  have "useg ?h (un_next d) NULL ns = useg h (un_next d) NULL ns" by (rule useg_cong) (use Cons.prems in auto)
  then obtain h' where h': "destroy_loop_u (un_next d) ?h = Some h'" "uh_nodes h' = uh_nodes ?h |` (- set ns)"
    using Cons.IH [of ?h "un_next d"] Cons.prems(2) d(4) by (metis distinct.simps(2))
  have "uh_nodes h' = uh_nodes h |` (- set (n # ns))" using h'(2) by (auto simp: fun_eq_iff restrict_map_def)
  with h'(1) d show ?case by (subst destroy_loop_u.simps) simp
qed

subsubsection \<open>Removing\<close>

text \<open>The loop looks at the successors only: it stops before the first of them that matches, or at the end.\<close>

lemma remove_loop_u_ok:
  assumes "useg h p NULL (n # ns)"
  shows "remove_loop_u v p h = Some (last0 (takeWhile (\<lambda>m. uval h m \<noteq> v) ns) n)"
  using assms
proof (induction ns arbitrary: p n)
  case Nil
  then show ?case by (subst remove_loop_u.simps) auto
next
  case (Cons m ns)
  from Cons.prems obtain d e where d: "p = n" "n \<noteq> NULL" "uh_nodes h n = Some d" "un_next d = m" "m \<noteq> NULL"
    "uh_nodes h m = Some e" "useg h m NULL (m # ns)" by auto
  show ?case using d Cons.IH [OF d(7)] by (subst remove_loop_u.simps) (simp add: uval_def)
qed

text \<open>What \<open>ll_remove\<close> does, by the place at which its loop stops.\<close>

lemma ll_remove_u_missing:
  assumes "ul_nodes l h (n # ns)" "ns \<noteq> []" "\<forall>m\<in>set ns. uval h m \<noteq> v"
  shows "ll_remove_u (Some l) v h = Some (-1, Some l, h)"
proof -
  have seg: "useg h (ul_head l) NULL (n # ns)" using assms(1) by (simp add: ul_nodes_def)
  have "takeWhile (\<lambda>m. uval h m \<noteq> v) ns = ns" using assms(3) by (simp add: takeWhile_eq_all_conv)
  then have loop: "remove_loop_u v (ul_head l) h = Some (last ns)"
    using remove_loop_u_ok [OF seg, of v] assms(2) by (simp only: last0_def if_False)
  obtain ms k where ms: "n # ns = ms @ [k]" "k = last ns" using assms(2) by (metis append_butlast_last_id last_ConsR list.distinct(1))
  then obtain d where d: "uh_nodes h k = Some d" "un_next d = NULL" "k \<noteq> NULL"
    using seg by (auto simp: useg_append)
  have "uval h k \<noteq> v" using assms(2,3) ms(2) by simp
  then show ?thesis using loop d ms(2) by (simp add: ll_remove_u_def uval_def)
qed

lemma ll_remove_u_found:
  assumes "ul_nodes l h (xs @ a # b # ys)" "uval h b = v" "\<forall>m\<in>set (xs @ [a]). uval h m \<noteq> v"
  shows "\<exists>l' h'. ll_remove_u (Some l) v h = Some (0, Some l', h') \<and> uh_nodes h' b = None \<and>
    ul_tail l' = ul_tail l \<and> useg h' (ul_head l') NULL (xs @ a # ys) \<and> unat (ul_size l') = length (xs @ a # ys)"
proof -
  have seg: "useg h (ul_head l) NULL (xs @ a # b # ys)" "distinct (xs @ a # b # ys)"
    using assms(1) by (simp_all add: ul_nodes_def)
  then obtain d e where d: "useg h (ul_head l) a xs" "uh_nodes h a = Some d" "a \<noteq> NULL" "un_next d = b"
    "uh_nodes h b = Some e" "b \<noteq> NULL" "useg h (un_next e) NULL ys" by (auto simp: useg_append)
  have size: "unat (ul_size l) = Suc (length (xs @ a # ys))" using assms(1) by (simp add: ul_nodes_def)
  have loop: "remove_loop_u v (ul_head l) h = Some a"
  proof (cases xs)
    case Nil
    then show ?thesis using remove_loop_u_ok [of h "ul_head l" a "b # ys" v] seg assms(2) by simp
  next
    case (Cons x xs')
    have "takeWhile (\<lambda>m. uval h m \<noteq> v) (xs' @ a # b # ys) = xs' @ [a]"
      using assms(2,3) Cons by (simp add: takeWhile_append)
    then show ?thesis using remove_loop_u_ok [of h "ul_head l" x "xs' @ a # b # ys" v] seg Cons by simp
  qed
  let ?h = "h\<lparr>uh_nodes := (uh_nodes h)(a \<mapsto> d\<lparr>un_next := un_next e\<rparr>, b := None)\<rparr>"
  have "uval h a \<noteq> v" using assms(3) by simp
  then have "ll_remove_u (Some l) v h = Some (0, Some (l\<lparr>ul_size := ul_size l - 1\<rparr>), ?h)"
    using loop d by (simp add: ll_remove_u_def uval_def)
  moreover have "useg ?h (ul_head l) a xs = useg h (ul_head l) a xs"
    by (rule useg_cong) (use seg(2) in auto)
  moreover have "useg ?h (un_next e) NULL ys = useg h (un_next e) NULL ys"
    by (rule useg_cong) (use seg(2) in auto)
  ultimately show ?thesis using d seg(2) unat_pred [OF size] by (auto simp: useg_append)
qed

subsection \<open>Properties\<close>


text \<open>A list of three values for evaluation.\<close>

definition ex_list :: ulist where
  "ex_list = \<lparr>ul_head = 16, ul_tail = 48, ul_size = 3\<rparr>"

definition ex_nodes :: uheap where
  "ex_nodes = \<lparr>uh_nodes = [16 \<mapsto> \<lparr>un_e = 7, un_next = 32\<rparr>, 32 \<mapsto> \<lparr>un_e = 8, un_next = 48\<rparr>,
     48 \<mapsto> \<lparr>un_e = 9, un_next = NULL\<rparr>], uh_calls = 3\<rparr>"

lemma ex_list_nodes: "ul_nodes ex_list ex_nodes [16, 32, 48]"
  by (simp add: ul_nodes_def ex_list_def ex_nodes_def)

lemma ex_list_values: "map (uval ex_nodes) [16, 32, 48] = [7, 8, 9]"
  by (simp add: uval_def ex_nodes_def)


text \<open>
  \<open>ll_remove\<close> does not remove the first element of a longer list (it reports \<open>-1\<close> although
  the value is stored), and when it removes the last element the tail of the list keeps pointing to the
  node that has just been freed. Elements in between are removed as they should.
\<close>

theorem ll_remove_u_ends:
  assumes "ul_nodes l h (a # bs @ [c])" "distinct (map (uval h) (a # bs @ [c]))"
  shows "ll_remove_u (Some l) (uval h a) h = Some (-1, Some l, h) \<and>
    (\<exists>l' h'. ll_remove_u (Some l) (uval h c) h = Some (0, Some l', h') \<and> ul_tail l' = c \<and> uh_nodes h' c = None) \<and>
    (\<forall>xs b ys. bs = xs @ b # ys \<longrightarrow> (\<exists>l' h'. ll_remove_u (Some l) (uval h b) h = Some (0, Some l', h') \<and>
       ul_nodes l' h' (a # xs @ ys @ [c])))"
proof (intro conjI allI impI)
  show "ll_remove_u (Some l) (uval h a) h = Some (-1, Some l, h)"
    by (rule ll_remove_u_missing [OF assms(1)]) (use assms(2) in \<open>auto simp: image_iff\<close>)
  have tail: "ul_tail l = c" using assms(1) by (simp add: ul_nodes_def)
  obtain ys x where split: "a # bs = ys @ [x]" by (metis list.discI rev_exhaust)
  then have all: "a # bs @ [c] = ys @ x # c # []" by (metis append.assoc append_Cons append_Nil)
  have "\<forall>m\<in>set (ys @ [x]). uval h m \<noteq> uval h c"
    using assms(2) unfolding split [symmetric] by (auto simp: image_iff)
  then show "\<exists>l' h'. ll_remove_u (Some l) (uval h c) h = Some (0, Some l', h') \<and> ul_tail l' = c \<and> uh_nodes h' c = None"
    using ll_remove_u_found [of l h ys x c "[]" "uval h c"] assms(1) tail unfolding all by auto
  fix xs b zs assume bs: "bs = xs @ b # zs"
  obtain ws y where w: "a # xs = ws @ [y]" by (metis list.discI rev_exhaust)
  then have eqs: "a # bs @ [c] = ws @ y # b # (zs @ [c])" "a # xs @ zs @ [c] = ws @ y # zs @ [c]"
    using bs by (metis append.assoc append_Cons append_Nil)+
  have "\<forall>m\<in>set (ws @ [y]). uval h m \<noteq> uval h b"
    using assms(2) bs unfolding w [symmetric] by (auto simp: image_iff)
  then obtain l' h' where rm: "ll_remove_u (Some l) (uval h b) h = Some (0, Some l', h')" "ul_tail l' = c"
    "useg h' (ul_head l') NULL (a # xs @ zs @ [c])" "unat (ul_size l') = length (a # xs @ zs @ [c])"
    using ll_remove_u_found [of l h ws y b "zs @ [c]" "uval h b"] assms(1) tail unfolding eqs by metis
  have "distinct (a # xs @ zs @ [c])" using assms(1) bs by (auto simp: ul_nodes_def)
  then have "ul_nodes l' h' (a # xs @ zs @ [c])" using rm by (simp add: ul_nodes_def)
  with rm(1) show "\<exists>l' h'. ll_remove_u (Some l) (uval h b) h = Some (0, Some l', h') \<and>
       ul_nodes l' h' (a # xs @ zs @ [c])" by blast
qed

theorem ll_remove_u_ends_witness:
  "ll_remove_u (Some ex_list) 7 ex_nodes = Some (-1, Some ex_list, ex_nodes) \<and>
   (\<exists>l' h'. ll_remove_u (Some ex_list) 9 ex_nodes = Some (0, Some l', h') \<and> ul_tail l' = 48 \<and> uh_nodes h' 48 = None)"
proof -
  have "ul_nodes ex_list ex_nodes (16 # [32] @ [48])" using ex_list_nodes by simp
  moreover have "distinct (map (uval ex_nodes) (16 # [32] @ [48]))" by (simp add: uval_def ex_nodes_def)
  ultimately show ?thesis using ll_remove_u_ends [of ex_list ex_nodes 16 "[32]" 48] by (simp add: uval_def ex_nodes_def)
qed

end
