(* ===== verification/WaitQueue.thy ===== *)
theory WaitQueue
  imports Prelude
begin

text \<open>
  What \<open>user/libthread/mutex.c\<close>, \<open>sem.c\<close> and \<open>cond.c\<close> have in common: the spin lock built on \<open>xchng\<close>, and
  the way in which a thread sleeps until another one has set its \<open>reject\<close> flag. A sleeping
  thread stores its \<open>thread_t\<close> in a local variable and queues its address; the waking thread takes the
  address from the queue, sets \<open>reject\<close> in it and passes its \<open>k_tid\<close> to \<open>make_runnable\<close>.

  The protocol is stated once, as a step relation on the queue, the stack variables that are in
  scope and the phase of every thread; \<open>UserSem\<close> and \<open>UserCond\<close> show that semaphores and condition
  variables are instances of it.
\<close>

subsection \<open>The mutex of the thread library\<close>

record umutex =
  um_lock :: int

definition xchng_u :: "umutex \<Rightarrow> int \<Rightarrow> int \<times> umutex" where
  "xchng_u m v = (um_lock m, m\<lparr>um_lock := v\<rparr>)"

definition mutex_init_u :: "umutex option \<Rightarrow> int \<times> umutex option" where
  "mutex_init_u mp = (case mp of None \<Rightarrow> (-1, None) | Some m \<Rightarrow> (0, Some (m\<lparr>um_lock := 1\<rparr>)))"

definition mutex_destroy_u :: "umutex \<Rightarrow> umutex" where
  "mutex_destroy_u m = m\<lparr>um_lock := -1\<rparr>"

text \<open>
  \<open>mutex_lock\<close> when no other thread acts meanwhile: \<open>None\<close> is the loop that never ends. The step relations below
  perform the exchange of the loop and the store after it as separate steps.
\<close>

definition mutex_lock_u :: "umutex \<Rightarrow> umutex option" where
  "mutex_lock_u m = (let (old, m) = xchng_u m 0 in if old \<noteq> 0 then Some (m\<lparr>um_lock := 0\<rparr>) else None)"

definition mutex_unlock_u :: "umutex \<Rightarrow> umutex" where
  "mutex_unlock_u m = snd (xchng_u m 1)"

text \<open>
  What a step of the thread \<open>t\<close> does to a mutex and to the set of threads that hold it: nothing; an exchange, which acquires the
  mutex if it finds it free; the store of 0 after that; or the release. \<open>lock_changeI\<close> gives the four
  cases for threads that are at a place of a program and hold the mutex at the places \<open>H\<close>.
\<close>

definition lock_change :: "int \<Rightarrow> umutex \<Rightarrow> (int \<Rightarrow> bool) \<Rightarrow> umutex \<Rightarrow> (int \<Rightarrow> bool) \<Rightarrow> bool" where
  "lock_change t m h m' h' \<longleftrightarrow>
     (m' = m \<and> h' = h) \<or>
     (\<exists>old. xchng_u m 0 = (old, m') \<and> h' = (if old \<noteq> 0 then h(t := True) else h)) \<or>
     (h t \<and> m' = m\<lparr>um_lock := 0\<rparr> \<and> h' = h) \<or>
     (h t \<and> m' = mutex_unlock_u m \<and> h' = h(t := False))"

lemma comp_upd_same: "H pc = H (pcs t) \<Longrightarrow> H \<circ> pcs(t := pc) = H \<circ> pcs"
  by (auto simp: fun_eq_iff)

lemma comp_upd: "H \<circ> pcs(t := pc) = (H \<circ> pcs)(t := H pc)"
  by (auto simp: fun_eq_iff)

lemma lock_change_same: "m' = m \<Longrightarrow> h' = h \<Longrightarrow> lock_change t m h m' h'"
  by (simp add: lock_change_def)

lemma lock_changeI:
  assumes "pcs' = pcs(t := pc)"
  shows "m' = m \<Longrightarrow> H pc = H (pcs t) \<Longrightarrow> lock_change t m (H \<circ> pcs) m' (H \<circ> pcs')"
    and "H (pcs t) \<Longrightarrow> \<not> H pc \<Longrightarrow> m' = mutex_unlock_u m \<Longrightarrow> lock_change t m (H \<circ> pcs) m' (H \<circ> pcs')"
    and "H (pcs t) \<Longrightarrow> H pc \<Longrightarrow> m' = m\<lparr>um_lock := 0\<rparr> \<Longrightarrow> lock_change t m (H \<circ> pcs) m' (H \<circ> pcs')"
    and "xchng_u m 0 = (old, m') \<Longrightarrow> \<not> H (pcs t) \<Longrightarrow> H pc = (old \<noteq> 0) \<Longrightarrow> lock_change t m (H \<circ> pcs) m' (H \<circ> pcs')"
proof -
  show "m' = m \<Longrightarrow> H pc = H (pcs t) \<Longrightarrow> lock_change t m (H \<circ> pcs) m' (H \<circ> pcs')"
    unfolding assms by (simp add: lock_change_def comp_upd_same)
  show "H (pcs t) \<Longrightarrow> \<not> H pc \<Longrightarrow> m' = mutex_unlock_u m \<Longrightarrow> lock_change t m (H \<circ> pcs) m' (H \<circ> pcs')"
    unfolding assms by (simp add: lock_change_def comp_upd)
  show "H (pcs t) \<Longrightarrow> H pc \<Longrightarrow> m' = m\<lparr>um_lock := 0\<rparr> \<Longrightarrow> lock_change t m (H \<circ> pcs) m' (H \<circ> pcs')"
    unfolding assms by (simp add: lock_change_def comp_upd_same)
  show "xchng_u m 0 = (old, m') \<Longrightarrow> \<not> H (pcs t) \<Longrightarrow> H pc = (old \<noteq> 0) \<Longrightarrow> lock_change t m (H \<circ> pcs) m' (H \<circ> pcs')"
    unfolding assms lock_change_def by (cases "old = 0") (simp_all add: comp_upd fun_upd_idem)
qed

text \<open>A system of threads all of whose steps are of that kind has mutual exclusion.\<close>

locale spin_lock =
  fixes step :: "'s \<Rightarrow> 's \<Rightarrow> bool"
    and lock :: "'s \<Rightarrow> umutex"
    and holds :: "'s \<Rightarrow> int \<Rightarrow> bool"
  assumes lock_step: "step s s' \<Longrightarrow> \<exists>t. lock_change t (lock s) (holds s) (lock s') (holds s')"
begin

definition exclusive :: "'s \<Rightarrow> bool" where
  "exclusive s \<longleftrightarrow> (um_lock (lock s) = 0 \<longleftrightarrow> (\<exists>t. holds s t)) \<and> (\<forall>t u. holds s t \<longrightarrow> holds s u \<longrightarrow> t = u)"

lemma exclusive_step:
  assumes "step s s'" "exclusive s"
  shows "exclusive s'"
  using lock_step [OF assms(1)] unfolding lock_change_def
proof (elim disjE exE conjE)
  fix t old assume x: "xchng_u (lock s) 0 = (old, lock s')"
    "holds s' = (if old \<noteq> 0 then (holds s)(t := True) else holds s)"
  then have "lock s' = (lock s)\<lparr>um_lock := 0\<rparr>" "old = um_lock (lock s)" by (simp_all add: xchng_u_def)
  then show ?thesis using assms(2) x(2) by (auto simp: exclusive_def)
next
  fix t assume t: "holds s t" "lock s' = mutex_unlock_u (lock s)" "holds s' = (holds s)(t := False)"
  then have "\<not> holds s' u" for u using assms(2) by (auto simp: exclusive_def)
  then show ?thesis using t(2) by (simp add: exclusive_def mutex_unlock_u_def xchng_u_def)
next
  fix t assume "holds s t" "lock s' = (lock s)\<lparr>um_lock := 0\<rparr>" "holds s' = holds s"
  then show ?thesis using assms(2) by (auto simp: exclusive_def)
qed (use assms(2) in \<open>simp add: exclusive_def\<close>)

lemma exclusive_reachable: "step\<^sup>*\<^sup>* s s' \<Longrightarrow> exclusive s \<Longrightarrow> exclusive s'"
  by (induction rule: rtranclp_induct) (auto intro: exclusive_step)

end

subsection \<open>Sleeping until the flag is set\<close>

text \<open>The fields of \<open>thread_t\<close> that a waiting thread uses.\<close>

record wframe =
  f_tid :: int
  f_reject :: int

text \<open>
  The system call \<open>deschedule(&reject)\<close> as the library sees it: for the value of the flag, whether the thread
  is taken off the processor and what the flag is afterwards. The library relies on the documented call, which reads the
  flag. \<open>thr_deschedule\<close> of this kernel exchanges the flag with 0.
\<close>

type_synonym flag_call = "int \<Rightarrow> bool \<times> int"

definition documented_deschedule :: flag_call where
  "documented_deschedule r = (r = 0, r)"

definition kernel_deschedule :: flag_call where
  "kernel_deschedule r = (if r \<noteq> 0 then (False, 0) else (True, 0))"

text \<open>
  The phase of a thread: away from the queue; waiting (awake, before the test of its flag or before \<open>deschedule\<close>);
  asleep inside \<open>deschedule\<close>; leaving, after the loop; or waking another thread: it has taken an
  address from the queue, or has also set the flag.
\<close>

datatype phase = Away | Waiting ptr | Asleep ptr | Leaving ptr | Rejecting ptr | Waking ptr

record wqueue =
  wq_q :: "ptr list"
  wq_frames :: "ptr \<rightharpoonup> wframe"
  wq_phase :: "int \<Rightarrow> phase"

text \<open>\<open>make_runnable(k)\<close>: a thread that is asleep continues after its \<open>deschedule\<close>; any other is left alone.\<close>

definition wake_phase :: "int \<Rightarrow> (int \<Rightarrow> phase) \<Rightarrow> int \<Rightarrow> phase" where
  "wake_phase k ph = (case ph k of Asleep a \<Rightarrow> ph(k := Waiting a) | _ \<Rightarrow> ph)"

text \<open>\<open>temp->k_tid\<close>: when the variable is no longer in scope, whatever is on the stack.\<close>

definition read_tid :: "(ptr \<rightharpoonup> wframe) \<Rightarrow> ptr \<Rightarrow> int \<Rightarrow> int" where
  "read_tid fr a junk = (case fr a of Some f \<Rightarrow> f_tid f | None \<Rightarrow> junk)"

inductive wq_step :: "flag_call \<Rightarrow> wqueue \<Rightarrow> wqueue \<Rightarrow> bool" for d where
  enq: "wq_phase w t = Away \<Longrightarrow> wq_frames w a = None \<Longrightarrow>
    wq_step d w (w\<lparr>wq_q := wq_q w @ [a], wq_frames := (wq_frames w)(a \<mapsto> \<lparr>f_tid = t, f_reject = 0\<rparr>),
      wq_phase := (wq_phase w)(t := Waiting a)\<rparr>)"
| sleep: "wq_phase w t = Waiting a \<Longrightarrow> wq_frames w a = Some f \<Longrightarrow> d (f_reject f) = (b, r) \<Longrightarrow>
    wq_step d w (w\<lparr>wq_frames := (wq_frames w)(a \<mapsto> f\<lparr>f_reject := r\<rparr>),
      wq_phase := (wq_phase w)(t := (if b then Asleep a else Waiting a))\<rparr>)"
| stop: "wq_phase w t = Waiting a \<Longrightarrow> wq_frames w a = Some f \<Longrightarrow> f_reject f \<noteq> 0 \<Longrightarrow>
    wq_step d w (w\<lparr>wq_phase := (wq_phase w)(t := Leaving a)\<rparr>)"
| leave: "wq_phase w t = Leaving a \<Longrightarrow>
    wq_step d w (w\<lparr>wq_frames := (wq_frames w)(a := None), wq_phase := (wq_phase w)(t := Away)\<rparr>)"
| deq: "wq_phase w u = Away \<Longrightarrow> wq_q w = a # q \<Longrightarrow>
    wq_step d w (w\<lparr>wq_q := q, wq_phase := (wq_phase w)(u := Rejecting a)\<rparr>)"
| reject: "wq_phase w u = Rejecting a \<Longrightarrow> wq_frames w a = Some f \<Longrightarrow>
    wq_step d w (w\<lparr>wq_frames := (wq_frames w)(a \<mapsto> f\<lparr>f_reject := 1\<rparr>), wq_phase := (wq_phase w)(u := Waking a)\<rparr>)"
| wake: "wq_phase w u = Waking a \<Longrightarrow> k = read_tid (wq_frames w) a junk \<Longrightarrow>
    wq_step d w (w\<lparr>wq_phase := (wake_phase k (wq_phase w))(u := Away)\<rparr>)"
| spurious: "wq_step d w (w\<lparr>wq_phase := wake_phase k (wq_phase w)\<rparr>)"

inductive_cases wq_stepE: "wq_step d w w'"

subsection \<open>No wake-up is lost\<close>

text \<open>The thread that owns a variable on the stack, and what it does there.\<close>

definition inside :: "wqueue \<Rightarrow> ptr \<Rightarrow> int \<Rightarrow> bool" where
  "inside w a t \<longleftrightarrow> wq_phase w t \<in> {Waiting a, Asleep a, Leaving a}"

definition frames_ok :: "wqueue \<Rightarrow> bool" where
  "frames_ok w \<longleftrightarrow> (\<forall>a t. inside w a t \<longleftrightarrow> (\<exists>f. wq_frames w a = Some f \<and> f_tid f = t))"

definition pending :: "wqueue \<Rightarrow> ptr \<Rightarrow> bool" where
  "pending w a \<longleftrightarrow> a \<in> set (wq_q w) \<or> (\<exists>u. wq_phase w u = Rejecting a)"

text \<open>
  The invariant: a variable whose address is queued, or held by a thread that is about to set its flag, is in scope with the flag 0
  and held only once; every flag that is 0 is pending; and a thread that is asleep with its flag set is about to be woken.
\<close>

definition wq_inv :: "wqueue \<Rightarrow> bool" where
  "wq_inv w \<longleftrightarrow> frames_ok w \<and> distinct (wq_q w) \<and>
     (\<forall>a u. wq_phase w u = Rejecting a \<longrightarrow> a \<notin> set (wq_q w) \<and> (\<forall>v. wq_phase w v = Rejecting a \<longrightarrow> v = u)) \<and>
     (\<forall>a. pending w a \<longrightarrow> (\<exists>f. wq_frames w a = Some f \<and> f_reject f = 0)) \<and>
     (\<forall>a f. wq_frames w a = Some f \<longrightarrow> f_reject f = 0 \<longrightarrow> pending w a) \<and>
     (\<forall>a t. wq_phase w t = Leaving a \<longrightarrow> \<not> pending w a) \<and>
     (\<forall>a t f. wq_phase w t = Asleep a \<longrightarrow> wq_frames w a = Some f \<longrightarrow> f_reject f \<noteq> 0 \<longrightarrow> (\<exists>u. wq_phase w u = Waking a))"

lemma wq_invD:
  assumes "wq_inv w"
  shows "frames_ok w" "distinct (wq_q w)"
    "wq_phase w u = Rejecting a \<Longrightarrow> a \<notin> set (wq_q w)"
    "wq_phase w u = Rejecting a \<Longrightarrow> wq_phase w v = Rejecting a \<Longrightarrow> v = u"
    "pending w a \<Longrightarrow> \<exists>f. wq_frames w a = Some f \<and> f_reject f = 0"
    "wq_frames w a = Some f \<Longrightarrow> f_reject f = 0 \<Longrightarrow> pending w a"
    "wq_phase w t = Leaving a \<Longrightarrow> \<not> pending w a"
    "wq_phase w t = Asleep a \<Longrightarrow> wq_frames w a = Some f \<Longrightarrow> f_reject f \<noteq> 0 \<Longrightarrow> \<exists>u. wq_phase w u = Waking a"
  using assms unfolding wq_inv_def by blast+

lemma frames_okD: "frames_ok w \<Longrightarrow> inside w a t \<longleftrightarrow> (\<exists>f. wq_frames w a = Some f \<and> f_tid f = t)"
  by (simp add: frames_ok_def)

lemma wake_phase_simps [simp]:
  "wake_phase k ph t = Rejecting a \<longleftrightarrow> ph t = Rejecting a"
  "wake_phase k ph t = Waking a \<longleftrightarrow> ph t = Waking a"
  "wake_phase k ph t = Leaving a \<longleftrightarrow> ph t = Leaving a"
  "wake_phase k ph t = Away \<longleftrightarrow> ph t = Away"
  "wake_phase k ph t = Asleep a \<longleftrightarrow> ph t = Asleep a \<and> k \<noteq> t"
  "wake_phase k ph t = Waiting a \<longleftrightarrow> ph t = Waiting a \<or> ph t = Asleep a \<and> k = t"
  by (auto simp: wake_phase_def split: phase.splits)

lemma wq_invI:
  assumes "frames_ok w" "distinct (wq_q w)"
    "\<And>a u. wq_phase w u = Rejecting a \<Longrightarrow> a \<notin> set (wq_q w)"
    "\<And>a u v. wq_phase w u = Rejecting a \<Longrightarrow> wq_phase w v = Rejecting a \<Longrightarrow> v = u"
    "\<And>a. pending w a \<Longrightarrow> \<exists>f. wq_frames w a = Some f \<and> f_reject f = 0"
    "\<And>a f. wq_frames w a = Some f \<Longrightarrow> f_reject f = 0 \<Longrightarrow> pending w a"
    "\<And>a t. wq_phase w t = Leaving a \<Longrightarrow> \<not> pending w a"
    "\<And>a t f. wq_phase w t = Asleep a \<Longrightarrow> wq_frames w a = Some f \<Longrightarrow> f_reject f \<noteq> 0 \<Longrightarrow> \<exists>u. wq_phase w u = Waking a"
  shows "wq_inv w"
  using assms unfolding wq_inv_def by blast

text \<open>Which threads are in a given phase after one of them has changed its phase.\<close>

lemma ex_phase_upd: "ph t \<noteq> y \<Longrightarrow> (\<exists>u. (ph(t := x)) u = y) \<longleftrightarrow> x = y \<or> (\<exists>u. ph u = y)"
  by (metis fun_upd_apply)

lemma pending_upd:
  "wq_phase w t \<noteq> Rejecting a \<Longrightarrow> pending (w\<lparr>wq_q := q, wq_frames := fr, wq_phase := (wq_phase w)(t := x)\<rparr>) a \<longleftrightarrow>
     a \<in> set q \<or> x = Rejecting a \<or> (\<exists>u. wq_phase w u = Rejecting a)"
  using ex_phase_upd [of "wq_phase w" t "Rejecting a" x] by (simp add: pending_def)

lemma inside_inj: "inside w a t \<Longrightarrow> inside w b t \<Longrightarrow> a = b"
  by (auto simp: inside_def)

lemma inside_owner: "frames_ok w \<Longrightarrow> inside w a t \<Longrightarrow> inside w a u \<Longrightarrow> u = t"
  unfolding frames_ok_def by force

lemma wq_inv_wake:
  assumes "wq_inv w"
  shows "wq_inv (w\<lparr>wq_phase := wake_phase k (wq_phase w)\<rparr>)"
proof -
  let ?w = "w\<lparr>wq_phase := wake_phase k (wq_phase w)\<rparr>"
  have "inside ?w a t = inside w a t" for a t by (auto simp: inside_def)
  then have "frames_ok ?w" using wq_invD(1) [OF assms] by (simp add: frames_ok_def)
  moreover have "pending ?w a = pending w a" for a by (simp add: pending_def)
  ultimately show ?thesis using wq_invD [OF assms] by (intro wq_invI) auto
qed

lemma wq_inv_enq:
  assumes "wq_inv w" "wq_phase w t = Away" "wq_frames w a = None"
  shows "wq_inv (w\<lparr>wq_q := wq_q w @ [a], wq_frames := (wq_frames w)(a \<mapsto> \<lparr>f_tid = t, f_reject = 0\<rparr>),
      wq_phase := (wq_phase w)(t := Waiting a)\<rparr>)" (is "wq_inv ?w")
proof -
  note inv = wq_invD [OF assms(1)]
  have none: "\<not> inside w a u" for u using frames_okD [OF inv(1)] assms(3) by simp
  have "\<not> pending w a" using inv(5) assms(3) by force
  then have old: "a \<notin> set (wq_q w)" "wq_phase w u \<noteq> Rejecting a" for u by (auto simp: pending_def)
  have pend: "pending ?w b \<longleftrightarrow> pending w b \<or> b = a" for b
    using assms(2) by (subst pending_upd) (auto simp: pending_def)
  have ins: "inside ?w b u \<longleftrightarrow> inside w b u \<and> u \<noteq> t \<or> b = a \<and> u = t" for b u
    using none assms(2) by (auto simp: inside_def)
  have waking: "(\<exists>u. wq_phase ?w u = Waking b) \<longleftrightarrow> (\<exists>u. wq_phase w u = Waking b)" for b
    using ex_phase_upd [of "wq_phase w" t "Waking b" "Waiting a"] assms(2) by simp
  have own: "wq_frames w b = Some f \<Longrightarrow> f_tid f \<noteq> t" for b f
    using frames_okD [OF inv(1), of b t] assms(2) by (auto simp: inside_def)
  have "frames_ok ?w"
    unfolding frames_ok_def ins using frames_okD [OF inv(1)] own assms(3) by auto
  then show ?thesis
    by (intro wq_invI; (unfold pend waking)?) (use inv old none assms in \<open>auto simp: inside_def split: if_splits\<close>)
qed

lemma wq_inv_leave:
  assumes "wq_inv w" "wq_phase w t = Leaving a"
  shows "wq_inv (w\<lparr>wq_frames := (wq_frames w)(a := None), wq_phase := (wq_phase w)(t := Away)\<rparr>)" (is "wq_inv ?w")
proof -
  note inv = wq_invD [OF assms(1)]
  have t: "inside w a t" using assms(2) by (simp add: inside_def)
  have pend: "pending ?w b \<longleftrightarrow> pending w b" for b
    using pending_upd [where w = w and t = t and a = b and q = "wq_q w" and fr = "(wq_frames w)(a := None)" and x = Away] assms(2) by (auto simp: pending_def)
  have ins: "inside ?w b u \<longleftrightarrow> inside w b u \<and> u \<noteq> t" for b u by (auto simp: inside_def)
  have waking: "(\<exists>u. wq_phase ?w u = Waking b) \<longleftrightarrow> (\<exists>u. wq_phase w u = Waking b)" for b
    using ex_phase_upd [of "wq_phase w" t "Waking b" Away] assms(2) by simp
  have "inside w b u \<and> u \<noteq> t \<longleftrightarrow> b \<noteq> a \<and> inside w b u" for b u
    using t inside_inj inside_owner [OF inv(1)] by blast
  then have "frames_ok ?w" unfolding frames_ok_def ins using frames_okD [OF inv(1)] by auto
  then show ?thesis
    by (intro wq_invI; (unfold pend waking)?) (use inv assms in \<open>auto split: if_splits\<close>)
qed

lemma wq_inv_stop:
  assumes "wq_inv w" "wq_phase w t = Waiting a" "wq_frames w a = Some f" "f_reject f \<noteq> 0"
  shows "wq_inv (w\<lparr>wq_phase := (wq_phase w)(t := Leaving a)\<rparr>)" (is "wq_inv ?w")
proof -
  note inv = wq_invD [OF assms(1)]
  have pend: "pending ?w b \<longleftrightarrow> pending w b" for b
    using pending_upd [where w = w and t = t and a = b and q = "wq_q w" and fr = "wq_frames w" and x = "Leaving a"] assms(2) by (auto simp: pending_def)
  have ins: "inside ?w b u \<longleftrightarrow> inside w b u" for b u using assms(2) by (auto simp: inside_def)
  have waking: "(\<exists>u. wq_phase ?w u = Waking b) \<longleftrightarrow> (\<exists>u. wq_phase w u = Waking b)" for b
    using ex_phase_upd [of "wq_phase w" t "Waking b" "Leaving a"] assms(2) by simp
  have "\<not> pending w a" using inv(5) [of a] assms(3,4) by auto
  moreover have "frames_ok ?w" using inv(1) by (simp add: frames_ok_def ins)
  ultimately show ?thesis
    by (intro wq_invI; (unfold pend waking)?) (use inv assms in \<open>auto split: if_splits\<close>)
qed

lemma wq_inv_sleep:
  assumes "wq_inv w" "wq_phase w t = Waiting a" "wq_frames w a = Some f" "f_reject f = 0"
  shows "wq_inv (w\<lparr>wq_phase := (wq_phase w)(t := Asleep a)\<rparr>)" (is "wq_inv ?w")
proof -
  note inv = wq_invD [OF assms(1)]
  have pend: "pending ?w b \<longleftrightarrow> pending w b" for b
    using pending_upd [where w = w and t = t and a = b and q = "wq_q w" and fr = "wq_frames w" and x = "Asleep a"] assms(2) by (auto simp: pending_def)
  have ins: "inside ?w b u \<longleftrightarrow> inside w b u" for b u using assms(2) by (auto simp: inside_def)
  have waking: "(\<exists>u. wq_phase ?w u = Waking b) \<longleftrightarrow> (\<exists>u. wq_phase w u = Waking b)" for b
    using ex_phase_upd [of "wq_phase w" t "Waking b" "Asleep a"] assms(2) by simp
  have "frames_ok ?w" using inv(1) by (simp add: frames_ok_def ins)
  then show ?thesis
    by (intro wq_invI; (unfold pend waking)?) (use inv assms in \<open>auto split: if_splits\<close>)
qed

lemma wq_inv_deq:
  assumes "wq_inv w" "wq_phase w u = Away" "wq_q w = a # q"
  shows "wq_inv (w\<lparr>wq_q := q, wq_phase := (wq_phase w)(u := Rejecting a)\<rparr>)" (is "wq_inv ?w")
proof -
  note inv = wq_invD [OF assms(1)]
  have pend: "pending ?w b \<longleftrightarrow> pending w b" for b
    using pending_upd [where w = w and t = u and a = b and q = q and fr = "wq_frames w" and x = "Rejecting a"] assms(2,3) by (auto simp: pending_def)
  have ins: "inside ?w b t \<longleftrightarrow> inside w b t" for b t using assms(2) by (auto simp: inside_def)
  have waking: "(\<exists>u. wq_phase ?w u = Waking b) \<longleftrightarrow> (\<exists>u. wq_phase w u = Waking b)" for b
    using ex_phase_upd [of "wq_phase w" u "Waking b" "Rejecting a"] assms(2) by simp
  have "a \<notin> set q" "wq_phase w v \<noteq> Rejecting a" for v using inv(2,3) assms(3) by auto
  moreover have "frames_ok ?w" using inv(1) by (simp add: frames_ok_def ins)
  ultimately show ?thesis
    by (intro wq_invI; (unfold pend waking)?) (use inv assms in \<open>auto split: if_splits\<close>)
qed

lemma wq_inv_reject:
  assumes "wq_inv w" "wq_phase w u = Rejecting a" "wq_frames w a = Some f"
  shows "wq_inv (w\<lparr>wq_frames := (wq_frames w)(a \<mapsto> f\<lparr>f_reject := 1\<rparr>), wq_phase := (wq_phase w)(u := Waking a)\<rparr>)"
    (is "wq_inv ?w")
proof -
  note inv = wq_invD [OF assms(1)]
  have only: "wq_phase w v = Rejecting a \<longleftrightarrow> v = u" for v using inv(4) assms(2) by blast
  have pend: "pending ?w b \<longleftrightarrow> pending w b \<and> b \<noteq> a" for b
  proof (cases "b = a")
    case True
    then show ?thesis using inv(3) [OF assms(2)] only by (auto simp: pending_def)
  next
    case False
    then have "(\<exists>v. wq_phase ?w v = Rejecting b) \<longleftrightarrow> (\<exists>v. wq_phase w v = Rejecting b)"
      using ex_phase_upd [of "wq_phase w" u "Rejecting b" "Waking a"] assms(2) by simp
    then show ?thesis using False by (simp add: pending_def)
  qed
  have ins: "inside ?w b t \<longleftrightarrow> inside w b t" for b t using assms(2) by (auto simp: inside_def)
  have waking: "(\<exists>v. wq_phase ?w v = Waking b) \<longleftrightarrow> (\<exists>v. wq_phase w v = Waking b) \<or> b = a" for b
    using ex_phase_upd [of "wq_phase w" u "Waking b" "Waking a"] assms(2) by auto
  have "frames_ok ?w" unfolding frames_ok_def ins using frames_okD [OF inv(1)] assms(3) by auto
  then show ?thesis
    by (intro wq_invI; (unfold pend waking)?) (use inv assms in \<open>auto split: if_splits\<close>)
qed

text \<open>The last step of a waking thread: the thread whose flag it has set is awake, or its variable is gone.\<close>

lemma wq_inv_woken:
  assumes "wq_inv w" "wq_phase w u = Waking a" "k = read_tid (wq_frames w) a junk"
  shows "wq_inv (w\<lparr>wq_phase := (wake_phase k (wq_phase w))(u := Away)\<rparr>)" (is "wq_inv ?w")
proof -
  let ?v = "w\<lparr>wq_phase := wake_phase k (wq_phase w)\<rparr>"
  have "wq_inv ?v" using assms(1) by (rule wq_inv_wake)
  note inv = wq_invD [OF this]
  have u: "wq_phase ?v u = Waking a" using assms(2) by simp
  have eq: "?w = ?v\<lparr>wq_q := wq_q ?v, wq_frames := wq_frames ?v, wq_phase := (wq_phase ?v)(u := Away)\<rparr>" by simp
  have pend: "pending ?w b \<longleftrightarrow> pending ?v b" for b
    unfolding eq using u by (subst pending_upd) (auto simp: pending_def)
  have ins: "inside ?w b t \<longleftrightarrow> inside ?v b t" for b t using u by (auto simp: inside_def)
  have awake: "wq_phase ?v t \<noteq> Asleep a" for t
  proof
    assume t: "wq_phase ?v t = Asleep a"
    then have "inside ?v a t" by (simp add: inside_def)
    then have "f_tid (the (wq_frames w a)) = t" "wq_frames w a \<noteq> None" using frames_okD [OF inv(1), of a t] by auto
    then have "k = t" using assms(3) by (auto simp: read_tid_def)
    then show False using t by simp
  qed
  have waking: "\<exists>v. wq_phase ?w v = Waking b" if ex: "\<exists>t. wq_phase ?v t = Waking b" and ne: "b \<noteq> a" for b
  proof -
    obtain t where "wq_phase ?v t = Waking b" using ex by blast
    then have "wq_phase ?w t = Waking b" using u ne by auto
    then show ?thesis by blast
  qed
  have "frames_ok ?w" using inv(1) by (simp add: frames_ok_def ins)
  moreover have "\<exists>v. wq_phase ?w v = Waking b" if "wq_phase ?w t = Asleep b" "wq_frames ?w b = Some f" "f_reject f \<noteq> 0" for b t f
  proof (rule waking)
    have t: "wq_phase ?v t = Asleep b" using that(1) by (auto split: if_splits)
    then show "\<exists>t. wq_phase ?v t = Waking b" using inv(8) that(2,3) by simp
    show "b \<noteq> a" using t awake by auto
  qed
  ultimately show ?thesis
    by (intro wq_invI; (unfold pend)?) (use inv in \<open>auto split: if_splits\<close>)
qed

lemma wq_inv_step:
  assumes "wq_step documented_deschedule w w'" "wq_inv w"
  shows "wq_inv w'"
  using assms(1)
proof cases
  case (sleep t a f b r)
  then have br: "b \<longleftrightarrow> f_reject f = 0" "r = f_reject f" by (auto simp: documented_deschedule_def)
  then have same: "(wq_frames w)(a \<mapsto> f\<lparr>f_reject := r\<rparr>) = wq_frames w" using sleep(3) by (auto simp: fun_eq_iff)
  show ?thesis
  proof (cases b)
    case True
    then show ?thesis using sleep br same wq_inv_sleep [OF assms(2) sleep(2,3)] by simp
  next
    case False
    then have "w' = w" using sleep same by (simp add: fun_upd_idem)
    then show ?thesis using assms(2) by simp
  qed
next
  case (enq t a)
  then show ?thesis using wq_inv_enq [OF assms(2)] by simp
next
  case (stop t a f)
  then show ?thesis using wq_inv_stop [OF assms(2)] by simp
next
  case (leave t a)
  then show ?thesis using wq_inv_leave [OF assms(2)] by simp
next
  case (deq u a q)
  then show ?thesis using wq_inv_deq [OF assms(2)] by simp
next
  case (reject u a f)
  then show ?thesis using wq_inv_reject [OF assms(2)] by simp
next
  case (wake u a k junk)
  then show ?thesis using wq_inv_woken [OF assms(2)] by simp
next
  case (spurious k)
  then show ?thesis using wq_inv_wake [OF assms(2)] by simp
qed

subsection \<open>A wake-up that is lost for good\<close>

text \<open>
  A thread whose flag is 0 while its address is neither queued nor in the hands of a waking thread never leaves
  its loop: nobody will set the flag again, whatever wakes it.
\<close>

definition wq_stuck :: "ptr \<Rightarrow> int \<Rightarrow> wqueue \<Rightarrow> bool" where
  "wq_stuck a t w \<longleftrightarrow> wq_phase w t \<in> {Waiting a, Asleep a} \<and>
     (\<forall>u. u \<noteq> t \<longrightarrow> wq_phase w u \<notin> {Waiting a, Asleep a, Leaving a, Rejecting a}) \<and>
     (\<exists>f. wq_frames w a = Some f \<and> f_reject f = 0) \<and> a \<notin> set (wq_q w)"

lemma wq_stuckD:
  assumes "wq_stuck a t w"
  shows "wq_phase w t = Waiting a \<or> wq_phase w t = Asleep a"
    and "wq_phase w u = Waiting a \<or> wq_phase w u = Asleep a \<or> wq_phase w u = Leaving a \<or> wq_phase w u = Rejecting a \<Longrightarrow> u = t"
    and "\<exists>f. wq_frames w a = Some f \<and> f_reject f = 0" "a \<notin> set (wq_q w)"
  using assms unfolding wq_stuck_def by blast+

lemma wq_stuckI:
  assumes "wq_phase w t = Waiting a \<or> wq_phase w t = Asleep a" "\<exists>f. wq_frames w a = Some f \<and> f_reject f = 0" "a \<notin> set (wq_q w)"
    and "\<And>u. u \<noteq> t \<Longrightarrow> wq_phase w u \<noteq> Waiting a \<and> wq_phase w u \<noteq> Asleep a \<and> wq_phase w u \<noteq> Leaving a \<and> wq_phase w u \<noteq> Rejecting a"
  shows "wq_stuck a t w"
  using assms unfolding wq_stuck_def by blast

lemma wq_stuck_step:
  assumes "wq_step d w w'" "wq_stuck a t w" "snd (d 0) = 0"
  shows "wq_stuck a t w'"
proof -
  note st = wq_stuckD [OF assms(2)]
  obtain f0 where f0: "wq_frames w a = Some f0" "f_reject f0 = 0" using st(3) by blast
  from assms(1) show ?thesis
  proof cases
    case (sleep u b f s r)
    show ?thesis
    proof (cases "b = a")
      case True
      then have "u = t" using sleep(2) st(2) by blast
      moreover have "r = 0" using True sleep(3,4) f0 assms(3) by (metis option.inject snd_conv)
      ultimately show ?thesis using True sleep st by (intro wq_stuckI) auto
    next
      case False
      then have "u \<noteq> t" using sleep(2) st(1) by auto
      then show ?thesis using False sleep st f0 by (intro wq_stuckI) auto
    qed
  next
    case (enq u b)
    then show ?thesis using st f0 by (intro wq_stuckI) auto
  next
    case (stop u b f)
    then have "b \<noteq> a" using f0 by auto
    then show ?thesis using stop st f0 by (intro wq_stuckI) auto
  next
    case (leave u b)
    then have "b \<noteq> a" "u \<noteq> t" using st(1) st(2) [of u] by auto
    then show ?thesis using leave st f0 by (intro wq_stuckI) auto
  next
    case (deq u b q)
    then show ?thesis using st f0 by (intro wq_stuckI) auto
  next
    case (reject u b f)
    then have "b \<noteq> a" using st(1) st(2) [of u] by auto
    then show ?thesis using reject st f0 by (intro wq_stuckI) auto
  next
    case (wake u b k junk)
    then show ?thesis using st f0 by (intro wq_stuckI) auto
  next
    case (spurious k)
    then show ?thesis using st f0 by (intro wq_stuckI) auto
  qed
qed

subsection \<open>Systems that follow the protocol\<close>

locale wait_system =
  fixes step :: "'s \<Rightarrow> 's \<Rightarrow> bool"
    and abs :: "'s \<Rightarrow> wqueue"
    and d :: flag_call
  assumes simulates: "step s s' \<Longrightarrow> wq_step d (abs s) (abs s') \<or> abs s' = abs s"
begin

lemma runs: "step\<^sup>*\<^sup>* s s' \<Longrightarrow> (wq_step d)\<^sup>*\<^sup>* (abs s) (abs s')"
proof (induction rule: rtranclp_induct)
  case (step y z)
  then show ?case using simulates [of y z] by (auto intro: rtranclp.rtrancl_into_rtrancl)
qed simp

lemma stuck_for_good:
  assumes "step\<^sup>*\<^sup>* s s'" "wq_stuck a t (abs s)" "snd (d 0) = 0"
  shows "wq_stuck a t (abs s')"
  using assms(1)
proof (induction rule: rtranclp_induct)
  case (step y z)
  then show ?case using simulates [of y z] wq_stuck_step [of d "abs y" "abs z" a t] assms(3) by auto
qed (rule assms(2))

lemma no_lost_wakeup:
  assumes "d = documented_deschedule" "step\<^sup>*\<^sup>* s s'" "wq_inv (abs s)"
  shows "wq_inv (abs s')"
  using assms(2)
proof (induction rule: rtranclp_induct)
  case (step y z)
  then show ?case using simulates [of y z] wq_inv_step assms(1) by auto
qed (rule assms(3))

end

lemma wq_inv_asleep:
  assumes "wq_inv w" "wq_phase w t = Asleep a"
  shows "a \<in> set (wq_q w) \<or> (\<exists>u. wq_phase w u \<in> {Rejecting a, Waking a})"
proof -
  have "inside w a t" using assms(2) by (simp add: inside_def)
  then obtain f where f: "wq_frames w a = Some f" using frames_okD [OF wq_invD(1) [OF assms(1)]] by auto
  show ?thesis
  proof (cases "f_reject f = 0")
    case True
    then show ?thesis using wq_invD(6) [OF assms(1) f] by (auto simp: pending_def)
  next
    case False
    then show ?thesis using wq_invD(8) [OF assms f] by blast
  qed
qed

end
