(* ===== verification/UserSem.thy ===== *)
theory UserSem
  imports WaitQueue
begin

text \<open>
  \<open>user/libthread/sem.c\<close>: semaphores of the thread library, with the interleaving of any number of threads
  at the level of single accesses to the mutex, the count, the queue and the \<open>reject\<close> flags.
  \<open>sem_wait_u\<close> and \<open>sem_signal_u\<close> perform the next access of a thread that is inside the function; its program
  counter says which. The queue is the sequence of the addresses it stores (\<open>UserList\<close>).
\<close>

subsection \<open>The functions\<close>

record usem =
  su_count :: int
  su_m :: umutex
  su_q :: "ptr list"
  su_freed :: bool

text \<open>
  \<open>su_freed\<close> records that \<open>ll_destroy\<close> has freed the nodes of the queue, whose head and size it
  leaves as they are: a later access to a queue that is not empty is an access to freed memory.
\<close>

definition sem_init_u :: "usem option \<Rightarrow> int \<Rightarrow> int \<times> usem option" where
  "sem_init_u sem count = (case sem of
     None \<Rightarrow> (-1, None)
   | Some s \<Rightarrow>
       if count \<le> 0 then (-1, Some s)
       else let s = s\<lparr>su_count := count, su_q := [], su_freed := False\<rparr> in
       case mutex_init_u (Some (su_m s)) of
         (r, Some m) \<Rightarrow> if r < 0 then (-1, Some s) else (0, Some (s\<lparr>su_m := m\<rparr>))
       | (_, None) \<Rightarrow> (-1, Some s))"

definition sem_destroy_u :: "usem option \<Rightarrow> usem option option" where
  "sem_destroy_u sem = (case sem of
     None \<Rightarrow> Some None
   | Some s \<Rightarrow> do {
       m \<leftarrow> mutex_lock_u (su_m s);
       c_assert (\<not> (su_freed s \<and> su_q s \<noteq> []));
       let s = s\<lparr>su_freed := True, su_count := -1\<rparr>;
       Some (Some (s\<lparr>su_m := mutex_destroy_u (mutex_unlock_u m)\<rparr>))
     })"

text \<open>
  The places inside \<open>sem_wait\<close> (\<open>W\<close>) and \<open>sem_signal\<close> (\<open>S\<close>); the address is that of the local variable \<open>thread\<close>
  of the waiting thread.
\<close>

datatype sem_pc = SIdle
  | WLock | WStore | WDec | WEnq | WRelease ptr | WTest ptr | WDesched ptr | WBlocked ptr | WReturn ptr | WUnlock
  | SLock | SStore | SInc | SDeq | SReject ptr | SWake ptr | SUnlock

record usem_sys =
  ss_sem :: usem
  ss_frames :: "ptr \<rightharpoonup> wframe"
  ss_pc :: "int \<Rightarrow> sem_pc"
  ss_granted :: nat
  ss_signals :: nat

text \<open>
  \<open>ss_granted\<close> counts the waits that have obtained a resource (from the count, or from the thread that set their flag)
  and \<open>ss_signals\<close> the increments by \<open>sem_signal\<close>; both are for the statements only.
\<close>

definition goto :: "int \<Rightarrow> sem_pc \<Rightarrow> usem_sys \<Rightarrow> usem_sys" where
  "goto t pc s = s\<lparr>ss_pc := (ss_pc s)(t := pc)\<rparr>"

definition set_mutex :: "umutex \<Rightarrow> usem_sys \<Rightarrow> usem_sys" where
  "set_mutex m s = s\<lparr>ss_sem := (ss_sem s)\<lparr>su_m := m\<rparr>\<rparr>"

text \<open>\<open>make_runnable(k)\<close>\<close>

definition wake_pc :: "int \<Rightarrow> (int \<Rightarrow> sem_pc) \<Rightarrow> int \<Rightarrow> sem_pc" where
  "wake_pc k pcs = (case pcs k of WBlocked a \<Rightarrow> pcs(k := WTest a) | _ \<Rightarrow> pcs)"

text \<open>
  \<open>mem\<close>: whether \<open>ll_add\<close> finds memory for its node (its return code is ignored); \<open>a\<close>: the address of the variable \<open>thread\<close>,
  not in use by another one.
\<close>

definition sem_wait_u :: "flag_call \<Rightarrow> bool \<Rightarrow> ptr \<Rightarrow> int \<Rightarrow> usem_sys \<Rightarrow> usem_sys option" where
  "sem_wait_u d mem a t s = (let sem = ss_sem s in case ss_pc s t of
     WLock \<Rightarrow> (let (old, m) = xchng_u (su_m sem) 0
               in Some (goto t (if old \<noteq> 0 then WStore else WLock) (set_mutex m s)))
   | WStore \<Rightarrow> Some (goto t WDec (set_mutex ((su_m sem)\<lparr>um_lock := 0\<rparr>) s))
   | WDec \<Rightarrow>
       (let sem = sem\<lparr>su_count := su_count sem - 1\<rparr>; s = s\<lparr>ss_sem := sem\<rparr>
        in if su_count sem < 0 then Some (goto t WEnq s)
           else Some (goto t WUnlock (s\<lparr>ss_granted := Suc (ss_granted s)\<rparr>)))
   | WEnq \<Rightarrow> do {
       c_assert (ss_frames s a = None);
       let s = s\<lparr>ss_frames := (ss_frames s)(a \<mapsto> \<lparr>f_tid = t, f_reject = 0\<rparr>)\<rparr>;
       c_assert (\<not> (su_freed sem \<and> su_q sem \<noteq> []));
       let sem = (if mem then sem\<lparr>su_q := su_q sem @ [a]\<rparr> else sem);
       Some (goto t (WRelease a) (s\<lparr>ss_sem := sem\<rparr>))
     }
   | WRelease b \<Rightarrow> Some (goto t (WTest b) (set_mutex (mutex_unlock_u (su_m sem)) s))
   | WTest b \<Rightarrow> do {
       f \<leftarrow> ss_frames s b;
       Some (goto t (if f_reject f = 0 then WDesched b else WReturn b) s)
     }
   | WDesched b \<Rightarrow> do {
       f \<leftarrow> ss_frames s b;
       let (off, r) = d (f_reject f);
       let s = s\<lparr>ss_frames := (ss_frames s)(b \<mapsto> f\<lparr>f_reject := r\<rparr>)\<rparr>;
       Some (goto t (if off then WBlocked b else WTest b) s)
     }
   | WReturn b \<Rightarrow> Some (goto t SIdle (s\<lparr>ss_frames := (ss_frames s)(b := None)\<rparr>))
   | WUnlock \<Rightarrow> Some (goto t SIdle (set_mutex (mutex_unlock_u (su_m sem)) s))
   | _ \<Rightarrow> None)"

text \<open>\<open>junk\<close>: what is read from a variable that is no longer in scope.\<close>

definition sem_signal_u :: "int \<Rightarrow> int \<Rightarrow> usem_sys \<Rightarrow> usem_sys option" where
  "sem_signal_u junk t s = (let sem = ss_sem s in case ss_pc s t of
     SLock \<Rightarrow> (let (old, m) = xchng_u (su_m sem) 0
               in Some (goto t (if old \<noteq> 0 then SStore else SLock) (set_mutex m s)))
   | SStore \<Rightarrow> Some (goto t SInc (set_mutex ((su_m sem)\<lparr>um_lock := 0\<rparr>) s))
   | SInc \<Rightarrow>
       (let sem = sem\<lparr>su_count := su_count sem + 1\<rparr>; s = s\<lparr>ss_sem := sem, ss_signals := Suc (ss_signals s)\<rparr>
        in Some (goto t (if su_count sem \<le> 0 then SDeq else SUnlock) s))
   | SDeq \<Rightarrow> (case su_q sem of
       [] \<Rightarrow> Some (goto t SUnlock s)
     | a # q \<Rightarrow> do {
         c_assert (\<not> su_freed sem);
         Some (goto t (SReject a) (s\<lparr>ss_sem := sem\<lparr>su_q := q\<rparr>\<rparr>))
       })
   | SReject a \<Rightarrow> do {
       f \<leftarrow> ss_frames s a;
       Some (goto t (SWake a) (s\<lparr>ss_frames := (ss_frames s)(a \<mapsto> f\<lparr>f_reject := 1\<rparr>), ss_granted := Suc (ss_granted s)\<rparr>))
     }
   | SWake a \<Rightarrow>
       Some (goto t SUnlock (s\<lparr>ss_pc := wake_pc (read_tid (ss_frames s) a junk) (ss_pc s)\<rparr>))
   | SUnlock \<Rightarrow> Some (goto t SIdle (set_mutex (mutex_unlock_u (su_m sem)) s))
   | _ \<Rightarrow> None)"

subsection \<open>Threads around one semaphore\<close>

text \<open>
  Any thread may call \<open>sem_wait\<close> or \<open>sem_signal\<close> at any time; \<open>spurious\<close> is a \<open>make_runnable\<close> by somebody else. \<open>oom\<close> says whether
  allocations may fail.
\<close>

inductive usem_step :: "flag_call \<Rightarrow> bool \<Rightarrow> usem_sys \<Rightarrow> usem_sys \<Rightarrow> bool" for d oom where
  call_wait: "ss_pc s t = SIdle \<Longrightarrow> usem_step d oom s (goto t WLock s)"
| call_signal: "ss_pc s t = SIdle \<Longrightarrow> usem_step d oom s (goto t SLock s)"
| wait: "sem_wait_u d mem a t s = Some s' \<Longrightarrow> mem \<or> oom \<Longrightarrow> usem_step d oom s s'"
| signal: "sem_signal_u junk t s = Some s' \<Longrightarrow> usem_step d oom s s'"
| spurious: "usem_step d oom s (s\<lparr>ss_pc := wake_pc k (ss_pc s)\<rparr>)"

definition usem_start :: "int \<Rightarrow> usem_sys" where
  "usem_start n = \<lparr>ss_sem = \<lparr>su_count = n, su_m = \<lparr>um_lock = 1\<rparr>, su_q = [], su_freed = False\<rparr>,
     ss_frames = (\<lambda>_. None), ss_pc = (\<lambda>_. SIdle), ss_granted = 0, ss_signals = 0\<rparr>"

lemma sem_init_u_start: "0 < n \<Longrightarrow> sem_init_u (Some s0) n = (0, Some (ss_sem (usem_start n)))"
  by (simp add: sem_init_u_def mutex_init_u_def usem_start_def)

text \<open>The phase of the protocol that a place belongs to, and the places at which the mutex is held.\<close>

primrec sem_phase :: "sem_pc \<Rightarrow> phase" where
  "sem_phase SIdle = Away" | "sem_phase WLock = Away" | "sem_phase WStore = Away" | "sem_phase WDec = Away"
| "sem_phase WEnq = Away" | "sem_phase (WRelease a) = Waiting a" | "sem_phase (WTest a) = Waiting a"
| "sem_phase (WDesched a) = Waiting a" | "sem_phase (WBlocked a) = Asleep a" | "sem_phase (WReturn a) = Leaving a"
| "sem_phase WUnlock = Away" | "sem_phase SLock = Away" | "sem_phase SStore = Away" | "sem_phase SInc = Away"
| "sem_phase SDeq = Away" | "sem_phase (SReject a) = Rejecting a" | "sem_phase (SWake a) = Waking a"
| "sem_phase SUnlock = Away"

definition sem_wq :: "usem_sys \<Rightarrow> wqueue" where
  "sem_wq s = \<lparr>wq_q = su_q (ss_sem s), wq_frames = ss_frames s, wq_phase = sem_phase \<circ> ss_pc s\<rparr>"

primrec sem_holding :: "sem_pc \<Rightarrow> bool" where
  "sem_holding SIdle = False" | "sem_holding WLock = False" | "sem_holding WStore = True" | "sem_holding WDec = True"
| "sem_holding WEnq = True" | "sem_holding (WRelease a) = True" | "sem_holding (WTest a) = False"
| "sem_holding (WDesched a) = False" | "sem_holding (WBlocked a) = False" | "sem_holding (WReturn a) = False"
| "sem_holding WUnlock = True" | "sem_holding SLock = False" | "sem_holding SStore = True" | "sem_holding SInc = True"
| "sem_holding SDeq = True" | "sem_holding (SReject a) = True" | "sem_holding (SWake a) = True" | "sem_holding SUnlock = True"

lemma goto_simps [simp]:
  "ss_pc (goto t pc s) = (ss_pc s)(t := pc)" "ss_sem (goto t pc s) = ss_sem s" "ss_frames (goto t pc s) = ss_frames s"
  "ss_granted (goto t pc s) = ss_granted s" "ss_signals (goto t pc s) = ss_signals s"
  by (simp_all add: goto_def)

lemma set_mutex_simps [simp]:
  "ss_pc (set_mutex m s) = ss_pc s" "ss_frames (set_mutex m s) = ss_frames s"
  "ss_granted (set_mutex m s) = ss_granted s" "ss_signals (set_mutex m s) = ss_signals s"
  "su_m (ss_sem (set_mutex m s)) = m" "su_q (ss_sem (set_mutex m s)) = su_q (ss_sem s)"
  "su_count (ss_sem (set_mutex m s)) = su_count (ss_sem s)" "su_freed (ss_sem (set_mutex m s)) = su_freed (ss_sem s)"
  by (simp_all add: set_mutex_def)

lemma sem_phase_wake: "sem_phase \<circ> wake_pc k pcs = wake_phase k (sem_phase \<circ> pcs)"
  by (auto simp: wake_pc_def wake_phase_def fun_eq_iff split: sem_pc.splits)

lemma sem_holding_wake: "sem_holding (wake_pc k pcs t) = sem_holding (pcs t)"
  by (auto simp: wake_pc_def split: sem_pc.splits)

lemma sem_phase_upd: "sem_phase \<circ> pcs(t := pc) = (sem_phase \<circ> pcs)(t := sem_phase pc)"
  by (auto simp: fun_eq_iff)

lemma sem_wq_eqI:
  assumes "su_q (ss_sem s) = q" "ss_frames s = fr" "sem_phase \<circ> ss_pc s = ph"
  shows "sem_wq s = \<lparr>wq_q = q, wq_frames = fr, wq_phase = ph\<rparr>"
  using assms by (simp add: sem_wq_def)

lemma sem_wait_protocol:
  assumes "sem_wait_u d True a t s = Some s'"
  shows "wq_step d (sem_wq s) (sem_wq s') \<or> sem_wq s' = sem_wq s"
proof (cases "ss_pc s t")
  case WEnq
  with assms show ?thesis
    using wq_step.enq [of "sem_wq s" t a d] by (auto simp: sem_wait_u_def sem_wq_def sem_phase_upd Let_def bind_eq_Some_conv)
next
  case (WTest b)
  with assms obtain f where f: "ss_frames s b = Some f" "s' = goto t (if f_reject f = 0 then WDesched b else WReturn b) s"
    by (auto simp: sem_wait_u_def Let_def bind_eq_Some_conv)
  then show ?thesis using WTest wq_step.stop [of "sem_wq s" t b f d]
    by (auto simp: sem_wq_def sem_phase_upd fun_upd_idem)
next
  case (WDesched b)
  with assms obtain f off r where f: "ss_frames s b = Some f" "d (f_reject f) = (off, r)"
    "s' = goto t (if off then WBlocked b else WTest b) (s\<lparr>ss_frames := (ss_frames s)(b \<mapsto> f\<lparr>f_reject := r\<rparr>)\<rparr>)"
    by (cases "ss_frames s b"; cases "d (f_reject (the (ss_frames s b)))") (auto simp: sem_wait_u_def)
  then show ?thesis using WDesched wq_step.sleep [of "sem_wq s" t b f d off r]
    by (auto simp: sem_wq_def sem_phase_upd)
next
  case (WReturn b)
  with assms show ?thesis using wq_step.leave [of "sem_wq s" t b d]
    by (auto simp: sem_wait_u_def sem_wq_def sem_phase_upd Let_def bind_eq_Some_conv)
qed (use assms in \<open>auto simp: sem_wait_u_def sem_wq_def sem_phase_upd fun_upd_idem Let_def split: prod.splits if_splits\<close>)

lemma sem_signal_protocol:
  assumes "sem_signal_u junk t s = Some s'"
  shows "wq_step d (sem_wq s) (sem_wq s') \<or> sem_wq s' = sem_wq s"
proof (cases "ss_pc s t")
  case SDeq
  with assms show ?thesis using wq_step.deq [of "sem_wq s" t _ _ d]
    by (auto simp: sem_signal_u_def sem_wq_def sem_phase_upd fun_upd_idem Let_def bind_eq_Some_conv split: list.splits)
next
  case (SReject b)
  with assms show ?thesis using wq_step.reject [of "sem_wq s" t b _ d]
    by (auto simp: sem_signal_u_def sem_wq_def sem_phase_upd Let_def bind_eq_Some_conv)
next
  case (SWake b)
  with assms show ?thesis using wq_step.wake [of "sem_wq s" t b "read_tid (ss_frames s) b junk" junk d]
    by (auto simp: sem_signal_u_def sem_wq_def sem_phase_upd sem_phase_wake Let_def)
qed (use assms in \<open>auto simp: sem_signal_u_def sem_wq_def sem_phase_upd fun_upd_idem Let_def split: prod.splits if_splits\<close>)

interpretation usem: wait_system "usem_step d False" sem_wq d for d
proof
  fix s s' assume "usem_step d False s s'"
  then show "wq_step d (sem_wq s) (sem_wq s') \<or> sem_wq s' = sem_wq s"
  proof cases
    case (spurious k)
    then show ?thesis using wq_step.spurious [of d "sem_wq s" k] by (simp add: sem_wq_def sem_phase_wake)
  next
    case (wait mem a t)
    then show ?thesis using sem_wait_protocol by simp
  next
    case (signal junk t)
    then show ?thesis using sem_signal_protocol by blast
  qed (auto simp: sem_wq_def sem_phase_upd fun_upd_idem)
qed

subsection \<open>Mutual exclusion and the count\<close>

abbreviation sem_lock :: "usem_sys \<Rightarrow> umutex" where
  "sem_lock s \<equiv> su_m (ss_sem s)"

definition sem_holds :: "usem_sys \<Rightarrow> int \<Rightarrow> bool" where
  "sem_holds s = sem_holding \<circ> ss_pc s"

abbreviation lock_effect :: "int \<Rightarrow> usem_sys \<Rightarrow> usem_sys \<Rightarrow> bool" where
  "lock_effect t s s' \<equiv> lock_change t (sem_lock s) (sem_holding \<circ> ss_pc s) (sem_lock s') (sem_holding \<circ> ss_pc s')"

lemma sem_wait_lock:
  assumes "sem_wait_u d mem a t s = Some s'"
  shows "lock_effect t s s'"
proof (cases "ss_pc s t")
  case WLock
  with assms show ?thesis by (cases "xchng_u (sem_lock s) 0") (auto simp: sem_wait_u_def intro: lock_changeI(4))
next
  case WEnq
  with assms show ?thesis by (auto simp: sem_wait_u_def Let_def bind_eq_Some_conv intro: lock_changeI(1) split: if_splits)
next
  case (WTest b)
  with assms obtain pc where s': "s' = goto t pc s" "\<not> sem_holding pc"
    by (auto simp: sem_wait_u_def Let_def bind_eq_Some_conv)
  show ?thesis unfolding s'(1) by (rule lock_changeI(1) [OF goto_simps(1)]) (simp_all add: WTest s'(2))
next
  case (WDesched b)
  with assms obtain pc fr where s': "s' = goto t pc (s\<lparr>ss_frames := fr\<rparr>)" "\<not> sem_holding pc"
    by (cases "ss_frames s b"; cases "d (f_reject (the (ss_frames s b)))") (auto simp: sem_wait_u_def)
  show ?thesis unfolding s'(1) by (rule lock_changeI(1) [where pc = pc]) (simp_all add: WDesched s'(2))
next
  case WDec
  with assms show ?thesis by (auto simp: sem_wait_u_def Let_def intro: lock_changeI(1) split: if_splits)
next
  case WStore
  with assms show ?thesis by (auto simp: sem_wait_u_def intro: lock_changeI(3))
next
  case (WRelease b)
  with assms show ?thesis by (auto simp: sem_wait_u_def intro: lock_changeI(2))
next
  case WUnlock
  with assms show ?thesis by (auto simp: sem_wait_u_def intro: lock_changeI(2))
next
  case (WReturn b)
  with assms show ?thesis by (auto simp: sem_wait_u_def intro: lock_changeI(1))
qed (use assms in \<open>simp_all add: sem_wait_u_def\<close>)

lemma sem_signal_lock:
  assumes "sem_signal_u junk t s = Some s'"
  shows "lock_effect t s s'"
proof (cases "ss_pc s t")
  case SLock
  with assms show ?thesis by (cases "xchng_u (sem_lock s) 0") (auto simp: sem_signal_u_def intro: lock_changeI(4))
next
  case SStore
  with assms show ?thesis by (auto simp: sem_signal_u_def intro: lock_changeI(3))
next
  case SInc
  with assms show ?thesis by (auto simp: sem_signal_u_def Let_def intro: lock_changeI(1))
next
  case SDeq
  with assms show ?thesis
    by (cases "su_q (ss_sem s)") (auto simp: sem_signal_u_def Let_def bind_eq_Some_conv intro: lock_changeI(1))
next
  case (SReject b)
  with assms show ?thesis by (auto simp: sem_signal_u_def Let_def bind_eq_Some_conv intro: lock_changeI(1))
next
  case (SWake b)
  then have "sem_holding \<circ> ss_pc s' = sem_holding \<circ> ss_pc s" "sem_lock s' = sem_lock s"
    using assms by (auto simp: sem_signal_u_def Let_def sem_holding_wake fun_eq_iff split: if_splits)
  then show ?thesis by (intro lock_change_same)
next
  case SUnlock
  with assms show ?thesis by (auto simp: sem_signal_u_def Let_def intro: lock_changeI(2))
qed (use assms in \<open>simp_all add: sem_signal_u_def\<close>)

interpretation usem_mutex: spin_lock "usem_step d oom" sem_lock sem_holds for d oom
proof
  fix s s' assume "usem_step d oom s s'"
  then show "\<exists>t. lock_change t (sem_lock s) (sem_holds s) (sem_lock s') (sem_holds s')"
  proof cases
    case (wait mem a t)
    then show ?thesis using sem_wait_lock unfolding sem_holds_def by blast
  next
    case (signal junk t)
    then show ?thesis using sem_signal_lock unfolding sem_holds_def by blast
  next
    case (call_wait t)
    then show ?thesis by (intro exI [of _ t] lock_change_same) (auto simp: sem_holds_def fun_eq_iff)
  next
    case (call_signal t)
    then show ?thesis by (intro exI [of _ t] lock_change_same) (auto simp: sem_holds_def fun_eq_iff)
  next
    case (spurious k)
    then show ?thesis by (intro exI [of _ k] lock_change_same) (auto simp: sem_holds_def sem_holding_wake fun_eq_iff)
  qed
qed

text \<open>
  The resources: those granted, those in the count and the one that a signalling thread is about to hand over are
  together the initial ones and the signals; and as many addresses are queued as the count is below 0, but for the
  thread that holds the mutex and is about to queue or to take one.
\<close>

definition at_place :: "usem_sys \<Rightarrow> (sem_pc \<Rightarrow> bool) \<Rightarrow> int" where
  "at_place s P = (if \<exists>t. P (ss_pc s t) then 1 else 0)"

definition count_ok :: "int \<Rightarrow> usem_sys \<Rightarrow> bool" where
  "count_ok n s \<longleftrightarrow>
     int (length (su_q (ss_sem s))) = max 0 (- su_count (ss_sem s)) + at_place s (\<lambda>pc. pc = SDeq) - at_place s (\<lambda>pc. pc = WEnq) \<and>
     int (ss_granted s) + max 0 (su_count (ss_sem s)) + at_place s (\<lambda>pc. pc = SDeq \<or> (\<exists>a. pc = SReject a)) =
       n + int (ss_signals s) \<and>
     (\<forall>t. ss_pc s t = WEnq \<longrightarrow> su_count (ss_sem s) < 0) \<and> (\<forall>t. ss_pc s t = SDeq \<longrightarrow> su_count (ss_sem s) \<le> 0) \<and>
     \<not> su_freed (ss_sem s)"

lemma at_place_same:
  "ss_pc s' = (ss_pc s)(t := pc) \<Longrightarrow> \<not> P (ss_pc s t) \<Longrightarrow> \<not> P pc \<Longrightarrow> at_place s' P = at_place s P"
  by (auto simp: at_place_def)

lemma at_place_holder:
  assumes "usem_mutex.exclusive s" "sem_holds s t" "\<And>pc. P pc \<Longrightarrow> sem_holding pc"
  shows "at_place s P = (if P (ss_pc s t) then 1 else 0)"
proof -
  have "P (ss_pc s u) \<Longrightarrow> u = t" for u
    using assms by (auto simp: usem_mutex.exclusive_def sem_holds_def)
  then show ?thesis by (auto simp: at_place_def)
qed

lemma at_place_moved:
  assumes "usem_mutex.exclusive s" "sem_holds s t" "\<And>pc. P pc \<Longrightarrow> sem_holding pc" "ss_pc s' = (ss_pc s)(t := pc)"
  shows "at_place s' P = (if P pc then 1 else 0)"
proof -
  have "P (ss_pc s u) \<Longrightarrow> u = t" for u
    using assms by (auto simp: usem_mutex.exclusive_def sem_holds_def)
  then have "(\<exists>u. P (ss_pc s' u)) \<longleftrightarrow> P pc" unfolding assms(4) by (metis fun_upd_apply)
  then show ?thesis by (simp add: at_place_def)
qed

text \<open>A step that neither touches the semaphore nor passes a place that counts.\<close>

definition plain :: "sem_pc \<Rightarrow> bool" where
  "plain pc \<longleftrightarrow> pc \<noteq> WEnq \<and> pc \<noteq> SDeq \<and> (\<forall>a. pc \<noteq> SReject a)"

lemma count_ok_plain:
  assumes "count_ok n s" "ss_pc s' = (ss_pc s)(t := pc)" "plain (ss_pc s t)" "plain pc"
    and "su_q (ss_sem s') = su_q (ss_sem s)" "su_count (ss_sem s') = su_count (ss_sem s)" "su_freed (ss_sem s') = su_freed (ss_sem s)"
    and "ss_granted s' = ss_granted s" "ss_signals s' = ss_signals s"
  shows "count_ok n s'"
proof -
  have "at_place s' (\<lambda>pc. pc = SDeq) = at_place s (\<lambda>pc. pc = SDeq)"
    "at_place s' (\<lambda>pc. pc = WEnq) = at_place s (\<lambda>pc. pc = WEnq)"
    "at_place s' (\<lambda>pc. pc = SDeq \<or> (\<exists>a. pc = SReject a)) = at_place s (\<lambda>pc. pc = SDeq \<or> (\<exists>a. pc = SReject a))"
    using assms(3,4) unfolding plain_def by (intro at_place_same [OF assms(2)]; auto)+
  moreover have "\<forall>u. ss_pc s' u = WEnq \<longrightarrow> ss_pc s u = WEnq" "\<forall>u. ss_pc s' u = SDeq \<longrightarrow> ss_pc s u = SDeq"
    using assms(2,4) by (auto simp: plain_def)
  ultimately show ?thesis using assms(1) unfolding count_ok_def assms(5-9) by auto
qed

text \<open>A step of the thread that holds the mutex: what its place contributes before and after.\<close>

lemma count_ok_holder:
  assumes "count_ok n s" "usem_mutex.exclusive s" "sem_holds s t" "ss_pc s' = (ss_pc s)(t := pc)"
    and "int (length (su_q (ss_sem s))) = max 0 (- su_count (ss_sem s)) +
        (if ss_pc s t = SDeq then 1 else 0) - (if ss_pc s t = WEnq then 1 else 0) \<Longrightarrow>
      (ss_pc s t = WEnq \<Longrightarrow> su_count (ss_sem s) < 0) \<Longrightarrow> (ss_pc s t = SDeq \<Longrightarrow> su_count (ss_sem s) \<le> 0) \<Longrightarrow>
      int (length (su_q (ss_sem s'))) = max 0 (- su_count (ss_sem s')) +
        (if pc = SDeq then 1 else 0) - (if pc = WEnq then 1 else 0)"
    and "int (ss_granted s) + max 0 (su_count (ss_sem s)) + (if ss_pc s t = SDeq \<or> (\<exists>a. ss_pc s t = SReject a) then 1 else 0) =
        n + int (ss_signals s) \<Longrightarrow>
      int (ss_granted s') + max 0 (su_count (ss_sem s')) + (if pc = SDeq \<or> (\<exists>a. pc = SReject a) then 1 else 0) =
        n + int (ss_signals s')"
    and "pc = WEnq \<Longrightarrow> su_count (ss_sem s') < 0" "pc = SDeq \<Longrightarrow> su_count (ss_sem s') \<le> 0"
    and "su_freed (ss_sem s') = su_freed (ss_sem s)"
  shows "count_ok n s'"
proof -
  have none: "u \<noteq> t \<Longrightarrow> \<not> sem_holding (ss_pc s u)" for u
    using assms(2,3) by (auto simp: usem_mutex.exclusive_def sem_holds_def)
  have before: "at_place s (\<lambda>pc. pc = SDeq) = (if ss_pc s t = SDeq then 1 else 0)"
    "at_place s (\<lambda>pc. pc = WEnq) = (if ss_pc s t = WEnq then 1 else 0)"
    "at_place s (\<lambda>pc. pc = SDeq \<or> (\<exists>a. pc = SReject a)) = (if ss_pc s t = SDeq \<or> (\<exists>a. ss_pc s t = SReject a) then 1 else 0)"
    using assms(2,3) by (intro at_place_holder; auto)+
  have after: "at_place s' (\<lambda>pc. pc = SDeq) = (if pc = SDeq then 1 else 0)"
    "at_place s' (\<lambda>pc. pc = WEnq) = (if pc = WEnq then 1 else 0)"
    "at_place s' (\<lambda>pc. pc = SDeq \<or> (\<exists>a. pc = SReject a)) = (if pc = SDeq \<or> (\<exists>a. pc = SReject a) then 1 else 0)"
    using assms(2,3,4) by (intro at_place_moved; auto)+
  have "ss_pc s' u = WEnq \<Longrightarrow> u = t" "ss_pc s' u = SDeq \<Longrightarrow> u = t" for u
    using none [of u] assms(4) by (auto split: if_splits)
  then have "\<forall>u. ss_pc s' u = WEnq \<longrightarrow> su_count (ss_sem s') < 0" "\<forall>u. ss_pc s' u = SDeq \<longrightarrow> su_count (ss_sem s') \<le> 0"
    using assms(4,7,8) by (metis fun_upd_same)+
  moreover note ok = assms(1) [unfolded count_ok_def before]
  moreover have "int (length (su_q (ss_sem s'))) = max 0 (- su_count (ss_sem s')) +
        (if pc = SDeq then 1 else 0) - (if pc = WEnq then 1 else 0)" by (rule assms(5)) (use ok in blast)+
  moreover have "int (ss_granted s') + max 0 (su_count (ss_sem s')) + (if pc = SDeq \<or> (\<exists>a. pc = SReject a) then 1 else 0) =
        n + int (ss_signals s')" by (rule assms(6)) (use ok in blast)
  ultimately show ?thesis unfolding count_ok_def after assms(9) by blast
qed

lemma count_ok_wait:
  assumes "sem_wait_u d True a t s = Some s'" "count_ok n s" "usem_mutex.exclusive s"
  shows "count_ok n s'"
proof (cases "ss_pc s t")
  case WDec
  have h: "sem_holds s t" by (simp add: sem_holds_def WDec)
  let ?pc = "if su_count (ss_sem s) - 1 < 0 then WEnq else WUnlock"
  have "ss_pc s' = (ss_pc s)(t := ?pc)" using assms(1) WDec by (auto simp: sem_wait_u_def Let_def split: if_splits)
  then show ?thesis by (rule count_ok_holder [OF assms(2,3) h])
      (use assms(1) WDec in \<open>auto simp: sem_wait_u_def Let_def split: if_splits\<close>)
next
  case WEnq
  have h: "sem_holds s t" by (simp add: sem_holds_def WEnq)
  have "ss_pc s' = (ss_pc s)(t := WRelease a)"
    using assms(1) WEnq by (auto simp: sem_wait_u_def Let_def bind_eq_Some_conv)
  then show ?thesis by (rule count_ok_holder [OF assms(2,3) h])
      (use assms(1) WEnq in \<open>auto simp: sem_wait_u_def Let_def bind_eq_Some_conv\<close>)
next
  case WLock
  obtain old m where x: "xchng_u (sem_lock s) 0 = (old, m)" by fastforce
  show ?thesis by (rule count_ok_plain [OF assms(2), where t = t and pc = "if old \<noteq> 0 then WStore else WLock"])
      (use assms(1) WLock x in \<open>auto simp: sem_wait_u_def plain_def\<close>)
next
  case (WTest b)
  obtain f where f: "ss_frames s b = Some f" using assms(1) WTest by (auto simp: sem_wait_u_def Let_def bind_eq_Some_conv)
  show ?thesis by (rule count_ok_plain [OF assms(2), where t = t and pc = "if f_reject f = 0 then WDesched b else WReturn b"])
      (use assms(1) WTest f in \<open>auto simp: sem_wait_u_def plain_def\<close>)
next
  case (WDesched b)
  obtain f where f: "ss_frames s b = Some f" using assms(1) WDesched by (auto simp: sem_wait_u_def Let_def bind_eq_Some_conv)
  obtain off r where r: "d (f_reject f) = (off, r)" by fastforce
  show ?thesis by (rule count_ok_plain [OF assms(2), where t = t and pc = "if off then WBlocked b else WTest b"])
      (use assms(1) WDesched f r in \<open>auto simp: sem_wait_u_def plain_def\<close>)
next
  case WStore
  show ?thesis by (rule count_ok_plain [OF assms(2), where t = t and pc = WDec])
      (use assms(1) WStore in \<open>auto simp: sem_wait_u_def plain_def\<close>)
next
  case (WRelease b)
  show ?thesis by (rule count_ok_plain [OF assms(2), where t = t and pc = "WTest b"])
      (use assms(1) WRelease in \<open>auto simp: sem_wait_u_def plain_def\<close>)
next
  case (WReturn b)
  show ?thesis by (rule count_ok_plain [OF assms(2), where t = t and pc = SIdle])
      (use assms(1) WReturn in \<open>auto simp: sem_wait_u_def plain_def\<close>)
next
  case WUnlock
  show ?thesis by (rule count_ok_plain [OF assms(2), where t = t and pc = SIdle])
      (use assms(1) WUnlock in \<open>auto simp: sem_wait_u_def plain_def\<close>)
qed (use assms(1) in \<open>simp_all add: sem_wait_u_def\<close>)

lemma wake_pc_plain:
  "wake_pc k pcs u = SDeq \<longleftrightarrow> pcs u = SDeq" "wake_pc k pcs u = WEnq \<longleftrightarrow> pcs u = WEnq"
  "wake_pc k pcs u = SReject a \<longleftrightarrow> pcs u = SReject a"
  by (auto simp: wake_pc_def split: sem_pc.splits)

lemma count_ok_wake: "count_ok n s \<Longrightarrow> count_ok n (s\<lparr>ss_pc := wake_pc k (ss_pc s)\<rparr>)"
  by (simp add: count_ok_def at_place_def wake_pc_plain)

lemma count_ok_signal:
  assumes "sem_signal_u junk t s = Some s'" "count_ok n s" "usem_mutex.exclusive s"
  shows "count_ok n s'"
proof (cases "ss_pc s t")
  case SInc
  have h: "sem_holds s t" by (simp add: sem_holds_def SInc)
  let ?pc = "if su_count (ss_sem s) + 1 \<le> 0 then SDeq else SUnlock"
  have "ss_pc s' = (ss_pc s)(t := ?pc)" using assms(1) SInc by (auto simp: sem_signal_u_def Let_def)
  then show ?thesis by (rule count_ok_holder [OF assms(2,3) h])
      (use assms(1) SInc in \<open>auto simp: sem_signal_u_def Let_def split: if_splits\<close>)
next
  case SDeq
  have h: "sem_holds s t" by (simp add: sem_holds_def SDeq)
  have "at_place s (\<lambda>pc. pc = SDeq) = 1" "at_place s (\<lambda>pc. pc = WEnq) = 0"
    using at_place_holder [OF assms(3) h, of "\<lambda>pc. pc = SDeq"] at_place_holder [OF assms(3) h, of "\<lambda>pc. pc = WEnq"]
    by (simp_all add: SDeq)
  then have "su_q (ss_sem s) \<noteq> []" using assms(2) by (auto simp: count_ok_def)
  then obtain b q where q: "su_q (ss_sem s) = b # q" by (cases "su_q (ss_sem s)") auto
  then have "ss_pc s' = (ss_pc s)(t := SReject b)"
    using assms(1) SDeq by (auto simp: sem_signal_u_def Let_def bind_eq_Some_conv)
  then show ?thesis by (rule count_ok_holder [OF assms(2,3) h])
      (use assms(1) SDeq q in \<open>auto simp: sem_signal_u_def Let_def bind_eq_Some_conv\<close>)
next
  case (SReject b)
  have h: "sem_holds s t" by (simp add: sem_holds_def SReject)
  have "ss_pc s' = (ss_pc s)(t := SWake b)"
    using assms(1) SReject by (auto simp: sem_signal_u_def Let_def bind_eq_Some_conv)
  then show ?thesis by (rule count_ok_holder [OF assms(2,3) h])
      (use assms(1) SReject in \<open>auto simp: sem_signal_u_def Let_def bind_eq_Some_conv\<close>)
next
  case (SWake b)
  let ?w = "s\<lparr>ss_pc := wake_pc (read_tid (ss_frames s) b junk) (ss_pc s)\<rparr>"
  have "count_ok n ?w" using assms(2) by (rule count_ok_wake)
  then show ?thesis by (rule count_ok_plain [where t = t and pc = SUnlock])
      (use assms(1) SWake in \<open>auto simp: sem_signal_u_def plain_def wake_pc_plain Let_def\<close>)
next
  case SLock
  obtain old m where x: "xchng_u (sem_lock s) 0 = (old, m)" by fastforce
  show ?thesis by (rule count_ok_plain [OF assms(2), where t = t and pc = "if old \<noteq> 0 then SStore else SLock"])
      (use assms(1) SLock x in \<open>auto simp: sem_signal_u_def plain_def\<close>)
next
  case SStore
  show ?thesis by (rule count_ok_plain [OF assms(2), where t = t and pc = SInc])
      (use assms(1) SStore in \<open>auto simp: sem_signal_u_def plain_def\<close>)
next
  case SUnlock
  show ?thesis by (rule count_ok_plain [OF assms(2), where t = t and pc = SIdle])
      (use assms(1) SUnlock in \<open>auto simp: sem_signal_u_def plain_def\<close>)
qed (use assms(1) in \<open>simp_all add: sem_signal_u_def\<close>)

lemma usem_inv_step:
  assumes "usem_step d False s s'" "count_ok n s \<and> usem_mutex.exclusive s"
  shows "count_ok n s' \<and> usem_mutex.exclusive s'"
proof
  show "usem_mutex.exclusive s'" using usem_mutex.exclusive_step [OF assms(1)] assms(2) by blast
  show "count_ok n s'" using assms(1)
  proof cases
    case (call_wait t)
    show ?thesis by (rule count_ok_plain [of n s _ t WLock]) (use call_wait assms(2) in \<open>auto simp: plain_def\<close>)
  next
    case (call_signal t)
    show ?thesis by (rule count_ok_plain [of n s _ t SLock]) (use call_signal assms(2) in \<open>auto simp: plain_def\<close>)
  next
    case (wait mem a t)
    then show ?thesis using count_ok_wait assms(2) by simp
  next
    case (signal junk t)
    then show ?thesis using count_ok_signal assms(2) by blast
  next
    case (spurious k)
    then show ?thesis using count_ok_wake assms(2) by blast
  qed
qed

interpretation usem_count: step_invariant "usem_step d False" "\<lambda>s. count_ok n s \<and> usem_mutex.exclusive s" for d n
  by unfold_locales (rule usem_inv_step)

lemma usem_start_ok:
  assumes "0 \<le> n"
  shows "count_ok n (usem_start n)" "usem_mutex.exclusive (usem_start n)" "wq_inv (sem_wq (usem_start n))"
  using assms by (simp_all add: count_ok_def at_place_def usem_start_def usem_mutex.exclusive_def sem_holds_def
      sem_wq_def wq_inv_def frames_ok_def inside_def pending_def)

subsection \<open>Schedules\<close>

text \<open>
  A schedule names the thread that acts next: it calls a function, or performs its next access. The address is
  that of its variable \<open>thread\<close> when the step is the one that declares it; \<open>make_runnable\<close> reads the variable, if it is gone, as 0.
\<close>

datatype sem_event = Wait int | Signal int | Go int ptr

fun sem_event_step :: "flag_call \<Rightarrow> sem_event \<Rightarrow> usem_sys \<Rightarrow> usem_sys option" where
  "sem_event_step d (Wait t) s = (if ss_pc s t = SIdle then Some (goto t WLock s) else None)"
| "sem_event_step d (Signal t) s = (if ss_pc s t = SIdle then Some (goto t SLock s) else None)"
| "sem_event_step d (Go t a) s = (case sem_wait_u d True a t s of Some s' \<Rightarrow> Some s' | None \<Rightarrow> sem_signal_u 0 t s)"

primrec sem_schedule :: "flag_call \<Rightarrow> sem_event list \<Rightarrow> usem_sys \<Rightarrow> usem_sys option" where
  "sem_schedule d [] s = Some s"
| "sem_schedule d (e # es) s = do { s \<leftarrow> sem_event_step d e s; sem_schedule d es s }"

lemma sem_event_step_sound: "sem_event_step d e s = Some s' \<Longrightarrow> usem_step d False s s'"
  by (cases e)
    (auto split: if_splits option.splits intro: usem_step.intros usem_step.wait [where mem = True])

lemma sem_schedule_sound: "sem_schedule d es s = Some s' \<Longrightarrow> (usem_step d False)\<^sup>*\<^sup>* s s'"
proof (induction es arbitrary: s)
  case (Cons e es)
  then obtain s1 where s1: "sem_event_step d e s = Some s1" "sem_schedule d es s1 = Some s'"
    by (auto simp: bind_eq_Some_conv)
  show ?case by (rule converse_rtranclp_into_rtranclp [OF sem_event_step_sound [OF s1(1)] Cons.IH [OF s1(2)]])
qed simp

text \<open>Thread 1 takes the only resource; thread 2 waits until it has tested its flag.\<close>

definition take_and_wait :: "sem_event list" where
  "take_and_wait = [Wait 1, Go 1 0, Go 1 0, Go 1 0, Go 1 0,
     Wait 2, Go 2 0, Go 2 0, Go 2 0, Go 2 16, Go 2 0, Go 2 0]"

text \<open>Thread 1 signals, up to the point at which it has set the flag of thread 2.\<close>

definition signal_flag :: "sem_event list" where
  "signal_flag = [Signal 1, Go 1 0, Go 1 0, Go 1 0, Go 1 0, Go 1 0]"

subsection \<open>Properties\<close>



text \<open>
  A signalling thread can read a variable that no longer exists. \<open>sem_signal\<close> first sets the \<open>reject\<close> flag of the waiting
  thread and then reads its \<open>k_tid\<close>, both in a local variable of \<open>sem_wait\<close>. If the waiting thread sees its flag in
  between, it returns; what \<open>make_runnable\<close> is then called with is whatever the stack holds at that address.
\<close>

theorem sem_signal_reads_dead_variable:
  "\<exists>s. (usem_step documented_deschedule False)\<^sup>*\<^sup>* (usem_start 1) s \<and> ss_pc s 2 = SIdle \<and> ss_frames s 16 = None \<and>
    (\<lambda>k. sem_signal_u k 1 s) = (\<lambda>k. Some (goto 1 SUnlock (s\<lparr>ss_pc := wake_pc k (ss_pc s)\<rparr>)))"
proof -
  obtain s where s: "sem_schedule documented_deschedule (take_and_wait @ signal_flag @ [Go 2 0, Go 2 0, Go 2 0]) (usem_start 1) = Some s"
    "ss_pc s 2 = SIdle" "ss_frames s 16 = None" "ss_pc s 1 = SWake 16"
    by (simp add: take_and_wait_def signal_flag_def usem_start_def sem_wait_u_def sem_signal_u_def goto_def set_mutex_def
        xchng_u_def mutex_unlock_u_def documented_deschedule_def Let_def)
  have "sem_signal_u k 1 s = Some (goto 1 SUnlock (s\<lparr>ss_pc := wake_pc k (ss_pc s)\<rparr>))" for k
    using s(3,4) by (simp add: sem_signal_u_def read_tid_def Let_def)
  then show ?thesis using sem_schedule_sound [OF s(1)] s(2,3) by blast
qed

text \<open>
  C38: On this kernel a wake-up is lost. \<open>deschedule\<close> does not only read the flag, it sets it to 0. If the flag is set between the test
  in the loop of \<open>sem_wait\<close> and the system call, the call returns at once but the flag is 0 again: the thread goes round its loop
  and sleeps. It has been granted the resource, its address is no longer queued, and nothing that any thread does
  later, not even making it runnable, lets it return from \<open>sem_wait\<close>.
\<close>

theorem kernel_deschedule_loses_wakeup:
  "\<exists>s. (usem_step kernel_deschedule False)\<^sup>*\<^sup>* (usem_start 1) s \<and> ss_granted s = 2 \<and> ss_signals s = 1 \<and>
    (\<forall>v. \<not> sem_holds s v) \<and> ss_pc s 2 = WBlocked 16 \<and>
    {s'. (usem_step kernel_deschedule False)\<^sup>*\<^sup>* s s'} \<subseteq>
      {s'. ss_pc s' 2 \<in> {WRelease 16, WTest 16, WDesched 16, WBlocked 16}}"
proof -
  let ?es = "take_and_wait @ signal_flag @ [Go 2 0, Go 2 0, Go 2 0, Go 1 0, Go 1 0, Go 2 0, Go 2 0]"
  obtain s where s: "sem_schedule kernel_deschedule ?es (usem_start 1) = Some s"
    "ss_granted s = 2" "ss_signals s = 1" "ss_pc s = (\<lambda>_. SIdle)(1 := SIdle, 2 := WBlocked 16)"
    "ss_frames s 16 = Some \<lparr>f_tid = 2, f_reject = 0\<rparr>" "su_q (ss_sem s) = []"
    by (simp add: take_and_wait_def signal_flag_def usem_start_def sem_wait_u_def sem_signal_u_def goto_def set_mutex_def
        xchng_u_def mutex_unlock_u_def kernel_deschedule_def wake_pc_def read_tid_def Let_def)
  have "wq_stuck 16 2 (sem_wq s)" by (rule wq_stuckI) (simp_all add: sem_wq_def s(4-6))
  then have stuck: "wq_stuck 16 2 (sem_wq s')" if "(usem_step kernel_deschedule False)\<^sup>*\<^sup>* s s'" for s'
    using usem.stuck_for_good [OF that] by (simp add: kernel_deschedule_def)
  have "sem_phase (ss_pc s' 2) \<in> {Waiting 16, Asleep 16}" if "(usem_step kernel_deschedule False)\<^sup>*\<^sup>* s s'" for s'
    using wq_stuckD(1) [OF stuck [OF that]] by (simp add: sem_wq_def)
  moreover have "sem_phase pc \<in> {Waiting 16, Asleep 16} \<Longrightarrow> pc \<in> {WRelease 16, WTest 16, WDesched 16, WBlocked 16}" for pc
    by (cases pc) auto
  moreover have "\<forall>v. \<not> sem_holds s v" by (simp add: sem_holds_def s(4))
  ultimately show ?thesis using sem_schedule_sound [OF s(1)] s(2-4) by (intro exI [of _ s]) auto
qed

end
