(* ===== verification/UserCond.thy ===== *)
theory UserCond
  imports WaitQueue
begin

text \<open>
  \<open>user/libthread/cond.c\<close>: condition variables of the thread library, with the interleaving of any number of threads at the
  level of single accesses, as in \<open>UserSem\<close>. There are two mutexes: that of the condition variable, and that of the
  program (\<open>world_mp\<close>), which a thread holds when it calls \<open>cond_wait\<close>.
\<close>

subsection \<open>The functions\<close>

record ucond =
  cv_m :: umutex
  cv_q :: "ptr list"
  cv_freed :: bool

definition cond_init_u :: "ucond option \<Rightarrow> int \<times> ucond option" where
  "cond_init_u cv = (case cv of
     None \<Rightarrow> (-1, None)
   | Some c \<Rightarrow>
       let c = c\<lparr>cv_q := [], cv_freed := False\<rparr> in
       case mutex_init_u (Some (cv_m c)) of
         (r, Some m) \<Rightarrow> if r < 0 then (-1, Some c) else (0, Some (c\<lparr>cv_m := m\<rparr>))
       | (_, None) \<Rightarrow> (-1, Some c))"

definition cond_destroy_u :: "ucond option \<Rightarrow> ucond option option" where
  "cond_destroy_u cv = (case cv of
     None \<Rightarrow> Some None
   | Some c \<Rightarrow> do {
       m \<leftarrow> mutex_lock_u (cv_m c);
       c_assert (\<not> (cv_freed c \<and> cv_q c \<noteq> []));
       let c = c\<lparr>cv_freed := True\<rparr>;
       Some (Some (c\<lparr>cv_m := mutex_destroy_u (mutex_unlock_u m)\<rparr>))
     })"

text \<open>
  The places of a thread: outside or inside the section that \<open>world_mp\<close> protects (\<open>COut\<close>, \<open>CHold\<close>), in \<open>mutex_lock(world_mp)\<close> (\<open>CEnter\<close>),
  in \<open>cond_wait\<close> (\<open>Cw\<close>), \<open>cond_signal\<close> (\<open>Cs\<close>) or \<open>cond_broadcast\<close> (\<open>Cb\<close>). The flag of the last two says whether the caller
  holds \<open>world_mp\<close>; the address is that of the variable \<open>thread\<close> of the waiting thread.
\<close>

datatype cond_pc = COut | CEnter | CEnterStore | CHold
  | CwLock | CwStore | CwEnq | CwLeave ptr | CwRelease ptr | CwTest ptr | CwDesched ptr | CwBlocked ptr | CwRelock ptr | CwRestore ptr
  | CsLock bool | CsStore bool | CsDeq bool | CsReject bool ptr | CsWake bool ptr | CsUnlock bool
  | CbLock bool | CbStore bool | CbDeq bool | CbReject bool ptr | CbWake bool ptr | CbUnlock bool

record ucond_sys =
  cs_cv :: ucond
  cs_world :: umutex
  cs_frames :: "ptr \<rightharpoonup> wframe"
  cs_pc :: "int \<Rightarrow> cond_pc"

definition cgoto :: "int \<Rightarrow> cond_pc \<Rightarrow> ucond_sys \<Rightarrow> ucond_sys" where
  "cgoto t pc s = s\<lparr>cs_pc := (cs_pc s)(t := pc)\<rparr>"

definition set_cvm :: "umutex \<Rightarrow> ucond_sys \<Rightarrow> ucond_sys" where
  "set_cvm m s = s\<lparr>cs_cv := (cs_cv s)\<lparr>cv_m := m\<rparr>\<rparr>"

definition set_cvq :: "ptr list \<Rightarrow> ucond_sys \<Rightarrow> ucond_sys" where
  "set_cvq q s = s\<lparr>cs_cv := (cs_cv s)\<lparr>cv_q := q\<rparr>\<rparr>"

definition cwake_pc :: "int \<Rightarrow> (int \<Rightarrow> cond_pc) \<Rightarrow> int \<Rightarrow> cond_pc" where
  "cwake_pc k pcs = (case pcs k of CwBlocked a \<Rightarrow> pcs(k := CwTest a) | _ \<Rightarrow> pcs)"

text \<open>\<open>mutex_lock(world_mp)\<close> and \<open>mutex_unlock(world_mp)\<close> by the program around its section.\<close>

definition world_u :: "int \<Rightarrow> ucond_sys \<Rightarrow> ucond_sys option" where
  "world_u t s = (case cs_pc s t of
     CEnter \<Rightarrow> (let (old, m) = xchng_u (cs_world s) 0
                in Some (cgoto t (if old \<noteq> 0 then CEnterStore else CEnter) (s\<lparr>cs_world := m\<rparr>)))
   | CEnterStore \<Rightarrow> Some (cgoto t CHold (s\<lparr>cs_world := (cs_world s)\<lparr>um_lock := 0\<rparr>\<rparr>))
   | CHold \<Rightarrow> Some (cgoto t COut (s\<lparr>cs_world := mutex_unlock_u (cs_world s)\<rparr>))
   | _ \<Rightarrow> None)"

definition cond_wait_u :: "flag_call \<Rightarrow> bool \<Rightarrow> ptr \<Rightarrow> int \<Rightarrow> ucond_sys \<Rightarrow> ucond_sys option" where
  "cond_wait_u d mem a t s = (let cv = cs_cv s in case cs_pc s t of
     CwLock \<Rightarrow> (let (old, m) = xchng_u (cv_m cv) 0
                in Some (cgoto t (if old \<noteq> 0 then CwStore else CwLock) (set_cvm m s)))
   | CwStore \<Rightarrow> Some (cgoto t CwEnq (set_cvm ((cv_m cv)\<lparr>um_lock := 0\<rparr>) s))
   | CwEnq \<Rightarrow> do {
       c_assert (cs_frames s a = None);
       let s = s\<lparr>cs_frames := (cs_frames s)(a \<mapsto> \<lparr>f_tid = t, f_reject = 0\<rparr>)\<rparr>;
       c_assert (\<not> (cv_freed cv \<and> cv_q cv \<noteq> []));
       Some (cgoto t (CwLeave a) (if mem then set_cvq (cv_q cv @ [a]) s else s))
     }
   | CwLeave b \<Rightarrow> Some (cgoto t (CwRelease b) (s\<lparr>cs_world := mutex_unlock_u (cs_world s)\<rparr>))
   | CwRelease b \<Rightarrow> Some (cgoto t (CwTest b) (set_cvm (mutex_unlock_u (cv_m cv)) s))
   | CwTest b \<Rightarrow> do {
       f \<leftarrow> cs_frames s b;
       Some (cgoto t (if f_reject f = 0 then CwDesched b else CwRelock b) s)
     }
   | CwDesched b \<Rightarrow> do {
       f \<leftarrow> cs_frames s b;
       let (off, r) = d (f_reject f);
       let s = s\<lparr>cs_frames := (cs_frames s)(b \<mapsto> f\<lparr>f_reject := r\<rparr>)\<rparr>;
       Some (cgoto t (if off then CwBlocked b else CwTest b) s)
     }
   | CwRelock b \<Rightarrow> (let (old, m) = xchng_u (cs_world s) 0
                    in Some (cgoto t (if old \<noteq> 0 then CwRestore b else CwRelock b) (s\<lparr>cs_world := m\<rparr>)))
   | CwRestore b \<Rightarrow> Some (cgoto t CHold (s\<lparr>cs_world := (cs_world s)\<lparr>um_lock := 0\<rparr>, cs_frames := (cs_frames s)(b := None)\<rparr>))
   | _ \<Rightarrow> None)"

definition cond_return :: "bool \<Rightarrow> cond_pc" where
  "cond_return w = (if w then CHold else COut)"

definition cond_signal_u :: "int \<Rightarrow> int \<Rightarrow> ucond_sys \<Rightarrow> ucond_sys option" where
  "cond_signal_u junk t s = (let cv = cs_cv s in case cs_pc s t of
     CsLock w \<Rightarrow> (let (old, m) = xchng_u (cv_m cv) 0
                  in Some (cgoto t (if old \<noteq> 0 then CsStore w else CsLock w) (set_cvm m s)))
   | CsStore w \<Rightarrow> Some (cgoto t (CsDeq w) (set_cvm ((cv_m cv)\<lparr>um_lock := 0\<rparr>) s))
   | CsDeq w \<Rightarrow> (case cv_q cv of
       [] \<Rightarrow> Some (cgoto t (CsUnlock w) s)
     | a # q \<Rightarrow> do {
         c_assert (\<not> cv_freed cv);
         Some (cgoto t (CsReject w a) (set_cvq q s))
       })
   | CsReject w a \<Rightarrow> do {
       f \<leftarrow> cs_frames s a;
       Some (cgoto t (CsWake w a) (s\<lparr>cs_frames := (cs_frames s)(a \<mapsto> f\<lparr>f_reject := 1\<rparr>)\<rparr>))
     }
   | CsWake w a \<Rightarrow>
       Some (cgoto t (CsUnlock w) (s\<lparr>cs_pc := cwake_pc (read_tid (cs_frames s) a junk) (cs_pc s)\<rparr>))
   | CsUnlock w \<Rightarrow> Some (cgoto t (cond_return w) (set_cvm (mutex_unlock_u (cv_m cv)) s))
   | _ \<Rightarrow> None)"

definition cond_broadcast_u :: "int \<Rightarrow> int \<Rightarrow> ucond_sys \<Rightarrow> ucond_sys option" where
  "cond_broadcast_u junk t s = (let cv = cs_cv s in case cs_pc s t of
     CbLock w \<Rightarrow> (let (old, m) = xchng_u (cv_m cv) 0
                  in Some (cgoto t (if old \<noteq> 0 then CbStore w else CbLock w) (set_cvm m s)))
   | CbStore w \<Rightarrow> Some (cgoto t (CbDeq w) (set_cvm ((cv_m cv)\<lparr>um_lock := 0\<rparr>) s))
   | CbDeq w \<Rightarrow> (case cv_q cv of
       [] \<Rightarrow> Some (cgoto t (CbUnlock w) s)
     | a # q \<Rightarrow> do {
         c_assert (\<not> cv_freed cv);
         Some (cgoto t (CbReject w a) (set_cvq q s))
       })
   | CbReject w a \<Rightarrow> do {
       f \<leftarrow> cs_frames s a;
       Some (cgoto t (CbWake w a) (s\<lparr>cs_frames := (cs_frames s)(a \<mapsto> f\<lparr>f_reject := 1\<rparr>)\<rparr>))
     }
   | CbWake w a \<Rightarrow>
       Some (cgoto t (CbDeq w) (s\<lparr>cs_pc := cwake_pc (read_tid (cs_frames s) a junk) (cs_pc s)\<rparr>))
   | CbUnlock w \<Rightarrow> Some (cgoto t (cond_return w) (set_cvm (mutex_unlock_u (cv_m cv)) s))
   | _ \<Rightarrow> None)"

subsection \<open>Threads around one condition variable\<close>

text \<open>
  A thread that holds \<open>world_mp\<close> may release it or call \<open>cond_wait\<close>; any thread may call \<open>cond_signal\<close> or \<open>cond_broadcast\<close>,
  with or without the mutex.
\<close>

inductive ucond_step :: "flag_call \<Rightarrow> bool \<Rightarrow> ucond_sys \<Rightarrow> ucond_sys \<Rightarrow> bool" for d oom where
  call_enter: "cs_pc s t = COut \<Longrightarrow> ucond_step d oom s (cgoto t CEnter s)"
| call_wait: "cs_pc s t = CHold \<Longrightarrow> ucond_step d oom s (cgoto t CwLock s)"
| call_signal: "cs_pc s t = cond_return w \<Longrightarrow> ucond_step d oom s (cgoto t (CsLock w) s)"
| call_broadcast: "cs_pc s t = cond_return w \<Longrightarrow> ucond_step d oom s (cgoto t (CbLock w) s)"
| world: "world_u t s = Some s' \<Longrightarrow> ucond_step d oom s s'"
| wait: "cond_wait_u d mem a t s = Some s' \<Longrightarrow> mem \<or> oom \<Longrightarrow> ucond_step d oom s s'"
| signal: "cond_signal_u junk t s = Some s' \<Longrightarrow> ucond_step d oom s s'"
| broadcast: "cond_broadcast_u junk t s = Some s' \<Longrightarrow> ucond_step d oom s s'"
| spurious: "ucond_step d oom s (s\<lparr>cs_pc := cwake_pc k (cs_pc s)\<rparr>)"

definition ucond_start :: ucond_sys where
  "ucond_start = \<lparr>cs_cv = \<lparr>cv_m = \<lparr>um_lock = 1\<rparr>, cv_q = [], cv_freed = False\<rparr>, cs_world = \<lparr>um_lock = 1\<rparr>,
     cs_frames = (\<lambda>_. None), cs_pc = (\<lambda>_. COut)\<rparr>"

lemma cond_init_u_start: "cond_init_u (Some c) = (0, Some (cs_cv ucond_start))"
  by (simp add: cond_init_u_def mutex_init_u_def ucond_start_def)

text \<open>The phase that a place belongs to, and the places at which each of the two mutexes is held.\<close>

definition cond_phase :: "cond_pc \<Rightarrow> phase" where
  "cond_phase pc = (case pc of
     CwLeave a \<Rightarrow> Waiting a | CwRelease a \<Rightarrow> Waiting a | CwTest a \<Rightarrow> Waiting a | CwDesched a \<Rightarrow> Waiting a
   | CwBlocked a \<Rightarrow> Asleep a | CwRelock a \<Rightarrow> Leaving a | CwRestore a \<Rightarrow> Leaving a
   | CsReject w a \<Rightarrow> Rejecting a | CsWake w a \<Rightarrow> Waking a | CbReject w a \<Rightarrow> Rejecting a | CbWake w a \<Rightarrow> Waking a
   | _ \<Rightarrow> Away)"

definition world_holding :: "cond_pc \<Rightarrow> bool" where
  "world_holding pc = (case pc of
     CEnterStore \<Rightarrow> True | CHold \<Rightarrow> True | CwLock \<Rightarrow> True | CwStore \<Rightarrow> True | CwEnq \<Rightarrow> True | CwLeave a \<Rightarrow> True | CwRestore a \<Rightarrow> True
   | CsLock w \<Rightarrow> w | CsStore w \<Rightarrow> w | CsDeq w \<Rightarrow> w | CsReject w a \<Rightarrow> w | CsWake w a \<Rightarrow> w | CsUnlock w \<Rightarrow> w
   | CbLock w \<Rightarrow> w | CbStore w \<Rightarrow> w | CbDeq w \<Rightarrow> w | CbReject w a \<Rightarrow> w | CbWake w a \<Rightarrow> w | CbUnlock w \<Rightarrow> w
   | _ \<Rightarrow> False)"

definition cv_holding :: "cond_pc \<Rightarrow> bool" where
  "cv_holding pc = (case pc of
     CwStore \<Rightarrow> True | CwEnq \<Rightarrow> True | CwLeave a \<Rightarrow> True | CwRelease a \<Rightarrow> True
   | CsStore w \<Rightarrow> True | CsDeq w \<Rightarrow> True | CsReject w a \<Rightarrow> True | CsWake w a \<Rightarrow> True | CsUnlock w \<Rightarrow> True
   | CbStore w \<Rightarrow> True | CbDeq w \<Rightarrow> True | CbReject w a \<Rightarrow> True | CbWake w a \<Rightarrow> True | CbUnlock w \<Rightarrow> True
   | _ \<Rightarrow> False)"

lemmas place_defs = cond_phase_def world_holding_def cv_holding_def

definition cond_wq :: "ucond_sys \<Rightarrow> wqueue" where
  "cond_wq s = \<lparr>wq_q = cv_q (cs_cv s), wq_frames = cs_frames s, wq_phase = cond_phase \<circ> cs_pc s\<rparr>"

definition world_holds :: "ucond_sys \<Rightarrow> int \<Rightarrow> bool" where
  "world_holds s = world_holding \<circ> cs_pc s"

definition cv_holds :: "ucond_sys \<Rightarrow> int \<Rightarrow> bool" where
  "cv_holds s = cv_holding \<circ> cs_pc s"

lemma cgoto_simps [simp]:
  "cs_pc (cgoto t pc s) = (cs_pc s)(t := pc)" "cs_cv (cgoto t pc s) = cs_cv s" "cs_world (cgoto t pc s) = cs_world s"
  "cs_frames (cgoto t pc s) = cs_frames s"
  by (simp_all add: cgoto_def)

lemma set_cvm_simps [simp]:
  "cs_pc (set_cvm m s) = cs_pc s" "cs_frames (set_cvm m s) = cs_frames s" "cs_world (set_cvm m s) = cs_world s"
  "cv_m (cs_cv (set_cvm m s)) = m" "cv_q (cs_cv (set_cvm m s)) = cv_q (cs_cv s)" "cv_freed (cs_cv (set_cvm m s)) = cv_freed (cs_cv s)"
  by (simp_all add: set_cvm_def)

lemma set_cvq_simps [simp]:
  "cs_pc (set_cvq q s) = cs_pc s" "cs_frames (set_cvq q s) = cs_frames s" "cs_world (set_cvq q s) = cs_world s"
  "cv_m (cs_cv (set_cvq q s)) = cv_m (cs_cv s)" "cv_q (cs_cv (set_cvq q s)) = q" "cv_freed (cs_cv (set_cvq q s)) = cv_freed (cs_cv s)"
  by (simp_all add: set_cvq_def)

lemma cond_phase_wake: "cond_phase \<circ> cwake_pc k pcs = wake_phase k (cond_phase \<circ> pcs)"
  by (auto simp: cwake_pc_def wake_phase_def cond_phase_def fun_eq_iff split: cond_pc.splits)

lemma holding_wake:
  "world_holding \<circ> cwake_pc k pcs = world_holding \<circ> pcs" "cv_holding \<circ> cwake_pc k pcs = cv_holding \<circ> pcs"
  by (auto simp: cwake_pc_def world_holding_def cv_holding_def fun_eq_iff split: cond_pc.splits)

lemma cond_wq_simps:
  "wq_q (cond_wq s) = cv_q (cs_cv s)" "wq_frames (cond_wq s) = cs_frames s" "wq_phase (cond_wq s) = cond_phase \<circ> cs_pc s"
  by (simp_all add: cond_wq_def)

text \<open>A step that leaves the queue and the variables alone and keeps the phase.\<close>

lemma cond_wq_stutter:
  assumes "cs_pc s' = (cs_pc s)(t := pc)" "cond_phase pc = cond_phase (cs_pc s t)" "cv_q (cs_cv s') = cv_q (cs_cv s)" "cs_frames s' = cs_frames s"
  shows "cond_wq s' = cond_wq s"
  using assms by (simp add: cond_wq_def comp_upd_same)

subsection \<open>What a single step does\<close>

text \<open>A step follows the protocol of the queue and the discipline of both mutexes.\<close>

definition cond_effect :: "flag_call \<Rightarrow> int \<Rightarrow> ucond_sys \<Rightarrow> ucond_sys \<Rightarrow> bool" where
  "cond_effect d t s s' \<longleftrightarrow> (wq_step d (cond_wq s) (cond_wq s') \<or> cond_wq s' = cond_wq s) \<and>
     lock_change t (cs_world s) (world_holding \<circ> cs_pc s) (cs_world s') (world_holding \<circ> cs_pc s') \<and>
     lock_change t (cv_m (cs_cv s)) (cv_holding \<circ> cs_pc s) (cv_m (cs_cv s')) (cv_holding \<circ> cs_pc s')"

text \<open>Places that differ only in the point reached: the same phase, and the same hold on one or both mutexes.\<close>

lemma effect_goto:
  assumes "cond_phase pc = cond_phase (cs_pc s t)" "world_holding pc = world_holding (cs_pc s t)" "cv_holding pc = cv_holding (cs_pc s t)"
  shows "cond_effect d t s (cgoto t pc s)"
  unfolding cond_effect_def
  by (intro conjI disjI2 cond_wq_stutter [where t = t and pc = pc] lock_changeI(1) [where pc = pc]) (simp_all add: assms)

lemma effect_cv_try:
  assumes "xchng_u (cv_m (cs_cv s)) 0 = (old, m)" "\<not> cv_holding (cs_pc s t)" "cv_holding pc"
    and "cond_phase pc = cond_phase (cs_pc s t)" "world_holding pc = world_holding (cs_pc s t)"
  shows "cond_effect d t s (cgoto t (if old \<noteq> 0 then pc else cs_pc s t) (set_cvm m s))"
proof -
  let ?pc = "if old \<noteq> 0 then pc else cs_pc s t"
  show ?thesis unfolding cond_effect_def
    by (intro conjI disjI2 cond_wq_stutter [where t = t and pc = ?pc] lock_changeI(1) [where pc = ?pc]
        lock_changeI(4) [where pc = ?pc and old = old]) (use assms in simp_all)
qed

lemma effect_cv_store:
  assumes "cv_holding (cs_pc s t)" "cv_holding pc"
    and "cond_phase pc = cond_phase (cs_pc s t)" "world_holding pc = world_holding (cs_pc s t)"
  shows "cond_effect d t s (cgoto t pc (set_cvm ((cv_m (cs_cv s))\<lparr>um_lock := 0\<rparr>) s))"
  unfolding cond_effect_def
  by (intro conjI disjI2 cond_wq_stutter [where t = t and pc = pc] lock_changeI(1) [where pc = pc]
      lock_changeI(3) [where pc = pc]) (use assms in simp_all)

lemma effect_cv_unlock:
  assumes "cv_holding (cs_pc s t)" "\<not> cv_holding pc"
    and "cond_phase pc = cond_phase (cs_pc s t)" "world_holding pc = world_holding (cs_pc s t)"
  shows "cond_effect d t s (cgoto t pc (set_cvm (mutex_unlock_u (cv_m (cs_cv s))) s))"
  unfolding cond_effect_def
  by (intro conjI disjI2 cond_wq_stutter [where t = t and pc = pc] lock_changeI(1) [where pc = pc]
      lock_changeI(2) [where pc = pc]) (use assms in simp_all)

lemma effect_world_try:
  assumes "xchng_u (cs_world s) 0 = (old, m)" "\<not> world_holding (cs_pc s t)" "world_holding pc"
    and "cond_phase pc = cond_phase (cs_pc s t)" "cv_holding pc = cv_holding (cs_pc s t)"
  shows "cond_effect d t s (cgoto t (if old \<noteq> 0 then pc else cs_pc s t) (s\<lparr>cs_world := m\<rparr>))"
proof -
  let ?pc = "if old \<noteq> 0 then pc else cs_pc s t"
  show ?thesis unfolding cond_effect_def
    by (intro conjI disjI2 cond_wq_stutter [where t = t and pc = ?pc] lock_changeI(4) [where pc = ?pc and old = old]
        lock_changeI(1) [where pc = ?pc]) (use assms in simp_all)
qed

lemma effect_world_store:
  assumes "world_holding (cs_pc s t)" "world_holding pc"
    and "cond_phase pc = cond_phase (cs_pc s t)" "cv_holding pc = cv_holding (cs_pc s t)"
  shows "cond_effect d t s (cgoto t pc (s\<lparr>cs_world := (cs_world s)\<lparr>um_lock := 0\<rparr>\<rparr>))"
  unfolding cond_effect_def
  by (intro conjI disjI2 cond_wq_stutter [where t = t and pc = pc] lock_changeI(3) [where pc = pc]
      lock_changeI(1) [where pc = pc]) (use assms in simp_all)

lemma effect_world_unlock:
  assumes "world_holding (cs_pc s t)" "\<not> world_holding pc"
    and "cond_phase pc = cond_phase (cs_pc s t)" "cv_holding pc = cv_holding (cs_pc s t)"
  shows "cond_effect d t s (cgoto t pc (s\<lparr>cs_world := mutex_unlock_u (cs_world s)\<rparr>))"
  unfolding cond_effect_def
  by (intro conjI disjI2 cond_wq_stutter [where t = t and pc = pc] lock_changeI(2) [where pc = pc]
      lock_changeI(1) [where pc = pc]) (use assms in simp_all)

text \<open>A step of the protocol, which leaves both mutexes alone but for the store of 0.\<close>

lemma effect_wq:
  assumes "wq_step d (cond_wq s) (cond_wq s')" "cs_pc s' = (cs_pc s)(t := pc)"
    and "world_holding pc = world_holding (cs_pc s t)" "cv_holding pc = cv_holding (cs_pc s t)"
    and "cs_world s' = cs_world s \<or> world_holding pc \<and> cs_world s' = (cs_world s)\<lparr>um_lock := 0\<rparr>"
    and "cv_m (cs_cv s') = cv_m (cs_cv s)"
  shows "cond_effect d t s s'"
proof -
  have "lock_change t (cs_world s) (world_holding \<circ> cs_pc s) (cs_world s') (world_holding \<circ> cs_pc s')"
    using assms(5)
  proof
    assume "cs_world s' = cs_world s"
    then show ?thesis by (intro lock_changeI(1) [OF assms(2)]) (use assms in simp_all)
  next
    assume "world_holding pc \<and> cs_world s' = (cs_world s)\<lparr>um_lock := 0\<rparr>"
    then show ?thesis by (intro lock_changeI(3) [OF assms(2)]) (use assms in simp_all)
  qed
  moreover have "lock_change t (cv_m (cs_cv s)) (cv_holding \<circ> cs_pc s) (cv_m (cs_cv s')) (cv_holding \<circ> cs_pc s')"
    by (intro lock_changeI(1) [OF assms(2)]) (use assms in simp_all)
  ultimately show ?thesis using assms(1) by (simp add: cond_effect_def)
qed

text \<open>Waking a thread.\<close>

lemma effect_wake:
  assumes "cond_phase (cs_pc s t) = Waking a" "cond_phase pc = Away"
    and "world_holding pc = world_holding (cs_pc s t)" "cv_holding pc = cv_holding (cs_pc s t)"
  shows "cond_effect d t s (cgoto t pc (s\<lparr>cs_pc := cwake_pc (read_tid (cs_frames s) a junk) (cs_pc s)\<rparr>))"
    (is "cond_effect d t s ?s'")
proof -
  let ?k = "read_tid (cs_frames s) a junk"
  have phase: "cond_phase \<circ> cs_pc ?s' = (wake_phase ?k (cond_phase \<circ> cs_pc s))(t := Away)"
    by (simp add: comp_upd cond_phase_wake assms(2))
  have "wq_step d (cond_wq s) (cond_wq s\<lparr>wq_phase := (wake_phase ?k (wq_phase (cond_wq s)))(t := Away)\<rparr>)"
    by (rule wq_step.wake [where a = a and junk = junk]) (simp_all add: cond_wq_def assms(1))
  also have "cond_wq s\<lparr>wq_phase := (wake_phase ?k (wq_phase (cond_wq s)))(t := Away)\<rparr> = cond_wq ?s'"
    unfolding cond_wq_def phase by simp
  finally have "wq_step d (cond_wq s) (cond_wq ?s')" .
  moreover have "world_holding \<circ> cs_pc ?s' = world_holding \<circ> cs_pc s" "cv_holding \<circ> cs_pc ?s' = cv_holding \<circ> cs_pc s"
    by (simp_all add: comp_upd holding_wake fun_upd_idem assms(3,4))
  ultimately show ?thesis by (simp add: cond_effect_def lock_change_same)
qed

lemma world_effect:
  assumes "world_u t s = Some s'"
  shows "cond_effect d t s s'"
proof (cases "cs_pc s t")
  case CEnter
  obtain old m where x: "xchng_u (cs_world s) 0 = (old, m)" by fastforce
  show ?thesis using assms CEnter x effect_world_try [OF x, of t CEnterStore d] by (auto simp: world_u_def place_defs)
next
  case CEnterStore
  show ?thesis using assms CEnterStore effect_world_store [of s t CHold d] by (auto simp: world_u_def place_defs)
next
  case CHold
  show ?thesis using assms CHold effect_world_unlock [of s t COut d] by (auto simp: world_u_def place_defs)
qed (use assms in \<open>simp_all add: world_u_def\<close>)

lemma signal_effect:
  assumes "cond_signal_u junk t s = Some s'"
  shows "cond_effect d t s s'"
proof (cases "cs_pc s t")
  case (CsLock w)
  obtain old m where x: "xchng_u (cv_m (cs_cv s)) 0 = (old, m)" by fastforce
  show ?thesis using assms CsLock x effect_cv_try [OF x, of t "CsStore w" d] by (auto simp: cond_signal_u_def Let_def place_defs)
next
  case (CsStore w)
  show ?thesis using assms CsStore effect_cv_store [of s t "CsDeq w" d] by (auto simp: cond_signal_u_def Let_def place_defs)
next
  case (CsDeq w)
  show ?thesis
  proof (cases "cv_q (cs_cv s)")
    case Nil
    then show ?thesis using assms CsDeq effect_goto [of "CsUnlock w" s t d] by (auto simp: cond_signal_u_def Let_def place_defs)
  next
    case (Cons a q)
    then have s': "s' = cgoto t (CsReject w a) (set_cvq q s)" using assms CsDeq by (auto simp: cond_signal_u_def Let_def bind_eq_Some_conv)
    have "wq_step d (cond_wq s) (cond_wq s')"
      using wq_step.deq [of "cond_wq s" t a q d] Cons CsDeq by (simp add: s' cond_wq_def comp_upd place_defs)
    then show ?thesis by (rule effect_wq [where pc = "CsReject w a"]) (simp_all add: s' CsDeq place_defs)
  qed
next
  case (CsReject w a)
  then obtain f where f: "cs_frames s a = Some f" "s' = cgoto t (CsWake w a) (s\<lparr>cs_frames := (cs_frames s)(a \<mapsto> f\<lparr>f_reject := 1\<rparr>)\<rparr>)"
    using assms by (auto simp: cond_signal_u_def Let_def bind_eq_Some_conv)
  have "wq_step d (cond_wq s) (cond_wq s')"
    using wq_step.reject [of "cond_wq s" t a f d] CsReject f by (simp add: cond_wq_def comp_upd place_defs)
  then show ?thesis by (rule effect_wq [where pc = "CsWake w a"]) (simp_all add: f CsReject place_defs)
next
  case (CsWake w a)
  show ?thesis using assms CsWake effect_wake [of s t a "CsUnlock w" d junk] by (auto simp: cond_signal_u_def Let_def place_defs)
next
  case (CsUnlock w)
  show ?thesis using assms CsUnlock effect_cv_unlock [of s t "cond_return w" d]
    by (auto simp: cond_signal_u_def Let_def place_defs cond_return_def)
qed (use assms in \<open>simp_all add: cond_signal_u_def\<close>)

lemma broadcast_effect:
  assumes "cond_broadcast_u junk t s = Some s'"
  shows "cond_effect d t s s'"
proof (cases "cs_pc s t")
  case (CbLock w)
  obtain old m where x: "xchng_u (cv_m (cs_cv s)) 0 = (old, m)" by fastforce
  show ?thesis using assms CbLock x effect_cv_try [OF x, of t "CbStore w" d] by (auto simp: cond_broadcast_u_def Let_def place_defs)
next
  case (CbStore w)
  show ?thesis using assms CbStore effect_cv_store [of s t "CbDeq w" d] by (auto simp: cond_broadcast_u_def Let_def place_defs)
next
  case (CbDeq w)
  show ?thesis
  proof (cases "cv_q (cs_cv s)")
    case Nil
    then show ?thesis using assms CbDeq effect_goto [of "CbUnlock w" s t d] by (auto simp: cond_broadcast_u_def Let_def place_defs)
  next
    case (Cons a q)
    then have s': "s' = cgoto t (CbReject w a) (set_cvq q s)" using assms CbDeq by (auto simp: cond_broadcast_u_def Let_def bind_eq_Some_conv)
    have "wq_step d (cond_wq s) (cond_wq s')"
      using wq_step.deq [of "cond_wq s" t a q d] Cons CbDeq by (simp add: s' cond_wq_def comp_upd place_defs)
    then show ?thesis by (rule effect_wq [where pc = "CbReject w a"]) (simp_all add: s' CbDeq place_defs)
  qed
next
  case (CbReject w a)
  then obtain f where f: "cs_frames s a = Some f" "s' = cgoto t (CbWake w a) (s\<lparr>cs_frames := (cs_frames s)(a \<mapsto> f\<lparr>f_reject := 1\<rparr>)\<rparr>)"
    using assms by (auto simp: cond_broadcast_u_def Let_def bind_eq_Some_conv)
  have "wq_step d (cond_wq s) (cond_wq s')"
    using wq_step.reject [of "cond_wq s" t a f d] CbReject f by (simp add: cond_wq_def comp_upd place_defs)
  then show ?thesis by (rule effect_wq [where pc = "CbWake w a"]) (simp_all add: f CbReject place_defs)
next
  case (CbWake w a)
  show ?thesis using assms CbWake effect_wake [of s t a "CbDeq w" d junk] by (auto simp: cond_broadcast_u_def Let_def place_defs)
next
  case (CbUnlock w)
  show ?thesis using assms CbUnlock effect_cv_unlock [of s t "cond_return w" d]
    by (auto simp: cond_broadcast_u_def Let_def place_defs cond_return_def)
qed (use assms in \<open>simp_all add: cond_broadcast_u_def\<close>)

lemma wait_effect:
  assumes "cond_wait_u d True a t s = Some s'"
  shows "cond_effect d t s s'"
proof (cases "cs_pc s t")
  case CwLock
  obtain old m where x: "xchng_u (cv_m (cs_cv s)) 0 = (old, m)" by fastforce
  show ?thesis using assms CwLock x effect_cv_try [OF x, of t CwStore d] by (auto simp: cond_wait_u_def Let_def place_defs)
next
  case CwStore
  show ?thesis using assms CwStore effect_cv_store [of s t CwEnq d] by (auto simp: cond_wait_u_def Let_def place_defs)
next
  case CwEnq
  then have s': "cs_frames s a = None"
    "s' = cgoto t (CwLeave a) (set_cvq (cv_q (cs_cv s) @ [a]) (s\<lparr>cs_frames := (cs_frames s)(a \<mapsto> \<lparr>f_tid = t, f_reject = 0\<rparr>)\<rparr>))"
    using assms by (auto simp: cond_wait_u_def Let_def bind_eq_Some_conv)
  have "wq_step d (cond_wq s) (cond_wq s')"
    using wq_step.enq [of "cond_wq s" t a d] CwEnq s'(1) by (simp add: s'(2) cond_wq_def comp_upd place_defs)
  then show ?thesis by (rule effect_wq [where pc = "CwLeave a"]) (simp_all add: s' CwEnq place_defs)
next
  case (CwLeave b)
  show ?thesis using assms CwLeave effect_world_unlock [of s t "CwRelease b" d] by (auto simp: cond_wait_u_def Let_def place_defs)
next
  case (CwRelease b)
  show ?thesis using assms CwRelease effect_cv_unlock [of s t "CwTest b" d] by (auto simp: cond_wait_u_def Let_def place_defs)
next
  case (CwTest b)
  then obtain f where f: "cs_frames s b = Some f" "s' = cgoto t (if f_reject f = 0 then CwDesched b else CwRelock b) s"
    using assms by (auto simp: cond_wait_u_def Let_def bind_eq_Some_conv)
  show ?thesis
  proof (cases "f_reject f = 0")
    case True
    then show ?thesis using f CwTest effect_goto [of "CwDesched b" s t d] by (simp add: place_defs)
  next
    case False
    then have "wq_step d (cond_wq s) (cond_wq s')"
      using wq_step.stop [of "cond_wq s" t b f d] CwTest f by (simp add: cond_wq_def comp_upd place_defs)
    then show ?thesis by (rule effect_wq [where pc = "CwRelock b"]) (simp_all add: f False CwTest place_defs)
  qed
next
  case (CwDesched b)
  then obtain f off r where f: "cs_frames s b = Some f" "d (f_reject f) = (off, r)"
    "s' = cgoto t (if off then CwBlocked b else CwTest b) (s\<lparr>cs_frames := (cs_frames s)(b \<mapsto> f\<lparr>f_reject := r\<rparr>)\<rparr>)"
    using assms by (cases "cs_frames s b"; cases "d (f_reject (the (cs_frames s b)))") (auto simp: cond_wait_u_def)
  have "wq_step d (cond_wq s) (cond_wq s')"
    using wq_step.sleep [of "cond_wq s" t b f d off r] CwDesched f by (cases off) (simp_all add: cond_wq_def comp_upd place_defs)
  then show ?thesis by (rule effect_wq [where pc = "if off then CwBlocked b else CwTest b"]) (simp_all add: f CwDesched place_defs)
next
  case (CwRelock b)
  obtain old m where x: "xchng_u (cs_world s) 0 = (old, m)" by fastforce
  show ?thesis using assms CwRelock x effect_world_try [OF x, of t "CwRestore b" d] by (auto simp: cond_wait_u_def Let_def place_defs)
next
  case (CwRestore b)
  then have s': "s' = cgoto t CHold (s\<lparr>cs_world := (cs_world s)\<lparr>um_lock := 0\<rparr>, cs_frames := (cs_frames s)(b := None)\<rparr>)"
    using assms by (auto simp: cond_wait_u_def Let_def)
  have "wq_step d (cond_wq s) (cond_wq s')"
    using wq_step.leave [of "cond_wq s" t b d] CwRestore by (simp add: s' cond_wq_def comp_upd place_defs)
  then show ?thesis by (rule effect_wq [where pc = CHold]) (simp_all add: s' CwRestore place_defs)
qed (use assms in \<open>simp_all add: cond_wait_u_def\<close>)

lemma ucond_effect:
  assumes "ucond_step d False s s'"
  shows "\<exists>t. cond_effect d t s s'"
  using assms
proof cases
  case (call_enter t)
  then show ?thesis using effect_goto [of CEnter s t d] by (auto simp: place_defs)
next
  case (call_wait t)
  then show ?thesis using effect_goto [of CwLock s t d] by (auto simp: place_defs)
next
  case (call_signal t w)
  then show ?thesis using effect_goto [of "CsLock w" s t d] by (cases w) (auto simp: place_defs cond_return_def)
next
  case (call_broadcast t w)
  then show ?thesis using effect_goto [of "CbLock w" s t d] by (cases w) (auto simp: place_defs cond_return_def)
next
  case (spurious k)
  then have "wq_step d (cond_wq s) (cond_wq s')" using wq_step.spurious [of d "cond_wq s" k] by (simp add: cond_wq_def cond_phase_wake)
  then show ?thesis using spurious by (auto simp: cond_effect_def lock_change_same holding_wake)
next
  case (wait mem a t)
  then have "cond_wait_u d True a t s = Some s'" by simp
  then show ?thesis using wait_effect by blast
next
  case (signal junk t)
  then show ?thesis using signal_effect by blast
next
  case (broadcast junk t)
  then show ?thesis using broadcast_effect by blast
qed (use world_effect in blast)

lemma ucond_effectD:
  assumes "ucond_step d False s s'"
  shows "wq_step d (cond_wq s) (cond_wq s') \<or> cond_wq s' = cond_wq s"
    and "\<exists>t. lock_change t (cs_world s) (world_holds s) (cs_world s') (world_holds s')"
    and "\<exists>t. lock_change t (cv_m (cs_cv s)) (cv_holds s) (cv_m (cs_cv s')) (cv_holds s')"
  using ucond_effect [OF assms] unfolding cond_effect_def world_holds_def cv_holds_def by blast+

interpretation ucond: wait_system "ucond_step d False" cond_wq d for d
  by unfold_locales (rule ucond_effectD(1))

interpretation ucond_world: spin_lock "ucond_step d False" cs_world world_holds for d
  by unfold_locales (rule ucond_effectD(2))

interpretation ucond_cv: spin_lock "ucond_step d False" "\<lambda>s. cv_m (cs_cv s)" cv_holds for d
  by unfold_locales (rule ucond_effectD(3))

subsection \<open>A broadcast wakes everybody\<close>

text \<open>
  Between the end of the loop of \<open>cond_broadcast\<close> and its \<open>mutex_unlock\<close> the queue is empty: only the thread that holds
  the mutex of the condition variable changes it.
\<close>

definition drained :: "ucond_sys \<Rightarrow> bool" where
  "drained s \<longleftrightarrow> (\<forall>t w. cs_pc s t = CbUnlock w \<longrightarrow> cv_q (cs_cv s) = [])"

lemma drainedI:
  assumes "ucond_cv.exclusive s" "drained s"
    and "cs_pc s' = (cs_pc s)(t := pc)" "cv_holds s t \<or> cv_q (cs_cv s') = cv_q (cs_cv s)"
    and "\<And>w. pc = CbUnlock w \<Longrightarrow> cv_q (cs_cv s') = []"
  shows "drained s'"
  unfolding drained_def
proof (intro allI impI)
  fix u w assume u: "cs_pc s' u = CbUnlock w"
  show "cv_q (cs_cv s') = []"
  proof (cases "u = t")
    case True
    then show ?thesis using u assms(3,5) by simp
  next
    case False
    then have old: "cs_pc s u = CbUnlock w" using u assms(3) by simp
    then have "cv_holds s u" by (simp add: cv_holds_def cv_holding_def)
    then have "\<not> cv_holds s t" using assms(1) False by (auto simp: ucond_cv.exclusive_def)
    then show ?thesis using assms(2,4) old by (auto simp: drained_def)
  qed
qed

lemma drained_wake: "drained s \<Longrightarrow> drained (s\<lparr>cs_pc := cwake_pc k (cs_pc s)\<rparr>)"
  unfolding drained_def by (auto simp: cwake_pc_def split: cond_pc.splits if_splits)

text \<open>Where a step leads, and who may change the queue.\<close>

definition moves :: "int \<Rightarrow> ucond_sys \<Rightarrow> ucond_sys \<Rightarrow> bool" where
  "moves t s s' \<longleftrightarrow> cs_pc s' = (cs_pc s)(t := cs_pc s' t) \<and> (cv_holds s t \<or> cv_q (cs_cv s') = cv_q (cs_cv s)) \<and>
     (\<forall>w. cs_pc s' t = CbUnlock w \<longrightarrow> cv_q (cs_cv s') = [])"

lemma world_moves: "world_u t s = Some s' \<Longrightarrow> moves t s s'"
  by (cases "cs_pc s t") (auto simp: world_u_def moves_def split: prod.splits if_splits)

lemma movesI:
  assumes "s' = cgoto t pc x" "cs_pc x = cs_pc s" "cv_holds s t \<or> cv_q (cs_cv x) = cv_q (cs_cv s)" "\<And>w. pc \<noteq> CbUnlock w"
  shows "moves t s s'"
  using assms by (simp add: moves_def)

lemma wait_moves:
  assumes "cond_wait_u d mem a t s = Some s'"
  shows "moves t s s'"
proof (cases "cs_pc s t")
  case CwLock
  obtain old m where x: "xchng_u (cv_m (cs_cv s)) 0 = (old, m)" by fastforce
  show ?thesis by (rule movesI [where pc = "if old \<noteq> 0 then CwStore else CwLock" and x = "set_cvm m s"])
      (use assms CwLock x in \<open>simp_all add: cond_wait_u_def Let_def\<close>)
next
  case CwEnq
  then have "cv_holds s t" by (simp add: cv_holds_def cv_holding_def)
  moreover obtain x where "s' = cgoto t (CwLeave a) x" "cs_pc x = cs_pc s"
    using assms CwEnq by (auto simp: cond_wait_u_def Let_def bind_eq_Some_conv split: if_splits)
  ultimately show ?thesis by (intro movesI [of s' t "CwLeave a" x s]) simp_all
next
  case (CwTest b)
  then obtain pc where "s' = cgoto t pc s" "\<And>w. pc \<noteq> CbUnlock w"
    using assms by (auto simp: cond_wait_u_def Let_def bind_eq_Some_conv)
  then show ?thesis by (intro movesI [of s' t pc s s]) simp_all
next
  case (CwDesched b)
  then obtain pc fr where "s' = cgoto t pc (s\<lparr>cs_frames := fr\<rparr>)" "\<And>w. pc \<noteq> CbUnlock w"
    using assms by (cases "cs_frames s b"; cases "d (f_reject (the (cs_frames s b)))") (auto simp: cond_wait_u_def)
  then show ?thesis by (intro movesI [of s' t pc "s\<lparr>cs_frames := fr\<rparr>" s]) simp_all
next
  case (CwRelock b)
  obtain old m where x: "xchng_u (cs_world s) 0 = (old, m)" by fastforce
  show ?thesis by (rule movesI [where pc = "if old \<noteq> 0 then CwRestore b else CwRelock b" and x = "s\<lparr>cs_world := m\<rparr>"])
      (use assms CwRelock x in \<open>simp_all add: cond_wait_u_def Let_def\<close>)
qed (use assms in \<open>auto simp: cond_wait_u_def Let_def intro: movesI\<close>)

lemma signal_moves: "cond_signal_u junk t s = Some s' \<Longrightarrow> (\<And>w a. cs_pc s t \<noteq> CsWake w a) \<Longrightarrow> moves t s s'"
  by (cases "cs_pc s t")
    (auto simp: cond_signal_u_def moves_def Let_def bind_eq_Some_conv cv_holds_def cv_holding_def cond_return_def
      split: prod.splits if_splits list.splits)

lemma broadcast_moves: "cond_broadcast_u junk t s = Some s' \<Longrightarrow> (\<And>w a. cs_pc s t \<noteq> CbWake w a) \<Longrightarrow> moves t s s'"
  by (cases "cs_pc s t")
    (auto simp: cond_broadcast_u_def moves_def Let_def bind_eq_Some_conv cv_holds_def cv_holding_def cond_return_def
      split: prod.splits if_splits list.splits)

lemma drained_moves: "moves t s s' \<Longrightarrow> ucond_cv.exclusive s \<Longrightarrow> drained s \<Longrightarrow> drained s'"
  unfolding moves_def by (rule drainedI [where pc = "cs_pc s' t"]) auto

text \<open>Waking a thread and going on: the waking thread held the mutex already.\<close>

lemma drained_wakes:
  assumes "drained s" "s' = cgoto t pc (s\<lparr>cs_pc := cwake_pc k (cs_pc s)\<rparr>)" "\<And>w. pc \<noteq> CbUnlock w"
  shows "drained s'"
  using drained_wake [OF assms(1), of k] assms(2,3) by (auto simp: drained_def)

lemma drained_step:
  assumes "ucond_step d False s s'" "drained s \<and> ucond_cv.exclusive s"
  shows "drained s' \<and> ucond_cv.exclusive s'"
proof
  show "ucond_cv.exclusive s'" using ucond_cv.exclusive_step [OF assms(1)] assms(2) by blast
  show "drained s'" using assms(1)
  proof cases
    case (signal junk t)
    show ?thesis
    proof (cases "\<exists>w a. cs_pc s t = CsWake w a")
      case True
      then show ?thesis using signal assms(2) by (auto simp: cond_signal_u_def Let_def intro: drained_wakes)
    next
      case False
      then show ?thesis using signal_moves [OF signal] drained_moves assms(2) by blast
    qed
  next
    case (broadcast junk t)
    show ?thesis
    proof (cases "\<exists>w a. cs_pc s t = CbWake w a")
      case True
      then show ?thesis using broadcast assms(2) by (auto simp: cond_broadcast_u_def Let_def intro: drained_wakes)
    next
      case False
      then show ?thesis using broadcast_moves [OF broadcast] drained_moves assms(2) by blast
    qed
  next
    case (world t)
    then show ?thesis using world_moves drained_moves assms(2) by blast
  next
    case (wait mem a t)
    then show ?thesis using wait_moves drained_moves assms(2) by blast
  next
    case (spurious k)
    then show ?thesis using drained_wake assms(2) by blast
  qed (use assms(2) in \<open>auto simp: drained_def cgoto_def split: if_splits\<close>)
qed

interpretation ucond_drained: step_invariant "ucond_step d False" "\<lambda>s. drained s \<and> ucond_cv.exclusive s" for d
  by unfold_locales (rule drained_step)

lemma ucond_start_ok:
  "drained ucond_start" "ucond_cv.exclusive ucond_start" "ucond_world.exclusive ucond_start" "wq_inv (cond_wq ucond_start)"
  by (simp_all add: drained_def ucond_cv.exclusive_def ucond_world.exclusive_def ucond_start_def cv_holds_def world_holds_def
      place_defs cond_wq_def wq_inv_def frames_ok_def inside_def pending_def)

subsection \<open>Schedules\<close>

datatype cond_event = Enter int | Hold_wait int | Call_signal int | Call_broadcast int | Proceed int ptr

fun cond_event_step :: "flag_call \<Rightarrow> cond_event \<Rightarrow> ucond_sys \<Rightarrow> ucond_sys option" where
  "cond_event_step d (Enter t) s = (if cs_pc s t = COut then Some (cgoto t CEnter s) else None)"
| "cond_event_step d (Hold_wait t) s = (if cs_pc s t = CHold then Some (cgoto t CwLock s) else None)"
| "cond_event_step d (Call_signal t) s = (if cs_pc s t = COut then Some (cgoto t (CsLock False) s) else None)"
| "cond_event_step d (Call_broadcast t) s = (if cs_pc s t = COut then Some (cgoto t (CbLock False) s) else None)"
| "cond_event_step d (Proceed t a) s = (case world_u t s of Some s' \<Rightarrow> Some s' | None \<Rightarrow>
     (case cond_wait_u d True a t s of Some s' \<Rightarrow> Some s' | None \<Rightarrow>
      (case cond_signal_u 0 t s of Some s' \<Rightarrow> Some s' | None \<Rightarrow> cond_broadcast_u 0 t s)))"

primrec cond_schedule :: "flag_call \<Rightarrow> cond_event list \<Rightarrow> ucond_sys \<Rightarrow> ucond_sys option" where
  "cond_schedule d [] s = Some s"
| "cond_schedule d (e # es) s = do { s \<leftarrow> cond_event_step d e s; cond_schedule d es s }"

lemma cond_event_step_sound: "cond_event_step d e s = Some s' \<Longrightarrow> ucond_step d False s s'"
proof (cases e)
  case (Proceed t a)
  moreover assume "cond_event_step d e s = Some s'"
  ultimately show ?thesis
    by (auto split: option.splits intro: ucond_step.intros ucond_step.wait [where mem = True])
next
  case (Call_signal t)
  moreover assume "cond_event_step d e s = Some s'"
  ultimately show ?thesis using ucond_step.call_signal [of s t False d False] by (auto simp: cond_return_def split: if_splits)
next
  case (Call_broadcast t)
  moreover assume "cond_event_step d e s = Some s'"
  ultimately show ?thesis using ucond_step.call_broadcast [of s t False d False] by (auto simp: cond_return_def split: if_splits)
qed (auto split: if_splits intro: ucond_step.intros)

lemma cond_schedule_sound: "cond_schedule d es s = Some s' \<Longrightarrow> (ucond_step d False)\<^sup>*\<^sup>* s s'"
proof (induction es arbitrary: s)
  case (Cons e es)
  then obtain s1 where s1: "cond_event_step d e s = Some s1" "cond_schedule d es s1 = Some s'"
    by (auto simp: bind_eq_Some_conv)
  show ?case by (rule converse_rtranclp_into_rtranclp [OF cond_event_step_sound [OF s1(1)] Cons.IH [OF s1(2)]])
qed simp

subsection \<open>Properties\<close>



end
