(* ===== verification/UserRwlock.thy ===== *)
theory UserRwlock
  imports WaitQueue
begin

text \<open>
  \<open>user/libthread/rwlock.c\<close>: readers/writers locks of the thread library. The sections that the mutex of the lock protects are single
  steps, and the condition variable is the sequence of the threads that wait on it; \<open>WaitQueue\<close> and \<open>UserCond\<close> show what
  justifies both. A thread that waits is cut out of the function where \<open>cond_wait\<close> gives up the mutex, and goes on with
  \<open>rwlock_resume_u\<close> once it has been woken.
\<close>

subsection \<open>The functions\<close>

datatype rw_type = READ | WRITE

record urwlock =
  ru_m :: umutex
  ru_cv :: "int list"
  ru_count :: int
  ru_writer_locked :: bool

definition rwlock_init_u :: "urwlock option \<Rightarrow> int \<times> urwlock option" where
  "rwlock_init_u rwlock = (case rwlock of
     None \<Rightarrow> (-1, None)
   | Some l \<Rightarrow> (case mutex_init_u (Some (ru_m l)) of
       (r, Some m) \<Rightarrow> if r < 0 then (-1, Some l)
         else (0, Some (l\<lparr>ru_m := m, ru_cv := [], ru_count := 0, ru_writer_locked := False\<rparr>))
     | (_, None) \<Rightarrow> (-1, Some l)))"

text \<open>
  The test of the loop, with the mutex held: the thread enters (\<open>True\<close>), or queues itself and gives up the mutex inside \<open>cond_wait\<close>.
\<close>

definition rwlock_pass :: "int \<Rightarrow> rw_type \<Rightarrow> urwlock \<Rightarrow> bool \<times> urwlock" where
  "rwlock_pass tid type l = (let (entered, l) = (case type of
      READ \<Rightarrow>
        if ru_writer_locked l then (False, l\<lparr>ru_cv := ru_cv l @ [tid]\<rparr>)
        else (True, l\<lparr>ru_count := ru_count l + 1\<rparr>)
    | WRITE \<Rightarrow>
        if ru_writer_locked l \<or> ru_count l > 0 then (False, l\<lparr>ru_cv := ru_cv l @ [tid]\<rparr>)
        else (True, l\<lparr>ru_writer_locked := True\<rparr>))
    in (entered, l\<lparr>ru_m := mutex_unlock_u (ru_m l)\<rparr>))"

definition rwlock_lock_u :: "int \<Rightarrow> urwlock option \<Rightarrow> rw_type \<Rightarrow> (bool \<times> urwlock option) option" where
  "rwlock_lock_u tid rwlock type = (case rwlock of
     None \<Rightarrow> Some (True, None)
   | Some l \<Rightarrow> do {
       m \<leftarrow> mutex_lock_u (ru_m l);
       let l = l\<lparr>ru_m := m\<rparr>;
       c_assert (\<not> ru_count l < 0);
       let (entered, l) = rwlock_pass tid type l;
       Some (entered, Some l)
     })"

definition rwlock_resume_u :: "int \<Rightarrow> rw_type \<Rightarrow> urwlock \<Rightarrow> (bool \<times> urwlock) option" where
  "rwlock_resume_u tid type l = do {
     m \<leftarrow> mutex_lock_u (ru_m l);
     Some (rwlock_pass tid type (l\<lparr>ru_m := m\<rparr>))
   }"

text \<open>The answer lists the threads that the call wakes.\<close>

definition rwlock_unlock_u :: "urwlock option \<Rightarrow> (int list \<times> urwlock option) option" where
  "rwlock_unlock_u rwlock = (case rwlock of
     None \<Rightarrow> Some ([], None)
   | Some l \<Rightarrow> do {
       m \<leftarrow> mutex_lock_u (ru_m l);
       let l = l\<lparr>ru_m := m\<rparr>;
       c_assert (\<not> (ru_count l \<le> 0 \<and> \<not> ru_writer_locked l));
       let (woken, l) =
         (if ru_writer_locked l then (ru_cv l, l\<lparr>ru_writer_locked := False, ru_cv := []\<rparr>)
          else let l = l\<lparr>ru_count := ru_count l - 1\<rparr> in
               if ru_count l = 0 then (take 1 (ru_cv l), l\<lparr>ru_cv := drop 1 (ru_cv l)\<rparr>) else ([], l));
       Some (woken, Some (l\<lparr>ru_m := mutex_unlock_u (ru_m l)\<rparr>))
     })"

definition rwlock_destroy_u :: "urwlock option \<Rightarrow> urwlock option option" where
  "rwlock_destroy_u rwlock = (case rwlock of
     None \<Rightarrow> Some None
   | Some l \<Rightarrow> do {
       m \<leftarrow> mutex_lock_u (ru_m l);
       let l = l\<lparr>ru_count := -1, ru_cv := []\<rparr>;
       Some (Some (l\<lparr>ru_m := mutex_destroy_u (mutex_unlock_u m)\<rparr>))
     })"

definition rwlock_downgrade_u :: "urwlock option \<Rightarrow> (int list \<times> urwlock option) option" where
  "rwlock_downgrade_u rwlock = (case rwlock of
     None \<Rightarrow> Some ([], None)
   | Some l \<Rightarrow> do {
       m \<leftarrow> mutex_lock_u (ru_m l);
       let l = l\<lparr>ru_m := m\<rparr>;
       c_assert (ru_writer_locked l);
       let woken = ru_cv l;
       let l = l\<lparr>ru_writer_locked := False, ru_count := ru_count l + 1, ru_cv := []\<rparr>;
       Some (woken, Some (l\<lparr>ru_m := mutex_unlock_u (ru_m l)\<rparr>))
     })"

abbreviation free_umutex :: umutex where
  "free_umutex \<equiv> \<lparr>um_lock = 1\<rparr>"

lemma umutex_free [simp]:
  "mutex_lock_u free_umutex = Some \<lparr>um_lock = 0\<rparr>" "mutex_unlock_u m = free_umutex"
  by (simp_all add: mutex_lock_u_def mutex_unlock_u_def xchng_u_def)

subsection \<open>Threads around one lock\<close>

datatype rw_state = Free | Sleeps rw_type | Woken rw_type | Reads | Writes

record urw_sys =
  rs_l :: urwlock
  rs_st :: "int \<Rightarrow> rw_state"

definition entered :: "rw_type \<Rightarrow> rw_state" where
  "entered type = (case type of READ \<Rightarrow> Reads | WRITE \<Rightarrow> Writes)"

definition after_pass :: "bool \<Rightarrow> rw_type \<Rightarrow> rw_state" where
  "after_pass e type = (if e then entered type else Sleeps type)"

definition wake_all :: "int list \<Rightarrow> (int \<Rightarrow> rw_state) \<Rightarrow> int \<Rightarrow> rw_state" where
  "wake_all ts st t = (if t \<in> set ts then (case st t of Sleeps type \<Rightarrow> Woken type | x \<Rightarrow> x) else st t)"

text \<open>A thread unlocks or downgrades only what it holds, and does not lock what it holds already.\<close>

inductive urw_step :: "urw_sys \<Rightarrow> urw_sys \<Rightarrow> bool" where
  lock: "rs_st s t = Free \<Longrightarrow> rwlock_lock_u t (Some (rs_l s)) type = Some (e, Some l) \<Longrightarrow>
    urw_step s \<lparr>rs_l = l, rs_st = (rs_st s)(t := after_pass e type)\<rparr>"
| resume: "rs_st s t = Woken type \<Longrightarrow> rwlock_resume_u t type (rs_l s) = Some (e, l) \<Longrightarrow>
    urw_step s \<lparr>rs_l = l, rs_st = (rs_st s)(t := after_pass e type)\<rparr>"
| unlock: "rs_st s t \<in> {Reads, Writes} \<Longrightarrow> rwlock_unlock_u (Some (rs_l s)) = Some (ws, Some l) \<Longrightarrow>
    urw_step s \<lparr>rs_l = l, rs_st = wake_all ws ((rs_st s)(t := Free))\<rparr>"
| downgrade: "rs_st s t = Writes \<Longrightarrow> rwlock_downgrade_u (Some (rs_l s)) = Some (ws, Some l) \<Longrightarrow>
    urw_step s \<lparr>rs_l = l, rs_st = wake_all ws ((rs_st s)(t := Reads))\<rparr>"

definition urw_start :: urw_sys where
  "urw_start = \<lparr>rs_l = \<lparr>ru_m = free_umutex, ru_cv = [], ru_count = 0, ru_writer_locked = False\<rparr>, rs_st = (\<lambda>_. Free)\<rparr>"

lemma rwlock_init_u_start: "rwlock_init_u (Some l) = (0, Some (rs_l urw_start))"
  by (simp add: rwlock_init_u_def mutex_init_u_def urw_start_def)

definition reading :: "urw_sys \<Rightarrow> int set" where
  "reading s = {t. rs_st s t = Reads}"

definition held_ok :: "urw_sys \<Rightarrow> bool" where
  "held_ok s \<longleftrightarrow> ru_m (rs_l s) = free_umutex \<and> finite (reading s) \<and> ru_count (rs_l s) = int (card (reading s)) \<and>
     (\<forall>t. rs_st s t = Writes \<longrightarrow> ru_writer_locked (rs_l s)) \<and>
     (ru_writer_locked (rs_l s) \<longrightarrow> reading s = {} \<and> (\<exists>t. rs_st s t = Writes \<and> (\<forall>u. rs_st s u = Writes \<longrightarrow> u = t)))"

text \<open>Who waits: exactly the queued threads, readers only for a writer; and nobody waits for a lock that nobody holds or is about to take.\<close>

definition queue_ok :: "urw_sys \<Rightarrow> bool" where
  "queue_ok s \<longleftrightarrow> (\<forall>t. t \<in> set (ru_cv (rs_l s)) \<longleftrightarrow> (\<exists>type. rs_st s t = Sleeps type)) \<and>
     (\<forall>t. rs_st s t = Sleeps READ \<longrightarrow> ru_writer_locked (rs_l s)) \<and>
     (ru_cv (rs_l s) \<noteq> [] \<longrightarrow> ru_writer_locked (rs_l s) \<or> ru_count (rs_l s) > 0 \<or> (\<exists>t type. rs_st s t = Woken type)) \<and>
     distinct (ru_cv (rs_l s))"

subsection \<open>The invariant\<close>

lemma rwlock_pass_cases:
  assumes "rwlock_pass t type l = (e, l')"
  shows "ru_m l' = free_umutex \<and>
    (e \<longleftrightarrow> \<not> ru_writer_locked l \<and> (type = WRITE \<longrightarrow> \<not> ru_count l > 0)) \<and>
    ru_cv l' = (if e then ru_cv l else ru_cv l @ [t]) \<and>
    ru_count l' = (if e \<and> type = READ then ru_count l + 1 else ru_count l) \<and>
    ru_writer_locked l' = (if e \<and> type = WRITE then True else ru_writer_locked l)"
  using assms by (cases type) (auto simp: rwlock_pass_def split: if_splits)

lemma wake_all_simps [simp]:
  "wake_all ts st t = Reads \<longleftrightarrow> st t = Reads" "wake_all ts st t = Writes \<longleftrightarrow> st t = Writes" "wake_all ts st t = Free \<longleftrightarrow> st t = Free"
  "wake_all ts st t = Sleeps type \<longleftrightarrow> st t = Sleeps type \<and> t \<notin> set ts"
  "wake_all ts st t = Woken type \<longleftrightarrow> st t = Woken type \<or> st t = Sleeps type \<and> t \<in> set ts"
  by (auto simp: wake_all_def split: rw_state.splits)

lemma after_pass_simps [simp]:
  "after_pass e type = Reads \<longleftrightarrow> e \<and> type = READ" "after_pass e type = Writes \<longleftrightarrow> e \<and> type = WRITE"
  "after_pass e type = Sleeps type' \<longleftrightarrow> \<not> e \<and> type' = type" "after_pass e type \<noteq> Woken type'" "after_pass e type \<noteq> Free"
  by (cases type; auto simp: after_pass_def entered_def)+

lemma held_okD:
  assumes "held_ok s"
  shows "ru_m (rs_l s) = free_umutex" "finite (reading s)" "ru_count (rs_l s) = int (card (reading s))"
    "rs_st s t = Writes \<Longrightarrow> ru_writer_locked (rs_l s)" "ru_writer_locked (rs_l s) \<Longrightarrow> reading s = {}"
    "rs_st s t = Writes \<Longrightarrow> rs_st s u = Writes \<Longrightarrow> u = t"
  using assms unfolding held_ok_def by (blast, blast, blast, blast, blast, metis)

lemma held_okI:
  assumes "ru_m (rs_l s) = free_umutex" "finite (reading s)" "ru_count (rs_l s) = int (card (reading s))"
    and "ru_writer_locked (rs_l s) = (\<exists>t. rs_st s t = Writes)" "ru_writer_locked (rs_l s) \<Longrightarrow> reading s = {}"
    and "\<And>t u. rs_st s t = Writes \<Longrightarrow> rs_st s u = Writes \<Longrightarrow> u = t"
  shows "held_ok s"
  using assms unfolding held_ok_def by metis

lemma held_writer: "held_ok s \<Longrightarrow> ru_writer_locked (rs_l s) \<longleftrightarrow> (\<exists>t. rs_st s t = Writes)"
  unfolding held_ok_def by blast

lemma queue_okD:
  assumes "queue_ok s"
  shows "t \<in> set (ru_cv (rs_l s)) \<longleftrightarrow> (\<exists>type. rs_st s t = Sleeps type)"
    "rs_st s t = Sleeps READ \<Longrightarrow> ru_writer_locked (rs_l s)" "distinct (ru_cv (rs_l s))"
    "ru_cv (rs_l s) \<noteq> [] \<Longrightarrow> ru_writer_locked (rs_l s) \<or> ru_count (rs_l s) > 0 \<or> (\<exists>t type. rs_st s t = Woken type)"
  using assms unfolding queue_ok_def by blast+

lemma queue_okI:
  assumes "\<And>t. t \<in> set (ru_cv (rs_l s)) \<longleftrightarrow> (\<exists>type. rs_st s t = Sleeps type)"
    "\<And>t. rs_st s t = Sleeps READ \<Longrightarrow> ru_writer_locked (rs_l s)" "distinct (ru_cv (rs_l s))"
    "ru_cv (rs_l s) \<noteq> [] \<Longrightarrow> ru_writer_locked (rs_l s) \<or> ru_count (rs_l s) > 0 \<or> (\<exists>t type. rs_st s t = Woken type)"
  shows "queue_ok s"
  using assms unfolding queue_ok_def by blast

text \<open>A thread that does not hold the lock passes the test of the loop, or goes to sleep.\<close>

lemma pass_ok:
  assumes "held_ok s" "queue_ok s" "rwlock_pass t type (rs_l s\<lparr>ru_m := m\<rparr>) = (e, l)"
    and t: "rs_st s t = Free \<or> rs_st s t = Woken type"
  shows "held_ok \<lparr>rs_l = l, rs_st = (rs_st s)(t := after_pass e type)\<rparr> \<and>
    queue_ok \<lparr>rs_l = l, rs_st = (rs_st s)(t := after_pass e type)\<rparr>"
proof
  let ?s = "\<lparr>rs_l = l, rs_st = (rs_st s)(t := after_pass e type)\<rparr>"
  note l = rwlock_pass_cases [OF assms(3)]
  note h = held_okD [OF assms(1)]
  have reading: "reading ?s = (if e \<and> type = READ then insert t (reading s) else reading s)" "t \<notin> reading s"
    using t by (auto simp: reading_def)
  have free: "reading s = {}" if "e" "type = WRITE" using that l h(2,3) by auto
  have writes: "(\<exists>u. rs_st ?s u = Writes) \<longleftrightarrow> e \<and> type = WRITE \<or> (\<exists>u. rs_st s u = Writes)"
    using t ex_phase_upd [of "rs_st s" t Writes "after_pass e type"] by (auto simp del: fun_upd_apply)
  have only: "u = v" if "rs_st ?s u = Writes" "rs_st ?s v = Writes" for u v
    using that h(4,6) l by (auto split: if_splits)
  show "held_ok ?s"
  proof (rule held_okI)
    show "ru_count (rs_l ?s) = int (card (reading ?s))" using l h(2,3) reading by auto
    show "ru_writer_locked (rs_l ?s) = (\<exists>t. rs_st ?s t = Writes)" unfolding writes using l held_writer [OF assms(1)] by auto
    show "reading ?s = {}" if "ru_writer_locked (rs_l ?s)" using that l reading free h(5) by (cases type) (auto split: if_splits)
    show "u = v" if "rs_st ?s v = Writes" "rs_st ?s u = Writes" for u v using only that by blast
  qed (use l h(2) reading in simp_all)
  note q = queue_okD [OF assms(2)]
  have sleepers: "(\<exists>type'. rs_st ?s u = Sleeps type') \<longleftrightarrow> (\<exists>type'. rs_st s u = Sleeps type') \<or> \<not> e \<and> u = t" for u
    using t by auto
  have "t \<notin> set (ru_cv (rs_l s))" using q(1) t by auto
  show "queue_ok ?s"
  proof (rule queue_okI)
    show "u \<in> set (ru_cv (rs_l ?s)) \<longleftrightarrow> (\<exists>type. rs_st ?s u = Sleeps type)" for u
      unfolding sleepers using q(1) [of u] l by auto
    show "ru_writer_locked (rs_l ?s)" if "rs_st ?s u = Sleeps READ" for u
      using that l q(2) by (cases "u = t") auto
    show "distinct (ru_cv (rs_l ?s))" using l q(3) \<open>t \<notin> set (ru_cv (rs_l s))\<close> by simp
    show "ru_writer_locked (rs_l ?s) \<or> ru_count (rs_l ?s) > 0 \<or> (\<exists>t type. rs_st ?s t = Woken type)"
      using l h(3) by (cases type; cases e) auto
  qed
qed

lemma unlock_ok:
  assumes "held_ok s" "queue_ok s" "rwlock_unlock_u (Some (rs_l s)) = Some (ws, Some l)" "rs_st s t \<in> {Reads, Writes}"
  shows "held_ok \<lparr>rs_l = l, rs_st = wake_all ws ((rs_st s)(t := Free))\<rparr> \<and>
    queue_ok \<lparr>rs_l = l, rs_st = wake_all ws ((rs_st s)(t := Free))\<rparr>"
proof -
  let ?s = "\<lparr>rs_l = l, rs_st = wake_all ws ((rs_st s)(t := Free))\<rparr>"
  note h = held_okD [OF assms(1)]
  have reading: "reading ?s = reading s - {t}" by (auto simp: reading_def)
  have wt: "rs_st s u = Writes \<Longrightarrow> rs_st s t = Writes \<Longrightarrow> u = t" for u using h(6) by blast
  show ?thesis
  proof (cases "ru_writer_locked (rs_l s)")
    case True
    then have "rs_st s t = Writes" using assms(4) h(5) by (auto simp: reading_def)
    moreover have "ws = ru_cv (rs_l s)" "ru_m l = free_umutex" "ru_cv l = []" "ru_count l = ru_count (rs_l s)" "\<not> ru_writer_locked l"
      using assms(3) True h(1) by (auto simp: rwlock_unlock_u_def Let_def bind_eq_Some_conv)
    moreover have "rs_st ?s u \<noteq> Writes" for u using wt [of u] \<open>rs_st s t = Writes\<close> by auto
    moreover have "queue_ok ?s" using calculation assms(2) by (auto simp: queue_ok_def)
    ultimately show ?thesis using h(3) h(5) [OF True] reading by (intro conjI held_okI) simp_all
  next
    case False
    then have rt: "t \<in> reading s" "rs_st s u \<noteq> Writes" for u using assms(4) h(4) by (auto simp: reading_def)
    then have "card (reading s) > 0" using h(2) by (auto simp: card_gt_0_iff)
    then have card: "int (card (reading s - {t})) = ru_count (rs_l s) - 1" "ru_count (rs_l s) > 0"
      using h(2,3) rt(1) by (simp_all add: card_Diff_singleton)
    have l: "ru_m l = free_umutex" "ru_count l = ru_count (rs_l s) - 1" "\<not> ru_writer_locked l"
      "if ru_count l = 0 then ws = take 1 (ru_cv (rs_l s)) \<and> ru_cv l = drop 1 (ru_cv (rs_l s)) else ws = [] \<and> ru_cv l = ru_cv (rs_l s)"
      using assms(3) False card(2) h(1) by (auto simp: rwlock_unlock_u_def Let_def bind_eq_Some_conv split: if_splits)
    have "rs_st ?s u \<noteq> Writes" for u using rt(2) [of u] by auto
    then have "held_ok ?s" by (intro held_okI) (use l card h(2) reading in simp_all)
    moreover have "queue_ok ?s"
    proof (cases "ru_cv (rs_l s)")
      case Nil
      then show ?thesis using l rt assms(2) by (auto simp: queue_ok_def reading_def split: if_splits)
    next
      case (Cons w q)
      have "\<exists>type. rs_st s w = Sleeps type" using queue_okD(1) [OF assms(2), of w] Cons by simp
      then have w: "\<exists>type. rs_st s w = Sleeps type" "w \<noteq> t" "distinct (w # q)"
        using queue_okD(3) [OF assms(2)] Cons rt(1) by (auto simp: reading_def)
      then have woken: "\<exists>type. rs_st ?s w = Woken type" if "ru_count l = 0" using that l(4) Cons by auto
      note q = queue_okD [OF assms(2)]
      have "t \<notin> set (ru_cv (rs_l s))" using q(1) [of t] rt(1) by (auto simp: reading_def)
      show ?thesis
      proof (rule queue_okI)
        show "u \<in> set (ru_cv (rs_l ?s)) \<longleftrightarrow> (\<exists>type. rs_st ?s u = Sleeps type)" for u
          using q(1) [of u] l(4) Cons w(3) \<open>t \<notin> set (ru_cv (rs_l s))\<close> by (cases "ru_count l = 0"; cases "u = t") auto
        show "ru_writer_locked (rs_l ?s)" if "rs_st ?s u = Sleeps READ" for u
          using that q(2) [of u] False by (auto split: if_splits)
        show "distinct (ru_cv (rs_l ?s))" using l(4) Cons w(3) q(3) by (auto split: if_splits)
        show "ru_writer_locked (rs_l ?s) \<or> ru_count (rs_l ?s) > 0 \<or> (\<exists>t type. rs_st ?s t = Woken type)"
        proof (cases "ru_count l = 0")
          case True
          then show ?thesis using woken by blast
        qed (use l(2) card(2) in simp)
      qed
    qed
    ultimately show ?thesis ..
  qed
qed

lemma downgrade_ok:
  assumes "held_ok s" "queue_ok s" "rwlock_downgrade_u (Some (rs_l s)) = Some (ws, Some l)" "rs_st s t = Writes"
  shows "held_ok \<lparr>rs_l = l, rs_st = wake_all ws ((rs_st s)(t := Reads))\<rparr> \<and>
    queue_ok \<lparr>rs_l = l, rs_st = wake_all ws ((rs_st s)(t := Reads))\<rparr>"
proof -
  let ?s = "\<lparr>rs_l = l, rs_st = wake_all ws ((rs_st s)(t := Reads))\<rparr>"
  note h = held_okD [OF assms(1)]
  have empty: "reading s = {}" using h(4,5) assms(4) by blast
  then have reading: "reading ?s = {t}" by (auto simp: reading_def)
  have "ws = ru_cv (rs_l s)" "ru_m l = free_umutex" "ru_cv l = []" "ru_count l = ru_count (rs_l s) + 1" "\<not> ru_writer_locked l"
    using assms(3) h(1) by (auto simp: rwlock_downgrade_u_def Let_def bind_eq_Some_conv)
  moreover have "rs_st ?s u \<noteq> Writes" for u using h(6) [OF assms(4), of u] by auto
  moreover have "queue_ok ?s" using calculation assms(2,4) by (auto simp: queue_ok_def)
  ultimately show ?thesis using h(3) empty reading by (intro conjI held_okI) simp_all
qed

lemma urw_inv_step:
  assumes "urw_step s s'" "held_ok s \<and> queue_ok s"
  shows "held_ok s' \<and> queue_ok s'"
  using assms(1)
proof cases
  case (lock t type e l)
  then have "rwlock_pass t type (rs_l s\<lparr>ru_m := \<lparr>um_lock = 0\<rparr>\<rparr>) = (e, l)"
    using held_okD(1) assms(2) by (auto simp: rwlock_lock_u_def Let_def bind_eq_Some_conv split: prod.splits)
  then show ?thesis using pass_ok [of s t type] lock assms(2) by blast
next
  case (resume t type e l)
  then have "rwlock_pass t type (rs_l s\<lparr>ru_m := \<lparr>um_lock = 0\<rparr>\<rparr>) = (e, l)"
    using held_okD(1) assms(2) by (auto simp: rwlock_resume_u_def)
  then show ?thesis using pass_ok [of s t type] resume assms(2) by blast
next
  case (unlock t ws l)
  then show ?thesis using unlock_ok assms(2) by blast
next
  case (downgrade t ws l)
  then show ?thesis using downgrade_ok assms(2) by blast
qed

interpretation urw: step_invariant urw_step "\<lambda>s. held_ok s \<and> queue_ok s"
  by unfold_locales (rule urw_inv_step)

lemma urw_start_ok: "held_ok urw_start \<and> queue_ok urw_start"
  by (simp add: held_ok_def queue_ok_def urw_start_def reading_def)

subsection \<open>Properties\<close>



end
