(* ===== verification/UserThread.thy ===== *)
theory UserThread
  imports WaitQueue
begin

text \<open>
  \<open>user/libthread/thread.c\<close>: creation, exit and joining of threads. The pool is the sequence of the \<open>thread_t\<close> structs that it
  stores (\<open>UserList\<close>); the sections that \<open>thread_pool_lock\<close> or the mutex of a thread protect are single steps (\<open>UserRwlock\<close>,
  \<open>WaitQueue\<close>). Each function is the composition of its sections, for one call at a time; the step relation at the end of the
  model interleaves the sections of concurrent calls of \<open>thr_create\<close>.

  What the kernel and \<open>malloc\<close> answer (\<open>new_pages\<close>, \<open>thread_fork\<close>, \<open>gettid\<close>, the address of a new struct and what its memory holds)
  are arguments.
\<close>

subsection \<open>The state of the library\<close>

definition THR_STATUS_ALIVE :: int where "THR_STATUS_ALIVE = 0"

definition THR_STATUS_DEAD :: int where "THR_STATUS_DEAD = 1"

definition THR_STATUS_ZOMBIE :: int where "THR_STATUS_ZOMBIE = 2"

lemmas status_defs = THR_STATUS_ALIVE_def THR_STATUS_DEAD_def THR_STATUS_ZOMBIE_def

text \<open>\<open>thread_t\<close>; \<open>ut_cv\<close> is the sequence of the threads that wait on \<open>join_cv\<close>.\<close>

record uthread =
  ut_pending_join :: bool
  ut_k_tid :: int
  ut_status :: int
  ut_exit_status :: u32
  ut_cv :: "int list"
  ut_m :: umutex
  ut_stack_top :: u32

text \<open>The global variables; \<open>tl_mapped\<close> lists the ranges that \<open>new_pages\<close> has mapped.\<close>

record tlib =
  tl_stack_size :: u32
  tl_parent_top :: u32
  tl_bottom :: u32
  tl_pool :: "ptr list"
  tl_threads :: "ptr \<rightharpoonup> uthread"
  tl_mapped :: "(u32 \<times> u32) list"
  tl_exception_stack :: u32

definition PAGE_BYTES :: u32 where
  "PAGE_BYTES = 4096"

definition set_thread :: "ptr \<Rightarrow> uthread \<Rightarrow> tlib \<Rightarrow> tlib" where
  "set_thread p th s = s\<lparr>tl_threads := (tl_threads s)(p \<mapsto> th)\<rparr>"

subsection \<open>Helper functions\<close>

text \<open>\<open>np\<close>: the answer of \<open>new_pages\<close>, if it is called.\<close>

definition new_thr_page :: "int \<Rightarrow> u32 \<Rightarrow> u32 \<Rightarrow> tlib \<Rightarrow> int \<times> tlib" where
  "new_thr_page np stk len s =
     (if stk - len < tl_bottom s then
        (if np < 0 then (np, s)
         else (0, s\<lparr>tl_mapped := (tl_bottom s - len, len) # tl_mapped s, tl_bottom := tl_bottom s - len\<rparr>))
      else (0, s))"

text \<open>
  \<open>thr\<close>: the address that \<open>malloc\<close> answers; \<open>junk\<close>: what its memory holds (\<open>pending_join\<close>, \<open>reject\<close> and \<open>exit_status\<close> are not
  initialized); \<open>node\<close>: whether \<open>ll_add\<close> succeeds.
\<close>

definition add_to_pool_s :: "ptr \<Rightarrow> uthread \<Rightarrow> bool \<Rightarrow> int \<Rightarrow> u32 \<Rightarrow> tlib \<Rightarrow> int \<times> tlib" where
  "add_to_pool_s thr junk node k_tid stack_top s =
     (if thr = NULL then (-1, s)
      else let th = junk\<lparr>ut_k_tid := k_tid, ut_stack_top := stack_top, ut_status := THR_STATUS_ALIVE,
               ut_cv := [], ut_m := \<lparr>um_lock = 1\<rparr>\<rparr>
           in if node then (0, (set_thread thr th s)\<lparr>tl_pool := tl_pool s @ [thr]\<rparr>)
              else (-1, s))"

definition get_struct_status :: "tlib \<Rightarrow> ptr \<Rightarrow> int option" where
  "get_struct_status s thr = map_option ut_status (tl_threads s thr)"

definition get_struct_k_tid :: "tlib \<Rightarrow> ptr \<Rightarrow> int option" where
  "get_struct_k_tid s thr = map_option ut_k_tid (tl_threads s thr)"

text \<open>\<open>ll_find\<close> over the pool: the first struct for which the function answers the wanted value.\<close>

definition find_thread_by_k_tid :: "int \<Rightarrow> tlib \<Rightarrow> ptr option" where
  "find_thread_by_k_tid k_tid s = List.find (\<lambda>p. get_struct_k_tid s p = Some k_tid) (tl_pool s)"

definition reap_zombie :: "ptr \<Rightarrow> tlib \<Rightarrow> (int \<times> tlib) option" where
  "reap_zombie zombie s =
     (if zombie = NULL then Some (-1, s)
      else do {
        th \<leftarrow> tl_threads s zombie;
        Some (0, set_thread zombie (th\<lparr>ut_status := THR_STATUS_DEAD, ut_k_tid := -1, ut_cv := []\<rparr>) s)
      })"

text \<open>\<open>mutex_lock(&thr->m)\<close> and \<open>mutex_unlock(&thr->m)\<close>: \<open>None\<close> if the mutex is held, by whomever.\<close>

definition lock_thread :: "ptr \<Rightarrow> tlib \<Rightarrow> tlib option" where
  "lock_thread p s = do {
     th \<leftarrow> tl_threads s p;
     m \<leftarrow> mutex_lock_u (ut_m th);
     Some (set_thread p (th\<lparr>ut_m := m\<rparr>) s)
   }"

definition unlock_thread :: "ptr \<Rightarrow> tlib \<Rightarrow> tlib option" where
  "unlock_thread p s = do {
     th \<leftarrow> tl_threads s p;
     Some (set_thread p (th\<lparr>ut_m := mutex_unlock_u (ut_m th)\<rparr>) s)
   }"

definition upd_thread :: "ptr \<Rightarrow> (uthread \<Rightarrow> uthread) \<Rightarrow> tlib \<Rightarrow> tlib option" where
  "upd_thread p f s = do { th \<leftarrow> tl_threads s p; Some (set_thread p (f th) s) }"

subsection \<open>Initialization\<close>

definition thr_init :: "int \<Rightarrow> ptr \<Rightarrow> uthread \<Rightarrow> bool \<Rightarrow> u32 \<Rightarrow> int \<Rightarrow> u32 \<Rightarrow> u32 \<Rightarrow> tlib \<Rightarrow> int \<times> tlib" where
  "thr_init np thr junk node exc tid esp_reg sz s =
     (if sz = 0 then (-1, s)
      else let s = s\<lparr>tl_stack_size := ((sz - 1) div PAGE_BYTES + 1) * PAGE_BYTES,
                 tl_parent_top := esp_reg - esp_reg mod PAGE_BYTES\<rparr>;
               (r, s) = new_thr_page np (tl_parent_top s) (tl_stack_size s) s
           in if r < 0 then (-1, s)
              else let s = s\<lparr>tl_pool := []\<rparr>; (r, s) = add_to_pool_s thr junk node tid (tl_parent_top s) s
                   in if r < 0 then (-1, s) else (0, s\<lparr>tl_exception_stack := exc\<rparr>))"

subsection \<open>Creation\<close>

text \<open>
  The search of \<open>thr_create\<close>: a dead thread, or else the place below the stacks of all threads of the pool.
\<close>

definition create_find :: "tlib \<Rightarrow> ptr option" where
  "create_find s = List.find (\<lambda>p. get_struct_status s p = Some THR_STATUS_DEAD) (tl_pool s)"

definition create_esp :: "tlib \<Rightarrow> u32" where
  "create_esp s = tl_parent_top s - of_nat (length (tl_pool s)) * tl_stack_size s"

text \<open>With the mutex of the thread found: claim it if it is still dead. \<open>None\<close> in the answer: look again.\<close>

definition create_claim :: "ptr \<Rightarrow> tlib \<Rightarrow> (u32 option \<times> tlib) option" where
  "create_claim p s = do {
     s \<leftarrow> lock_thread p s;
     th \<leftarrow> tl_threads s p;
     if ut_status th = THR_STATUS_DEAD then do {
       s \<leftarrow> upd_thread p (\<lambda>th. th\<lparr>ut_cv := [], ut_status := THR_STATUS_ALIVE\<rparr>) s;
       s \<leftarrow> unlock_thread p s;
       Some (Some (ut_stack_top th), s)
     } else do {
       s \<leftarrow> unlock_thread p s;
       Some (None, s)
     }
   }"

text \<open>After a failed fork: the dead thread is put back. The mutex is locked a second time where it should be unlocked.\<close>

definition create_revert :: "ptr \<Rightarrow> tlib \<Rightarrow> tlib option" where
  "create_revert p s = do {
     s \<leftarrow> lock_thread p s;
     s \<leftarrow> upd_thread p (\<lambda>th. th\<lparr>ut_status := THR_STATUS_DEAD\<rparr>) s;
     lock_thread p s
   }"

definition create_commit_old :: "ptr \<Rightarrow> int \<Rightarrow> tlib \<Rightarrow> tlib option" where
  "create_commit_old p child_tid s = do {
     s \<leftarrow> lock_thread p s;
     s \<leftarrow> upd_thread p (\<lambda>th. th\<lparr>ut_k_tid := child_tid\<rparr>) s;
     unlock_thread p s
   }"

definition create_commit_new :: "ptr \<Rightarrow> uthread \<Rightarrow> bool \<Rightarrow> int \<Rightarrow> u32 \<Rightarrow> tlib \<Rightarrow> tlib option" where
  "create_commit_new thr junk node child_tid new_esp s = do {
     let (r, s) = add_to_pool_s thr junk node child_tid new_esp s;
     c_assert (\<not> r < 0);
     Some s
   }"

definition thr_create :: "int \<Rightarrow> int \<Rightarrow> ptr \<Rightarrow> uthread \<Rightarrow> bool \<Rightarrow> tlib \<Rightarrow> (int \<times> tlib) option" where
  "thr_create np child_tid thr junk node s = (case create_find s of
     Some p \<Rightarrow> do {
       (esp, s) \<leftarrow> create_claim p s;
       esp \<leftarrow> esp;
       if child_tid < 0 then do { s \<leftarrow> create_revert p s; Some (-1, s) }
       else do { s \<leftarrow> create_commit_old p child_tid s; Some (child_tid, s) }
     }
   | None \<Rightarrow> do {
       let new_esp = create_esp s;
       let (r, s) = new_thr_page np new_esp (tl_stack_size s) s;
       if r < 0 then Some (-1, s)
       else if child_tid < 0 then Some (-1, s)
       else do { s \<leftarrow> create_commit_new thr junk node child_tid new_esp s; Some (child_tid, s) }
     })"

subsection \<open>Exit and join\<close>

text \<open>
  \<open>thr_exit\<close> up to \<open>vanish\<close>; the answer is the joining thread that \<open>cond_signal\<close> wakes, if any. A thread that its creator has not
  added to the pool yet loops (\<open>None\<close>).
\<close>

definition thr_exit :: "int \<Rightarrow> u32 \<Rightarrow> tlib \<Rightarrow> (int option \<times> tlib) option" where
  "thr_exit tid status s = do {
     p \<leftarrow> find_thread_by_k_tid tid s;
     s \<leftarrow> lock_thread p s;
     s \<leftarrow> upd_thread p (\<lambda>th. th\<lparr>ut_status := THR_STATUS_ZOMBIE, ut_exit_status := status\<rparr>) s;
     th \<leftarrow> tl_threads s p;
     let woken = (case ut_cv th of [] \<Rightarrow> None | w # ws \<Rightarrow> Some w);
     s \<leftarrow> upd_thread p (\<lambda>th. th\<lparr>ut_cv := drop 1 (ut_cv th)\<rparr>) s;
     s \<leftarrow> unlock_thread p s;
     Some (woken, s)
   }"

text \<open>A join returns a code and what \<open>*statusp\<close> receives, or waits for the thread of a struct.\<close>

datatype join_out = Join_returns int "u32 option" | Join_waits ptr

definition join_finish :: "ptr \<Rightarrow> tlib \<Rightarrow> (join_out \<times> tlib) option" where
  "join_finish p s = do {
     th \<leftarrow> tl_threads s p;
     let st = ut_exit_status th;
     s \<leftarrow> upd_thread p (\<lambda>th. th\<lparr>ut_pending_join := False\<rparr>) s;
     (_, s) \<leftarrow> reap_zombie p s;
     s \<leftarrow> unlock_thread p s;
     Some (Join_returns 0 (Some st), s)
   }"

text \<open>One pass of the loop, with the mutex of the thread held; \<open>cond_wait\<close> gives it up.\<close>

definition join_pass :: "int \<Rightarrow> ptr \<Rightarrow> tlib \<Rightarrow> (join_out \<times> tlib) option" where
  "join_pass joiner p s = do {
     th \<leftarrow> tl_threads s p;
     if ut_status th = THR_STATUS_ALIVE then
       (if ut_pending_join th then do { s \<leftarrow> unlock_thread p s; Some (Join_returns (-1) None, s) }
        else do {
          s \<leftarrow> upd_thread p (\<lambda>th. th\<lparr>ut_pending_join := True, ut_cv := ut_cv th @ [joiner]\<rparr>) s;
          s \<leftarrow> unlock_thread p s;
          Some (Join_waits p, s)
        })
     else join_finish p s
   }"

definition thr_join :: "int \<Rightarrow> int \<Rightarrow> tlib \<Rightarrow> (join_out \<times> tlib) option" where
  "thr_join joiner k_tid s = (case find_thread_by_k_tid k_tid s of
     None \<Rightarrow> Some (Join_returns (-1) None, s)
   | Some p \<Rightarrow> do {
       s \<leftarrow> lock_thread p s;
       th \<leftarrow> tl_threads s p;
       if ut_status th = THR_STATUS_DEAD then do {
         s \<leftarrow> unlock_thread p s;
         Some (Join_returns (-1) None, s)
       } else join_pass joiner p s
     })"

definition join_resume :: "int \<Rightarrow> ptr \<Rightarrow> tlib \<Rightarrow> (join_out \<times> tlib) option" where
  "join_resume joiner p s = do { s \<leftarrow> lock_thread p s; join_pass joiner p s }"

subsection \<open>Concurrent calls of \<open>thr_create\<close>\<close>

text \<open>Where a creating thread is: it has read where the new stack goes, has mapped it, or has forked the child.\<close>

datatype create_pc = CIdle | CMap u32 | CFork u32 | CAdd u32 int

record create_sys =
  cr_lib :: tlib
  cr_pc :: "int \<Rightarrow> create_pc"

inductive create_step :: "create_sys \<Rightarrow> create_sys \<Rightarrow> bool" where
  find: "cr_pc s t = CIdle \<Longrightarrow> create_find (cr_lib s) = None \<Longrightarrow>
    create_step s (s\<lparr>cr_pc := (cr_pc s)(t := CMap (create_esp (cr_lib s)))\<rparr>)"
| recycle: "cr_pc s t = CIdle \<Longrightarrow> create_find (cr_lib s) = Some p \<Longrightarrow> create_claim p (cr_lib s) = Some (Some esp, l) \<Longrightarrow>
    0 \<le> child \<Longrightarrow> create_commit_old p child l = Some l' \<Longrightarrow> create_step s (s\<lparr>cr_lib := l'\<rparr>)"
| map_stack: "cr_pc s t = CMap esp \<Longrightarrow> new_thr_page np esp (tl_stack_size (cr_lib s)) (cr_lib s) = (0, l) \<Longrightarrow>
    create_step s \<lparr>cr_lib = l, cr_pc = (cr_pc s)(t := CFork esp)\<rparr>"
| fork: "cr_pc s t = CFork esp \<Longrightarrow> 0 \<le> child \<Longrightarrow> create_step s (s\<lparr>cr_pc := (cr_pc s)(t := CAdd esp child)\<rparr>)"
| add: "cr_pc s t = CAdd esp child \<Longrightarrow> create_commit_new thr junk True child esp (cr_lib s) = Some l \<Longrightarrow>
    tl_threads (cr_lib s) thr = None \<Longrightarrow> create_step s \<lparr>cr_lib = l, cr_pc = (cr_pc s)(t := CIdle)\<rparr>"

subsection \<open>Where the stacks are\<close>

text \<open>What of the state says where the stacks are; exit, join and the reuse of a dead thread do not change it.\<close>

definition layout :: "tlib \<Rightarrow> u32 \<times> u32 \<times> u32 \<times> ptr list \<times> (u32 \<times> u32) list \<times> (ptr \<Rightarrow> u32 option)" where
  "layout s = (tl_stack_size s, tl_parent_top s, tl_bottom s, tl_pool s, tl_mapped s, \<lambda>p. map_option ut_stack_top (tl_threads s p))"

lemma layout_upd:
  "upd_thread p f s = Some s' \<Longrightarrow> (\<And>th. ut_stack_top (f th) = ut_stack_top th) \<Longrightarrow> layout s' = layout s"
  by (auto simp: upd_thread_def layout_def set_thread_def bind_eq_Some_conv fun_eq_iff)

lemma layout_lock: "lock_thread p s = Some s' \<Longrightarrow> layout s' = layout s"
  by (auto simp: lock_thread_def layout_def set_thread_def bind_eq_Some_conv fun_eq_iff)

lemma layout_unlock: "unlock_thread p s = Some s' \<Longrightarrow> layout s' = layout s"
  by (auto simp: unlock_thread_def layout_def set_thread_def bind_eq_Some_conv fun_eq_iff)

lemma layout_reap: "reap_zombie p s = Some (r, s') \<Longrightarrow> layout s' = layout s"
  by (auto simp: reap_zombie_def layout_def set_thread_def bind_eq_Some_conv fun_eq_iff split: if_splits)

lemma layout_claim: "create_claim p s = Some (r, s') \<Longrightarrow> layout s' = layout s"
  by (auto simp: create_claim_def bind_eq_Some_conv split: if_splits dest!: layout_lock layout_unlock layout_upd)

lemma layout_revert: "create_revert p s = Some s' \<Longrightarrow> layout s' = layout s"
  by (auto simp: create_revert_def bind_eq_Some_conv dest!: layout_lock layout_upd)

lemma layout_commit_old: "create_commit_old p c s = Some s' \<Longrightarrow> layout s' = layout s"
  by (auto simp: create_commit_old_def bind_eq_Some_conv dest!: layout_lock layout_unlock layout_upd)

lemma layout_exit: "thr_exit tid st s = Some (w, s') \<Longrightarrow> layout s' = layout s"
  by (auto simp: thr_exit_def bind_eq_Some_conv dest!: layout_lock layout_unlock layout_upd)

lemma layout_finish: "join_finish p s = Some (r, s') \<Longrightarrow> layout s' = layout s"
  by (auto simp: join_finish_def bind_eq_Some_conv dest!: layout_unlock layout_upd layout_reap)

lemma layout_pass: "join_pass j p s = Some (r, s') \<Longrightarrow> layout s' = layout s"
  by (auto simp: join_pass_def bind_eq_Some_conv split: if_splits dest!: layout_unlock layout_upd layout_finish)

lemma layout_join: "thr_join j k s = Some (r, s') \<Longrightarrow> layout s' = layout s"
  by (auto simp: thr_join_def bind_eq_Some_conv split: option.splits if_splits dest!: layout_lock layout_unlock layout_pass)

lemma layout_resume: "join_resume j p s = Some (r, s') \<Longrightarrow> layout s' = layout s"
  by (auto simp: join_resume_def bind_eq_Some_conv dest!: layout_lock layout_pass)

text \<open>
  The \<open>i\<close>-th thread of the pool has the \<open>i\<close>-th stack below that of the initial thread, all of them are above \<open>STACK_BOTTOM\<close>, and the memory from there to
  the initial bottom \<open>b0\<close> of the stack has been mapped.
\<close>

definition stacks_ok :: "nat \<Rightarrow> tlib \<Rightarrow> bool" where
  "stacks_ok b0 s \<longleftrightarrow> distinct (tl_pool s) \<and> 0 < unat (tl_stack_size s) \<and>
     (\<forall>i < length (tl_pool s). map_option ut_stack_top (tl_threads s (tl_pool s ! i)) =
        Some (tl_parent_top s - of_nat i * tl_stack_size s)) \<and>
     unat (tl_bottom s) + length (tl_pool s) * unat (tl_stack_size s) \<le> unat (tl_parent_top s) \<and>
     (\<forall>a. unat (tl_bottom s) \<le> a \<and> a < b0 \<longrightarrow> (\<exists>(b, l) \<in> set (tl_mapped s). unat b \<le> a \<and> a < unat b + unat l))"

lemma stacks_ok_layout: "layout s' = layout s \<Longrightarrow> stacks_ok b0 s' = stacks_ok b0 s"
  by (auto simp: layout_def stacks_ok_def fun_eq_iff)

lemma stack_place:
  fixes p z :: u32
  assumes "i * unat z \<le> unat p"
  shows "unat (p - of_nat i * z) = unat p - i * unat z"
proof -
  have "i * unat z < 2 ^ 32" using assms unat_u32_bound [of p] by linarith
  then have "unat (of_nat i * z) = i * unat z"
    by (simp add: unat_word_ariths unat_of_nat mod_mult_left_eq)
  then show ?thesis using assms by (simp add: unat_sub word_le_nat_alt)
qed

text \<open>One more stack: \<open>new_thr_page\<close> maps it unless it is mapped already.\<close>

lemma new_thr_page_ok:
  assumes "new_thr_page np stk len s = (r, s')" "\<not> r < 0" "unat (tl_bottom s) \<le> unat stk" "unat len \<le> unat (tl_bottom s)"
  shows "unat (tl_bottom s') + unat len \<le> unat stk \<and> unat (tl_bottom s') \<le> unat (tl_bottom s) \<and>
    set (tl_mapped s) \<subseteq> set (tl_mapped s') \<and>
    (\<forall>a. unat (tl_bottom s') \<le> a \<and> a < unat (tl_bottom s) \<longrightarrow> (\<exists>(b, l) \<in> set (tl_mapped s'). unat b \<le> a \<and> a < unat b + unat l)) \<and>
    (\<exists>m b. s' = s\<lparr>tl_mapped := m, tl_bottom := b\<rparr>)"
proof -
  have sub: "unat (stk - len) = unat stk - unat len" "unat (tl_bottom s - len) = unat (tl_bottom s) - unat len"
    using assms(3,4) by (simp_all add: unat_sub word_le_nat_alt)
  show ?thesis
  proof (cases "stk - len < tl_bottom s")
    case True
    then have s': "s' = s\<lparr>tl_mapped := (tl_bottom s - len, len) # tl_mapped s, tl_bottom := tl_bottom s - len\<rparr>"
      using assms(1,2) by (auto simp: new_thr_page_def split: if_splits)
    show ?thesis using assms(3,4) sub by (auto simp: s')
  next
    case False
    then have "s' = s" using assms(1) by (simp add: new_thr_page_def)
    moreover have "\<exists>m b. s = s\<lparr>tl_mapped := m, tl_bottom := b\<rparr>"
      by (intro exI [of _ "tl_mapped s"] exI [of _ "tl_bottom s"]) simp
    ultimately show ?thesis using False assms(3,4) sub by (simp add: word_less_nat_alt) linarith
  qed
qed

lemma stacks_ok_create:
  assumes "stacks_ok b0 s" "create_find s = None" "thr_create np child thr junk node s = Some (r, s')"
    and "tl_threads s thr = None" "unat (tl_stack_size s) \<le> unat (tl_bottom s)" "thr \<notin> set (tl_pool s)"
  shows "stacks_ok b0 s'"
proof -
  obtain r1 s1 where page: "new_thr_page np (create_esp s) (tl_stack_size s) s = (r1, s1)" by fastforce
  let ?n = "length (tl_pool s)" and ?z = "unat (tl_stack_size s)"
  have esp: "unat (create_esp s) = unat (tl_parent_top s) - ?n * ?z" "?n * ?z \<le> unat (tl_parent_top s)"
    using assms(1) stack_place [of ?n "tl_stack_size s" "tl_parent_top s"] by (simp_all add: stacks_ok_def create_esp_def)
  show ?thesis
  proof (cases "r1 < 0")
    case True
    then have "s' = s" using assms(2,3) page by (auto simp: thr_create_def new_thr_page_def Let_def split: if_splits)
    then show ?thesis using assms(1) by simp
  next
    case False
    note ok = new_thr_page_ok [OF page False _ assms(5)]
    have "unat (tl_bottom s) + ?n * ?z \<le> unat (tl_parent_top s)" using assms(1) by (simp add: stacks_ok_def)
    then have le: "unat (tl_bottom s) \<le> unat (create_esp s)" using esp by linarith
    obtain m b where s1: "s1 = s\<lparr>tl_mapped := m, tl_bottom := b\<rparr>" using ok [OF le] by blast
    have b: "unat b + ?n * ?z + ?z \<le> unat (tl_parent_top s)" "unat b \<le> unat (tl_bottom s)" using ok [OF le] esp by (auto simp: s1)
    have mapped: "\<exists>(c, l) \<in> set m. unat c \<le> a \<and> a < unat c + unat l" if "unat b \<le> a" "a < b0" for a
    proof (cases "a < unat (tl_bottom s)")
      case True
      then show ?thesis using ok [OF le] that(1) by (simp add: s1)
    next
      case False
      then have "\<exists>(c, l) \<in> set (tl_mapped s). unat c \<le> a \<and> a < unat c + unat l"
        using assms(1) that(2) by (auto simp: stacks_ok_def)
      moreover have "set (tl_mapped s) \<subseteq> set m" using ok [OF le] by (simp add: s1)
      ultimately show ?thesis by blast
    qed
    have s1_ok: "stacks_ok b0 s1" using assms(1) b mapped by (simp add: stacks_ok_def s1)
    show ?thesis
    proof (cases "child < 0")
      case True
      then have "s' = s1" using assms(2,3) page False by (auto simp: thr_create_def Let_def)
      then show ?thesis using s1_ok by simp
    next
      case nonneg: False
      have s': "s' = (set_thread thr (junk\<lparr>ut_k_tid := child, ut_stack_top := create_esp s, ut_status := THR_STATUS_ALIVE,
          ut_cv := [], ut_m := \<lparr>um_lock = 1\<rparr>\<rparr>) s1)\<lparr>tl_pool := tl_pool s @ [thr]\<rparr>"
        using assms(2,3) page False nonneg
        by (auto simp: thr_create_def create_commit_new_def add_to_pool_s_def s1 Let_def split: if_splits)
      show ?thesis unfolding stacks_ok_def
      proof (intro conjI)
        show "\<forall>i<length (tl_pool s'). map_option ut_stack_top (tl_threads s' (tl_pool s' ! i)) =
            Some (tl_parent_top s' - of_nat i * tl_stack_size s')"
        proof (intro allI impI)
          fix i assume i: "i < length (tl_pool s')"
          show "map_option ut_stack_top (tl_threads s' (tl_pool s' ! i)) = Some (tl_parent_top s' - of_nat i * tl_stack_size s')"
          proof (cases "i < ?n")
            case True
            then have "tl_pool s ! i \<noteq> thr" using assms(6) nth_mem by metis
            then show ?thesis using True assms(1) by (simp add: s' s1 set_thread_def nth_append stacks_ok_def)
          next
            case False
            then have "i = ?n" using i by (simp add: s')
            then show ?thesis by (simp add: s' s1 set_thread_def create_esp_def)
          qed
        qed
      qed (use assms(1,6) b mapped in \<open>auto simp: s' s1 set_thread_def stacks_ok_def\<close>)
    qed
  qed
qed

text \<open>
  The calls of the library, one at a time. \<open>malloc\<close> answers addresses that are not in use, and a new stack is asked for only while
  there is room for it below \<open>STACK_BOTTOM\<close>.
\<close>

inductive lib_step :: "tlib \<Rightarrow> tlib \<Rightarrow> bool" where
  creates: "thr_create np child thr junk node s = Some (r, s') \<Longrightarrow> tl_threads s thr = None \<Longrightarrow>
    tl_stack_size s \<le> tl_bottom s \<Longrightarrow> lib_step s s'"
| exits: "thr_exit tid status s = Some (w, s') \<Longrightarrow> lib_step s s'"
| joins: "thr_join joiner k_tid s = Some (out, s') \<Longrightarrow> lib_step s s'"
| resumes: "join_resume joiner p s = Some (out, s') \<Longrightarrow> lib_step s s'"

lemma stacks_ok_pool:
  assumes "stacks_ok b0 s" "p \<in> set (tl_pool s)"
  shows "tl_threads s p \<noteq> None"
proof -
  obtain i where "i < length (tl_pool s)" "p = tl_pool s ! i" using assms(2) by (metis in_set_conv_nth)
  then show ?thesis using assms(1) by (auto simp: stacks_ok_def)
qed

lemma stacks_ok_step:
  assumes "lib_step s s'" "stacks_ok b0 s"
  shows "stacks_ok b0 s'"
  using assms(1)
proof cases
  case (creates np child thr junk node r)
  show ?thesis
  proof (cases "create_find s")
    case None
    have "thr \<notin> set (tl_pool s)" using creates(2) stacks_ok_pool [OF assms(2), of thr] by blast
    then show ?thesis using stacks_ok_create [OF assms(2) None creates(1,2)] creates(3) by (simp add: word_le_nat_alt)
  next
    case (Some p)
    then have "layout s' = layout s" using creates(1)
      by (auto simp: thr_create_def bind_eq_Some_conv split: if_splits dest!: layout_claim layout_revert layout_commit_old)
    then show ?thesis using assms(2) stacks_ok_layout by blast
  qed
next
  case (exits tid status w)
  then show ?thesis using assms(2) stacks_ok_layout layout_exit by metis
next
  case (joins joiner k_tid out)
  then show ?thesis using assms(2) stacks_ok_layout layout_join by metis
next
  case (resumes joiner p out)
  then show ?thesis using assms(2) stacks_ok_layout layout_resume by metis
qed

interpretation stacks: step_invariant lib_step "stacks_ok b0" for b0
  by unfold_locales (rule stacks_ok_step)

lemma thr_init_ok:
  assumes "thr_init np thr junk node exc tid esp_reg sz s = (0, s')" "tl_bottom s \<le> esp_reg - esp_reg mod PAGE_BYTES"
    and "tl_stack_size s' \<noteq> 0" "tl_stack_size s' \<le> tl_bottom s"
  shows "stacks_ok (unat (tl_bottom s)) s'"
proof -
  let ?z = "((sz - 1) div PAGE_BYTES + 1) * PAGE_BYTES" and ?top = "esp_reg - esp_reg mod PAGE_BYTES"
  let ?s = "s\<lparr>tl_stack_size := ?z, tl_parent_top := ?top\<rparr>"
  obtain r1 s1 where page: "new_thr_page np ?top ?z ?s = (r1, s1)" by fastforce
  have r1: "\<not> r1 < 0" and node: "node" "thr \<noteq> NULL"
    and s': "s' = set_thread thr (junk\<lparr>ut_k_tid := tid, ut_stack_top := tl_parent_top s1, ut_status := THR_STATUS_ALIVE,
          ut_cv := [], ut_m := \<lparr>um_lock = 1\<rparr>\<rparr>) (s1\<lparr>tl_pool := [thr], tl_exception_stack := exc\<rparr>)"
    using assms(1) page by (auto simp: thr_init_def add_to_pool_s_def set_thread_def Let_def split: if_splits)
  have z: "tl_stack_size s' = ?z" using page by (auto simp: s' set_thread_def new_thr_page_def split: if_splits)
  have "unat (tl_bottom ?s) \<le> unat ?top" "unat ?z \<le> unat (tl_bottom ?s)"
    using assms(2,4) z by (simp_all add: word_le_nat_alt)
  from new_thr_page_ok [OF page r1 this] obtain m b where s1: "s1 = ?s\<lparr>tl_mapped := m, tl_bottom := b\<rparr>"
    and ok: "unat b + unat ?z \<le> unat ?top" "\<forall>a. unat b \<le> a \<and> a < unat (tl_bottom s) \<longrightarrow> (\<exists>(b, l) \<in> set m. unat b \<le> a \<and> a < unat b + unat l)"
    by auto
  have "0 < unat ?z" using assms(3) z by (simp add: unat_gt_0)
  then show ?thesis using ok by (simp add: s' s1 set_thread_def stacks_ok_def)
qed

text \<open>The addresses of the stack of a thread.\<close>

definition stack_of :: "tlib \<Rightarrow> ptr \<Rightarrow> nat set" where
  "stack_of s p = (case tl_threads s p of
     None \<Rightarrow> {} | Some th \<Rightarrow> {unat (ut_stack_top th) - unat (tl_stack_size s) ..< unat (ut_stack_top th)})"

lemma stack_of_nth:
  assumes "stacks_ok b0 s" "i < length (tl_pool s)"
  shows "stack_of s (tl_pool s ! i) =
    {unat (tl_parent_top s) - Suc i * unat (tl_stack_size s) ..< unat (tl_parent_top s) - i * unat (tl_stack_size s)}"
    and "Suc i * unat (tl_stack_size s) \<le> unat (tl_parent_top s) - unat (tl_bottom s)"
proof -
  have "Suc i * unat (tl_stack_size s) \<le> length (tl_pool s) * unat (tl_stack_size s)" using assms(2) by (intro mult_le_mono1) simp
  moreover have "unat (tl_bottom s) + length (tl_pool s) * unat (tl_stack_size s) \<le> unat (tl_parent_top s)"
    using assms(1) by (simp add: stacks_ok_def)
  ultimately show le: "Suc i * unat (tl_stack_size s) \<le> unat (tl_parent_top s) - unat (tl_bottom s)" by linarith
  then have "i * unat (tl_stack_size s) \<le> unat (tl_parent_top s)" by simp
  note top = stack_place [OF this]
  from assms obtain th where "tl_threads s (tl_pool s ! i) = Some th" "ut_stack_top th = tl_parent_top s - of_nat i * tl_stack_size s"
    by (auto simp: stacks_ok_def)
  then show "stack_of s (tl_pool s ! i) =
    {unat (tl_parent_top s) - Suc i * unat (tl_stack_size s) ..< unat (tl_parent_top s) - i * unat (tl_stack_size s)}"
    using top by (simp add: stack_of_def add.commute)
qed

lemma stack_of_disjoint:
  assumes "stacks_ok b0 s" "i < j" "j < length (tl_pool s)"
  shows "stack_of s (tl_pool s ! i) \<inter> stack_of s (tl_pool s ! j) = {}"
proof -
  have "Suc i * unat (tl_stack_size s) \<le> j * unat (tl_stack_size s)" using assms(2) by (intro mult_le_mono1) simp
  then have "unat (tl_parent_top s) - j * unat (tl_stack_size s) \<le> unat (tl_parent_top s) - Suc i * unat (tl_stack_size s)"
    by (rule diff_le_mono2)
  moreover have "i < length (tl_pool s)" using assms(2,3) by simp
  ultimately show ?thesis unfolding stack_of_nth(1) [OF assms(1) \<open>i < length (tl_pool s)\<close>] stack_of_nth(1) [OF assms(1,3)]
    by (simp del: mult_Suc add: disjoint_iff)
qed

subsection \<open>Properties\<close>

text \<open>
  C6: The stacks of the threads, as long as calls of \<open>thr_create\<close> do not overlap. After \<open>thr_init\<close>, whatever sequence of \<open>thr_create\<close>, \<open>thr_exit\<close>
  and \<open>thr_join\<close> follows, with failing kernel calls among them: the stacks of any two threads of the pool are disjoint, and every byte of a stack lies above the
  initial bottom of the stack or in pages that \<open>new_pages\<close> has mapped. Dead threads keep their stacks for the next thread that is created.
\<close>

theorem thread_stacks_apart:
  assumes "thr_init np thr junk node exc tid esp_reg sz s0 = (0, s1)"
    and "tl_bottom s0 \<le> esp_reg - esp_reg mod PAGE_BYTES" "tl_stack_size s1 \<noteq> 0" "tl_stack_size s1 \<le> tl_bottom s0"
    and "lib_step\<^sup>*\<^sup>* s1 s" "p \<in> set (tl_pool s)" "q \<in> set (tl_pool s)"
  shows "(p \<noteq> q \<longrightarrow> stack_of s p \<inter> stack_of s q = {}) \<and> stack_of s p \<noteq> {} \<and>
    (\<forall>a \<in> stack_of s p. unat (tl_bottom s0) \<le> a \<or> (\<exists>(b, l) \<in> set (tl_mapped s). unat b \<le> a \<and> a < unat b + unat l))"
proof -
  have ok: "stacks_ok (unat (tl_bottom s0)) s" using stacks.reachable [OF assms(5) thr_init_ok [OF assms(1-4)]] .
  obtain i j where ij: "i < length (tl_pool s)" "p = tl_pool s ! i" "j < length (tl_pool s)" "q = tl_pool s ! j"
    using assms(6,7) by (metis in_set_conv_nth)
  note st = stack_of_nth [OF ok ij(1)]
  have "stack_of s p \<inter> stack_of s q = {}" if "p \<noteq> q"
  proof -
    have "i < j \<or> j < i" using that ij by (cases i j rule: linorder_cases) auto
    then show ?thesis using stack_of_disjoint [OF ok _ ij(3), of i] stack_of_disjoint [OF ok _ ij(1), of j] ij(2,4) by blast
  qed
  moreover have "stack_of s p \<noteq> {}" using st ij(2) ok by (auto simp: stacks_ok_def)
  moreover have "unat (tl_bottom s0) \<le> a \<or> (\<exists>(b, l) \<in> set (tl_mapped s). unat b \<le> a \<and> a < unat b + unat l)" if "a \<in> stack_of s p" for a
  proof -
    have "unat (tl_bottom s) \<le> a" using that st ij(2) by auto
    then show ?thesis using ok by (force simp: stacks_ok_def)
  qed
  ultimately show ?thesis by blast
qed

text \<open>A library with one page of stack in use below which there is room, for evaluation.\<close>

definition ex_junk :: uthread where
  "ex_junk = \<lparr>ut_pending_join = False, ut_k_tid = 0, ut_status = 0, ut_exit_status = 0, ut_cv = [], ut_m = \<lparr>um_lock = 0\<rparr>, ut_stack_top = 0\<rparr>"

definition ex_lib :: tlib where
  "ex_lib = \<lparr>tl_stack_size = 0, tl_parent_top = 0, tl_bottom = 0x100000, tl_pool = [], tl_threads = (\<lambda>_. None),
     tl_mapped = [], tl_exception_stack = 0\<rparr>"

definition ex_started :: tlib where
  "ex_started = \<lparr>tl_stack_size = 0x2000, tl_parent_top = 0x102000, tl_bottom = 0x100000, tl_pool = [16],
     tl_threads = [16 \<mapsto> ex_junk\<lparr>ut_k_tid := 1, ut_stack_top := 0x102000, ut_m := \<lparr>um_lock = 1\<rparr>\<rparr>],
     tl_mapped = [], tl_exception_stack = 0x5000\<rparr>"

lemma ex_init: "thr_init 0 16 ex_junk True 0x5000 1 0x102010 8000 ex_lib = (0, ex_started)"
  by (simp add: thr_init_def ex_lib_def ex_started_def ex_junk_def new_thr_page_def add_to_pool_s_def set_thread_def
      PAGE_BYTES_def THR_STATUS_ALIVE_def)

lemma ex_create:
  "thr_create 0 2 32 ex_junk True ex_started = Some (2, ex_started\<lparr>tl_bottom := 0xFE000, tl_mapped := [(0xFE000, 0x2000)],
     tl_pool := [16, 32], tl_threads := (tl_threads ex_started)(32 \<mapsto> ex_junk\<lparr>ut_k_tid := 2, ut_stack_top := 0x100000, ut_m := \<lparr>um_lock = 1\<rparr>\<rparr>)\<rparr>)"
  by (simp add: thr_create_def ex_started_def ex_junk_def create_find_def get_struct_status_def create_esp_def new_thr_page_def
      create_commit_new_def add_to_pool_s_def set_thread_def status_defs)

theorem thread_stacks_apart_witness:
  "\<exists>s. lib_step\<^sup>*\<^sup>* ex_started s \<and> tl_pool s = [16, 32] \<and> stack_of s 16 \<inter> stack_of s 32 = {}"
proof -
  obtain s where s: "thr_create 0 2 32 ex_junk True ex_started = Some (2, s)" "tl_pool s = [16, 32]"
    using ex_create by (simp add: ex_started_def)
  have "lib_step ex_started s" using s(1) by (rule lib_step.creates) (simp_all add: ex_started_def)
  then have run: "lib_step\<^sup>*\<^sup>* ex_started s" by blast
  have "(16 \<noteq> (32 :: ptr) \<longrightarrow> stack_of s 16 \<inter> stack_of s 32 = {}) \<and> stack_of s 16 \<noteq> {} \<and>
    (\<forall>a \<in> stack_of s 16. unat (tl_bottom ex_lib) \<le> a \<or> (\<exists>(b, l) \<in> set (tl_mapped s). unat b \<le> a \<and> a < unat b + unat l))"
    by (rule thread_stacks_apart [OF ex_init _ _ _ run]) (simp_all add: s(2) ex_lib_def ex_started_def PAGE_BYTES_def)
  then show ?thesis using run s(2) by auto
qed

text \<open>Locking, changing and unlocking a struct whose mutex is free.\<close>

lemma thread_ops:
  assumes "tl_threads s p = Some th"
  shows "um_lock (ut_m th) \<noteq> 0 \<Longrightarrow> lock_thread p s = Some (set_thread p (th\<lparr>ut_m := \<lparr>um_lock = 0\<rparr>\<rparr>) s)"
    "um_lock (ut_m th) = 0 \<Longrightarrow> lock_thread p s = None"
    "upd_thread p f s = Some (set_thread p (f th) s)"
    "unlock_thread p s = Some (set_thread p (th\<lparr>ut_m := \<lparr>um_lock = 1\<rparr>\<rparr>) s)"
  using assms by (cases "ut_m th",
      simp_all add: lock_thread_def upd_thread_def unlock_thread_def mutex_lock_u_def mutex_unlock_u_def xchng_u_def)+

lemma set_thread_simps [simp]:
  "tl_threads (set_thread p th s) = (tl_threads s)(p \<mapsto> th)" "tl_pool (set_thread p th s) = tl_pool s"
  "set_thread p th' (set_thread p th s) = set_thread p th' s" "tl_stack_size (set_thread p th s) = tl_stack_size s"
  "tl_parent_top (set_thread p th s) = tl_parent_top s" "tl_bottom (set_thread p th s) = tl_bottom s"
  by (simp_all add: set_thread_def)

lemma find_only: "x \<in> set xs \<Longrightarrow> P x \<Longrightarrow> \<forall>y \<in> set xs. y \<noteq> x \<longrightarrow> \<not> P y \<Longrightarrow> List.find P xs = Some x"
  by (induction xs) auto

lemma find_tid_set:
  assumes "find_thread_by_k_tid c s = Some p"
  shows "ut_k_tid th' = c \<Longrightarrow> find_thread_by_k_tid c (set_thread p th' s) = Some p"
    and "\<forall>q \<in> set (tl_pool s). q \<noteq> p \<longrightarrow> get_struct_k_tid s q \<noteq> Some c \<Longrightarrow> ut_k_tid th' \<noteq> c \<Longrightarrow>
      find_thread_by_k_tid c (set_thread p th' s) = None"
proof -
  assume "ut_k_tid th' = c"
  then show "find_thread_by_k_tid c (set_thread p th' s) = Some p"
    using assms unfolding find_thread_by_k_tid_def find_Some_iff by (fastforce simp: get_struct_k_tid_def)
next
  assume "\<forall>q \<in> set (tl_pool s). q \<noteq> p \<longrightarrow> get_struct_k_tid s q \<noteq> Some c" "ut_k_tid th' \<noteq> c"
  then show "find_thread_by_k_tid c (set_thread p th' s) = None"
    unfolding find_thread_by_k_tid_def find_None_iff by (auto simp: get_struct_k_tid_def)
qed

text \<open>
  C32: Joining a thread. A thread \<open>c\<close> that exits with a status hands it to exactly one joining thread, whether it is joined after its exit
  or before: a join that comes early waits, is woken by the exit and then returns the status, provided that the memory in
  which \<open>malloc\<close> placed the struct held 0 for \<open>pending_join\<close>. After the join the struct is dead: a second join reports \<open>-1\<close>, and if no other
  thread of the pool is dead, the next \<open>thr_create\<close> runs its thread on the same stack, without new pages.
\<close>

theorem thread_join_roundtrip:
  assumes "find_thread_by_k_tid c s = Some p" "tl_threads s p = Some th" "p \<noteq> NULL" "um_lock (ut_m th) = 1"
    and "ut_status th = THR_STATUS_ALIVE" "ut_cv th = []" "0 \<le> c" "0 \<le> child"
    and "\<forall>q \<in> set (tl_pool s). q \<noteq> p \<longrightarrow> get_struct_k_tid s q \<noteq> Some c \<and> get_struct_status s q \<noteq> Some THR_STATUS_DEAD"
  shows "\<exists>s1 s2 s3. thr_exit c v s = Some (None, s1) \<and> thr_join j c s1 = Some (Join_returns 0 (Some v), s2) \<and>
      thr_join j' c s2 = Some (Join_returns (-1) None, s2) \<and>
      thr_create np child thr junk node s2 = Some (child, s3) \<and> tl_mapped s3 = tl_mapped s \<and>
      map_option ut_stack_top (tl_threads s3 p) = Some (ut_stack_top th) \<and> find_thread_by_k_tid child s3 \<noteq> None \<and>
      (ut_pending_join th \<or> (\<exists>t1 t2. thr_join j c s = Some (Join_waits p, t1) \<and> thr_exit c v t1 = Some (Some j, t2) \<and>
         join_resume j p t2 = Some (Join_returns 0 (Some v), s2)))"
proof -
  have k: "ut_k_tid th = c" "p \<in> set (tl_pool s)"
    using assms(1,2) by (auto simp: find_thread_by_k_tid_def find_Some_iff get_struct_k_tid_def)
  have others: "\<forall>q \<in> set (tl_pool s). q \<noteq> p \<longrightarrow> get_struct_k_tid s q \<noteq> Some c" using assms(9) by blast
  have m: "ut_m th = \<lparr>um_lock = 1\<rparr>" using assms(4) by simp
  obtain pj e tp where th: "th = \<lparr>ut_pending_join = pj, ut_k_tid = c, ut_status = THR_STATUS_ALIVE, ut_exit_status = e,
      ut_cv = [], ut_m = \<lparr>um_lock = 1\<rparr>, ut_stack_top = tp\<rparr>" using assms(5,6) k(1) m by (cases th) auto
  let ?z = "th\<lparr>ut_status := THR_STATUS_ZOMBIE, ut_exit_status := v\<rparr>"
  let ?s1 = "set_thread p ?z s"
  have ex: "thr_exit c v s = Some (None, ?s1)"
    using assms(1,2) by (simp add: thr_exit_def thread_ops th)
  let ?d = "?z\<lparr>ut_pending_join := False, ut_status := THR_STATUS_DEAD, ut_k_tid := -1\<rparr>"
  let ?s2 = "set_thread p ?d s"
  have f1: "find_thread_by_k_tid c ?s1 = Some p" by (rule find_tid_set(1) [OF assms(1)]) (simp add: th)
  have jn: "thr_join j c ?s1 = Some (Join_returns 0 (Some v), ?s2)"
    using f1 assms(3) by (simp add: thr_join_def join_pass_def join_finish_def reap_zombie_def thread_ops status_defs th)
  have f2: "find_thread_by_k_tid c ?s2 = None"
    by (rule find_tid_set(2) [OF assms(1) others]) (use assms(7) in simp)
  then have again: "thr_join j' c ?s2 = Some (Join_returns (-1) None, ?s2)" by (simp add: thr_join_def)
  have dead: "create_find ?s2 = Some p"
    unfolding create_find_def using k(2) assms(9) by (intro find_only) (auto simp: get_struct_status_def)
  let ?s3 = "set_thread p (?d\<lparr>ut_status := THR_STATUS_ALIVE, ut_cv := [], ut_k_tid := child\<rparr>) s"
  have cr: "thr_create np child thr junk node ?s2 = Some (child, ?s3)"
    using dead assms(8) by (simp add: thr_create_def create_claim_def create_commit_old_def thread_ops th)
  have "find_thread_by_k_tid child ?s3 \<noteq> None"
    using k(2) by (auto simp: find_thread_by_k_tid_def find_None_iff get_struct_k_tid_def)
  moreover have "\<exists>t1 t2. thr_join j c s = Some (Join_waits p, t1) \<and> thr_exit c v t1 = Some (Some j, t2) \<and>
         join_resume j p t2 = Some (Join_returns 0 (Some v), ?s2)" if "\<not> ut_pending_join th"
  proof -
    let ?t1 = "set_thread p (th\<lparr>ut_pending_join := True, ut_cv := [j]\<rparr>) s"
    let ?t2 = "set_thread p (?z\<lparr>ut_pending_join := True\<rparr>) s"
    have 1: "thr_join j c s = Some (Join_waits p, ?t1)"
      using assms(1,2) that by (simp add: thr_join_def join_pass_def thread_ops status_defs th)
    have "find_thread_by_k_tid c ?t1 = Some p" by (rule find_tid_set(1) [OF assms(1)]) (simp add: th)
    then have 2: "thr_exit c v ?t1 = Some (Some j, ?t2)" by (simp add: thr_exit_def thread_ops th)
    have "join_resume j p ?t2 = Some (Join_returns 0 (Some v), ?s2)"
      using assms(3) that by (simp add: join_resume_def join_pass_def join_finish_def reap_zombie_def thread_ops status_defs th)
    with 1 2 show ?thesis by blast
  qed
  ultimately show ?thesis using ex jn again cr
    by (intro exI [of _ ?s1] exI [of _ ?s2] exI [of _ ?s3]) (auto simp: set_thread_def)
qed

theorem thread_join_roundtrip_witness:
  "\<exists>s1 s2. thr_exit 1 42 ex_started = Some (None, s1) \<and> thr_join 9 1 s1 = Some (Join_returns 0 (Some 42), s2) \<and>
     thr_join 9 1 s2 = Some (Join_returns (-1) None, s2)"
proof -
  have f: "find_thread_by_k_tid 1 ex_started = Some 16"
    by (simp add: find_thread_by_k_tid_def get_struct_k_tid_def ex_started_def)
  have th: "tl_threads ex_started 16 = Some (ex_junk\<lparr>ut_k_tid := 1, ut_stack_top := 0x102000, ut_m := \<lparr>um_lock = 1\<rparr>\<rparr>)"
    by (simp add: ex_started_def)
  have "\<forall>q \<in> set (tl_pool ex_started). q \<noteq> 16 \<longrightarrow> get_struct_k_tid ex_started q \<noteq> Some 1 \<and>
      get_struct_status ex_started q \<noteq> Some THR_STATUS_DEAD" by (simp add: ex_started_def)
  from thread_join_roundtrip [OF f th _ _ _ _ _ _ this, where v = 42 and j = 9 and j' = 9 and child = 5 and np = 0 and thr = 0 and junk = ex_junk and node = True]
  show ?thesis by (auto simp: ex_junk_def status_defs)
qed

lemma create_commit_new_total:
  assumes "q \<noteq> NULL"
  shows "\<exists>s' g. create_commit_new q junk True c e s = Some s' \<and> tl_threads s' = (tl_threads s)(q \<mapsto> g) \<and>
    set (tl_pool s) \<subseteq> set (tl_pool s') \<and> q \<in> set (tl_pool s') \<and> ut_stack_top g = e \<and> ut_k_tid g = c \<and> ut_status g = THR_STATUS_ALIVE"
proof -
  let ?g = "junk\<lparr>ut_k_tid := c, ut_stack_top := e, ut_status := THR_STATUS_ALIVE, ut_cv := [], ut_m := \<lparr>um_lock = 1\<rparr>\<rparr>"
  have "create_commit_new q junk True c e s = Some ((set_thread q ?g s)\<lparr>tl_pool := tl_pool s @ [q]\<rparr>)"
    using assms by (simp add: create_commit_new_def add_to_pool_s_def Let_def)
  then show ?thesis by (intro exI [of _ "(set_thread q ?g s)\<lparr>tl_pool := tl_pool s @ [q]\<rparr>"] exI [of _ ?g]) auto
qed

lemma new_thr_page_total:
  "\<exists>s'. new_thr_page 0 stk len s = (0, s') \<and> tl_stack_size s' = tl_stack_size s \<and> tl_threads s' = tl_threads s"
  by (simp add: new_thr_page_def)

text \<open>
  C39: Two threads that call \<open>thr_create\<close> at the same time can give their children the same stack. The place of a new stack is computed from the size of the pool under
  a lock that admits several readers, and the child enters the pool only after it has been forked; a second call in between
  computes the same place. Both children are then alive, in the pool, on one stack.
\<close>

theorem concurrent_creates_share_stack:
  assumes "create_find (cr_lib s) = None" "cr_pc s t = CIdle" "cr_pc s u = CIdle" "t \<noteq> u"
    and "tl_threads (cr_lib s) p = None" "tl_threads (cr_lib s) q = None" "p \<noteq> q" "p \<noteq> NULL" "q \<noteq> NULL" "0 \<le> c" "0 \<le> d"
  shows "\<exists>s' f g. create_step\<^sup>*\<^sup>* s s' \<and> cr_pc s' = cr_pc s \<and> {p, q} \<subseteq> set (tl_pool (cr_lib s')) \<and>
    tl_threads (cr_lib s') p = Some f \<and> tl_threads (cr_lib s') q = Some g \<and>
    ut_k_tid f = c \<and> ut_k_tid g = d \<and> ut_status f = THR_STATUS_ALIVE \<and> ut_status g = THR_STATUS_ALIVE \<and>
    ut_stack_top f = ut_stack_top g"
proof -
  let ?e = "create_esp (cr_lib s)" and ?z = "tl_stack_size (cr_lib s)"
  let ?s1 = "s\<lparr>cr_pc := (cr_pc s)(t := CMap ?e)\<rparr>"
  let ?s2 = "?s1\<lparr>cr_pc := (cr_pc ?s1)(u := CMap ?e)\<rparr>"
  obtain l3 where l3: "new_thr_page 0 ?e ?z (cr_lib s) = (0, l3)" "tl_stack_size l3 = ?z" "tl_threads l3 = tl_threads (cr_lib s)"
    using new_thr_page_total [of ?e ?z "cr_lib s"] by blast
  obtain l4 where l4: "new_thr_page 0 ?e ?z l3 = (0, l4)" "tl_threads l4 = tl_threads (cr_lib s)"
    using new_thr_page_total [of ?e ?z l3] l3(3) by auto
  let ?s3 = "\<lparr>cr_lib = l3, cr_pc = (cr_pc ?s2)(t := CFork ?e)\<rparr>"
  let ?s4 = "\<lparr>cr_lib = l4, cr_pc = (cr_pc ?s3)(u := CFork ?e)\<rparr>"
  let ?s5 = "?s4\<lparr>cr_pc := (cr_pc ?s4)(t := CAdd ?e c)\<rparr>"
  let ?s6 = "?s5\<lparr>cr_pc := (cr_pc ?s5)(u := CAdd ?e d)\<rparr>"
  obtain l7 f where l7: "create_commit_new p ex_junk True c ?e l4 = Some l7" "tl_threads l7 = (tl_threads l4)(p \<mapsto> f)"
    "p \<in> set (tl_pool l7)" "ut_stack_top f = ?e" "ut_k_tid f = c" "ut_status f = THR_STATUS_ALIVE"
    using create_commit_new_total [OF assms(8), of ex_junk c ?e l4] by blast
  let ?s7 = "\<lparr>cr_lib = l7, cr_pc = (cr_pc ?s6)(t := CIdle)\<rparr>"
  obtain l8 g where l8: "create_commit_new q ex_junk True d ?e l7 = Some l8" "tl_threads l8 = (tl_threads l7)(q \<mapsto> g)"
    "set (tl_pool l7) \<subseteq> set (tl_pool l8)" "q \<in> set (tl_pool l8)" "ut_stack_top g = ?e" "ut_k_tid g = d" "ut_status g = THR_STATUS_ALIVE"
    using create_commit_new_total [OF assms(9), of ex_junk d ?e l7] by blast
  let ?s8 = "\<lparr>cr_lib = l8, cr_pc = (cr_pc ?s7)(u := CIdle)\<rparr>"
  have "create_step s ?s1" by (rule create_step.find) (use assms in simp_all)
  moreover have "create_step ?s1 ?s2" using create_step.find [of ?s1 u] assms by simp
  moreover have "create_step ?s2 ?s3" by (rule create_step.map_stack [where np = 0]) (use l3 assms in simp_all)
  moreover have "create_step ?s3 ?s4" by (rule create_step.map_stack [where np = 0]) (use l3 l4 assms in simp_all)
  moreover have "create_step ?s4 ?s5" by (rule create_step.fork) (use assms in simp_all)
  moreover have "create_step ?s5 ?s6" by (rule create_step.fork) (use assms in simp_all)
  moreover have "create_step ?s6 ?s7" by (rule create_step.add [where thr = p and junk = ex_junk]) (use l4 l7 assms in simp_all)
  moreover have "create_step ?s7 ?s8" by (rule create_step.add [where thr = q and junk = ex_junk]) (use l4 l7 l8 assms in simp_all)
  ultimately have "create_step\<^sup>*\<^sup>* s ?s8" by (meson converse_rtranclp_into_rtranclp rtranclp.rtrancl_refl)
  moreover have "cr_pc ?s8 = cr_pc s" using assms by (auto simp: fun_eq_iff)
  moreover have "tl_threads l8 p = Some f" using l8(2) l7(2) assms(7) by simp
  ultimately show ?thesis using l7 l8 by (intro exI [of _ ?s8] exI [of _ f] exI [of _ g]) auto
qed

theorem concurrent_creates_share_stack_witness:
  "\<exists>s' f g. create_step\<^sup>*\<^sup>* \<lparr>cr_lib = ex_started, cr_pc = (\<lambda>_. CIdle)\<rparr> s' \<and>
    tl_threads (cr_lib s') 32 = Some f \<and> tl_threads (cr_lib s') 64 = Some g \<and> ut_stack_top f = ut_stack_top g"
proof -
  let ?s = "\<lparr>cr_lib = ex_started, cr_pc = (\<lambda>_. CIdle)\<rparr>"
  have "create_find (cr_lib ?s) = None"
    by (simp add: create_find_def get_struct_status_def ex_started_def ex_junk_def status_defs)
  from concurrent_creates_share_stack [OF this, of 1 2 32 64 5 6]
  show ?thesis by (auto simp: ex_started_def)
qed

text \<open>
  A failing \<open>thread_fork\<close> on a reused stack deadlocks the creating thread. \<open>thr_create\<close> locks the mutex of the struct to mark it dead again, and then, where
  it should unlock it, locks it a second time: the call does not return. When the fork succeeds, the same state lets it
  return the child.
\<close>

theorem failed_fork_deadlocks:
  assumes "create_find s = Some p" "tl_threads s p = Some th" "um_lock (ut_m th) \<noteq> 0" "child < 0" "0 \<le> child'"
  shows "thr_create np child thr junk node s = None \<and> (\<exists>s'. thr_create np child' thr junk node s = Some (child', s'))"
proof -
  have "ut_status th = THR_STATUS_DEAD"
    using assms(1,2) by (auto simp: create_find_def find_Some_iff get_struct_status_def)
  then have claim: "create_claim p s = Some (Some (ut_stack_top th),
      set_thread p (th\<lparr>ut_cv := [], ut_status := THR_STATUS_ALIVE, ut_m := \<lparr>um_lock = 1\<rparr>\<rparr>) s)"
    using assms(2,3) by (simp add: create_claim_def thread_ops)
  let ?th = "th\<lparr>ut_cv := [], ut_status := THR_STATUS_ALIVE, ut_m := \<lparr>um_lock = 1\<rparr>\<rparr>"
  have "create_revert p (set_thread p ?th s) = None" by (simp add: create_revert_def thread_ops)
  moreover have "\<exists>s'. create_commit_old p child' (set_thread p ?th s) = Some s'" by (simp add: create_commit_old_def thread_ops)
  ultimately show ?thesis using claim assms(1,4,5) by (auto simp: thr_create_def)
qed

theorem failed_fork_deadlocks_witness:
  "\<exists>s. thr_create 0 (-1) 32 ex_junk True s = None \<and> (\<exists>s'. thr_create 0 7 32 ex_junk True s = Some (7, s'))"
proof -
  let ?s = "set_thread 16 (ex_junk\<lparr>ut_status := 1, ut_m := \<lparr>um_lock = 1\<rparr>\<rparr>) ex_started"
  have "create_find ?s = Some 16" by (simp add: create_find_def get_struct_status_def ex_started_def set_thread_def status_defs)
  from failed_fork_deadlocks [OF this, of "ex_junk\<lparr>ut_status := 1, ut_m := \<lparr>um_lock = 1\<rparr>\<rparr>" "-1" 7 0 32 ex_junk True]
  show ?thesis by auto
qed

end
