(* ===== verification/Autostack.thy ===== *)
theory Autostack
  imports Prelude
begin

text \<open>
  \<open>user/libautostack/autostack.c\<close>: the page fault handler that a program without threads
  installs to grow its stack. The handler and the process that faults are modelled: the two
  global bounds of the stack, the pages the process has, and whether the handler is installed.
  The answers of the system calls \<open>new_pages\<close> and \<open>swexn\<close> are parameters. The value of
  \<open>SWEXN_CAUSE_PAGEFAULT\<close> is in the course header \<open>syscall.h\<close>, and a parameter too.
\<close>

subsection \<open>State and system calls\<close>

record autostack =
  STACK_TOP :: ptr
  STACK_BOTTOM :: ptr
  exception_stack :: ptr
  registered :: bool
  mapped :: "ptr \<Rightarrow> bool"

text \<open>
  \<open>np a\<close> is the answer of \<open>new_pages(a, PAGE_SIZE_u)\<close>; when it is not negative the page is
  there. \<open>sw True\<close> says that \<open>swexn\<close> accepts the handler, \<open>sw False\<close> that it accepts the
  call without a handler.
\<close>

abbreviation PAGE_SIZE_u :: u32 where
  "PAGE_SIZE_u \<equiv> 0x1000"

definition STACK_GROWTH_THRESHOLD :: u32 where
  "STACK_GROWTH_THRESHOLD = PAGE_SIZE_u * 32"

definition page_of :: "ptr \<Rightarrow> ptr" where
  "page_of a = a - a mod PAGE_SIZE_u"

definition new_pages_u :: "(ptr \<Rightarrow> int) \<Rightarrow> ptr \<Rightarrow> autostack \<Rightarrow> int \<times> autostack" where
  "new_pages_u np base s =
     (np base, if np base < 0 then s else s\<lparr>mapped := \<lambda>a. page_of a = base \<or> mapped s a\<rparr>)"

text \<open>
  The ways the handler ends. A call of \<open>swexn\<close> with a register set that succeeds does not
  return: the program resumes where it faulted. \<open>Returned\<close> is the return from the handler
  after the last \<open>swexn\<close> has failed, to an address the kernel does not define.
\<close>

datatype handler_end = Resumed | Panicked | Returned

definition page_fault_handler_u :: "u32 \<Rightarrow> (ptr \<Rightarrow> int) \<Rightarrow> (bool \<Rightarrow> bool) \<Rightarrow> u32 \<Rightarrow> ptr \<Rightarrow> autostack \<Rightarrow> handler_end \<times> autostack" where
  "page_fault_handler_u SWEXN_CAUSE_PAGEFAULT np sw cause cr2 s =
     (if cause = SWEXN_CAUSE_PAGEFAULT \<and> cr2 \<noteq> NULL then
        if \<not> STACK_TOP s \<ge> STACK_BOTTOM s then (Panicked, s)
        else if (STACK_BOTTOM s - STACK_GROWTH_THRESHOLD \<ge> cr2 \<or> cr2 < 0x1000000) \<and> sw False then (Resumed, s\<lparr>registered := False\<rparr>)
        else
          let new_stack_low = STACK_BOTTOM s - PAGE_SIZE_u;
              (r, s) = new_pages_u np new_stack_low s
          in if r < 0 \<and> sw False then (Resumed, s\<lparr>registered := False\<rparr>)
             else
               let s = s\<lparr>STACK_BOTTOM := new_stack_low\<rparr>
               in if \<not> sw True then (Panicked, s) else (Resumed, s\<lparr>registered := True\<rparr>)
      else if sw False then (Resumed, s\<lparr>registered := False\<rparr>) else (Returned, s))"

text \<open>\<open>exc\<close> is the answer of \<open>_malloc\<close>; \<open>swexn\<close> is called with it even when it is 0, which the kernel takes as a call without a handler.\<close>

definition install_autostack :: "ptr \<Rightarrow> (bool \<Rightarrow> bool) \<Rightarrow> ptr \<Rightarrow> ptr \<Rightarrow> autostack \<Rightarrow> autostack option" where
  "install_autostack exc sw stack_high stack_low s = do {
     let s = s\<lparr>STACK_TOP := stack_high, STACK_BOTTOM := stack_low, exception_stack := exc\<rparr>;
     c_assert (sw (exc \<noteq> NULL));
     Some (s\<lparr>registered := exc \<noteq> NULL\<rparr>)
   }"

text \<open>
  A program that accesses the address \<open>a\<close>: the access succeeds if the page is there; otherwise
  the kernel runs the handler, which is no longer registered while it runs, and the program
  repeats the access if the handler resumes it. Without a handler the program is killed. \<open>n\<close>
  bounds the number of faults.
\<close>

datatype access = Done autostack | Killed autostack | Stopped autostack | Faulting autostack

primrec access_u :: "u32 \<Rightarrow> (ptr \<Rightarrow> int) \<Rightarrow> (bool \<Rightarrow> bool) \<Rightarrow> nat \<Rightarrow> ptr \<Rightarrow> autostack \<Rightarrow> access" where
  "access_u pf np sw 0 a s = (if mapped s a then Done s else Faulting s)"
| "access_u pf np sw (Suc n) a s =
     (if mapped s a then Done s
      else if \<not> registered s then Killed s
      else case page_fault_handler_u pf np sw pf a (s\<lparr>registered := False\<rparr>) of
             (Resumed, s) \<Rightarrow> access_u pf np sw n a s
           | (_, s) \<Rightarrow> Stopped s)"

subsection \<open>Pages\<close>

lemma unat_page_of: "unat (page_of a) = unat a div 4096 * 4096"
proof -
  have "a mod PAGE_SIZE_u \<le> a" by (simp add: word_le_nat_alt unat_mod)
  then have "unat (page_of a) = unat a - unat a mod 4096" by (simp add: page_of_def unat_sub unat_mod)
  then show ?thesis by (simp add: minus_mod_eq_div_mult)
qed

lemma unat_page_below:
  assumes "4096 \<le> unat b"
  shows "unat (b - PAGE_SIZE_u) = unat b - 4096"
  using assms by (simp add: unat_sub word_le_nat_alt)

text \<open>An address is on the page below \<open>b\<close> exactly when it lies between the two bounds.\<close>

lemma page_of_below:
  assumes "4096 dvd unat b" "4096 \<le> unat b"
  shows "page_of x = b - PAGE_SIZE_u \<longleftrightarrow> unat b - 4096 \<le> unat x \<and> unat x < unat b"
proof -
  obtain k where k: "unat b = 4096 * Suc k"
    using assms by (metis dvd_def less_le_trans not0_implies_Suc not_less_zero zero_less_numeral mult_0_right)
  have "page_of x = b - PAGE_SIZE_u \<longleftrightarrow> unat x div 4096 * 4096 = 4096 * k"
    using unat_page_below [OF assms(2)] k by (simp add: word_unat_eq_iff unat_page_of)
  also have "\<dots> \<longleftrightarrow> 4096 * k \<le> unat x \<and> unat x < 4096 * Suc k"
    by (simp add: mult.commute [of _ 4096] div_nat_eqI) (auto simp: div_nat_eqI)
  finally show ?thesis using k by simp
qed

subsection \<open>Growth\<close>

lemma threshold_unat: "unat STACK_GROWTH_THRESHOLD = 0x20000"
  by (simp add: STACK_GROWTH_THRESHOLD_def)

text \<open>The state after one page more.\<close>

definition grown :: "autostack \<Rightarrow> autostack" where
  "grown s = s\<lparr>STACK_BOTTOM := STACK_BOTTOM s - PAGE_SIZE_u, registered := True,
                mapped := \<lambda>x. page_of x = STACK_BOTTOM s - PAGE_SIZE_u \<or> mapped s x\<rparr>"

text \<open>The window in which the handler takes a fault for stack growth.\<close>

definition in_window :: "ptr \<Rightarrow> autostack \<Rightarrow> bool" where
  "in_window a s \<longleftrightarrow> 0x1000000 \<le> unat a \<and> unat (STACK_BOTTOM s) < unat a + 0x20000"

lemma handler_grows:
  assumes "in_window a s" "0x20000 \<le> unat (STACK_BOTTOM s)" "STACK_BOTTOM s \<le> STACK_TOP s"
    "0 \<le> np (STACK_BOTTOM s - PAGE_SIZE_u)" "sw True"
  shows "page_fault_handler_u pf np sw pf a (s\<lparr>registered := r\<rparr>) = (Resumed, grown s)"
proof -
  have "a \<noteq> NULL" using assms(1) by (auto simp: in_window_def)
  moreover have "\<not> (STACK_BOTTOM s - STACK_GROWTH_THRESHOLD \<ge> a \<or> a < 0x1000000)"
    using assms(1,2) threshold_unat
    by (simp add: in_window_def word_le_nat_alt word_less_nat_alt unat_sub) linarith
  ultimately show ?thesis
    using assms(3-5) by (simp add: page_fault_handler_u_def new_pages_u_def Let_def grown_def)
qed

lemma handler_gives_up:
  assumes "\<not> in_window a s" "0x20000 \<le> unat (STACK_BOTTOM s)" "STACK_BOTTOM s \<le> STACK_TOP s" "sw False"
  shows "page_fault_handler_u pf np sw pf a s = (Resumed, s\<lparr>registered := False\<rparr>)"
proof -
  have "STACK_BOTTOM s - STACK_GROWTH_THRESHOLD \<ge> a \<or> a < 0x1000000"
    using assms(1,2) threshold_unat
    by (auto simp: in_window_def word_le_nat_alt word_less_nat_alt unat_sub)
  then show ?thesis using assms(3,4) by (auto simp: page_fault_handler_u_def)
qed

lemma access_grows:
  assumes "unat (STACK_BOTTOM s) = unat (page_of a) + 4096 * Suc k" "in_window a s"
    "STACK_BOTTOM s \<le> STACK_TOP s" "registered s" "sw True"
    "\<forall>x. page_of a \<le> x \<and> x < STACK_BOTTOM s \<longrightarrow> \<not> mapped s x \<and> 0 \<le> np x"
  shows "access_u pf np sw (Suc k) a s = Done (s\<lparr>STACK_BOTTOM := page_of a,
           mapped := \<lambda>x. page_of a \<le> x \<and> x < STACK_BOTTOM s \<or> mapped s x\<rparr>) \<and>
         (\<exists>s'. access_u pf np sw k a s = Faulting s')"
  using assms
proof (induction k arbitrary: s)
  case 0
  let ?b = "STACK_BOTTOM s"
  have al: "4096 dvd unat ?b" "4096 \<le> unat ?b" using 0(1) by (simp_all add: unat_page_of)
  have pa: "?b - PAGE_SIZE_u = page_of a"
    using 0(1) unat_page_below [OF al(2)] by (simp add: word_unat_eq_iff)
  have ab: "page_of a \<le> a" "a < ?b"
    using 0(1) by (simp_all add: word_le_nat_alt word_less_nat_alt unat_page_of)
  have pb: "page_of a < ?b" using 0(1) by (simp add: word_less_nat_alt)
  have h: "page_fault_handler_u pf np sw pf a (s\<lparr>registered := False\<rparr>) = (Resumed, grown s)"
    using 0 ab pb pa by (intro handler_grows) (auto simp: word_less_nat_alt in_window_def)
  have g: "grown s = s\<lparr>STACK_BOTTOM := page_of a, mapped := \<lambda>x. page_of a \<le> x \<and> x < ?b \<or> mapped s x\<rparr>"
    using 0(1,4) page_of_below [OF al] pa
    by (cases s) (simp add: grown_def word_le_nat_alt word_less_nat_alt fun_eq_iff)
  then show ?case using 0(4,6) h ab by simp
next
  case (Suc k)
  let ?b = "STACK_BOTTOM s"
  have al: "4096 dvd unat ?b" "4096 \<le> unat ?b" using Suc(2) by (simp_all add: unat_page_of)
  have b1: "unat (?b - PAGE_SIZE_u) = unat (page_of a) + 4096 * Suc k"
    using Suc(2) unat_page_below [OF al(2)] by simp
  have ab: "page_of a \<le> a" "a < ?b"
    using Suc(2) by (simp_all add: word_le_nat_alt word_less_nat_alt unat_page_of)
  have pb: "page_of a \<le> ?b - PAGE_SIZE_u" "?b - PAGE_SIZE_u < ?b"
    using b1 Suc(2) by (simp_all add: word_le_nat_alt word_less_nat_alt)
  have h: "page_fault_handler_u pf np sw pf a (s\<lparr>registered := False\<rparr>) = (Resumed, grown s)"
    using Suc ab pb by (intro handler_grows) (auto simp: word_less_nat_alt in_window_def)
  have new: "page_of x = ?b - PAGE_SIZE_u \<longleftrightarrow> ?b - PAGE_SIZE_u \<le> x \<and> x < ?b" for x
    using page_of_below [OF al] unat_page_below [OF al(2)] by (simp add: word_le_nat_alt word_less_nat_alt)
  have join: "page_of a \<le> x \<and> x < ?b - PAGE_SIZE_u \<or> (?b - PAGE_SIZE_u \<le> x \<and> x < ?b) \<or> m \<longleftrightarrow>
      page_of a \<le> x \<and> x < ?b \<or> m" for x m
    using pb unfolding word_le_nat_alt word_less_nat_alt by linarith
  have set_eq: "(\<lambda>x. page_of a \<le> x \<and> x < ?b - PAGE_SIZE_u \<or> page_of x = ?b - PAGE_SIZE_u \<or> mapped s x) =
      (\<lambda>x. page_of a \<le> x \<and> x < ?b \<or> mapped s x)"
    by (simp only: new join)
  have "access_u pf np sw (Suc k) a (grown s) = Done ((grown s)\<lparr>STACK_BOTTOM := page_of a,
           mapped := \<lambda>x. page_of a \<le> x \<and> x < STACK_BOTTOM (grown s) \<or> mapped (grown s) x\<rparr>) \<and>
        (\<exists>s'. access_u pf np sw k a (grown s) = Faulting s')"
  proof (rule Suc.IH)
    show "unat (STACK_BOTTOM (grown s)) = unat (page_of a) + 4096 * Suc k" using b1 by (simp add: grown_def)
    show "in_window a (grown s)" using Suc(3) pb by (auto simp: in_window_def grown_def word_less_nat_alt)
    show "STACK_BOTTOM (grown s) \<le> STACK_TOP (grown s)" using Suc(4) pb by (simp add: grown_def)
    show "\<forall>x. page_of a \<le> x \<and> x < STACK_BOTTOM (grown s) \<longrightarrow> \<not> mapped (grown s) x \<and> 0 \<le> np x"
      using Suc(7) pb new by (auto simp: grown_def)
  qed (use Suc(5,6) in \<open>simp_all add: grown_def\<close>)
  moreover have "(grown s)\<lparr>STACK_BOTTOM := page_of a, mapped := \<lambda>x. page_of a \<le> x \<and> x < STACK_BOTTOM (grown s) \<or> mapped (grown s) x\<rparr> =
      s\<lparr>STACK_BOTTOM := page_of a, mapped := \<lambda>x. page_of a \<le> x \<and> x < ?b \<or> mapped s x\<rparr>"
    using Suc(5) set_eq by (cases s) (simp add: grown_def)
  ultimately show ?case using Suc(5,7) h ab by simp
qed

subsection \<open>The property\<close>


definition ex_stack :: autostack where
  "ex_stack = \<lparr>STACK_TOP = 0xfffff000, STACK_BOTTOM = 0xffffe000, exception_stack = 0x2000000, registered = True, mapped = \<lambda>x. page_of x = 0xffffe000\<rparr>"


end
