(* ===== verification/InterruptTable.thy ===== *)
theory InterruptTable
  imports Prelude
begin

text \<open>
  \<open>kern/install_handlers.c\<close>: the interrupt descriptor table. An entry of the table is four
  halfwords; the table is memory of halfwords by their byte address. The interrupt numbers are
  defined in course headers (\<open>syscall_int.h\<close>, \<open>x86/idt.h\<close> and others) and the addresses of the
  handlers are fixed by the linker, so both are parameters, as are the base of the table, the
  kernel's code selector and the rate of the timer.
\<close>

subsection \<open>Names\<close>

datatype idt_handler =
    syscall_fork_handler | syscall_thread_fork_handler | syscall_exec_handler |
    syscall_set_status_handler | syscall_vanish_handler | syscall_wait_handler |
    syscall_gettid_handler | syscall_yield_handler | syscall_deschedule_handler |
    syscall_make_runnable_handler | syscall_get_ticks_handler | syscall_sleep_handler |
    syscall_swexn_handler | syscall_new_pages_handler | syscall_remove_pages_handler |
    syscall_readline_handler | syscall_print_handler | syscall_set_term_color_handler |
    syscall_set_cursor_pos_handler | syscall_get_cursor_pos_handler | syscall_readfile_handler |
    syscall_halt_handler | syscall_misbehave_handler | page_fault_handler |
    double_fault_handler | division_error_handler | debug_exception_handler |
    breakpoint_handler | overflow_handler | bound_range_handler |
    undef_op_handler | no_math_handler | coprocessor_segment_overrun_handler |
    invalid_tss_handler | segment_not_present_handler | gp_fault_handler |
    math_fault_handler | align_fault_handler | machine_check_fault_handler |
    simd_fault_handler | timer_handler | keyboard_handler

datatype idt_vector =
    FORK_INT | THREAD_FORK_INT | EXEC_INT | SET_STATUS_INT | VANISH_INT |
    WAIT_INT | GETTID_INT | YIELD_INT | DESCHEDULE_INT | MAKE_RUNNABLE_INT |
    GET_TICKS_INT | SLEEP_INT | SWEXN_INT | NEW_PAGES_INT | REMOVE_PAGES_INT |
    READLINE_INT | PRINT_INT | SET_TERM_COLOR_INT | SET_CURSOR_POS_INT | GET_CURSOR_POS_INT |
    READFILE_INT | HALT_INT | MISBEHAVE_INT | GETCHAR_INT | TASK_VANISH_INT |
    IDT_PF | IDT_DF | IDT_DE | IDT_DB | IDT_BP |
    IDT_OF | IDT_BR | IDT_UD | IDT_NM | IDT_CSO |
    IDT_TS | IDT_NP | IDT_SS | IDT_GP | IDT_MF |
    IDT_AC | IDT_MC | IDT_XF | TIMER_IDT_ENTRY | KEY_IDT_ENTRY

record machine =
  idt_base :: ptr
  SEGSEL_KERNEL_CS :: "16 word"
  addr_of :: "idt_handler \<Rightarrow> u32"
  int_num :: "idt_vector \<Rightarrow> u32"
  TIMER_RATE :: int
  TIMER_SQUARE_WAVE :: "8 word"
  TIMER_MODE_IO_PORT :: "16 word"
  TIMER_PERIOD_IO_PORT :: "16 word"

type_synonym idt_mem = "ptr \<Rightarrow> 16 word"

subsection \<open>One entry\<close>

definition FLAG_TRAP_GATE :: "16 word" where
  "FLAG_TRAP_GATE = 0x7"

definition FLAG_INTERRUPT_GATE :: "16 word" where
  "FLAG_INTERRUPT_GATE = 0x6"

text \<open>The flag byte is assembled in an \<open>int\<close>, shifted into the upper byte and cut to 16 bits.\<close>

definition idt_flags :: "8 word \<Rightarrow> 8 word \<Rightarrow> 8 word \<Rightarrow> 16 word \<Rightarrow> 16 word" where
  "idt_flags p dpl d flag_base =
     ucast (push_bit 8 ((ucast flag_base :: u32) OR push_bit 7 (ucast p) OR push_bit 5 (ucast dpl) OR push_bit 3 (ucast d)))"

definition idt_entry :: "ptr \<Rightarrow> u32 \<Rightarrow> ptr" where
  "idt_entry base entryid = base + 4 * (2 * entryid)"

definition idt_install_entry :: "ptr \<Rightarrow> u32 \<Rightarrow> 16 word \<Rightarrow> 8 word \<Rightarrow> 8 word \<Rightarrow> 8 word \<Rightarrow> u32 \<Rightarrow> 16 word \<Rightarrow> idt_mem \<Rightarrow> idt_mem" where
  "idt_install_entry base offset seg_sel p dpl d entryid flag_base m =
     (let e = idt_entry base entryid;
          offset_l = ucast (offset AND 0xFFFF);
          offset_h = ucast (drop_bit 16 offset AND 0xFFFF);
          flags = idt_flags p dpl d flag_base;
          m = m(e := offset_l);
          m = m(e + 2 := seg_sel);
          m = m(e + 4 := m (e + 4) AND 0x0F);
          m = m(e + 4 := m (e + 4) OR flags)
      in m(e + 6 := offset_h))"

subsection \<open>The three tables\<close>

text \<open>The calls of each function, in its order, as a table of their arguments.\<close>

definition INSTALL_SYSCALL :: "machine \<Rightarrow> idt_handler \<Rightarrow> idt_vector \<Rightarrow> idt_mem \<Rightarrow> idt_mem" where
  "INSTALL_SYSCALL c handler v =
     idt_install_entry (idt_base c) (addr_of c handler) (SEGSEL_KERNEL_CS c) 1 3 1 (int_num c v) FLAG_TRAP_GATE"

definition syscall_table :: "(idt_handler \<times> idt_vector) list" where
  "syscall_table =
     [(syscall_fork_handler, FORK_INT), (syscall_thread_fork_handler, THREAD_FORK_INT), (syscall_exec_handler, EXEC_INT),
      (syscall_set_status_handler, SET_STATUS_INT), (syscall_vanish_handler, VANISH_INT), (syscall_wait_handler, WAIT_INT),
      (syscall_gettid_handler, GETTID_INT), (syscall_yield_handler, YIELD_INT), (syscall_deschedule_handler, DESCHEDULE_INT),
      (syscall_make_runnable_handler, MAKE_RUNNABLE_INT), (syscall_get_ticks_handler, GET_TICKS_INT), (syscall_sleep_handler, SLEEP_INT),
      (syscall_swexn_handler, SWEXN_INT), (syscall_new_pages_handler, NEW_PAGES_INT), (syscall_remove_pages_handler, REMOVE_PAGES_INT),
      (syscall_readline_handler, READLINE_INT), (syscall_print_handler, PRINT_INT), (syscall_set_term_color_handler, SET_TERM_COLOR_INT),
      (syscall_set_cursor_pos_handler, SET_CURSOR_POS_INT), (syscall_get_cursor_pos_handler, GET_CURSOR_POS_INT), (syscall_readfile_handler, READFILE_INT),
      (syscall_halt_handler, HALT_INT), (syscall_misbehave_handler, MISBEHAVE_INT)]"

definition install_syscall_handlers :: "machine \<Rightarrow> idt_mem \<Rightarrow> int \<times> idt_mem" where
  "install_syscall_handlers c m = (0, fold (\<lambda>(handler, v). INSTALL_SYSCALL c handler v) syscall_table m)"

text \<open>The calls of \<open>idt_install_entry\<close> for exceptions and devices, all with privilege level 0.\<close>

definition install_kernel_gate :: "machine \<Rightarrow> idt_handler \<Rightarrow> idt_vector \<Rightarrow> 16 word \<Rightarrow> idt_mem \<Rightarrow> idt_mem" where
  "install_kernel_gate c handler v flag_base =
     idt_install_entry (idt_base c) (addr_of c handler) (SEGSEL_KERNEL_CS c) 1 0 1 (int_num c v) flag_base"

definition exception_table :: "(idt_handler \<times> idt_vector \<times> 16 word) list" where
  "exception_table =
     [(page_fault_handler, IDT_PF, FLAG_INTERRUPT_GATE), (double_fault_handler, IDT_DF, FLAG_INTERRUPT_GATE),
      (division_error_handler, IDT_DE, FLAG_INTERRUPT_GATE), (debug_exception_handler, IDT_DB, FLAG_INTERRUPT_GATE),
      (breakpoint_handler, IDT_BP, FLAG_TRAP_GATE), (overflow_handler, IDT_OF, FLAG_TRAP_GATE),
      (bound_range_handler, IDT_BR, FLAG_INTERRUPT_GATE), (undef_op_handler, IDT_UD, FLAG_TRAP_GATE),
      (no_math_handler, IDT_NM, FLAG_INTERRUPT_GATE), (coprocessor_segment_overrun_handler, IDT_CSO, FLAG_INTERRUPT_GATE),
      (invalid_tss_handler, IDT_TS, FLAG_INTERRUPT_GATE), (segment_not_present_handler, IDT_NP, FLAG_INTERRUPT_GATE),
      (page_fault_handler, IDT_SS, FLAG_INTERRUPT_GATE), (gp_fault_handler, IDT_GP, FLAG_INTERRUPT_GATE),
      (math_fault_handler, IDT_MF, FLAG_INTERRUPT_GATE), (align_fault_handler, IDT_AC, FLAG_INTERRUPT_GATE),
      (machine_check_fault_handler, IDT_MC, FLAG_INTERRUPT_GATE), (simd_fault_handler, IDT_XF, FLAG_INTERRUPT_GATE)]"

definition install_exception_handlers :: "machine \<Rightarrow> idt_mem \<Rightarrow> int \<times> idt_mem" where
  "install_exception_handlers c m = (0, fold (\<lambda>(handler, v, flag_base). install_kernel_gate c handler v flag_base) exception_table m)"

text \<open>The timer is programmed through three writes to ports, which the model returns.\<close>

definition TIMER_CYCLES :: "machine \<Rightarrow> int" where
  "TIMER_CYCLES c = TIMER_RATE c * 10 div 1000"

definition install_peripheral_handlers :: "machine \<Rightarrow> idt_mem \<Rightarrow> int \<times> (8 word \<times> 16 word) list \<times> idt_mem" where
  "install_peripheral_handlers c m =
     (let m = install_kernel_gate c timer_handler TIMER_IDT_ENTRY FLAG_INTERRUPT_GATE m;
          lsb = word_of_int (TIMER_CYCLES c AND 0xFF);
          msb = word_of_int (drop_bit 8 (TIMER_CYCLES c) AND 0xFF);
          ports = [(TIMER_SQUARE_WAVE c, TIMER_MODE_IO_PORT c), (lsb, TIMER_PERIOD_IO_PORT c), (msb, TIMER_PERIOD_IO_PORT c)];
          m = install_kernel_gate c keyboard_handler KEY_IDT_ENTRY FLAG_INTERRUPT_GATE m
      in (0, ports, m))"

text \<open>The three calls of \<open>kernel_main\<close>, in its order.\<close>

definition install_all :: "machine \<Rightarrow> idt_mem \<Rightarrow> idt_mem" where
  "install_all c m =
     (let (_, m) = install_syscall_handlers c m;
          (_, _, m) = install_peripheral_handlers c m;
          (_, m) = install_exception_handlers c m
      in m)"

subsection \<open>What the processor reads\<close>

text \<open>
  The gate that the processor finds in an entry: type 0xE is a 32-bit interrupt gate, 0xF a 32-bit
  trap gate; three bits of the entry have to be zero.
\<close>

record gate =
  g_offset :: u32
  g_selector :: "16 word"
  g_present :: bool
  g_dpl :: "16 word"
  g_type :: "16 word"
  g_zero :: bool

definition read_gate :: "ptr \<Rightarrow> u32 \<Rightarrow> idt_mem \<Rightarrow> gate" where
  "read_gate base n m =
     (let e = idt_entry base n; fl = m (e + 4)
      in \<lparr>g_offset = push_bit 16 (ucast (m (e + 6))) OR ucast (m e), g_selector = m (e + 2), g_present = bit fl 15,
          g_dpl = drop_bit 13 fl AND 3, g_type = drop_bit 8 fl AND 0x1F, g_zero = (drop_bit 5 fl AND 7 = 0)\<rparr>)"

lemma offset_halves:
  "push_bit 16 (ucast (ucast (drop_bit 16 (x :: u32) AND 0xFFFF) :: 16 word)) OR ucast (ucast (x AND 0xFFFF) :: 16 word) = x"
proof -
  have "(0xFFFF :: u32) = mask 16" by (simp add: mask_eq_exp_minus_1)
  then show ?thesis by (auto simp: bit_eq_iff bit_simps)
qed

lemma low_bits_gone:
  fixes w x :: "16 word"
  assumes "4 \<le> n"
  shows "drop_bit n (x AND 0x0F OR w) = drop_bit n w" "bit (x AND 0x0F OR w) n = bit w n"
proof -
  have "(0x0F :: 16 word) = mask 4" by (simp add: mask_eq_exp_minus_1)
  then show "drop_bit n (x AND 0x0F OR w) = drop_bit n w" "bit (x AND 0x0F OR w) n = bit w n"
    using assms by (auto simp: bit_eq_iff bit_simps)
qed

text \<open>The halfwords of an entry are different addresses, and the entries of a table do not overlap.\<close>

lemma entry_apart:
  assumes "n < 256" "n' < 256" "k \<in> {0, 2, 4, 6}" "k' \<in> {0, 2, 4, 6}"
  shows "idt_entry base n + k = idt_entry base n' + k' \<longleftrightarrow> n = n' \<and> k = k'"
proof -
  have u: "unat (4 * (2 * i) + j) = 8 * unat i + unat j" if "i < 256" "j \<in> {0, 2, 4, 6}" for i j :: u32
  proof -
    have "unat i < 256" using that(1) by (simp add: word_less_nat_alt)
    moreover have "unat j \<le> 6" using that(2) by auto
    ultimately show ?thesis by (simp add: unat_word_ariths)
  qed
  have s: "unat j \<in> {0, 2, 4, 6}" if "j \<in> {0, 2, 4, 6}" for j :: u32 using that by auto
  have "idt_entry base n + k = idt_entry base n' + k' \<longleftrightarrow> 4 * (2 * n) + k = 4 * (2 * n') + k'"
    by (simp add: idt_entry_def add.assoc)
  also have "\<dots> \<longleftrightarrow> 8 * unat n + unat k = 8 * unat n' + unat k'"
    using u [OF assms(1,3)] u [OF assms(2,4)] by (simp add: word_unat_eq_iff)
  also have "\<dots> \<longleftrightarrow> unat n = unat n' \<and> unat k = unat k'" using s [OF assms(3)] s [OF assms(4)] by auto arith+
  finally show ?thesis by (simp add: word_unat_eq_iff)
qed

lemma read_installed:
  "read_gate base n (idt_install_entry base off sel p dpl d n fb m) =
     (let fl = idt_flags p dpl d fb
      in \<lparr>g_offset = off, g_selector = sel, g_present = bit fl 15, g_dpl = drop_bit 13 fl AND 3,
          g_type = drop_bit 8 fl AND 0x1F, g_zero = (drop_bit 5 fl AND 7 = 0)\<rparr>)"
  by (simp add: read_gate_def idt_install_entry_def Let_def offset_halves low_bits_gone)

lemma read_other:
  assumes "n < 256" "n' < 256" "n \<noteq> n'"
  shows "read_gate base n' (idt_install_entry base off sel p dpl d n fb m) = read_gate base n' m"
proof -
  let ?m = "idt_install_entry base off sel p dpl d n fb m"
  have ne: "idt_entry base n' + k' \<noteq> idt_entry base n + k" if "k \<in> {0, 2, 4, 6}" "k' \<in> {0, 2, 4, 6}" for k k'
    using entry_apart [OF assms(2,1) that(2,1)] assms(3) by simp
  have "?m (idt_entry base n' + k') = m (idt_entry base n' + k')" if "k' \<in> {0, 2, 4, 6}" for k'
    using ne [of 0 k'] ne [of 2 k'] ne [of 4 k'] ne [of 6 k'] that
    by (simp add: idt_install_entry_def Let_def)
  from this [of 0] this [of 2] this [of 4] this [of 6] show ?thesis
    by (simp add: read_gate_def Let_def)
qed

subsection \<open>Tables of entries\<close>

definition gate_of :: "machine \<Rightarrow> idt_handler \<Rightarrow> 16 word \<Rightarrow> 16 word \<Rightarrow> gate" where
  "gate_of c h dpl ty = \<lparr>g_offset = addr_of c h, g_selector = SEGSEL_KERNEL_CS c, g_present = True, g_dpl = dpl, g_type = ty, g_zero = True\<rparr>"

lemma gate_flags:
  "idt_flags 1 3 1 FLAG_TRAP_GATE = 0xEF00"
  "idt_flags 1 0 1 FLAG_TRAP_GATE = 0x8F00"
  "idt_flags 1 0 1 FLAG_INTERRUPT_GATE = 0x8E00"
  by (simp_all add: idt_flags_def FLAG_TRAP_GATE_def FLAG_INTERRUPT_GATE_def)

lemma read_INSTALL_SYSCALL:
  "read_gate (idt_base c) (int_num c v) (INSTALL_SYSCALL c h v m) = gate_of c h 3 0xF"
  by (simp add: INSTALL_SYSCALL_def read_installed gate_flags gate_of_def Let_def bit_iff_odd drop_bit_eq_div)

lemma read_install_kernel_gate:
  "read_gate (idt_base c) (int_num c v) (install_kernel_gate c h v FLAG_TRAP_GATE m) = gate_of c h 0 0xF"
  "read_gate (idt_base c) (int_num c v) (install_kernel_gate c h v FLAG_INTERRUPT_GATE m) = gate_of c h 0 0xE"
  by (simp_all add: install_kernel_gate_def read_installed gate_flags gate_of_def Let_def bit_iff_odd drop_bit_eq_div)

text \<open>The interrupt numbers of the course headers: different, and inside of the table.\<close>

definition numbers_ok :: "machine \<Rightarrow> bool" where
  "numbers_ok c \<longleftrightarrow> inj (int_num c) \<and> (\<forall>v. int_num c v < 256)"

text \<open>Writing a table of gates: every entry holds its gate, the others are as before.\<close>

lemma read_fold:
  assumes "\<And>x m. x \<in> set xs \<Longrightarrow> read (key x) (f x m) = val x"
    and "\<And>x m n. x \<in> set xs \<Longrightarrow> ok n \<Longrightarrow> n \<noteq> key x \<Longrightarrow> read n (f x m) = read n m"
    and "distinct (map key xs)" "ok n"
  shows "read n (fold f xs m) = (case map_of (map (\<lambda>x. (key x, val x)) xs) n of None \<Rightarrow> read n m | Some g \<Rightarrow> g)"
  using assms
proof (induction xs arbitrary: m)
  case (Cons x xs)
  have IH: "read n (fold f xs m') = (case map_of (map (\<lambda>x. (key x, val x)) xs) n of None \<Rightarrow> read n m' | Some g \<Rightarrow> g)" for m'
    using Cons.prems by (intro Cons.IH) auto
  show ?case
  proof (cases "n = key x")
    case True
    then have "map_of (map (\<lambda>x. (key x, val x)) xs) n = None"
      using Cons.prems(3) by (auto simp: map_of_eq_None_iff image_image)
    then show ?thesis using IH Cons.prems(1) [of x m] True by simp
  next
    case False
    then show ?thesis using IH Cons.prems(2) [of x n m] Cons.prems(4) by (simp split: option.split)
  qed
qed simp

lemma read_other_vector:
  assumes "numbers_ok c" "n < 256" "n \<noteq> int_num c v"
  shows "read_gate (idt_base c) n (INSTALL_SYSCALL c h v m) = read_gate (idt_base c) n m"
    "read_gate (idt_base c) n (install_kernel_gate c h v fb m) = read_gate (idt_base c) n m"
  using assms by (simp_all add: INSTALL_SYSCALL_def install_kernel_gate_def numbers_ok_def read_other)

lemma map_of_inj:
  assumes "inj f"
  shows "map_of (map (\<lambda>x. (f (k x), w x)) xs) (f v) = map_of (map (\<lambda>x. (k x, w x)) xs) v"
  using assms by (induction xs) (simp_all add: inj_eq)

lemma distinct_map_inj: "inj f \<Longrightarrow> distinct (map (\<lambda>x. f (k x)) xs) = distinct (map k xs)"
  by (induction xs) (auto simp: inj_eq)

subsection \<open>The table after the start\<close>

text \<open>The handler of \<open>idt_handlers.h\<close> that each number is for; two system calls have none.\<close>

primrec entry_of :: "idt_vector \<Rightarrow> idt_handler option" where
  "entry_of FORK_INT = Some syscall_fork_handler"
| "entry_of THREAD_FORK_INT = Some syscall_thread_fork_handler"
| "entry_of EXEC_INT = Some syscall_exec_handler"
| "entry_of SET_STATUS_INT = Some syscall_set_status_handler"
| "entry_of VANISH_INT = Some syscall_vanish_handler"
| "entry_of WAIT_INT = Some syscall_wait_handler"
| "entry_of GETTID_INT = Some syscall_gettid_handler"
| "entry_of YIELD_INT = Some syscall_yield_handler"
| "entry_of DESCHEDULE_INT = Some syscall_deschedule_handler"
| "entry_of MAKE_RUNNABLE_INT = Some syscall_make_runnable_handler"
| "entry_of GET_TICKS_INT = Some syscall_get_ticks_handler"
| "entry_of SLEEP_INT = Some syscall_sleep_handler"
| "entry_of SWEXN_INT = Some syscall_swexn_handler"
| "entry_of NEW_PAGES_INT = Some syscall_new_pages_handler"
| "entry_of REMOVE_PAGES_INT = Some syscall_remove_pages_handler"
| "entry_of READLINE_INT = Some syscall_readline_handler"
| "entry_of PRINT_INT = Some syscall_print_handler"
| "entry_of SET_TERM_COLOR_INT = Some syscall_set_term_color_handler"
| "entry_of SET_CURSOR_POS_INT = Some syscall_set_cursor_pos_handler"
| "entry_of GET_CURSOR_POS_INT = Some syscall_get_cursor_pos_handler"
| "entry_of READFILE_INT = Some syscall_readfile_handler"
| "entry_of HALT_INT = Some syscall_halt_handler"
| "entry_of MISBEHAVE_INT = Some syscall_misbehave_handler"
| "entry_of GETCHAR_INT = None"
| "entry_of TASK_VANISH_INT = None"
| "entry_of IDT_PF = Some page_fault_handler"
| "entry_of IDT_DF = Some double_fault_handler"
| "entry_of IDT_DE = Some division_error_handler"
| "entry_of IDT_DB = Some debug_exception_handler"
| "entry_of IDT_BP = Some breakpoint_handler"
| "entry_of IDT_OF = Some overflow_handler"
| "entry_of IDT_BR = Some bound_range_handler"
| "entry_of IDT_UD = Some undef_op_handler"
| "entry_of IDT_NM = Some no_math_handler"
| "entry_of IDT_CSO = Some coprocessor_segment_overrun_handler"
| "entry_of IDT_TS = Some invalid_tss_handler"
| "entry_of IDT_NP = Some segment_not_present_handler"
| "entry_of IDT_SS = Some page_fault_handler"
| "entry_of IDT_GP = Some gp_fault_handler"
| "entry_of IDT_MF = Some math_fault_handler"
| "entry_of IDT_AC = Some align_fault_handler"
| "entry_of IDT_MC = Some machine_check_fault_handler"
| "entry_of IDT_XF = Some simd_fault_handler"
| "entry_of TIMER_IDT_ENTRY = Some timer_handler"
| "entry_of KEY_IDT_ENTRY = Some keyboard_handler"

definition is_syscall :: "idt_vector \<Rightarrow> bool" where
  "is_syscall v \<longleftrightarrow> v \<notin> {IDT_PF, IDT_DF, IDT_DE, IDT_DB, IDT_BP, IDT_OF, IDT_BR, IDT_UD, IDT_NM, IDT_CSO, IDT_TS, IDT_NP, IDT_SS, IDT_GP, IDT_MF, IDT_AC, IDT_MC, IDT_XF, TIMER_IDT_ENTRY, KEY_IDT_ENTRY}"

lemma read_syscalls:
  assumes "numbers_ok c" "distinct (map snd xs)" "n < 256"
  shows "read_gate (idt_base c) n (fold (\<lambda>(h, v). INSTALL_SYSCALL c h v) xs m) =
    (case map_of (map (\<lambda>x. (int_num c (snd x), gate_of c (fst x) 3 0xF)) xs) n of None \<Rightarrow> read_gate (idt_base c) n m | Some g \<Rightarrow> g)"
  by (rule read_fold [where read = "read_gate (idt_base c)" and key = "\<lambda>x. int_num c (snd x)" and val = "\<lambda>x. gate_of c (fst x) 3 0xF" and ok = "\<lambda>n. n < 256"])
    (use assms in \<open>auto simp: read_INSTALL_SYSCALL read_other_vector distinct_map_inj numbers_ok_def\<close>)

definition type_of :: "16 word \<Rightarrow> 16 word" where
  "type_of fb = (if fb = FLAG_TRAP_GATE then 0xF else 0xE)"

lemma type_of_simps [simp]:
  "type_of FLAG_TRAP_GATE = 0xF"
  "type_of FLAG_INTERRUPT_GATE = 0xE"
  by (simp_all add: type_of_def FLAG_TRAP_GATE_def FLAG_INTERRUPT_GATE_def)

lemma read_exceptions:
  assumes "numbers_ok c" "distinct (map (fst \<circ> snd) xs)" "n < 256"
    "(snd \<circ> snd) ` set xs \<subseteq> {FLAG_TRAP_GATE, FLAG_INTERRUPT_GATE}"
  shows "read_gate (idt_base c) n (fold (\<lambda>(h, v, fb). install_kernel_gate c h v fb) xs m) =
    (case map_of (map (\<lambda>x. (int_num c ((fst \<circ> snd) x), gate_of c (fst x) 0 (type_of (snd (snd x))))) xs) n
     of None \<Rightarrow> read_gate (idt_base c) n m | Some g \<Rightarrow> g)"
proof (rule read_fold [where read = "read_gate (idt_base c)" and key = "\<lambda>x. int_num c ((fst \<circ> snd) x)"
      and val = "\<lambda>x. gate_of c (fst x) 0 (type_of (snd (snd x)))" and ok = "\<lambda>n. n < 256"])
  fix x m
  assume "x \<in> set xs"
  then have "snd (snd x) \<in> {FLAG_TRAP_GATE, FLAG_INTERRUPT_GATE}" using assms(4) by auto
  then show "read_gate (idt_base c) (int_num c ((fst \<circ> snd) x)) ((\<lambda>(h, v, fb). install_kernel_gate c h v fb) x m) =
      gate_of c (fst x) 0 (type_of (snd (snd x)))"
    by (auto simp: split_beta read_install_kernel_gate)
next
  show "distinct (map (\<lambda>x. int_num c ((fst \<circ> snd) x)) xs)"
    using assms(1,2) distinct_map_inj [of "int_num c" "fst \<circ> snd" xs] by (simp add: numbers_ok_def)
qed (use assms in \<open>auto simp: split_beta read_other_vector\<close>)

lemma tables_distinct:
  "distinct (map snd syscall_table)"
  "distinct (map (fst \<circ> snd) exception_table)"
  "(snd \<circ> snd) ` set exception_table \<subseteq> {FLAG_TRAP_GATE, FLAG_INTERRUPT_GATE}"
  by (simp_all add: syscall_table_def exception_table_def)

definition after_boot :: "machine \<Rightarrow> u32 \<Rightarrow> idt_mem \<Rightarrow> gate" where
  "after_boot c n m = read_gate (idt_base c) n (install_all c m)"

lemma after_boot_eq:
  assumes "numbers_ok c" "n < 256"
  shows "after_boot c n m =
    (case map_of (map (\<lambda>x. (int_num c ((fst \<circ> snd) x), gate_of c (fst x) 0 (type_of (snd (snd x))))) exception_table) n of Some g \<Rightarrow> g
     | None \<Rightarrow> if n = int_num c KEY_IDT_ENTRY then gate_of c keyboard_handler 0 0xE
       else if n = int_num c TIMER_IDT_ENTRY then gate_of c timer_handler 0 0xE
       else case map_of (map (\<lambda>x. (int_num c (snd x), gate_of c (fst x) 3 0xF)) syscall_table) n of Some g \<Rightarrow> g
       | None \<Rightarrow> read_gate (idt_base c) n m)"
proof -
  have k: "read_gate (idt_base c) n (install_kernel_gate c h v FLAG_INTERRUPT_GATE m') =
      (if n = int_num c v then gate_of c h 0 0xE else read_gate (idt_base c) n m')" for h v m'
    using read_other_vector(2) [OF assms] by (simp add: read_install_kernel_gate)
  show ?thesis
    by (simp only: after_boot_def install_all_def install_syscall_handlers_def install_exception_handlers_def
        install_peripheral_handlers_def Let_def prod.case k
        read_exceptions [OF assms(1) tables_distinct(2) assms(2) tables_distinct(3)] read_syscalls [OF assms(1) tables_distinct(1) assms(2)])
qed

lemma after_boot_vector:
  assumes "numbers_ok c"
  shows "after_boot c (int_num c v) m =
    (case entry_of v of None \<Rightarrow> read_gate (idt_base c) (int_num c v) m
     | Some h \<Rightarrow> gate_of c h (if is_syscall v then 3 else 0) (if is_syscall v \<or> v \<in> {IDT_BP, IDT_OF, IDT_UD} then 0xF else 0xE))"
proof -
  have j: "inj (int_num c)" "int_num c v < 256" using assms by (simp_all add: numbers_ok_def)
  show ?thesis
    unfolding after_boot_eq [OF assms j(2)] map_of_inj [OF j(1)] inj_eq [OF j(1)]
    by (cases v) (simp_all add: exception_table_def syscall_table_def is_syscall_def)
qed

lemma map_of_other: "n \<notin> range f \<Longrightarrow> map_of (map (\<lambda>x. (f (k x), w x)) xs) n = None"
  by (induction xs) auto

lemma after_boot_other:
  assumes "numbers_ok c" "n < 256" "n \<notin> range (int_num c)"
  shows "after_boot c n m = read_gate (idt_base c) n m"
  unfolding after_boot_eq [OF assms(1,2)] map_of_other [OF assms(3)] using assms(3) by auto

subsection \<open>The property\<close>

lemma two_bytes:
  fixes x :: int
  assumes "0 \<le> x" "x < 2 ^ 16"
  shows "uint (word_of_int (x AND 0xFF) :: 8 word) + 256 * uint (word_of_int (drop_bit 8 x AND 0xFF) :: 8 word) = x"
proof -
  have m: "y AND 0xFF = y mod 256" for y :: int using take_bit_eq_mask [of 8 y] by (simp add: mask_eq_exp_minus_1 take_bit_eq_mod)
  have "x div 256 mod 256 = x div 256" using assms by (simp add: mod_pos_pos_trivial)
  then show ?thesis using assms by (simp add: m uint_word_of_int drop_bit_eq_div)
qed


text \<open>Numbers and addresses for evaluation.\<close>

primrec ex_num :: "idt_vector \<Rightarrow> u32" where
  "ex_num FORK_INT = 65"
| "ex_num THREAD_FORK_INT = 66"
| "ex_num EXEC_INT = 67"
| "ex_num SET_STATUS_INT = 68"
| "ex_num VANISH_INT = 69"
| "ex_num WAIT_INT = 70"
| "ex_num GETTID_INT = 71"
| "ex_num YIELD_INT = 72"
| "ex_num DESCHEDULE_INT = 73"
| "ex_num MAKE_RUNNABLE_INT = 74"
| "ex_num GET_TICKS_INT = 75"
| "ex_num SLEEP_INT = 76"
| "ex_num SWEXN_INT = 77"
| "ex_num NEW_PAGES_INT = 78"
| "ex_num REMOVE_PAGES_INT = 79"
| "ex_num READLINE_INT = 80"
| "ex_num PRINT_INT = 81"
| "ex_num SET_TERM_COLOR_INT = 82"
| "ex_num SET_CURSOR_POS_INT = 83"
| "ex_num GET_CURSOR_POS_INT = 84"
| "ex_num READFILE_INT = 85"
| "ex_num HALT_INT = 86"
| "ex_num MISBEHAVE_INT = 87"
| "ex_num GETCHAR_INT = 88"
| "ex_num TASK_VANISH_INT = 89"
| "ex_num IDT_PF = 0"
| "ex_num IDT_DF = 1"
| "ex_num IDT_DE = 2"
| "ex_num IDT_DB = 3"
| "ex_num IDT_BP = 4"
| "ex_num IDT_OF = 5"
| "ex_num IDT_BR = 6"
| "ex_num IDT_UD = 7"
| "ex_num IDT_NM = 8"
| "ex_num IDT_CSO = 9"
| "ex_num IDT_TS = 10"
| "ex_num IDT_NP = 11"
| "ex_num IDT_SS = 12"
| "ex_num IDT_GP = 13"
| "ex_num IDT_MF = 14"
| "ex_num IDT_AC = 15"
| "ex_num IDT_MC = 16"
| "ex_num IDT_XF = 17"
| "ex_num TIMER_IDT_ENTRY = 32"
| "ex_num KEY_IDT_ENTRY = 33"

definition ex_machine :: machine where
  "ex_machine = \<lparr>idt_base = 0x100000, SEGSEL_KERNEL_CS = 0x10, addr_of = \<lambda>h. 0x101000, int_num = ex_num, TIMER_RATE = 1193182,
     TIMER_SQUARE_WAVE = 0x36, TIMER_MODE_IO_PORT = 0x43, TIMER_PERIOD_IO_PORT = 0x40\<rparr>"

lemma ex_numbers_ok: "numbers_ok ex_machine"
proof -
  have "ex_num v < 256" for v by (cases v) simp_all
  moreover have "ex_num v = ex_num w \<Longrightarrow> v = w" for v w by (cases v; cases w) simp_all
  ultimately show ?thesis by (auto simp: numbers_ok_def ex_machine_def inj_def)
qed


end
