(* ===== verification/Reaper.thy ===== *)
theory Reaper
  imports KernelProps
begin

text \<open>
  The reaper of \<open>kern/scheduler/tcb_pool.c\<close> (\<open>tcb_pool_reap\<close>), the thread of the kernel that frees the memory of
  vanished threads and of processes without threads. Its endless loop is modelled by its passes: a
  pass waits for a zombie (\<open>reap_waits\<close>) and removes it (\<open>reap_zombie_thread\<close>).

  \<open>free\<close> of an address makes the block at it inaccessible: threads and processes by their maps, list nodes in the
  heap of nodes. The entries of the hash tables and the kernel stacks are not in these maps.
\<close>

subsection \<open>Model\<close>

definition NUM_ADDRS :: u32 where
  "NUM_ADDRS = 32"

text \<open>\<open>while (circ_buf_read(...) >= 0) free(addr)\<close>\<close>

partial_function (option) free_addrs :: "circ_buf option \<Rightarrow> sched \<Rightarrow> (circ_buf option \<times> sched) option" where
  "free_addrs addrs s = do {
     (r, v, a) \<leftarrow> circ_buf_read True addrs;
     if r \<ge> 0 then do {
       addr \<leftarrow> v;
       free_addrs a (s\<lparr>s_heap := free_node addr (s_heap s)\<rparr>)
     } else Some (a, s)
   }"

text \<open>
  The body of the loop after the wait. When the thread cannot be removed the loop goes on (\<open>continue\<close>) with the
  scheduler lock held. Both reads of \<open>tcb->pcb->num_threads\<close> are accesses to the block of the process.
\<close>

definition reap_zombie_thread :: "vctx \<Rightarrow> u32 \<Rightarrow> circ_buf option \<Rightarrow> vmem \<Rightarrow> frame_manager \<Rightarrow> sched \<Rightarrow>
    (circ_buf option \<times> vmem \<times> frame_manager \<times> sched) option" where
  "reap_zombie_thread c ums addrs m fm s = do {
     (r, e) \<leftarrow> ll_peek (zombie_pool (thr_pool s)) (s_heap s);
     if r < 0 then Some (addrs, m, fm, s)
     else do {
       tcb \<leftarrow> e;
       let s = sched_locked s;
       t \<leftarrow> tcbs s tcb;
       (r, addrs, s) \<leftarrow> tcb_pool_remove_tcb (t_tid t) addrs s;
       if r < 0 then Some (addrs, m, fm, s)
       else do {
         t \<leftarrow> tcbs s tcb;
         p \<leftarrow> pcbs s (t_pcb t);
         (addrs, s) \<leftarrow> (if num_threads p = 0 then do {
             (_, addrs, s) \<leftarrow> tcb_pool_remove_pcb (pid p) addrs s;
             Some (addrs, s)
           } else Some (addrs, s));
         let s = sched_unlocked s;
         p \<leftarrow> pcbs s (t_pcb t);
         (m, fm, s) \<leftarrow> (if num_threads p = 0 then do {
             (_, _, m, fm) \<leftarrow> pcb_destroy_s c ums (started s) (my_tid s) (Some p) m fm;
             Some (m, fm, s\<lparr>pcbs := (pcbs s)(t_pcb t := None)\<rparr>)
           } else Some (m, fm, s));
         let s = s\<lparr>tcbs := (tcbs s)(tcb := None)\<rparr>;
         (addrs, s) \<leftarrow> free_addrs addrs s;
         Some (addrs, m, fm, s)
       }
     }
   }"

text \<open>\<open>sem_wait(&tp->zombies_sem)\<close>: the first component says that the reaper sleeps, to go on with \<open>reap_zombie_thread\<close> when it is woken.\<close>

definition reap_waits :: "bool \<Rightarrow> sched \<Rightarrow> (bool \<times> sched) option" where
  "reap_waits mem s = do {
     (blocked, z) \<leftarrow> sem_wait (started s) mem (my_tid s) (Some (zombies_sem (thr_pool s)));
     z \<leftarrow> z;
     Some (blocked, s\<lparr>thr_pool := (thr_pool s)\<lparr>zombies_sem := z\<rparr>\<rparr>)
   }"

text \<open>Before the loop the buffer is allocated (\<open>buf\<close>: its memory); without memory the kernel panics.\<close>

definition reap_starts :: "ptr list option \<Rightarrow> circ_buf \<Rightarrow> circ_buf option" where
  "reap_starts buf junk = do {
     let (r, cb) = circ_buf_init buf NUM_ADDRS (Some junk);
     c_assert (\<not> r < 0);
     cb
   }"

text \<open>One pass: \<open>scheduler_reap\<close>, the body of \<open>reaper_main\<close>, only calls \<open>tcb_pool_reap\<close>.\<close>

definition tcb_pool_reap :: "bool \<Rightarrow> vctx \<Rightarrow> u32 \<Rightarrow> circ_buf option \<Rightarrow> vmem \<Rightarrow> frame_manager \<Rightarrow> sched \<Rightarrow>
    (bool \<times> circ_buf option \<times> vmem \<times> frame_manager \<times> sched) option" where
  "tcb_pool_reap mem c ums addrs m fm s = do {
     (blocked, s) \<leftarrow> reap_waits mem s;
     if blocked then Some (True, addrs, m, fm, s)
     else do {
       (addrs, m, fm, s) \<leftarrow> reap_zombie_thread c ums addrs m fm s;
       Some (False, addrs, m, fm, s)
     }
   }"

definition scheduler_reap :: "bool \<Rightarrow> vctx \<Rightarrow> u32 \<Rightarrow> circ_buf option \<Rightarrow> vmem \<Rightarrow> frame_manager \<Rightarrow> sched \<Rightarrow>
    (bool \<times> circ_buf option \<times> vmem \<times> frame_manager \<times> sched) option" where
  "scheduler_reap = tcb_pool_reap"

subsection \<open>Removing an entry of a table\<close>

definition cells :: "ht \<Rightarrow> ht_cell set" where
  "cells t = set (concat (ht_arr t))"

lemma ht_remove_cell:
  assumes "ht_ok t" "ht_map t key = Some v" "circ_ok cb" "length (contents cb) + 2 < unat (cb_len cb)"
  obtains t' c cb' where "ht_remove (Some t) key (Some cb) = Some (0, Some v, Some t', Some cb')" "ht_ok t'"
    "ht_map t' = (ht_map t)(key := None)" "circ_ok cb'" "c \<in> cells t" "c_val c = v"
    "contents cb' = contents cb @ [c_node c, c_entry c]" "cb_len cb' = cb_len cb"
  using assms(1)
proof (cases rule: ht_extract_cases [where key = key])
  case (found xs c ys)
  obtain c1 where c1: "circ_buf_write (Some cb) (c_node c) = Some (0, Some c1)" "circ_ok c1"
    "contents c1 = contents cb @ [c_node c]" "cb_len c1 = cb_len cb"
    using circ_buf_write_ok [OF assms(3), of "c_node c"] assms(4) by auto
  obtain c2 where c2: "circ_buf_write (Some c1) (c_entry c) = Some (0, Some c2)" "circ_ok c2"
    "contents c2 = contents c1 @ [c_entry c]" "cb_len c2 = cb_len c1"
    using circ_buf_write_ok [OF c1(2), of "c_entry c"] assms(4) c1(3,4) by auto
  have "c \<in> set (ht_arr t ! ht_idx t key)" using found(3) by simp
  then have "c \<in> cells t" using ht_idx_less [OF assms(1), of key] by (auto simp: cells_def)
  then show thesis
    using that ht_delete_ok [OF assms(1) found(3,2)] found assms(2) c1 c2
    by (auto simp: ht_remove_def ht_bucket_ok [OF assms(1)])
qed (use assms(2) in simp)

lemma ht_remove_absent:
  "ht_ok t \<Longrightarrow> ht_map t key = None \<Longrightarrow> ht_remove (Some t) key addrs = Some (-2, None, Some t, addrs)"
  by (cases rule: ht_extract_cases [where t = t and key = key]) (auto simp: ht_remove_def ht_bucket_ok)

subsection \<open>Freeing nodes outside of the pools\<close>

lemma nodes_free: "nodes (fold free_node vs h) x = (if x \<in> set vs then None else nodes h x)"
  by (induction vs arbitrary: h) (auto simp: free_node_def)

lemma lists_free: "lists (fold free_node vs h) = lists h"
  by (induction vs arbitrary: h) (auto simp: free_node_def)

lemma holds_free:
  assumes "holds h l ns" "set vs \<inter> set ns = {}"
  shows "holds (fold free_node vs h) l ns"
proof -
  obtain L where L: "l \<noteq> NULL" "lists h l = Some L" "ll_rep (nodes h) L ns" using assms(1) by (auto simp: holds_def)
  have "dseg (nodes h) NULL ns NULL \<Longrightarrow> dseg (nodes (fold free_node vs h)) NULL ns NULL"
    by (rule dseg_cong [of ns _ "nodes h"]) (use assms(2) in \<open>auto simp: nodes_free\<close>)
  then show ?thesis using L by (simp add: holds_def lists_free ll_rep_def)
qed

lemma data_free: "x \<notin> set vs \<Longrightarrow> data (fold free_node vs h) x = data h x"
  by (simp add: data_def nodes_free)

lemma on_pools_free:
  assumes "on_pools tp h Q" "set vs \<inter> members Q = {}"
  shows "on_pools tp (fold free_node vs h) Q"
proof -
  have "holds (fold free_node vs h) (pool_at tp k) (Q k)" for k
    by (rule holds_free [OF on_poolsD(1) [OF assms(1)]]) (use assms(2) membersI in blast)
  then show ?thesis using assms(1) by (simp add: on_pools_def)
qed

lemma free_addrs_ok:
  assumes "circ_ok cb"
  shows "\<exists>cb'. free_addrs (Some cb) s = Some (Some cb', s\<lparr>s_heap := fold free_node (contents cb) (s_heap s)\<rparr>) \<and>
    circ_ok cb' \<and> contents cb' = [] \<and> cb_len cb' = cb_len cb"
  using assms
proof (induction "contents cb" arbitrary: cb s)
  case Nil
  then show ?case using circ_buf_read_empty [of cb True] by (subst free_addrs.simps) simp
next
  case (Cons v vs)
  obtain c1 where c1: "circ_buf_read True (Some cb) = Some (0, Some v, Some c1)" "circ_ok c1" "contents c1 = vs" "cb_len c1 = cb_len cb"
    using circ_buf_read_ok [OF Cons.prems Cons.hyps(2) [symmetric], of True] by auto
  show ?case
    using Cons.hyps(1) [OF c1(3) [symmetric] c1(2), of "s\<lparr>s_heap := free_node v (s_heap s)\<rparr>"] c1 Cons.hyps(2) [symmetric]
    by (subst free_addrs.simps) simp
qed

subsection \<open>One pass\<close>

lemma remove_tcb_ok:
  assumes ok: "sched_at d s Q" and n: "Q Zomb = xs @ n # ys" "tcbs s (data (s_heap s) n) = Some t"
    and cb: "circ_ok cb" "length (contents cb) + 3 < unat (cb_len cb)"
  obtains ht' h c cb' where "tcb_pool_remove_tcb (t_tid t) (Some cb) s =
      Some (0, Some cb', s\<lparr>thr_pool := (thr_pool s)\<lparr>threads := ht'\<rparr>, s_heap := h\<rparr>)"
    "ht_ok ht'" "ht_map ht' = (ht_map (threads (thr_pool s)))(word_of_int (t_tid t) := None)"
    "on_pools (thr_pool s) h (Q(Zomb := xs @ ys))" "data h = data (s_heap s)"
    "c \<in> cells (threads (thr_pool s))" "circ_ok cb'" "cb_len cb' = cb_len cb" "contents cb' = contents cb @ [c_node c, c_entry c, n]"
proof -
  note D = sched_okD [OF ok]
  have m: "n \<in> members Q" by (rule membersI [of _ _ Zomb]) (simp add: n(1))
  have reg: "ht_map (threads (thr_pool s)) (word_of_int (t_tid t)) = Some n"
    by (rule registeredE [OF D(2) m]) (use n(2) in simp)
  have st: "t_status t = ZOMBIE" using D(3) n by (force simp: statuses_ok_def status_at_def dest!: spec [of _ Zomb])
  have hok: "ht_ok (threads (thr_pool s))" using D(2) by (simp add: registered_def)
  obtain ht' c cb1 where r: "ht_remove (Some (threads (thr_pool s))) (word_of_int (t_tid t)) (Some cb) = Some (0, Some n, Some ht', Some cb1)"
    "ht_ok ht'" "ht_map ht' = (ht_map (threads (thr_pool s)))(word_of_int (t_tid t) := None)" "circ_ok cb1"
    "c \<in> cells (threads (thr_pool s))" "contents cb1 = contents cb @ [c_node c, c_entry c]" "cb_len cb1 = cb_len cb"
    by (rule ht_remove_cell [OF hok reg cb(1)]) (use cb(2) in auto)
  obtain cb2 where w: "circ_buf_write (Some cb1) n = Some (0, Some cb2)" "circ_ok cb2" "contents cb2 = contents cb1 @ [n]" "cb_len cb2 = cb_len cb1"
    using circ_buf_write_ok [OF r(4), of n] r(6,7) cb(2) by auto
  obtain h where h: "ll_unlink_node (pool_at (thr_pool s) Zomb) n (s_heap s) = Some (0, h)" "on_pools (thr_pool s) h (Q(Zomb := xs @ ys))"
    "data h = data (s_heap s)" by (rule pool_unlink [OF D(1) n(1)])
  obtain nd where "n \<noteq> NULL" "nodes (s_heap s) n = Some nd" "nd_e nd = data (s_heap s) n"
    using node_live [OF D(1) m] by (auto simp: payload_def)
  then have g: "ll_node_get_data n (s_heap s) = Some (0, Some (data (s_heap s) n))" by (simp add: ll_node_get_data_def)
  have "tcb_pool_remove_tcb (t_tid t) (Some cb) s = Some (0, Some cb2, s\<lparr>thr_pool := (thr_pool s)\<lparr>threads := ht'\<rparr>, s_heap := h\<rparr>)"
    using r(1) g n(2) st h(1) w(1) by (simp add: tcb_pool_remove_tcb_def unlink_from_def discard_node_def)
  then show thesis by (rule that [OF _ r(2,3) h(2,3) r(5) w(2)]) (use r(6,7) w(3,4) in simp_all)
qed

text \<open>The invariant without the thread of node \<open>n\<close>.\<close>

lemma sched_at_removed:
  assumes ok: "sched_at d s Q" and n: "Q Zomb = xs @ n # ys" "tcbs s (data (s_heap s) n) = Some t" and r: "runs s Q r"
    and ht: "ht_ok (threads (thr_pool s'))" "ht_map (threads (thr_pool s')) = (ht_map (threads (thr_pool s)))(word_of_int (t_tid t) := None)"
    and pools: "on_pools (thr_pool s') (s_heap s') (Q(Zomb := xs @ ys))" "\<And>m. m \<in> members Q \<Longrightarrow> m \<noteq> n \<Longrightarrow> data (s_heap s') m = data (s_heap s) m"
    and same: "tcbs s' = (tcbs s)(data (s_heap s) n := None)" "next_tid s' = next_tid s" "num_ticks s' = num_ticks s" "idle_tcb s' = idle_tcb s"
      "cur_tcb s' = cur_tcb s" "s_m (zombies_sem (thr_pool s')) = s_m (zombies_sem (thr_pool s))"
  shows "sched_at d s' (Q(Zomb := xs @ ys))"
proof -
  note D = sched_okD [OF ok]
  let ?Q = "Q(Zomb := xs @ ys)" and ?p = "data (s_heap s) n"
  have mem: "members ?Q = members Q - {n}" by (rule members_unlinked [OF D(1) n(1)])
  have nm: "n \<in> members Q" by (rule membersI [of _ _ Zomb]) (simp add: n(1))
  have other: "data (s_heap s') m = data (s_heap s) m" "data (s_heap s) m \<noteq> ?p" "tcbs s' (data (s_heap s') m) = tcbs s (data (s_heap s) m)"
    if "m \<in> members ?Q" for m
    using that pools(2) [of m] member_inj [OF D(2) _ nm, of m] mem same(1) by auto
  have at: "status_at s' m = status_at s m" "wake_at s' m = wake_at s m" if "m \<in> members ?Q" for m
    using other [OF that] by (simp_all add: status_at_def wake_at_def wakeup_at_def)
  have cur: "cur_tcb s \<noteq> ?p"
  proof
    assume e: "cur_tcb s = ?p"
    have rr: "r \<in> set (Q Run)" "data (s_heap s) r = cur_tcb s" using r by (simp_all add: runs_def)
    then have "r = n" using member_inj [OF D(2) membersI [of r Q Run] nm] e by simp
    then show False using rr(1) on_poolsD(3) [OF D(1), of Run Zomb] n(1) by auto
  qed
  have idle: "idle_tcb s \<noteq> ?p" using D(5) nm by (auto simp: others_ok_def)
  have "node_ok s' m" if "m \<in> members ?Q" for m
  proof -
    have m: "m \<in> members Q" "m \<noteq> n" using that mem by auto
    obtain u where u: "data (s_heap s) m \<noteq> NULL" "tcbs s (data (s_heap s) m) = Some u" "0 \<le> t_tid u" "t_tid u < next_tid s"
      "ht_map (threads (thr_pool s)) (word_of_int (t_tid u)) = Some m" by (rule registeredE [OF D(2) m(1)])
    have "ht_map (threads (thr_pool s)) (word_of_int (t_tid t)) = Some n" by (rule registeredE [OF D(2) nm]) (use n(2) in simp)
    then have "(word_of_int (t_tid u) :: u32) \<noteq> word_of_int (t_tid t)" using u(5) m(2) by auto
    then show ?thesis using u other [OF that] ht(2) same(2) by (simp add: node_ok_def)
  qed
  moreover have "m \<in> members ?Q \<and> (\<forall>u. tcbs s' (data (s_heap s') m) = Some u \<longrightarrow> key = word_of_int (t_tid u))"
    if k: "ht_map (threads (thr_pool s')) key = Some m" for key m
  proof -
    have k': "key \<noteq> word_of_int (t_tid t)" "ht_map (threads (thr_pool s)) key = Some m" using k ht(2) by (auto split: if_splits)
    then have "m \<noteq> n" using registered_key(2) [OF D(2) k'(2)] n(2) by auto
    then have mm: "m \<in> members ?Q" using registered_key(1) [OF D(2) k'(2)] mem by simp
    then show ?thesis using registered_key(2) [OF D(2) k'(2)] other [OF mm] by simp
  qed
  ultimately have "registered s' ?Q" using ht(1) D(2) same(2) by (simp add: registered_def)
  moreover have "statuses_ok s' ?Q"
  proof -
    have sub: "m \<in> set (?Q k) \<Longrightarrow> m \<in> set (Q k)" for m k using n(1) by (auto split: if_splits)
    have "fits_pool k (status_at s' m)" if "m \<in> set (?Q k)" for k m
      using at(1) [OF membersI [of m ?Q k, OF that]] D(3) sub [OF that] by (simp add: statuses_ok_def)
    moreover have "data (s_heap s') m = cur_tcb s'" if "m \<in> members ?Q" "status_at s' m = RUNNING" for m
      using that at(1) [OF that(1)] other(1) [OF that(1)] D(3) mem same(5) by (simp add: statuses_ok_def)
    ultimately show ?thesis by (simp only: statuses_ok_def) blast
  qed
  moreover have "sleepers_ok d s' (?Q Sleep)"
    by (rule sleepers_same [OF D(4)]) (use at(2) membersI [of _ ?Q Sleep] same(3) in auto)
  moreover have "others_ok s' ?Q" using D(5) other(1) mem same cur idle by (auto simp: others_ok_def)
  ultimately show ?thesis using pools(1) by (simp add: sched_at_def)
qed

text \<open>
  The addresses of the entries of the two tables, and of the nodes of the processes, are not those of the nodes of
  threads: they are different blocks of the allocator.
\<close>

definition entry_addrs :: "ht_cell \<Rightarrow> ptr set" where
  "entry_addrs c = {c_node c, c_entry c}"

definition heap_apart :: "sched \<Rightarrow> pools \<Rightarrow> bool" where
  "heap_apart s Q \<longleftrightarrow> (\<forall>c\<in>cells (threads (thr_pool s)). entry_addrs c \<inter> members Q = {}) \<and>
     (\<forall>c\<in>cells (processes (thr_pool s)). insert (c_val c) (entry_addrs c) \<inter> members Q = {})"

lemma remove_pcb_ok:
  assumes "ht_ok (processes (thr_pool s))" "circ_ok cb" "length (contents cb) + 3 < unat (cb_len cb)"
  obtains rr cb' ht' vs where "tcb_pool_remove_pcb k (Some cb) s = Some (rr, Some cb', s\<lparr>thr_pool := (thr_pool s)\<lparr>processes := ht'\<rparr>\<rparr>)"
    "circ_ok cb'" "cb_len cb' = cb_len cb" "contents cb' = contents cb @ vs"
    "ht_ok ht'" "ht_map ht' = (ht_map (processes (thr_pool s)))(word_of_int k := None)"
    "set vs \<subseteq> (\<Union>c\<in>cells (processes (thr_pool s)). insert (c_val c) (entry_addrs c))"
proof (cases "ht_map (processes (thr_pool s)) (word_of_int k)")
  case None
  then have "tcb_pool_remove_pcb k (Some cb) s = Some (-2, Some cb, s\<lparr>thr_pool := (thr_pool s)\<lparr>processes := processes (thr_pool s)\<rparr>\<rparr>)"
    using ht_remove_absent [OF assms(1)] by (simp add: tcb_pool_remove_pcb_def)
  then show thesis by (rule that [where vs = "[]"]) (use None assms in auto)
next
  case (Some node)
  obtain ht' c cb1 where r: "ht_remove (Some (processes (thr_pool s))) (word_of_int k) (Some cb) = Some (0, Some node, Some ht', Some cb1)"
    "ht_ok ht'" "ht_map ht' = (ht_map (processes (thr_pool s)))(word_of_int k := None)" "circ_ok cb1"
    "c \<in> cells (processes (thr_pool s))" "c_val c = node" "contents cb1 = contents cb @ [c_node c, c_entry c]" "cb_len cb1 = cb_len cb"
    by (rule ht_remove_cell [OF assms(1) Some assms(2)]) (use assms(3) in auto)
  obtain cb2 where w: "circ_buf_write (Some cb1) node = Some (0, Some cb2)" "circ_ok cb2" "contents cb2 = contents cb1 @ [node]" "cb_len cb2 = cb_len cb1"
    using circ_buf_write_ok [OF r(4), of node] r(7,8) assms(3) by auto
  have "tcb_pool_remove_pcb k (Some cb) s = Some (0, Some cb2, s\<lparr>thr_pool := (thr_pool s)\<lparr>processes := ht'\<rparr>\<rparr>)"
    using r(1) w(1) by (simp add: tcb_pool_remove_pcb_def)
  then show thesis
    by (rule that [where vs = "[c_node c, c_entry c, node]"]) (use r w in \<open>auto simp: entry_addrs_def\<close>)
qed

lemma my_tid_same: "my_tid (s\<lparr>thr_pool := tp, s_heap := h, intr := b\<rparr>) = my_tid s" "my_tid (s\<lparr>thr_pool := tp, s_heap := h\<rparr>) = my_tid s"
  "my_tid (s\<lparr>intr := b\<rparr>) = my_tid s"
  by (simp_all add: my_tid_def)

text \<open>The common beginning of a pass: the first zombie leaves the pool and the table of threads.\<close>

lemma reap_removes:
  assumes ok: "sched_at d s Q" and n: "Q Zomb = n # zs" "tcbs s (data (s_heap s) n) = Some t"
    and cb: "circ_ok cb" "contents cb = []" "cb_len cb = NUM_ADDRS"
  obtains ht' h e cb' where "ll_peek (zombie_pool (thr_pool s)) (s_heap s) = Some (0, Some (data (s_heap s) n))"
    "tcb_pool_remove_tcb (t_tid t) (Some cb) (sched_locked s) =
      Some (0, Some cb', (sched_locked s)\<lparr>thr_pool := (thr_pool s)\<lparr>threads := ht'\<rparr>, s_heap := h\<rparr>)"
    "ht_ok ht'" "ht_map ht' = (ht_map (threads (thr_pool s)))(word_of_int (t_tid t) := None)"
    "on_pools (thr_pool s) h (Q(Zomb := zs))" "data h = data (s_heap s)"
    "e \<in> cells (threads (thr_pool s))" "circ_ok cb'" "cb_len cb' = cb_len cb" "contents cb' = [c_node e, c_entry e, n]"
proof -
  have pk: "ll_peek (zombie_pool (thr_pool s)) (s_heap s) = Some (0, Some (data (s_heap s) n))"
    using pool_peek [OF ok n(1)] by simp
  have l: "sched_at d (sched_locked s) Q" "Q Zomb = [] @ n # zs" "tcbs (sched_locked s) (data (s_heap (sched_locked s)) n) = Some t"
    using ok n by (simp_all add: sched_locked_def)
  have room: "length (contents cb) + 3 < unat (cb_len cb)" by (simp add: cb(2,3) NUM_ADDRS_def)
  obtain ht' h e cb' where R: "tcb_pool_remove_tcb (t_tid t) (Some cb) (sched_locked s) =
      Some (0, Some cb', (sched_locked s)\<lparr>thr_pool := (thr_pool (sched_locked s))\<lparr>threads := ht'\<rparr>, s_heap := h\<rparr>)"
    "ht_ok ht'" "ht_map ht' = (ht_map (threads (thr_pool (sched_locked s))))(word_of_int (t_tid t) := None)"
    "on_pools (thr_pool (sched_locked s)) h (Q(Zomb := [] @ zs))" "data h = data (s_heap (sched_locked s))"
    "e \<in> cells (threads (thr_pool (sched_locked s)))" "circ_ok cb'" "cb_len cb' = cb_len cb" "contents cb' = contents cb @ [c_node e, c_entry e, n]"
    by (rule remove_tcb_ok [OF l cb(1) room])
  have tp: "thr_pool (sched_locked s) = thr_pool s" "s_heap (sched_locked s) = s_heap s" by (simp_all add: sched_locked_def)
  show thesis by (rule that [OF pk R(1) [unfolded tp]]) (use R cb tp in simp_all)
qed

lemma on_pools_tables: "on_pools (tp\<lparr>threads := a, processes := b\<rparr>) = on_pools tp"
proof -
  have "pool_at (tp\<lparr>threads := a, processes := b\<rparr>) k = pool_at tp k" for k by (cases k) simp_all
  then show ?thesis by (simp add: on_pools_def fun_eq_iff inj_def)
qed

lemma reap_ok:
  assumes ok: "sched_at d s Q" and n: "Q Zomb = n # zs" "tcbs s (data (s_heap s) n) = Some t" and r: "runs s Q r"
    and p: "pcbs s (t_pcb t) = Some p" "ht_ok (processes (thr_pool s))" "heap_apart s Q"
    and cb: "circ_ok cb" "contents cb = []" "cb_len cb = NUM_ADDRS"
    and de: "num_threads p = 0 \<Longrightarrow> pcb_destroy_s c ums (started s) (my_tid s) (Some p) m fm = Some (rd, pd, m1, fm1)"
  obtains cb' s' where "reap_zombie_thread c ums (Some cb) m fm s =
      Some (Some cb', if num_threads p = 0 then m1 else m, if num_threads p = 0 then fm1 else fm, s')"
    "circ_ok cb'" "contents cb' = []" "cb_len cb' = NUM_ADDRS"
    "sched_at d s' (Q(Zomb := zs))" "runs s' (Q(Zomb := zs)) r" "tcbs s' = (tcbs s)(data (s_heap s) n := None)" "nodes (s_heap s') n = None"
    "pcbs s' = (if num_threads p = 0 then (pcbs s)(t_pcb t := None) else pcbs s)" "intr s' = intr (sched_unlocked (sched_locked s))"
    "ht_map (processes (thr_pool s')) = (if num_threads p = 0 then (ht_map (processes (thr_pool s)))(word_of_int (pid p) := None) else ht_map (processes (thr_pool s)))"
    "ht_map (threads (thr_pool s')) = (ht_map (threads (thr_pool s)))(word_of_int (t_tid t) := None)"
    "\<forall>k\<in>members Q. k \<noteq> n \<longrightarrow> data (s_heap s') k = data (s_heap s) k"
proof -
  note D = sched_okD [OF ok]
  obtain ht' h e cb1 where rm: "ll_peek (zombie_pool (thr_pool s)) (s_heap s) = Some (0, Some (data (s_heap s) n))"
    "tcb_pool_remove_tcb (t_tid t) (Some cb) (sched_locked s) =
      Some (0, Some cb1, (sched_locked s)\<lparr>thr_pool := (thr_pool s)\<lparr>threads := ht'\<rparr>, s_heap := h\<rparr>)"
    "ht_ok ht'" "ht_map ht' = (ht_map (threads (thr_pool s)))(word_of_int (t_tid t) := None)"
    "on_pools (thr_pool s) h (Q(Zomb := zs))" "data h = data (s_heap s)"
    "e \<in> cells (threads (thr_pool s))" "circ_ok cb1" "cb_len cb1 = cb_len cb" "contents cb1 = [c_node e, c_entry e, n]"
    by (rule reap_removes [OF ok n cb])
  let ?s1 = "(sched_locked s)\<lparr>thr_pool := (thr_pool s)\<lparr>threads := ht'\<rparr>, s_heap := h\<rparr>"
  have room: "length (contents cb1) + 3 < unat (cb_len cb1)" "ht_ok (processes (thr_pool ?s1))"
    using rm(9,10) cb(3) p(2) by (simp_all add: NUM_ADDRS_def)
  obtain pt cb2 vs where pc: "num_threads p = 0 \<Longrightarrow> \<exists>rr. tcb_pool_remove_pcb (pid p) (Some cb1) ?s1 =
        Some (rr, Some cb2, ?s1\<lparr>thr_pool := (thr_pool s)\<lparr>threads := ht', processes := pt\<rparr>\<rparr>)"
    "num_threads p \<noteq> 0 \<Longrightarrow> cb2 = cb1 \<and> pt = processes (thr_pool s)"
    "circ_ok cb2" "cb_len cb2 = NUM_ADDRS" "contents cb2 = [c_node e, c_entry e, n] @ vs"
    "ht_map pt = (if num_threads p = 0 then (ht_map (processes (thr_pool s)))(word_of_int (pid p) := None) else ht_map (processes (thr_pool s)))"
    "set vs \<subseteq> (\<Union>c\<in>cells (processes (thr_pool s)). insert (c_val c) (entry_addrs c))"
  proof (cases "num_threads p = 0")
    case True
    obtain rr cb' pt vs where R: "tcb_pool_remove_pcb (pid p) (Some cb1) ?s1 = Some (rr, Some cb', ?s1\<lparr>thr_pool := (thr_pool ?s1)\<lparr>processes := pt\<rparr>\<rparr>)"
      "circ_ok cb'" "cb_len cb' = cb_len cb1" "contents cb' = contents cb1 @ vs"
      "ht_ok pt" "ht_map pt = (ht_map (processes (thr_pool ?s1)))(word_of_int (pid p) := None)"
      "set vs \<subseteq> (\<Union>c\<in>cells (processes (thr_pool ?s1)). insert (c_val c) (entry_addrs c))"
      by (rule remove_pcb_ok [OF room(2) rm(8) room(1), of "pid p"])
    show thesis by (rule that [of cb' pt vs]) (use True R rm(9,10) cb(3) in auto)
  next
    case False
    show thesis by (rule that [of cb1 "processes (thr_pool s)" "[]"]) (use False rm cb(3) in auto)
  qed
  define b where "b = intr (sched_unlocked (sched_locked s))"
  let ?s3 = "s\<lparr>thr_pool := (thr_pool s)\<lparr>threads := ht', processes := pt\<rparr>, s_heap := h, intr := b\<rparr>"
  have s3: "sched_unlocked (?s1\<lparr>thr_pool := (thr_pool s)\<lparr>threads := ht', processes := pt\<rparr>\<rparr>) = ?s3"
    by (simp add: b_def sched_unlocked_def sched_locked_def)
  let ?s5 = "?s3\<lparr>pcbs := (if num_threads p = 0 then (pcbs s)(t_pcb t := None) else pcbs s), tcbs := (tcbs s)(data (s_heap s) n := None)\<rparr>"
  obtain cb' where f: "free_addrs (Some cb2) ?s5 = Some (Some cb', ?s5\<lparr>s_heap := fold free_node (contents cb2) h\<rparr>)"
    "circ_ok cb'" "contents cb' = []" "cb_len cb' = NUM_ADDRS"
    using free_addrs_ok [OF pc(3), of ?s5] pc(4) by auto
  let ?s' = "?s5\<lparr>s_heap := fold free_node (contents cb2) h\<rparr>"
  have tp: "thr_pool (sched_locked s) = thr_pool s" "s_heap (sched_locked s) = s_heap s" "tcbs (sched_locked s) = tcbs s"
    "pcbs (sched_locked s) = pcbs s" by (simp_all add: sched_locked_def)
  have tid: "my_tid ?s3 = my_tid s" by (simp add: my_tid_def)
  have eq: "reap_zombie_thread c ums (Some cb) m fm s =
      Some (Some cb', if num_threads p = 0 then m1 else m, if num_threads p = 0 then fm1 else fm, ?s')"
  proof (cases "num_threads p = 0")
    case True
    obtain rr where "tcb_pool_remove_pcb (pid p) (Some cb1) ?s1 =
        Some (rr, Some cb2, ?s1\<lparr>thr_pool := (thr_pool s)\<lparr>threads := ht', processes := pt\<rparr>\<rparr>)" using pc(1) [OF True] by blast
    then show ?thesis
      using True n(2) p(1) de [OF True] f(1) by (simp add: reap_zombie_thread_def rm(1,2) tp s3 [simplified] s3 tid Let_def)
  next
    case False
    then have "?s1 = ?s1\<lparr>thr_pool := (thr_pool s)\<lparr>threads := ht', processes := pt\<rparr>\<rparr>" "cb2 = cb1" using pc(2) by simp_all
    then show ?thesis
      using False n(2) p(1) f(1) s3 by (simp add: reap_zombie_thread_def rm(1,2) tp Let_def)
  qed
  have n': "Q Zomb = [] @ n # zs" using n(1) by simp
  have fr: "set (contents cb2) \<inter> members (Q(Zomb := zs)) = {}"
    using members_unlinked [OF D(1) n'] p(3) rm(7) pc(5,7) by (fastforce simp: heap_apart_def entry_addrs_def)
  have live: "data (s_heap ?s') k = data (s_heap s) k" if "k \<in> members Q" "k \<noteq> n" for k
    using that members_unlinked [OF D(1) n'] fr data_free [of k "contents cb2" h] rm(6) by auto
  have at: "sched_at d ?s' (Q(Zomb := [] @ zs))"
    by (rule sched_at_removed [OF ok n' n(2) r])
      (use rm(3,4) live on_pools_free [OF rm(5) fr] in \<open>simp_all add: on_pools_tables\<close>)
  have rr: "r \<in> members Q" "r \<noteq> n" "r \<in> set (Q Run)"
    using r on_poolsD(3) [OF D(1), of Run Zomb] n(1) by (auto simp: runs_def intro: membersI)
  have "data (s_heap s) r \<noteq> data (s_heap s) n" using member_inj [OF D(2) rr(1)] rr(2) membersI [of n Q Zomb] n(1) by auto
  then have "runs ?s' (Q(Zomb := zs)) r" using r live [OF rr(1,2)] by (auto simp: runs_def status_at_def)
  moreover have "nodes (s_heap ?s') n = None" using pc(5) nodes_free [of "contents cb2" h n] by (auto simp del: fold_simps)
  ultimately show thesis using that [OF eq f(2-4)] at pc(6) rm(4) live by (simp add: b_def)
qed

subsection \<open>A concrete state\<close>

text \<open>The reaper (tid 1) runs; the threads 2 and 3 of the process at 5000 have vanished.\<close>

definition reap_lists :: heap where
  "reap_lists = \<lparr>nodes = [10 \<mapsto> \<lparr>nd_e = 1000, nd_next = 0, nd_prev = 0\<rparr>, 20 \<mapsto> \<lparr>nd_e = 2000, nd_next = 30, nd_prev = 0\<rparr>,
      30 \<mapsto> \<lparr>nd_e = 3000, nd_next = 0, nd_prev = 20\<rparr>],
    lists = [100 \<mapsto> \<lparr>l_head = 10, l_tail = 10, l_size = 1\<rparr>, 104 \<mapsto> \<lparr>l_head = 0, l_tail = 0, l_size = 0\<rparr>,
      108 \<mapsto> \<lparr>l_head = 0, l_tail = 0, l_size = 0\<rparr>, 112 \<mapsto> \<lparr>l_head = 20, l_tail = 30, l_size = 2\<rparr>], mcalls = 0\<rparr>"

definition reap_pcb :: pcb where
  "reap_pcb = \<lparr>pid = 1, ppid = 0, original_tid = 2, stack_top = 0, entry_point = 0,
     pcb_pd = \<lparr>directory = replicate 1024 0, num_pages = 0, p_addr_list = [], mapping_tasks = [], batch_enabled = False\<rparr>,
     num_threads = 0, num_child_proc = 0, pcb_argc = 0, pcb_argv = 0, wait_sem = \<lparr>s_count = 0, s_m = free_mutex, s_q = []\<rparr>,
     status_queue = Some [], pcb_m = free_mutex\<rparr>"

definition reap_state :: sched where
  "reap_state = ex_kernel\<lparr>s_heap := reap_lists, pcbs := [5000 \<mapsto> reap_pcb],
     tcbs := [1000 \<mapsto> ex_tcb 1 RUNNING 0 900, 2000 \<mapsto> ex_tcb 2 ZOMBIE 0 901, 3000 \<mapsto> ex_tcb 3 ZOMBIE 0 902, 4000 \<mapsto> ex_tcb 0 RUNNABLE 0 903]\<rparr>"

fun reap_pools :: pools where
  "reap_pools Run = [10]"
| "reap_pools Zomb = [20, 30]"
| "reap_pools _ = []"

lemma reap_members: "members reap_pools = {10, 20, 30}"
  by (simp add: members_def all_pools insert_commute)

lemma reap_on_pools: "on_pools ex_pool reap_lists reap_pools"
  unfolding on_pools_def
proof (intro conjI allI impI)
  show "holds reap_lists (pool_at ex_pool k) (reap_pools k)" for k
    by (cases k) (simp_all add: ex_pool_def reap_lists_def holds_def ll_rep_def)
  show "inj (pool_at ex_pool)" using ex_on_pools by (simp add: on_pools_def)
  show "set (reap_pools j) \<inter> set (reap_pools k) = {}" if "j \<noteq> k" for j k using that by (cases j; cases k) simp_all
qed

lemma reap_data: "data reap_lists 10 = 1000" "data reap_lists 20 = 2000" "data reap_lists 30 = 3000"
  by (simp_all add: reap_lists_def data_def)

lemma reap_parts: "thr_pool reap_state = ex_pool" "s_heap reap_state = reap_lists" "threads ex_pool = ex_threads"
  "cells ex_threads = set (ht_arr ex_threads ! 0)" "cells (processes ex_pool) = {}"
  by (simp_all add: reap_state_def ex_kernel_def ex_pool_def cells_def ex_threads_def)

lemma reap_sched: "sched_ok reap_state reap_pools"
proof -
  have "registered reap_state reap_pools"
    unfolding registered_def node_ok_def reap_parts reap_members using ex_ht
    by (auto simp: reap_state_def ex_kernel_def reap_data ex_tcb_def split: if_splits)
  moreover have st: "status_at reap_state 10 = RUNNING" "status_at reap_state 20 = ZOMBIE" "status_at reap_state 30 = ZOMBIE"
    by (simp_all add: status_at_def reap_parts reap_data) (simp_all add: reap_state_def ex_kernel_def ex_tcb_def)
  have "statuses_ok reap_state reap_pools" unfolding statuses_ok_def reap_members
  proof (intro conjI allI)
    show "\<forall>n\<in>set (reap_pools j). fits_pool j (status_at reap_state n)" for j by (cases j) (simp_all add: st)
    show "\<forall>n\<in>{10, 20, 30}. status_at reap_state n = RUNNING \<longrightarrow> data (s_heap reap_state) n = cur_tcb reap_state"
      by (simp add: st reap_parts reap_data) (simp add: reap_state_def ex_kernel_def)
  qed
  moreover have "sleepers_ok 1 reap_state (reap_pools Sleep)" by (simp add: sleepers_ok_def)
  moreover have "others_ok reap_state reap_pools" unfolding others_ok_def reap_members reap_parts
    by (simp add: reap_data) (simp add: reap_state_def ex_kernel_def ex_pool_def)
  ultimately show ?thesis using reap_on_pools by (simp add: sched_at_def reap_parts)
qed

lemma reap_runs: "runs reap_state reap_pools 10"
  by (simp add: runs_def status_at_def reap_parts reap_data) (simp add: reap_state_def ex_kernel_def ex_tcb_def)

lemma reap_apart: "heap_apart reap_state reap_pools"
  unfolding heap_apart_def reap_members reap_parts by (auto simp: ex_threads_def entry_addrs_def)

definition reap_buf :: circ_buf where
  "reap_buf = \<lparr>cb_i_r = 0, cb_i_w = 0, cb_buf = replicate 32 0, cb_len = 32, cb_n = 0\<rparr>"

lemma reap_buf_ok: "circ_ok reap_buf" "contents reap_buf = []" "cb_len reap_buf = NUM_ADDRS"
  by (simp_all add: reap_buf_def circ_ok_def contents_def slot_def NUM_ADDRS_def)

lemma reap_destroys:
  "\<exists>rd pd. pcb_destroy_s c 0xFFC00000 (started reap_state) (my_tid reap_state) (Some reap_pcb) m fm = Some (rd, pd, m, fm)"
proof -
  have "NUM_KERNEL_PDE 0xFFC00000 = 1023" by (simp add: NUM_KERNEL_PDE_def NUM_KERNEL_PTE_def PAGE_SHIFT_def)
  then have "[NUM_KERNEL_PDE 0xFFC00000..<1024] = [1023]" by (simp add: upt_rec [of 1023])
  moreover have "started reap_state = True" by (simp add: reap_state_def ex_kernel_def)
  ultimately show ?thesis
    by (simp add: pcb_destroy_s_def reap_pcb_def NTH_BIT_def sem_destroy_def vmm_clear_user_space_def pd_dealloc_all_frames_def
        pd_clear_user_space_def pd_destroy_def arr_get_def entry_present_def Let_def)
qed

subsection \<open>The properties\<close>

text \<open>
  C18: a pass of the reaper, in a state in which the pools are in order (\<open>sched_at\<close>) and the reaper runs, removes exactly the first
  zombie: it leaves the pool and the table of threads, its block and its list node are freed, its tid
  is not found any more, all other threads stay where they are, the pools are in order again, the
  buffer is empty again and the scheduler lock is released. The process of the thread is removed from its
  table, destroyed and freed exactly if it has no thread left. Hypotheses: the block of the process is
  live, the addresses of table entries are not those of nodes (\<open>heap_apart\<close>), the buffer is as it was
  initialised and, if the process goes, that \<open>pcb_destroy_s\<close> returns.
\<close>

theorem reap_correct:
  assumes "sched_at d s Q" "Q Zomb = n # zs" "tcbs s (data (s_heap s) n) = Some t" "runs s Q r"
    "pcbs s (t_pcb t) = Some p" "ht_ok (processes (thr_pool s))" "heap_apart s Q"
    "circ_ok cb" "contents cb = []" "cb_len cb = NUM_ADDRS"
    "num_threads p = 0 \<Longrightarrow> pcb_destroy_s c ums (started s) (my_tid s) (Some p) m fm = Some (rd, pd, m1, fm1)"
  shows "\<exists>cb' s'. reap_zombie_thread c ums (Some cb) m fm s =
      Some (Some cb', if num_threads p = 0 then m1 else m, if num_threads p = 0 then fm1 else fm, s') \<and>
    circ_ok cb' \<and> contents cb' = [] \<and> cb_len cb' = NUM_ADDRS \<and>
    sched_at d s' (Q(Zomb := zs)) \<and> runs s' (Q(Zomb := zs)) r \<and>
    tcbs s' = (tcbs s)(data (s_heap s) n := None) \<and> nodes (s_heap s') n = None \<and>
    find_node (t_tid t) s' = Some (Inl (-2)) \<and>
    pcbs s' = (if num_threads p = 0 then (pcbs s)(t_pcb t := None) else pcbs s) \<and>
    ht_map (processes (thr_pool s')) = (if num_threads p = 0 then (ht_map (processes (thr_pool s)))(word_of_int (pid p) := None)
                                        else ht_map (processes (thr_pool s))) \<and>
    intr s' = intr (sched_unlocked (sched_locked s))"
proof -
  obtain cb' s' where R: "reap_zombie_thread c ums (Some cb) m fm s =
      Some (Some cb', if num_threads p = 0 then m1 else m, if num_threads p = 0 then fm1 else fm, s')"
    "circ_ok cb'" "contents cb' = []" "cb_len cb' = NUM_ADDRS"
    "sched_at d s' (Q(Zomb := zs))" "runs s' (Q(Zomb := zs)) r" "tcbs s' = (tcbs s)(data (s_heap s) n := None)" "nodes (s_heap s') n = None"
    "pcbs s' = (if num_threads p = 0 then (pcbs s)(t_pcb t := None) else pcbs s)" "intr s' = intr (sched_unlocked (sched_locked s))"
    "ht_map (processes (thr_pool s')) = (if num_threads p = 0 then (ht_map (processes (thr_pool s)))(word_of_int (pid p) := None) else ht_map (processes (thr_pool s)))"
    "ht_map (threads (thr_pool s')) = (ht_map (threads (thr_pool s)))(word_of_int (t_tid t) := None)"
    "\<forall>k\<in>members Q. k \<noteq> n \<longrightarrow> data (s_heap s') k = data (s_heap s) k"
    by (rule reap_ok [OF assms])
  have "ht_ok (threads (thr_pool s'))" using sched_okD(2) [OF R(5)] by (simp add: registered_def)
  then have "find_node (t_tid t) s' = Some (Inl (-2))" using R(12) by (simp add: find_node_def ht_get_map)
  then show ?thesis using R by blast
qed

lemma reap_blocks: "tcbs reap_state (data (s_heap reap_state) 20) = Some (ex_tcb 2 ZOMBIE 0 901)"
  "tcbs reap_state (data (s_heap reap_state) 30) = Some (ex_tcb 3 ZOMBIE 0 902)"
  "pcbs reap_state (t_pcb (ex_tcb 2 ZOMBIE 0 901)) = Some reap_pcb" "t_pcb (ex_tcb 3 ZOMBIE 0 902) = t_pcb (ex_tcb 2 ZOMBIE 0 901)"
  "ht_ok (processes (thr_pool reap_state))" "reap_pools Zomb = 20 # [30]" "num_threads reap_pcb = 0"
  by (simp_all add: reap_parts reap_data)
    (simp_all add: reap_state_def ex_kernel_def ex_pool_def ex_tcb_def reap_pcb_def ht_ok_def ex_threads_def)

theorem reap_correct_witness:
  "\<forall>c m fm. \<exists>cb' s'. reap_zombie_thread c 0xFFC00000 (Some reap_buf) m fm reap_state = Some (Some cb', m, fm, s') \<and>
     sched_ok s' (reap_pools(Zomb := [30])) \<and> pcbs s' = (pcbs reap_state)(t_pcb (ex_tcb 2 ZOMBIE 0 901) := None)"
proof (intro allI)
  fix c m fm
  obtain rd pd where "pcb_destroy_s c 0xFFC00000 (started reap_state) (my_tid reap_state) (Some reap_pcb) m fm = Some (rd, pd, m, fm)"
    using reap_destroys by blast
  from reap_correct [OF reap_sched reap_blocks(6,1) reap_runs reap_blocks(3,5) reap_apart reap_buf_ok this]
  show "\<exists>cb' s'. reap_zombie_thread c 0xFFC00000 (Some reap_buf) m fm reap_state = Some (Some cb', m, fm, s') \<and>
     sched_ok s' (reap_pools(Zomb := [30])) \<and> pcbs s' = (pcbs reap_state)(t_pcb (ex_tcb 2 ZOMBIE 0 901) := None)"
    using reap_blocks(7) by auto
qed

text \<open>
  C40: when two threads of a process have vanished before the reaper runs, the process has no thread left when the first of
  them is reaped, so its block is freed with it; the pass for the second reads \<open>num_threads\<close> from the freed
  block.
\<close>

theorem reap_second_thread_reads_freed_process:
  assumes "sched_at d s Q" "Q Zomb = n # n' # zs" "tcbs s (data (s_heap s) n) = Some t" "runs s Q r"
    "pcbs s (t_pcb t) = Some p" "ht_ok (processes (thr_pool s))" "heap_apart s Q"
    "circ_ok cb" "contents cb = []" "cb_len cb = NUM_ADDRS"
    "num_threads p = 0" "tcbs s (data (s_heap s) n') = Some t'" "t_pcb t' = t_pcb t"
    "pcb_destroy_s c ums (started s) (my_tid s) (Some p) m fm = Some (rd, pd, m1, fm1)"
  shows "\<exists>cb1 s1. reap_zombie_thread c ums (Some cb) m fm s = Some (cb1, m1, fm1, s1) \<and>
    reap_zombie_thread c ums cb1 m1 fm1 s1 = None"
proof -
  obtain cb1 s1 where R: "reap_zombie_thread c ums (Some cb) m fm s =
      Some (Some cb1, if num_threads p = 0 then m1 else m, if num_threads p = 0 then fm1 else fm, s1)"
    "circ_ok cb1" "contents cb1 = []" "cb_len cb1 = NUM_ADDRS" "sched_at d s1 (Q(Zomb := n' # zs))" "tcbs s1 = (tcbs s)(data (s_heap s) n := None)"
    "pcbs s1 = (if num_threads p = 0 then (pcbs s)(t_pcb t := None) else pcbs s)"
    "\<forall>k\<in>members Q. k \<noteq> n \<longrightarrow> data (s_heap s1) k = data (s_heap s) k"
    by (rule reap_ok [OF assms(1-10,14)])
  note D = sched_okD [OF assms(1)]
  have n': "n' \<in> members Q" "n \<in> members Q" "n' \<noteq> n"
    using assms(2) on_poolsD(4) [OF D(1), of Zomb] membersI [of _ Q Zomb] by auto
  then have t1: "tcbs s1 (data (s_heap s1) n') = Some t'"
    using R(6,8) assms(12) member_inj [OF D(2) n'(1,2)] by auto
  have z: "(Q(Zomb := n' # zs)) Zomb = n' # zs" by simp
  obtain ht' h cb2 where S: "ll_peek (zombie_pool (thr_pool s1)) (s_heap s1) = Some (0, Some (data (s_heap s1) n'))"
    "tcb_pool_remove_tcb (t_tid t') (Some cb1) (sched_locked s1) =
      Some (0, Some cb2, (sched_locked s1)\<lparr>thr_pool := (thr_pool s1)\<lparr>threads := ht'\<rparr>, s_heap := h\<rparr>)"
    by (rule reap_removes [OF R(5) z t1 R(2-4)])
  have l: "tcbs (sched_locked s1) = tcbs s1" "pcbs (sched_locked s1) = pcbs s1" by (simp_all add: sched_locked_def)
  have "reap_zombie_thread c ums (Some cb1) m1 fm1 s1 = None"
    using S t1 R(7) assms(11,13) by (simp add: reap_zombie_thread_def l Let_def)
  then show ?thesis using R(1) assms(11) by auto
qed

theorem reap_second_thread_reads_freed_process_witness:
  "\<forall>c m fm. \<exists>cb1 m1 fm1 s1. reap_zombie_thread c 0xFFC00000 (Some reap_buf) m fm reap_state = Some (cb1, m1, fm1, s1) \<and>
     reap_zombie_thread c 0xFFC00000 cb1 m1 fm1 s1 = None"
proof (intro allI)
  fix c m fm
  obtain rd pd where "pcb_destroy_s c 0xFFC00000 (started reap_state) (my_tid reap_state) (Some reap_pcb) m fm = Some (rd, pd, m, fm)"
    using reap_destroys by blast
  then show "\<exists>cb1 m1 fm1 s1. reap_zombie_thread c 0xFFC00000 (Some reap_buf) m fm reap_state = Some (cb1, m1, fm1, s1) \<and>
     reap_zombie_thread c 0xFFC00000 cb1 m1 fm1 s1 = None"
    using reap_second_thread_reads_freed_process [OF reap_sched reap_blocks(6,1) reap_runs reap_blocks(3,5) reap_apart reap_buf_ok
      reap_blocks(7,2,4)] by blast
qed

end
