(* ===== verification/NewThreads.thy ===== *)
theory NewThreads
  imports KernelProps
begin

text \<open>
  Creation of threads: \<open>scheduler_add_new_thread\<close>, behind \<open>thread_fork\<close>, keeps the invariant of the scheduler and puts
  the new thread at the end of the runnable pool. The lemmas on registration are shared with the start of
  the kernel.
\<close>

subsection \<open>The list node and the entry of the table\<close>

lemma prepare_ok:
  assumes "malloc_ok al" "al (mcalls (s_heap s)) (\<lambda>q. nodes (s_heap s) q \<noteq> None) = n" "n \<noteq> NULL"
    "on_pools (thr_pool s) (s_heap s) Q" "fst e \<noteq> NULL" "snd e \<noteq> NULL"
  obtains h where "prepare_entry al junk e obj key s =
      Some (0, Some \<lparr>c_node = snd e, c_entry = fst e, c_key = word_of_int key, c_val = n\<rparr>, s\<lparr>s_heap := h\<rparr>)"
    "on_pools (thr_pool s) h Q" "detached h n" "n \<notin> members Q" "data h = (data (s_heap s))(n := obj)"
    "mcalls h = Suc (mcalls (s_heap s))" "\<forall>x. nodes h x = None \<longleftrightarrow> x \<noteq> n \<and> nodes (s_heap s) x = None"
proof -
  let ?old = "s_heap s"
  have fresh: "nodes ?old n = None" using malloc_okD [OF assms(1), of "mcalls ?old" "\<lambda>q. nodes ?old q \<noteq> None"] assms(2,3) by simp
  have ml: "malloc_node al junk ?old = (n, ?old\<lparr>mcalls := Suc (mcalls ?old), nodes := (nodes ?old)(n \<mapsto> junk)\<rparr>)"
    using assms(2,3) by (simp add: malloc_node_def Let_def)
  let ?h = "?old\<lparr>mcalls := Suc (mcalls ?old), nodes := (nodes ?old)(n \<mapsto> junk\<lparr>nd_prev := NULL, nd_next := NULL, nd_e := obj\<rparr>)\<rparr>"
  have init: "ll_node_init n obj (snd (malloc_node al junk ?old)) = Some (0, ?h)"
    using assms(3) ml by (simp add: ll_node_init_def)
  have nQ: "n \<notin> set (Q k)" for k using holds_live [OF on_poolsD(1) [OF assms(4)], of n k] fresh by auto
  have "holds ?h (pool_at (thr_pool s) k) (Q k)" for k
    using on_poolsD(1) [OF assms(4), of k] dseg_upd_other [OF nQ [of k]] by (simp add: holds_def ll_rep_def)
  then have "on_pools (thr_pool s) ?h Q" using assms(4) by (simp add: on_pools_def)
  moreover have "detached ?h n" using assms(3) by (simp add: detached_def)
  moreover have "data ?h = (data ?old)(n := obj)" by (simp add: data_def fun_eq_iff)
  moreover have "n \<notin> members Q" using nQ by (simp add: members_def)
  moreover have "mcalls ?h = Suc (mcalls ?old)" "\<forall>x. nodes ?h x = None \<longleftrightarrow> x \<noteq> n \<and> nodes ?old x = None" by simp_all
  moreover have "prepare_entry al junk e obj key s =
      Some (0, Some \<lparr>c_node = snd e, c_entry = fst e, c_key = word_of_int key, c_val = n\<rparr>, s\<lparr>s_heap := ?h\<rparr>)"
    using init assms(5,6) by (simp add: prepare_entry_def ml)
  ultimately show thesis using that by blast
qed

subsection \<open>A new block, and one more runnable thread\<close>

text \<open>A block that belongs to no node, and a higher next tid, do not matter for the invariant.\<close>

lemma sched_at_block:
  assumes ok: "sched_at d s Q" and p: "tcbs s p = None" "p \<noteq> NULL" and same: "tcbs s' = (tcbs s)(p \<mapsto> t)" "s_heap s' = s_heap s"
    "thr_pool s' = thr_pool s" "num_ticks s' = num_ticks s" "idle_tcb s' = idle_tcb s" "cur_tcb s' = cur_tcb s"
    "next_tid s \<le> next_tid s'" "next_tid s' < 2 ^ 31"
  shows "sched_at d s' Q"
proof -
  note D = sched_okD [OF ok]
  have old: "data (s_heap s) m \<noteq> p" if "m \<in> members Q" for m
  proof -
    have "node_ok s m" using D(2) that by (simp add: registered_def)
    then show ?thesis using p(1) by (auto simp: node_ok_def)
  qed
  then have tc: "tcbs s' (data (s_heap s) m) = tcbs s (data (s_heap s) m)" if "m \<in> members Q" for m using same(1) that by simp
  have at: "status_at s' m = status_at s m" "wake_at s' m = wake_at s m" if "m \<in> members Q" for m
    using tc [OF that] same(2) by (simp_all add: status_at_def wake_at_def wakeup_at_def)
  have "node_ok s' m" if "m \<in> members Q" for m
  proof -
    have "node_ok s m" using D(2) that by (simp add: registered_def)
    then show ?thesis using tc [OF that] same by (auto simp: node_ok_def)
  qed
  then have "registered s' Q" using D(2) tc same unfolding registered_def by (auto simp del: fun_upd_apply)
  moreover have "statuses_ok s' Q" using D(3) at(1) membersI [of _ Q] same(2,6) unfolding statuses_ok_def by metis
  moreover have "sleepers_ok d s' (Q Sleep)" by (rule sleepers_same [OF D(4)]) (use at(2) membersI [of _ Q Sleep] same(4) in auto)
  moreover have "others_ok s' Q" using D(5) same p by (auto simp: others_ok_def)
  ultimately show ?thesis using D(1) same by (simp add: sched_at_def)
qed

lemma sched_at_added:
  assumes ok: "sched_at d s Q" and fresh: "n \<notin> members Q" "p \<noteq> NULL" "p \<notin> data (s_heap s) ` members Q" "p \<noteq> idle_tcb s"
    and t: "tcbs s p = Some t" "t_status t = RUNNABLE" "0 \<le> t_tid t" "t_tid t < next_tid s"
    and pools: "data (s_heap s') = (data (s_heap s))(n := p)" "on_pools (thr_pool s') (s_heap s') (Q(Run := Q Run @ [n]))"
    and ht: "ht_ok (threads (thr_pool s'))" "ht_map (threads (thr_pool s)) (word_of_int (t_tid t)) = None"
      "ht_map (threads (thr_pool s')) = (ht_map (threads (thr_pool s)))(word_of_int (t_tid t) \<mapsto> n)"
    and same: "num_ticks s' = num_ticks s" "idle_tcb s' = idle_tcb s" "cur_tcb s' = cur_tcb s" "tcbs s' = tcbs s" "next_tid s' = next_tid s"
      "s_m (zombies_sem (thr_pool s')) = s_m (zombies_sem (thr_pool s))"
  shows "sched_at d s' (Q(Run := Q Run @ [n]))"
proof -
  note D = sched_okD [OF ok]
  let ?Q = "Q(Run := Q Run @ [n])"
  have mem: "members ?Q = insert n (members Q)" by (rule members_linked) simp
  have old: "data (s_heap s') m = data (s_heap s) m" if "m \<in> members Q" for m using pools(1) fresh(1) that by auto
  have new: "data (s_heap s') n = p" using pools(1) by simp
  have at: "status_at s' m = status_at s m" "wake_at s' m = wake_at s m" if "m \<in> members Q" for m
    using old [OF that] same(4) by (simp_all add: status_at_def wake_at_def wakeup_at_def)
  have stn: "status_at s' n = RUNNABLE" using new t(1,2) same(4) by (simp add: status_at_def)
  have "node_ok s' m" if "m \<in> members ?Q" for m
  proof (cases "m = n")
    case True
    then show ?thesis using new t fresh(2) ht(3) same(4,5) by (simp add: node_ok_def)
  next
    case False
    then have m: "m \<in> members Q" using that mem by simp
    then have "node_ok s m" using D(2) by (simp add: registered_def)
    then show ?thesis using old [OF m] ht(2,3) same(4,5) by (auto simp: node_ok_def)
  qed
  moreover have "m \<in> members ?Q \<and> (\<forall>u. tcbs s' (data (s_heap s') m) = Some u \<longrightarrow> key = word_of_int (t_tid u))"
    if k: "ht_map (threads (thr_pool s')) key = Some m" for key m
  proof (cases "key = word_of_int (t_tid t)")
    case True
    then have "m = n" using k ht(3) by simp
    then show ?thesis using True new mem t(1) same(4) by simp
  next
    case False
    then have k': "ht_map (threads (thr_pool s)) key = Some m" using k ht(3) by simp
    have m: "m \<in> members Q" by (rule registered_key(1) [OF D(2) k'])
    then show ?thesis using registered_key(2) [OF D(2) k'] old [OF m] mem same(4) by simp
  qed
  ultimately have "registered s' ?Q" using ht(1) D(2) same(5) by (simp add: registered_def)
  moreover have "statuses_ok s' ?Q"
  proof -
    have "fits_pool k (status_at s' m)" if "m \<in> set (?Q k)" for k m
    proof (cases "m = n")
      case True
      then have "k = Run" using that fresh(1) membersI [of m Q k] by (auto split: if_splits)
      then show ?thesis using True stn by simp
    next
      case False
      then have "m \<in> set (Q k)" using that by (auto split: if_splits)
      then show ?thesis using at(1) [OF membersI [of m Q k]] D(3) by (simp add: statuses_ok_def)
    qed
    moreover have "data (s_heap s') m = cur_tcb s'" if "m \<in> members ?Q" "status_at s' m = RUNNING" for m
      using that stn at(1) [of m] old [of m] D(3) mem same(3) by (auto simp: statuses_ok_def)
    ultimately show ?thesis by (simp only: statuses_ok_def) blast
  qed
  moreover have "sleepers_ok d s' (?Q Sleep)"
    by (rule sleepers_same [OF D(4)]) (use at(2) membersI [of _ Q Sleep] same(1) in auto)
  moreover have "others_ok s' ?Q" using D(5) mem same old new fresh(4) by (auto simp: others_ok_def)
  ultimately show ?thesis using pools(2) by (simp add: sched_at_def)
qed

text \<open>Registering a block as a runnable thread.\<close>

lemma add_runnable_ok:
  assumes ok: "sched_at d s Q" and fresh: "p \<noteq> NULL" "p \<notin> data (s_heap s) ` members Q" "p \<noteq> idle_tcb s"
    and t: "tcbs s p = Some t" "t_status t = RUNNABLE" "0 \<le> t_tid t" "t_tid t < next_tid s"
      "ht_map (threads (thr_pool s)) (word_of_int (t_tid t)) = None"
    and al: "malloc_ok al" "al (mcalls (s_heap s)) (\<lambda>q. nodes (s_heap s) q \<noteq> None) = n" "n \<noteq> NULL" "fst e \<noteq> NULL" "snd e \<noteq> NULL"
  obtains s' where "tcb_pool_add_runnable_tcb_safe al junk e p s = Some (0, s')" "sched_at d s' (Q(Run := Q Run @ [n]))"
    "data (s_heap s') = (data (s_heap s))(n := p)" "n \<notin> members Q"
    "intr s' = intr (sched_unlocked (sched_locked s))" "tcbs s' = tcbs s" "pcbs s' = pcbs s" "cur_tcb s' = cur_tcb s" "next_tid s' = next_tid s"
    "started s' = started s" "idle_tcb s' = idle_tcb s" "processes (thr_pool s') = processes (thr_pool s)" "next_pid s' = next_pid s"
    "\<forall>x. nodes (s_heap s') x = None \<longleftrightarrow> x \<noteq> n \<and> nodes (s_heap s) x = None" "num_ticks s' = num_ticks s" "sc_mcalls s' = sc_mcalls s"
proof -
  note D = sched_okD [OF ok]
  obtain h where h: "prepare_entry al junk e p (t_tid t) s =
      Some (0, Some \<lparr>c_node = snd e, c_entry = fst e, c_key = word_of_int (t_tid t), c_val = n\<rparr>, s\<lparr>s_heap := h\<rparr>)"
    "on_pools (thr_pool s) h Q" "detached h n" "n \<notin> members Q" "data h = (data (s_heap s))(n := p)"
    "\<forall>x. nodes h x = None \<longleftrightarrow> x \<noteq> n \<and> nodes (s_heap s) x = None"
    by (rule prepare_ok [OF al(1-3) D(1) al(4,5)])
  let ?cell = "\<lparr>c_node = snd e, c_entry = fst e, c_key = word_of_int (t_tid t) :: u32, c_val = n\<rparr>"
  have hok: "ht_ok (threads (thr_pool s))" using D(2) by (simp add: registered_def)
  obtain ht' where ht: "ht_put_entry (Some (threads (thr_pool s))) (Some ?cell) = Some (0, Some ht')" "ht_ok ht'"
    "ht_map ht' = (ht_map (threads (thr_pool s)))(word_of_int (t_tid t) \<mapsto> n)"
    using ht_put_entry_map(2) [OF hok, of ?cell] t(5) al(5) by auto
  obtain h2 where h2: "ll_link_node_last (pool_at (thr_pool s) Run) n h = Some (0, h2)" "on_pools (thr_pool s) h2 (Q(Run := Q Run @ [n]))" "data h2 = data h"
    by (rule pool_link_last [OF h(2-4)])
  have "n \<notin> set (Q Run)" using h(4) membersI by blast
  then have "payload h2 = payload h" using ll_link_node_last_holds [OF on_poolsD(1) [OF h(2)] h(3), of Run] h2(1) by (auto simp: frame_def)
  then have live: "\<forall>x. nodes h2 x = None \<longleftrightarrow> x \<noteq> n \<and> nodes (s_heap s) x = None"
    using h(6) by (simp add: payload_def fun_eq_iff) (metis option.map_disc_iff)
  define b where "b = intr (sched_unlocked (sched_locked s))"
  let ?s' = "s\<lparr>intr := b, thr_pool := (thr_pool s)\<lparr>threads := ht'\<rparr>, s_heap := h2\<rparr>"
  have "tcb_pool_add_runnable_tcb_safe al junk e p s = Some (0, ?s')"
    using fresh(1) t(1) h(1) ht(1) h2(1)
    by (simp add: tcb_pool_add_runnable_tcb_safe_def b_def sched_locked_def sched_unlocked_def Let_def)
  moreover have op: "on_pools ((thr_pool s)\<lparr>threads := ht'\<rparr>) = on_pools (thr_pool s)"
  proof -
    have "pool_at ((thr_pool s)\<lparr>threads := ht'\<rparr>) k = pool_at (thr_pool s) k" for k by (cases k) simp_all
    then show ?thesis by (simp add: on_pools_def fun_eq_iff inj_def)
  qed
  have "sched_at d ?s' (Q(Run := Q Run @ [n]))"
    by (rule sched_at_added [OF ok h(4) fresh t(1-4)]) (use h(5) h2(2,3) ht(2,3) t(5) op in simp_all)
  ultimately show thesis using that h(4,5) h2(3) live by (simp add: b_def)
qed

subsection \<open>Creating a thread\<close>

lemma fresh_tid:
  assumes "registered s Q" "0 \<le> next_tid s" "next_tid s < 2 ^ 31"
  shows "ht_map (threads (thr_pool s)) (word_of_int (next_tid s)) = None"
proof (rule ccontr)
  assume "ht_map (threads (thr_pool s)) (word_of_int (next_tid s)) \<noteq> None"
  then obtain n where n: "ht_map (threads (thr_pool s)) (word_of_int (next_tid s)) = Some n" by blast
  note m = registered_key(1) [OF assms(1) n]
  obtain t where t: "tcbs s (data (s_heap s) n) = Some t" "0 \<le> t_tid t" "t_tid t < 2 ^ 31" "t_tid t < next_tid s"
    by (rule registeredE [OF assms(1) m])
  have "(word_of_int (next_tid s) :: u32) = word_of_int (t_tid t)" by (rule registered_key(2) [OF assms(1) n t(1)])
  then show False using word_of_tid_inj [OF assms(2,3) t(2,3)] t(4) by simp
qed

lemma tcb_init_new:
  assumes "kst \<noteq> NULL"
  obtains t where "tcb_init g kst (Some junk) tid (Some (pp, p)) regs = (0, Some t)" "t_tid t = tid" "t_pcb t = pp" "t_status t = RUNNABLE"
    "k_stack_bot t = kst" "tmp_k_stack t = orig_k_stack t" "k_words t ! EIP_IDX = reg regs (entry_point p) EIP_IDX"
    "k_words t ! ESP_IDX = reg regs (stack_top p) ESP_IDX" "length (k_words t) = 18" "k_words t ! EAX_IDX = 0"
  using assms by (simp add: tcb_init_def load_kstack_def Let_def)

lemma count_thread_free:
  assumes "pcbs s pp = Some p" "pcb_m p = free_mutex" "started s"
  shows "count_thread pp s = Some (s\<lparr>pcbs := (pcbs s)(pp \<mapsto> p\<lparr>num_threads := num_threads p + 1\<rparr>)\<rparr>)"
  using assms by (cases p) (simp add: count_thread_def pcb_inc_threads_s_def)

text \<open>
  C17: creating a thread, when the memory it needs is there: \<open>scheduler_add_new_thread\<close> returns the next tid, under which the
  new thread is found; the thread belongs to the process of its creator, is runnable and at the end of
  the runnable pool, and its saved context starts at the instruction and stack pointer of the given registers
  with 0 as the result of the call; the process counts one more thread. The invariant of the scheduler
  holds again, the creator still runs, and no other thread or process has changed.
\<close>

theorem thread_creation_correct:
  assumes "sched_ok s Q" "runs s Q r" "tcbs s (cur_tcb s) = Some tc" "pcbs s (t_pcb tc) = Some p" "pcb_m p = free_mutex" "started s"
    and "0 \<le> next_tid s" "next_tid s + 1 < 2 ^ 31"
    and "malloc_ok (nt_tcb a)" "nt_tcb a (sc_mcalls s) (\<lambda>q. tcbs s q \<noteq> None) = tp" "tp \<noteq> NULL" "nt_kst a \<noteq> NULL"
    and "malloc_ok (nt_node a)" "nt_node a (mcalls (s_heap s)) (\<lambda>q. nodes (s_heap s) q \<noteq> None) = n" "n \<noteq> NULL"
      "fst (nt_entry a) \<noteq> NULL" "snd (nt_entry a) \<noteq> NULL"
  shows "\<exists>s' t. scheduler_add_new_thread g a regs s = Some (next_tid s, s') \<and>
    sched_ok s' (Q(Run := Q Run @ [n])) \<and> runs s' (Q(Run := Q Run @ [n])) r \<and> find_node (next_tid s) s' = Some (Inr (n, tp)) \<and>
    tcbs s' = (tcbs s)(tp \<mapsto> t) \<and> t_pcb t = t_pcb tc \<and> t_tid t = next_tid s \<and> t_status t = RUNNABLE \<and>
    k_words t ! EIP_IDX = reg regs (entry_point p) EIP_IDX \<and> k_words t ! ESP_IDX = reg regs (stack_top p) ESP_IDX \<and> k_words t ! EAX_IDX = 0 \<and>
    pcbs s' = (pcbs s)(t_pcb tc \<mapsto> p\<lparr>num_threads := num_threads p + 1\<rparr>) \<and> next_tid s' = next_tid s + 1 \<and> cur_tcb s' = cur_tcb s"
proof -
  note D = sched_okD [OF assms(1)]
  have tn: "tcbs s tp = None" using malloc_okD [OF assms(9), of "sc_mcalls s" "\<lambda>q. tcbs s q \<noteq> None"] assms(10,11) by simp
  obtain t where t: "tcb_init g (nt_kst a) (Some (nt_tcb_junk a)) (next_tid s) (Some (t_pcb tc, p)) regs = (0, Some t)"
    "t_tid t = next_tid s" "t_pcb t = t_pcb tc" "t_status t = RUNNABLE"
    "k_words t ! EIP_IDX = reg regs (entry_point p) EIP_IDX"
    "k_words t ! ESP_IDX = reg regs (stack_top p) ESP_IDX" "k_words t ! EAX_IDX = 0"
    by (rule tcb_init_new [OF assms(12)])
  let ?pcbs = "(pcbs s)(t_pcb tc \<mapsto> p\<lparr>num_threads := num_threads p + 1\<rparr>)"
  let ?s4 = "s\<lparr>next_tid := next_tid s + 1, sc_mcalls := Suc (sc_mcalls s), tcbs := (tcbs s)(tp \<mapsto> t), pcbs := ?pcbs\<rparr>"
  have cur: "cur_tcb s \<noteq> tp" using tn assms(3) by auto
  have ok4: "sched_ok ?s4 Q" by (rule sched_at_block [OF assms(1) tn assms(11)]) (use assms(8) in simp_all)
  have out: "tp \<notin> data (s_heap ?s4) ` members Q" "tp \<noteq> idle_tcb ?s4"
    using tn D(2,5) by (auto simp: registered_def node_ok_def others_ok_def)
  have T: "tcbs ?s4 tp = Some t" "t_status t = RUNNABLE" "0 \<le> t_tid t" "t_tid t < next_tid ?s4"
    "ht_map (threads (thr_pool ?s4)) (word_of_int (t_tid t)) = None"
    using t(2,4) assms(7,8) fresh_tid [OF D(2) assms(7)] by simp_all
  have A: "nt_node a (mcalls (s_heap ?s4)) (\<lambda>q. nodes (s_heap ?s4) q \<noteq> None) = n" using assms(14) by simp
  obtain s' where s': "tcb_pool_add_runnable_tcb_safe (nt_node a) (nt_node_junk a) (nt_entry a) tp ?s4 = Some (0, s')" "sched_ok s' (Q(Run := Q Run @ [n]))"
    "data (s_heap s') = (data (s_heap ?s4))(n := tp)" "n \<notin> members Q" "tcbs s' = tcbs ?s4" "pcbs s' = pcbs ?s4" "cur_tcb s' = cur_tcb ?s4" "next_tid s' = next_tid ?s4"
    by (rule add_runnable_ok [OF ok4 assms(11) out T assms(13) A assms(15-17)])
  have "scheduler_add_new_thread g a regs s = Some (next_tid s, s')"
    using assms(3-6,10,11) cur t(1) s'(1) count_thread_free [of "?s4\<lparr>pcbs := pcbs s\<rparr>" "t_pcb tc" p]
    by (simp add: scheduler_add_new_thread_def malloc_tcb_def init_new_tcb_def Let_def)
  moreover have "find_node (next_tid s) s' = Some (Inr (n, tp))"
    using find_member [OF sched_okD(1,2) [OF s'(2)], of n t] membersI [of n "Q(Run := Q Run @ [n])" Run] s'(3,5) t(2) by simp
  moreover have "r \<in> members Q" using assms(2) by (auto simp: runs_def intro: membersI)
  then have "runs s' (Q(Run := Q Run @ [n])) r"
    using assms(2,3) s'(3-5,7) cur by (auto simp: runs_def status_at_def)
  ultimately show ?thesis using s' t by (intro exI [of _ s'] exI [of _ t]) simp
qed

definition ex_process :: pcb where
  "ex_process = \<lparr>pid = 1, ppid = 0, original_tid = 1, stack_top = 0xffffe000, entry_point = 0x1000000,
     pcb_pd = \<lparr>directory = replicate 1024 0, num_pages = 0, p_addr_list = [], mapping_tasks = [], batch_enabled = False\<rparr>,
     num_threads = 3, num_child_proc = 0, pcb_argc = 0, pcb_argv = 0, wait_sem = \<lparr>s_count = 0, s_m = free_mutex, s_q = []\<rparr>,
     status_queue = Some [], pcb_m = free_mutex\<rparr>"

definition ex_creator :: sched where
  "ex_creator = ex_kernel\<lparr>pcbs := [5000 \<mapsto> ex_process]\<rparr>"

definition ex_memory :: new_thread_mem where
  "ex_memory = \<lparr>nt_tcb = pool_alloc [9000], nt_tcb_junk = ex_tcb 0 UNINIT 0 0, nt_kst = 0x20000, nt_node = pool_alloc [40],
     nt_node_junk = \<lparr>nd_e = 0, nd_next = 0, nd_prev = 0\<rparr>, nt_entry = (7004, 6004)\<rparr>"

lemma at_pcbs [simp]: "status_at (s\<lparr>pcbs := b\<rparr>) = status_at s" "wake_at (s\<lparr>pcbs := b\<rparr>) = wake_at s"
  by (simp_all add: status_at_def wake_at_def fun_eq_iff)

lemma sched_at_pcbs [simp]: "sched_at d (s\<lparr>pcbs := b\<rparr>) Q = sched_at d s Q" "runs (s\<lparr>pcbs := b\<rparr>) Q n = runs s Q n"
  by (simp_all add: sched_at_def registered_def node_ok_def statuses_ok_def sleepers_ok_def others_ok_def runs_def)

theorem thread_creation_correct_witness:
  "\<exists>s'. scheduler_add_new_thread \<lparr>SEGSEL_USER_DS = 0x2b, SEGSEL_USER_CS = 0x23, user_eflags = 0x202\<rparr> ex_memory None ex_creator = Some (4, s') \<and>
     sched_ok s' (ex_pools(Run := [10, 20, 40])) \<and> find_node 4 s' = Some (Inr (40, 9000))"
proof -
  have s: "sched_ok ex_creator ex_pools" "runs ex_creator ex_pools 10"
    using ex_scheduled ex_runs by (simp_all add: ex_creator_def scheduled_def)
  have c: "tcbs ex_creator (cur_tcb ex_creator) = Some (ex_tcb 1 RUNNING 0 900)" "pcbs ex_creator (t_pcb (ex_tcb 1 RUNNING 0 900)) = Some ex_process"
    "pcb_m ex_process = free_mutex" "started ex_creator" "0 \<le> next_tid ex_creator" "next_tid ex_creator + 1 < 2 ^ 31" "next_tid ex_creator = 4"
    by (simp_all add: ex_creator_def ex_kernel_def ex_tcb_def ex_process_def)
  have m: "malloc_ok (nt_tcb ex_memory)" "nt_tcb ex_memory (sc_mcalls ex_creator) (\<lambda>q. tcbs ex_creator q \<noteq> None) = 9000" "(9000 :: ptr) \<noteq> NULL"
    "nt_kst ex_memory \<noteq> NULL" "malloc_ok (nt_node ex_memory)"
    "nt_node ex_memory (mcalls (s_heap ex_creator)) (\<lambda>q. nodes (s_heap ex_creator) q \<noteq> None) = 40" "(40 :: ptr) \<noteq> NULL"
    "fst (nt_entry ex_memory) \<noteq> NULL" "snd (nt_entry ex_memory) \<noteq> NULL"
    by (simp_all add: ex_memory_def pool_alloc_ok) (simp_all add: pool_alloc_def ex_creator_def ex_kernel_def ex_lists_def)
  show ?thesis
    using thread_creation_correct [OF s c(1-6) m, of "\<lparr>SEGSEL_USER_DS = 0x2b, SEGSEL_USER_CS = 0x23, user_eflags = 0x202\<rparr>" None] c(7)
    by (auto simp del: fun_upd_apply)
qed

end
