(* ===== verification/Boot.thy ===== *)
theory Boot
  imports NewThreads Loader PageDirectoryCorrect FrameManagerInit
begin

text \<open>
  The start of the kernel: \<open>scheduler_init\<close> and \<open>scheduler_add_reaper_proc\<close> of \<open>kern/scheduler/scheduler.c\<close>, which
  create the idle, the reaper and the init process, and \<open>scheduler_add_process\<close>, which \<open>fork\<close> uses too. The state in which
  the kernel starts satisfies the invariant of the scheduler, and after the first tick of the timer a
  thread runs.
\<close>

subsection \<open>Model\<close>

text \<open>The state that exists before the scheduler starts: its record, the three fields of \<open>scheduler_t\<close> for the reaper, and memory.\<close>

record kboot =
  kb_sched :: sched
  reaper_stack_bot :: ptr
  reaper_stack_top :: ptr
  reaper_tcb :: ptr
  kb_mem :: vmem
  kb_fm :: frame_manager

text \<open>
  What comes from outside: selectors and flags, the loader's library, and the answers of the allocator for
  the stack of the reaper, the thread pool, the three process blocks and the threads.
\<close>

record boot_env =
  be_segs :: segs
  SEGSEL_KERNEL_DS :: u32
  SEGSEL_KERNEL_CS :: u32
  be_vctx :: vctx
  be_ums :: u32
  be_pages :: kernel_pages
  be_elf :: elf_lib
  be_toc :: "toc_entry list"
  be_junk :: "u32 \<times> u32"
  be_stack :: ptr
  be_pool :: "bool \<times> bool \<times> bool"
  be_idle :: ptr
  be_reaper :: ptr
  be_init :: ptr
  be_pcb_junk :: pcb
  be_queues :: "bool \<times> bool"
  be_regs :: "u32 list"
  be_idle_thread :: new_thread_mem
  be_reaper_thread :: new_thread_mem
  be_init_thread :: new_thread_mem
  be_reaper_node :: allocator
  be_reaper_entry :: "ptr \<times> ptr"
  be_init_node :: allocator
  be_init_entry :: "ptr \<times> ptr"
  be_idle_name :: "8 word list"
  be_init_name :: "8 word list"

text \<open>The registers of the reaper; the elements of the array that are not assigned keep what the stack held (\<open>junk\<close>).\<close>

definition reaper_regs :: "boot_env \<Rightarrow> ptr \<Rightarrow> u32 \<Rightarrow> u32 list" where
  "reaper_regs v stk reap_func =
     (be_regs v)[SS_IDX := SEGSEL_KERNEL_DS v, ESP_IDX := stk, EFLAGS_IDX := user_eflags (be_segs v), CS_IDX := SEGSEL_KERNEL_CS v,
       EIP_IDX := reap_func, ECX_IDX := 0, EDX_IDX := 0, EBX_IDX := 0, EBP_IDX := stk, ESI_IDX := 0, EDI_IDX := 0,
       DS_IDX := SEGSEL_KERNEL_DS v, ES_IDX := SEGSEL_KERNEL_DS v, FS_IDX := SEGSEL_KERNEL_DS v, GS_IDX := SEGSEL_KERNEL_DS v]"

definition scheduler_add_reaper_proc :: "boot_env \<Rightarrow> ptr \<Rightarrow> u32 \<Rightarrow> kboot \<Rightarrow> (int \<times> kboot) option" where
  "scheduler_add_reaper_proc v reaper_pcb reap_func kb =
     (if reaper_pcb = NULL then Some (-1, kb)
      else do {
        let regs = reaper_regs v (reaper_stack_top kb) reap_func;
        let a = be_reaper_thread v;
        let (tcb, s) = malloc_tcb (nt_tcb a) (nt_tcb_junk a) (kb_sched kb);
        if tcb = NULL then Some (-2, kb\<lparr>kb_sched := s\<rparr>)
        else do {
          let tid = next_tid s;
          let s = s\<lparr>next_tid := next_tid s + 1\<rparr>;
          (r, s) \<leftarrow> init_new_tcb (be_segs v) a tcb tid reaper_pcb (Some regs) s;
          if r < 0 then Some (-3, kb\<lparr>kb_sched := s\<lparr>tcbs := (tcbs s)(tcb := None)\<rparr>\<rparr>)
          else do {
            let kb = kb\<lparr>reaper_tcb := tcb\<rparr>;
            (r, s) \<leftarrow> tcb_pool_add_pcb_safe (be_reaper_node v) (nt_node_junk a) (be_reaper_entry v) reaper_pcb s;
            if r < 0 then Some (-4, kb\<lparr>kb_sched := s\<rparr>)
            else do {
              (r, s) \<leftarrow> tcb_pool_add_runnable_tcb_safe (nt_node a) (nt_node_junk a) (nt_entry a) tcb s;
              Some (if r < 0 then -3 else 0, kb\<lparr>kb_sched := s\<rparr>)
            }
          }
        }
      })"

text \<open>
  \<open>malloc(sizeof(pcb_t))\<close> and \<open>pcb_init\<close>, whose return codes are not looked at; a block that is not there is accessed
  later all the same.
\<close>

definition boot_pcb :: "boot_env \<Rightarrow> ptr \<Rightarrow> kboot \<Rightarrow> kboot option" where
  "boot_pcb v pp kb = do {
     c_assert (pp \<noteq> NULL);
     (_, p, m) \<leftarrow> pcb_init (c_al (be_vctx v)) (be_ums v) (be_pages v) (be_queues v) (Some (be_pcb_junk v)) (kb_mem kb);
     p \<leftarrow> p;
     let s = kb_sched kb;
     Some (kb\<lparr>kb_sched := s\<lparr>pcbs := (pcbs s)(pp \<mapsto> p)\<rparr>, kb_mem := m\<rparr>)
   }"

text \<open>\<open>set_pdbr(pd_get_base_addr(&pcb->pd))\<close> and \<open>pcb_load_prog(pcb, name, 0, NULL)\<close>.\<close>

definition boot_load :: "boot_env \<Rightarrow> ptr \<Rightarrow> 8 word list \<Rightarrow> kboot \<Rightarrow> kboot option" where
  "boot_load v pp name kb = do {
     let s = (kb_sched kb)\<lparr>pdbr := pp\<rparr>;
     p \<leftarrow> pcbs s pp;
     (_, p, m, fm) \<leftarrow> pcb_load_prog (be_elf v) (be_toc v) (be_vctx v) (be_junk v) (Some p) (Some name) 0 NULL [] (kb_mem kb) (kb_fm kb);
     p \<leftarrow> p;
     Some (kb\<lparr>kb_sched := s\<lparr>pcbs := (pcbs s)(pp \<mapsto> p)\<rparr>, kb_mem := m, kb_fm := fm\<rparr>)
   }"

text \<open>
  The return codes of the calls after \<open>tcb_pool_init\<close> are not looked at. \<open>enable_pge\<close> and \<open>enable_paging\<close> set control registers of the processor,
  which the model does not have.
\<close>

definition scheduler_init :: "boot_env \<Rightarrow> u32 \<Rightarrow> kboot \<Rightarrow> (int \<times> kboot) option" where
  "scheduler_init v reap_func kb = do {
     let s = (kb_sched kb)\<lparr>started := False, num_ticks := 0, next_tid := 0, next_pid := 0, cur_tcb := NULL\<rparr>;
     let kb = kb\<lparr>reaper_stack_bot := be_stack v, reaper_stack_top := be_stack v + 4 * PAGE_SIZE\<rparr>;
     (r, s) \<leftarrow> tcb_pool_init (be_pool v) s;
     let kb = kb\<lparr>kb_sched := s\<rparr>;
     if r < 0 then Some (-2, kb)
     else do {
       kb \<leftarrow> boot_pcb v (be_idle v) kb;
       kb \<leftarrow> boot_pcb v (be_reaper v) kb;
       kb \<leftarrow> boot_pcb v (be_init v) kb;
       kb \<leftarrow> boot_load v (be_idle v) (be_idle_name v) kb;
       (_, s) \<leftarrow> scheduler_add_idle_process (be_segs v) (be_idle_thread v) (be_idle v) (kb_sched kb);
       (_, kb) \<leftarrow> scheduler_add_reaper_proc v (be_reaper v) reap_func (kb\<lparr>kb_sched := s\<rparr>);
       kb \<leftarrow> boot_load v (be_init v) (be_init_name v) kb;
       (_, s) \<leftarrow> scheduler_add_init_process (be_segs v) (be_init_thread v) (be_init_node v) (be_init_entry v) (be_init v) (kb_sched kb);
       Some (0, kb\<lparr>kb_sched := s\<rparr>)
     }
   }"

subsection \<open>The empty pools\<close>

text \<open>\<open>ll_init\<close> on the four structs of the pool.\<close>

definition empty_lists :: "tcb_pool \<Rightarrow> heap \<Rightarrow> heap" where
  "empty_lists tp h = h\<lparr>lists := \<lambda>l. if l \<in> range (pool_at tp) then map_option (\<lambda>L. L\<lparr>l_size := 0, l_head := NULL, l_tail := NULL\<rparr>) (lists h l) else lists h l\<rparr>"

lemma ll_init_pools:
  assumes "\<forall>k. pool_at tp k \<noteq> NULL \<and> lists h (pool_at tp k) \<noteq> None" "inj (pool_at tp)"
  obtains h1 h2 h3 where "ll_init (runnable_pool tp) h = Some (0, h1)" "ll_init (waiting_pool tp) h1 = Some (0, h2)"
    "ll_init (sleeping_pool tp) h2 = Some (0, h3)" "ll_init (zombie_pool tp) h3 = Some (0, empty_lists tp h)"
proof -
  have L: "pool_at tp k \<noteq> NULL" "\<exists>L. lists h (pool_at tp k) = Some L" for k using assms(1) by auto
  obtain A B C D where ABCD: "lists h (pool_at tp Run) = Some A" "lists h (pool_at tp Wait) = Some B" "lists h (pool_at tp Sleep) = Some C" "lists h (pool_at tp Zomb) = Some D"
    using L(2) by metis
  have ne: "pool_at tp j \<noteq> pool_at tp k" if "j \<noteq> k" for j k using assms(2) that by (auto dest: injD)
  have r: "range (pool_at tp) = {runnable_pool tp, waiting_pool tp, sleeping_pool tp, zombie_pool tp}" by (auto simp: all_pools)
  define z where "z = (\<lambda>L :: ll. L\<lparr>l_size := 0, l_head := NULL, l_tail := NULL\<rparr>)"
  have e: "empty_lists tp h = h\<lparr>lists := (lists h)(runnable_pool tp \<mapsto> z A, waiting_pool tp \<mapsto> z B, sleeping_pool tp \<mapsto> z C, zombie_pool tp \<mapsto> z D)\<rparr>"
    using ABCD ne [of Run Wait] ne [of Run Sleep] ne [of Run Zomb] ne [of Wait Sleep] ne [of Wait Zomb] ne [of Sleep Zomb]
    by (auto simp: empty_lists_def r z_def fun_eq_iff)
  show thesis
    by (rule that [of "h\<lparr>lists := (lists h)(runnable_pool tp \<mapsto> z A)\<rparr>" "h\<lparr>lists := (lists h)(runnable_pool tp \<mapsto> z A, waiting_pool tp \<mapsto> z B)\<rparr>"
          "h\<lparr>lists := (lists h)(runnable_pool tp \<mapsto> z A, waiting_pool tp \<mapsto> z B, sleeping_pool tp \<mapsto> z C)\<rparr>"])
      (use L(1) [of Run] L(1) [of Wait] L(1) [of Sleep] L(1) [of Zomb] ABCD e
         ne [of Run Wait] ne [of Run Sleep] ne [of Run Zomb] ne [of Wait Sleep] ne [of Wait Zomb] ne [of Sleep Zomb]
       in \<open>simp_all add: ll_init_def put_list_def z_def\<close>)
qed

lemma on_pools_empty:
  assumes "\<forall>k. pool_at tp k \<noteq> NULL \<and> lists h (pool_at tp k) \<noteq> None" "inj (pool_at tp)"
  shows "on_pools tp (empty_lists tp h) (\<lambda>_. [])"
proof -
  have "holds (empty_lists tp h) (pool_at tp k) []" for k
  proof -
    obtain L where "lists h (pool_at tp k) = Some L" using assms(1) by blast
    then show ?thesis using assms(1) by (simp add: holds_def ll_rep_def empty_lists_def)
  qed
  then show ?thesis using assms(2) by (simp add: on_pools_def)
qed

lemma tcb_pool_init_ok:
  assumes "\<forall>k. pool_at (thr_pool s) k \<noteq> NULL \<and> lists (s_heap s) (pool_at (thr_pool s) k) \<noteq> None" "inj (pool_at (thr_pool s))"
    and "mem = (True, True, True)"
  obtains s' where "tcb_pool_init mem s = Some (0, s')" "on_pools (thr_pool s') (s_heap s') (\<lambda>_. [])"
    "ht_ok (threads (thr_pool s'))" "ht_map (threads (thr_pool s')) = Map.empty" "ht_ok (processes (thr_pool s'))" "ht_map (processes (thr_pool s')) = Map.empty"
    "s_m (zombies_sem (thr_pool s')) = free_mutex" "nodes (s_heap s') = nodes (s_heap s)"
    "tcbs s' = tcbs s" "cur_tcb s' = cur_tcb s" "next_tid s' = next_tid s" "next_pid s' = next_pid s" "num_ticks s' = num_ticks s" "started s' = started s" "pcbs s' = pcbs s"
proof -
  let ?tp = "thr_pool s"
  obtain h1 h2 h3 where h: "ll_init (runnable_pool ?tp) (s_heap s) = Some (0, h1)" "ll_init (waiting_pool ?tp) h1 = Some (0, h2)"
    "ll_init (sleeping_pool ?tp) h2 = Some (0, h3)" "ll_init (zombie_pool ?tp) h3 = Some (0, empty_lists ?tp (s_heap s))"
    by (rule ll_init_pools [OF assms(1,2)])
  obtain a where a: "ht_init True (Some (threads ?tp)) 64 (Some tid_hash) = Some (0, Some a)" by (simp add: ht_init_def)
  obtain b where b: "ht_init True (Some (processes ?tp)) 64 (Some pid_hash) = Some (0, Some b)" by (simp add: ht_init_def)
  obtain z where z: "sem_init True (Some (zombies_sem ?tp)) 0 = (0, Some z)" "s_m z = free_mutex" by (simp add: sem_init_def mutex_init_def)
  let ?s' = "s\<lparr>thr_pool := ?tp\<lparr>threads := a, processes := b, zombies_sem := z\<rparr>, s_heap := empty_lists ?tp (s_heap s)\<rparr>"
  have "pool_at (?tp\<lparr>threads := a, processes := b, zombies_sem := z\<rparr>) k = pool_at ?tp k" for k by (cases k) simp_all
  then have "on_pools (?tp\<lparr>threads := a, processes := b, zombies_sem := z\<rparr>) = on_pools ?tp" by (simp add: on_pools_def fun_eq_iff inj_def)
  then have "on_pools (thr_pool ?s') (s_heap ?s') (\<lambda>_. [])" using on_pools_empty [OF assms(1,2)] by simp
  moreover have "tcb_pool_init mem s = Some (0, ?s')" using a b z(1) h by (simp add: tcb_pool_init_def assms(3) Let_def)
  moreover have "nodes (empty_lists ?tp (s_heap s)) = nodes (s_heap s)" by (simp add: empty_lists_def)
  ultimately show thesis
    by (intro that [of ?s']) (use ht_init_ok [OF a] ht_init_ok [OF b] z(2) in simp_all)
qed

lemma sched_at_start:
  assumes "on_pools (thr_pool s) (s_heap s) (\<lambda>_. [])" "ht_ok (threads (thr_pool s))" "ht_map (threads (thr_pool s)) = Map.empty"
    "s_m (zombies_sem (thr_pool s)) = free_mutex" "next_tid s < 2 ^ 31" "0 \<le> num_ticks s" "num_ticks s < 2 ^ 31"
    "tcbs s NULL = None" "tcbs s (idle_tcb s) \<noteq> None" "cur_tcb s = NULL"
  shows "sched_at d s (\<lambda>_. [])"
  using assms by (simp add: sched_at_def registered_def statuses_ok_def sleepers_ok_def others_ok_def members_def)

subsection \<open>Registering a process\<close>

text \<open>Changes outside of what the invariant speaks about.\<close>

lemma sched_at_same:
  assumes ok: "sched_at d s Q" and pools: "on_pools (thr_pool s') (s_heap s') Q" "\<forall>m\<in>members Q. data (s_heap s') m = data (s_heap s) m"
    and same: "threads (thr_pool s') = threads (thr_pool s)" "s_m (zombies_sem (thr_pool s')) = s_m (zombies_sem (thr_pool s))"
      "tcbs s' = tcbs s" "num_ticks s' = num_ticks s" "idle_tcb s' = idle_tcb s" "cur_tcb s' = cur_tcb s" "next_tid s' = next_tid s"
  shows "sched_at d s' Q"
proof -
  note D = sched_okD [OF ok]
  have at: "status_at s' m = status_at s m" "wake_at s' m = wake_at s m" if "m \<in> members Q" for m
    using that pools(2) same(3) by (simp_all add: status_at_def wake_at_def)
  have "registered s' Q" using D(2) pools(2) same by (simp add: registered_def node_ok_def)
  moreover have "statuses_ok s' Q" using D(3) at(1) membersI [of _ Q] pools(2) same(6) unfolding statuses_ok_def by metis
  moreover have "sleepers_ok d s' (Q Sleep)" by (rule sleepers_same [OF D(4)]) (use at(2) membersI [of _ Q Sleep] same(4) in auto)
  moreover have "others_ok s' Q" using D(5) same pools(2) by (auto simp: others_ok_def image_iff)
  ultimately show ?thesis using pools(1) by (simp add: sched_at_def)
qed

lemma add_pcb_ok:
  assumes ok: "sched_at d s Q" and p: "pp \<noteq> NULL" "pcbs s pp = Some p" "ht_ok (processes (thr_pool s))"
      "ht_map (processes (thr_pool s)) (word_of_int (pid p)) = None"
    and al: "malloc_ok al" "al (mcalls (s_heap s)) (\<lambda>q. nodes (s_heap s) q \<noteq> None) = n" "n \<noteq> NULL" "fst e \<noteq> NULL" "snd e \<noteq> NULL"
  obtains s' where "tcb_pool_add_pcb_safe al junk e pp s = Some (0, s')" "sched_at d s' Q" "n \<notin> members Q"
    "\<forall>m\<in>members Q. data (s_heap s') m = data (s_heap s) m"
    "ht_ok (processes (thr_pool s'))" "ht_map (processes (thr_pool s')) = (ht_map (processes (thr_pool s)))(word_of_int (pid p) \<mapsto> n)"
    "threads (thr_pool s') = threads (thr_pool s)" "tcbs s' = tcbs s" "pcbs s' = pcbs s" "cur_tcb s' = cur_tcb s" "idle_tcb s' = idle_tcb s" "next_tid s' = next_tid s" "next_pid s' = next_pid s"
    "started s' = started s" "\<forall>x. nodes (s_heap s') x = None \<longleftrightarrow> x \<noteq> n \<and> nodes (s_heap s) x = None" "num_ticks s' = num_ticks s" "sc_mcalls s' = sc_mcalls s"
proof -
  note D = sched_okD [OF ok]
  obtain h where h: "prepare_entry al junk e pp (pid p) s =
      Some (0, Some \<lparr>c_node = snd e, c_entry = fst e, c_key = word_of_int (pid p), c_val = n\<rparr>, s\<lparr>s_heap := h\<rparr>)"
    "on_pools (thr_pool s) h Q" "detached h n" "n \<notin> members Q" "data h = (data (s_heap s))(n := pp)" "mcalls h = Suc (mcalls (s_heap s))"
    "\<forall>x. nodes h x = None \<longleftrightarrow> x \<noteq> n \<and> nodes (s_heap s) x = None"
    by (rule prepare_ok [OF al(1-3) D(1) al(4,5)])
  let ?cell = "\<lparr>c_node = snd e, c_entry = fst e, c_key = word_of_int (pid p) :: u32, c_val = n\<rparr>"
  obtain ht' where ht: "ht_put_entry (Some (processes (thr_pool s))) (Some ?cell) = Some (0, Some ht')" "ht_ok ht'"
    "ht_map ht' = (ht_map (processes (thr_pool s)))(word_of_int (pid p) \<mapsto> n)"
    using ht_put_entry_map(2) [OF p(3), of ?cell] p(4) al(5) by auto
  define b where "b = intr (sched_unlocked (sched_locked s))"
  let ?s' = "s\<lparr>intr := b, thr_pool := (thr_pool s)\<lparr>processes := ht'\<rparr>, s_heap := h\<rparr>"
  have eq: "tcb_pool_add_pcb_safe al junk e pp s = Some (0, ?s')"
    using p(1,2) h(1) ht(1) by (simp add: tcb_pool_add_pcb_safe_def b_def sched_locked_def sched_unlocked_def Let_def)
  have "pool_at ((thr_pool s)\<lparr>processes := ht'\<rparr>) k = pool_at (thr_pool s) k" for k by (cases k) simp_all
  then have op: "on_pools ((thr_pool s)\<lparr>processes := ht'\<rparr>) = on_pools (thr_pool s)" by (simp add: on_pools_def fun_eq_iff inj_def)
  have dm: "\<forall>m\<in>members Q. data h m = data (s_heap s) m" using h(4,5) by auto
  have "sched_at d ?s' Q" by (rule sched_at_same [OF ok]) (use op h(2) dm in simp_all)
  then show thesis by (rule that [OF eq _ h(4)]) (use dm ht(2,3) h(7) in simp_all)
qed

subsection \<open>New processes\<close>

lemma pool_alloc_one: "pool_alloc [n] k live = (if n \<noteq> NULL \<and> \<not> live n then n else NULL)"
  by (simp add: pool_alloc_def)

lemma malloc_tcb_one:
  "tp \<noteq> NULL \<Longrightarrow> tcbs s tp = None \<Longrightarrow> malloc_tcb (pool_alloc [tp]) junk s = (tp, s\<lparr>sc_mcalls := Suc (sc_mcalls s), tcbs := (tcbs s)(tp \<mapsto> junk)\<rparr>)"
  by (simp add: malloc_tcb_def pool_alloc_one)

lemma count_thread_any:
  assumes "pcbs s pp = Some p" "started s \<longrightarrow> pcb_m p = free_mutex"
  shows "count_thread pp s = Some (s\<lparr>pcbs := (pcbs s)(pp \<mapsto> p\<lparr>num_threads := num_threads p + 1\<rparr>)\<rparr>)"
  using assms by (cases "started s"; cases p) (simp_all add: count_thread_def pcb_inc_threads_s_def mutex_lock_def mutex_unlock_def xchng_def)

text \<open>The memory of a new thread: a block at \<open>tp\<close>, a kernel stack, a list node at \<open>n\<close> and an entry of the table.\<close>

definition thread_memory :: "new_thread_mem \<Rightarrow> ptr \<Rightarrow> ptr \<Rightarrow> sched \<Rightarrow> bool" where
  "thread_memory a tp n s \<longleftrightarrow> nt_tcb a = pool_alloc [tp] \<and> tp \<noteq> NULL \<and> tcbs s tp = None \<and> nt_kst a \<noteq> NULL \<and>
     nt_node a = pool_alloc [n] \<and> n \<noteq> NULL \<and> nodes (s_heap s) n = None \<and> fst (nt_entry a) \<noteq> NULL \<and> snd (nt_entry a) \<noteq> NULL"

text \<open>From the new block to the two registrations, as in \<open>scheduler_add_process\<close> and \<open>scheduler_add_reaper_proc\<close>.\<close>

lemma register_ok:
  assumes ok: "sched_at d s Q" and a: "thread_memory a tp n s"
    and s1: "s1 = s\<lparr>next_tid := next_tid s + 1, sc_mcalls := k, next_pid := j, init_pcb := ip, pcbs := (pcbs s)(pp \<mapsto> p), tcbs := (tcbs s)(tp \<mapsto> t)\<rparr>"
    and t: "t_status t = RUNNABLE" "t_tid t = next_tid s" "0 \<le> next_tid s" "next_tid s + 1 < 2 ^ 31"
    and p: "pp \<noteq> NULL" "ht_ok (processes (thr_pool s))" "ht_map (processes (thr_pool s)) (word_of_int (pid p)) = None"
    and al: "n1 \<noteq> NULL" "nodes (s_heap s) n1 = None" "n1 \<noteq> n" "fst e \<noteq> NULL" "snd e \<noteq> NULL"
  obtains s2 s3 where "tcb_pool_add_pcb_safe (pool_alloc [n1]) junk e pp s1 = Some (0, s2)"
    "tcb_pool_add_runnable_tcb_safe (nt_node a) junk' (nt_entry a) tp s2 = Some (0, s3)"
    "sched_at d s3 (Q(Run := Q Run @ [n]))" "tcbs s3 = (tcbs s)(tp \<mapsto> t)" "pcbs s3 = (pcbs s)(pp \<mapsto> p)" "cur_tcb s3 = cur_tcb s"
    "idle_tcb s3 = idle_tcb s" "next_tid s3 = next_tid s + 1" "next_pid s3 = j" "started s3 = started s" "num_ticks s3 = num_ticks s"
    "ht_ok (processes (thr_pool s3))" "ht_map (processes (thr_pool s3)) = (ht_map (processes (thr_pool s)))(word_of_int (pid p) \<mapsto> n1)"
    "data (s_heap s3) n = tp" "\<forall>m\<in>members Q. data (s_heap s3) m = data (s_heap s) m" "n \<notin> members Q"
    "\<forall>x. nodes (s_heap s3) x = None \<longleftrightarrow> x \<noteq> n \<and> x \<noteq> n1 \<and> nodes (s_heap s) x = None"
proof -
  note D = sched_okD [OF ok]
  have a': "nt_tcb a = pool_alloc [tp]" "tp \<noteq> NULL" "tcbs s tp = None" "nt_kst a \<noteq> NULL" "nt_node a = pool_alloc [n]" "n \<noteq> NULL"
    "nodes (s_heap s) n = None" "fst (nt_entry a) \<noteq> NULL" "snd (nt_entry a) \<noteq> NULL" using a by (simp_all add: thread_memory_def)
  have ok1: "sched_at d s1 Q" by (rule sched_at_block [OF ok a'(3,2)]) (use s1 t(4) in simp_all)
  have P: "pcbs s1 pp = Some p" "ht_ok (processes (thr_pool s1))" "ht_map (processes (thr_pool s1)) (word_of_int (pid p)) = None"
    "pool_alloc [n1] (mcalls (s_heap s1)) (\<lambda>q. nodes (s_heap s1) q \<noteq> None) = n1"
    using s1 p al(1,2) by (simp_all add: pool_alloc_one)
  obtain s2 where s2: "tcb_pool_add_pcb_safe (pool_alloc [n1]) junk e pp s1 = Some (0, s2)" "sched_at d s2 Q"
    "\<forall>m\<in>members Q. data (s_heap s2) m = data (s_heap s1) m"
    "ht_ok (processes (thr_pool s2))" "ht_map (processes (thr_pool s2)) = (ht_map (processes (thr_pool s1)))(word_of_int (pid p) \<mapsto> n1)"
    "threads (thr_pool s2) = threads (thr_pool s1)" "tcbs s2 = tcbs s1" "pcbs s2 = pcbs s1" "cur_tcb s2 = cur_tcb s1" "idle_tcb s2 = idle_tcb s1"
    "next_tid s2 = next_tid s1" "next_pid s2 = next_pid s1" "started s2 = started s1" "num_ticks s2 = num_ticks s1"
    "\<forall>x. nodes (s_heap s2) x = None \<longleftrightarrow> x \<noteq> n1 \<and> nodes (s_heap s1) x = None"
    by (rule add_pcb_ok [OF ok1 p(1) P(1-3) pool_alloc_ok P(4) al(1,4,5)])
  have out: "tp \<notin> data (s_heap s2) ` members Q" "tp \<noteq> idle_tcb s2"
    using a'(3) D(2,5) s2(3,10) s1 by (auto simp: registered_def node_ok_def others_ok_def)
  have T: "tcbs s2 tp = Some t" "0 \<le> t_tid t" "t_tid t < next_tid s2" "ht_map (threads (thr_pool s2)) (word_of_int (t_tid t)) = None"
    "pool_alloc [n] (mcalls (s_heap s2)) (\<lambda>q. nodes (s_heap s2) q \<noteq> None) = n"
    using s1 s2(6,7,11,15) t fresh_tid [OF D(2) t(3)] a'(6,7) al(3) by (simp_all add: pool_alloc_one)
  obtain s3 where s3: "tcb_pool_add_runnable_tcb_safe (pool_alloc [n]) junk' (nt_entry a) tp s2 = Some (0, s3)" "sched_at d s3 (Q(Run := Q Run @ [n]))"
    "data (s_heap s3) = (data (s_heap s2))(n := tp)" "n \<notin> members Q" "tcbs s3 = tcbs s2" "pcbs s3 = pcbs s2" "cur_tcb s3 = cur_tcb s2" "next_tid s3 = next_tid s2"
    "started s3 = started s2" "idle_tcb s3 = idle_tcb s2" "processes (thr_pool s3) = processes (thr_pool s2)" "next_pid s3 = next_pid s2"
    "\<forall>x. nodes (s_heap s3) x = None \<longleftrightarrow> x \<noteq> n \<and> nodes (s_heap s2) x = None" "num_ticks s3 = num_ticks s2"
    by (rule add_runnable_ok [OF s2(2) a'(2) out T(1) t(1) T(2-4) pool_alloc_ok T(5) a'(6,8,9)])
  show thesis
    by (rule that [OF s2(1), of s3]) (use s1 s2 s3 a'(5) in auto)
qed

lemma add_process_ok:
  assumes ok: "sched_at d s Q" and a: "thread_memory a tp n s"
    and t: "0 \<le> next_tid s" "next_tid s + 1 < 2 ^ 31"
    and p: "pp \<noteq> NULL" "pcbs s pp = Some p" "started s \<longrightarrow> pcb_m p = free_mutex"
      "ht_ok (processes (thr_pool s))" "ht_map (processes (thr_pool s)) (word_of_int (next_pid s)) = None"
    and al: "n1 \<noteq> NULL" "nodes (s_heap s) n1 = None" "n1 \<noteq> n" "fst e \<noteq> NULL" "snd e \<noteq> NULL"
  obtains s' t where "scheduler_add_process g a (pool_alloc [n1]) e pp regs s = Some (next_tid s, s')"
    "sched_at d s' (Q(Run := Q Run @ [n]))" "tcbs s' = (tcbs s)(tp \<mapsto> t)" "t_pcb t = pp" "t_tid t = next_tid s" "t_status t = RUNNABLE"
    "k_words t ! EIP_IDX = reg regs (entry_point p) EIP_IDX" "k_words t ! ESP_IDX = reg regs (stack_top p) ESP_IDX"
    "pcbs s' = (pcbs s)(pp \<mapsto> p\<lparr>pid := next_pid s, original_tid := next_tid s, num_threads := num_threads p + 1\<rparr>)"
    "cur_tcb s' = cur_tcb s" "idle_tcb s' = idle_tcb s" "next_tid s' = next_tid s + 1" "next_pid s' = next_pid s + 1" "started s' = started s"
    "num_ticks s' = num_ticks s"
    "data (s_heap s') n = tp" "\<forall>m\<in>members Q. data (s_heap s') m = data (s_heap s) m" "n \<notin> members Q"
    "ht_map (processes (thr_pool s')) = (ht_map (processes (thr_pool s)))(word_of_int (next_pid s) \<mapsto> n1)"
proof -
  have a': "nt_tcb a = pool_alloc [tp]" "tp \<noteq> NULL" "tcbs s tp = None" "nt_kst a \<noteq> NULL" using a by (simp_all add: thread_memory_def)
  let ?q = "p\<lparr>pid := next_pid s\<rparr>" and ?p = "p\<lparr>pid := next_pid s, original_tid := next_tid s, num_threads := num_threads p + 1\<rparr>"
  obtain t where t': "tcb_init g (nt_kst a) (Some (nt_tcb_junk a)) (next_tid s) (Some (pp, ?q)) regs = (0, Some t)" "t_tid t = next_tid s" "t_pcb t = pp"
    "t_status t = RUNNABLE" "k_words t ! EIP_IDX = reg regs (entry_point ?q) EIP_IDX" "k_words t ! ESP_IDX = reg regs (stack_top ?q) ESP_IDX"
    by (rule tcb_init_new [OF a'(4)])
  define s1 where "s1 = s\<lparr>next_tid := next_tid s + 1, sc_mcalls := Suc (sc_mcalls s), next_pid := next_pid s + 1, init_pcb := init_pcb s,
    pcbs := (pcbs s)(pp \<mapsto> ?p), tcbs := (tcbs s)(tp \<mapsto> t)\<rparr>"
  have q: "ht_map (processes (thr_pool s)) (word_of_int (pid ?p)) = None" using p(5) by simp
  obtain s2 s3 where r: "tcb_pool_add_pcb_safe (pool_alloc [n1]) (nt_node_junk a) e pp s1 = Some (0, s2)"
    "tcb_pool_add_runnable_tcb_safe (nt_node a) (nt_node_junk a) (nt_entry a) tp s2 = Some (0, s3)"
    "sched_at d s3 (Q(Run := Q Run @ [n]))" "tcbs s3 = (tcbs s)(tp \<mapsto> t)" "pcbs s3 = (pcbs s)(pp \<mapsto> ?p)" "cur_tcb s3 = cur_tcb s"
    "idle_tcb s3 = idle_tcb s" "next_tid s3 = next_tid s + 1" "next_pid s3 = next_pid s + 1" "started s3 = started s" "num_ticks s3 = num_ticks s"
    "ht_map (processes (thr_pool s3)) = (ht_map (processes (thr_pool s)))(word_of_int (pid ?p) \<mapsto> n1)"
    "data (s_heap s3) n = tp" "\<forall>m\<in>members Q. data (s_heap s3) m = data (s_heap s) m" "n \<notin> members Q"
    by (rule register_ok [OF ok a s1_def t'(4,2) t p(1,4) q al])
  let ?c = "s\<lparr>next_pid := next_pid s + 1, next_tid := next_tid s + 1, sc_mcalls := Suc (sc_mcalls s), tcbs := (tcbs s)(tp \<mapsto> t),
      pcbs := (pcbs s)(pp \<mapsto> p\<lparr>pid := next_pid s, original_tid := next_tid s\<rparr>)\<rparr>"
  have "count_thread pp ?c = Some s1"
    using count_thread_any [of ?c pp "p\<lparr>pid := next_pid s, original_tid := next_tid s\<rparr>"] p(3) by (simp add: s1_def)
  then have "scheduler_add_process g a (pool_alloc [n1]) e pp regs s = Some (next_tid s, s3)"
    using p(2) a'(1-3) t'(1) t(1) r(1,2)
    by (simp add: scheduler_add_process_def malloc_tcb_one init_new_tcb_def pcb_set_original_tid_def Let_def)
  then show thesis by (rule that [OF _ r(3,4) t'(3,2,4)]) (use r t' in simp_all)
qed

text \<open>The reaper: its registers are those of a thread of the kernel.\<close>

lemma add_reaper_ok:
  assumes ok: "sched_at d (kb_sched kb) Q" and a: "thread_memory (be_reaper_thread v) tp n (kb_sched kb)"
    and t: "0 \<le> next_tid (kb_sched kb)" "next_tid (kb_sched kb) + 1 < 2 ^ 31"
    and p: "pp \<noteq> NULL" "pcbs (kb_sched kb) pp = Some p" "ht_ok (processes (thr_pool (kb_sched kb)))"
      "ht_map (processes (thr_pool (kb_sched kb))) (word_of_int (pid p)) = None"
    and al: "be_reaper_node v = pool_alloc [n1]" "n1 \<noteq> NULL" "nodes (s_heap (kb_sched kb)) n1 = None" "n1 \<noteq> n"
      "fst (be_reaper_entry v) \<noteq> NULL" "snd (be_reaper_entry v) \<noteq> NULL"
  obtains s' t where "scheduler_add_reaper_proc v pp f kb = Some (0, kb\<lparr>reaper_tcb := tp, kb_sched := s'\<rparr>)"
    "sched_at d s' (Q(Run := Q Run @ [n]))" "tcbs s' = (tcbs (kb_sched kb))(tp \<mapsto> t)" "t_pcb t = pp" "t_tid t = next_tid (kb_sched kb)" "t_status t = RUNNABLE"
    "k_words t ! EIP_IDX = reaper_regs v (reaper_stack_top kb) f ! EIP_IDX" "k_words t ! ESP_IDX = reaper_regs v (reaper_stack_top kb) f ! ESP_IDX"
    "pcbs s' = pcbs (kb_sched kb)" "cur_tcb s' = cur_tcb (kb_sched kb)" "idle_tcb s' = idle_tcb (kb_sched kb)"
    "next_tid s' = next_tid (kb_sched kb) + 1" "next_pid s' = next_pid (kb_sched kb)" "started s' = started (kb_sched kb)" "num_ticks s' = num_ticks (kb_sched kb)"
    "ht_ok (processes (thr_pool s'))" "ht_map (processes (thr_pool s')) = (ht_map (processes (thr_pool (kb_sched kb))))(word_of_int (pid p) \<mapsto> n1)"
    "data (s_heap s') n = tp" "\<forall>x. nodes (s_heap s') x = None \<longleftrightarrow> x \<noteq> n \<and> x \<noteq> n1 \<and> nodes (s_heap (kb_sched kb)) x = None"
proof -
  let ?a = "be_reaper_thread v" and ?s = "kb_sched kb" and ?regs = "Some (reaper_regs v (reaper_stack_top kb) f)"
  have a': "nt_tcb ?a = pool_alloc [tp]" "tp \<noteq> NULL" "tcbs ?s tp = None" "nt_kst ?a \<noteq> NULL" using a by (simp_all add: thread_memory_def)
  obtain t where t': "tcb_init (be_segs v) (nt_kst ?a) (Some (nt_tcb_junk ?a)) (next_tid ?s) (Some (pp, p)) ?regs = (0, Some t)" "t_tid t = next_tid ?s" "t_pcb t = pp"
    "t_status t = RUNNABLE" "k_words t ! EIP_IDX = reg ?regs (entry_point p) EIP_IDX" "k_words t ! ESP_IDX = reg ?regs (stack_top p) ESP_IDX"
    by (rule tcb_init_new [OF a'(4)])
  define s1 where "s1 = ?s\<lparr>next_tid := next_tid ?s + 1, sc_mcalls := Suc (sc_mcalls ?s), next_pid := next_pid ?s, init_pcb := init_pcb ?s,
    pcbs := (pcbs ?s)(pp \<mapsto> p), tcbs := (tcbs ?s)(tp \<mapsto> t)\<rparr>"
  obtain s2 s3 where r: "tcb_pool_add_pcb_safe (pool_alloc [n1]) (nt_node_junk ?a) (be_reaper_entry v) pp s1 = Some (0, s2)"
    "tcb_pool_add_runnable_tcb_safe (nt_node ?a) (nt_node_junk ?a) (nt_entry ?a) tp s2 = Some (0, s3)"
    "sched_at d s3 (Q(Run := Q Run @ [n]))" "tcbs s3 = (tcbs ?s)(tp \<mapsto> t)" "pcbs s3 = (pcbs ?s)(pp \<mapsto> p)" "cur_tcb s3 = cur_tcb ?s"
    "idle_tcb s3 = idle_tcb ?s" "next_tid s3 = next_tid ?s + 1" "next_pid s3 = next_pid ?s" "started s3 = started ?s" "num_ticks s3 = num_ticks ?s"
    "ht_ok (processes (thr_pool s3))" "ht_map (processes (thr_pool s3)) = (ht_map (processes (thr_pool ?s)))(word_of_int (pid p) \<mapsto> n1)"
    "data (s_heap s3) n = tp" "\<forall>x. nodes (s_heap s3) x = None \<longleftrightarrow> x \<noteq> n \<and> x \<noteq> n1 \<and> nodes (s_heap ?s) x = None"
    by (rule register_ok [OF ok a s1_def t'(4,2) t p(1,3,4) al(2-6)])
  have id: "(pcbs ?s)(pp \<mapsto> p) = pcbs ?s" using p(2) by (simp add: fun_upd_idem)
  have "?s\<lparr>sc_mcalls := Suc (sc_mcalls ?s), next_tid := next_tid ?s + 1, tcbs := (tcbs ?s)(tp \<mapsto> t)\<rparr> = s1" by (simp add: s1_def id)
  then have "scheduler_add_reaper_proc v pp f kb = Some (0, kb\<lparr>reaper_tcb := tp, kb_sched := s3\<rparr>)"
    using p(1,2) a'(1-3) t'(1) r(1,2) al(1)
    by (simp add: scheduler_add_reaper_proc_def malloc_tcb_one init_new_tcb_def Let_def)
  then show thesis by (rule that [OF _ r(3,4) t'(3,2,4)]) (use r t' id in \<open>simp_all add: reg_def\<close>)
qed

subsection \<open>The start\<close>

lemma pcb_init_pid: "pcb_init al ums k q (Some j) m = Some (r, Some p, m') \<Longrightarrow> pid p = -1"
  by (auto simp: pcb_init_def Let_def bind_eq_Some_conv split: prod.splits)

lemma boot_pcbD:
  assumes "boot_pcb v pp kb = Some kb'"
  shows "\<exists>p m. pid p = -1 \<and> pp \<noteq> NULL \<and> kb' = kb\<lparr>kb_sched := (kb_sched kb)\<lparr>pcbs := (pcbs (kb_sched kb))(pp \<mapsto> p)\<rparr>, kb_mem := m\<rparr>"
  using assms pcb_init_pid by (fastforce simp: boot_pcb_def Let_def bind_eq_Some_conv split: prod.splits)

lemma boot_loadD:
  assumes "boot_load v pp name kb = Some kb'"
  shows "\<exists>p m fm. pcbs (kb_sched kb) pp \<noteq> None \<and>
    kb' = kb\<lparr>kb_sched := (kb_sched kb)\<lparr>pdbr := pp, pcbs := (pcbs (kb_sched kb))(pp \<mapsto> p)\<rparr>, kb_mem := m, kb_fm := fm\<rparr>"
  using assms by (auto simp: boot_load_def Let_def bind_eq_Some_conv split: prod.splits)

lemma add_idle_ok:
  assumes "pcbs s pp = Some p" "nt_tcb a = pool_alloc [tp]" "tp \<noteq> NULL" "tcbs s tp = None"
  obtains t where "scheduler_add_idle_process g a pp s = Some (next_tid s, s\<lparr>pcbs := (pcbs s)(pp \<mapsto> p\<lparr>pid := next_pid s\<rparr>), next_pid := next_pid s + 1,
      sc_mcalls := Suc (sc_mcalls s), next_tid := next_tid s + 1, tcbs := (tcbs s)(tp \<mapsto> t), idle_tcb := tp\<rparr>)"
    "t_tid t = next_tid s" "t_pcb t = pp"
proof -
  obtain r t where t: "tcb_init g (nt_kst a) (Some (nt_tcb_junk a)) (next_tid s) (Some (pp, p\<lparr>pid := next_pid s\<rparr>)) None = (r, Some t)"
    "t_tid t = next_tid s" "t_pcb t = pp"
    by (cases "nt_kst a = NULL") (simp_all add: tcb_init_def load_kstack_def Let_def)
  show thesis
    by (rule that [OF _ t(2,3)]) (use t(1) assms in \<open>simp add: scheduler_add_idle_process_def malloc_tcb_one init_new_tcb_def Let_def\<close>)
qed

lemma sched_at_pdbr [simp]: "sched_at d (s\<lparr>pdbr := b\<rparr>) Q = sched_at d s Q"
proof -
  have "status_at (s\<lparr>pdbr := b\<rparr>) = status_at s" "wake_at (s\<lparr>pdbr := b\<rparr>) = wake_at s" by (simp_all add: status_at_def wake_at_def fun_eq_iff)
  then show ?thesis by (simp add: sched_at_def registered_def node_ok_def statuses_ok_def sleepers_ok_def others_ok_def)
qed

lemma sched_at_init [simp]: "sched_at d (s\<lparr>init_pcb := b\<rparr>) Q = sched_at d s Q"
proof -
  have "status_at (s\<lparr>init_pcb := b\<rparr>) = status_at s" "wake_at (s\<lparr>init_pcb := b\<rparr>) = wake_at s" by (simp_all add: status_at_def wake_at_def fun_eq_iff)
  then show ?thesis by (simp add: sched_at_def registered_def node_ok_def statuses_ok_def sleepers_ok_def others_ok_def)
qed

text \<open>
  The answers of the allocator during the start: blocks for the three threads at \<open>t0\<close>, \<open>t1\<close> and \<open>t2\<close>, list nodes for the threads at \<open>n1\<close>
  and \<open>n2\<close> and for the processes at \<open>r1\<close> and \<open>r2\<close>, and the rest.
\<close>

definition boot_memory :: "boot_env \<Rightarrow> ptr \<Rightarrow> ptr \<Rightarrow> ptr \<Rightarrow> ptr \<Rightarrow> ptr \<Rightarrow> ptr \<Rightarrow> ptr \<Rightarrow> bool" where
  "boot_memory v t0 t1 t2 n1 n2 r1 r2 \<longleftrightarrow> be_pool v = (True, True, True) \<and> distinct [be_idle v, be_reaper v, be_init v] \<and>
     length (be_regs v) = 18 \<and> distinct [NULL, t0, t1, t2] \<and> distinct [NULL, n1, n2, r1, r2] \<and>
     nt_tcb (be_idle_thread v) = pool_alloc [t0] \<and> nt_tcb (be_reaper_thread v) = pool_alloc [t1] \<and> nt_tcb (be_init_thread v) = pool_alloc [t2] \<and>
     nt_kst (be_reaper_thread v) \<noteq> NULL \<and> nt_kst (be_init_thread v) \<noteq> NULL \<and>
     nt_node (be_reaper_thread v) = pool_alloc [n1] \<and> nt_node (be_init_thread v) = pool_alloc [n2] \<and>
     be_reaper_node v = pool_alloc [r1] \<and> be_init_node v = pool_alloc [r2] \<and>
     fst (nt_entry (be_reaper_thread v)) \<noteq> NULL \<and> snd (nt_entry (be_reaper_thread v)) \<noteq> NULL \<and>
     fst (nt_entry (be_init_thread v)) \<noteq> NULL \<and> snd (nt_entry (be_init_thread v)) \<noteq> NULL \<and>
     fst (be_reaper_entry v) \<noteq> NULL \<and> snd (be_reaper_entry v) \<noteq> NULL \<and> fst (be_init_entry v) \<noteq> NULL \<and> snd (be_init_entry v) \<noteq> NULL"

text \<open>The scheduler before the start: the four list structs of the pool are there, no thread and no node is.\<close>

definition boot_state :: "sched \<Rightarrow> bool" where
  "boot_state s \<longleftrightarrow> (\<forall>k. pool_at (thr_pool s) k \<noteq> NULL \<and> lists (s_heap s) (pool_at (thr_pool s) k) \<noteq> None) \<and> inj (pool_at (thr_pool s)) \<and>
     tcbs s = Map.empty \<and> nodes (s_heap s) = Map.empty"

text \<open>The scheduler after the pool and the process blocks are there.\<close>

definition pool_ready :: "sched \<Rightarrow> bool" where
  "pool_ready s \<longleftrightarrow> on_pools (thr_pool s) (s_heap s) (\<lambda>_. []) \<and> ht_ok (threads (thr_pool s)) \<and> ht_map (threads (thr_pool s)) = Map.empty \<and>
     ht_ok (processes (thr_pool s)) \<and> ht_map (processes (thr_pool s)) = Map.empty \<and> s_m (zombies_sem (thr_pool s)) = free_mutex \<and>
     nodes (s_heap s) = Map.empty \<and> tcbs s = Map.empty \<and> cur_tcb s = NULL \<and> next_tid s = 0 \<and> next_pid s = 0 \<and> num_ticks s = 0 \<and> \<not> started s"

lemma pool_started:
  assumes "boot_state s"
  shows "\<exists>s1. tcb_pool_init (True, True, True) (s\<lparr>started := False, num_ticks := 0, next_tid := 0, next_pid := 0, cur_tcb := NULL\<rparr>) = Some (0, s1) \<and> pool_ready s1"
proof -
  let ?s = "s\<lparr>started := False, num_ticks := 0, next_tid := 0, next_pid := 0, cur_tcb := NULL\<rparr>"
  have b: "\<forall>k. pool_at (thr_pool ?s) k \<noteq> NULL \<and> lists (s_heap ?s) (pool_at (thr_pool ?s) k) \<noteq> None" "inj (pool_at (thr_pool ?s))"
    "tcbs s = Map.empty" "nodes (s_heap s) = Map.empty" using assms by (simp_all add: boot_state_def)
  obtain s1 where s1: "tcb_pool_init (True, True, True) ?s = Some (0, s1)" "on_pools (thr_pool s1) (s_heap s1) (\<lambda>_. [])"
    "ht_ok (threads (thr_pool s1))" "ht_map (threads (thr_pool s1)) = Map.empty" "ht_ok (processes (thr_pool s1))" "ht_map (processes (thr_pool s1)) = Map.empty"
    "s_m (zombies_sem (thr_pool s1)) = free_mutex" "nodes (s_heap s1) = nodes (s_heap ?s)"
    "tcbs s1 = tcbs ?s" "cur_tcb s1 = cur_tcb ?s" "next_tid s1 = next_tid ?s" "next_pid s1 = next_pid ?s" "num_ticks s1 = num_ticks ?s" "started s1 = started ?s"
    by (rule tcb_pool_init_ok [OF b(1,2) refl])
  have "pool_ready s1" using s1(2-14) b(3,4) by (simp add: pool_ready_def)
  with s1(1) show ?thesis by blast
qed

text \<open>The three process blocks, and the load of the idle program into the first.\<close>

lemma boot_blocks_ok:
  assumes k: "boot_pcb v (be_idle v) kb = Some k1" "boot_pcb v (be_reaper v) k1 = Some k2" "boot_pcb v (be_init v) k2 = Some k3"
      "boot_load v (be_idle v) (be_idle_name v) k3 = Some k4"
    and ready: "pool_ready (kb_sched kb)" and d: "distinct [be_idle v, be_reaper v, be_init v]"
  obtains p1 p2 where "pool_ready (kb_sched k4)" "pcbs (kb_sched k4) (be_idle v) = Some p1" "pcbs (kb_sched k4) (be_reaper v) = Some p2" "pid p2 = -1"
    "pcbs (kb_sched k4) (be_init v) \<noteq> None" "be_reaper v \<noteq> NULL" "be_init v \<noteq> NULL" "reaper_stack_top k4 = reaper_stack_top kb"
proof -
  let ?s = "kb_sched kb"
  obtain p1 m1 where p1: "k1 = kb\<lparr>kb_sched := ?s\<lparr>pcbs := (pcbs ?s)(be_idle v \<mapsto> p1)\<rparr>, kb_mem := m1\<rparr>"
    using boot_pcbD [OF k(1)] by auto
  obtain p2 m2 where p2: "pid p2 = -1" "be_reaper v \<noteq> NULL" "k2 = k1\<lparr>kb_sched := ?s\<lparr>pcbs := (pcbs ?s)(be_idle v \<mapsto> p1, be_reaper v \<mapsto> p2)\<rparr>, kb_mem := m2\<rparr>"
    using boot_pcbD [OF k(2)] p1 by auto
  obtain p3 m3 where p3: "be_init v \<noteq> NULL" "k3 = k2\<lparr>kb_sched := ?s\<lparr>pcbs := (pcbs ?s)(be_idle v \<mapsto> p1, be_reaper v \<mapsto> p2, be_init v \<mapsto> p3)\<rparr>, kb_mem := m3\<rparr>"
    using boot_pcbD [OF k(3)] p2(3) by auto
  obtain P4 p4 m4 fm4 where k4: "k4 = k3\<lparr>kb_sched := ?s\<lparr>pdbr := be_idle v, pcbs := P4\<rparr>, kb_mem := m4, kb_fm := fm4\<rparr>"
    "P4 (be_idle v) = Some p4" "P4 (be_reaper v) = Some p2" "P4 (be_init v) = Some p3"
    using boot_loadD [OF k(4)] p3(2) d by auto
  show thesis by (rule that [of p4 p2]) (use ready p1 p2 p3 k4 in \<open>simp_all add: pool_ready_def\<close>)
qed

lemma reaper_regs_nth:
  "length (be_regs v) = 18 \<Longrightarrow> reaper_regs v stk f ! EIP_IDX = f" "length (be_regs v) = 18 \<Longrightarrow> reaper_regs v stk f ! ESP_IDX = stk"
  by (simp_all add: reaper_regs_def)

text \<open>The idle and the reaper thread.\<close>

lemma boot_reaper_ok:
  assumes ready: "pool_ready (kb_sched kb)" and mem: "boot_memory v t0 t1 t2 n1 n2 r1 r2"
    and p: "pcbs (kb_sched kb) (be_idle v) = Some p1" "pcbs (kb_sched kb) (be_reaper v) = Some p2" "pid p2 = -1" "be_reaper v \<noteq> NULL"
  obtains s5 k6 a b where "scheduler_add_idle_process (be_segs v) (be_idle_thread v) (be_idle v) (kb_sched kb) = Some (0, s5)"
    "scheduler_add_reaper_proc v (be_reaper v) f (kb\<lparr>kb_sched := s5\<rparr>) = Some (0, k6)" "sched_ok (kb_sched k6) ((\<lambda>_. [])(Run := [n1]))" "tcbs (kb_sched k6) = [t0 \<mapsto> a, t1 \<mapsto> b]"
    "t_tid a = 0" "t_tid b = 1" "t_pcb a = be_idle v" "t_pcb b = be_reaper v" "idle_tcb (kb_sched k6) = t0" "reaper_tcb k6 = t1" "data (s_heap (kb_sched k6)) n1 = t1"
    "k_words b ! EIP_IDX = f" "k_words b ! ESP_IDX = reaper_stack_top kb" "cur_tcb (kb_sched k6) = NULL" "num_ticks (kb_sched k6) = 0"
    "\<not> started (kb_sched k6)" "next_tid (kb_sched k6) = 2" "next_pid (kb_sched k6) = 1" "nodes (s_heap (kb_sched k6)) n2 = None" "nodes (s_heap (kb_sched k6)) r2 = None"
    "ht_ok (processes (thr_pool (kb_sched k6)))" "ht_map (processes (thr_pool (kb_sched k6))) = [word_of_int (-1) \<mapsto> r1]"
    "\<forall>q. pcbs (kb_sched k6) q = None \<longleftrightarrow> pcbs (kb_sched kb) q = None"
proof -
  let ?s = "kb_sched kb"
  have m: "distinct [be_idle v, be_reaper v, be_init v]" "length (be_regs v) = 18"
    "distinct [NULL, t0, t1, t2]" "distinct [NULL, n1, n2, r1, r2]" "nt_tcb (be_idle_thread v) = pool_alloc [t0]"
    "be_reaper_node v = pool_alloc [r1]" "fst (be_reaper_entry v) \<noteq> NULL" "snd (be_reaper_entry v) \<noteq> NULL"
    using mem by (simp_all add: boot_memory_def)
  have S: "on_pools (thr_pool ?s) (s_heap ?s) (\<lambda>_. [])" "ht_ok (threads (thr_pool ?s))" "ht_map (threads (thr_pool ?s)) = Map.empty"
    "ht_ok (processes (thr_pool ?s))" "ht_map (processes (thr_pool ?s)) = Map.empty" "s_m (zombies_sem (thr_pool ?s)) = free_mutex"
    "nodes (s_heap ?s) = Map.empty" "tcbs ?s = Map.empty" "cur_tcb ?s = NULL" "next_tid ?s = 0" "next_pid ?s = 0" "num_ticks ?s = 0" "\<not> started ?s"
    using ready by (simp_all add: pool_ready_def)
  have tn: "t0 \<noteq> NULL" "tcbs ?s t0 = None" using m(3) S(8) by auto
  obtain a where a: "scheduler_add_idle_process (be_segs v) (be_idle_thread v) (be_idle v) ?s = Some (next_tid ?s, ?s\<lparr>pcbs := (pcbs ?s)(be_idle v \<mapsto> p1\<lparr>pid := next_pid ?s\<rparr>),
      next_pid := next_pid ?s + 1, sc_mcalls := Suc (sc_mcalls ?s), next_tid := next_tid ?s + 1, tcbs := (tcbs ?s)(t0 \<mapsto> a), idle_tcb := t0\<rparr>)"
    "t_tid a = next_tid ?s" "t_pcb a = be_idle v"
    by (rule add_idle_ok [OF p(1) m(5) tn])
  define s5 where s5: "s5 = ?s\<lparr>pcbs := (pcbs ?s)(be_idle v \<mapsto> p1\<lparr>pid := 0\<rparr>), next_pid := 1, sc_mcalls := Suc (sc_mcalls ?s), next_tid := 1, tcbs := [t0 \<mapsto> a], idle_tcb := t0\<rparr>"
  then have i5: "scheduler_add_idle_process (be_segs v) (be_idle_thread v) (be_idle v) ?s = Some (0, s5)"
    using a(1) S(8,10,11) by simp
  have ok5: "sched_ok s5 (\<lambda>_. [])" by (rule sched_at_start) (use s5 S m(3) in auto)
  let ?kb = "kb\<lparr>kb_sched := s5\<rparr>"
  have A: "thread_memory (be_reaper_thread v) t1 n1 (kb_sched ?kb)" "pcbs (kb_sched ?kb) (be_reaper v) = Some p2" "ht_ok (processes (thr_pool (kb_sched ?kb)))"
    "ht_map (processes (thr_pool (kb_sched ?kb))) (word_of_int (pid p2)) = None" "r1 \<noteq> NULL" "nodes (s_heap (kb_sched ?kb)) r1 = None" "r1 \<noteq> n1"
    "0 \<le> next_tid (kb_sched ?kb)" "next_tid (kb_sched ?kb) + 1 < 2 ^ 31" "sched_ok (kb_sched ?kb) (\<lambda>_. [])"
    using mem m(1,3,4) p(2) S ok5 by (auto simp: thread_memory_def boot_memory_def s5)
  obtain s6 b where R: "scheduler_add_reaper_proc v (be_reaper v) f ?kb = Some (0, ?kb\<lparr>reaper_tcb := t1, kb_sched := s6\<rparr>)"
    "sched_ok s6 ((\<lambda>_. [])(Run := (\<lambda>_. []) Run @ [n1]))" "tcbs s6 = (tcbs (kb_sched ?kb))(t1 \<mapsto> b)" "t_pcb b = be_reaper v" "t_tid b = next_tid (kb_sched ?kb)"
    "k_words b ! EIP_IDX = reaper_regs v (reaper_stack_top ?kb) f ! EIP_IDX" "k_words b ! ESP_IDX = reaper_regs v (reaper_stack_top ?kb) f ! ESP_IDX"
    "pcbs s6 = pcbs (kb_sched ?kb)" "cur_tcb s6 = cur_tcb (kb_sched ?kb)" "idle_tcb s6 = idle_tcb (kb_sched ?kb)" "next_tid s6 = next_tid (kb_sched ?kb) + 1"
    "next_pid s6 = next_pid (kb_sched ?kb)" "started s6 = started (kb_sched ?kb)" "num_ticks s6 = num_ticks (kb_sched ?kb)"
    "ht_ok (processes (thr_pool s6))" "ht_map (processes (thr_pool s6)) = (ht_map (processes (thr_pool (kb_sched ?kb))))(word_of_int (pid p2) \<mapsto> r1)"
    "data (s_heap s6) n1 = t1" "\<forall>x. nodes (s_heap s6) x = None \<longleftrightarrow> x \<noteq> n1 \<and> x \<noteq> r1 \<and> nodes (s_heap (kb_sched ?kb)) x = None"
    by (rule add_reaper_ok [OF A(10,1,8,9) p(4) A(2-4) m(6) A(5-7) m(7,8)])
  show thesis
    by (rule that [OF i5 R(1), of a b]) (use R s5 p(1) a(2,3) S(5,9,10,12,13) p(3) m(2-4) reaper_regs_nth [OF m(2)] S(7) in auto)
qed

text \<open>The init process.\<close>

lemma boot_init_ok:
  assumes ok: "sched_ok (kb_sched kb) ((\<lambda>_. [])(Run := [n1]))" and mem: "boot_memory v t0 t1 t2 n1 n2 r1 r2"
    and s: "tcbs (kb_sched kb) t2 = None" "nodes (s_heap (kb_sched kb)) n2 = None" "nodes (s_heap (kb_sched kb)) r2 = None"
      "next_tid (kb_sched kb) = 2" "next_pid (kb_sched kb) = 1" "\<not> started (kb_sched kb)"
      "ht_ok (processes (thr_pool (kb_sched kb)))" "ht_map (processes (thr_pool (kb_sched kb))) = [word_of_int (-1) \<mapsto> r1]"
    and k: "boot_load v (be_init v) (be_init_name v) kb = Some k7" "be_init v \<noteq> NULL"
  obtains s8 c where "scheduler_add_init_process (be_segs v) (be_init_thread v) (be_init_node v) (be_init_entry v) (be_init v) (kb_sched k7) = Some (0, s8)"
    "sched_ok s8 ((\<lambda>_. [])(Run := [n1, n2]))" "tcbs s8 = (tcbs (kb_sched kb))(t2 \<mapsto> c)" "t_pcb c = be_init v" "t_tid c = 2"
    "\<exists>p. pcbs s8 (be_init v) = Some p \<and> pid p = 1 \<and> original_tid p = 2 \<and> k_words c ! EIP_IDX = entry_point p \<and> k_words c ! ESP_IDX = stack_top p"
    "idle_tcb s8 = idle_tcb (kb_sched kb)" "num_ticks s8 = num_ticks (kb_sched kb)" "data (s_heap s8) n2 = t2" "reaper_tcb k7 = reaper_tcb kb"
proof -
  have m: "distinct [NULL, t0, t1, t2]" "distinct [NULL, n1, n2, r1, r2]" "be_init_node v = pool_alloc [r2]" "fst (be_init_entry v) \<noteq> NULL" "snd (be_init_entry v) \<noteq> NULL"
    using mem by (simp_all add: boot_memory_def)
  obtain p7 m7 fm7 where k7: "k7 = kb\<lparr>kb_sched := (kb_sched kb)\<lparr>pdbr := be_init v, pcbs := (pcbs (kb_sched kb))(be_init v \<mapsto> p7)\<rparr>, kb_mem := m7, kb_fm := fm7\<rparr>"
    using boot_loadD [OF k(1)] by auto
  let ?s = "(kb_sched k7)\<lparr>init_pcb := be_init v\<rparr>"
  have S: "sched_ok ?s ((\<lambda>_. [])(Run := [n1]))" "thread_memory (be_init_thread v) t2 n2 ?s" "0 \<le> next_tid ?s" "next_tid ?s + 1 < 2 ^ 31"
    "pcbs ?s (be_init v) = Some p7" "started ?s \<longrightarrow> pcb_m p7 = free_mutex" "ht_ok (processes (thr_pool ?s))"
    "ht_map (processes (thr_pool ?s)) (word_of_int (next_pid ?s)) = None" "r2 \<noteq> NULL" "nodes (s_heap ?s) r2 = None" "r2 \<noteq> n2"
    using k7 ok s mem m(1,2) by (auto simp: thread_memory_def boot_memory_def)
  obtain s' c where C: "scheduler_add_process (be_segs v) (be_init_thread v) (pool_alloc [r2]) (be_init_entry v) (be_init v) None ?s = Some (next_tid ?s, s')"
    "sched_ok s' (((\<lambda>_. [])(Run := [n1]))(Run := ((\<lambda>_. [])(Run := [n1])) Run @ [n2]))" "tcbs s' = (tcbs ?s)(t2 \<mapsto> c)" "t_pcb c = be_init v" "t_tid c = next_tid ?s"
    "k_words c ! EIP_IDX = reg None (entry_point p7) EIP_IDX" "k_words c ! ESP_IDX = reg None (stack_top p7) ESP_IDX"
    "pcbs s' = (pcbs ?s)(be_init v \<mapsto> p7\<lparr>pid := next_pid ?s, original_tid := next_tid ?s, num_threads := num_threads p7 + 1\<rparr>)"
    "idle_tcb s' = idle_tcb ?s" "num_ticks s' = num_ticks ?s" "data (s_heap s') n2 = t2"
    by (rule add_process_ok [OF S(1-4) k(2) S(5-11) m(4,5)])
  have "scheduler_add_init_process (be_segs v) (be_init_thread v) (be_init_node v) (be_init_entry v) (be_init v) (kb_sched k7) = Some (0, s')"
    using C(1) s(4) k7 k(2) m(3) by (simp add: scheduler_add_init_process_def)
  then show thesis by (rule that) (use C s k7 in \<open>simp_all add: reg_def\<close>)
qed

lemma scheduler_init_ok:
  assumes r: "scheduler_init v f kb = Some (r, kb')" and st: "boot_state (kb_sched kb)" and mem: "boot_memory v t0 t1 t2 n1 n2 r1 r2"
  obtains a b c s where "r = 0" "s = kb_sched kb'" "sched_ok s ((\<lambda>_. [])(Run := [n1, n2]))" "tcbs s = [t0 \<mapsto> a, t1 \<mapsto> b, t2 \<mapsto> c]"
    "t_tid a = 0" "t_tid b = 1" "t_tid c = 2" "t_pcb a = be_idle v" "t_pcb b = be_reaper v" "t_pcb c = be_init v"
    "idle_tcb s = t0" "reaper_tcb kb' = t1" "data (s_heap s) n2 = t2" "num_ticks s = 0"
    "k_words b ! EIP_IDX = f" "k_words b ! ESP_IDX = be_stack v + 4 * PAGE_SIZE"
    "\<exists>p. pcbs s (be_init v) = Some p \<and> pid p = 1 \<and> original_tid p = 2 \<and> k_words c ! EIP_IDX = entry_point p \<and> k_words c ! ESP_IDX = stack_top p"
proof -
  have m: "be_pool v = (True, True, True)" "distinct [be_idle v, be_reaper v, be_init v]" "distinct [NULL, t0, t1, t2]" using mem by (simp_all add: boot_memory_def)
  obtain s1 where s1: "tcb_pool_init (True, True, True) ((kb_sched kb)\<lparr>started := False, num_ticks := 0, next_tid := 0, next_pid := 0, cur_tcb := NULL\<rparr>) = Some (0, s1)"
    "pool_ready s1" using pool_started [OF st] by blast
  let ?k = "kb\<lparr>reaper_stack_bot := be_stack v, reaper_stack_top := be_stack v + 4 * PAGE_SIZE, kb_sched := s1\<rparr>"
  obtain k1 k2 k3 k4 c5 s5 c6 k6 k7 c8 s8 where k: "boot_pcb v (be_idle v) ?k = Some k1" "boot_pcb v (be_reaper v) k1 = Some k2" "boot_pcb v (be_init v) k2 = Some k3"
    "boot_load v (be_idle v) (be_idle_name v) k3 = Some k4"
    and idle: "scheduler_add_idle_process (be_segs v) (be_idle_thread v) (be_idle v) (kb_sched k4) = Some (c5, s5)"
    and reaper: "scheduler_add_reaper_proc v (be_reaper v) f (k4\<lparr>kb_sched := s5\<rparr>) = Some (c6, k6)"
    and load: "boot_load v (be_init v) (be_init_name v) k6 = Some k7"
    and init: "scheduler_add_init_process (be_segs v) (be_init_thread v) (be_init_node v) (be_init_entry v) (be_init v) (kb_sched k7) = Some (c8, s8)"
    and r': "r = 0" "kb' = k7\<lparr>kb_sched := s8\<rparr>"
    using r s1(1) m(1) by (auto simp: scheduler_init_def Let_def bind_eq_Some_conv split: prod.splits)
  have "pool_ready (kb_sched ?k)" using s1(2) by simp
  with k obtain p1 p2 where B: "pool_ready (kb_sched k4)" "pcbs (kb_sched k4) (be_idle v) = Some p1" "pcbs (kb_sched k4) (be_reaper v) = Some p2" "pid p2 = -1"
    "be_reaper v \<noteq> NULL" "be_init v \<noteq> NULL" "reaper_stack_top k4 = reaper_stack_top ?k"
    by (rule boot_blocks_ok) (rule m(2))
  obtain s5' k6' a b where R: "scheduler_add_idle_process (be_segs v) (be_idle_thread v) (be_idle v) (kb_sched k4) = Some (0, s5')"
    "scheduler_add_reaper_proc v (be_reaper v) f (k4\<lparr>kb_sched := s5'\<rparr>) = Some (0, k6')"
    "sched_ok (kb_sched k6') ((\<lambda>_. [])(Run := [n1]))" "tcbs (kb_sched k6') = [t0 \<mapsto> a, t1 \<mapsto> b]"
    "t_tid a = 0" "t_tid b = 1" "t_pcb a = be_idle v" "t_pcb b = be_reaper v" "idle_tcb (kb_sched k6') = t0" "reaper_tcb k6' = t1"
    "k_words b ! EIP_IDX = f" "k_words b ! ESP_IDX = reaper_stack_top k4" "num_ticks (kb_sched k6') = 0"
    "\<not> started (kb_sched k6')" "next_tid (kb_sched k6') = 2" "next_pid (kb_sched k6') = 1" "nodes (s_heap (kb_sched k6')) n2 = None" "nodes (s_heap (kb_sched k6')) r2 = None"
    "ht_ok (processes (thr_pool (kb_sched k6')))" "ht_map (processes (thr_pool (kb_sched k6'))) = [word_of_int (-1) \<mapsto> r1]"
    by (rule boot_reaper_ok [OF B(1) mem B(2-5)])
  have k6: "k6' = k6" using idle reaper R(1,2) by simp
  have t2: "tcbs (kb_sched k6') t2 = None" using R(4) m(3) by auto
  obtain s8' c where C: "scheduler_add_init_process (be_segs v) (be_init_thread v) (be_init_node v) (be_init_entry v) (be_init v) (kb_sched k7) = Some (0, s8')"
    "sched_ok s8' ((\<lambda>_. [])(Run := [n1, n2]))" "tcbs s8' = (tcbs (kb_sched k6'))(t2 \<mapsto> c)" "t_pcb c = be_init v" "t_tid c = 2"
    "\<exists>p. pcbs s8' (be_init v) = Some p \<and> pid p = 1 \<and> original_tid p = 2 \<and> k_words c ! EIP_IDX = entry_point p \<and> k_words c ! ESP_IDX = stack_top p"
    "idle_tcb s8' = idle_tcb (kb_sched k6')" "num_ticks s8' = num_ticks (kb_sched k6')" "data (s_heap s8') n2 = t2" "reaper_tcb k7 = reaper_tcb k6'"
    by (rule boot_init_ok [OF R(3) mem t2 R(17,18,15,16,14,19,20) load [folded k6] B(6)])
  have "s8' = s8" using init C(1) by simp
  with C R r' B(7) show thesis by (intro that [of s8 a b c]) simp_all
qed

text \<open>\<open>scheduler_start\<close> sets the flag and enables interrupts; the next tick of the timer dispatches the second thread of the pool.\<close>

lemma start_ok: "sched_ok (snd (scheduler_start s)) Q = sched_ok s Q"
proof -
  let ?s = "s\<lparr>started := True, intr := True\<rparr>"
  have "status_at ?s = status_at s" "wake_at ?s = wake_at s" by (simp_all add: status_at_def wake_at_def fun_eq_iff)
  then show ?thesis
    by (simp add: scheduler_start_def sched_at_def registered_def node_ok_def statuses_ok_def sleepers_ok_def others_ok_def)
qed

lemma first_tick:
  assumes "sched_ok s ((\<lambda>_. [])(Run := [n1, n2]))" "num_ticks s = 0"
  shows "\<exists>e s'. c_timer_handler esp (snd (scheduler_start s)) = Some (e, s') \<and> scheduled s' ((\<lambda>_. [])(Run := [n2, n1])) \<and>
    cur_tcb s' = data (s_heap s) n2"
proof -
  let ?s = "snd (scheduler_start s)" and ?Q = "(\<lambda>_. [])(Run := [n1, n2])"
  have q: "?Q Run = [n1, n2]" "?Q Sleep = []" "(\<lambda>_. [])(Run := [n2, n1], Sleep := []) = (\<lambda>_. [])(Run := [n2, n1])" by (simp_all add: fun_eq_iff)
  have "sched_ok ?s ?Q" "num_ticks ?s + 1 < 2 ^ 31" using assms by (simp_all only: start_ok) (simp add: scheduler_start_def)
  from timer_ok [OF this, of esp] obtain e s' ds ss where "c_timer_handler esp ?s = Some (e, s')" "?Q Sleep = ds @ ss"
    "scheduled s' (?Q(Run := rotate1 (?Q Run @ ds), Sleep := ss))" "cur_tcb s' = next_thread ?s (?Q Run @ ds)" by metis
  then show ?thesis unfolding q by (auto simp: q(3) next_thread_def scheduler_start_def)
qed

text \<open>
  C3: When \<open>scheduler_init\<close> returns, it returns 0 and has put the kernel into a state that satisfies the invariant of the scheduler:
  three threads exist, the idle thread with tid 0, which is in no pool, the reaper with tid 1, which will start in
  \<open>reap_func\<close> at the top of its own stack, and init with tid 2 and pid 1, which will start at the entry point and on the stack that
  the loader has chosen; reaper and init are runnable, in this order. After \<open>scheduler_start\<close> the first tick of the timer
  switches to init, and the invariant of a running kernel holds from then on.
\<close>

theorem boot_invariant:
  assumes "scheduler_init v reap_func kb = Some (r, kb')" and "boot_state (kb_sched kb)" and "boot_memory v t0 t1 t2 n1 n2 r1 r2"
  shows "r = 0 \<and> sched_ok (kb_sched kb') ((\<lambda>_. [])(Run := [n1, n2])) \<and> idle_tcb (kb_sched kb') = t0 \<and> reaper_tcb kb' = t1 \<and>
    (\<exists>a b c p. tcbs (kb_sched kb') = [t0 \<mapsto> a, t1 \<mapsto> b, t2 \<mapsto> c] \<and> t_tid a = 0 \<and> t_tid b = 1 \<and> t_tid c = 2 \<and>
       t_pcb a = be_idle v \<and> t_pcb b = be_reaper v \<and> t_pcb c = be_init v \<and>
       k_words b ! EIP_IDX = reap_func \<and> k_words b ! ESP_IDX = be_stack v + 4 * PAGE_SIZE \<and>
       pcbs (kb_sched kb') (be_init v) = Some p \<and> pid p = 1 \<and> original_tid p = 2 \<and>
       k_words c ! EIP_IDX = entry_point p \<and> k_words c ! ESP_IDX = stack_top p) \<and>
    (\<exists>e s. c_timer_handler esp (snd (scheduler_start (kb_sched kb'))) = Some (e, s) \<and>
       scheduled s ((\<lambda>_. [])(Run := [n2, n1])) \<and> cur_tcb s = t2)"
proof -
  obtain a b c s where s: "r = 0" "s = kb_sched kb'" "sched_ok s ((\<lambda>_. [])(Run := [n1, n2]))" "tcbs s = [t0 \<mapsto> a, t1 \<mapsto> b, t2 \<mapsto> c]"
    "t_tid a = 0" "t_tid b = 1" "t_tid c = 2" "t_pcb a = be_idle v" "t_pcb b = be_reaper v" "t_pcb c = be_init v"
    "idle_tcb s = t0" "reaper_tcb kb' = t1" "data (s_heap s) n2 = t2" "num_ticks s = 0"
    "k_words b ! EIP_IDX = reap_func" "k_words b ! ESP_IDX = be_stack v + 4 * PAGE_SIZE"
    "\<exists>p. pcbs s (be_init v) = Some p \<and> pid p = 1 \<and> original_tid p = 2 \<and> k_words c ! EIP_IDX = entry_point p \<and> k_words c ! ESP_IDX = stack_top p"
    by (rule scheduler_init_ok [OF assms])
  show ?thesis using s(4-10,15-17) first_tick [OF s(3,14), of esp] unfolding s(13) s(2) [symmetric] by (intro conjI s(1,3,11,12)) blast+
qed

text \<open>A start in a kernel whose table of programs is empty.\<close>

definition ex_thread :: "ptr \<Rightarrow> ptr \<Rightarrow> new_thread_mem" where
  "ex_thread t n = ex_memory\<lparr>nt_tcb := pool_alloc [t], nt_node := pool_alloc [n]\<rparr>"

definition ex_env :: boot_env where
  "ex_env = \<lparr>be_segs = \<lparr>SEGSEL_USER_DS = 0x2b, SEGSEL_USER_CS = 0x23, user_eflags = 0x202\<rparr>, SEGSEL_KERNEL_DS = 0x18, SEGSEL_KERNEL_CS = 0x10,
     be_vctx = \<lparr>c_al = pool_alloc [64], c_fal = pool_alloc [64], c_junk = \<lparr>f_addr = 0, f_num_pages = 0, f_status = FRAME_DEALLOC, f_i = 0, f_buddy = 0, f_parent = 0\<rparr>,
       c_env = \<lparr>k_started = False, k_tid = -1\<rparr>\<rparr>,
     be_ums = 0x1000000, be_pages = \<lparr>kernel_pde = replicate 1024 0, is_kernel_initialized = True\<rparr>,
     be_elf = \<lparr>check_header = (\<lambda>_. False), load_helper = (\<lambda>_. None)\<rparr>, be_toc = [], be_junk = (0, 0), be_stack = 0x30000,
     be_pool = (True, True, True), be_idle = 5000, be_reaper = 5100, be_init = 5200, be_pcb_junk = ex_process, be_queues = (True, True),
     be_regs = replicate 18 0, be_idle_thread = ex_thread 1000 10, be_reaper_thread = ex_thread 2000 20, be_init_thread = ex_thread 3000 30,
     be_reaper_node = pool_alloc [40], be_reaper_entry = (7001, 6001), be_init_node = pool_alloc [50], be_init_entry = (7002, 6002),
     be_idle_name = [105], be_init_name = [105]\<rparr>"

definition ex_boot :: "vmem \<Rightarrow> frame_manager \<Rightarrow> kboot" where
  "ex_boot m fm = \<lparr>kb_sched = ex_kernel\<lparr>tcbs := Map.empty, s_heap := ex_lists\<lparr>nodes := Map.empty\<rparr>\<rparr>, reaper_stack_bot = 0, reaper_stack_top = 0,
     reaper_tcb = 0, kb_mem = m, kb_fm = fm\<rparr>"

text \<open>Here every step of the start returns.\<close>

lemma ex_kernel_pages: "NUM_KERNEL_PDE 0x1000000 = 4"
  by (simp add: NUM_KERNEL_PDE_def NUM_KERNEL_PTE_def PAGE_SHIFT_def)

lemma ex_env_steps:
  "pp \<noteq> NULL \<Longrightarrow> \<exists>k'. boot_pcb ex_env pp k = Some k'"
  "pcbs (kb_sched k) pp \<noteq> None \<Longrightarrow> \<exists>k'. boot_load ex_env pp name k = Some k'"
  by (auto simp: boot_pcb_def boot_load_def ex_env_def Let_def c_assert_def pcb_load_prog_def pcb_init_def pd_init_def
    malloc_obj_def pool_alloc_one initialize_kernel_def copy_prefix_def ex_kernel_pages)

lemma ex_env_memory: "boot_memory ex_env 1000 2000 3000 20 30 40 50"
  by (simp add: boot_memory_def ex_env_def ex_thread_def ex_memory_def)

lemma ex_boot_state: "boot_state (kb_sched (ex_boot m fm))"
proof -
  have "pool_at ex_pool k \<noteq> NULL \<and> lists ex_lists (pool_at ex_pool k) \<noteq> None" for k by (cases k) (simp_all add: ex_pool_def ex_lists_def)
  then show ?thesis using ex_on_pools by (simp add: boot_state_def ex_boot_def ex_kernel_def on_pools_def)
qed

lemma ex_returns: "\<exists>kb'. scheduler_init ex_env f (ex_boot m fm) = Some (0, kb')"
proof -
  let ?kb = "ex_boot m fm"
  have e: "be_idle ex_env \<noteq> NULL" "be_reaper ex_env \<noteq> NULL" "be_init ex_env \<noteq> NULL" "be_pool ex_env = (True, True, True)"
    "distinct [be_idle ex_env, be_reaper ex_env, be_init ex_env]" by (simp_all add: ex_env_def)
  obtain s1 where s1: "tcb_pool_init (True, True, True) ((kb_sched ?kb)\<lparr>started := False, num_ticks := 0, next_tid := 0, next_pid := 0, cur_tcb := NULL\<rparr>) = Some (0, s1)"
    "pool_ready s1" using pool_started [OF ex_boot_state] by blast
  let ?k = "?kb\<lparr>reaper_stack_bot := be_stack ex_env, reaper_stack_top := be_stack ex_env + 4 * PAGE_SIZE, kb_sched := s1\<rparr>"
  obtain k1 k2 k3 where k: "boot_pcb ex_env (be_idle ex_env) ?k = Some k1" "boot_pcb ex_env (be_reaper ex_env) k1 = Some k2" "boot_pcb ex_env (be_init ex_env) k2 = Some k3"
    using ex_env_steps(1) e(1-3) by metis
  have "pcbs (kb_sched k3) (be_idle ex_env) \<noteq> None" using boot_pcbD [OF k(1)] boot_pcbD [OF k(2)] boot_pcbD [OF k(3)] by auto
  then obtain k4 where k4: "boot_load ex_env (be_idle ex_env) (be_idle_name ex_env) k3 = Some k4" using ex_env_steps(2) by metis
  have "pool_ready (kb_sched ?k)" using s1(2) by simp
  with k k4 obtain p1 p2 where B: "pool_ready (kb_sched k4)" "pcbs (kb_sched k4) (be_idle ex_env) = Some p1" "pcbs (kb_sched k4) (be_reaper ex_env) = Some p2" "pid p2 = -1"
    "pcbs (kb_sched k4) (be_init ex_env) \<noteq> None"
    by (rule boot_blocks_ok) (rule e(5))
  obtain s5 k6 a b where R: "scheduler_add_idle_process (be_segs ex_env) (be_idle_thread ex_env) (be_idle ex_env) (kb_sched k4) = Some (0, s5)"
    "scheduler_add_reaper_proc ex_env (be_reaper ex_env) f (k4\<lparr>kb_sched := s5\<rparr>) = Some (0, k6)"
    "sched_ok (kb_sched k6) ((\<lambda>_. [])(Run := [20]))" "tcbs (kb_sched k6) = [1000 \<mapsto> a, 2000 \<mapsto> b]"
    "\<not> started (kb_sched k6)" "next_tid (kb_sched k6) = 2" "next_pid (kb_sched k6) = 1" "nodes (s_heap (kb_sched k6)) 30 = None" "nodes (s_heap (kb_sched k6)) 50 = None"
    "ht_ok (processes (thr_pool (kb_sched k6)))" "ht_map (processes (thr_pool (kb_sched k6))) = [word_of_int (-1) \<mapsto> 40]" "\<forall>q. pcbs (kb_sched k6) q = None \<longleftrightarrow> pcbs (kb_sched k4) q = None"
    by (rule boot_reaper_ok [OF B(1) ex_env_memory B(2-4) e(2), of f])
  have c: "tcbs (kb_sched k6) 3000 = None" "pcbs (kb_sched k6) (be_init ex_env) \<noteq> None" using R(4,12) B(5) by simp_all
  obtain k7 where k7: "boot_load ex_env (be_init ex_env) (be_init_name ex_env) k6 = Some k7" using ex_env_steps(2) [OF c(2)] by blast
  obtain s8 where "scheduler_add_init_process (be_segs ex_env) (be_init_thread ex_env) (be_init_node ex_env) (be_init_entry ex_env) (be_init ex_env) (kb_sched k7) = Some (0, s8)"
    by (rule boot_init_ok [OF R(3) ex_env_memory c(1) R(8,9,6,7,5,10,11) k7 e(3)])
  then show ?thesis using s1(1) e(4) k k4 R(1,2) k7 by (simp add: scheduler_init_def Let_def)
qed

theorem boot_invariant_witness:
  "\<exists>kb' b. scheduler_init ex_env 0x100000 (ex_boot empty_vm fm_unset) = Some (0, kb') \<and> sched_ok (kb_sched kb') ((\<lambda>_. [])(Run := [20, 30])) \<and>
     tcbs (kb_sched kb') 2000 = Some b \<and> k_words b ! EIP_IDX = 0x100000 \<and>
     (\<exists>e s. c_timer_handler 0 (snd (scheduler_start (kb_sched kb'))) = Some (e, s) \<and> cur_tcb s = 3000)"
proof -
  obtain kb' where k: "scheduler_init ex_env 0x100000 (ex_boot empty_vm fm_unset) = Some (0, kb')" using ex_returns by blast
  from boot_invariant [OF k ex_boot_state ex_env_memory, of 0] k show ?thesis by (elim conjE exE) (intro exI conjI, assumption+, simp, assumption+)
qed

end
