(* ===== verification/Spec2Isabelle.thy ===== *)
theory Spec2Isabelle
  imports QueueStack SemRwlock VirtualMemCorrect KeyboardCorrect KernelProps ExceptionHandlers LifeCycle
    UserList UserSem UserCond UserRwlock UserThread Autostack InterruptTable Reaper Boot
begin

text \<open>
  A verification of the Custom-OS-Kernel repository: of the kernel, its data structures,
  its locks, its physical and virtual memory management, its console and keyboard, its threads,
  processes and scheduler, its loader, its interrupt table, its start, and its system call, exception and device handlers; and of the
  thread library that its programs are linked with.
  Paths below are relative to \<open>src/\<close>.

  \<^bold>\<open>The program and its parts.\<close> Linked lists (\<open>kern/data_structures/ll.c\<close>) carry queues, stacks
  and the buckets of hash tables; a circular buffer carries the keyboard. Mutexes (an atomic
  exchange and yielding), a lock on the scheduler (the interrupt flag), semaphores and
  readers/writers locks protect the shared state (\<open>kern/locks\<close>). Physical memory is handed out by
  a buddy allocator (\<open>frame_manager.c\<close>), which is three hash tables, an array of bins and a tree of
  \<open>frame_t\<close> blocks. Page directories (\<open>page_directory.c\<close>) are two-level tables with batches of
  mapping tasks that are committed or aborted; \<open>virtual_mem_mgmt.c\<close> combines the two into the
  operations behind \<open>new_pages\<close>, \<open>remove_pages\<close>, \<open>fork\<close> and \<open>exec\<close>. The keyboard handler writes
  through \<open>keyboard.c\<close> into a circular buffer, echoes to \<open>console.c\<close> and signals a semaphore on which
  \<open>readline\<close> waits. Threads (\<open>tcb.c\<close>) belong to processes (\<open>pcb.c\<close>) and are linked into one of four lists of the
  thread pool (\<open>tcb_pool.c\<close>), which the scheduler (\<open>scheduler.c\<close>) moves them between and the dispatcher takes the next thread
  from; \<open>thr_helpers.c\<close> gives yielding, sleeping, waking and vanishing to the system calls under
  \<open>kern/handlers\<close>, which work on the memory of the calling process. A fault of a thread runs the handler that it has installed with
  \<open>swexn\<close> or ends it. \<open>exec\<close> replaces the program of a process through the loader (\<open>loader.c\<close>). The reaper, a thread of the kernel,
  frees vanished threads; \<open>scheduler_init\<close> creates it together with the idle and the init process, and \<open>install_handlers.c\<close> fills the interrupt
  table. In user space, \<open>user/libthread\<close> builds mutexes, condition variables, semaphores, readers/writers locks and threads with join
  from the system calls, and \<open>user/libautostack\<close> grows the stack of a program on page faults.

  \<^bold>\<open>How code becomes definitions.\<close> A struct is a record, an enumeration a datatype, a
  \<open>uint32_t\<close> or pointer a \<open>32 word\<close>, a pointer argument that may be NULL an option. A function
  returns \<open>(int \<times> state) option\<close>: its return code and new state, or \<open>None\<close> when the call does
  not return (a failed \<open>ASSERT\<close>, \<open>panic\<close>, a wild pointer, a fault in the kernel, a lock that is taken, a loop without
  end). A call that sleeps is split into what it does before and after; a call that leaves its thread returns the
  stack pointer of the context that is resumed. Loops over a counter are structural recursions on the number of iterations or the list
  of indices that are left; loops over pointers and the coalescing recursion are
  \<open>partial_function (option)\<close>, so that their termination is part of what is proved; there is no fuel
  anywhere. Everything outside the repository is a parameter: the allocator of the course's C library
  (\<open>allocator\<close>, with \<open>malloc_ok\<close> as its documented behaviour), the number of physical frames,
  \<open>USER_MEM_START\<close>, the size of the screen, the segment selectors and flags of the processor, the table of programs and the reader
  of ELF headers, the translation of scan codes, and the uninitialised contents of memory (\<open>junk\<close>).

  \<^bold>\<open>Theories.\<close>
  \<^item> \<open>Prelude\<close>: words, pointers, allocators, and the three interfaces used by the components as
    locales: \<open>data_refinement\<close> (each call simulates a specification, hence every sequence of calls
    does), \<open>total_calls\<close> (every call returns and keeps an invariant) and \<open>step_invariant\<close> (an
    invariant of a step relation).
  \<^item> \<open>LinkedList\<close> models every function of \<open>ll.c\<close> on a heap of nodes; \<open>LinkedListCorrect\<close> relates
    the heap to the sequence of node addresses (\<open>holds\<close>) and shows what insertion, sorted insertion,
    rotation, unlinking and relinking do to it and that nothing else changes.
  \<^item> \<open>QueueStack\<close>: \<open>queue.c\<close> and \<open>stack.c\<close> over the heap; first-in first-out, last-in first-out,
    and what \<open>stack_destroy\<close> leaks.
  \<^item> \<open>CircBuffer\<close>: \<open>circ_buffer.c\<close> with 32-bit indices refines a bounded sequence, if its length
    divides \<open>2 ^ 32\<close>; a counterexample shows why this is needed.
  \<^item> \<open>HashTable\<close>: \<open>ht.c\<close> refines a finite map.
  \<^item> \<open>Locks\<close> and \<open>SemRwlock\<close>: the lock files, as functions on their structs and as step relations
    of interleaved threads; mutual exclusion of the mutex, exact granting of semaphores, exclusion of
    writers, and two scheduling anomalies.
  \<^item> \<open>MemSection\<close>: \<open>mem_section.c\<close>; the hull of sections and the search for a section.
  \<^item> \<open>FrameManager\<close> models \<open>frame_manager.c\<close>. \<open>FrameManagerInv\<close>, \<open>FrameManagerReg\<close>,
    \<open>FrameManagerSplit\<close> and \<open>FrameManagerCorrect\<close> build the invariant: the blocks form trees of
    buddies, the hash tables register exactly the allocated, free and split blocks, each bin holds the
    free blocks of its size, and user memory is the disjoint union of the leaves. \<open>FrameManagerInit\<close>
    shows that booting establishes it and derives the contracts of \<open>fm_alloc\<close> and \<open>fm_dealloc\<close>.
  \<^item> \<open>PageDirectory\<close> models \<open>page_directory.c\<close>; \<open>PageDirectoryCorrect\<close> abstracts a directory to the
    function from pages to entries (\<open>pd_view\<close>): creating and removing mappings are function updates,
    batches are sequences of updates, other address spaces are left alone.
  \<^item> \<open>VirtualMem\<close> models \<open>virtual_mem_mgmt.c\<close>; \<open>VirtualMemCorrect\<close> composes the two previous groups
    into the behaviour of new and removed user pages.
  \<^item> \<open>Console\<close> models \<open>console.c\<close> on video memory and cursor registers; \<open>ConsoleCorrect\<close> shows that
    it implements an abstract terminal.
  \<^item> \<open>Keyboard\<close> models \<open>keyboard.c\<close>; \<open>KeyboardCorrect\<close> shows, from the contracts of the circular
    buffer, the semaphore and the console, that it implements a line editor with echo, and where its
    count of lines goes wrong.
  \<^item> \<open>Pcb\<close>, \<open>Tcb\<close>, \<open>TcbPool\<close> and \<open>Scheduler\<close> model \<open>pcb.c\<close>, \<open>tcb.c\<close>, \<open>tcb_pool.c\<close>, \<open>scheduler.c\<close>, \<open>dispatcher.c\<close> and the timer
    handler, on the heap of list nodes; \<open>SchedulerCorrect\<close> shows for each operation that it keeps the pools in order
    (\<open>sched_ok\<close>: every thread is in exactly one list that fits its status, the hash table finds its node, the sleepers are sorted).
  \<^item> \<open>UserMem\<close>: bytes and words at virtual addresses, read and written through the page tables. \<open>ThrHelpers\<close> models
    \<open>thr_helpers.c\<close>. \<open>KernelSteps\<close> makes the ticks and calls of all threads one step relation (\<open>kernel_step\<close>) and proves its
    invariant; \<open>KernelProps\<close> derives the properties of the scheduler: no call panics, threads run in turn, sleepers wake on time,
    contexts are saved and restored.
  \<^item> \<open>ThreadHandlers\<close> (\<open>thr_mgmt_handlers.c\<close>), \<open>ExceptionHandlers\<close> (\<open>exception_handlers.c\<close>), \<open>SyscallHandlers\<close>
    (\<open>mem_mgmt_handlers.c\<close>, \<open>console_io_handlers.c\<close>, \<open>misc_handlers.c\<close>, the keyboard interrupt) and \<open>LifeCycle\<close>
    (\<open>life_cycle_handlers.c\<close>) model the handlers and prove what they give to the user and where they trust him too much.
  \<^item> \<open>MapSections\<close> is the correctness of \<open>vmm_map_sections\<close>; \<open>Loader\<close> models \<open>loader.c\<close> and \<open>pcb_load_prog\<close>, and \<open>LoaderCorrect\<close>
    shows the layout of the stack of a new program.
  \<^item> \<open>NewThreads\<close> is the correctness of the creation of a thread (\<open>scheduler_add_new_thread\<close>). \<open>Reaper\<close> models \<open>tcb_pool_reap\<close>: a pass frees
    exactly what belongs to the first zombie, and two zombies of one process make the second pass read a freed
    block. \<open>Boot\<close> models \<open>scheduler_init\<close> and shows that the invariant of the scheduler holds when it returns and after the first tick.
  \<^item> \<open>InterruptTable\<close> models \<open>install_handlers.c\<close> on the bytes of the descriptor table and shows which gate each vector has in the end.
  \<^item> \<open>UserList\<close> models \<open>ll.c\<close> of the thread library, another linked list than that of the kernel. \<open>WaitQueue\<close>
    models \<open>mutex.c\<close> and holds what the locks over it share, as locales: mutual exclusion of a spin lock under interleaving, and the
    flag with which a thread deschedules itself. \<open>UserSem\<close>, \<open>UserCond\<close> and \<open>UserRwlock\<close> model \<open>sem.c\<close>, \<open>cond.c\<close> and \<open>rwlock.c\<close> and prove that
    waiting, waking and exclusion are as promised under every interleaving. \<open>UserThread\<close> models \<open>thread.c\<close>: the stacks of threads
    do not overlap, a join returns the status with which the thread has ended.
  \<^item> \<open>Autostack\<close> models the page fault handler that grows the stack.

  \<^bold>\<open>Bounds.\<close> Hypotheses on sizes are those under which the C arithmetic does not wrap: fewer than
  \<open>2 ^ 30\<close> slots for a circular buffer (its allocation is \<open>4 * len\<close> bytes), at most 32 bins and a
  page-aligned user memory below 4 GB for the frame manager, a screen whose double size fits the 16-bit
  cursor register. Allocation failure is part of every model; theorems that need an allocation to succeed
  say so.

  \<^bold>\<open>Not modelled.\<close> Context switching, interrupt wrappers, special registers and the system call stubs are assembly. Of the start,
  \<open>kernel_main\<close> itself, which calls the modelled initialisations in turn; the wrappers around the heap of the C library; of the thread
  library, \<open>thr_getid\<close>, \<open>thr_yield\<close> and the printing of \<open>thread_exception_handler\<close>; \<open>syscall.c\<close> under \<open>user/libsyscall\<close>, whose
  functions are empty placeholders; the test programs and the exercise \<open>vq_challenge\<close>.
  Debugging output (\<open>fm_print\<close>, \<open>frame_print\<close>, the dumps of exceptions) is left out of the modelled files, and the contracts
  of the console (\<open>REQUIRES\<close>, \<open>ENSURES\<close>), which are compiled out, are not calls of the model.
\<close>

end
